(* ===== verification/Kernel_Prelude.thy ===== *)
theory Kernel_Prelude
  imports Main "HOL-Library.Word" "HOL-Library.Monad_Syntax"
begin

text \<open>
  Shared vocabulary of the development: the machine types of
  \<^verbatim>\<open>include/kernel/types.h\<close>, the error codes of \<^verbatim>\<open>include/kernel/error.h\<close>, and the
  lemmas about options, lists and words that several components use.

  Conventions.  A C \<^verbatim>\<open>uint32_t\<close> or \<^verbatim>\<open>unsigned\<close> is a \<open>32 word\<close> where wrap-around can
  matter; a C \<^verbatim>\<open>int\<close> is an \<open>int\<close>, with \<open>i32\<close> applied wherever the source can leave
  the 32-bit range.  Pointers to kernel structures are \<open>nat\<close>, the null pointer is
  \<open>0\<close>.  A result \<open>None\<close> of a function that models a C function means that the C
  function does not return normally: it dereferences a null pointer, or halts the machine.
\<close>

unbundle bit_operations_syntax

type_synonym u8 = "8 word"
type_synonym u16 = "16 word"
type_synonym u32 = "32 word"
type_synonym ptr = nat

named_theorems kdefs \<open>definitions of kernel operations, for unfolding in one place\<close>
named_theorems kframe \<open>what an operation leaves unchanged\<close>

section \<open>Constants of the kernel headers\<close>

definition PAGE_SIZE :: nat where "PAGE_SIZE = 4096"
definition PAGE_BITS :: nat where "PAGE_BITS = 12"

text \<open>The error codes: every failing kernel operation returns one of these negative values.\<close>

datatype kernel_error_t =
    KERROR_NOT_FOUND
  | KERROR_INVALID_REQUEST
  | KERROR_PERMISSION_DENIED
  | KERROR_NOT_IMPLEMENTED
  | KERROR_NOT_EXECUTABLE
  | KERROR_EXECUTION_FAILED
  | KERROR_NOT_A_DIRECTORY
  | KERROR_NOT_A_FILE
  | KERROR_NOT_A_WINDOW
  | KERROR_NOT_A_DEVICE
  | KERROR_NOT_A_CONSOLE
  | KERROR_NOT_A_PIPE
  | KERROR_INVALID_SYSCALL
  | KERROR_INVALID_OBJECT
  | KERROR_INVALID_ADDRESS
  | KERROR_INVALID_PATH
  | KERROR_INVALID_TAG
  | KERROR_OUT_OF_MEMORY
  | KERROR_OUT_OF_OBJECTS
  | KERROR_OUT_OF_SPACE
  | KERROR_FILE_EXISTS
  | KERROR_NOT_EMPTY

fun kerr :: "kernel_error_t \<Rightarrow> int" where
  "kerr KERROR_NOT_FOUND = -1"
| "kerr KERROR_INVALID_REQUEST = -2"
| "kerr KERROR_PERMISSION_DENIED = -3"
| "kerr KERROR_NOT_IMPLEMENTED = -4"
| "kerr KERROR_NOT_EXECUTABLE = -5"
| "kerr KERROR_EXECUTION_FAILED = -6"
| "kerr KERROR_NOT_A_DIRECTORY = -7"
| "kerr KERROR_NOT_A_FILE = -8"
| "kerr KERROR_NOT_A_WINDOW = -9"
| "kerr KERROR_NOT_A_DEVICE = -10"
| "kerr KERROR_NOT_A_CONSOLE = -11"
| "kerr KERROR_NOT_A_PIPE = -12"
| "kerr KERROR_INVALID_SYSCALL = -13"
| "kerr KERROR_INVALID_OBJECT = -14"
| "kerr KERROR_INVALID_ADDRESS = -15"
| "kerr KERROR_INVALID_PATH = -16"
| "kerr KERROR_INVALID_TAG = -17"
| "kerr KERROR_OUT_OF_MEMORY = -18"
| "kerr KERROR_OUT_OF_OBJECTS = -19"
| "kerr KERROR_OUT_OF_SPACE = -20"
| "kerr KERROR_FILE_EXISTS = -21"
| "kerr KERROR_NOT_EMPTY = -22"

lemma kerr_neg [simp]: "kerr e < 0"
  by (cases e) auto

lemma kerr_not_nonneg [simp]: "\<not> 0 \<le> kerr e"
  using kerr_neg [of e] by linarith

lemma kerr_inj: "kerr e = kerr e' \<Longrightarrow> e = e'"
  by (cases e; cases e'; simp)

section \<open>Thirty-two bit integers\<close>

definition i32 :: "int \<Rightarrow> int" where
  "i32 x = (x + 2 ^ 31) mod 2 ^ 32 - 2 ^ 31"

lemma i32_id [simp]: "- (2 ^ 31) \<le> x \<Longrightarrow> x < 2 ^ 31 \<Longrightarrow> i32 x = x"
  by (simp add: i32_def)

lemma i32_of_nat [simp]: "n < 2 ^ 31 \<Longrightarrow> i32 (int n) = int n"
  by (rule i32_id) simp_all

lemma i32_bounds: "- (2 ^ 31) \<le> i32 x" "i32 x < 2 ^ 31"
proof -
  have "0 \<le> (x + 2 ^ 31) mod 2 ^ 32" "(x + 2 ^ 31) mod 2 ^ 32 < (2 ^ 32 :: int)"
    by simp_all
  then show "- (2 ^ 31) \<le> i32 x" "i32 x < 2 ^ 31"
    by (simp_all add: i32_def)
qed

text \<open>Converting to an unsigned word forgets the wrap-around.\<close>

lemma word_of_int_i32 [simp]: "(word_of_int (i32 x) :: u32) = word_of_int x"
  unfolding word_of_int_eq_iff i32_def take_bit_eq_mod by (simp add: mod_simps)

text \<open>C division and remainder truncate towards zero.\<close>

definition c_div :: "int \<Rightarrow> int \<Rightarrow> int" where
  "c_div a b = sgn a * sgn b * (\<bar>a\<bar> div \<bar>b\<bar>)"

definition c_mod :: "int \<Rightarrow> int \<Rightarrow> int" where
  "c_mod a b = a - b * c_div a b"

lemma c_div_nonneg [simp]: "0 \<le> a \<Longrightarrow> 0 < b \<Longrightarrow> c_div a b = a div b"
  by (cases "a = 0") (simp_all add: c_div_def)

lemma c_mod_nonneg [simp]: "0 \<le> a \<Longrightarrow> 0 < b \<Longrightarrow> c_mod a b = a mod b"
  by (simp add: c_mod_def minus_mult_div_eq_mod)

lemma unat_of_nat_eq: "n < 2 ^ LENGTH('a) \<Longrightarrow> unat (of_nat n :: 'a::len word) = n"
  by (simp add: unat_of_nat)

section \<open>Lists and options\<close>

lemma hd_or_null [simp]: "xs \<noteq> [] \<Longrightarrow> (case xs of [] \<Rightarrow> a | y # ys \<Rightarrow> f y) = f (hd xs)"
  by (cases xs) auto

lemma last_or_Nil: "xs \<noteq> [] \<Longrightarrow> \<exists>ys x. xs = ys @ [x]"
  by (metis append_butlast_last_id)

lemma list_update_append_length [simp]: "(xs @ y # ys)[length xs := z] = xs @ z # ys"
  by (simp add: list_update_append)

end
