(* ===== verification/Klist.thy ===== *)
theory Klist
  imports Kernel_Prelude
begin

text \<open>
  The intrusive doubly linked list of \<^verbatim>\<open>kernel/list.h\<close> and \<^verbatim>\<open>kernel/list.c\<close>, on an explicit
  store.  A \<open>list_node\<close> is embedded in its owner (a process, a cache entry), so the address
  of a node is the address of its owner.  The store maps addresses to nodes and to list
  headers; every operation dereferences exactly the pointers the C code dereferences, and a
  null dereference is the result \<open>None\<close>.

  The abstract view of a list is the Isabelle list of its node addresses, tied to the store
  by \<open>list_rep\<close>.  Each operation is proved to implement its counterpart on Isabelle lists,
  and to leave every other list of the store alone.
\<close>

section \<open>Data\<close>

record list_node =
  nxt :: ptr
  prv :: ptr
  owner :: ptr \<comment> \<open>the field \<^verbatim>\<open>list\<close>\<close>
  priority :: int

record klist =
  head :: ptr
  tail :: ptr
  lsize :: int \<comment> \<open>the field \<^verbatim>\<open>size\<close>\<close>

record lheap =
  nodes :: "ptr \<Rightarrow> list_node"
  lists :: "ptr \<Rightarrow> klist"

definition LIST_INIT :: klist where
  "LIST_INIT = \<lparr>head = 0, tail = 0, lsize = 0\<rparr>"

text \<open>Field assignments through a pointer; writing through null faults.\<close>

definition upd_node :: "ptr \<Rightarrow> (list_node \<Rightarrow> list_node) \<Rightarrow> lheap \<Rightarrow> lheap option" where
  "upd_node p f h = (if p = 0 then None else Some (h\<lparr>nodes := (nodes h)(p := f (nodes h p))\<rparr>))"

definition upd_list :: "ptr \<Rightarrow> (klist \<Rightarrow> klist) \<Rightarrow> lheap \<Rightarrow> lheap option" where
  "upd_list p f h = (if p = 0 then None else Some (h\<lparr>lists := (lists h)(p := f (lists h p))\<rparr>))"

definition get_node :: "ptr \<Rightarrow> lheap \<Rightarrow> list_node option" where
  "get_node p h = (if p = 0 then None else Some (nodes h p))"

definition get_list :: "ptr \<Rightarrow> lheap \<Rightarrow> klist option" where
  "get_list p h = (if p = 0 then None else Some (lists h p))"

lemmas heap_access = upd_node_def upd_list_def get_node_def get_list_def

section \<open>Operations\<close>

definition list_push_head :: "ptr \<Rightarrow> ptr \<Rightarrow> lheap \<Rightarrow> lheap option" where
  "list_push_head l n h = do {
     L \<leftarrow> get_list l h;
     h \<leftarrow> upd_node n (\<lambda>x. x\<lparr>nxt := head L, prv := 0, priority := 0\<rparr>) h;
     h \<leftarrow> (if head L \<noteq> 0 then upd_node (head L) (\<lambda>x. x\<lparr>prv := n\<rparr>) h else Some h);
     h \<leftarrow> upd_list l (\<lambda>x. x\<lparr>head := n\<rparr>) h;
     L \<leftarrow> get_list l h;
     h \<leftarrow> (if tail L = 0 then upd_list l (\<lambda>x. x\<lparr>tail := n\<rparr>) h else Some h);
     h \<leftarrow> upd_node n (\<lambda>x. x\<lparr>owner := l\<rparr>) h;
     upd_list l (\<lambda>x. x\<lparr>lsize := lsize x + 1\<rparr>) h
   }"

definition list_push_tail :: "ptr \<Rightarrow> ptr \<Rightarrow> lheap \<Rightarrow> lheap option" where
  "list_push_tail l n h = do {
     L \<leftarrow> get_list l h;
     h \<leftarrow> upd_node n (\<lambda>x. x\<lparr>prv := tail L, nxt := 0, priority := 0\<rparr>) h;
     h \<leftarrow> (if tail L \<noteq> 0 then upd_node (tail L) (\<lambda>x. x\<lparr>nxt := n\<rparr>) h else Some h);
     h \<leftarrow> upd_list l (\<lambda>x. x\<lparr>tail := n\<rparr>) h;
     L \<leftarrow> get_list l h;
     h \<leftarrow> (if head L = 0 then upd_list l (\<lambda>x. x\<lparr>head := n\<rparr>) h else Some h);
     h \<leftarrow> upd_node n (\<lambda>x. x\<lparr>owner := l\<rparr>) h;
     upd_list l (\<lambda>x. x\<lparr>lsize := lsize x + 1\<rparr>) h
   }"

text \<open>
  The insertion in the middle of the loop of \<^verbatim>\<open>list_push_priority\<close>, before the node \<open>m\<close>,
  and the loop itself.  The loop counter stops the search after 5000 nodes, so the loop
  terminates on every store, also on a cyclic one.
\<close>

definition list_insert_before :: "ptr \<Rightarrow> ptr \<Rightarrow> int \<Rightarrow> ptr \<Rightarrow> lheap \<Rightarrow> lheap option" where
  "list_insert_before l n pri m h = do {
     M \<leftarrow> get_node m h;
     h \<leftarrow> upd_node n (\<lambda>x. x\<lparr>nxt := m, prv := prv M, priority := pri\<rparr>) h;
     M \<leftarrow> get_node m h;
     h \<leftarrow> (if prv M \<noteq> 0 then upd_node (prv M) (\<lambda>x. x\<lparr>nxt := n\<rparr>) h
          else upd_list l (\<lambda>x. x\<lparr>head := n\<rparr>) h);
     h \<leftarrow> upd_node m (\<lambda>x. x\<lparr>prv := n\<rparr>) h;
     h \<leftarrow> upd_node n (\<lambda>x. x\<lparr>owner := l\<rparr>) h;
     upd_list l (\<lambda>x. x\<lparr>lsize := lsize x + 1\<rparr>) h
   }"

function list_push_priority_loop :: "ptr \<Rightarrow> ptr \<Rightarrow> int \<Rightarrow> ptr \<Rightarrow> int \<Rightarrow> lheap \<Rightarrow> lheap option" where
  "list_push_priority_loop l n pri m i h =
     (if m = 0 then list_push_tail l n h
      else if pri > priority (nodes h m) \<or> i > 5000 then list_insert_before l n pri m h
      else list_push_priority_loop l n pri (nxt (nodes h m)) (i + 1) h)"
  by pat_completeness auto
termination
  by (relation "measure (\<lambda>(l, n, pri, m, i, h). nat (5001 - i))") auto

declare list_push_priority_loop.simps [simp del]

definition list_push_priority :: "ptr \<Rightarrow> ptr \<Rightarrow> int \<Rightarrow> lheap \<Rightarrow> lheap option" where
  "list_push_priority l n pri h = do {
     L \<leftarrow> get_list l h;
     if head L = 0 then list_push_head l n h
     else list_push_priority_loop l n pri (head L) 0 h
   }"

definition list_pop_head :: "ptr \<Rightarrow> lheap \<Rightarrow> (ptr \<times> lheap) option" where
  "list_pop_head l h = do {
     L \<leftarrow> get_list l h;
     let result = head L;
     if head L \<noteq> 0 then do {
       N \<leftarrow> get_node (head L) h;
       h \<leftarrow> upd_list l (\<lambda>x. x\<lparr>head := nxt N\<rparr>) h;
       L \<leftarrow> get_list l h;
       h \<leftarrow> (if head L \<noteq> 0 then upd_node (head L) (\<lambda>x. x\<lparr>prv := 0\<rparr>) h else Some h);
       h \<leftarrow> (if head L = 0 then upd_list l (\<lambda>x. x\<lparr>tail := 0\<rparr>) h else Some h);
       h \<leftarrow> upd_node result (\<lambda>x. x\<lparr>nxt := 0, prv := 0, owner := 0\<rparr>) h;
       h \<leftarrow> upd_list l (\<lambda>x. x\<lparr>lsize := lsize x - 1\<rparr>) h;
       Some (result, h)
     } else Some (result, h)
   }"

definition list_pop_tail :: "ptr \<Rightarrow> lheap \<Rightarrow> (ptr \<times> lheap) option" where
  "list_pop_tail l h = do {
     L \<leftarrow> get_list l h;
     let result = tail L;
     if tail L \<noteq> 0 then do {
       N \<leftarrow> get_node (tail L) h;
       h \<leftarrow> upd_list l (\<lambda>x. x\<lparr>tail := prv N\<rparr>) h;
       L \<leftarrow> get_list l h;
       h \<leftarrow> (if tail L \<noteq> 0 then upd_node (tail L) (\<lambda>x. x\<lparr>nxt := 0\<rparr>) h else Some h);
       h \<leftarrow> (if tail L = 0 then upd_list l (\<lambda>x. x\<lparr>head := 0\<rparr>) h else Some h);
       h \<leftarrow> upd_node result (\<lambda>x. x\<lparr>nxt := 0, prv := 0, owner := 0\<rparr>) h;
       h \<leftarrow> upd_list l (\<lambda>x. x\<lparr>lsize := lsize x - 1\<rparr>) h;
       Some (result, h)
     } else Some (result, h)
   }"

text \<open>
  In the last branch the source clears \<^verbatim>\<open>node->list\<close> and then decrements
  \<^verbatim>\<open>node->list->size\<close>, through the pointer it has just cleared.
\<close>

definition list_remove :: "ptr \<Rightarrow> lheap \<Rightarrow> lheap option" where
  "list_remove n h = do {
     N \<leftarrow> get_node n h;
     if owner N = 0 then Some h
     else do {
       L \<leftarrow> get_list (owner N) h;
       if head L = n then map_option snd (list_pop_head (owner N) h)
       else if tail L = n then map_option snd (list_pop_tail (owner N) h)
       else do {
         h \<leftarrow> upd_node (nxt N) (\<lambda>x. x\<lparr>prv := prv N\<rparr>) h;
         N \<leftarrow> get_node n h;
         h \<leftarrow> upd_node (prv N) (\<lambda>x. x\<lparr>nxt := nxt N\<rparr>) h;
         h \<leftarrow> upd_node n (\<lambda>x. x\<lparr>nxt := 0, prv := 0\<rparr>) h;
         h \<leftarrow> upd_node n (\<lambda>x. x\<lparr>owner := 0\<rparr>) h;
         N \<leftarrow> get_node n h;
         upd_list (owner N) (\<lambda>x. x\<lparr>lsize := lsize x - 1\<rparr>) h
       }
     }
   }"

definition list_size :: "ptr \<Rightarrow> lheap \<Rightarrow> int option" where
  "list_size l h = map_option lsize (get_list l h)"

section \<open>The abstract view\<close>

text \<open>The first node of a list, or what follows it if it is empty; dually the last.\<close>

fun hdq :: "ptr list \<Rightarrow> ptr \<Rightarrow> ptr" where
  "hdq [] q = q"
| "hdq (x # xs) q = x"

fun lastq :: "ptr \<Rightarrow> ptr list \<Rightarrow> ptr" where
  "lastq p [] = p"
| "lastq p (x # xs) = lastq x xs"

lemma hdq_append [simp]: "hdq (xs @ ys) q = hdq xs (hdq ys q)"
  by (cases xs) auto

lemma lastq_append [simp]: "lastq p (xs @ ys) = lastq (lastq p xs) ys"
  by (induction xs arbitrary: p) auto

lemma lastq_last: "lastq p xs = (if xs = [] then p else last xs)"
  by (induction xs arbitrary: p) auto

lemma lastq_in: "lastq p xs = p \<and> xs = [] \<or> lastq p xs \<in> set xs"
  by (simp add: lastq_last)

lemma hdq_in: "hdq xs q = q \<and> xs = [] \<or> hdq xs q \<in> set xs"
  by (cases xs) auto

text \<open>
  \<open>dll h l p xs q\<close>: the nodes \<open>xs\<close> of list \<open>l\<close> are linked in order, the predecessor of
  the first is \<open>p\<close> and the successor of the last is \<open>q\<close>.
\<close>

fun dll :: "(ptr \<Rightarrow> list_node) \<Rightarrow> ptr \<Rightarrow> ptr \<Rightarrow> ptr list \<Rightarrow> ptr \<Rightarrow> bool" where
  "dll f l p [] q \<longleftrightarrow> True"
| "dll f l p (x # xs) q \<longleftrightarrow> x \<noteq> 0 \<and> prv (f x) = p \<and> owner (f x) = l \<and>
     nxt (f x) = hdq xs q \<and> dll f l x xs q"

definition list_rep :: "lheap \<Rightarrow> ptr \<Rightarrow> ptr list \<Rightarrow> bool" where
  "list_rep h l xs \<longleftrightarrow> l \<noteq> 0 \<and> distinct xs \<and> dll (nodes h) l 0 xs 0 \<and>
     head (lists h l) = hdq xs 0 \<and> tail (lists h l) = lastq 0 xs \<and>
     lsize (lists h l) = int (length xs)"

lemma dll_append [simp]:
  "dll f l p (xs @ ys) q \<longleftrightarrow> dll f l p xs (hdq ys q) \<and> dll f l (lastq p xs) ys q"
  by (induction xs arbitrary: p) auto

lemma dll_upd [simp]: "n \<notin> set xs \<Longrightarrow> dll (f(n := v)) l p xs q = dll f l p xs q"
  by (induction xs arbitrary: p) auto

lemma dll_nonnull: "dll f l p xs q \<Longrightarrow> 0 \<notin> set xs"
  by (induction xs arbitrary: p) auto

lemma dll_owner: "dll f l p xs q \<Longrightarrow> x \<in> set xs \<Longrightarrow> owner (f x) = l"
  by (induction xs arbitrary: p) auto

lemma list_rep_nonnull: "list_rep h l xs \<Longrightarrow> 0 \<notin> set xs"
  by (auto simp: list_rep_def dest: dll_nonnull)

lemma list_rep_owner: "list_rep h l xs \<Longrightarrow> x \<in> set xs \<Longrightarrow> owner (nodes h x) = l"
  by (auto simp: list_rep_def dest: dll_owner)

text \<open>Lists of one store are disjoint, because a node records its list.\<close>

lemma list_rep_disjoint:
  "list_rep h l xs \<Longrightarrow> list_rep h l' ys \<Longrightarrow> l \<noteq> l' \<Longrightarrow> set xs \<inter> set ys = {}"
  by (auto dest: list_rep_owner)

section \<open>What an operation may change\<close>

text \<open>Only the header of list \<open>l\<close> and the nodes in \<open>S\<close> differ.\<close>

definition heap_frame :: "ptr \<Rightarrow> ptr set \<Rightarrow> lheap \<Rightarrow> lheap \<Rightarrow> bool" where
  "heap_frame l S h h' \<longleftrightarrow>
     (\<forall>l'. l' \<noteq> l \<longrightarrow> lists h' l' = lists h l') \<and> (\<forall>n. n \<notin> S \<longrightarrow> nodes h' n = nodes h n)"

lemma dll_cong: "(\<And>x. x \<in> set xs \<Longrightarrow> f x = g x) \<Longrightarrow> dll f l p xs q = dll g l p xs q"
  by (induction xs arbitrary: p) auto

lemma heap_frame_other:
  assumes "heap_frame l S h h'" "list_rep h l' ys" "l' \<noteq> l" "S \<inter> set ys = {}"
  shows "list_rep h' l' ys"
proof -
  have "dll (nodes h') l' 0 ys 0 = dll (nodes h) l' 0 ys 0"
    using assms by (intro dll_cong) (auto simp: heap_frame_def)
  with assms show ?thesis by (simp add: list_rep_def heap_frame_def)
qed

section \<open>Each operation implements its counterpart on Isabelle lists\<close>

text \<open>
  The refinement statement of an operation that adds node \<open>n\<close> to list \<open>l\<close>, giving the
  abstract list \<open>ys\<close>: it does not fault, \<open>l\<close> represents \<open>ys\<close> afterwards, and no other
  list changes unless it holds \<open>n\<close>.
\<close>

lemma push_head_rep:
  assumes "list_rep h l xs" "n \<noteq> 0" "n \<notin> set xs"
  obtains h' where "list_push_head l n h = Some h'" "list_rep h' l (n # xs)"
    "heap_frame l (insert n (set xs)) h h'" "priority (nodes h' n) = 0"
    "\<forall>x\<in>set xs. priority (nodes h' x) = priority (nodes h x)"
proof (cases xs)
  case Nil
  with assms that show ?thesis
    by (auto simp: list_push_head_def heap_access list_rep_def heap_frame_def)
next
  case (Cons y ys)
  have "lastq y ys \<in> set xs" "y \<in> set xs" "0 \<notin> set xs"
    using assms(1) Cons lastq_in [of y ys] by (auto dest: list_rep_nonnull)
  then have "lastq y ys \<noteq> 0" "y \<noteq> 0" by metis+
  with Cons assms that show ?thesis
    by (auto simp: list_push_head_def heap_access list_rep_def heap_frame_def)
qed

lemma push_tail_rep:
  assumes "list_rep h l xs" "n \<noteq> 0" "n \<notin> set xs"
  obtains h' where "list_push_tail l n h = Some h'" "list_rep h' l (xs @ [n])"
    "heap_frame l (insert n (set xs)) h h'" "priority (nodes h' n) = 0"
    "\<forall>x\<in>set xs. priority (nodes h' x) = priority (nodes h x)"
proof (cases xs rule: rev_cases)
  case Nil
  with assms that show ?thesis
    by (auto simp: list_push_tail_def heap_access list_rep_def heap_frame_def)
next
  case (snoc ys y)
  have "hdq ys y \<in> set xs" "y \<in> set xs" "0 \<notin> set xs"
    using assms(1) snoc hdq_in [of ys y] by (auto dest: list_rep_nonnull)
  then have "hdq ys y \<noteq> 0" "y \<noteq> 0" by metis+
  with snoc assms that show ?thesis
    by (auto simp: list_push_tail_def heap_access list_rep_def heap_frame_def)
qed

lemma pop_head_rep:
  assumes "list_rep h l (n # xs)"
  obtains h' where "list_pop_head l h = Some (n, h')" "list_rep h' l xs"
    "heap_frame l (insert n (set xs)) h h'" "owner (nodes h' n) = 0"
  using assms that by (cases xs)
    (auto simp: list_pop_head_def heap_access list_rep_def heap_frame_def)

lemma pop_head_empty: "list_rep h l [] \<Longrightarrow> list_pop_head l h = Some (0, h)"
  by (simp add: list_pop_head_def heap_access list_rep_def)

lemma pop_tail_rep:
  assumes "list_rep h l (xs @ [n])"
  obtains h' where "list_pop_tail l h = Some (n, h')" "list_rep h' l xs"
    "heap_frame l (insert n (set xs)) h h'" "owner (nodes h' n) = 0"
  using assms that by (cases xs rule: rev_cases)
    (auto simp: list_pop_tail_def heap_access list_rep_def heap_frame_def)

lemma pop_tail_empty: "list_rep h l [] \<Longrightarrow> list_pop_tail l h = Some (0, h)"
  by (simp add: list_pop_tail_def heap_access list_rep_def)

text \<open>The insertion in the middle, and the search loop of \<^verbatim>\<open>list_push_priority\<close>.\<close>

lemma insert_before_rep:
  assumes "list_rep h l (xs @ m # ys)" "n \<noteq> 0" "n \<notin> set (xs @ m # ys)"
  obtains h' where "list_insert_before l n pri m h = Some h'"
    "list_rep h' l (xs @ n # m # ys)"
    "heap_frame l (insert n (set (xs @ m # ys))) h h'" "priority (nodes h' n) = pri"
    "\<forall>x\<in>set (xs @ m # ys). priority (nodes h' x) = priority (nodes h x)"
proof (cases xs rule: rev_cases)
  case Nil
  with assms that show ?thesis
    by (auto simp: list_insert_before_def heap_access list_rep_def heap_frame_def)
next
  case (snoc us u)
  with assms that show ?thesis
    by (auto simp: list_insert_before_def heap_access list_rep_def heap_frame_def)
qed

definition priority_insert :: "(ptr \<Rightarrow> int) \<Rightarrow> int \<Rightarrow> ptr \<Rightarrow> ptr list \<Rightarrow> ptr list" where
  "priority_insert f pri n xs =
     takeWhile (\<lambda>m. pri \<le> f m) xs @ n # dropWhile (\<lambda>m. pri \<le> f m) xs"

definition prio_of :: "lheap \<Rightarrow> ptr \<Rightarrow> int" where
  "prio_of h n = priority (nodes h n)"

lemma push_priority_loop_rep:
  assumes "list_rep h l (us @ xs)" "n \<noteq> 0" "n \<notin> set (us @ xs)" "0 \<le> i"
    "i + int (length xs) \<le> 5001"
  shows "\<exists>h'. list_push_priority_loop l n pri (hdq xs 0) i h = Some h' \<and>
    list_rep h' l (us @ priority_insert (prio_of h) pri n xs) \<and>
    heap_frame l (insert n (set (us @ xs))) h h' \<and>
    prio_of h' n = (if \<exists>m\<in>set xs. prio_of h m < pri then pri else 0)"
  using assms
proof (induction xs arbitrary: us i)
  case Nil
  then obtain h' where "list_push_tail l n h = Some h'" "list_rep h' l (us @ [n])"
    "heap_frame l (insert n (set us)) h h'" "priority (nodes h' n) = 0"
    by (auto elim: push_tail_rep)
  then show ?case
    by (simp add: list_push_priority_loop.simps priority_insert_def prio_of_def)
next
  case (Cons m xs)
  then have m: "m \<noteq> 0" and nx: "nxt (nodes h m) = hdq xs 0" by (auto simp: list_rep_def)
  show ?case
  proof (cases "prio_of h m < pri")
    case True
    obtain h' where "list_insert_before l n pri m h = Some h'" "list_rep h' l (us @ n # m # xs)"
      "heap_frame l (insert n (set (us @ m # xs))) h h'" "priority (nodes h' n) = pri"
      using insert_before_rep [OF Cons.prems(1-3)] by metis
    with True m show ?thesis
      by (auto simp: list_push_priority_loop.simps [of l n pri m] priority_insert_def prio_of_def)
  next
    case False
    have "\<exists>h'. list_push_priority_loop l n pri (hdq xs 0) (i + 1) h = Some h' \<and>
      list_rep h' l ((us @ [m]) @ priority_insert (prio_of h) pri n xs) \<and>
      heap_frame l (insert n (set ((us @ [m]) @ xs))) h h' \<and>
      prio_of h' n = (if \<exists>m\<in>set xs. prio_of h m < pri then pri else 0)"
      using Cons.prems by (intro Cons.IH) auto
    with False m nx Cons.prems(4,5) show ?thesis
      by (simp add: list_push_priority_loop.simps [of l n pri m] priority_insert_def prio_of_def)
  qed
qed

lemma push_priority_rep:
  assumes "list_rep h l xs" "n \<noteq> 0" "n \<notin> set xs" "length xs \<le> 5000"
  shows "\<exists>h'. list_push_priority l n pri h = Some h' \<and>
    list_rep h' l (priority_insert (prio_of h) pri n xs) \<and>
    heap_frame l (insert n (set xs)) h h' \<and>
    prio_of h' n = (if \<exists>m\<in>set xs. prio_of h m < pri then pri else 0)"
proof (cases "xs = []")
  case True
  with assms(1-3) obtain h' where "list_push_head l n h = Some h'" "list_rep h' l [n]"
    "heap_frame l {n} h h'" "priority (nodes h' n) = 0"
    by (auto elim: push_head_rep)
  with True assms(1) show ?thesis
    by (simp add: list_push_priority_def priority_insert_def prio_of_def heap_access list_rep_def)
next
  case False
  then have "hdq xs 0 \<noteq> 0" using assms(1) hdq_in [of xs 0] list_rep_nonnull by metis
  moreover have "head (lists h l) = hdq xs 0" "l \<noteq> 0" using assms(1) by (simp_all add: list_rep_def)
  ultimately show ?thesis
    using push_priority_loop_rep [of h l "[]" xs n 0 pri] assms
    by (simp add: list_push_priority_def heap_access)
qed

section \<open>Removal\<close>

lemma remove_head_rep:
  assumes "list_rep h l (n # xs)"
  obtains h' where "list_remove n h = Some h'" "list_rep h' l xs"
    "heap_frame l (insert n (set xs)) h h'" "owner (nodes h' n) = 0"
proof -
  obtain h' where "list_pop_head l h = Some (n, h')" "list_rep h' l xs"
    "heap_frame l (insert n (set xs)) h h'" "owner (nodes h' n) = 0"
    using pop_head_rep [OF assms] by metis
  then show ?thesis
    using assms by (intro that) (auto simp: list_remove_def heap_access list_rep_def)
qed

lemma remove_tail_rep:
  assumes "list_rep h l (xs @ [n])"
  obtains h' where "list_remove n h = Some h'" "list_rep h' l xs"
    "heap_frame l (insert n (set xs)) h h'" "owner (nodes h' n) = 0"
proof (cases xs)
  case Nil
  with assms that show ?thesis using remove_head_rep [of h l n "[]"] by auto
next
  case (Cons y ys)
  obtain h' where "list_pop_tail l h = Some (n, h')" "list_rep h' l xs"
    "heap_frame l (insert n (set xs)) h h'" "owner (nodes h' n) = 0"
    using pop_tail_rep [OF assms] by metis
  then show ?thesis
    using assms Cons by (intro that) (auto simp: list_remove_def heap_access list_rep_def)
qed

lemma remove_interior_faults:
  assumes "list_rep h l (xs @ n # ys)" "xs \<noteq> []" "ys \<noteq> []"
  shows "list_remove n h = None"
proof -
  have nd: "n \<notin> set xs" "n \<notin> set ys" and l: "l \<noteq> 0" "n \<noteq> 0"
    using assms(1) by (auto simp: list_rep_def)
  have hd: "head (lists h l) \<noteq> n" and tl: "tail (lists h l) \<noteq> n"
    using assms nd hdq_in [of xs n] lastq_in [of n ys] by (auto simp: list_rep_def)
  have "owner (nodes h n) = l" "nxt (nodes h n) = hdq ys 0" "prv (nodes h n) = lastq 0 xs"
    using assms(1) by (auto simp: list_rep_def)
  moreover have "n \<noteq> hdq ys 0" "n \<noteq> lastq 0 xs"
    using assms nd hdq_in [of ys 0] lastq_in [of 0 xs] by auto
  ultimately show ?thesis
    using hd tl l by (simp add: list_remove_def heap_access)
qed

lemma remove_detached: "n \<noteq> 0 \<Longrightarrow> owner (nodes h n) = 0 \<Longrightarrow> list_remove n h = Some h"
  by (simp add: list_remove_def heap_access)

section \<open>The queue interface\<close>

text \<open>
  What the scheduler, the pipes and the buffer cache rely on: a FIFO queue on a shared
  store.  \<open>enq\<close> adds an element that is not queued, \<open>deq\<close> removes the oldest and returns
  the null address on an empty queue; other queues of the store are untouched.
\<close>

locale fifo_store =
  fixes enq :: "'q \<Rightarrow> ptr \<Rightarrow> 'h \<Rightarrow> 'h option"
    and deq :: "'q \<Rightarrow> 'h \<Rightarrow> (ptr \<times> 'h) option"
    and rep :: "'h \<Rightarrow> 'q \<Rightarrow> ptr list \<Rightarrow> bool"
  assumes rep_nonnull: "rep h q xs \<Longrightarrow> 0 \<notin> set xs"
    and enq_rep: "rep h q xs \<Longrightarrow> n \<noteq> 0 \<Longrightarrow> n \<notin> set xs \<Longrightarrow>
      \<exists>h'. enq q n h = Some h' \<and> rep h' q (xs @ [n]) \<and>
        (\<forall>q' ys. q' \<noteq> q \<longrightarrow> n \<notin> set ys \<longrightarrow> rep h q' ys \<longrightarrow> rep h' q' ys)"
    and deq_rep: "rep h q (n # xs) \<Longrightarrow>
      \<exists>h'. deq q h = Some (n, h') \<and> rep h' q xs \<and>
        (\<forall>q' ys. q' \<noteq> q \<longrightarrow> rep h q' ys \<longrightarrow> rep h' q' ys)"
    and deq_empty: "rep h q [] \<Longrightarrow> deq q h = Some (0, h)"
begin

primrec enq_all :: "'q \<Rightarrow> ptr list \<Rightarrow> 'h \<Rightarrow> 'h option" where
  "enq_all q [] h = Some h"
| "enq_all q (x # xs) h = Option.bind (enq q x h) (enq_all q xs)"

primrec deq_many :: "nat \<Rightarrow> 'q \<Rightarrow> 'h \<Rightarrow> (ptr list \<times> 'h) option" where
  "deq_many 0 q h = Some ([], h)"
| "deq_many (Suc k) q h = do {
     (x, h) \<leftarrow> deq q h;
     (xs, h) \<leftarrow> deq_many k q h;
     Some (x # xs, h)
   }"

lemma enq_all_rep:
  "rep h q xs \<Longrightarrow> distinct (xs @ ys) \<Longrightarrow> 0 \<notin> set ys \<Longrightarrow>
     \<exists>h'. enq_all q ys h = Some h' \<and> rep h' q (xs @ ys)"
proof (induction ys arbitrary: h xs)
  case (Cons y ys)
  then obtain h1 where h1: "enq q y h = Some h1" "rep h1 q (xs @ [y])"
    using enq_rep [of h q xs y] by auto
  with Cons.IH [of h1 "xs @ [y]"] Cons.prems show ?case by auto
qed simp

lemma deq_many_rep:
  "rep h q (xs @ ys) \<Longrightarrow> \<exists>h'. deq_many (length xs) q h = Some (xs, h') \<and> rep h' q ys"
proof (induction xs arbitrary: h)
  case (Cons x xs)
  then obtain h1 where "deq q h = Some (x, h1)" "rep h1 q (xs @ ys)"
    using deq_rep [of h q x "xs @ ys"] by auto
  with Cons.IH [of h1] show ?case by auto
qed simp

lemma fifo_order:
  assumes "rep h q []" "distinct xs" "0 \<notin> set xs"
  shows "\<exists>h1 h2. enq_all q xs h = Some h1 \<and> deq_many (length xs) q h1 = Some (xs, h2) \<and> rep h2 q []"
  using enq_all_rep [OF assms(1), of xs] deq_many_rep [of _ q xs "[]"] assms by fastforce

end

lemma push_tail_other:
  assumes "list_rep h l xs" "n \<noteq> 0" "n \<notin> set xs"
  shows "\<exists>h'. list_push_tail l n h = Some h' \<and> list_rep h' l (xs @ [n]) \<and>
    (\<forall>l' ys. l' \<noteq> l \<longrightarrow> n \<notin> set ys \<longrightarrow> list_rep h l' ys \<longrightarrow> list_rep h' l' ys)"
proof -
  obtain h' where h': "list_push_tail l n h = Some h'" "list_rep h' l (xs @ [n])"
    "heap_frame l (insert n (set xs)) h h'"
    using push_tail_rep [OF assms] by metis
  have "list_rep h' l' ys" if "l' \<noteq> l" "n \<notin> set ys" "list_rep h l' ys" for l' ys
    using heap_frame_other [OF h'(3) that(3,1)] that list_rep_disjoint [OF assms(1) that(3)]
    by auto
  with h'(1,2) show ?thesis by blast
qed

lemma push_head_other:
  assumes "list_rep h l xs" "n \<noteq> 0" "n \<notin> set xs"
  shows "\<exists>h'. list_push_head l n h = Some h' \<and> list_rep h' l (n # xs) \<and>
    (\<forall>l' ys. l' \<noteq> l \<longrightarrow> n \<notin> set ys \<longrightarrow> list_rep h l' ys \<longrightarrow> list_rep h' l' ys)"
proof -
  obtain h' where h': "list_push_head l n h = Some h'" "list_rep h' l (n # xs)"
    "heap_frame l (insert n (set xs)) h h'"
    using push_head_rep [OF assms] by metis
  have "list_rep h' l' ys" if "l' \<noteq> l" "n \<notin> set ys" "list_rep h l' ys" for l' ys
    using heap_frame_other [OF h'(3) that(3,1)] that list_rep_disjoint [OF assms(1) that(3)]
    by auto
  with h'(1,2) show ?thesis by blast
qed

lemma pop_other:
  assumes "list_rep h l xs" "heap_frame l (set xs) h h'" "l' \<noteq> l" "list_rep h l' ys"
  shows "list_rep h' l' ys"
  using heap_frame_other [OF assms(2,4,3)] list_rep_disjoint [OF assms(1,4)] assms(3) by simp

lemma pop_head_other:
  assumes "list_rep h l (n # xs)"
  shows "\<exists>h'. list_pop_head l h = Some (n, h') \<and> list_rep h' l xs \<and>
    (\<forall>l' ys. l' \<noteq> l \<longrightarrow> list_rep h l' ys \<longrightarrow> list_rep h' l' ys)"
proof -
  obtain h' where h': "list_pop_head l h = Some (n, h')" "list_rep h' l xs"
    "heap_frame l (set (n # xs)) h h'"
    using pop_head_rep [OF assms] by (metis list.simps(15))
  then show ?thesis using pop_other [OF assms h'(3)] by blast
qed

lemma pop_tail_other:
  assumes "list_rep h l (xs @ [n])"
  shows "\<exists>h'. list_pop_tail l h = Some (n, h') \<and> list_rep h' l xs \<and>
    (\<forall>l' ys. l' \<noteq> l \<longrightarrow> list_rep h l' ys \<longrightarrow> list_rep h' l' ys)"
proof -
  obtain h' where h': "list_pop_tail l h = Some (n, h')" "list_rep h' l xs"
    "heap_frame l (insert n (set xs)) h h'"
    using pop_tail_rep [OF assms] by metis
  from h'(3) have "heap_frame l (set (xs @ [n])) h h'" by simp
  then show ?thesis using h' pop_other [OF assms] by blast
qed

text \<open>
  Two uses of the same code: ready lists and wait queues push at the tail and pop at the
  head; the buffer cache pushes at the head and evicts from the tail.
\<close>

interpretation ready_queue: fifo_store list_push_tail list_pop_head list_rep
  by unfold_locales
    (auto dest: list_rep_nonnull push_tail_other pop_head_other pop_head_empty)

interpretation cache_queue: fifo_store list_push_head list_pop_tail "\<lambda>h l xs. list_rep h l (rev xs)"
proof unfold_locales
  fix h l xs n assume "list_rep h l (rev xs)" "n \<noteq> 0" "n \<notin> set xs"
  then show "\<exists>h'. list_push_head l n h = Some h' \<and> list_rep h' l (rev (xs @ [n])) \<and>
      (\<forall>l' ys. l' \<noteq> l \<longrightarrow> n \<notin> set ys \<longrightarrow> list_rep h l' (rev ys) \<longrightarrow> list_rep h' l' (rev ys))"
    using push_head_other [of h l "rev xs" n] by fastforce
next
  fix h l xs n assume "list_rep h l (rev (n # xs))"
  then show "\<exists>h'. list_pop_tail l h = Some (n, h') \<and> list_rep h' l (rev xs) \<and>
      (\<forall>l' ys. l' \<noteq> l \<longrightarrow> list_rep h l' (rev ys) \<longrightarrow> list_rep h' l' (rev ys))"
    using pop_tail_other [of h l "rev xs" n] by fastforce
qed (auto dest: list_rep_nonnull pop_tail_empty)

section \<open>Properties\<close>

text \<open>Claim C1. The list operations refine the operations on sequences: on a list that
  represents \<open>xs\<close>, pushing a node that is not on it prepends or appends it, popping removes
  and returns the first or the last node, and the recorded size is the length; none of
  them faults, and no other list of the store changes.\<close>

theorem list_ops_refine_sequences:
  assumes "list_rep h l xs" "n \<noteq> 0" "n \<notin> set xs"
  shows "(\<exists>h'. list_push_head l n h = Some h' \<and> list_rep h' l (n # xs) \<and>
            (\<forall>l' ys. l' \<noteq> l \<longrightarrow> n \<notin> set ys \<longrightarrow> list_rep h l' ys \<longrightarrow> list_rep h' l' ys)) \<and>
    (\<exists>h'. list_push_tail l n h = Some h' \<and> list_rep h' l (xs @ [n]) \<and>
            (\<forall>l' ys. l' \<noteq> l \<longrightarrow> n \<notin> set ys \<longrightarrow> list_rep h l' ys \<longrightarrow> list_rep h' l' ys)) \<and>
    (xs \<noteq> [] \<longrightarrow> (\<exists>h'. list_pop_head l h = Some (hd xs, h') \<and> list_rep h' l (tl xs) \<and>
            (\<forall>l' ys. l' \<noteq> l \<longrightarrow> list_rep h l' ys \<longrightarrow> list_rep h' l' ys))) \<and>
    (xs \<noteq> [] \<longrightarrow> (\<exists>h'. list_pop_tail l h = Some (last xs, h') \<and> list_rep h' l (butlast xs) \<and>
            (\<forall>l' ys. l' \<noteq> l \<longrightarrow> list_rep h l' ys \<longrightarrow> list_rep h' l' ys))) \<and>
    (xs = [] \<longrightarrow> list_pop_head l h = Some (0, h) \<and> list_pop_tail l h = Some (0, h)) \<and>
    list_size l h = Some (int (length xs))"
proof (intro conjI)
  show "xs \<noteq> [] \<longrightarrow> (\<exists>h'. list_pop_head l h = Some (hd xs, h') \<and> list_rep h' l (tl xs) \<and>
            (\<forall>l' ys. l' \<noteq> l \<longrightarrow> list_rep h l' ys \<longrightarrow> list_rep h' l' ys))"
    using assms(1) pop_head_other by (cases xs) auto
  show "xs \<noteq> [] \<longrightarrow> (\<exists>h'. list_pop_tail l h = Some (last xs, h') \<and> list_rep h' l (butlast xs) \<and>
            (\<forall>l' ys. l' \<noteq> l \<longrightarrow> list_rep h l' ys \<longrightarrow> list_rep h' l' ys))"
    using assms(1) pop_tail_other by (cases xs rule: rev_cases) auto
  show "xs = [] \<longrightarrow> list_pop_head l h = Some (0, h) \<and> list_pop_tail l h = Some (0, h)"
    using assms(1) by (auto intro: pop_head_empty pop_tail_empty)
  show "list_size l h = Some (int (length xs))"
    using assms(1) by (simp add: list_size_def heap_access list_rep_def)
qed (use push_head_other [OF assms] push_tail_other [OF assms] in auto)

text \<open>A store with one list at address 1 holding the nodes 10, 20, 30.\<close>

definition sample_heap :: lheap where
  "sample_heap =
    \<lparr>nodes = (\<lambda>_. \<lparr>nxt = 0, prv = 0, owner = 0, priority = 0\<rparr>)
       (10 := \<lparr>nxt = 20, prv = 0, owner = 1, priority = 9\<rparr>,
        20 := \<lparr>nxt = 30, prv = 10, owner = 1, priority = 5\<rparr>,
        30 := \<lparr>nxt = 0, prv = 20, owner = 1, priority = 2\<rparr>),
     lists = (\<lambda>_. LIST_INIT)(1 := \<lparr>head = 10, tail = 30, lsize = 3\<rparr>)\<rparr>"

lemma sample_heap_rep: "list_rep sample_heap 1 [10, 20, 30]"
  by (simp add: list_rep_def sample_heap_def)

theorem list_ops_refine_sequences_witness:
  "\<exists>h'. list_push_tail 1 40 sample_heap = Some h' \<and> list_rep h' 1 [10, 20, 30, 40]"
  using list_ops_refine_sequences [OF sample_heap_rep, of 40] by auto

text \<open>\<^verbatim>\<open>list_push_priority\<close> inserts a node before the first one of smaller
  priority, on any list of at most 5000 nodes: the result is \<open>priority_insert\<close>, it does not
  fault and touches no other node.  The node's recorded priority is the requested one only if
  it was inserted before some node; appended at the end, or first on an empty list, it is
  recorded as 0.\<close>

theorem list_push_priority_correct:
  assumes "list_rep h l xs" "n \<noteq> 0" "n \<notin> set xs" "length xs \<le> 5000"
  shows "\<exists>h'. list_push_priority l n pri h = Some h' \<and>
    list_rep h' l (priority_insert (prio_of h) pri n xs) \<and>
    heap_frame l (insert n (set xs)) h h' \<and>
    prio_of h' n = (if \<exists>m\<in>set xs. prio_of h m < pri then pri else 0)"
  using assms by (rule push_priority_rep)

theorem list_push_priority_correct_witness:
  "\<exists>h'. list_push_priority 1 40 5 sample_heap = Some h' \<and> list_rep h' 1 [10, 20, 40, 30] \<and>
    prio_of h' 40 = 5"
  using list_push_priority_correct [OF sample_heap_rep, of 40 5]
  by (auto simp: priority_insert_def prio_of_def sample_heap_def)

text \<open>\<^verbatim>\<open>list_remove\<close> works at both ends of a list and on a detached node, but on a
  node strictly inside the list it dereferences the null pointer it has just stored in
  \<^verbatim>\<open>node->list\<close>, so the removal does not return.\<close>

theorem list_remove_interior_null_deref:
  assumes "list_rep h l (xs @ n # ys)"
  shows "list_remove n h = None \<longleftrightarrow> xs \<noteq> [] \<and> ys \<noteq> []"
proof (cases "xs \<noteq> [] \<and> ys \<noteq> []")
  case True
  then show ?thesis using remove_interior_faults [OF assms] by simp
next
  case False
  have "\<exists>h'. list_remove n h = Some h'"
  proof (cases "xs = []")
    case True
    then show ?thesis using assms remove_head_rep by (metis append_Nil)
  next
    case nonempty: False
    with False have "ys = []" by simp
    then show ?thesis using assms remove_tail_rep by metis
  qed
  with False show ?thesis by auto
qed

theorem list_remove_interior_null_deref_witness:
  "list_remove 20 sample_heap = None \<and> list_remove 10 sample_heap \<noteq> None"
  using list_remove_interior_null_deref [of sample_heap 1 "[10]" 20 "[30]"]
    list_remove_interior_null_deref [of sample_heap 1 "[]" 10 "[20, 30]"] sample_heap_rep
  by simp

end
