(* ===== verification/Kmalloc.thy ===== *)
theory Kmalloc
  imports Kernel_Prelude
begin

text \<open>
  The kernel heap of \<^verbatim>\<open>kernel/kmalloc.c\<close>: one region of memory cut into chunks, each with a
  16-byte header that links it to its neighbours.  The model keeps the headers in a store
  indexed by address, with the C pointers; a block is at the address after its header.

  \<open>chain\<close> ties the store to the abstract heap, the list of (length, used) pairs of the chunks
  from low to high addresses.  On it, allocation is first fit with splitting, and release
  merges with both neighbours.
\<close>

section \<open>Data\<close>

definition KUNIT :: int where "KUNIT = 16"
definition KMALLOC_STATE_FREE :: u32 where "KMALLOC_STATE_FREE = 0xa1a1a1a1"
definition KMALLOC_STATE_USED :: u32 where "KMALLOC_STATE_USED = 0xbfbfbfbf"
definition KMALLOC_START :: ptr where "KMALLOC_START = 0x100000"
definition KMALLOC_LENGTH :: int where "KMALLOC_LENGTH = 0x100000"

lemma kstate_neq [simp]:
  "KMALLOC_STATE_FREE \<noteq> KMALLOC_STATE_USED" "KMALLOC_STATE_USED \<noteq> KMALLOC_STATE_FREE"
  by (simp_all add: KMALLOC_STATE_FREE_def KMALLOC_STATE_USED_def)

record kmalloc_chunk =
  cstate :: u32
  clength :: int
  cnext :: ptr
  cprev :: ptr

record kheap =
  chunks :: "ptr \<Rightarrow> kmalloc_chunk"
  khead :: ptr

definition upd_chunk :: "ptr \<Rightarrow> (kmalloc_chunk \<Rightarrow> kmalloc_chunk) \<Rightarrow> kheap \<Rightarrow> kheap" where
  "upd_chunk p f h = h\<lparr>chunks := (chunks h)(p := f (chunks h p))\<rparr>"

section \<open>Operations\<close>

definition kmalloc_init :: "ptr \<Rightarrow> int \<Rightarrow> kheap \<Rightarrow> kheap" where
  "kmalloc_init start len h =
     (let h = h\<lparr>khead := start\<rparr> in
      upd_chunk (khead h) (\<lambda>c. c\<lparr>cstate := KMALLOC_STATE_FREE, clength := len,
        cnext := 0, cprev := 0\<rparr>) h)"

definition ksplit :: "ptr \<Rightarrow> int \<Rightarrow> kheap \<Rightarrow> kheap" where
  "ksplit c len h =
     (let n = nat (int c + len);
          h = upd_chunk n (\<lambda>x. x\<lparr>cstate := KMALLOC_STATE_FREE\<rparr>) h;
          h = upd_chunk n (\<lambda>x. x\<lparr>clength := clength (chunks h c) - len\<rparr>) h;
          h = upd_chunk n (\<lambda>x. x\<lparr>cprev := c\<rparr>) h;
          h = upd_chunk n (\<lambda>x. x\<lparr>cnext := cnext (chunks h c)\<rparr>) h;
          h = (if cnext (chunks h c) \<noteq> 0
               then upd_chunk (cnext (chunks h c)) (\<lambda>x. x\<lparr>cprev := n\<rparr>) h else h);
          h = upd_chunk c (\<lambda>x. x\<lparr>cnext := n\<rparr>) h
      in upd_chunk c (\<lambda>x. x\<lparr>clength := len\<rparr>) h)"

text \<open>
  The size computation: rounding up to whole units, plus one unit for the header.  \<^verbatim>\<open>KUNIT\<close>
  is unsigned, so the remainder is that of the 32-bit pattern, and the sum wraps.
\<close>

definition kmalloc_size :: "int \<Rightarrow> int" where
  "kmalloc_size len =
     (let extra = len mod 2 ^ 32 mod KUNIT;
          len = (if extra \<noteq> 0 then i32 (len + (KUNIT - extra)) else len)
      in i32 (len + KUNIT))"

text \<open>
  The search loop.  It follows \<^verbatim>\<open>next\<close> pointers and may run forever on a cyclic chain, so it
  is a partial function; \<open>Some 0\<close> is the out-of-memory exit.
\<close>

partial_function (option) kmalloc_search :: "kheap \<Rightarrow> int \<Rightarrow> ptr \<Rightarrow> ptr option" where
  "kmalloc_search h len c =
     (if c = 0 then Some 0
      else if cstate (chunks h c) = KMALLOC_STATE_FREE \<and> clength (chunks h c) \<ge> len then Some c
      else kmalloc_search h len (cnext (chunks h c)))"

definition kmalloc :: "int \<Rightarrow> kheap \<Rightarrow> (ptr \<times> kheap) option" where
  "kmalloc len h = do {
     let len = kmalloc_size len;
     c \<leftarrow> kmalloc_search h len (khead h);
     if c = 0 then Some (0, h)
     else do {
       let h = (if (clength (chunks h c) - len) mod 2 ^ 32 > 2 * KUNIT then ksplit c len h else h);
       let h = upd_chunk c (\<lambda>x. x\<lparr>cstate := KMALLOC_STATE_USED\<rparr>) h;
       Some (c + nat KUNIT, h)
     }
   }"

definition kmerge :: "ptr \<Rightarrow> kheap \<Rightarrow> kheap" where
  "kmerge c h =
     (if c = 0 then h
      else if cstate (chunks h c) \<noteq> KMALLOC_STATE_FREE then h
      else if cnext (chunks h c) \<noteq> 0 \<and>
              cstate (chunks h (cnext (chunks h c))) = KMALLOC_STATE_FREE then
        (let h = upd_chunk c (\<lambda>x. x\<lparr>clength := clength x + clength (chunks h (cnext x))\<rparr>) h;
             nn = cnext (chunks h (cnext (chunks h c)));
             h = (if nn \<noteq> 0 then upd_chunk nn (\<lambda>x. x\<lparr>cprev := c\<rparr>) h else h)
         in upd_chunk c (\<lambda>x. x\<lparr>cnext := cnext (chunks h (cnext x))\<rparr>) h)
      else h)"

definition kfree :: "ptr \<Rightarrow> kheap \<Rightarrow> kheap" where
  "kfree p h =
     (let c = p - nat KUNIT in
      if cstate (chunks h c) \<noteq> KMALLOC_STATE_USED then h
      else
        (let h = upd_chunk c (\<lambda>x. x\<lparr>cstate := KMALLOC_STATE_FREE\<rparr>) h;
             h = kmerge c h
         in kmerge (cprev (chunks h c)) h))"

text \<open>The built-in tests of \<^verbatim>\<open>kmalloc.c\<close>, each run on a freshly initialised heap.\<close>

definition kmalloc_setup :: "kheap \<Rightarrow> kheap" where
  "kmalloc_setup h = kmalloc_init KMALLOC_START KMALLOC_LENGTH h"

definition kmalloc_test_single_alloc :: "kheap \<Rightarrow> bool option" where
  "kmalloc_test_single_alloc h = do {
     (p, h) \<leftarrow> kmalloc 128 h;
     let hd = chunks h (khead h);
     let n = chunks h (cnext hd);
     Some (p = khead h + nat KUNIT \<and> cstate hd = KMALLOC_STATE_USED \<and>
           clength hd = 128 + KUNIT \<and> int (cnext hd) = int KMALLOC_START + clength hd \<and>
           cstate n = KMALLOC_STATE_FREE \<and> clength n = KMALLOC_LENGTH - clength hd)
   }"

definition kmalloc_test_single_alloc_and_free :: "kheap \<Rightarrow> bool option" where
  "kmalloc_test_single_alloc_and_free h = do {
     (p, h) \<leftarrow> kmalloc 128 h;
     let h = kfree p h;
     let hd = chunks h (khead h);
     Some (cstate hd = KMALLOC_STATE_FREE \<and> cnext hd = 0 \<and> clength hd = KMALLOC_LENGTH)
   }"

definition kmalloc_test :: "kheap \<Rightarrow> bool option" where
  "kmalloc_test h = do {
     res \<leftarrow> kmalloc_test_single_alloc (kmalloc_setup h);
     if \<not> res then Some False
     else do {
       res \<leftarrow> kmalloc_test_single_alloc_and_free (kmalloc_setup h);
       Some res
     }
   }"

section \<open>The abstract heap\<close>

type_synonym block = "nat \<times> bool" \<comment> \<open>length including the header, and whether it is used\<close>

definition kstate :: "bool \<Rightarrow> u32" where
  "kstate used = (if used then KMALLOC_STATE_USED else KMALLOC_STATE_FREE)"

lemma kstate_simps [simp]:
  "kstate True = KMALLOC_STATE_USED" "kstate False = KMALLOC_STATE_FREE"
  "kstate u = KMALLOC_STATE_USED \<longleftrightarrow> u" "kstate u = KMALLOC_STATE_FREE \<longleftrightarrow> \<not> u"
  by (simp_all add: kstate_def)

fun extent :: "block list \<Rightarrow> nat" where
  "extent [] = 0"
| "extent ((n, u) # bs) = n + extent bs"

text \<open>
  \<open>chain f p a bs e\<close>: the chunks \<open>bs\<close> lie one after the other from address \<open>a\<close> on, the
  first has predecessor \<open>p\<close>, the last has successor \<open>e\<close>.
\<close>

fun chain :: "(ptr \<Rightarrow> kmalloc_chunk) \<Rightarrow> ptr \<Rightarrow> ptr \<Rightarrow> block list \<Rightarrow> ptr \<Rightarrow> bool" where
  "chain f p a [] e \<longleftrightarrow> True"
| "chain f p a ((n, u) # bs) e \<longleftrightarrow>
     a \<noteq> 0 \<and> 0 < n \<and> 16 dvd n \<and> f a = \<lparr>cstate = kstate u, clength = int n,
       cnext = (if bs = [] then e else a + n), cprev = p\<rparr> \<and> chain f a (a + n) bs e"

definition heap_rep :: "kheap \<Rightarrow> ptr \<Rightarrow> block list \<Rightarrow> bool" where
  "heap_rep h start bs \<longleftrightarrow>
     khead h = start \<and> bs \<noteq> [] \<and> chain (chunks h) 0 start bs 0 \<and> start + extent bs < 2 ^ 31"

text \<open>No two neighbouring chunks are free.\<close>

fun coalesced :: "block list \<Rightarrow> bool" where
  "coalesced [] \<longleftrightarrow> True"
| "coalesced [b] \<longleftrightarrow> True"
| "coalesced (b # c # bs) \<longleftrightarrow> (snd b \<or> snd c) \<and> coalesced (c # bs)"

fun last_addr :: "ptr \<Rightarrow> ptr \<Rightarrow> block list \<Rightarrow> ptr" where
  "last_addr p a [] = p"
| "last_addr p a ((n, u) # bs) = last_addr a (a + n) bs"

lemma extent_append [simp]: "extent (us @ vs) = extent us + extent vs"
  by (induction us) auto

lemma last_addr_append [simp]:
  "last_addr p a (us @ vs) = last_addr (last_addr p a us) (a + extent us) vs"
  by (induction p a us rule: last_addr.induct) (auto simp: add.assoc)

lemma chain_append [simp]:
  "chain f p a (us @ vs) e \<longleftrightarrow> chain f p a us (if vs = [] then e else a + extent us) \<and>
     chain f (last_addr p a us) (a + extent us) vs e"
  by (induction us arbitrary: p a) (auto simp: add.assoc)

lemma chain_upd [simp]:
  "x < a \<or> a + extent bs \<le> x \<Longrightarrow> chain (f(x := v)) p a bs e = chain f p a bs e"
  by (induction bs arbitrary: p a) auto

lemma chain_dvd: "chain f p a us e \<Longrightarrow> 16 dvd extent us"
  by (induction us arbitrary: p a) auto

lemma last_addr_bounds:
  "chain f p a bs e \<Longrightarrow> bs \<noteq> [] \<Longrightarrow> a \<le> last_addr p a bs \<and> last_addr p a bs < a + extent bs"
proof (induction bs arbitrary: p a)
  case (Cons b bs)
  obtain n u where b: "b = (n, u)" by force
  show ?case
  proof (cases "bs = []")
    case True
    with b Cons.prems show ?thesis by simp
  next
    case False
    with Cons.IH [of a "a + n"] Cons.prems b show ?thesis by auto
  qed
qed simp

section \<open>Allocation\<close>

fun alloc_offset :: "nat \<Rightarrow> block list \<Rightarrow> nat option" where
  "alloc_offset k [] = None"
| "alloc_offset k ((n, u) # bs) =
     (if \<not> u \<and> k \<le> n then Some 0 else map_option ((+) n) (alloc_offset k bs))"

fun alloc :: "nat \<Rightarrow> block list \<Rightarrow> block list" where
  "alloc k [] = []"
| "alloc k ((n, u) # bs) =
     (if \<not> u \<and> k \<le> n
      then (if 32 < n - k then (k, True) # (n - k, False) # bs else (n, True) # bs)
      else (n, u) # alloc k bs)"

fun unfit :: "nat \<Rightarrow> block \<Rightarrow> bool" where
  "unfit k (n, u) \<longleftrightarrow> u \<or> n < k"

lemma alloc_offset_None: "alloc_offset k bs = None \<longleftrightarrow> list_all (unfit k) bs"
  by (induction k bs rule: alloc_offset.induct) auto

lemma alloc_offset_Some:
  "alloc_offset k bs = Some off \<Longrightarrow>
     \<exists>us n vs. bs = us @ (n, False) # vs \<and> off = extent us \<and> k \<le> n \<and> list_all (unfit k) us"
proof (induction bs arbitrary: off)
  case (Cons b bs)
  obtain n u where b: "b = (n, u)" by force
  show ?case
  proof (cases "\<not> u \<and> k \<le> n")
    case True
    with b Cons.prems have "b # bs = [] @ (n, False) # bs \<and> off = extent [] \<and> k \<le> n \<and>
        list_all (unfit k) []" by auto
    then show ?thesis by blast
  next
    case False
    with b Cons.prems obtain off' where "alloc_offset k bs = Some off'" "off = n + off'" by auto
    with Cons.IH obtain us m vs where
      "bs = us @ (m, False) # vs" "off' = extent us" "k \<le> m" "list_all (unfit k) us"
      by blast
    with b False \<open>off = n + off'\<close>
    have "b # bs = ((n, u) # us) @ (m, False) # vs \<and> off = extent ((n, u) # us) \<and> k \<le> m \<and>
        list_all (unfit k) ((n, u) # us)"
      by auto
    then show ?thesis by blast
  qed
qed simp

lemma alloc_decompose:
  "list_all (unfit k) us \<Longrightarrow> k \<le> n \<Longrightarrow>
   alloc k (us @ (n, False) # vs) =
     us @ (if 32 < n - k then (k, True) # (n - k, False) # vs else (n, True) # vs)"
  by (induction us) auto

lemma search_chain:
  "chain (chunks h) p a (us @ bs) 0 \<Longrightarrow> list_all (unfit k) us \<Longrightarrow>
   kmalloc_search h (int k) (if us @ bs = [] then 0 else a) =
     kmalloc_search h (int k) (if bs = [] then 0 else a + extent us)"
proof (induction us arbitrary: p a)
  case (Cons b us)
  obtain n u where b: "b = (n, u)" by force
  with Cons.prems have "kmalloc_search h (int k) a =
      kmalloc_search h (int k) (if us @ bs = [] then 0 else a + n)"
    by (subst kmalloc_search.simps) auto
  with Cons.IH [of a "a + n"] Cons.prems b show ?case by (auto simp: add.assoc)
qed simp

text \<open>The size of the chunk that serves a request, when the computation does not wrap.\<close>

definition chunk_size :: "nat \<Rightarrow> nat" where
  "chunk_size len = (len + 15) div 16 * 16 + 16"

lemma chunk_size_props: "16 dvd chunk_size len" "len + 16 \<le> chunk_size len"
  "chunk_size len < len + 32" "0 < chunk_size len"
  unfolding chunk_size_def by presburger+

lemma kmalloc_size_eq:
  assumes "len < 2 ^ 31 - 32"
  shows "kmalloc_size (int len) = int (chunk_size len)"
proof -
  define q r where "q = len div 16" and "r = len mod 16"
  have len: "len = 16 * q + r" "r < 16" by (simp_all add: q_def r_def)
  have m: "int len mod 16 = int r"
    by (simp add: r_def zmod_int)
  have c: "chunk_size len = (if r = 0 then len + 16 else len + (16 - r) + 16)"
  proof -
    have "(len + 15) div 16 = q + (r + 15) div 16"
      by (simp add: len(1) add.assoc)
    moreover have "(r + 15) div 16 = (if r = 0 then 0 else 1)"
      using len(2) by (auto intro!: div_nat_eqI)
    ultimately show ?thesis using len by (simp add: chunk_size_def)
  qed
  show ?thesis
    using assms len(2) by (simp add: kmalloc_size_def KUNIT_def m c Let_def i32_def)
qed


lemma kmalloc_rep_None:
  assumes "heap_rep h a bs" "len < 2 ^ 31 - 32" "alloc_offset (chunk_size len) bs = None"
  shows "kmalloc (int len) h = Some (0, h)"
proof -
  have "kmalloc_search h (int (chunk_size len)) a = Some 0"
    using search_chain [of h 0 a bs "[]" "chunk_size len"] assms
    by (simp add: heap_rep_def alloc_offset_None kmalloc_search.simps [of _ _ 0])
  with assms show ?thesis
    by (simp add: kmalloc_def kmalloc_size_eq heap_rep_def)
qed

text \<open>The header store after a split and the marking of the front chunk.\<close>

lemma ksplit_chunks:
  assumes "chunks h c = \<lparr>cstate = st, clength = int n, cnext = nx, cprev = p\<rparr>"
    "0 < k" "k < n" "nx = 0 \<or> nx = c + n"
  shows "chunks (upd_chunk c (\<lambda>x. x\<lparr>cstate := st'\<rparr>) (ksplit c (int k) h)) =
    (if nx = 0 then chunks h else (chunks h)(nx := (chunks h nx)\<lparr>cprev := c + k\<rparr>))
      (c := \<lparr>cstate = st', clength = int k, cnext = c + k, cprev = p\<rparr>,
       c + k := \<lparr>cstate = KMALLOC_STATE_FREE, clength = int (n - k), cnext = nx, cprev = c\<rparr>)"
proof -
  have n: "nat (int c + int k) = c + k" by linarith
  have nx: "nx = 0 \<or> nx \<noteq> c \<and> nx \<noteq> c + k" using assms(2-4) by auto
  show ?thesis
  proof (cases "nx = 0")
    case True
    with assms(1-3) show ?thesis
      by (simp add: ksplit_def upd_chunk_def n fun_eq_iff of_nat_diff Let_def)
  next
    case False
    with assms(1-3) nx show ?thesis
      by (simp add: ksplit_def upd_chunk_def n fun_eq_iff of_nat_diff Let_def)
  qed
qed

lemma khead_ksplit [simp]: "khead (ksplit c k h) = khead h"
  by (simp add: upd_chunk_def ksplit_def Let_def)

lemma khead_upd [simp]: "khead (upd_chunk c g h) = khead h"
  by (simp add: upd_chunk_def)

lemma split_rep:
  assumes "heap_rep h a (us @ (n, False) # vs)" "0 < k" "k < n" "16 dvd k"
  defines "c \<equiv> a + extent us"
  shows "heap_rep (upd_chunk c (\<lambda>x. x\<lparr>cstate := KMALLOC_STATE_USED\<rparr>) (ksplit c (int k) h)) a
    (us @ (k, True) # (n - k, False) # vs)"
proof -
  let ?p = "last_addr 0 a us" and ?nx = "if vs = [] then 0 else c + n"
  have ch: "chain (chunks h) 0 a us c" "chain (chunks h) c (c + n) vs 0" "16 dvd n" "c \<noteq> 0"
    and c: "chunks h c = \<lparr>cstate = KMALLOC_STATE_FREE, clength = int n, cnext = ?nx, cprev = ?p\<rparr>"
    using assms(1) by (auto simp: heap_rep_def c_def)
  let ?f = "(if ?nx = 0 then chunks h else (chunks h)(?nx := (chunks h ?nx)\<lparr>cprev := c + k\<rparr>))
      (c := \<lparr>cstate = KMALLOC_STATE_USED, clength = int k, cnext = c + k, cprev = ?p\<rparr>,
       c + k := \<lparr>cstate = KMALLOC_STATE_FREE, clength = int (n - k), cnext = ?nx, cprev = c\<rparr>)"
  have f: "chunks (upd_chunk c (\<lambda>x. x\<lparr>cstate := KMALLOC_STATE_USED\<rparr>) (ksplit c (int k) h)) = ?f"
    using c assms(2,3) by (intro ksplit_chunks) auto
  have 1: "chain ?f 0 a us c" using ch(1) by (simp add: c_def)
  have 2: "chain ?f (c + k) (c + n) vs 0"
  proof (cases vs)
    case (Cons v ws)
    obtain m w where v: "v = (m, w)" by force
    show ?thesis using ch(2,4) assms(2,3) Cons v by simp
  qed simp
  have "16 dvd n - k" using ch(3) assms(4) by (simp add: dvd_diff_nat)
  then have "chain ?f 0 a (us @ (k, True) # (n - k, False) # vs) 0"
    using 1 2 assms(2-4) ch(4) by (cases "vs = []") (simp_all add: c_def add.assoc)
  then show ?thesis using f assms(1,3) by (simp add: heap_rep_def)
qed

lemma mark_rep:
  assumes "heap_rep h a (us @ (n, u) # vs)"
  shows "heap_rep (upd_chunk (a + extent us) (\<lambda>x. x\<lparr>cstate := kstate w\<rparr>) h) a (us @ (n, w) # vs)"
  using assms by (simp add: heap_rep_def upd_chunk_def)

lemma kmalloc_rep_Some:
  assumes "heap_rep h a bs" "len < 2 ^ 31 - 32"
    and "alloc_offset (chunk_size len) bs = Some off"
  shows "\<exists>h'. kmalloc (int len) h = Some (a + off + 16, h') \<and>
    heap_rep h' a (alloc (chunk_size len) bs)"
proof -
  define k where "k = chunk_size len"
  obtain us n vs where bs: "bs = us @ (n, False) # vs" and off: "off = extent us"
    and kn: "k \<le> n" and us: "list_all (unfit k) us"
    using alloc_offset_Some assms(3) unfolding k_def by blast
  have k: "16 dvd k" "0 < k" by (simp_all add: k_def chunk_size_props)
  define c where "c = a + off"
  have rep: "heap_rep h a (us @ (n, False) # vs)" using assms(1) bs by simp
  then have ch: "chain (chunks h) 0 a (us @ (n, False) # vs) 0" and kh: "khead h = a"
    and top: "a + extent (us @ (n, False) # vs) < 2 ^ 31"
    by (simp_all add: heap_rep_def)
  have cc: "c \<noteq> 0" "cstate (chunks h c) = KMALLOC_STATE_FREE" "clength (chunks h c) = int n"
    using ch by (auto simp: c_def off)
  have search: "kmalloc_search h (int k) a = Some c"
    using search_chain [OF ch us] cc kn
    by (simp add: c_def off kmalloc_search.simps [of _ _ "a + extent us"])
  have "(int n - int k) mod 2 ^ 32 = int (n - k)"
    using top kn by (simp add: of_nat_diff)
  then have run: "kmalloc (int len) h = Some (c + 16, upd_chunk c (\<lambda>x. x\<lparr>cstate := KMALLOC_STATE_USED\<rparr>)
      (if 32 < n - k then ksplit c (int k) h else h))"
    using assms(2) search cc kh by (simp add: kmalloc_def kmalloc_size_eq k_def KUNIT_def)
  have "heap_rep (upd_chunk c (\<lambda>x. x\<lparr>cstate := KMALLOC_STATE_USED\<rparr>)
      (if 32 < n - k then ksplit c (int k) h else h)) a (alloc k bs)"
    using split_rep [OF rep k(2) _ k(1)] mark_rep [OF rep, of True] alloc_decompose [OF us kn] bs
    by (simp add: c_def off)
  with run show ?thesis by (simp add: k_def c_def)
qed

section \<open>Release\<close>

fun merge_right :: "nat \<Rightarrow> block list \<Rightarrow> block list" where
  "merge_right n ((m, False) # vs) = (n + m, False) # vs"
| "merge_right n vs = (n, False) # vs"

fun merge_left :: "block list \<Rightarrow> block list \<Rightarrow> block list" where
  "merge_left us ((n, False) # vs) =
     (if us \<noteq> [] \<and> \<not> snd (last us) then butlast us @ (fst (last us) + n, False) # vs
      else us @ (n, False) # vs)"
| "merge_left us vs = us @ vs"

definition release :: "block list \<Rightarrow> nat \<Rightarrow> block list \<Rightarrow> block list" where
  "release us n vs = merge_left us (merge_right n vs)"

lemma merge_right_cases:
  obtains (merge) m ws where "vs = (m, False) # ws" "merge_right n vs = (n + m, False) # ws"
  | (stay) "merge_right n vs = (n, False) # vs" "vs = [] \<or> snd (hd vs)"
  by (cases "(n, vs)" rule: merge_right.cases) auto

text \<open>\<^verbatim>\<open>kmerge\<close> on a free chunk in the middle of the heap absorbs a free successor.\<close>

lemma kmerge_rep:
  assumes "heap_rep h a (us @ (n, False) # vs)"
  shows "heap_rep (kmerge (a + extent us) h) a (us @ merge_right n vs)"
proof -
  define c where "c = a + extent us"
  let ?p = "last_addr 0 a us" and ?nx = "if vs = [] then 0 else c + n"
  have ch: "chain (chunks h) 0 a us c" "chain (chunks h) c (c + n) vs 0" "16 dvd n" "0 < n" "c \<noteq> 0"
    and c: "chunks h c = \<lparr>cstate = KMALLOC_STATE_FREE, clength = int n, cnext = ?nx, cprev = ?p\<rparr>"
    using assms(1) by (auto simp: heap_rep_def c_def)
  show ?thesis
  proof (cases rule: merge_right_cases [of vs n])
    case stay
    then have "kmerge c h = h"
      using c ch by (cases vs) (auto simp: kmerge_def)
    then show ?thesis using assms stay by (simp add: c_def)
  next
    case (merge m ws)
    let ?q = "c + n"
    let ?nn = "if ws = [] then 0 else c + (n + m)"
    have q: "chunks h ?q = \<lparr>cstate = KMALLOC_STATE_FREE, clength = int m, cnext = ?nn, cprev = c\<rparr>"
      "?q \<noteq> 0" "0 < m" "16 dvd m"
      using ch(2) merge(1) by (auto simp: add.assoc)
    let ?f = "(if ?nn = 0 then chunks h else (chunks h)(?nn := (chunks h ?nn)\<lparr>cprev := c\<rparr>))
      (c := \<lparr>cstate = KMALLOC_STATE_FREE, clength = int (n + m), cnext = ?nn, cprev = ?p\<rparr>)"
    have f: "chunks (kmerge c h) = ?f" and hd: "khead (kmerge c h) = khead h"
      using c q ch(4,5) merge(1)
      by (auto simp: kmerge_def upd_chunk_def fun_eq_iff Let_def)
    have 1: "chain ?f 0 a us c" using ch(1) by (simp add: c_def)
    have 2: "chain ?f c (c + (n + m)) ws 0"
    proof (cases ws)
      case (Cons v vs')
      obtain j w where v: "v = (j, w)" by force
      show ?thesis using ch(2,4,5) merge(1) Cons v by (simp add: add.assoc)
    qed simp
    have "chain ?f 0 a (us @ (n + m, False) # ws) 0"
      using 1 2 ch(3-5) q(3,4) by (cases "ws = []") (simp_all add: c_def add.assoc)
    then show ?thesis using f hd assms merge by (cases "ws = []") (simp_all add: heap_rep_def c_def)
  qed
qed

lemma kmerge_used:
  assumes "heap_rep h a (us @ (n, True) # vs)"
  shows "kmerge (a + extent us) h = h"
  using assms by (simp add: heap_rep_def kmerge_def)

lemma kmerge_null [simp]: "kmerge 0 h = h"
  by (simp add: kmerge_def)

lemma kmerge_prev:
  assumes "heap_rep h a (us @ (n, False) # vs)"
  shows "heap_rep (kmerge (cprev (chunks h (a + extent us))) h) a (merge_left us ((n, False) # vs))"
proof (cases us rule: rev_cases)
  case Nil
  then have "cprev (chunks h (a + extent us)) = 0" using assms by (simp add: heap_rep_def)
  with Nil assms show ?thesis by simp
next
  case (snoc ts t)
  obtain m w where t: "t = (m, w)" by force
  have p: "cprev (chunks h (a + extent us)) = a + extent ts"
    using assms snoc t by (simp add: heap_rep_def add.assoc)
  have rep: "heap_rep h a (ts @ (m, w) # (n, False) # vs)" using assms snoc t by simp
  show ?thesis
  proof (cases w)
    case True
    with rep p snoc t kmerge_used show ?thesis by simp
  next
    case False
    with rep p snoc t kmerge_rep [of h a ts m "(n, False) # vs"] show ?thesis by simp
  qed
qed

lemma kfree_rep:
  assumes "heap_rep h a (us @ (n, True) # vs)"
  shows "heap_rep (kfree (a + extent us + 16) h) a (release us n vs)"
proof -
  let ?c = "a + extent us"
  let ?h = "upd_chunk ?c (\<lambda>x. x\<lparr>cstate := KMALLOC_STATE_FREE\<rparr>) h"
  have "heap_rep ?h a (us @ (n, False) # vs)" using mark_rep [OF assms, of False] by simp
  then have r: "heap_rep (kmerge ?c ?h) a (us @ merge_right n vs)" by (rule kmerge_rep)
  have u: "cstate (chunks h ?c) = KMALLOC_STATE_USED" using assms by (simp add: heap_rep_def)
  obtain n' ws where m: "merge_right n vs = (n', False) # ws"
    by (cases rule: merge_right_cases [of vs n]) auto
  have "heap_rep (kmerge (cprev (chunks (kmerge ?c ?h) ?c)) (kmerge ?c ?h)) a (release us n vs)"
    using kmerge_prev [of "kmerge ?c ?h" a us n' ws] r m by (simp add: release_def)
  then show ?thesis using u by (simp add: kfree_def KUNIT_def Let_def)
qed

lemma kmalloc_init_rep:
  assumes "a \<noteq> 0" "0 < n" "16 dvd n" "a + n < 2 ^ 31"
  shows "heap_rep (kmalloc_init a (int n) h) a [(n, False)]"
  using assms by (simp add: heap_rep_def kmalloc_init_def upd_chunk_def Let_def)

section \<open>Abstract facts: no memory is lost, free chunks never touch\<close>

lemma extent_alloc [simp]: "extent (alloc k bs) = extent bs"
  by (induction k bs rule: alloc.induct) auto

lemma extent_merge_right [simp]: "extent (merge_right n vs) = n + extent vs"
  by (cases rule: merge_right_cases [of vs n]) auto

lemma extent_butlast: "us \<noteq> [] \<Longrightarrow> extent (butlast us) + fst (last us) = extent us"
  by (cases us rule: rev_cases) (auto split: prod.split)

lemma extent_merge_left [simp]: "extent (merge_left us vs) = extent us + extent vs"
  using extent_butlast [of us] by (cases "(us, vs)" rule: merge_left.cases) auto

lemma extent_release [simp]: "extent (release us n vs) = extent (us @ (n, True) # vs)"
  by (simp add: release_def)

lemma coalesced_Cons: "coalesced (b # bs) \<longleftrightarrow> (bs = [] \<or> snd b \<or> snd (hd bs)) \<and> coalesced bs"
  by (cases bs) auto

lemma coalesced_append:
  "coalesced (us @ vs) \<longleftrightarrow> coalesced us \<and> coalesced vs \<and>
     (us = [] \<or> vs = [] \<or> snd (last us) \<or> snd (hd vs))"
  by (induction us) (auto simp: coalesced_Cons)

lemma alloc_neq_Nil [simp]: "alloc k bs = [] \<longleftrightarrow> bs = []"
  by (induction k bs rule: alloc.induct) auto

lemma snd_hd_alloc: "bs \<noteq> [] \<Longrightarrow> snd (hd bs) \<Longrightarrow> snd (hd (alloc k bs))"
  by (induction k bs rule: alloc.induct) auto

lemma coalesced_alloc: "coalesced bs \<Longrightarrow> coalesced (alloc k bs)"
  by (induction k bs rule: alloc.induct) (auto simp: coalesced_Cons snd_hd_alloc)

lemma coalesced_release:
  assumes "coalesced (us @ (n, True) # vs)"
  shows "coalesced (release us n vs)"
proof -
  obtain n' ws where m: "merge_right n vs = (n', False) # ws" "coalesced ((n', False) # ws)"
    using assms by (cases rule: merge_right_cases [of vs n])
      (auto simp: coalesced_append coalesced_Cons)
  have u: "coalesced us" using assms by (simp add: coalesced_append)
  show ?thesis
  proof (cases us rule: rev_cases)
    case (snoc ts t)
    with m u show ?thesis by (auto simp: release_def coalesced_append coalesced_Cons)
  qed (use m in \<open>simp add: release_def\<close>)
qed

text \<open>Releasing what was just allocated gives the heap back.\<close>

lemma release_after_alloc:
  assumes "coalesced (us @ (n, False) # vs)" "k \<le> n"
  shows "release us (if 32 < n - k then k else n) (if 32 < n - k then (n - k, False) # vs else vs)
    = us @ (n, False) # vs"
proof -
  have v: "vs = [] \<or> snd (hd vs)" and u: "us = [] \<or> snd (last us)"
    using assms(1) by (auto simp: coalesced_append coalesced_Cons)
  have "merge_right n vs = (n, False) # vs"
    using v by (cases rule: merge_right_cases [of vs n]) auto
  with u assms(2) show ?thesis by (auto simp: release_def)
qed

text \<open>The used chunks of a heap that starts at \<open>a\<close>, with their lengths.\<close>

fun used_at :: "ptr \<Rightarrow> block list \<Rightarrow> (ptr \<times> nat) set" where
  "used_at a [] = {}"
| "used_at a ((n, u) # bs) = (if u then {(a, n)} else {}) \<union> used_at (a + n) bs"

lemma used_at_append [simp]: "used_at a (us @ vs) = used_at a us \<union> used_at (a + extent us) vs"
  by (induction a us rule: used_at.induct) (auto simp: add.assoc)

lemma used_at_bounds: "(q, m) \<in> used_at a bs \<Longrightarrow> a \<le> q \<and> q + m \<le> a + extent bs"
  by (induction a bs rule: used_at.induct) (fastforce split: if_splits)+

section \<open>Properties\<close>

text \<open>Claim C2. The heap refines first fit on the list of chunks: on a well-formed heap
  \<^verbatim>\<open>kmalloc\<close> returns for every request below \<open>2 ^ 31 - 32\<close> bytes; it returns null and changes
  nothing when no free chunk is large enough, and otherwise the block after the header of the
  first one that is, leaving a well-formed heap whose chunks are those of \<open>alloc\<close>.\<close>

theorem kmalloc_refines_first_fit:
  assumes "heap_rep h a bs" "len < 2 ^ 31 - 32"
  shows "case alloc_offset (chunk_size len) bs of
      None \<Rightarrow> kmalloc (int len) h = Some (0, h)
    | Some off \<Rightarrow> \<exists>h'. kmalloc (int len) h = Some (a + off + 16, h') \<and>
        heap_rep h' a (alloc (chunk_size len) bs)"
  using kmalloc_rep_None [OF assms] kmalloc_rep_Some [OF assms] by (auto split: option.split)

text \<open>A heap of 4096 bytes at the start of the kmalloc area.\<close>

definition sample_kheap :: kheap where
  "sample_kheap = kmalloc_init KMALLOC_START 4096
     \<lparr>chunks = \<lambda>_. \<lparr>cstate = 0, clength = 0, cnext = 0, cprev = 0\<rparr>, khead = 0\<rparr>"

lemma sample_kheap_rep: "heap_rep sample_kheap KMALLOC_START [(4096, False)]"
  using kmalloc_init_rep [of KMALLOC_START 4096] by (simp add: sample_kheap_def KMALLOC_START_def)

theorem kmalloc_refines_first_fit_witness:
  "\<exists>h'. kmalloc 100 sample_kheap = Some (KMALLOC_START + 16, h') \<and>
     heap_rep h' KMALLOC_START [(128, True), (3968, False)]"
  using kmalloc_refines_first_fit [OF sample_kheap_rep, of 100] by (simp add: chunk_size_def)

text \<open>Claim C3. Memory safety of allocation: a non-null result is a block of the requested
  length that lies inside the heap, is aligned to 16 bytes, overlaps no block in use, and
  becomes the only new block in use; in particular two live blocks never overlap.\<close>

theorem kmalloc_block_fresh:
  assumes "heap_rep h a bs" "len < 2 ^ 31 - 32" "kmalloc (int len) h = Some (p, h')" "p \<noteq> 0"
    "16 dvd a"
  shows "16 dvd p \<and> a + 16 \<le> p \<and> p + len \<le> a + extent bs \<and>
    (\<forall>(q, m)\<in>used_at a bs. p + len \<le> q \<or> q + m \<le> p - 16) \<and>
    (\<exists>m\<ge>len + 16. heap_rep h' a (alloc (chunk_size len) bs) \<and>
       used_at a (alloc (chunk_size len) bs) = insert (p - 16, m) (used_at a bs))"
proof -
  define k where "k = chunk_size len"
  obtain off where off: "alloc_offset k bs = Some off" and p: "p = a + off + 16"
    and rep: "heap_rep h' a (alloc k bs)"
    using kmalloc_refines_first_fit [OF assms(1,2)] assms(3,4)
    by (auto simp: k_def split: option.splits)
  obtain us n vs where bs: "bs = us @ (n, False) # vs" "off = extent us" "k \<le> n"
    "list_all (unfit k) us"
    using alloc_offset_Some [OF off] by blast
  have k: "len + 16 \<le> k" by (simp add: k_def chunk_size_props)
  have "chain (chunks h) 0 a us (a + off)" using assms(1) bs by (simp add: heap_rep_def)
  then have "16 dvd extent us" by (rule chain_dvd)
  then have al: "16 dvd p" using assms(5) p bs(2) by (simp add: dvd_add)
  have dis: "p + len \<le> q \<or> q + m \<le> p - 16" if "(q, m) \<in> used_at a bs" for q m
    using that bs p k used_at_bounds [of q m a us] used_at_bounds [of q m "a + extent us + n" vs]
    by (auto simp: add.assoc)
  have u: "used_at a (alloc k bs) = insert (p - 16, if 32 < n - k then k else n) (used_at a bs)"
    using alloc_decompose [OF bs(4,3), of vs] bs p by (auto simp: add.assoc)
  have "\<exists>m\<ge>len + 16. used_at a (alloc k bs) = insert (p - 16, m) (used_at a bs)"
    using u k bs(3) by (intro exI [of _ "if 32 < n - k then k else n"]) auto
  moreover have "a + 16 \<le> p" "p + len \<le> a + extent bs" using p bs k by auto
  ultimately show ?thesis using al dis rep unfolding k_def by blast
qed

theorem kmalloc_block_fresh_witness:
  "\<exists>h'. kmalloc 100 sample_kheap = Some (1048592, h') \<and> 16 dvd (1048592::nat) \<and>
     1048592 + 100 \<le> KMALLOC_START + extent [(4096, False)]"
proof -
  obtain h' where h': "kmalloc (int 100) sample_kheap = Some (1048592, h')"
    using kmalloc_refines_first_fit [OF sample_kheap_rep, of 100]
    by (auto simp: chunk_size_def KMALLOC_START_def)
  have "16 dvd KMALLOC_START" by (simp add: KMALLOC_START_def)
  from kmalloc_block_fresh [OF sample_kheap_rep _ h' _ this] h' show ?thesis by simp
qed

text \<open>Claim C4. \<^verbatim>\<open>kfree\<close> on a block in use restores a well-formed heap in which the chunk is
  free and merged with its free neighbours; no memory is lost, and if no two neighbouring
  chunks were free before, none are afterwards.\<close>

theorem kfree_refines_release:
  assumes "heap_rep h a (us @ (n, True) # vs)"
  shows "heap_rep (kfree (a + extent us + 16) h) a (release us n vs) \<and>
    extent (release us n vs) = extent (us @ (n, True) # vs) \<and>
    (coalesced (us @ (n, True) # vs) \<longrightarrow> coalesced (release us n vs))"
  using kfree_rep [OF assms] coalesced_release by simp

theorem kfree_refines_release_witness:
  "heap_rep (kmalloc_init 4096 64 sample_kheap) 4096 [(64, False)] \<and>
   (\<exists>h. heap_rep (kfree (4096 + extent [] + 16) h) 4096 (release [] 64 []))"
proof -
  have f: "heap_rep (kmalloc_init 4096 64 sample_kheap) 4096 [(64, False)]"
    using kmalloc_init_rep [of 4096 64] by simp
  then have "heap_rep (upd_chunk (4096 + extent [])
      (\<lambda>x. x\<lparr>cstate := kstate True\<rparr>) (kmalloc_init 4096 64 sample_kheap)) 4096 ([] @ (64, True) # [])"
    using mark_rep [of _ 4096 "[]" 64 False "[]" True] by simp
  from kfree_refines_release [OF this] f show ?thesis by blast
qed

text \<open>Allocating and releasing is the identity: on a heap without neighbouring free
  chunks, \<^verbatim>\<open>kfree\<close> of the block \<^verbatim>\<open>kmalloc\<close> returned gives back exactly the chunks from before.\<close>

theorem kmalloc_kfree_roundtrip:
  assumes "heap_rep h a bs" "coalesced bs" "len < 2 ^ 31 - 32"
    "kmalloc (int len) h = Some (p, h')" "p \<noteq> 0"
  shows "heap_rep (kfree p h') a bs"
proof -
  define k where "k = chunk_size len"
  obtain off where off: "alloc_offset k bs = Some off" and p: "p = a + off + 16"
    and rep: "heap_rep h' a (alloc k bs)"
    using kmalloc_refines_first_fit [OF assms(1,3)] assms(4,5)
    by (auto simp: k_def split: option.splits)
  obtain us n vs where bs: "bs = us @ (n, False) # vs" "off = extent us" "k \<le> n"
    "list_all (unfit k) us"
    using alloc_offset_Some [OF off] by blast
  have "heap_rep h' a (us @ (if 32 < n - k then k else n, True) #
      (if 32 < n - k then (n - k, False) # vs else vs))"
    using rep alloc_decompose [OF bs(4,3), of vs] bs(1) by (auto split: if_splits)
  from kfree_rep [OF this] release_after_alloc [of us n vs k] assms(2) bs p
  show ?thesis by simp
qed

theorem kmalloc_kfree_roundtrip_witness:
  "\<exists>p h'. kmalloc 100 sample_kheap = Some (p, h') \<and>
     heap_rep (kfree p h') KMALLOC_START [(4096, False)]"
proof -
  obtain h' where h': "kmalloc (int 100) sample_kheap = Some (1048592, h')"
    using kmalloc_refines_first_fit [OF sample_kheap_rep, of 100]
    by (auto simp: chunk_size_def KMALLOC_START_def)
  from kmalloc_kfree_roundtrip [OF sample_kheap_rep _ _ h'] h' show ?thesis by auto
qed

lemma cstate_kmerge [simp]: "cstate (chunks (kmerge c h) x) = cstate (chunks h x)"
  by (simp add: kmerge_def upd_chunk_def Let_def)

text \<open>Releasing a block twice in a row has no effect the second time, on every heap,
  well formed or not: the state of a released chunk stays free in its stale header.\<close>

theorem kfree_twice_is_kfree: "kfree p (kfree p h) = kfree p h"
proof (cases "cstate (chunks h (p - nat KUNIT)) = KMALLOC_STATE_USED")
  case True
  then have "cstate (chunks (kfree p h) (p - nat KUNIT)) = KMALLOC_STATE_FREE"
    by (simp add: kfree_def Let_def upd_chunk_def)
  then show ?thesis by (simp add: kfree_def [of p "kfree p h"])
next
  case False
  then show ?thesis by (simp add: kfree_def)
qed

text \<open>The allocator's own tests pass from every initial state of memory.\<close>

theorem kmalloc_self_test_passes: "kmalloc_test h = Some True"
  by (simp add: kmalloc_test_def kmalloc_setup_def kmalloc_test_single_alloc_def
      kmalloc_test_single_alloc_and_free_def kmalloc_def kmalloc_size_def kmalloc_init_def
      kmalloc_search.simps ksplit_def kfree_def kmerge_def upd_chunk_def Let_def
      KUNIT_def KMALLOC_START_def KMALLOC_LENGTH_def)

end
