(* ===== verification/Page.thy ===== *)
theory Page
  imports Kernel_Prelude
begin

text \<open>
  The physical page allocator of \<^verbatim>\<open>kernel/page.c\<close>: a bitmap with one bit per page of main
  memory, 1 meaning free, stored in 32-bit cells.  The contents of memory are a map from
  frame numbers (the upper 20 bits of an address) to 1024 words; the bitmap itself is kept as
  a separate array of cells.
\<close>

section \<open>Data\<close>

definition MAIN_MEMORY_START :: u32 where "MAIN_MEMORY_START = 0x200000"
definition CELL_BITS :: nat where "CELL_BITS = 32"

type_synonym frame = "10 word \<Rightarrow> u32"

record pmem =
  pages_free :: u32
  pages_total :: u32
  freemap_ready :: bool \<comment> \<open>the pointer \<^verbatim>\<open>freemap\<close> is not null\<close>
  freemap :: "nat \<Rightarrow> u32"
  freemap_bits :: u32
  freemap_bytes :: u32
  freemap_cells :: u32
  freemap_pages :: u32
  phys :: "20 word \<Rightarrow> frame"

definition frame_of :: "u32 \<Rightarrow> 20 word" where
  "frame_of addr = ucast (drop_bit PAGE_BITS addr)"

section \<open>Operations\<close>

function page_scan_bits :: "u32 \<Rightarrow> nat \<Rightarrow> nat option" where
  "page_scan_bits c j =
     (if j < CELL_BITS then
        (if c AND push_bit j 1 \<noteq> 0 then Some j else page_scan_bits c (Suc j))
      else None)"
  by pat_completeness auto
termination
  by (relation "measure (\<lambda>(c, j). CELL_BITS - j)") auto

function page_scan :: "(nat \<Rightarrow> u32) \<Rightarrow> nat \<Rightarrow> nat \<Rightarrow> (nat \<times> nat) option" where
  "page_scan f n i =
     (if i < n then
        (if f i \<noteq> 0 then
           (case page_scan_bits (f i) 0 of
              Some j \<Rightarrow> Some (i, j)
            | None \<Rightarrow> page_scan f n (Suc i))
         else page_scan f n (Suc i))
      else None)"
  by pat_completeness auto
termination
  by (relation "measure (\<lambda>(f, n, i). n - i)") auto

declare page_scan_bits.simps [simp del] page_scan.simps [simp del]

text \<open>The result \<open>None\<close> is the \<^verbatim>\<open>halt()\<close> of the kernel when every page is allocated.\<close>

definition page_alloc :: "bool \<Rightarrow> pmem \<Rightarrow> (u32 \<times> pmem) option" where
  "page_alloc zeroit s =
     (if \<not> freemap_ready s then Some (0, s)
      else (case page_scan (freemap s) (unat (freemap_cells s)) 0 of
          Some (i, j) \<Rightarrow>
            let cellmask = push_bit j 1;
                s = s\<lparr>freemap := (freemap s)(i := freemap s i AND NOT cellmask)\<rparr>;
                pagenumber = of_nat i * of_nat CELL_BITS + of_nat j;
                pageaddr = push_bit PAGE_BITS pagenumber + MAIN_MEMORY_START;
                s = (if zeroit then s\<lparr>phys := (phys s)(frame_of pageaddr := (\<lambda>_. 0))\<rparr> else s);
                s = s\<lparr>pages_free := pages_free s - 1\<rparr>
            in Some (pageaddr, s)
        | None \<Rightarrow> None))"

text \<open>The difference of two pointers is signed, and so is its shift.\<close>

definition page_number :: "u32 \<Rightarrow> u32" where
  "page_number pageaddr = signed_drop_bit PAGE_BITS (pageaddr - MAIN_MEMORY_START)"

definition page_free :: "u32 \<Rightarrow> pmem \<Rightarrow> pmem" where
  "page_free pageaddr s =
     (let pagenumber = page_number pageaddr;
          cellnumber = unat pagenumber div CELL_BITS;
          celloffset = unat pagenumber mod CELL_BITS;
          cellmask = push_bit celloffset 1;
          s = s\<lparr>freemap := (freemap s)(cellnumber := freemap s cellnumber OR cellmask)\<rparr>
      in s\<lparr>pages_free := pages_free s + 1\<rparr>)"

definition page_stats :: "pmem \<Rightarrow> u32 \<times> u32" where
  "page_stats s = (pages_free s, pages_total s)"

text \<open>
  \<^verbatim>\<open>memset(freemap, 0xff, bytes)\<close> on an array of little-endian cells: a cell inside the range
  becomes all ones, the cell at its end only in the bytes that lie inside.
\<close>

definition memset_ff :: "nat \<Rightarrow> (nat \<Rightarrow> u32) \<Rightarrow> (nat \<Rightarrow> u32)" where
  "memset_ff bytes f = (\<lambda>i. let k = min 4 (bytes - 4 * i) in f i OR mask (8 * k))"

fun page_alloc_times :: "nat \<Rightarrow> pmem \<Rightarrow> pmem option" where
  "page_alloc_times 0 s = Some s"
| "page_alloc_times (Suc n) s = do { (a, s) \<leftarrow> page_alloc False s; page_alloc_times n s }"

text \<open>
  The size computation: \<^verbatim>\<open>total_memory\<close>, the number of megabytes, is a \<^verbatim>\<open>uint16_t\<close>, so the
  product, the difference and the quotient are signed 32-bit operations.
\<close>

definition total_pages :: "u16 \<Rightarrow> u32" where
  "total_pages total_memory = of_int (c_div
     (i32 (i32 (i32 (uint total_memory * 1024) * 1024) - uint MAIN_MEMORY_START)) (int PAGE_SIZE))"

definition page_init :: "u16 \<Rightarrow> pmem \<Rightarrow> pmem option" where
  "page_init total_memory s = do {
     let total = total_pages total_memory;
     let s = s\<lparr>pages_total := total, pages_free := total\<rparr>;
     let s = s\<lparr>freemap_ready := True, freemap_bits := total\<rparr>;
     let s = s\<lparr>freemap_bytes := 1 + freemap_bits s div 8\<rparr>;
     let s = s\<lparr>freemap_cells := 1 + freemap_bits s div of_nat CELL_BITS\<rparr>;
     let s = s\<lparr>freemap_pages := 1 + freemap_bytes s div of_nat PAGE_SIZE\<rparr>;
     let s = s\<lparr>freemap := memset_ff (unat (freemap_bytes s)) (freemap s)\<rparr>;
     s \<leftarrow> page_alloc_times (unat (freemap_pages s)) s;
     Some (s\<lparr>freemap := (freemap s)(0 := 0)\<rparr>)
   }"

section \<open>The abstract view: the set of free pages\<close>

definition page_bit :: "pmem \<Rightarrow> nat \<Rightarrow> bool" where
  "page_bit s n = bit (freemap s (n div 32)) (n mod 32)"

definition free_pages :: "pmem \<Rightarrow> nat set" where
  "free_pages s = {n. n < 32 * unat (freemap_cells s) \<and> page_bit s n}"

definition page_addr :: "nat \<Rightarrow> u32" where
  "page_addr n = push_bit 12 (of_nat n) + MAIN_MEMORY_START"

text \<open>The bitmap covers at most the 32-bit address space above the start of main memory.\<close>

definition page_wf :: "pmem \<Rightarrow> bool" where
  "page_wf s \<longleftrightarrow> freemap_ready s \<and> 32 * unat (freemap_cells s) \<le> 2 ^ 19 - 2 ^ 9"

lemma bit_cell: "(c :: u32) AND push_bit j 1 \<noteq> 0 \<longleftrightarrow> bit c j"
  by (simp add: bit_iff_and_push_bit_not_eq_0)

lemma page_scan_bits_eq:
  "page_scan_bits c j =
     (if j < 32 then (if bit c j then Some j else page_scan_bits c (Suc j)) else None)"
  by (subst page_scan_bits.simps) (simp only: bit_cell CELL_BITS_def)

lemma page_scan_bits_Some:
  "page_scan_bits c j = Some k \<Longrightarrow> j \<le> k \<and> k < 32 \<and> bit c k \<and> (\<forall>i. j \<le> i \<longrightarrow> i < k \<longrightarrow> \<not> bit c i)"
proof (induction "32 - j" arbitrary: j)
  case (Suc d)
  then have l: "j < 32" by linarith
  show ?case
  proof (cases "bit c j")
    case False
    with Suc l have "page_scan_bits c (Suc j) = Some k" "d = 32 - Suc j"
      by (simp_all add: page_scan_bits_eq [of c j])
    with Suc.hyps(1) have "Suc j \<le> k \<and> k < 32 \<and> bit c k \<and> (\<forall>i. Suc j \<le> i \<longrightarrow> i < k \<longrightarrow> \<not> bit c i)"
      by blast
    with False show ?thesis by (metis Suc_leI Suc_leD le_neq_implies_less)
  qed (use Suc l in \<open>simp add: page_scan_bits_eq [of c j]\<close>)
qed (simp add: page_scan_bits_eq)

lemma page_scan_bits_None:
  "page_scan_bits c j = None \<Longrightarrow> j \<le> i \<Longrightarrow> i < 32 \<Longrightarrow> \<not> bit c i"
proof (induction "32 - j" arbitrary: j)
  case (Suc d)
  then have j: "\<not> bit c j" "page_scan_bits c (Suc j) = None" "d = 32 - Suc j"
    by (simp_all add: page_scan_bits_eq [of c j] split: if_splits)
  from Suc.hyps(1) [OF j(3,2)] Suc.prems j(1) show ?case by (cases "i = j") auto
qed auto

lemma page_scan_bits_total: "c \<noteq> 0 \<Longrightarrow> page_scan_bits c 0 \<noteq> None"
  using page_scan_bits_None [of c 0] bit_word_eqI [of c 0] by auto

lemma page_scan_Some:
  "page_scan f n i = Some (c, j) \<Longrightarrow>
     i \<le> c \<and> c < n \<and> page_scan_bits (f c) 0 = Some j \<and> (\<forall>k. i \<le> k \<longrightarrow> k < c \<longrightarrow> f k = 0)"
proof (induction "n - i" arbitrary: i)
  case (Suc d)
  then have l: "i < n" by linarith
  show ?case
  proof (cases "f i = 0")
    case True
    with Suc l have "page_scan f n (Suc i) = Some (c, j)" "d = n - Suc i"
      by (simp_all add: page_scan.simps [of f n i])
    with Suc.hyps(1) have "Suc i \<le> c \<and> c < n \<and> page_scan_bits (f c) 0 = Some j \<and>
        (\<forall>k. Suc i \<le> k \<longrightarrow> k < c \<longrightarrow> f k = 0)"
      by blast
    with True show ?thesis by (metis Suc_leI Suc_leD le_neq_implies_less)
  next
    case False
    with Suc l page_scan_bits_total [of "f i"] show ?thesis
      by (auto simp: page_scan.simps [of f n i])
  qed
qed (simp add: page_scan.simps)

lemma page_scan_None: "page_scan f n i = None \<Longrightarrow> i \<le> k \<Longrightarrow> k < n \<Longrightarrow> f k = 0"
proof (induction "n - i" arbitrary: i)
  case (Suc d)
  then have z: "f i = 0"
    using page_scan_bits_total [of "f i"]
    by (auto simp: page_scan.simps [of f n i] split: if_splits option.splits)
  with Suc have j: "page_scan f n (Suc i) = None" "d = n - Suc i"
    by (simp_all add: page_scan.simps [of f n i] split: if_splits)
  from Suc.hyps(1) [OF j(2,1)] Suc.prems z show ?case by (cases "k = i") auto
qed auto

section \<open>The operations on the set of free pages\<close>

lemma page_bit_upd:
  "page_bit (s\<lparr>freemap := (freemap s)(n div 32 := freemap s (n div 32) AND NOT (push_bit (n mod 32) 1))\<rparr>) m
     \<longleftrightarrow> page_bit s m \<and> m \<noteq> n"
proof (cases "m div 32 = n div 32")
  case True
  then have "m mod 32 = n mod 32 \<longleftrightarrow> m = n" by (metis div_mult_mod_eq)
  with True show ?thesis
    by (auto simp: page_bit_def bit_simps)
qed (auto simp: page_bit_def)

lemma page_bit_set:
  "page_bit (s\<lparr>freemap := (freemap s)(n div 32 := freemap s (n div 32) OR push_bit (n mod 32) 1)\<rparr>) m
     \<longleftrightarrow> page_bit s m \<or> m = n"
proof (cases "m div 32 = n div 32")
  case True
  then have "m mod 32 = n mod 32 \<longleftrightarrow> m = n" by (metis div_mult_mod_eq)
  with True show ?thesis
    by (auto simp: page_bit_def bit_simps)
qed (auto simp: page_bit_def)

lemma finite_free_pages [simp]: "finite (free_pages s)"
  by (rule finite_subset [of _ "{..<32 * unat (freemap_cells s)}"]) (auto simp: free_pages_def)

lemma page_scan_Min:
  assumes "page_scan (freemap s) (unat (freemap_cells s)) 0 = Some (i, j)"
  shows "32 * i + j \<in> free_pages s" "Min (free_pages s) = 32 * i + j" "j < 32"
proof -
  note sc = page_scan_Some [OF assms]
  note bi = page_scan_bits_Some [of "freemap s i" 0 j]
  have j: "j < 32" "bit (freemap s i) j" using sc bi by auto
  then show "j < 32" by simp
  have d: "(32 * i + j) div 32 = i" "(32 * i + j) mod 32 = j" using j by auto
  show mem: "32 * i + j \<in> free_pages s"
    using sc j d by (auto simp: free_pages_def page_bit_def)
  have "32 * i + j \<le> m" if "m \<in> free_pages s" for m
  proof (rule ccontr)
    assume "\<not> 32 * i + j \<le> m"
    then have "m div 32 \<le> i" using j(1) by (simp add: less_mult_imp_div_less less_Suc_eq_le [symmetric])
    moreover have "m = 32 * (m div 32) + m mod 32" by simp
    ultimately have m: "m div 32 < i \<or> m div 32 = i \<and> m mod 32 < j"
      using \<open>\<not> 32 * i + j \<le> m\<close> by (cases "m div 32 = i") linarith+
    have "bit (freemap s (m div 32)) (m mod 32)" using that by (simp add: free_pages_def page_bit_def)
    with m sc bi show False by auto
  qed
  with mem show "Min (free_pages s) = 32 * i + j" by (intro Min_eqI) auto
qed

lemma page_alloc_empty:
  assumes "page_wf s" "free_pages s = {}"
  shows "page_alloc z s = None"
proof -
  have "page_scan (freemap s) (unat (freemap_cells s)) 0 = None"
    using page_scan_Min(1) [of s] assms(2) by (metis empty_iff not_None_eq surj_pair)
  with assms(1) show ?thesis by (simp add: page_alloc_def page_wf_def)
qed

text \<open>The state after page \<open>n\<close> has been taken, and after it has been given back.\<close>

definition page_taken :: "nat \<Rightarrow> bool \<Rightarrow> pmem \<Rightarrow> pmem" where
  "page_taken n z s =
    s\<lparr>freemap := (freemap s)(n div 32 := freemap s (n div 32) AND NOT (push_bit (n mod 32) 1)),
      phys := (if z then (phys s)(frame_of (page_addr n) := (\<lambda>_. 0)) else phys s),
      pages_free := pages_free s - 1\<rparr>"

definition page_given :: "nat \<Rightarrow> pmem \<Rightarrow> pmem" where
  "page_given n s =
    s\<lparr>freemap := (freemap s)(n div 32 := freemap s (n div 32) OR push_bit (n mod 32) 1),
      pages_free := pages_free s + 1\<rparr>"

lemma page_taken_simps [simp]:
  "freemap_cells (page_taken n z s) = freemap_cells s"
  "pages_total (page_taken n z s) = pages_total s"
  "pages_free (page_taken n z s) = pages_free s - 1"
  "phys (page_taken n z s) = (if z then (phys s)(frame_of (page_addr n) := (\<lambda>_. 0)) else phys s)"
  "page_wf (page_taken n z s) = page_wf s"
  "k \<noteq> n div 32 \<Longrightarrow> freemap (page_taken n z s) k = freemap s k"
  by (simp_all add: page_taken_def page_wf_def)

lemma page_given_simps [simp]:
  "freemap_cells (page_given n s) = freemap_cells s"
  "pages_total (page_given n s) = pages_total s"
  "pages_free (page_given n s) = pages_free s + 1"
  "phys (page_given n s) = phys s"
  "page_wf (page_given n s) = page_wf s"
  by (simp_all add: page_given_def page_wf_def)

lemma page_bit_taken [simp]: "page_bit (page_taken n z s) m \<longleftrightarrow> page_bit s m \<and> m \<noteq> n"
  using page_bit_upd [of s n m] by (simp add: page_taken_def page_bit_def)

lemma page_bit_given [simp]: "page_bit (page_given n s) m \<longleftrightarrow> page_bit s m \<or> m = n"
  using page_bit_set [of s n m] by (simp add: page_given_def page_bit_def)

lemma free_pages_taken [simp]: "free_pages (page_taken n z s) = free_pages s - {n}"
  by (auto simp: free_pages_def)

lemma free_pages_given [simp]:
  "n < 32 * unat (freemap_cells s) \<Longrightarrow> free_pages (page_given n s) = insert n (free_pages s)"
  by (auto simp: free_pages_def)

lemma page_alloc_Some:
  assumes "page_wf s" "free_pages s \<noteq> {}"
  defines "n \<equiv> Min (free_pages s)"
  shows "page_alloc z s = Some (page_addr n, page_taken n z s)"
proof -
  have "page_scan (freemap s) (unat (freemap_cells s)) 0 \<noteq> None"
  proof
    assume none: "page_scan (freemap s) (unat (freemap_cells s)) 0 = None"
    obtain m where "m \<in> free_pages s" using assms(2) by blast
    then have "bit (freemap s (m div 32)) (m mod 32)" "m div 32 < unat (freemap_cells s)"
      by (auto simp: free_pages_def page_bit_def)
    with page_scan_None [OF none] show False by force
  qed
  then obtain i j where ij: "page_scan (freemap s) (unat (freemap_cells s)) 0 = Some (i, j)"
    by (metis not_None_eq surj_pair)
  note mn = page_scan_Min [OF ij]
  have n: "n = 32 * i + j" "n div 32 = i" "n mod 32 = j" using mn by (auto simp: n_def)
  have "push_bit PAGE_BITS (of_nat i * of_nat CELL_BITS + of_nat j) + MAIN_MEMORY_START = page_addr n"
    by (simp add: page_addr_def n(1) PAGE_BITS_def CELL_BITS_def mult.commute)
  with ij assms(1) show ?thesis
    by (simp add: page_alloc_def page_wf_def page_taken_def n(2,3) Let_def)
qed

lemma page_number_addr:
  assumes "n < 2 ^ 19 - 2 ^ 9"
  shows "unat (page_number (page_addr n)) = n"
proof -
  have w: "page_addr n - MAIN_MEMORY_START = word_of_int (int n * 4096)"
    by (simp add: page_addr_def push_bit_eq_mult)
  have "sint (page_addr n - MAIN_MEMORY_START) = int n * 4096"
    unfolding w int_word_sint using assms by simp
  then have "sint (page_number (page_addr n)) = int n"
    by (simp add: page_number_def PAGE_BITS_def sint_signed_drop_bit_eq drop_bit_eq_div)
  moreover have "(word_of_int (sint (page_number (page_addr n))) :: u32) = page_number (page_addr n)"
    by simp
  ultimately have "page_number (page_addr n) = word_of_int (int n)"
    by (simp only:)
  then show ?thesis using assms by (simp add: unat_of_nat)
qed

lemma page_free_eq:
  assumes "n < 2 ^ 19 - 2 ^ 9"
  shows "page_free (page_addr n) s = page_given n s"
  using page_number_addr [OF assms] by (simp add: page_free_def page_given_def CELL_BITS_def Let_def)

lemma page_addr_inj:
  assumes "m < 2 ^ 19 - 2 ^ 9" "n < 2 ^ 19 - 2 ^ 9" "page_addr m = page_addr n"
  shows "m = n"
  using page_number_addr assms by metis

lemma page_addr_nonnull:
  assumes "n < 2 ^ 19 - 2 ^ 9"
  shows "page_addr n \<noteq> 0"
proof -
  have "page_addr n = word_of_int (int n * 4096 + 2097152)"
    by (simp add: page_addr_def push_bit_eq_mult MAIN_MEMORY_START_def)
  then have "uint (page_addr n) = (int n * 4096 + 2097152) mod 2 ^ 32"
    by (simp only: uint_word_of_int) simp
  also have "\<dots> = int n * 4096 + 2097152" using assms by (intro mod_pos_pos_trivial) auto
  finally show ?thesis by auto
qed

section \<open>The allocator interface\<close>

text \<open>
  What the page tables, the pipes and the buffer cache rely on: \<open>alloc\<close> hands out an
  available page, \<open>free\<close> makes a page of the managed range available again.
\<close>

locale page_source =
  fixes alloc :: "bool \<Rightarrow> 's \<Rightarrow> (u32 \<times> 's) option"
    and free :: "u32 \<Rightarrow> 's \<Rightarrow> 's"
    and avail :: "'s \<Rightarrow> u32 set"
    and managed :: "'s \<Rightarrow> u32 set"
    and inv :: "'s \<Rightarrow> bool"
  assumes alloc_halt: "inv s \<Longrightarrow> avail s = {} \<Longrightarrow> alloc z s = None"
    and alloc_ok: "inv s \<Longrightarrow> avail s \<noteq> {} \<Longrightarrow>
      \<exists>a s'. alloc z s = Some (a, s') \<and> a \<in> avail s \<and> a \<noteq> 0 \<and> inv s' \<and>
        avail s' = avail s - {a} \<and> managed s' = managed s"
    and free_ok: "inv s \<Longrightarrow> a \<in> managed s \<Longrightarrow>
      inv (free a s) \<and> avail (free a s) = insert a (avail s) \<and> managed (free a s) = managed s"
    and avail_managed: "inv s \<Longrightarrow> avail s \<subseteq> managed s"
    and avail_finite: "inv s \<Longrightarrow> finite (avail s)"
begin

primrec alloc_many :: "nat \<Rightarrow> 's \<Rightarrow> (u32 list \<times> 's) option" where
  "alloc_many 0 s = Some ([], s)"
| "alloc_many (Suc n) s = do {
     (a, s) \<leftarrow> alloc False s;
     (as, s) \<leftarrow> alloc_many n s;
     Some (a # as, s)
   }"

lemma alloc_many_distinct:
  assumes "inv s" "n \<le> card (avail s)"
  shows "\<exists>as s'. alloc_many n s = Some (as, s') \<and> length as = n \<and> distinct as \<and>
    set as \<subseteq> avail s \<and> 0 \<notin> set as \<and> inv s' \<and> avail s' = avail s - set as"
  using assms
proof (induction n arbitrary: s)
  case (Suc n)
  then have "avail s \<noteq> {}" by auto
  with Suc.prems obtain a s1 where a: "alloc False s = Some (a, s1)" "a \<in> avail s" "a \<noteq> 0"
    "inv s1" "avail s1 = avail s - {a}"
    using alloc_ok [of s False] by blast
  have "n \<le> card (avail s1)" using Suc.prems a by (simp add: avail_finite)
  from Suc.IH [OF a(4) this] obtain as s' where
    "alloc_many n s1 = Some (as, s')" "length as = n" "distinct as" "set as \<subseteq> avail s1"
    "0 \<notin> set as" "inv s'" "avail s' = avail s1 - set as"
    by blast
  with a show ?case by auto
qed simp

lemma alloc_free:
  assumes "inv s" "alloc z s = Some (a, s')" "avail s \<noteq> {}"
  shows "inv (free a s') \<and> avail (free a s') = avail s"
proof -
  obtain b t where "alloc z s = Some (b, t)" "b \<in> avail s" "inv t" "avail t = avail s - {b}"
    "managed t = managed s"
    using alloc_ok [OF assms(1,3), of z] by blast
  with assms free_ok [of t b] avail_managed [OF assms(1)] show ?thesis by auto
qed

end

definition avail_addrs :: "pmem \<Rightarrow> u32 set" where
  "avail_addrs s = page_addr ` free_pages s"

definition managed_addrs :: "pmem \<Rightarrow> u32 set" where
  "managed_addrs s = page_addr ` {..<32 * unat (freemap_cells s)}"

lemma free_pages_bound: "page_wf s \<Longrightarrow> n \<in> free_pages s \<Longrightarrow> n < 2 ^ 19 - 2 ^ 9"
  by (auto simp: free_pages_def page_wf_def)

lemma avail_addrs_diff:
  assumes "page_wf s" "n \<in> free_pages s"
  shows "page_addr ` (free_pages s - {n}) = avail_addrs s - {page_addr n}"
  using assms page_addr_inj free_pages_bound [OF assms(1)] by (auto simp: avail_addrs_def)

interpretation pages: page_source page_alloc page_free avail_addrs managed_addrs page_wf
proof unfold_locales
  fix s z assume "page_wf s" "avail_addrs s = {}"
  then show "page_alloc z s = None" by (simp add: avail_addrs_def page_alloc_empty)
next
  fix s z assume s: "page_wf s" "avail_addrs s \<noteq> {}"
  then have ne: "free_pages s \<noteq> {}" by (simp add: avail_addrs_def)
  let ?n = "Min (free_pages s)"
  have n: "?n \<in> free_pages s" using ne by simp
  show "\<exists>a s'. page_alloc z s = Some (a, s') \<and> a \<in> avail_addrs s \<and> a \<noteq> 0 \<and> page_wf s' \<and>
      avail_addrs s' = avail_addrs s - {a} \<and> managed_addrs s' = managed_addrs s"
    unfolding page_alloc_Some [OF s(1) ne]
    using s(1) n page_addr_nonnull [OF free_pages_bound [OF s(1) n]] avail_addrs_diff [OF s(1) n]
    by (simp add: managed_addrs_def) (simp add: avail_addrs_def)
next
  fix s a assume s: "page_wf s" "a \<in> managed_addrs s"
  then obtain n where n: "a = page_addr n" "n < 32 * unat (freemap_cells s)"
    by (auto simp: managed_addrs_def)
  then have "n < 2 ^ 19 - 2 ^ 9" using s(1) by (auto simp: page_wf_def)
  with s n show "page_wf (page_free a s) \<and> avail_addrs (page_free a s) = insert a (avail_addrs s) \<and>
      managed_addrs (page_free a s) = managed_addrs s"
    by (simp add: page_free_eq avail_addrs_def managed_addrs_def)
next
  fix s show "page_wf s \<Longrightarrow> avail_addrs s \<subseteq> managed_addrs s"
    by (auto simp: avail_addrs_def managed_addrs_def free_pages_def)
qed (simp add: avail_addrs_def)

section \<open>Start-up\<close>

text \<open>Allocating while cell 0 still has free pages changes cell 0 only.\<close>

definition low_free :: "pmem \<Rightarrow> nat set" where
  "low_free s = {n. n < 32 \<and> page_bit s n}"

lemma page_alloc_times_low:
  assumes "page_wf s" "0 < unat (freemap_cells s)" "k \<le> card (low_free s)"
  shows "\<exists>s'. page_alloc_times k s = Some s' \<and> freemap_cells s' = freemap_cells s \<and>
    freemap_ready s' \<and> pages_total s' = pages_total s \<and> pages_free s' = pages_free s - of_nat k \<and>
    (\<forall>c. 0 < c \<longrightarrow> freemap s' c = freemap s c)"
  using assms
proof (induction k arbitrary: s)
  case 0
  then show ?case by (simp add: page_wf_def)
next
  case (Suc k)
  then have "low_free s \<noteq> {}" by (metis card.empty not_less_eq_eq zero_le)
  then obtain m where m: "m \<in> low_free s" by blast
  with Suc.prems(2) have mf: "m \<in> free_pages s" "m < 32" by (auto simp: low_free_def free_pages_def)
  let ?n = "Min (free_pages s)"
  have "?n \<le> m" using mf(1) by (intro Min_le) auto
  with mf have n: "?n < 32" "?n \<in> free_pages s" by (linarith, intro Min_in) auto
  have al: "page_alloc False s = Some (page_addr ?n, page_taken ?n False s)"
    using page_alloc_Some [OF Suc.prems(1)] mf(1) by blast
  have "low_free (page_taken ?n False s) = low_free s - {?n}" "?n \<in> low_free s"
    using n by (auto simp: low_free_def free_pages_def)
  moreover have "finite (low_free s)" by (simp add: low_free_def)
  ultimately have "k \<le> card (low_free (page_taken ?n False s))" using Suc.prems(3) by simp
  from Suc.IH [OF _ _ this] Suc.prems(1,2) obtain s' where s':
    "page_alloc_times k (page_taken ?n False s) = Some s'" "freemap_cells s' = freemap_cells s"
    "freemap_ready s'" "pages_total s' = pages_total s" "pages_free s' = pages_free s - 1 - of_nat k"
    "\<forall>c. 0 < c \<longrightarrow> freemap s' c = freemap (page_taken ?n False s) c"
    by auto
  with al n(1) show ?case by (auto simp: algebra_simps)
qed

lemma total_pages_eq:
  assumes "3 \<le> M" "M < 2048"
  shows "total_pages (of_nat M) = of_nat (256 * M - 512)"
proof -
  have u: "uint (of_nat M :: u16) = int M" using assms by (simp add: uint_nat unat_of_nat)
  have a: "i32 (int M * 1024) = int M * 1024" "i32 (int M * 1024 * 1024) = int M * 1024 * 1024"
    "i32 (int M * 1024 * 1024 - 2097152) = (256 * int M - 512) * 4096"
    using assms by (subst i32_id; simp)+
  have "uint MAIN_MEMORY_START = 2097152" "int PAGE_SIZE = 4096"
    by (simp_all add: MAIN_MEMORY_START_def PAGE_SIZE_def)
  moreover have "c_div ((256 * int M - 512) * 4096) 4096 = 256 * int M - 512"
    using assms by (subst c_div_nonneg) auto
  ultimately have "total_pages (of_nat M) = of_int (256 * int M - 512)"
    by (simp only: total_pages_def u a)
  also have "256 * int M - 512 = int (256 * M - 512)" using assms by (simp add: of_nat_diff)
  finally show ?thesis by simp
qed

lemma mask_32 [simp]: "mask 32 = (- 1 :: u32)"
  by (rule bit_word_eqI) (simp add: bit_simps)

lemma memset_ff_full: "4 * i + 4 \<le> bytes \<Longrightarrow> memset_ff bytes f i = - 1"
proof -
  assume "4 * i + 4 \<le> bytes"
  then have "min 4 (bytes - 4 * i) = 4" by linarith
  then show ?thesis by (simp add: memset_ff_def)
qed

lemma unat_div_u32: "unat (x div y :: u32) = unat x div unat y"
  by (simp add: unat_div)

text \<open>The geometry \<^verbatim>\<open>page_init\<close> computes for \<open>M\<close> megabytes.\<close>

lemma page_init_geometry:
  assumes "3 \<le> M" "M < 2048"
  defines "t \<equiv> (of_nat (256 * M - 512) :: u32)"
  shows "unat t = 256 * M - 512" "unat (1 + t div 8) = 32 * M - 63"
    "unat (1 + t div of_nat CELL_BITS) = 8 * M - 15"
    "unat (1 + (1 + t div 8) div of_nat PAGE_SIZE) \<le> 17"
proof -
  have "256 * M - 512 < 2 ^ LENGTH(32)" using assms(1,2) by simp
  then show t: "unat t = 256 * M - 512" unfolding t_def by (rule unat_of_nat_eq)
  have "unat (t div 8) = 32 * M - 64" "unat (t div of_nat CELL_BITS) = 8 * M - 16"
    using assms(1,2) by (auto simp: unat_div_u32 t CELL_BITS_def)
  with assms(1,2) show b: "unat (1 + t div 8) = 32 * M - 63"
    and "unat (1 + t div of_nat CELL_BITS) = 8 * M - 15"
    by (simp_all add: unat_word_ariths)
  have "unat ((1 + t div 8) div of_nat PAGE_SIZE) = (32 * M - 63) div 4096"
    by (simp add: unat_div_u32 b PAGE_SIZE_def)
  also have "\<dots> \<le> 16" using assms(1,2) by auto
  finally show "unat (1 + (1 + t div 8) div of_nat PAGE_SIZE) \<le> 17"
    by (simp add: unat_word_ariths)
qed

lemma page_init_bits:
  assumes "3 \<le> M" "M < 2048"
  shows "\<exists>s'. page_init (of_nat M) s = Some s' \<and> page_wf s' \<and>
    unat (freemap_cells s') = 8 * M - 15 \<and> pages_total s' = of_nat (256 * M - 512) \<and>
    (\<forall>c. freemap s' c = (if c = 0 then 0 else memset_ff (32 * M - 63) (freemap s) c))"
proof -
  define t :: u32 where "t = of_nat (256 * M - 512)"
  note g = page_init_geometry [OF assms, folded t_def]
  define s1 where "s1 = s\<lparr>pages_total := t, pages_free := t, freemap_ready := True,
    freemap_bits := t, freemap_bytes := 1 + t div 8, freemap_cells := 1 + t div of_nat CELL_BITS,
    freemap_pages := 1 + (1 + t div 8) div of_nat PAGE_SIZE,
    freemap := memset_ff (32 * M - 63) (freemap s)\<rparr>"
  have wf: "page_wf s1" using assms by (simp add: page_wf_def s1_def g(3))
  have "4 \<le> 32 * M - 63" using assms by linarith
  then have "memset_ff (32 * M - 63) (freemap s) 0 = - 1"
    by (simp add: memset_ff_full)
  then have "low_free s1 = {n. n < 32}"
    by (auto simp: low_free_def page_bit_def s1_def)
  then have "card (low_free s1) = 32" by simp
  with page_alloc_times_low [OF wf, of "unat (freemap_pages s1)"] g assms obtain s2 where s2:
    "page_alloc_times (unat (freemap_pages s1)) s1 = Some s2" "freemap_cells s2 = freemap_cells s1"
    "freemap_ready s2" "pages_total s2 = t" "\<forall>c. 0 < c \<longrightarrow> freemap s2 c = freemap s1 c"
    by (auto simp: s1_def)
  have "page_init (of_nat M) s = Some (s2\<lparr>freemap := (freemap s2)(0 := 0)\<rparr>)"
    using s2(1) g(2) assms
    by (simp add: page_init_def total_pages_eq t_def [symmetric] s1_def Let_def)
  moreover have "page_wf (s2\<lparr>freemap := (freemap s2)(0 := 0)\<rparr>)"
    using wf s2(2,3) by (simp add: page_wf_def)
  ultimately show ?thesis
    using s2 g(3) by (auto simp: s1_def t_def)
qed

section \<open>Properties\<close>

text \<open>Claim C5. \<^verbatim>\<open>page_alloc\<close> halts exactly when no page is free; otherwise it returns the
  lowest free page, which is not null and is free no longer, clears it if asked, decrements
  the counter, and leaves every other page, free or used, and its contents as they were.\<close>

theorem page_alloc_correct:
  assumes "page_wf s"
  shows "(page_alloc z s = None \<longleftrightarrow> free_pages s = {}) \<and>
    (\<forall>a s'. page_alloc z s = Some (a, s') \<longrightarrow>
       (\<exists>n. a = page_addr n \<and> n = Min (free_pages s) \<and> n \<in> free_pages s \<and> a \<noteq> 0 \<and>
          free_pages s' = free_pages s - {n} \<and> pages_free s' = pages_free s - 1 \<and>
          page_wf s' \<and> phys s' = (if z then (phys s)(frame_of a := (\<lambda>_. 0)) else phys s)))"
proof (cases "free_pages s = {}")
  case True
  then show ?thesis using page_alloc_empty [OF assms] by simp
next
  case False
  have "Min (free_pages s) \<in> free_pages s" using False by simp
  with page_alloc_Some [OF assms False, of z] page_addr_nonnull free_pages_bound [OF assms] assms
  show ?thesis by auto
qed

text \<open>A machine whose bitmap has one cell, with pages 3 and 5 free.\<close>

definition sample_pmem :: pmem where
  "sample_pmem = \<lparr>pages_free = 2, pages_total = 32, freemap_ready = True,
     freemap = (\<lambda>_. 0)(0 := 40), freemap_bits = 32, freemap_bytes = 5, freemap_cells = 1,
     freemap_pages = 1, phys = \<lambda>_ _. 7\<rparr>"

lemma sample_pmem_wf: "page_wf sample_pmem"
  by (simp add: page_wf_def sample_pmem_def)

theorem page_alloc_correct_witness:
  "page_alloc True sample_pmem \<noteq> None"
proof -
  have "3 \<in> free_pages sample_pmem"
    by (simp add: free_pages_def page_bit_def sample_pmem_def bit_iff_odd)
  with page_alloc_correct [OF sample_pmem_wf, of True] show ?thesis by auto
qed

text \<open>Any number of pages up to the number of free ones can be allocated in a row;
  the addresses are pairwise different, non-null and were free before.\<close>

theorem page_alloc_many_distinct:
  assumes "page_wf s" "n \<le> card (avail_addrs s)"
  shows "\<exists>as s'. pages.alloc_many n s = Some (as, s') \<and> length as = n \<and> distinct as \<and>
    set as \<subseteq> avail_addrs s \<and> 0 \<notin> set as \<and> page_wf s' \<and> avail_addrs s' = avail_addrs s - set as"
  using assms by (rule pages.alloc_many_distinct)

theorem page_alloc_many_distinct_witness:
  "\<exists>as s'. pages.alloc_many 1 sample_pmem = Some (as, s') \<and> length as = 1"
proof -
  have "page_addr 3 \<in> avail_addrs sample_pmem"
    by (auto simp: avail_addrs_def free_pages_def page_bit_def sample_pmem_def bit_iff_odd
        intro!: image_eqI [of _ _ 3])
  then have "1 \<le> card (avail_addrs sample_pmem)"
    using pages.avail_finite [OF sample_pmem_wf] by (metis One_nat_def Suc_leI card_gt_0_iff empty_iff)
  from page_alloc_many_distinct [OF sample_pmem_wf this] show ?thesis by blast
qed

text \<open>Freeing the page just allocated restores the set of free pages and the counter.\<close>

theorem page_alloc_free_roundtrip:
  assumes "page_wf s" "page_alloc z s = Some (a, s')"
  shows "free_pages (page_free a s') = free_pages s \<and> pages_free (page_free a s') = pages_free s"
proof -
  have ne: "free_pages s \<noteq> {}" using assms page_alloc_empty by fastforce
  let ?n = "Min (free_pages s)"
  have n: "?n \<in> free_pages s" using ne by simp
  then have "?n < 2 ^ 19 - 2 ^ 9" "?n < 32 * unat (freemap_cells s)"
    using free_pages_bound [OF assms(1)] by (auto simp: free_pages_def)
  with page_alloc_Some [OF assms(1) ne, of z] assms(2) n show ?thesis
    by (auto simp: page_free_eq)
qed

theorem page_alloc_free_roundtrip_witness:
  "\<exists>a s'. page_alloc True sample_pmem = Some (a, s') \<and>
     free_pages (page_free a s') = free_pages sample_pmem"
proof -
  have "3 \<in> free_pages sample_pmem"
    by (simp add: free_pages_def page_bit_def sample_pmem_def bit_iff_odd)
  then obtain a s' where "page_alloc True sample_pmem = Some (a, s')"
    using page_alloc_Some [OF sample_pmem_wf] by blast
  with page_alloc_free_roundtrip [OF sample_pmem_wf this] show ?thesis by blast
qed

text \<open>\<^verbatim>\<open>page_init\<close> rounds the size of the bitmap up by a whole byte and then marks
  every bit of it free: on a machine with \<open>M\<close> megabytes the kernel starts with the page at
  address \<open>M * 2 ^ 20\<close>, the first one beyond the end of memory, in the set of free pages, and
  with all pages of memory from page 32 on.\<close>

theorem page_init_frees_page_past_end:
  assumes "3 \<le> M" "M < 2048"
  shows "\<exists>s'. page_init (of_nat M) s = Some s' \<and> page_wf s' \<and>
    unat (pages_total s') = 256 * M - 512 \<and> {32..<256 * M - 512} \<subseteq> free_pages s' \<and>
    256 * M - 512 \<in> free_pages s' \<and> page_addr (256 * M - 512) = of_nat (M * 2 ^ 20)"
proof -
  obtain s' where s': "page_init (of_nat M) s = Some s'" "page_wf s'"
    "unat (freemap_cells s') = 8 * M - 15" "pages_total s' = of_nat (256 * M - 512)"
    "\<And>c. freemap s' c = (if c = 0 then 0 else memset_ff (32 * M - 63) (freemap s) c)"
    using page_init_bits [OF assms, of s] by blast
  have inner: "n \<in> free_pages s'" if "32 \<le> n" "n < 256 * M - 512" for n
  proof -
    have "n div 32 \<noteq> 0" "n div 32 < 8 * M - 16"
      using that assms by (simp, simp add: less_mult_imp_div_less)
    then have "n div 32 \<noteq> 0" "4 * (n div 32) + 4 \<le> 32 * M - 63" by linarith+
    then have "freemap s' (n div 32) = - 1"
      by (simp add: s'(5) memset_ff_full)
    with that assms show ?thesis by (auto simp: free_pages_def page_bit_def s'(3))
  qed
  have d: "(256 * M - 512) div 32 = 8 * M - 16" "(256 * M - 512) mod 32 = 0" using assms by auto
  have "(32 * M - 63) - 4 * (8 * M - 16) = 1" using assms by auto
  then have "bit (freemap s' (8 * M - 16)) 0"
    using assms by (simp add: s'(5) memset_ff_def min_def bit_simps)
  then have "256 * M - 512 \<in> free_pages s'"
    using assms d by (auto simp: free_pages_def page_bit_def s'(3))
  moreover have "page_addr (256 * M - 512) = of_nat (M * 2 ^ 20)"
  proof -
    have "page_addr (256 * M - 512) = of_nat ((256 * M - 512) * 4096 + 2097152)"
      by (simp add: page_addr_def push_bit_eq_mult MAIN_MEMORY_START_def)
    also have "(256 * M - 512) * 4096 + 2097152 = M * 2 ^ 20" using assms by (auto simp: algebra_simps)
    finally show ?thesis .
  qed
  moreover have "unat (pages_total s') = 256 * M - 512"
    using page_init_geometry(1) [OF assms] s'(4) by simp
  ultimately show ?thesis using s'(1,2) inner by auto
qed

theorem page_init_frees_page_past_end_witness:
  "\<exists>s'. page_init (of_nat 128) sample_pmem = Some s' \<and> unat (pages_total s') = 32256 \<and>
     32256 \<in> free_pages s' \<and> page_addr 32256 = of_nat (128 * 2 ^ 20)"
  using page_init_frees_page_past_end [of 128 sample_pmem] by auto

end
