(* ===== verification/Pagetable.thy ===== *)
theory Pagetable
  imports Page
begin

text \<open>
  The two-level x86 page tables of \<^verbatim>\<open>kernel/pagetable.c\<close>, kept in the physical frames of the
  page allocator: a table is a frame whose 1024 words are page entries in the hardware
  format.  \<open>decode\<close> and \<open>encode\<close> are the bit fields of \<^verbatim>\<open>struct pageentry\<close>.  The functions
  that load \<^verbatim>\<open>%cr3\<close> or \<^verbatim>\<open>%cr0\<close> are processor instructions and are not modelled.
\<close>

section \<open>Page entries\<close>

record pageentry =
  present :: bool
  readwrite :: bool
  user :: bool
  writethrough :: bool
  nocache :: bool
  accessed :: bool
  dirty :: bool
  pagesize :: bool
  globalpage :: bool
  avail :: "3 word"
  addr :: "20 word"

definition decode :: "u32 \<Rightarrow> pageentry" where
  "decode w = \<lparr>present = bit w 0, readwrite = bit w 1, user = bit w 2, writethrough = bit w 3,
     nocache = bit w 4, accessed = bit w 5, dirty = bit w 6, pagesize = bit w 7,
     globalpage = bit w 8, avail = ucast (drop_bit 9 w), addr = ucast (drop_bit 12 w)\<rparr>"

definition flag :: "nat \<Rightarrow> bool \<Rightarrow> u32" where
  "flag n b = (if b then push_bit n 1 else 0)"

definition encode :: "pageentry \<Rightarrow> u32" where
  "encode e = flag 0 (present e) OR flag 1 (readwrite e) OR flag 2 (user e) OR
     flag 3 (writethrough e) OR flag 4 (nocache e) OR flag 5 (accessed e) OR flag 6 (dirty e) OR
     flag 7 (pagesize e) OR flag 8 (globalpage e) OR
     push_bit 9 (ucast (avail e)) OR push_bit 12 (ucast (addr e))"

lemma bit_flag: "n < 32 \<Longrightarrow> bit (flag n b) k \<longleftrightarrow> k = n \<and> b"
  by (auto simp: flag_def bit_simps)

lemma bit_field9: "bit (push_bit 9 (ucast (a :: 3 word)) :: u32) k \<longleftrightarrow> 9 \<le> k \<and> k < 12 \<and> bit a (k - 9)"
  by (auto simp: bit_push_bit_iff bit_unsigned_iff dest: bit_imp_le_length)

lemma bit_field12: "bit (push_bit 12 (ucast (a :: 20 word)) :: u32) k \<longleftrightarrow> 12 \<le> k \<and> k < 32 \<and> bit a (k - 12)"
  by (auto simp: bit_push_bit_iff bit_unsigned_iff dest: bit_imp_le_length)

lemma bit_encode:
  "bit (encode e) k \<longleftrightarrow>
     (k = 0 \<and> present e) \<or> (k = 1 \<and> readwrite e) \<or> (k = 2 \<and> user e) \<or> (k = 3 \<and> writethrough e) \<or>
     (k = 4 \<and> nocache e) \<or> (k = 5 \<and> accessed e) \<or> (k = 6 \<and> dirty e) \<or> (k = 7 \<and> pagesize e) \<or>
     (k = 8 \<and> globalpage e) \<or> (9 \<le> k \<and> k < 12 \<and> bit (avail e) (k - 9)) \<or>
     (12 \<le> k \<and> k < 32 \<and> bit (addr e) (k - 12))"
  unfolding encode_def bit_or_iff bit_field9 bit_field12
  by (simp only: bit_flag disj_assoc zero_less_numeral one_less_numeral_iff numeral_less_iff semiring_norm)

lemma decode_encode [simp]: "decode (encode e) = e"
proof -
  have a: "(ucast (drop_bit 9 (encode e)) :: 3 word) = avail e"
    by (rule bit_word_eqI) (auto simp: bit_simps bit_encode)
  have b: "(ucast (drop_bit 12 (encode e)) :: 20 word) = addr e"
    by (rule bit_word_eqI) (auto simp: bit_simps bit_encode)
  show ?thesis by (simp add: decode_def a b bit_encode)
qed

section \<open>Operations\<close>

definition PAGE_FLAG_KERNEL :: u32 where "PAGE_FLAG_KERNEL = 1"
definition PAGE_FLAG_ALLOC :: u32 where "PAGE_FLAG_ALLOC = 2"
definition PAGE_FLAG_READWRITE :: u32 where "PAGE_FLAG_READWRITE = 4"
definition PAGE_FLAG_CLEAR :: u32 where "PAGE_FLAG_CLEAR = 8"
definition ENTRIES_PER_TABLE :: nat where "ENTRIES_PER_TABLE = 1024"

definition addr_of :: "20 word \<Rightarrow> u32" where
  "addr_of f = push_bit 12 (ucast f)"

definition pt_entry :: "u32 \<Rightarrow> 10 word \<Rightarrow> pmem \<Rightarrow> pageentry" where
  "pt_entry p i s = decode (phys s (frame_of p) i)"

definition pt_store :: "u32 \<Rightarrow> 10 word \<Rightarrow> pageentry \<Rightarrow> pmem \<Rightarrow> pmem" where
  "pt_store p i e s =
     s\<lparr>phys := (phys s)(frame_of p := (phys s (frame_of p))(i := encode e))\<rparr>"

definition dir_index :: "u32 \<Rightarrow> 10 word" where
  "dir_index vaddr = ucast (drop_bit 22 vaddr)"

definition tab_index :: "u32 \<Rightarrow> 10 word" where
  "tab_index vaddr = ucast (drop_bit 12 vaddr AND 0x3ff)"

definition pagetable_create :: "pmem \<Rightarrow> (u32 \<times> pmem) option" where
  "pagetable_create s = page_alloc True s"

text \<open>The result \<open>Some (paddr, flags)\<close> is the return value 1 with the two results.\<close>

definition pagetable_getmap :: "u32 \<Rightarrow> u32 \<Rightarrow> pmem \<Rightarrow> (u32 \<times> u32) option" where
  "pagetable_getmap p vaddr s =
     (let e = pt_entry p (dir_index vaddr) s in
      if \<not> present e then None
      else
        let q = addr_of (addr e); e = pt_entry q (tab_index vaddr) s in
        if \<not> present e then None
        else Some (addr_of (addr e),
          (if readwrite e then PAGE_FLAG_READWRITE else 0) OR
          (if bit (avail e) 0 then PAGE_FLAG_ALLOC else 0) OR
          (if \<not> user e then PAGE_FLAG_KERNEL else 0)))"

text \<open>The two entries \<^verbatim>\<open>pagetable_map\<close> writes: the directory entry and the page entry.\<close>

definition dir_entry :: "u32 \<Rightarrow> u32 \<Rightarrow> pageentry" where
  "dir_entry q flags =
     \<lparr>present = True, readwrite = True, user = (flags AND PAGE_FLAG_KERNEL = 0),
      writethrough = False, nocache = False, accessed = False, dirty = False, pagesize = False,
      globalpage = (flags AND PAGE_FLAG_KERNEL \<noteq> 0), avail = 0, addr = frame_of q\<rparr>"

definition page_entry :: "u32 \<Rightarrow> u32 \<Rightarrow> pageentry" where
  "page_entry paddr flags =
     \<lparr>present = True, readwrite = (flags AND PAGE_FLAG_READWRITE \<noteq> 0),
      user = (flags AND PAGE_FLAG_KERNEL = 0),
      writethrough = False, nocache = False, accessed = False, dirty = False, pagesize = False,
      globalpage = (flags AND PAGE_FLAG_KERNEL \<noteq> 0),
      avail = (if flags AND PAGE_FLAG_ALLOC \<noteq> 0 then 1 else 0), addr = frame_of paddr\<rparr>"

text \<open>
  The first half of \<^verbatim>\<open>pagetable_map\<close> finds or creates the second-level table; a table that
  cannot be created is the result \<open>None\<close> inside the \<open>Some\<close>.
\<close>

definition pagetable_table ::
  "u32 \<Rightarrow> 10 word \<Rightarrow> u32 \<Rightarrow> pmem \<Rightarrow> (u32 option \<times> pmem) option" where
  "pagetable_table p a flags s =
     (let e = pt_entry p a s in
      if \<not> present e then do {
        (q, s) \<leftarrow> pagetable_create s;
        if q = 0 then Some (None, s)
        else Some (Some q, pt_store p a (dir_entry q flags) s)
      } else Some (Some (addr_of (addr e)), s))"

definition pagetable_map :: "u32 \<Rightarrow> u32 \<Rightarrow> u32 \<Rightarrow> u32 \<Rightarrow> pmem \<Rightarrow> (int \<times> pmem) option" where
  "pagetable_map p vaddr paddr flags s = do {
     (paddr, s) \<leftarrow> (if flags AND PAGE_FLAG_ALLOC \<noteq> 0
        then page_alloc (flags AND PAGE_FLAG_CLEAR \<noteq> 0) s else Some (paddr, s));
     if flags AND PAGE_FLAG_ALLOC \<noteq> 0 \<and> paddr = 0 then Some (0, s)
     else do {
       (table, s) \<leftarrow> pagetable_table p (dir_index vaddr) flags s;
       (case table of
          None \<Rightarrow> Some (0, s)
        | Some q \<Rightarrow> Some (1, pt_store q (tab_index vaddr) (page_entry paddr flags) s))
     }
   }"

definition pagetable_unmap :: "u32 \<Rightarrow> u32 \<Rightarrow> pmem \<Rightarrow> pmem" where
  "pagetable_unmap p vaddr s =
     (let e = pt_entry p (dir_index vaddr) s in
      if present e then
        let q = addr_of (addr e) in
        pt_store q (tab_index vaddr) ((pt_entry q (tab_index vaddr) s)\<lparr>present := False\<rparr>) s
      else s)"

definition pagetable_delete_table :: "u32 \<Rightarrow> pmem \<Rightarrow> pmem" where
  "pagetable_delete_table q s =
     fold (\<lambda>j s. let e = pt_entry q (of_nat j) s in
        if present e \<and> avail e \<noteq> 0 then page_free (addr_of (addr e)) s else s)
       [0..<ENTRIES_PER_TABLE] s"

definition pagetable_delete :: "u32 \<Rightarrow> pmem \<Rightarrow> pmem" where
  "pagetable_delete p s = page_free p
     (fold (\<lambda>i s. let e = pt_entry p (of_nat i) s in
        if present e then page_free (addr_of (addr e)) (pagetable_delete_table (addr_of (addr e)) s)
        else s) [0..<ENTRIES_PER_TABLE] s)"

definition npages :: "u32 \<Rightarrow> nat" where
  "npages len = unat len div PAGE_SIZE + (if unat len mod PAGE_SIZE \<noteq> 0 then 1 else 0)"

fun pagetable_alloc_loop :: "nat \<Rightarrow> u32 \<Rightarrow> u32 \<Rightarrow> u32 \<Rightarrow> pmem \<Rightarrow> pmem option" where
  "pagetable_alloc_loop 0 p vaddr flags s = Some s"
| "pagetable_alloc_loop (Suc n) p vaddr flags s = do {
     s \<leftarrow> (if pagetable_getmap p vaddr s = None
          then map_option snd (pagetable_map p vaddr 0 (flags OR PAGE_FLAG_ALLOC) s) else Some s);
     pagetable_alloc_loop n p (vaddr + of_nat PAGE_SIZE) flags s
   }"

definition pagetable_alloc :: "u32 \<Rightarrow> u32 \<Rightarrow> u32 \<Rightarrow> u32 \<Rightarrow> pmem \<Rightarrow> pmem option" where
  "pagetable_alloc p vaddr len flags s =
     pagetable_alloc_loop (npages len) p (vaddr AND 0xfffff000) flags s"

fun pagetable_free_loop :: "nat \<Rightarrow> u32 \<Rightarrow> u32 \<Rightarrow> pmem \<Rightarrow> pmem" where
  "pagetable_free_loop 0 p vaddr s = s"
| "pagetable_free_loop (Suc n) p vaddr s =
     (let s = (case pagetable_getmap p vaddr s of
          None \<Rightarrow> s
        | Some (paddr, flags) \<Rightarrow>
            let s = pagetable_unmap p vaddr s in
            if flags AND PAGE_FLAG_ALLOC \<noteq> 0 then page_free paddr s else s)
      in pagetable_free_loop n p (vaddr + of_nat PAGE_SIZE) s)"

definition pagetable_free :: "u32 \<Rightarrow> u32 \<Rightarrow> u32 \<Rightarrow> pmem \<Rightarrow> pmem" where
  "pagetable_free p vaddr len s = pagetable_free_loop (npages len) p (vaddr AND 0xfffff000) s"

text \<open>
  The identity maps of \<^verbatim>\<open>pagetable_init\<close>.  The counters are unsigned and may wrap around, so
  that the second loop need not end; the loops are partial functions.
\<close>

partial_function (option) pagetable_init_ram :: "u32 \<Rightarrow> u32 \<Rightarrow> u32 \<Rightarrow> pmem \<Rightarrow> pmem option" where
  "pagetable_init_ram p stop i s =
     (if i < stop then
        Option.bind (pagetable_map p i i (PAGE_FLAG_KERNEL OR PAGE_FLAG_READWRITE) s)
          (\<lambda>(r, s). pagetable_init_ram p stop (i + of_nat PAGE_SIZE) s)
      else Some s)"

partial_function (option) pagetable_init_video :: "u32 \<Rightarrow> u32 \<Rightarrow> u32 \<Rightarrow> pmem \<Rightarrow> pmem option" where
  "pagetable_init_video p stop i s =
     (if i \<le> stop then
        Option.bind (pagetable_map p i i (PAGE_FLAG_KERNEL OR PAGE_FLAG_READWRITE) s)
          (\<lambda>(r, s). pagetable_init_video p stop (i + of_nat PAGE_SIZE) s)
      else Some s)"

definition pagetable_init ::
  "u16 \<Rightarrow> u32 \<Rightarrow> u16 \<Rightarrow> u16 \<Rightarrow> u32 \<Rightarrow> pmem \<Rightarrow> pmem option" where
  "pagetable_init total_memory video_buffer video_xres video_yres p s = do {
     s \<leftarrow> pagetable_init_ram p (ucast total_memory * 1024 * 1024) 0 s;
     pagetable_init_video p (video_buffer + ucast video_xres * ucast video_yres * 3) video_buffer s
   }"

text \<open>
  \<^verbatim>\<open>pagetable_duplicate\<close>: the loops stop at the first page that cannot be allocated; then the
  flag in the result is \<open>False\<close> and the new table is deleted again.
\<close>

fun pagetable_dup_table :: "u32 \<Rightarrow> u32 \<Rightarrow> nat list \<Rightarrow> pmem \<Rightarrow> (bool \<times> pmem) option" where
  "pagetable_dup_table q newq [] s = Some (True, s)"
| "pagetable_dup_table q newq (j # js) s = do {
     let e = pt_entry q (of_nat j) s;
     let s = s\<lparr>phys := (phys s)(frame_of newq := (phys s (frame_of newq))
         (of_nat j := phys s (frame_of q) (of_nat j)))\<rparr>;
     if present e then do {
       let paddr = addr_of (addr e);
       (new_paddr, s) \<leftarrow> (if avail e \<noteq> 0 then page_alloc False s else Some (paddr, s));
       if avail e \<noteq> 0 \<and> new_paddr = 0 then Some (False, s)
       else do {
         let s = (if avail e \<noteq> 0
           then s\<lparr>phys := (phys s)(frame_of new_paddr := phys s (frame_of paddr))\<rparr> else s);
         let s = pt_store newq (of_nat j) ((pt_entry newq (of_nat j) s)\<lparr>addr := frame_of new_paddr\<rparr>) s;
         pagetable_dup_table q newq js s
       }
     } else pagetable_dup_table q newq js s
   }"

fun pagetable_dup_dir :: "u32 \<Rightarrow> u32 \<Rightarrow> nat list \<Rightarrow> pmem \<Rightarrow> (bool \<times> pmem) option" where
  "pagetable_dup_dir sp newp [] s = Some (True, s)"
| "pagetable_dup_dir sp newp (i # is) s = do {
     let e = pt_entry sp (of_nat i) s;
     if present e then do {
       (newq, s) \<leftarrow> pagetable_create s;
       if newq = 0 then Some (False, s)
       else do {
         let s = s\<lparr>phys := (phys s)(frame_of newp := (phys s (frame_of newp))
             (of_nat i := phys s (frame_of sp) (of_nat i)))\<rparr>;
         let s = pt_store newp (of_nat i) ((pt_entry newp (of_nat i) s)\<lparr>addr := frame_of newq\<rparr>) s;
         (ok, s) \<leftarrow> pagetable_dup_table (addr_of (addr e)) newq [0..<ENTRIES_PER_TABLE] s;
         if ok then pagetable_dup_dir sp newp is s else Some (False, s)
       }
     } else pagetable_dup_dir sp newp is s
   }"

definition pagetable_duplicate :: "u32 \<Rightarrow> pmem \<Rightarrow> (u32 \<times> pmem) option" where
  "pagetable_duplicate sp s = do {
     (newp, s) \<leftarrow> pagetable_create s;
     if newp = 0 then Some (0, s)
     else do {
       (ok, s) \<leftarrow> pagetable_dup_dir sp newp [0..<ENTRIES_PER_TABLE] s;
       if ok then Some (newp, s) else Some (0, pagetable_delete newp s)
     }
   }"

lemma dir_entry_simps [simp]:
  "present (dir_entry q fl)" "addr (dir_entry q fl) = frame_of q"
  by (simp_all add: dir_entry_def)

lemma page_entry_simps [simp]:
  "present (page_entry d fl)" "addr (page_entry d fl) = frame_of d"
  "avail (page_entry d fl) = (if fl AND PAGE_FLAG_ALLOC \<noteq> 0 then 1 else 0)"
  by (simp_all add: page_entry_def)

section \<open>Frames and addresses\<close>

lemma frame_of_addr_of [simp]: "frame_of (addr_of f) = f"
  by (rule bit_word_eqI) (auto simp: frame_of_def addr_of_def PAGE_BITS_def bit_simps)

lemma addr_of_frame_of: "addr_of (frame_of a) = a AND 0xfffff000"
proof -
  have m: "(0xfffff000 :: u32) = push_bit 12 (mask 20)" by (simp add: mask_eq_exp_minus_1)
  show ?thesis unfolding m
    by (rule bit_word_eqI) (auto simp: frame_of_def addr_of_def PAGE_BITS_def bit_simps)
qed

lemma addr_of_frame_of_page [simp]: "addr_of (frame_of (page_addr n)) = page_addr n"
proof -
  have "page_addr n = push_bit 12 (of_nat n + 512)"
    by (simp add: page_addr_def push_bit_eq_mult MAIN_MEMORY_START_def algebra_simps)
  then have "bit (page_addr n) k \<Longrightarrow> 12 \<le> k" for k by (simp add: bit_simps)
  then show ?thesis
    by (intro bit_word_eqI) (auto simp: frame_of_def addr_of_def PAGE_BITS_def bit_simps)
qed

lemma addr_of_inj [simp]: "addr_of f = addr_of g \<longleftrightarrow> f = g"
  by (metis frame_of_addr_of)

text \<open>Two addresses use the same page entry exactly when they lie in the same page.\<close>

lemma same_indices:
  "dir_index v = dir_index w \<and> tab_index v = tab_index w \<longleftrightarrow> drop_bit 12 v = drop_bit 12 w"
proof
  have m: "(0x3ff :: u32) = mask 10" by (simp add: mask_eq_exp_minus_1)
  assume eq: "dir_index v = dir_index w \<and> tab_index v = tab_index w"
  show "drop_bit 12 v = drop_bit 12 w"
  proof (rule bit_word_eqI)
    fix k assume "k < LENGTH(32)"
    show "bit (drop_bit 12 v) k = bit (drop_bit 12 w) k"
    proof (cases "k < 10")
      case True
      from eq have "bit (tab_index v) k = bit (tab_index w) k" by simp
      with True show ?thesis by (simp add: tab_index_def m bit_simps)
    next
      case False
      show ?thesis
      proof (cases "k < 20")
        case True
        from eq have "bit (dir_index v) (k - 10) = bit (dir_index w) (k - 10)" by simp
        moreover have "k - 10 < 10" using True False by linarith
        ultimately show ?thesis using False by (simp add: dir_index_def bit_simps)
      qed (auto simp: bit_simps dest: bit_imp_le_length)
    qed
  qed
next
  assume eq: "drop_bit 12 v = drop_bit 12 w"
  have "drop_bit 22 u = drop_bit 10 (drop_bit 12 u)" for u :: u32 by simp
  then show "dir_index v = dir_index w \<and> tab_index v = tab_index w"
    unfolding dir_index_def tab_index_def by (simp only: eq)
qed

definition avail_frames :: "pmem \<Rightarrow> 20 word set" where
  "avail_frames s = frame_of ` avail_addrs s"

definition managed_frames :: "pmem \<Rightarrow> 20 word set" where
  "managed_frames s = frame_of ` managed_addrs s"

lemma page_alloc_frame:
  assumes "page_wf s" "page_alloc z s = Some (a, s')"
  shows "a \<noteq> 0" "frame_of a \<in> avail_frames s" "addr_of (frame_of a) = a" "page_wf s'"
    "avail_frames s' = avail_frames s - {frame_of a}" "managed_frames s' = managed_frames s"
    "phys s' = (if z then (phys s)(frame_of a := (\<lambda>_. 0)) else phys s)"
    "frame_of a \<in> managed_frames s"
proof -
  have ne: "free_pages s \<noteq> {}" using assms page_alloc_empty by fastforce
  let ?n = "Min (free_pages s)"
  have n: "?n \<in> free_pages s" using ne by simp
  have a: "a = page_addr ?n" and s': "s' = page_taken ?n z s"
    using page_alloc_Some [OF assms(1) ne, of z] assms(2) by auto
  show "a \<noteq> 0" using page_addr_nonnull [OF free_pages_bound [OF assms(1) n]] a by simp
  have aa: "a \<in> avail_addrs s" unfolding a avail_addrs_def using n by (rule imageI)
  then show "frame_of a \<in> avail_frames s" unfolding avail_frames_def by (rule imageI)
  show "addr_of (frame_of a) = a" using a by simp
  show "page_wf s'" using assms(1) s' by simp
  have "avail_addrs s' = avail_addrs s - {a}"
    using avail_addrs_diff [OF assms(1) n] s' a by (simp add: avail_addrs_def)
  moreover have "inj_on frame_of (avail_addrs s)"
    by (rule inj_on_inverseI [of _ addr_of]) (auto simp: avail_addrs_def)
  ultimately show "avail_frames s' = avail_frames s - {frame_of a}"
    using aa by (auto simp: avail_frames_def dest: inj_onD)
  show "managed_frames s' = managed_frames s" using s' by (simp add: managed_frames_def managed_addrs_def)
  show "phys s' = (if z then (phys s)(frame_of a := (\<lambda>_. 0)) else phys s)" using s' a by simp
  show "frame_of a \<in> managed_frames s"
    using aa pages.avail_managed [OF assms(1)] by (auto simp: managed_frames_def)
qed

lemma page_free_frame:
  assumes "page_wf s" "f \<in> managed_frames s"
  shows "page_wf (page_free (addr_of f) s)"
    "avail_frames (page_free (addr_of f) s) = insert f (avail_frames s)"
    "managed_frames (page_free (addr_of f) s) = managed_frames s"
    "phys (page_free (addr_of f) s) = phys s"
proof -
  obtain n where n: "f = frame_of (page_addr n)" "page_addr n \<in> managed_addrs s"
    "n < 32 * unat (freemap_cells s)"
    using assms(2) by (auto simp: managed_frames_def managed_addrs_def)
  then have "n < 2 ^ 19 - 2 ^ 9" using assms(1) by (auto simp: page_wf_def)
  then show "phys (page_free (addr_of f) s) = phys s" using n by (simp add: page_free_eq)
  show "page_wf (page_free (addr_of f) s)"
    "avail_frames (page_free (addr_of f) s) = insert f (avail_frames s)"
    "managed_frames (page_free (addr_of f) s) = managed_frames s"
    using pages.free_ok [OF assms(1) n(2)] n by (simp_all add: avail_frames_def managed_frames_def)
qed

lemma page_alloc_possible:
  "page_wf s \<Longrightarrow> avail_frames s \<noteq> {} \<Longrightarrow> \<exists>a s'. page_alloc z s = Some (a, s')"
  using page_alloc_Some [of s z] by (auto simp: avail_frames_def avail_addrs_def)

lemma pt_entry_store [simp]:
  "pt_entry p i (pt_store q j e s) = (if frame_of p = frame_of q \<and> i = j then e else pt_entry p i s)"
  by (simp add: pt_entry_def pt_store_def)

lemma pt_store_kept [simp]:
  "page_wf (pt_store q j e s) = page_wf s" "avail_frames (pt_store q j e s) = avail_frames s"
  "managed_frames (pt_store q j e s) = managed_frames s"
  by (simp_all add: pt_store_def page_wf_def avail_frames_def avail_addrs_def free_pages_def
      page_bit_def managed_frames_def managed_addrs_def)

section \<open>The abstract view: a partial map from indices to page entries\<close>

definition pview :: "u32 \<Rightarrow> 10 word \<Rightarrow> 10 word \<Rightarrow> pmem \<Rightarrow> pageentry option" where
  "pview p a b s =
     (let e = pt_entry p a s in
      if present e then
        (let e' = pt_entry (addr_of (addr e)) b s in if present e' then Some e' else None)
      else None)"

definition entry_flags :: "pageentry \<Rightarrow> u32" where
  "entry_flags e = (if readwrite e then PAGE_FLAG_READWRITE else 0) OR
     (if bit (avail e) 0 then PAGE_FLAG_ALLOC else 0) OR
     (if \<not> user e then PAGE_FLAG_KERNEL else 0)"

lemma getmap_view:
  "pagetable_getmap p v s =
     map_option (\<lambda>e. (addr_of (addr e), entry_flags e)) (pview p (dir_index v) (tab_index v) s)"
  by (simp add: pagetable_getmap_def pview_def entry_flags_def Let_def)

text \<open>
  The invariant: the directory, the tables and the pages the tables own are frames in use,
  all different from each other.  An entry owns its page when its \<^verbatim>\<open>avail\<close> bits are set.
\<close>

definition is_table :: "u32 \<Rightarrow> 20 word \<Rightarrow> pmem \<Rightarrow> bool" where
  "is_table p f s \<longleftrightarrow> (\<exists>a. present (pt_entry p a s) \<and> addr (pt_entry p a s) = f)"

definition is_owned :: "u32 \<Rightarrow> 20 word \<Rightarrow> pmem \<Rightarrow> bool" where
  "is_owned p f s \<longleftrightarrow> (\<exists>a b e. pview p a b s = Some e \<and> avail e \<noteq> 0 \<and> addr e = f)"

definition in_use :: "20 word \<Rightarrow> pmem \<Rightarrow> bool" where
  "in_use f s \<longleftrightarrow> f \<in> managed_frames s \<and> f \<notin> avail_frames s"

definition pt_inv :: "u32 \<Rightarrow> pmem \<Rightarrow> bool" where
  "pt_inv p s \<longleftrightarrow> page_wf s \<and> addr_of (frame_of p) = p \<and> in_use (frame_of p) s \<and>
     (\<forall>f. is_table p f s \<longrightarrow> in_use f s \<and> f \<noteq> frame_of p) \<and>
     (\<forall>f. is_owned p f s \<longrightarrow> in_use f s \<and> f \<noteq> frame_of p \<and> \<not> is_table p f s) \<and>
     (\<forall>a b. present (pt_entry p a s) \<longrightarrow> present (pt_entry p b s) \<longrightarrow>
        addr (pt_entry p a s) = addr (pt_entry p b s) \<longrightarrow> a = b) \<and>
     (\<forall>a b e a' b' e'. pview p a b s = Some e \<longrightarrow> pview p a' b' s = Some e' \<longrightarrow>
        avail e \<noteq> 0 \<longrightarrow> avail e' \<noteq> 0 \<longrightarrow> addr e = addr e' \<longrightarrow> a = a' \<and> b = b')"

definition unowned :: "u32 \<Rightarrow> 20 word \<Rightarrow> pmem \<Rightarrow> bool" where
  "unowned p f s \<longleftrightarrow> in_use f s \<and> f \<noteq> frame_of p \<and> \<not> is_table p f s \<and> \<not> is_owned p f s"

lemma pt_inv_wf: "pt_inv p s \<Longrightarrow> page_wf s"
  and pt_inv_dir: "pt_inv p s \<Longrightarrow> in_use (frame_of p) s"
  and pt_inv_table: "pt_inv p s \<Longrightarrow> is_table p f s \<Longrightarrow> in_use f s \<and> f \<noteq> frame_of p"
  and pt_inv_owned: "pt_inv p s \<Longrightarrow> is_owned p f s \<Longrightarrow> in_use f s \<and> f \<noteq> frame_of p \<and> \<not> is_table p f s"
  unfolding pt_inv_def by blast+

lemma pt_inv_table_inj:
  "pt_inv p s \<Longrightarrow> present (pt_entry p a s) \<Longrightarrow> present (pt_entry p b s) \<Longrightarrow>
     addr (pt_entry p a s) = addr (pt_entry p b s) \<Longrightarrow> a = b"
  unfolding pt_inv_def by blast

lemma pt_inv_owned_inj:
  "pt_inv p s \<Longrightarrow> pview p a b s = Some e \<Longrightarrow> pview p a' b' s = Some e' \<Longrightarrow>
     avail e \<noteq> 0 \<Longrightarrow> avail e' \<noteq> 0 \<Longrightarrow> addr e = addr e' \<Longrightarrow> a = a' \<and> b = b'"
  unfolding pt_inv_def by blast

lemma is_tableI: "present (pt_entry p a s) \<Longrightarrow> is_table p (addr (pt_entry p a s)) s"
  by (auto simp: is_table_def)

lemma is_ownedI: "pview p a b s = Some e \<Longrightarrow> avail e \<noteq> 0 \<Longrightarrow> is_owned p (addr e) s"
  by (auto simp: is_owned_def)

text \<open>Two states with the same directory and the same view satisfy the same table conditions.\<close>

lemma is_table_cong: "(\<And>a. pt_entry p a s' = pt_entry p a s) \<Longrightarrow> is_table p f s' = is_table p f s"
  by (simp add: is_table_def)

lemma is_owned_cong: "(\<And>a b. pview p a b s' = pview p a b s) \<Longrightarrow> is_owned p f s' = is_owned p f s"
  by (simp add: is_owned_def)

lemma pt_inv_shrink:
  assumes "pt_inv p s" "page_wf s'" "avail_frames s' \<subseteq> avail_frames s"
    "managed_frames s' = managed_frames s"
    "\<And>a. pt_entry p a s' = pt_entry p a s" "\<And>a b. pview p a b s' = pview p a b s"
  shows "pt_inv p s'"
  using assms(1-4) unfolding pt_inv_def
  by (simp add: assms(5,6) is_table_cong [OF assms(5)] is_owned_cong [OF assms(6)] in_use_def) blast

text \<open>A frame that is neither directory nor table can be changed without changing the view.\<close>

lemma view_frame_upd:
  assumes "f \<noteq> frame_of p" "\<not> is_table p f s" "\<And>g. g \<noteq> f \<Longrightarrow> phys s' g = phys s g"
  shows "pt_entry p a s' = pt_entry p a s" "pview p a b s' = pview p a b s"
proof -
  show e: "pt_entry p a s' = pt_entry p a s"
    using assms(1) assms(3) [of "frame_of p"] by (simp add: pt_entry_def)
  show "pview p a b s' = pview p a b s"
  proof (cases "present (pt_entry p a s)")
    case True
    then have "addr (pt_entry p a s) \<noteq> f" using assms(2) by (auto simp: is_table_def)
    then have "pt_entry (addr_of (addr (pt_entry p a s))) b s' =
        pt_entry (addr_of (addr (pt_entry p a s))) b s"
      using assms(3) by (simp add: pt_entry_def)
    with e show ?thesis by (simp add: pview_def Let_def)
  qed (simp add: pview_def Let_def e)
qed

text \<open>Step 1: a page for the mapping.\<close>

lemma data_page_step:
  assumes inv: "pt_inv p s" and al: "page_alloc z s = Some (d, s')"
  shows "pt_inv p s'" "unowned p (frame_of d) s'" "d \<noteq> 0" "frame_of d \<in> avail_frames s"
    "addr_of (frame_of d) = d" "avail_frames s' = avail_frames s - {frame_of d}"
    "\<And>a b. pview p a b s' = pview p a b s"
proof -
  have wf: "page_wf s" using inv by (simp add: pt_inv_def)
  note fr = page_alloc_frame [OF wf al]
  show "d \<noteq> 0" "frame_of d \<in> avail_frames s" "addr_of (frame_of d) = d"
    "avail_frames s' = avail_frames s - {frame_of d}" using fr by auto
  have nt: "frame_of d \<noteq> frame_of p" "\<not> is_table p (frame_of d) s" "\<not> is_owned p (frame_of d) s"
    using inv fr(2) by (auto simp: pt_inv_def in_use_def)
  have same: "pt_entry p a s' = pt_entry p a s" "pview p a b s' = pview p a b s" for a b
    by (rule view_frame_upd [OF nt(1,2)]; simp add: fr(7))+
  show "pview p a b s' = pview p a b s" for a b by (rule same(2))
  show "pt_inv p s'"
    by (rule pt_inv_shrink [OF inv fr(4) _ fr(6) same]) (use fr(5) in auto)
  show "unowned p (frame_of d) s'"
    using nt fr by (simp add: unowned_def in_use_def is_table_cong [OF same(1)] is_owned_cong [OF same(2)])
qed

text \<open>Step 2: the second-level table.\<close>

lemma table_step:
  assumes inv: "pt_inv p s" and tb: "pagetable_table p a fl s = Some (qo, s')"
  obtains q where "qo = Some q" "pt_inv p s'" "present (pt_entry p a s')"
    "q = addr_of (addr (pt_entry p a s'))" "\<And>x y. pview p x y s' = pview p x y s"
    "avail_frames s' \<subseteq> avail_frames s" "\<And>f. unowned p f s \<Longrightarrow> unowned p f s'"
proof (cases "present (pt_entry p a s)")
  case True
  then show ?thesis using tb inv by (intro that) (auto simp: pagetable_table_def Let_def)
next
  case False
  have wf: "page_wf s" using inv by (simp add: pt_inv_def)
  obtain q s1 where al: "page_alloc True s = Some (q, s1)"
    using tb False by (auto simp: pagetable_table_def pagetable_create_def Let_def bind_eq_Some_conv)
  note fr = page_alloc_frame [OF wf al]
  have res: "qo = Some q" "s' = pt_store p a (dir_entry q fl) s1"
    using tb False al fr(1) by (auto simp: pagetable_table_def pagetable_create_def Let_def)
  have nt: "frame_of q \<noteq> frame_of p" "\<not> is_table p (frame_of q) s" "\<not> is_owned p (frame_of q) s"
    using inv fr(2) by (auto simp: pt_inv_def in_use_def)
  have same: "pt_entry p x s1 = pt_entry p x s" "pview p x y s1 = pview p x y s" for x y
    by (rule view_frame_upd [OF nt(1,2)]; simp add: fr(7))+
  have ent: "pt_entry p x s' = (if x = a then dir_entry q fl else pt_entry p x s)" for x
    by (simp add: res(2) same)
  have tabs: "is_table p f s' \<longleftrightarrow> is_table p f s \<or> f = frame_of q" for f
    using False by (auto simp: is_table_def ent dir_entry_def)
  have view: "pview p x y s' = pview p x y s" for x y
  proof (cases "x = a")
    case True
    have "pt_entry q y s' = decode 0"
      using nt(1) by (simp add: res(2) pt_entry_def pt_store_def fr(7))
    then have "\<not> present (pt_entry (addr_of (addr (dir_entry q fl))) y s')"
      by (simp add: dir_entry_def fr(3) decode_def)
    with True False show ?thesis by (simp add: pview_def Let_def ent)
  next
    case x: False
    show ?thesis
    proof (cases "present (pt_entry p x s)")
      case True
      then have "addr (pt_entry p x s) \<noteq> frame_of p" "addr (pt_entry p x s) \<noteq> frame_of q"
        using inv nt(2) by (auto simp: pt_inv_def is_table_def)
      then have "pt_entry (addr_of (addr (pt_entry p x s))) y s' =
          pt_entry (addr_of (addr (pt_entry p x s))) y s"
        by (simp add: res(2)) (simp add: pt_entry_def fr(7))
      with x show ?thesis by (simp add: pview_def Let_def ent)
    qed (use x in \<open>simp add: pview_def Let_def ent\<close>)
  qed
  note own = is_owned_cong [OF view]
  have av: "avail_frames s' = avail_frames s - {frame_of q}" "managed_frames s' = managed_frames s"
    "page_wf s'" using fr by (simp_all add: res(2))
  have use: "in_use f s' \<longleftrightarrow> in_use f s \<or> f = frame_of q" for f
    using fr(2,8) by (auto simp: in_use_def av)
  have inv': "pt_inv p s'"
  proof -
    have inj: "x = y" if "present (pt_entry p x s')" "present (pt_entry p y s')"
      "addr (pt_entry p x s') = addr (pt_entry p y s')" for x y
      using that pt_inv_table_inj [OF inv, of x y] nt(2) is_tableI [of p x s] is_tableI [of p y s]
      by (cases "x = a"; cases "y = a") (auto simp: ent)
    show ?thesis
      using inv nt inj unfolding pt_inv_def by (simp add: own tabs use view av(3)) blast
  qed
  show ?thesis
  proof (rule that [OF res(1) inv' _ _ view])
    show "present (pt_entry p a s')" "q = addr_of (addr (pt_entry p a s'))"
      by (simp_all add: ent dir_entry_def fr(3))
    show "avail_frames s' \<subseteq> avail_frames s" using av by auto
    show "unowned p f s \<Longrightarrow> unowned p f s'" for f
      using fr(2) by (auto simp: unowned_def use tabs own) (auto simp: in_use_def)
  qed
qed

text \<open>Step 3: the page entry.\<close>

lemma store_view:
  assumes inv: "pt_inv p s" and pa: "present (pt_entry p a s)"
  defines "q \<equiv> addr_of (addr (pt_entry p a s))"
  shows "pt_entry p x (pt_store q b e s) = pt_entry p x s"
    "pview p x y (pt_store q b e s) =
       (if x = a \<and> y = b then (if present e then Some e else None) else pview p x y s)"
proof -
  have qp: "frame_of q \<noteq> frame_of p"
    using pt_inv_table [OF inv is_tableI [OF pa]] by (simp add: q_def)
  then show ent: "pt_entry p x (pt_store q b e s) = pt_entry p x s" for x by auto
  show "pview p x y (pt_store q b e s) =
       (if x = a \<and> y = b then (if present e then Some e else None) else pview p x y s)"
  proof (cases "present (pt_entry p x s)")
    case True
    then have "addr (pt_entry p x s) = addr (pt_entry p a s) \<longleftrightarrow> x = a"
      using pt_inv_table_inj [OF inv _ pa, of x] by auto
    then have key: "pt_entry (addr_of (addr (pt_entry p x s))) y (pt_store q b e s) =
        (if x = a \<and> y = b then e else pt_entry (addr_of (addr (pt_entry p x s))) y s)"
      by (simp add: q_def)
    show ?thesis unfolding pview_def Let_def ent if_P [OF True] key by (cases "x = a"; cases "y = b"; simp)
  next
    case False
    with pa have "x \<noteq> a" by auto
    with False show ?thesis unfolding pview_def Let_def ent by simp
  qed
qed

lemma store_inv:
  assumes inv: "pt_inv p s" and pa: "present (pt_entry p a s)"
    and fresh: "present e \<Longrightarrow> avail e \<noteq> 0 \<Longrightarrow> unowned p (addr e) s"
  shows "pt_inv p (pt_store (addr_of (addr (pt_entry p a s))) b e s)"
proof -
  let ?s' = "pt_store (addr_of (addr (pt_entry p a s))) b e s"
  note ent = store_view(1) [OF inv pa, of _ b e] and view = store_view(2) [OF inv pa, of _ _ b e]
  note tabs = is_table_cong [OF ent]
  have own: "is_owned p f ?s' \<Longrightarrow> is_owned p f s \<or> present e \<and> avail e \<noteq> 0 \<and> f = addr e" for f
    by (auto simp: is_owned_def view split: if_splits)
  have use: "in_use f ?s' = in_use f s" for f by (simp add: in_use_def)
  have inj: "x = x' \<and> y = y'" if v: "pview p x y ?s' = Some u" "pview p x' y' ?s' = Some u'"
    and av: "avail u \<noteq> 0" "avail u' \<noteq> 0" and same: "addr u = addr u'" for x y u x' y' u'
  proof -
    have old: "pview p x y s = Some u \<Longrightarrow> pview p x' y' s = Some u' \<Longrightarrow> x = x' \<and> y = y'"
      using inv av same unfolding pt_inv_def by blast
    have new: False if "present e" "avail e \<noteq> 0" "pview p z w s = Some r" "avail r \<noteq> 0"
      "addr r = addr e" for z w r
      using fresh [OF that(1,2)] that(3-5) unfolding unowned_def is_owned_def by blast
    show ?thesis
      using v av same old new by (auto simp: view split: if_splits)
  qed
  have "in_use f ?s' \<and> f \<noteq> frame_of p \<and> \<not> is_table p f ?s'" if "is_owned p f ?s'" for f
    using own [OF that]
  proof
    assume "is_owned p f s"
    then show ?thesis using pt_inv_owned [OF inv] unfolding use tabs by blast
  next
    assume e: "present e \<and> avail e \<noteq> 0 \<and> f = addr e"
    then have "unowned p (addr e) s" using fresh by blast
    then show ?thesis using e unfolding unowned_def use tabs by simp
  qed
  moreover have "page_wf ?s'" using pt_inv_wf [OF inv] by simp
  moreover have "\<And>x y u x' y' u'. pview p x y ?s' = Some u \<Longrightarrow> pview p x' y' ?s' = Some u' \<Longrightarrow>
      avail u \<noteq> 0 \<Longrightarrow> avail u' \<noteq> 0 \<Longrightarrow> addr u = addr u' \<Longrightarrow> x = x' \<and> y = y'"
    by (rule inj)
  ultimately show ?thesis
    using inv unfolding pt_inv_def [of p s] unfolding pt_inv_def [of p ?s'] ent tabs use by blast
qed

section \<open>Mapping\<close>

lemma map_step:
  assumes inv: "pt_inv p s" and mp: "pagetable_map p v pa fl s = Some (r, s')"
  obtains d where "r = 1" "pt_inv p s'" "avail_frames s' \<subseteq> avail_frames s"
    "\<And>x y. pview p x y s' =
       (if x = dir_index v \<and> y = tab_index v then Some (page_entry d fl) else pview p x y s)"
    "if fl AND PAGE_FLAG_ALLOC = 0 then d = pa
     else frame_of d \<in> avail_frames s \<and> frame_of d \<notin> avail_frames s'"
proof -
  let ?al = "fl AND PAGE_FLAG_ALLOC \<noteq> 0"
  obtain d s1 where d: "(if ?al then page_alloc (fl AND PAGE_FLAG_CLEAR \<noteq> 0) s else Some (pa, s)) = Some (d, s1)"
    using mp by (auto simp: pagetable_map_def bind_eq_Some_conv split: if_splits)
  have s1: "pt_inv p s1" "\<And>x y. pview p x y s1 = pview p x y s" "avail_frames s1 \<subseteq> avail_frames s"
    "\<not> ?al \<or> d \<noteq> 0" "?al \<Longrightarrow> unowned p (frame_of d) s1 \<and> frame_of d \<in> avail_frames s"
    using data_page_step [OF inv] d inv by (auto split: if_splits)
  obtain qo s2 where tb: "pagetable_table p (dir_index v) fl s1 = Some (qo, s2)"
    and rest: "(case qo of None \<Rightarrow> Some (0, s2)
      | Some q \<Rightarrow> Some (1, pt_store q (tab_index v) (page_entry d fl) s2)) = Some (r, s')"
    using mp d s1(4) by (auto simp: pagetable_map_def bind_eq_Some_conv simp del: page_entry_simps
        split: if_splits)
  obtain q where q: "qo = Some q" "pt_inv p s2" "present (pt_entry p (dir_index v) s2)"
    "q = addr_of (addr (pt_entry p (dir_index v) s2))" "\<And>x y. pview p x y s2 = pview p x y s1"
    "avail_frames s2 \<subseteq> avail_frames s1" "\<And>f. unowned p f s1 \<Longrightarrow> unowned p f s2"
    using table_step [OF s1(1) tb] by blast
  have res: "r = 1" "s' = pt_store q (tab_index v) (page_entry d fl) s2" using rest q(1) by simp_all
  show ?thesis
  proof (rule that [OF res(1), of d])
    show "pt_inv p s'" unfolding res(2) q(4)
      by (rule store_inv [OF q(2,3)]) (use s1(5) q(7) in \<open>auto split: if_splits\<close>)
    show "avail_frames s' \<subseteq> avail_frames s" using q(6) s1(3) by (auto simp: res(2))
    show "pview p x y s' =
       (if x = dir_index v \<and> y = tab_index v then Some (page_entry d fl) else pview p x y s)" for x y
      unfolding res(2) q(4) store_view(2) [OF q(2,3)] by (simp add: q(5) s1(2))
    show "if fl AND PAGE_FLAG_ALLOC = 0 then d = pa
     else frame_of d \<in> avail_frames s \<and> frame_of d \<notin> avail_frames s'"
      using d s1(5) q(7) by (auto simp: res(2) unowned_def in_use_def)
  qed
qed

lemma unmap_step:
  assumes inv: "pt_inv p s"
  shows "pt_inv p (pagetable_unmap p v s)"
    "pview p x y (pagetable_unmap p v s) =
       (if x = dir_index v \<and> y = tab_index v then None else pview p x y s)"
    "avail_frames (pagetable_unmap p v s) = avail_frames s"
    "managed_frames (pagetable_unmap p v s) = managed_frames s"
proof -
  show "avail_frames (pagetable_unmap p v s) = avail_frames s"
    "managed_frames (pagetable_unmap p v s) = managed_frames s"
    by (simp_all add: pagetable_unmap_def Let_def)
  show "pt_inv p (pagetable_unmap p v s)"
    using inv by (auto simp: pagetable_unmap_def Let_def intro!: store_inv)
  show "pview p x y (pagetable_unmap p v s) =
       (if x = dir_index v \<and> y = tab_index v then None else pview p x y s)"
  proof (cases "present (pt_entry p (dir_index v) s)")
    case True
    show ?thesis unfolding pagetable_unmap_def Let_def if_P [OF True] store_view(2) [OF inv True]
      by simp
  next
    case False
    then show ?thesis by (auto simp: pagetable_unmap_def pview_def)
  qed
qed

text \<open>Giving back a frame nothing refers to keeps the invariant and the view.\<close>

lemma release_step:
  assumes inv: "pt_inv p s" and un: "unowned p f s"
  shows "pt_inv p (page_free (addr_of f) s)"
    "pt_entry p x (page_free (addr_of f) s) = pt_entry p x s"
    "pview p x y (page_free (addr_of f) s) = pview p x y s"
    "avail_frames (page_free (addr_of f) s) = insert f (avail_frames s)"
    "managed_frames (page_free (addr_of f) s) = managed_frames s"
proof -
  let ?s' = "page_free (addr_of f) s"
  have f: "f \<in> managed_frames s" using un by (simp add: unowned_def in_use_def)
  note fr = page_free_frame [OF pt_inv_wf [OF inv] f]
  have same: "pt_entry q x ?s' = pt_entry q x s" for q x by (simp add: pt_entry_def fr(4))
  have view: "pview p x y ?s' = pview p x y s" for x y by (simp add: pview_def Let_def same)
  show "pt_entry p x ?s' = pt_entry p x s" "pview p x y ?s' = pview p x y s" by (rule same view)+
  show "avail_frames ?s' = insert f (avail_frames s)" "managed_frames ?s' = managed_frames s"
    by (rule fr)+
  have "in_use g ?s' \<longleftrightarrow> in_use g s \<and> g \<noteq> f" for g by (auto simp: in_use_def fr)
  then show "pt_inv p ?s'"
    using inv un fr(1) unfolding pt_inv_def unowned_def
    by (simp add: same view is_table_cong [OF same] is_owned_cong [OF view]) blast
qed

text \<open>The owner of a page stops owning it when its entry is unmapped.\<close>

lemma unmap_release:
  assumes inv: "pt_inv p s" and v: "pview p (dir_index v) (tab_index v) s = Some e"
    and av: "avail e \<noteq> 0"
  shows "unowned p (addr e) (pagetable_unmap p v s)"
proof -
  let ?s' = "pagetable_unmap p v s"
  note un = unmap_step [OF inv, where v = v]
  have pr: "present (pt_entry p (dir_index v) s)" using v by (auto simp: pview_def Let_def split: if_splits)
  have ent: "pt_entry p x ?s' = pt_entry p x s" for x
    unfolding pagetable_unmap_def Let_def if_P [OF pr] by (rule store_view(1) [OF inv pr])
  have "\<not> is_owned p (addr e) ?s'"
    using pt_inv_owned_inj [OF inv v _ av] by (auto simp: is_owned_def un(2) split: if_splits)
  then show ?thesis
    using pt_inv_owned [OF inv is_ownedI [OF v av]]
    by (simp add: unowned_def in_use_def un is_table_cong [OF ent])
qed

section \<open>Ranges of pages\<close>

definition page_index :: "u32 \<Rightarrow> 10 word \<times> 10 word" where
  "page_index v = (dir_index v, tab_index v)"

definition range_pages :: "u32 \<Rightarrow> nat \<Rightarrow> (10 word \<times> 10 word) set" where
  "range_pages v n = (\<lambda>i. page_index (v + of_nat (i * PAGE_SIZE))) ` {..<n}"

abbreviation pviewi :: "u32 \<Rightarrow> 10 word \<times> 10 word \<Rightarrow> pmem \<Rightarrow> pageentry option" where
  "pviewi p i s \<equiv> pview p (fst i) (snd i) s"

lemma range_pages_0 [simp]: "range_pages v 0 = {}"
  by (simp add: range_pages_def)

lemma range_pages_Suc: "range_pages v (Suc n) = insert (page_index v) (range_pages (v + of_nat PAGE_SIZE) n)"
proof -
  show ?thesis unfolding range_pages_def lessThan_Suc_eq_insert_0
    by (simp add: image_image algebra_simps)
qed

lemma getmap_pviewi: "pagetable_getmap p v s = map_option (\<lambda>e. (addr_of (addr e), entry_flags e)) (pviewi p (page_index v) s)"
  by (simp add: getmap_view page_index_def)

lemma page_index_eq: "page_index v = page_index w \<longleftrightarrow> drop_bit 12 v = drop_bit 12 w"
  using same_indices [of v w] by (simp add: page_index_def)

lemma flags_alloc [simp]: "(fl OR PAGE_FLAG_ALLOC) AND PAGE_FLAG_ALLOC \<noteq> 0"
proof -
  have "bit ((fl OR PAGE_FLAG_ALLOC) AND PAGE_FLAG_ALLOC) 1" by (simp add: PAGE_FLAG_ALLOC_def bit_simps)
  then show ?thesis by force
qed

text \<open>
  \<open>fresh_page p s s' e fl\<close>: entry \<open>e\<close> maps a page that was free in \<open>s\<close> and is in use in \<open>s'\<close>.
\<close>

definition fresh_page :: "pmem \<Rightarrow> pmem \<Rightarrow> u32 \<Rightarrow> pageentry \<Rightarrow> bool" where
  "fresh_page s s' fl e \<longleftrightarrow> (\<exists>d. e = page_entry d fl \<and> frame_of d \<in> avail_frames s \<and> frame_of d \<notin> avail_frames s')"

lemma alloc_loop_spec:
  assumes "pt_inv p s" "pagetable_alloc_loop n p v fl s = Some s'"
  shows "pt_inv p s' \<and> avail_frames s' \<subseteq> avail_frames s \<and>
    (\<forall>i. pviewi p i s' = pviewi p i s \<or>
       i \<in> range_pages v n \<and> pviewi p i s = None \<and>
       (\<exists>e. pviewi p i s' = Some e \<and> fresh_page s s' (fl OR PAGE_FLAG_ALLOC) e)) \<and>
    (\<forall>i \<in> range_pages v n. pviewi p i s' \<noteq> None)"
  using assms
proof (induction n arbitrary: v s)
  case 0
  then show ?case by simp
next
  case (Suc n)
  let ?fl = "fl OR PAGE_FLAG_ALLOC" and ?i = "page_index v"
  obtain s1 where one: "(if pagetable_getmap p v s = None
      then map_option snd (pagetable_map p v 0 ?fl s) else Some s) = Some s1"
    and rest: "pagetable_alloc_loop n p (v + of_nat PAGE_SIZE) fl s1 = Some s'"
    using Suc.prems(2) by (auto simp: bind_eq_Some_conv)
  have s1: "pt_inv p s1 \<and> avail_frames s1 \<subseteq> avail_frames s \<and> pviewi p ?i s1 \<noteq> None \<and>
     (\<forall>i. pviewi p i s1 = pviewi p i s \<or>
       i = ?i \<and> pviewi p i s = None \<and> (\<exists>e. pviewi p i s1 = Some e \<and> fresh_page s s1 ?fl e))"
  proof (cases "pagetable_getmap p v s")
    case None
    then obtain r where m: "pagetable_map p v 0 ?fl s = Some (r, s1)" using one by auto
    have no: "pviewi p ?i s = None" using None by (simp add: getmap_pviewi)
    show ?thesis
    proof (rule map_step [OF Suc.prems(1) m])
      fix d assume d: "pt_inv p s1" "avail_frames s1 \<subseteq> avail_frames s"
        and vw: "\<And>x y. pview p x y s1 =
          (if x = dir_index v \<and> y = tab_index v then Some (page_entry d ?fl) else pview p x y s)"
        and fr: "if ?fl AND PAGE_FLAG_ALLOC = 0 then d = 0
          else frame_of d \<in> avail_frames s \<and> frame_of d \<notin> avail_frames s1"
      have vi: "pviewi p i s1 = (if i = ?i then Some (page_entry d ?fl) else pviewi p i s)" for i
        by (auto simp: vw page_index_def prod_eq_iff)
      have "fresh_page s s1 ?fl (page_entry d ?fl)"
        unfolding fresh_page_def using fr flags_alloc [of fl] by (intro exI [of _ d]) simp
      then show ?thesis using d no by (auto simp: vi simp del: split_paired_All)
    qed
  next
    case (Some m)
    then show ?thesis using one Suc.prems(1) by (auto simp: getmap_pviewi)
  qed
  have IH: "pt_inv p s' \<and> avail_frames s' \<subseteq> avail_frames s1 \<and>
    (\<forall>i. pviewi p i s' = pviewi p i s1 \<or>
       i \<in> range_pages (v + of_nat PAGE_SIZE) n \<and> pviewi p i s1 = None \<and>
       (\<exists>e. pviewi p i s' = Some e \<and> fresh_page s1 s' ?fl e)) \<and>
    (\<forall>i \<in> range_pages (v + of_nat PAGE_SIZE) n. pviewi p i s' \<noteq> None)"
    using Suc.IH [OF _ rest] s1 by blast
  have keep1: "pviewi p ?i s' \<noteq> None" using IH s1 by metis
  have mono: "fresh_page s s1 ?fl e \<Longrightarrow> fresh_page s s' ?fl e"
    "fresh_page s1 s' ?fl e \<Longrightarrow> fresh_page s s' ?fl e" for e
    using IH s1 unfolding fresh_page_def by blast+
  have each: "pviewi p i s' = pviewi p i s \<or>
       i \<in> range_pages v (Suc n) \<and> pviewi p i s = None \<and>
       (\<exists>e. pviewi p i s' = Some e \<and> fresh_page s s' ?fl e)" for i
  proof -
    have "pviewi p i s' = pviewi p i s1 \<or>
       i \<in> range_pages (v + of_nat PAGE_SIZE) n \<and> pviewi p i s1 = None \<and>
       (\<exists>e. pviewi p i s' = Some e \<and> fresh_page s1 s' ?fl e)" using IH by blast
    moreover have "pviewi p i s1 = pviewi p i s \<or>
       i = ?i \<and> pviewi p i s = None \<and> (\<exists>e. pviewi p i s1 = Some e \<and> fresh_page s s1 ?fl e)"
      using s1 by blast
    ultimately show ?thesis using mono unfolding range_pages_Suc
      by (metis (no_types, lifting) insert_iff option.distinct(1))
  qed
  then show ?case using IH s1 keep1 unfolding range_pages_Suc by blast
qed

lemma free_loop_spec:
  assumes "pt_inv p s"
  shows "pt_inv p (pagetable_free_loop n p v s) \<and>
    avail_frames s \<subseteq> avail_frames (pagetable_free_loop n p v s) \<and>
    (\<forall>i. pviewi p i (pagetable_free_loop n p v s) =
       (if i \<in> range_pages v n then None else pviewi p i s)) \<and>
    (\<forall>i e. i \<in> range_pages v n \<longrightarrow> pviewi p i s = Some e \<longrightarrow> bit (avail e) 0 \<longrightarrow>
       addr e \<in> avail_frames (pagetable_free_loop n p v s))"
  using assms
proof (induction n arbitrary: v s)
  case 0
  then show ?case by simp
next
  case (Suc n)
  let ?i = "page_index v"
  define s1 where "s1 = (case pagetable_getmap p v s of None \<Rightarrow> s
        | Some (paddr, flags) \<Rightarrow>
            let s = pagetable_unmap p v s in
            if flags AND PAGE_FLAG_ALLOC \<noteq> 0 then page_free paddr s else s)"
  have loop: "pagetable_free_loop (Suc n) p v s = pagetable_free_loop n p (v + of_nat PAGE_SIZE) s1"
    by (simp only: pagetable_free_loop.simps s1_def Let_def)
  have one: "pt_inv p s1 \<and> avail_frames s \<subseteq> avail_frames s1 \<and>
     (\<forall>i. pviewi p i s1 = (if i = ?i then None else pviewi p i s)) \<and>
     (\<forall>e. pviewi p ?i s = Some e \<longrightarrow> bit (avail e) 0 \<longrightarrow> addr e \<in> avail_frames s1)"
  proof (cases "pviewi p ?i s")
    case None
    then have "s1 = s" by (simp add: s1_def getmap_pviewi)
    then show ?thesis using None Suc.prems by (auto simp del: split_paired_All)
  next
    case (Some e)
    let ?u = "pagetable_unmap p v s"
    note un = unmap_step [OF Suc.prems, where v = v]
    have uv: "pviewi p i ?u = (if i = ?i then None else pviewi p i s)" for i
      by (auto simp: un(2) page_index_def prod_eq_iff)
    have fl: "entry_flags e AND PAGE_FLAG_ALLOC \<noteq> 0 \<longleftrightarrow> bit (avail e) 0"
      by (simp add: entry_flags_def PAGE_FLAG_ALLOC_def PAGE_FLAG_READWRITE_def PAGE_FLAG_KERNEL_def)
    have s1: "s1 = (if bit (avail e) 0 then page_free (addr_of (addr e)) ?u else ?u)"
      by (simp add: s1_def getmap_pviewi Some Let_def fl)
    show ?thesis
    proof (cases "bit (avail e) 0")
      case True
      then have av: "avail e \<noteq> 0" by auto
      have uo: "unowned p (addr e) ?u"
        by (rule unmap_release [OF Suc.prems _ av]) (use Some in \<open>simp add: page_index_def\<close>)
      note re = release_step [OF un(1) uo]
      show ?thesis using True Some re(1,4) un(1,3)
        by (auto simp: s1 uv re(3) simp del: split_paired_All)
    next
      case False
      then show ?thesis using Some un(1,3) by (auto simp: s1 uv simp del: split_paired_All)
    qed
  qed
  let ?r = "pagetable_free_loop n p (v + of_nat PAGE_SIZE) s1"
  have IH: "pt_inv p ?r \<and> avail_frames s1 \<subseteq> avail_frames ?r \<and>
    (\<forall>i. pviewi p i ?r = (if i \<in> range_pages (v + of_nat PAGE_SIZE) n then None else pviewi p i s1)) \<and>
    (\<forall>i e. i \<in> range_pages (v + of_nat PAGE_SIZE) n \<longrightarrow> pviewi p i s1 = Some e \<longrightarrow> bit (avail e) 0 \<longrightarrow>
       addr e \<in> avail_frames ?r)"
    using Suc.IH one by blast
  show ?case unfolding loop range_pages_Suc
  proof (intro conjI allI impI)
    show "pt_inv p ?r" "avail_frames s \<subseteq> avail_frames ?r" using IH one by blast+
    show "pviewi p i ?r = (if i \<in> insert ?i (range_pages (v + of_nat PAGE_SIZE) n) then None
        else pviewi p i s)" for i
      using IH one by (simp del: split_paired_All)
    show "addr e \<in> avail_frames ?r" if "i \<in> insert ?i (range_pages (v + of_nat PAGE_SIZE) n)"
      "pviewi p i s = Some e" "bit (avail e) 0" for i e
      using that IH one by (cases "i = ?i") (simp_all del: split_paired_All, blast+)
  qed
qed

section \<open>Properties\<close>

lemma pt_inv_create:
  assumes wf: "page_wf s" and cr: "pagetable_create s = Some (p, s')"
  shows "pt_inv p s'" "pview p a b s' = None"
    "avail_frames s' = avail_frames s - {frame_of p}"
proof -
  note fr = page_alloc_frame [OF wf cr [unfolded pagetable_create_def]]
  have e: "\<not> present (pt_entry p a s')" for a
    by (simp add: pt_entry_def fr(7) decode_def)
  then have v: "pview p a b s' = None" for a b by (simp add: pview_def Let_def)
  then show "pview p a b s' = None" .
  show "avail_frames s' = avail_frames s - {frame_of p}" by (rule fr(5))
  show "pt_inv p s'" using fr by (simp add: pt_inv_def e v is_table_def is_owned_def in_use_def)
qed

lemma map_possible:
  assumes inv: "pt_inv p s" and two: "2 \<le> card (avail_frames s)"
  shows "\<exists>r s'. pagetable_map p v pa fl s = Some (r, s')"
proof -
  let ?al = "fl AND PAGE_FLAG_ALLOC \<noteq> 0"
  have "avail_frames s \<noteq> {}" using two by auto
  then have "\<exists>x. (if ?al then page_alloc (fl AND PAGE_FLAG_CLEAR \<noteq> 0) s else Some (pa, s)) = Some x"
    using page_alloc_possible [OF pt_inv_wf [OF inv], of "fl AND PAGE_FLAG_CLEAR \<noteq> 0"] by auto
  then obtain d s1 where d: "(if ?al then page_alloc (fl AND PAGE_FLAG_CLEAR \<noteq> 0) s else Some (pa, s)) = Some (d, s1)"
    by force
  have wf: "page_wf s1" "avail_frames s1 \<noteq> {}"
  proof -
    show "page_wf s1"
      using d page_alloc_frame(4) [OF pt_inv_wf [OF inv]] pt_inv_wf [OF inv] by (auto split: if_splits)
    have "1 \<le> card (avail_frames s - {frame_of d})" using two by (auto simp: card_Diff_singleton_if)
    then have "avail_frames s - {frame_of d} \<noteq> {}" by fastforce
    then show "avail_frames s1 \<noteq> {}"
      using d page_alloc_frame(5) [OF pt_inv_wf [OF inv]] \<open>avail_frames s \<noteq> {}\<close>
      by (auto split: if_splits)
  qed
  obtain qo s2 where "pagetable_table p (dir_index v) fl s1 = Some (qo, s2)"
    using page_alloc_possible [OF wf, of True]
    by (fastforce simp: pagetable_table_def pagetable_create_def Let_def)
  then show ?thesis unfolding pagetable_map_def d
    by (auto split: option.splits)
qed

lemma flag_bits:
  "bit PAGE_FLAG_KERNEL n \<longleftrightarrow> n = 0" "bit PAGE_FLAG_ALLOC n \<longleftrightarrow> n = 1"
  "bit PAGE_FLAG_READWRITE n \<longleftrightarrow> n = 2"
  unfolding PAGE_FLAG_KERNEL_def PAGE_FLAG_ALLOC_def PAGE_FLAG_READWRITE_def
  using bit_flag [of 0 True n] bit_flag [of 1 True n] bit_flag [of 2 True n] by (simp_all add: flag_def)

lemma flag_clear:
  "fl AND PAGE_FLAG_KERNEL = 0 \<longleftrightarrow> \<not> bit fl 0" "fl AND PAGE_FLAG_ALLOC = 0 \<longleftrightarrow> \<not> bit fl 1"
  "fl AND PAGE_FLAG_READWRITE = 0 \<longleftrightarrow> \<not> bit fl 2"
  using bit_cell [of fl 0] bit_cell [of fl 1] bit_cell [of fl 2]
  by (auto simp: PAGE_FLAG_KERNEL_def PAGE_FLAG_ALLOC_def PAGE_FLAG_READWRITE_def)

text \<open>Claim C6. \<^verbatim>\<open>pagetable_map\<close> on a table in good order: with two frames free it returns, it
  returns 1, \<^verbatim>\<open>pagetable_getmap\<close> then finds exactly the page and the flags for every address
  of that page and what it found before for every other address, and the table stays in good
  order.\<close>

theorem pagetable_map_correct:
  assumes "pt_inv p s" "2 \<le> card (avail_frames s)"
  shows "\<exists>d s'. pagetable_map p v pa fl s = Some (1, s') \<and> pt_inv p s' \<and>
     (\<forall>w. pagetable_getmap p w s' =
        (if drop_bit 12 w = drop_bit 12 v
         then Some (d AND 0xfffff000, fl AND (PAGE_FLAG_KERNEL OR PAGE_FLAG_ALLOC OR PAGE_FLAG_READWRITE))
         else pagetable_getmap p w s)) \<and>
     (if fl AND PAGE_FLAG_ALLOC = 0 then d = pa
      else frame_of d \<in> avail_frames s \<and> frame_of d \<notin> avail_frames s')"
proof -
  obtain r s' where m: "pagetable_map p v pa fl s = Some (r, s')" using map_possible [OF assms] by blast
  obtain d where d: "r = 1" "pt_inv p s'" "avail_frames s' \<subseteq> avail_frames s"
    "\<And>x y. pview p x y s' =
       (if x = dir_index v \<and> y = tab_index v then Some (page_entry d fl) else pview p x y s)"
    "if fl AND PAGE_FLAG_ALLOC = 0 then d = pa
     else frame_of d \<in> avail_frames s \<and> frame_of d \<notin> avail_frames s'"
    using map_step [OF assms(1) m] by blast
  have fl: "entry_flags (page_entry d fl) = fl AND (PAGE_FLAG_KERNEL OR PAGE_FLAG_ALLOC OR PAGE_FLAG_READWRITE)"
  proof (rule bit_word_eqI)
    fix n
    show "bit (entry_flags (page_entry d fl)) n =
      bit (fl AND (PAGE_FLAG_KERNEL OR PAGE_FLAG_ALLOC OR PAGE_FLAG_READWRITE)) n"
      by (cases "bit fl n") (auto simp: entry_flags_def page_entry_def flag_bits flag_clear bit_and_iff bit_or_iff
          intro: gr0I)
  qed
  have "pagetable_getmap p w s' =
        (if drop_bit 12 w = drop_bit 12 v
         then Some (d AND 0xfffff000, fl AND (PAGE_FLAG_KERNEL OR PAGE_FLAG_ALLOC OR PAGE_FLAG_READWRITE))
         else pagetable_getmap p w s)" for w
    using same_indices [of w v] by (auto simp: getmap_view d(4) fl addr_of_frame_of)
  with d m show ?thesis by blast
qed

text \<open>
  A small machine for the witnesses: eight pages of memory, all of them free, and the address
  space created first on it.
\<close>

definition sample_memory :: pmem where
  "sample_memory = \<lparr>pages_free = 8, pages_total = 32, freemap_ready = True,
     freemap = (\<lambda>_. 0)(0 := 255), freemap_bits = 32, freemap_bytes = 5, freemap_cells = 1,
     freemap_pages = 1, phys = \<lambda>_ _. 7\<rparr>"

lemma sample_memory_wf: "page_wf sample_memory"
  by (simp add: page_wf_def sample_memory_def)

lemma sample_memory_free: "8 \<le> card (avail_frames sample_memory)"
proof -
  have b: "bit (255 :: int) k \<longleftrightarrow> k < 8" for k
  proof -
    have m: "(255 :: int) = mask 8" by (simp add: mask_eq_exp_minus_1)
    show ?thesis unfolding m bit_mask_iff by auto
  qed
  have "{..<8} \<subseteq> free_pages sample_memory"
    by (auto simp: free_pages_def page_bit_def sample_memory_def b)
  then have "page_addr ` {..<8} \<subseteq> avail_addrs sample_memory" by (auto simp: avail_addrs_def)
  then have sub: "(frame_of \<circ> page_addr) ` {..<8} \<subseteq> avail_frames sample_memory"
    by (auto simp: avail_frames_def)
  have "inj_on (frame_of \<circ> page_addr) {..<8}"
  proof (rule inj_onI)
    fix x y :: nat
    assume xy: "x \<in> {..<8}" "y \<in> {..<8}" "(frame_of \<circ> page_addr) x = (frame_of \<circ> page_addr) y"
    then have "page_addr x = page_addr y" by (metis addr_of_frame_of_page comp_apply)
    then show "x = y" by (rule page_addr_inj [rotated -1]) (use xy in auto)
  qed
  then have "card ((frame_of \<circ> page_addr) ` {..<8}) = card {..<8 :: nat}" by (rule card_image)
  with sub show ?thesis by (metis card_lessThan card_mono finite)
qed

lemma sample_space:
  "\<exists>p s. pagetable_create sample_memory = Some (p, s) \<and> pt_inv p s \<and> 7 \<le> card (avail_frames s) \<and>
     (\<forall>i. pviewi p i s = None)"
proof -
  have "avail_frames sample_memory \<noteq> {}" using sample_memory_free by auto
  then obtain p s where ps: "pagetable_create sample_memory = Some (p, s)"
    using page_alloc_possible [OF sample_memory_wf, of True] by (auto simp: pagetable_create_def)
  note c = pt_inv_create [OF sample_memory_wf ps]
  have "7 \<le> card (avail_frames s)" using sample_memory_free by (auto simp: c(3) card_Diff_singleton_if)
  with ps c(1,2) show ?thesis by auto
qed

theorem pagetable_map_correct_witness:
  "\<exists>p s d s'. pagetable_create sample_memory = Some (p, s) \<and>
     pagetable_map p 0x80001234 0 (PAGE_FLAG_ALLOC OR PAGE_FLAG_READWRITE) s = Some (1, s') \<and>
     pagetable_getmap p 0x80001000 s' = Some (d, 6)"
proof -
  obtain p s where ps: "pagetable_create sample_memory = Some (p, s)" "pt_inv p s" "7 \<le> card (avail_frames s)"
    using sample_space by blast
  have "2 \<le> card (avail_frames s)" using ps(3) by simp
  from pagetable_map_correct [OF ps(2) this, of "0x80001234" 0 "PAGE_FLAG_ALLOC OR PAGE_FLAG_READWRITE"]
  obtain d s' where m: "pagetable_map p 0x80001234 0 (PAGE_FLAG_ALLOC OR PAGE_FLAG_READWRITE) s = Some (1, s')"
    "\<And>w. drop_bit 12 w = drop_bit 12 (0x80001234 :: u32) \<Longrightarrow> pagetable_getmap p w s' = Some (d AND 0xfffff000, (PAGE_FLAG_ALLOC OR PAGE_FLAG_READWRITE) AND
       (PAGE_FLAG_KERNEL OR PAGE_FLAG_ALLOC OR PAGE_FLAG_READWRITE))"
    by auto
  have "drop_bit 12 (0x80001000 :: u32) = drop_bit 12 (0x80001234 :: u32)" by simp
  from m(2) [OF this] show ?thesis using ps(1) m(1)
    by (auto simp: PAGE_FLAG_KERNEL_def PAGE_FLAG_ALLOC_def PAGE_FLAG_READWRITE_def)
qed

text \<open>\<^verbatim>\<open>pagetable_unmap\<close> removes the page of the address, changes no other mapping,
  frees no frame and keeps the table in good order.\<close>

theorem pagetable_unmap_correct:
  assumes "pt_inv p s"
  shows "pt_inv p (pagetable_unmap p v s) \<and>
    (\<forall>w. pagetable_getmap p w (pagetable_unmap p v s) =
       (if drop_bit 12 w = drop_bit 12 v then None else pagetable_getmap p w s)) \<and>
    avail_frames (pagetable_unmap p v s) = avail_frames s"
  using unmap_step [OF assms, where v = v] same_indices [of _ v] by (auto simp: getmap_view)

theorem pagetable_unmap_correct_witness:
  "\<exists>p s. pagetable_create sample_memory = Some (p, s) \<and> pagetable_getmap p 4096 (pagetable_unmap p 5000 s) = None"
proof -
  obtain p s where ps: "pagetable_create sample_memory = Some (p, s)" "pt_inv p s" "7 \<le> card (avail_frames s)"
    using sample_space by blast
  then show ?thesis using pagetable_unmap_correct [OF ps(2), of 5000] by auto
qed

text \<open>Claim C7. \<^verbatim>\<open>pagetable_alloc\<close> makes the whole range of pages present: a page already mapped
  keeps its frame and flags, a page not mapped gets a frame that was free before, and no page
  outside the range changes.\<close>

theorem pagetable_alloc_correct:
  assumes "pt_inv p s" "pagetable_alloc p v len fl s = Some s'"
  defines "R \<equiv> range_pages (v AND 0xfffff000) (npages len)"
  shows "pt_inv p s' \<and>
    (\<forall>w. pagetable_getmap p w s \<noteq> None \<or> page_index w \<notin> R \<longrightarrow>
       pagetable_getmap p w s' = pagetable_getmap p w s) \<and>
    (\<forall>w. page_index w \<in> R \<and> pagetable_getmap p w s = None \<longrightarrow>
       (\<exists>d. pagetable_getmap p w s' = Some (addr_of d, entry_flags (page_entry (addr_of d) (fl OR PAGE_FLAG_ALLOC))) \<and>
            d \<in> avail_frames s \<and> d \<notin> avail_frames s'))"
proof -
  have L: "pagetable_alloc_loop (npages len) p (v AND 0xfffff000) fl s = Some s'"
    using assms(2) by (simp add: pagetable_alloc_def)
  note sp = alloc_loop_spec [OF assms(1) L, folded R_def]
  have each: "pviewi p i s' = pviewi p i s \<or>
       i \<in> R \<and> pviewi p i s = None \<and>
       (\<exists>e. pviewi p i s' = Some e \<and> fresh_page s s' (fl OR PAGE_FLAG_ALLOC) e)"
    and full: "i \<in> R \<Longrightarrow> pviewi p i s' \<noteq> None" for i
    using sp by blast+
  have "pagetable_getmap p w s' = pagetable_getmap p w s"
    if "pagetable_getmap p w s \<noteq> None \<or> page_index w \<notin> R" for w
    using each [of "page_index w"] that by (auto simp: getmap_pviewi)
  moreover have "\<exists>d. pagetable_getmap p w s' = Some (addr_of d, entry_flags (page_entry (addr_of d) (fl OR PAGE_FLAG_ALLOC))) \<and>
            d \<in> avail_frames s \<and> d \<notin> avail_frames s'"
    if "page_index w \<in> R" "pagetable_getmap p w s = None" for w
  proof -
    have n: "pviewi p (page_index w) s = None" using that(2) by (simp add: getmap_pviewi)
    note some = full [OF that(1)]
    from n obtain e where e: "pviewi p (page_index w) s' = Some e" "fresh_page s s' (fl OR PAGE_FLAG_ALLOC) e"
      using each [of "page_index w"] some by auto
    then obtain d where d: "e = page_entry d (fl OR PAGE_FLAG_ALLOC)" "frame_of d \<in> avail_frames s"
      "frame_of d \<notin> avail_frames s'"
      by (auto simp: fresh_page_def)
    have "page_entry d fl' = page_entry (addr_of (frame_of d)) fl'" for fl' by (simp add: page_entry_def)
    then show ?thesis using e(1) d by (intro exI [of _ "frame_of d"]) (simp add: getmap_pviewi)
  qed
  ultimately show ?thesis using sp by blast
qed

text \<open>\<^verbatim>\<open>pagetable_free\<close> takes the whole range of pages out of the table, gives every
  frame the range owned back to the page allocator, and changes no mapping outside the range.\<close>

theorem pagetable_free_correct:
  assumes "pt_inv p s"
  defines "R v len \<equiv> range_pages (v AND 0xfffff000) (npages len)"
  shows "pt_inv p (pagetable_free p v len s) \<and>
    (\<forall>w. pagetable_getmap p w (pagetable_free p v len s) =
       (if page_index w \<in> R v len then None else pagetable_getmap p w s)) \<and>
    (\<forall>w d fl. page_index w \<in> R v len \<longrightarrow> pagetable_getmap p w s = Some (d, fl) \<longrightarrow>
       fl AND PAGE_FLAG_ALLOC \<noteq> 0 \<longrightarrow> frame_of d \<in> avail_frames (pagetable_free p v len s))"
proof -
  note sp = free_loop_spec [OF assms(1), of "npages len" "v AND 0xfffff000", folded pagetable_free_def R_def]
  have fl: "entry_flags e AND PAGE_FLAG_ALLOC \<noteq> 0 \<longleftrightarrow> bit (avail e) 0" for e
    by (simp add: entry_flags_def PAGE_FLAG_ALLOC_def PAGE_FLAG_READWRITE_def PAGE_FLAG_KERNEL_def)
  have "frame_of d \<in> avail_frames (pagetable_free p v len s)"
    if r: "page_index w \<in> R v len" "pagetable_getmap p w s = Some (d, f)" "f AND PAGE_FLAG_ALLOC \<noteq> 0" for w d f
  proof -
    obtain e where e: "pviewi p (page_index w) s = Some e" "d = addr_of (addr e)" "f = entry_flags e"
      using r(2) by (auto simp: getmap_pviewi)
    then have "addr e \<in> avail_frames (pagetable_free p v len s)" using sp r(1,3) fl by blast
    then show ?thesis by (simp add: e)
  qed
  then show ?thesis using sp by (auto simp: getmap_pviewi)
qed

lemma sample_alloc:
  "\<exists>p s s'. pagetable_create sample_memory = Some (p, s) \<and> pt_inv p s \<and>
     (\<forall>i. pviewi p i s = None) \<and> pagetable_alloc p 0x80000800 100 PAGE_FLAG_READWRITE s = Some s'"
proof -
  obtain p s where ps: "pagetable_create sample_memory = Some (p, s)" "pt_inv p s" "7 \<le> card (avail_frames s)"
    "\<forall>i. pviewi p i s = None"
    using sample_space by blast
  have "2 \<le> card (avail_frames s)" using ps(3) by simp
  from map_possible [OF ps(2) this] obtain r s' where
    m: "pagetable_map p 0x80000000 0 (PAGE_FLAG_READWRITE OR PAGE_FLAG_ALLOC) s = Some (r, s')" by blast
  have n: "npages 100 = Suc 0" by (simp add: npages_def PAGE_SIZE_def)
  have "pagetable_getmap p 0x80000000 s = None" using ps(4) by (auto simp: getmap_pviewi)
  then have "pagetable_alloc p 0x80000800 100 PAGE_FLAG_READWRITE s = Some s'"
    by (simp add: pagetable_alloc_def n m)
  with ps show ?thesis by blast
qed

theorem pagetable_alloc_correct_witness:
  "\<exists>p s s' d. pagetable_create sample_memory = Some (p, s) \<and>
     pagetable_alloc p 0x80000800 100 PAGE_FLAG_READWRITE s = Some s' \<and>
     pagetable_getmap p 0x80000000 s' = Some (d, 6)"
proof -
  obtain p s s' where ps: "pagetable_create sample_memory = Some (p, s)" "pt_inv p s"
    "\<forall>i. pviewi p i s = None" "pagetable_alloc p 0x80000800 100 PAGE_FLAG_READWRITE s = Some s'"
    using sample_alloc by blast
  have "page_index 0x80000000 \<in> range_pages (0x80000800 AND 0xfffff000) (npages 100)"
    by (auto simp: range_pages_def npages_def PAGE_SIZE_def)
  moreover have "pagetable_getmap p 0x80000000 s = None" using ps(3) by (auto simp: getmap_pviewi)
  ultimately obtain d where
    "pagetable_getmap p 0x80000000 s' = Some (addr_of d, entry_flags (page_entry (addr_of d) (PAGE_FLAG_READWRITE OR PAGE_FLAG_ALLOC)))"
    using pagetable_alloc_correct [OF ps(2,4)] by blast
  moreover have "entry_flags (page_entry (addr_of d) (PAGE_FLAG_READWRITE OR PAGE_FLAG_ALLOC)) = 6"
    by (simp add: entry_flags_def page_entry_def PAGE_FLAG_KERNEL_def PAGE_FLAG_ALLOC_def PAGE_FLAG_READWRITE_def)
  ultimately show ?thesis using ps by auto
qed

theorem pagetable_free_correct_witness:
  "\<exists>p s. pagetable_create sample_memory = Some (p, s) \<and>
     pagetable_getmap p 0x80000000 (pagetable_free p 0x80000000 4096 s) = None"
proof -
  obtain p s where ps: "pagetable_create sample_memory = Some (p, s)" "pt_inv p s"
    "\<forall>i. pviewi p i s = None"
    using sample_space by blast
  have "pagetable_getmap p 0x80000000 s = None" using ps(3) by (auto simp: getmap_pviewi)
  then show ?thesis using ps pagetable_free_correct [OF ps(2)] by fastforce
qed

section \<open>Deleting a table\<close>

text \<open>A sweep over entries that frees some frames; the contents of memory do not change.\<close>

definition sweeps :: "(nat \<Rightarrow> pmem \<Rightarrow> pmem) \<Rightarrow> (nat \<Rightarrow> 20 word set) \<Rightarrow> pmem \<Rightarrow> bool" where
  "sweeps step F s \<longleftrightarrow> (\<forall>j s'. page_wf s' \<longrightarrow> managed_frames s' = managed_frames s \<longrightarrow> phys s' = phys s \<longrightarrow>
     page_wf (step j s') \<and> managed_frames (step j s') = managed_frames s \<and> phys (step j s') = phys s \<and>
     avail_frames (step j s') = F j \<union> avail_frames s')"

lemma sweeps_fold:
  assumes "sweeps step F s" "page_wf s'" "managed_frames s' = managed_frames s" "phys s' = phys s"
  shows "page_wf (fold step js s') \<and> managed_frames (fold step js s') = managed_frames s \<and>
    phys (fold step js s') = phys s \<and>
    avail_frames (fold step js s') = (\<Union>j \<in> set js. F j) \<union> avail_frames s'"
  using assms(2-4)
proof (induction js arbitrary: s')
  case (Cons j js)
  have "page_wf (step j s') \<and> managed_frames (step j s') = managed_frames s \<and> phys (step j s') = phys s \<and>
     avail_frames (step j s') = F j \<union> avail_frames s'"
    using assms(1) Cons.prems unfolding sweeps_def by blast
  with Cons.IH [of "step j s'"] show ?case by auto
qed simp

definition table_frees :: "u32 \<Rightarrow> pmem \<Rightarrow> 20 word set" where
  "table_frees q s = {f. \<exists>b. present (pt_entry q b s) \<and> avail (pt_entry q b s) \<noteq> 0 \<and> f = addr (pt_entry q b s)}"

lemma pt_entry_phys: "phys s' = phys s \<Longrightarrow> pt_entry q b s' = pt_entry q b s"
  by (simp add: pt_entry_def)

lemma all_entries: "(\<Union>j \<in> set [0..<ENTRIES_PER_TABLE]. F (of_nat j :: 10 word)) = (\<Union>b. F b)"
proof -
  have "b \<in> of_nat ` set [0..<ENTRIES_PER_TABLE]" for b :: "10 word"
    using unsigned_less [of b] by (intro image_eqI [of _ _ "unat b"]) (simp_all add: ENTRIES_PER_TABLE_def)
  then have "(of_nat :: nat \<Rightarrow> 10 word) ` set [0..<ENTRIES_PER_TABLE] = UNIV" by blast
  then show ?thesis by (metis (no_types, lifting) SUP_cong image_image)
qed

lemma delete_table_spec:
  assumes wf: "page_wf s" and man: "table_frees q s \<subseteq> managed_frames s"
  shows "page_wf (pagetable_delete_table q s) \<and>
    managed_frames (pagetable_delete_table q s) = managed_frames s \<and>
    phys (pagetable_delete_table q s) = phys s \<and>
    avail_frames (pagetable_delete_table q s) = table_frees q s \<union> avail_frames s"
proof -
  define F where "F b = (if present (pt_entry q b s) \<and> avail (pt_entry q b s) \<noteq> 0
      then {addr (pt_entry q b s)} else {})" for b
  have U: "(\<Union>b. F b) = table_frees q s" by (auto simp: F_def table_frees_def split: if_splits)
  define step where "step j s = (let e = pt_entry q (of_nat j) s in
        if present e \<and> avail e \<noteq> 0 then page_free (addr_of (addr e)) s else s)" for j s
  have "sweeps step (\<lambda>j. F (of_nat j)) s"
    unfolding sweeps_def
  proof (intro allI impI)
    fix j s' assume s': "page_wf s'" "managed_frames s' = managed_frames s" "phys s' = phys s"
    note e = pt_entry_phys [OF s'(3)]
    show "page_wf (step j s') \<and> managed_frames (step j s') = managed_frames s \<and>
      phys (step j s') = phys s \<and> avail_frames (step j s') = F (of_nat j) \<union> avail_frames s'"
    proof (cases "present (pt_entry q (of_nat j) s) \<and> avail (pt_entry q (of_nat j) s) \<noteq> 0")
      case True
      then have "addr (pt_entry q (of_nat j) s) \<in> managed_frames s'"
        using man s'(2) by (auto simp: table_frees_def)
      from page_free_frame [OF s'(1) this] True show ?thesis
        by (simp add: step_def e F_def s')
    qed (auto simp: step_def e F_def s')
  qed
  from sweeps_fold [OF this wf refl refl, of "[0..<ENTRIES_PER_TABLE]"] show ?thesis
    unfolding all_entries U by (simp add: pagetable_delete_table_def step_def [abs_def])
qed

lemma delete_spec:
  assumes inv: "pt_inv p s"
  shows "page_wf (pagetable_delete p s) \<and> phys (pagetable_delete p s) = phys s \<and>
    managed_frames (pagetable_delete p s) = managed_frames s \<and>
    avail_frames (pagetable_delete p s) =
      {frame_of p} \<union> {f. is_table p f s} \<union> {f. is_owned p f s} \<union> avail_frames s"
proof -
  note wf = pt_inv_wf [OF inv]
  define F where "F a = (if present (pt_entry p a s) then
      insert (addr (pt_entry p a s)) (table_frees (addr_of (addr (pt_entry p a s))) s) else {})" for a
  have U: "(\<Union>a. F a) = {f. is_table p f s} \<union> {f. is_owned p f s}"
    by (fastforce simp: F_def table_frees_def is_table_def is_owned_def pview_def Let_def split: if_splits)
  have man: "\<Union>(range F) \<subseteq> managed_frames s"
    unfolding U using pt_inv_table [OF inv] pt_inv_owned [OF inv] by (auto simp: in_use_def)
  define step where "step i s = (let e = pt_entry p (of_nat i) s in
        if present e then page_free (addr_of (addr e)) (pagetable_delete_table (addr_of (addr e)) s)
        else s)" for i s
  have "sweeps step (\<lambda>j. F (of_nat j)) s"
    unfolding sweeps_def
  proof (intro allI impI)
    fix j s' assume s': "page_wf s'" "managed_frames s' = managed_frames s" "phys s' = phys s"
    note e = pt_entry_phys [OF s'(3)]
    let ?e = "pt_entry p (of_nat j) s"
    show "page_wf (step j s') \<and> managed_frames (step j s') = managed_frames s \<and>
      phys (step j s') = phys s \<and> avail_frames (step j s') = F (of_nat j) \<union> avail_frames s'"
    proof (cases "present ?e")
      case True
      have tf: "table_frees q s' = table_frees q s" for q by (simp add: table_frees_def e)
      have sub: "F (of_nat j) \<subseteq> managed_frames s'" using man s'(2) by blast
      then have "table_frees (addr_of (addr ?e)) s' \<subseteq> managed_frames s'" "addr ?e \<in> managed_frames s'"
        using True by (auto simp: F_def tf)
      with delete_table_spec [OF s'(1) this(1)]
        page_free_frame [of "pagetable_delete_table (addr_of (addr ?e)) s'" "addr ?e"] True
      show ?thesis by (simp add: step_def Let_def e F_def s' tf)
    qed (auto simp: step_def e F_def s')
  qed
  from sweeps_fold [OF this wf refl refl, of "[0..<ENTRIES_PER_TABLE]"]
  have r: "page_wf (fold step [0..<ENTRIES_PER_TABLE] s)"
    "managed_frames (fold step [0..<ENTRIES_PER_TABLE] s) = managed_frames s"
    "phys (fold step [0..<ENTRIES_PER_TABLE] s) = phys s"
    "avail_frames (fold step [0..<ENTRIES_PER_TABLE] s) = {f. is_table p f s} \<union> {f. is_owned p f s} \<union> avail_frames s"
    unfolding all_entries U by blast+
  have del: "pagetable_delete p s = page_free p (fold step [0..<ENTRIES_PER_TABLE] s)"
    by (simp add: pagetable_delete_def step_def [abs_def])
  have p: "addr_of (frame_of p) = p" "frame_of p \<in> managed_frames s"
    using inv by (auto simp: pt_inv_def in_use_def)
  have "frame_of p \<in> managed_frames (fold step [0..<ENTRIES_PER_TABLE] s)" using p(2) r(2) by simp
  from page_free_frame [OF r(1) this] show ?thesis by (simp add: p del r)
qed

text \<open>Claim C8. \<^verbatim>\<open>pagetable_delete\<close> gives back exactly the frames of the address space: its
  directory, its tables and the pages they own; a page mapped without owning it stays in use.\<close>

theorem pagetable_delete_correct:
  assumes "pt_inv p s"
  shows "avail_frames (pagetable_delete p s) =
      {frame_of p} \<union> {f. is_table p f s} \<union> {f. is_owned p f s} \<union> avail_frames s \<and>
    page_wf (pagetable_delete p s)"
  using delete_spec [OF assms] by blast

theorem pagetable_delete_correct_witness:
  "\<exists>p s. pagetable_create sample_memory = Some (p, s) \<and>
     avail_frames (pagetable_delete p s) = avail_frames sample_memory"
proof -
  obtain p s where ps: "pagetable_create sample_memory = Some (p, s)" "pt_inv p s"
    "\<forall>i. pviewi p i s = None"
    using sample_space by blast
  have "\<not> is_owned p f s" for f using ps(3) by (auto simp: is_owned_def)
  moreover have "\<not> is_table p f s" for f
    using page_alloc_frame [OF sample_memory_wf ps(1) [unfolded pagetable_create_def]]
    by (simp add: is_table_def pt_entry_def decode_def)
  moreover have "frame_of p \<in> avail_frames sample_memory"
    using page_alloc_frame [OF sample_memory_wf ps(1) [unfolded pagetable_create_def]] by simp
  ultimately have "avail_frames (pagetable_delete p s) = avail_frames sample_memory"
    using pagetable_delete_correct [OF ps(2)] pt_inv_create(3) [OF sample_memory_wf ps(1)] by auto
  with ps show ?thesis by blast
qed

end
