(* ===== verification/Kstring.thy ===== *)
theory Kstring
  imports Kernel_Prelude
begin

text \<open>
  The string routines of \<^verbatim>\<open>kernel/string.c\<close>.  A C pointer into a string is the list of the
  bytes from the pointer to the end of its buffer, so advancing the pointer is taking the tail
  and a routine that writes returns the new contents of the buffer.  Running off the end of a
  buffer is the result \<open>None\<close>.  Characters are signed, as on the machine the kernel runs on.
\<close>

type_synonym buf = "u8 list"

section \<open>The routines\<close>

fun strcpy :: "buf \<Rightarrow> buf \<Rightarrow> buf option" where
  "strcpy (x # d) (c # s) = (if c \<noteq> 0 then map_option ((#) c) (strcpy d s) else Some (0 # d))"
| "strcpy [] (c # s) = None"
| "strcpy d [] = None"

text \<open>In \<^verbatim>\<open>strncpy\<close> the length is tested after the character, and counts down.\<close>

fun strncpy :: "buf \<Rightarrow> buf \<Rightarrow> nat \<Rightarrow> buf option" where
  "strncpy (x # d) (c # s) n =
     (if c \<noteq> 0 \<and> n \<noteq> 0 then map_option ((#) c) (strncpy d s (n - 1)) else Some (0 # d))"
| "strncpy [] (c # s) n = None"
| "strncpy d [] n = None"

fun strcmp :: "buf \<Rightarrow> buf \<Rightarrow> int option" where
  "strcmp (a # as) (b # bs) =
     (if a <s b then Some (- 1) else if b <s a then Some 1
      else if a = 0 then Some 0 else strcmp as bs)"
| "strcmp _ _ = None"

fun strncmp :: "buf \<Rightarrow> buf \<Rightarrow> nat \<Rightarrow> int option" where
  "strncmp _ _ 0 = Some 0"
| "strncmp (a # as) (b # bs) (Suc n) =
     (if a <s b then Some (- 1) else if b <s a then Some 1
      else if a = 0 then Some 0 else strncmp as bs n)"
| "strncmp _ _ (Suc n) = None"

fun strlen_from :: "buf \<Rightarrow> u32 \<Rightarrow> u32 option" where
  "strlen_from [] len = None"
| "strlen_from (c # s) len = (if c \<noteq> 0 then strlen_from s (len + 1) else Some len)"

definition strlen :: "buf \<Rightarrow> u32 option" where
  "strlen s = strlen_from s 0"

text \<open>The loop of \<^verbatim>\<open>strrev\<close>: its two counters are unsigned, and \<open>end\<close> starts at
  \<open>strlen s - 1\<close>, which wraps around for the empty string.\<close>

function strrev_loop :: "buf \<Rightarrow> u32 \<Rightarrow> u32 \<Rightarrow> buf option" where
  "strrev_loop s start end =
     (if start < end then
        (if unat start < length s \<and> unat end < length s then
           strrev_loop (s[unat start := s ! unat end, unat end := s ! unat start]) (start + 1) (end - 1)
         else None)
      else Some s)"
  by pat_completeness auto
termination
proof (relation "measure (\<lambda>(s, start, end). unat end)")
  fix start "end" :: u32
  assume "start < end"
  then have "end \<noteq> 0" by auto
  then have "unat (end - 1) < unat end" by (simp add: unat_gt_0 unat_minus_one)
  then show "\<And>s s'. ((s, start + 1, end - 1), s', start, end) \<in> measure (\<lambda>(s, start, end). unat end)"
    by simp
qed simp

declare strrev_loop.simps [simp del]

definition strrev :: "buf \<Rightarrow> buf option" where
  "strrev s = do { n \<leftarrow> strlen s; strrev_loop s 0 (n - 1) }"

definition strcat :: "buf \<Rightarrow> buf \<Rightarrow> buf option" where
  "strcat d s = do {
     n \<leftarrow> strlen d;
     d' \<leftarrow> strcpy (drop (unat n) d) s;
     Some (take (unat n) d @ d')
   }"

text \<open>The result of \<^verbatim>\<open>strchr\<close> is the pointer it returns, or the inner \<open>None\<close> for null.\<close>

fun strchr :: "buf \<Rightarrow> u8 \<Rightarrow> buf option option" where
  "strchr [] ch = None"
| "strchr (c # s) ch =
     (if c \<noteq> 0 then (if c = ch then Some (Some (c # s)) else strchr s ch) else Some None)"

text \<open>
  \<^verbatim>\<open>strtok\<close>: the two scans and the function.  The state is the static \<^verbatim>\<open>oldword\<close>; the word
  returned is the C string that starts at the returned pointer, ended by the zero the function
  stores (or by the end of the string).
\<close>

fun strtok_skip :: "buf \<Rightarrow> buf \<Rightarrow> buf option" where
  "strtok_skip [] delim = None"
| "strtok_skip (c # s) delim =
     (if c \<noteq> 0 then do {
        p \<leftarrow> strchr delim c;
        if p \<noteq> None then strtok_skip s delim else Some (c # s)
      } else Some (c # s))"

fun strtok_word :: "buf \<Rightarrow> buf \<Rightarrow> (buf \<times> buf) option" where
  "strtok_word [] delim = None"
| "strtok_word (c # s) delim =
     (if c \<noteq> 0 then do {
        p \<leftarrow> strchr delim c;
        if p = None then map_option (apfst ((#) c)) (strtok_word s delim) else Some ([], c # s)
      } else Some ([], c # s))"

definition strtok :: "buf option \<Rightarrow> buf \<Rightarrow> buf option \<Rightarrow> (buf option \<times> buf option) option" where
  "strtok s delim oldword = do {
     s \<leftarrow> (case s of None \<Rightarrow> oldword | Some s \<Rightarrow> Some s);
     s \<leftarrow> strtok_skip s delim;
     if hd s = 0 then Some (None, Some s)
     else do {
       (word, s) \<leftarrow> strtok_word s delim;
       if hd s \<noteq> 0 then Some (Some (word @ [0]), Some (tl s))
       else Some (Some (word @ s), Some s)
     }
   }"

text \<open>\<open>block\<close> is what \<^verbatim>\<open>kmalloc\<close> returned: the memory of the new block, or \<open>None\<close> for null.\<close>

definition strdup :: "buf \<Rightarrow> buf option \<Rightarrow> buf option option" where
  "strdup s block = (case block of None \<Rightarrow> Some None | Some new \<Rightarrow> map_option Some (strcpy new s))"

definition strndup :: "buf \<Rightarrow> nat \<Rightarrow> buf option \<Rightarrow> buf option option" where
  "strndup s n block = (case block of None \<Rightarrow> Some None
     | Some new \<Rightarrow> do {
         new \<leftarrow> strncpy new s n;
         if n < length new then Some (Some (new[n := 0])) else None })"

fun strtoupper :: "buf \<Rightarrow> buf option" where
  "strtoupper [] = None"
| "strtoupper (c # s) =
     (if c \<noteq> 0 then
        map_option ((#) (if 97 \<le>s c \<and> c \<le>s 122 then c - 32 else c)) (strtoupper s)
      else Some (c # s))"

fun strtolower :: "buf \<Rightarrow> buf option" where
  "strtolower [] = None"
| "strtolower (c # s) =
     (if c \<noteq> 0 then
        map_option ((#) (if 65 \<le>s c \<and> c \<le>s 90 then c + 32 else c)) (strtolower s)
      else Some (c # s))"

text \<open>The inner \<open>None\<close> of \<^verbatim>\<open>str2int\<close> is the return value 0, \<open>Some\<close> is 1 with the number.\<close>

fun str2int_loop :: "buf \<Rightarrow> int \<Rightarrow> int option option" where
  "str2int_loop [] val = None"
| "str2int_loop (c # s) val =
     (if c \<noteq> 0 then
        (if 57 <s c \<or> c <s 48 then Some None
         else str2int_loop s (i32 (i32 (val * 10) + (sint c - 48))))
      else Some (Some val))"

definition str2int :: "buf \<Rightarrow> int option option" where
  "str2int s = str2int_loop s 0"

fun memset :: "buf \<Rightarrow> u8 \<Rightarrow> nat \<Rightarrow> buf option" where
  "memset d v 0 = Some d"
| "memset (x # d) v (Suc n) = map_option ((#) v) (memset d v n)"
| "memset [] v (Suc n) = None"

fun memcpy :: "buf \<Rightarrow> buf \<Rightarrow> nat \<Rightarrow> buf option" where
  "memcpy d s 0 = Some d"
| "memcpy (x # d) (c # s) (Suc n) = map_option ((#) c) (memcpy d s n)"
| "memcpy _ _ (Suc n) = None"

text \<open>
  \<^verbatim>\<open>uint_to_string\<close>: the loop that finds the scale divides by \<open>f * 10\<close> computed modulo
  \<open>2 ^ 32\<close>; a division by zero, which faults, is the result \<open>None\<close>.
\<close>

partial_function (option) uint_scale :: "u32 \<Rightarrow> u32 \<Rightarrow> u32 option" where
  "uint_scale u f =
     (if f * 10 = 0 then None
      else if 0 < u div (f * 10) then uint_scale u (f * 10) else Some f)"

function uint_digits :: "u32 \<Rightarrow> u32 \<Rightarrow> buf" where
  "uint_digits u f = (if 0 < f then ucast (48 + u div f) # uint_digits (u mod f) (f div 10) else [])"
  by pat_completeness auto
termination
proof (relation "measure (\<lambda>(u, f). unat f)")
  fix u f :: u32
  assume "0 < f"
  then have "unat f div 10 < unat f" by (simp add: unat_gt_0 word_neq_0_conv)
  then show "((u mod f, f div 10), u, f) \<in> measure (\<lambda>(u, f). unat f)"
    by (simp add: unat_div)
qed simp

declare uint_digits.simps [simp del]

definition uint_to_string :: "u32 \<Rightarrow> buf option" where
  "uint_to_string u = map_option (\<lambda>f. uint_digits u f @ [0]) (uint_scale u 1)"

section \<open>What the routines compute\<close>

text \<open>\<open>is_cstr xs s\<close>: the buffer \<open>s\<close> holds the C string \<open>xs\<close>, ended by its first zero.\<close>

definition is_cstr :: "buf \<Rightarrow> buf \<Rightarrow> bool" where
  "is_cstr xs s \<longleftrightarrow> 0 \<notin> set xs \<and> (\<exists>rest. s = xs @ 0 # rest)"

lemma is_cstr_Nil: "is_cstr [] s \<longleftrightarrow> (\<exists>rest. s = 0 # rest)"
  by (simp add: is_cstr_def)

lemma is_cstr_Cons: "is_cstr (x # xs) s \<longleftrightarrow> x \<noteq> 0 \<and> (\<exists>t. s = x # t \<and> is_cstr xs t)"
  by (auto simp: is_cstr_def)

lemma strlen_from_cstr: "is_cstr xs s \<Longrightarrow> strlen_from s n = Some (n + of_nat (length xs))"
  by (induction xs arbitrary: s n) (auto simp: is_cstr_Nil is_cstr_Cons algebra_simps)

lemma strlen_cstr: "is_cstr xs s \<Longrightarrow> strlen s = Some (of_nat (length xs))"
  by (simp add: strlen_def strlen_from_cstr)

lemma strlen_None: "0 \<notin> set s \<Longrightarrow> strlen s = None"
proof -
  have "0 \<notin> set s \<Longrightarrow> strlen_from s n = None" for n by (induction s arbitrary: n) auto
  then show "0 \<notin> set s \<Longrightarrow> strlen s = None" by (simp add: strlen_def)
qed

lemma strcpy_cstr:
  "is_cstr xs s \<Longrightarrow>
     strcpy d s = (if length xs < length d then Some (xs @ 0 # drop (Suc (length xs)) d) else None)"
proof (induction xs arbitrary: d s)
  case Nil
  then show ?case by (cases d) (auto simp: is_cstr_Nil)
next
  case (Cons x xs)
  then show ?case by (cases d) (auto simp: is_cstr_Cons)
qed

lemma strncpy_cstr:
  "is_cstr xs s \<Longrightarrow>
     strncpy d s n = (if length (take n xs) < length d
       then Some (take n xs @ 0 # drop (Suc (length (take n xs))) d) else None)"
proof (induction xs arbitrary: d s n)
  case Nil
  then show ?case by (cases d) (auto simp: is_cstr_Nil)
next
  case (Cons x xs)
  then show ?case by (cases d; cases n) (auto simp: is_cstr_Cons)
qed

lemma strcat_cstr:
  assumes "is_cstr xs d" "is_cstr ys s" "length d < 2 ^ 32"
  shows "strcat d s = (if length xs + length ys < length d
    then Some (xs @ ys @ 0 # drop (length xs + length ys + 1) d) else None)"
proof -
  obtain r where d: "d = xs @ 0 # r" using assms(1) by (auto simp: is_cstr_def)
  then have u: "unat (of_nat (length xs) :: u32) = length xs"
    using assms(3) by (intro unat_of_nat_eq) simp
  have "drop (length xs + length ys + 1) d = drop (Suc (length ys)) (0 # r)"
    by (simp add: d)
  then show ?thesis
    using strcpy_cstr [OF assms(2), of "0 # r"]
    by (simp add: strcat_def strlen_cstr [OF assms(1)] u) (auto simp: d)
qed

text \<open>Signed comparison of characters, extended to strings with the shorter one first.\<close>

fun cstr_order :: "buf \<Rightarrow> buf \<Rightarrow> int" where
  "cstr_order [] [] = 0"
| "cstr_order [] (y # ys) = (if 0 <s y then - 1 else 1)"
| "cstr_order (x # xs) [] = (if x <s 0 then - 1 else 1)"
| "cstr_order (x # xs) (y # ys) = (if x <s y then - 1 else if y <s x then 1 else cstr_order xs ys)"

lemma strcmp_cstr: "is_cstr xs s \<Longrightarrow> is_cstr ys t \<Longrightarrow> strcmp s t = Some (cstr_order xs ys)"
proof (induction xs ys arbitrary: s t rule: cstr_order.induct)
  case (2 y ys)
  then show ?case by (auto simp: is_cstr_Nil is_cstr_Cons word_sless_alt not_less signed_eq_0_iff
      dest: order_antisym)
next
  case (3 x xs)
  then show ?case by (auto simp: is_cstr_Nil is_cstr_Cons word_sless_alt not_less signed_eq_0_iff
      dest: order_antisym)
qed (auto simp: is_cstr_Nil is_cstr_Cons word_sless_alt)

lemma cstr_order_eq: "0 \<notin> set xs \<Longrightarrow> 0 \<notin> set ys \<Longrightarrow> cstr_order xs ys = 0 \<longleftrightarrow> xs = ys"
  by (induction xs ys rule: cstr_order.induct) (auto simp: word_sless_alt signed_word_eqI)

lemma cstr_order_antisym: "0 \<notin> set xs \<Longrightarrow> 0 \<notin> set ys \<Longrightarrow> cstr_order ys xs = - cstr_order xs ys"
  by (induction xs ys rule: cstr_order.induct) (auto simp: word_sless_alt signed_word_eqI)

text \<open>Reversing swaps the ends of the part between the counters.\<close>

lemma strrev_loop_eq:
  assumes "length (pre @ mid @ post) < 2 ^ 31" "mid \<noteq> [] \<or> pre \<noteq> []"
  shows "strrev_loop (pre @ mid @ post) (of_nat (length pre)) (of_nat (length pre + length mid) - 1) =
    Some (pre @ rev mid @ post)"
  using assms
proof (induction "length mid" arbitrary: pre mid post rule: less_induct)
  case less
  let ?p = "length pre" and ?s = "of_nat (length pre) :: u32"
    and ?e = "of_nat (length pre + length mid) - 1 :: u32"
  have us: "unat ?s = ?p" using less.prems by (intro unat_of_nat_eq) simp
  have "(of_nat (?p + length mid) - 1 :: u32) = of_nat (?p + length mid - 1)"
    using less.prems(2) by (cases "?p + length mid") auto
  moreover have "unat (of_nat (?p + length mid - 1) :: u32) = ?p + length mid - 1"
    using less.prems(1) by (intro unat_of_nat_eq) simp
  ultimately have ue: "unat ?e = ?p + length mid - 1" by simp
  show ?case
  proof (cases "length mid < 2")
    case True
    then have "\<not> ?s < ?e" "rev mid = mid" using us ue
      by (auto simp: word_less_nat_alt less_2_cases_iff length_Suc_conv)
    then show ?thesis by (subst strrev_loop.simps) (simp only: if_False)
  next
    case False
    then obtain x m y where mid: "mid = x # m @ [y]"
      by (metis append_butlast_last_id length_Cons less_2_cases_iff list.exhaust list.size(3) not_less_eq_eq One_nat_def not_less not_less0)
    have lt: "?s < ?e" using False us ue by (simp add: word_less_nat_alt)
    have nth: "(pre @ mid @ post) ! unat ?s = x" "(pre @ mid @ post) ! unat ?e = y"
      unfolding us ue by (simp_all add: mid nth_append)
    have upd: "(pre @ mid @ post)[unat ?s := y, unat ?e := x] = (pre @ [y]) @ m @ (x # post)"
      unfolding us ue by (simp add: mid list_update_append)
    have len: "unat ?s < length (pre @ mid @ post)" "unat ?e < length (pre @ mid @ post)"
      unfolding us ue by (simp_all add: mid)
    have cnt: "?s + 1 = of_nat (length (pre @ [y]))"
      "?e - 1 = of_nat (length (pre @ [y]) + length m) - 1"
      by (simp_all add: mid)
    have "strrev_loop ((pre @ [y]) @ m @ (x # post)) (?s + 1) (?e - 1) =
        Some ((pre @ [y]) @ rev m @ (x # post))"
      unfolding cnt by (rule less.hyps) (use less.prems in \<open>simp_all add: mid\<close>)
    then show ?thesis
      unfolding strrev_loop.simps [of _ ?s ?e] nth upd using lt len by (simp add: mid)
  qed
qed

lemma strrev_cstr:
  assumes "is_cstr xs s" "xs \<noteq> []" "length s < 2 ^ 31"
  shows "strrev s = Some (rev xs @ drop (length xs) s)"
proof -
  obtain r where s: "s = xs @ 0 # r" using assms(1) by (auto simp: is_cstr_def)
  show ?thesis
    using strrev_loop_eq [of "[]" xs "0 # r"] assms by (simp add: strrev_def strlen_cstr s)
qed

text \<open>On the empty string the second counter starts at \<open>2 ^ 32 - 1\<close>, outside every buffer.\<close>

lemma strrev_empty: "length s < 2 ^ 32 - 1 \<Longrightarrow> is_cstr [] s \<Longrightarrow> strrev s = None"
proof -
  assume s: "length s < 2 ^ 32 - 1" "is_cstr [] s"
  have m: "unat (- 1 :: u32) = 2 ^ 32 - 1" by (simp add: unsigned_minus_1_eq_mask mask_eq_exp_minus_1)
  have "strrev_loop s 0 (- 1) = None"
    unfolding strrev_loop.simps [of s 0] using s(1) by (simp add: m word_less_nat_alt)
  then show ?thesis using s(2) by (simp add: strrev_def strlen_cstr)
qed

section \<open>Numbers\<close>

lemma unat_of_nat_inv: "of_nat (unat f) = (f :: 'a::len word)"
  by simp

definition is_digit :: "u8 \<Rightarrow> bool" where
  "is_digit c \<longleftrightarrow> 48 \<le> c \<and> c \<le> 57"

fun dec_val :: "nat \<Rightarrow> buf \<Rightarrow> nat" where
  "dec_val v [] = v"
| "dec_val v (c # cs) = dec_val (10 * v + (unat c - 48)) cs"

lemma dec_val_split: "dec_val v cs = v * 10 ^ length cs + dec_val 0 cs"
proof (induction cs arbitrary: v)
  case (Cons c cs)
  show ?case using Cons.IH [of "10 * v + (unat c - 48)"] Cons.IH [of "unat c - 48"]
    by (simp add: algebra_simps)
qed simp

lemma dec_val_ge: "v \<le> dec_val v cs"
  by (subst dec_val_split) (simp add: trans_le_add1)

lemma sint_small:
  assumes "unat c < 128"
  shows "sint (c :: u8) = int (unat c)"
proof -
  have "int (unat c) < 128" "- 128 \<le> int (unat c)" using assms by linarith+
  then show ?thesis by (simp add: sint_uint signed_take_bit_int_eq_self)
qed

lemma digit_sint: "is_digit c \<Longrightarrow> sint c = int (unat c) \<and> 48 \<le> unat c \<and> unat c \<le> 57"
proof -
  assume "is_digit c"
  then have b: "48 \<le> unat c" "unat c \<le> 57" by (simp_all add: is_digit_def word_le_nat_alt)
  then show ?thesis by (simp add: sint_small)
qed

lemma str2int_loop_digits:
  "is_cstr cs s \<Longrightarrow> \<forall>c \<in> set cs. is_digit c \<Longrightarrow> dec_val v cs < 2 ^ 31 \<Longrightarrow>
     str2int_loop s (int v) = Some (Some (int (dec_val v cs)))"
proof (induction cs arbitrary: s v)
  case Nil
  then show ?case by (auto simp: is_cstr_Nil)
next
  case (Cons c cs)
  then obtain t where t: "s = c # t" "is_cstr cs t" "c \<noteq> 0" by (auto simp: is_cstr_Cons)
  have d: "sint c = int (unat c)" "48 \<le> unat c" "unat c \<le> 57"
    using digit_sint [of c] Cons.prems(2) by auto
  have "10 * v + (unat c - 48) < 2 ^ 31"
    using dec_val_ge [of "10 * v + (unat c - 48)" cs] Cons.prems(3) by simp
  moreover obtain e where "unat c = 48 + e" using d(2) by (metis le_Suc_ex)
  ultimately have v: "i32 (i32 (int v * 10) + (sint c - 48)) = int (10 * v + (unat c - 48))"
    unfolding d(1) by simp
  have "sint (57 :: u8) = 57" "sint (48 :: u8) = 48" by simp_all
  then have "\<not> 57 <s c" "\<not> c <s 48" unfolding word_sless_alt using d by linarith+
  then show ?case using Cons.IH [OF t(2), of "10 * v + (unat c - 48)"] Cons.prems t
    by (simp add: v)
qed

lemma uint_digits_spec:
  "unat f = 10 ^ k \<Longrightarrow> unat u < 10 * 10 ^ k \<Longrightarrow>
     length (uint_digits u f) = Suc k \<and> (\<forall>c \<in> set (uint_digits u f). is_digit c) \<and>
     dec_val 0 (uint_digits u f) = unat u \<and> unat (hd (uint_digits u f)) = 48 + unat u div 10 ^ k"
proof (induction k arbitrary: u f)
  case 0
  then have f: "f = 1" by (metis power_0 unat_of_nat_inv of_nat_1)
  then have z: "uint_digits (u mod f) (f div 10) = []" by (simp add: uint_digits.simps)
  have lt: "unat u < 10" using 0 by simp
  have "unat (ucast (48 + u) :: u8) = 48 + unat u"
    using lt by (simp add: unsigned_ucast_eq unat_word_ariths take_bit_nat_eq_self)
  then show ?case using z lt unfolding uint_digits.simps [of u f]
    by (simp add: f is_digit_def word_le_nat_alt)
next
  case (Suc k)
  have f0: "0 < f" using Suc.prems(1) by (metis nat_zero_less_power_iff unat_gt_0 word_gt_0 zero_less_numeral)
  have fd: "unat (f div 10) = 10 ^ k" using Suc.prems(1) by (simp add: unat_div)
  have um: "unat (u mod f) = unat u mod 10 ^ Suc k" using Suc.prems(1) by (simp add: unat_mod)
  then have "unat (u mod f) < 10 * 10 ^ k" by simp
  note IH = Suc.IH [OF fd this]
  have d: "unat (u div f) = unat u div 10 ^ Suc k" using Suc.prems(1) by (simp add: unat_div)
  have lt: "unat u div 10 ^ Suc k < 10"
    using Suc.prems(2) by (metis less_mult_imp_div_less mult.commute power_Suc)
  have c: "unat (ucast (48 + u div f) :: u8) = 48 + unat u div 10 ^ Suc k"
    using lt d by (simp add: unsigned_ucast_eq unat_word_ariths take_bit_nat_eq_self)
  have val: "dec_val (unat u div 10 ^ Suc k) (uint_digits (u mod f) (f div 10)) = unat u"
    using IH um by (subst dec_val_split) (simp add: div_mult_mod_eq)
  show ?case
    using IH val c lt unfolding uint_digits.simps [of u f]
    by (simp add: f0 is_digit_def word_le_nat_alt)
qed

lemma uint_scale_spec:
  assumes "unat u < 1410065408" "k \<le> 9" "unat f = 10 ^ k" "10 ^ k \<le> max 1 (unat u)"
  shows "\<exists>g j. uint_scale u f = Some g \<and> unat g = 10 ^ j \<and> 10 ^ j \<le> max 1 (unat u) \<and>
    unat u < 10 * 10 ^ j"
  using assms(2-4)
proof (induction "9 - k" arbitrary: k f)
  case 0
  then have k: "k = 9" by simp
  have f: "f = of_nat (10 ^ 9)" using 0 k by (metis unat_of_nat_inv)
  have f10: "f * 10 = 1410065408" unfolding f by simp
  have "unat (u div 1410065408) = 0" using assms(1) by (simp add: unat_div)
  then have "u div (f * 10) = 0" unfolding f10 by (simp add: unat_eq_0)
  then have "uint_scale u f = Some f" by (subst uint_scale.simps) (simp add: f10)
  then show ?case using 0 k assms(1) by (intro exI [of _ f] exI [of _ k]) simp
next
  case (Suc m)
  then have k: "Suc k \<le> 9" by simp
  have "(10 :: nat) ^ Suc k \<le> 10 ^ 9" using k by (rule power_increasing) simp
  then have f: "unat (f * 10) = 10 ^ Suc k" using Suc.prems by (simp add: unat_word_ariths)
  then have nz: "f * 10 \<noteq> 0" by (metis power_not_zero unat_0 zero_neq_numeral)
  have pos: "0 < u div (f * 10) \<longleftrightarrow> 10 ^ Suc k \<le> unat u"
    by (simp add: word_less_nat_alt unat_div f div_greater_zero_iff)
  show ?case
  proof (cases "10 ^ Suc k \<le> unat u")
    case True
    with Suc.hyps(1) [of "Suc k" "f * 10"] Suc.hyps(2) k f show ?thesis
      by (subst uint_scale.simps) (simp add: nz pos)
  next
    case False
    then show ?thesis using Suc.prems by (subst uint_scale.simps) (auto simp: nz pos)
  qed
qed

lemma uint_to_string_spec:
  assumes "unat u < 1410065408"
  obtains cs where "uint_to_string u = Some (cs @ [0])" "\<forall>c \<in> set cs. is_digit c" "dec_val 0 cs = unat u"
    "cs \<noteq> []" "hd cs = 48 \<longrightarrow> length cs = 1"
proof -
  obtain g j where g: "uint_scale u 1 = Some g" "unat g = 10 ^ j" "10 ^ j \<le> max 1 (unat u)"
    "unat u < 10 * 10 ^ j"
    using uint_scale_spec [OF assms, of 0 1] by auto
  note d = uint_digits_spec [OF g(2,4)]
  have "j = 0" if "unat u div 10 ^ j = 0"
  proof (rule ccontr)
    assume "j \<noteq> 0"
    then have "(1 :: nat) < 10 ^ j" using one_less_power [of "10 :: nat" j] by simp
    with that g(3) show False by (auto simp: div_eq_0_iff max_def split: if_splits)
  qed
  then have "length (uint_digits u g) = 1" if "hd (uint_digits u g) = 48"
    using d that by auto
  with d show ?thesis
    by (intro that [of "uint_digits u g"]) (auto simp: uint_to_string_def g(1))
qed

section \<open>Splitting into words\<close>

text \<open>\<open>strtok_words\<close> is the loop of the callers: the first call passes the string, every later
  one null, until a call returns null.\<close>

fun strtok_words :: "nat \<Rightarrow> buf option \<Rightarrow> buf \<Rightarrow> buf option \<Rightarrow> buf list option" where
  "strtok_words 0 s delim oldword = None"
| "strtok_words (Suc n) s delim oldword = do {
     (word, oldword) \<leftarrow> strtok s delim oldword;
     (case word of None \<Rightarrow> Some []
      | Some w \<Rightarrow> map_option ((#) w) (strtok_words n None delim oldword))
   }"

text \<open>The words of a string: the maximal blocks of characters that are not delimiters.\<close>

fun words :: "u8 set \<Rightarrow> buf \<Rightarrow> buf \<Rightarrow> buf list" where
  "words D w [] = (if w = [] then [] else [w])"
| "words D w (c # cs) =
     (if c \<in> D then (if w = [] then words D [] cs else w # words D [] cs) else words D (w @ [c]) cs)"

lemma strchr_cstr: "is_cstr ds delim \<Longrightarrow> c \<noteq> 0 \<Longrightarrow> \<exists>p. strchr delim c = Some p \<and> (p = None \<longleftrightarrow> c \<notin> set ds)"
  by (induction ds arbitrary: delim) (auto simp: is_cstr_Nil is_cstr_Cons)

lemma strtok_skip_cstr:
  assumes "is_cstr ds delim" "is_cstr xs s"
  shows "\<exists>t. strtok_skip s delim = Some t \<and> is_cstr (dropWhile (\<lambda>c. c \<in> set ds) xs) t"
  using assms(2)
proof (induction xs arbitrary: s)
  case Nil
  then show ?case by (auto simp: is_cstr_Nil)
next
  case (Cons c cs)
  then obtain t where t: "s = c # t" "c \<noteq> 0" "is_cstr cs t" by (auto simp: is_cstr_Cons)
  obtain p where "strchr delim c = Some p" "p = None \<longleftrightarrow> c \<notin> set ds"
    using strchr_cstr [OF assms(1) t(2)] by blast
  with t Cons.IH [OF t(3)] Cons.prems show ?case by auto
qed

lemma strtok_word_cstr:
  assumes "is_cstr ds delim" "is_cstr xs s"
  shows "\<exists>t. strtok_word s delim = Some (takeWhile (\<lambda>c. c \<notin> set ds) xs, t) \<and>
    is_cstr (dropWhile (\<lambda>c. c \<notin> set ds) xs) t"
  using assms(2)
proof (induction xs arbitrary: s)
  case Nil
  then show ?case by (auto simp: is_cstr_Nil)
next
  case (Cons c cs)
  then obtain t where t: "s = c # t" "c \<noteq> 0" "is_cstr cs t" by (auto simp: is_cstr_Cons)
  obtain p where "strchr delim c = Some p" "p = None \<longleftrightarrow> c \<notin> set ds"
    using strchr_cstr [OF assms(1) t(2)] by blast
  with t Cons.IH [OF t(3)] Cons.prems show ?case by auto
qed

lemma words_skip: "words D [] xs = words D [] (dropWhile (\<lambda>c. c \<in> D) xs)"
  by (induction xs) auto

lemma words_take:
  "words D w xs = (if w @ takeWhile (\<lambda>c. c \<notin> D) xs = [] then words D [] xs
     else (w @ takeWhile (\<lambda>c. c \<notin> D) xs) # words D [] (dropWhile (\<lambda>c. c \<notin> D) xs))"
  by (induction xs arbitrary: w) auto

text \<open>One call: it returns the first word, and leaves the string from which the next call
  continues.\<close>

lemma strtok_step:
  assumes "is_cstr ds delim" "is_cstr xs s" "(case s0 of None \<Rightarrow> oldword | Some s \<Rightarrow> Some s) = Some s"
  obtains
    (none) old where "words (set ds) [] xs = []" "strtok s0 delim oldword = Some (None, old)"
  | (word) w ws rest ys t where "words (set ds) [] xs = w # ws" "ws = words (set ds) [] ys"
      "strtok s0 delim oldword = Some (Some (w @ 0 # rest), Some t)" "is_cstr ys t"
      "length ys < length xs" "0 \<notin> set w"
proof -
  let ?xs = "dropWhile (\<lambda>c. c \<in> set ds) xs"
  obtain t where t: "strtok_skip s delim = Some t" "is_cstr ?xs t"
    using strtok_skip_cstr [OF assms(1,2)] by blast
  show ?thesis
  proof (cases ?xs)
    case Nil
    then have "hd t = 0" using t(2) unfolding Nil by (auto simp: is_cstr_Nil)
    moreover have "words (set ds) [] xs = []" using words_skip [of "set ds" xs] unfolding Nil by simp
    ultimately show ?thesis using t assms(3)
      by (intro none [of "Some t"]) (auto simp: strtok_def)
  next
    case (Cons c cs)
    have hd: "hd t \<noteq> 0" using t(2) unfolding Cons by (auto simp: is_cstr_Cons)
    have nd: "c \<notin> set ds" using Cons by (auto simp: dropWhile_eq_Cons_conv)
    define w where "w = takeWhile (\<lambda>c. c \<notin> set ds) ?xs"
    define rem where "rem = dropWhile (\<lambda>c. c \<notin> set ds) ?xs"
    obtain u where u: "strtok_word t delim = Some (w, u)" "is_cstr rem u"
      using strtok_word_cstr [OF assms(1) t(2)] unfolding w_def rem_def by blast
    have w: "w \<noteq> []" using Cons nd by (simp add: w_def)
    have ws: "words (set ds) [] xs = w # words (set ds) [] rem"
      using words_skip [of "set ds" xs] words_take [of "set ds" "[]" ?xs] w by (simp add: w_def rem_def)
    have nz: "0 \<notin> set w"
      using assms(2) set_takeWhileD set_dropWhileD unfolding is_cstr_def w_def by metis
    have len: "length rem < length xs"
      using Cons nd length_dropWhile_le [of "\<lambda>c. c \<in> set ds" xs]
        length_dropWhile_le [of "\<lambda>c. c \<notin> set ds" cs] by (simp add: rem_def)
    have call: "strtok s0 delim oldword =
        (if hd u \<noteq> 0 then Some (Some (w @ [0]), Some (tl u)) else Some (Some (w @ u), Some u))"
      by (simp add: strtok_def assms(3) t(1) hd u(1))
    show ?thesis
    proof (cases rem)
      case Nil
      then obtain r where r: "u = 0 # r" using u(2) by (auto simp: is_cstr_Nil)
      show ?thesis by (rule word [OF ws refl _ u(2) len nz, of r]) (simp add: call r)
    next
      case (Cons y ys)
      then obtain r where r: "u = y # r" "y \<noteq> 0" "is_cstr ys r" using u(2) by (auto simp: is_cstr_Cons)
      have y: "y \<in> set ds" using Cons by (auto simp: rem_def dropWhile_eq_Cons_conv)
      have wy: "words (set ds) [] rem = words (set ds) [] ys" unfolding Cons using y by simp
      show ?thesis by (rule word [OF ws wy _ r(3) _ nz, of "[]"]) (use len Cons in \<open>simp_all add: call r\<close>)
    qed
  qed
qed

lemma strtok_words_spec:
  assumes "is_cstr ds delim" "is_cstr xs s" "(case s0 of None \<Rightarrow> oldword | Some s \<Rightarrow> Some s) = Some s"
    "length xs < n"
  shows "\<exists>ws. strtok_words n s0 delim oldword = Some ws \<and>
    map (takeWhile (\<lambda>c. c \<noteq> 0)) ws = words (set ds) [] xs"
  using assms(2-)
proof (induction n arbitrary: xs s s0 oldword)
  case (Suc n)
  show ?case
  proof (rule strtok_step [OF assms(1) Suc.prems(1,2)])
    fix w ws rest ys t
    assume st: "words (set ds) [] xs = w # ws" "ws = words (set ds) [] ys"
      "strtok s0 delim oldword = Some (Some (w @ 0 # rest), Some t)" "is_cstr ys t"
      "length ys < length xs" "0 \<notin> set w"
    have "length ys < n" using st(5) Suc.prems(3) by simp
    have "(case None of None \<Rightarrow> Some t | Some s \<Rightarrow> Some s) = Some t" by simp
    from Suc.IH [OF st(4) this \<open>length ys < n\<close>] obtain vs where
      "strtok_words n None delim (Some t) = Some vs" "map (takeWhile (\<lambda>c. c \<noteq> 0)) vs = ws"
      using st(2) by auto
    moreover have "takeWhile (\<lambda>c. c \<noteq> 0) (w @ 0 # rest) = w"
      using st(6) by (auto simp: takeWhile_append2 takeWhile_tail)
    ultimately show ?thesis using st(1,3) by simp
  qed simp
qed simp

section \<open>Properties\<close>

text \<open>On C strings the routines compute what their names promise: \<^verbatim>\<open>strlen\<close> the
  length, \<^verbatim>\<open>strcpy\<close> and \<^verbatim>\<open>strcat\<close> the copy and the concatenation exactly when the destination
  has room for them with the final zero, and \<^verbatim>\<open>strcmp\<close> returns 0 exactly on equal strings.\<close>

theorem string_routines_correct:
  assumes "is_cstr xs d" "is_cstr ys s" "length d < 2 ^ 32"
  shows "strlen d = Some (of_nat (length xs)) \<and>
    strcpy d s = (if length ys < length d then Some (ys @ 0 # drop (Suc (length ys)) d) else None) \<and>
    strcat d s = (if length xs + length ys < length d
      then Some (xs @ ys @ 0 # drop (length xs + length ys + 1) d) else None) \<and>
    (\<exists>r. strcmp d s = Some r \<and> strcmp s d = Some (- r) \<and> (r = 0 \<longleftrightarrow> xs = ys))"
proof -
  have z: "0 \<notin> set xs" "0 \<notin> set ys" using assms(1,2) by (auto simp: is_cstr_def)
  show ?thesis
    using strlen_cstr [OF assms(1)] strcpy_cstr [OF assms(2), of d] strcat_cstr [OF assms]
      strcmp_cstr [OF assms(1,2)] strcmp_cstr [OF assms(2,1)] cstr_order_eq [OF z]
      cstr_order_antisym [OF z]
    by simp
qed

theorem string_routines_correct_witness:
  "strcat [97, 98, 0, 7, 7, 7] [99, 0] = Some [97, 98, 99, 0, 7, 7] \<and> strcat [97, 0] [99, 0] = None"
proof -
  have "is_cstr [97, 98] [97, 98, 0, 7, 7, 7]" "is_cstr [99] [99, 0]" "is_cstr [97] [97, 0]"
    by (simp_all add: is_cstr_def)
  then show ?thesis
    using string_routines_correct [of "[97, 98]" "[97, 98, 0, 7, 7, 7]" "[99]" "[99, 0]"]
      string_routines_correct [of "[97]" "[97, 0]" "[99]" "[99, 0]"] by simp
qed

text \<open>The loop of \<^verbatim>\<open>strtok\<close> calls returns exactly the words of the string, in order,
  and ends: the words are the maximal blocks of characters outside the delimiters.\<close>

theorem strtok_splits_words:
  assumes "is_cstr ds delim" "is_cstr xs s" "length xs < n"
  shows "\<exists>ws. strtok_words n (Some s) delim oldword = Some ws \<and>
    map (takeWhile (\<lambda>c. c \<noteq> 0)) ws = words (set ds) [] xs"
  by (rule strtok_words_spec [OF assms(1,2) _ assms(3)]) simp

theorem strtok_splits_words_witness:
  "\<exists>ws. strtok_words 9 (Some [47, 98, 105, 47, 47, 99, 0]) [47, 0] None = Some ws \<and>
     map (takeWhile (\<lambda>c. c \<noteq> 0)) ws = [[98, 105], [99]]"
proof -
  have "is_cstr [47] [47, 0]" "is_cstr [47, 98, 105, 47, 47, 99] [47, 98, 105, 47, 47, 99, 0]"
    by (simp_all add: is_cstr_def)
  from strtok_splits_words [OF this, of 9 None] show ?thesis by simp
qed

text \<open>\<^verbatim>\<open>uint_to_string\<close> writes the decimal numeral of its argument, without leading
  zeros, and \<^verbatim>\<open>str2int\<close> reads it back; this holds for arguments below 1410065408 only.  Above,
  the scale \<^verbatim>\<open>f * 10\<close> wraps around: the string for 1500000000 is not its numeral, and the
  largest argument makes the routine divide by zero.\<close>

theorem uint_to_string_correct:
  "(\<forall>u. unat u < 1410065408 \<longrightarrow>
      (\<exists>cs. uint_to_string u = Some (cs @ [0]) \<and> (\<forall>c \<in> set cs. is_digit c) \<and> dec_val 0 cs = unat u \<and>
         (hd cs = 48 \<longrightarrow> length cs = 1) \<and> str2int (cs @ [0]) = Some (Some (int (unat u))))) \<and>
   uint_to_string 1500000000 \<noteq> Some [49, 53, 48, 48, 48, 48, 48, 48, 48, 48, 0] \<and>
   uint_to_string 0xffffffff = None"
proof (intro conjI allI impI)
  fix u :: u32
  assume u: "unat u < 1410065408"
  then obtain cs where cs: "uint_to_string u = Some (cs @ [0])" "\<forall>c \<in> set cs. is_digit c"
    "dec_val 0 cs = unat u" "cs \<noteq> []" "hd cs = 48 \<longrightarrow> length cs = 1"
    by (rule uint_to_string_spec)
  have "is_cstr cs (cs @ [0])" using cs(2) by (auto simp: is_cstr_def is_digit_def)
  then have "str2int (cs @ [0]) = Some (Some (int (unat u)))"
    using str2int_loop_digits [of cs "cs @ [0]" 0] cs(2,3) u by (simp add: str2int_def)
  with cs show "\<exists>cs. uint_to_string u = Some (cs @ [0]) \<and> (\<forall>c \<in> set cs. is_digit c) \<and>
      dec_val 0 cs = unat u \<and> (hd cs = 48 \<longrightarrow> length cs = 1) \<and>
      str2int (cs @ [0]) = Some (Some (int (unat u)))"
    by blast
next
  show "uint_to_string 1500000000 \<noteq> Some [49, 53, 48, 48, 48, 48, 48, 48, 48, 48, 0]"
    by (simp add: uint_to_string_def uint_scale.simps uint_digits.simps)
  show "uint_to_string 0xffffffff = None"
    by (simp add: uint_to_string_def uint_scale.simps)
qed

theorem uint_to_string_correct_witness:
  "\<exists>cs. uint_to_string 42 = Some (cs @ [0]) \<and> str2int (cs @ [0]) = Some (Some 42)"
  using uint_to_string_correct [THEN conjunct1, rule_format, of 42] by auto

end
