(* ===== verification/Kprintf.thy ===== *)
theory Kprintf
  imports Kstring
begin

text \<open>
  Formatted output, \<^verbatim>\<open>kernel/printf.c\<close>.  The characters sent to the console are the result;
  a variable argument is a machine word or a string, and reading an argument that is missing or
  of the wrong kind is \<open>None\<close>, as is a format string that is not ended.
\<close>

section \<open>Numbers\<close>

definition printf_puthexdigit :: "u8 \<Rightarrow> buf" where
  "printf_puthexdigit i = (if i < 10 then [48 + i] else [97 + i - 10])"

fun printf_puthex_loop :: "nat list \<Rightarrow> u32 \<Rightarrow> buf" where
  "printf_puthex_loop [] i = []"
| "printf_puthex_loop (j # js) i =
     printf_puthexdigit (ucast (drop_bit j i AND 0x0f)) @ printf_puthex_loop js i"

definition printf_puthex :: "u32 \<Rightarrow> buf" where
  "printf_puthex i = printf_puthex_loop [28, 24, 20, 16, 12, 8, 4, 0] i"

partial_function (option) putint_scale :: "int \<Rightarrow> int \<Rightarrow> int option" where
  "putint_scale i f =
     (if f = 0 then None else if 10 \<le> c_div i f then putint_scale i (i32 (f * 10)) else Some f)"

function putint_digits :: "int \<Rightarrow> int \<Rightarrow> buf" where
  "putint_digits i f =
     (if 0 < f then
        word_of_int (48 + c_div i f) #
          putint_digits (i32 (i - i32 (c_div i f * f))) (c_div f 10)
      else [])"
  by pat_completeness auto
termination by (relation "measure (\<lambda>(i, f). nat f)") auto

declare putint_digits.simps [simp del]

definition printf_putint :: "int \<Rightarrow> buf option" where
  "printf_putint i =
     (let j = (if i < 0 then i32 (- i) else i) in
      map_option (\<lambda>f. (if i < 0 then [45] else []) @ putint_digits j f) (putint_scale j 1))"

partial_function (option) putuint_scale :: "u32 \<Rightarrow> int \<Rightarrow> int option" where
  "putuint_scale u f =
     (if word_of_int f = (0 :: u32) then None
      else if 10 \<le> u div word_of_int f then putuint_scale u (i32 (f * 10)) else Some f)"

function putuint_digits :: "u32 \<Rightarrow> int \<Rightarrow> buf" where
  "putuint_digits u f =
     (if 0 < f then
        word_of_int (48 + sint (u div word_of_int f)) #
          putuint_digits (u - word_of_int (i32 (sint (u div word_of_int f) * f))) (c_div f 10)
      else [])"
  by pat_completeness auto
termination by (relation "measure (\<lambda>(u, f). nat f)") auto

declare putuint_digits.simps [simp del]

definition printf_putuint :: "u32 \<Rightarrow> buf option" where
  "printf_putuint u = map_option (putuint_digits u) (putuint_scale u 1)"

section \<open>The format string\<close>

datatype varg = Word u32 | Str buf

definition arg_word :: "varg list \<Rightarrow> (u32 \<times> varg list) option" where
  "arg_word as = (case as of Word w # as \<Rightarrow> Some (w, as) | _ \<Rightarrow> None)"

definition arg_str :: "varg list \<Rightarrow> (buf \<times> varg list) option" where
  "arg_str as = (case as of Str s # as \<Rightarrow> Some (s, as) | _ \<Rightarrow> None)"

definition printf_putstring :: "buf \<Rightarrow> buf option" where
  "printf_putstring s = (if 0 \<in> set s then Some (takeWhile (\<lambda>c. c \<noteq> 0) s) else None)"

fun printf :: "buf \<Rightarrow> varg list \<Rightarrow> buf option" where
  "printf [] args = None"
| "printf (c # s) args =
     (if c = 0 then Some []
      else if c \<noteq> 37 then map_option ((#) c) (printf s args)
      else (case s of
          [] \<Rightarrow> None
        | k # s \<Rightarrow>
            if k = 100 then do {
              (w, args) \<leftarrow> arg_word args;
              out \<leftarrow> printf_putint (sint w); map_option ((@) out) (printf s args) }
            else if k = 117 then do {
              (w, args) \<leftarrow> arg_word args;
              out \<leftarrow> printf_putuint w; map_option ((@) out) (printf s args) }
            else if k = 120 then do {
              (w, args) \<leftarrow> arg_word args;
              map_option ((@) (printf_puthex w)) (printf s args) }
            else if k = 115 then do {
              (str, args) \<leftarrow> arg_str args;
              out \<leftarrow> printf_putstring str; map_option ((@) out) (printf s args) }
            else if k = 99 then do {
              (w, args) \<leftarrow> arg_word args;
              map_option ((#) (ucast w)) (printf s args) }
            else if k = 0 then Some []
            else map_option ((#) k) (printf s args)))"

section \<open>The digits printed\<close>

text \<open>\<open>is_numeral cs n\<close>: the characters are the decimal numeral of \<open>n\<close>, without leading zeros.\<close>

definition is_numeral :: "buf \<Rightarrow> nat \<Rightarrow> bool" where
  "is_numeral cs n \<longleftrightarrow> cs \<noteq> [] \<and> (\<forall>c \<in> set cs. is_digit c) \<and> dec_val 0 cs = n \<and>
     (hd cs = 48 \<longrightarrow> length cs = 1)"

lemma uint_digits_numeral:
  assumes "unat f = 10 ^ j" "10 ^ j \<le> max 1 (unat u)" "unat u < 10 * 10 ^ j"
  shows "is_numeral (uint_digits u f) (unat u)"
proof -
  note d = uint_digits_spec [OF assms(1,3)]
  have "j = 0" if "unat u div 10 ^ j = 0"
  proof (rule ccontr)
    assume "j \<noteq> 0"
    then have "(1 :: nat) < 10 ^ j" using one_less_power [of "10 :: nat" j] by simp
    with that assms(2) show False by (auto simp: div_eq_0_iff max_def split: if_splits)
  qed
  then have "length (uint_digits u f) = 1" if "hd (uint_digits u f) = 48"
    using d that by auto
  then show ?thesis using d by (auto simp: is_numeral_def)
qed

lemma c_div_int: "c_div (int a) (int b) = int (a div b)"
  by (cases "a = 0"; cases "b = 0") (simp_all add: c_div_def zdiv_int)

text \<open>Both loops compute what the loop of \<^verbatim>\<open>uint_to_string\<close> computes from a good scale.\<close>

lemma unat_word_of_int_power: "k \<le> 9 \<Longrightarrow> unat (word_of_int (10 ^ k) :: u32) = 10 ^ k"
proof -
  assume "k \<le> 9"
  then have "(10 :: nat) ^ k \<le> 10 ^ 9" by (rule power_increasing) simp
  then have "unat (of_nat (10 ^ k) :: u32) = 10 ^ k" by (intro unat_of_nat_eq) simp
  then show ?thesis by simp
qed

lemma sint_small32:
  assumes "unat w < 2 ^ 31"
  shows "sint (w :: u32) = int (unat w)"
proof -
  have "int (unat w) < 2147483648" "- 2147483648 \<le> int (unat w)"
    using assms by (simp_all only: of_nat_less_iff [where 'a = int, symmetric]) simp_all
  then show ?thesis by (simp add: sint_uint signed_take_bit_int_eq_self)
qed

lemma digit_char:
  assumes "unat d < 10"
  shows "(word_of_int (48 + int (unat d)) :: u8) = ucast (48 + d :: u32)"
proof -
  have "unat (48 + d) = 48 + unat d" using assms by (simp add: unat_word_ariths)
  then have "(ucast (48 + d) :: u8) = of_nat (48 + unat d)" by (metis of_nat_unat)
  then show ?thesis by simp
qed

text \<open>\<open>is_scale f k\<close>: the signed and the unsigned scale of the two loops are both \<open>10 ^ k\<close>.\<close>

lemma putuint_digits_eq:
  "k \<le> 9 \<Longrightarrow> unat u < 10 * 10 ^ k \<Longrightarrow>
     putuint_digits u (10 ^ k) = uint_digits u (word_of_int (10 ^ k))"
proof (induction k arbitrary: u)
  case 0
  have "sint u = int (unat u)" using 0 by (intro sint_small32) simp
  then show ?case using 0 digit_char [of u]
    by (simp add: putuint_digits.simps [of _ 1] putuint_digits.simps [of _ 0] uint_digits.simps [of _ 1]
        uint_digits.simps [of _ 0])
next
  case (Suc k)
  let ?f = "word_of_int (10 ^ Suc k) :: u32"
  have f: "unat ?f = 10 ^ Suc k" using unat_word_of_int_power [of "Suc k"] Suc.prems(1) by simp
  have f': "word_of_int (10 ^ k) = ?f div 10"
    using unat_word_of_int_power [of k] Suc.prems(1) f by (simp add: word_unat_eq_iff unat_div)
  have d: "unat (u div ?f) < 10" using Suc.prems(2) unfolding unat_div f
    by (metis less_mult_imp_div_less mult.commute power_Suc)
  have sd: "sint (u div ?f) = int (unat (u div ?f))" using d by (intro sint_small32) simp
  have rest: "u - word_of_int (i32 (sint (u div ?f) * 10 ^ Suc k)) = u mod ?f"
    by (simp add: minus_div_mult_eq_mod del: power_Suc)
  have um: "unat (u mod ?f) < 10 * 10 ^ k" using f by (simp add: unat_mod)
  have "putuint_digits u (10 ^ Suc k) =
      word_of_int (48 + int (unat (u div ?f))) # putuint_digits (u mod ?f) (10 ^ k)"
  proof -
    have "0 < (10 :: int) ^ Suc k" "c_div (10 ^ Suc k) 10 = 10 ^ k" by simp_all
    then show ?thesis
      unfolding putuint_digits.simps [of u "10 ^ Suc k"] rest unfolding sd by (simp only: if_True)
  qed
  also have "\<dots> = ucast (48 + u div ?f) # uint_digits (u mod ?f) (?f div 10)"
    unfolding digit_char [OF d] Suc.IH [OF Suc_leD [OF Suc.prems(1)] um] f' by (rule refl)
  also have "\<dots> = uint_digits u ?f"
  proof -
    have "0 < ?f" using f by (metis power_not_zero unat_0 word_gt_0 zero_neq_numeral)
    then show ?thesis unfolding uint_digits.simps [of u ?f] by (simp only: if_True)
  qed
  finally show ?case .
qed

lemma putint_digits_eq:
  "k \<le> 9 \<Longrightarrow> n < 10 * 10 ^ k \<Longrightarrow> n < 2 ^ 31 \<Longrightarrow>
     putint_digits (int n) (10 ^ k) = uint_digits (of_nat n) (word_of_int (10 ^ k))"
proof (induction k arbitrary: n)
  case 0
  have u: "unat (of_nat n :: u32) = n" using 0 by (intro unat_of_nat_eq) simp
  show ?case using 0 digit_char [of "of_nat n"] u
    by (simp add: putint_digits.simps [of _ 1] putint_digits.simps [of _ 0] uint_digits.simps [of _ 1]
        uint_digits.simps [of _ 0])
next
  case (Suc k)
  let ?f = "word_of_int (10 ^ Suc k) :: u32" and ?u = "of_nat n :: u32"
  have f: "unat ?f = 10 ^ Suc k" using unat_word_of_int_power [of "Suc k"] Suc.prems(1) by simp
  have u: "unat ?u = n" using Suc.prems by (intro unat_of_nat_eq) simp
  have f': "word_of_int (10 ^ k) = ?f div 10"
    using unat_word_of_int_power [of k] Suc.prems(1) f by (simp add: word_unat_eq_iff unat_div)
  have d: "unat (?u div ?f) = n div 10 ^ Suc k" by (simp only: unat_div f u)
  have d10: "unat (?u div ?f) < 10" using Suc.prems(2) unfolding d
    by (metis less_mult_imp_div_less mult.commute power_Suc)
  have cd: "c_div (int n) (10 ^ Suc k) = int (n div 10 ^ Suc k)"
    using c_div_int [of n "10 ^ Suc k"] by simp
  have le: "n div 10 ^ Suc k * 10 ^ Suc k \<le> n" by simp
  have rest: "i32 (int n - i32 (int (n div 10 ^ Suc k) * 10 ^ Suc k)) = int (n mod 10 ^ Suc k)"
  proof -
    have "int (n div 10 ^ Suc k) * 10 ^ Suc k = int (n div 10 ^ Suc k * 10 ^ Suc k)" by simp
    then have "i32 (int (n div 10 ^ Suc k) * 10 ^ Suc k) = int (n div 10 ^ Suc k * 10 ^ Suc k)"
      using i32_of_nat [OF le_less_trans [OF le Suc.prems(3)]] by simp
    moreover have "int n - int (n div 10 ^ Suc k * 10 ^ Suc k) = int (n mod 10 ^ Suc k)"
      using le by (metis minus_div_mult_eq_mod of_nat_diff)
    moreover have "n mod 10 ^ Suc k < 2 ^ 31" using Suc.prems(3) mod_less_eq_dividend le_less_trans by blast
    ultimately show ?thesis by simp
  qed
  have um: "n mod 10 ^ Suc k < 10 * 10 ^ k" "n mod 10 ^ Suc k < 2 ^ 31"
    using Suc.prems(3) by (simp, meson mod_less_eq_dividend le_less_trans)
  have "unat (of_nat (n mod 10 ^ Suc k) :: u32) = n mod 10 ^ Suc k"
    using um(2) by (intro unat_of_nat_eq) simp
  then have m: "?u mod ?f = of_nat (n mod 10 ^ Suc k)"
    unfolding word_unat_eq_iff unat_mod f u by (rule sym)
  have "putint_digits (int n) (10 ^ Suc k) =
      word_of_int (48 + int (unat (?u div ?f))) # putint_digits (int (n mod 10 ^ Suc k)) (10 ^ k)"
  proof -
    have "0 < (10 :: int) ^ Suc k" "c_div (10 ^ Suc k) 10 = 10 ^ k" by simp_all
    then show ?thesis
      unfolding putint_digits.simps [of "int n" "10 ^ Suc k"] cd rest d by (simp only: if_True)
  qed
  also have "\<dots> = ucast (48 + ?u div ?f) # uint_digits (?u mod ?f) (?f div 10)"
    unfolding digit_char [OF d10] m Suc.IH [OF Suc_leD [OF Suc.prems(1)] um] f' by (rule refl)
  also have "\<dots> = uint_digits ?u ?f"
  proof -
    have "0 < ?f" using f by (metis power_not_zero unat_0 word_gt_0 zero_neq_numeral)
    then show ?thesis unfolding uint_digits.simps [of ?u ?f] by (simp only: if_True)
  qed
  finally show ?case .
qed

text \<open>The scales of the two loops.\<close>

lemma scale_step: "Suc k \<le> 9 \<Longrightarrow> i32 (10 ^ k * 10) = 10 ^ Suc k"
proof -
  assume "Suc k \<le> 9"
  then have "(10 :: nat) ^ Suc k \<le> 10 ^ 9" by (rule power_increasing) simp
  then have "i32 (int (10 ^ Suc k)) = int (10 ^ Suc k)" by (intro i32_of_nat) simp
  then show ?thesis by (simp add: mult.commute)
qed

lemma putint_scale_spec:
  "k \<le> 9 \<Longrightarrow> 10 ^ k \<le> max 1 n \<Longrightarrow> n < 2 ^ 31 \<Longrightarrow>
     \<exists>j \<le> 9. putint_scale (int n) (10 ^ k) = Some (10 ^ j) \<and> 10 ^ j \<le> max 1 n \<and> n < 10 * 10 ^ j"
proof (induction "9 - k" arbitrary: k)
  case 0
  then have k: "k = 9" by simp
  have "n div 1000000000 < 10" using 0 by simp
  then have "putint_scale (int n) (10 ^ k) = Some (10 ^ k)"
    using c_div_int [of n "1000000000"] by (subst putint_scale.simps) (simp add: k)
  then show ?case using 0 k by (intro exI [of _ k]) simp
next
  case (Suc m)
  have k: "Suc k \<le> 9" using Suc.hyps(2) by simp
  have cd: "c_div (int n) (10 ^ k) = int (n div 10 ^ k)" using c_div_int [of n "10 ^ k"] by simp
  have ge: "10 \<le> n div 10 ^ k \<longleftrightarrow> 10 ^ Suc k \<le> n"
    using less_eq_div_iff_mult_less_eq [of "10 ^ k" 10 n] by (simp add: mult.commute)
  note f = scale_step [OF k]
  show ?case
  proof (cases "10 ^ Suc k \<le> n")
    case True
    then have "putint_scale (int n) (10 ^ k) = putint_scale (int n) (10 ^ Suc k)"
      using ge by (subst putint_scale.simps) (simp add: cd f del: power_Suc)
    with Suc.hyps(1) [of "Suc k"] Suc.hyps(2) k True Suc.prems(3) show ?thesis by simp
  next
    case False
    then have "putint_scale (int n) (10 ^ k) = Some (10 ^ k)"
      using ge by (subst putint_scale.simps) (simp add: cd del: power_Suc)
    then show ?thesis using False Suc.prems by (intro exI [of _ k]) simp
  qed
qed

lemma putuint_scale_spec:
  "k \<le> 9 \<Longrightarrow> 10 ^ k \<le> max 1 (unat u) \<Longrightarrow>
     \<exists>j \<le> 9. putuint_scale u (10 ^ k) = Some (10 ^ j) \<and> 10 ^ j \<le> max 1 (unat u) \<and> unat u < 10 * 10 ^ j"
proof (induction "9 - k" arbitrary: k)
  case 0
  then have k: "k = 9" by simp
  have f: "unat (word_of_int (10 ^ k) :: u32) = 10 ^ k" using unat_word_of_int_power [of k] k by simp
  have lt: "unat u < 2 ^ 32" using unsigned_less [of u] by simp
  then have "unat u div 10 ^ 9 < 10" by simp
  then have "\<not> 10 \<le> u div word_of_int (10 ^ k)" by (simp add: word_le_nat_alt unat_div f k)
  moreover have "word_of_int (10 ^ k) \<noteq> (0 :: u32)" using f k by (metis power_not_zero unat_0 zero_neq_numeral)
  ultimately have "putuint_scale u (10 ^ k) = Some (10 ^ k)" by (subst putuint_scale.simps) simp
  then show ?case using 0 k lt by (intro exI [of _ k]) simp
next
  case (Suc m)
  have k: "Suc k \<le> 9" using Suc.hyps(2) by simp
  have fk: "unat (word_of_int (10 ^ k) :: u32) = 10 ^ k" using unat_word_of_int_power [of k] k by simp
  then have nz: "word_of_int (10 ^ k) \<noteq> (0 :: u32)" by (metis power_not_zero unat_0 zero_neq_numeral)
  have ge: "10 \<le> u div word_of_int (10 ^ k) \<longleftrightarrow> 10 ^ Suc k \<le> unat u"
    using less_eq_div_iff_mult_less_eq [of "10 ^ k" 10 "unat u"]
    unfolding word_le_nat_alt unat_div fk by (simp add: mult.commute)
  note f = scale_step [OF k]
  show ?case
  proof (cases "10 ^ Suc k \<le> unat u")
    case True
    then have "putuint_scale u (10 ^ k) = putuint_scale u (10 ^ Suc k)"
      unfolding putuint_scale.simps [of u "10 ^ k"] f using ge nz by (simp only: if_False if_True)
    with Suc.hyps(1) [of "Suc k"] Suc.hyps(2) k True show ?thesis by simp
  next
    case False
    then have "putuint_scale u (10 ^ k) = Some (10 ^ k)"
      unfolding putuint_scale.simps [of u "10 ^ k"] f using ge nz by (simp only: if_False if_True)
    then show ?thesis using False Suc.prems by (intro exI [of _ k]) simp
  qed
qed

lemma printf_putuint_numeral: "\<exists>cs. printf_putuint u = Some cs \<and> is_numeral cs (unat u)"
proof -
  obtain j where j: "j \<le> 9" "putuint_scale u 1 = Some (10 ^ j)" "10 ^ j \<le> max 1 (unat u)"
    "unat u < 10 * 10 ^ j"
    using putuint_scale_spec [of 0 u] by auto
  show ?thesis
    using uint_digits_numeral [OF unat_word_of_int_power [OF j(1)] j(3,4)] putuint_digits_eq [OF j(1,4)] j(2)
    by (simp add: printf_putuint_def)
qed

lemma printf_putint_numeral:
  assumes "\<bar>i\<bar> < 2 ^ 31"
  shows "\<exists>cs. printf_putint i = Some ((if i < 0 then [45] else []) @ cs) \<and> is_numeral cs (nat \<bar>i\<bar>)"
proof -
  let ?n = "nat \<bar>i\<bar>"
  have n: "?n < 2 ^ 31" using assms by simp
  have a: "(if i < 0 then i32 (- i) else i) = int ?n" using assms by simp
  obtain j where j: "j \<le> 9" "putint_scale (int ?n) 1 = Some (10 ^ j)" "10 ^ j \<le> max 1 ?n" "?n < 10 * 10 ^ j"
    using putint_scale_spec [of 0 ?n] n by auto
  have u: "unat (of_nat ?n :: u32) = ?n" using n by (intro unat_of_nat_eq) simp
  have "is_numeral (putint_digits (int ?n) (10 ^ j)) ?n"
    using uint_digits_numeral [OF unat_word_of_int_power [OF j(1)], of "of_nat ?n"] j(3,4)
      putint_digits_eq [OF j(1,4) n] u by simp
  then show ?thesis unfolding printf_putint_def a Let_def by (simp only: j(2)) simp
qed

section \<open>Hexadecimal output\<close>

definition hex_digit_val :: "u8 \<Rightarrow> nat" where
  "hex_digit_val c = (if c < 58 then unat c - 48 else unat c - 87)"

fun hex_val :: "nat \<Rightarrow> buf \<Rightarrow> nat" where
  "hex_val v [] = v"
| "hex_val v (c # cs) = hex_val (16 * v + hex_digit_val c) cs"

lemma unat_and_15: "unat ((x :: u32) AND 0x0f) = unat x mod 16"
proof -
  have "(0x0f :: u32) = mask 4" by (simp add: mask_eq_exp_minus_1)
  then have "unat (x AND 0x0f) = unat (take_bit 4 x)" by (simp only: take_bit_eq_mask)
  also have "\<dots> = take_bit 4 (unat x)" by (rule unsigned_take_bit_eq)
  finally show ?thesis by (simp add: take_bit_eq_mod)
qed

lemma hexdigit:
  assumes "n < 16"
  obtains c where "printf_puthexdigit (ucast (of_nat n :: u32)) = [c]" "hex_digit_val c = n"
proof -
  have "n \<in> set [0..<16]" using assms by simp
  then have "\<exists>c. printf_puthexdigit (ucast (of_nat n :: u32)) = [c] \<and> hex_digit_val c = n"
    by (auto simp: upt_rec printf_puthexdigit_def hex_digit_val_def split: if_splits)
  then show ?thesis using that by blast
qed

lemma puthex_loop_spec:
  "hex_val (unat u div 2 ^ (4 * m)) (printf_puthex_loop (rev (map (\<lambda>j. 4 * j) [0..<m])) u) = unat u \<and>
   length (printf_puthex_loop (rev (map (\<lambda>j. 4 * j) [0..<m])) u) = m"
proof (induction m)
  case (Suc m)
  have n: "unat (drop_bit (4 * m) u AND 0x0f) = unat u div 2 ^ (4 * m) mod 16"
    unfolding unat_and_15 unat_drop_bit_eq by (simp only: drop_bit_eq_div)
  then have "drop_bit (4 * m) u AND 0x0f = of_nat (unat u div 2 ^ (4 * m) mod 16)"
    by (metis unat_of_nat_inv)
  moreover obtain c where c: "printf_puthexdigit (ucast (of_nat (unat u div 2 ^ (4 * m) mod 16) :: u32)) = [c]"
    "hex_digit_val c = unat u div 2 ^ (4 * m) mod 16"
    using hexdigit [of "unat u div 2 ^ (4 * m) mod 16"] by auto
  moreover have "16 * (unat u div 2 ^ (4 * Suc m)) + unat u div 2 ^ (4 * m) mod 16 = unat u div 2 ^ (4 * m)"
  proof -
    have "unat u div 2 ^ (4 * Suc m) = unat u div 2 ^ (4 * m) div 16"
      by (simp add: div_mult2_eq [symmetric] power_add mult.commute)
    then show ?thesis by (simp add: mult_div_mod_eq)
  qed
  ultimately show ?case using Suc.IH by simp
qed simp

lemma printf_puthex_hex: "length (printf_puthex u) = 8 \<and> hex_val 0 (printf_puthex u) = unat u"
proof -
  have l: "rev (map (\<lambda>j. 4 * j) [0..<8]) = [28, 24, 20, 16, 12, 8, 4, 0 :: nat]"
    by (simp add: upt_rec)
  have "unat u < 2 ^ 32" using unsigned_less [of u] by simp
  then have "unat u div 2 ^ (4 * 8) = 0" by simp
  then show ?thesis using puthex_loop_spec [of u 8] unfolding l printf_puthex_def by simp
qed

section \<open>Properties\<close>

text \<open>The numbers \<^verbatim>\<open>printf\<close> prints: \<^verbatim>\<open>%u\<close> is the decimal numeral of every unsigned
  argument, \<^verbatim>\<open>%x\<close> the eight hexadecimal digits, and \<^verbatim>\<open>%d\<close> the signed numeral of every argument
  but one: for the smallest integer, whose negation wraps around, it prints \<^verbatim>\<open>-0\<close>.\<close>

theorem printf_numbers_correct:
  "(\<exists>cs. printf [37, 117, 0] [Word u] = Some cs \<and> is_numeral cs (unat u)) \<and>
   (\<exists>cs. printf [37, 120, 0] [Word u] = Some cs \<and> length cs = 8 \<and> hex_val 0 cs = unat u) \<and>
   (if sint u = - (2 ^ 31) then printf [37, 100, 0] [Word u] = Some [45, 48]
    else \<exists>cs. printf [37, 100, 0] [Word u] = Some ((if sint u < 0 then [45] else []) @ cs) \<and>
      is_numeral cs (nat \<bar>sint u\<bar>))"
proof (intro conjI)
  show "\<exists>cs. printf [37, 117, 0] [Word u] = Some cs \<and> is_numeral cs (unat u)"
    using printf_putuint_numeral [of u] by (auto simp: arg_word_def)
  show "\<exists>cs. printf [37, 120, 0] [Word u] = Some cs \<and> length cs = 8 \<and> hex_val 0 cs = unat u"
    using printf_puthex_hex [of u] by (simp add: arg_word_def)
  show "if sint u = - (2 ^ 31) then printf [37, 100, 0] [Word u] = Some [45, 48]
    else \<exists>cs. printf [37, 100, 0] [Word u] = Some ((if sint u < 0 then [45] else []) @ cs) \<and>
      is_numeral cs (nat \<bar>sint u\<bar>)"
  proof (cases "sint u = - (2 ^ 31)")
    case True
    have "printf_putint (- (2 ^ 31)) = Some [45, 48]"
      by (simp add: printf_putint_def Let_def i32_def putint_scale.simps putint_digits.simps c_div_def)
    then show ?thesis using True by (simp add: arg_word_def)
  next
    case False
    have "\<bar>sint u\<bar> < 2 ^ 31" using False sint_ge [of u] sint_lt [of u] by auto
    from printf_putint_numeral [OF this] False show ?thesis by (auto simp: arg_word_def)
  qed
qed

end
