(* ===== verification/Hash_Set.thy ===== *)
theory Hash_Set
  imports Kernel_Prelude
begin

text \<open>
  The hash set of \<^verbatim>\<open>kernel/hash_set.c\<close>: buckets are chains of nodes, kept as lists in chain
  order, and a node has a key and a data pointer.  The argument \<open>mem\<close> of the allocating
  operations says whether \<^verbatim>\<open>kmalloc\<close> returned a block; a use of a null block is \<open>None\<close>.
\<close>

section \<open>Operations\<close>

definition HASHTABLE_PRIME :: u32 where "HASHTABLE_PRIME = 31"
definition HASHTABLE_GOLDEN_RATIO :: u32 where "HASHTABLE_GOLDEN_RATIO = 0x61C88647"

record hash_set_node =
  key :: u32
  data :: ptr

record hash_set =
  total_buckets :: u32
  num_entries :: u32
  chains :: "hash_set_node list list"

fun hash_string_loop :: "u8 list \<Rightarrow> u32 \<Rightarrow> u32 option" where
  "hash_string_loop [] hash = None"
| "hash_string_loop (c # cs) hash =
     (if c \<noteq> 0 then hash_string_loop cs (HASHTABLE_PRIME * hash + scast c) else Some hash)"

definition hash_string :: "u8 list \<Rightarrow> u32 \<Rightarrow> u32 \<Rightarrow> u32 option" where
  "hash_string s range_min range_max = do {
     hash \<leftarrow> hash_string_loop s HASHTABLE_PRIME;
     if range_max - range_min = 0 then None
     else Some (hash mod (range_max - range_min) + range_min)
   }"

definition hash_uint :: "u32 \<Rightarrow> u32 \<Rightarrow> u32 option" where
  "hash_uint k buckets = (if buckets = 0 then None else Some (k * HASHTABLE_GOLDEN_RATIO mod buckets))"

text \<open>\<open>prev\<close> is the part of the chain the search passed, \<open>curr\<close> the rest.\<close>

definition hash_set_list_add :: "hash_set_node list \<Rightarrow> hash_set_node \<Rightarrow> u32 \<times> hash_set_node list" where
  "hash_set_list_add head node =
     (if head = [] then (0, [node])
      else
        let prev = takeWhile (\<lambda>n. key n < key node) head;
            curr = dropWhile (\<lambda>n. key n < key node) head in
        if prev = [] \<and> key (hd curr) \<noteq> key node then (0, node # head)
        else if curr = [] then (0, prev @ [node])
        else if key (hd curr) \<noteq> key node then (0, prev @ hd curr # node # tl curr)
        else (- 1, head))"

definition hash_set_list_lookup :: "hash_set_node list \<Rightarrow> u32 \<Rightarrow> hash_set_node option" where
  "hash_set_list_lookup head k =
     (let curr = dropWhile (\<lambda>n. key n < k) head in
      if curr \<noteq> [] \<and> key (hd curr) = k then Some (hd curr) else None)"

definition hash_set_list_delete :: "hash_set_node list \<Rightarrow> u32 \<Rightarrow> u32 \<times> hash_set_node list" where
  "hash_set_list_delete head k =
     (let prev = takeWhile (\<lambda>n. key n < k) head; curr = dropWhile (\<lambda>n. key n < k) head in
      if curr \<noteq> [] \<and> key (hd curr) = k then (0, prev @ tl curr) else (- 1, head))"

definition hash_set_create :: "u32 \<Rightarrow> bool \<Rightarrow> hash_set option" where
  "hash_set_create buckets mem =
     (if mem then Some \<lparr>total_buckets = buckets, num_entries = 0, chains = replicate (unat buckets) []\<rparr>
      else None)"

definition hash_set_add :: "hash_set \<Rightarrow> u32 \<Rightarrow> ptr \<Rightarrow> bool \<Rightarrow> (u32 \<times> hash_set) option" where
  "hash_set_add hs k d mem = do {
     h \<leftarrow> hash_uint k (total_buckets hs);
     if mem then
       let (ret, chain) = hash_set_list_add (chains hs ! unat h) \<lparr>key = k, data = d\<rparr> in
       Some (ret, hs\<lparr>chains := (chains hs)[unat h := chain],
         num_entries := (if ret = 0 then num_entries hs + 1 else num_entries hs)\<rparr>)
     else None
   }"

definition hash_set_lookup :: "hash_set \<Rightarrow> u32 \<Rightarrow> ptr option" where
  "hash_set_lookup hs k = do {
     h \<leftarrow> hash_uint k (total_buckets hs);
     Some (case hash_set_list_lookup (chains hs ! unat h) k of Some n \<Rightarrow> data n | None \<Rightarrow> 0)
   }"

definition hash_set_remove :: "hash_set \<Rightarrow> u32 \<Rightarrow> (u32 \<times> hash_set) option" where
  "hash_set_remove hs k = do {
     h \<leftarrow> hash_uint k (total_buckets hs);
     let (ret, chain) = hash_set_list_delete (chains hs ! unat h) k in
     Some (ret, hs\<lparr>chains := (chains hs)[unat h := chain],
       num_entries := (if ret = 0 then num_entries hs - 1 else num_entries hs)\<rparr>)
   }"

definition hash_set_entries :: "hash_set \<Rightarrow> u32" where
  "hash_set_entries hs = num_entries hs"

section \<open>Chains\<close>

definition chain_ok :: "hash_set_node list \<Rightarrow> bool" where
  "chain_ok ns \<longleftrightarrow> sorted_wrt (<) (map key ns)"

definition hash_set_wf :: "hash_set \<Rightarrow> bool" where
  "hash_set_wf s \<longleftrightarrow> 0 < total_buckets s \<and> length (chains s) = unat (total_buckets s)"

text \<open>The chain of a key.\<close>

definition chain_of :: "hash_set \<Rightarrow> u32 \<Rightarrow> hash_set_node list" where
  "chain_of s k = chains s ! unat (k * HASHTABLE_GOLDEN_RATIO mod total_buckets s)"

lemma bucket_bound: "hash_set_wf s \<Longrightarrow> unat (k * HASHTABLE_GOLDEN_RATIO mod total_buckets s) < length (chains s)"
  by (auto simp: hash_set_wf_def word_less_nat_alt unat_mod)

lemma hash_uint_wf: "hash_set_wf s \<Longrightarrow> hash_uint k (total_buckets s) = Some (k * HASHTABLE_GOLDEN_RATIO mod total_buckets s)"
  by (auto simp: hash_uint_def hash_set_wf_def)

lemma drop_below: "\<forall>n \<in> set ns. key n < k \<Longrightarrow> dropWhile (\<lambda>n. key n < k) ns = []"
  by simp

lemma drop_above: "chain_ok (n # ns) \<Longrightarrow> k < key n \<Longrightarrow> dropWhile (\<lambda>n. key n < k) (n # ns) = n # ns"
  by auto

lemma chain_lookup:
  "chain_ok ns \<Longrightarrow> hash_set_list_lookup ns k = find (\<lambda>n. key n = k) ns"
proof (induction ns)
  case (Cons n ns)
  show ?case
  proof (cases "key n < k")
    case True
    then show ?thesis using Cons by (auto simp: hash_set_list_lookup_def chain_ok_def)
  next
    case False
    have "find (\<lambda>n. key n = k) ns = None" if "key n \<noteq> k"
      using Cons.prems False that by (auto simp: find_None_iff chain_ok_def)
    then show ?thesis using False by (auto simp: hash_set_list_lookup_def)
  qed
qed (simp add: hash_set_list_lookup_def)

lemma split_at:
  assumes "chain_ok ns"
  obtains l r where "ns = l @ r" "\<forall>n \<in> set l. key n < k" "\<forall>n \<in> set r. k \<le> key n"
    "takeWhile (\<lambda>n. key n < k) ns = l" "dropWhile (\<lambda>n. key n < k) ns = r"
proof -
  let ?l = "takeWhile (\<lambda>n. key n < k) ns" and ?r = "dropWhile (\<lambda>n. key n < k) ns"
  have "k \<le> key n" if nr: "n \<in> set ?r" for n
  proof -
    have ok: "chain_ok (?l @ ?r)" using assms by simp
    obtain m ms where m: "?r = m # ms" using nr by (cases ?r) auto
    then have "k \<le> key m" by (auto simp: dropWhile_eq_Cons_conv)
    moreover have "n = m \<or> key m < key n" using ok nr unfolding m
      by (auto simp: chain_ok_def sorted_wrt_append)
    ultimately show ?thesis by auto
  qed
  moreover have "key n < k" if "n \<in> set ?l" for n using set_takeWhileD [OF that] by simp
  ultimately show ?thesis by (intro that [of ?l ?r] ballI refl) (simp_all only: takeWhile_dropWhile_id)
qed

text \<open>What one insertion does to an ordered chain.\<close>

lemma list_add_spec:
  assumes ok: "chain_ok ns" and k: "k = key node"
  shows "find (\<lambda>n. key n = k) ns \<noteq> None \<Longrightarrow> hash_set_list_add ns node = (- 1, ns)"
    and "(\<forall>n \<in> set ns. key n < k) \<or> (\<forall>n \<in> set ns. k < key n) \<Longrightarrow>
      \<exists>ns'. hash_set_list_add ns node = (0, ns') \<and> chain_ok ns' \<and> set ns' = insert node (set ns)"
    and "find (\<lambda>n. key n = k) ns = None \<Longrightarrow> \<exists>n \<in> set ns. key n < k \<Longrightarrow> \<exists>n \<in> set ns. k < key n \<Longrightarrow>
      \<exists>ns'. hash_set_list_add ns node = (0, ns') \<and> \<not> chain_ok ns' \<and> hash_set_list_lookup ns' k = None"
proof -
  obtain l r where s: "ns = l @ r" "\<forall>n \<in> set l. key n < k" "\<forall>n \<in> set r. k \<le> key n"
    "takeWhile (\<lambda>n. key n < k) ns = l" "dropWhile (\<lambda>n. key n < k) ns = r"
    by (rule split_at [OF ok])
  have add: "hash_set_list_add ns node =
      (if ns = [] then (0, [node])
       else if l = [] \<and> key (hd r) \<noteq> k then (0, node # ns)
       else if r = [] then (0, l @ [node])
       else if key (hd r) \<noteq> k then (0, l @ hd r # node # tl r) else (- 1, ns))"
    using s(4,5) by (simp add: hash_set_list_add_def Let_def k)
  show "hash_set_list_add ns node = (- 1, ns)" if hit: "find (\<lambda>n. key n = k) ns \<noteq> None"
  proof -
    obtain n where n: "n \<in> set ns" "key n = k" using hit by (auto simp: find_None_iff)
    then have "n \<in> set r" using s by auto
    then obtain m ms where m: "r = m # ms" by (cases r) auto
    have "key m = k"
    proof (rule ccontr)
      assume "key m \<noteq> k"
      then have "k < key m" using s(3) m by auto
      moreover have "n = m \<or> key m < key n"
        using ok \<open>n \<in> set r\<close> m s(1) by (auto simp: chain_ok_def sorted_wrt_append)
      ultimately show False using n by auto
    qed
    moreover have "ns \<noteq> []" using n by auto
    ultimately show ?thesis unfolding add m by simp
  qed
  show "\<exists>ns'. hash_set_list_add ns node = (0, ns') \<and> chain_ok ns' \<and> set ns' = insert node (set ns)"
    if c: "(\<forall>n \<in> set ns. key n < k) \<or> (\<forall>n \<in> set ns. k < key n)"
  proof (cases "ns = []")
    case True
    then show ?thesis unfolding add by (simp add: chain_ok_def)
  next
    case False
    show ?thesis
    proof (cases "\<forall>n \<in> set ns. key n < k")
      case True
      then have r: "r = []" using s(1,3) by (cases r) force+
      then have "l \<noteq> []" using False s(1) by simp
      then show ?thesis unfolding add using False r s(1) True ok k
        by (auto simp: chain_ok_def sorted_wrt_append)
    next
      case below: False
      then have gt: "\<forall>n \<in> set ns. k < key n" using c by blast
      then have "l = []" using s(1,2) by (cases l) force+
      then show ?thesis unfolding add using False s(1) gt ok k
        by (cases r) (auto simp: chain_ok_def)
    qed
  qed
  show "\<exists>ns'. hash_set_list_add ns node = (0, ns') \<and> \<not> chain_ok ns' \<and> hash_set_list_lookup ns' k = None"
    if miss: "find (\<lambda>n. key n = k) ns = None" and lo: "\<exists>n \<in> set ns. key n < k"
      and hi: "\<exists>n \<in> set ns. k < key n"
  proof -
    have "l \<noteq> []" using lo s(1,3) by (cases l) force+
    moreover obtain m ms where m: "r = m # ms" using hi s(1,2) by (cases r) force+
    moreover have km: "k < key m" using s(3) m miss s(1) by (auto simp: find_None_iff order.order_iff_strict)
    ultimately have a: "hash_set_list_add ns node = (0, l @ m # node # ms)"
      unfolding add using s(1) by auto
    have "\<not> chain_ok (l @ m # node # ms)" using km k by (auto simp: chain_ok_def sorted_wrt_append)
    moreover have "dropWhile (\<lambda>n. key n < k) (l @ m # node # ms) = m # node # ms"
      using s(2) km by (simp add: dropWhile_append2)
    then have "hash_set_list_lookup (l @ m # node # ms) k = None"
      using km by (simp add: hash_set_list_lookup_def)
    ultimately show ?thesis using a by blast
  qed
qed

section \<open>Properties\<close>

text \<open>Adding a key to an ordered chain and looking it up: the lookup finds the new
  data exactly when the key is smaller than every key of the chain or larger than every one.  A
  key between two others is linked in after its successor; the addition reports success and the
  entry can never be found.  A key already present is rejected and keeps its data.\<close>

theorem hash_set_add_then_lookup:
  assumes "hash_set_wf s" "chain_ok (chain_of s k)" "d \<noteq> 0"
  shows "\<exists>ret s'. hash_set_add s k d True = Some (ret, s') \<and>
    (if \<exists>n \<in> set (chain_of s k). key n = k then ret = - 1 \<and> s' = s
     else ret = 0 \<and> num_entries s' = num_entries s + 1 \<and>
       (hash_set_lookup s' k = Some d \<longleftrightarrow>
          (\<forall>n \<in> set (chain_of s k). key n < k) \<or> (\<forall>n \<in> set (chain_of s k). k < key n)) \<and>
       (hash_set_lookup s' k \<noteq> Some d \<longrightarrow> hash_set_lookup s' k = Some 0))"
proof -
  let ?h = "unat (k * HASHTABLE_GOLDEN_RATIO mod total_buckets s)" and ?c = "chain_of s k"
  let ?node = "\<lparr>key = k, data = d\<rparr>"
  note b = bucket_bound [OF assms(1), of k]
  obtain ret c' where a: "hash_set_list_add ?c ?node = (ret, c')" by (cases "hash_set_list_add ?c ?node")
  let ?s' = "s\<lparr>chains := (chains s)[?h := c'],
      num_entries := (if ret = 0 then num_entries s + 1 else num_entries s)\<rparr>"
  have add: "hash_set_add s k d True = Some (ret, ?s')"
    using a by (simp add: hash_set_add_def hash_uint_wf [OF assms(1)] chain_of_def)
  have look: "hash_set_lookup ?s' k =
      Some (case hash_set_list_lookup c' k of Some n \<Rightarrow> data n | None \<Rightarrow> 0)"
    using assms(1) b by (auto simp: hash_set_lookup_def hash_uint_def hash_set_wf_def)
  note sp = list_add_spec [OF assms(2), of k ?node, unfolded a]
  show ?thesis
  proof (cases "\<exists>n \<in> set ?c. key n = k")
    case True
    then have "(ret, c') = (- 1, ?c)" using sp(1) by (auto simp: find_None_iff)
    then have "ret = - 1" "?s' = s" using b by (auto simp: chain_of_def)
    then show ?thesis using True add by simp
  next
    case no: False
    show ?thesis
    proof (cases "(\<forall>n \<in> set ?c. key n < k) \<or> (\<forall>n \<in> set ?c. k < key n)")
      case True
      then have c: "ret = 0" "chain_ok c'" "set c' = insert ?node (set ?c)" using sp(2) by auto
      have "find (\<lambda>n. key n = k) c' = Some ?node"
      proof -
        obtain n where n: "find (\<lambda>n. key n = k) c' = Some n"
          using c(3) by (cases "find (\<lambda>n. key n = k) c'") (auto simp: find_None_iff)
        then have "n \<in> set c'" "key n = k" by (auto simp: find_Some_iff in_set_conv_nth)
        then have "n = ?node" using c(3) no by auto
        then show ?thesis using n by simp
      qed
      then have "hash_set_list_lookup c' k = Some ?node" using chain_lookup [OF c(2)] by simp
      then show ?thesis using no True add look c(1) by simp
    next
      case False
      then have "\<exists>n \<in> set ?c. key n < k" "\<exists>n \<in> set ?c. k < key n"
        using no by (metis linorder_less_linear)+
      then have c: "ret = 0" "hash_set_list_lookup c' k = None"
        using sp(3) no by (auto simp: find_None_iff)
      then show ?thesis using no False add look assms(3) by auto
    qed
  qed
qed

text \<open>A set with the keys 1 and 5 in one bucket, to which 3 and then 9 are added.\<close>

definition sample_set :: hash_set where
  "sample_set = \<lparr>total_buckets = 1, num_entries = 2, chains = [[\<lparr>key = 1, data = 11\<rparr>, \<lparr>key = 5, data = 15\<rparr>]]\<rparr>"

theorem hash_set_add_then_lookup_witness:
  "\<exists>s'. hash_set_add sample_set 3 13 True = Some (0, s') \<and> hash_set_lookup s' 3 = Some 0"
proof -
  have c: "chain_of sample_set 3 = [\<lparr>key = 1, data = 11\<rparr>, \<lparr>key = 5, data = 15\<rparr>]"
    by (simp add: chain_of_def sample_set_def)
  have "hash_set_wf sample_set" by (simp add: hash_set_wf_def sample_set_def)
  moreover have "chain_ok (chain_of sample_set 3)" by (simp add: chain_ok_def c)
  moreover note c
  ultimately show ?thesis using hash_set_add_then_lookup [of sample_set 3 13] by auto
qed

end
