(* ===== verification/Pipe.thy ===== *)
theory Pipe
  imports Page
begin

text \<open>
  The pipes of \<^verbatim>\<open>kernel/pipe.c\<close>: a circular buffer of one page.  A blocking operation gives up
  the processor in the middle of its loop, so it is modelled by its loop iterations, and the
  system of one writer and one reader on a pipe as a step relation whose steps are these
  iterations.
\<close>

section \<open>The pipe\<close>

definition PIPE_SIZE :: int where "PIPE_SIZE = int PAGE_SIZE"

lemma PIPE_SIZE_val [simp]: "PIPE_SIZE = 4096"
  by (simp add: PIPE_SIZE_def PAGE_SIZE_def)

record pipe =
  buffer :: u32
  bytes :: "u8 list"
  read_pos :: int
  write_pos :: int
  flushed :: bool
  refcount :: int

text \<open>\<open>mem\<close> says whether \<^verbatim>\<open>kmalloc\<close> returned a block; an inner \<open>None\<close> is a null result.\<close>

definition pipe_create :: "bool \<Rightarrow> pmem \<Rightarrow> (pipe option \<times> pmem) option" where
  "pipe_create mem m =
     (if \<not> mem then Some (None, m)
      else do {
        (a, m) \<leftarrow> page_alloc True m;
        if a = 0 then Some (None, m)
        else Some (Some \<lparr>buffer = a, bytes = replicate (nat PIPE_SIZE) 0, read_pos = 0, write_pos = 0,
          flushed = False, refcount = 1\<rparr>, m)
      })"

definition pipe_addref :: "pipe \<Rightarrow> pipe" where
  "pipe_addref p = p\<lparr>refcount := refcount p + 1\<rparr>"

definition pipe_flush :: "pipe \<Rightarrow> pipe" where
  "pipe_flush p = p\<lparr>flushed := True\<rparr>"

text \<open>The result is \<open>None\<close> when the pipe itself is gone.\<close>

definition pipe_delete :: "pipe \<Rightarrow> pmem \<Rightarrow> pipe option \<times> pmem" where
  "pipe_delete p m =
     (let p = p\<lparr>refcount := refcount p - 1\<rparr> in
      if refcount p = 0 then (None, if buffer p \<noteq> 0 then page_free (buffer p) m else m)
      else (Some p, m))"

definition pipe_put :: "u8 \<Rightarrow> pipe \<Rightarrow> pipe" where
  "pipe_put b p = p\<lparr>bytes := (bytes p)[nat (write_pos p) := b],
     write_pos := c_mod (write_pos p + 1) PIPE_SIZE\<rparr>"

definition pipe_get :: "pipe \<Rightarrow> u8 \<times> pipe" where
  "pipe_get p = (bytes p ! nat (read_pos p), p\<lparr>read_pos := c_mod (read_pos p + 1) PIPE_SIZE\<rparr>)"

text \<open>The nonblocking branches run their loops to the end.\<close>

fun pipe_write_nonblock_loop :: "u8 list \<Rightarrow> int \<Rightarrow> pipe \<Rightarrow> int \<times> pipe" where
  "pipe_write_nonblock_loop [] written p = (written, p)"
| "pipe_write_nonblock_loop (b # bs) written p =
     (if write_pos p \<noteq> c_mod (read_pos p - 1) PIPE_SIZE
      then pipe_write_nonblock_loop bs (written + 1) (pipe_put b p) else (written, p))"

definition pipe_write_nonblock :: "pipe \<Rightarrow> u8 list \<Rightarrow> int \<times> pipe" where
  "pipe_write_nonblock p buf =
     (let (written, p) = pipe_write_nonblock_loop buf 0 p in (written, p\<lparr>flushed := False\<rparr>))"

fun pipe_read_nonblock_loop :: "nat \<Rightarrow> u8 list \<Rightarrow> pipe \<Rightarrow> u8 list \<times> pipe" where
  "pipe_read_nonblock_loop 0 buf p = (buf, p)"
| "pipe_read_nonblock_loop (Suc n) buf p =
     (if read_pos p \<noteq> write_pos p
      then let (b, p) = pipe_get p in pipe_read_nonblock_loop n (buf @ [b]) p else (buf, p))"

definition pipe_read_nonblock :: "pipe \<Rightarrow> nat \<Rightarrow> u8 list \<times> pipe" where
  "pipe_read_nonblock p n =
     (let (buf, p) = pipe_read_nonblock_loop n [] p in (buf, p\<lparr>flushed := False\<rparr>))"

definition pipe_size :: "pipe \<Rightarrow> int" where
  "pipe_size p = PIPE_SIZE"

section \<open>One writer and one reader\<close>

text \<open>A process in a blocking operation is running its loop, waiting in the queue of the pipe,
  or has returned with a result.\<close>

datatype task = Running | Waiting | Returned int

definition wake :: "task \<Rightarrow> task" where
  "wake t = (if t = Waiting then Running else t)"

record pipe_system =
  pipe :: pipe
  wbuf :: "u8 list"
  written :: nat
  writer :: task
  rsize :: nat
  rbuf :: "u8 list"
  reader :: task

text \<open>One iteration of the blocking branch of \<^verbatim>\<open>pipe_write_internal\<close>, or its end, which wakes all
  processes waiting on the pipe.\<close>

definition writer_step :: "pipe_system \<Rightarrow> pipe_system" where
  "writer_step s =
     (let p = pipe s in
      if written s < length (wbuf s) then
        if c_mod (write_pos p + 1) PIPE_SIZE = read_pos p then
          if flushed p then s\<lparr>pipe := p\<lparr>flushed := False\<rparr>, writer := Returned (int (written s))\<rparr>
          else s\<lparr>writer := Waiting\<rparr>
        else s\<lparr>pipe := pipe_put (wbuf s ! written s) p, written := written s + 1\<rparr>
      else s\<lparr>reader := wake (reader s), pipe := p\<lparr>flushed := False\<rparr>,
             writer := Returned (int (written s))\<rparr>)"

definition reader_step :: "pipe_system \<Rightarrow> pipe_system" where
  "reader_step s =
     (let p = pipe s in
      if length (rbuf s) < rsize s then
        if write_pos p = read_pos p then
          if flushed p then s\<lparr>pipe := p\<lparr>flushed := False\<rparr>, reader := Returned (int (length (rbuf s)))\<rparr>
          else s\<lparr>reader := Waiting\<rparr>
        else (let (b, p) = pipe_get p in s\<lparr>pipe := p, rbuf := rbuf s @ [b]\<rparr>)
      else s\<lparr>writer := wake (writer s), pipe := p\<lparr>flushed := False\<rparr>,
             reader := Returned (int (length (rbuf s)))\<rparr>)"

inductive pipe_step :: "pipe_system \<Rightarrow> pipe_system \<Rightarrow> bool" where
  write_iter: "writer s = Running \<Longrightarrow> pipe_step s (writer_step s)"
| read_iter: "reader s = Running \<Longrightarrow> pipe_step s (reader_step s)"

inductive_cases pipe_stepE: "pipe_step s s'"
inductive_simps pipe_step_iff: "pipe_step s s'"

inductive pipe_reach :: "pipe_system \<Rightarrow> pipe_system \<Rightarrow> bool" where
  refl: "pipe_reach s s"
| step: "pipe_reach s t \<Longrightarrow> pipe_step t u \<Longrightarrow> pipe_reach s u"

section \<open>The contents of a pipe\<close>

definition pipe_wf :: "pipe \<Rightarrow> bool" where
  "pipe_wf p \<longleftrightarrow> length (bytes p) = 4096 \<and> 0 \<le> read_pos p \<and> read_pos p < 4096 \<and>
     0 \<le> write_pos p \<and> write_pos p < 4096"

definition pipe_count :: "pipe \<Rightarrow> nat" where
  "pipe_count p = nat ((write_pos p - read_pos p) mod 4096)"

definition pipe_contents :: "pipe \<Rightarrow> u8 list" where
  "pipe_contents p = map (\<lambda>i. bytes p ! ((nat (read_pos p) + i) mod 4096)) [0..<pipe_count p]"

lemma c_mod_next: "0 \<le> x \<Longrightarrow> c_mod (x + 1) 4096 = (x + 1) mod 4096"
  by simp

lemma pipe_count_next:
  assumes "pipe_wf p" "(write_pos p + 1) mod 4096 \<noteq> read_pos p"
  shows "nat (((write_pos p + 1) mod 4096 - read_pos p) mod 4096) = Suc (pipe_count p)" "pipe_count p < 4095"
proof -
  let ?c = "(write_pos p - read_pos p) mod 4096"
  have c: "0 \<le> ?c" "?c < 4096" by simp_all
  have eq: "((write_pos p + 1) mod 4096 - read_pos p) mod 4096 = (?c + 1) mod 4096"
    by (simp add: mod_simps algebra_simps)
  have "?c \<noteq> 4095"
  proof
    assume "?c = 4095"
    then have "(read_pos p + ?c + 1) mod 4096 = read_pos p"
      using assms(1) by (simp add: pipe_wf_def)
    moreover have "(read_pos p + 1 + ?c) mod 4096 = (read_pos p + 1 + (write_pos p - read_pos p)) mod 4096"
      by (rule mod_add_right_eq)
    then have "(read_pos p + ?c + 1) mod 4096 = (write_pos p + 1) mod 4096" by (simp add: algebra_simps)
    ultimately show False using assms(2) by simp
  qed
  then have "?c < 4095" using c by linarith
  then show "nat (((write_pos p + 1) mod 4096 - read_pos p) mod 4096) = Suc (pipe_count p)"
    "pipe_count p < 4095"
    unfolding eq pipe_count_def using c by simp_all
qed

lemma write_index: "pipe_wf p \<Longrightarrow> (nat (read_pos p) + pipe_count p) mod 4096 = nat (write_pos p)"
proof -
  assume "pipe_wf p"
  then have wf: "0 \<le> read_pos p" "read_pos p < 4096" "0 \<le> write_pos p" "write_pos p < 4096"
    by (simp_all add: pipe_wf_def)
  have "int ((nat (read_pos p) + pipe_count p) mod 4096) =
      (read_pos p + (write_pos p - read_pos p) mod 4096) mod 4096"
    using wf by (simp add: pipe_count_def zmod_int)
  also have "\<dots> = write_pos p" using wf by (simp add: mod_simps)
  finally show ?thesis by linarith
qed

lemma pipe_put_contents:
  assumes "pipe_wf p" "c_mod (write_pos p + 1) PIPE_SIZE \<noteq> read_pos p"
  shows "pipe_wf (pipe_put b p)" "pipe_contents (pipe_put b p) = pipe_contents p @ [b]"
proof -
  have wf: "0 \<le> read_pos p" "read_pos p < 4096" "0 \<le> write_pos p" "write_pos p < 4096"
    "length (bytes p) = 4096"
    using assms(1) by (simp_all add: pipe_wf_def)
  have full: "(write_pos p + 1) mod 4096 \<noteq> read_pos p" using assms(2) wf by simp
  show "pipe_wf (pipe_put b p)" using wf by (simp add: pipe_wf_def pipe_put_def)
  note n = pipe_count_next [OF assms(1) full]
  have cnt: "pipe_count (pipe_put b p) = Suc (pipe_count p)"
    using n(1) wf by (simp add: pipe_count_def pipe_put_def)
  have old: "nat (write_pos p) \<noteq> (nat (read_pos p) + i) mod 4096" if "i < pipe_count p" for i
  proof
    assume "nat (write_pos p) = (nat (read_pos p) + i) mod 4096"
    then have "(nat (read_pos p) + i) mod 4096 = (nat (read_pos p) + pipe_count p) mod 4096"
      using write_index [OF assms(1)] by simp
    then have "4096 dvd pipe_count p - i"
      using that mod_eq_dvd_iff_nat [of "nat (read_pos p) + i" "nat (read_pos p) + pipe_count p" 4096]
      by simp
    then show False using that n(2) by (auto dest: dvd_imp_le)
  qed
  have idx: "(nat (read_pos p) + pipe_count p) mod 4096 = nat (write_pos p)"
    by (rule write_index [OF assms(1)])
  have "nat (write_pos p) < 4096" using wf by simp
  then show "pipe_contents (pipe_put b p) = pipe_contents p @ [b]"
    unfolding pipe_contents_def cnt using old wf by (simp add: pipe_put_def idx)
qed

lemma pipe_get_contents:
  assumes "pipe_wf p" "write_pos p \<noteq> read_pos p"
  shows "pipe_wf (snd (pipe_get p))" "pipe_contents p = fst (pipe_get p) # pipe_contents (snd (pipe_get p))"
proof -
  have wf: "0 \<le> read_pos p" "read_pos p < 4096" "0 \<le> write_pos p" "write_pos p < 4096"
    "length (bytes p) = 4096"
    using assms(1) by (simp_all add: pipe_wf_def)
  show "pipe_wf (snd (pipe_get p))" using wf by (simp add: pipe_wf_def pipe_get_def)
  let ?c = "(write_pos p - read_pos p) mod 4096"
  have "?c \<noteq> 0"
  proof
    assume "?c = 0"
    then have "write_pos p mod 4096 = read_pos p mod 4096" by (simp add: mod_eq_dvd_iff mod_eq_0_iff_dvd)
    then show False using wf assms(2) by simp
  qed
  moreover have "0 \<le> ?c" "?c < 4096" by simp_all
  ultimately have pos: "0 < ?c" "?c < 4096" by linarith+
  have "(write_pos p - (read_pos p + 1) mod 4096) mod 4096 = (?c - 1) mod 4096"
    by (simp add: mod_simps algebra_simps)
  also have "\<dots> = ?c - 1" using pos by (intro mod_pos_pos_trivial) simp_all
  finally have cnt: "pipe_count p = Suc (pipe_count (snd (pipe_get p)))"
    using pos wf by (simp add: pipe_count_def pipe_get_def)
  have "nat ((read_pos p + 1) mod 4096) = (nat (read_pos p) + 1) mod 4096"
    using wf by (simp add: nat_mod_distrib nat_add_distrib)
  then have shift: "(nat ((read_pos p + 1) mod 4096) + i) mod 4096 = (nat (read_pos p) + Suc i) mod 4096" for i
    by (simp add: mod_simps)
  have "nat (read_pos p) mod 4096 = nat (read_pos p)" using wf by simp
  then show "pipe_contents p = fst (pipe_get p) # pipe_contents (snd (pipe_get p))"
    unfolding pipe_contents_def cnt upt_conv_Cons [OF zero_less_Suc] map_Suc_upt [symmetric]
    using wf shift by (simp add: pipe_get_def del: upt_Suc)
qed

lemma pipe_flushed_contents [simp]: "pipe_contents (p\<lparr>flushed := b\<rparr>) = pipe_contents p" "pipe_wf (p\<lparr>flushed := b\<rparr>) = pipe_wf p"
  by (simp_all add: pipe_contents_def pipe_count_def pipe_wf_def)

lemma pipe_contents_bound: "length (pipe_contents p) \<le> 4095"
proof -
  have "(write_pos p - read_pos p) mod 4096 < 4096" by simp
  then show ?thesis by (simp add: pipe_contents_def pipe_count_def)
qed

section \<open>First in, first out\<close>

text \<open>The invariant: what was read, followed by what is in the pipe, is what was written.\<close>

definition pipe_inv :: "pipe_system \<Rightarrow> bool" where
  "pipe_inv s \<longleftrightarrow> pipe_wf (pipe s) \<and> written s \<le> length (wbuf s) \<and> length (rbuf s) \<le> rsize s \<and>
     rbuf s @ pipe_contents (pipe s) = take (written s) (wbuf s) \<and>
     (\<forall>n. writer s = Returned n \<longrightarrow> n = int (written s)) \<and>
     (\<forall>n. reader s = Returned n \<longrightarrow> n = int (length (rbuf s)))"

lemma wake_Returned [simp]: "wake t = Returned n \<longleftrightarrow> t = Returned n"
  by (auto simp: wake_def)

lemma writer_step_inv: "pipe_inv s \<Longrightarrow> writer s = Running \<Longrightarrow> pipe_inv (writer_step s)"
  using pipe_put_contents [of "pipe s" "wbuf s ! written s"]
  by (auto simp: pipe_inv_def writer_step_def Let_def take_Suc_conv_app_nth simp del: append_assoc
      simp flip: append_assoc)

lemma reader_step_inv: "pipe_inv s \<Longrightarrow> reader s = Running \<Longrightarrow> pipe_inv (reader_step s)"
  using pipe_get_contents [of "pipe s"]
  by (auto simp: pipe_inv_def reader_step_def Let_def split: prod.splits)

lemma pipe_step_kept: "pipe_step s t \<Longrightarrow> wbuf t = wbuf s \<and> rsize t = rsize s"
  by (erule pipe_stepE) (auto simp: writer_step_def reader_step_def Let_def split: prod.splits)

lemma pipe_reach_inv: "pipe_reach s t \<Longrightarrow> pipe_inv s \<Longrightarrow> pipe_inv t \<and> wbuf t = wbuf s \<and> rsize t = rsize s"
proof (induction rule: pipe_reach.induct)
  case (step s t u)
  then show ?case
    using writer_step_inv [of t] reader_step_inv [of t] pipe_step_kept [of t u]
    by (auto elim: pipe_stepE)
qed simp

definition pipe_start :: "pipe \<Rightarrow> u8 list \<Rightarrow> nat \<Rightarrow> pipe_system" where
  "pipe_start p buf n = \<lparr>pipe = p, wbuf = buf, written = 0, writer = Running, rsize = n, rbuf = [],
     reader = Running\<rparr>"

definition new_pipe :: "u32 \<Rightarrow> pipe" where
  "new_pipe a = \<lparr>buffer = a, bytes = replicate 4096 0, read_pos = 0, write_pos = 0, flushed = False,
     refcount = 1\<rparr>"

lemma new_pipe_wf: "pipe_wf (new_pipe a)" "pipe_contents (new_pipe a) = []"
  by (simp_all add: pipe_wf_def new_pipe_def pipe_contents_def pipe_count_def)

lemma pipe_start_inv: "pipe_inv (pipe_start (new_pipe a) buf n)"
  using new_pipe_wf by (simp add: pipe_inv_def pipe_start_def)

section \<open>The blocked pair\<close>

lemma step_writer: "pipe_reach s0 s \<and> writer s = Running \<Longrightarrow> pipe_reach s0 (writer_step s)"
  using pipe_reach.step write_iter by blast

text \<open>\<open>filled a buf n k\<close>: the reader waits on an empty pipe and the writer has put in \<open>k\<close> bytes.\<close>

definition filled :: "u32 \<Rightarrow> u8 list \<Rightarrow> nat \<Rightarrow> nat \<Rightarrow> pipe_system \<Rightarrow> bool" where
  "filled a buf n k s \<longleftrightarrow> pipe_reach (pipe_start (new_pipe a) buf n) s \<and> reader s = Waiting \<and>
     writer s = Running \<and> written s = k \<and> rbuf s = [] \<and> wbuf s = buf \<and>
     read_pos (pipe s) = 0 \<and> write_pos (pipe s) = int k \<and> \<not> flushed (pipe s)"

lemma filled_start: "0 < n \<Longrightarrow> \<exists>s. filled a buf n 0 s"
proof -
  assume n: "0 < n"
  let ?s = "pipe_start (new_pipe a) buf n"
  have "pipe_reach ?s (reader_step ?s)"
    by (rule pipe_reach.step [OF pipe_reach.refl]) (rule read_iter, simp add: pipe_start_def)
  then show ?thesis using n
    by (intro exI [of _ "reader_step ?s"])
      (simp add: filled_def reader_step_def pipe_start_def new_pipe_def Let_def)
qed

lemma filled_next:
  assumes "filled a buf n k s" "k < 4095" "k < length buf"
  shows "\<exists>s. filled a buf n (Suc k) s"
proof -
  have "pipe_reach (pipe_start (new_pipe a) buf n) (writer_step s)"
    using assms(1) by (intro step_writer) (auto simp: filled_def)
  moreover have "writer_step s = s\<lparr>pipe := pipe_put (buf ! k) (pipe s), written := Suc k\<rparr>"
    using assms by (simp add: filled_def writer_step_def Let_def)
  ultimately have "filled a buf n (Suc k) (writer_step s)"
    using assms by (simp add: filled_def pipe_put_def)
  then show ?thesis by blast
qed

lemma filled_all: "0 < n \<Longrightarrow> k \<le> 4095 \<Longrightarrow> k \<le> length buf \<Longrightarrow> \<exists>s. filled a buf n k s"
proof (induction k)
  case 0
  then show ?case using filled_start by simp
next
  case (Suc k)
  then obtain s where "filled a buf n k s" by auto
  from filled_next [OF this] Suc.prems show ?case by simp
qed

section \<open>Properties\<close>

text \<open>Claim C29. A pipe is first in, first out: in every reachable state of a writer and a reader
  on a new pipe, the bytes read are the beginning of the bytes to write, the pipe holds the
  bytes between, at most 4095 of them, and a returned operation returns the number of bytes it
  transferred.\<close>

theorem pipe_is_fifo:
  assumes "pipe_reach (pipe_start (new_pipe a) buf n) t"
  shows "rbuf t @ pipe_contents (pipe t) = take (written t) buf \<and> length (pipe_contents (pipe t)) \<le> 4095 \<and>
    length (rbuf t) \<le> n \<and> (\<forall>m. writer t = Returned m \<longrightarrow> m = int (written t)) \<and>
    (\<forall>m. reader t = Returned m \<longrightarrow> m = int (length (rbuf t)))"
  using pipe_reach_inv [OF assms pipe_start_inv] pipe_contents_bound [of "pipe t"]
  by (simp add: pipe_inv_def) (simp add: pipe_start_def)

theorem pipe_is_fifo_witness:
  "\<exists>t. pipe_reach (pipe_start (new_pipe 4096) [7, 8] 1) t \<and> rbuf t @ pipe_contents (pipe t) = [7]"
proof -
  let ?s = "pipe_start (new_pipe 4096) [7, 8] 1"
  have r: "pipe_reach ?s (writer_step ?s)"
    by (rule pipe_reach.step [OF pipe_reach.refl]) (rule write_iter, simp add: pipe_start_def)
  have "written (writer_step ?s) = 1"
    by (simp add: writer_step_def pipe_start_def new_pipe_def Let_def)
  with pipe_is_fifo [OF r] r show ?thesis by auto
qed

text \<open>Claim C30. A writer of more than 4095 bytes and a reader that came first block each other
  for ever: the reader waits for a byte, the writer fills the pipe and waits for space without
  waking the reader, as it does so only at the end of its loop.\<close>

theorem pipe_blocked_pair:
  assumes "4096 \<le> length buf" "0 < n"
  shows "\<exists>t. pipe_reach (pipe_start (new_pipe a) buf n) t \<and> reader t = Waiting \<and> writer t = Waiting \<and>
    pipe_contents (pipe t) = take 4095 buf \<and> rbuf t = [] \<and> (\<forall>u. \<not> pipe_step t u)"
proof -
  obtain s where s: "filled a buf n 4095 s" using filled_all [of n 4095 buf a] assms by auto
  let ?t = "writer_step s"
  have t: "?t = s\<lparr>writer := Waiting\<rparr>"
    using s assms(1) by (simp add: filled_def writer_step_def Let_def)
  have reach: "pipe_reach (pipe_start (new_pipe a) buf n) ?t"
    using s by (intro step_writer) (auto simp: filled_def)
  have "pipe_inv ?t \<and> wbuf ?t = buf" using pipe_reach_inv [OF reach pipe_start_inv]
    by (simp add: pipe_start_def)
  then have "pipe_contents (pipe ?t) = take 4095 buf"
    using s by (simp add: pipe_inv_def t filled_def)
  moreover have "\<not> pipe_step ?t u" for u using s by (auto simp: t filled_def elim: pipe_stepE)
  ultimately show ?thesis using reach s by (intro exI [of _ ?t]) (simp add: t filled_def)
qed

theorem pipe_blocked_pair_witness:
  "\<exists>t. pipe_reach (pipe_start (new_pipe 4096) (replicate 5000 7) 10) t \<and> (\<forall>u. \<not> pipe_step t u)"
proof -
  have "4096 \<le> length (replicate 5000 (7 :: u8))" unfolding length_replicate by simp
  moreover have "0 < (10 :: nat)" by simp
  ultimately show ?thesis using pipe_blocked_pair [of "replicate 5000 7" 10 4096] by blast
qed

lemma nonblock_loop_full:
  assumes "pipe_wf p" "read_pos p \<noteq> 0"
  shows "pipe_wf (snd (pipe_write_nonblock_loop buf w p)) \<and>
    fst (pipe_write_nonblock_loop buf w p) = w + int (min (length buf) (4095 - length (pipe_contents p))) \<and>
    pipe_contents (snd (pipe_write_nonblock_loop buf w p)) =
      pipe_contents p @ take (4095 - length (pipe_contents p)) buf"
  using assms
proof (induction buf arbitrary: w p)
  case (Cons b bs)
  have wf: "0 < read_pos p" "read_pos p < 4096" "0 \<le> write_pos p" "write_pos p < 4096"
    using Cons.prems by (auto simp: pipe_wf_def)
  show ?case
  proof (cases "write_pos p = read_pos p - 1")
    case True
    then have "(write_pos p - read_pos p) mod 4096 = 4095" by simp
    then have "length (pipe_contents p) = 4095" by (simp add: pipe_contents_def pipe_count_def)
    then show ?thesis using True wf Cons.prems by simp
  next
    case False
    have room: "c_mod (write_pos p + 1) PIPE_SIZE \<noteq> read_pos p"
    proof (cases "write_pos p = 4095")
      case False
      then have "(write_pos p + 1) mod 4096 = write_pos p + 1" using wf by simp
      then show ?thesis using wf \<open>write_pos p \<noteq> read_pos p - 1\<close> by simp
    qed (use wf in simp)
    note put = pipe_put_contents [OF Cons.prems(1) room, of b]
    have "read_pos (pipe_put b p) \<noteq> 0" using Cons.prems(2) by (simp add: pipe_put_def)
    note IH = Cons.IH [OF put(1) this, of "w + 1"]
    have "length (pipe_contents (pipe_put b p)) \<le> 4095" by (rule pipe_contents_bound)
    then obtain m where m: "4095 - length (pipe_contents p) = Suc m" "4095 - length (pipe_contents (pipe_put b p)) = m"
      unfolding put(2) by (cases "4095 - length (pipe_contents p)") auto
    show ?thesis using False wf IH m put(2) by simp
  qed
qed simp

lemma nonblock_loop_zero:
  assumes "pipe_wf p" "read_pos p = 0"
  shows "fst (pipe_write_nonblock_loop buf w p) = w + int (length buf) \<and>
    read_pos (snd (pipe_write_nonblock_loop buf w p)) = 0 \<and>
    write_pos (snd (pipe_write_nonblock_loop buf w p)) = (write_pos p + int (length buf)) mod 4096"
  using assms
proof (induction buf arbitrary: w p)
  case Nil
  then show ?case by (simp add: pipe_wf_def)
next
  case (Cons b bs)
  have wf: "0 \<le> write_pos p" "write_pos p < 4096" using Cons.prems by (simp_all add: pipe_wf_def)
  have "pipe_wf (pipe_put b p)" "read_pos (pipe_put b p) = 0"
    using Cons.prems by (simp_all add: pipe_wf_def pipe_put_def)
  note IH = Cons.IH [OF this, of "w + 1"]
  have "write_pos (pipe_put b p) = (write_pos p + 1) mod 4096" using wf by (simp add: pipe_put_def)
  then show ?case using IH wf Cons.prems(2)
    by (simp add: c_mod_def c_div_def mod_simps algebra_simps)
qed

text \<open>The nonblocking write appends as many bytes as there is room for, as long as the
  read position is not 0.  When it is 0 the test for a full pipe never holds, as the C remainder
  \<^verbatim>\<open>(0 - 1) % PIPE_SIZE\<close> is negative: the write takes all bytes, and what the pipe holds
  afterwards is only their number modulo 4096; a write of 4096 bytes leaves an empty pipe.\<close>

theorem pipe_write_nonblock_behaviour:
  assumes "pipe_wf p"
  shows "if read_pos p \<noteq> 0 then
      fst (pipe_write_nonblock p buf) = int (min (length buf) (4095 - length (pipe_contents p))) \<and>
      pipe_contents (snd (pipe_write_nonblock p buf)) =
        pipe_contents p @ take (4095 - length (pipe_contents p)) buf
    else
      fst (pipe_write_nonblock p buf) = int (length buf) \<and>
      length (pipe_contents (snd (pipe_write_nonblock p buf))) =
        (length (pipe_contents p) + length buf) mod 4096"
proof (cases "read_pos p = 0")
  case False
  then show ?thesis using nonblock_loop_full [OF assms False, of buf 0]
    by (simp add: pipe_write_nonblock_def case_prod_unfold)
next
  case True
  have wf: "0 \<le> write_pos p" "write_pos p < 4096" using assms by (simp_all add: pipe_wf_def)
  obtain w q where q: "pipe_write_nonblock_loop buf 0 p = (w, q)" by fastforce
  then have r: "w = int (length buf)" "read_pos q = 0" "write_pos q = (write_pos p + int (length buf)) mod 4096"
    using nonblock_loop_zero [OF assms True, of buf 0] by simp_all
  have "length (pipe_contents q) = nat ((write_pos p + int (length buf)) mod 4096)"
    by (simp add: pipe_contents_def pipe_count_def r)
  also have "\<dots> = (length (pipe_contents p) + length buf) mod 4096"
    using wf True by (simp add: pipe_contents_def pipe_count_def nat_mod_distrib nat_add_distrib)
  finally show ?thesis using True r(1) q by (simp add: pipe_write_nonblock_def)
qed

theorem pipe_write_nonblock_behaviour_witness:
  "fst (pipe_write_nonblock (new_pipe 4096) (replicate 4096 7)) = 4096 \<and>
   pipe_contents (snd (pipe_write_nonblock (new_pipe 4096) (replicate 4096 7))) = []"
proof -
  have "read_pos (new_pipe 4096) = 0" by (simp add: new_pipe_def)
  moreover have "length (replicate 4096 (7 :: u8)) = 4096" by (rule length_replicate)
  moreover define buf where "buf = replicate 4096 (7 :: u8)"
  ultimately show ?thesis
    using pipe_write_nonblock_behaviour [OF new_pipe_wf(1) [of 4096], of buf] new_pipe_wf(2) [of 4096]
    unfolding buf_def [symmetric] by simp
qed

end
