(* ===== verification/Device.thy ===== *)
theory Device
  imports Kstring
begin

text \<open>
  The device layer of \<^verbatim>\<open>kernel/device.c\<close>.  A driver is a record of functions over the state
  \<open>'hw\<close> of the hardware, which the kernel reaches through input/output instructions only and
  which is a parameter here; a read returns its status, the bytes it stored at the buffer and
  the new hardware state.  Drivers and devices are objects of the state, named by pointers.
\<close>

section \<open>Drivers and devices\<close>

record 'hw device_driver =
  drv_name :: buf
  drv_probe :: "int \<Rightarrow> 'hw \<Rightarrow> (int \<times> int) option \<times> 'hw"
  drv_read :: "(int \<Rightarrow> int \<Rightarrow> int \<Rightarrow> 'hw \<Rightarrow> int \<times> buf \<times> 'hw) option"
  drv_read_nonblock :: "(int \<Rightarrow> int \<Rightarrow> int \<Rightarrow> 'hw \<Rightarrow> int \<times> buf \<times> 'hw) option"
  drv_write :: "(int \<Rightarrow> buf \<Rightarrow> int \<Rightarrow> int \<Rightarrow> 'hw \<Rightarrow> int \<times> 'hw) option"
  drv_multiplier :: int
  blocks_read :: int
  blocks_written :: int

record device =
  driver :: ptr
  refcount :: int
  unit_no :: int
  block_size :: int
  nblocks :: int
  multiplier :: int

record 'hw world =
  driver_list :: "ptr list"
  drivers :: "ptr \<Rightarrow> 'hw device_driver"
  devices :: "ptr \<Rightarrow> device"
  hw :: 'hw

definition device_driver_register :: "ptr \<Rightarrow> 'hw world \<Rightarrow> 'hw world" where
  "device_driver_register d w =
     w\<lparr>driver_list := d # driver_list w,
       drivers := (drivers w)(d := (drivers w d)\<lparr>blocks_read := 0, blocks_written := 0\<rparr>)\<rparr>"

text \<open>A name that is not a C string makes the search run off its end.\<close>

fun driver_search :: "ptr list \<Rightarrow> buf \<Rightarrow> 'hw world \<Rightarrow> ptr option" where
  "driver_search [] nm w = Some 0"
| "driver_search (dd # dds) nm w = do {
     c \<leftarrow> strcmp (drv_name (drivers w dd)) nm;
     if c = 0 then Some dd else driver_search dds nm w
   }"

definition device_driver_lookup :: "buf \<Rightarrow> 'hw world \<Rightarrow> ptr option" where
  "device_driver_lookup nm w = driver_search (driver_list w) nm w"

text \<open>\<open>d\<close> is the block returned by \<^verbatim>\<open>kmalloc\<close>; the source uses it without a test.\<close>

definition device_create :: "ptr \<Rightarrow> ptr \<Rightarrow> int \<Rightarrow> int \<Rightarrow> int \<Rightarrow> 'hw world \<Rightarrow> 'hw world option" where
  "device_create d dd u n bs w =
     (if d = 0 then None
      else Some (w\<lparr>devices := (devices w)(d := \<lparr>driver = dd, refcount = 1, unit_no = u, block_size = bs,
        nblocks = n, multiplier =
          (if 0 < drv_multiplier (drivers w dd) then drv_multiplier (drivers w dd) else 1)\<rparr>)\<rparr>))"

definition device_open :: "ptr \<Rightarrow> buf \<Rightarrow> int \<Rightarrow> 'hw world \<Rightarrow> (ptr \<times> 'hw world) option" where
  "device_open d nm u w = do {
     dd \<leftarrow> device_driver_lookup nm w;
     (case (if dd \<noteq> 0 then drv_probe (drivers w dd) u (hw w) else (None, hw w)) of
        (Some (n, bs), h) \<Rightarrow> do { w \<leftarrow> device_create d dd u n bs (w\<lparr>hw := h\<rparr>); Some (d, w) }
      | (None, h) \<Rightarrow> Some (0, w\<lparr>hw := h\<rparr>))
   }"

definition upd_device :: "ptr \<Rightarrow> (device \<Rightarrow> device) \<Rightarrow> 'hw world \<Rightarrow> 'hw world" where
  "upd_device d f w = w\<lparr>devices := (devices w)(d := f (devices w d))\<rparr>"

definition device_addref :: "ptr \<Rightarrow> 'hw world \<Rightarrow> 'hw world" where
  "device_addref d = upd_device d (\<lambda>x. x\<lparr>refcount := refcount x + 1\<rparr>)"

definition device_set_multiplier :: "ptr \<Rightarrow> int \<Rightarrow> 'hw world \<Rightarrow> int \<times> 'hw world" where
  "device_set_multiplier d m w =
     (if m < 1 \<or> m * block_size (devices w d) > int PAGE_SIZE then (kerr KERROR_INVALID_REQUEST, w)
      else (0, upd_device d (\<lambda>x. x\<lparr>multiplier := m\<rparr>) w))"

text \<open>The flag of the result says whether the device was freed.\<close>

definition device_close :: "ptr \<Rightarrow> 'hw world \<Rightarrow> bool \<times> 'hw world" where
  "device_close d w =
     (let w = upd_device d (\<lambda>x. x\<lparr>refcount := refcount x - 1\<rparr>) w in (refcount (devices w d) < 1, w))"

definition count_read :: "ptr \<Rightarrow> int \<Rightarrow> 'hw world \<Rightarrow> 'hw world" where
  "count_read dd n w = w\<lparr>drivers := (drivers w)(dd := (drivers w dd)\<lparr>blocks_read := blocks_read (drivers w dd) + n\<rparr>)\<rparr>"

definition count_written :: "ptr \<Rightarrow> int \<Rightarrow> 'hw world \<Rightarrow> 'hw world" where
  "count_written dd n w = w\<lparr>drivers := (drivers w)(dd := (drivers w dd)\<lparr>blocks_written := blocks_written (drivers w dd) + n\<rparr>)\<rparr>"

definition device_read :: "ptr \<Rightarrow> int \<Rightarrow> int \<Rightarrow> 'hw world \<Rightarrow> int \<times> buf \<times> 'hw world" where
  "device_read d n off w =
     (let dv = devices w d in
      case drv_read (drivers w (driver dv)) of
        Some rd \<Rightarrow>
          (let (status, bytes, h) = rd (unit_no dv) (n * multiplier dv) (off * multiplier dv) (hw w);
               w = w\<lparr>hw := h\<rparr>
           in (status, bytes, if status \<noteq> 0 then count_read (driver dv) (n * multiplier dv) w else w))
      | None \<Rightarrow> (kerr KERROR_NOT_IMPLEMENTED, [], w))"

definition device_read_nonblock :: "ptr \<Rightarrow> int \<Rightarrow> int \<Rightarrow> 'hw world \<Rightarrow> int \<times> buf \<times> 'hw world" where
  "device_read_nonblock d n off w =
     (let dv = devices w d in
      case drv_read_nonblock (drivers w (driver dv)) of
        Some rd \<Rightarrow>
          (let (status, bytes, h) = rd (unit_no dv) (n * multiplier dv) (off * multiplier dv) (hw w);
               w = w\<lparr>hw := h\<rparr>
           in (status, bytes, if status \<noteq> 0 then count_read (driver dv) (n * multiplier dv) w else w))
      | None \<Rightarrow> (kerr KERROR_NOT_IMPLEMENTED, [], w))"

definition device_write :: "ptr \<Rightarrow> buf \<Rightarrow> int \<Rightarrow> int \<Rightarrow> 'hw world \<Rightarrow> int \<times> 'hw world" where
  "device_write d data n off w =
     (let dv = devices w d in
      case drv_write (drivers w (driver dv)) of
        Some wr \<Rightarrow>
          (let (status, h) = wr (unit_no dv) data (n * multiplier dv) (off * multiplier dv) (hw w);
               w = w\<lparr>hw := h\<rparr>
           in (status, if status = 0 then count_written (driver dv) (n * multiplier dv) w else w))
      | None \<Rightarrow> (kerr KERROR_NOT_IMPLEMENTED, w))"

definition device_block_size :: "ptr \<Rightarrow> 'hw world \<Rightarrow> int" where
  "device_block_size d w = block_size (devices w d) * multiplier (devices w d)"

definition device_nblocks :: "ptr \<Rightarrow> 'hw world \<Rightarrow> int" where
  "device_nblocks d w = c_div (nblocks (devices w d)) (multiplier (devices w d))"

definition device_unit :: "ptr \<Rightarrow> 'hw world \<Rightarrow> int" where
  "device_unit d w = unit_no (devices w d)"

definition device_name :: "ptr \<Rightarrow> 'hw world \<Rightarrow> buf" where
  "device_name d w = drv_name (drivers w (driver (devices w d)))"

definition device_driver_get_stats :: "buf \<Rightarrow> int \<times> int \<Rightarrow> 'hw world \<Rightarrow> (int \<times> int) option" where
  "device_driver_get_stats nm s w = do {
     dd \<leftarrow> device_driver_lookup nm w;
     Some (if dd \<noteq> 0 then (blocks_read (drivers w dd), blocks_written (drivers w dd)) else s)
   }"

section \<open>What the kernel relies on\<close>

text \<open>
  \<open>device_ok dk d n w\<close>: the driver of device \<open>d\<close> behaves as a disk of \<open>n\<close> blocks.  \<open>dk h d b\<close>
  is the block \<open>b\<close> of the device in hardware state \<open>h\<close>: a read of one block delivers it, a write
  of one block stores the first \<open>device_block_size\<close> bytes at the pointer and changes no other
  block of any device, and both report success with a positive status.
\<close>

definition device_ok :: "('hw \<Rightarrow> ptr \<Rightarrow> int \<Rightarrow> buf) \<Rightarrow> ptr \<Rightarrow> int \<Rightarrow> 'hw world \<Rightarrow> bool" where
  "device_ok dk d n w \<longleftrightarrow>
     0 < block_size (devices w d) \<and> 0 < multiplier (devices w d) \<and>
     device_block_size d w \<le> int PAGE_SIZE \<and>
     (\<forall>h b. length (dk h d b) = nat (device_block_size d w)) \<and>
     (\<exists>rd wr. drv_read (drivers w (driver (devices w d))) = Some rd \<and>
        drv_write (drivers w (driver (devices w d))) = Some wr \<and>
        (\<forall>h b. 0 \<le> b \<and> b < n \<longrightarrow>
           (\<exists>st h'. rd (unit_no (devices w d)) (multiplier (devices w d)) (b * multiplier (devices w d)) h =
              (st, dk h d b, h') \<and> 0 < st \<and> dk h' = dk h)) \<and>
        (\<forall>h b data. 0 \<le> b \<and> b < n \<and> device_block_size d w \<le> int (length data) \<longrightarrow>
           (\<exists>st h'. wr (unit_no (devices w d)) data (multiplier (devices w d)) (b * multiplier (devices w d)) h =
              (st, h') \<and> 0 < st \<and>
              dk h' = (dk h)(d := (dk h d)(b := take (nat (device_block_size d w)) data)))))"

text \<open>Reading and writing change only the hardware and the statistics.\<close>

definition world_frame :: "'hw world \<Rightarrow> 'hw world \<Rightarrow> bool" where
  "world_frame w w' \<longleftrightarrow> devices w' = devices w \<and> driver_list w' = driver_list w \<and>
     (\<forall>dd. drv_read (drivers w' dd) = drv_read (drivers w dd) \<and>
        drv_write (drivers w' dd) = drv_write (drivers w dd))"

lemma world_frame_refl [simp]: "world_frame w w"
  by (simp add: world_frame_def)

lemma world_frame_trans: "world_frame w w' \<Longrightarrow> world_frame w' w'' \<Longrightarrow> world_frame w w''"
  by (simp add: world_frame_def)

lemma device_ok_frame: "world_frame w w' \<Longrightarrow> device_ok dk d n w' = device_ok dk d n w"
  by (simp add: world_frame_def device_ok_def device_block_size_def)

lemma device_block_size_frame: "world_frame w w' \<Longrightarrow> device_block_size d w' = device_block_size d w"
  by (simp add: world_frame_def device_block_size_def)

lemma device_read_frame: "device_read d n off w = (st, bs, w') \<Longrightarrow> world_frame w w'"
  by (auto simp: device_read_def world_frame_def count_read_def Let_def split: option.splits prod.splits if_splits)

lemma device_write_frame: "device_write d data n off w = (st, w') \<Longrightarrow> world_frame w w'"
  by (auto simp: device_write_def world_frame_def count_written_def Let_def split: option.splits prod.splits if_splits)

lemma device_read_ok:
  assumes "device_ok dk d n w" "0 \<le> b" "b < n"
  obtains st w' where "device_read d 1 b w = (st, dk (hw w) d b, w')" "0 < st" "dk (hw w') = dk (hw w)"
    "world_frame w w'"
proof -
  obtain rd where rd: "drv_read (drivers w (driver (devices w d))) = Some rd"
    "\<And>h b. 0 \<le> b \<Longrightarrow> b < n \<Longrightarrow>
       \<exists>st h'. rd (unit_no (devices w d)) (multiplier (devices w d)) (b * multiplier (devices w d)) h =
         (st, dk h d b, h') \<and> 0 < st \<and> dk h' = dk h"
    using assms(1) by (auto simp: device_ok_def)
  obtain st h' where r: "rd (unit_no (devices w d)) (multiplier (devices w d)) (b * multiplier (devices w d)) (hw w) =
      (st, dk (hw w) d b, h')" "0 < st" "dk h' = dk (hw w)"
    using rd(2) [OF assms(2,3)] by blast
  let ?w' = "if st \<noteq> 0 then count_read (driver (devices w d)) (multiplier (devices w d)) (w\<lparr>hw := h'\<rparr>) else w\<lparr>hw := h'\<rparr>"
  have e: "device_read d 1 b w = (st, dk (hw w) d b, ?w')" by (simp add: device_read_def Let_def rd(1) r(1))
  show ?thesis
    by (rule that [OF e r(2) _ device_read_frame [OF e]]) (simp add: count_read_def r(3))
qed

lemma device_write_ok:
  assumes "device_ok dk d n w" "0 \<le> b" "b < n" "device_block_size d w \<le> int (length data)"
  obtains st w' where "device_write d data 1 b w = (st, w')" "0 < st"
    "dk (hw w') = (dk (hw w))(d := (dk (hw w) d)(b := take (nat (device_block_size d w)) data))"
    "world_frame w w'"
proof -
  obtain wr where wr: "drv_write (drivers w (driver (devices w d))) = Some wr"
    "\<And>h b data. 0 \<le> b \<Longrightarrow> b < n \<Longrightarrow> device_block_size d w \<le> int (length data) \<Longrightarrow>
       \<exists>st h'. wr (unit_no (devices w d)) data (multiplier (devices w d)) (b * multiplier (devices w d)) h =
         (st, h') \<and> 0 < st \<and>
         dk h' = (dk h)(d := (dk h d)(b := take (nat (device_block_size d w)) data))"
    using assms(1) by (auto simp: device_ok_def)
  obtain st h' where r: "wr (unit_no (devices w d)) data (multiplier (devices w d)) (b * multiplier (devices w d)) (hw w) =
      (st, h')" "0 < st"
      "dk h' = (dk (hw w))(d := (dk (hw w) d)(b := take (nat (device_block_size d w)) data))"
    using wr(2) [OF assms(2-4)] by blast
  let ?w' = "if st = 0 then count_written (driver (devices w d)) (multiplier (devices w d)) (w\<lparr>hw := h'\<rparr>) else w\<lparr>hw := h'\<rparr>"
  have e: "device_write d data 1 b w = (st, ?w')" by (simp add: device_write_def Let_def wr(1) r(1))
  show ?thesis
    by (rule that [OF e r(2) _ device_write_frame [OF e]]) (use r(2) in \<open>simp add: r(3)\<close>)
qed

text \<open>The search for a driver by name finds the most recently registered one.\<close>

lemma driver_search_spec:
  assumes "is_cstr ns nm" "\<And>dd. dd \<in> set dds \<Longrightarrow> is_cstr (names dd) (drv_name (drivers w dd))"
  shows "driver_search dds nm w = Some (case find (\<lambda>dd. names dd = ns) dds of None \<Rightarrow> 0 | Some dd \<Rightarrow> dd)"
  using assms(2)
proof (induction dds)
  case (Cons dd dds)
  have c: "is_cstr (names dd) (drv_name (drivers w dd))" using Cons.prems by simp
  have z: "0 \<notin> set (names dd)" "0 \<notin> set ns" using c assms(1) by (auto simp: is_cstr_def)
  show ?case using Cons strcmp_cstr [OF c assms(1)] cstr_order_eq [OF z] by auto
qed simp

end
