(* ===== verification/Bcache.thy ===== *)
theory Bcache
  imports Klist Device
begin

text \<open>
  The buffer cache of \<^verbatim>\<open>kernel/bcache.c\<close>.  The cached entries are linked in a list of
  \<^verbatim>\<open>kernel/list.c\<close>, whose node is the first field of an entry, so that the pointer to an entry
  is the pointer to its node; the list operations are those of \<open>Klist\<close> on the real heap.  The
  field \<open>kalloc\<close> is the behaviour of \<^verbatim>\<open>kmalloc\<close> on the blocks in use, \<open>kused\<close>: the address of the
  new block (0 for null) and what its memory happens to hold in the field \<^verbatim>\<open>dirty\<close>, which
  \<^verbatim>\<open>bcache_entry_create\<close> does not set.  The field \<open>palloc\<close> says whether \<^verbatim>\<open>page_alloc\<close> then delivers
  a page for the data.
\<close>

section \<open>State\<close>

record bcache_entry =
  device :: ptr
  block :: int
  dirty :: bool
  page :: buf

record bcache_stats =
  read_hits :: int
  read_misses :: int
  write_hits :: int
  write_misses :: int
  writebacks :: int

record 'hw bcache =
  lheap :: lheap
  entries :: "ptr \<Rightarrow> bcache_entry"
  bstats :: bcache_stats
  max_cache_size :: int
  kalloc :: "ptr set \<Rightarrow> ptr \<times> bool"
  palloc :: "ptr set \<Rightarrow> bool"
  kused :: "ptr set"
  world :: "'hw world"

definition CACHE :: ptr where "CACHE = 1"

text \<open>Storing the bytes \<open>xs\<close> at the start of a buffer.\<close>

definition overlay :: "buf \<Rightarrow> buf \<Rightarrow> buf" where
  "overlay xs ys = xs @ drop (length xs) ys"

section \<open>Operations\<close>

text \<open>Without a page the new entry is given back to \<^verbatim>\<open>kfree\<close>, and the blocks in use are as before.\<close>

definition bcache_entry_create :: "ptr \<Rightarrow> int \<Rightarrow> 'hw bcache \<Rightarrow> ptr \<times> 'hw bcache" where
  "bcache_entry_create d b s =
     (let (e, garbage) = kalloc s (kused s) in
      if e = 0 then (0, s)
      else if \<not> palloc s (kused s) then (0, s)
      else (e, s\<lparr>kused := insert e (kused s), entries := (entries s)(e := \<lparr>device = d, block = b,
        dirty = garbage, page = replicate PAGE_SIZE 0\<rparr>)\<rparr>))"

definition bcache_entry_delete :: "ptr \<Rightarrow> 'hw bcache \<Rightarrow> 'hw bcache" where
  "bcache_entry_delete e s = (if e \<noteq> 0 then s\<lparr>kused := kused s - {e}\<rparr> else s)"

definition bcache_entry_clean :: "ptr \<Rightarrow> 'hw bcache \<Rightarrow> 'hw bcache" where
  "bcache_entry_clean e s =
     (let x = entries s e in
      if dirty x then
        (let (status, w) = device_write (device x) (page x) 1 (block x) (world s) in
         s\<lparr>world := w, entries := (entries s)(e := x\<lparr>dirty := False\<rparr>),
           bstats := (bstats s)\<lparr>writebacks := writebacks (bstats s) + 1\<rparr>\<rparr>)
      else s)"

text \<open>The loop of \<^verbatim>\<open>bcache_trim\<close> ends when the list is short enough; the entry taken off is
  written back and freed.\<close>

partial_function (option) bcache_trim :: "'hw bcache \<Rightarrow> 'hw bcache option" where
  "bcache_trim s =
     Option.bind (list_size CACHE (lheap s)) (\<lambda>n.
       if max_cache_size s < n then
         Option.bind (list_pop_tail CACHE (lheap s)) (\<lambda>(e, h).
           bcache_trim (bcache_entry_delete e (bcache_entry_clean e (s\<lparr>lheap := h\<rparr>))))
       else Some s)"

partial_function (option) bcache_find_from :: "'hw bcache \<Rightarrow> ptr \<Rightarrow> int \<Rightarrow> ptr \<Rightarrow> ptr option" where
  "bcache_find_from s d b n =
     (if n = 0 then Some 0
      else if device (entries s n) = d \<and> block (entries s n) = b then Some n
      else bcache_find_from s d b (nxt (nodes (lheap s) n)))"

definition bcache_find :: "ptr \<Rightarrow> int \<Rightarrow> 'hw bcache \<Rightarrow> ptr option" where
  "bcache_find d b s = bcache_find_from s d b (head (lists (lheap s) CACHE))"

text \<open>The result is the entry, the hit flag and the state; a null entry skips the trimming.\<close>

definition bcache_find_or_create :: "ptr \<Rightarrow> int \<Rightarrow> 'hw bcache \<Rightarrow> (ptr \<times> bool \<times> 'hw bcache) option" where
  "bcache_find_or_create d b s = do {
     e \<leftarrow> bcache_find d b s;
     if e \<noteq> 0 then do { s \<leftarrow> bcache_trim s; Some (e, True, s) }
     else do {
       let (e, s) = bcache_entry_create d b s;
       if e = 0 then Some (0, False, s)
       else do {
         h \<leftarrow> list_push_head CACHE e (lheap s);
         s \<leftarrow> bcache_trim (s\<lparr>lheap := h\<rparr>);
         Some (e, False, s)
       }
     }
   }"

text \<open>The result is the return value, the bytes copied to the caller's buffer and the state.\<close>

definition bcache_read_block :: "ptr \<Rightarrow> int \<Rightarrow> 'hw bcache \<Rightarrow> (int \<times> buf \<times> 'hw bcache) option" where
  "bcache_read_block d b s = do {
     (e, hit, s) \<leftarrow> bcache_find_or_create d b s;
     if e = 0 then Some (kerr KERROR_OUT_OF_MEMORY, [], s)
     else do {
       let (result, s) =
         (if hit then (1, s\<lparr>bstats := (bstats s)\<lparr>read_hits := read_hits (bstats s) + 1\<rparr>\<rparr>)
          else
            (let (status, bytes, w) = device_read d 1 b (world s) in
             (status, s\<lparr>world := w,
               entries := (entries s)(e := (entries s e)\<lparr>page := overlay bytes (page (entries s e))\<rparr>),
               bstats := (bstats s)\<lparr>read_misses := read_misses (bstats s) + 1\<rparr>\<rparr>)));
       if 0 < result then
         Some (result, take (nat (device_block_size d (world s))) (page (entries s e)), s)
       else do {
         h \<leftarrow> list_remove e (lheap s);
         Some (result, [], bcache_entry_delete e (s\<lparr>lheap := h\<rparr>))
       }
     }
   }"

text \<open>The loops over several blocks; \<open>r\<close> is the last result, uninitialised before the first.\<close>

fun bcache_read_loop :: "ptr \<Rightarrow> nat \<Rightarrow> int \<Rightarrow> int \<Rightarrow> int \<Rightarrow> buf \<Rightarrow> 'hw bcache \<Rightarrow>
    (int \<times> int \<times> buf \<times> 'hw bcache) option" where
  "bcache_read_loop d 0 off r count data s = Some (r, count, data, s)"
| "bcache_read_loop d (Suc n) off r count data s = do {
     (r, bytes, s) \<leftarrow> bcache_read_block d off s;
     if r < 1 then Some (r, count, data, s)
     else bcache_read_loop d n (off + 1) r (count + 1) (data @ bytes) s
   }"

definition bcache_read :: "ptr \<Rightarrow> int \<Rightarrow> int \<Rightarrow> int \<Rightarrow> 'hw bcache \<Rightarrow> (int \<times> buf \<times> 'hw bcache) option" where
  "bcache_read d blocks off garbage s = do {
     (r, count, data, s) \<leftarrow> bcache_read_loop d (nat blocks) off garbage 0 [] s;
     Some (if 0 < count then count else r, data, s)
   }"

definition bcache_write_block :: "ptr \<Rightarrow> buf \<Rightarrow> int \<Rightarrow> 'hw bcache \<Rightarrow> (int \<times> 'hw bcache) option" where
  "bcache_write_block d data b s = do {
     (e, hit, s) \<leftarrow> bcache_find_or_create d b s;
     if e = 0 then Some (kerr KERROR_OUT_OF_MEMORY, s)
     else
       let st = bstats s;
           s = s\<lparr>bstats := (if hit then st\<lparr>write_hits := write_hits st + 1\<rparr>
               else st\<lparr>write_misses := write_misses st + 1\<rparr>)\<rparr>;
           x = entries s e;
           bs = nat (device_block_size d (world s)) in
       Some (1, s\<lparr>entries := (entries s)(e := x\<lparr>page := overlay (take bs data) (page x), dirty := True\<rparr>)\<rparr>)
   }"

fun bcache_write_loop :: "ptr \<Rightarrow> nat \<Rightarrow> int \<Rightarrow> int \<Rightarrow> int \<Rightarrow> buf \<Rightarrow> 'hw bcache \<Rightarrow>
    (int \<times> int \<times> 'hw bcache) option" where
  "bcache_write_loop d 0 off r count data s = Some (r, count, s)"
| "bcache_write_loop d (Suc n) off r count data s = do {
     (r, s) \<leftarrow> bcache_write_block d data off s;
     if r < 1 then Some (r, count, s)
     else bcache_write_loop d n (off + 1) r (count + 1)
            (drop (nat (device_block_size d (world s))) data) s
   }"

definition bcache_write :: "ptr \<Rightarrow> buf \<Rightarrow> int \<Rightarrow> int \<Rightarrow> int \<Rightarrow> 'hw bcache \<Rightarrow> (int \<times> 'hw bcache) option" where
  "bcache_write d data blocks off garbage s = do {
     (r, count, s) \<leftarrow> bcache_write_loop d (nat blocks) off garbage 0 data s;
     Some (if 0 < count then count else r, s)
   }"

definition bcache_flush_block :: "ptr \<Rightarrow> int \<Rightarrow> 'hw bcache \<Rightarrow> 'hw bcache option" where
  "bcache_flush_block d b s = do {
     e \<leftarrow> bcache_find d b s;
     Some (if e \<noteq> 0 then bcache_entry_clean e s else s)
   }"

partial_function (option) bcache_flush_device_from :: "ptr \<Rightarrow> ptr \<Rightarrow> 'hw bcache \<Rightarrow> 'hw bcache option" where
  "bcache_flush_device_from d n s =
     (if n = 0 then Some s
      else bcache_flush_device_from d (nxt (nodes (lheap s) n))
             (if device (entries s n) = d then bcache_entry_clean n s else s))"

definition bcache_flush_device :: "ptr \<Rightarrow> 'hw bcache \<Rightarrow> 'hw bcache option" where
  "bcache_flush_device d s = bcache_flush_device_from d (head (lists (lheap s) CACHE)) s"

partial_function (option) bcache_flush_all_from :: "ptr \<Rightarrow> 'hw bcache \<Rightarrow> 'hw bcache option" where
  "bcache_flush_all_from n s =
     (if n = 0 then Some s
      else bcache_flush_all_from (nxt (nodes (lheap s) n)) (bcache_entry_clean n s))"

definition bcache_flush_all :: "'hw bcache \<Rightarrow> 'hw bcache option" where
  "bcache_flush_all s = bcache_flush_all_from (head (lists (lheap s) CACHE)) s"

definition bcache_get_stats :: "'hw bcache \<Rightarrow> bcache_stats" where
  "bcache_get_stats s = bstats s"

section \<open>The abstract view: the blocks of the devices\<close>

definition key_of :: "'hw bcache \<Rightarrow> ptr \<Rightarrow> ptr \<times> int" where
  "key_of s e = (device (entries s e), block (entries s e))"

definition bsize :: "'hw bcache \<Rightarrow> ptr \<Rightarrow> nat" where
  "bsize s d = nat (device_block_size d (world s))"

text \<open>What a reader should see: the cached copy of a block if there is one, or else the disk.\<close>

definition view :: "('hw \<Rightarrow> ptr \<Rightarrow> int \<Rightarrow> buf) \<Rightarrow> 'hw bcache \<Rightarrow> ptr list \<Rightarrow> ptr \<Rightarrow> int \<Rightarrow> buf" where
  "view dk s xs d b =
     (case find (\<lambda>e. key_of s e = (d, b)) xs of
        Some e \<Rightarrow> take (bsize s d) (page (entries s e))
      | None \<Rightarrow> dk (hw (world s)) d b)"

text \<open>An entry is in order if its device works, it holds a page, and a clean one agrees with the
  disk.\<close>

definition entry_ok :: "('hw \<Rightarrow> ptr \<Rightarrow> int \<Rightarrow> buf) \<Rightarrow> (ptr \<Rightarrow> int) \<Rightarrow> 'hw bcache \<Rightarrow> ptr \<Rightarrow> bool" where
  "entry_ok dk N s e \<longleftrightarrow>
     (let x = entries s e; d = device x in
      device_ok dk d (N d) (world s) \<and> 0 \<le> block x \<and> block x < N d \<and> length (page x) = PAGE_SIZE \<and>
      (\<not> dirty x \<longrightarrow> take (bsize s d) (page x) = dk (hw (world s)) d (block x)))"

definition contents_ok :: "('hw \<Rightarrow> ptr \<Rightarrow> int \<Rightarrow> buf) \<Rightarrow> (ptr \<Rightarrow> int) \<Rightarrow> 'hw bcache \<Rightarrow> ptr list \<Rightarrow> bool" where
  "contents_ok dk N s xs \<longleftrightarrow> distinct (map (key_of s) xs) \<and> 0 \<notin> set xs \<and> set xs \<subseteq> kused s \<and> finite (kused s) \<and>
     (\<forall>e \<in> set xs. entry_ok dk N s e)"

definition cache_ok :: "('hw \<Rightarrow> ptr \<Rightarrow> int \<Rightarrow> buf) \<Rightarrow> (ptr \<Rightarrow> int) \<Rightarrow> 'hw bcache \<Rightarrow> ptr list \<Rightarrow> bool" where
  "cache_ok dk N s xs \<longleftrightarrow> list_rep (lheap s) CACHE xs \<and> contents_ok dk N s xs \<and>
     1 \<le> max_cache_size s \<and> int (length xs) \<le> max_cache_size s"

text \<open>The part of the state that only \<^verbatim>\<open>kmalloc\<close> and the configuration determine.\<close>

definition same_setup :: "'hw bcache \<Rightarrow> 'hw bcache \<Rightarrow> bool" where
  "same_setup s s' \<longleftrightarrow> kalloc s' = kalloc s \<and> palloc s' = palloc s \<and> max_cache_size s' = max_cache_size s \<and>
     world_frame (world s) (world s')"

lemma same_setup_refl [simp]: "same_setup s s"
  by (simp add: same_setup_def)

lemma same_setup_trans: "same_setup s s' \<Longrightarrow> same_setup s' s'' \<Longrightarrow> same_setup s s''"
  by (auto simp: same_setup_def intro: world_frame_trans)

lemma bsize_setup: "same_setup s s' \<Longrightarrow> bsize s' d = bsize s d"
  using device_block_size_frame [of "world s" "world s'" d] by (simp add: same_setup_def bsize_def)

lemma device_ok_bsize:
  "device_ok dk d n (world s) \<Longrightarrow> bsize s d \<le> PAGE_SIZE \<and> length (dk h d b) = bsize s d \<and>
     device_block_size d (world s) = int (bsize s d)"
  by (auto simp: device_ok_def bsize_def device_block_size_def)

lemma find_key: "find (\<lambda>e. key_of s e = k) xs = Some e \<Longrightarrow> e \<in> set xs \<and> key_of s e = k"
  by (auto simp: find_Some_iff in_set_conv_nth)

lemma find_key_iff:
  "distinct (map (key_of s) xs) \<Longrightarrow> find (\<lambda>e. key_of s e = k) xs = Some e \<longleftrightarrow> e \<in> set xs \<and> key_of s e = k"
proof (induction xs)
  case (Cons x xs)
  then show ?case by (auto simp: image_iff dest: find_key)
qed simp

lemma find_key_None: "find (\<lambda>e. key_of s e = k) xs = None \<longleftrightarrow> k \<notin> key_of s ` set xs"
  by (auto simp: find_None_iff)

lemma bcache_find_from_rep:
  "dll (nodes (lheap s)) CACHE p xs 0 \<Longrightarrow>
     bcache_find_from s d b (hdq xs 0) =
       Some (case find (\<lambda>e. key_of s e = (d, b)) xs of None \<Rightarrow> 0 | Some e \<Rightarrow> e)"
proof (induction xs arbitrary: p)
  case Nil
  then show ?case by (subst bcache_find_from.simps) simp
next
  case (Cons x xs)
  then show ?case by (subst bcache_find_from.simps) (auto simp: key_of_def)
qed

lemma bcache_find_rep:
  "list_rep (lheap s) CACHE xs \<Longrightarrow>
     bcache_find d b s = Some (case find (\<lambda>e. key_of s e = (d, b)) xs of None \<Rightarrow> 0 | Some e \<Rightarrow> e)"
  using bcache_find_from_rep [of s 0 xs d b] by (simp add: bcache_find_def list_rep_def)

text \<open>Writing an entry back: the disk has its page, the entry is clean, nothing else changes.\<close>

lemma clean_spec:
  assumes ok: "entry_ok dk N s e"
  defines "s' \<equiv> bcache_entry_clean e s" and "x \<equiv> entries s e"
  shows "same_setup s s'" "lheap s' = lheap s" "kused s' = kused s"
    "entries s' = (entries s)(e := x\<lparr>dirty := False\<rparr>)"
    "dk (hw (world s')) = (dk (hw (world s)))(device x := (dk (hw (world s)) (device x))
       (block x := take (bsize s (device x)) (page x)))"
proof -
  have dv: "device_ok dk (device x) (N (device x)) (world s)" "0 \<le> block x" "block x < N (device x)"
    "length (page x) = PAGE_SIZE"
    "\<not> dirty x \<Longrightarrow> take (bsize s (device x)) (page x) = dk (hw (world s)) (device x) (block x)"
    using ok by (simp_all add: entry_ok_def Let_def x_def)
  have le: "device_block_size (device x) (world s) \<le> int (length (page x))"
    using device_ok_bsize [OF dv(1)] dv(4) by simp
  obtain st w' where w: "device_write (device x) (page x) 1 (block x) (world s) = (st, w')"
    "dk (hw w') = (dk (hw (world s)))(device x := (dk (hw (world s)) (device x))
       (block x := take (nat (device_block_size (device x) (world s))) (page x)))"
    "world_frame (world s) w'"
    using device_write_ok [OF dv(1-3) le] by metis
  have s': "s' = (if dirty x then s\<lparr>world := w', entries := (entries s)(e := x\<lparr>dirty := False\<rparr>),
           bstats := (bstats s)\<lparr>writebacks := writebacks (bstats s) + 1\<rparr>\<rparr> else s)"
    by (simp add: s'_def bcache_entry_clean_def Let_def x_def [symmetric] w(1))
  show "same_setup s s'" "lheap s' = lheap s" "kused s' = kused s"
    using w(3) by (simp_all add: s' same_setup_def)
  have xd: "\<not> dirty x \<Longrightarrow> x\<lparr>dirty := False\<rparr> = x" by (cases x) simp
  show "entries s' = (entries s)(e := x\<lparr>dirty := False\<rparr>)"
    using xd by (auto simp: s' x_def fun_upd_idem)
  show "dk (hw (world s')) = (dk (hw (world s)))(device x := (dk (hw (world s)) (device x))
       (block x := take (bsize s (device x)) (page x)))"
    using w(2) dv(5) by (auto simp: s' bsize_def)
qed

lemma clean_key [simp]:
  "entry_ok dk N s e \<Longrightarrow> key_of (bcache_entry_clean e s) y = key_of s y"
  using clean_spec(4) [of dk N s e] by (simp add: key_of_def)

lemma clean_entry_ok:
  assumes ok: "entry_ok dk N s e" and y: "entry_ok dk N s y" and ne: "y = e \<or> key_of s y \<noteq> key_of s e"
  shows "entry_ok dk N (bcache_entry_clean e s) y"
proof -
  note c = clean_spec [OF ok]
  have "device_ok dk d n (world (bcache_entry_clean e s)) = device_ok dk d n (world s)" for d n
    using c(1) by (simp add: same_setup_def device_ok_frame)
  then show ?thesis
    using y ne bsize_setup [OF c(1)]
    by (auto simp: entry_ok_def Let_def c(4,5) key_of_def)
qed

lemma clean_ok:
  assumes "contents_ok dk N s xs" "e \<in> set xs"
  shows "contents_ok dk N (bcache_entry_clean e s) xs" "view dk (bcache_entry_clean e s) xs = view dk s xs"
proof -
  have e: "entry_ok dk N s e" using assms by (simp add: contents_ok_def)
  note c = clean_spec [OF e]
  have keys: "key_of (bcache_entry_clean e s) = key_of s" by (rule ext) (rule clean_key [OF e])
  have ne: "y = e \<or> key_of s y \<noteq> key_of s e" if "y \<in> set xs" for y
    using assms that by (auto simp: contents_ok_def distinct_map inj_on_def)
  show "contents_ok dk N (bcache_entry_clean e s) xs"
    using assms(1) c(1-3) clean_entry_ok [OF e _ ne] by (auto simp: contents_ok_def keys)
  show "view dk (bcache_entry_clean e s) xs = view dk s xs"
  proof (intro ext)
    fix d b
    show "view dk (bcache_entry_clean e s) xs d b = view dk s xs d b"
    proof (cases "find (\<lambda>e. key_of s e = (d, b)) xs")
      case None
      then have "key_of s e \<noteq> (d, b)" using assms(2) by (metis find_key_None image_eqI)
      then show ?thesis using None by (auto simp: view_def keys c(5) key_of_def)
    next
      case (Some y)
      then show ?thesis by (simp add: view_def keys c(4) bsize_setup [OF c(1)])
    qed
  qed
qed

text \<open>Taking the oldest entry off the list, writing it back and freeing it.\<close>

lemma view_cong:
  "world s' = world s \<Longrightarrow> entries s' = entries s \<Longrightarrow> view dk s' xs = view dk s xs"
  by (intro ext) (simp add: view_def key_of_def bsize_def split: option.split)

lemma entry_ok_cong:
  "world s' = world s \<Longrightarrow> entries s' = entries s \<Longrightarrow> entry_ok dk N s' e = entry_ok dk N s e"
  "entries s' = entries s \<Longrightarrow> key_of s' e = key_of s e"
  by (simp_all add: entry_ok_def key_of_def bsize_def)

lemma entry_ok_heap [simp]:
  "entry_ok dk N (s\<lparr>lheap := h\<rparr>) e = entry_ok dk N s e" "key_of (s\<lparr>lheap := h\<rparr>) e = key_of s e"
  "view dk (s\<lparr>lheap := h\<rparr>) xs = view dk s xs" "bsize (s\<lparr>lheap := h\<rparr>) d = bsize s d"
  by ((rule entry_ok_cong view_cong; simp)+, simp add: bsize_def)

lemma contents_ok_heap [simp]: "contents_ok dk N (s\<lparr>lheap := h\<rparr>) xs = contents_ok dk N s xs"
  by (simp add: contents_ok_def cong: map_cong)

lemma entry_delete_kept [simp]:
  "world (bcache_entry_delete x s) = world s" "entries (bcache_entry_delete x s) = entries s"
  "lheap (bcache_entry_delete x s) = lheap s" "max_cache_size (bcache_entry_delete x s) = max_cache_size s"
  "kalloc (bcache_entry_delete x s) = kalloc s" "palloc (bcache_entry_delete x s) = palloc s"
  by (simp_all add: bcache_entry_delete_def)

lemma entry_delete_simps [simp]:
  "entry_ok dk N (bcache_entry_delete x s) e = entry_ok dk N s e"
  "key_of (bcache_entry_delete x s) e = key_of s e" "view dk (bcache_entry_delete x s) xs = view dk s xs"
  "same_setup s (bcache_entry_delete x s)"
  by ((rule entry_ok_cong view_cong; simp)+, simp add: same_setup_def)

lemma evict_ok:
  assumes ok: "contents_ok dk N s (xs @ [e])"
  defines "s' \<equiv> bcache_entry_delete e (bcache_entry_clean e s)"
  shows "contents_ok dk N s' xs" "view dk s' xs = view dk s (xs @ [e])" "same_setup s s'"
    "lheap s' = lheap s" "entries s' = (entries s)(e := (entries s e)\<lparr>dirty := False\<rparr>)"
    "kused s' = kused s - {e}"
proof -
  have e: "entry_ok dk N s e" using ok by (simp add: contents_ok_def)
  note c = clean_spec [OF e]
  have nx: "e \<notin> set xs" using ok by (auto simp: contents_ok_def)
  have keys: "key_of s' y = key_of s y" for y using clean_key [OF e] by (simp add: s'_def)
  have "key_of s e \<notin> key_of s ` set xs" using ok by (simp add: contents_ok_def)
  then have ne: "key_of s y \<noteq> key_of s e" if "y \<in> set xs" for y
    using that by (metis image_eqI)
  show su: "same_setup s s'" unfolding s'_def by (rule same_setup_trans [OF c(1)]) simp
  show ent: "entries s' = (entries s)(e := (entries s e)\<lparr>dirty := False\<rparr>)" "lheap s' = lheap s"
    using c(2,4) by (simp_all add: s'_def)
  have "e \<noteq> 0" using ok by (auto simp: contents_ok_def)
  then show ku: "kused s' = kused s - {e}" using c(3) by (simp add: s'_def bcache_entry_delete_def)
  have "entry_ok dk N s' y" if "y \<in> set xs" for y
    using clean_entry_ok [OF e _ disjI2 [OF ne [OF that]]] ok that by (simp add: s'_def contents_ok_def)
  then show "contents_ok dk N s' xs"
    using ok nx by (auto simp: contents_ok_def keys ku cong: map_cong)
  show "view dk s' xs = view dk s (xs @ [e])"
  proof (intro ext)
    fix d b
    have b: "bsize s' d = bsize s d" by (rule bsize_setup [OF su])
    have fx: "find (\<lambda>y. key_of s' y = (d, b)) xs = find (\<lambda>y. key_of s y = (d, b)) xs"
      by (simp add: keys)
    have dsk: "dk (hw (world s')) = (dk (hw (world s)))(device (entries s e) :=
        (dk (hw (world s)) (device (entries s e)))
          (block (entries s e) := take (bsize s (device (entries s e))) (page (entries s e))))"
      using c(5) by (simp add: s'_def)
    show "view dk s' xs d b = view dk s (xs @ [e]) d b"
    proof (cases "find (\<lambda>y. key_of s y = (d, b)) xs")
      case None
      have "find (\<lambda>y. key_of s y = (d, b)) (xs @ [e]) = (if key_of s e = (d, b) then Some e else None)"
        using None by (induction xs) (auto split: if_splits)
      then have "view dk s (xs @ [e]) d b =
          (if key_of s e = (d, b) then take (bsize s d) (page (entries s e)) else dk (hw (world s)) d b)"
        by (simp add: view_def)
      moreover have "view dk s' xs d b = dk (hw (world s')) d b" by (simp add: view_def fx None)
      ultimately show ?thesis by (auto simp: dsk key_of_def)
    next
      case (Some y)
      then have "y \<noteq> e" using nx find_key by metis
      moreover have "find (\<lambda>y. key_of s y = (d, b)) (xs @ [e]) = Some y"
        using Some by (induction xs) (auto split: if_splits)
      ultimately show ?thesis using Some by (simp add: view_def fx ent b)
    qed
  qed
qed

lemma list_rep_size: "list_rep h l xs \<Longrightarrow> list_size l h = Some (int (length xs))"
  by (auto simp: list_rep_def list_size_def get_list_def)

text \<open>Trimming after one entry was added: nothing happens, or the oldest entry goes.\<close>

lemma trim_none:
  assumes "list_rep (lheap s) CACHE xs" "int (length xs) \<le> max_cache_size s"
  shows "bcache_trim s = Some s"
  using assms by (subst bcache_trim.simps) (simp add: list_rep_size)

lemma trim_one:
  assumes rep: "list_rep (lheap s) CACHE (xs @ [z])" and len: "int (length xs) = max_cache_size s"
  obtains h where "list_rep h CACHE xs"
    "bcache_trim s = Some (bcache_entry_delete z (bcache_entry_clean z (s\<lparr>lheap := h\<rparr>)))"
proof -
  obtain h where h: "list_pop_tail CACHE (lheap s) = Some (z, h)" "list_rep h CACHE xs"
    using pop_tail_rep [OF rep] by metis
  let ?s1 = "bcache_entry_delete z (bcache_entry_clean z (s\<lparr>lheap := h\<rparr>))"
  have k: "lheap ?s1 = h" "max_cache_size ?s1 = max_cache_size s"
    by (simp_all add: bcache_entry_clean_def Let_def split: prod.split)
  have "bcache_trim s = bcache_trim ?s1"
    using len by (subst bcache_trim.simps) (simp add: list_rep_size [OF rep] h(1))
  also have "\<dots> = Some ?s1" by (rule trim_none [of _ xs]) (simp_all only: k h(2) len order_refl)
  finally show ?thesis using that h(2) by blast
qed

section \<open>Finding or creating an entry\<close>

text \<open>The conditions on a request: the device is a disk with the block, and \<^verbatim>\<open>kmalloc\<close> does not
  return a block in use.\<close>

definition kalloc_ok :: "'hw bcache \<Rightarrow> bool" where
  "kalloc_ok s \<longleftrightarrow> (\<forall>U. finite U \<longrightarrow> fst (kalloc s U) \<notin> U)"

text \<open>There is memory for a new entry: the structure and its page.\<close>

definition entry_room :: "'hw bcache \<Rightarrow> bool" where
  "entry_room s \<longleftrightarrow> fst (kalloc s (kused s)) \<noteq> 0 \<and> palloc s (kused s)"

lemma hit_spec:
  assumes ok: "cache_ok dk N s xs" and f: "find (\<lambda>e. key_of s e = (d, b)) xs = Some e"
  shows "bcache_find_or_create d b s = Some (e, True, s)"
proof -
  have rep: "list_rep (lheap s) CACHE xs" using ok by (simp add: cache_ok_def)
  have "e \<noteq> 0" using find_key [OF f] list_rep_nonnull [OF rep] by metis
  then show ?thesis using trim_none [OF rep] ok
    by (simp add: bcache_find_or_create_def bcache_find_rep [OF rep] f cache_ok_def)
qed

lemma nomem_spec:
  assumes ok: "cache_ok dk N s xs" and f: "find (\<lambda>e. key_of s e = (d, b)) xs = None"
    and a: "\<not> entry_room s"
  shows "bcache_find_or_create d b s = Some (0, False, s)"
proof -
  have rep: "list_rep (lheap s) CACHE xs" using ok by (simp add: cache_ok_def)
  obtain e g where "kalloc s (kused s) = (e, g)" by (cases "kalloc s (kused s)")
  then show ?thesis using a
    by (auto simp: bcache_find_or_create_def bcache_find_rep [OF rep] f bcache_entry_create_def entry_room_def)
qed

text \<open>A miss: a new entry with a zero page at the head of the list, with the rest in order.\<close>

lemma miss_spec:
  assumes ok: "cache_ok dk N s xs" and f: "find (\<lambda>e. key_of s e = (d, b)) xs = None"
    and ka: "kalloc_ok s" and nz: "entry_room s"
  obtains e g s' ys where "bcache_find_or_create d b s = Some (e, False, s')"
    "e \<noteq> 0" "e \<notin> set ys" "list_rep (lheap s') CACHE (e # ys)" "contents_ok dk N s' ys"
    "entries s' e = \<lparr>device = d, block = b, dirty = g, page = replicate PAGE_SIZE 0\<rparr>"
    "e \<in> kused s'" "view dk s' ys = view dk s xs" "same_setup s s'" "(d, b) \<notin> key_of s' ` set ys"
    "1 \<le> max_cache_size s'" "int (Suc (length ys)) \<le> max_cache_size s'"
proof -
  have rep: "list_rep (lheap s) CACHE xs" and co: "contents_ok dk N s xs"
    and mx: "1 \<le> max_cache_size s" "int (length xs) \<le> max_cache_size s"
    using ok by (simp_all add: cache_ok_def)
  obtain e g where k: "kalloc s (kused s) = (e, g)" by (cases "kalloc s (kused s)")
  have e0: "e \<noteq> 0" "palloc s (kused s)" using nz k by (simp_all add: entry_room_def)
  have "fst (kalloc s (kused s)) \<notin> kused s" using ka co by (simp add: kalloc_ok_def contents_ok_def)
  then have eu: "e \<notin> kused s" using k by simp
  then have ex: "e \<notin> set xs" using co by (auto simp: contents_ok_def)
  let ?x = "\<lparr>device = d, block = b, dirty = g, page = replicate PAGE_SIZE 0\<rparr>"
  let ?s1 = "s\<lparr>kused := insert e (kused s), entries := (entries s)(e := ?x)\<rparr>"
  obtain h where h: "list_push_head CACHE e (lheap s) = Some h" "list_rep h CACHE (e # xs)"
    using push_head_rep [OF rep e0(1) ex] by metis
  let ?s2 = "?s1\<lparr>lheap := h\<rparr>"
  have run: "bcache_find_or_create d b s = Option.bind (bcache_trim ?s2) (\<lambda>s. Some (e, False, s))"
    using e0 by (simp add: bcache_find_or_create_def bcache_find_rep [OF rep] f bcache_entry_create_def k h(1))
  have key: "key_of ?s2 y = key_of s y" if "y \<in> set xs" for y using that ex by (auto simp: key_of_def)
  have eok: "entry_ok dk N ?s2 y = entry_ok dk N s y" if "y \<in> set xs" for y
    using that ex by (auto simp: entry_ok_def bsize_def)
  have co2: "contents_ok dk N ?s2 xs"
    using co eok key by (auto simp: contents_ok_def cong: map_cong)
  have fk: "find (\<lambda>y. key_of ?s2 y = kb) zs = find (\<lambda>y. key_of s y = kb) zs" if "set zs \<subseteq> set xs" for kb zs
    by (rule find_cong [OF HOL.refl]) (use key that in auto)
  have v2: "view dk ?s2 xs = view dk s xs"
  proof (intro ext)
    fix d' b'
    have "y \<noteq> e" if "find (\<lambda>y. key_of s y = (d', b')) xs = Some y" for y using find_key [OF that] ex by metis
    then show "view dk ?s2 xs d' b' = view dk s xs d' b'"
      unfolding view_def fk [OF subset_refl] by (auto simp: bsize_def split: option.splits)
  qed
  have su2: "same_setup s ?s2" by (simp add: same_setup_def)
  have nk: "(d, b) \<notin> key_of s ` set xs" using f by (simp add: find_key_None)
  show ?thesis
  proof (cases "int (length xs) = max_cache_size s")
    case False
    then have "bcache_trim ?s2 = Some ?s2" using trim_none [of ?s2 "e # xs"] h(2) mx by simp
    then have r: "bcache_find_or_create d b s = Some (e, False, ?s2)" using run by simp
    show ?thesis
      by (rule that [OF r e0(1) ex _ co2 _ _ v2 su2]) (use h(2) nk key False mx in \<open>auto simp: image_iff\<close>)
  next
    case True
    then obtain ys z where xs: "xs = ys @ [z]" using mx by (cases xs rule: rev_cases) auto
    obtain h' where h': "list_rep h' CACHE (e # ys)"
      "bcache_trim ?s2 = Some (bcache_entry_delete z (bcache_entry_clean z (?s2\<lparr>lheap := h'\<rparr>)))"
      using trim_one [of ?s2 "e # ys" z] h(2) True xs by auto
    let ?s3 = "?s2\<lparr>lheap := h'\<rparr>"
    let ?s4 = "bcache_entry_delete z (bcache_entry_clean z ?s3)"
    have co3: "contents_ok dk N ?s3 (ys @ [z])" using co2 unfolding xs contents_ok_heap .
    have v3: "view dk ?s3 (ys @ [z]) = view dk s xs" using v2 by (simp add: xs)
    note ev = evict_ok [OF co3]
    have su: "same_setup s ?s4" by (rule same_setup_trans [OF _ ev(3)]) (simp add: same_setup_def)
    have ez: "e \<noteq> z" using ex xs by auto
    have keys: "key_of ?s4 y = key_of s y" if "y \<in> set xs" for y
      using that ex ev(5) by (auto simp: key_of_def)
    have r: "bcache_find_or_create d b s = Some (e, False, ?s4)" using run h'(2) by simp
    have nk': "(d, b) \<notin> key_of ?s4 ` set ys" using nk keys xs by (auto simp: image_iff)
    have ey: "e \<notin> set ys" using ex xs by auto
    have rep4: "list_rep (lheap ?s4) CACHE (e # ys)" using h'(1) by (simp only: ev(4)) simp
    have ent4: "entries ?s4 e = ?x" unfolding ev(5) using ez by simp
    have ku4: "e \<in> kused ?s4" unfolding ev(6) using ez by simp
    have m: "max_cache_size ?s4 = max_cache_size s" using su by (simp add: same_setup_def)
    show ?thesis
      by (rule that [OF r e0(1) ey rep4 ev(1) ent4 ku4 _ su nk']) (use ev(2) v3 m mx True xs in simp_all)
  qed
qed

section \<open>Reading and writing\<close>

lemma overlay_length: "length a \<le> length c \<Longrightarrow> length (overlay a c) = length c"
  by (simp add: overlay_def)

lemma take_overlay: "take (length a) (overlay a c) = a"
  by (simp add: overlay_def)

lemma view_cached:
  "contents_ok dk N s xs \<Longrightarrow> e \<in> set xs \<Longrightarrow> key_of s e = (d, b) \<Longrightarrow>
     view dk s xs d b = take (bsize s d) (page (entries s e))"
  using find_key_iff [of s xs "(d, b)" e] by (simp add: view_def contents_ok_def)

text \<open>The entry of the request is replaced by one with another page.\<close>

lemma entry_update:
  assumes co: "contents_ok dk N s ys" and e: "e \<notin> set ys" "e \<noteq> 0" "e \<in> kused s"
    and nk: "(d, b) \<notin> key_of s ` set ys"
    and s': "entries s' = (entries s)(e := x)" "kused s' = kused s" "same_setup s s'"
      "dk (hw (world s')) = dk (hw (world s))"
    and x: "device x = d" "block x = b" "length (page x) = PAGE_SIZE"
      "device_ok dk d (N d) (world s)" "0 \<le> b" "b < N d"
      "\<not> dirty x \<Longrightarrow> take (bsize s d) (page x) = dk (hw (world s)) d b"
  shows "contents_ok dk N s' (e # ys)"
    "view dk s' (e # ys) = (view dk s ys)(d := (view dk s ys d)(b := take (bsize s d) (page x)))"
proof -
  note bz = bsize_setup [OF s'(3)]
  have fr: "world_frame (world s) (world s')" using s'(3) by (simp add: same_setup_def)
  note dok = device_ok_frame [OF fr]
  have key: "key_of s' y = key_of s y" if "y \<in> set ys" for y
    using that e(1) by (auto simp: key_of_def s'(1))
  have ke: "key_of s' e = (d, b)" by (simp add: key_of_def s'(1) x(1,2))
  have old: "entry_ok dk N s' y = entry_ok dk N s y" if "y \<in> set ys" for y
    using that e(1) by (auto simp: entry_ok_def Let_def s'(1,4) bz dok)
  have new: "entry_ok dk N s' e" using x by (simp add: entry_ok_def Let_def s'(1,4) bz dok)
  show "contents_ok dk N s' (e # ys)"
    using co e nk new old key by (auto simp: contents_ok_def ke s'(2) image_iff cong: map_cong)
  have fk: "find (\<lambda>y. key_of s' y = k) ys = find (\<lambda>y. key_of s y = k) ys" for k
    by (rule find_cong [OF HOL.refl]) (use key in auto)
  show "view dk s' (e # ys) = (view dk s ys)(d := (view dk s ys d)(b := take (bsize s d) (page x)))"
  proof (intro ext)
    fix d' b'
    have ne: "y \<noteq> e" if "find (\<lambda>y. key_of s y = (d', b')) ys = Some y" for y
      using find_key [OF that] e(1) by metis
    show "view dk s' (e # ys) d' b' =
        ((view dk s ys)(d := (view dk s ys d)(b := take (bsize s d) (page x)))) d' b'"
    proof (cases "d' = d \<and> b' = b")
      case True
      then show ?thesis by (simp add: view_def ke s'(1) bz)
    next
      case False
      then have "view dk s' (e # ys) d' b' = view dk s ys d' b'"
        using ne by (auto simp: view_def ke fk s'(1,4) bz split: option.splits)
      then show ?thesis using False by auto
    qed
  qed
qed

lemma entry_replace:
  assumes co: "contents_ok dk N s xs" and e: "e \<in> set xs" "key_of s e = (d, b)"
    and s': "entries s' = (entries s)(e := x)" "world s' = world s" "same_setup s s'" "kused s' = kused s"
    and x: "device x = d" "block x = b" "length (page x) = PAGE_SIZE" "dirty x"
  shows "contents_ok dk N s' xs"
    "view dk s' xs = (view dk s xs)(d := (view dk s xs d)(b := take (bsize s d) (page x)))"
proof -
  note bz = bsize_setup [OF s'(3)]
  have key: "key_of s' y = key_of s y" for y using e(2) x(1,2) by (auto simp: key_of_def s'(1))
  have eok: "entry_ok dk N s e" using co e(1) by (simp add: contents_ok_def)
  then have new: "entry_ok dk N s' e"
    using x e(2) by (simp add: entry_ok_def Let_def s'(1,2) key_of_def)
  have old: "entry_ok dk N s' y = entry_ok dk N s y" if "y \<noteq> e" for y
    using that by (simp add: entry_ok_def Let_def s'(1,2) bz)
  have "entry_ok dk N s' y" if "y \<in> set xs" for y
    using new old [of y] co that by (cases "y = e") (simp_all add: contents_ok_def)
  then show "contents_ok dk N s' xs" using co by (simp add: contents_ok_def key s'(4) cong: map_cong)
  have uniq: "find (\<lambda>y. key_of s y = k) xs = Some e \<longleftrightarrow> k = (d, b)" for k
    using find_key_iff [of s xs k e] co e by (auto simp: contents_ok_def)
  show "view dk s' xs = (view dk s xs)(d := (view dk s xs d)(b := take (bsize s d) (page x)))"
  proof (intro ext)
    fix d' b'
    show "view dk s' xs d' b' = ((view dk s xs)(d := (view dk s xs d)(b := take (bsize s d) (page x)))) d' b'"
    proof (cases "find (\<lambda>y. key_of s y = (d', b')) xs")
      case None
      then have "(d', b') \<noteq> (d, b)" using e by (metis find_key_None image_eqI)
      then show ?thesis using None by (auto simp: view_def key s'(2))
    next
      case (Some y)
      then show ?thesis using uniq [of "(d', b')"] by (auto simp: view_def key s'(1) bz)
    qed
  qed
qed

text \<open>A request in order: the device is a disk and the block is on it.\<close>

definition request_ok :: "('hw \<Rightarrow> ptr \<Rightarrow> int \<Rightarrow> buf) \<Rightarrow> (ptr \<Rightarrow> int) \<Rightarrow> 'hw bcache \<Rightarrow> ptr \<Rightarrow> int \<Rightarrow> bool" where
  "request_ok dk N s d b \<longleftrightarrow> device_ok dk d (N d) (world s) \<and> 0 \<le> b \<and> b < N d \<and> kalloc_ok s"

lemma read_block_spec:
  assumes ok: "cache_ok dk N s xs" and rq: "request_ok dk N s d b"
    and mem: "find (\<lambda>e. key_of s e = (d, b)) xs \<noteq> None \<or> entry_room s"
  shows "\<exists>r s' xs'. bcache_read_block d b s = Some (r, view dk s xs d b, s') \<and> 0 < r \<and>
    cache_ok dk N s' xs' \<and> view dk s' xs' = view dk s xs \<and> same_setup s s'"
proof (cases "find (\<lambda>e. key_of s e = (d, b)) xs")
  case (Some e)
  have rep: "list_rep (lheap s) CACHE xs" using ok by (simp add: cache_ok_def)
  have e: "e \<in> set xs" "key_of s e = (d, b)" using find_key [OF Some] by auto
  then have e0: "e \<noteq> 0" using list_rep_nonnull [OF rep] by metis
  let ?s' = "s\<lparr>bstats := (bstats s)\<lparr>read_hits := read_hits (bstats s) + 1\<rparr>\<rparr>"
  have v: "view dk s xs d b = take (bsize s d) (page (entries s e))"
    using ok e by (intro view_cached) (auto simp: cache_ok_def)
  have "bcache_read_block d b s = Some (1, view dk s xs d b, ?s')"
    using e0 by (simp add: bcache_read_block_def hit_spec [OF ok Some] v bsize_def)
  moreover have "cache_ok dk N ?s' xs"
    using ok entry_ok_cong [of ?s' s] by (simp add: cache_ok_def contents_ok_def cong: map_cong)
  moreover have "view dk ?s' xs = view dk s xs" by (rule view_cong) simp_all
  ultimately show ?thesis by (auto simp: same_setup_def)
next
  case None
  have rq': "device_ok dk d (N d) (world s)" "0 \<le> b" "b < N d" "kalloc_ok s"
    using rq by (simp_all add: request_ok_def)
  have nz: "entry_room s" using mem None by simp
  obtain e g s1 ys where m: "bcache_find_or_create d b s = Some (e, False, s1)"
    "e \<noteq> 0" "e \<notin> set ys" "list_rep (lheap s1) CACHE (e # ys)" "contents_ok dk N s1 ys"
    "entries s1 e = \<lparr>device = d, block = b, dirty = g, page = replicate PAGE_SIZE 0\<rparr>"
    "e \<in> kused s1" "view dk s1 ys = view dk s xs" "same_setup s s1" "(d, b) \<notin> key_of s1 ` set ys"
    "1 \<le> max_cache_size s1" "int (Suc (length ys)) \<le> max_cache_size s1"
    by (rule miss_spec [OF ok None rq'(4) nz])
  have dok: "device_ok dk d (N d) (world s1)"
    using rq'(1) m(9) device_ok_frame [of "world s" "world s1"] by (simp add: same_setup_def)
  obtain st w where w: "device_read d 1 b (world s1) = (st, dk (hw (world s1)) d b, w)" "0 < st"
    "dk (hw w) = dk (hw (world s1))" "world_frame (world s1) w"
    using device_read_ok [OF dok rq'(2,3)] by metis
  let ?data = "dk (hw (world s1)) d b"
  let ?x = "(entries s1 e)\<lparr>page := overlay ?data (page (entries s1 e))\<rparr>"
  let ?s2 = "s1\<lparr>world := w, entries := (entries s1)(e := ?x),
      bstats := (bstats s1)\<lparr>read_misses := read_misses (bstats s1) + 1\<rparr>\<rparr>"
  have len: "length ?data = bsize s1 d" "bsize s1 d \<le> PAGE_SIZE" using device_ok_bsize [OF dok] by auto
  have su: "same_setup s1 ?s2" using w(4) by (simp add: same_setup_def)
  have cut: "take (bsize s1 d) (page ?x) = ?data" using take_overlay [of ?data] len by simp
  have nview: "view dk s1 ys d b = ?data" using m(10) find_key_None [of s1 "(d, b)" ys] by (simp add: view_def)
  have up: "contents_ok dk N ?s2 (e # ys)"
    "view dk ?s2 (e # ys) = (view dk s1 ys)(d := (view dk s1 ys d)(b := take (bsize s1 d) (page ?x)))"
    by (rule entry_update [OF m(5,3,2,7,10) _ _ su, where x = ?x];
        use m(6) w(3) dok rq'(2,3) len cut in \<open>simp add: overlay_length\<close>)+
  have "view dk ?s2 (e # ys) = view dk s1 ys" using up(2) unfolding cut by (metis fun_upd_triv nview)
  then have v: "view dk ?s2 (e # ys) = view dk s xs" by (simp only: m(8))
  have bz: "nat (device_block_size d w) = bsize s1 d" using bsize_setup [OF su] by (simp add: bsize_def)
  have "bcache_read_block d b s = Some (st, ?data, ?s2)"
    using m(2) w(1,2) cut by (simp add: bcache_read_block_def m(1) bz)
  moreover have "?data = view dk s xs d b" using nview m(8) by simp
  moreover have "cache_ok dk N ?s2 (e # ys)" using up(1) m(4,11,12) by (simp add: cache_ok_def)
  moreover have "same_setup s ?s2" by (rule same_setup_trans [OF m(9) su])
  ultimately show ?thesis using v w(2) by metis
qed

lemma write_block_spec:
  assumes ok: "cache_ok dk N s xs" and rq: "request_ok dk N s d b" and len: "bsize s d \<le> length data"
    and mem: "find (\<lambda>e. key_of s e = (d, b)) xs \<noteq> None \<or> entry_room s"
  shows "\<exists>s' xs'. bcache_write_block d data b s = Some (1, s') \<and> cache_ok dk N s' xs' \<and>
    view dk s' xs' = (view dk s xs)(d := (view dk s xs d)(b := take (bsize s d) data)) \<and> same_setup s s'"
proof -
  have rq': "device_ok dk d (N d) (world s)" "0 \<le> b" "b < N d" "kalloc_ok s"
    using rq by (simp_all add: request_ok_def)
  have bs: "bsize s d \<le> PAGE_SIZE" using device_ok_bsize [OF rq'(1)] by simp
  show ?thesis
  proof (cases "find (\<lambda>e. key_of s e = (d, b)) xs")
    case (Some e)
    have rep: "list_rep (lheap s) CACHE xs" and co: "contents_ok dk N s xs" using ok by (simp_all add: cache_ok_def)
    have e: "e \<in> set xs" "key_of s e = (d, b)" using find_key [OF Some] by auto
    then have e0: "e \<noteq> 0" using list_rep_nonnull [OF rep] by metis
    have pl: "length (page (entries s e)) = PAGE_SIZE"
      using co e(1) by (simp add: contents_ok_def entry_ok_def Let_def)
    let ?x = "(entries s e)\<lparr>page := overlay (take (bsize s d) data) (page (entries s e)), dirty := True\<rparr>"
    let ?s' = "s\<lparr>bstats := (bstats s)\<lparr>write_hits := write_hits (bstats s) + 1\<rparr>, entries := (entries s)(e := ?x)\<rparr>"
    have r: "bcache_write_block d data b s = Some (1, ?s')"
      using e0 by (simp add: bcache_write_block_def hit_spec [OF ok Some] bsize_def Let_def)
    have su: "same_setup s ?s'" by (simp add: same_setup_def)
    have cut: "take (bsize s d) (page ?x) = take (bsize s d) data"
      using take_overlay [of "take (bsize s d) data"] len by simp
    have up: "contents_ok dk N ?s' xs"
      "view dk ?s' xs = (view dk s xs)(d := (view dk s xs d)(b := take (bsize s d) (page ?x)))"
      by (rule entry_replace [OF co e _ _ su, where x = ?x]; use e(2) pl bs in \<open>simp add: overlay_length key_of_def\<close>)+
    show ?thesis using r su up ok unfolding cut by (auto simp: cache_ok_def)
  next
    case None
    have nz: "entry_room s" using mem None by simp
    obtain e g s1 ys where m: "bcache_find_or_create d b s = Some (e, False, s1)"
      "e \<noteq> 0" "e \<notin> set ys" "list_rep (lheap s1) CACHE (e # ys)" "contents_ok dk N s1 ys"
      "entries s1 e = \<lparr>device = d, block = b, dirty = g, page = replicate PAGE_SIZE 0\<rparr>"
      "e \<in> kused s1" "view dk s1 ys = view dk s xs" "same_setup s s1" "(d, b) \<notin> key_of s1 ` set ys"
      "1 \<le> max_cache_size s1" "int (Suc (length ys)) \<le> max_cache_size s1"
      by (rule miss_spec [OF ok None rq'(4) nz])
    have dok: "device_ok dk d (N d) (world s1)"
      using rq'(1) m(9) device_ok_frame [of "world s" "world s1"] by (simp add: same_setup_def)
    have b1: "bsize s1 d = bsize s d" by (rule bsize_setup [OF m(9)])
    let ?x = "(entries s1 e)\<lparr>page := overlay (take (bsize s1 d) data) (page (entries s1 e)), dirty := True\<rparr>"
    let ?s' = "s1\<lparr>bstats := (bstats s1)\<lparr>write_misses := write_misses (bstats s1) + 1\<rparr>, entries := (entries s1)(e := ?x)\<rparr>"
    have r: "bcache_write_block d data b s = Some (1, ?s')"
      using m(2) by (simp add: bcache_write_block_def m(1) bsize_def Let_def)
    have su: "same_setup s1 ?s'" by (simp add: same_setup_def)
    have cut: "take (bsize s1 d) (page ?x) = take (bsize s d) data"
      using take_overlay [of "take (bsize s d) data"] len b1 by simp
    have up: "contents_ok dk N ?s' (e # ys)"
      "view dk ?s' (e # ys) = (view dk s1 ys)(d := (view dk s1 ys d)(b := take (bsize s1 d) (page ?x)))"
      by (rule entry_update [OF m(5,3,2,7,10) _ _ su, where x = ?x];
          use m(6) dok rq'(2,3) bs b1 in \<open>simp add: overlay_length\<close>)+
    have "cache_ok dk N ?s' (e # ys)" using up(1) m(4,11,12) by (simp add: cache_ok_def)
    moreover have "same_setup s ?s'" by (rule same_setup_trans [OF m(9) su])
    ultimately show ?thesis using r up(2) unfolding cut m(8) by blast
  qed
qed

section \<open>Flushing\<close>

lemma flush_all_from_spec:
  "cache_ok dk N s xs \<Longrightarrow> set ys \<subseteq> set xs \<Longrightarrow> dll (nodes (lheap s)) CACHE p ys 0 \<Longrightarrow>
     \<exists>s'. bcache_flush_all_from (hdq ys 0) s = Some s' \<and> cache_ok dk N s' xs \<and>
       view dk s' xs = view dk s xs \<and> same_setup s s' \<and>
       (\<forall>e. dirty (entries s' e) \<longrightarrow> dirty (entries s e) \<and> e \<notin> set ys)"
proof (induction ys arbitrary: s p)
  case Nil
  then show ?case by (subst bcache_flush_all_from.simps) simp
next
  case (Cons y ys)
  have co: "contents_ok dk N s xs" and y: "y \<in> set xs" using Cons.prems by (simp_all add: cache_ok_def)
  then have eok: "entry_ok dk N s y" by (simp add: contents_ok_def)
  let ?s1 = "bcache_entry_clean y s"
  note c = clean_spec [OF eok]
  have ok1: "cache_ok dk N ?s1 xs"
    using Cons.prems(1) clean_ok(1) [OF co y] c(1,2) by (simp add: cache_ok_def same_setup_def)
  have d1: "dll (nodes (lheap ?s1)) CACHE y ys 0" using Cons.prems(3) c(2) by simp
  obtain s' where s': "bcache_flush_all_from (hdq ys 0) ?s1 = Some s'" "cache_ok dk N s' xs"
    "view dk s' xs = view dk ?s1 xs" "same_setup ?s1 s'"
    "\<forall>e. dirty (entries s' e) \<longrightarrow> dirty (entries ?s1 e) \<and> e \<notin> set ys"
    using Cons.IH [OF ok1 _ d1] Cons.prems(2) by auto
  have "nxt (nodes (lheap s) y) = hdq ys 0" "y \<noteq> 0" using Cons.prems(3) by simp_all
  then have "bcache_flush_all_from (hdq (y # ys) 0) s = Some s'"
    using s'(1) by (subst bcache_flush_all_from.simps) simp
  moreover have "dirty (entries s' e) \<longrightarrow> dirty (entries s e) \<and> e \<notin> set (y # ys)" for e
    using s'(5) c(4) by (auto split: if_splits)
  ultimately show ?case
    using s'(2,3) clean_ok(2) [OF co y] same_setup_trans [OF c(1) s'(4)] by auto
qed

lemma flush_device_from_spec:
  "cache_ok dk N s xs \<Longrightarrow> set ys \<subseteq> set xs \<Longrightarrow> dll (nodes (lheap s)) CACHE p ys 0 \<Longrightarrow>
     \<exists>s'. bcache_flush_device_from d (hdq ys 0) s = Some s' \<and> cache_ok dk N s' xs \<and>
       view dk s' xs = view dk s xs \<and> same_setup s s'"
proof (induction ys arbitrary: s p)
  case Nil
  then show ?case by (subst bcache_flush_device_from.simps) (simp add: same_setup_def)
next
  case (Cons y ys)
  have co: "contents_ok dk N s xs" and y: "y \<in> set xs" using Cons.prems by (simp_all add: cache_ok_def)
  then have eok: "entry_ok dk N s y" by (simp add: contents_ok_def)
  define s1 where "s1 = (if device (entries s y) = d then bcache_entry_clean y s else s)"
  note c = clean_spec [OF eok]
  have ok1: "cache_ok dk N s1 xs" and v1: "view dk s1 xs = view dk s xs" and su1: "same_setup s s1"
    and d1: "dll (nodes (lheap s1)) CACHE y ys 0"
    using Cons.prems(1,3) clean_ok [OF co y] c(1,2) by (auto simp: s1_def cache_ok_def same_setup_def)
  obtain s' where s': "bcache_flush_device_from d (hdq ys 0) s1 = Some s'" "cache_ok dk N s' xs"
    "view dk s' xs = view dk s1 xs" "same_setup s1 s'"
    using Cons.IH [OF ok1 _ d1] Cons.prems(2) by auto
  have "nxt (nodes (lheap s) y) = hdq ys 0" "y \<noteq> 0" using Cons.prems(3) by simp_all
  then have "bcache_flush_device_from d (hdq (y # ys) 0) s = Some s'"
    using s'(1) by (subst bcache_flush_device_from.simps) (auto simp: s1_def split: if_splits)
  then show ?case using s'(2,3) v1 same_setup_trans [OF su1 s'(4)] by auto
qed

lemma clean_view_disk:
  assumes "contents_ok dk N s xs" "\<forall>e \<in> set xs. \<not> dirty (entries s e)"
  shows "dk (hw (world s)) = view dk s xs"
proof (intro ext)
  fix d b
  show "dk (hw (world s)) d b = view dk s xs d b"
  proof (cases "find (\<lambda>e. key_of s e = (d, b)) xs")
    case (Some e)
    then have "e \<in> set xs" "key_of s e = (d, b)" using find_key by metis+
    then show ?thesis using assms Some
      by (auto simp: view_def contents_ok_def entry_ok_def Let_def key_of_def)
  qed (simp add: view_def)
qed

section \<open>The block store interface\<close>

text \<open>
  What a file system relies on: a store of blocks, read and written one at a time.  A read
  delivers the block, a write changes exactly one block, and both keep the store in order.
\<close>

locale block_store =
  fixes rd :: "int \<Rightarrow> 's \<Rightarrow> (int \<times> buf \<times> 's) option"
    and wr :: "buf \<Rightarrow> int \<Rightarrow> 's \<Rightarrow> (int \<times> 's) option"
    and ok :: "'s \<Rightarrow> bool" and contents :: "'s \<Rightarrow> int \<Rightarrow> buf"
    and total :: int and bs :: nat
  assumes rd_ok: "ok s \<Longrightarrow> 0 \<le> b \<Longrightarrow> b < total \<Longrightarrow>
      \<exists>r s'. rd b s = Some (r, contents s b, s') \<and> r \<noteq> 0 \<and> ok s' \<and> contents s' = contents s"
    and wr_ok: "ok s \<Longrightarrow> 0 \<le> b \<Longrightarrow> b < total \<Longrightarrow> length data = bs \<Longrightarrow>
      \<exists>r s'. wr data b s = Some (r, s') \<and> r \<noteq> 0 \<and> ok s' \<and> contents s' = (contents s)(b := data)"
    and len_ok: "ok s \<Longrightarrow> 0 \<le> b \<Longrightarrow> b < total \<Longrightarrow> length (contents s b) = bs"
begin

text \<open>Writing a list of blocks and reading them back.\<close>

fun wr_all :: "(int \<times> buf) list \<Rightarrow> 's \<Rightarrow> 's option" where
  "wr_all [] s = Some s"
| "wr_all ((b, data) # rest) s = Option.bind (wr data b s) (\<lambda>(r, s). wr_all rest s)"

lemma wr_all_ok:
  "ok s \<Longrightarrow> \<forall>(b, data) \<in> set ws. 0 \<le> b \<and> b < total \<and> length data = bs \<Longrightarrow>
     \<exists>s'. wr_all ws s = Some s' \<and> ok s' \<and>
       contents s' = fold (\<lambda>(b, data) c. c(b := data)) ws (contents s)"
proof (induction ws arbitrary: s)
  case (Cons w ws)
  obtain b data where w: "w = (b, data)" by fastforce
  obtain r s1 where s1: "wr data b s = Some (r, s1)" "ok s1" "contents s1 = (contents s)(b := data)"
    using wr_ok [of s b data] Cons.prems w by auto
  show ?case using Cons.IH [OF s1(2)] Cons.prems s1 w by auto
qed simp

lemma write_then_read:
  assumes "ok s" "0 \<le> b" "b < total" "length data = bs"
  shows "\<exists>r s1 r' s2. wr data b s = Some (r, s1) \<and> rd b s1 = Some (r', data, s2) \<and> ok s2 \<and>
    contents s2 = (contents s)(b := data)"
proof -
  obtain r s1 where s1: "wr data b s = Some (r, s1)" "ok s1" "contents s1 = (contents s)(b := data)"
    using wr_ok [OF assms] by blast
  obtain r' s2 where "rd b s1 = Some (r', contents s1 b, s2)" "ok s2" "contents s2 = contents s1"
    using rd_ok [OF s1(2) assms(2,3)] by blast
  with s1 show ?thesis by auto
qed

end

text \<open>
  The buffer cache over a working device is a block store.  The contents are computed from the
  cache and the hardware; \<open>cached_ok\<close> is the invariant, with an allocator that always succeeds.
\<close>

definition cached_block :: "('hw \<Rightarrow> ptr \<Rightarrow> int \<Rightarrow> buf) \<Rightarrow> ptr \<Rightarrow> 'hw bcache \<Rightarrow> int \<Rightarrow> buf" where
  "cached_block dk d s b =
     (case bcache_find d b s of
        Some e \<Rightarrow> (if e \<noteq> 0 then take (bsize s d) (page (entries s e)) else dk (hw (world s)) d b)
      | None \<Rightarrow> [])"

definition cached_ok :: "('hw \<Rightarrow> ptr \<Rightarrow> int \<Rightarrow> buf) \<Rightarrow> (ptr \<Rightarrow> int) \<Rightarrow> ptr \<Rightarrow> nat \<Rightarrow> 'hw bcache \<Rightarrow> bool" where
  "cached_ok dk N d n s \<longleftrightarrow> (\<exists>xs. cache_ok dk N s xs) \<and> device_ok dk d (N d) (world s) \<and> bsize s d = n \<and>
     (\<forall>U. finite U \<longrightarrow> fst (kalloc s U) \<notin> U \<and> fst (kalloc s U) \<noteq> 0 \<and> palloc s U)"

lemma cached_block_view: "cache_ok dk N s xs \<Longrightarrow> cached_block dk d s = view dk s xs d"
proof (rule ext)
  fix b
  assume ok: "cache_ok dk N s xs"
  then have rep: "list_rep (lheap s) CACHE xs" by (simp add: cache_ok_def)
  show "cached_block dk d s b = view dk s xs d b"
  proof (cases "find (\<lambda>e. key_of s e = (d, b)) xs")
    case None
    then show ?thesis by (simp add: cached_block_def bcache_find_rep [OF rep] view_def)
  next
    case (Some e)
    then have "e \<noteq> 0" using find_key list_rep_nonnull [OF rep] by metis
    then show ?thesis by (simp add: cached_block_def bcache_find_rep [OF rep] view_def Some)
  qed
qed

lemma bcache_read_one: "bcache_read_block d b s = Some (r, data, s') \<Longrightarrow> 0 < r \<Longrightarrow> bcache_read d 1 b g s = Some (1, data, s')"
  by (simp add: bcache_read_def)

lemma bcache_write_one: "bcache_write_block d data b s = Some (r, s') \<Longrightarrow> 0 < r \<Longrightarrow> bcache_write d data 1 b g s = Some (1, s')"
  by (simp add: bcache_write_def)

lemma cached_ok_step:
  "cached_ok dk N d n s \<Longrightarrow> cache_ok dk N s' xs' \<Longrightarrow> same_setup s s' \<Longrightarrow> cached_ok dk N d n s'"
  using device_ok_frame [of "world s" "world s'" dk d "N d"] bsize_setup [of s s' d]
  by (auto simp: cached_ok_def same_setup_def)

interpretation cached: block_store "\<lambda>b s. bcache_read d 1 b g s" "\<lambda>data b s. bcache_write d data 1 b g s"
  "cached_ok dk N d n" "cached_block dk d" "N d" n for d g dk N n
proof
  fix s b
  assume a: "cached_ok dk N d n s" "0 \<le> b" "b < N d"
  then obtain xs where xs: "cache_ok dk N s xs" by (auto simp: cached_ok_def)
  have rq: "request_ok dk N s d b" using a by (simp add: request_ok_def cached_ok_def kalloc_ok_def)
  have nz: "entry_room s"
    using a(1) xs by (simp add: entry_room_def cached_ok_def cache_ok_def contents_ok_def)
  obtain r s' xs' where r: "bcache_read_block d b s = Some (r, view dk s xs d b, s')" "0 < r"
    "cache_ok dk N s' xs'" "view dk s' xs' = view dk s xs" "same_setup s s'"
    using read_block_spec [OF xs rq disjI2 [OF nz]] by blast
  show "\<exists>r s'. bcache_read d 1 b g s = Some (r, cached_block dk d s b, s') \<and> r \<noteq> 0 \<and>
      cached_ok dk N d n s' \<and> cached_block dk d s' = cached_block dk d s"
    using bcache_read_one [OF r(1,2)] cached_ok_step [OF a(1) r(3,5)]
      cached_block_view [OF xs] cached_block_view [OF r(3)] r(4) by auto
  show "length (cached_block dk d s b) = n"
  proof -
    have dl: "length (dk h d b) = n" "n \<le> PAGE_SIZE" for h
      using a(1) device_ok_bsize [of dk d "N d" s] by (auto simp: cached_ok_def)
    show ?thesis
    proof (cases "find (\<lambda>e. key_of s e = (d, b)) xs")
      case None
      then show ?thesis using dl by (simp add: cached_block_view [OF xs] view_def)
    next
      case (Some e)
      then have "e \<in> set xs" using find_key by metis
      then have "length (page (entries s e)) = PAGE_SIZE"
        using xs by (simp add: cache_ok_def contents_ok_def entry_ok_def Let_def)
      then show ?thesis using dl a(1) Some by (simp add: cached_block_view [OF xs] view_def cached_ok_def)
    qed
  qed
  fix data :: buf
  assume len: "length data = n"
  have "bsize s d \<le> length data" using a(1) len by (simp add: cached_ok_def)
  from write_block_spec [OF xs rq this disjI2 [OF nz]] obtain s' xs' where
    w: "bcache_write_block d data b s = Some (1, s')" "cache_ok dk N s' xs'"
    "view dk s' xs' = (view dk s xs)(d := (view dk s xs d)(b := take (bsize s d) data))" "same_setup s s'"
    by blast
  have "take (bsize s d) data = data" using a(1) len by (simp add: cached_ok_def)
  then show "\<exists>r s'. bcache_write d data 1 b g s = Some (r, s') \<and> r \<noteq> 0 \<and> cached_ok dk N d n s' \<and>
      cached_block dk d s' = (cached_block dk d s)(b := data)"
    using bcache_write_one [OF w(1)] cached_ok_step [OF a(1) w(2,4)]
      cached_block_view [OF xs] cached_block_view [OF w(2)] w(3) by auto
qed

text \<open>A store whose writes can be flushed, which readers do not notice.\<close>

locale flush_store = block_store rd wr ok contents total bs
  for rd :: "int \<Rightarrow> 's \<Rightarrow> (int \<times> buf \<times> 's) option" and wr ok contents total bs +
  fixes fl :: "'s \<Rightarrow> 's option"
  assumes fl_ok: "ok s \<Longrightarrow> \<exists>s'. fl s = Some s' \<and> ok s' \<and> contents s' = contents s"

interpretation flushed: flush_store "\<lambda>b s. bcache_read d 1 b g s" "\<lambda>data b s. bcache_write d data 1 b g s"
  "cached_ok dk N d n" "cached_block dk d" "N d" n "bcache_flush_device d" for d g dk N n
proof
  fix s
  assume a: "cached_ok dk N d n s"
  then obtain xs where xs: "cache_ok dk N s xs" by (auto simp: cached_ok_def)
  have "dll (nodes (lheap s)) CACHE 0 xs 0" "head (lists (lheap s) CACHE) = hdq xs 0"
    using xs by (simp_all add: cache_ok_def list_rep_def)
  then obtain s' where s': "bcache_flush_device d s = Some s'" "cache_ok dk N s' xs" "view dk s' xs = view dk s xs"
    "same_setup s s'"
    using flush_device_from_spec [OF xs, of xs 0 d] by (auto simp: bcache_flush_device_def)
  then show "\<exists>s'. bcache_flush_device d s = Some s' \<and> cached_ok dk N d n s' \<and>
      cached_block dk d s' = cached_block dk d s"
    using cached_ok_step [OF a] cached_block_view [OF xs] cached_block_view [OF s'(2)] by auto
qed

section \<open>Properties\<close>

text \<open>Claim C9. The cache is coherent: on a working device, a read of a block returns what was
  last written to it or else what the disk holds, a write changes exactly that block for later
  readers, and both keep the cache in order and within its size, whatever is evicted on the
  way.  Without memory for a new entry or for its page both fail with \<^verbatim>\<open>KERROR_OUT_OF_MEMORY\<close> and change
  nothing.\<close>

theorem bcache_coherent:
  assumes "cache_ok dk N s xs" "request_ok dk N s d b" "bsize s d \<le> length data"
  shows "if find (\<lambda>e. key_of s e = (d, b)) xs = None \<and> \<not> entry_room s
    then bcache_read_block d b s = Some (kerr KERROR_OUT_OF_MEMORY, [], s) \<and>
      bcache_write_block d data b s = Some (kerr KERROR_OUT_OF_MEMORY, s)
    else (\<exists>r s' xs'. bcache_read_block d b s = Some (r, view dk s xs d b, s') \<and> 0 < r \<and>
        cache_ok dk N s' xs' \<and> view dk s' xs' = view dk s xs) \<and>
      (\<exists>s' xs'. bcache_write_block d data b s = Some (1, s') \<and> cache_ok dk N s' xs' \<and>
        view dk s' xs' = (view dk s xs)(d := (view dk s xs d)(b := take (bsize s d) data)))"
  using read_block_spec [OF assms(1,2)] write_block_spec [OF assms]
    nomem_spec [OF assms(1), of d b]
  by (auto simp: bcache_read_block_def bcache_write_block_def)

text \<open>A disk of one-byte blocks, the device 7 on it, and an empty cache of one entry.\<close>

definition sample_driver :: "(int \<Rightarrow> u8) device_driver" where
  "sample_driver = \<lparr>drv_name = [97, 0], drv_probe = (\<lambda>u h. (Some (8, 1), h)),
     drv_read = Some (\<lambda>u n off h. (n, [h off], h)), drv_read_nonblock = None,
     drv_write = Some (\<lambda>u data n off h. (n, h(off := hd data))),
     drv_multiplier = 1, blocks_read = 0, blocks_written = 0\<rparr>"

definition sample_world :: "(int \<Rightarrow> u8) world" where
  "sample_world = \<lparr>driver_list = [5], drivers = (\<lambda>_. sample_driver),
     devices = (\<lambda>_. \<lparr>driver = 5, refcount = 1, unit_no = 0, block_size = 1, nblocks = 8, multiplier = 1\<rparr>),
     hw = (\<lambda>b. 9)\<rparr>"

definition sample_dk :: "(int \<Rightarrow> u8) \<Rightarrow> ptr \<Rightarrow> int \<Rightarrow> buf" where
  "sample_dk h d b = (if d = 7 then [h b] else [0])"

definition sample_cache :: "(int \<Rightarrow> u8) bcache" where
  "sample_cache = \<lparr>lheap = \<lparr>nodes = (\<lambda>_. \<lparr>nxt = 0, prv = 0, owner = 0, priority = 0\<rparr>), lists = (\<lambda>_. LIST_INIT)\<rparr>,
     entries = (\<lambda>_. \<lparr>device = 0, block = 0, dirty = False, page = []\<rparr>),
     bstats = \<lparr>read_hits = 0, read_misses = 0, write_hits = 0, write_misses = 0, writebacks = 0\<rparr>,
     max_cache_size = 1, kalloc = (\<lambda>U. (Suc (Max (insert 9 U)), True)), palloc = (\<lambda>_. True), kused = {}, world = sample_world\<rparr>"

lemma sample_device_ok: "device_ok sample_dk 7 8 sample_world"
proof -
  have bsz: "device_block_size 7 sample_world = 1"
    by (simp add: device_block_size_def sample_world_def)
  have upd: "sample_dk (h(b := hd data)) = (sample_dk h)(7 := (sample_dk h 7)(b := take 1 data))"
    if "1 \<le> length data" for h b and data :: buf
    using that by (cases data) (auto simp: sample_dk_def fun_eq_iff)
  have sl: "sample_dk h 7 b = [h b]" "length (sample_dk h d b) = 1" for h d b
    by (simp_all add: sample_dk_def)
  show ?thesis
    unfolding device_ok_def bsz
    by (intro conjI exI [of _ "\<lambda>u n off h. (n, [h off], h)"] exI [of _ "\<lambda>u data n off h. (n, h(off := hd data))"])
      (auto simp: sample_world_def sample_driver_def PAGE_SIZE_def upd [simplified] sl)
qed

lemma sample_cache_ok: "cache_ok sample_dk (\<lambda>_. 8) sample_cache []"
  by (simp add: cache_ok_def contents_ok_def sample_cache_def list_rep_def LIST_INIT_def CACHE_def)

lemma sample_alloc_fresh: "finite U \<Longrightarrow> Suc (Max (insert 9 U)) \<notin> U"
proof
  assume "finite U" "Suc (Max (insert 9 U)) \<in> U"
  then have "Suc (Max (insert 9 U)) \<le> Max (insert 9 U)" by (intro Max_ge) auto
  then show False by simp
qed

lemma sample_request: "0 \<le> b \<Longrightarrow> b < 8 \<Longrightarrow> request_ok sample_dk (\<lambda>_. 8) sample_cache 7 b"
  using sample_device_ok sample_alloc_fresh
  by (auto simp: request_ok_def kalloc_ok_def sample_cache_def)

lemma sample_bsize: "bsize sample_cache 7 = 1"
  by (simp add: bsize_def sample_cache_def sample_world_def device_block_size_def)

theorem bcache_coherent_witness:
  "\<exists>r s'. bcache_read_block 7 3 sample_cache = Some (r, [9], s') \<and> 0 < r"
proof -
  have "bsize sample_cache 7 \<le> length [5 :: u8]" by (simp add: sample_bsize)
  from bcache_coherent [OF sample_cache_ok sample_request this, of 3]
  show ?thesis by (auto simp: entry_room_def sample_cache_def sample_world_def view_def sample_dk_def)
qed

text \<open>Claim C24.  On working devices, after \<^verbatim>\<open>bcache_flush_all\<close> the disk holds every cached write: the hardware agrees
  with what readers see, block for block, and readers see what they saw before.\<close>

theorem bcache_flush_all_syncs:
  assumes "cache_ok dk N s xs"
  shows "\<exists>s'. bcache_flush_all s = Some s' \<and> cache_ok dk N s' xs \<and> view dk s' xs = view dk s xs \<and>
    dk (hw (world s')) = view dk s xs \<and> (\<forall>e \<in> set xs. \<not> dirty (entries s' e))"
proof -
  have "dll (nodes (lheap s)) CACHE 0 xs 0" "head (lists (lheap s) CACHE) = hdq xs 0"
    using assms by (simp_all add: cache_ok_def list_rep_def)
  then obtain s' where s': "bcache_flush_all s = Some s'" "cache_ok dk N s' xs" "view dk s' xs = view dk s xs"
    "\<forall>e. dirty (entries s' e) \<longrightarrow> dirty (entries s e) \<and> e \<notin> set xs"
    using flush_all_from_spec [OF assms, of xs 0] by (auto simp: bcache_flush_all_def)
  then have "dk (hw (world s')) = view dk s' xs"
    by (intro clean_view_disk [of dk N]) (auto simp: cache_ok_def)
  with s' show ?thesis by auto
qed

theorem bcache_flush_all_syncs_witness:
  "\<exists>s1 xs s2. bcache_write_block 7 [5] 3 sample_cache = Some (1, s1) \<and> bcache_flush_all s1 = Some s2 \<and>
     sample_dk (hw (world s2)) 7 3 = [5]"
proof -
  have "bsize sample_cache 7 \<le> length [5 :: u8]" by (simp add: sample_bsize)
  moreover have "entry_room sample_cache" by (simp add: entry_room_def sample_cache_def)
  ultimately obtain s1 xs where w: "bcache_write_block 7 [5] 3 sample_cache = Some (1, s1)"
    "cache_ok sample_dk (\<lambda>_. 8) s1 xs"
    "view sample_dk s1 xs = (view sample_dk sample_cache [])(7 := (view sample_dk sample_cache [] 7)(3 := take (bsize sample_cache 7) [5]))"
    using write_block_spec [OF sample_cache_ok sample_request, of 3 "[5]"] by auto
  from bcache_flush_all_syncs [OF w(2)] w(1,3) show ?thesis by (auto simp: sample_bsize)
qed

end
