(* ===== verification/Diskfs.thy ===== *)
theory Diskfs
  imports Bcache
begin

text \<open>
  The native file system, \<^verbatim>\<open>kernel/diskfs.c\<close>, on a store of blocks of 4096 bytes.  The store is
  an argument \<open>io\<close> of the operations: reading and writing one block of the device of the volume
  through the buffer cache.  The structures of \<^verbatim>\<open>kernel/diskfs.h\<close> that overlay a block are
  decoded from its bytes and stored into them, with 32-bit fields in little-endian order.  A
  temporary page is not cleared; its old contents are the field \<open>bio_temp\<close>.
\<close>

section \<open>Layout of a block\<close>

definition DISKFS_MAGIC :: u32 where "DISKFS_MAGIC = 0xabcd4321"
definition DISKFS_BLOCK_SIZE :: nat where "DISKFS_BLOCK_SIZE = 4096"
definition DISKFS_DIRECT_POINTERS :: nat where "DISKFS_DIRECT_POINTERS = 6"
definition DISKFS_INODES_PER_BLOCK :: nat where "DISKFS_INODES_PER_BLOCK = DISKFS_BLOCK_SIZE div 36"
definition DISKFS_ITEMS_PER_BLOCK :: nat where "DISKFS_ITEMS_PER_BLOCK = DISKFS_BLOCK_SIZE div 32"
definition DISKFS_POINTERS_PER_BLOCK :: nat where "DISKFS_POINTERS_PER_BLOCK = DISKFS_BLOCK_SIZE div 4"
definition DISKFS_ITEM_BLANK :: u8 where "DISKFS_ITEM_BLANK = 0"
definition DISKFS_ITEM_FILE :: u8 where "DISKFS_ITEM_FILE = 1"
definition DISKFS_ITEM_DIR :: u8 where "DISKFS_ITEM_DIR = 2"
definition DISKFS_NAME_MAX :: nat where "DISKFS_NAME_MAX = 26"

lemmas diskfs_sizes = DISKFS_BLOCK_SIZE_def DISKFS_DIRECT_POINTERS_def DISKFS_INODES_PER_BLOCK_def
  DISKFS_ITEMS_PER_BLOCK_def DISKFS_POINTERS_PER_BLOCK_def DISKFS_NAME_MAX_def

definition le32 :: "buf \<Rightarrow> nat \<Rightarrow> u32" where
  "le32 b i = ucast (b ! i) OR push_bit 8 (ucast (b ! (i + 1))) OR
     push_bit 16 (ucast (b ! (i + 2))) OR push_bit 24 (ucast (b ! (i + 3)))"

definition put32 :: "nat \<Rightarrow> u32 \<Rightarrow> buf \<Rightarrow> buf" where
  "put32 i w b = b[i := ucast w, i + 1 := ucast (drop_bit 8 w), i + 2 := ucast (drop_bit 16 w),
     i + 3 := ucast (drop_bit 24 w)]"

definition put_bytes :: "nat \<Rightarrow> buf \<Rightarrow> buf \<Rightarrow> buf" where
  "put_bytes i xs b = take i b @ xs @ drop (i + length xs) b"

record diskfs_superblock =
  magic :: u32
  sb_block_size :: u32
  inode_start :: u32
  inode_blocks :: u32
  bitmap_start :: u32
  bitmap_blocks :: u32
  data_start :: u32
  data_blocks :: u32

definition get_superblock :: "buf \<Rightarrow> diskfs_superblock" where
  "get_superblock b = \<lparr>magic = le32 b 0, sb_block_size = le32 b 4, inode_start = le32 b 8,
     inode_blocks = le32 b 12, bitmap_start = le32 b 16, bitmap_blocks = le32 b 20,
     data_start = le32 b 24, data_blocks = le32 b 28\<rparr>"

definition put_superblock :: "diskfs_superblock \<Rightarrow> buf \<Rightarrow> buf" where
  "put_superblock sb b = put32 28 (data_blocks sb) (put32 24 (data_start sb)
     (put32 20 (bitmap_blocks sb) (put32 16 (bitmap_start sb) (put32 12 (inode_blocks sb)
     (put32 8 (inode_start sb) (put32 4 (sb_block_size sb) (put32 0 (magic sb) b)))))))"

record diskfs_inode =
  inuse :: u32
  isize :: u32
  direct :: "u32 list"
  indirect :: u32

definition get_inode :: "buf \<Rightarrow> nat \<Rightarrow> diskfs_inode" where
  "get_inode b j = \<lparr>inuse = le32 b (36 * j), isize = le32 b (36 * j + 4),
     direct = map (\<lambda>k. le32 b (36 * j + 8 + 4 * k)) [0..<DISKFS_DIRECT_POINTERS],
     indirect = le32 b (36 * j + 32)\<rparr>"

definition put_inode :: "nat \<Rightarrow> diskfs_inode \<Rightarrow> buf \<Rightarrow> buf" where
  "put_inode j x b = put32 (36 * j + 32) (indirect x)
     (fold (\<lambda>k. put32 (36 * j + 8 + 4 * k) (direct x ! k)) [0..<DISKFS_DIRECT_POINTERS]
       (put32 (36 * j + 4) (isize x) (put32 (36 * j) (inuse x) b)))"

record diskfs_item =
  it_inumber :: u32
  it_type :: u8
  name_length :: u8
  it_name :: buf

definition get_item :: "buf \<Rightarrow> nat \<Rightarrow> diskfs_item" where
  "get_item b j = \<lparr>it_inumber = le32 b (32 * j), it_type = b ! (32 * j + 4),
     name_length = b ! (32 * j + 5), it_name = drop (32 * j + 6) b\<rparr>"

text \<open>\<^verbatim>\<open>name_length\<close> is a byte, and \<^verbatim>\<open>memcpy\<close> copies as many bytes of the name as it says.\<close>

definition put_item :: "nat \<Rightarrow> u32 \<Rightarrow> u8 \<Rightarrow> buf \<Rightarrow> buf \<Rightarrow> buf" where
  "put_item j ino ty nm b = put_bytes (32 * j + 6) (take (length nm mod 256) nm)
     ((put32 (32 * j) ino b)[32 * j + 4 := ty, 32 * j + 5 := of_nat (length nm)])"

section \<open>Blocks\<close>

record 'c blockio =
  bio_read :: "int \<Rightarrow> 'c \<Rightarrow> (int \<times> buf \<times> 'c) option"
  bio_write :: "buf \<Rightarrow> int \<Rightarrow> 'c \<Rightarrow> (int \<times> 'c) option"
  bio_flush :: "'c \<Rightarrow> 'c option"
  bio_temp :: buf

definition diskfs_block_read :: "'c blockio \<Rightarrow> buf \<Rightarrow> u32 \<Rightarrow> 'c \<Rightarrow> (int \<times> buf \<times> 'c) option" where
  "diskfs_block_read io b blockno c = do {
     (r, bytes, c) \<leftarrow> bio_read io (sint blockno) c;
     Some (if r \<noteq> 0 then int DISKFS_BLOCK_SIZE else - 1, overlay bytes b, c)
   }"

definition diskfs_block_write :: "'c blockio \<Rightarrow> buf \<Rightarrow> u32 \<Rightarrow> 'c \<Rightarrow> (int \<times> 'c) option" where
  "diskfs_block_write io b blockno c = do {
     (r, c) \<leftarrow> bio_write io b (sint blockno) c;
     Some (if r \<noteq> 0 then int DISKFS_BLOCK_SIZE else - 1, c)
   }"

definition diskfs_bitmap_block_read :: "'c blockio \<Rightarrow> diskfs_superblock \<Rightarrow> buf \<Rightarrow> u32 \<Rightarrow> 'c \<Rightarrow> (int \<times> buf \<times> 'c) option" where
  "diskfs_bitmap_block_read io v b blockno c =
     (if blockno \<ge> bitmap_blocks v then Some (kerr KERROR_OUT_OF_SPACE, b, c)
      else diskfs_block_read io b (bitmap_start v + blockno) c)"

definition diskfs_bitmap_block_write :: "'c blockio \<Rightarrow> diskfs_superblock \<Rightarrow> buf \<Rightarrow> u32 \<Rightarrow> 'c \<Rightarrow> (int \<times> 'c) option" where
  "diskfs_bitmap_block_write io v b blockno c =
     (if blockno \<ge> bitmap_blocks v then Some (kerr KERROR_OUT_OF_SPACE, c)
      else diskfs_block_write io b (bitmap_start v + blockno) c)"

definition diskfs_inode_block_read :: "'c blockio \<Rightarrow> diskfs_superblock \<Rightarrow> buf \<Rightarrow> u32 \<Rightarrow> 'c \<Rightarrow> (int \<times> buf \<times> 'c) option" where
  "diskfs_inode_block_read io v b blockno c =
     (if blockno \<ge> inode_blocks v then Some (kerr KERROR_OUT_OF_SPACE, b, c)
      else diskfs_block_read io b (inode_start v + blockno) c)"

definition diskfs_inode_block_write :: "'c blockio \<Rightarrow> diskfs_superblock \<Rightarrow> buf \<Rightarrow> u32 \<Rightarrow> 'c \<Rightarrow> (int \<times> 'c) option" where
  "diskfs_inode_block_write io v b blockno c =
     (if blockno \<ge> inode_blocks v then Some (kerr KERROR_OUT_OF_SPACE, c)
      else diskfs_block_write io b (inode_start v + blockno) c)"

definition diskfs_data_block_read :: "'c blockio \<Rightarrow> diskfs_superblock \<Rightarrow> buf \<Rightarrow> u32 \<Rightarrow> 'c \<Rightarrow> (int \<times> buf \<times> 'c) option" where
  "diskfs_data_block_read io v b blockno c =
     (if blockno \<ge> data_blocks v then Some (kerr KERROR_OUT_OF_SPACE, b, c)
      else diskfs_block_read io b (data_start v + blockno) c)"

definition diskfs_data_block_write :: "'c blockio \<Rightarrow> diskfs_superblock \<Rightarrow> buf \<Rightarrow> u32 \<Rightarrow> 'c \<Rightarrow> (int \<times> 'c) option" where
  "diskfs_data_block_write io v b blockno c =
     (if blockno \<ge> data_blocks v then Some (kerr KERROR_OUT_OF_SPACE, c)
      else diskfs_block_write io b (data_start v + blockno) c)"

section \<open>The bitmap\<close>

text \<open>
  The inner loops of \<^verbatim>\<open>diskfs_data_block_alloc\<close>.  A block number beyond the volume ends the
  loop over the bits of one byte only.  The bytes are signed, so that the comparison with
  \<^verbatim>\<open>0xff\<close> never skips a byte.
\<close>

fun alloc_bits :: "diskfs_superblock \<Rightarrow> nat \<Rightarrow> nat \<Rightarrow> u8 \<Rightarrow> nat list \<Rightarrow> (nat \<times> u32) option" where
  "alloc_bits v i j byte [] = None"
| "alloc_bits v i j byte (k # ks) =
     (if \<not> bit byte k then
        let blockno = of_nat (i * DISKFS_BLOCK_SIZE + j * 8 + k) in
        if blockno = 0 then alloc_bits v i j byte ks
        else if blockno \<ge> data_blocks v then None
        else Some (k, blockno)
      else alloc_bits v i j byte ks)"

fun alloc_bytes :: "diskfs_superblock \<Rightarrow> nat \<Rightarrow> buf \<Rightarrow> nat list \<Rightarrow> (nat \<times> nat \<times> u32) option" where
  "alloc_bytes v i b [] = None"
| "alloc_bytes v i b (j # js) =
     (case (if sint (b ! j) \<noteq> 255 then alloc_bits v i j (b ! j) [0..<8] else None) of
        Some (k, blockno) \<Rightarrow> Some (j, k, blockno)
      | None \<Rightarrow> alloc_bytes v i b js)"

fun alloc_blocks :: "'c blockio \<Rightarrow> diskfs_superblock \<Rightarrow> nat list \<Rightarrow> buf \<Rightarrow> 'c \<Rightarrow> (u32 \<times> 'c) option" where
  "alloc_blocks io v [] b c = Some (0, c)"
| "alloc_blocks io v (i # is) b c = do {
     (r, b, c) \<leftarrow> diskfs_bitmap_block_read io v b (of_nat i) c;
     (case alloc_bytes v i b [0..<DISKFS_BLOCK_SIZE] of
        Some (j, k, blockno) \<Rightarrow> do {
          let b = b[j := (b ! j) OR push_bit k 1];
          (r, c) \<leftarrow> diskfs_bitmap_block_write io v b (of_nat i) c;
          Some (blockno, c)
        }
      | None \<Rightarrow> alloc_blocks io v is b c)
   }"

definition diskfs_data_block_alloc :: "'c blockio \<Rightarrow> diskfs_superblock \<Rightarrow> 'c \<Rightarrow> (u32 \<times> 'c) option" where
  "diskfs_data_block_alloc io v c = alloc_blocks io v [0..<unat (bitmap_blocks v)] (bio_temp io) c"

definition diskfs_data_block_free :: "'c blockio \<Rightarrow> diskfs_superblock \<Rightarrow> int \<Rightarrow> 'c \<Rightarrow> 'c option" where
  "diskfs_data_block_free io v blockno c = do {
     let bitmap_block = c_div blockno (int DISKFS_BLOCK_SIZE);
     let bitmap_byte = c_div (c_mod blockno (int DISKFS_BLOCK_SIZE)) 8;
     let bitmap_bit = c_mod (c_mod blockno (int DISKFS_BLOCK_SIZE)) 8;
     (r, b, c) \<leftarrow> diskfs_bitmap_block_read io v (bio_temp io) (word_of_int bitmap_block) c;
     if bitmap_byte < 0 \<or> bitmap_bit < 0 then None
     else do {
       let j = nat bitmap_byte;
       let b = b[j := (b ! j) AND NOT (push_bit (nat bitmap_bit) 1)];
       (r, c) \<leftarrow> diskfs_bitmap_block_write io v b (word_of_int bitmap_block) c;
       Some c
     }
   }"

section \<open>Inodes\<close>

fun inumber_alloc_blocks :: "'c blockio \<Rightarrow> diskfs_superblock \<Rightarrow> nat list \<Rightarrow> buf \<Rightarrow> 'c \<Rightarrow> (nat \<times> 'c) option" where
  "inumber_alloc_blocks io v [] b c = Some (0, c)"
| "inumber_alloc_blocks io v (i # is) b c = do {
     (r, b, c) \<leftarrow> diskfs_inode_block_read io v b (of_nat i) c;
     (case find (\<lambda>j. inuse (get_inode b j) = 0) [0..<DISKFS_INODES_PER_BLOCK] of
        Some j \<Rightarrow> do {
          let b = put32 (36 * j) 1 b;
          (r, c) \<leftarrow> diskfs_inode_block_write io v b (of_nat i) c;
          Some (i * DISKFS_INODES_PER_BLOCK + j, c)
        }
      | None \<Rightarrow> inumber_alloc_blocks io v is b c)
   }"

definition diskfs_inumber_alloc :: "'c blockio \<Rightarrow> diskfs_superblock \<Rightarrow> 'c \<Rightarrow> (nat \<times> 'c) option" where
  "diskfs_inumber_alloc io v c = inumber_alloc_blocks io v [0..<unat (inode_blocks v)] (bio_temp io) c"

definition diskfs_inumber_free :: "'c blockio \<Rightarrow> diskfs_superblock \<Rightarrow> nat \<Rightarrow> 'c \<Rightarrow> 'c option" where
  "diskfs_inumber_free io v inumber c = do {
     let inode_block = inumber div DISKFS_INODES_PER_BLOCK;
     (r, b, c) \<leftarrow> diskfs_inode_block_read io v (bio_temp io) (of_nat inode_block) c;
     let b = put32 (36 * (inumber mod DISKFS_INODES_PER_BLOCK)) 0 b;
     (r, c) \<leftarrow> diskfs_inode_block_write io v b (of_nat inode_block) c;
     Some c
   }"

definition diskfs_inode_load :: "'c blockio \<Rightarrow> diskfs_superblock \<Rightarrow> nat \<Rightarrow> 'c \<Rightarrow> (diskfs_inode \<times> 'c) option" where
  "diskfs_inode_load io v inumber c = do {
     let inode_block = inumber div DISKFS_INODES_PER_BLOCK;
     let inode_position = inumber mod DISKFS_INODES_PER_BLOCK;
     (r, b, c) \<leftarrow> diskfs_inode_block_read io v (bio_temp io) (of_nat inode_block) c;
     Some (get_inode b inode_position, c)
   }"

definition diskfs_inode_save :: "'c blockio \<Rightarrow> diskfs_superblock \<Rightarrow> nat \<Rightarrow> diskfs_inode \<Rightarrow> 'c \<Rightarrow> 'c option" where
  "diskfs_inode_save io v inumber x c = do {
     let inode_block = inumber div DISKFS_INODES_PER_BLOCK;
     let inode_position = inumber mod DISKFS_INODES_PER_BLOCK;
     (r, b, c) \<leftarrow> diskfs_inode_block_read io v (bio_temp io) (of_nat inode_block) c;
     (r, c) \<leftarrow> diskfs_inode_block_write io v (put_inode inode_position x b) (of_nat inode_block) c;
     Some c
   }"

text \<open>A directory entry in memory; its volume is an argument of the operations.\<close>

record diskfs_dirent =
  dsize :: u32
  inumber :: nat
  drefcount :: int
  isdir :: bool
  disk :: diskfs_inode

text \<open>The pointer at an index of an indirect block; beyond the block is outside the page.\<close>

definition pointer_at :: "buf \<Rightarrow> nat \<Rightarrow> u32 option" where
  "pointer_at b k = (if k < DISKFS_POINTERS_PER_BLOCK then Some (le32 b (4 * k)) else None)"

definition diskfs_inode_read :: "'c blockio \<Rightarrow> diskfs_superblock \<Rightarrow> diskfs_dirent \<Rightarrow> buf \<Rightarrow> nat \<Rightarrow> 'c \<Rightarrow>
    (int \<times> buf \<times> 'c) option" where
  "diskfs_inode_read io v d b blk c =
     (if blk < DISKFS_DIRECT_POINTERS
      then diskfs_data_block_read io v b (direct (disk d) ! blk) c
      else do {
        (r, b, c) \<leftarrow> diskfs_data_block_read io v b (indirect (disk d)) c;
        actual \<leftarrow> pointer_at b (blk - DISKFS_DIRECT_POINTERS);
        diskfs_data_block_read io v b actual c
      })"

text \<open>
  The three parts of \<^verbatim>\<open>diskfs_inode_write\<close>: the block for a direct pointer, the indirect block,
  and the block for a pointer in it.  The inner \<open>None\<close> is the return of
  \<^verbatim>\<open>KERROR_OUT_OF_SPACE\<close>.
\<close>

definition inode_direct :: "'c blockio \<Rightarrow> diskfs_superblock \<Rightarrow> diskfs_dirent \<Rightarrow> nat \<Rightarrow> 'c \<Rightarrow>
    (u32 option \<times> diskfs_dirent \<times> 'c) option" where
  "inode_direct io v d blk c =
     (if direct (disk d) ! blk \<noteq> 0 then Some (Some (direct (disk d) ! blk), d, c)
      else do {
        (actual, c) \<leftarrow> diskfs_data_block_alloc io v c;
        if actual = 0 then Some (None, d, c)
        else do {
          let d = d\<lparr>disk := (disk d)\<lparr>direct := (direct (disk d))[blk := actual]\<rparr>\<rparr>;
          c \<leftarrow> diskfs_inode_save io v (inumber d) (disk d) c;
          Some (Some actual, d, c)
        }
      })"

definition inode_indirect :: "'c blockio \<Rightarrow> diskfs_superblock \<Rightarrow> diskfs_dirent \<Rightarrow> 'c \<Rightarrow>
    (buf option \<times> diskfs_dirent \<times> 'c) option" where
  "inode_indirect io v d c =
     (if indirect (disk d) \<noteq> 0 then Some (Some (bio_temp io), d, c)
      else do {
        (actual, c) \<leftarrow> diskfs_data_block_alloc io v c;
        if actual = 0 then Some (None, d, c)
        else do {
          let d = d\<lparr>disk := (disk d)\<lparr>indirect := actual\<rparr>\<rparr>;
          c \<leftarrow> diskfs_inode_save io v (inumber d) (disk d) c;
          let iblock = replicate DISKFS_BLOCK_SIZE 0;
          (r, c) \<leftarrow> diskfs_data_block_write io v iblock (indirect (disk d)) c;
          Some (Some iblock, d, c)
        }
      })"

definition inode_pointer :: "'c blockio \<Rightarrow> diskfs_superblock \<Rightarrow> diskfs_dirent \<Rightarrow> buf \<Rightarrow> nat \<Rightarrow> 'c \<Rightarrow>
    (u32 option \<times> diskfs_dirent \<times> 'c) option" where
  "inode_pointer io v d iblock k c = do {
     (r, iblock, c) \<leftarrow> diskfs_data_block_read io v iblock (indirect (disk d)) c;
     actual \<leftarrow> pointer_at iblock k;
     if actual \<noteq> 0 then Some (Some actual, d, c)
     else do {
       (actual, c) \<leftarrow> diskfs_data_block_alloc io v c;
       if actual = 0 then Some (None, d, c)
       else do {
         (r, c) \<leftarrow> diskfs_data_block_write io v (put32 (4 * k) actual iblock) (indirect (disk d)) c;
         Some (Some actual, d, c)
       }
     }
   }"

definition diskfs_inode_write :: "'c blockio \<Rightarrow> diskfs_superblock \<Rightarrow> diskfs_dirent \<Rightarrow> buf \<Rightarrow> nat \<Rightarrow> 'c \<Rightarrow>
    (int \<times> diskfs_dirent \<times> 'c) option" where
  "diskfs_inode_write io v d b blk c = do {
     (actual, d, c) \<leftarrow>
       (if blk < DISKFS_DIRECT_POINTERS then inode_direct io v d blk c
        else do {
          (iblock, d, c) \<leftarrow> inode_indirect io v d c;
          (case iblock of
             None \<Rightarrow> Some (None, d, c)
           | Some iblock \<Rightarrow> inode_pointer io v d iblock (blk - DISKFS_DIRECT_POINTERS) c)
        });
     (case actual of
        None \<Rightarrow> Some (kerr KERROR_OUT_OF_SPACE, d, c)
      | Some actual \<Rightarrow> do {
          (r, c) \<leftarrow> diskfs_data_block_write io v b actual c;
          Some (r, d, c)
        })
   }"

text \<open>
  The two loops of \<^verbatim>\<open>diskfs_inode_delete\<close>; \<open>vbs\<close> is the block size of the volume.  The call
  \<^verbatim>\<open>memset(node,sizeof(*node),0)\<close> stores nothing, as its length is 0.
\<close>

fun inode_delete_loop :: "'c blockio \<Rightarrow> diskfs_superblock \<Rightarrow> u32 \<Rightarrow> diskfs_inode \<Rightarrow> u32 list \<Rightarrow> u32 \<Rightarrow> 'c \<Rightarrow>
    (u32 \<times> 'c) option" where
  "inode_delete_loop io v vbs node [] sz c = Some (sz, c)"
| "inode_delete_loop io v vbs node (p # ps) sz c = do {
     c \<leftarrow> diskfs_data_block_free io v (sint p) c;
     let sz = sz + vbs;
     if sz \<ge> isize node then Some (sz, c) else inode_delete_loop io v vbs node ps sz c
   }"

definition diskfs_inode_delete :: "'c blockio \<Rightarrow> diskfs_superblock \<Rightarrow> u32 \<Rightarrow> diskfs_inode \<Rightarrow> nat \<Rightarrow> 'c \<Rightarrow> 'c option" where
  "diskfs_inode_delete io v vbs node ino c = do {
     (sz, c) \<leftarrow> inode_delete_loop io v vbs node (direct node) 0 c;
     c \<leftarrow> (if sz < isize node then do {
         (r, b, c) \<leftarrow> diskfs_data_block_read io v (bio_temp io) (indirect node) c;
         (sz, c) \<leftarrow> inode_delete_loop io v vbs node
           (map (\<lambda>k. le32 b (4 * k)) [0..<DISKFS_POINTERS_PER_BLOCK]) sz c;
         Some c
       } else Some c);
     c \<leftarrow> diskfs_inode_save io v ino node c;
     diskfs_inumber_free io v ino c
   }"

section \<open>Directories\<close>

definition diskfs_dirent_create :: "'c blockio \<Rightarrow> diskfs_superblock \<Rightarrow> nat \<Rightarrow> u8 \<Rightarrow> 'c \<Rightarrow> (diskfs_dirent \<times> 'c) option" where
  "diskfs_dirent_create io v ino ty c = do {
     (x, c) \<leftarrow> diskfs_inode_load io v ino c;
     Some (\<lparr>dsize = isize x, inumber = ino, drefcount = 1, isdir = (ty = DISKFS_ITEM_DIR), disk = x\<rparr>, c)
   }"

definition diskfs_dirent_close :: "'c blockio \<Rightarrow> diskfs_superblock \<Rightarrow> diskfs_dirent \<Rightarrow> 'c \<Rightarrow> (int \<times> 'c) option" where
  "diskfs_dirent_close io v d c = do { c \<leftarrow> diskfs_inode_save io v (inumber d) (disk d) c; Some (0, c) }"

definition diskfs_name_equals :: "buf \<Rightarrow> nat \<Rightarrow> buf \<Rightarrow> nat \<Rightarrow> bool option" where
  "diskfs_name_equals a alength b blength =
     (if alength = blength then map_option (\<lambda>r. r = 0) (strncmp a b alength) else Some False)"

definition dir_nblocks :: "diskfs_dirent \<Rightarrow> nat" where
  "dir_nblocks d = unat (dsize d) div DISKFS_BLOCK_SIZE +
     (if unat (dsize d) mod DISKFS_BLOCK_SIZE \<noteq> 0 then 1 else 0)"

text \<open>The search through the items of one block; the inner \<open>None\<close> is no match.\<close>

fun find_item :: "buf \<Rightarrow> buf \<Rightarrow> nat \<Rightarrow> nat list \<Rightarrow> nat option option" where
  "find_item b nm len [] = Some None"
| "find_item b nm len (j # js) =
     (let r = get_item b j in
      if it_type r \<noteq> DISKFS_ITEM_BLANK then do {
        eq \<leftarrow> diskfs_name_equals nm len (it_name r) (unat (name_length r));
        if eq then Some (Some j) else find_item b nm len js
      } else find_item b nm len js)"

fun dirent_lookup_blocks :: "'c blockio \<Rightarrow> diskfs_superblock \<Rightarrow> diskfs_dirent \<Rightarrow> buf \<Rightarrow> nat \<Rightarrow> nat list \<Rightarrow> buf \<Rightarrow> 'c \<Rightarrow>
    (diskfs_dirent option \<times> 'c) option" where
  "dirent_lookup_blocks io v d nm len [] b c = Some (None, c)"
| "dirent_lookup_blocks io v d nm len (i # is) b c = do {
     (r, b, c) \<leftarrow> diskfs_inode_read io v d b i c;
     hit \<leftarrow> find_item b nm len [0..<DISKFS_ITEMS_PER_BLOCK];
     (case hit of
        Some j \<Rightarrow> do {
          (t, c) \<leftarrow> diskfs_dirent_create io v (unat (it_inumber (get_item b j))) (it_type (get_item b j)) c;
          Some (Some t, c)
        }
      | None \<Rightarrow> dirent_lookup_blocks io v d nm len is b c)
   }"

definition diskfs_dirent_lookup :: "'c blockio \<Rightarrow> diskfs_superblock \<Rightarrow> diskfs_dirent \<Rightarrow> buf \<Rightarrow> 'c \<Rightarrow>
    (diskfs_dirent option \<times> 'c) option" where
  "diskfs_dirent_lookup io v d nm c = do {
     len \<leftarrow> strlen nm;
     dirent_lookup_blocks io v d nm (unat len) [0..<dir_nblocks d] (bio_temp io) c
   }"

text \<open>The bytes \<^verbatim>\<open>diskfs_dirent_list\<close> stores at the caller's buffer: its length is counted down
  but never tested.  The return value is their number.\<close>

definition list_items :: "buf \<Rightarrow> buf" where
  "list_items b = concat (map (\<lambda>j. let r = get_item b j in
     if it_type r = DISKFS_ITEM_FILE \<or> it_type r = DISKFS_ITEM_DIR
     then take (unat (name_length r)) (it_name r) @ [0] else []) [0..<DISKFS_ITEMS_PER_BLOCK])"

fun dirent_list_blocks :: "'c blockio \<Rightarrow> diskfs_superblock \<Rightarrow> diskfs_dirent \<Rightarrow> nat list \<Rightarrow> buf \<Rightarrow> buf \<Rightarrow> 'c \<Rightarrow>
    (buf \<times> 'c) option" where
  "dirent_list_blocks io v d [] b out c = Some (out, c)"
| "dirent_list_blocks io v d (i # is) b out c = do {
     (r, b, c) \<leftarrow> diskfs_inode_read io v d b i c;
     dirent_list_blocks io v d is b (out @ list_items b) c
   }"

definition diskfs_dirent_list :: "'c blockio \<Rightarrow> diskfs_superblock \<Rightarrow> diskfs_dirent \<Rightarrow> 'c \<Rightarrow> (int \<times> buf \<times> 'c) option" where
  "diskfs_dirent_list io v d c = do {
     (out, c) \<leftarrow> dirent_list_blocks io v d [0..<dir_nblocks d] (bio_temp io) [] c;
     Some (int (length out), out, c)
   }"

definition diskfs_dirent_resize :: "diskfs_dirent \<Rightarrow> u32 \<Rightarrow> int \<times> diskfs_dirent" where
  "diskfs_dirent_resize d sz = (0, d\<lparr>dsize := sz, disk := (disk d)\<lparr>isize := sz\<rparr>\<rparr>)"

text \<open>\<^verbatim>\<open>diskfs_dirent_add\<close>: the loop over the blocks, and the new block at the end.\<close>

fun dirent_add_blocks :: "'c blockio \<Rightarrow> diskfs_superblock \<Rightarrow> diskfs_dirent \<Rightarrow> buf \<Rightarrow> u8 \<Rightarrow> nat \<Rightarrow> nat list \<Rightarrow> buf \<Rightarrow> 'c \<Rightarrow>
    ((bool \<times> diskfs_dirent) \<times> buf \<times> 'c) option" where
  "dirent_add_blocks io v d nm ty ino [] b c = Some ((False, d), b, c)"
| "dirent_add_blocks io v d nm ty ino (i # is) b c = do {
     (r, b, c) \<leftarrow> diskfs_inode_read io v d b i c;
     (case find (\<lambda>j. it_type (get_item b j) = DISKFS_ITEM_BLANK) [0..<DISKFS_ITEMS_PER_BLOCK] of
        Some j \<Rightarrow> do {
          let b = put_item j (of_nat ino) ty nm b;
          (r, d, c) \<leftarrow> diskfs_inode_write io v d b i c;
          let newsize = of_nat (i * DISKFS_BLOCK_SIZE + (j + 1) * 32);
          if newsize > dsize d then do {
            let d = snd (diskfs_dirent_resize d newsize);
            c \<leftarrow> diskfs_inode_save io v (inumber d) (disk d) c;
            Some ((True, d), b, c)
          } else Some ((True, d), b, c)
        }
      | None \<Rightarrow> dirent_add_blocks io v d nm ty ino is b c)
   }"

definition diskfs_dirent_add :: "'c blockio \<Rightarrow> diskfs_superblock \<Rightarrow> diskfs_dirent \<Rightarrow> buf \<Rightarrow> u8 \<Rightarrow> nat \<Rightarrow> 'c \<Rightarrow>
    (int \<times> diskfs_dirent \<times> 'c) option" where
  "diskfs_dirent_add io v d name ty ino c = do {
     len \<leftarrow> strlen name;
     let nm = take (unat len) name;
     ((done, d), b, c) \<leftarrow> dirent_add_blocks io v d nm ty ino [0..<dir_nblocks d] (bio_temp io) c;
     if done then Some (0, d, c)
     else do {
       let i = dir_nblocks d;
       let b = put_item 0 (of_nat ino) ty nm (replicate DISKFS_BLOCK_SIZE 0);
       let d = snd (diskfs_dirent_resize d (dsize d + 32));
       (r, d, c) \<leftarrow> diskfs_inode_write io v d b i c;
       c \<leftarrow> diskfs_inode_save io v (inumber d) (disk d) c;
       Some (0, d, c)
     }
   }"

text \<open>Creating a file or directory; the inner \<open>None\<close> is the null result.\<close>

definition diskfs_dirent_create_file_or_dir :: "'c blockio \<Rightarrow> diskfs_superblock \<Rightarrow> diskfs_dirent \<Rightarrow> buf \<Rightarrow> u8 \<Rightarrow> 'c \<Rightarrow>
    (diskfs_dirent option \<times> diskfs_dirent \<times> 'c) option" where
  "diskfs_dirent_create_file_or_dir io v d name ty c = do {
     len \<leftarrow> strlen name;
     if unat len > DISKFS_NAME_MAX then Some (None, d, c)
     else do {
       (t, c) \<leftarrow> diskfs_dirent_lookup io v d name c;
       (case t of
          Some t \<Rightarrow> do { (r, c) \<leftarrow> diskfs_dirent_close io v t c; Some (None, d, c) }
        | None \<Rightarrow> do {
            (ino, c) \<leftarrow> diskfs_inumber_alloc io v c;
            if ino = 0 then Some (None, d, c)
            else do {
              let x = \<lparr>inuse = 1, isize = 0, direct = replicate DISKFS_DIRECT_POINTERS 0, indirect = 0\<rparr>;
              c \<leftarrow> diskfs_inode_save io v ino x c;
              (r, d, c) \<leftarrow> diskfs_dirent_add io v d name ty ino c;
              (n, c) \<leftarrow> diskfs_dirent_create io v ino ty c;
              Some (Some n, d, c)
            }
          })
     }
   }"

definition diskfs_dirent_create_file where
  "diskfs_dirent_create_file io v d name = diskfs_dirent_create_file_or_dir io v d name DISKFS_ITEM_FILE"

definition diskfs_dirent_create_dir where
  "diskfs_dirent_create_dir io v d name = diskfs_dirent_create_file_or_dir io v d name DISKFS_ITEM_DIR"

text \<open>
  \<^verbatim>\<open>diskfs_dirent_remove\<close> passes the inode of the directory, \<^verbatim>\<open>&d->disk\<close>, to
  \<^verbatim>\<open>diskfs_inode_delete\<close>.
\<close>

fun dirent_remove_blocks :: "'c blockio \<Rightarrow> diskfs_superblock \<Rightarrow> u32 \<Rightarrow> diskfs_dirent \<Rightarrow> buf \<Rightarrow> nat \<Rightarrow> nat list \<Rightarrow> buf \<Rightarrow> 'c \<Rightarrow>
    (int \<times> diskfs_dirent \<times> 'c) option" where
  "dirent_remove_blocks io v vbs d nm len [] b c = Some (kerr KERROR_NOT_FOUND, d, c)"
| "dirent_remove_blocks io v vbs d nm len (i # is) b c = do {
     (r, b, c) \<leftarrow> diskfs_inode_read io v d b i c;
     hit \<leftarrow> find_item b nm len [0..<DISKFS_ITEMS_PER_BLOCK];
     (case hit of
        Some j \<Rightarrow> do {
          let ino = unat (it_inumber (get_item b j));
          (full, c) \<leftarrow> (if it_type (get_item b j) = DISKFS_ITEM_DIR then do {
              (x, c) \<leftarrow> diskfs_inode_load io v ino c;
              Some (isize x > 0, c)
            } else Some (False, c));
          if full then Some (kerr KERROR_NOT_EMPTY, d, c)
          else do {
            let b = b[32 * j + 4 := DISKFS_ITEM_BLANK];
            (r, d, c) \<leftarrow> diskfs_inode_write io v d b i c;
            c \<leftarrow> diskfs_inode_delete io v vbs (disk d) ino c;
            Some (0, d, c)
          }
        }
      | None \<Rightarrow> dirent_remove_blocks io v vbs d nm len is b c)
   }"

definition diskfs_dirent_remove :: "'c blockio \<Rightarrow> diskfs_superblock \<Rightarrow> u32 \<Rightarrow> diskfs_dirent \<Rightarrow> buf \<Rightarrow> 'c \<Rightarrow>
    (int \<times> diskfs_dirent \<times> 'c) option" where
  "diskfs_dirent_remove io v vbs d nm c = do {
     len \<leftarrow> strlen nm;
     dirent_remove_blocks io v vbs d nm (unat len) [0..<dir_nblocks d] (bio_temp io) c
   }"

definition diskfs_dirent_write_block where
  "diskfs_dirent_write_block io v d data blockno c = diskfs_inode_write io v d data blockno c"

definition diskfs_dirent_read_block where
  "diskfs_dirent_read_block io v d data blockno c = diskfs_inode_read io v d data blockno c"

section \<open>Volumes\<close>

definition diskfs_volume_open :: "'c blockio \<Rightarrow> 'c \<Rightarrow> (diskfs_superblock option \<times> 'c) option" where
  "diskfs_volume_open io c = do {
     (r, b, c) \<leftarrow> diskfs_block_read io (bio_temp io) 0 c;
     let sb = get_superblock b;
     if magic sb \<noteq> DISKFS_MAGIC then Some (None, c) else Some (Some sb, c)
   }"

definition diskfs_volume_root :: "'c blockio \<Rightarrow> diskfs_superblock \<Rightarrow> 'c \<Rightarrow> (diskfs_dirent \<times> 'c) option" where
  "diskfs_volume_root io v c = diskfs_dirent_create io v 0 DISKFS_ITEM_DIR c"

text \<open>Formatting: the layout, and the blocks written, counting down as in the source.\<close>

definition format_layout :: "int \<Rightarrow> diskfs_superblock" where
  "format_layout count =
     (let inodes = 1024 div 36;
          remaining = word_of_int count - inodes;
          bitmaps = 1 + word_of_int (c_div (sint remaining) (int DISKFS_BLOCK_SIZE * 8)) in
      \<lparr>magic = DISKFS_MAGIC, sb_block_size = of_nat DISKFS_BLOCK_SIZE,
       inode_start = 1, inode_blocks = inodes,
       bitmap_start = 1 + inodes, bitmap_blocks = bitmaps,
       data_start = 1 + inodes + bitmaps, data_blocks = remaining - bitmaps\<rparr>)"

fun write_blocks :: "'c blockio \<Rightarrow> buf \<Rightarrow> u32 list \<Rightarrow> 'c \<Rightarrow> 'c option" where
  "write_blocks io b [] c = Some c"
| "write_blocks io b (n # ns) c = do { (r, c) \<leftarrow> diskfs_block_write io b n c; write_blocks io b ns c }"

definition diskfs_volume_format :: "'c blockio \<Rightarrow> int \<Rightarrow> 'c \<Rightarrow> 'c option" where
  "diskfs_volume_format io count c = do {
     let sb = format_layout count;
     let zero = replicate DISKFS_BLOCK_SIZE 0;
     (r, c) \<leftarrow> diskfs_block_write io (put_superblock sb zero) 0 c;
     c \<leftarrow> write_blocks io zero (map (\<lambda>i. inode_start sb + of_nat i) (rev [0..<unat (inode_blocks sb)])) c;
     c \<leftarrow> write_blocks io zero (map (\<lambda>i. bitmap_start sb + of_nat i) (rev [0..<unat (bitmap_blocks sb)])) c;
     (r, c) \<leftarrow> diskfs_block_write io (zero[0 := 3]) (bitmap_start sb) c;
     (r, c) \<leftarrow> diskfs_block_write io
        (put_inode 0 \<lparr>inuse = 1, isize = 32, direct = 1 # replicate 5 0, indirect = 0\<rparr> zero) (inode_start sb) c;
     (r, c) \<leftarrow> diskfs_block_write io (put_item 0 0 DISKFS_ITEM_DIR [46] zero) (data_start sb + 1) c;
     bio_flush io c
   }"

section \<open>Encoding\<close>

lemma length_put32 [simp]: "length (put32 i w b) = length b"
  by (simp add: put32_def)

lemma put32_nth:
  "j < length b \<Longrightarrow> put32 i w b ! j = (if j = i then ucast w else if j = i + 1 then ucast (drop_bit 8 w)
     else if j = i + 2 then ucast (drop_bit 16 w) else if j = i + 3 then ucast (drop_bit 24 w) else b ! j)"
  by (auto simp: put32_def nth_list_update)

lemma le32_put32 [simp]: "i + 3 < length b \<Longrightarrow> le32 (put32 i w b) i = w"
proof (rule bit_word_eqI)
  fix n assume i: "i + 3 < length b" and n: "n < LENGTH(32)"
  have b: "put32 i w b ! i = ucast w" "put32 i w b ! (i + 1) = ucast (drop_bit 8 w)"
    "put32 i w b ! (i + 2) = ucast (drop_bit 16 w)" "put32 i w b ! (i + 3) = ucast (drop_bit 24 w)"
    using i by (auto simp: put32_nth)
  consider "n < 8" | "8 \<le> n" "n < 16" | "16 \<le> n" "n < 24" | "24 \<le> n" by linarith
  then show "bit (le32 (put32 i w b) i) n = bit w n"
    unfolding le32_def b using n by cases (auto simp: bit_simps)
qed

lemma le32_put32_other [simp]:
  "j + 3 < length b \<Longrightarrow> i + 4 \<le> j \<or> j + 4 \<le> i \<Longrightarrow> le32 (put32 i w b) j = le32 b j"
proof -
  assume j: "j + 3 < length b" "i + 4 \<le> j \<or> j + 4 \<le> i"
  have "put32 i w b ! (j + k) = b ! (j + k)" if "k < 4" for k
    using j that by (subst put32_nth) auto
  from this [of 0] this [of 1] this [of 2] this [of 3] show ?thesis by (simp add: le32_def)
qed

lemma le32_zero [simp]: "j + 3 < n \<Longrightarrow> le32 (replicate n 0) j = 0"
  by (simp add: le32_def)

lemma get_put_superblock:
  "length b = DISKFS_BLOCK_SIZE \<Longrightarrow> get_superblock (put_superblock sb b) = sb"
  by (simp add: get_superblock_def put_superblock_def DISKFS_BLOCK_SIZE_def)

lemma length_put_superblock [simp]: "length (put_superblock sb b) = length b"
  by (simp add: put_superblock_def)

lemma upt6: "[0..<DISKFS_DIRECT_POINTERS] = [0, 1, 2, 3, 4, 5]"
  by (simp add: DISKFS_DIRECT_POINTERS_def upt_rec)

lemma length_put_inode [simp]: "length (put_inode j x b) = length b"
  by (simp add: put_inode_def upt6)

lemma list6: "length xs = 6 \<Longrightarrow> [xs ! 0, xs ! 1, xs ! 2, xs ! 3, xs ! 4, xs ! 5] = xs"
  by (auto simp: length_Suc_conv eval_nat_numeral)

lemma get_put_inode:
  assumes "length b = DISKFS_BLOCK_SIZE" "j < DISKFS_INODES_PER_BLOCK" "length (direct x) = DISKFS_DIRECT_POINTERS"
  shows "get_inode (put_inode j x b) j = x"
proof -
  have j: "36 * j + 36 \<le> length b" using assms by (simp add: diskfs_sizes)
  have "direct x = [direct x ! 0, direct x ! 1, direct x ! 2, direct x ! 3, direct x ! 4, direct x ! 5]"
    using list6 [of "direct x"] assms(3) by (simp add: DISKFS_DIRECT_POINTERS_def)
  then show ?thesis using j by (cases x) (simp add: get_inode_def put_inode_def upt6)
qed

lemma get_put_inode_other:
  assumes "length b = DISKFS_BLOCK_SIZE" "i < DISKFS_INODES_PER_BLOCK" "i \<noteq> j"
  shows "get_inode (put_inode j x b) i = get_inode b i"
proof -
  have "36 * i + 36 \<le> length b" "36 * i + 36 \<le> 36 * j \<or> 36 * j + 36 \<le> 36 * i"
    using assms by (auto simp: diskfs_sizes)
  then show ?thesis by (auto simp: get_inode_def put_inode_def upt6)
qed

end
