(* ===== verification/Diskfs_Props.thy ===== *)
theory Diskfs_Props
  imports Diskfs
begin

text \<open>
  What \<^verbatim>\<open>kernel/diskfs.c\<close> promises, proved over any store of blocks of 4096 bytes that obeys the
  laws of \<open>flush_store\<close> and then stated for the buffer cache.
\<close>

section \<open>The layout of a volume\<close>

text \<open>
  The regions of a volume in order and on the device.  A volume has at most 65536 bitmap blocks,
  as \<^verbatim>\<open>diskfs_volume_format\<close> makes them.
\<close>

definition layout_ok :: "diskfs_superblock \<Rightarrow> int \<Rightarrow> bool" where
  "layout_ok v N \<longleftrightarrow> 1 \<le> unat (inode_start v) \<and>
     unat (inode_start v) + unat (inode_blocks v) \<le> unat (bitmap_start v) \<and>
     unat (bitmap_start v) + unat (bitmap_blocks v) \<le> unat (data_start v) \<and>
     int (unat (data_start v) + unat (data_blocks v)) \<le> N \<and> N \<le> 2147483648 \<and> unat (bitmap_blocks v) \<le> 65536"

definition iloc :: "diskfs_superblock \<Rightarrow> nat \<Rightarrow> int" where "iloc v i = int (unat (inode_start v) + i)"
definition bloc :: "diskfs_superblock \<Rightarrow> nat \<Rightarrow> int" where "bloc v i = int (unat (bitmap_start v) + i)"
definition dloc :: "diskfs_superblock \<Rightarrow> nat \<Rightarrow> int" where "dloc v i = int (unat (data_start v) + i)"

lemma sint_word32: "int (unat (w :: u32)) < 2147483648 \<Longrightarrow> sint w = int (unat w)"
proof -
  assume "int (unat w) < 2147483648"
  moreover have "- 2147483648 \<le> int (unat w)" by linarith
  ultimately show ?thesis by (simp add: sint_uint signed_take_bit_int_eq_self)
qed

lemma sint_add32: "int (unat (a :: u32)) + int (unat b) < 2147483648 \<Longrightarrow> sint (a + b) = int (unat a + unat b)"
proof -
  assume a: "int (unat a) + int (unat b) < 2147483648"
  then have "unat a + unat b < 4294967296" by linarith
  then have u: "unat (a + b) = unat a + unat b" by (simp add: unat_plus_if')
  show ?thesis using sint_word32 [of "a + b"] a by (simp only: u of_nat_add)
qed

lemma block_locations:
  assumes "layout_ok v N"
  shows "i < inode_blocks v \<Longrightarrow> sint (inode_start v + i) = iloc v (unat i) \<and> 0 \<le> iloc v (unat i) \<and> iloc v (unat i) < N"
    and "i < bitmap_blocks v \<Longrightarrow> sint (bitmap_start v + i) = bloc v (unat i) \<and> 0 \<le> bloc v (unat i) \<and> bloc v (unat i) < N"
    and "i < data_blocks v \<Longrightarrow> sint (data_start v + i) = dloc v (unat i) \<and> 0 \<le> dloc v (unat i) \<and> dloc v (unat i) < N"
proof -
  have lim: "unat (inode_start v) + unat (inode_blocks v) \<le> unat (bitmap_start v)"
    "unat (bitmap_start v) + unat (bitmap_blocks v) \<le> unat (data_start v)"
    "int (unat (data_start v) + unat (data_blocks v)) \<le> N" "N \<le> 2147483648 \<and> unat (bitmap_blocks v) \<le> 65536"
    using assms by (simp_all add: layout_ok_def)
  show "i < inode_blocks v \<Longrightarrow> sint (inode_start v + i) = iloc v (unat i) \<and> 0 \<le> iloc v (unat i) \<and> iloc v (unat i) < N"
    using lim by (subst sint_add32) (unfold word_less_nat_alt iloc_def, linarith+)
  show "i < bitmap_blocks v \<Longrightarrow> sint (bitmap_start v + i) = bloc v (unat i) \<and> 0 \<le> bloc v (unat i) \<and> bloc v (unat i) < N"
    using lim by (subst sint_add32) (unfold word_less_nat_alt bloc_def, linarith+)
  show "i < data_blocks v \<Longrightarrow> sint (data_start v + i) = dloc v (unat i) \<and> 0 \<le> dloc v (unat i) \<and> dloc v (unat i) < N"
    using lim by (subst sint_add32) (unfold word_less_nat_alt dloc_def, linarith+)
qed

lemma location_inj [simp]:
  "iloc v i = iloc v j \<longleftrightarrow> i = j" "bloc v i = bloc v j \<longleftrightarrow> i = j" "dloc v i = dloc v j \<longleftrightarrow> i = j"
  by (auto simp: iloc_def bloc_def dloc_def)

lemma location_disjoint:
  assumes "layout_ok v N"
  shows "i < unat (inode_blocks v) \<Longrightarrow> iloc v i \<noteq> bloc v j"
    and "i < unat (inode_blocks v) \<Longrightarrow> iloc v i \<noteq> dloc v k"
    and "j < unat (bitmap_blocks v) \<Longrightarrow> bloc v j \<noteq> dloc v k"
  using assms unfolding layout_ok_def iloc_def bloc_def dloc_def by linarith+

section \<open>Searching the bitmap\<close>

text \<open>The number of bit \<open>n\<close> of bitmap block \<open>i\<close>, and whether the allocator may hand it out.\<close>

definition bit_no :: "nat \<Rightarrow> nat \<Rightarrow> nat" where "bit_no i n = i * DISKFS_BLOCK_SIZE + n"

definition bit_set :: "buf \<Rightarrow> nat \<Rightarrow> bool" where "bit_set b n \<longleftrightarrow> bit (b ! (n div 8)) (n mod 8)"

definition set_bit_at :: "nat \<Rightarrow> buf \<Rightarrow> buf" where
  "set_bit_at n b = b[n div 8 := (b ! (n div 8)) OR push_bit (n mod 8) 1]"

definition clear_bit_at :: "nat \<Rightarrow> buf \<Rightarrow> buf" where
  "clear_bit_at n b = b[n div 8 := (b ! (n div 8)) AND NOT (push_bit (n mod 8) 1)]"

definition free_bit :: "diskfs_superblock \<Rightarrow> nat \<Rightarrow> buf \<Rightarrow> nat \<Rightarrow> bool" where
  "free_bit v i b n \<longleftrightarrow> bit_no i n \<noteq> 0 \<and> \<not> bit_set b n \<and> bit_no i n < unat (data_blocks v)"

lemma length_set_bit [simp]: "length (set_bit_at n b) = length b" "length (clear_bit_at n b) = length b"
  by (simp_all add: set_bit_at_def clear_bit_at_def)

lemma bit_set_set_bit:
  assumes "n < 8 * length b"
  shows "bit_set (set_bit_at n b) m \<longleftrightarrow> m = n \<or> bit_set b m"
    and "bit_set (clear_bit_at n b) m \<longleftrightarrow> m \<noteq> n \<and> bit_set b m"
proof -
  have n: "n div 8 < length b" using assms by auto
  have e: "m div 8 = n div 8 \<and> m mod 8 = n mod 8 \<longleftrightarrow> m = n" by (metis div_mult_mod_eq)
  have m: "m mod 8 < 8" "n mod 8 < 8" by auto
  show "bit_set (set_bit_at n b) m \<longleftrightarrow> m = n \<or> bit_set b m"
    using n e m by (cases "m div 8 = n div 8") (auto simp: bit_set_def set_bit_at_def nth_list_update bit_simps)
  show "bit_set (clear_bit_at n b) m \<longleftrightarrow> m \<noteq> n \<and> bit_set b m"
    using n e m by (cases "m div 8 = n div 8") (auto simp: bit_set_def clear_bit_at_def nth_list_update bit_simps)
qed

lemma find_bounded:
  assumes "\<forall>x y. x \<le> y \<longrightarrow> D y \<longrightarrow> D x" "sorted xs"
  shows "find (\<lambda>n. Q n \<and> D n) xs = (case find Q xs of Some n \<Rightarrow> if D (n :: nat) then Some n else None | None \<Rightarrow> None)"
  using assms(2)
proof (induction xs)
  case (Cons x xs)
  have "find (\<lambda>n. Q n \<and> D n) xs = None" if "\<not> D x"
    using that assms(1) Cons.prems by (auto simp: find_None_iff)
  then show ?case using Cons by auto
qed simp

lemma find_append: "find P (xs @ ys) = (case find P xs of Some x \<Rightarrow> Some x | None \<Rightarrow> find P ys)"
  by (induction xs) auto

lemma find_map: "find P (map f xs) = map_option f (find (P \<circ> f) xs)"
  by (induction xs) auto

lemma find_key_upt: "find P [j * 8..<j * 8 + 8] = Some n \<Longrightarrow> n div 8 = j"
proof -
  assume "find P [j * 8..<j * 8 + 8] = Some n"
  then have "n \<in> set [j * 8..<j * 8 + 8]" by (metis find_Some_iff nth_mem)
  then show ?thesis by auto
qed

lemma alloc_bits_find:
  "alloc_bits v i j byte ks =
     (case find (\<lambda>k. \<not> bit byte k \<and> (of_nat (bit_no i (j * 8 + k)) :: u32) \<noteq> 0) ks of
        None \<Rightarrow> None
      | Some k \<Rightarrow> let blockno = of_nat (bit_no i (j * 8 + k)) in
          if blockno \<ge> data_blocks v then None else Some (k, blockno))"
  by (induction ks) (auto simp: Let_def bit_no_def add.assoc)

lemma alloc_bits_byte:
  assumes small: "bit_no i (j * 8 + 8) < 2 ^ 32"
  shows "alloc_bits v i j (b ! j) [0..<8] =
    map_option (\<lambda>n. (n mod 8, of_nat (bit_no i n))) (find (free_bit v i b) [j * 8..<j * 8 + 8])"
proof -
  have un: "unat (of_nat (bit_no i (j * 8 + k)) :: u32) = bit_no i (j * 8 + k)" if "k < 8" for k
    using small that by (intro unat_of_nat_eq) (simp add: bit_no_def)
  have nz: "(of_nat (bit_no i (j * 8 + k)) :: u32) \<noteq> 0 \<longleftrightarrow> bit_no i (j * 8 + k) \<noteq> 0" if "k < 8" for k
    using un [OF that] by (simp only: word_unat_eq_iff unat_0)
  have lt: "data_blocks v \<le> of_nat (bit_no i (j * 8 + k)) \<longleftrightarrow> \<not> bit_no i (j * 8 + k) < unat (data_blocks v)" if "k < 8" for k
    using un [OF that] by (auto simp: word_le_nat_alt)
  let ?Q = "\<lambda>k. \<not> bit (b ! j) k \<and> bit_no i (j * 8 + k) \<noteq> 0"
  have "[j * 8..<j * 8 + 8] = map (\<lambda>k. j * 8 + k) [0..<8]" using map_add_upt [of "j * 8" 8] by (simp only: add.commute)
  then have "find (free_bit v i b) [j * 8..<j * 8 + 8] =
      map_option (\<lambda>k. j * 8 + k) (find (free_bit v i b \<circ> (\<lambda>k. j * 8 + k)) [0..<8])"
    by (simp only: find_map)
  also have "find (free_bit v i b \<circ> (\<lambda>k. j * 8 + k)) [0..<8] =
      find (\<lambda>k. ?Q k \<and> bit_no i (j * 8 + k) < unat (data_blocks v)) [0..<8]"
    by (rule find_cong) (auto simp: free_bit_def bit_set_def)
  also have "\<dots> = (case find ?Q [0..<8] of
      Some k \<Rightarrow> if bit_no i (j * 8 + k) < unat (data_blocks v) then Some k else None | None \<Rightarrow> None)"
    by (rule find_bounded) (auto simp: bit_no_def)
  finally have f: "find (free_bit v i b) [j * 8..<j * 8 + 8] = map_option (\<lambda>k. j * 8 + k) (case find ?Q [0..<8] of
      Some k \<Rightarrow> if bit_no i (j * 8 + k) < unat (data_blocks v) then Some k else None | None \<Rightarrow> None)" .
  have q: "find (\<lambda>k. \<not> bit (b ! j) k \<and> (of_nat (bit_no i (j * 8 + k)) :: u32) \<noteq> 0) [0..<8] = find ?Q [0..<8]"
    by (rule find_cong) (use nz in auto)
  have "k < 8" if "find ?Q [0..<8] = Some k" for k using that by (auto simp: find_Some_iff)
  then show ?thesis using lt
    by (auto simp: alloc_bits_find q f Let_def split: option.splits)
qed

lemma alloc_bytes_find:
  assumes small: "bit_no i (j * 8 + m * 8) < 2 ^ 32"
  shows "alloc_bytes v i b [j..<j + m] =
    map_option (\<lambda>n. (n div 8, n mod 8, of_nat (bit_no i n))) (find (free_bit v i b) [j * 8..<j * 8 + m * 8])"
  using small
proof (induction m arbitrary: j)
  case (Suc m)
  have s: "sint (b ! j) \<noteq> 255" using sint_lt [of "b ! j"] by auto
  have u: "[j * 8..<j * 8 + Suc m * 8] = [j * 8..<j * 8 + 8] @ [Suc j * 8..<Suc j * 8 + m * 8]"
    using upt_add_eq_append [of "j * 8" "j * 8 + 8" "m * 8"] by (simp add: algebra_simps)
  have "bit_no i (j * 8 + 8) < 2 ^ 32" "bit_no i (Suc j * 8 + m * 8) < 2 ^ 32"
    using Suc.prems by (simp_all add: bit_no_def)
  note ih = alloc_bits_byte [OF this(1), of v b] Suc.IH [OF this(2)]
  have d: "n div 8 = j" if "find (free_bit v i b) [j * 8..<j * 8 + 8] = Some n" for n
    using that find_key_upt by (metis)
  have l: "[j..<j + Suc m] = j # [Suc j..<Suc j + m]" by (simp add: upt_conv_Cons)
  show ?case unfolding u l find_append alloc_bytes.simps ih
    using s d by (cases "find (free_bit v i b) [j * 8..<j * 8 + 8]") (simp_all del: upt_Suc)
qed simp

lemma alloc_bytes_block:
  assumes "bit_no i (8 * DISKFS_BLOCK_SIZE) < 2 ^ 32"
  shows "alloc_bytes v i b [0..<DISKFS_BLOCK_SIZE] =
    map_option (\<lambda>n. (n div 8, n mod 8, of_nat (bit_no i n))) (find (free_bit v i b) [0..<8 * DISKFS_BLOCK_SIZE])"
  using alloc_bytes_find [of i 0 DISKFS_BLOCK_SIZE v b] assms by (simp add: mult.commute)

text \<open>The first bit the allocator may hand out, over the bitmap blocks of a volume.\<close>

fun first_free :: "diskfs_superblock \<Rightarrow> (nat \<Rightarrow> buf) \<Rightarrow> nat list \<Rightarrow> (nat \<times> nat) option" where
  "first_free v bm [] = None"
| "first_free v bm (i # is) =
     (case find (free_bit v i (bm i)) [0..<8 * DISKFS_BLOCK_SIZE] of
        Some n \<Rightarrow> Some (i, n)
      | None \<Rightarrow> first_free v bm is)"


lemma first_free_bit:
  "first_free v bm is = Some (i, n) \<Longrightarrow> i \<in> set is \<and> free_bit v i (bm i) n \<and> n < 8 * DISKFS_BLOCK_SIZE"
proof (induction "is")
  case (Cons j "is")
  show ?case
  proof (cases "find (free_bit v j (bm j)) [0..<8 * DISKFS_BLOCK_SIZE]")
    case (Some m)
    then have "free_bit v j (bm j) m" "m \<in> set [0..<8 * DISKFS_BLOCK_SIZE]"
      by (metis find_Some_iff nth_mem)+
    then show ?thesis using Cons.prems Some by auto
  qed (use Cons in auto)
qed simp

lemma first_free_None: "first_free v bm [i] = None \<Longrightarrow> n < 8 * DISKFS_BLOCK_SIZE \<Longrightarrow> \<not> free_bit v i (bm i) n"
  by (auto simp: find_None_iff split: option.splits)

section \<open>Files as maps from block numbers to blocks\<close>

text \<open>
  The contents of a volume are a function \<open>c\<close> from block addresses.  The pointer of block \<open>k\<close> of a
  file, the file as a map, and the well-formedness of an inode of a volume of one bitmap block:
  its pointers are in the volume, marked in the bitmap, and different.
\<close>

definition FILE_BLOCKS :: nat where "FILE_BLOCKS = DISKFS_DIRECT_POINTERS + DISKFS_POINTERS_PER_BLOCK"

definition ptr_of :: "(int \<Rightarrow> buf) \<Rightarrow> diskfs_superblock \<Rightarrow> diskfs_inode \<Rightarrow> nat \<Rightarrow> u32" where
  "ptr_of c v x k = (if k < DISKFS_DIRECT_POINTERS then direct x ! k
     else if indirect x = 0 \<or> FILE_BLOCKS \<le> k then 0
     else le32 (c (dloc v (unat (indirect x)))) (4 * (k - DISKFS_DIRECT_POINTERS)))"

definition file_map :: "(int \<Rightarrow> buf) \<Rightarrow> diskfs_superblock \<Rightarrow> diskfs_inode \<Rightarrow> nat \<rightharpoonup> buf" where
  "file_map c v x k = (if ptr_of c v x k = 0 then None else Some (c (dloc v (unat (ptr_of c v x k)))))"

definition used :: "(int \<Rightarrow> buf) \<Rightarrow> diskfs_superblock \<Rightarrow> u32 \<Rightarrow> bool" where
  "used c v a \<longleftrightarrow> a < data_blocks v \<and> unat a < 8 * DISKFS_BLOCK_SIZE \<and> bit_set (c (bloc v 0)) (unat a)"

text \<open>The volume is full: every block the allocator may hand out is in use.\<close>

definition volume_full :: "(int \<Rightarrow> buf) \<Rightarrow> diskfs_superblock \<Rightarrow> bool" where
  "volume_full c v \<longleftrightarrow> (\<forall>a. a \<noteq> 0 \<and> a < data_blocks v \<and> unat a < 8 * DISKFS_BLOCK_SIZE \<longrightarrow> used c v a)"

lemma no_free_bit_full:
  assumes "\<And>n. n < 8 * DISKFS_BLOCK_SIZE \<Longrightarrow> \<not> free_bit v 0 (c (bloc v 0)) n"
  shows "volume_full c v"
  unfolding volume_full_def
proof (intro allI impI)
  fix a assume a: "a \<noteq> 0 \<and> a < data_blocks v \<and> unat a < 8 * DISKFS_BLOCK_SIZE"
  then have "\<not> free_bit v 0 (c (bloc v 0)) (unat a)" using assms by blast
  moreover have "unat a \<noteq> 0" "unat a < unat (data_blocks v)" using a by (auto simp: word_less_nat_alt unat_eq_0)
  ultimately show "used c v a" using a by (simp add: used_def free_bit_def bit_no_def)
qed

definition file_blocks :: "(int \<Rightarrow> buf) \<Rightarrow> diskfs_superblock \<Rightarrow> diskfs_inode \<Rightarrow> u32 set" where
  "file_blocks c v x = insert (indirect x) (range (ptr_of c v x)) - {0}"

definition inode_ok :: "(int \<Rightarrow> buf) \<Rightarrow> diskfs_superblock \<Rightarrow> diskfs_inode \<Rightarrow> bool" where
  "inode_ok c v x \<longleftrightarrow> length (direct x) = DISKFS_DIRECT_POINTERS \<and> (\<forall>a \<in> file_blocks c v x. used c v a) \<and>
     (\<forall>k. ptr_of c v x k \<noteq> 0 \<longrightarrow> ptr_of c v x k \<noteq> indirect x \<and>
        (\<forall>j. ptr_of c v x j = ptr_of c v x k \<longrightarrow> j = k))"

text \<open>What an operation on one file leaves alone: the blocks in use that are not its own.\<close>

definition keeps :: "(int \<Rightarrow> buf) \<Rightarrow> (int \<Rightarrow> buf) \<Rightarrow> diskfs_superblock \<Rightarrow> u32 set \<Rightarrow> bool" where
  "keeps c c' v A \<longleftrightarrow> (\<forall>a. used c v a \<longrightarrow> used c' v a \<and> (a \<notin> A \<longrightarrow> c' (dloc v (unat a)) = c (dloc v (unat a))))"

lemma keeps_refl [simp]: "keeps c c v A"
  by (simp add: keeps_def)

lemma keeps_trans: "keeps c c' v A \<Longrightarrow> keeps c' c'' v B \<Longrightarrow> (\<forall>a \<in> B. used c v a \<longrightarrow> a \<in> A) \<Longrightarrow> keeps c c'' v A"
  by (auto simp: keeps_def)

lemma ptr_block: "inode_ok c v x \<Longrightarrow> ptr_of c v x k \<noteq> 0 \<Longrightarrow> used c v (ptr_of c v x k) \<and> ptr_of c v x k \<noteq> indirect x"
  by (auto simp: inode_ok_def file_blocks_def)

lemma inode_inj: "inode_ok c v x \<Longrightarrow> ptr_of c v x i \<noteq> 0 \<Longrightarrow> ptr_of c v x i \<noteq> indirect x \<and>
    (\<forall>j. ptr_of c v x j = ptr_of c v x i \<longrightarrow> j = i)"
  unfolding inode_ok_def by blast

lemma indirect_block: "inode_ok c v x \<Longrightarrow> indirect x \<noteq> 0 \<Longrightarrow> used c v (indirect x)"
  by (auto simp: inode_ok_def file_blocks_def)

text \<open>Files whose blocks an operation keeps are the same files.\<close>

lemma keeps_file:
  assumes "inode_ok c v x" "keeps c c' v A" "A \<inter> file_blocks c v x = {}"
  shows "inode_ok c' v x" and "file_map c' v x = file_map c v x" and "file_blocks c' v x = file_blocks c v x"
proof -
  have i: "indirect x \<noteq> 0 \<Longrightarrow> c' (dloc v (unat (indirect x))) = c (dloc v (unat (indirect x)))"
    using assms indirect_block [OF assms(1)] by (auto simp: keeps_def file_blocks_def)
  have p: "ptr_of c' v x = ptr_of c v x" using i by (auto simp: ptr_of_def fun_eq_iff)
  show "file_blocks c' v x = file_blocks c v x" by (simp add: file_blocks_def p)
  show "inode_ok c' v x" using assms by (auto simp: inode_ok_def p file_blocks_def keeps_def)
  have "c' (dloc v (unat (ptr_of c v x k))) = c (dloc v (unat (ptr_of c v x k)))" if "ptr_of c v x k \<noteq> 0" for k
    using assms ptr_block [OF assms(1) that] that by (auto simp: keeps_def file_blocks_def)
  then show "file_map c' v x = file_map c v x" by (auto simp: file_map_def p fun_eq_iff)
qed

lemma unat_eq32 [simp]: "unat (a :: u32) = unat b \<longleftrightarrow> a = b"
  by (simp add: word_unat_eq_iff)

text \<open>Writing a mapped block, and the three ways to map a new one.\<close>

lemma write_mapped:
  assumes ok: "inode_ok c v x" and L: "layout_ok v N" "bitmap_blocks v = 1" and a: "ptr_of c v x k = a" "a \<noteq> 0"
    and c': "c' = c(dloc v (unat a) := b)"
  shows "inode_ok c' v x" and "file_map c' v x = (file_map c v x)(k \<mapsto> b)" and "keeps c c' v (file_blocks c v x)"
proof -
  have bl: "bloc v 0 \<noteq> dloc v j" for j using location_disjoint(3) [OF L(1)] L(2) by simp
  have u: "used c' v = used c v" using bl by (auto simp: used_def c' fun_eq_iff)
  have ai: "a \<noteq> indirect x" using ok a by (auto simp: inode_ok_def)
  have p: "ptr_of c' v x = ptr_of c v x" using ai by (auto simp: ptr_of_def c' fun_eq_iff)
  show "inode_ok c' v x" using ok by (simp add: inode_ok_def p u file_blocks_def)
  have j: "ptr_of c v x j \<noteq> a" if "j \<noteq> k" for j using ok a that by (auto simp: inode_ok_def)
  show "file_map c' v x = (file_map c v x)(k \<mapsto> b)"
  proof
    fix j show "file_map c' v x j = ((file_map c v x)(k \<mapsto> b)) j"
      using a j [of j] by (cases "j = k") (simp_all add: file_map_def p [unfolded c'] c')
  qed
  have "a \<in> file_blocks c v x" using a by (auto simp: file_blocks_def)
  then show "keeps c c' v (file_blocks c v x)" using u by (auto simp: keeps_def c')
qed

lemma ptr_update:
  assumes ok: "inode_ok c v x" and pk: "ptr_of c v x k = 0"
    and a: "used c' v a" "a \<noteq> 0" "a \<notin> file_blocks c v x"
    and p: "ptr_of c' v x' = (ptr_of c v x)(k := a)" and i: "indirect x' = indirect x"
    and len: "length (direct x') = length (direct x)" and u: "\<And>b. used c v b \<Longrightarrow> used c' v b"
  shows "inode_ok c' v x'" and "file_blocks c' v x' = insert a (file_blocks c v x)"
proof -
  have r: "range ((ptr_of c v x)(k := a)) - {0} = insert a (range (ptr_of c v x)) - {0}"
    using pk a by (auto simp: image_iff)
  show fb: "file_blocks c' v x' = insert a (file_blocks c v x)"
    unfolding file_blocks_def p i using r a by auto
  have na: "ptr_of c v x j \<noteq> a" "indirect x \<noteq> a" for j using a by (auto simp: file_blocks_def)
  have "ptr_of c' v x' m \<noteq> indirect x' \<and> (\<forall>j. ptr_of c' v x' j = ptr_of c' v x' m \<longrightarrow> j = m)"
    if m: "ptr_of c' v x' m \<noteq> 0" for m
  proof (cases "m = k")
    case True
    show ?thesis unfolding p True i using na(1) na(2) [symmetric] by auto
  next
    case False
    have nz: "ptr_of c v x m \<noteq> 0" using m False by (simp add: p)
    have "j = m" if "ptr_of c' v x' j = ptr_of c' v x' m" for j
    proof (cases "j = k")
      case True
      then show ?thesis using that False na(1) [of m] by (simp add: p)
    next
      case jk: False
      then have "ptr_of c v x j = ptr_of c v x m" using that False by (simp add: p)
      then show ?thesis using inode_inj [OF ok nz] by blast
    qed
    moreover have "ptr_of c' v x' m = ptr_of c v x m" using False by (simp add: p)
    ultimately show ?thesis using inode_inj [OF ok nz] i by auto
  qed
  moreover have "\<forall>b \<in> file_blocks c' v x'. used c' v b" using ok a u fb by (auto simp: inode_ok_def)
  ultimately show "inode_ok c' v x'" using ok len by (simp add: inode_ok_def)
qed

lemma map_direct:
  assumes ok: "inode_ok c v x" and k: "k < DISKFS_DIRECT_POINTERS" "direct x ! k = 0"
    and a: "used c v a" "a \<noteq> 0" "a \<notin> file_blocks c v x" and x': "x' = x\<lparr>direct := (direct x)[k := a]\<rparr>"
  shows "inode_ok c v x'" and "ptr_of c v x' = (ptr_of c v x)(k := a)" and "file_blocks c v x' = insert a (file_blocks c v x)"
proof -
  have len: "length (direct x) = DISKFS_DIRECT_POINTERS" using ok by (simp add: inode_ok_def)
  show p: "ptr_of c v x' = (ptr_of c v x)(k := a)"
    using k len by (auto simp: ptr_of_def x' fun_eq_iff nth_list_update)
  have "ptr_of c v x k = 0" using k by (simp add: ptr_of_def)
  from ptr_update [OF ok this a p] show "inode_ok c v x'" "file_blocks c v x' = insert a (file_blocks c v x)"
    by (simp_all add: x')
qed

lemma map_indirect_block:
  assumes ok: "inode_ok c v x" and i: "indirect x = 0" and L: "layout_ok v N" "bitmap_blocks v = 1"
    and a: "used c v a" "a \<noteq> 0" "a \<notin> file_blocks c v x" and x': "x' = x\<lparr>indirect := a\<rparr>"
    and c': "c' = c(dloc v (unat a) := replicate DISKFS_BLOCK_SIZE 0)"
  shows "inode_ok c' v x'" and "ptr_of c' v x' = ptr_of c v x" and "file_map c' v x' = file_map c v x"
    and "file_blocks c' v x' = insert a (file_blocks c v x)" and "keeps c c' v {a}"
proof -
  have bl: "bloc v 0 \<noteq> dloc v j" for j using location_disjoint(3) [OF L(1)] L(2) by simp
  have u: "used c' v = used c v" using bl by (auto simp: used_def c' fun_eq_iff)
  have z: "le32 (replicate DISKFS_BLOCK_SIZE 0) (4 * (k - DISKFS_DIRECT_POINTERS)) = 0" if "k < FILE_BLOCKS" for k
    using that by (intro le32_zero) (simp add: FILE_BLOCKS_def diskfs_sizes)
  show p: "ptr_of c' v x' = ptr_of c v x"
  proof
    fix k show "ptr_of c' v x' k = ptr_of c v x k"
      using z [of k] i by (simp add: ptr_of_def x' c')
  qed
  show fb: "file_blocks c' v x' = insert a (file_blocks c v x)"
    unfolding file_blocks_def p using a i by (auto simp: x')
  have na: "ptr_of c v x k \<noteq> a" if "ptr_of c v x k \<noteq> 0" for k using a that by (auto simp: file_blocks_def)
  show "inode_ok c' v x'"
    unfolding inode_ok_def fb p u using ok a na inode_inj [OF ok] by (auto simp: inode_ok_def x')
  show "file_map c' v x' = file_map c v x"
  proof
    fix k show "file_map c' v x' k = file_map c v x k"
      using na [of k] unfolding file_map_def p by (simp add: c')
  qed
  show "keeps c c' v {a}" using u by (auto simp: keeps_def c')
qed

lemma map_pointer:
  assumes ok: "inode_ok c v x" and i: "indirect x \<noteq> 0" and L: "layout_ok v N" "bitmap_blocks v = 1"
    and k: "DISKFS_DIRECT_POINTERS \<le> k" "k < FILE_BLOCKS" "ptr_of c v x k = 0"
    and len: "length (c (dloc v (unat (indirect x)))) = 4096"
    and a: "used c v a" "a \<noteq> 0" "a \<notin> file_blocks c v x"
    and c': "c' = c(dloc v (unat (indirect x)) :=
      put32 (4 * (k - DISKFS_DIRECT_POINTERS)) a (c (dloc v (unat (indirect x)))))"
  shows "inode_ok c' v x" and "ptr_of c' v x = (ptr_of c v x)(k := a)" and "file_blocks c' v x = insert a (file_blocks c v x)"
    and "keeps c c' v {indirect x}"
    and "file_map c' v x = (file_map c v x)(k \<mapsto> c (dloc v (unat a)))"
proof -
  have bl: "bloc v 0 \<noteq> dloc v j" for j using location_disjoint(3) [OF L(1)] L(2) by simp
  have u: "used c' v = used c v" using bl by (auto simp: used_def c' fun_eq_iff)
  show p: "ptr_of c' v x = (ptr_of c v x)(k := a)"
  proof
    fix j
    have o: "le32 (put32 (4 * (k - 6)) a (c (dloc v (unat (indirect x))))) (4 * (j - 6)) =
        le32 (c (dloc v (unat (indirect x)))) (4 * (j - 6))" if "6 \<le> j" "j < 1030" "j \<noteq> k"
      using that k(1,2) len by (intro le32_put32_other) (auto simp: FILE_BLOCKS_def diskfs_sizes)
    show "ptr_of c' v x j = ((ptr_of c v x)(k := a)) j"
      using i k len o by (cases "j = k"; cases "j < DISKFS_DIRECT_POINTERS")
        (auto simp: ptr_of_def c' FILE_BLOCKS_def diskfs_sizes)
  qed
  from ptr_update [OF ok k(3) _ a(2,3) p] show "inode_ok c' v x" "file_blocks c' v x = insert a (file_blocks c v x)"
    using a by (simp_all add: u)
  show "keeps c c' v {indirect x}" using u by (auto simp: keeps_def c')
  have ai: "a \<noteq> indirect x" using a i by (auto simp: file_blocks_def)
  show "file_map c' v x = (file_map c v x)(k \<mapsto> c (dloc v (unat a)))"
  proof
    fix j show "file_map c' v x j = ((file_map c v x)(k \<mapsto> c (dloc v (unat a)))) j"
      using ai a(2) inode_inj [OF ok, of j] unfolding file_map_def p by (cases "j = k") (auto simp: c')
  qed
qed

section \<open>Operations over a store\<close>

definition store_io :: "(int \<Rightarrow> 's \<Rightarrow> (int \<times> buf \<times> 's) option) \<Rightarrow> (buf \<Rightarrow> int \<Rightarrow> 's \<Rightarrow> (int \<times> 's) option) \<Rightarrow>
    ('s \<Rightarrow> 's option) \<Rightarrow> buf \<Rightarrow> 's blockio" where
  "store_io rd wr fl tmp = \<lparr>bio_read = rd, bio_write = wr, bio_flush = fl, bio_temp = tmp\<rparr>"

lemma store_io_simps [simp]:
  "bio_read (store_io rd wr fl tmp) = rd" "bio_write (store_io rd wr fl tmp) = wr"
  "bio_flush (store_io rd wr fl tmp) = fl" "bio_temp (store_io rd wr fl tmp) = tmp"
  by (simp_all add: store_io_def)

locale disk_volume = flush_store rd wr ok contents total 4096 fl
  for rd :: "int \<Rightarrow> 's \<Rightarrow> (int \<times> buf \<times> 's) option" and wr ok contents total fl
begin

abbreviation io where "io tmp \<equiv> store_io rd wr fl tmp"

lemma block_read:
  assumes "ok s" "0 \<le> sint n" "sint n < total" "length b = 4096"
  shows "\<exists>s'. diskfs_block_read (io tmp) b n s = Some (4096, contents s (sint n), s') \<and> ok s' \<and> contents s' = contents s"
proof -
  obtain r s' where "rd (sint n) s = Some (r, contents s (sint n), s')" "r \<noteq> 0" "ok s'" "contents s' = contents s"
    using rd_ok [OF assms(1-3)] by blast
  then show ?thesis using len_ok [OF assms(1-3)] assms(4)
    by (simp add: diskfs_block_read_def overlay_def DISKFS_BLOCK_SIZE_def)
qed

lemma block_write:
  assumes "ok s" "0 \<le> sint n" "sint n < total" "length b = 4096"
  shows "\<exists>s'. diskfs_block_write (io tmp) b n s = Some (4096, s') \<and> ok s' \<and> contents s' = (contents s)(sint n := b)"
proof -
  obtain r s' where "wr b (sint n) s = Some (r, s')" "r \<noteq> 0" "ok s'" "contents s' = (contents s)(sint n := b)"
    using wr_ok [OF assms] by blast
  then show ?thesis by (simp add: diskfs_block_write_def DISKFS_BLOCK_SIZE_def)
qed

lemma region_read:
  assumes "ok s" "layout_ok v total" "length b = 4096"
  shows "i < bitmap_blocks v \<Longrightarrow> \<exists>s'. diskfs_bitmap_block_read (io tmp) v b i s = Some (4096, contents s (bloc v (unat i)), s') \<and>
      ok s' \<and> contents s' = contents s"
    and "i < inode_blocks v \<Longrightarrow> \<exists>s'. diskfs_inode_block_read (io tmp) v b i s = Some (4096, contents s (iloc v (unat i)), s') \<and>
      ok s' \<and> contents s' = contents s"
    and "i < data_blocks v \<Longrightarrow> \<exists>s'. diskfs_data_block_read (io tmp) v b i s = Some (4096, contents s (dloc v (unat i)), s') \<and>
      ok s' \<and> contents s' = contents s"
  subgoal using block_locations(2) [OF assms(2), of i] block_read [OF assms(1) _ _ assms(3), of "bitmap_start v + i" tmp]
    by (simp add: diskfs_bitmap_block_read_def leD)
  subgoal using block_locations(1) [OF assms(2), of i] block_read [OF assms(1) _ _ assms(3), of "inode_start v + i" tmp]
    by (simp add: diskfs_inode_block_read_def leD)
  subgoal using block_locations(3) [OF assms(2), of i] block_read [OF assms(1) _ _ assms(3), of "data_start v + i" tmp]
    by (simp add: diskfs_data_block_read_def leD)
  done

lemma region_write:
  assumes "ok s" "layout_ok v total" "length b = 4096"
  shows "i < bitmap_blocks v \<Longrightarrow> \<exists>s'. diskfs_bitmap_block_write (io tmp) v b i s = Some (4096, s') \<and>
      ok s' \<and> contents s' = (contents s)(bloc v (unat i) := b)"
    and "i < inode_blocks v \<Longrightarrow> \<exists>s'. diskfs_inode_block_write (io tmp) v b i s = Some (4096, s') \<and>
      ok s' \<and> contents s' = (contents s)(iloc v (unat i) := b)"
    and "i < data_blocks v \<Longrightarrow> \<exists>s'. diskfs_data_block_write (io tmp) v b i s = Some (4096, s') \<and>
      ok s' \<and> contents s' = (contents s)(dloc v (unat i) := b)"
  subgoal using block_locations(2) [OF assms(2), of i] block_write [OF assms(1) _ _ assms(3), of "bitmap_start v + i" tmp]
    by (simp add: diskfs_bitmap_block_write_def leD)
  subgoal using block_locations(1) [OF assms(2), of i] block_write [OF assms(1) _ _ assms(3), of "inode_start v + i" tmp]
    by (simp add: diskfs_inode_block_write_def leD)
  subgoal using block_locations(3) [OF assms(2), of i] block_write [OF assms(1) _ _ assms(3), of "data_start v + i" tmp]
    by (simp add: diskfs_data_block_write_def leD)
  done

lemma region_length:
  assumes "ok s" "layout_ok v total"
  shows "i < bitmap_blocks v \<Longrightarrow> length (contents s (bloc v (unat i))) = 4096"
    and "i < inode_blocks v \<Longrightarrow> length (contents s (iloc v (unat i))) = 4096"
    and "i < data_blocks v \<Longrightarrow> length (contents s (dloc v (unat i))) = 4096"
  using block_locations [OF assms(2), of i] len_ok [OF assms(1)] by auto

text \<open>The allocator takes the first bit it may hand out, and only its bitmap block changes.\<close>

lemma alloc_blocks_spec:
  assumes "ok s" "layout_ok v total" "length b = 4096" "\<forall>i \<in> set is. i < unat (bitmap_blocks v)"
  shows "\<exists>s'. ok s' \<and> (case first_free v (\<lambda>i. contents s (bloc v i)) is of
      None \<Rightarrow> alloc_blocks (io tmp) v is b s = Some (0, s') \<and> contents s' = contents s
    | Some (i, n) \<Rightarrow> alloc_blocks (io tmp) v is b s = Some (of_nat (bit_no i n), s') \<and>
        contents s' = (contents s)(bloc v i := set_bit_at n (contents s (bloc v i))))"
  using assms(1,3,4)
proof (induction "is" arbitrary: s b)
  case (Cons i "is")
  have "i < unat (bitmap_blocks v)" using Cons.prems(3) by simp
  then have iu: "unat (of_nat i :: u32) = i"
    by (intro unat_of_nat_eq) (use assms(2) in \<open>simp add: layout_ok_def\<close>)
  then have i: "of_nat i < bitmap_blocks v" using \<open>i < unat (bitmap_blocks v)\<close> by (simp add: word_less_nat_alt)
  let ?b = "contents s (bloc v i)"
  have lb: "length ?b = 4096" using region_length(1) [OF Cons.prems(1) assms(2) i] iu by simp
  obtain s1 where s1: "diskfs_bitmap_block_read (io tmp) v b (of_nat i) s = Some (4096, ?b, s1)" "ok s1" "contents s1 = contents s"
    using region_read(1) [OF Cons.prems(1) assms(2) Cons.prems(2) i] iu by auto
  have f: "alloc_bytes v i ?b [0..<DISKFS_BLOCK_SIZE] =
      map_option (\<lambda>n. (n div 8, n mod 8, of_nat (bit_no i n))) (find (free_bit v i ?b) [0..<8 * DISKFS_BLOCK_SIZE])"
    using \<open>i < unat (bitmap_blocks v)\<close> assms(2)
    by (intro alloc_bytes_block) (simp add: layout_ok_def bit_no_def DISKFS_BLOCK_SIZE_def)
  show ?case
  proof (cases "find (free_bit v i ?b) [0..<8 * DISKFS_BLOCK_SIZE]")
    case None
    obtain s' where "ok s'" "case first_free v (\<lambda>i. contents s (bloc v i)) is of
        None \<Rightarrow> alloc_blocks (io tmp) v is ?b s1 = Some (0, s') \<and> contents s' = contents s
      | Some (i, n) \<Rightarrow> alloc_blocks (io tmp) v is ?b s1 = Some (of_nat (bit_no i n), s') \<and>
          contents s' = (contents s)(bloc v i := set_bit_at n (contents s (bloc v i)))"
      using Cons.IH [OF s1(2) lb] Cons.prems(3) unfolding s1(3) by auto
    then show ?thesis using None s1(1) f by (intro exI [of _ s']) (auto split: option.splits)
  next
    case (Some n)
    have "length (set_bit_at n ?b) = 4096" using lb by simp
    from region_write(1) [OF s1(2) assms(2) this i, of tmp] obtain s2 where
      "diskfs_bitmap_block_write (io tmp) v (set_bit_at n ?b) (of_nat i) s1 = Some (4096, s2)" "ok s2"
      "contents s2 = (contents s)(bloc v i := set_bit_at n ?b)"
      using iu s1(3) by auto
    then show ?thesis using Some s1 f by (auto simp: set_bit_at_def)
  qed
qed simp

end

interpretation cached_disk: disk_volume "\<lambda>b s. bcache_read d 1 b g s" "\<lambda>data b s. bcache_write d data 1 b g s"
  "cached_ok dk N d 4096" "cached_block dk d" "N d" "bcache_flush_device d" for d g dk N ..


section \<open>Writing a file\<close>

definition inode_at :: "(int \<Rightarrow> buf) \<Rightarrow> diskfs_superblock \<Rightarrow> nat \<Rightarrow> diskfs_inode" where
  "inode_at c v ino = get_inode (c (iloc v (ino div DISKFS_INODES_PER_BLOCK))) (ino mod DISKFS_INODES_PER_BLOCK)"

lemma inodes_per_block [simp]: "DISKFS_INODES_PER_BLOCK = 113"
  by (simp add: diskfs_sizes)

context disk_volume
begin

lemma alloc_one:
  assumes "ok s" "layout_ok v total" "bitmap_blocks v = 1" "length tmp = 4096"
  shows "\<exists>a s'. diskfs_data_block_alloc (io tmp) v s = Some (a, s') \<and> ok s' \<and>
    (if a = 0 then contents s' = contents s \<and> volume_full (contents s) v
     else \<not> used (contents s) v a \<and> used (contents s') v a \<and>
       contents s' = (contents s)(bloc v 0 := set_bit_at (unat a) (contents s (bloc v 0))))"
proof -
  have l: "length (contents s (bloc v 0)) = 4096" using region_length(1) [OF assms(1,2), of 0] assms(3) by simp
  obtain s' where s': "ok s'" "case first_free v (\<lambda>i. contents s (bloc v i)) [0] of
      None \<Rightarrow> alloc_blocks (io tmp) v [0] tmp s = Some (0, s') \<and> contents s' = contents s
    | Some (i, n) \<Rightarrow> alloc_blocks (io tmp) v [0] tmp s = Some (of_nat (bit_no i n), s') \<and>
        contents s' = (contents s)(bloc v i := set_bit_at n (contents s (bloc v i)))"
    using alloc_blocks_spec [OF assms(1,2,4), of "[0]" tmp] assms(3) by auto
  show ?thesis
  proof (cases "first_free v (\<lambda>i. contents s (bloc v i)) [0]")
    case None
    then have "volume_full (contents s) v" by (intro no_free_bit_full first_free_None)
    then show ?thesis using None s' assms(3) by (auto simp: diskfs_data_block_alloc_def)
  next
    case (Some z)
    then obtain i n where z: "z = (i, n)" by fastforce
    from first_free_bit [OF Some [unfolded z]]
    have i: "i = 0" and f: "free_bit v 0 (contents s (bloc v 0)) n" and n: "n < 32768"
      by (auto simp: DISKFS_BLOCK_SIZE_def)
    have un: "unat (of_nat n :: u32) = n" using n by (intro unat_of_nat_eq) simp
    have nz: "n \<noteq> 0" "n < unat (data_blocks v)" "\<not> bit_set (contents s (bloc v 0)) n"
      using f by (simp_all add: free_bit_def bit_no_def)
    then have "(of_nat n :: u32) \<noteq> 0" "(of_nat n :: u32) < data_blocks v"
      using un by (auto simp: word_less_nat_alt simp flip: unat_eq_zero)
    then show ?thesis
      using s' Some z i un nz n l assms(3)
      by (auto simp: diskfs_data_block_alloc_def bit_no_def used_def bit_set_set_bit DISKFS_BLOCK_SIZE_def)
  qed
qed

lemma inode_block:
  assumes "layout_ok v total" "ino div 113 < unat (inode_blocks v)"
  shows "unat (of_nat (ino div 113) :: u32) = ino div 113" "of_nat (ino div 113) < inode_blocks v"
proof -
  have "ino div 113 < 2 ^ 32" using assms(2) unsigned_less [of "inode_blocks v", where ?'a = nat] by simp
  then show u: "unat (of_nat (ino div 113) :: u32) = ino div 113" by (intro unat_of_nat_eq) simp
  show "of_nat (ino div 113) < inode_blocks v" using assms(2) by (simp add: word_less_nat_alt u)
qed

lemma inode_load:
  assumes "ok s" "layout_ok v total" "ino div 113 < unat (inode_blocks v)" "length tmp = 4096"
  shows "\<exists>s'. diskfs_inode_load (io tmp) v ino s = Some (inode_at (contents s) v ino, s') \<and> ok s' \<and> contents s' = contents s"
  using region_read(2) [OF assms(1,2,4) inode_block(2) [OF assms(2,3)], of tmp] inode_block(1) [OF assms(2,3)]
  by (auto simp: diskfs_inode_load_def inode_at_def)

lemma inode_save:
  assumes "ok s" "layout_ok v total" "ino div 113 < unat (inode_blocks v)" "length tmp = 4096"
  shows "\<exists>s'. diskfs_inode_save (io tmp) v ino x s = Some s' \<and> ok s' \<and>
    contents s' = (contents s)(iloc v (ino div 113) := put_inode (ino mod 113) x (contents s (iloc v (ino div 113))))"
proof -
  note u = inode_block [OF assms(2,3)]
  obtain s1 where s1: "diskfs_inode_block_read (io tmp) v tmp (of_nat (ino div 113)) s =
      Some (4096, contents s (iloc v (ino div 113)), s1)" "ok s1" "contents s1 = contents s"
    using region_read(2) [OF assms(1,2,4) u(2)] u(1) by auto
  have "length (put_inode (ino mod 113) x (contents s (iloc v (ino div 113)))) = 4096"
    using region_length(2) [OF assms(1,2) u(2)] u(1) by simp
  from region_write(2) [OF s1(2) assms(2) this u(2), of tmp] show ?thesis
    using s1 u(1) by (auto simp: diskfs_inode_save_def Let_def)
qed

end

text \<open>Storing an inode is seen by loading it, and by no other load.\<close>

lemma inode_at_put:
  assumes "length (c (iloc v (ino div 113))) = 4096" "length (direct x) = DISKFS_DIRECT_POINTERS"
    and c': "c' = c(iloc v (ino div 113) := put_inode (ino mod 113) x (c (iloc v (ino div 113))))"
  shows "inode_at c' v j = (if j = ino then x else inode_at c v j)"
proof (cases "j div 113 = ino div 113")
  case True
  moreover from True have "j mod 113 = ino mod 113 \<longleftrightarrow> j = ino" by (metis div_mult_mod_eq)
  ultimately show ?thesis
    using assms(1,2) by (auto simp: inode_at_def c' get_put_inode get_put_inode_other DISKFS_BLOCK_SIZE_def)
next
  case False
  then have "j \<noteq> ino" by auto
  with False show ?thesis by (simp add: inode_at_def c')
qed

text \<open>
  A step on the file of inode number \<open>ino\<close>: the inode stays well formed, blocks in use elsewhere
  stay, and the table of inodes changes at \<open>ino\<close> only, to the new inode.
\<close>

definition inumber_ok :: "diskfs_superblock \<Rightarrow> nat \<Rightarrow> bool" where
  "inumber_ok v ino \<longleftrightarrow> ino div 113 < unat (inode_blocks v)"

definition file_step :: "diskfs_superblock \<Rightarrow> nat \<Rightarrow> (int \<Rightarrow> buf) \<Rightarrow> diskfs_inode \<Rightarrow> (int \<Rightarrow> buf) \<Rightarrow> diskfs_inode \<Rightarrow> bool" where
  "file_step v ino c x c' x' \<longleftrightarrow> inode_ok c' v x' \<and> keeps c c' v (file_blocks c v x) \<and>
     (\<forall>a \<in> file_blocks c' v x'. used c v a \<longrightarrow> a \<in> file_blocks c v x) \<and>
     (\<forall>j. inumber_ok v j \<and> j \<noteq> ino \<longrightarrow> inode_at c' v j = inode_at c v j) \<and>
     (x' = x \<and> inode_at c' v ino = inode_at c v ino \<or> inode_at c' v ino = x')"

lemma file_step_refl: "inode_ok c v x \<Longrightarrow> file_step v ino c x c x"
  by (simp add: file_step_def)

lemma file_step_trans:
  assumes "file_step v ino c x c1 x1" "file_step v ino c1 x1 c2 x2"
  shows "file_step v ino c x c2 x2"
proof -
  have "keeps c c2 v (file_blocks c v x)"
    using assms by (intro keeps_trans [of c c1 v "file_blocks c v x" c2 "file_blocks c1 v x1"]) (auto simp: file_step_def)
  moreover have "a \<in> file_blocks c v x" if "a \<in> file_blocks c2 v x2" "used c v a" for a
    using assms that unfolding file_step_def keeps_def by blast
  moreover have "inode_at c2 v j = inode_at c v j" if "inumber_ok v j" "j \<noteq> ino" for j
    using assms that by (simp add: file_step_def)
  ultimately show ?thesis using assms unfolding file_step_def by metis
qed

lemma file_step_alloc:
  assumes ok: "inode_ok c v x" and L: "layout_ok v N" "bitmap_blocks v = 1" and l: "length (c (bloc v 0)) = 4096"
    and n: "n < 32768" and c': "c' = c(bloc v 0 := set_bit_at n (c (bloc v 0)))" and ino: "inumber_ok v ino"
  shows "file_step v ino c x c' x" "file_map c' v x = file_map c v x" "file_blocks c' v x = file_blocks c v x"
    "ptr_of c' v x = ptr_of c v x"
proof -
  have bl: "bloc v 0 \<noteq> dloc v j" for j using location_disjoint(3) [OF L(1)] L(2) by simp
  have k: "keeps c c' v {}"
    using bl bl [symmetric] l n by (auto simp: keeps_def c' used_def bit_set_set_bit)
  note f = keeps_file [OF ok k]
  show "file_map c' v x = file_map c v x" "file_blocks c' v x = file_blocks c v x" using f by simp_all
  have "inode_at c' v j = inode_at c v j" if "inumber_ok v j" for j
    using location_disjoint(1) [OF L(1), of "j div 113" 0] that by (simp add: inode_at_def c' inumber_ok_def)
  moreover have "keeps c c' v (file_blocks c v x)" using k by (simp add: keeps_def)
  ultimately show "file_step v ino c x c' x" using f ino by (simp add: file_step_def)
  show "ptr_of c' v x = ptr_of c v x" using bl [symmetric] by (auto simp: ptr_of_def c' fun_eq_iff)
qed

lemma data_inode_at: "layout_ok v N \<Longrightarrow> inumber_ok v j \<Longrightarrow> inode_at (c(dloc v a := b)) v j = inode_at c v j"
  using location_disjoint(2) [of v N "j div 113" a] by (simp add: inode_at_def inumber_ok_def)

lemma file_step_save:
  assumes ok: "inode_ok c v x" and L: "layout_ok v N" "bitmap_blocks v = 1" and ino: "inumber_ok v ino"
    and l: "length (c (iloc v (ino div 113))) = 4096"
    and c': "c' = c(iloc v (ino div 113) := put_inode (ino mod 113) x (c (iloc v (ino div 113))))"
  shows "inode_ok c' v x" "file_map c' v x = file_map c v x" "file_blocks c' v x = file_blocks c v x"
    "keeps c c' v {}" "ptr_of c' v x = ptr_of c v x" "inode_at c' v j = (if j = ino then x else inode_at c v j)"
proof -
  have d: "iloc v (ino div 113) \<noteq> bloc v 0" "iloc v (ino div 113) \<noteq> dloc v k" for k
    using location_disjoint(1,2) [OF L(1)] ino by (auto simp: inumber_ok_def)
  show k: "keeps c c' v {}" using d d(2) [symmetric] by (auto simp: keeps_def c' used_def)
  from keeps_file [OF ok k] show "inode_ok c' v x" "file_map c' v x = file_map c v x"
    "file_blocks c' v x = file_blocks c v x" by simp_all
  show "ptr_of c' v x = ptr_of c v x" using d(2) [symmetric] by (auto simp: ptr_of_def c' fun_eq_iff)
  show "inode_at c' v j = (if j = ino then x else inode_at c v j)"
    using inode_at_put [of c v ino x c' j] l ok c' by (simp add: inode_ok_def)
qed

text \<open>Block \<open>k\<close> is mapped to \<open>a\<close>, and the other blocks of the file are as before.\<close>

definition maps_block :: "diskfs_superblock \<Rightarrow> nat \<Rightarrow> u32 \<Rightarrow> (int \<Rightarrow> buf) \<Rightarrow> diskfs_inode \<Rightarrow> (int \<Rightarrow> buf) \<Rightarrow> diskfs_inode \<Rightarrow> bool" where
  "maps_block v k a c x c' x' \<longleftrightarrow> a \<noteq> 0 \<and> ptr_of c' v x' k = a \<and>
     (\<forall>j. j \<noteq> k \<longrightarrow> file_map c' v x' j = file_map c v x j)"

lemma map_at:
  assumes "ptr_of c' v x' = (ptr_of c v x)(k := a)" "a \<noteq> 0" "inode_ok c v x"
    "\<forall>b. b \<noteq> 0 \<and> b \<noteq> indirect x \<and> b \<noteq> a \<longrightarrow> c' (dloc v (unat b)) = c (dloc v (unat b))" "a \<notin> file_blocks c v x"
  shows "maps_block v k a c x c' x'"
proof -
  have "file_map c' v x' j = file_map c v x j" if "j \<noteq> k" for j
    using that assms inode_inj [OF assms(3), of j]
    by (cases "ptr_of c v x j = 0") (auto simp: file_map_def file_blocks_def)
  then show ?thesis using assms(1,2) by (simp add: maps_block_def)
qed

lemma used_nonzero_data: "used c v a \<Longrightarrow> a < data_blocks v"
  by (simp add: used_def)

context disk_volume
begin

text \<open>An inode just changed in memory is saved: the disk follows.\<close>

lemma save_step:
  assumes "ok s" "layout_ok v total" "bitmap_blocks v = 1" "inumber_ok v ino" "length tmp = 4096"
    "inode_ok (contents s) v x'" "keeps c (contents s) v (file_blocks c v x)"
    "\<forall>a \<in> file_blocks (contents s) v x'. used c v a \<longrightarrow> a \<in> file_blocks c v x"
    "\<forall>j. inumber_ok v j \<and> j \<noteq> ino \<longrightarrow> inode_at (contents s) v j = inode_at c v j"
  shows "\<exists>s'. diskfs_inode_save (io tmp) v ino x' s = Some s' \<and> ok s' \<and> file_step v ino c x (contents s') x' \<and>
    ptr_of (contents s') v x' = ptr_of (contents s) v x' \<and> file_map (contents s') v x' = file_map (contents s) v x' \<and>
    (\<forall>b. contents s' (dloc v b) = contents s (dloc v b))"
proof -
  have i: "ino div 113 < unat (inode_blocks v)" using assms(4) by (simp add: inumber_ok_def)
  obtain s' where s': "diskfs_inode_save (io tmp) v ino x' s = Some s'" "ok s'"
    "contents s' = (contents s)(iloc v (ino div 113) := put_inode (ino mod 113) x' (contents s (iloc v (ino div 113))))"
    using inode_save [OF assms(1,2) i assms(5)] by blast
  have l: "length (contents s (iloc v (ino div 113))) = 4096"
    using region_length(2) [OF assms(1,2) inode_block(2) [OF assms(2) i]] inode_block(1) [OF assms(2) i] by simp
  note f = file_step_save [OF assms(6,2,3,4) l s'(3)]
  have "keeps c (contents s') v (file_blocks c v x)"
    by (rule keeps_trans [OF assms(7) f(4)]) simp
  then have "file_step v ino c x (contents s') x'"
    using f assms(8,9) by (simp add: file_step_def)
  moreover have "contents s' (dloc v b) = contents s (dloc v b)" for b
    using location_disjoint(2) [OF assms(2) i, of b] s'(3) by simp
  ultimately show ?thesis using s' f(2,5) by auto
qed

lemma alloc_data:
  assumes "ok s" "layout_ok v total" "bitmap_blocks v = 1" "length tmp = 4096" "diskfs_data_block_alloc (io tmp) v s = Some (a, s')"
  shows "contents s' (dloc v n) = contents s (dloc v n)"
  using alloc_one [OF assms(1-4)] assms(5) location_disjoint(3) [OF assms(2), of 0 n] assms(3)
  by (auto split: if_splits)

text \<open>One new block for a file: taken from the bitmap, in use, and not a block of the file.\<close>

lemma alloc_step:
  assumes "ok s" "layout_ok v total" "bitmap_blocks v = 1" "inumber_ok v ino" "length tmp = 4096" "inode_ok (contents s) v x"
  shows "\<exists>a s'. diskfs_data_block_alloc (io tmp) v s = Some (a, s') \<and> ok s' \<and> file_step v ino (contents s) x (contents s') x \<and>
    file_map (contents s') v x = file_map (contents s) v x \<and> ptr_of (contents s') v x = ptr_of (contents s) v x \<and>
    (if a = 0 then volume_full (contents s') v
     else used (contents s') v a \<and> \<not> used (contents s) v a \<and> a \<notin> file_blocks (contents s') v x)"
proof -
  obtain a s' where a: "diskfs_data_block_alloc (io tmp) v s = Some (a, s')" "ok s'" "if a = 0 then contents s' = contents s \<and> volume_full (contents s) v
     else \<not> used (contents s) v a \<and> used (contents s') v a \<and>
       contents s' = (contents s)(bloc v 0 := set_bit_at (unat a) (contents s (bloc v 0)))"
    using alloc_one [OF assms(1,2,3,5)] by blast
  show ?thesis
  proof (cases "a = 0")
    case True
    then show ?thesis using a assms(6) by (auto simp: file_step_refl)
  next
    case False
    have l: "length (contents s (bloc v 0)) = 4096" using region_length(1) [OF assms(1,2), of 0] assms(3) by simp
    have n: "unat a < 32768" using a(3) False by (simp add: used_def DISKFS_BLOCK_SIZE_def)
    have c': "contents s' = (contents s)(bloc v 0 := set_bit_at (unat a) (contents s (bloc v 0)))"
      using a(3) False by simp
    note f = file_step_alloc [OF assms(6,2,3) l n c' assms(4)]
    have "a \<notin> file_blocks (contents s') v x"
      using a(3) False assms(6) unfolding f(3) by (auto simp: inode_ok_def)
    then show ?thesis using a f False by auto
  qed
qed

lemma inode_direct_spec:
  assumes s: "ok s" and L: "layout_ok v total" "bitmap_blocks v = 1" and ino: "inumber_ok v (inumber d)"
    and t: "length tmp = 4096" and x: "inode_ok (contents s) v (disk d)" and k: "k < DISKFS_DIRECT_POINTERS"
  shows "\<exists>r d' s'. inode_direct (io tmp) v d k s = Some (r, d', s') \<and> ok s' \<and> d'\<lparr>disk := disk d\<rparr> = d \<and>
    file_step v (inumber d) (contents s) (disk d) (contents s') (disk d') \<and>
    (case r of None \<Rightarrow> file_map (contents s') v (disk d') = file_map (contents s) v (disk d) \<and> volume_full (contents s') v
     | Some a \<Rightarrow> maps_block v k a (contents s) (disk d) (contents s') (disk d'))"
proof (cases "direct (disk d) ! k = 0")
  case False
  then show ?thesis using s x k
    by (auto simp: inode_direct_def file_step_refl maps_block_def ptr_of_def)
next
  case True
  obtain a s1 where a: "diskfs_data_block_alloc (io tmp) v s = Some (a, s1)" "ok s1"
    "file_step v (inumber d) (contents s) (disk d) (contents s1) (disk d)"
    "file_map (contents s1) v (disk d) = file_map (contents s) v (disk d)"
    "ptr_of (contents s1) v (disk d) = ptr_of (contents s) v (disk d)"
    "if a = 0 then volume_full (contents s1) v
     else used (contents s1) v a \<and> \<not> used (contents s) v a \<and> a \<notin> file_blocks (contents s1) v (disk d)"
    using alloc_step [OF s L ino t x] by blast
  show ?thesis
  proof (cases "a = 0")
    case True
    then show ?thesis using a \<open>direct (disk d) ! k = 0\<close> by (auto simp: inode_direct_def)
  next
    case nz: False
    let ?x = "(disk d)\<lparr>direct := (direct (disk d))[k := a]\<rparr>"
    have u: "used (contents s1) v a" "a \<notin> file_blocks (contents s1) v (disk d)" "\<not> used (contents s) v a"
      using a(6) nz by simp_all
    have x1: "inode_ok (contents s1) v (disk d)" using a(3) by (simp add: file_step_def)
    note m = map_direct [OF x1 k True u(1) nz u(2) refl]
    obtain s2 where s2: "diskfs_inode_save (io tmp) v (inumber d) ?x s1 = Some s2" "ok s2"
      "file_step v (inumber d) (contents s) (disk d) (contents s2) ?x"
      "ptr_of (contents s2) v ?x = ptr_of (contents s1) v ?x"
      "file_map (contents s2) v ?x = file_map (contents s1) v ?x"
      using save_step [OF a(2) L ino t m(1), of "contents s" "disk d"] a(3) m(3) u(3)
      by (auto simp: file_step_def)
    have "maps_block v k a (contents s1) (disk d) (contents s1) ?x"
      by (rule map_at [OF m(2) nz x1 _ u(2)]) simp
    then have "maps_block v k a (contents s) (disk d) (contents s2) ?x"
      using a(4) s2(4,5) by (simp add: maps_block_def)
    then show ?thesis using a(1) nz True s2 by (auto simp: inode_direct_def Let_def)
  qed
qed

end

text \<open>A step that adds a block \<open>a\<close>, new since the start, to the file.\<close>

lemma file_step_new:
  assumes st: "file_step v ino c x c1 x1" and new: "\<not> used c v a" and k: "keeps c1 c2 v B"
    and B: "B \<subseteq> insert a (file_blocks c1 v x1)" "file_blocks c2 v x2 \<subseteq> insert a (file_blocks c1 v x1)" and ok: "inode_ok c2 v x2"
    and tab: "\<forall>j. inumber_ok v j \<and> j \<noteq> ino \<longrightarrow> inode_at c2 v j = inode_at c1 v j"
      "x2 = x1 \<and> inode_at c2 v ino = inode_at c1 v ino \<or> inode_at c2 v ino = x2"
  shows "file_step v ino c x c2 x2"
proof -
  have 1: "used c v b \<Longrightarrow> b \<in> file_blocks c1 v x1 \<Longrightarrow> b \<in> file_blocks c v x" for b
    using st by (simp add: file_step_def)
  have old: "b \<in> file_blocks c v x" if "used c v b" "b \<in> insert a (file_blocks c1 v x1)" for b
    using 1 [OF that(1)] that new by auto
  have kk: "keeps c c2 v (file_blocks c v x)"
  proof (rule keeps_trans [OF _ k])
    show "keeps c c1 v (file_blocks c v x)" using st by (simp add: file_step_def)
    show "\<forall>b \<in> B. used c v b \<longrightarrow> b \<in> file_blocks c v x" using old B(1) by auto
  qed
  have fb: "\<forall>b \<in> file_blocks c2 v x2. used c v b \<longrightarrow> b \<in> file_blocks c v x" using old B(2) by auto
  have t1: "\<forall>j. inumber_ok v j \<and> j \<noteq> ino \<longrightarrow> inode_at c2 v j = inode_at c v j"
    using st tab(1) by (simp add: file_step_def)
  have "x1 = x \<and> inode_at c1 v ino = inode_at c v ino \<or> inode_at c1 v ino = x1" using st by (simp add: file_step_def)
  then have t2: "x2 = x \<and> inode_at c2 v ino = inode_at c v ino \<or> inode_at c2 v ino = x2" using tab(2) by auto
  show ?thesis unfolding file_step_def using ok kk fb t1 t2 by blast
qed

context disk_volume
begin

lemma inode_indirect_spec:
  assumes s: "ok s" and L: "layout_ok v total" "bitmap_blocks v = 1" and ino: "inumber_ok v (inumber d)"
    and t: "length tmp = 4096" and x: "inode_ok (contents s) v (disk d)"
  shows "\<exists>r d' s'. inode_indirect (io tmp) v d s = Some (r, d', s') \<and> ok s' \<and> d'\<lparr>disk := disk d\<rparr> = d \<and>
    file_step v (inumber d) (contents s) (disk d) (contents s') (disk d') \<and>
    file_map (contents s') v (disk d') = file_map (contents s) v (disk d) \<and>
    (case r of None \<Rightarrow> volume_full (contents s') v | Some b \<Rightarrow> indirect (disk d') \<noteq> 0 \<and> length b = 4096)"
proof (cases "indirect (disk d) = 0")
  case False
  then show ?thesis using s x t by (auto simp: inode_indirect_def file_step_refl)
next
  case True
  obtain a s1 where a: "diskfs_data_block_alloc (io tmp) v s = Some (a, s1)" "ok s1"
    "file_step v (inumber d) (contents s) (disk d) (contents s1) (disk d)"
    "file_map (contents s1) v (disk d) = file_map (contents s) v (disk d)"
    "if a = 0 then volume_full (contents s1) v
     else used (contents s1) v a \<and> \<not> used (contents s) v a \<and> a \<notin> file_blocks (contents s1) v (disk d)"
    using alloc_step [OF s L ino t x] by blast
  show ?thesis
  proof (cases "a = 0")
    case True
    then show ?thesis using a \<open>indirect (disk d) = 0\<close> by (auto simp: inode_indirect_def)
  next
    case nz: False
    let ?x = "(disk d)\<lparr>indirect := a\<rparr>"
    let ?z = "replicate DISKFS_BLOCK_SIZE (0 :: u8)"
    have u: "used (contents s1) v a" "a \<notin> file_blocks (contents s1) v (disk d)" "\<not> used (contents s) v a"
      using a(5) nz by simp_all
    have x1: "inode_ok (contents s1) v (disk d)" using a(3) by (simp add: file_step_def)
    have i: "inumber d div 113 < unat (inode_blocks v)" using ino by (simp add: inumber_ok_def)
    obtain s2 where s2: "diskfs_inode_save (io tmp) v (inumber d) ?x s1 = Some s2" "ok s2"
      "contents s2 = (contents s1)(iloc v (inumber d div 113) :=
         put_inode (inumber d mod 113) ?x (contents s1 (iloc v (inumber d div 113))))"
      using inode_save [OF a(2) L(1) i t] by blast
    have l: "length (contents s1 (iloc v (inumber d div 113))) = 4096"
      using region_length(2) [OF a(2) L(1) inode_block(2) [OF L(1) i]] inode_block(1) [OF L(1) i] by simp
    obtain s3 where s3: "diskfs_data_block_write (io tmp) v ?z a s2 = Some (4096, s3)" "ok s3"
      "contents s3 = (contents s2)(dloc v (unat a) := ?z)"
      using region_write(3) [OF s2(2) L(1), of ?z a tmp] u(1) by (auto simp: used_def DISKFS_BLOCK_SIZE_def)
    let ?c = "(contents s1)(dloc v (unat a) := ?z)"
    note m = map_indirect_block [OF x1 True L u(1) nz u(2) refl refl]
    have ne: "iloc v (inumber d div 113) \<noteq> dloc v n" for n using location_disjoint(2) [OF L(1) i] by simp
    have c3: "contents s3 = ?c(iloc v (inumber d div 113) :=
        put_inode (inumber d mod 113) ?x (?c (iloc v (inumber d div 113))))"
      using ne by (auto simp: s3(3) s2(3) fun_eq_iff)
    have l3: "length (?c (iloc v (inumber d div 113))) = 4096" using l ne by simp
    note f = file_step_save [OF m(1) L ino l3 c3]
    have k1: "keeps (contents s1) (contents s3) v {a}" by (rule keeps_trans [OF m(5) f(4)]) simp
    have at1: "inode_at ?c v j = inode_at (contents s1) v j" if "inumber_ok v j" for j
      using data_inode_at [OF L(1) that] by simp
    have "file_step v (inumber d) (contents s) (disk d) (contents s3) ?x"
      by (rule file_step_new [OF a(3) u(3) k1]; use f(1,3,6) m(4) at1 ino in simp)
    moreover have "file_map (contents s3) v ?x = file_map (contents s) v (disk d)"
      using f(2) m(3) a(4) by simp
    ultimately show ?thesis using a(1) nz True s2(1) s3(1,2)
      by (auto simp: inode_indirect_def Let_def DISKFS_BLOCK_SIZE_def)
  qed
qed

lemma inode_pointer_spec:
  assumes s: "ok s" and L: "layout_ok v total" "bitmap_blocks v = 1" and ino: "inumber_ok v (inumber d)"
    and t: "length tmp = 4096" and x: "inode_ok (contents s) v (disk d)" and b: "length ib = 4096"
    and k: "DISKFS_DIRECT_POINTERS \<le> k" "k < FILE_BLOCKS" and i: "indirect (disk d) \<noteq> 0"
  shows "\<exists>r s'. inode_pointer (io tmp) v d ib (k - DISKFS_DIRECT_POINTERS) s = Some (r, d, s') \<and> ok s' \<and>
    file_step v (inumber d) (contents s) (disk d) (contents s') (disk d) \<and>
    (case r of None \<Rightarrow> file_map (contents s') v (disk d) = file_map (contents s) v (disk d) \<and> volume_full (contents s') v
     | Some a \<Rightarrow> maps_block v k a (contents s) (disk d) (contents s') (disk d))"
proof -
  let ?i = "indirect (disk d)"
  have ui: "used (contents s) v ?i" by (rule indirect_block [OF x i])
  then have iD: "?i < data_blocks v" by (simp add: used_def)
  obtain s1 where s1: "diskfs_data_block_read (io tmp) v ib ?i s = Some (4096, contents s (dloc v (unat ?i)), s1)"
    "ok s1" "contents s1 = contents s"
    using region_read(3) [OF s L(1) b iD] by blast
  have p: "pointer_at (contents s (dloc v (unat ?i))) (k - DISKFS_DIRECT_POINTERS) = Some (ptr_of (contents s) v (disk d) k)"
    using k i by (auto simp: pointer_at_def ptr_of_def FILE_BLOCKS_def)
  show ?thesis
  proof (cases "ptr_of (contents s) v (disk d) k = 0")
    case False
    then show ?thesis using s1 p x by (auto simp: inode_pointer_def file_step_refl maps_block_def)
  next
    case True
    have x1: "inode_ok (contents s1) v (disk d)" using x s1(3) by simp
    obtain a s2 where a: "diskfs_data_block_alloc (io tmp) v s1 = Some (a, s2)" "ok s2"
      "file_step v (inumber d) (contents s) (disk d) (contents s2) (disk d)"
      "file_map (contents s2) v (disk d) = file_map (contents s) v (disk d)"
      "ptr_of (contents s2) v (disk d) = ptr_of (contents s) v (disk d)"
      "if a = 0 then volume_full (contents s2) v
       else used (contents s2) v a \<and> \<not> used (contents s) v a \<and> a \<notin> file_blocks (contents s2) v (disk d)"
      using alloc_step [OF s1(2) L ino t x1] s1(3) by metis
    show ?thesis
    proof (cases "a = 0")
      case True
      then show ?thesis using a s1 p \<open>ptr_of (contents s) v (disk d) k = 0\<close>
        by (auto simp: inode_pointer_def)
    next
      case nz: False
      have u: "used (contents s2) v a" "a \<notin> file_blocks (contents s2) v (disk d)" "\<not> used (contents s) v a"
        using a(6) nz by simp_all
      have x2: "inode_ok (contents s2) v (disk d)" using a(3) by (simp add: file_step_def)
      have same: "contents s2 (dloc v (unat ?i)) = contents s (dloc v (unat ?i))"
        using alloc_data [OF s1(2) L t a(1)] s1(3) by simp
      have li: "length (contents s2 (dloc v (unat ?i))) = 4096" by (rule region_length(3) [OF a(2) L(1) iD])
      let ?b = "put32 (4 * (k - DISKFS_DIRECT_POINTERS)) a (contents s2 (dloc v (unat ?i)))"
      obtain s3 where s3: "diskfs_data_block_write (io tmp) v ?b ?i s2 = Some (4096, s3)" "ok s3"
        "contents s3 = (contents s2)(dloc v (unat ?i) := ?b)"
        using region_write(3) [OF a(2) L(1), of ?b ?i tmp] li iD by auto
      have pk: "ptr_of (contents s2) v (disk d) k = 0" using a(5) True by simp
      note m = map_pointer [OF x2 i L k pk li u(1) nz u(2) s3(3)]
      have at: "inode_at (contents s3) v j = inode_at (contents s2) v j" if "inumber_ok v j" for j
        using data_inode_at [OF L(1) that] s3(3) by simp
      have "?i \<in> file_blocks (contents s2) v (disk d)" using i by (simp add: file_blocks_def)
      then have st: "file_step v (inumber d) (contents s) (disk d) (contents s3) (disk d)"
        by (intro file_step_new [OF a(3) u(3) m(4)]; use m(1,3) at ino in simp)
      have "maps_block v k a (contents s2) (disk d) (contents s3) (disk d)"
        using m nz by (simp add: maps_block_def)
      then have "maps_block v k a (contents s) (disk d) (contents s3) (disk d)"
        using a(4) by (simp add: maps_block_def)
      then show ?thesis using st s1(1) p True a(1) nz s3 same
        by (auto simp: inode_pointer_def)
    qed
  qed
qed

end

text \<open>The data goes to the block that is mapped.\<close>

lemma write_mapped_step:
  assumes st: "file_step v ino c x c1 x1" and m: "maps_block v k a c x c1 x1" and L: "layout_ok v N" "bitmap_blocks v = 1"
    and c2: "c2 = c1(dloc v (unat a) := b)" and ino: "inumber_ok v ino"
  shows "file_step v ino c x c2 x1" and "file_map c2 v x1 = (file_map c v x)(k \<mapsto> b)"
proof -
  have ok: "inode_ok c1 v x1" using st by (simp add: file_step_def)
  have a: "ptr_of c1 v x1 k = a" "a \<noteq> 0" using m by (simp_all add: maps_block_def)
  note w = write_mapped [OF ok L a c2]
  have "a \<noteq> indirect x1" using inode_inj [OF ok, of k] a by simp
  then have p: "ptr_of c2 v x1 = ptr_of c1 v x1" by (auto simp: ptr_of_def c2 fun_eq_iff)
  have "file_step v ino c1 x1 c2 x1"
    using w(1,3) p data_inode_at [OF L(1)] ino by (simp add: file_step_def file_blocks_def c2)
  then show "file_step v ino c x c2 x1" by (rule file_step_trans [OF st])
  show "file_map c2 v x1 = (file_map c v x)(k \<mapsto> b)"
    unfolding w(2) using m by (auto simp: maps_block_def fun_eq_iff)
qed

context disk_volume
begin

lemma inode_pointer_None:
  assumes "ok s" "layout_ok v total" "bitmap_blocks v = 1" "length tmp = 4096" "length ib = 4096"
    "indirect (disk d) < data_blocks v" "DISKFS_DIRECT_POINTERS \<le> k \<and> k < FILE_BLOCKS \<and> indirect (disk d) \<noteq> 0"
    "inode_pointer (io tmp) v d ib (k - DISKFS_DIRECT_POINTERS) s = Some (None, d', s')"
  shows "ptr_of (contents s) v (disk d) k = 0"
proof -
  let ?b = "contents s (dloc v (unat (indirect (disk d))))"
  obtain s1 where "diskfs_data_block_read (io tmp) v ib (indirect (disk d)) s = Some (4096, ?b, s1)"
    using region_read(3) [OF assms(1,2,5,6)] by blast
  moreover have "pointer_at ?b (k - DISKFS_DIRECT_POINTERS) = Some (ptr_of (contents s) v (disk d) k)"
    using assms(7) by (auto simp: pointer_at_def ptr_of_def FILE_BLOCKS_def)
  ultimately show ?thesis using assms(8) by (auto simp: inode_pointer_def split: if_splits)
qed

lemma inode_write_spec:
  assumes s: "ok s" and L: "layout_ok v total" "bitmap_blocks v = 1" and ino: "inumber_ok v (inumber d)"
    and t: "length tmp = 4096" and x: "inode_ok (contents s) v (disk d)" and b: "length b = 4096" and k: "k < FILE_BLOCKS"
  shows "\<exists>r d' s'. diskfs_inode_write (io tmp) v d b k s = Some (r, d', s') \<and> ok s' \<and> d'\<lparr>disk := disk d\<rparr> = d \<and>
    file_step v (inumber d) (contents s) (disk d) (contents s') (disk d') \<and>
    (r = 4096 \<and> file_map (contents s') v (disk d') = (file_map (contents s) v (disk d))(k \<mapsto> b) \<or>
     r = kerr KERROR_OUT_OF_SPACE \<and> file_map (contents s') v (disk d') = file_map (contents s) v (disk d) \<and>
     file_map (contents s) v (disk d) k = None \<and> volume_full (contents s') v)"
proof -
  have ph: "\<exists>r d' s'. (if k < DISKFS_DIRECT_POINTERS then inode_direct (io tmp) v d k s
        else do {
          (iblock, d, c) \<leftarrow> inode_indirect (io tmp) v d s;
          (case iblock of
             None \<Rightarrow> Some (None, d, c)
           | Some iblock \<Rightarrow> inode_pointer (io tmp) v d iblock (k - DISKFS_DIRECT_POINTERS) c)
        }) = Some (r, d', s') \<and> ok s' \<and> d'\<lparr>disk := disk d\<rparr> = d \<and>
      file_step v (inumber d) (contents s) (disk d) (contents s') (disk d') \<and>
      (case r of None \<Rightarrow> file_map (contents s') v (disk d') = file_map (contents s) v (disk d) \<and>
          file_map (contents s) v (disk d) k = None \<and> volume_full (contents s') v
       | Some a \<Rightarrow> maps_block v k a (contents s) (disk d) (contents s') (disk d'))"
    (is "\<exists>r d' s'. ?e = _ \<and> _")
  proof (cases "k < DISKFS_DIRECT_POINTERS")
    case True
    obtain r d' s' where w: "inode_direct (io tmp) v d k s = Some (r, d', s')" "ok s'" "d'\<lparr>disk := disk d\<rparr> = d"
      "file_step v (inumber d) (contents s) (disk d) (contents s') (disk d')"
      "case r of None \<Rightarrow> file_map (contents s') v (disk d') = file_map (contents s) v (disk d) \<and> volume_full (contents s') v
       | Some a \<Rightarrow> maps_block v k a (contents s) (disk d) (contents s') (disk d')"
      using inode_direct_spec [OF s L ino t x True] by blast
    have "file_map (contents s) v (disk d) k = None" if "r = None"
      using w(1) that True by (auto simp: inode_direct_def file_map_def ptr_of_def split: if_splits)
    then show ?thesis using True w by (cases r) auto
  next
    case False
    obtain r1 d1 s1 where i: "inode_indirect (io tmp) v d s = Some (r1, d1, s1)" "ok s1" "d1\<lparr>disk := disk d\<rparr> = d"
      "file_step v (inumber d) (contents s) (disk d) (contents s1) (disk d1)"
      "file_map (contents s1) v (disk d1) = file_map (contents s) v (disk d)"
      "case r1 of None \<Rightarrow> volume_full (contents s1) v | Some b \<Rightarrow> indirect (disk d1) \<noteq> 0 \<and> length b = 4096"
      using inode_indirect_spec [OF s L ino t x] by blast
    show ?thesis
    proof (cases r1)
      case None
      then have "indirect (disk d) = 0" using i(1) by (auto simp: inode_indirect_def split: if_splits)
      then have "file_map (contents s) v (disk d) k = None" using False by (simp add: file_map_def ptr_of_def)
      then show ?thesis using False None i by auto
    next
      case (Some ib)
      have d1: "inumber d1 = inumber d" using arg_cong [OF i(3), of inumber] by simp
      have x1: "inode_ok (contents s1) v (disk d1)" using i(4) by (simp add: file_step_def)
      obtain r s' where w: "inode_pointer (io tmp) v d1 ib (k - DISKFS_DIRECT_POINTERS) s1 = Some (r, d1, s')" "ok s'"
        "file_step v (inumber d) (contents s1) (disk d1) (contents s') (disk d1)"
        "case r of None \<Rightarrow> file_map (contents s') v (disk d1) = file_map (contents s1) v (disk d1) \<and> volume_full (contents s') v
         | Some a \<Rightarrow> maps_block v k a (contents s1) (disk d1) (contents s') (disk d1)"
        using inode_pointer_spec [OF i(2) L _ t x1, of ib k] False k i(6) Some ino d1 by auto
      have "file_map (contents s1) v (disk d1) k = None" if r: "r = None"
        using inode_pointer_None [OF i(2) L t _ _ _ w(1) [unfolded r]] i(6) Some False k
          indirect_block [OF x1] by (auto simp: file_map_def used_def)
      then show ?thesis using False Some i w file_step_trans [OF i(4) w(3)]
        by (cases r) (auto simp: maps_block_def)
    qed
  qed
  then obtain r d' s1 where w: "?e = Some (r, d', s1)" "ok s1" "d'\<lparr>disk := disk d\<rparr> = d"
    "file_step v (inumber d) (contents s) (disk d) (contents s1) (disk d')"
    "case r of None \<Rightarrow> file_map (contents s1) v (disk d') = file_map (contents s) v (disk d) \<and>
          file_map (contents s) v (disk d) k = None \<and> volume_full (contents s1) v
     | Some a \<Rightarrow> maps_block v k a (contents s) (disk d) (contents s1) (disk d')"
    by blast
  show ?thesis
  proof (cases r)
    case None
    then show ?thesis using w unfolding diskfs_inode_write_def by auto
  next
    case (Some a)
    have m: "maps_block v k a (contents s) (disk d) (contents s1) (disk d')" using w(5) Some by simp
    have "inode_ok (contents s1) v (disk d')" using w(4) by (simp add: file_step_def)
    then have aD: "a < data_blocks v" using m ptr_block [of "contents s1" v "disk d'" k] by (auto simp: maps_block_def used_def)
    obtain s2 where s2: "diskfs_data_block_write (io tmp) v b a s1 = Some (4096, s2)" "ok s2"
      "contents s2 = (contents s1)(dloc v (unat a) := b)"
      using region_write(3) [OF w(2) L(1) b aD] by blast
    show ?thesis using write_mapped_step [OF w(4) m L s2(3) ino] w(1,3) s2(1,2) Some
      unfolding diskfs_inode_write_def by auto
  qed
qed

lemma inode_read_spec:
  assumes s: "ok s" and L: "layout_ok v total" and x: "inode_ok (contents s) v (disk d)"
    and b: "length b = 4096" and m: "file_map (contents s) v (disk d) k = Some data"
  shows "\<exists>s'. diskfs_inode_read (io tmp) v d b k s = Some (4096, data, s') \<and> ok s' \<and> contents s' = contents s"
proof -
  let ?a = "ptr_of (contents s) v (disk d) k"
  have nz: "?a \<noteq> 0" and data: "data = contents s (dloc v (unat ?a))" using m by (auto simp: file_map_def split: if_splits)
  have aD: "?a < data_blocks v" using ptr_block [OF x nz] by (simp add: used_def)
  show ?thesis
  proof (cases "k < DISKFS_DIRECT_POINTERS")
    case True
    then show ?thesis using region_read(3) [OF s L b aD, of tmp] data
      by (auto simp: diskfs_inode_read_def ptr_of_def)
  next
    case False
    then have k: "k < FILE_BLOCKS" and i: "indirect (disk d) \<noteq> 0" using nz by (auto simp: ptr_of_def split: if_splits)
    let ?ib = "contents s (dloc v (unat (indirect (disk d))))"
    have iD: "indirect (disk d) < data_blocks v" using indirect_block [OF x i] by (simp add: used_def)
    obtain s1 where s1: "diskfs_data_block_read (io tmp) v b (indirect (disk d)) s = Some (4096, ?ib, s1)" "ok s1"
      "contents s1 = contents s" using region_read(3) [OF s L b iD] by blast
    have "pointer_at ?ib (k - DISKFS_DIRECT_POINTERS) = Some ?a"
      using False k i by (auto simp: pointer_at_def ptr_of_def FILE_BLOCKS_def)
    moreover obtain s2 where "diskfs_data_block_read (io tmp) v ?ib ?a s1 = Some (4096, data, s2)" "ok s2" "contents s2 = contents s"
      using region_read(3) [OF s1(2) L region_length(3) [OF s L iD] aD, of tmp] s1(3) data by auto
    ultimately show ?thesis using False s1(1) by (auto simp: diskfs_inode_read_def)
  qed
qed

end

end
