(* ===== verification/Diskfs_File.thy ===== *)
theory Diskfs_File
  imports Diskfs_Props
begin

text \<open>
  Freeing blocks, and the properties of files and of the bitmap of \<^verbatim>\<open>kernel/diskfs.c\<close> on the
  buffer cache, with a small disk as the concrete case.
\<close>

section \<open>Freeing a block\<close>

context disk_volume
begin

lemma data_block_free_spec:
  assumes "ok s" "layout_ok v total" "length tmp = 4096" "0 \<le> a" "a < 2 ^ 31"
  shows "\<exists>s'. diskfs_data_block_free (io tmp) v a s = Some s' \<and> ok s' \<and>
    contents s' = (if nat a div 4096 < unat (bitmap_blocks v)
      then (contents s)(bloc v (nat a div 4096) := clear_bit_at (nat a mod 4096) (contents s (bloc v (nat a div 4096))))
      else contents s)"
proof -
  define n where "n = nat a"
  have a: "a = int n" "n < 2 ^ 31" using assms(4,5) by (auto simp: n_def)
  have q: "c_div a (int DISKFS_BLOCK_SIZE) = int (n div 4096)" "c_mod a (int DISKFS_BLOCK_SIZE) = int (n mod 4096)"
    by (simp_all add: a DISKFS_BLOCK_SIZE_def zdiv_int zmod_int)
  have r: "c_div (int (n mod 4096)) 8 = int (n mod 4096 div 8)" "c_mod (int (n mod 4096)) 8 = int (n mod 4096 mod 8)"
    by (simp_all add: zdiv_int zmod_int)
  have w: "unat (word_of_int (int (n div 4096)) :: u32) = n div 4096"
    using a(2) unat_of_nat_eq [of "n div 4096", where 'a = 32] by simp
  show ?thesis
  proof (cases "n div 4096 < unat (bitmap_blocks v)")
    case True
    then have i: "(word_of_int (int (n div 4096)) :: u32) < bitmap_blocks v" by (simp only: word_less_nat_alt w)
    let ?b = "contents s (bloc v (n div 4096))"
    obtain s1 where s1: "diskfs_bitmap_block_read (io tmp) v tmp (word_of_int (int (n div 4096))) s = Some (4096, ?b, s1)"
      "ok s1" "contents s1 = contents s" using region_read(1) [OF assms(1,2,3) i] unfolding w by blast
    have "length (clear_bit_at (n mod 4096) ?b) = 4096"
      using region_length(1) [OF assms(1,2) i] w by simp
    from region_write(1) [OF s1(2) assms(2) this i, of tmp] obtain s2 where
      "diskfs_bitmap_block_write (io tmp) v (clear_bit_at (n mod 4096) ?b) (word_of_int (int (n div 4096))) s1 = Some (4096, s2)"
      "ok s2" "contents s2 = (contents s)(bloc v (n div 4096) := clear_bit_at (n mod 4096) ?b)"
      unfolding w s1(3) by blast
    then show ?thesis using s1(1) True
      by (auto simp: diskfs_data_block_free_def q r clear_bit_at_def Let_def n_def [symmetric])
  next
    case False
    then have "\<not> (word_of_int (int (n div 4096)) :: u32) < bitmap_blocks v" by (simp only: word_less_nat_alt w not_False_eq_True)
    then show ?thesis using assms(1) False
      by (auto simp: diskfs_data_block_free_def q r Let_def n_def [symmetric] diskfs_bitmap_block_read_def
          diskfs_bitmap_block_write_def)
  qed
qed

end

section \<open>The file system on the buffer cache\<close>

definition cache_io :: "ptr \<Rightarrow> int \<Rightarrow> buf \<Rightarrow> 'hw bcache blockio" where
  "cache_io d g tmp = store_io (\<lambda>b s. bcache_read d 1 b g s) (\<lambda>data b s. bcache_write d data 1 b g s)
     (bcache_flush_device d) tmp"

text \<open>A disk of eight blocks: one inode block, one bitmap block and five data blocks, of which
  block 1 is in use and holds block 0 of the file of inode 3.\<close>

definition disk_dk :: "(int \<Rightarrow> buf) \<Rightarrow> ptr \<Rightarrow> int \<Rightarrow> buf" where
  "disk_dk h d b = take 4096 (h b @ replicate 4096 0)"

definition disk_driver :: "(int \<Rightarrow> buf) device_driver" where
  "disk_driver = \<lparr>drv_name = [97, 0], drv_probe = (\<lambda>u h. (Some (8, 4096), h)),
     drv_read = Some (\<lambda>u n off h. (n, take 4096 (h off @ replicate 4096 0), h)), drv_read_nonblock = None,
     drv_write = Some (\<lambda>u data n off h. (n, h(off := take 4096 data))),
     drv_multiplier = 1, blocks_read = 0, blocks_written = 0\<rparr>"

definition disk_world :: "(int \<Rightarrow> buf) \<Rightarrow> (int \<Rightarrow> buf) world" where
  "disk_world h = \<lparr>driver_list = [5], drivers = (\<lambda>_. disk_driver),
     devices = (\<lambda>_. \<lparr>driver = 5, refcount = 1, unit_no = 0, block_size = 4096, nblocks = 8, multiplier = 1\<rparr>), hw = h\<rparr>"

definition disk_cache :: "(int \<Rightarrow> buf) \<Rightarrow> (int \<Rightarrow> buf) bcache" where
  "disk_cache h = \<lparr>lheap = \<lparr>nodes = (\<lambda>_. \<lparr>nxt = 0, prv = 0, owner = 0, priority = 0\<rparr>), lists = (\<lambda>_. LIST_INIT)\<rparr>,
     entries = (\<lambda>_. \<lparr>device = 0, block = 0, dirty = False, page = []\<rparr>),
     bstats = \<lparr>read_hits = 0, read_misses = 0, write_hits = 0, write_misses = 0, writebacks = 0\<rparr>,
     max_cache_size = 1, kalloc = (\<lambda>U. (Suc (Max (insert 9 U)), True)), palloc = (\<lambda>_. True), kused = {}, world = disk_world h\<rparr>"

definition disk7 :: "(int \<Rightarrow> buf) \<Rightarrow> ptr \<Rightarrow> int \<Rightarrow> buf" where
  "disk7 h d b = (if d = 7 then disk_dk h d b else [])"

lemma disk_device_ok: "device_ok disk7 7 n (disk_world h)"
proof -
  have bsz: "device_block_size 7 (disk_world h) = 4096"
    by (simp add: device_block_size_def disk_world_def)
  have upd: "disk7 (k(b := take 4096 data)) = (disk7 k)(7 := (disk7 k 7)(b := take 4096 data))"
    if "4096 \<le> length data" for k b and data :: buf
    using that by (auto simp: disk7_def disk_dk_def fun_eq_iff)
  show ?thesis
    unfolding device_ok_def bsz
    by (intro conjI exI [of _ "\<lambda>u n off h. (n, take 4096 (h off @ replicate 4096 0), h)"]
        exI [of _ "\<lambda>u data n off h. (n, h(off := take 4096 data))"])
      (use upd in \<open>auto simp: disk_world_def disk_driver_def PAGE_SIZE_def disk7_def disk_dk_def\<close>)
qed

lemma disk_cached_ok: "cached_ok disk7 (\<lambda>_. n) 7 4096 (disk_cache h)"
proof -
  have "cache_ok disk7 (\<lambda>_. n) (disk_cache h) []"
    by (simp add: cache_ok_def contents_ok_def disk_cache_def list_rep_def LIST_INIT_def CACHE_def)
  moreover have "bsize (disk_cache h) 7 = 4096"
    by (simp add: bsize_def disk_cache_def disk_world_def device_block_size_def)
  ultimately show ?thesis
    using disk_device_ok [of n h] sample_alloc_fresh by (auto simp: cached_ok_def disk_cache_def)
qed

lemma disk_contents: "cached_block disk7 7 (disk_cache h) b = take 4096 (h b @ replicate 4096 0)"
proof -
  have "cache_ok disk7 (\<lambda>_. 0) (disk_cache h) []"
    by (simp add: cache_ok_def contents_ok_def disk_cache_def list_rep_def LIST_INIT_def CACHE_def)
  from cached_block_view [OF this] show ?thesis
    by (simp add: view_def disk7_def disk_dk_def disk_cache_def disk_world_def)
qed

definition disk_blocks :: "int \<Rightarrow> buf" where
  "disk_blocks b = (if b = 2 then [2] else [])"

definition disk_volume_sb :: diskfs_superblock where
  "disk_volume_sb = \<lparr>magic = DISKFS_MAGIC, sb_block_size = 4096, inode_start = 1, inode_blocks = 1,
     bitmap_start = 2, bitmap_blocks = 1, data_start = 3, data_blocks = 5\<rparr>"

definition disk_file :: diskfs_dirent where
  "disk_file = \<lparr>dsize = 4096, inumber = 3, drefcount = 1, isdir = False,
     disk = \<lparr>inuse = 1, isize = 4096, direct = [1, 0, 0, 0, 0, 0], indirect = 0\<rparr>\<rparr>"

lemma disk_blocks_2: "disk_blocks 2 = [2]"
  by (simp add: disk_blocks_def)

lemma disk_layout_ok: "layout_ok disk_volume_sb 8"
  by (simp add: layout_ok_def disk_volume_sb_def)

lemma disk_ptr: "ptr_of c disk_volume_sb (disk disk_file) k = (if k = 0 then 1 else 0)"
  by (auto simp: ptr_of_def disk_file_def DISKFS_DIRECT_POINTERS_def nth_Cons' numeral_eq_Suc)

lemma disk_bitmap: "take 4096 (2 # replicate 4096 0) = (2 :: u8) # replicate 4095 0"
  by (subst take_Cons_numeral) simp

lemma disk_used: "h 2 = [2] \<Longrightarrow> used (cached_block disk7 7 (disk_cache h)) disk_volume_sb 1"
  by (simp add: used_def disk_contents disk_volume_sb_def bloc_def bit_set_def
      DISKFS_BLOCK_SIZE_def disk_bitmap bit_numeral_word_iff)

lemma disk_file_simps: "indirect (disk disk_file) = 0" "length (direct (disk disk_file)) = DISKFS_DIRECT_POINTERS"
  "inumber disk_file = 3"
  by (simp_all add: disk_file_def DISKFS_DIRECT_POINTERS_def)

lemma disk_inode_ok: "h 2 = [2] \<Longrightarrow> inode_ok (cached_block disk7 7 (disk_cache h)) disk_volume_sb (disk disk_file)"
  using disk_used [of h] by (auto simp: inode_ok_def disk_ptr file_blocks_def disk_file_simps split: if_splits)

section \<open>Properties\<close>

text \<open>\<^verbatim>\<open>diskfs_data_block_alloc\<close> takes the first clear bit of the bitmap, in the order of
  the bitmap blocks, whose number is not 0 and below the number of data blocks; it returns that
  number, sets that bit and changes nothing else.  Without such a bit it returns 0 and changes
  nothing.  Bit \<open>n\<close> of bitmap block \<open>i\<close> has the number \<open>i * 4096 + n\<close>, so that with several
  bitmap blocks of 32768 bits a number has several bits.\<close>

theorem diskfs_data_block_alloc_correct:
  assumes "cached_ok dk N d 4096 s" "layout_ok v (N d)" "length tmp = 4096"
  shows "\<exists>s'. cached_ok dk N d 4096 s' \<and>
    (case first_free v (\<lambda>i. cached_block dk d s (bloc v i)) [0..<unat (bitmap_blocks v)] of
      None \<Rightarrow> diskfs_data_block_alloc (cache_io d g tmp) v s = Some (0, s') \<and> cached_block dk d s' = cached_block dk d s
    | Some (i, n) \<Rightarrow> diskfs_data_block_alloc (cache_io d g tmp) v s = Some (of_nat (i * 4096 + n), s') \<and>
        cached_block dk d s' = (cached_block dk d s)(bloc v i := set_bit_at n (cached_block dk d s (bloc v i))))"
  using cached_disk.alloc_blocks_spec [OF assms, of "[0..<unat (bitmap_blocks v)]" g tmp]
  by (simp only: diskfs_data_block_alloc_def cache_io_def bit_no_def DISKFS_BLOCK_SIZE_def store_io_simps) simp

theorem diskfs_data_block_alloc_correct_witness:
  "\<exists>s'. diskfs_data_block_alloc (cache_io 7 0 (replicate 4096 0)) disk_volume_sb (disk_cache disk_blocks) = Some (2, s')"
proof -
  let ?b = "cached_block disk7 7 (disk_cache disk_blocks) (bloc disk_volume_sb 0)"
  have b: "?b = 2 # replicate 4095 0"
    by (simp add: disk_contents disk_blocks_def bloc_def disk_volume_sb_def disk_bitmap)
  have "[0..<8 * DISKFS_BLOCK_SIZE] = [0..<3] @ [3..<32768]"
    using upt_add_eq_append [of 0 3 32765] by (simp add: DISKFS_BLOCK_SIZE_def del: upt_rec_numeral)
  also have "[0..<3] = [0, 1, 2 :: nat]" by (simp add: upt_rec)
  finally have u: "[0..<8 * DISKFS_BLOCK_SIZE] = [0, 1, 2] @ [3..<32768]" .
  have f: "\<not> free_bit disk_volume_sb 0 ?b 0" "\<not> free_bit disk_volume_sb 0 ?b 1" "free_bit disk_volume_sb 0 ?b 2"
    unfolding b by (simp_all add: free_bit_def bit_no_def bit_set_def disk_volume_sb_def bit_numeral_word_iff)
  have "first_free disk_volume_sb (\<lambda>i. cached_block disk7 7 (disk_cache disk_blocks) (bloc disk_volume_sb i)) [0] = Some (0, 2)"
    using f by (simp add: u del: upt_rec_numeral One_nat_def)
  moreover have "[0..<unat (bitmap_blocks disk_volume_sb)] = [0]" by (simp add: disk_volume_sb_def)
  ultimately show ?thesis
    using diskfs_data_block_alloc_correct [OF disk_cached_ok disk_layout_ok, of "replicate 4096 0" 0 disk_blocks] by auto
qed

text \<open>On a volume of one bitmap block \<^verbatim>\<open>diskfs_data_block_free\<close> of a block in use makes
  exactly that block free again if its number is below 4096; from number 4096 on it looks for
  the bit in a bitmap block that does not exist, and the block stays in use.\<close>

theorem diskfs_data_block_free_correct:
  assumes "cached_ok dk N d 4096 s" "layout_ok v (N d)" "length tmp = 4096" "bitmap_blocks v = 1"
    "used (cached_block dk d s) v a"
  shows "\<exists>s'. diskfs_data_block_free (cache_io d g tmp) v (sint a) s = Some s' \<and> cached_ok dk N d 4096 s' \<and>
    (\<forall>x. used (cached_block dk d s') v x = (used (cached_block dk d s) v x \<and> (unat a < 4096 \<longrightarrow> x \<noteq> a))) \<and>
    (\<forall>n. cached_block dk d s' (dloc v n) = cached_block dk d s (dloc v n))"
proof -
  have "unat a < 32768" using assms(5) by (simp add: used_def DISKFS_BLOCK_SIZE_def)
  then have "int (unat a) < 2147483648" by linarith
  then have a: "sint a = int (unat a)" "int (unat a) < 2 ^ 31" using sint_word32 by auto
  have l: "length (cached_block dk d s (bloc v 0)) = 4096"
    using cached_disk.region_length(1) [OF assms(1,2), of 0] assms(4) by simp
  have bl: "bloc v 0 \<noteq> dloc v j" for j using location_disjoint(3) [OF assms(2)] assms(4) by simp
  obtain s' where s': "diskfs_data_block_free (cache_io d g tmp) v (sint a) s = Some s'" "cached_ok dk N d 4096 s'"
    "cached_block dk d s' = (if unat a div 4096 < 1
      then (cached_block dk d s)(bloc v (unat a div 4096) := clear_bit_at (unat a mod 4096) (cached_block dk d s (bloc v (unat a div 4096))))
      else cached_block dk d s)"
    using cached_disk.data_block_free_spec [OF assms(1-3), of "int (unat a)" g] a assms(4) by (auto simp: cache_io_def)
  show ?thesis
  proof (cases "unat a < 4096")
    case True
    then have c: "cached_block dk d s' = (cached_block dk d s)(bloc v 0 := clear_bit_at (unat a) (cached_block dk d s (bloc v 0)))"
      using s'(3) by simp
    have "used (cached_block dk d s') v x = (used (cached_block dk d s) v x \<and> x \<noteq> a)" for x
      using True l by (auto simp: used_def c bit_set_set_bit)
    then show ?thesis using s' True bl [symmetric] c by auto
  next
    case False
    then show ?thesis using s' by auto
  qed
qed

theorem diskfs_data_block_free_correct_witness:
  "\<exists>s'. diskfs_data_block_free (cache_io 7 0 (replicate 4096 0)) disk_volume_sb 1 (disk_cache disk_blocks) = Some s' \<and>
     \<not> used (cached_block disk7 7 s') disk_volume_sb 1"
  using diskfs_data_block_free_correct [OF disk_cached_ok disk_layout_ok _ _ disk_used [of disk_blocks, OF disk_blocks_2], of "replicate 4096 0" 0]
  by (auto simp: disk_volume_sb_def)

text \<open>Claim C10. A file is a map from block numbers to blocks.  Writing a block of it, direct or
  through the indirect block, stores exactly that block: later reads return the data, the other
  blocks of the file and the blocks of other files are as before, and the inode on disk is the
  one in memory whenever it changed.  Only a block that was not mapped can fail, with
  \<^verbatim>\<open>KERROR_OUT_OF_SPACE\<close>, and then the file is as before and every block the allocator may hand out is in use.\<close>

theorem diskfs_file_write_read:
  assumes "cached_ok dk N d 4096 s" "layout_ok v (N d)" "bitmap_blocks v = 1" "length tmp = 4096"
    "inumber_ok v (inumber f)" "inode_ok (cached_block dk d s) v (disk f)" "length b = 4096" "k < FILE_BLOCKS"
  shows "\<exists>r f' s'. diskfs_inode_write (cache_io d g tmp) v f b k s = Some (r, f', s') \<and> cached_ok dk N d 4096 s' \<and>
    inumber f' = inumber f \<and>
    file_step v (inumber f) (cached_block dk d s) (disk f) (cached_block dk d s') (disk f') \<and>
    (if r = 4096 then file_map (cached_block dk d s') v (disk f') = (file_map (cached_block dk d s) v (disk f))(k \<mapsto> b) \<and>
       (\<exists>s''. diskfs_inode_read (cache_io d g tmp) v f' tmp k s' = Some (4096, b, s'') \<and>
          cached_block dk d s'' = cached_block dk d s')
     else r = kerr KERROR_OUT_OF_SPACE \<and> file_map (cached_block dk d s) v (disk f) k = None \<and>
       file_map (cached_block dk d s') v (disk f') = file_map (cached_block dk d s) v (disk f) \<and>
       volume_full (cached_block dk d s') v)"
proof -
  obtain r f' s' where w: "diskfs_inode_write (cache_io d g tmp) v f b k s = Some (r, f', s')" "cached_ok dk N d 4096 s'"
    "f'\<lparr>disk := disk f\<rparr> = f" "file_step v (inumber f) (cached_block dk d s) (disk f) (cached_block dk d s') (disk f')"
    "r = 4096 \<and> file_map (cached_block dk d s') v (disk f') = (file_map (cached_block dk d s) v (disk f))(k \<mapsto> b) \<or>
     r = kerr KERROR_OUT_OF_SPACE \<and> file_map (cached_block dk d s') v (disk f') = file_map (cached_block dk d s) v (disk f) \<and>
     file_map (cached_block dk d s) v (disk f) k = None \<and> volume_full (cached_block dk d s') v"
    using cached_disk.inode_write_spec [OF assms(1,2,3,5,4,6-8), of g] unfolding cache_io_def by blast
  have "kerr KERROR_OUT_OF_SPACE \<noteq> 4096" by simp
  moreover have "\<exists>s''. diskfs_inode_read (cache_io d g tmp) v f' tmp k s' = Some (4096, b, s'') \<and>
      cached_block dk d s'' = cached_block dk d s'"
    if "file_map (cached_block dk d s') v (disk f') = (file_map (cached_block dk d s) v (disk f))(k \<mapsto> b)"
    using cached_disk.inode_read_spec [OF w(2) assms(2) _ assms(4), of f' k b g tmp] w(4) that
    by (auto simp: cache_io_def file_step_def)
  moreover have "inumber f' = inumber f" using arg_cong [OF w(3), of inumber] by simp
  ultimately show ?thesis using w by auto
qed

theorem diskfs_file_write_read_witness:
  "\<exists>f' s' s''. diskfs_inode_write (cache_io 7 0 (replicate 4096 0)) disk_volume_sb disk_file (replicate 4096 65) 0
      (disk_cache disk_blocks) = Some (4096, f', s') \<and>
    diskfs_inode_read (cache_io 7 0 (replicate 4096 0)) disk_volume_sb f' (replicate 4096 0) 0 s' =
      Some (4096, replicate 4096 65, s'')"
proof -
  have "file_map (cached_block disk7 7 (disk_cache disk_blocks)) disk_volume_sb (disk disk_file) 0 \<noteq> None"
    by (simp add: file_map_def disk_ptr)
  with diskfs_file_write_read [OF disk_cached_ok disk_layout_ok _ _ _ disk_inode_ok [of disk_blocks, OF disk_blocks_2], of "replicate 4096 0" "replicate 4096 65" 0 0]
  show ?thesis
    by (simp add: disk_volume_sb_def [unfolded atomize_eq] disk_file_simps inumber_ok_def FILE_BLOCKS_def diskfs_sizes
        split: if_splits) blast
qed

end
