(* ===== verification/Diskfs_Dir.thy ===== *)
theory Diskfs_Dir
  imports Diskfs_File
begin

text \<open>
  The directories of \<^verbatim>\<open>kernel/diskfs.c\<close>: looking a name up, adding an item, removing one, and
  the volume that formatting makes.
\<close>

section \<open>Items of a block\<close>

text \<open>An item carries the name \<open>xs\<close>: it is not blank, and its length and bytes are those of \<open>xs\<close>.\<close>

definition item_named :: "buf \<Rightarrow> diskfs_item \<Rightarrow> bool" where
  "item_named xs r \<longleftrightarrow> it_type r \<noteq> DISKFS_ITEM_BLANK \<and> unat (name_length r) = length xs \<and>
     take (length xs) (it_name r) = xs"

lemma strncmp_eq:
  "is_cstr xs nm \<Longrightarrow> length xs \<le> length ys \<Longrightarrow> \<exists>r. strncmp nm ys (length xs) = Some r \<and> (r = 0 \<longleftrightarrow> take (length xs) ys = xs)"
proof (induction xs arbitrary: nm ys)
  case (Cons x xs)
  obtain nm' where nm: "nm = x # nm'" "is_cstr xs nm'" "x \<noteq> 0" using Cons.prems(1) by (auto simp: is_cstr_Cons)
  obtain y ys' where ys: "ys = y # ys'" "length xs \<le> length ys'" using Cons.prems(2) by (cases ys) auto
  show ?case
  proof (cases "x = y")
    case True
    then show ?thesis using Cons.IH [OF nm(2) ys(2)] nm ys by auto
  next
    case False
    then have "x <s y \<or> y <s x" using signed.less_linear by blast
    then show ?thesis using nm ys False by auto
  qed
qed simp

lemma name_equals_item:
  assumes "is_cstr xs nm" "length xs \<le> DISKFS_NAME_MAX" "DISKFS_NAME_MAX \<le> length (it_name r)"
  shows "diskfs_name_equals nm (length xs) (it_name r) (unat (name_length r)) =
    Some (unat (name_length r) = length xs \<and> take (length xs) (it_name r) = xs)"
  using strncmp_eq [OF assms(1), of "it_name r"] assms(2,3) by (auto simp: diskfs_name_equals_def)

lemma item_name_room: "length b = 4096 \<Longrightarrow> j < DISKFS_ITEMS_PER_BLOCK \<Longrightarrow> DISKFS_NAME_MAX \<le> length (it_name (get_item b j))"
  by (simp add: get_item_def diskfs_sizes)

lemma find_item_spec:
  assumes "is_cstr xs nm" "length xs \<le> DISKFS_NAME_MAX" "length b = 4096"
  shows "\<forall>j \<in> set js. j < DISKFS_ITEMS_PER_BLOCK \<Longrightarrow>
    find_item b nm (length xs) js = Some (find (\<lambda>j. item_named xs (get_item b j)) js)"
proof (induction js)
  case (Cons j js)
  have "DISKFS_NAME_MAX \<le> length (it_name (get_item b j))" using item_name_room [OF assms(3)] Cons.prems by simp
  from name_equals_item [OF assms(1,2) this] Cons show ?case
    by (auto simp: item_named_def Let_def)
qed simp

lemma put_item_nth:
  assumes "length b = 4096" "j < DISKFS_ITEMS_PER_BLOCK" "length nm \<le> DISKFS_NAME_MAX" "p < 4096"
  shows "length (put_item j ino ty nm b) = 4096"
    and "put_item j ino ty nm b ! p =
      (if 32 * j + 6 \<le> p \<and> p < 32 * j + 6 + length nm then nm ! (p - (32 * j + 6))
       else if p = 32 * j + 5 then of_nat (length nm) else if p = 32 * j + 4 then ty else put32 (32 * j) ino b ! p)"
proof -
  have j: "32 * j + 6 + length nm \<le> 4096" and tk: "take (length nm mod 256) nm = nm"
    using assms by (simp_all add: diskfs_sizes)
  let ?b = "(put32 (32 * j) ino b)[32 * j + 4 := ty, 32 * j + 5 := of_nat (length nm)]"
  have lb: "length ?b = 4096" using assms by simp
  show "length (put_item j ino ty nm b) = 4096" using lb j by (simp add: put_item_def put_bytes_def tk)
  have "put_item j ino ty nm b ! p = (if p < 32 * j + 6 then ?b ! p
      else if p < 32 * j + 6 + length nm then nm ! (p - (32 * j + 6)) else ?b ! p)"
    using lb j assms(4) by (auto simp: put_item_def put_bytes_def tk nth_append min_def)
  moreover have "?b ! p = (if p = 32 * j + 5 then of_nat (length nm) else if p = 32 * j + 4 then ty
      else put32 (32 * j) ino b ! p)"
    using assms j by (auto simp: nth_list_update)
  ultimately show "put_item j ino ty nm b ! p =
      (if 32 * j + 6 \<le> p \<and> p < 32 * j + 6 + length nm then nm ! (p - (32 * j + 6))
       else if p = 32 * j + 5 then of_nat (length nm) else if p = 32 * j + 4 then ty else put32 (32 * j) ino b ! p)"
    by auto
qed

lemma le32_cong: "(\<And>k. k < 4 \<Longrightarrow> b ! (i + k) = c ! (i + k)) \<Longrightarrow> le32 b i = le32 c i"
proof -
  assume a: "\<And>k. k < 4 \<Longrightarrow> b ! (i + k) = c ! (i + k)"
  from a [of 0] a [of 1] a [of 2] a [of 3] show ?thesis by (simp add: le32_def)
qed

text \<open>Storing an item is seen at its index and nowhere else.\<close>

lemma get_put_item:
  assumes "length b = 4096" "j < DISKFS_ITEMS_PER_BLOCK" "length nm \<le> DISKFS_NAME_MAX"
  shows "it_inumber (get_item (put_item j ino ty nm b) j) = ino" "it_type (get_item (put_item j ino ty nm b) j) = ty"
    "item_named xs (get_item (put_item j ino ty nm b) j) \<longleftrightarrow> ty \<noteq> DISKFS_ITEM_BLANK \<and> xs = nm"
proof -
  note n = put_item_nth [OF assms]
  have j: "32 * j + 32 \<le> 4096" using assms(2) by (simp add: diskfs_sizes)
  have "le32 (put_item j ino ty nm b) (32 * j) = le32 (put32 (32 * j) ino b) (32 * j)"
    by (rule le32_cong) (use j n(2) in auto)
  then show "it_inumber (get_item (put_item j ino ty nm b) j) = ino"
    using j assms(1) by (simp add: get_item_def)
  show t: "it_type (get_item (put_item j ino ty nm b) j) = ty"
    using j n(2) [of "32 * j + 4"] by (simp add: get_item_def)
  have l: "unat (name_length (get_item (put_item j ino ty nm b) j)) = length nm"
    using j n(2) [of "32 * j + 5"] assms(3) unat_of_nat_eq [of "length nm", where 'a = 8]
    by (simp add: get_item_def diskfs_sizes)
  have len: "length (put_item j ino ty nm b) = 4096" using n(1) [of 0] by simp
  have e: "take (length nm) (it_name (get_item (put_item j ino ty nm b) j)) = nm"
  proof (rule nth_equalityI)
    show "length (take (length nm) (it_name (get_item (put_item j ino ty nm b) j))) = length nm"
      using len j assms(3) by (simp add: get_item_def diskfs_sizes)
    fix k assume "k < length (take (length nm) (it_name (get_item (put_item j ino ty nm b) j)))"
    then have k: "k < length nm" by simp
    then show "take (length nm) (it_name (get_item (put_item j ino ty nm b) j)) ! k = nm ! k"
      using n(2) [of "32 * j + 6 + k"] j len assms(3) by (simp add: get_item_def diskfs_sizes)
  qed
  show "item_named xs (get_item (put_item j ino ty nm b) j) \<longleftrightarrow> ty \<noteq> DISKFS_ITEM_BLANK \<and> xs = nm"
    unfolding item_named_def t l by (metis e)
qed

lemma get_put_item_other:
  assumes "length b = 4096" "j < DISKFS_ITEMS_PER_BLOCK" "length nm \<le> DISKFS_NAME_MAX" "i < DISKFS_ITEMS_PER_BLOCK" "i \<noteq> j"
    and xs: "length xs \<le> DISKFS_NAME_MAX"
  shows "it_inumber (get_item (put_item j ino ty nm b) i) = it_inumber (get_item b i)"
    "it_type (get_item (put_item j ino ty nm b) i) = it_type (get_item b i)"
    "item_named xs (get_item (put_item j ino ty nm b) i) = item_named xs (get_item b i)"
proof -
  note n = put_item_nth [OF assms(1-3)]
  have len: "length (put_item j ino ty nm b) = 4096" using n(1) [of 0] by simp
  have i: "32 * i + 32 \<le> 4096" and d: "32 * i + 32 \<le> 32 * j \<or> 32 * j + 32 \<le> 32 * i"
    using assms(4,5) by (auto simp: diskfs_sizes)
  have same: "put_item j ino ty nm b ! (32 * i + k) = b ! (32 * i + k)" if "k < 32" for k
    using n(2) [of "32 * i + k"] i d that assms(1,3) by (auto simp: put32_nth diskfs_sizes)
  show 1: "it_inumber (get_item (put_item j ino ty nm b) i) = it_inumber (get_item b i)"
    by (auto simp: get_item_def intro!: le32_cong same)
  show 2: "it_type (get_item (put_item j ino ty nm b) i) = it_type (get_item b i)"
    using same [of 4] by (simp add: get_item_def)
  have 3: "name_length (get_item (put_item j ino ty nm b) i) = name_length (get_item b i)"
    using same [of 5] by (simp add: get_item_def)
  have "take (length xs) (it_name (get_item (put_item j ino ty nm b) i)) = take (length xs) (it_name (get_item b i))"
  proof (rule nth_equalityI)
    show "length (take (length xs) (it_name (get_item (put_item j ino ty nm b) i))) = length (take (length xs) (it_name (get_item b i)))"
      using len assms(1) by (simp add: get_item_def)
    fix k assume "k < length (take (length xs) (it_name (get_item (put_item j ino ty nm b) i)))"
    then have "k < length xs" by simp
    then show "take (length xs) (it_name (get_item (put_item j ino ty nm b) i)) ! k = take (length xs) (it_name (get_item b i)) ! k"
      using same [of "6 + k"] i len assms(1) xs by (simp add: get_item_def diskfs_sizes add.assoc)
  qed
  then show "item_named xs (get_item (put_item j ino ty nm b) i) = item_named xs (get_item b i)"
    using 2 3 by (simp add: item_named_def)
qed

section \<open>Directories as maps from names\<close>

text \<open>The first item that satisfies a test, through the blocks of a directory.\<close>

fun dir_find :: "(nat \<rightharpoonup> buf) \<Rightarrow> (diskfs_item \<Rightarrow> bool) \<Rightarrow> nat list \<Rightarrow> (nat \<times> nat) option" where
  "dir_find F P [] = None"
| "dir_find F P (i # is) =
     (case find (\<lambda>j. P (get_item (the (F i)) j)) [0..<DISKFS_ITEMS_PER_BLOCK] of
        Some j \<Rightarrow> Some (i, j)
      | None \<Rightarrow> dir_find F P is)"

definition dir_item :: "(nat \<rightharpoonup> buf) \<Rightarrow> nat \<times> nat \<Rightarrow> diskfs_item" where
  "dir_item F p = get_item (the (F (fst p))) (snd p)"

definition dir_entry :: "(int \<Rightarrow> buf) \<Rightarrow> diskfs_superblock \<Rightarrow> diskfs_dirent \<Rightarrow> buf \<rightharpoonup> (nat \<times> u8)" where
  "dir_entry c v d xs = map_option (\<lambda>p. (unat (it_inumber (dir_item (file_map c v (disk d)) p)), it_type (dir_item (file_map c v (disk d)) p)))
     (dir_find (file_map c v (disk d)) (item_named xs) [0..<dir_nblocks d])"

definition dir_ok :: "(int \<Rightarrow> buf) \<Rightarrow> diskfs_superblock \<Rightarrow> diskfs_dirent \<Rightarrow> bool" where
  "dir_ok c v d \<longleftrightarrow> inode_ok c v (disk d) \<and> inumber_ok v (inumber d) \<and> (\<forall>i < dir_nblocks d. file_map c v (disk d) i \<noteq> None)"

definition dirent_of :: "diskfs_inode \<Rightarrow> nat \<Rightarrow> u8 \<Rightarrow> diskfs_dirent" where
  "dirent_of x ino ty = \<lparr>dsize = isize x, inumber = ino, drefcount = 1, isdir = (ty = DISKFS_ITEM_DIR), disk = x\<rparr>"

lemma find_SomeD: "find P xs = Some x \<Longrightarrow> x \<in> set xs \<and> P x"
  by (induction xs) (auto split: if_splits)

lemma dir_find_Some:
  "dir_find F P is = Some (i, j) \<Longrightarrow> i \<in> set is \<and> j < DISKFS_ITEMS_PER_BLOCK \<and> P (get_item (the (F i)) j)"
proof (induction "is")
  case (Cons a "is")
  show ?case
  proof (cases "find (\<lambda>j. P (get_item (the (F a)) j)) [0..<DISKFS_ITEMS_PER_BLOCK]")
    case (Some m)
    from find_SomeD [OF this] have "P (get_item (the (F a)) m)" "m \<in> set [0..<DISKFS_ITEMS_PER_BLOCK]" by simp_all
    then show ?thesis using Cons.prems Some by auto
  qed (use Cons in auto)
qed simp

lemma dir_find_None: "dir_find F P is = None \<longleftrightarrow> (\<forall>i \<in> set is. \<forall>j < DISKFS_ITEMS_PER_BLOCK. \<not> P (get_item (the (F i)) j))"
  by (induction "is") (auto simp: find_None_iff split: option.splits dest!: find_SomeD)

text \<open>Storing an item over a blank one adds its name and changes no other.\<close>

lemma dir_find_cong:
  "(\<And>i j. i \<in> set is \<Longrightarrow> j < DISKFS_ITEMS_PER_BLOCK \<Longrightarrow> P (get_item (the (F i)) j) = Q (get_item (the (G i)) j)) \<Longrightarrow>
    dir_find F P is = dir_find G Q is"
proof (induction "is")
  case (Cons i "is")
  have "find (\<lambda>j. P (get_item (the (F i)) j)) [0..<DISKFS_ITEMS_PER_BLOCK] =
      find (\<lambda>j. Q (get_item (the (G i)) j)) [0..<DISKFS_ITEMS_PER_BLOCK]"
    using Cons.prems by (intro find_cong) auto
  then show ?case using Cons by (simp split: option.split)
qed simp

lemma dir_find_unique:
  assumes "i \<in> set is" "j < DISKFS_ITEMS_PER_BLOCK"
    "\<And>i' j'. i' \<in> set is \<Longrightarrow> j' < DISKFS_ITEMS_PER_BLOCK \<Longrightarrow> P (get_item (the (F i')) j') \<longleftrightarrow> i' = i \<and> j' = j"
  shows "dir_find F P is = Some (i, j)"
proof (cases "dir_find F P is")
  case None
  then show ?thesis using assms by (auto simp: dir_find_None)
next
  case (Some p)
  then show ?thesis using dir_find_Some [of F P "is" "fst p" "snd p"] assms(3) by (cases p) auto
qed

lemma dir_find_put:
  assumes b: "F i = Some b" "length b = 4096" and ij: "i \<in> set is" "j < DISKFS_ITEMS_PER_BLOCK"
    and blank: "it_type (get_item b j) = DISKFS_ITEM_BLANK"
    and xs: "length xs \<le> DISKFS_NAME_MAX" "length ys \<le> DISKFS_NAME_MAX" "ty \<noteq> DISKFS_ITEM_BLANK"
    and new: "dir_find F (item_named xs) is = None"
  shows "dir_find (F(i \<mapsto> put_item j ino ty xs b)) (item_named ys) is =
    (if ys = xs then Some (i, j) else dir_find F (item_named ys) is)"
proof -
  have at: "item_named ys (get_item (the ((F(i \<mapsto> put_item j ino ty xs b)) i')) j') =
      (if i' = i \<and> j' = j then ys = xs else item_named ys (get_item (the (F i')) j'))"
    if "j' < DISKFS_ITEMS_PER_BLOCK" for i' j'
    using b get_put_item(3) [OF b(2) ij(2) xs(1), of ys ino ty] xs(3)
      get_put_item_other(3) [OF b(2) ij(2) xs(1) that _ xs(2), of ino ty] by auto
  show ?thesis
  proof (cases "ys = xs")
    case True
    then have "dir_find (F(i \<mapsto> put_item j ino ty xs b)) (item_named ys) is = Some (i, j)"
      using ij new at unfolding dir_find_None by (intro dir_find_unique) auto
    then show ?thesis using True by simp
  next
    case False
    have "\<not> item_named ys (get_item b j)" using blank by (simp add: item_named_def)
    then have "dir_find (F(i \<mapsto> put_item j ino ty xs b)) (item_named ys) is = dir_find F (item_named ys) is"
      using at b(1) False by (intro dir_find_cong) auto
    then show ?thesis using False by simp
  qed
qed

lemma inode_isize [simp]:
  "ptr_of c v (x\<lparr>isize := n\<rparr>) = ptr_of c v x" "file_map c v (x\<lparr>isize := n\<rparr>) = file_map c v x"
  "file_blocks c v (x\<lparr>isize := n\<rparr>) = file_blocks c v x" "inode_ok c v (x\<lparr>isize := n\<rparr>) = inode_ok c v x"
proof -
  show 1: "ptr_of c v (x\<lparr>isize := n\<rparr>) = ptr_of c v x" by (simp add: ptr_of_def fun_eq_iff)
  show "file_map c v (x\<lparr>isize := n\<rparr>) = file_map c v x" by (simp add: file_map_def 1 fun_eq_iff)
  show 2: "file_blocks c v (x\<lparr>isize := n\<rparr>) = file_blocks c v x" by (simp add: file_blocks_def 1)
  show "inode_ok c v (x\<lparr>isize := n\<rparr>) = inode_ok c v x" by (simp add: inode_ok_def 1 2)
qed

context disk_volume
begin

lemma file_block_length:
  assumes "ok s" "layout_ok v total" "inode_ok (contents s) v x" "file_map (contents s) v x k = Some b"
  shows "length b = 4096"
proof -
  have "ptr_of (contents s) v x k \<noteq> 0" "b = contents s (dloc v (unat (ptr_of (contents s) v x k)))"
    using assms(4) by (auto simp: file_map_def split: if_splits)
  moreover from this ptr_block [OF assms(3)] have "ptr_of (contents s) v x k < data_blocks v" by (auto simp: used_def)
  ultimately show ?thesis using region_length(3) [OF assms(1,2)] by simp
qed

lemma lookup_blocks_spec:
  assumes L: "layout_ok v total" and t: "length tmp = 4096" and nm: "is_cstr xs nm" "length xs \<le> DISKFS_NAME_MAX"
  shows "ok s \<Longrightarrow> length b = 4096 \<Longrightarrow> inode_ok (contents s) v (disk d) \<Longrightarrow>
    \<forall>i \<in> set is. file_map (contents s) v (disk d) i \<noteq> None \<Longrightarrow>
    \<forall>p. dir_find (file_map (contents s) v (disk d)) (item_named xs) is = Some p \<longrightarrow>
      inumber_ok v (unat (it_inumber (dir_item (file_map (contents s) v (disk d)) p))) \<Longrightarrow>
    \<exists>s'. dirent_lookup_blocks (io tmp) v d nm (length xs) is b s =
      Some (map_option (\<lambda>p. let r = dir_item (file_map (contents s) v (disk d)) p in
          dirent_of (inode_at (contents s) v (unat (it_inumber r))) (unat (it_inumber r)) (it_type r))
        (dir_find (file_map (contents s) v (disk d)) (item_named xs) is), s') \<and> ok s' \<and> contents s' = contents s"
proof (induction "is" arbitrary: s b)
  case (Cons i "is")
  let ?F = "file_map (contents s) v (disk d)"
  obtain data where data: "?F i = Some data" using Cons.prems(4) by auto
  obtain s1 where s1: "diskfs_inode_read (io tmp) v d b i s = Some (4096, data, s1)" "ok s1" "contents s1 = contents s"
    using inode_read_spec [OF Cons.prems(1) L Cons.prems(3,2) data] by blast
  have ld: "length data = 4096" by (rule file_block_length [OF Cons.prems(1) L Cons.prems(3) data])
  have f: "find_item data nm (length xs) [0..<DISKFS_ITEMS_PER_BLOCK] =
      Some (find (\<lambda>j. item_named xs (get_item data j)) [0..<DISKFS_ITEMS_PER_BLOCK])"
    by (rule find_item_spec [OF nm ld]) simp
  show ?case
  proof (cases "find (\<lambda>j. item_named xs (get_item data j)) [0..<DISKFS_ITEMS_PER_BLOCK]")
    case None
    have "\<exists>s'. dirent_lookup_blocks (io tmp) v d nm (length xs) is data s1 =
      Some (map_option (\<lambda>p. let r = dir_item ?F p in
          dirent_of (inode_at (contents s) v (unat (it_inumber r))) (unat (it_inumber r)) (it_type r))
        (dir_find ?F (item_named xs) is), s') \<and> ok s' \<and> contents s' = contents s"
      using Cons.IH [OF s1(2) ld] Cons.prems(3,4,5) None data unfolding s1(3) by simp
    then show ?thesis using s1(1) f None data by auto
  next
    case (Some j)
    let ?n = "unat (it_inumber (get_item data j))"
    have "?n div 113 < unat (inode_blocks v)"
      using Cons.prems(5) Some data by (simp add: dir_item_def inumber_ok_def)
    from inode_load [OF s1(2) L this t] obtain s2 where
      "diskfs_inode_load (io tmp) v ?n s1 = Some (inode_at (contents s) v ?n, s2)" "ok s2" "contents s2 = contents s"
      unfolding s1(3) by blast
    then show ?thesis using s1(1) f Some data
      by (simp add: diskfs_dirent_create_def dir_item_def dirent_of_def Let_def)
  qed
qed simp

end

lemma dir_nblocks_ceil: "dir_nblocks d = (unat (dsize d) + 4095) div 4096"
proof -
  have "n div 4096 + (if n mod 4096 \<noteq> 0 then 1 else 0) = (n + 4095) div 4096" for n :: nat
  proof -
    have "(n mod 4096 + 4095) div 4096 = (if n mod 4096 \<noteq> 0 then 1 else 0)"
      using mod_less_divisor [of 4096 n] by (auto intro!: div_nat_eqI)
    moreover have "(n + 4095) div 4096 = n div 4096 + (n mod 4096 + 4095) div 4096"
      by (metis add.assoc div_mult_self3 div_mult_mod_eq zero_neq_numeral)
    ultimately show ?thesis by simp
  qed
  then show ?thesis by (simp add: dir_nblocks_def DISKFS_BLOCK_SIZE_def)
qed

lemma dir_nblocks_grow:
  assumes "dsize d < w" "unat w \<le> 4096 * (i + 1)" "i < dir_nblocks d" "dsize d' = w"
  shows "dir_nblocks d' = dir_nblocks d"
proof -
  have "unat (dsize d) < unat w" using assms(1) by (simp add: word_less_nat_alt)
  then show ?thesis using assms(2-4) unfolding dir_nblocks_ceil by auto
qed

context disk_volume
begin

lemma add_blocks_spec:
  assumes L: "layout_ok v total" "bitmap_blocks v = 1" and ino: "inumber_ok v (inumber d)" and t: "length tmp = 4096"
    and nm: "length nm \<le> DISKFS_NAME_MAX"
  shows "ok s \<Longrightarrow> length b = 4096 \<Longrightarrow> inode_ok (contents s) v (disk d) \<Longrightarrow>
    \<forall>i \<in> set is. file_map (contents s) v (disk d) i \<noteq> None \<and> i < dir_nblocks d \<Longrightarrow>
    dir_find (file_map (contents s) v (disk d)) (\<lambda>r. it_type r = DISKFS_ITEM_BLANK) is = Some (i, j) \<Longrightarrow>
    \<exists>d' b' s'. dirent_add_blocks (io tmp) v d nm ty n is b s = Some ((True, d'), b', s') \<and> ok s' \<and>
      file_map (contents s') v (disk d') = (file_map (contents s) v (disk d))
        (i \<mapsto> put_item j (of_nat n) ty nm (the (file_map (contents s) v (disk d) i))) \<and>
      inumber d' = inumber d \<and> dir_nblocks d' = dir_nblocks d \<and>
      file_step v (inumber d) (contents s) (disk d) (contents s') (disk d')"
proof (induction "is" arbitrary: s b)
  case (Cons a "is")
  let ?F = "file_map (contents s) v (disk d)"
  obtain data where data: "?F a = Some data" using Cons.prems(4) by auto
  obtain s1 where s1: "diskfs_inode_read (io tmp) v d b a s = Some (4096, data, s1)" "ok s1" "contents s1 = contents s"
    using inode_read_spec [OF Cons.prems(1) L(1) Cons.prems(3,2) data] by blast
  have ld: "length data = 4096" by (rule file_block_length [OF Cons.prems(1) L(1) Cons.prems(3) data])
  show ?case
  proof (cases "find (\<lambda>j. it_type (get_item data j) = DISKFS_ITEM_BLANK) [0..<DISKFS_ITEMS_PER_BLOCK]")
    case None
    have "dir_find (file_map (contents s1) v (disk d)) (\<lambda>r. it_type r = DISKFS_ITEM_BLANK) is = Some (i, j)"
      using Cons.prems(5) None data s1(3) by simp
    from Cons.IH [OF s1(2) ld _ _ this] Cons.prems(3,4) show ?thesis
      unfolding s1(3) using s1(1) None by simp
  next
    case (Some m)
    then have am: "a = i" "m = j" using Cons.prems(5) data by simp_all
    have j: "j < DISKFS_ITEMS_PER_BLOCK" using find_SomeD [OF Some] am by simp
    have iF: "i < FILE_BLOCKS" using data am by (auto simp: file_map_def ptr_of_def FILE_BLOCKS_def split: if_splits)
    let ?b = "put_item j (of_nat n) ty nm data"
    have lb: "length ?b = 4096" using put_item_nth(1) [OF ld j nm, of 0] by simp
    have x1: "inode_ok (contents s1) v (disk d)" using Cons.prems(3) s1(3) by simp
    obtain r d1 s2 where w: "diskfs_inode_write (io tmp) v d ?b i s1 = Some (r, d1, s2)" "ok s2" "d1\<lparr>disk := disk d\<rparr> = d"
      "file_step v (inumber d) (contents s) (disk d) (contents s2) (disk d1)"
      "file_map (contents s2) v (disk d1) = ?F(i \<mapsto> ?b)"
      using inode_write_spec [OF s1(2) L ino t x1 lb iF] data am unfolding s1(3) by auto
    have d1: "inumber d1 = inumber d" "dsize d1 = dsize d"
      using arg_cong [OF w(3), of inumber] arg_cong [OF w(3), of dsize] by simp_all
    let ?w = "of_nat (i * DISKFS_BLOCK_SIZE + (j + 1) * 32) :: u32"
    have uw: "unat ?w \<le> 4096 * (i + 1)"
      using iF j by (subst unat_of_nat_eq) (auto simp: FILE_BLOCKS_def diskfs_sizes)
    show ?thesis
    proof (cases "?w > dsize d1")
      case False
      then show ?thesis using s1(1) Some data w d1 am by (auto simp: Let_def dir_nblocks_def)
    next
      case True
      let ?d = "snd (diskfs_dirent_resize d1 ?w)"
      have dd: "disk ?d = (disk d1)\<lparr>isize := ?w\<rparr>" "inumber ?d = inumber d" "dsize ?d = ?w"
        by (simp_all add: diskfs_dirent_resize_def d1)
      have i: "i < dir_nblocks d" using Cons.prems(4) am by simp
      have nb: "dir_nblocks ?d = dir_nblocks d"
        by (rule dir_nblocks_grow [OF _ uw i dd(3)]) (use True d1 in simp)
      obtain s3 where s3: "diskfs_inode_save (io tmp) v (inumber d) (disk ?d) s2 = Some s3" "ok s3"
        "file_step v (inumber d) (contents s) (disk d) (contents s3) (disk ?d)"
        "file_map (contents s3) v (disk ?d) = file_map (contents s2) v (disk ?d)"
        using save_step [OF w(2) L ino t, of "disk ?d" "contents s" "disk d"] w(4) unfolding dd
        by (auto simp: file_step_def)
      have "file_map (contents s3) v (disk ?d) = ?F(i \<mapsto> ?b)" using s3(4) w(5) dd(1) by simp
      then show ?thesis using s1(1) Some data w(1) s3(1-3) dd(2) nb am True
        by (auto simp: Let_def)
    qed
  qed
qed simp

text \<open>Looking a name up.\<close>

lemma lookup_spec:
  assumes "ok s" "layout_ok v total" "length tmp = 4096" "dir_ok (contents s) v d" "is_cstr xs nm" "length xs \<le> DISKFS_NAME_MAX"
    "\<forall>e. dir_entry (contents s) v d xs = Some e \<longrightarrow> inumber_ok v (fst e)"
  shows "\<exists>s'. diskfs_dirent_lookup (io tmp) v d nm s =
      Some (map_option (\<lambda>(ino, ty). dirent_of (inode_at (contents s) v ino) ino ty) (dir_entry (contents s) v d xs), s') \<and>
    ok s' \<and> contents s' = contents s"
proof -
  have u: "unat (of_nat (length xs) :: u32) = length xs"
    using assms(6) by (intro unat_of_nat_eq) (simp add: DISKFS_NAME_MAX_def)
  have d: "inode_ok (contents s) v (disk d)" "\<forall>i \<in> set [0..<dir_nblocks d]. file_map (contents s) v (disk d) i \<noteq> None"
    using assms(4) by (auto simp: dir_ok_def)
  have p: "\<forall>p. dir_find (file_map (contents s) v (disk d)) (item_named xs) [0..<dir_nblocks d] = Some p \<longrightarrow>
      inumber_ok v (unat (it_inumber (dir_item (file_map (contents s) v (disk d)) p)))"
    using assms(7) by (auto simp: dir_entry_def)
  show ?thesis
    using lookup_blocks_spec [OF assms(2,3,5,6,1,3) d p] strlen_cstr [OF assms(5)] u
    by (simp add: diskfs_dirent_lookup_def dir_entry_def option.map_comp o_def Let_def case_prod_unfold)
qed

text \<open>Adding an item where the directory has a blank one.\<close>

lemma add_spec:
  assumes s: "ok s" and L: "layout_ok v total" "bitmap_blocks v = 1" and t: "length tmp = 4096"
    and d: "dir_ok (contents s) v d" and nm: "is_cstr xs nm" "length xs \<le> DISKFS_NAME_MAX"
    and new: "dir_entry (contents s) v d xs = None" and n: "n < 2 ^ 32" and ty: "ty \<noteq> DISKFS_ITEM_BLANK"
    and room: "dir_find (file_map (contents s) v (disk d)) (\<lambda>r. it_type r = DISKFS_ITEM_BLANK) [0..<dir_nblocks d] \<noteq> None"
  shows "\<exists>d' s'. diskfs_dirent_add (io tmp) v d nm ty n s = Some (0, d', s') \<and> ok s' \<and> dir_ok (contents s') v d' \<and>
    inumber d' = inumber d \<and> file_step v (inumber d) (contents s) (disk d) (contents s') (disk d') \<and>
    (\<forall>ys. length ys \<le> DISKFS_NAME_MAX \<longrightarrow>
      dir_entry (contents s') v d' ys = (if ys = xs then Some (n, ty) else dir_entry (contents s) v d ys))"
proof -
  let ?F = "file_map (contents s) v (disk d)"
  obtain i j where ij: "dir_find ?F (\<lambda>r. it_type r = DISKFS_ITEM_BLANK) [0..<dir_nblocks d] = Some (i, j)"
    using room by fastforce
  from dir_find_Some [OF this] have i: "i < dir_nblocks d" and j: "j < DISKFS_ITEMS_PER_BLOCK"
    and blank: "it_type (get_item (the (?F i)) j) = DISKFS_ITEM_BLANK" by simp_all
  have ok: "inode_ok (contents s) v (disk d)" "inumber_ok v (inumber d)"
    and all: "\<forall>i \<in> set [0..<dir_nblocks d]. ?F i \<noteq> None \<and> i < dir_nblocks d"
    using d by (simp_all add: dir_ok_def)
  obtain b where b: "?F i = Some b" using d i by (auto simp: dir_ok_def)
  have lb: "length b = 4096" by (rule file_block_length [OF s L(1) ok(1) b])
  have len: "unat (of_nat (length xs) :: u32) = length xs"
    using nm(2) by (intro unat_of_nat_eq) (simp add: DISKFS_NAME_MAX_def)
  have tk: "take (length xs) nm = xs" using nm(1) by (auto simp: is_cstr_def)
  obtain d' b' s' where a: "dirent_add_blocks (io tmp) v d xs ty n [0..<dir_nblocks d] tmp s = Some ((True, d'), b', s')"
    "ok s'" "file_map (contents s') v (disk d') = ?F(i \<mapsto> put_item j (of_nat n) ty xs b)"
    "inumber d' = inumber d" "dir_nblocks d' = dir_nblocks d"
    "file_step v (inumber d) (contents s) (disk d) (contents s') (disk d')"
    using add_blocks_spec [OF L ok(2) t nm(2) s t ok(1) all ij, of ty n] b by auto
  have run: "diskfs_dirent_add (io tmp) v d nm ty n s = Some (0, d', s')"
    using a(1) strlen_cstr [OF nm(1)] len tk by (simp add: diskfs_dirent_add_def Let_def)
  have dok: "dir_ok (contents s') v d'"
    using a(3-6) all ok by (auto simp: dir_ok_def file_step_def)
  have none: "dir_find ?F (item_named xs) [0..<dir_nblocks d] = None" using new by (simp add: dir_entry_def)
  have e: "dir_entry (contents s') v d' ys = (if ys = xs then Some (n, ty) else dir_entry (contents s) v d ys)"
    if ys: "length ys \<le> DISKFS_NAME_MAX" for ys
  proof -
    have find: "dir_find (file_map (contents s') v (disk d')) (item_named ys) [0..<dir_nblocks d'] =
        (if ys = xs then Some (i, j) else dir_find ?F (item_named ys) [0..<dir_nblocks d])"
      unfolding a(3,5) using i j blank b
      by (intro dir_find_put [OF b lb _ j _ nm(2) ys ty none]) auto
    have "unat (of_nat n :: u32) = n" by (rule unat_of_nat_eq) (use n in simp)
    then have new_item: "dir_item (file_map (contents s') v (disk d')) (i, j) = get_item (put_item j (of_nat n) ty xs b) j"
      "unat (of_nat n :: u32) = n" by (simp_all add: dir_item_def a(3))
    have old: "it_inumber (dir_item (file_map (contents s') v (disk d')) p) = it_inumber (dir_item ?F p)"
      "it_type (dir_item (file_map (contents s') v (disk d')) p) = it_type (dir_item ?F p)"
      if p: "dir_find ?F (item_named ys) [0..<dir_nblocks d] = Some p" for p
    proof -
      obtain i' j' where p': "p = (i', j')" by fastforce
      from dir_find_Some [OF p [unfolded p']] have "j' < DISKFS_ITEMS_PER_BLOCK" "item_named ys (get_item (the (?F i')) j')" by simp_all
      moreover from this have "i' = i \<Longrightarrow> j' \<noteq> j" using blank by (auto simp: item_named_def)
      ultimately show "it_inumber (dir_item (file_map (contents s') v (disk d')) p) = it_inumber (dir_item ?F p)"
        "it_type (dir_item (file_map (contents s') v (disk d')) p) = it_type (dir_item ?F p)"
        using get_put_item_other(1,2) [OF lb j nm(2), of j' "[]" "of_nat n" ty] b
        by (auto simp: p' dir_item_def a(3))
    qed
    show ?thesis
      using find new_item get_put_item(1,2) [OF lb j nm(2), of "of_nat n" ty] old
      by (cases "dir_find ?F (item_named ys) [0..<dir_nblocks d]") (auto simp: dir_entry_def)
  qed
  show ?thesis using run a(2,4,6) dok e by blast
qed

end

section \<open>Removing\<close>

context disk_volume
begin

lemma inumber_free_spec:
  assumes "ok s" "layout_ok v total" "inumber_ok v ino" "length tmp = 4096"
  shows "\<exists>s' b. diskfs_inumber_free (io tmp) v ino s = Some s' \<and> ok s' \<and> contents s' = (contents s)(iloc v (ino div 113) := b)"
proof -
  have i: "ino div 113 < unat (inode_blocks v)" using assms(3) by (simp add: inumber_ok_def)
  note u = inode_block [OF assms(2) i]
  let ?b = "contents s (iloc v (ino div 113))"
  obtain s1 where s1: "diskfs_inode_block_read (io tmp) v tmp (of_nat (ino div 113)) s = Some (4096, ?b, s1)"
    "ok s1" "contents s1 = contents s" using region_read(2) [OF assms(1,2,4) u(2)] u(1) by auto
  have "length (put32 (36 * (ino mod 113)) 0 ?b) = 4096" using region_length(2) [OF assms(1,2) u(2)] u(1) by simp
  from region_write(2) [OF s1(2) assms(2) this u(2), of tmp] show ?thesis
    using s1 u(1) by (auto simp: diskfs_inumber_free_def Let_def)
qed

text \<open>Deleting through an inode of at most one block frees its first direct block.\<close>

lemma inode_delete_spec:
  assumes "ok s" "layout_ok v total" "bitmap_blocks v = 1" "inumber_ok v ino" "length tmp = 4096"
    "used (contents s) v a" "unat a < 4096" "direct x = a # ps" "isize x \<le> 4096"
  shows "\<exists>s'. diskfs_inode_delete (io tmp) v 4096 x ino s = Some s' \<and> ok s' \<and>
    contents s' (bloc v 0) = clear_bit_at (unat a) (contents s (bloc v 0))"
proof -
  have lt: "int (unat a) < 2147483648" using assms(7) by linarith
  then have sa: "sint a = int (unat a)" by (rule sint_word32)
  obtain s1 where s1: "diskfs_data_block_free (io tmp) v (sint a) s = Some s1" "ok s1"
    "contents s1 = (contents s)(bloc v 0 := clear_bit_at (unat a) (contents s (bloc v 0)))"
    using data_block_free_spec [OF assms(1,2,5), of "sint a"] lt assms(3,7) sa by auto
  have i: "ino div 113 < unat (inode_blocks v)" using assms(4) by (simp add: inumber_ok_def)
  obtain s2 b where s2: "diskfs_inode_save (io tmp) v ino x s1 = Some s2" "ok s2"
    "contents s2 = (contents s1)(iloc v (ino div 113) := b)"
    using inode_save [OF s1(2) assms(2) i assms(5)] by blast
  obtain s3 b' where s3: "diskfs_inumber_free (io tmp) v ino s2 = Some s3" "ok s3"
    "contents s3 = (contents s2)(iloc v (ino div 113) := b')"
    using inumber_free_spec [OF s2(2) assms(2,4,5)] by blast
  have "inode_delete_loop (io tmp) v 4096 x (direct x) 0 s = Some (4096, s1)"
    using assms(8,9) s1(1) by simp
  moreover have "contents s3 (bloc v 0) = clear_bit_at (unat a) (contents s (bloc v 0))"
    using location_disjoint(1) [OF assms(2) i, of 0] s1(3) s2(3) s3(3) by simp
  ultimately show ?thesis using s2(1) s3(1,2) assms(9) by (auto simp: diskfs_inode_delete_def)
qed

lemma remove_spec:
  assumes s: "ok s" and L: "layout_ok v total" "bitmap_blocks v = 1" and t: "length tmp = 4096"
    and d: "dir_ok (contents s) v d" "dir_nblocks d = 1" "isize (disk d) \<le> 4096"
    and nm: "is_cstr xs nm" "length xs \<le> DISKFS_NAME_MAX"
    and e: "dir_entry (contents s) v d xs = Some (ino, DISKFS_ITEM_FILE)" "inumber_ok v ino"
    and a: "direct (disk d) ! 0 = a" "unat a < 4096"
  shows "\<exists>s'. diskfs_dirent_remove (io tmp) v 4096 d nm s = Some (0, d, s') \<and> ok s' \<and>
    (\<forall>b. used (contents s') v b = (used (contents s) v b \<and> b \<noteq> a))"
proof -
  let ?F = "file_map (contents s) v (disk d)"
  have ok: "inode_ok (contents s) v (disk d)" using d(1) by (simp add: dir_ok_def)
  obtain data where data: "?F 0 = Some data" using d(1,2) by (auto simp: dir_ok_def)
  have ld: "length data = 4096" by (rule file_block_length [OF s L(1) ok data])
  have p0: "ptr_of (contents s) v (disk d) 0 = a" using a by (simp add: ptr_of_def diskfs_sizes)
  have a0: "a \<noteq> 0" using data p0 by (auto simp: file_map_def)
  have ua: "used (contents s) v a" using ptr_block [OF ok, of 0] p0 a0 by simp
  then have aD: "a < data_blocks v" by (simp add: used_def)
  obtain j where j: "find (\<lambda>j. item_named xs (get_item data j)) [0..<DISKFS_ITEMS_PER_BLOCK] = Some j"
    and ino: "unat (it_inumber (get_item data j)) = ino" and ty: "it_type (get_item data j) = DISKFS_ITEM_FILE"
    using e(1) d(2) data by (auto simp: dir_entry_def dir_item_def split: option.splits)
  have len: "unat (of_nat (length xs) :: u32) = length xs"
    using nm(2) by (intro unat_of_nat_eq) (simp add: DISKFS_NAME_MAX_def)
  obtain s1 where s1: "diskfs_inode_read (io tmp) v d tmp 0 s = Some (4096, data, s1)" "ok s1" "contents s1 = contents s"
    using inode_read_spec [OF s L(1) ok t data] by blast
  have f: "find_item data nm (length xs) [0..<DISKFS_ITEMS_PER_BLOCK] = Some (Some j)"
    using find_item_spec [OF nm ld, of "[0..<DISKFS_ITEMS_PER_BLOCK]"] j by simp
  let ?b = "data[32 * j + 4 := DISKFS_ITEM_BLANK]"
  obtain s2 where s2: "diskfs_data_block_write (io tmp) v ?b a s1 = Some (4096, s2)" "ok s2"
    "contents s2 = (contents s)(dloc v (unat a) := ?b)"
    using region_write(3) [OF s1(2) L(1), of ?b a tmp] aD ld s1(3) by auto
  have w: "diskfs_inode_write (io tmp) v d ?b 0 s1 = Some (4096, d, s2)"
    using s2(1) a a0 by (simp add: diskfs_inode_write_def inode_direct_def DISKFS_DIRECT_POINTERS_def)
  have bl: "contents s2 (bloc v 0) = contents s (bloc v 0)"
    using location_disjoint(3) [OF L(1), of 0 "unat a"] L(2) s2(3) by simp
  then have u2: "used (contents s2) v = used (contents s) v" by (simp add: used_def fun_eq_iff)
  obtain ps where ps: "direct (disk d) = a # ps"
    using ok a by (cases "direct (disk d)") (auto simp: inode_ok_def DISKFS_DIRECT_POINTERS_def)
  obtain s3 where s3: "diskfs_inode_delete (io tmp) v 4096 (disk d) ino s2 = Some s3" "ok s3"
    "contents s3 (bloc v 0) = clear_bit_at (unat a) (contents s (bloc v 0))"
    using inode_delete_spec [OF s2(2) L e(2) t _ a(2) ps d(3)] ua u2 bl by auto
  have lb: "length (contents s (bloc v 0)) = 4096" using region_length(1) [OF s L(1), of 0] L(2) by simp
  have "diskfs_dirent_remove (io tmp) v 4096 d nm s = Some (0, d, s3)"
    using strlen_cstr [OF nm(1)] len s1(1) f w s3(1) ino ty d(2)
    by (simp add: diskfs_dirent_remove_def Let_def DISKFS_ITEM_FILE_def DISKFS_ITEM_DIR_def)
  moreover have "used (contents s3) v b = (used (contents s) v b \<and> b \<noteq> a)" for b
    using a(2) lb by (auto simp: used_def s3(3) bit_set_set_bit)
  ultimately show ?thesis using s3(2) by blast
qed

end

section \<open>Properties\<close>

text \<open>Claim C26. In a directory with room, \<^verbatim>\<open>diskfs_dirent_add\<close> of a new name makes
  \<^verbatim>\<open>diskfs_dirent_lookup\<close> find it, with the inode number and type given, and every other name is
  looked up as before.\<close>

theorem diskfs_add_then_lookup:
  assumes "cached_ok dk N d 4096 s" "layout_ok v (N d)" "bitmap_blocks v = 1" "length tmp = 4096"
    "dir_ok (cached_block dk d s) v f" "is_cstr xs nm" "length xs \<le> DISKFS_NAME_MAX"
    "dir_entry (cached_block dk d s) v f xs = None" "inumber_ok v n" "n < 2 ^ 32" "ty \<noteq> DISKFS_ITEM_BLANK"
    "dir_find (file_map (cached_block dk d s) v (disk f)) (\<lambda>r. it_type r = DISKFS_ITEM_BLANK) [0..<dir_nblocks f] \<noteq> None"
  shows "\<exists>f' s'. diskfs_dirent_add (cache_io d g tmp) v f nm ty n s = Some (0, f', s') \<and> cached_ok dk N d 4096 s' \<and>
    dir_ok (cached_block dk d s') v f' \<and>
    (\<forall>ys nm'. is_cstr ys nm' \<and> length ys \<le> DISKFS_NAME_MAX \<and>
        (\<forall>e. dir_entry (cached_block dk d s) v f ys = Some e \<longrightarrow> inumber_ok v (fst e)) \<longrightarrow>
      (\<exists>s''. diskfs_dirent_lookup (cache_io d g tmp) v f' nm' s' =
        Some (map_option (\<lambda>(ino, ty). dirent_of (inode_at (cached_block dk d s') v ino) ino ty)
          (if ys = xs then Some (n, ty) else dir_entry (cached_block dk d s) v f ys), s'')))"
proof -
  obtain f' s' where a: "diskfs_dirent_add (cache_io d g tmp) v f nm ty n s = Some (0, f', s')" "cached_ok dk N d 4096 s'"
    "dir_ok (cached_block dk d s') v f'"
    "\<forall>ys. length ys \<le> DISKFS_NAME_MAX \<longrightarrow>
      dir_entry (cached_block dk d s') v f' ys = (if ys = xs then Some (n, ty) else dir_entry (cached_block dk d s) v f ys)"
    using cached_disk.add_spec [OF assms(1-8,10-12), of g] unfolding cache_io_def by blast
  have "\<exists>s''. diskfs_dirent_lookup (cache_io d g tmp) v f' nm' s' =
        Some (map_option (\<lambda>(ino, ty). dirent_of (inode_at (cached_block dk d s') v ino) ino ty)
          (if ys = xs then Some (n, ty) else dir_entry (cached_block dk d s) v f ys), s'')"
    if y: "is_cstr ys nm'" "length ys \<le> DISKFS_NAME_MAX"
      "\<forall>e. dir_entry (cached_block dk d s) v f ys = Some e \<longrightarrow> inumber_ok v (fst e)" for ys nm'
  proof -
    have e: "dir_entry (cached_block dk d s') v f' ys = (if ys = xs then Some (n, ty) else dir_entry (cached_block dk d s) v f ys)"
      using a(4) y(2) by blast
    have "\<forall>e. dir_entry (cached_block dk d s') v f' ys = Some e \<longrightarrow> inumber_ok v (fst e)"
      unfolding e using y(3) assms(9) by auto
    from cached_disk.lookup_spec [OF a(2) assms(2,4) a(3) y(1,2) this, of g] show ?thesis
      unfolding e cache_io_def by blast
  qed
  with a(1-3) show ?thesis by blast
qed

lemma disk_dloc: "dloc disk_volume_sb n = int n + 3"
  by (simp add: dloc_def disk_volume_sb_def)

lemma disk_file_map: "file_map (cached_block disk7 7 (disk_cache h)) disk_volume_sb (disk disk_file) =
    [0 \<mapsto> take 4096 (h 4 @ replicate 4096 0)]"
  by (auto simp: file_map_def disk_ptr fun_eq_iff disk_contents disk_dloc)

lemma disk_dir_nblocks: "dir_nblocks disk_file = 1"
  by (simp add: dir_nblocks_def disk_file_def DISKFS_BLOCK_SIZE_def)

lemma disk_dir_ok: "h 2 = [2] \<Longrightarrow> dir_ok (cached_block disk7 7 (disk_cache h)) disk_volume_sb disk_file"
  using disk_inode_ok [of h]
  by (simp add: dir_ok_def disk_file_map disk_file_simps inumber_ok_def disk_dir_nblocks)
    (simp add: disk_volume_sb_def)

lemma blank_item: "j < DISKFS_ITEMS_PER_BLOCK \<Longrightarrow> it_type (get_item (replicate 4096 0) j) = DISKFS_ITEM_BLANK"
  by (simp add: get_item_def diskfs_sizes DISKFS_ITEM_BLANK_def)

theorem diskfs_add_then_lookup_witness:
  "\<exists>f' s' s'' t. diskfs_dirent_add (cache_io 7 0 (replicate 4096 0)) disk_volume_sb disk_file [97, 0] DISKFS_ITEM_FILE 5
      (disk_cache disk_blocks) = Some (0, f', s') \<and>
    diskfs_dirent_lookup (cache_io 7 0 (replicate 4096 0)) disk_volume_sb f' [97, 0] s' = Some (Some t, s'') \<and> inumber t = 5"
proof -
  let ?c = "cached_block disk7 7 (disk_cache disk_blocks)"
  have none: "dir_entry ?c disk_volume_sb disk_file xs = None" for xs
    unfolding dir_entry_def disk_file_map disk_dir_nblocks option.map_disc_iff dir_find_None
    using blank_item by (simp add: item_named_def disk_blocks_def)
  have room: "dir_find (file_map ?c disk_volume_sb (disk disk_file)) (\<lambda>r. it_type r = DISKFS_ITEM_BLANK) [0..<dir_nblocks disk_file] \<noteq> None"
    unfolding disk_file_map disk_dir_nblocks not_None_eq dir_find_None
    using blank_item [of 0] by (auto simp: diskfs_sizes disk_blocks_def simp flip: not_None_eq intro: exI [of _ 0])
  have c: "is_cstr [97] [97, 0 :: u8]" "length [97 :: u8] \<le> DISKFS_NAME_MAX" "length (replicate 4096 (0 :: u8)) = 4096"
    by (simp_all add: is_cstr_def DISKFS_NAME_MAX_def)
  have v: "bitmap_blocks disk_volume_sb = 1" "inumber_ok disk_volume_sb 5" "DISKFS_ITEM_FILE \<noteq> DISKFS_ITEM_BLANK"
    by (simp_all add: disk_volume_sb_def inumber_ok_def DISKFS_ITEM_FILE_def DISKFS_ITEM_BLANK_def)
  obtain f' s' where a: "diskfs_dirent_add (cache_io 7 0 (replicate 4096 0)) disk_volume_sb disk_file [97, 0] DISKFS_ITEM_FILE 5
      (disk_cache disk_blocks) = Some (0, f', s')"
    and l: "\<forall>ys nm'. is_cstr ys nm' \<and> length ys \<le> DISKFS_NAME_MAX \<and>
        (\<forall>e. dir_entry ?c disk_volume_sb disk_file ys = Some e \<longrightarrow> inumber_ok disk_volume_sb (fst e)) \<longrightarrow>
      (\<exists>s''. diskfs_dirent_lookup (cache_io 7 0 (replicate 4096 0)) disk_volume_sb f' nm' s' =
        Some (map_option (\<lambda>(ino, ty). dirent_of (inode_at (cached_block disk7 7 s') disk_volume_sb ino) ino ty)
          (if ys = [97] then Some (5, DISKFS_ITEM_FILE) else dir_entry ?c disk_volume_sb disk_file ys), s''))"
    using diskfs_add_then_lookup [OF disk_cached_ok disk_layout_ok v(1) c(3) disk_dir_ok [of disk_blocks, OF disk_blocks_2] c(1,2) none v(2) _ v(3) room, of 0]
    by auto
  have "\<exists>s''. diskfs_dirent_lookup (cache_io 7 0 (replicate 4096 0)) disk_volume_sb f' [97, 0] s' =
      Some (Some (dirent_of (inode_at (cached_block disk7 7 s') disk_volume_sb 5) 5 DISKFS_ITEM_FILE), s'')"
    using l [rule_format, of "[97]" "[97, 0]"] c(1,2) none by simp
  with a show ?thesis by (auto simp: dirent_of_def)
qed

text \<open>Claim C27. \<^verbatim>\<open>diskfs_dirent_remove\<close> of a file from a directory of one block frees the
  directory's own block, which the directory goes on using, and keeps every block of the file
  in use: it passes the inode of the directory where the one of the file is meant.\<close>

theorem diskfs_remove_frees_directory_block:
  assumes "cached_ok dk N d 4096 s" "layout_ok v (N d)" "bitmap_blocks v = 1" "length tmp = 4096"
    "dir_ok (cached_block dk d s) v f" "dir_nblocks f = 1" "isize (disk f) \<le> 4096"
    "is_cstr xs nm" "length xs \<le> DISKFS_NAME_MAX"
    "dir_entry (cached_block dk d s) v f xs = Some (ino, DISKFS_ITEM_FILE)" "inumber_ok v ino"
    "direct (disk f) ! 0 = a" "unat a < 4096"
  shows "\<exists>s'. diskfs_dirent_remove (cache_io d g tmp) v 4096 f nm s = Some (0, f, s') \<and>
    (\<forall>b. used (cached_block dk d s') v b = (used (cached_block dk d s) v b \<and> b \<noteq> direct (disk f) ! 0))"
  using cached_disk.remove_spec [OF assms, of g] assms(12) unfolding cache_io_def by blast

definition disk_blocks_a :: "int \<Rightarrow> buf" where
  "disk_blocks_a b = (if b = 2 then [2] else if b = 4 then [5, 0, 0, 0, 1, 1, 97] else [])"

theorem diskfs_remove_frees_directory_block_witness:
  "\<exists>s'. diskfs_dirent_remove (cache_io 7 0 (replicate 4096 0)) disk_volume_sb 4096 disk_file [97, 0] (disk_cache disk_blocks_a) =
      Some (0, disk_file, s') \<and> \<not> used (cached_block disk7 7 s') disk_volume_sb 1"
proof -
  let ?c = "cached_block disk7 7 (disk_cache disk_blocks_a)"
  let ?b = "[5, 0, 0, 0, 1, 1, 97] @ replicate 4089 (0 :: u8)"
  have b2: "disk_blocks_a 2 = [2]" by (simp add: disk_blocks_a_def)
  have F: "file_map ?c disk_volume_sb (disk disk_file) = [0 \<mapsto> ?b]"
    by (simp add: disk_file_map disk_blocks_a_def take_Cons')
  have n0: "item_named [97] (get_item ?b 0)"
    by (simp add: item_named_def get_item_def DISKFS_ITEM_BLANK_def)
  have "dir_find [0 \<mapsto> ?b] (item_named [97]) [0..<1] = Some (0, 0)"
  proof -
    have "[0..<DISKFS_ITEMS_PER_BLOCK] = 0 # [1..<DISKFS_ITEMS_PER_BLOCK]"
      by (simp add: upt_conv_Cons diskfs_sizes del: upt_rec_numeral)
    then show ?thesis using n0 by simp
  qed
  then have e: "dir_entry ?c disk_volume_sb disk_file [97] = Some (5, DISKFS_ITEM_FILE)"
    unfolding dir_entry_def disk_dir_nblocks F
    by (simp add: dir_item_def get_item_def le32_def DISKFS_ITEM_FILE_def)
  have c: "is_cstr [97] [97, 0 :: u8]" "length [97 :: u8] \<le> DISKFS_NAME_MAX" "length (replicate 4096 (0 :: u8)) = 4096"
    by (simp_all add: is_cstr_def DISKFS_NAME_MAX_def)
  have v: "bitmap_blocks disk_volume_sb = 1" "inumber_ok disk_volume_sb 5" "isize (disk disk_file) \<le> 4096"
    "direct (disk disk_file) ! 0 = 1" "unat (1 :: u32) < 4096"
    by (simp_all add: disk_volume_sb_def inumber_ok_def disk_file_def)
  show ?thesis
    using diskfs_remove_frees_directory_block [OF disk_cached_ok disk_layout_ok v(1) c(3) disk_dir_ok [of disk_blocks_a, OF b2]
        disk_dir_nblocks v(3) c(1,2) e v(2,4,5), of 0] v(4) by auto
qed

end
