(* ===== verification/Diskfs_Volume.thy ===== *)
theory Diskfs_Volume
  imports Diskfs_Dir
begin

text \<open>
  The volume that \<^verbatim>\<open>diskfs_volume_format\<close> of \<^verbatim>\<open>kernel/diskfs.c\<close> makes, as
  \<^verbatim>\<open>diskfs_volume_open\<close> and \<^verbatim>\<open>diskfs_volume_root\<close> find it.
\<close>

section \<open>The layout\<close>

text \<open>The numbers of blocks of the layout for a device of \<open>n\<close> blocks.\<close>

lemma format_layout_fields:
  assumes "64 \<le> n" "n < 2 ^ 31"
  shows "inode_start (format_layout (int n)) = 1" "inode_blocks (format_layout (int n)) = 28"
    "bitmap_start (format_layout (int n)) = 29"
    "unat (bitmap_blocks (format_layout (int n))) = 1 + (n - 28) div 32768"
    "unat (data_start (format_layout (int n))) = 30 + (n - 28) div 32768"
    "unat (data_blocks (format_layout (int n))) = n - 29 - (n - 28) div 32768"
    "magic (format_layout (int n)) = DISKFS_MAGIC"
proof -
  have m: "(n - 28) div 32768 < 65536" using assms by auto
  have w: "(word_of_int (int n) - 28 :: u32) = of_nat (n - 28)" using assms by (simp add: of_nat_diff)
  have un: "unat (of_nat k :: u32) = k" if "k < 2 ^ 31" for k using that by (intro unat_of_nat_eq) simp
  have u28: "unat (of_nat (n - 28) :: u32) = n - 28" using un [of "n - 28"] assms by simp
  have "int (unat (of_nat (n - 28) :: u32)) < 2147483648" unfolding u28 using assms by simp
  from sint_word32 [OF this] have s: "sint (of_nat (n - 28) :: u32) = int (n - 28)" by (simp only: u28)
  have b: "(1 + word_of_int (c_div (int k) (int DISKFS_BLOCK_SIZE * 8)) :: u32) = of_nat (1 + k div 32768)" for k
  proof -
    have "c_div (int k) (int DISKFS_BLOCK_SIZE * 8) = int (k div 32768)" by (simp add: DISKFS_BLOCK_SIZE_def zdiv_int)
    then show ?thesis by simp
  qed
  have q: "(1024 div 36 :: u32) = 28" by simp
  note f = format_layout_def Let_def q w s b
  show "inode_start (format_layout (int n)) = 1" "inode_blocks (format_layout (int n)) = 28"
    "bitmap_start (format_layout (int n)) = 29" "magic (format_layout (int n)) = DISKFS_MAGIC"
    by (simp_all add: format_layout_def Let_def)
  show "unat (bitmap_blocks (format_layout (int n))) = 1 + (n - 28) div 32768"
  proof -
    have "unat (of_nat (1 + (n - 28) div 32768) :: u32) = 1 + (n - 28) div 32768" by (rule un) (use m in simp)
    then show ?thesis by (simp only: f diskfs_superblock.simps)
  qed
  show "unat (data_start (format_layout (int n))) = 30 + (n - 28) div 32768"
  proof -
    have "(1 + 28 + of_nat (1 + (n - 28) div 32768) :: u32) = of_nat (30 + (n - 28) div 32768)" by simp
    moreover have "unat (of_nat (30 + (n - 28) div 32768) :: u32) = 30 + (n - 28) div 32768" by (rule un) (use m in simp)
    ultimately show ?thesis by (simp only: f diskfs_superblock.simps)
  qed
  have "(of_nat (n - 28) - of_nat (1 + (n - 28) div 32768) :: u32) = of_nat (n - 28 - (1 + (n - 28) div 32768))"
    using assms by (intro of_nat_diff [symmetric]) auto
  moreover have "unat (of_nat (n - 28 - (1 + (n - 28) div 32768)) :: u32) = n - 28 - (1 + (n - 28) div 32768)"
    by (rule un) (use assms in simp)
  ultimately have "unat (data_blocks (format_layout (int n))) = n - 28 - (1 + (n - 28) div 32768)"
    by (simp only: f diskfs_superblock.simps)
  then show "unat (data_blocks (format_layout (int n))) = n - 29 - (n - 28) div 32768" by simp
qed

text \<open>The layout is one block longer than the device: its last data block does not exist.\<close>

lemma format_layout_overrun:
  assumes "64 \<le> n" "n < 2 ^ 31"
  shows "unat (data_start (format_layout (int n))) + unat (data_blocks (format_layout (int n))) = n + 1"
proof -
  have "(n - 28) div 32768 \<le> n - 29" using assms by auto
  then show ?thesis unfolding format_layout_fields [OF assms] using assms by simp
qed

section \<open>Formatting\<close>

context disk_volume
begin

lemma write_blocks_spec:
  "ok s \<Longrightarrow> \<forall>n \<in> set ns. 0 \<le> sint n \<and> sint n < total \<Longrightarrow> length b = 4096 \<Longrightarrow>
    \<exists>s'. write_blocks (io tmp) b ns s = Some s' \<and> ok s' \<and>
      contents s' = (\<lambda>a. if a \<in> sint ` set ns then b else contents s a)"
proof (induction ns arbitrary: s)
  case (Cons n ns)
  obtain s1 where s1: "diskfs_block_write (io tmp) b n s = Some (4096, s1)" "ok s1" "contents s1 = (contents s)(sint n := b)"
    using block_write [OF Cons.prems(1) _ _ Cons.prems(3), of n] Cons.prems(2) by auto
  obtain s2 where "write_blocks (io tmp) b ns s1 = Some s2" "ok s2"
    "contents s2 = (\<lambda>a. if a \<in> sint ` set ns then b else contents s1 a)"
    using Cons.IH [OF s1(2) _ Cons.prems(3)] Cons.prems(2) by auto
  then show ?case using s1 by (auto simp: fun_eq_iff)
qed auto

lemma block_write_at:
  assumes "ok s" "unat n < k" "int k \<le> total" "k \<le> 2147483648" "length b = 4096"
  shows "\<exists>s'. diskfs_block_write (io tmp) b n s = Some (4096, s') \<and> ok s' \<and> contents s' = (contents s)(int (unat n) := b)"
proof -
  have "int (unat n) < 2147483648" using assms(2,4) by linarith
  then have "sint n = int (unat n)" by (rule sint_word32)
  moreover have "int (unat n) < total" using assms(2,3) by linarith
  ultimately show ?thesis using block_write [OF assms(1) _ _ assms(5), of n tmp] by simp
qed

lemma write_region:
  assumes s: "ok s" and a: "unat a + k \<le> n" and n: "int n \<le> total" "n \<le> 2147483648" and b: "length b = 4096"
  shows "\<exists>s'. write_blocks (io tmp) b (map (\<lambda>i. a + of_nat i) (rev [0..<k])) s = Some s' \<and> ok s' \<and>
    contents s' = (\<lambda>x. if int (unat a) \<le> x \<and> x < int (unat a + k) then b else contents s x)"
proof -
  have at: "sint (a + of_nat i) = int (unat a + i)" if "i < k" for i
  proof -
    have u: "unat (of_nat i :: u32) = i" using that a n(2) by (intro unat_of_nat_eq) simp
    have "int (unat a) + int i < 2147483648" using that a n(2) by linarith
    then show ?thesis using sint_add32 [of a "of_nat i"] unfolding u by blast
  qed
  have r: "sint ` set (map (\<lambda>i. a + of_nat i) (rev [0..<k])) = (\<lambda>i. int (unat a + i)) ` {0..<k}"
    using at by (simp add: image_image cong: image_cong_simp)
  have m: "x \<in> (\<lambda>i. int (unat a + i)) ` {0..<k} \<longleftrightarrow> int (unat a) \<le> x \<and> x < int (unat a + k)" for x
  proof
    assume h: "int (unat a) \<le> x \<and> x < int (unat a + k)"
    then have "x = int (unat a + nat (x - int (unat a)))" "nat (x - int (unat a)) \<in> {0..<k}" by auto
    then show "x \<in> (\<lambda>i. int (unat a + i)) ` {0..<k}" by blast
  qed auto
  have "\<forall>w \<in> set (map (\<lambda>i. a + of_nat i) (rev [0..<k])). 0 \<le> sint w \<and> sint w < total"
  proof
    fix w assume "w \<in> set (map (\<lambda>i. a + of_nat i) (rev [0..<k]))"
    then obtain i where i: "i < k" "w = a + of_nat i" by auto
    have "sint w = int (unat a + i)" using at [OF i(1)] i(2) by simp
    moreover have "int (unat a + i) < total" using i(1) a n(1) by linarith
    ultimately show "0 \<le> sint w \<and> sint w < total" by (metis of_nat_0_le_iff)
  qed
  from write_blocks_spec [OF s this b, of tmp] show ?thesis unfolding r m .
qed

end

definition root_inode :: diskfs_inode where
  "root_inode = \<lparr>inuse = 1, isize = 32, direct = 1 # replicate 5 0, indirect = 0\<rparr>"

lemma root_inode_simps: "length (direct root_inode) = DISKFS_DIRECT_POINTERS" "indirect root_inode = 0" "isize root_inode = 32"
  "direct root_inode ! 0 = 1"
  by (simp_all add: root_inode_def DISKFS_DIRECT_POINTERS_def)

context disk_volume
begin

lemma format_spec:
  assumes s: "ok s" and n: "64 \<le> n" "n < 2 ^ 31" "int n \<le> total" and zero: "zero = replicate 4096 0"
    and v: "v = format_layout (int n)"
  shows "\<exists>s'. diskfs_volume_format (io tmp) (int n) s = Some s' \<and> ok s' \<and>
    contents s' 0 = put_superblock v zero \<and> contents s' (bloc v 0) = zero[0 := 3] \<and>
    contents s' (iloc v 0) = put_inode 0 root_inode zero \<and>
    contents s' (dloc v 1) = put_item 0 0 DISKFS_ITEM_DIR [46] zero"
proof -
  note L = format_layout_fields [OF n(1,2), folded v]
  have m: "(n - 28) div 32768 < 65536" "31 + (n - 28) div 32768 < n" using n by auto
  have ub: "unat (bitmap_start v) = 29" "unat (inode_start v) = 1" "unat (inode_blocks v) = 28" using L by simp_all
  have ud: "unat (data_start v + 1) = 31 + (n - 28) div 32768"
    using L(5) m by (subst unat_plus_if') auto
  have z: "length zero = 4096" "length (put_superblock v zero) = 4096" "length (zero[0 := 3]) = 4096"
    "length (put_inode 0 root_inode zero) = 4096" "length (put_item 0 0 DISKFS_ITEM_DIR [46] zero) = 4096"
    using zero by (simp_all add: put_item_def put_bytes_def)
  have nn: "n \<le> 2147483648" using n(2) by simp
  obtain s1 where s1: "diskfs_block_write (io tmp) (put_superblock v zero) 0 s = Some (4096, s1)" "ok s1"
    "contents s1 = (contents s)(0 := put_superblock v zero)"
    using block_write_at [OF s _ n(3) nn z(2), of 0 tmp] n(1) by auto
  obtain s2 where s2: "write_blocks (io tmp) zero (map (\<lambda>i. inode_start v + of_nat i) (rev [0..<28])) s1 = Some s2" "ok s2"
    "contents s2 = (\<lambda>x. if 1 \<le> x \<and> x < 29 then zero else contents s1 x)"
    using write_region [OF s1(2) _ n(3) nn z(1), of "inode_start v" 28 tmp] ub n(1) by auto
  obtain s3 where s3: "write_blocks (io tmp) zero (map (\<lambda>i. bitmap_start v + of_nat i) (rev [0..<unat (bitmap_blocks v)])) s2 = Some s3" "ok s3"
    "contents s3 = (\<lambda>x. if 29 \<le> x \<and> x < int (29 + unat (bitmap_blocks v)) then zero else contents s2 x)"
    using write_region [OF s2(2) _ n(3) nn z(1), of "bitmap_start v" "unat (bitmap_blocks v)" tmp] ub(1) L(4) m by auto
  obtain s4 where s4: "diskfs_block_write (io tmp) (zero[0 := 3]) (bitmap_start v) s3 = Some (4096, s4)" "ok s4"
    "contents s4 = (contents s3)(29 := zero[0 := 3])"
    using block_write_at [OF s3(2) _ n(3) nn z(3), of "bitmap_start v" tmp] ub(1) n(1) by auto
  obtain s5 where s5: "diskfs_block_write (io tmp) (put_inode 0 root_inode zero) (inode_start v) s4 = Some (4096, s5)" "ok s5"
    "contents s5 = (contents s4)(1 := put_inode 0 root_inode zero)"
    using block_write_at [OF s4(2) _ n(3) nn z(4), of "inode_start v" tmp] ub(2) n(1) by auto
  let ?d = "31 + (n - 28) div 32768"
  obtain s6 where s6: "diskfs_block_write (io tmp) (put_item 0 0 DISKFS_ITEM_DIR [46] zero) (data_start v + 1) s5 = Some (4096, s6)"
    "ok s6" "contents s6 = (contents s5)(int ?d := put_item 0 0 DISKFS_ITEM_DIR [46] zero)"
    using block_write_at [OF s5(2) _ n(3) nn z(5), of "data_start v + 1" tmp] m(2) unfolding ud by blast
  obtain s7 where s7: "fl s6 = Some s7" "ok s7" "contents s7 = contents s6" using fl_ok [OF s6(2)] by blast
  have run: "diskfs_volume_format (io tmp) (int n) s = Some s7"
    using s1(1) s2(1) s3(1) s4(1) s5(1) s6(1) s7(1) ub(3)
    by (simp add: diskfs_volume_format_def v [symmetric] Let_def DISKFS_BLOCK_SIZE_def zero [symmetric]
        root_inode_def [symmetric])
  have "contents s7 0 = put_superblock v zero"
    by (simp add: s7(3) s6(3) s5(3) s4(3) s3(3) s2(3) s1(3))
  moreover have "contents s7 (bloc v 0) = zero[0 := 3]"
    by (simp add: s7(3) s6(3) s5(3) s4(3) bloc_def ub)
  moreover have "contents s7 (iloc v 0) = put_inode 0 root_inode zero"
    by (simp add: s7(3) s6(3) s5(3) iloc_def ub)
  moreover have "contents s7 (dloc v 1) = put_item 0 0 DISKFS_ITEM_DIR [46] zero"
  proof -
    have "dloc v 1 = int ?d" by (simp only: dloc_def L(5) unat_1)
    then show ?thesis by (simp add: s7(3) s6(3))
  qed
  ultimately show ?thesis using run s7(2) by blast
qed

end

text \<open>The root directory of a fresh volume.\<close>

lemma root_directory:
  assumes n: "64 \<le> n" "n < 2 ^ 31" and v: "v = format_layout (int n)" and z: "zero = replicate 4096 (0 :: u8)"
    and c: "c (bloc v 0) = zero[0 := 3]" "c (iloc v 0) = put_inode 0 root_inode zero"
      "c (dloc v 1) = put_item 0 0 DISKFS_ITEM_DIR [46] zero"
  shows "inode_at c v 0 = root_inode" "dir_ok c v (dirent_of root_inode 0 DISKFS_ITEM_DIR)"
    "dir_entry c v (dirent_of root_inode 0 DISKFS_ITEM_DIR) [46] = Some (0, DISKFS_ITEM_DIR)"
proof -
  note L = format_layout_fields [OF n, folded v]
  let ?d = "dirent_of root_inode 0 DISKFS_ITEM_DIR"
  have len: "length zero = 4096" using z by simp
  show "inode_at c v 0 = root_inode"
    using len by (simp add: inode_at_def c(2) get_put_inode root_inode_simps DISKFS_BLOCK_SIZE_def)
  have p: "ptr_of c v root_inode k = (if k = 0 then 1 else 0)" for k
    by (auto simp: ptr_of_def root_inode_def DISKFS_DIRECT_POINTERS_def nth_Cons')
  have "1 < data_blocks v" using L(6) n by (simp add: word_less_nat_alt)
  moreover have "bit_set (zero[0 := 3]) 1" using len by (simp add: bit_set_def bit_numeral_word_iff)
  ultimately have u: "used c v 1" by (simp add: used_def c(1) DISKFS_BLOCK_SIZE_def)
  then have ok: "inode_ok c v root_inode"
    by (auto simp: inode_ok_def p file_blocks_def root_inode_simps split: if_splits)
  have F: "file_map c v root_inode = [0 \<mapsto> put_item 0 0 DISKFS_ITEM_DIR [46] zero]"
    by (auto simp: file_map_def p fun_eq_iff c(3) [simplified])
  have nb: "dir_nblocks ?d = 1" "disk ?d = root_inode" "inumber ?d = 0"
    by (simp_all add: dir_nblocks_def dirent_of_def root_inode_simps DISKFS_BLOCK_SIZE_def)
  show "dir_ok c v ?d" using ok L(2) by (simp add: dir_ok_def nb F inumber_ok_def)
  let ?b = "put_item 0 0 DISKFS_ITEM_DIR [46] zero"
  have nm: "item_named [46] (get_item ?b 0)" "it_inumber (get_item ?b 0) = 0" "it_type (get_item ?b 0) = DISKFS_ITEM_DIR"
    using get_put_item [OF len, of 0 "[46]"] by (simp_all add: diskfs_sizes DISKFS_ITEM_DIR_def DISKFS_ITEM_BLANK_def)
  have "[0..<DISKFS_ITEMS_PER_BLOCK] = 0 # [1..<DISKFS_ITEMS_PER_BLOCK]"
    by (simp add: upt_conv_Cons diskfs_sizes del: upt_rec_numeral)
  then have "dir_find [0 \<mapsto> ?b] (item_named [46]) [0..<1] = Some (0, 0)" using nm by simp
  then show "dir_entry c v ?d [46] = Some (0, DISKFS_ITEM_DIR)"
    unfolding dir_entry_def nb F by (simp add: dir_item_def nm)
qed

section \<open>Properties\<close>

text \<open>Claim C28. A device formatted by \<^verbatim>\<open>diskfs_volume_format\<close> is opened as the layout computed from
  its size, whose regions follow one another but end one block past the device, and its root
  directory is well formed and contains the name dot, for itself.\<close>

theorem diskfs_format_then_open:
  assumes "cached_ok dk N d 4096 s" "64 \<le> n" "n < 2 ^ 31" "int n \<le> N d" "length tmp = 4096" "v = format_layout (int n)"
  shows "\<exists>s' s''. diskfs_volume_format (cache_io d g tmp) (int n) s = Some s' \<and> cached_ok dk N d 4096 s' \<and>
    diskfs_volume_open (cache_io d g tmp) s' = Some (Some v, s'') \<and>
    unat (data_start v) + unat (data_blocks v) = n + 1 \<and>
    inode_at (cached_block dk d s') v 0 = root_inode \<and>
    dir_ok (cached_block dk d s') v (dirent_of root_inode 0 DISKFS_ITEM_DIR) \<and>
    dir_entry (cached_block dk d s') v (dirent_of root_inode 0 DISKFS_ITEM_DIR) [46] = Some (0, DISKFS_ITEM_DIR)"
proof -
  obtain s' where s': "diskfs_volume_format (cache_io d g tmp) (int n) s = Some s'" "cached_ok dk N d 4096 s'"
    "cached_block dk d s' 0 = put_superblock v (replicate 4096 0)" "cached_block dk d s' (bloc v 0) = (replicate 4096 0)[0 := 3]"
    "cached_block dk d s' (iloc v 0) = put_inode 0 root_inode (replicate 4096 0)"
    "cached_block dk d s' (dloc v 1) = put_item 0 0 DISKFS_ITEM_DIR [46] (replicate 4096 0)"
    using cached_disk.format_spec [OF assms(1-4) refl assms(6), of g tmp] unfolding cache_io_def by blast
  have "sint (0 :: u32) < N d" using assms(2,4) by simp
  then obtain s'' where "diskfs_block_read (cache_io d g tmp) tmp 0 s' = Some (4096, cached_block dk d s' 0, s'')"
    using cached_disk.block_read [OF s'(2) _ _ assms(5), of 0 g tmp] unfolding cache_io_def by auto
  moreover have "get_superblock (cached_block dk d s' 0) = v"
    unfolding s'(3) by (rule get_put_superblock) (simp add: DISKFS_BLOCK_SIZE_def)
  moreover have "magic v = DISKFS_MAGIC" using format_layout_fields(7) [OF assms(2,3)] assms(6) by simp
  ultimately have "diskfs_volume_open (cache_io d g tmp) s' = Some (Some v, s'')"
    by (simp add: diskfs_volume_open_def cache_io_def Let_def)
  then show ?thesis
    using s'(1,2) format_layout_overrun [OF assms(2,3)] root_directory [OF assms(2,3,6) refl s'(4-6)] assms(6) by blast
qed

theorem diskfs_format_then_open_witness:
  "\<exists>s' s''. diskfs_volume_format (cache_io 7 0 (replicate 4096 0)) 64 (disk_cache disk_blocks) = Some s' \<and>
     diskfs_volume_open (cache_io 7 0 (replicate 4096 0)) s' = Some (Some (format_layout 64), s'')"
  using diskfs_format_then_open [OF disk_cached_ok [of 64 disk_blocks] _ _ _ _ refl, of 64 "replicate 4096 0" 0] by auto

end
