(* ===== verification/Vfs.thy ===== *)
theory Vfs
  imports Diskfs_Dir
begin

text \<open>
  The file system layer, \<^verbatim>\<open>kernel/fs.c\<close>: the list of file systems, volumes and directory entries
  with their reference counts, path traversal, and reading, writing and copying files in blocks.
  A file system is a table of operations, as \<^verbatim>\<open>struct fs_ops\<close>; a missing operation is \<open>None\<close>.
  The entries and volumes live at addresses of the state \<open>vfs\<close>, with the private data of the file
  system in \<open>vpriv\<close> and \<open>dpriv\<close>, and the buffer cache under them.  An operation that dereferences
  a null pointer or does not return is \<open>None\<close>.  Allocation of temporary buffers succeeds.
\<close>

section \<open>State\<close>

record 'v fs_volume =
  v_fs :: ptr
  v_device :: ptr
  v_block_size :: u32
  v_refcount :: int
  vpriv :: 'v

record 'p fs_dirent =
  d_volume :: ptr
  d_size :: u32
  d_inumber :: nat
  d_refcount :: int
  d_isdir :: bool
  dpriv :: 'p

record ('v, 'p, 'hw) vfs =
  volumes :: "ptr \<Rightarrow> 'v fs_volume"
  dirents :: "ptr \<Rightarrow> 'p fs_dirent"
  fs_list :: "ptr list"
  fs_name :: "ptr \<Rightarrow> buf"
  vfreed :: "ptr set"
  vcache :: "'hw bcache"

record 's fs_ops =
  op_volume_root :: "(ptr \<Rightarrow> 's \<Rightarrow> (ptr \<times> 's) option) option"
  op_volume_open :: "(ptr \<Rightarrow> 's \<Rightarrow> (ptr \<times> 's) option) option"
  op_volume_close :: "(ptr \<Rightarrow> 's \<Rightarrow> (int \<times> 's) option) option"
  op_volume_format :: "(ptr \<Rightarrow> 's \<Rightarrow> (int \<times> 's) option) option"
  op_lookup :: "(ptr \<Rightarrow> buf \<Rightarrow> 's \<Rightarrow> (ptr \<times> 's) option) option"
  op_mkdir :: "(ptr \<Rightarrow> buf \<Rightarrow> 's \<Rightarrow> (ptr \<times> 's) option) option"
  op_mkfile :: "(ptr \<Rightarrow> buf \<Rightarrow> 's \<Rightarrow> (ptr \<times> 's) option) option"
  op_read_block :: "(ptr \<Rightarrow> buf \<Rightarrow> u32 \<Rightarrow> 's \<Rightarrow> (int \<times> buf \<times> 's) option) option"
  op_write_block :: "(ptr \<Rightarrow> buf \<Rightarrow> u32 \<Rightarrow> 's \<Rightarrow> (int \<times> 's) option) option"
  op_list :: "(ptr \<Rightarrow> int \<Rightarrow> 's \<Rightarrow> (int \<times> buf \<times> 's) option) option"
  op_remove :: "(ptr \<Rightarrow> buf \<Rightarrow> 's \<Rightarrow> (int \<times> 's) option) option"
  op_resize :: "ptr \<Rightarrow> u32 \<Rightarrow> 's \<Rightarrow> (int \<times> 's) option"
  op_close :: "(ptr \<Rightarrow> 's \<Rightarrow> (int \<times> 's) option) option"

text \<open>The operation tables of the file systems, by their addresses.\<close>

type_synonym ('v, 'p, 'hw) optable = "ptr \<Rightarrow> ('v, 'p, 'hw) vfs fs_ops"

definition upd_volume :: "ptr \<Rightarrow> ('v fs_volume \<Rightarrow> 'v fs_volume) \<Rightarrow> ('v, 'p, 'hw) vfs \<Rightarrow> ('v, 'p, 'hw) vfs" where
  "upd_volume v f s = s\<lparr>volumes := (volumes s)(v := f (volumes s v))\<rparr>"

definition upd_dirent :: "ptr \<Rightarrow> ('p fs_dirent \<Rightarrow> 'p fs_dirent) \<Rightarrow> ('v, 'p, 'hw) vfs \<Rightarrow> ('v, 'p, 'hw) vfs" where
  "upd_dirent d f s = s\<lparr>dirents := (dirents s)(d := f (dirents s d))\<rparr>"

definition ops_of :: "('v, 'p, 'hw) optable \<Rightarrow> ('v, 'p, 'hw) vfs \<Rightarrow> ptr \<Rightarrow> ('v, 'p, 'hw) vfs fs_ops" where
  "ops_of T s d = T (v_fs (volumes s (d_volume (dirents s d))))"

section \<open>File systems and volumes\<close>

definition fs_register :: "ptr \<Rightarrow> ('v, 'p, 'hw) vfs \<Rightarrow> ('v, 'p, 'hw) vfs" where
  "fs_register f s = s\<lparr>fs_list := f # fs_list s\<rparr>"

fun fs_search :: "(ptr \<Rightarrow> buf) \<Rightarrow> buf \<Rightarrow> ptr list \<Rightarrow> ptr option" where
  "fs_search nm name [] = Some 0"
| "fs_search nm name (f # fs) = do { r \<leftarrow> strcmp name (nm f); if r = 0 then Some f else fs_search nm name fs }"

definition fs_lookup :: "buf \<Rightarrow> ('v, 'p, 'hw) vfs \<Rightarrow> ptr option" where
  "fs_lookup name s = fs_search (fs_name s) name (fs_list s)"

definition fs_volume_format :: "('v, 'p, 'hw) optable \<Rightarrow> ptr \<Rightarrow> ptr \<Rightarrow> ('v, 'p, 'hw) vfs \<Rightarrow> (int \<times> ('v, 'p, 'hw) vfs) option" where
  "fs_volume_format T f dev s =
     (case op_volume_format (T f) of None \<Rightarrow> Some (kerr KERROR_NOT_IMPLEMENTED, s) | Some op \<Rightarrow> op dev s)"

definition fs_volume_open :: "('v, 'p, 'hw) optable \<Rightarrow> ptr \<Rightarrow> ptr \<Rightarrow> ('v, 'p, 'hw) vfs \<Rightarrow> (ptr \<times> ('v, 'p, 'hw) vfs) option" where
  "fs_volume_open T f dev s =
     (case op_volume_open (T f) of None \<Rightarrow> Some (0, s)
      | Some op \<Rightarrow> do {
          (v, s) \<leftarrow> op dev s;
          if v \<noteq> 0 then do {
            let s = upd_volume v (\<lambda>x. x\<lparr>v_fs := f, v_device := dev\<rparr>) s;
            let s = s\<lparr>vcache := (vcache s)\<lparr>world := device_addref dev (world (vcache s))\<rparr>\<rparr>;
            Some (v, s)
          } else Some (v, s)
        })"

definition fs_volume_addref :: "ptr \<Rightarrow> ('v, 'p, 'hw) vfs \<Rightarrow> ('v, 'p, 'hw) vfs" where
  "fs_volume_addref v = upd_volume v (\<lambda>x. x\<lparr>v_refcount := v_refcount x + 1\<rparr>)"

definition fs_volume_close :: "('v, 'p, 'hw) optable \<Rightarrow> ptr \<Rightarrow> ('v, 'p, 'hw) vfs \<Rightarrow> (int \<times> ('v, 'p, 'hw) vfs) option" where
  "fs_volume_close T v s =
     (case op_volume_close (T (v_fs (volumes s v))) of None \<Rightarrow> Some (kerr KERROR_NOT_IMPLEMENTED, s)
      | Some op \<Rightarrow> do {
          let s = upd_volume v (\<lambda>x. x\<lparr>v_refcount := v_refcount x - 1\<rparr>) s;
          if v_refcount (volumes s v) = 0 then do {
            (r, s) \<leftarrow> op v s;
            c \<leftarrow> bcache_flush_device (v_device (volumes s v)) (vcache s);
            let c = c\<lparr>world := snd (device_close (v_device (volumes s v)) (world c))\<rparr>;
            Some (0, s\<lparr>vcache := c, vfreed := insert v (vfreed s)\<rparr>)
          } else Some (0, s)
        })"

definition fs_volume_root :: "('v, 'p, 'hw) optable \<Rightarrow> ptr \<Rightarrow> ('v, 'p, 'hw) vfs \<Rightarrow> (ptr \<times> ('v, 'p, 'hw) vfs) option" where
  "fs_volume_root T v s =
     (case op_volume_root (T (v_fs (volumes s v))) of None \<Rightarrow> Some (0, s)
      | Some op \<Rightarrow> do {
          (d, s) \<leftarrow> op v s;
          let s = fs_volume_addref v s;
          if d = 0 then None else Some (d, upd_dirent d (\<lambda>x. x\<lparr>d_volume := v\<rparr>) s)
        })"

section \<open>Directory entries\<close>

definition fs_dirent_list :: "('v, 'p, 'hw) optable \<Rightarrow> ptr \<Rightarrow> int \<Rightarrow> ('v, 'p, 'hw) vfs \<Rightarrow> (int \<times> buf \<times> ('v, 'p, 'hw) vfs) option" where
  "fs_dirent_list T d len s =
     (case op_list (ops_of T s d) of None \<Rightarrow> Some (kerr KERROR_NOT_IMPLEMENTED, [], s) | Some op \<Rightarrow> op d len s)"

definition fs_dirent_addref :: "ptr \<Rightarrow> ('v, 'p, 'hw) vfs \<Rightarrow> ptr \<times> ('v, 'p, 'hw) vfs" where
  "fs_dirent_addref d s = (d, upd_dirent d (\<lambda>x. x\<lparr>d_refcount := d_refcount x + 1\<rparr>) s)"

definition fs_dirent_lookup :: "('v, 'p, 'hw) optable \<Rightarrow> ptr \<Rightarrow> buf \<Rightarrow> ('v, 'p, 'hw) vfs \<Rightarrow> (ptr \<times> ('v, 'p, 'hw) vfs) option" where
  "fs_dirent_lookup T d name s =
     (case op_lookup (ops_of T s d) of None \<Rightarrow> Some (0, s)
      | Some op \<Rightarrow> do {
          r \<leftarrow> strcmp name [46, 0];
          if r = 0 then Some (fs_dirent_addref d s)
          else do {
            (n, s) \<leftarrow> op d name s;
            if n \<noteq> 0 then
              let v = d_volume (dirents s d); s = fs_volume_addref v s in
              Some (n, upd_dirent n (\<lambda>x. x\<lparr>d_volume := v\<rparr>) s)
            else Some (n, s)
          }
        })"

definition fs_dirent_close :: "('v, 'p, 'hw) optable \<Rightarrow> ptr \<Rightarrow> ('v, 'p, 'hw) vfs \<Rightarrow> (int \<times> ('v, 'p, 'hw) vfs) option" where
  "fs_dirent_close T d s =
     (case op_close (ops_of T s d) of None \<Rightarrow> Some (kerr KERROR_NOT_IMPLEMENTED, s)
      | Some op \<Rightarrow> do {
          let s = upd_dirent d (\<lambda>x. x\<lparr>d_refcount := d_refcount x - 1\<rparr>) s;
          if d_refcount (dirents s d) = 0 then do {
            (r, s) \<leftarrow> op d s;
            (r, s) \<leftarrow> fs_volume_close T (d_volume (dirents s d)) s;
            Some (0, s\<lparr>vfreed := insert d (vfreed s)\<rparr>)
          } else Some (0, s)
        })"

text \<open>
  The loop of \<^verbatim>\<open>fs_dirent_traverse\<close>; \<open>part\<close> is the word found and \<open>old\<close> the position
  \<^verbatim>\<open>strtok\<close> keeps.  Every call of \<^verbatim>\<open>strtok\<close> passes at least one character, so that the length
  of the path is enough fuel.
\<close>

fun traverse_loop :: "('v, 'p, 'hw) optable \<Rightarrow> nat \<Rightarrow> ptr \<Rightarrow> ptr \<Rightarrow> buf option \<Rightarrow> buf option \<Rightarrow> ('v, 'p, 'hw) vfs \<Rightarrow>
    (ptr \<times> ('v, 'p, 'hw) vfs) option" where
  "traverse_loop T fuel parent d None old s = Some (d, s)"
| "traverse_loop T 0 parent d (Some part) old s = None"
| "traverse_loop T (Suc fuel) parent d (Some part) old s = do {
     (n, s) \<leftarrow> fs_dirent_lookup T d part s;
     s \<leftarrow> (if d \<noteq> parent then do { (r, s) \<leftarrow> fs_dirent_close T d s; Some s } else Some s);
     if n = 0 then Some (0, s)
     else do {
       (part, old) \<leftarrow> strtok None [47, 0] old;
       traverse_loop T fuel parent n part old s
     }
   }"

definition fs_dirent_traverse :: "('v, 'p, 'hw) optable \<Rightarrow> ptr \<Rightarrow> buf \<Rightarrow> ('v, 'p, 'hw) vfs \<Rightarrow> (ptr \<times> ('v, 'p, 'hw) vfs) option" where
  "fs_dirent_traverse T parent path s =
     (if parent = 0 then Some (0, s)
      else do {
        len \<leftarrow> strlen path;
        lpath \<leftarrow> strcpy (replicate (unat len + 1) 0) path;
        (part, old) \<leftarrow> strtok (Some lpath) [47, 0] None;
        traverse_loop T (length path) parent parent part old s
      })"

definition fs_dirent_mkdir :: "('v, 'p, 'hw) optable \<Rightarrow> ptr \<Rightarrow> buf \<Rightarrow> ('v, 'p, 'hw) vfs \<Rightarrow> (ptr \<times> ('v, 'p, 'hw) vfs) option" where
  "fs_dirent_mkdir T d name s =
     (case op_mkdir (ops_of T s d) of None \<Rightarrow> Some (0, s)
      | Some op \<Rightarrow> do {
          (n, s) \<leftarrow> op d name s;
          if n \<noteq> 0 then
            let v = d_volume (dirents s d); s = fs_volume_addref v s in
            Some (n, upd_dirent n (\<lambda>x. x\<lparr>d_volume := v\<rparr>) s)
          else Some (0, s)
        })"

definition fs_dirent_mkfile :: "('v, 'p, 'hw) optable \<Rightarrow> ptr \<Rightarrow> buf \<Rightarrow> ('v, 'p, 'hw) vfs \<Rightarrow> (ptr \<times> ('v, 'p, 'hw) vfs) option" where
  "fs_dirent_mkfile T d name s =
     (case op_mkfile (ops_of T s d) of None \<Rightarrow> Some (0, s)
      | Some op \<Rightarrow> do {
          (n, s) \<leftarrow> op d name s;
          if n \<noteq> 0 then
            let v = d_volume (dirents s d); s = fs_volume_addref v s in
            Some (n, upd_dirent n (\<lambda>x. x\<lparr>d_volume := v\<rparr>) s)
          else Some (0, s)
        })"

definition fs_dirent_remove :: "('v, 'p, 'hw) optable \<Rightarrow> ptr \<Rightarrow> buf \<Rightarrow> ('v, 'p, 'hw) vfs \<Rightarrow> (int \<times> ('v, 'p, 'hw) vfs) option" where
  "fs_dirent_remove T d name s =
     (case op_remove (ops_of T s d) of None \<Rightarrow> Some (0, s) | Some op \<Rightarrow> op d name s)"

definition fs_dirent_size :: "ptr \<Rightarrow> ('v, 'p, 'hw) vfs \<Rightarrow> int" where
  "fs_dirent_size d s = sint (d_size (dirents s d))"

definition fs_dirent_isdir :: "ptr \<Rightarrow> ('v, 'p, 'hw) vfs \<Rightarrow> bool" where
  "fs_dirent_isdir d s = d_isdir (dirents s d)"

section \<open>Reading and writing\<close>

text \<open>
  The loops of \<^verbatim>\<open>fs_dirent_read\<close> and \<^verbatim>\<open>fs_dirent_write\<close>, over the block operation of the file.
  All the arithmetic is unsigned, as \<^verbatim>\<open>length\<close> and \<^verbatim>\<open>offset\<close> are.  \<open>buffer\<close> is the caller's
  buffer and \<open>tot\<close> the position in it; the result is the return value.  A block operation is
  given the part of the buffer it reads or stores.
\<close>

definition slice :: "nat \<Rightarrow> nat \<Rightarrow> buf \<Rightarrow> buf" where
  "slice i n b = take n (drop i b)"

definition fail_total :: "int \<Rightarrow> int" where
  "fail_total tot = (if tot = 0 then - 1 else tot)"

function fs_read_loop :: "(buf \<Rightarrow> u32 \<Rightarrow> 's \<Rightarrow> (int \<times> buf \<times> 's) option) \<Rightarrow> u32 \<Rightarrow> u32 \<Rightarrow> u32 \<Rightarrow> nat \<Rightarrow> buf \<Rightarrow> buf \<Rightarrow> 's \<Rightarrow>
    (int \<times> buf \<times> 's) option" where
  "fs_read_loop rd bs len off tot buffer temp s =
     (if len = 0 then Some (int tot, buffer, s)
      else if bs = 0 then None
      else if off mod bs \<noteq> 0 then do {
        (r, temp, s) \<leftarrow> rd temp (off div bs) s;
        if r \<noteq> sint bs then Some (fail_total (int tot), buffer, s)
        else let actual = min (bs - off mod bs) len in
          fs_read_loop rd bs (len - actual) (off + actual) (tot + unat actual)
            (put_bytes tot (slice (unat (off mod bs)) (unat actual) temp) buffer) temp s
      }
      else if len \<ge> bs then do {
        (r, blk, s) \<leftarrow> rd (slice tot (unat bs) buffer) (off div bs) s;
        if r \<noteq> sint bs then Some (fail_total (int tot), put_bytes tot blk buffer, s)
        else fs_read_loop rd bs (len - bs) (off + bs) (tot + unat bs) (put_bytes tot blk buffer) temp s
      }
      else do {
        (r, temp, s) \<leftarrow> rd temp (off div bs) s;
        if r \<noteq> sint bs then Some (fail_total (int tot), buffer, s)
        else Some (int (tot + unat len), put_bytes tot (slice 0 (unat len) temp) buffer, s)
      })"
  by pat_completeness auto

lemma block_part:
  assumes "(len :: u32) \<noteq> 0" "bs \<noteq> 0"
  shows "unat (len - min (bs - off mod bs) len) < unat len"
proof -
  have "off mod bs < bs" using assms(2) by (simp add: word_mod_less_divisor word_greater_zero_iff)
  then have "bs - off mod bs \<noteq> 0" by auto
  then have "min (bs - off mod bs) len \<noteq> 0" using assms(1) by (simp add: min_def)
  then have "0 < unat (min (bs - off mod bs) len)" "0 < unat len" using assms(1) by (simp_all only: unat_gt_0 not_False_eq_True)
  moreover have "min (bs - off mod bs) len \<le> len" by simp
  ultimately show ?thesis by (simp only: unat_sub diff_less)
qed

lemma block_whole: "(len :: u32) \<noteq> 0 \<Longrightarrow> bs \<noteq> 0 \<Longrightarrow> bs \<le> len \<Longrightarrow> unat (len - bs) < unat len"
  by (simp add: unat_sub unat_gt_0)

termination fs_read_loop
  by (relation "measure (\<lambda>(rd, bs, len, off, tot, buffer, temp, s). unat len)") (auto intro: block_part block_whole)

declare fs_read_loop.simps [simp del]

function fs_write_loop :: "(buf \<Rightarrow> u32 \<Rightarrow> 's \<Rightarrow> (int \<times> buf \<times> 's) option) \<Rightarrow> (buf \<Rightarrow> u32 \<Rightarrow> 's \<Rightarrow> (int \<times> 's) option) \<Rightarrow>
    u32 \<Rightarrow> u32 \<Rightarrow> u32 \<Rightarrow> nat \<Rightarrow> buf \<Rightarrow> buf \<Rightarrow> 's \<Rightarrow> (int \<times> 's) option" where
  "fs_write_loop rd wr bs len off tot buffer temp s =
     (if len = 0 then Some (int tot, s)
      else if bs = 0 then None
      else if off mod bs \<noteq> 0 then do {
        (r, temp, s) \<leftarrow> rd temp (off div bs) s;
        if r \<noteq> sint bs then Some (fail_total (int tot), s)
        else do {
          let actual = min (bs - off mod bs) len;
          let temp = put_bytes (unat (off mod bs)) (slice tot (unat actual) buffer) temp;
          (r, s) \<leftarrow> wr temp (off div bs) s;
          if r \<noteq> sint bs then Some (fail_total (int tot), s)
          else fs_write_loop rd wr bs (len - actual) (off + actual) (tot + unat actual) buffer temp s
        }
      }
      else if len \<ge> bs then do {
        (r, s) \<leftarrow> wr (slice tot (unat bs) buffer) (off div bs) s;
        if r \<noteq> sint bs then Some (fail_total (int tot), s)
        else fs_write_loop rd wr bs (len - bs) (off + bs) (tot + unat bs) buffer temp s
      }
      else do {
        (r, temp, s) \<leftarrow> rd temp (off div bs) s;
        if r \<noteq> sint bs then Some (fail_total (int tot), s)
        else do {
          let temp = put_bytes 0 (slice tot (unat len) buffer) temp;
          (r, s) \<leftarrow> wr temp (off div bs) s;
          if r \<noteq> sint bs then Some (fail_total (int tot), s)
          else Some (int (tot + unat len), s)
        }
      })"
  by pat_completeness auto

termination fs_write_loop
  by (relation "measure (\<lambda>(rd, wr, bs, len, off, tot, buffer, temp, s). unat len)") (auto intro: block_part block_whole)

declare fs_write_loop.simps [simp del]

text \<open>The operations; \<open>temp\<close> is the contents of the page they allocate.\<close>

definition fs_dirent_read :: "('v, 'p, 'hw) optable \<Rightarrow> buf \<Rightarrow> ptr \<Rightarrow> buf \<Rightarrow> u32 \<Rightarrow> u32 \<Rightarrow> ('v, 'p, 'hw) vfs \<Rightarrow>
    (int \<times> buf \<times> ('v, 'p, 'hw) vfs) option" where
  "fs_dirent_read T temp d buffer len off s =
     (let bs = v_block_size (volumes s (d_volume (dirents s d))) in
      case op_read_block (ops_of T s d) of
        None \<Rightarrow> Some (kerr KERROR_INVALID_REQUEST, buffer, s)
      | Some rd \<Rightarrow>
          if off > d_size (dirents s d) then Some (0, buffer, s)
          else let len = (if off + len > d_size (dirents s d) then d_size (dirents s d) - off else len) in
            fs_read_loop (rd d) bs len off 0 buffer temp s)"

definition fs_dirent_write :: "('v, 'p, 'hw) optable \<Rightarrow> buf \<Rightarrow> ptr \<Rightarrow> buf \<Rightarrow> u32 \<Rightarrow> u32 \<Rightarrow> ('v, 'p, 'hw) vfs \<Rightarrow>
    (int \<times> ('v, 'p, 'hw) vfs) option" where
  "fs_dirent_write T temp d buffer len off s =
     (let bs = v_block_size (volumes s (d_volume (dirents s d))); ops = ops_of T s d in
      case (op_write_block ops, op_read_block ops) of
        (Some wr, Some rd) \<Rightarrow> do {
          s \<leftarrow> (if off + len > d_size (dirents s d) then do {
              (r, s) \<leftarrow> op_resize ops d (off + len) s; Some s
            } else Some s);
          fs_write_loop (rd d) (wr d) bs len off 0 buffer temp s
        }
      | _ \<Rightarrow> Some (kerr KERROR_INVALID_REQUEST, s))"

section \<open>Copying\<close>

text \<open>The loop that copies the contents of a file in chunks of a page.\<close>

function copy_chunks :: "('v, 'p, 'hw) optable \<Rightarrow> buf \<Rightarrow> ptr \<Rightarrow> ptr \<Rightarrow> buf \<Rightarrow> u32 \<Rightarrow> u32 \<Rightarrow> ('v, 'p, 'hw) vfs \<Rightarrow>
    ('v, 'p, 'hw) vfs option" where
  "copy_chunks T temp src dst filebuf fsize off s =
     (if off < fsize then do {
        let chunk = min (of_nat PAGE_SIZE) (fsize - off);
        (r, filebuf, s) \<leftarrow> fs_dirent_read T temp src filebuf chunk off s;
        (r, s) \<leftarrow> fs_dirent_write T temp dst filebuf chunk off s;
        copy_chunks T temp src dst filebuf fsize (off + chunk) s
      } else Some s)"
  by pat_completeness auto

lemma chunk_progress:
  assumes "(off :: u32) < fsize"
  shows "unat (fsize - (off + min (of_nat PAGE_SIZE) (fsize - off))) < unat (fsize - off)"
proof -
  let ?m = "min (of_nat PAGE_SIZE) (fsize - off)"
  have "fsize - off \<noteq> 0" using assms by auto
  then have "?m \<noteq> 0" by (simp add: min_def PAGE_SIZE_def)
  moreover have "?m \<le> fsize - off" by simp
  moreover have "fsize - (off + ?m) = fsize - off - ?m" by simp
  ultimately show ?thesis by (metis min_def unat_gt_0 unat_sub diff_less less_le_trans word_le_nat_alt)
qed

termination copy_chunks
  by (relation "measure (\<lambda>(T, temp, src, dst, filebuf, fsize, off, s). unat (fsize - off))") (auto intro: chunk_progress)

declare copy_chunks.simps [simp del]

text \<open>
  \<^verbatim>\<open>fs_dirent_copy\<close> on a fuel that bounds the depth of the tree and, for each directory, the
  length of its listing; \<open>names\<close> is the rest of the listing.  The messages are left out.
\<close>

fun fs_dirent_copy :: "('v, 'p, 'hw) optable \<Rightarrow> buf \<Rightarrow> nat \<Rightarrow> ptr \<Rightarrow> ptr \<Rightarrow> ('v, 'p, 'hw) vfs \<Rightarrow> (int \<times> ('v, 'p, 'hw) vfs) option"
  and copy_names :: "('v, 'p, 'hw) optable \<Rightarrow> buf \<Rightarrow> nat \<Rightarrow> ptr \<Rightarrow> ptr \<Rightarrow> buf \<Rightarrow> int \<Rightarrow> ('v, 'p, 'hw) vfs \<Rightarrow>
    (int \<times> ('v, 'p, 'hw) vfs) option" where
  "fs_dirent_copy T temp 0 src dst s = None"
| "fs_dirent_copy T temp (Suc n) src dst s = do {
     (len, names, s) \<leftarrow> fs_dirent_list T src (int PAGE_SIZE) s;
     if len \<le> 0 then Some (kerr KERROR_NOT_FOUND, s) else copy_names T temp n src dst names len s
   }"
| "copy_names T temp 0 src dst name len s = None"
| "copy_names T temp (Suc n) src dst name len s =
     (if len \<le> 0 then Some (0, s)
      else do {
        dot \<leftarrow> strcmp name [46, 0];
        dotdot \<leftarrow> (if dot = 0 then Some 0 else strcmp name [46, 46, 0]);
        l \<leftarrow> strlen name;
        let next = drop (unat l + 1) name;
        let rest = len - int (unat l + 1);
        if dot = 0 \<or> dotdot = 0 then copy_names T temp n src dst next rest s
        else do {
          (new_src, s) \<leftarrow> fs_dirent_lookup T src name s;
          if new_src = 0 then copy_names T temp n src dst next rest s
          else if fs_dirent_isdir new_src s then do {
            (new_dst, s) \<leftarrow> fs_dirent_mkdir T dst name s;
            if new_dst = 0 then do {
              (r, s) \<leftarrow> fs_dirent_close T new_src s;
              copy_names T temp n src dst next rest s
            }
            else do {
              (res, s) \<leftarrow> fs_dirent_copy T temp n new_src new_dst s;
              (r, s) \<leftarrow> fs_dirent_close T new_dst s;
              if res < 0 then Some (kerr KERROR_NOT_FOUND, s)
              else do {
                (r, s) \<leftarrow> fs_dirent_close T new_src s;
                copy_names T temp n src dst next rest s
              }
            }
          }
          else do {
            (new_dst, s) \<leftarrow> fs_dirent_mkfile T dst name s;
            if new_dst = 0 then do {
              (r, s) \<leftarrow> fs_dirent_close T new_src s;
              copy_names T temp n src dst next rest s
            }
            else do {
              s \<leftarrow> copy_chunks T temp new_src new_dst temp (word_of_int (fs_dirent_size new_src s)) 0 s;
              (r, s) \<leftarrow> fs_dirent_close T new_dst s;
              (r, s) \<leftarrow> fs_dirent_close T new_src s;
              copy_names T temp n src dst next rest s
            }
          }
        }
      })"

end
