(* ===== verification/Vfs_Props.thy ===== *)
theory Vfs_Props
  imports Vfs
begin

text \<open>
  What the file system layer promises: paths are resolved word by word, and files are byte
  sequences, whatever the sizes and offsets of the requests.  The second rests on an interface,
  the locale \<open>file_store\<close>, that a file system provides for each open file.
\<close>

section \<open>Paths\<close>

text \<open>Walking along a list of names, closing the entries on the way.\<close>

fun walk :: "('v, 'p, 'hw) optable \<Rightarrow> ptr \<Rightarrow> ptr \<Rightarrow> buf list \<Rightarrow> ('v, 'p, 'hw) vfs \<Rightarrow> (ptr \<times> ('v, 'p, 'hw) vfs) option" where
  "walk T parent d [] s = Some (d, s)"
| "walk T parent d (w # ws) s = do {
     (n, s) \<leftarrow> fs_dirent_lookup T d w s;
     s \<leftarrow> (if d \<noteq> parent then do { (r, s) \<leftarrow> fs_dirent_close T d s; Some s } else Some s);
     if n = 0 then Some (0, s) else walk T parent n ws s
   }"

lemma traverse_loop_None [simp]: "traverse_loop T n parent d None old s = Some (d, s)"
  by (cases n) simp_all

lemma traverse_loop_walk:
  "is_cstr xs t \<Longrightarrow> length xs \<le> n \<Longrightarrow>
    \<exists>ws. map (takeWhile (\<lambda>c. c \<noteq> 0)) ws = words {47} [] xs \<and>
      (\<forall>d w s. traverse_loop T (Suc n) parent d (Some w) (Some t) s = walk T parent d (w # ws) s)"
proof (induction n arbitrary: xs t)
  case 0
  then have xs: "xs = []" by simp
  have d: "is_cstr [47] [47, 0 :: u8]" by (simp add: is_cstr_def)
  from 0 have "\<exists>old. strtok None [47, 0] (Some t) = Some (None, old)"
    by (auto simp: xs is_cstr_Nil strtok_def)
  then show ?case by (intro exI [of _ "[]"]) (auto simp: xs cong: if_cong)
next
  case (Suc n)
  have d: "is_cstr [47] [47, 0 :: u8]" by (simp add: is_cstr_def)
  have cs: "(case None of None \<Rightarrow> Some t | Some s \<Rightarrow> Some s) = Some t" by simp
  show ?case
  proof (cases rule: strtok_step [OF d Suc.prems(1) cs, case_names none word])
    case (none old)
    then show ?thesis by (intro exI [of _ "[]"]) (auto cong: if_cong)
  next
    case (word w ws rest ys u)
    have "length ys \<le> n" using word(5) Suc.prems(2) by simp
    then obtain vs where vs: "map (takeWhile (\<lambda>c. c \<noteq> 0)) vs = words {47} [] ys"
      "\<forall>d w s. traverse_loop T (Suc n) parent d (Some w) (Some u) s = walk T parent d (w # vs) s"
      using Suc.IH [OF word(4)] by blast
    have tw: "takeWhile (\<lambda>c. c \<noteq> 0) (w @ 0 # rest) = w"
      using word(6) by (auto simp: takeWhile_append2 takeWhile_tail)
    show ?thesis
    proof (intro exI [of _ "(w @ 0 # rest) # vs"] conjI allI)
      show "map (takeWhile (\<lambda>c. c \<noteq> 0)) ((w @ 0 # rest) # vs) = words {47} [] xs"
        using word(1,2) vs(1) tw by simp
      fix da wa s
      show "traverse_loop T (Suc (Suc n)) parent da (Some wa) (Some t) s = walk T parent da (wa # (w @ 0 # rest) # vs) s"
        unfolding traverse_loop.simps(3) [of T "Suc n"] walk.simps(2) [of T parent da]
        using word(3) vs(2) by (simp del: traverse_loop.simps(3) walk.simps(2) cong: if_cong)
    qed
  qed
qed

text \<open>Claim C13. \<^verbatim>\<open>fs_dirent_traverse\<close> looks up, one after the other, exactly the words of the path
  between slashes, each in the entry found before; it closes each entry on the way, and ends for
  every path.\<close>

theorem fs_dirent_traverse_walks:
  assumes "is_cstr xs path" "length xs < 2 ^ 32 - 1" "parent \<noteq> 0"
  shows "\<exists>ws. map (takeWhile (\<lambda>c. c \<noteq> 0)) ws = words {47} [] xs \<and>
    fs_dirent_traverse T parent path s = walk T parent parent ws s"
proof -
  have u: "unat (of_nat (length xs) :: u32) = length xs" using assms(2) by (intro unat_of_nat_eq) simp
  have cp: "strcpy (replicate (length xs + 1) 0) path = Some (xs @ [0])"
    using strcpy_cstr [OF assms(1), of "replicate (length xs + 1) 0"] by simp
  have c: "is_cstr xs (xs @ [0])" using assms(1) by (simp add: is_cstr_def)
  have d: "is_cstr [47] [47, 0 :: u8]" by (simp add: is_cstr_def)
  have run: "fs_dirent_traverse T parent path s = do {
      (part, old) \<leftarrow> strtok (Some (xs @ [0])) [47, 0] None;
      traverse_loop T (length path) parent parent part old s
    }"
    using strlen_cstr [OF assms(1)] u cp assms(3) by (simp add: fs_dirent_traverse_def)
  have cs: "(case Some (xs @ [0]) of None \<Rightarrow> None | Some s \<Rightarrow> Some s) = Some (xs @ [0])" by simp
  show ?thesis
  proof (cases rule: strtok_step [OF d c cs, case_names none word])
    case (none old)
    then show ?thesis by (intro exI [of _ "[]"]) (simp add: run)
  next
    case (word w ws rest ys t)
    have "length xs \<le> length path" using assms(1) by (auto simp: is_cstr_def)
    then obtain n where n: "length path = Suc n" "length ys \<le> n" using word(5) by (cases "length path") auto
    obtain vs where vs: "map (takeWhile (\<lambda>c. c \<noteq> 0)) vs = words {47} [] ys"
      "\<forall>d w s. traverse_loop T (Suc n) parent d (Some w) (Some t) s = walk T parent d (w # vs) s"
      using traverse_loop_walk [OF word(4) n(2)] by blast
    have tw: "takeWhile (\<lambda>c. c \<noteq> 0) (w @ 0 # rest) = w"
      using word(6) by (auto simp: takeWhile_append2 takeWhile_tail)
    have "fs_dirent_traverse T parent path s = walk T parent parent ((w @ 0 # rest) # vs) s"
      unfolding run n(1) using word(3) vs(2) by (simp del: traverse_loop.simps walk.simps cong: if_cong)
    moreover have "map (takeWhile (\<lambda>c. c \<noteq> 0)) ((w @ 0 # rest) # vs) = words {47} [] xs"
      using word(1,2) vs(1) tw by simp
    ultimately show ?thesis by blast
  qed
qed

definition sample_ops :: "('v, 'p, 'hw) vfs fs_ops" where
  "sample_ops = \<lparr>op_volume_root = None, op_volume_open = None, op_volume_close = None, op_volume_format = None,
     op_lookup = Some (\<lambda>d name s. Some (d + 1, s)), op_mkdir = None, op_mkfile = None, op_read_block = None,
     op_write_block = None, op_list = None, op_remove = None, op_resize = (\<lambda>d n s. None), op_close = None\<rparr>"

theorem fs_dirent_traverse_walks_witness:
  "\<forall>s. \<exists>s'. fs_dirent_traverse (\<lambda>_. sample_ops) 5 [97, 47, 47, 98, 0] s = Some (7, s')"
proof
  fix s
  have "is_cstr [97, 47, 47, 98] [97, 47, 47, 98, 0 :: u8]" by (simp add: is_cstr_def)
  from fs_dirent_traverse_walks [OF this, of 5 "\<lambda>_. sample_ops" s]
  have "\<exists>ws. map (takeWhile (\<lambda>c. c \<noteq> 0)) ws = [[97], [98]] \<and>
      fs_dirent_traverse (\<lambda>_. sample_ops) 5 [97, 47, 47, 98, 0] s = walk (\<lambda>_. sample_ops) 5 5 ws s"
    by (simp del: walk.simps)
  then show "\<exists>s'. fs_dirent_traverse (\<lambda>_. sample_ops) 5 [97, 47, 47, 98, 0] s = Some (7, s')"
  proof (elim exE conjE)
    fix ws
    assume ws: "map (takeWhile (\<lambda>c. c \<noteq> 0)) ws = [[97], [98]]"
      and run: "fs_dirent_traverse (\<lambda>_. sample_ops) 5 [97, 47, 47, 98, 0] s = walk (\<lambda>_. sample_ops) 5 5 ws s"
    from ws obtain a b where ab: "ws = [a, b]" "takeWhile (\<lambda>c. c \<noteq> 0) a = [97]" "takeWhile (\<lambda>c. c \<noteq> 0) b = [98]"
      by (auto simp: map_eq_Cons_conv)
    then obtain a' b' where "a = 97 # a'" "b = 98 # b'" by (cases a; cases b) (auto split: if_splits)
    then show ?thesis
      unfolding run ab(1) by (simp add: fs_dirent_lookup_def ops_of_def sample_ops_def fs_dirent_close_def Let_def)
  qed
qed

section \<open>Files as byte sequences\<close>

text \<open>The byte at a position of a file that is a map from block numbers to blocks.\<close>

definition byte_at :: "(nat \<rightharpoonup> buf) \<Rightarrow> nat \<Rightarrow> nat \<Rightarrow> u8" where
  "byte_at F bs p = the (F (p div bs)) ! (p mod bs)"

lemma put_bytes_length: "i + length xs \<le> length b \<Longrightarrow> length (put_bytes i xs b) = length b"
  by (simp add: put_bytes_def)

lemma put_bytes_nth:
  assumes "i + length xs \<le> length b" "j < length b"
  shows "put_bytes i xs b ! j = (if i \<le> j \<and> j < i + length xs then xs ! (j - i) else b ! j)"
  using assms by (auto simp: put_bytes_def nth_append min_def)

lemma put_bytes_put_bytes:
  assumes "i + length xs + length ys \<le> length b"
  shows "put_bytes (i + length xs) ys (put_bytes i xs b) = put_bytes i (xs @ ys) b"
proof (rule nth_equalityI)
  show "length (put_bytes (i + length xs) ys (put_bytes i xs b)) = length (put_bytes i (xs @ ys) b)"
    using assms by (simp add: put_bytes_length)
  fix j assume "j < length (put_bytes (i + length xs) ys (put_bytes i xs b))"
  then have "j < length b" using assms by (simp add: put_bytes_length)
  then show "put_bytes (i + length xs) ys (put_bytes i xs b) ! j = put_bytes i (xs @ ys) b ! j"
    using assms by (auto simp: put_bytes_nth put_bytes_length nth_append)
qed

text \<open>A part of one block, as bytes of the file.\<close>

lemma same_block: "0 < (bs :: nat) \<Longrightarrow> p mod bs + i < bs \<Longrightarrow> (p + i) div bs = p div bs \<and> (p + i) mod bs = p mod bs + i"
proof -
  assume a: "0 < bs" "p mod bs + i < bs"
  have "p + i = (p mod bs + i) + p div bs * bs" by simp
  moreover have "(p mod bs + i + p div bs * bs) div bs = p div bs"
    using a by (subst div_mult_self1) simp_all
  moreover have "(p mod bs + i + p div bs * bs) mod bs = p mod bs + i"
    using a by (subst mod_mult_self1) simp
  ultimately show ?thesis by metis
qed

lemma block_slice:
  assumes "F (p div bs) = Some data" "length data = bs" "p mod bs + a \<le> bs" "0 < bs"
  shows "slice (p mod bs) a data = map (\<lambda>i. byte_at F bs (p + i)) [0..<a]"
proof (rule nth_equalityI)
  show "length (slice (p mod bs) a data) = length (map (\<lambda>i. byte_at F bs (p + i)) [0..<a])"
    using assms by (simp add: slice_def)
  fix i assume "i < length (slice (p mod bs) a data)"
  then have i: "i < a" by (simp add: slice_def)
  then have "p mod bs + i < bs" using assms(3) by linarith
  with same_block [OF assms(4) this] show "slice (p mod bs) a data ! i = map (\<lambda>i. byte_at F bs (p + i)) [0..<a] ! i"
    using i assms by (simp add: slice_def byte_at_def)
qed

lemma map_bytes_split: "a \<le> n \<Longrightarrow> map (\<lambda>i. f (p + i)) [0..<n] = map (\<lambda>i. f (p + i)) [0..<a] @ map (\<lambda>i. f (p + a + i)) [0..<n - a]"
proof -
  assume "a \<le> n"
  then obtain m where n: "n = a + m" by (metis le_add_diff_inverse)
  have "map (\<lambda>i. f (p + i)) [a..<a + m] = map (\<lambda>i. f (p + a + i)) [0..<m]"
    by (induction m) (simp_all add: add.assoc)
  then show ?thesis unfolding n using upt_add_eq_append [of 0 a m] by simp
qed

text \<open>Storing a part of one block: the bytes of the part are the new ones, the other bytes of
  mapped blocks stay.\<close>

lemma byte_at_store:
  assumes "length b = bs" "0 < bs" "p mod bs + length xs \<le> bs" "\<And>d. F (p div bs) = Some d \<Longrightarrow> d = b"
    and F': "F' = F(p div bs \<mapsto> put_bytes (p mod bs) xs b)"
  shows "p \<le> q \<Longrightarrow> q < p + length xs \<Longrightarrow> F' (q div bs) \<noteq> None \<and> byte_at F' bs q = xs ! (q - p)"
    and "q < p \<or> p + length xs \<le> q \<Longrightarrow> F (q div bs) \<noteq> None \<Longrightarrow> F' (q div bs) \<noteq> None \<and> byte_at F' bs q = byte_at F bs q"
proof -
  assume q: "p \<le> q" "q < p + length xs"
  then obtain i where i: "q = p + i" "i < length xs" by (metis le_add_diff_inverse nat_add_left_cancel_less)
  then have "p mod bs + i < bs" using assms(3) by linarith
  from same_block [OF assms(2) this] show "F' (q div bs) \<noteq> None \<and> byte_at F' bs q = xs ! (q - p)"
    using i assms(1-3) by (simp add: F' byte_at_def put_bytes_nth)
next
  assume q: "q < p \<or> p + length xs \<le> q" and m: "F (q div bs) \<noteq> None"
  show "F' (q div bs) \<noteq> None \<and> byte_at F' bs q = byte_at F bs q"
  proof (cases "q div bs = p div bs")
    case True
    then have b: "F (p div bs) = Some b" using m assms(4) by auto
    have "q mod bs < bs" using assms(2) by simp
    moreover define A where "A = q div bs * bs"
    have "q = A + q mod bs" "p = A + p mod bs"
      using div_mult_mod_eq [of q bs] div_mult_mod_eq [of p bs] True by (simp_all add: A_def)
    then have "\<not> (p mod bs \<le> q mod bs \<and> q mod bs < p mod bs + length xs)" using q by linarith
    ultimately show ?thesis using assms(1,3) True b by (auto simp: F' byte_at_def put_bytes_nth)
  next
    case False
    then show ?thesis using m by (simp add: F' byte_at_def)
  qed
qed

text \<open>
  What a file system promises for one open file: the file is a map from block numbers to blocks of
  \<open>bs\<close> bytes; reading a mapped block delivers it, writing a block succeeds and changes exactly
  that block, or, for a block not yet mapped, fails and changes nothing.  When an operation fails, the
  store is \<open>stuck\<close>: it has no room for a new block.
\<close>

locale file_store =
  fixes rd :: "buf \<Rightarrow> u32 \<Rightarrow> 's \<Rightarrow> (int \<times> buf \<times> 's) option" and wr :: "buf \<Rightarrow> u32 \<Rightarrow> 's \<Rightarrow> (int \<times> 's) option"
    and ok :: "'s \<Rightarrow> bool" and fmap :: "'s \<Rightarrow> nat \<rightharpoonup> buf" and stuck :: "'s \<Rightarrow> bool"
    and bs :: nat and blocks :: nat
  assumes bs_pos: "0 < bs" and bs_int: "bs < 2 ^ 31"
    and fmap_length: "ok s \<Longrightarrow> fmap s k = Some data \<Longrightarrow> length data = bs"
    and rd_ok: "ok s \<Longrightarrow> k < blocks \<Longrightarrow> length b = bs \<Longrightarrow>
      \<exists>r b' s'. rd b (of_nat k) s = Some (r, b', s') \<and> length b' = bs \<and> ok s' \<and> fmap s' = fmap s \<and>
        (\<forall>data. fmap s k = Some data \<longrightarrow> r = int bs \<and> b' = data) \<and> (r \<noteq> int bs \<longrightarrow> stuck s')"
    and wr_ok: "ok s \<Longrightarrow> k < blocks \<Longrightarrow> length b = bs \<Longrightarrow>
      \<exists>r s'. wr b (of_nat k) s = Some (r, s') \<and> ok s' \<and>
        (r = int bs \<and> fmap s' = (fmap s)(k \<mapsto> b) \<or> r \<noteq> int bs \<and> fmap s k = None \<and> fmap s' = fmap s \<and> stuck s')"
begin

lemma bs_word: "unat (of_nat bs :: u32) = bs" "sint (of_nat bs :: u32) = int bs" "(of_nat bs :: u32) \<noteq> 0"
proof -
  show u: "unat (of_nat bs :: u32) = bs" using bs_int by (intro unat_of_nat_eq) simp
  have "int (unat (of_nat bs :: u32)) < 2147483648" unfolding u using bs_int by simp
  from sint_word32 [OF this] show "sint (of_nat bs :: u32) = int bs" by (simp only: u)
  show "(of_nat bs :: u32) \<noteq> 0" using u bs_pos by (metis less_numeral_extra(3) unat_0)
qed

lemma offset_word:
  "unat (off mod of_nat bs :: u32) = unat off mod bs" "(off div of_nat bs :: u32) = of_nat (unat off div bs)"
proof -
  show "unat (off mod of_nat bs :: u32) = unat off mod bs" by (simp only: unat_mod bs_word)
  have "unat off div bs < 2 ^ 32"
    using le_less_trans [OF div_le_dividend unsigned_less [of off, where ?'a = nat]] by simp
  then have "unat (of_nat (unat off div bs) :: u32) = unat off div bs" by (intro unat_of_nat_eq) simp
  then show "(off div of_nat bs :: u32) = of_nat (unat off div bs)"
    by (simp only: word_unat_eq_iff unat_div bs_word)
qed

end

context file_store
begin

text \<open>The sizes of the next part: up to the end of the block or of the request.\<close>

lemma part_words:
  assumes "(len :: u32) \<noteq> 0" "unat off + unat len < 2 ^ 32"
  defines "a \<equiv> min (of_nat bs - off mod of_nat bs) len"
  shows "unat a = min (bs - unat off mod bs) (unat len)" "0 < unat a" "unat a \<le> unat len"
    "unat (len - a) = unat len - unat a" "unat (off + a) = unat off + unat a"
proof -
  have m: "unat off mod bs < bs" using bs_pos by simp
  then have "off mod of_nat bs \<le> of_nat bs" by (simp only: word_le_nat_alt offset_word bs_word less_imp_le)
  then have u: "unat (of_nat bs - off mod of_nat bs) = bs - unat off mod bs"
    by (simp only: unat_sub bs_word offset_word)
  show a: "unat a = min (bs - unat off mod bs) (unat len)"
    unfolding a_def by (cases "of_nat bs - off mod of_nat bs \<le> len") (simp_all only: min_def u word_le_nat_alt if_True if_False)
  have "0 < unat len" using assms(1) by (simp only: unat_gt_0 not_False_eq_True)
  then show "0 < unat a" "unat a \<le> unat len" using a m by auto
  then have "a \<le> len" by (simp only: word_le_nat_alt)
  then show "unat (len - a) = unat len - unat a" by (rule unat_sub)
  show "unat (off + a) = unat off + unat a"
    using assms(2) \<open>unat a \<le> unat len\<close> by (subst unat_plus_if') auto
qed

lemma whole_words:
  assumes "of_nat bs \<le> (len :: u32)" "unat (off :: u32) + unat len < 2 ^ 32"
  shows "bs \<le> unat len" "unat (len - of_nat bs) = unat len - bs" "unat (off + of_nat bs) = unat off + bs"
proof -
  show l: "bs \<le> unat len" using assms(1) by (simp only: word_le_nat_alt bs_word)
  show "unat (len - of_nat bs) = unat len - bs" using assms(1) by (simp only: unat_sub bs_word)
  show "unat (off + of_nat bs) = unat off + bs"
    using assms(2) l by (subst unat_plus_if') (simp add: bs_word del: unat_of_nat)
qed

text \<open>Reading a range whose blocks are all mapped delivers its bytes.\<close>

lemma read_loop_spec:
  "ok s \<Longrightarrow> length temp = bs \<Longrightarrow> unat off + unat len < 2 ^ 32 \<Longrightarrow> tot + unat len \<le> length buffer \<Longrightarrow>
    \<forall>p. unat off \<le> p \<and> p < unat off + unat len \<longrightarrow> p div bs < blocks \<and> fmap s (p div bs) \<noteq> None \<Longrightarrow>
    \<exists>s'. fs_read_loop rd (of_nat bs) len off tot buffer temp s =
        Some (int (tot + unat len), put_bytes tot (map (\<lambda>i. byte_at (fmap s) bs (unat off + i)) [0..<unat len]) buffer, s') \<and>
      ok s' \<and> fmap s' = fmap s"
proof (induction "unat len" arbitrary: len off tot buffer temp s rule: less_induct)
  case less
  let ?o = "unat off" and ?n = "unat len" and ?f = "\<lambda>i. byte_at (fmap s) bs (unat off + i)"
  show ?case
  proof (cases "len = 0")
    case True
    then show ?thesis using less.prems(1) by (subst fs_read_loop.simps) (simp add: put_bytes_def)
  next
    case False
    then have n0: "0 < ?n" by (simp only: unat_gt_0 not_False_eq_True)
    define k where "k = ?o div bs"
    have k: "k < blocks" "fmap s k \<noteq> None" using less.prems(5) n0 by (auto simp: k_def)
    then obtain data where data: "fmap s k = Some data" by blast
    have ld: "length data = bs" by (rule fmap_length [OF less.prems(1) data])
    have ow: "off div of_nat bs = of_nat k" by (simp only: offset_word k_def)
    have rd1: "\<exists>s'. rd b (of_nat k) s = Some (int bs, data, s') \<and> ok s' \<and> fmap s' = fmap s" if "length b = bs" for b
      using rd_ok [OF less.prems(1) k(1) that] data by auto
    have step: "\<exists>s'. fs_read_loop rd (of_nat bs) (len - w) (off + w) (tot + unat w)
          (put_bytes tot (slice (?o mod bs) (unat w) data) buffer) tmp s1 =
        Some (int (tot + ?n), put_bytes tot (map ?f [0..<?n]) buffer, s') \<and> ok s' \<and> fmap s' = fmap s"
      if w: "0 < unat w" "unat w \<le> ?n" "?o mod bs + unat w \<le> bs" "unat (len - w) = ?n - unat w" "unat (off + w) = ?o + unat w"
        and s1: "ok s1" "fmap s1 = fmap s" and tmp: "length tmp = bs" for w s1 tmp
    proof -
      let ?b = "put_bytes tot (slice (?o mod bs) (unat w) data) buffer"
      have sl: "slice (?o mod bs) (unat w) data = map ?f [0..<unat w]"
        by (rule block_slice [where F = "fmap s", OF data [unfolded k_def] ld w(3) bs_pos])
      have lb: "length ?b = length buffer"
        using less.prems(4) w(2) by (intro put_bytes_length) (simp add: sl)
      have lt: "unat (len - w) < unat len" using w n0 by simp
      have pre: "unat (off + w) + unat (len - w) < 2 ^ 32" "tot + unat w + unat (len - w) \<le> length ?b"
        "\<forall>p. unat (off + w) \<le> p \<and> p < unat (off + w) + unat (len - w) \<longrightarrow> p div bs < blocks \<and> fmap s1 (p div bs) \<noteq> None"
        using less.prems(3,4,5) w(2) lb unfolding w(4,5) s1(2) by auto
      obtain s2 where s2: "fs_read_loop rd (of_nat bs) (len - w) (off + w) (tot + unat w) ?b tmp s1 =
          Some (int (tot + unat w + unat (len - w)),
            put_bytes (tot + unat w) (map (\<lambda>i. byte_at (fmap s1) bs (unat (off + w) + i)) [0..<unat (len - w)]) ?b, s2)"
        "ok s2" "fmap s2 = fmap s1"
        using less.hyps [OF lt s1(1) tmp pre] by blast
      have "put_bytes (tot + unat w) (map (\<lambda>i. byte_at (fmap s) bs (?o + unat w + i)) [0..<?n - unat w]) ?b =
          put_bytes tot (map ?f [0..<?n]) buffer"
        using put_bytes_put_bytes [of tot "map ?f [0..<unat w]" "map (\<lambda>i. byte_at (fmap s) bs (?o + unat w + i)) [0..<?n - unat w]" buffer]
          map_bytes_split [OF w(2), of "byte_at (fmap s) bs" ?o] less.prems(4) w(2) by (simp add: sl)
      then show ?thesis using s2 w(2) unfolding w(4,5) s1(2) by auto
    qed
    show ?thesis
    proof (cases "off mod of_nat bs = 0")
      case part: False
      let ?w = "min (of_nat bs - off mod of_nat bs) len"
      note pw = part_words [OF False less.prems(3)]
      obtain s1 where s1: "rd temp (of_nat k) s = Some (int bs, data, s1)" "ok s1" "fmap s1 = fmap s"
        using rd1 [OF less.prems(2)] by blast
      have m: "?o mod bs + unat ?w \<le> bs" using pw(1) bs_pos mod_less_divisor [of bs ?o] by linarith
      from step [OF pw(2,3) m pw(4,5) s1(2,3) ld] show ?thesis
        using False part s1(1) bs_word(2,3) ow
        by (subst fs_read_loop.simps) (simp add: Let_def offset_word(1) del: unat_of_nat of_nat_add)
    next
      case whole: True
      have o0: "?o mod bs = 0" using whole by (metis offset_word(1) unat_0)
      show ?thesis
      proof (cases "of_nat bs \<le> len")
        case True
        note ww = whole_words [OF True less.prems(3)]
        have lsl: "length (slice tot bs buffer) = bs" using less.prems(4) ww(1) by (simp add: slice_def)
        obtain s1 where s1: "rd (slice tot bs buffer) (of_nat k) s = Some (int bs, data, s1)" "ok s1" "fmap s1 = fmap s"
          using rd1 [OF lsl] by blast
        have sd: "slice (?o mod bs) bs data = data" using ld by (simp add: slice_def o0)
        have "\<exists>s'. fs_read_loop rd (of_nat bs) (len - of_nat bs) (off + of_nat bs) (tot + bs) (put_bytes tot data buffer) temp s1 =
            Some (int (tot + ?n), put_bytes tot (map ?f [0..<?n]) buffer, s') \<and> ok s' \<and> fmap s' = fmap s"
          using step [of "of_nat bs" s1 temp] bs_word(1) bs_pos ww o0 s1(2,3) less.prems(2) sd by (simp del: unat_of_nat)
        then show ?thesis using False whole True s1(1) bs_word ow
          by (subst fs_read_loop.simps) (simp del: unat_of_nat of_nat_add)
      next
        case short: False
        then have nb: "?n < bs" by (simp only: word_le_nat_alt bs_word not_le)
        obtain s1 where s1: "rd temp (of_nat k) s = Some (int bs, data, s1)" "ok s1" "fmap s1 = fmap s"
          using rd1 [OF less.prems(2)] by blast
        have "slice 0 ?n data = map ?f [0..<?n]"
          using block_slice [where F = "fmap s" and a = ?n, OF data [unfolded k_def] ld _ bs_pos] nb o0 by simp
        then show ?thesis using False whole short s1 bs_word ow
          by (subst fs_read_loop.simps) (simp del: unat_of_nat of_nat_add)
      qed
    qed
  qed
qed

end

text \<open>
  The bytes from \<open>o\<close> to \<open>o + m\<close> of a file are those of the buffer from \<open>i\<close> on, and the bytes outside
  the range of length \<open>n\<close> are as before.
\<close>

definition wrote :: "nat \<Rightarrow> (nat \<rightharpoonup> buf) \<Rightarrow> (nat \<rightharpoonup> buf) \<Rightarrow> nat \<Rightarrow> nat \<Rightarrow> nat \<Rightarrow> buf \<Rightarrow> nat \<Rightarrow> bool" where
  "wrote bs F F' off m n buffer i \<longleftrightarrow> m \<le> n \<and>
     (\<forall>p. off \<le> p \<and> p < off + m \<longrightarrow> F' (p div bs) \<noteq> None \<and> byte_at F' bs p = buffer ! (i + (p - off))) \<and>
     (\<forall>p. (p < off \<or> off + n \<le> p) \<and> F (p div bs) \<noteq> None \<longrightarrow>
        F' (p div bs) \<noteq> None \<and> byte_at F' bs p = byte_at F bs p)"

lemma wrote_nothing: "wrote bs F F off 0 n buffer i"
  by (auto simp: wrote_def)

lemma wrote_part:
  assumes "length b = bs" "0 < bs" "off mod bs + w \<le> bs" "\<And>d. F (off div bs) = Some d \<Longrightarrow> d = b" "i + w \<le> length buffer"
    and F': "F' = F(off div bs \<mapsto> put_bytes (off mod bs) (slice i w buffer) b)"
  shows "wrote bs F F' off w w buffer i"
proof -
  have l: "length (slice i w buffer) = w" using assms(5) by (simp add: slice_def)
  have m: "off mod bs + length (slice i w buffer) \<le> bs" using assms(3) l by simp
  note s = byte_at_store [OF assms(1,2) m assms(4) F']
  have "slice i w buffer ! (p - off) = buffer ! (i + (p - off))" if "off \<le> p" "p < off + w" for p
    using that assms(5) by (simp add: slice_def)
  then show ?thesis using s unfolding wrote_def l by auto
qed

lemma wrote_trans:
  assumes "wrote bs F F1 off w w buffer i" "wrote bs F1 F2 (off + w) m n buffer (i + w)"
  shows "wrote bs F F2 off (w + m) (w + n) buffer i"
proof -
  have new: "F2 (p div bs) \<noteq> None \<and> byte_at F2 bs p = buffer ! (i + (p - off))" if p: "off \<le> p" "p < off + (w + m)" for p
  proof (cases "p < off + w")
    case True
    then have "F1 (p div bs) \<noteq> None \<and> byte_at F1 bs p = buffer ! (i + (p - off))" using assms(1) p by (auto simp: wrote_def)
    then show ?thesis using assms(2) True by (auto simp: wrote_def)
  next
    case False
    then have "F2 (p div bs) \<noteq> None \<and> byte_at F2 bs p = buffer ! (i + w + (p - (off + w)))"
      using assms(2) p by (auto simp: wrote_def)
    moreover have "i + w + (p - (off + w)) = i + (p - off)" using False by simp
    ultimately show ?thesis by simp
  qed
  have old: "F2 (p div bs) \<noteq> None \<and> byte_at F2 bs p = byte_at F bs p"
    if p: "p < off \<or> off + (w + n) \<le> p" "F (p div bs) \<noteq> None" for p
  proof -
    have "F1 (p div bs) \<noteq> None \<and> byte_at F1 bs p = byte_at F bs p" using assms(1) p by (auto simp: wrote_def)
    moreover have "p < off + w \<or> off + w + n \<le> p" using p(1) by linarith
    ultimately show ?thesis using assms(2) unfolding wrote_def by metis
  qed
  have "w + m \<le> w + n" using assms(2) by (simp add: wrote_def)
  then show ?thesis unfolding wrote_def using new old by blast
qed

lemma wrote_less: "wrote bs F F' off m n buffer i \<Longrightarrow> n \<le> n' \<Longrightarrow> wrote bs F F' off m n' buffer i"
  by (auto simp: wrote_def)

context file_store
begin

text \<open>Writing stores the bytes, block by block, up to the first block that cannot be added.\<close>

lemma write_loop_spec:
  "ok s \<Longrightarrow> length temp = bs \<Longrightarrow> unat off + unat len < 2 ^ 32 \<Longrightarrow> tot + unat len \<le> length buffer \<Longrightarrow>
    \<forall>p. unat off \<le> p \<and> p < unat off + unat len \<longrightarrow> p div bs < blocks \<Longrightarrow>
    \<exists>m s'. fs_write_loop rd wr (of_nat bs) len off tot buffer temp s =
        Some (if m = unat len then int (tot + m) else fail_total (int (tot + m)), s') \<and> ok s' \<and>
      wrote bs (fmap s) (fmap s') (unat off) m (unat len) buffer tot \<and>
      (m \<noteq> unat len \<longrightarrow> fmap s ((unat off + m) div bs) = None \<and> stuck s')"
proof (induction "unat len" arbitrary: len off tot temp s rule: less_induct)
  case less
  let ?o = "unat off" and ?n = "unat len"
  show ?case
  proof (cases "len = 0")
    case True
    then show ?thesis using less.prems(1) wrote_nothing
      by (intro exI [of _ 0] exI [of _ s]) (subst fs_write_loop.simps, simp)
  next
    case False
    then have n0: "0 < ?n" by (simp only: unat_gt_0 not_False_eq_True)
    define k where "k = ?o div bs"
    have k: "k < blocks" using less.prems(5) n0 by (auto simp: k_def)
    have ow: "off div of_nat bs = of_nat k" by (simp only: offset_word k_def)
    have fails: "\<exists>m s'. Some (fail_total (int tot), s1) =
          Some (if m = ?n then int (tot + m) else fail_total (int (tot + m)), s') \<and> ok s' \<and>
        wrote bs (fmap s) (fmap s') ?o m ?n buffer tot \<and> (m \<noteq> ?n \<longrightarrow> fmap s ((?o + m) div bs) = None \<and> stuck s')"
      if "ok s1" "fmap s1 = fmap s" "fmap s k = None" "stuck s1" for s1
      using that n0 wrote_nothing by (intro exI [of _ 0] exI [of _ s1]) (simp add: k_def)
    have step: "\<exists>m s'. fs_write_loop rd wr (of_nat bs) (len - w) (off + w) (tot + unat w) buffer tmp s1 =
          Some (if m = ?n then int (tot + m) else fail_total (int (tot + m)), s') \<and> ok s' \<and>
        wrote bs (fmap s) (fmap s') ?o m ?n buffer tot \<and> (m \<noteq> ?n \<longrightarrow> fmap s ((?o + m) div bs) = None \<and> stuck s')"
      if w: "0 < unat w" "unat w \<le> ?n" "unat (len - w) = ?n - unat w" "unat (off + w) = ?o + unat w"
        and s1: "ok s1" "wrote bs (fmap s) (fmap s1) ?o (unat w) (unat w) buffer tot" and tmp: "length tmp = bs" for w s1 tmp
    proof -
      have lt: "unat (len - w) < unat len" using w n0 by simp
      have pre: "unat (off + w) + unat (len - w) < 2 ^ 32" "tot + unat w + unat (len - w) \<le> length buffer"
        "\<forall>p. unat (off + w) \<le> p \<and> p < unat (off + w) + unat (len - w) \<longrightarrow> p div bs < blocks"
        using less.prems(3,4,5) w(2) unfolding w(3,4) by auto
      obtain m s2 where s2: "fs_write_loop rd wr (of_nat bs) (len - w) (off + w) (tot + unat w) buffer tmp s1 =
          Some (if m = unat (len - w) then int (tot + unat w + m) else fail_total (int (tot + unat w + m)), s2)" "ok s2"
        "wrote bs (fmap s1) (fmap s2) (unat (off + w)) m (unat (len - w)) buffer (tot + unat w)"
        "m \<noteq> unat (len - w) \<longrightarrow> fmap s1 ((unat (off + w) + m) div bs) = None \<and> stuck s2"
        using less.hyps [OF lt s1(1) tmp pre] by blast
      have "wrote bs (fmap s) (fmap s2) ?o (unat w + m) ?n buffer tot"
        using wrote_trans [OF s1(2) s2(3) [unfolded w(3,4)]] w(2) by simp
      moreover have "m = unat (len - w) \<longleftrightarrow> unat w + m = ?n" using w(2,3) by auto
      moreover have "fmap s ((?o + unat w + m) div bs) = None" if "fmap s1 ((?o + unat w + m) div bs) = None"
      proof (rule ccontr)
        have "?o + unat w \<le> ?o + unat w + m" by simp
        moreover assume "fmap s ((?o + unat w + m) div bs) \<noteq> None"
        ultimately have "fmap s1 ((?o + unat w + m) div bs) \<noteq> None" using s1(2) unfolding wrote_def by blast
        with that show False by simp
      qed
      ultimately show ?thesis using s2(1,2) s2(4) [unfolded w(3,4)]
        by (intro exI [of _ "unat w + m"] exI [of _ s2]) (auto simp: add.assoc w(3))
    qed
    obtain r0 b0 s0 where s0: "rd temp (of_nat k) s = Some (r0, b0, s0)" "length b0 = bs" "ok s0" "fmap s0 = fmap s"
      "\<forall>data. fmap s k = Some data \<longrightarrow> r0 = int bs \<and> b0 = data" "r0 \<noteq> int bs \<longrightarrow> stuck s0"
      using rd_ok [OF less.prems(1) k less.prems(2)] by blast
    have part: "\<exists>r s2. wr (put_bytes (?o mod bs) (slice tot w buffer) b0) (of_nat k) s0 = Some (r, s2) \<and> ok s2 \<and>
        length (put_bytes (?o mod bs) (slice tot w buffer) b0) = bs \<and>
        (r = int bs \<and> wrote bs (fmap s) (fmap s2) ?o w w buffer tot \<or> r \<noteq> int bs \<and> fmap s k = None \<and> fmap s2 = fmap s \<and> stuck s2)"
      if w: "?o mod bs + w \<le> bs" "w \<le> ?n" for w
    proof -
      let ?b = "put_bytes (?o mod bs) (slice tot w buffer) b0"
      have sl: "length (slice tot w buffer) = w" using less.prems(4) w(2) by (simp add: slice_def)
      have lb: "length ?b = bs" using w(1) s0(2) by (simp add: put_bytes_length sl)
      obtain r s2 where s2: "wr ?b (of_nat k) s0 = Some (r, s2)" "ok s2"
        "r = int bs \<and> fmap s2 = (fmap s0)(k \<mapsto> ?b) \<or> r \<noteq> int bs \<and> fmap s0 k = None \<and> fmap s2 = fmap s0 \<and> stuck s2"
        using wr_ok [OF s0(3) k lb] by blast
      have "wrote bs (fmap s) (fmap s2) ?o w w buffer tot" if "fmap s2 = (fmap s0)(k \<mapsto> ?b)"
        by (rule wrote_part [OF s0(2) bs_pos w(1)])
          (use s0(4,5) that less.prems(4) w(2) in \<open>auto simp: k_def\<close>)
      then show ?thesis using s2 lb s0(4) by auto
    qed
    show ?thesis
    proof (cases "off mod of_nat bs = 0")
      case nonzero: False
      let ?w = "min (of_nat bs - off mod of_nat bs) len"
      note pw = part_words [OF False less.prems(3)]
      show ?thesis
      proof (cases "r0 = int bs")
        case False
        then have "fs_write_loop rd wr (of_nat bs) len off tot buffer temp s = Some (fail_total (int tot), s0)"
          using \<open>len \<noteq> 0\<close> nonzero s0(1) bs_word(2,3) ow by (subst fs_write_loop.simps) simp
        then show ?thesis using fails [OF s0(3,4)] s0(5,6) False by (cases "fmap s k") auto
      next
        case True
        have m: "?o mod bs + unat ?w \<le> bs" using pw(1) bs_pos mod_less_divisor [of bs ?o] by linarith
        let ?b = "put_bytes (?o mod bs) (slice tot (unat ?w) buffer) b0"
        obtain r s2 where s2: "wr ?b (of_nat k) s0 = Some (r, s2)" "ok s2" "length ?b = bs"
          "r = int bs \<and> wrote bs (fmap s) (fmap s2) ?o (unat ?w) (unat ?w) buffer tot \<or> r \<noteq> int bs \<and> fmap s k = None \<and> fmap s2 = fmap s \<and> stuck s2"
          using part [OF m pw(3)] by blast
        have run: "fs_write_loop rd wr (of_nat bs) len off tot buffer temp s =
            (if r \<noteq> int bs then Some (fail_total (int tot), s2)
             else fs_write_loop rd wr (of_nat bs) (len - ?w) (off + ?w) (tot + unat ?w) buffer ?b s2)"
          using \<open>len \<noteq> 0\<close> nonzero s0(1) s2(1) bs_word(2,3) ow True
          by (subst fs_write_loop.simps) (simp add: Let_def offset_word(1) del: unat_of_nat of_nat_add)
        show ?thesis
        proof (cases "r = int bs")
          case True
          then show ?thesis using step [OF pw(2,3,4,5) s2(2) _ s2(3)] s2(4) run by simp
        next
          case False
          then show ?thesis using fails [OF s2(2)] s2(4) run by simp
        qed
      qed
    next
      case zero: True
      have o0: "?o mod bs = 0" using zero by (metis offset_word(1) unat_0)
      show ?thesis
      proof (cases "of_nat bs \<le> len")
        case True
        note ww = whole_words [OF True less.prems(3)]
        have lsl: "length (slice tot bs buffer) = bs" using less.prems(4) ww(1) by (simp add: slice_def)
        obtain r s2 where s2: "wr (slice tot bs buffer) (of_nat k) s = Some (r, s2)" "ok s2"
          "r = int bs \<and> fmap s2 = (fmap s)(k \<mapsto> slice tot bs buffer) \<or> r \<noteq> int bs \<and> fmap s k = None \<and> fmap s2 = fmap s \<and> stuck s2"
          using wr_ok [OF less.prems(1) k lsl] by blast
        have run: "fs_write_loop rd wr (of_nat bs) len off tot buffer temp s =
            (if r \<noteq> int bs then Some (fail_total (int tot), s2)
             else fs_write_loop rd wr (of_nat bs) (len - of_nat bs) (off + of_nat bs) (tot + bs) buffer temp s2)"
          using \<open>len \<noteq> 0\<close> zero True s2(1) bs_word ow
          by (subst fs_write_loop.simps) (simp del: unat_of_nat of_nat_add)
        show ?thesis
        proof (cases "r = int bs")
          case r: True
          define b where "b = (case fmap s k of Some d \<Rightarrow> d | None \<Rightarrow> replicate bs 0)"
          have b: "length b = bs" "\<And>d. fmap s k = Some d \<Longrightarrow> d = b"
            using fmap_length [OF less.prems(1)] by (auto simp: b_def split: option.split)
          have "put_bytes (?o mod bs) (slice tot bs buffer) b = slice tot bs buffer"
            using lsl b(1) by (simp add: put_bytes_def o0)
          then have "wrote bs (fmap s) (fmap s2) ?o bs bs buffer tot"
            using r s2(3) less.prems(4) ww(1) b(2)
            by (intro wrote_part [OF b(1) bs_pos]) (auto simp: o0 k_def)
          then show ?thesis
            using step [of "of_nat bs" s2 temp] r run bs_word(1) bs_pos ww s2(2) less.prems(2) by (simp del: unat_of_nat)
        next
          case False
          then show ?thesis using fails [OF s2(2)] s2(3) run by simp
        qed
      next
        case short: False
        then have nb: "?n < bs" by (simp only: word_le_nat_alt bs_word not_le)
        show ?thesis
        proof (cases "r0 = int bs")
          case False
          then have "fs_write_loop rd wr (of_nat bs) len off tot buffer temp s = Some (fail_total (int tot), s0)"
            using \<open>len \<noteq> 0\<close> zero short s0(1) bs_word(2,3) ow by (subst fs_write_loop.simps) simp
          then show ?thesis using fails [OF s0(3,4)] s0(5,6) False by (cases "fmap s k") auto
        next
          case True
          let ?b = "put_bytes 0 (slice tot ?n buffer) b0"
          obtain r s2 where s2: "wr ?b (of_nat k) s0 = Some (r, s2)" "ok s2"
            "r = int bs \<and> wrote bs (fmap s) (fmap s2) ?o ?n ?n buffer tot \<or> r \<noteq> int bs \<and> fmap s k = None \<and> fmap s2 = fmap s \<and> stuck s2"
            using part [of ?n] nb unfolding o0 by auto
          have run: "fs_write_loop rd wr (of_nat bs) len off tot buffer temp s =
              (if r \<noteq> int bs then Some (fail_total (int tot), s2) else Some (int (tot + ?n), s2))"
            using \<open>len \<noteq> 0\<close> zero short s0(1) s2(1) bs_word(2,3) ow True
            by (subst fs_write_loop.simps) (simp add: Let_def del: unat_of_nat of_nat_add)
          show ?thesis
          proof (cases "r = int bs")
            case True
            then show ?thesis using s2(2,3) run by (intro exI [of _ ?n] exI [of _ s2]) simp
          next
            case False
            then show ?thesis using fails [OF s2(2)] s2(3) run by simp
          qed
        qed
      qed
    qed
  qed
qed

end

end
