(* ===== verification/Diskfs_Vfs.thy ===== *)
theory Diskfs_Vfs
  imports Vfs_Props Diskfs_Volume
begin

text \<open>
  The native file system under the file system layer: the table \<^verbatim>\<open>diskfs_ops\<close> of
  \<^verbatim>\<open>kernel/diskfs.c\<close> over the state of \<^verbatim>\<open>kernel/fs.c\<close>, with the inode of an entry and the superblock
  of a volume as its private data, and the contract of block files (locale \<open>file_store\<close>)
  discharged for it.  \<open>al\<close> is the address \<^verbatim>\<open>kmalloc\<close> returns and \<open>g\<close> and \<open>tmp\<close> stand for the
  contents of fresh pages.
\<close>

section \<open>The table of operations\<close>

type_synonym 'hw diskvfs = "(diskfs_superblock, diskfs_inode, 'hw) vfs"

text \<open>The view of an entry that the operations of the file system work on.\<close>

definition vol_of :: "('v, 'p, 'hw) vfs \<Rightarrow> ptr \<Rightarrow> 'v fs_volume" where
  "vol_of s d = volumes s (d_volume (dirents s d))"

definition get_dirent :: "diskfs_inode fs_dirent \<Rightarrow> diskfs_dirent" where
  "get_dirent x = \<lparr>dsize = d_size x, inumber = d_inumber x, drefcount = d_refcount x, isdir = d_isdir x, disk = dpriv x\<rparr>"

definition set_dirent :: "diskfs_dirent \<Rightarrow> diskfs_inode fs_dirent \<Rightarrow> diskfs_inode fs_dirent" where
  "set_dirent f x = x\<lparr>d_size := dsize f, d_inumber := inumber f, d_refcount := drefcount f, d_isdir := isdir f, dpriv := disk f\<rparr>"

text \<open>An operation on the entry \<open>d\<close>, and a new entry of the volume of \<open>d\<close>.\<close>

definition on_dirent :: "int \<Rightarrow> buf \<Rightarrow> ('hw bcache blockio \<Rightarrow> diskfs_superblock \<Rightarrow> diskfs_dirent \<Rightarrow> 'hw bcache \<Rightarrow> ('r \<times> 'hw bcache) option) \<Rightarrow>
    ptr \<Rightarrow> 'hw diskvfs \<Rightarrow> ('r \<times> 'hw diskvfs) option" where
  "on_dirent g tmp f d s = do {
     (r, c) \<leftarrow> f (cache_io (v_device (vol_of s d)) g tmp) (vpriv (vol_of s d)) (get_dirent (dirents s d)) (vcache s);
     Some (r, s\<lparr>vcache := c\<rparr>)
   }"

definition new_dirent :: "('hw diskvfs \<Rightarrow> ptr) \<Rightarrow> ptr \<Rightarrow> diskfs_dirent option \<Rightarrow> 'hw diskvfs \<Rightarrow> ptr \<times> 'hw diskvfs" where
  "new_dirent al v r s =
     (case r of None \<Rightarrow> (0, s)
      | Some f \<Rightarrow> (al s, s\<lparr>dirents := (dirents s)(al s := \<lparr>d_volume = v, d_size = dsize f, d_inumber = inumber f,
          d_refcount = drefcount f, d_isdir = isdir f, dpriv = disk f\<rparr>), vfreed := vfreed s - {al s}\<rparr>))"

definition vfs_diskfs_open :: "('hw diskvfs \<Rightarrow> ptr) \<Rightarrow> ptr \<Rightarrow> int \<Rightarrow> buf \<Rightarrow> ptr \<Rightarrow> 'hw diskvfs \<Rightarrow> (ptr \<times> 'hw diskvfs) option" where
  "vfs_diskfs_open al fs g tmp dev s = do {
     (r, c) \<leftarrow> diskfs_volume_open (cache_io dev g tmp) (vcache s);
     let s = s\<lparr>vcache := c\<rparr>;
     (case r of None \<Rightarrow> Some (0, s)
      | Some sb \<Rightarrow> Some (al s, s\<lparr>volumes := (volumes s)(al s := \<lparr>v_fs = fs, v_device = dev,
          v_block_size = word_of_int (device_block_size dev (world c)), v_refcount = 1, vpriv = sb\<rparr>), vfreed := vfreed s - {al s}\<rparr>))
   }"

definition vfs_diskfs_root :: "('hw diskvfs \<Rightarrow> ptr) \<Rightarrow> int \<Rightarrow> buf \<Rightarrow> ptr \<Rightarrow> 'hw diskvfs \<Rightarrow> (ptr \<times> 'hw diskvfs) option" where
  "vfs_diskfs_root al g tmp v s = do {
     (f, c) \<leftarrow> diskfs_volume_root (cache_io (v_device (volumes s v)) g tmp) (vpriv (volumes s v)) (vcache s);
     Some (new_dirent al v (Some f) (s\<lparr>vcache := c\<rparr>))
   }"

definition vfs_diskfs_format :: "int \<Rightarrow> buf \<Rightarrow> ptr \<Rightarrow> 'hw diskvfs \<Rightarrow> (int \<times> 'hw diskvfs) option" where
  "vfs_diskfs_format g tmp dev s = do {
     c \<leftarrow> diskfs_volume_format (cache_io dev g tmp) (device_nblocks dev (world (vcache s))) (vcache s);
     Some (0, s\<lparr>vcache := c\<rparr>)
   }"

definition vfs_diskfs_lookup :: "('hw diskvfs \<Rightarrow> ptr) \<Rightarrow> int \<Rightarrow> buf \<Rightarrow> ptr \<Rightarrow> buf \<Rightarrow> 'hw diskvfs \<Rightarrow> (ptr \<times> 'hw diskvfs) option" where
  "vfs_diskfs_lookup al g tmp d name s = do {
     (r, s) \<leftarrow> on_dirent g tmp (\<lambda>io v f. diskfs_dirent_lookup io v f name) d s;
     Some (new_dirent al (d_volume (dirents s d)) r s)
   }"

definition vfs_diskfs_create :: "('hw diskvfs \<Rightarrow> ptr) \<Rightarrow> int \<Rightarrow> buf \<Rightarrow> u8 \<Rightarrow> ptr \<Rightarrow> buf \<Rightarrow> 'hw diskvfs \<Rightarrow> (ptr \<times> 'hw diskvfs) option" where
  "vfs_diskfs_create al g tmp ty d name s = do {
     ((r, f), s) \<leftarrow> on_dirent g tmp (\<lambda>io v f c. do { (r, f, c) \<leftarrow> diskfs_dirent_create_file_or_dir io v f name ty c; Some ((r, f), c) }) d s;
     Some (new_dirent al (d_volume (dirents s d)) r (upd_dirent d (set_dirent f) s))
   }"

definition vfs_diskfs_read :: "int \<Rightarrow> buf \<Rightarrow> ptr \<Rightarrow> buf \<Rightarrow> u32 \<Rightarrow> 'hw diskvfs \<Rightarrow> (int \<times> buf \<times> 'hw diskvfs) option" where
  "vfs_diskfs_read g tmp d b k s = do {
     ((r, b), s) \<leftarrow> on_dirent g tmp (\<lambda>io v f c. do { (r, b, c) \<leftarrow> diskfs_dirent_read_block io v f b (unat k) c; Some ((r, b), c) }) d s;
     Some (r, b, s)
   }"

definition vfs_diskfs_write :: "int \<Rightarrow> buf \<Rightarrow> ptr \<Rightarrow> buf \<Rightarrow> u32 \<Rightarrow> 'hw diskvfs \<Rightarrow> (int \<times> 'hw diskvfs) option" where
  "vfs_diskfs_write g tmp d b k s = do {
     ((r, f), s) \<leftarrow> on_dirent g tmp (\<lambda>io v f c. do { (r, f, c) \<leftarrow> diskfs_dirent_write_block io v f b (unat k) c; Some ((r, f), c) }) d s;
     Some (r, upd_dirent d (set_dirent f) s)
   }"

definition vfs_diskfs_list :: "int \<Rightarrow> buf \<Rightarrow> ptr \<Rightarrow> int \<Rightarrow> 'hw diskvfs \<Rightarrow> (int \<times> buf \<times> 'hw diskvfs) option" where
  "vfs_diskfs_list g tmp d len s = do {
     ((r, out), s) \<leftarrow> on_dirent g tmp (\<lambda>io v f c. do { (r, out, c) \<leftarrow> diskfs_dirent_list io v f c; Some ((r, out), c) }) d s;
     Some (r, out, s)
   }"

definition vfs_diskfs_remove :: "int \<Rightarrow> buf \<Rightarrow> ptr \<Rightarrow> buf \<Rightarrow> 'hw diskvfs \<Rightarrow> (int \<times> 'hw diskvfs) option" where
  "vfs_diskfs_remove g tmp d name s = do {
     ((r, f), s) \<leftarrow> on_dirent g tmp (\<lambda>io v f c. do {
         (r, f, c) \<leftarrow> diskfs_dirent_remove io v (v_block_size (vol_of s d)) f name c; Some ((r, f), c) }) d s;
     Some (r, upd_dirent d (set_dirent f) s)
   }"

definition vfs_diskfs_resize :: "ptr \<Rightarrow> u32 \<Rightarrow> 'hw diskvfs \<Rightarrow> (int \<times> 'hw diskvfs) option" where
  "vfs_diskfs_resize d sz s =
     (let (r, f) = diskfs_dirent_resize (get_dirent (dirents s d)) sz in Some (r, upd_dirent d (set_dirent f) s))"

definition vfs_diskfs_close :: "int \<Rightarrow> buf \<Rightarrow> ptr \<Rightarrow> 'hw diskvfs \<Rightarrow> (int \<times> 'hw diskvfs) option" where
  "vfs_diskfs_close g tmp d s = on_dirent g tmp diskfs_dirent_close d s"

definition diskfs_ops :: "('hw diskvfs \<Rightarrow> ptr) \<Rightarrow> ptr \<Rightarrow> int \<Rightarrow> buf \<Rightarrow> 'hw diskvfs fs_ops" where
  "diskfs_ops al fs g tmp = \<lparr>op_volume_root = Some (vfs_diskfs_root al g tmp),
     op_volume_open = Some (vfs_diskfs_open al fs g tmp), op_volume_close = Some (\<lambda>v s. Some (0, s)),
     op_volume_format = Some (vfs_diskfs_format g tmp),
     op_lookup = Some (vfs_diskfs_lookup al g tmp), op_mkdir = Some (vfs_diskfs_create al g tmp DISKFS_ITEM_DIR),
     op_mkfile = Some (vfs_diskfs_create al g tmp DISKFS_ITEM_FILE), op_read_block = Some (vfs_diskfs_read g tmp),
     op_write_block = Some (vfs_diskfs_write g tmp), op_list = Some (vfs_diskfs_list g tmp),
     op_remove = Some (vfs_diskfs_remove g tmp), op_resize = vfs_diskfs_resize,
     op_close = Some (vfs_diskfs_close g tmp)\<rparr>"

section \<open>The contract of block files\<close>

definition stray :: "(int \<Rightarrow> buf) \<Rightarrow> diskfs_superblock \<Rightarrow> bool" where
  "stray c v \<longleftrightarrow> (\<exists>i < DISKFS_POINTERS_PER_BLOCK. data_blocks v \<le> le32 (c (dloc v 0)) (4 * i))"

context disk_volume
begin

text \<open>
  Reading a block that is not mapped reads some block of the volume, or none: an unmapped pointer
  leads to data block 0, which then also serves as the indirect block.  The read can only fail if
  that block holds a number beyond the volume.
\<close>

lemma data_read_any:
  assumes "ok s" "layout_ok v total" "length b = 4096"
  shows "\<exists>r b' s'. diskfs_data_block_read (io tmp) v b a s = Some (r, b', s') \<and> length b' = 4096 \<and> ok s' \<and> contents s' = contents s \<and>
    (a < data_blocks v \<longrightarrow> r = 4096 \<and> b' = contents s (dloc v (unat a)))"
proof (cases "a < data_blocks v")
  case True
  show ?thesis using region_read(3) [OF assms True, of tmp] region_length(3) [OF assms(1,2) True] by fastforce
next
  case False
  then show ?thesis using assms(1,3) by (simp add: diskfs_data_block_read_def not_less)
qed

lemma inode_read_any:
  assumes s: "ok s" "layout_ok v total" "length b = 4096" "k < FILE_BLOCKS" and x: "inode_ok (contents s) v (disk f)"
  shows "\<exists>r b' s'. diskfs_inode_read (io tmp) v f b k s = Some (r, b', s') \<and> length b' = 4096 \<and> ok s' \<and> contents s' = contents s \<and>
    (r \<noteq> 4096 \<longrightarrow> stray (contents s) v)"
proof -
  have none: "stray (contents s) v" if "\<not> (0 :: u32) < data_blocks v"
    using that unfolding stray_def by (intro exI [of _ 0]) (simp add: diskfs_sizes not_less)
  have mapped: "ptr_of (contents s) v (disk f) k < data_blocks v" if "\<not> stray (contents s) v"
    using none that ptr_block [OF x, of k] by (cases "ptr_of (contents s) v (disk f) k = 0") (auto simp: used_def)
  show ?thesis
  proof (cases "k < DISKFS_DIRECT_POINTERS")
    case True
    then show ?thesis using data_read_any [OF s(1-3), of tmp "direct (disk f) ! k"] mapped
      by (auto simp: diskfs_inode_read_def ptr_of_def)
  next
    case False
    let ?i = "indirect (disk f)" and ?k = "k - DISKFS_DIRECT_POINTERS"
    have i: "?i < data_blocks v" if "\<not> stray (contents s) v"
      using none that indirect_block [OF x] by (cases "?i = 0") (auto simp: used_def)
    obtain r b1 s1 where 1: "diskfs_data_block_read (io tmp) v b ?i s = Some (r, b1, s1)" "length b1 = 4096"
      "ok s1" "contents s1 = contents s" "?i < data_blocks v \<longrightarrow> b1 = contents s (dloc v (unat ?i))"
      using data_read_any [OF s(1-3), of tmp ?i] by blast
    have k: "?k < DISKFS_POINTERS_PER_BLOCK" using s(4) False by (simp add: FILE_BLOCKS_def)
    have p: "pointer_at b1 ?k = Some (le32 b1 (4 * ?k))" using k by (simp add: pointer_at_def)
    have "le32 b1 (4 * ?k) < data_blocks v" if ns: "\<not> stray (contents s) v"
    proof (cases "?i = 0")
      case True
      then show ?thesis using 1(5) i [OF ns] ns k by (auto simp: stray_def not_le)
    next
      case nz: False
      then have "le32 b1 (4 * ?k) = ptr_of (contents s) v (disk f) k"
        using 1(5) i [OF ns] False s(4) by (simp add: ptr_of_def)
      then show ?thesis using mapped [OF ns] by simp
    qed
    then show ?thesis using False 1 p data_read_any [OF 1(3) s(2) 1(2), of tmp "le32 b1 (4 * ?k)"]
      by (auto simp: diskfs_inode_read_def)
  qed
qed

end

lemma file_map_isize [simp]: "file_map c v (x\<lparr>isize := n\<rparr>) = file_map c v x"
  "file_blocks c v (x\<lparr>isize := n\<rparr>) = file_blocks c v x" "inode_ok c v (x\<lparr>isize := n\<rparr>) = inode_ok c v x"
proof -
  have p: "ptr_of c v (x\<lparr>isize := n\<rparr>) = ptr_of c v x" by (rule ext) (simp add: ptr_of_def)
  show "file_map c v (x\<lparr>isize := n\<rparr>) = file_map c v x" by (rule ext) (simp add: file_map_def p)
  show f: "file_blocks c v (x\<lparr>isize := n\<rparr>) = file_blocks c v x" by (simp add: file_blocks_def p)
  show "inode_ok c v (x\<lparr>isize := n\<rparr>) = inode_ok c v x" by (simp add: inode_ok_def p f)
qed

text \<open>
  An open file in a state: the blocks of its volume as the cache shows them, and the file as a
  map from block numbers to blocks.
\<close>

definition vol_blocks :: "('hw \<Rightarrow> ptr \<Rightarrow> int \<Rightarrow> buf) \<Rightarrow> ptr \<Rightarrow> 'hw diskvfs \<Rightarrow> int \<Rightarrow> buf" where
  "vol_blocks dk d s = cached_block dk (v_device (vol_of s d)) (vcache s)"

definition vfs_file :: "('hw \<Rightarrow> ptr \<Rightarrow> int \<Rightarrow> buf) \<Rightarrow> ptr \<Rightarrow> 'hw diskvfs \<Rightarrow> nat \<rightharpoonup> buf" where
  "vfs_file dk d s = file_map (vol_blocks dk d s) (vpriv (vol_of s d)) (dpriv (dirents s d))"

text \<open>No room for a new block: the volume is full, or a block that is not mapped cannot be read.\<close>

definition no_room :: "('hw \<Rightarrow> ptr \<Rightarrow> int \<Rightarrow> buf) \<Rightarrow> ptr \<Rightarrow> 'hw diskvfs \<Rightarrow> bool" where
  "no_room dk d s \<longleftrightarrow> volume_full (vol_blocks dk d s) (vpriv (vol_of s d)) \<or> stray (vol_blocks dk d s) (vpriv (vol_of s d))"

definition file_ready :: "('hw \<Rightarrow> ptr \<Rightarrow> int \<Rightarrow> buf) \<Rightarrow> (ptr \<Rightarrow> int) \<Rightarrow> ptr \<Rightarrow> 'hw diskvfs \<Rightarrow> bool" where
  "file_ready dk N d s \<longleftrightarrow> cached_ok dk N (v_device (vol_of s d)) 4096 (vcache s) \<and>
     layout_ok (vpriv (vol_of s d)) (N (v_device (vol_of s d))) \<and> bitmap_blocks (vpriv (vol_of s d)) = 1 \<and>
     v_block_size (vol_of s d) = 4096 \<and> inumber_ok (vpriv (vol_of s d)) (d_inumber (dirents s d)) \<and>
     inode_ok (vol_blocks dk d s) (vpriv (vol_of s d)) (dpriv (dirents s d))"

text \<open>
  What the block operations of the file keep, relative to the state \<open>s0\<close> they began in: the other
  entries and the volumes are as they were, and so are the blocks in use that are not the file's.
\<close>

definition file_kept :: "('hw \<Rightarrow> ptr \<Rightarrow> int \<Rightarrow> buf) \<Rightarrow> ptr \<Rightarrow> 'hw diskvfs \<Rightarrow> 'hw diskvfs \<Rightarrow> bool" where
  "file_kept dk d s0 s \<longleftrightarrow> volumes s = volumes s0 \<and> (\<forall>e. e \<noteq> d \<longrightarrow> dirents s e = dirents s0 e) \<and>
     (dirents s d)\<lparr>dpriv := dpriv (dirents s0 d)\<rparr> = dirents s0 d \<and>
     file_step (vpriv (vol_of s0 d)) (d_inumber (dirents s0 d)) (vol_blocks dk d s0) (dpriv (dirents s0 d))
       (vol_blocks dk d s) (dpriv (dirents s d))"

lemma kept_same:
  assumes "file_kept dk d s0 s"
  shows "vol_of s d = vol_of s0 d" "d_volume (dirents s d) = d_volume (dirents s0 d)"
    "d_inumber (dirents s d) = d_inumber (dirents s0 d)" "d_size (dirents s d) = d_size (dirents s0 d)"
proof -
  have e: "(dirents s d)\<lparr>dpriv := dpriv (dirents s0 d)\<rparr> = dirents s0 d" using assms by (simp add: file_kept_def)
  show v: "d_volume (dirents s d) = d_volume (dirents s0 d)" using arg_cong [OF e, of d_volume] by simp
  show "d_inumber (dirents s d) = d_inumber (dirents s0 d)" using arg_cong [OF e, of d_inumber] by simp
  show "d_size (dirents s d) = d_size (dirents s0 d)" using arg_cong [OF e, of d_size] by simp
  show "vol_of s d = vol_of s0 d" using v assms by (simp add: vol_of_def file_kept_def)
qed

lemma kept_refl: "file_ready dk N d s \<Longrightarrow> file_kept dk d s s"
  by (simp add: file_kept_def file_ready_def file_step_refl)

lemma kept_step:
  "file_kept dk d s0 s \<Longrightarrow> file_step (vpriv (vol_of s0 d)) (d_inumber (dirents s0 d)) (vol_blocks dk d s0) (dpriv (dirents s0 d))
     (vol_blocks dk d s) (dpriv (dirents s d))"
  unfolding file_kept_def by (elim conjE)

lemma kept_trans:
  assumes "file_kept dk d s0 s" "file_kept dk d s s'"
  shows "file_kept dk d s0 s'"
proof -
  note k = kept_same [OF assms(1)]
  have e0: "(dirents s d)\<lparr>dpriv := dpriv (dirents s0 d)\<rparr> = dirents s0 d"
    and e1: "(dirents s' d)\<lparr>dpriv := dpriv (dirents s d)\<rparr> = dirents s d" using assms by (simp_all add: file_kept_def)
  have "(dirents s' d)\<lparr>dpriv := dpriv (dirents s0 d)\<rparr> = ((dirents s' d)\<lparr>dpriv := dpriv (dirents s d)\<rparr>)\<lparr>dpriv := dpriv (dirents s0 d)\<rparr>"
    by simp
  then have "(dirents s' d)\<lparr>dpriv := dpriv (dirents s0 d)\<rparr> = dirents s0 d" by (simp only: e1 e0)
  moreover have "file_step (vpriv (vol_of s0 d)) (d_inumber (dirents s0 d)) (vol_blocks dk d s0) (dpriv (dirents s0 d))
      (vol_blocks dk d s') (dpriv (dirents s' d))"
    by (rule file_step_trans [OF kept_step [OF assms(1)] kept_step [OF assms(2), unfolded k(1,3)]])
  moreover have "volumes s' = volumes s0" "\<forall>e. e \<noteq> d \<longrightarrow> dirents s' e = dirents s0 e"
    using assms unfolding file_kept_def by metis+
  ultimately show ?thesis unfolding file_kept_def by blast
qed

lemma ready_cache:
  assumes "file_ready dk N d s" "cached_ok dk N (v_device (vol_of s d)) 4096 c" "cached_block dk (v_device (vol_of s d)) c = vol_blocks dk d s"
  shows "file_ready dk N d (s\<lparr>vcache := c\<rparr>)" "file_kept dk d s (s\<lparr>vcache := c\<rparr>)" "vfs_file dk d (s\<lparr>vcache := c\<rparr>) = vfs_file dk d s"
proof -
  have v: "vol_of (s\<lparr>vcache := c\<rparr>) d = vol_of s d" by (simp add: vol_of_def)
  have b: "vol_blocks dk d (s\<lparr>vcache := c\<rparr>) = vol_blocks dk d s" using assms(3) by (simp add: vol_blocks_def v)
  show "file_ready dk N d (s\<lparr>vcache := c\<rparr>)" using assms(1,2) by (simp add: file_ready_def v b)
  show "file_kept dk d s (s\<lparr>vcache := c\<rparr>)" using kept_refl [OF assms(1)] by (simp add: file_kept_def v b)
  show "vfs_file dk d (s\<lparr>vcache := c\<rparr>) = vfs_file dk d s" by (simp add: vfs_file_def v b)
qed

lemma file_block_word: "k < FILE_BLOCKS \<Longrightarrow> unat (of_nat k :: u32) = k"
  by (intro unat_of_nat_eq) (simp add: FILE_BLOCKS_def diskfs_sizes)

lemma vfs_read_step:
  assumes r: "file_ready dk N d s" and k: "k < FILE_BLOCKS" and b: "length b = 4096"
  shows "\<exists>r b' s'. vfs_diskfs_read g tmp d b (of_nat k) s = Some (r, b', s') \<and> length b' = 4096 \<and>
    file_ready dk N d s' \<and> file_kept dk d s s' \<and> vfs_file dk d s' = vfs_file dk d s \<and>
    (\<forall>data. vfs_file dk d s k = Some data \<longrightarrow> r = 4096 \<and> b' = data) \<and> (r \<noteq> 4096 \<longrightarrow> no_room dk d s')"
proof -
  let ?v = "vol_of s d" and ?f = "get_dirent (dirents s d)"
  have c: "cached_ok dk N (v_device ?v) 4096 (vcache s)" "layout_ok (vpriv ?v) (N (v_device ?v))"
    and x: "inode_ok (vol_blocks dk d s) (vpriv ?v) (disk ?f)"
    using r by (simp_all add: file_ready_def get_dirent_def)
  obtain r' b' c' where rd: "diskfs_inode_read (cache_io (v_device ?v) g tmp) (vpriv ?v) ?f b k (vcache s) = Some (r', b', c')"
    "length b' = 4096" "cached_ok dk N (v_device ?v) 4096 c'" "cached_block dk (v_device ?v) c' = vol_blocks dk d s"
    "r' \<noteq> 4096 \<longrightarrow> stray (vol_blocks dk d s) (vpriv ?v)"
    using cached_disk.inode_read_any [OF c b k x [unfolded vol_blocks_def], of g tmp] unfolding cache_io_def vol_blocks_def by blast
  have run: "vfs_diskfs_read g tmp d b (of_nat k) s = Some (r', b', s\<lparr>vcache := c'\<rparr>)"
    using rd(1) by (simp add: vfs_diskfs_read_def on_dirent_def diskfs_dirent_read_block_def file_block_word [OF k])
  have "r' = 4096 \<and> b' = data" if "vfs_file dk d s k = Some data" for data
    using cached_disk.inode_read_spec [OF c x [unfolded vol_blocks_def] b, of k data g tmp] that rd(1)
    by (auto simp: vfs_file_def get_dirent_def cache_io_def vol_blocks_def)
  moreover have "vol_of (s\<lparr>vcache := c'\<rparr>) d = vol_of s d" by (simp add: vol_of_def)
  then have "r' \<noteq> 4096 \<longrightarrow> no_room dk d (s\<lparr>vcache := c'\<rparr>)"
    using rd(4,5) by (simp add: no_room_def vol_blocks_def)
  ultimately show ?thesis using run rd(2) ready_cache [OF r rd(3,4)] by blast
qed

lemma vfs_write_step:
  assumes r: "file_ready dk N d s" and k: "k < FILE_BLOCKS" and b: "length b = 4096" and t: "length tmp = 4096"
  shows "\<exists>r s'. vfs_diskfs_write g tmp d b (of_nat k) s = Some (r, s') \<and> file_ready dk N d s' \<and> file_kept dk d s s' \<and>
    (r = 4096 \<and> vfs_file dk d s' = (vfs_file dk d s)(k \<mapsto> b) \<or>
     r = kerr KERROR_OUT_OF_SPACE \<and> vfs_file dk d s k = None \<and> vfs_file dk d s' = vfs_file dk d s \<and> no_room dk d s')"
proof -
  let ?v = "vol_of s d" and ?f = "get_dirent (dirents s d)"
  let ?sb = "vpriv ?v" and ?B = "vol_blocks dk d s"
  have c: "cached_ok dk N (v_device ?v) 4096 (vcache s)" "layout_ok ?sb (N (v_device ?v))" "bitmap_blocks ?sb = 1"
    and ino: "inumber_ok ?sb (inumber ?f)" and x: "inode_ok (cached_block dk (v_device ?v) (vcache s)) ?sb (disk ?f)"
    and bs: "v_block_size ?v = 4096"
    using r by (simp_all add: file_ready_def get_dirent_def vol_blocks_def)
  obtain r' f' c' where w: "diskfs_inode_write (cache_io (v_device ?v) g tmp) ?sb ?f b k (vcache s) = Some (r', f', c')"
    "cached_ok dk N (v_device ?v) 4096 c'" "f'\<lparr>disk := disk ?f\<rparr> = ?f"
    "file_step ?sb (inumber ?f) ?B (disk ?f) (cached_block dk (v_device ?v) c') (disk f')"
    "r' = 4096 \<and> file_map (cached_block dk (v_device ?v) c') ?sb (disk f') = (file_map ?B ?sb (disk ?f))(k \<mapsto> b) \<or>
     r' = kerr KERROR_OUT_OF_SPACE \<and> file_map (cached_block dk (v_device ?v) c') ?sb (disk f') = file_map ?B ?sb (disk ?f) \<and>
     file_map ?B ?sb (disk ?f) k = None \<and> volume_full (cached_block dk (v_device ?v) c') ?sb"
    using cached_disk.inode_write_spec [OF c ino t x b k, of g] unfolding cache_io_def vol_blocks_def by blast
  let ?s = "upd_dirent d (set_dirent f') (s\<lparr>vcache := c'\<rparr>)"
  have run: "vfs_diskfs_write g tmp d b (of_nat k) s = Some (r', ?s)"
    using w(1) by (simp add: vfs_diskfs_write_def on_dirent_def diskfs_dirent_write_block_def file_block_word [OF k])
  have d: "set_dirent f' (dirents s d) = (dirents s d)\<lparr>dpriv := disk f'\<rparr>"
  proof -
    have "dsize f' = dsize ?f" "inumber f' = inumber ?f" "drefcount f' = drefcount ?f" "isdir f' = isdir ?f"
      using arg_cong [OF w(3), of dsize] arg_cong [OF w(3), of inumber] arg_cong [OF w(3), of drefcount] arg_cong [OF w(3), of isdir]
      by simp_all
    then show ?thesis by (simp add: set_dirent_def get_dirent_def)
  qed
  have ds: "dirents ?s d = (dirents s d)\<lparr>dpriv := disk f'\<rparr>" "\<forall>e. e \<noteq> d \<longrightarrow> dirents ?s e = dirents s e"
    "volumes ?s = volumes s" "vcache ?s = c'"
    by (simp_all add: upd_dirent_def d)
  have v: "vol_of ?s d = ?v" using ds(1,3) by (simp add: vol_of_def)
  have B: "vol_blocks dk d ?s = cached_block dk (v_device ?v) c'" by (simp only: vol_blocks_def v ds(4))
  have ino': "inumber ?f = d_inumber (dirents s d)" "disk ?f = dpriv (dirents s d)" by (simp_all add: get_dirent_def)
  have kept: "file_kept dk d s ?s"
    unfolding file_kept_def using ds(2,3) w(4) by (simp add: ds(1) B ino')
  have "file_ready dk N d ?s"
    using c w(2,4) ino bs by (simp add: file_ready_def v ds B ino' file_step_def)
  moreover have "vfs_file dk d ?s = file_map (cached_block dk (v_device ?v) c') ?sb (disk f')"
    by (simp add: vfs_file_def v B ds(1))
  moreover have "vfs_file dk d s = file_map ?B ?sb (disk ?f)" by (simp add: vfs_file_def ino')
  moreover have "no_room dk d ?s" if "volume_full (cached_block dk (v_device ?v) c') ?sb"
    using that by (simp add: no_room_def v B)
  ultimately show ?thesis using run kept w(5) by metis
qed

lemma vfs_file_length: "file_ready dk N d s \<Longrightarrow> vfs_file dk d s k = Some data \<Longrightarrow> length data = 4096"
proof -
  assume r: "file_ready dk N d s" and f: "vfs_file dk d s k = Some data"
  let ?a = "ptr_of (vol_blocks dk d s) (vpriv (vol_of s d)) (dpriv (dirents s d)) k"
  have a: "?a \<noteq> 0" "data = vol_blocks dk d s (dloc (vpriv (vol_of s d)) (unat ?a))"
    using f by (auto simp: vfs_file_def file_map_def split: if_splits)
  have "?a < data_blocks (vpriv (vol_of s d))"
    using ptr_block [OF _ a(1)] r by (auto simp: file_ready_def used_def)
  then show ?thesis
    using cached_disk.region_length(3) [of dk N "v_device (vol_of s d)" "vcache s" "vpriv (vol_of s d)" ?a] r
    by (simp add: a(2) file_ready_def vol_blocks_def)
qed

interpretation diskfs_file: file_store "vfs_diskfs_read g tmp d" "vfs_diskfs_write g tmp d"
  "\<lambda>s. length tmp = 4096 \<and> file_ready dk N d s \<and> file_kept dk d s0 s" "vfs_file dk d" "no_room dk d" 4096 FILE_BLOCKS for g tmp d dk N s0
proof unfold_locales
  fix s :: "'a diskvfs" and k :: nat and b :: buf
  assume s: "length tmp = 4096 \<and> file_ready dk N d s \<and> file_kept dk d s0 s" and k: "k < FILE_BLOCKS" and b: "length b = 4096"
  show "\<exists>r b' s'. vfs_diskfs_read g tmp d b (of_nat k) s = Some (r, b', s') \<and> length b' = 4096 \<and>
      (length tmp = 4096 \<and> file_ready dk N d s' \<and> file_kept dk d s0 s') \<and> vfs_file dk d s' = vfs_file dk d s \<and>
      (\<forall>data. vfs_file dk d s k = Some data \<longrightarrow> r = int 4096 \<and> b' = data) \<and> (r \<noteq> int 4096 \<longrightarrow> no_room dk d s')"
    using vfs_read_step [OF conjunct1 [OF conjunct2 [OF s]] k b, of g tmp] s kept_trans [of dk d s0 s]
    unfolding of_nat_numeral by blast
  have "kerr KERROR_OUT_OF_SPACE \<noteq> 4096" by simp
  then show "\<exists>r s'. vfs_diskfs_write g tmp d b (of_nat k) s = Some (r, s') \<and>
      (length tmp = 4096 \<and> file_ready dk N d s' \<and> file_kept dk d s0 s') \<and>
      (r = int 4096 \<and> vfs_file dk d s' = (vfs_file dk d s)(k \<mapsto> b) \<or> r \<noteq> int 4096 \<and> vfs_file dk d s k = None \<and> vfs_file dk d s' = vfs_file dk d s \<and> no_room dk d s')"
    using vfs_write_step [OF conjunct1 [OF conjunct2 [OF s]] k b, of tmp g] s kept_trans [of dk d s0 s]
    unfolding of_nat_numeral by blast
qed (use vfs_file_length in \<open>auto\<close>)

section \<open>Files of the native file system as byte sequences\<close>

text \<open>\<^verbatim>\<open>fs_dirent_read\<close> of a range of the file whose blocks are mapped.\<close>

lemma ops_of_diskfs [simp]:
  "op_read_block (diskfs_ops al fs g tmp) = Some (vfs_diskfs_read g tmp)"
  "op_write_block (diskfs_ops al fs g tmp) = Some (vfs_diskfs_write g tmp)"
  "op_resize (diskfs_ops al fs g tmp) = vfs_diskfs_resize"
  by (simp_all add: diskfs_ops_def)

lemma file_end: "unat (off :: u32) + unat len \<le> 4096 * FILE_BLOCKS \<Longrightarrow> unat off + unat len < 2 ^ 32"
  by (simp add: FILE_BLOCKS_def diskfs_sizes)

lemma diskfs_read_bytes:
  assumes r: "file_ready dk N d s" and T: "ops_of T s d = diskfs_ops al fs g tmp"
    and t: "length tmp = 4096" "length temp = 4096"
    and n: "unat off + unat len \<le> unat (d_size (dirents s d))" "unat off + unat len \<le> 4096 * FILE_BLOCKS"
      "unat len \<le> length buffer"
    and m: "\<And>p. unat off \<le> p \<Longrightarrow> p < unat off + unat len \<Longrightarrow> vfs_file dk d s (p div 4096) \<noteq> None"
  shows "\<exists>s'. fs_dirent_read T temp d buffer len off s =
      Some (int (unat len), put_bytes 0 (map (\<lambda>i. byte_at (vfs_file dk d s) 4096 (unat off + i)) [0..<unat len]) buffer, s') \<and>
    file_ready dk N d s' \<and> file_kept dk d s s' \<and> vfs_file dk d s' = vfs_file dk d s"
proof -
  have e: "unat (off + len) = unat off + unat len" using file_end [OF n(2)] by (subst unat_plus_if') simp
  have o: "\<not> d_size (dirents s d) < off" "\<not> d_size (dirents s d) < off + len"
    using n(1) by (simp_all only: word_less_nat_alt e not_less)
  have bs: "v_block_size (volumes s (d_volume (dirents s d))) = of_nat 4096"
    using r by (simp add: file_ready_def vol_of_def)
  have "fs_dirent_read T temp d buffer len off s = fs_read_loop (vfs_diskfs_read g tmp d) (of_nat 4096) len off 0 buffer temp s"
    using o by (simp only: fs_dirent_read_def Let_def T ops_of_diskfs bs option.case if_False)
  moreover have "\<forall>p. unat off \<le> p \<and> p < unat off + unat len \<longrightarrow> p div 4096 < FILE_BLOCKS \<and> vfs_file dk d s (p div 4096) \<noteq> None"
    using m n(2) by (auto simp: less_mult_imp_div_less)
  ultimately show ?thesis
    using diskfs_file.read_loop_spec [of tmp dk N d s s temp off len 0 buffer g, OF _ t(2) file_end [OF n(2)]] r t(1) n(3) kept_refl [OF r]
    by auto
qed

text \<open>\<^verbatim>\<open>fs_dirent_write\<close>, with what it keeps.\<close>

lemma diskfs_write_bytes:
  assumes r: "file_ready dk N d s" and T: "ops_of T s d = diskfs_ops al fs g tmp"
    and t: "length tmp = 4096" "length temp = 4096"
    and n: "unat off + unat len \<le> 4096 * FILE_BLOCKS" "unat len \<le> length buffer"
  shows "\<exists>m s'. fs_dirent_write T temp d buffer len off s = Some (if m = unat len then int m else fail_total (int m), s') \<and>
    wrote 4096 (vfs_file dk d s) (vfs_file dk d s') (unat off) m (unat len) buffer 0 \<and> file_ready dk N d s' \<and>
    (m \<noteq> unat len \<longrightarrow> vfs_file dk d s ((unat off + m) div 4096) = None \<and> no_room dk d s') \<and>
    unat (d_size (dirents s' d)) = max (unat (d_size (dirents s d))) (unat off + unat len) \<and>
    ops_of T s' d = ops_of T s d \<and> volumes s' = volumes s \<and> (\<forall>e. e \<noteq> d \<longrightarrow> dirents s' e = dirents s e) \<and>
    (let v = vpriv (vol_of s d) in
      keeps (vol_blocks dk d s) (vol_blocks dk d s') v (file_blocks (vol_blocks dk d s) v (dpriv (dirents s d))) \<and>
      (\<forall>j. inumber_ok v j \<and> j \<noteq> d_inumber (dirents s d) \<longrightarrow> inode_at (vol_blocks dk d s') v j = inode_at (vol_blocks dk d s) v j))"
proof -
  have e: "unat (off + len) = unat off + unat len" using file_end [OF n(1)] by (subst unat_plus_if') simp
  have bs: "v_block_size (volumes s (d_volume (dirents s d))) = of_nat 4096"
    using r by (simp add: file_ready_def vol_of_def)
  define grow where "grow \<longleftrightarrow> off + len > d_size (dirents s d)"
  define s1 where "s1 = (if grow then upd_dirent d (\<lambda>x. x\<lparr>d_size := off + len, dpriv := (dpriv x)\<lparr>isize := off + len\<rparr>\<rparr>) s else s)"
  have rs: "vfs_diskfs_resize d (off + len) s =
      Some (0, upd_dirent d (\<lambda>x. x\<lparr>d_size := off + len, dpriv := (dpriv x)\<lparr>isize := off + len\<rparr>\<rparr>) s)"
    by (simp add: vfs_diskfs_resize_def diskfs_dirent_resize_def get_dirent_def set_dirent_def upd_dirent_def)
  have run: "fs_dirent_write T temp d buffer len off s =
      fs_write_loop (vfs_diskfs_read g tmp d) (vfs_diskfs_write g tmp d) (of_nat 4096) len off 0 buffer temp s1"
    by (simp add: fs_dirent_write_def Let_def T bs rs s1_def grow_def)
  have d1: "d_volume (dirents s1 d) = d_volume (dirents s d)" "d_inumber (dirents s1 d) = d_inumber (dirents s d)"
    "volumes s1 = volumes s" "vcache s1 = vcache s" "\<forall>e. e \<noteq> d \<longrightarrow> dirents s1 e = dirents s e"
    "dpriv (dirents s1 d) = dpriv (dirents s d) \<or> dpriv (dirents s1 d) = (dpriv (dirents s d))\<lparr>isize := off + len\<rparr>"
    by (simp_all add: s1_def upd_dirent_def)
  have v1: "vol_of s1 d = vol_of s d" using d1 by (simp add: vol_of_def)
  have B1: "vol_blocks dk d s1 = vol_blocks dk d s" by (simp add: vol_blocks_def v1 d1)
  have x1: "file_blocks (vol_blocks dk d s) (vpriv (vol_of s d)) (dpriv (dirents s1 d)) =
      file_blocks (vol_blocks dk d s) (vpriv (vol_of s d)) (dpriv (dirents s d))" using d1(6) by auto
  have r1: "file_ready dk N d s1" using r d1 by (auto simp: file_ready_def v1 B1)
  have F1: "vfs_file dk d s1 = vfs_file dk d s" using d1(6) by (auto simp: vfs_file_def v1 B1)
  have sz: "unat (d_size (dirents s1 d)) = max (unat (d_size (dirents s d))) (unat off + unat len)"
  proof (cases grow)
    case True
    then have "unat (d_size (dirents s d)) < unat off + unat len" unfolding grow_def by (simp only: word_less_nat_alt e)
    moreover have "unat (d_size (dirents s1 d)) = unat off + unat len" using True e by (simp add: s1_def upd_dirent_def)
    ultimately show ?thesis by simp
  next
    case False
    then have "unat off + unat len \<le> unat (d_size (dirents s d))" unfolding grow_def by (simp only: word_less_nat_alt e not_less)
    then show ?thesis using False by (simp add: s1_def)
  qed
  have "\<forall>p. unat off \<le> p \<and> p < unat off + unat len \<longrightarrow> p div 4096 < FILE_BLOCKS"
    using n(1) by (auto simp: less_mult_imp_div_less)
  then obtain m s' where w: "fs_write_loop (vfs_diskfs_read g tmp d) (vfs_diskfs_write g tmp d) (of_nat 4096) len off 0 buffer temp s1 =
      Some (if m = unat len then int m else fail_total (int m), s')" "file_ready dk N d s'" "file_kept dk d s1 s'"
      "wrote 4096 (vfs_file dk d s1) (vfs_file dk d s') (unat off) m (unat len) buffer 0"
      "m \<noteq> unat len \<longrightarrow> vfs_file dk d s ((unat off + m) div 4096) = None \<and> no_room dk d s'"
    using diskfs_file.write_loop_spec [of tmp dk N d s1 s1 temp off len 0 buffer g, OF _ t(2) file_end [OF n(1)]]
      r1 t(1) n(2) kept_refl [OF r1] unfolding F1 [symmetric] add_0 by blast
  note k = kept_same [OF w(3)] and st = kept_step [OF w(3)]
  have vs: "volumes s' = volumes s" "\<forall>e. e \<noteq> d \<longrightarrow> dirents s' e = dirents s e"
    using w(3) d1(3,5) unfolding file_kept_def by metis+
  have T': "ops_of T s' d = ops_of T s d" by (simp only: ops_of_def vs k d1)
  have "keeps (vol_blocks dk d s) (vol_blocks dk d s') (vpriv (vol_of s d))
        (file_blocks (vol_blocks dk d s) (vpriv (vol_of s d)) (dpriv (dirents s d))) \<and>
      (\<forall>j. inumber_ok (vpriv (vol_of s d)) j \<and> j \<noteq> d_inumber (dirents s d) \<longrightarrow>
        inode_at (vol_blocks dk d s') (vpriv (vol_of s d)) j = inode_at (vol_blocks dk d s) (vpriv (vol_of s d)) j)"
    using st unfolding file_step_def by (simp add: v1 B1 d1(2) x1)
  then show ?thesis
    unfolding run Let_def using w(1,2,4,5) sz vs T' by (intro exI [of _ m] exI [of _ s']) (simp add: F1 k)
qed

text \<open>The sample file of five data blocks, open as entry 4 of volume 2.\<close>

definition sample_vfs :: "(int \<Rightarrow> buf) diskvfs" where
  "sample_vfs = \<lparr>volumes = (\<lambda>_. \<lparr>v_fs = 1, v_device = 7, v_block_size = 4096, v_refcount = 1, vpriv = disk_volume_sb\<rparr>),
     dirents = (\<lambda>_. \<lparr>d_volume = 2, d_size = 4096, d_inumber = 3, d_refcount = 1, d_isdir = False, dpriv = disk disk_file\<rparr>),
     fs_list = [1], fs_name = (\<lambda>_. [0]), vfreed = {}, vcache = disk_cache disk_blocks\<rparr>"

definition sample_table :: "(diskfs_superblock, diskfs_inode, int \<Rightarrow> buf) optable" where
  "sample_table = (\<lambda>_. diskfs_ops (\<lambda>_. 9) 1 0 (replicate 4096 0))"

lemma sample_ready: "file_ready disk7 (\<lambda>_. 8) 4 sample_vfs"
  using disk_cached_ok [of "8" disk_blocks] disk_layout_ok disk_inode_ok [of disk_blocks, OF disk_blocks_2]
  by (simp add: file_ready_def vol_of_def sample_vfs_def vol_blocks_def) (simp add: inumber_ok_def disk_volume_sb_def)

lemma sample_mapped: "\<forall>p. 10 \<le> p \<and> p < 13 \<longrightarrow> vfs_file disk7 4 sample_vfs (p div 4096) \<noteq> None"
  by (auto simp: vfs_file_def sample_vfs_def vol_of_def file_map_def disk_ptr)

lemma sample_table_ops: "ops_of sample_table sample_vfs 4 = diskfs_ops (\<lambda>_. 9) 1 0 (replicate 4096 0)"
  by (simp add: ops_of_def sample_table_def)

text \<open>Claim C11. \<^verbatim>\<open>fs_dirent_write\<close> on a file of the native file system writes the bytes of the buffer
  at the offset, whatever the offset and length are, in blocks and parts of blocks.  It stores the
  first \<open>m\<close> bytes and returns \<open>m\<close> (or -1 for none).  These are all of them, unless the block after
  them is not yet a block of the file and there is no room for it: every block the allocator may
  hand out is in use, or the volume's data block 0 holds a stray number beyond the volume, so that
  the block cannot be read before it is written in part.  The other
  bytes of the file, the other open entries, the blocks in use of other files and their
  inodes stay as they were; the size grows to the end of the range.\<close>

theorem fs_dirent_write_bytes:
  assumes r: "file_ready dk N d s" and T: "ops_of T s d = diskfs_ops al fs g tmp"
    and t: "length tmp = 4096" "length temp = 4096"
    and n: "unat off + unat len \<le> 4096 * FILE_BLOCKS" "unat len \<le> length buffer"
  shows "\<exists>m s'. fs_dirent_write T temp d buffer len off s = Some (if m = unat len then int m else fail_total (int m), s') \<and>
    wrote 4096 (vfs_file dk d s) (vfs_file dk d s') (unat off) m (unat len) buffer 0 \<and> file_ready dk N d s' \<and>
    (m \<noteq> unat len \<longrightarrow> vfs_file dk d s ((unat off + m) div 4096) = None \<and> no_room dk d s') \<and>
    unat (d_size (dirents s' d)) = max (unat (d_size (dirents s d))) (unat off + unat len) \<and>
    ops_of T s' d = ops_of T s d \<and> volumes s' = volumes s \<and> (\<forall>e. e \<noteq> d \<longrightarrow> dirents s' e = dirents s e) \<and>
    (let v = vpriv (vol_of s d) in
      keeps (vol_blocks dk d s) (vol_blocks dk d s') v (file_blocks (vol_blocks dk d s) v (dpriv (dirents s d))) \<and>
      (\<forall>j. inumber_ok v j \<and> j \<noteq> d_inumber (dirents s d) \<longrightarrow> inode_at (vol_blocks dk d s') v j = inode_at (vol_blocks dk d s) v j))"
  using diskfs_write_bytes [OF assms] .

theorem fs_dirent_write_bytes_witness:
  "\<exists>s'. fs_dirent_write sample_table (replicate 4096 0) 4 [65, 66, 67] 3 10 sample_vfs = Some (3, s') \<and>
     byte_at (vfs_file disk7 4 s') 4096 11 = 66"
proof -
  obtain m s' where w: "fs_dirent_write sample_table (replicate 4096 0) 4 [65, 66, 67] 3 10 sample_vfs =
      Some (if m = 3 then int m else fail_total (int m), s')"
    "wrote 4096 (vfs_file disk7 4 sample_vfs) (vfs_file disk7 4 s') 10 m 3 [65, 66, 67] 0"
    "m \<noteq> 3 \<longrightarrow> vfs_file disk7 4 sample_vfs ((10 + m) div 4096) = None"
    using fs_dirent_write_bytes [OF sample_ready sample_table_ops, of "replicate 4096 0" 10 3 "[65, 66, 67]"]
    by (auto simp: FILE_BLOCKS_def diskfs_sizes)
  have "m \<le> 3" using w(2) by (simp add: wrote_def)
  then have "m = 3" using w(3) sample_mapped by (cases "m = 3") auto
  then show ?thesis using w(1,2) by (auto simp: wrote_def)
qed

text \<open>Claim C12. What \<^verbatim>\<open>fs_dirent_write\<close> wrote, \<^verbatim>\<open>fs_dirent_read\<close> reads back: after a write that
  returned its length, reading the same range delivers the bytes written and leaves the rest of
  the caller's buffer alone.\<close>

theorem fs_dirent_write_then_read:
  assumes r: "file_ready dk N d s" and T: "ops_of T s d = diskfs_ops al fs g tmp"
    and t: "length tmp = 4096" "length temp = 4096"
    and n: "unat off + unat len \<le> 4096 * FILE_BLOCKS" "unat len \<le> length buffer" "unat len \<le> length out"
    and w: "fs_dirent_write T temp d buffer len off s = Some (int (unat len), s')"
  shows "\<exists>s''. fs_dirent_read T temp d out len off s' = Some (int (unat len), take (unat len) buffer @ drop (unat len) out, s'')"
proof -
  obtain m s1 where m: "fs_dirent_write T temp d buffer len off s = Some (if m = unat len then int m else fail_total (int m), s1)"
    "wrote 4096 (vfs_file dk d s) (vfs_file dk d s1) (unat off) m (unat len) buffer 0" "file_ready dk N d s1"
    "unat (d_size (dirents s1 d)) = max (unat (d_size (dirents s d))) (unat off + unat len)"
    "ops_of T s1 d = ops_of T s d"
    using diskfs_write_bytes [OF r T t n(1,2)] by blast
  have s1: "s1 = s'" and "(if m = unat len then int m else fail_total (int m)) = int (unat len)" using m(1) w by auto
  then have ml: "m = unat len" unfolding fail_total_def by (metis of_nat_eq_iff neg_0_le_iff_le not_one_le_zero of_nat_0_le_iff)
  let ?bytes = "map (\<lambda>i. byte_at (vfs_file dk d s1) 4096 (unat off + i)) [0..<unat len]"
  have mp: "vfs_file dk d s1 (p div 4096) \<noteq> None \<and> byte_at (vfs_file dk d s1) 4096 p = buffer ! (p - unat off)"
    if "unat off \<le> p" "p < unat off + unat len" for p
    using m(2) that by (auto simp: wrote_def ml)
  have "?bytes = take (unat len) buffer"
    using mp n(2) by (intro nth_equalityI) auto
  moreover have "unat off + unat len \<le> unat (d_size (dirents s1 d))" using m(4) by simp
  ultimately show ?thesis
    using diskfs_read_bytes [OF m(3) m(5) [unfolded T] t _ n(1,3)] mp s1 n(2)
    by (auto simp: put_bytes_def)
qed

theorem fs_dirent_write_then_read_witness:
  "\<exists>s' s''. fs_dirent_write sample_table (replicate 4096 0) 4 [65, 66, 67] 3 10 sample_vfs = Some (3, s') \<and>
     fs_dirent_read sample_table (replicate 4096 0) 4 [0, 0, 0, 0] 3 10 s' = Some (3, [65, 66, 67, 0], s'')"
proof -
  obtain m s' where w: "fs_dirent_write sample_table (replicate 4096 0) 4 [65, 66, 67] 3 10 sample_vfs =
      Some (if m = 3 then int m else fail_total (int m), s')"
    "wrote 4096 (vfs_file disk7 4 sample_vfs) (vfs_file disk7 4 s') 10 m 3 [65, 66, 67] 0"
    "m \<noteq> 3 \<longrightarrow> vfs_file disk7 4 sample_vfs ((10 + m) div 4096) = None"
    using diskfs_write_bytes [OF sample_ready sample_table_ops, of "replicate 4096 0" 10 3 "[65, 66, 67]"]
    by (auto simp: FILE_BLOCKS_def diskfs_sizes)
  have "m \<le> 3" using w(2) by (simp add: wrote_def)
  then have "m = 3" using w(3) sample_mapped by (cases "m = 3") auto
  then have "fs_dirent_write sample_table (replicate 4096 0) 4 [65, 66, 67] 3 10 sample_vfs = Some (3, s')" using w(1) by simp
  then show ?thesis
    using fs_dirent_write_then_read [OF sample_ready sample_table_ops, of "replicate 4096 0" 10 3 "[65, 66, 67]" "[0, 0, 0, 0]" s']
    by (auto simp: FILE_BLOCKS_def diskfs_sizes)
qed

end
