(* ===== verification/Cdromfs.thy ===== *)
theory Cdromfs
  imports Vfs Diskfs_Dir
begin

text \<open>
  The file system of compact discs, \<^verbatim>\<open>kernel/cdromfs.c\<close>: the operation table \<open>cdrom_ops\<close> over the state of
  the file system layer.  A page is a list of bytes in which the records of a directory sector, \<^verbatim>\<open>struct
  iso_9660_directory_entry\<close> of \<^verbatim>\<open>kernel/iso9660.h\<close>, lie one after the other.  \<open>al\<close> is the address that
  \<^verbatim>\<open>kmalloc\<close> returns, 0 when it fails, and \<open>tmp\<close> stands for the contents of a fresh page.  What is read
  beyond the page is \<open>None\<close>.
\<close>

section \<open>State\<close>

definition CDROMFS_BLOCK_SIZE :: nat where "CDROMFS_BLOCK_SIZE = 2048"
definition ISO_9660_EXTENT_FLAG_DIRECTORY :: u8 where "ISO_9660_EXTENT_FLAG_DIRECTORY = 2"
definition ISO_9660_VOLUME_TYPE_PRIMARY :: u8 where "ISO_9660_VOLUME_TYPE_PRIMARY = 1"
definition ISO_9660_VOLUME_TYPE_TERMINATOR :: u8 where "ISO_9660_VOLUME_TYPE_TERMINATOR = 255"

record cdrom_volume =
  root_sector :: int
  root_length :: int
  total_sectors :: int

text \<open>The private data of an entry is its first sector.\<close>

type_synonym 'hw cdvfs = "(cdrom_volume, int, 'hw) vfs"

section \<open>Records of a directory\<close>

text \<open>The fields of the record at the offset \<open>o\<close> of a page.\<close>

definition descriptor_length :: "buf \<Rightarrow> nat \<Rightarrow> nat" where "descriptor_length b i = unat (b ! i)"
definition first_sector_little :: "buf \<Rightarrow> nat \<Rightarrow> u32" where "first_sector_little b i = le32 b (i + 2)"
definition length_little :: "buf \<Rightarrow> nat \<Rightarrow> u32" where "length_little b i = le32 b (i + 10)"
definition entry_flags_at :: "buf \<Rightarrow> nat \<Rightarrow> u8" where "entry_flags_at b i = b ! (i + 25)"
definition ident_length :: "buf \<Rightarrow> nat \<Rightarrow> nat" where "ident_length b i = unat (b ! (i + 32))"

text \<open>The name at the offset \<open>p\<close>: the version and the dot at the end are cut off, and it is made lower case.\<close>

definition fix_length :: "buf \<Rightarrow> nat \<Rightarrow> nat" where
  "fix_length name n =
     (let n = (if n > 2 \<and> name ! (n - 2) = 59 then n - 2 else n) in
      if n > 1 \<and> name ! (n - 1) = 46 then n - 1 else n)"

definition fix_filename :: "buf \<Rightarrow> nat \<Rightarrow> buf option" where
  "fix_filename name n =
     (if n \<le> length name \<and> fix_length name n < length name then strtolower (name[fix_length name n := 0]) else None)"

text \<open>The name of the record at \<open>o\<close>, its length with the zero, and the page with the name repaired in place.\<close>

definition entry_name :: "buf \<Rightarrow> nat \<Rightarrow> (buf \<times> nat \<times> buf) option" where
  "entry_name temp i =
     (if temp ! (i + 33) = 0 then Some ([46, 0], 2, temp)
      else if temp ! (i + 33) = 1 then Some ([46, 46, 0], 3, temp)
      else do {
        name \<leftarrow> fix_filename (drop (i + 33) temp) (ident_length temp i);
        n \<leftarrow> strlen name;
        Some (name, unat n + 1, take (i + 33) temp @ name)
      })"

lemma length_strtolower: "strtolower s = Some t \<Longrightarrow> length t = length s"
  by (induction s arbitrary: t) (auto split: if_splits)

lemma length_entry_name: "entry_name temp i = Some (name, n, temp') \<Longrightarrow> i + 33 \<le> length temp \<Longrightarrow> length temp' = length temp"
  by (auto simp: entry_name_def fix_filename_def bind_eq_Some_conv split: if_splits dest: length_strtolower)

text \<open>The loop over the records of one sector: the offset of the record with the name, or none.\<close>

function cdrom_search :: "buf \<Rightarrow> buf \<Rightarrow> nat \<Rightarrow> (nat option \<times> buf) option" where
  "cdrom_search name temp i =
     (if length temp < i + 34 then (if i < length temp \<and> descriptor_length temp i = 0 then Some (None, temp) else None)
      else if descriptor_length temp i = 0 then Some (None, temp)
      else case entry_name temp i of
        None \<Rightarrow> None
      | Some (dname, n, temp') \<Rightarrow>
          (case strncmp name dname n of
             None \<Rightarrow> None
           | Some r \<Rightarrow> if r = 0 then Some (Some i, temp')
                       else cdrom_search name temp' (i + descriptor_length temp' i)))"
  by pat_completeness auto


lemma descriptor_entry_name:
  "entry_name temp i = Some (name, n, temp') \<Longrightarrow> i + 33 \<le> length temp \<Longrightarrow> descriptor_length temp' i = descriptor_length temp i"
  by (auto simp: entry_name_def descriptor_length_def bind_eq_Some_conv nth_append split: if_splits)

lemma record_advances:
  assumes "\<not> length temp < i + 34" "descriptor_length temp i \<noteq> 0" "entry_name temp i = Some (name, n, temp')"
  shows "length temp' - (i + descriptor_length temp' i) < length temp - i"
proof -
  have "i + 33 \<le> length temp" using assms(1) by simp
  then show ?thesis using assms length_entry_name [OF assms(3)] descriptor_entry_name [OF assms(3)] by simp
qed

termination cdrom_search
  by (relation "measure (\<lambda>(name, temp, i). length temp - i)") (auto intro: record_advances)

declare cdrom_search.simps [simp del]

text \<open>
  The loop that lists a sector: names are copied to the buffer while there is more room than the name takes, and counted
  always; \<open>room\<close> is what is left of the buffer.
\<close>

function cdrom_list_sector :: "int \<Rightarrow> buf \<Rightarrow> int \<Rightarrow> buf \<Rightarrow> nat \<Rightarrow> (int \<times> buf \<times> int \<times> buf) option" where
  "cdrom_list_sector room out count temp i =
     (if length temp < i + 34 then (if i < length temp \<and> (descriptor_length temp i = 0 \<or> room \<le> 0) then Some (room, out, count, temp) else None)
      else if descriptor_length temp i = 0 \<or> room \<le> 0 then Some (room, out, count, temp)
      else case entry_name temp i of
        None \<Rightarrow> None
      | Some (dname, n, temp') \<Rightarrow>
          (if room > int n
           then cdrom_list_sector (room - int n) (out @ take n dname) (count + int n) temp' (i + descriptor_length temp' i)
           else cdrom_list_sector room out (count + int n) temp' (i + descriptor_length temp' i)))"
  by pat_completeness auto

termination cdrom_list_sector
  by (relation "measure (\<lambda>(room, out, count, temp, i). length temp - i)") (auto intro: record_advances)

declare cdrom_list_sector.simps [simp del]

section \<open>Entries\<close>

definition cdrom_dirent_create :: "('hw cdvfs \<Rightarrow> ptr) \<Rightarrow> ptr \<Rightarrow> int \<Rightarrow> u32 \<Rightarrow> bool \<Rightarrow> 'hw cdvfs \<Rightarrow> ptr \<times> 'hw cdvfs" where
  "cdrom_dirent_create al v sector len dir s =
     (let d = al s in
      if d = 0 then (0, s)
      else (d, upd_dirent d (\<lambda>x. x\<lparr>d_volume := v, d_refcount := 1, d_size := len, d_isdir := dir, dpriv := sector\<rparr>)
             (s\<lparr>vfreed := vfreed s - {d}\<rparr>)))"

text \<open>One block of the cache replaces the start of the buffer; a failed read leaves it as it is.\<close>

definition cdrom_read :: "ptr \<Rightarrow> buf \<Rightarrow> int \<Rightarrow> 'hw cdvfs \<Rightarrow> (int \<times> buf \<times> 'hw cdvfs) option" where
  "cdrom_read dev buffer k s = do {
     (n, data, c) \<leftarrow> bcache_read dev 1 k 0 (vcache s);
     Some (n, put_bytes 0 data buffer, s\<lparr>vcache := c\<rparr>)
   }"

definition cdrom_dirent_read_block :: "ptr \<Rightarrow> buf \<Rightarrow> u32 \<Rightarrow> 'hw cdvfs \<Rightarrow> (int \<times> buf \<times> 'hw cdvfs) option" where
  "cdrom_dirent_read_block d buffer k s = do {
     (n, buffer, s) \<leftarrow> cdrom_read (v_device (volumes s (d_volume (dirents s d)))) buffer
        (sint (word_of_int (dpriv (dirents s d)) + k)) s;
     Some (if n = 1 then int CDROMFS_BLOCK_SIZE else - 1, buffer, s)
   }"

definition dir_sectors :: "'hw cdvfs \<Rightarrow> ptr \<Rightarrow> nat" where
  "dir_sectors s d = (let sz = unat (d_size (dirents s d)) in
     sz div CDROMFS_BLOCK_SIZE + (if sz mod CDROMFS_BLOCK_SIZE \<noteq> 0 then 1 else 0))"

text \<open>The loop over the sectors of a directory; the result of the read is not looked at.\<close>

fun cdrom_lookup_sectors :: "('hw cdvfs \<Rightarrow> ptr) \<Rightarrow> ptr \<Rightarrow> buf \<Rightarrow> nat list \<Rightarrow> buf \<Rightarrow> 'hw cdvfs \<Rightarrow> (ptr \<times> 'hw cdvfs) option" where
  "cdrom_lookup_sectors al d name [] temp s = Some (0, s)"
| "cdrom_lookup_sectors al d name (k # ks) temp s = do {
     (r, temp, s) \<leftarrow> cdrom_dirent_read_block d temp (of_nat k) s;
     (found, temp) \<leftarrow> cdrom_search name temp 0;
     (case found of
        Some i \<Rightarrow> Some (cdrom_dirent_create al (d_volume (dirents s d)) (sint (first_sector_little temp i)) (length_little temp i)
            (entry_flags_at temp i AND ISO_9660_EXTENT_FLAG_DIRECTORY \<noteq> 0) s)
      | None \<Rightarrow> cdrom_lookup_sectors al d name ks temp s)
   }"

definition cdrom_dirent_lookup :: "('hw cdvfs \<Rightarrow> ptr) \<Rightarrow> buf \<Rightarrow> ptr \<Rightarrow> buf \<Rightarrow> 'hw cdvfs \<Rightarrow> (ptr \<times> 'hw cdvfs) option" where
  "cdrom_dirent_lookup al tmp d name s =
     (if \<not> d_isdir (dirents s d) then Some (0, s) else cdrom_lookup_sectors al d name [0..<dir_sectors s d] tmp s)"

definition cdrom_dirent_close :: "ptr \<Rightarrow> 'hw cdvfs \<Rightarrow> (int \<times> 'hw cdvfs) option" where
  "cdrom_dirent_close d s = Some (0, s)"

fun cdrom_list_sectors :: "ptr \<Rightarrow> nat list \<Rightarrow> int \<Rightarrow> buf \<Rightarrow> int \<Rightarrow> buf \<Rightarrow> 'hw cdvfs \<Rightarrow> (int \<times> buf \<times> 'hw cdvfs) option" where
  "cdrom_list_sectors d [] room out count temp s = Some (count, out, s)"
| "cdrom_list_sectors d (k # ks) room out count temp s = do {
     (r, temp, s) \<leftarrow> cdrom_dirent_read_block d temp (of_nat k) s;
     (room, out, count, temp) \<leftarrow> cdrom_list_sector room out count temp 0;
     cdrom_list_sectors d ks room out count temp s
   }"

definition cdrom_dirent_list :: "buf \<Rightarrow> ptr \<Rightarrow> int \<Rightarrow> 'hw cdvfs \<Rightarrow> (int \<times> buf \<times> 'hw cdvfs) option" where
  "cdrom_dirent_list tmp d len s =
     (if \<not> d_isdir (dirents s d) then Some (kerr KERROR_NOT_A_DIRECTORY, [], s)
      else cdrom_list_sectors d [0..<dir_sectors s d] len [] 0 tmp s)"

section \<open>Volumes\<close>

definition cdrom_volume_create :: "('hw cdvfs \<Rightarrow> ptr) \<Rightarrow> ptr \<Rightarrow> 'hw cdvfs \<Rightarrow> ptr \<times> 'hw cdvfs" where
  "cdrom_volume_create al dev s =
     (let v = al s in
      if v = 0 then (0, s)
      else (v, upd_volume v (\<lambda>_. \<lparr>v_fs = 0, v_device = dev, v_block_size = word_of_int (device_block_size dev (world (vcache s))),
             v_refcount = 1, vpriv = \<lparr>root_sector = 0, root_length = 0, total_sectors = 0\<rparr>\<rparr>) (s\<lparr>vfreed := vfreed s - {v}\<rparr>)))"

definition cdrom_volume_close :: "ptr \<Rightarrow> 'hw cdvfs \<Rightarrow> (int \<times> 'hw cdvfs) option" where
  "cdrom_volume_close v s = Some (0, s)"

definition CD001 :: buf where "CD001 = [67, 68, 48, 48, 49, 0]"

text \<open>The search for the primary descriptor among 16 sectors, with the page \<open>b\<close>; a null volume is written through.\<close>

fun cdrom_scan :: "ptr \<Rightarrow> ptr \<Rightarrow> nat list \<Rightarrow> buf \<Rightarrow> 'hw cdvfs \<Rightarrow> (ptr \<times> 'hw cdvfs) option" where
  "cdrom_scan v dev [] b s = Some (0, s)"
| "cdrom_scan v dev (j # js) b s = do {
     (n, b, s) \<leftarrow> cdrom_read dev b (int j + 16) s;
     r \<leftarrow> strncmp (drop 1 b) CD001 5;
     if r \<noteq> 0 then cdrom_scan v dev js b s
     else if b ! 0 = ISO_9660_VOLUME_TYPE_PRIMARY then
       (if v = 0 then None
        else Some (v, upd_volume v (\<lambda>x. x\<lparr>vpriv := \<lparr>root_sector = sint (first_sector_little b 156), root_length = sint (length_little b 156),
          total_sectors = sint (le32 b 80)\<rparr>, v_device := dev\<rparr>) s))
     else if b ! 0 = ISO_9660_VOLUME_TYPE_TERMINATOR then Some (0, s)
     else cdrom_scan v dev js b s
   }"

definition cdrom_volume_open :: "('hw cdvfs \<Rightarrow> ptr) \<Rightarrow> buf \<Rightarrow> ptr \<Rightarrow> 'hw cdvfs \<Rightarrow> (ptr \<times> 'hw cdvfs) option" where
  "cdrom_volume_open al tmp dev s =
     (let (v, s) = cdrom_volume_create al dev s in
      do {
        (r, s) \<leftarrow> cdrom_scan v dev [0..<16] tmp s;
        if r \<noteq> 0 then Some (r, s) else do { (c, s) \<leftarrow> cdrom_volume_close v s; Some (0, s) }
      })"

definition cdrom_volume_root :: "('hw cdvfs \<Rightarrow> ptr) \<Rightarrow> ptr \<Rightarrow> 'hw cdvfs \<Rightarrow> (ptr \<times> 'hw cdvfs) option" where
  "cdrom_volume_root al v s =
     (let x = vpriv (volumes s v) in Some (cdrom_dirent_create al v (root_sector x) (word_of_int (root_length x)) True s))"

definition cdrom_ops :: "('hw cdvfs \<Rightarrow> ptr) \<Rightarrow> buf \<Rightarrow> 'hw cdvfs fs_ops" where
  "cdrom_ops al tmp = \<lparr>op_volume_root = Some (cdrom_volume_root al), op_volume_open = Some (cdrom_volume_open al tmp),
     op_volume_close = Some cdrom_volume_close, op_volume_format = None,
     op_lookup = Some (cdrom_dirent_lookup al tmp), op_mkdir = None, op_mkfile = None,
     op_read_block = Some cdrom_dirent_read_block, op_write_block = None, op_list = Some (cdrom_dirent_list tmp),
     op_remove = None, op_resize = (\<lambda>d n s. None), op_close = Some cdrom_dirent_close\<rparr>"

definition cdrom_init :: "ptr \<Rightarrow> 'hw cdvfs \<Rightarrow> int \<times> 'hw cdvfs" where
  "cdrom_init fs s = (0, fs_register fs s)"


section \<open>Directories as lists of records\<close>

text \<open>A record as its bytes, the name it has, and a record whose last byte is not part of the name as repaired.\<close>

definition lower :: "u8 \<Rightarrow> u8" where "lower c = (if 65 \<le>s c \<and> c \<le>s 90 then c + 32 else c)"

definition iso_record :: "buf \<Rightarrow> bool" where
  "iso_record b \<longleftrightarrow> 34 \<le> length b \<and> descriptor_length b 0 = length b \<and> 0 < ident_length b 0 \<and>
     33 + ident_length b 0 \<le> length b \<and> (b ! 33 \<notin> {0, 1} \<longrightarrow> 0 \<notin> set (take (ident_length b 0) (drop 33 b)))"

definition record_fix :: "buf \<Rightarrow> nat" where "record_fix b = fix_length (drop 33 b) (ident_length b 0)"

definition record_name :: "buf \<Rightarrow> buf" where
  "record_name b = (if b ! 33 = 0 then [46] else if b ! 33 = 1 then [46, 46] else map lower (take (record_fix b) (drop 33 b)))"

definition roomy :: "buf \<Rightarrow> bool" where "roomy b \<longleftrightarrow> b ! 33 \<in> {0, 1} \<or> 33 + record_fix b < length b"

fun find_record :: "buf \<Rightarrow> buf list \<Rightarrow> nat \<Rightarrow> (nat \<times> buf) option" where
  "find_record nm [] i = None"
| "find_record nm (b # bs) i = (if record_name b = nm then Some (i, b) else find_record nm bs (i + length b))"

lemma lower_nonzero: "c \<noteq> 0 \<Longrightarrow> lower c \<noteq> 0"
proof
  assume "c \<noteq> 0" "lower c = 0"
  then have c: "65 \<le>s c" "c \<le>s 90" "c + 32 = 0" by (auto simp: lower_def split: if_splits)
  then have "c = - 32" by (simp add: add_eq_0_iff2)
  then show False using c(1) by (simp add: word_sle_eq)
qed

lemma strtolower_cstr: "0 \<notin> set xs \<Longrightarrow> strtolower (xs @ 0 # t) = Some (map lower xs @ 0 # t)"
  by (induction xs) (auto simp: lower_def)

lemma fix_length_le: "fix_length b n \<le> n" by (simp add: fix_length_def Let_def)

lemma fix_length_append: "n \<le> length b \<Longrightarrow> fix_length (b @ c) n = fix_length b n"
proof -
  assume "n \<le> length b"
  then have "0 < n \<Longrightarrow> (b @ c) ! (n - 1) = b ! (n - 1)" "0 < n \<Longrightarrow> (b @ c) ! (n - 2) = b ! (n - 2)"
    "0 < n \<Longrightarrow> (b @ c) ! (n - 2 - 1) = b ! (n - 2 - 1)"
    by (auto simp: nth_append not_less)
  then show ?thesis by (cases "n = 0") (simp_all add: fix_length_def Let_def)
qed

text \<open>What comes of an ordinary name.\<close>

lemma fix_filename_ok:
  assumes "n \<le> length b" "0 \<notin> set (take n b)" "fix_length b n < length (b @ c)"
  shows "fix_filename (b @ c) n = Some (map lower (take (fix_length b n) b) @ 0 # drop (fix_length b n + 1) (b @ c))"
proof -
  let ?m = "fix_length b n"
  have le: "?m \<le> length b" using fix_length_le [of b n] assms(1) by simp
  have "(b @ c)[?m := 0] = take ?m (b @ c) @ 0 # drop (Suc ?m) (b @ c)" by (rule upd_conv_take_nth_drop) (use assms(3) in simp)
  also have "take ?m (b @ c) = take ?m b" using le by simp
  finally have u: "(b @ c)[?m := 0] = take ?m b @ 0 # drop (Suc ?m) (b @ c)" .
  have "set (take ?m b) \<subseteq> set (take n b)" using fix_length_le by (rule set_take_subset_set_take)
  then have z: "0 \<notin> set (take ?m b)" using assms(2) by blast
  have g: "n \<le> length (b @ c) \<and> fix_length (b @ c) n < length (b @ c)"
    using assms(1,3) fix_length_append [OF assms(1), of c] by simp
  show ?thesis unfolding fix_filename_def using g fix_length_append [OF assms(1), of c] u strtolower_cstr [OF z] by simp
qed


lemma strncmp_whole:
  "is_cstr xs nm \<Longrightarrow> is_cstr ys d \<Longrightarrow> \<exists>r. strncmp nm d (Suc (length ys)) = Some r \<and> (r = 0 \<longleftrightarrow> xs = ys)"
proof (induction ys arbitrary: xs nm d)
  case Nil
  then show ?case by (cases xs) (auto simp: is_cstr_Nil is_cstr_Cons dest: signed.linorder_cases [of _ 0])
next
  case (Cons y ys)
  obtain d' where d: "d = y # d'" "is_cstr ys d'" "y \<noteq> 0" using Cons.prems(2) by (auto simp: is_cstr_Cons)
  show ?case
  proof (cases xs)
    case Nil
    then obtain t where n: "nm = 0 # t" using Cons.prems(1) by (auto simp: is_cstr_Nil)
    have "0 <s y \<or> y <s 0" using signed.less_linear [of 0 y] d(3) by auto
    then show ?thesis using n d Nil by auto
  next
    case (Cons x xs')
    then obtain nm' where n: "nm = x # nm'" "is_cstr xs' nm'" "x \<noteq> 0" using Cons.prems(1) by (auto simp: is_cstr_Cons)
    show ?thesis
    proof (cases "x = y")
      case True
      then show ?thesis using Cons.IH [OF n(2) d(2)] n d Cons by auto
    next
      case False
      then have "x <s y \<or> y <s x" using signed.less_linear by blast
      then show ?thesis using n d Cons False by auto
    qed
  qed
qed

text \<open>One record in a page.\<close>

lemma record_bytes:
  assumes "iso_record b" "temp = pre @ b @ post"
  shows "\<not> length temp < length pre + 34" "descriptor_length temp (length pre) = length b" "length b \<noteq> 0"
    "temp ! (length pre + 33) = b ! 33" "ident_length temp (length pre) = ident_length b 0" "drop (length pre + 33) temp = drop 33 b @ post"
proof -
  have l: "34 \<le> length b" using assms(1) by (simp add: iso_record_def)
  have n: "j < length b \<Longrightarrow> temp ! (length pre + j) = b ! j" for j unfolding assms(2) by (simp add: nth_append)
  show "\<not> length temp < length pre + 34" "length b \<noteq> 0" using l by (auto simp: assms(2))
  show "descriptor_length temp (length pre) = length b" using n [of 0] l assms(1)
    by (cases "b = []") (simp_all add: descriptor_length_def iso_record_def)
  show "temp ! (length pre + 33) = b ! 33" using n [of 33] l by simp
  show "ident_length temp (length pre) = ident_length b 0" using n [of 32] l by (simp add: ident_length_def)
  show "drop (length pre + 33) temp = drop 33 b @ post" using l by (simp add: assms(2))
qed

text \<open>The name of a record, and the page after: the record is as long as it was, with the same header.\<close>

lemma record_entry_name:
  assumes b: "iso_record b" and temp: "temp = pre @ b @ post" and room: "roomy b \<or> post \<noteq> []"
  shows "\<exists>dname temp'. entry_name temp (length pre) = Some (dname, Suc (length (record_name b)), temp') \<and>
    is_cstr (record_name b) dname \<and> take (length pre + 33) temp' = take (length pre + 33) temp \<and>
    (if roomy b then drop (length pre + length b) temp' = post else \<exists>t. drop (length pre + length b) temp' = 0 # t)"
proof -
  note r = record_bytes [OF b temp]
  let ?n = "ident_length b 0" and ?x = "drop 33 b"
  show ?thesis
  proof (cases "b ! 33 = 0 \<or> b ! 33 = 1")
    case True
    then have "roomy b" by (auto simp: roomy_def)
    then show ?thesis using True r(4) by (auto simp: entry_name_def record_name_def is_cstr_def temp)
  next
    case False
    have n: "?n \<le> length ?x" "0 \<notin> set (take ?n ?x)" using b False by (auto simp: iso_record_def)
    have m: "record_fix b \<le> length ?x" using fix_length_le [of ?x ?n] n(1) by (simp add: record_fix_def)
    have less: "fix_length ?x ?n < length (?x @ post)" using room m False
      by (cases post) (auto simp: roomy_def record_fix_def)
    let ?d = "record_name b @ 0 # drop (record_fix b + 1) (?x @ post)"
    have f: "fix_filename (drop (length pre + 33) temp) (ident_length temp (length pre)) = Some ?d"
      using fix_filename_ok [OF n less] False unfolding r(5,6) by (simp add: record_name_def record_fix_def)
    have z: "0 \<notin> set (record_name b)"
    proof -
      have "set (take (record_fix b) ?x) \<subseteq> set (take ?n ?x)"
        unfolding record_fix_def using fix_length_le by (rule set_take_subset_set_take)
      then have "x \<noteq> 0" if "x \<in> set (take (record_fix b) ?x)" for x using n(2) that by blast
      then have "lower x \<noteq> 0" if "x \<in> set (take (record_fix b) ?x)" for x using lower_nonzero that by blast
      then have "0 \<notin> lower ` set (take (record_fix b) ?x)" unfolding image_iff by (metis (lifting))
      then show ?thesis using False by (simp add: record_name_def)
    qed
    then have c: "is_cstr (record_name b) ?d" by (auto simp: is_cstr_def)
    have len: "length (record_name b) = record_fix b" using m False by (simp add: record_name_def)
    have "ident_length b 0 < 2 ^ 8" unfolding ident_length_def using unsigned_less [of "b ! (0 + 32)"] by simp
    then have small: "length (record_name b) < 2 ^ 32" using fix_length_le [of ?x ?n] len by (simp add: record_fix_def)
    have e: "entry_name temp (length pre) = Some (?d, Suc (length (record_name b)), take (length pre + 33) temp @ ?d)"
      using False r(4) f strlen_cstr [OF c] small by (simp add: entry_name_def unat_of_nat_eq)
    have l33: "length pre + 33 \<le> length temp" using r(1) by simp
    define D where "D = ?d"
    have "drop (length pre + length b) (take (length pre + 33) temp @ D) = drop (length b - 33) D"
      using l33 b by (simp add: iso_record_def)
    moreover have "drop (length b - 33) D = post" if "roomy b"
    proof -
      have "record_fix b < length b - 33" using that False b by (simp add: roomy_def iso_record_def)
      then show ?thesis unfolding D_def using len by (simp add: drop_Cons')
    qed
    moreover have "drop (length b - 33) D = 0 # drop (record_fix b + 1) (?x @ post)" if "\<not> roomy b"
    proof -
      have "record_fix b = length b - 33" using that m b by (auto simp: roomy_def iso_record_def)
      then show ?thesis unfolding D_def using len by (simp add: drop_Cons')
    qed
    ultimately show ?thesis using e [folded D_def] c [folded D_def] l33
      by (intro exI [of _ D] exI [of _ "take (length pre + 33) temp @ D"] conjI) auto
  qed
qed

section \<open>Searching a directory\<close>

lemma search_records:
  assumes "is_cstr nm name" "\<forall>b \<in> set bs. iso_record b \<and> roomy b" "temp = pre @ concat bs @ 0 # post"
  shows "\<exists>temp'. cdrom_search name temp (length pre) = Some (map_option fst (find_record nm bs (length pre)), temp') \<and>
    (\<forall>i b. find_record nm bs (length pre) = Some (i, b) \<longrightarrow> iso_record b \<and> take 33 (drop i temp') = take 33 b)"
  using assms(2,3)
proof (induction bs arbitrary: pre temp)
  case Nil
  have "temp ! length pre = 0" using Nil by simp
  then show ?case using Nil by (subst cdrom_search.simps) (auto simp: descriptor_length_def)
next
  case (Cons b bs)
  have b: "iso_record b" "roomy b" using Cons.prems(1) by simp_all
  have temp: "temp = pre @ b @ (concat bs @ 0 # post)" using Cons.prems(2) by simp
  note r = record_bytes [OF b(1) temp]
  obtain dname temp' where e: "entry_name temp (length pre) = Some (dname, Suc (length (record_name b)), temp')"
    and c: "is_cstr (record_name b) dname" and t: "take (length pre + 33) temp' = take (length pre + 33) temp"
      "drop (length pre + length b) temp' = concat bs @ 0 # post"
    using record_entry_name [OF b(1) temp] b(2) by auto
  obtain x where x: "strncmp name dname (Suc (length (record_name b))) = Some x" "x = 0 \<longleftrightarrow> nm = record_name b"
    using strncmp_whole [OF assms(1) c] by blast
  have s: "cdrom_search name temp (length pre) =
    (if record_name b = nm then Some (Some (length pre), temp') else cdrom_search name temp' (length pre + descriptor_length temp' (length pre)))"
    using r(1-3) e x by (subst cdrom_search.simps) auto
  have l33: "length pre + 33 \<le> length temp" using r(1) by simp
  have l: "length temp' = length temp" using length_entry_name [OF e l33] .
  show ?case
  proof (cases "record_name b = nm")
    case True
    have "take 33 (drop (length pre) temp') = drop (length pre) (take (length pre + 33) temp')" by (simp add: drop_take)
    also have "\<dots> = take 33 b" unfolding t(1) using b(1) by (simp add: temp iso_record_def)
    finally show ?thesis using s True b(1) by simp
  next
    case False
    have d: "descriptor_length temp' (length pre) = length b" using descriptor_entry_name [OF e l33] r(2) by simp
    define pre' where "pre' = take (length pre + length b) temp'"
    have "length pre + length b \<le> length temp'" using l by (simp add: temp)
    then have lp: "length pre' = length pre + length b" by (simp add: pre'_def)
    have temp': "temp' = pre' @ concat bs @ 0 # post" using append_take_drop_id [of "length pre + length b" temp'] t(2) by (simp add: pre'_def)
    have "\<forall>b \<in> set bs. iso_record b \<and> roomy b" using Cons.prems(1) by simp
    from Cons.IH [OF this temp'] show ?thesis using False s d by (simp add: lp)
  qed
qed

text \<open>A record whose name fills it hides every record after it in its sector.\<close>

lemma search_tight:
  assumes "is_cstr nm name" "iso_record b" "\<not> roomy b" "record_name b \<noteq> nm" "post \<noteq> []"
  shows "\<exists>temp'. cdrom_search name (b @ post) 0 = Some (None, temp')"
proof -
  have temp: "b @ post = [] @ b @ post" by simp
  note r = record_bytes [OF assms(2) temp, unfolded list.size add_0]
  obtain dname temp' where e: "entry_name (b @ post) 0 = Some (dname, Suc (length (record_name b)), temp')"
    and c: "is_cstr (record_name b) dname" and t: "\<exists>t. drop (length b) temp' = 0 # t"
    using record_entry_name [OF assms(2) temp] assms(3,5) by auto
  obtain x where x: "strncmp name dname (Suc (length (record_name b))) = Some x" "x \<noteq> 0"
    using strncmp_whole [OF assms(1) c] assms(4) by auto
  have l33: "0 + 33 \<le> length (b @ post)" using r(1) by simp
  have d: "descriptor_length temp' 0 = length b" using descriptor_entry_name [OF e l33] r(2) by simp
  have "length b < length temp'" "temp' ! length b = 0"
    using t length_entry_name [OF e l33] assms(5) by (auto simp: drop_eq_nths nth_via_drop)
  then have "cdrom_search name temp' (length b) = Some (None, temp')"
    by (subst cdrom_search.simps) (simp add: descriptor_length_def)
  moreover have "cdrom_search name (b @ post) 0 = cdrom_search name temp' (length b)"
    using r(1-3) e x d by (subst cdrom_search.simps) simp
  ultimately show ?thesis by simp
qed


lemma read_block_dirents: "cdrom_dirent_read_block d b k s = Some (r, b', s') \<Longrightarrow> dirents s' = dirents s"
  by (auto simp: cdrom_dirent_read_block_def cdrom_read_def bind_eq_Some_conv)

text \<open>Equal headers have equal fields.\<close>

lemma le32_eq: "(\<And>j. j < 4 \<Longrightarrow> x ! (i + j) = y ! (k + j)) \<Longrightarrow> le32 x i = le32 y k"
proof -
  assume a: "\<And>j. j < 4 \<Longrightarrow> x ! (i + j) = y ! (k + j)"
  from a [of 0] a [of 1] a [of 2] a [of 3] show ?thesis by (simp add: le32_def)
qed

lemma header_fields:
  assumes "take 33 (drop i temp) = take 33 b" "iso_record b"
  shows "length_little temp i = length_little b 0" "first_sector_little temp i = first_sector_little b 0"
    "entry_flags_at temp i = entry_flags_at b 0"
proof -
  have l: "33 \<le> length (drop i temp)" using arg_cong [OF assms(1), of length] assms(2) by (simp add: iso_record_def)
  have n: "temp ! (i + j) = b ! j" if "j < 33" for j
    using arg_cong [OF assms(1), of "\<lambda>x. x ! j"] that l by simp
  show "length_little temp i = length_little b 0" "first_sector_little temp i = first_sector_little b 0"
    "entry_flags_at temp i = entry_flags_at b 0"
    unfolding length_little_def first_sector_little_def entry_flags_at_def
  proof -
    show "le32 temp (i + 10) = le32 b (0 + 10)" by (rule le32_eq) (use n in \<open>simp add: add.assoc\<close>)
    show "le32 temp (i + 2) = le32 b (0 + 2)"
    proof (rule le32_eq)
      fix j :: nat assume "j < 4"
      then show "temp ! (i + 2 + j) = b ! (0 + 2 + j)" using n [of "2 + j"] by simp
    qed
    show "temp ! (i + 25) = b ! (0 + 25)" using n [of 25] by simp
  qed
qed

lemma one_sector: "0 < unat (d_size (dirents s d)) \<Longrightarrow> unat (d_size (dirents s d)) \<le> 2048 \<Longrightarrow> [0..<dir_sectors s d] = [0]"
  by (cases "unat (d_size (dirents s d)) = 2048") (simp_all add: dir_sectors_def CDROMFS_BLOCK_SIZE_def)

text \<open>Claim C14.  Looking up a name in a directory of one sector finds the first record with that name: without its version and
  the dot at its end, and in lower case.  The new entry has the length, the first sector and the kind that the record
  says.  This holds when the name of no record fills it to its last byte.\<close>

theorem cdrom_lookup_finds:
  assumes "d_isdir (dirents s d)" "0 < unat (d_size (dirents s d))" "unat (d_size (dirents s d)) \<le> 2048"
    and "cdrom_dirent_read_block d tmp 0 s = Some (r, concat bs @ 0 # post, s1)" "\<forall>b \<in> set bs. iso_record b \<and> roomy b"
    and "is_cstr nm name" "al s1 \<noteq> 0"
  shows "case find_record nm bs 0 of
      None \<Rightarrow> cdrom_dirent_lookup al tmp d name s = Some (0, s1)
    | Some (i, b) \<Rightarrow> \<exists>s'. cdrom_dirent_lookup al tmp d name s = Some (al s1, s') \<and>
        d_volume (dirents s' (al s1)) = d_volume (dirents s d) \<and> d_size (dirents s' (al s1)) = length_little b 0 \<and>
        dpriv (dirents s' (al s1)) = sint (first_sector_little b 0) \<and>
        d_isdir (dirents s' (al s1)) = (entry_flags_at b 0 AND ISO_9660_EXTENT_FLAG_DIRECTORY \<noteq> 0)"
proof -
  obtain temp' where f: "cdrom_search name (concat bs @ 0 # post) 0 = Some (map_option fst (find_record nm bs 0), temp')"
    and h: "\<And>i b. find_record nm bs 0 = Some (i, b) \<Longrightarrow> iso_record b \<and> take 33 (drop i temp') = take 33 b"
    using search_records [OF assms(6,5), of "concat bs @ 0 # post" "[]" post] unfolding append_Nil list.size by blast
  have look: "cdrom_dirent_lookup al tmp d name s = cdrom_lookup_sectors al d name [0] tmp s"
    using assms(1) one_sector [OF assms(2,3)] by (simp add: cdrom_dirent_lookup_def)
  show ?thesis
  proof (cases "find_record nm bs 0")
    case None
    then show ?thesis using look assms(4) f by simp
  next
    case (Some x)
    obtain i b where x: "x = (i, b)" by (cases x)
    note hb = header_fields [of i temp' b] and hs = h [OF Some [unfolded x]]
    show ?thesis using look assms(4,7) f Some x hb hs read_block_dirents [OF assms(4)]
      by (simp add: cdrom_dirent_create_def Let_def upd_dirent_def)
  qed
qed

text \<open>A name that fills its record to the last byte ends the directory: its zero is written over the length of the
  next record.  No record after it is found, whatever follows.\<close>

theorem cdrom_tight_name_hides:
  assumes "d_isdir (dirents s d)" "0 < unat (d_size (dirents s d))" "unat (d_size (dirents s d)) \<le> 2048"
    and "cdrom_dirent_read_block d tmp 0 s = Some (r, b @ post, s1)" "iso_record b" "\<not> roomy b" "post \<noteq> []"
    and "is_cstr nm name" "record_name b \<noteq> nm"
  shows "cdrom_dirent_lookup al tmp d name s = Some (0, s1)"
proof -
  obtain temp' where "cdrom_search name (b @ post) 0 = Some (None, temp')" using search_tight [OF assms(8,5,6,9,7)] by blast
  then show ?thesis using assms(1,4) one_sector [OF assms(2,3)] by (simp add: cdrom_dirent_lookup_def)
qed

text \<open>A disc whose root directory, at sector 22 and in the cache, holds the file \<^verbatim>\<open>A.;1\<close>.\<close>

definition sample_record :: buf where
  "sample_record = [38, 0, 5, 0, 0, 0, 0, 0, 0, 5, 100, 0, 0, 0, 0, 0, 0, 100, 0, 0, 0, 0, 0, 0, 0, 0, 0, 0, 1, 0, 0, 1, 4, 65, 46, 59, 49, 0]"

definition sample_disc :: "buf \<Rightarrow> unit cdvfs" where
  "sample_disc sector = \<lparr>volumes = (\<lambda>_. \<lparr>v_fs = 0, v_device = 7, v_block_size = 2048, v_refcount = 1,
       vpriv = \<lparr>root_sector = 22, root_length = 2048, total_sectors = 100\<rparr>\<rparr>),
     dirents = (\<lambda>_. \<lparr>d_volume = 5, d_size = 2048, d_inumber = 0, d_refcount = 1, d_isdir = True, dpriv = 22\<rparr>),
     fs_list = [], fs_name = (\<lambda>_. [0]), vfreed = {},
     vcache = \<lparr>lheap = \<lparr>nodes = (\<lambda>_. \<lparr>nxt = 0, prv = 0, owner = 1, priority = 0\<rparr>), lists = (\<lambda>_. \<lparr>head = 20, tail = 20, lsize = 1\<rparr>)\<rparr>,
       entries = (\<lambda>_. \<lparr>device = 7, block = 22, dirty = False, page = sector\<rparr>),
       bstats = \<lparr>read_hits = 0, read_misses = 0, write_hits = 0, write_misses = 0, writebacks = 0\<rparr>,
       max_cache_size = 1, kalloc = (\<lambda>_. (0, False)), palloc = (\<lambda>_. False), kused = {},
       world = \<lparr>driver_list = [], drivers = (\<lambda>_. \<lparr>drv_name = [0], drv_probe = (\<lambda>_ h. (None, h)), drv_read = None, drv_read_nonblock = None,
         drv_write = None, drv_multiplier = 1, blocks_read = 0, blocks_written = 0\<rparr>),
         devices = (\<lambda>_. \<lparr>driver = 0, refcount = 1, unit_no = 0, block_size = 2048, nblocks = 100, multiplier = 1\<rparr>), hw = ()\<rparr>\<rparr>\<rparr>"

lemma sample_disc_read:
  "length sector \<le> 2048 \<Longrightarrow> \<exists>s1. cdrom_dirent_read_block 3 [] 0 (sample_disc sector) = Some (2048, sector, s1)"
  by (simp add: cdrom_dirent_read_block_def cdrom_read_def bcache_read_def bcache_read_block_def bcache_find_or_create_def
      bcache_find_def bcache_find_from.simps bcache_trim.simps sample_disc_def list_size_def get_list_def CACHE_def
      device_block_size_def put_bytes_def CDROMFS_BLOCK_SIZE_def Let_def)


lemma sample_record_ok:
  "iso_record sample_record" "roomy sample_record" "record_name sample_record = [97]" "length_little sample_record 0 = 100"
  by (simp_all add: sample_record_def iso_record_def roomy_def record_name_def record_fix_def fix_length_def ident_length_def
      descriptor_length_def lower_def length_little_def le32_def Let_def)

theorem cdrom_lookup_finds_witness:
  "\<exists>s'. cdrom_dirent_lookup (\<lambda>_. 40) [] 3 [97, 0] (sample_disc (sample_record @ [0])) = Some (40, s') \<and> d_size (dirents s' 40) = 100"
proof -
  let ?s = "sample_disc (sample_record @ [0])"
  have "length (sample_record @ [0 :: u8]) \<le> 2048" by (simp add: sample_record_def)
  then obtain s1 where r: "cdrom_dirent_read_block 3 [] 0 ?s = Some (2048, concat [sample_record] @ 0 # [], s1)"
    using sample_disc_read [of "sample_record @ [0]"] by auto
  have d: "d_isdir (dirents ?s 3)" "0 < unat (d_size (dirents ?s 3))" "unat (d_size (dirents ?s 3)) \<le> 2048"
    by (simp_all add: sample_disc_def)
  have "\<forall>b \<in> set [sample_record]. iso_record b \<and> roomy b" "is_cstr [97] [97, 0]" "(40 :: ptr) \<noteq> 0"
    using sample_record_ok by (simp_all add: is_cstr_def)
  from cdrom_lookup_finds [OF d r this(1,2), of "\<lambda>_. 40", OF this(3)] show ?thesis using sample_record_ok by auto
qed

text \<open>A directory named \<^verbatim>\<open>DIR\<close> in front of the file.\<close>

definition tight_record :: buf where
  "tight_record = [36, 0, 6, 0, 0, 0, 0, 0, 0, 6, 0, 8, 0, 0, 0, 0, 8, 0, 0, 0, 0, 0, 0, 0, 0, 2, 0, 0, 1, 0, 0, 1, 3, 68, 73, 82]"

theorem cdrom_tight_name_hides_witness:
  "\<exists>s1. cdrom_dirent_lookup (\<lambda>_. 40) [] 3 [97, 0] (sample_disc (tight_record @ sample_record @ [0])) = Some (0, s1)"
proof -
  let ?s = "sample_disc (tight_record @ sample_record @ [0])"
  have "length (tight_record @ sample_record @ [0 :: u8]) \<le> 2048" by (simp add: sample_record_def tight_record_def)
  then obtain s1 where r: "cdrom_dirent_read_block 3 [] 0 ?s = Some (2048, tight_record @ (sample_record @ [0]), s1)"
    using sample_disc_read [of "tight_record @ sample_record @ [0]"] by auto
  have d: "d_isdir (dirents ?s 3)" "0 < unat (d_size (dirents ?s 3))" "unat (d_size (dirents ?s 3)) \<le> 2048"
    by (simp_all add: sample_disc_def)
  have b: "iso_record tight_record" "\<not> roomy tight_record" "record_name tight_record \<noteq> [97]" "sample_record @ [0] \<noteq> []"
    by (simp_all add: tight_record_def iso_record_def roomy_def record_name_def record_fix_def fix_length_def ident_length_def
      descriptor_length_def lower_def Let_def)
  have c: "is_cstr [97] [97, 0]" by (simp add: is_cstr_def)
  from cdrom_tight_name_hides [OF d r b(1,2,4) c b(3)] show ?thesis by blast
qed

end
