(* ===== verification/Process.thy ===== *)
theory Process
  imports Pagetable Klist
begin

text \<open>
  Processes and the scheduler, \<^verbatim>\<open>kernel/process.c\<close>, over the lists of \<^verbatim>\<open>kernel/list.c\<close> and the page
  tables.  A process is known by the address of its \<^verbatim>\<open>struct process\<close>, which is also the address
  of its list node.  The kernel stacks are words of the memory \<open>kmem\<close>; the context switch saves
  and loads the registers \<open>cpu\<close> there as its assembly does.  A call of \<^verbatim>\<open>process_switch\<close> ends in
  the context of another process, or with no process while the kernel waits for interrupts.
\<close>

section \<open>State\<close>

datatype process_state_t =
    PROCESS_STATE_CRADLE
  | PROCESS_STATE_READY
  | PROCESS_STATE_RUNNING
  | PROCESS_STATE_BLOCKED
  | PROCESS_STATE_GRAVE

definition PROCESS_MAX_OBJECTS :: nat where "PROCESS_MAX_OBJECTS = 32"
definition PROCESS_MAX_PID :: nat where "PROCESS_MAX_PID = 1024"
definition PROCESS_EXIT_NORMAL :: int where "PROCESS_EXIT_NORMAL = 0"
definition PROCESS_EXIT_KILLED :: int where "PROCESS_EXIT_KILLED = 1"
definition PROCESS_ENTRY_POINT :: u32 where "PROCESS_ENTRY_POINT = 0x80000000"
definition PROCESS_STACK_INIT :: u32 where "PROCESS_STACK_INIT = 0xfffffff0"
definition INTERRUPT_STACK_TOP :: u32 where "INTERRUPT_STACK_TOP = 0xfff0"
definition X86_SEGMENT_USER_CODE :: u32 where "X86_SEGMENT_USER_CODE = push_bit 3 3 + 3"
definition X86_SEGMENT_USER_DATA :: u32 where "X86_SEGMENT_USER_DATA = push_bit 3 4 + 3"

record process_stats_t =
  p_blocks_read :: int
  p_blocks_written :: int
  p_bytes_read :: int
  p_bytes_written :: int
  syscall_count :: "nat \<Rightarrow> int"

record process =
  pstate :: process_state_t
  exitcode :: int
  exitreason :: int
  pagetable :: u32
  kstack :: u32
  kstack_top :: u32
  kstack_ptr :: u32
  ktable :: "ptr list"
  stats :: process_stats_t
  pid :: u32
  ppid :: u32
  vm_data_size :: u32
  vm_stack_size :: u32
  waiting_for_child_pid :: u32

text \<open>The registers of \<^verbatim>\<open>struct x86_regs\<close> and the stack pointer.\<close>

record x86_regs =
  eax :: u32
  ebx :: u32
  ecx :: u32
  edx :: u32
  esi :: u32
  edi :: u32
  ebp :: u32
  esp :: u32

text \<open>
  The state of the kernel the module works on.  \<open>boot\<close> holds what the boot code and the linker
  provide: the size of the memory, the video buffer and the address of \<^verbatim>\<open>intr_return\<close>.
\<close>

record bootinfo =
  total_memory :: u16
  video_buffer :: u32
  video_xres :: u16
  video_yres :: u16
  intr_return :: u32

record 'k psys =
  lh :: lheap
  procs :: "ptr \<Rightarrow> process"
  current :: ptr
  process_table :: "nat \<Rightarrow> ptr"
  last_pid :: int
  kmem :: "u32 \<Rightarrow> u32"
  cpu :: x86_regs
  cr3 :: u32
  interrupt_stack_pointer :: u32
  allow_preempt :: bool
  mem :: pmem
  boot :: bootinfo
  kobjs :: 'k

definition ready_list :: ptr where "ready_list = 1"
definition grave_list :: ptr where "grave_list = 2"
definition grave_watcher_list :: ptr where "grave_watcher_list = 3"

definition upd_proc :: "ptr \<Rightarrow> (process \<Rightarrow> process) \<Rightarrow> 'k psys \<Rightarrow> 'k psys" where
  "upd_proc p f s = s\<lparr>procs := (procs s)(p := f (procs s p))\<rparr>"

text \<open>A list operation on the state.\<close>

definition on_lists :: "(lheap \<Rightarrow> lheap option) \<Rightarrow> 'k psys \<Rightarrow> 'k psys option" where
  "on_lists f s = map_option (\<lambda>h. s\<lparr>lh := h\<rparr>) (f (lh s))"

definition pop_list :: "ptr \<Rightarrow> 'k psys \<Rightarrow> (ptr \<times> 'k psys) option" where
  "pop_list l s = map_option (\<lambda>(p, h). (p, s\<lparr>lh := h\<rparr>)) (list_pop_head l (lh s))"

section \<open>Kernel stacks\<close>

text \<open>The fields of \<^verbatim>\<open>struct x86_stack\<close>, as offsets of words; its size is 108 bytes.\<close>

definition X86_STACK_SIZE :: u32 where "X86_STACK_SIZE = 108"

definition set_word :: "u32 \<Rightarrow> u32 \<Rightarrow> 'k psys \<Rightarrow> 'k psys" where
  "set_word a w s = s\<lparr>kmem := (kmem s)(a := w)\<rparr>"

definition process_kstack_reset :: "ptr \<Rightarrow> u32 \<Rightarrow> 'k psys \<Rightarrow> 'k psys" where
  "process_kstack_reset p entry_point s =
     (let s = upd_proc p (\<lambda>x. x\<lparr>pstate := PROCESS_STATE_CRADLE\<rparr>) s;
          a = kstack_ptr (procs s p) in
      set_word (a + 104) X86_SEGMENT_USER_DATA
       (set_word (a + 100) PROCESS_STACK_INIT
       (set_word (a + 96) (kmem s (a + 96) OR push_bit 9 1 OR push_bit 12 3)
       (set_word (a + 88) entry_point
       (set_word (a + 92) X86_SEGMENT_USER_CODE
       (set_word (a + 76) X86_SEGMENT_USER_DATA
       (set_word (a + 72) X86_SEGMENT_USER_DATA
       (set_word (a + 64) 0
       (set_word (a + 68) 0
       (set_word (a + 32) (intr_return (boot s))
       (set_word (a + 28) (a + 32)
       (set_word (a + 24) (a + 28) s))))))))))))"

definition process_kstack_copy :: "ptr \<Rightarrow> ptr \<Rightarrow> 'k psys \<Rightarrow> 'k psys" where
  "process_kstack_copy parent child s =
     (let s = upd_proc child (\<lambda>x. x\<lparr>kstack_top := kstack x + of_nat PAGE_SIZE - 8\<rparr>) s;
          s = upd_proc child (\<lambda>x. x\<lparr>kstack_ptr := kstack_top x - X86_STACK_SIZE\<rparr>) s;
          c = kstack_ptr (procs s child);
          p = kstack_top (procs s parent) - X86_STACK_SIZE;
          s = fold (\<lambda>i s. set_word (c + 4 * of_nat i) (kmem s (p + 4 * of_nat i)) s) [0..<27] s in
      set_word (c + 36) 0
       (set_word (c + 32) (intr_return (boot s))
       (set_word (c + 28) (c + 32)
       (set_word (c + 24) (c + 28) s))))"

section \<open>Process numbers\<close>

text \<open>The two searches of \<^verbatim>\<open>process_allocate_pid\<close>; \<open>last\<close> is its static variable.\<close>

definition process_allocate_pid :: "'k psys \<Rightarrow> int \<times> 'k psys" where
  "process_allocate_pid s =
     (case find (\<lambda>i. process_table s i = 0) [nat (last_pid s + 1)..<PROCESS_MAX_PID] of
        Some i \<Rightarrow> (int i, s\<lparr>last_pid := int i\<rparr>)
      | None \<Rightarrow>
          (case find (\<lambda>i. process_table s i = 0) [1..<nat (last_pid s)] of
             Some i \<Rightarrow> (int i, s\<lparr>last_pid := int i\<rparr>)
           | None \<Rightarrow> (0, s)))"

section \<open>Objects\<close>

text \<open>
  The objects of a process; \<open>copy\<close> is \<^verbatim>\<open>kobject_copy\<close> and \<open>close\<close> is \<^verbatim>\<open>kobject_close\<close>.  An index
  beyond the table is outside the structure.
\<close>

fun process_selective_inherit :: "(ptr \<Rightarrow> 'k psys \<Rightarrow> (ptr \<times> 'k psys) option) \<Rightarrow> ptr \<Rightarrow> ptr \<Rightarrow> int list \<Rightarrow> nat \<Rightarrow> 'k psys \<Rightarrow> 'k psys option" where
  "process_selective_inherit copy parent child [] i s = Some (upd_proc child (\<lambda>x. x\<lparr>ppid := pid (procs s parent)\<rparr>) s)"
| "process_selective_inherit copy parent child (fd # fds) i s =
     (if i \<ge> PROCESS_MAX_OBJECTS \<or> fd \<ge> int PROCESS_MAX_OBJECTS then None
      else do {
        (k, s) \<leftarrow> (if fd > -1 then copy (ktable (procs s parent) ! nat fd) s else Some (0, s));
        process_selective_inherit copy parent child fds (i + 1) (upd_proc child (\<lambda>x. x\<lparr>ktable := (ktable x)[i := k]\<rparr>) s)
      })"

definition process_inherit :: "(ptr \<Rightarrow> 'k psys \<Rightarrow> (ptr \<times> 'k psys) option) \<Rightarrow> ptr \<Rightarrow> ptr \<Rightarrow> 'k psys \<Rightarrow> 'k psys option" where
  "process_inherit copy parent child s =
     process_selective_inherit copy parent child
       (map (\<lambda>i. if ktable (procs s parent) ! i \<noteq> 0 then int i else -1) [0..<PROCESS_MAX_OBJECTS]) 0 s"

definition process_available_fd :: "'k psys \<Rightarrow> int" where
  "process_available_fd s =
     (case find (\<lambda>i. ktable (procs s (current s)) ! i = 0) [0..<PROCESS_MAX_OBJECTS] of Some i \<Rightarrow> int i | None \<Rightarrow> -1)"

definition process_object_max :: "'k psys \<Rightarrow> int" where
  "process_object_max s =
     (case find (\<lambda>i. ktable (procs s (current s)) ! i \<noteq> 0) (rev [0..<PROCESS_MAX_OBJECTS]) of Some i \<Rightarrow> int i | None \<Rightarrow> -1)"

fun close_objects :: "(ptr \<Rightarrow> 'k psys \<Rightarrow> 'k psys option) \<Rightarrow> ptr list \<Rightarrow> 'k psys \<Rightarrow> 'k psys option" where
  "close_objects close [] s = Some s"
| "close_objects close (k # ks) s = do { s \<leftarrow> (if k \<noteq> 0 then close k s else Some s); close_objects close ks s }"

section \<open>Memory\<close>

definition PAGE_FLAG_USER :: u32 where "PAGE_FLAG_USER = 0"

definition process_data_size_set :: "ptr \<Rightarrow> u32 \<Rightarrow> 'k psys \<Rightarrow> (int \<times> 'k psys) option" where
  "process_data_size_set p sz s = do {
     let x = procs s p;
     let sz = (if sz mod of_nat PAGE_SIZE \<noteq> 0 then sz + (of_nat PAGE_SIZE - sz mod of_nat PAGE_SIZE) else sz);
     m \<leftarrow> (if sz > vm_data_size x
       then pagetable_alloc (pagetable x) (PROCESS_ENTRY_POINT + vm_data_size x) sz
              (PAGE_FLAG_USER OR PAGE_FLAG_READWRITE OR PAGE_FLAG_CLEAR) (mem s)
       else if sz < vm_data_size x
       then Some (pagetable_free (pagetable x) (PROCESS_ENTRY_POINT + sz) (vm_data_size x) (mem s))
       else Some (mem s));
     Some (0, upd_proc p (\<lambda>x. x\<lparr>vm_data_size := sz\<rparr>) (s\<lparr>mem := m\<rparr>))
   }"

definition process_stack_size_set :: "ptr \<Rightarrow> u32 \<Rightarrow> 'k psys \<Rightarrow> (int \<times> 'k psys) option" where
  "process_stack_size_set p sz s = do {
     let x = procs s p;
     m \<leftarrow> (if sz > vm_stack_size x
       then pagetable_alloc (pagetable x) (- sz) (sz - vm_stack_size x)
              (PAGE_FLAG_USER OR PAGE_FLAG_READWRITE OR PAGE_FLAG_CLEAR) (mem s)
       else Some (pagetable_free (pagetable x) (- vm_stack_size x) (vm_stack_size x - sz) (mem s)));
     Some (0, upd_proc p (\<lambda>x. x\<lparr>vm_stack_size := sz\<rparr>) (s\<lparr>mem := m\<rparr>))
   }"

text \<open>The call \<^verbatim>\<open>memset((void *) -size, size, 0)\<close> has length 0.\<close>

definition process_stack_reset :: "ptr \<Rightarrow> u32 \<Rightarrow> 'k psys \<Rightarrow> 'k psys option" where
  "process_stack_reset p sz s = map_option snd (process_stack_size_set p sz s)"

section \<open>Creation and deletion\<close>

definition zero_stats :: process_stats_t where
  "zero_stats = \<lparr>p_blocks_read = 0, p_blocks_written = 0, p_bytes_read = 0, p_bytes_written = 0, syscall_count = (\<lambda>_. 0)\<rparr>"

definition zero_process :: process where
  "zero_process = \<lparr>pstate = PROCESS_STATE_CRADLE, exitcode = 0, exitreason = 0, pagetable = 0, kstack = 0, kstack_top = 0,
     kstack_ptr = 0, ktable = replicate PROCESS_MAX_OBJECTS 0, stats = zero_stats, pid = 0, ppid = 0,
     vm_data_size = 0, vm_stack_size = 0, waiting_for_child_pid = 0\<rparr>"

text \<open>A new process is a zeroed page, with a node on no list.  Exhausted process numbers give
  the number 0, which \<^verbatim>\<open>process_create\<close> uses like any other.\<close>

definition process_create :: "'k psys \<Rightarrow> (ptr \<times> 'k psys) option" where
  "process_create s = do {
     (pa, m) \<leftarrow> page_alloc True (mem s);
     let p = unat pa;
     let s = s\<lparr>mem := m, procs := (procs s)(p := zero_process),
               lh := (lh s)\<lparr>nodes := (nodes (lh s))(p := \<lparr>nxt = 0, prv = 0, owner = 0, priority = 0\<rparr>)\<rparr>\<rparr>;
     let (n, s) = process_allocate_pid s;
     let s = upd_proc p (\<lambda>x. x\<lparr>pid := word_of_int n\<rparr>) s;
     let s = s\<lparr>process_table := (process_table s)(nat n := p)\<rparr>;
     (pt, m) \<leftarrow> pagetable_create (mem s);
     m \<leftarrow> pagetable_init (total_memory (boot s)) (video_buffer (boot s)) (video_xres (boot s)) (video_yres (boot s)) pt m;
     let s = upd_proc p (\<lambda>x. x\<lparr>pagetable := pt, vm_data_size := 0, vm_stack_size := 0\<rparr>) (s\<lparr>mem := m\<rparr>);
     (r, s) \<leftarrow> process_data_size_set p (2 * of_nat PAGE_SIZE) s;
     (r, s) \<leftarrow> process_stack_size_set p (2 * of_nat PAGE_SIZE) s;
     (ks, m) \<leftarrow> page_alloc True (mem s);
     let s = upd_proc p (\<lambda>x. x\<lparr>kstack := ks, kstack_top := ks + of_nat PAGE_SIZE - 8,
                             kstack_ptr := ks + of_nat PAGE_SIZE - 8 - X86_STACK_SIZE\<rparr>) (s\<lparr>mem := m\<rparr>);
     let s = process_kstack_reset p PROCESS_ENTRY_POINT s;
     let s = upd_proc p (\<lambda>x. x\<lparr>ktable := replicate PROCESS_MAX_OBJECTS 0, pstate := PROCESS_STATE_READY\<rparr>) s;
     Some (p, s)
   }"

definition process_delete :: "(ptr \<Rightarrow> 'k psys \<Rightarrow> 'k psys option) \<Rightarrow> ptr \<Rightarrow> 'k psys \<Rightarrow> 'k psys option" where
  "process_delete close p s = do {
     s \<leftarrow> close_objects close (ktable (procs s p)) s;
     let m = pagetable_delete (pagetable (procs s p)) (mem s);
     let m = page_free (kstack (procs s p)) m;
     let m = page_free (of_nat p) m;
     Some (s\<lparr>mem := m, process_table := (process_table s)(unat (pid (procs s p)) := 0)\<rparr>)
   }"

definition process_init :: "'k psys \<Rightarrow> 'k psys option" where
  "process_init s = do {
     (p, s) \<leftarrow> process_create s;
     Some (upd_proc p (\<lambda>x. x\<lparr>pstate := PROCESS_STATE_READY, waiting_for_child_pid := 0\<rparr>) (s\<lparr>current := p, cr3 := pagetable (procs s p)\<rparr>))
   }"

definition process_launch :: "ptr \<Rightarrow> 'k psys \<Rightarrow> 'k psys option" where
  "process_launch p s = on_lists (list_push_tail ready_list p) s"

end
