(* ===== verification/Scheduler.thy ===== *)
theory Scheduler
  imports Process
begin

text \<open>
  Scheduling in \<^verbatim>\<open>kernel/process.c\<close>: the context switch, waiting and waking, exit, kill and reap,
  and the mutexes of \<^verbatim>\<open>kernel/mutex.c\<close>.  Loops along lists and the recursion of
  \<^verbatim>\<open>process_make_dead\<close> are partial functions, whose value \<open>None\<close> includes a loop without end.
\<close>

section \<open>The context switch\<close>

text \<open>The seven pushes and pops of \<^verbatim>\<open>process_switch\<close>, with the stack pointer.\<close>

definition save_context :: "'k psys \<Rightarrow> 'k psys" where
  "save_context s =
     (let c = cpu s; a = esp c - 28 in
      upd_proc (current s) (\<lambda>x. x\<lparr>kstack_ptr := a\<rparr>)
       (set_word a (eax c) (set_word (a + 4) (ebx c) (set_word (a + 8) (ecx c) (set_word (a + 12) (edx c)
       (set_word (a + 16) (esi c) (set_word (a + 20) (edi c) (set_word (a + 24) (ebp c)
         (s\<lparr>cpu := c\<lparr>esp := a\<rparr>\<rparr>)))))))))"

definition regs_at :: "(u32 \<Rightarrow> u32) \<Rightarrow> u32 \<Rightarrow> x86_regs" where
  "regs_at m a = \<lparr>eax = m a, ebx = m (a + 4), ecx = m (a + 8), edx = m (a + 12), esi = m (a + 16), edi = m (a + 20),
     ebp = m (a + 24), esp = a + 28\<rparr>"

definition process_switch_out :: "process_state_t \<Rightarrow> 'k psys \<Rightarrow> 'k psys option" where
  "process_switch_out newstate s = do {
     s \<leftarrow> (if current s \<noteq> 0 then do {
         let s = (if pstate (procs s (current s)) \<noteq> PROCESS_STATE_CRADLE then save_context s else s);
         let s = upd_proc (current s) (\<lambda>x. x\<lparr>pstate := newstate\<rparr>) (s\<lparr>interrupt_stack_pointer := INTERRUPT_STACK_TOP\<rparr>);
         s \<leftarrow> (if newstate = PROCESS_STATE_READY then on_lists (list_push_tail ready_list (current s)) s else Some s);
         (if newstate = PROCESS_STATE_GRAVE then on_lists (list_push_tail grave_list (current s)) s else Some s)
       } else Some s);
     Some (s\<lparr>current := 0\<rparr>)
   }"

text \<open>One round of the loop that takes the next process; with none, the kernel stays idle.\<close>

definition process_pick :: "'k psys \<Rightarrow> 'k psys option" where
  "process_pick s = do {
     (p, s) \<leftarrow> pop_list ready_list s;
     if p = 0 then Some (s\<lparr>current := 0\<rparr>)
     else do {
       let s = upd_proc p (\<lambda>x. x\<lparr>pstate := PROCESS_STATE_RUNNING\<rparr>) (s\<lparr>current := p\<rparr>);
       Some (s\<lparr>interrupt_stack_pointer := kstack_top (procs s p), cr3 := pagetable (procs s p),
         cpu := regs_at (kmem s) (kstack_ptr (procs s p))\<rparr>)
     }
   }"

definition process_switch :: "process_state_t \<Rightarrow> 'k psys \<Rightarrow> 'k psys option" where
  "process_switch newstate s = do { s \<leftarrow> process_switch_out newstate s; process_pick s }"

definition process_preempt :: "'k psys \<Rightarrow> 'k psys option" where
  "process_preempt s =
     (if allow_preempt s \<and> current s \<noteq> 0 \<and> head (lists (lh s) ready_list) \<noteq> 0
      then process_switch PROCESS_STATE_READY s else Some s)"

definition process_yield :: "'k psys \<Rightarrow> 'k psys option" where
  "process_yield s = (if current s = 0 then Some s else process_switch PROCESS_STATE_READY s)"

section \<open>Waiting and waking\<close>

definition process_wait :: "ptr \<Rightarrow> 'k psys \<Rightarrow> 'k psys option" where
  "process_wait q s = do {
     s \<leftarrow> on_lists (list_push_tail q (current s)) s;
     process_switch PROCESS_STATE_BLOCKED s
   }"

definition make_ready :: "ptr \<Rightarrow> 'k psys \<Rightarrow> 'k psys option" where
  "make_ready p s = on_lists (list_push_tail ready_list p) (upd_proc p (\<lambda>x. x\<lparr>pstate := PROCESS_STATE_READY\<rparr>) s)"

definition process_wakeup :: "ptr \<Rightarrow> 'k psys \<Rightarrow> 'k psys option" where
  "process_wakeup q s = do {
     (p, s) \<leftarrow> pop_list q s;
     if p \<noteq> 0 then make_ready p s else Some s
   }"

partial_function (option) process_wakeup_all :: "ptr \<Rightarrow> 'k psys \<Rightarrow> 'k psys option" where
  "process_wakeup_all q s = do {
     (p, s) \<leftarrow> pop_list q s;
     if p \<noteq> 0 then do { s \<leftarrow> make_ready p s; process_wakeup_all q s } else Some s
   }"

text \<open>The loop of \<^verbatim>\<open>process_wakeup_parent\<close> from the node \<open>p\<close> on.\<close>

definition waits_for :: "process \<Rightarrow> process \<Rightarrow> bool" where
  "waits_for p c \<longleftrightarrow> pid p = ppid c \<and> (waiting_for_child_pid p = 0 \<or> waiting_for_child_pid p = pid c)"

partial_function (option) wakeup_parent_from :: "ptr \<Rightarrow> 'k psys \<Rightarrow> 'k psys option" where
  "wakeup_parent_from p s =
     (if p = 0 then Some s
      else if waits_for (procs s p) (procs s (current s)) then do {
        let s = upd_proc p (\<lambda>x. x\<lparr>pstate := PROCESS_STATE_READY, waiting_for_child_pid := 0\<rparr>) s;
        s \<leftarrow> on_lists (list_remove p) s;
        on_lists (list_push_tail ready_list p) s
      }
      else wakeup_parent_from (nxt (nodes (lh s) p)) s)"

definition process_wakeup_parent :: "ptr \<Rightarrow> 'k psys \<Rightarrow> 'k psys option" where
  "process_wakeup_parent q s = wakeup_parent_from (head (lists (lh s) q)) s"

definition process_exit :: "int \<Rightarrow> 'k psys \<Rightarrow> 'k psys option" where
  "process_exit code s =
     (if current s = 0 then None
      else do {
        let s = upd_proc (current s) (\<lambda>x. x\<lparr>exitcode := code, exitreason := PROCESS_EXIT_NORMAL\<rparr>) s;
        s \<leftarrow> process_wakeup_parent grave_watcher_list s;
        process_switch PROCESS_STATE_GRAVE s
      })"

section \<open>Dead processes\<close>

partial_function (option) process_reap_all :: "(ptr \<Rightarrow> 'k psys \<Rightarrow> 'k psys option) \<Rightarrow> 'k psys \<Rightarrow> 'k psys option" where
  "process_reap_all close s = do {
     (p, s) \<leftarrow> pop_list grave_list s;
     if p \<noteq> 0 then do { s \<leftarrow> process_delete close p s; process_reap_all close s } else Some s
   }"

text \<open>
  \<^verbatim>\<open>process_make_dead\<close> with its loop counter \<open>i\<close>.  The first result tells that the call does not
  come back, because it switched away from the current process for good.
\<close>

partial_function (option) make_dead_from :: "nat \<Rightarrow> ptr \<Rightarrow> 'k psys \<Rightarrow> (bool \<times> 'k psys) option" where
  "make_dead_from i dead s =
     (if i < PROCESS_MAX_PID
      then if process_table s i \<noteq> 0 \<and> ppid (procs s (process_table s i)) = pid (procs s dead)
        then do {
          (gone, s) \<leftarrow> make_dead_from 0 (process_table s i) s;
          if gone then Some (True, s) else make_dead_from (i + 1) dead s
        }
        else make_dead_from (i + 1) dead s
      else do {
        let s = upd_proc dead (\<lambda>x. x\<lparr>exitcode := 0, exitreason := PROCESS_EXIT_KILLED\<rparr>) s;
        if dead = current s then do { s \<leftarrow> process_switch PROCESS_STATE_GRAVE s; Some (True, s) }
        else do {
          s \<leftarrow> on_lists (list_remove dead) s;
          s \<leftarrow> on_lists (list_push_tail grave_list dead) s;
          Some (False, s)
        }
      })"

definition process_make_dead :: "ptr \<Rightarrow> 'k psys \<Rightarrow> (bool \<times> 'k psys) option" where
  "process_make_dead dead s = make_dead_from 0 dead s"

text \<open>The result \<open>None\<close> of \<^verbatim>\<open>process_kill\<close> is no return to the caller.  Entry 1024 is beyond the
  process table.\<close>

definition process_kill :: "u32 \<Rightarrow> 'k psys \<Rightarrow> (int option \<times> 'k psys) option" where
  "process_kill n s =
     (if n > 0 \<and> n \<le> of_nat PROCESS_MAX_PID
      then let dead = process_table s (unat n) in
        if dead \<noteq> 0 then do { (gone, s) \<leftarrow> process_make_dead dead s; Some (if gone then None else Some 0, s) }
        else Some (Some 1, s)
      else Some (Some 1, s))"

text \<open>
  One round of the loop of \<^verbatim>\<open>process_wait_child\<close>: a dead process of the grave list, or waiting on
  the list of waiting parents.  The result is the process reported, with its number and exit.
\<close>

partial_function (option) wait_child_scan :: "u32 \<Rightarrow> ptr \<Rightarrow> 'k psys \<Rightarrow> ptr option" where
  "wait_child_scan n p s =
     (if p = 0 then Some 0
      else if n \<noteq> 0 \<and> pid (procs s p) = n \<or> ppid (procs s p) = pid (procs s (current s)) then Some p
      else wait_child_scan n (nxt (nodes (lh s) p)) s)"

definition process_wait_child_round :: "u32 \<Rightarrow> 'k psys \<Rightarrow> ((u32 \<times> int \<times> int) option \<times> 'k psys) option" where
  "process_wait_child_round n s = do {
     p \<leftarrow> wait_child_scan n (head (lists (lh s) grave_list)) s;
     if p \<noteq> 0 then Some (Some (pid (procs s p), exitcode (procs s p), exitreason (procs s p)), s)
     else do {
       let s = upd_proc (current s) (\<lambda>x. x\<lparr>waiting_for_child_pid := n\<rparr>) s;
       s \<leftarrow> process_wait grave_watcher_list s;
       Some (None, s)
     }
   }"

text \<open>The test that ends the loop, on the milliseconds that passed; it compares unsigned.\<close>

definition wait_child_again :: "u32 \<Rightarrow> int \<Rightarrow> bool" where
  "wait_child_again millis timeout \<longleftrightarrow> millis < word_of_int timeout \<or> timeout < 0"

partial_function (option) reap_from :: "(ptr \<Rightarrow> 'k psys \<Rightarrow> 'k psys option) \<Rightarrow> u32 \<Rightarrow> ptr \<Rightarrow> 'k psys \<Rightarrow> (int \<times> 'k psys) option" where
  "reap_from close n p s =
     (if p = 0 then Some (1, s)
      else if pid (procs s p) = n then do {
        s \<leftarrow> on_lists (list_remove p) s;
        s \<leftarrow> process_delete close p s;
        Some (0, s)
      }
      else reap_from close n (nxt (nodes (lh s) p)) s)"

definition process_reap :: "(ptr \<Rightarrow> 'k psys \<Rightarrow> 'k psys option) \<Rightarrow> u32 \<Rightarrow> 'k psys \<Rightarrow> (int \<times> 'k psys) option" where
  "process_reap close n s = reap_from close n (head (lists (lh s) grave_list)) s"

text \<open>A negative number is an address before the table.\<close>

definition process_stats :: "int \<Rightarrow> 'k psys \<Rightarrow> process_stats_t option option" where
  "process_stats n s =
     (if n > int PROCESS_MAX_PID then Some None
      else if n < 0 then None
      else if process_table s (nat n) = 0 then Some None
      else Some (Some (stats (procs s (process_table s (nat n))))))"

end
