(* ===== verification/Scheduler_Props.thy ===== *)
theory Scheduler_Props
  imports Scheduler
begin

text \<open>
  What the scheduler promises.  The lists of processes are sequences (\<open>queues\<close>); the operations
  of \<^verbatim>\<open>kernel/process.c\<close> refine operations on the current process and these sequences, and
  keep an invariant that ties the state of a process to the list it is on.
\<close>

section \<open>Processes on lists\<close>

definition queues :: "'k psys \<Rightarrow> (ptr \<Rightarrow> ptr list) \<Rightarrow> bool" where
  "queues s Q \<longleftrightarrow> Q 0 = [] \<and> (\<forall>l. l \<noteq> 0 \<longrightarrow> list_rep (lh s) l (Q l)) \<and>
     (\<forall>p. p \<noteq> 0 \<longrightarrow> owner (nodes (lh s) p) \<noteq> 0 \<longrightarrow> p \<in> set (Q (owner (nodes (lh s) p))))"

definition unlisted :: "ptr \<Rightarrow> (ptr \<Rightarrow> ptr list) \<Rightarrow> bool" where
  "unlisted p Q \<longleftrightarrow> p \<noteq> 0 \<and> (\<forall>l. p \<notin> set (Q l))"

lemma queues_cong: "queues s Q \<Longrightarrow> lh s' = lh s \<Longrightarrow> queues s' Q"
  by (simp add: queues_def)

lemma queue_addr: "queues s Q \<Longrightarrow> p \<in> set (Q l) \<Longrightarrow> l \<noteq> 0"
  by (rule notI) (simp add: queues_def)

lemma queues_rep: "queues s Q \<Longrightarrow> l \<noteq> 0 \<Longrightarrow> list_rep (lh s) l (Q l)"
  by (simp add: queues_def)

lemma queue_nonnull: "queues s Q \<Longrightarrow> 0 \<notin> set (Q l)"
proof (cases "l = 0")
  case False
  assume "queues s Q"
  from list_rep_nonnull [OF queues_rep [OF this False]] show ?thesis .
qed (simp add: queues_def)

lemma queue_distinct: "queues s Q \<Longrightarrow> distinct (Q l)"
  by (cases "l = 0") (auto simp: queues_def list_rep_def)

lemma queue_one: "queues s Q \<Longrightarrow> p \<in> set (Q l) \<Longrightarrow> p \<in> set (Q l') \<Longrightarrow> l = l'"
proof -
  assume q: "queues s Q" and p: "p \<in> set (Q l)" "p \<in> set (Q l')"
  then have "l \<noteq> 0" "l' \<noteq> 0" using queue_addr by blast+
  then show "l = l'" using list_rep_disjoint [OF queues_rep [OF q] queues_rep [OF q]] p by blast
qed

lemma queues_change:
  assumes q: "queues s Q" and l: "l \<noteq> 0" and r: "list_rep h l xs" and f: "heap_frame l S (lh s) h"
    and S: "\<And>x. x \<in> S \<Longrightarrow> x \<in> set (Q l) \<or> unlisted x Q" and o: "\<And>x. x \<in> S \<Longrightarrow> x \<notin> set xs \<Longrightarrow> owner (nodes h x) = 0"
    and keep: "\<And>x. x \<in> set (Q l) \<Longrightarrow> x \<notin> set xs \<Longrightarrow> x \<in> S"
  shows "queues (s\<lparr>lh := h\<rparr>) (Q(l := xs))"
  unfolding queues_def
proof (intro conjI allI impI)
  show "(Q(l := xs)) 0 = []" using q l by (simp add: queues_def)
next
  fix l' :: ptr assume n: "l' \<noteq> 0"
  show "list_rep (lh (s\<lparr>lh := h\<rparr>)) l' ((Q(l := xs)) l')"
  proof (cases "l' = l")
    case False
    have "S \<inter> set (Q l') = {}" using S queue_one [OF q] False by (fastforce simp: unlisted_def)
    with heap_frame_other [OF f queues_rep [OF q n]] False show ?thesis by simp
  qed (use r in simp)
next
  fix p :: ptr assume p: "p \<noteq> 0" "owner (nodes (lh (s\<lparr>lh := h\<rparr>)) p) \<noteq> 0"
  show "p \<in> set ((Q(l := xs)) (owner (nodes (lh (s\<lparr>lh := h\<rparr>)) p)))"
  proof (cases "p \<in> set xs")
    case True
    then show ?thesis using list_rep_owner [OF r] by simp
  next
    case False
    then have nS: "p \<notin> S" using o p(2) by auto
    then have "nodes h p = nodes (lh s) p" using f by (simp add: heap_frame_def)
    then have "p \<in> set (Q (owner (nodes h p)))" using q p by (simp add: queues_def)
    moreover have "p \<notin> set (Q l)" using keep False nS by blast
    ultimately show ?thesis by auto
  qed
qed

lemma push_queue:
  assumes "queues s Q" "l \<noteq> 0" "unlisted p Q"
  shows "\<exists>h. on_lists (list_push_tail l p) s = Some (s\<lparr>lh := h\<rparr>) \<and> queues (s\<lparr>lh := h\<rparr>) (Q(l := Q l @ [p]))"
proof -
  have p: "p \<noteq> 0" "p \<notin> set (Q l)" using assms(3) by (simp_all add: unlisted_def)
  obtain h where h: "list_push_tail l p (lh s) = Some h" "list_rep h l (Q l @ [p])" "heap_frame l (insert p (set (Q l))) (lh s) h"
    using push_tail_rep [OF queues_rep [OF assms(1,2)] p] by metis
  have "queues (s\<lparr>lh := h\<rparr>) (Q(l := Q l @ [p]))"
    by (rule queues_change [OF assms(1,2) h(2,3)]) (use assms(3) in auto)
  then show ?thesis using h(1) by (intro exI [of _ h]) (simp add: on_lists_def)
qed

lemma pop_queue:
  assumes "queues s Q" "Q l = p # ps"
  shows "\<exists>h. pop_list l s = Some (p, s\<lparr>lh := h\<rparr>) \<and> queues (s\<lparr>lh := h\<rparr>) (Q(l := ps)) \<and> unlisted p (Q(l := ps))"
proof -
  have l: "l \<noteq> 0" using queue_addr [OF assms(1), of p l] assms(2) by simp
  have rep: "list_rep (lh s) l (p # ps)" using queues_rep [OF assms(1) l] assms(2) by simp
  obtain h where h: "list_pop_head l (lh s) = Some (p, h)" "list_rep h l ps" "heap_frame l (insert p (set ps)) (lh s) h"
    "owner (nodes h p) = 0"
    using pop_head_rep [OF rep] by metis
  have "p \<notin> set (Q l')" if "l' \<noteq> l" for l' using queue_one [OF assms(1), of p l l'] assms(2) that by auto
  moreover have "p \<notin> set ps" "p \<noteq> 0" using queue_distinct [OF assms(1), of l] queue_nonnull [OF assms(1), of l] assms(2) by auto
  moreover have "queues (s\<lparr>lh := h\<rparr>) (Q(l := ps))"
    by (rule queues_change [OF assms(1) l h(2,3)]) (use assms(2) h(4) in auto)
  ultimately show ?thesis using h(1) by (auto simp: pop_list_def unlisted_def)
qed

lemma pop_queue_empty: "queues s Q \<Longrightarrow> l \<noteq> 0 \<Longrightarrow> Q l = [] \<Longrightarrow> pop_list l s = Some (0, s)"
  using pop_head_empty [of "lh s" l] queues_rep [of s Q l] by (simp add: pop_list_def)

text \<open>Taking a process off a list: the first and the last can be taken off, and one that is on no
  list stays off.\<close>

definition removable :: "ptr \<Rightarrow> (ptr \<Rightarrow> ptr list) \<Rightarrow> bool" where
  "removable p Q \<longleftrightarrow> (\<forall>l. p \<in> set (Q l) \<longrightarrow> p = hd (Q l) \<or> p = last (Q l))"

definition without :: "ptr \<Rightarrow> (ptr \<Rightarrow> ptr list) \<Rightarrow> ptr \<Rightarrow> ptr list" where
  "without p Q l = remove1 p (Q l)"

lemma without_unlisted: "unlisted p Q \<Longrightarrow> without p Q = Q"
  by (auto simp: without_def unlisted_def fun_eq_iff remove1_idem)

lemma without_at: "queues s Q \<Longrightarrow> p \<in> set (Q l) \<Longrightarrow> without p Q = Q(l := remove1 p (Q l))"
proof (rule ext)
  fix x assume "queues s Q" "p \<in> set (Q l)"
  then have "x \<noteq> l \<Longrightarrow> p \<notin> set (Q x)" using queue_one by blast
  then show "without p Q x = (Q(l := remove1 p (Q l))) x" by (simp add: without_def remove1_idem)
qed

lemma unlisted_without: "queues s Q \<Longrightarrow> p \<noteq> 0 \<Longrightarrow> unlisted p (without p Q)"
  using queue_distinct [of s Q] by (auto simp: unlisted_def without_def)

lemma list_remove_end:
  assumes "list_rep h l xs" "p \<in> set xs" "p = hd xs \<or> p = last xs"
  shows "\<exists>h'. list_remove p h = Some h' \<and> list_rep h' l (remove1 p xs) \<and> heap_frame l (set xs) h h' \<and> owner (nodes h' p) = 0"
proof (cases "p = hd xs")
  case True
  then obtain ys where xs: "xs = p # ys" using assms(2) by (cases xs) auto
  obtain h' where "list_remove p h = Some h'" "list_rep h' l ys" "heap_frame l (insert p (set ys)) h h'" "owner (nodes h' p) = 0"
    using remove_head_rep [OF assms(1) [unfolded xs]] by metis
  then show ?thesis by (auto simp: xs)
next
  case False
  then have "p = last xs" using assms(3) by simp
  then obtain ys where xs: "xs = ys @ [p]" using assms(2) by (metis append_butlast_last_id empty_iff empty_set)
  have p: "p \<notin> set ys" using assms(1) by (simp add: list_rep_def xs)
  obtain h' where "list_remove p h = Some h'" "list_rep h' l ys" "heap_frame l (insert p (set ys)) h h'" "owner (nodes h' p) = 0"
    using remove_tail_rep [OF assms(1) [unfolded xs]] by metis
  then show ?thesis using p by (auto simp: xs remove1_append)
qed

lemma remove_queue:
  assumes "queues s Q" "p \<noteq> 0" "removable p Q"
  shows "\<exists>h. on_lists (list_remove p) s = Some (s\<lparr>lh := h\<rparr>) \<and> queues (s\<lparr>lh := h\<rparr>) (without p Q)"
proof (cases "\<exists>l. p \<in> set (Q l)")
  case True
  then obtain l where l: "p \<in> set (Q l)" by blast
  have nz: "l \<noteq> 0" using queue_addr [OF assms(1) l] .
  have e: "p = hd (Q l) \<or> p = last (Q l)" using assms(3) l by (simp add: removable_def)
  obtain h where h: "list_remove p (lh s) = Some h" "list_rep h l (remove1 p (Q l))" "heap_frame l (set (Q l)) (lh s) h"
    "owner (nodes h p) = 0"
    using list_remove_end [OF queues_rep [OF assms(1) nz] l e] by blast
  have gone: "x = p" if "x \<in> set (Q l)" "x \<notin> set (remove1 p (Q l))" for x
    using that by (cases "x = p") simp_all
  have "queues (s\<lparr>lh := h\<rparr>) (Q(l := remove1 p (Q l)))"
    by (rule queues_change [OF assms(1) nz h(2,3)]) (use h(4) gone in auto)
  then show ?thesis using h(1) by (intro exI [of _ h]) (simp add: on_lists_def without_at [OF assms(1) l])
next
  case False
  then have un: "unlisted p Q" using assms(2) by (simp add: unlisted_def)
  then have "owner (nodes (lh s) p) = 0" using assms(1) by (auto simp: queues_def unlisted_def)
  then have "list_remove p (lh s) = Some (lh s)" by (rule remove_detached [OF assms(2)])
  then show ?thesis using assms(1) by (intro exI [of _ "lh s"]) (simp add: on_lists_def without_unlisted [OF un])
qed

lemma remove_fault:
  assumes "queues s Q" "\<not> removable p Q"
  shows "on_lists (list_remove p) s = None"
proof -
  obtain l where l: "p \<in> set (Q l)" "p \<noteq> hd (Q l)" "p \<noteq> last (Q l)" using assms(2) by (auto simp: removable_def)
  obtain xs ys where e: "Q l = xs @ p # ys" using split_list [OF l(1)] by blast
  then have "xs \<noteq> []" "ys \<noteq> []" using l(2,3) by auto
  with remove_interior_faults [OF queues_rep [OF assms(1) queue_addr [OF assms(1) l(1)], unfolded e]]
  show ?thesis by (simp add: on_lists_def)
qed

section \<open>The abstract scheduler\<close>

type_synonym aq = "ptr \<times> (ptr \<Rightarrow> ptr list)"

definition a_pick :: "(ptr \<Rightarrow> ptr list) \<Rightarrow> aq" where
  "a_pick Q = (case Q ready_list of [] \<Rightarrow> (0, Q) | p # ps \<Rightarrow> (p, Q(ready_list := ps)))"

definition a_push :: "ptr \<Rightarrow> ptr \<Rightarrow> (ptr \<Rightarrow> ptr list) \<Rightarrow> ptr \<Rightarrow> ptr list" where
  "a_push l p Q = Q(l := Q l @ [p])"

definition a_wakeup :: "ptr \<Rightarrow> (ptr \<Rightarrow> ptr list) \<Rightarrow> ptr \<Rightarrow> ptr list" where
  "a_wakeup q Q = (case Q q of [] \<Rightarrow> Q | p # ps \<Rightarrow> a_push ready_list p (Q(q := ps)))"

definition wait_list :: "ptr \<Rightarrow> bool" where
  "wait_list l \<longleftrightarrow> l \<notin> {0, ready_list, grave_list}"

text \<open>
  The invariant: the current process runs and is on no list, the processes on the ready list are
  ready, those on wait lists are blocked, and no process but the current one is running.
\<close>

definition sched_ok :: "'k psys \<Rightarrow> (ptr \<Rightarrow> ptr list) \<Rightarrow> bool" where
  "sched_ok s Q \<longleftrightarrow> queues s Q \<and>
     (current s \<noteq> 0 \<longrightarrow> unlisted (current s) Q \<and> pstate (procs s (current s)) \<in> {PROCESS_STATE_RUNNING, PROCESS_STATE_CRADLE}) \<and>
     (\<forall>p \<in> set (Q ready_list). pstate (procs s p) = PROCESS_STATE_READY) \<and>
     (\<forall>l. wait_list l \<longrightarrow> (\<forall>p \<in> set (Q l). pstate (procs s p) = PROCESS_STATE_BLOCKED)) \<and>
     (\<forall>p. p \<noteq> 0 \<longrightarrow> p \<noteq> current s \<longrightarrow> pstate (procs s p) \<noteq> PROCESS_STATE_RUNNING)"

lemma special_lists [simp]: "0 < ready_list" "0 < grave_list" "0 < grave_watcher_list" "ready_list \<noteq> 0" "grave_list \<noteq> 0" "grave_watcher_list \<noteq> 0" "ready_list \<noteq> grave_list"
  "grave_list \<noteq> ready_list" "grave_watcher_list \<noteq> ready_list" "ready_list \<noteq> grave_watcher_list"
  "grave_watcher_list \<noteq> grave_list" "grave_list \<noteq> grave_watcher_list"
  by (simp_all add: ready_list_def grave_list_def grave_watcher_list_def)

lemma wait_list_nonnull: "wait_list l \<Longrightarrow> l \<noteq> 0"
  by (simp add: wait_list_def)

lemma wait_list_watcher [simp]: "wait_list grave_watcher_list"
  by (simp add: wait_list_def)

lemma sched_queues: "sched_ok s Q \<Longrightarrow> queues s Q"
  by (simp add: sched_ok_def)

section \<open>Refinement\<close>

lemma pick_ok:
  assumes "sched_ok s Q" "current s = 0"
  shows "\<exists>s'. process_pick s = Some s' \<and> sched_ok s' (snd (a_pick Q)) \<and> current s' = fst (a_pick Q)"
proof (cases "Q ready_list")
  case Nil
  then have "pop_list ready_list s = Some (0, s)" by (intro pop_queue_empty [OF sched_queues [OF assms(1)]]) simp_all
  then have "process_pick s = Some (s\<lparr>current := 0\<rparr>)" by (simp add: process_pick_def)
  also have "s\<lparr>current := 0\<rparr> = s" unfolding assms(2) [symmetric] by simp
  finally show ?thesis using assms Nil by (simp add: a_pick_def)
next
  case (Cons p ps)
  let ?Q = "Q(ready_list := ps)"
  have q: "queues s Q" using assms(1) by (simp add: sched_ok_def)
  obtain h where h: "pop_list ready_list s = Some (p, s\<lparr>lh := h\<rparr>)" "queues (s\<lparr>lh := h\<rparr>) ?Q" "unlisted p ?Q"
    using pop_queue [OF q Cons] by blast
  then have nz: "p \<noteq> 0" by (simp add: unlisted_def)
  define s' where "s' = (let s = upd_proc p (\<lambda>x. x\<lparr>pstate := PROCESS_STATE_RUNNING\<rparr>) (s\<lparr>lh := h, current := p\<rparr>)
      in s\<lparr>interrupt_stack_pointer := kstack_top (procs s p), cr3 := pagetable (procs s p), cpu := regs_at (kmem s) (kstack_ptr (procs s p))\<rparr>)"
  have run: "process_pick s = Some s'" using nz by (simp add: process_pick_def h(1) s'_def Let_def)
  have s': "lh s' = h" "current s' = p" "procs s' = (procs s)(p := (procs s p)\<lparr>pstate := PROCESS_STATE_RUNNING\<rparr>)"
    by (simp_all add: s'_def Let_def upd_proc_def)
  have q': "queues s' ?Q" using h(2) by (rule queues_cong) (simp add: s')
  have ne: "x \<noteq> p" if "x \<in> set (?Q l)" for x l using that h(3) by (auto simp: unlisted_def)
  have sub: "set (?Q l) \<subseteq> set (Q l)" for l using Cons by auto
  have st: "pstate (procs s' x) = (if x = p then PROCESS_STATE_RUNNING else pstate (procs s x))" for x by (simp add: s')
  have "sched_ok s' ?Q"
    unfolding sched_ok_def s'(2)
  proof (intro conjI ballI allI impI)
    fix x assume x: "x \<in> set (?Q ready_list)"
    have "x \<noteq> p" "x \<in> set (Q ready_list)" using ne [OF x] subsetD [OF sub x] by simp_all
    then show "pstate (procs s' x) = PROCESS_STATE_READY" using assms(1) by (simp add: st sched_ok_def)
  next
    fix l x assume l: "wait_list l" and x: "x \<in> set (?Q l)"
    have "x \<noteq> p" "x \<in> set (Q l)" using ne [OF x] subsetD [OF sub x] by simp_all
    then show "pstate (procs s' x) = PROCESS_STATE_BLOCKED" using assms(1) l by (simp add: st sched_ok_def)
  next
    fix x assume "x \<noteq> 0" "x \<noteq> p"
    then show "pstate (procs s' x) \<noteq> PROCESS_STATE_RUNNING" using assms by (simp add: st sched_ok_def)
  qed (use q' h(3) in \<open>auto simp: st\<close>)
  then show ?thesis using run s' Cons by (simp add: a_pick_def)
qed

text \<open>Moving one process to a list, in a state that fits the list.\<close>

definition fits :: "ptr \<Rightarrow> process_state_t \<Rightarrow> bool" where
  "fits l st \<longleftrightarrow> (l = ready_list \<longrightarrow> st = PROCESS_STATE_READY) \<and> (wait_list l \<longrightarrow> st = PROCESS_STATE_BLOCKED) \<and>
     st \<noteq> PROCESS_STATE_RUNNING"

lemma move_ok:
  assumes "sched_ok s Q" "queues s' (a_push l p (without p Q))" "p \<noteq> 0" "fits l (pstate (procs s' p))"
    and same: "\<And>x. x \<noteq> p \<Longrightarrow> pstate (procs s' x) = pstate (procs s x)"
    and cur: "current s' = (if current s = p then 0 else current s)"
  shows "sched_ok s' (a_push l p (without p Q))"
proof -
  have un: "unlisted p (without p Q)" using unlisted_without [OF sched_queues [OF assms(1)] assms(3)] .
  have mem: "x = p \<and> l' = l \<or> x \<noteq> p \<and> x \<in> set (Q l')" if "x \<in> set (a_push l p (without p Q) l')" for x l'
    using that un by (auto simp: a_push_def unlisted_def without_def split: if_splits dest: set_remove1_subset [THEN subsetD])
  show ?thesis
    unfolding sched_ok_def
  proof (intro conjI ballI allI impI)
    fix x assume "x \<in> set (a_push l p (without p Q) ready_list)"
    from mem [OF this] show "pstate (procs s' x) = PROCESS_STATE_READY"
      using assms(1,4) same [of x] unfolding sched_ok_def fits_def by metis
  next
    fix l' x assume "wait_list l'" "x \<in> set (a_push l p (without p Q) l')"
    with mem [OF this(2)] show "pstate (procs s' x) = PROCESS_STATE_BLOCKED"
      using assms(1,4) same [of x] unfolding sched_ok_def fits_def by metis
  next
    fix x assume x: "x \<noteq> 0" "x \<noteq> current s'"
    show "pstate (procs s' x) \<noteq> PROCESS_STATE_RUNNING"
    proof (cases "x = p")
      case True
      then show ?thesis using assms(4) by (simp add: fits_def)
    next
      case False
      then have "x \<noteq> current s" using x cur by auto
      then show ?thesis using x False same assms(1) by (simp add: sched_ok_def)
    qed
  next
    assume c: "current s' \<noteq> 0"
    then have n: "current s' = current s" "current s \<noteq> p" using cur by (auto split: if_splits)
    then have "unlisted (current s) Q" using assms(1) c by (simp add: sched_ok_def)
    moreover have "x \<noteq> p \<Longrightarrow> x \<in> set (a_push l p (without p Q) l') \<Longrightarrow> x \<in> set (Q l')" for x l' using mem by blast
    ultimately show "unlisted (current s') (a_push l p (without p Q))" using n c unfolding unlisted_def by metis
    show "pstate (procs s' (current s')) \<in> {PROCESS_STATE_RUNNING, PROCESS_STATE_CRADLE}"
      using n c assms(1) same by (simp add: sched_ok_def)
  qed (fact assms(2))
qed

text \<open>Saving the context and setting the state of the current process.\<close>

definition parked :: "process_state_t \<Rightarrow> 'k psys \<Rightarrow> 'k psys" where
  "parked st s = upd_proc (current s) (\<lambda>x. x\<lparr>pstate := st\<rparr>)
     ((if pstate (procs s (current s)) \<noteq> PROCESS_STATE_CRADLE then save_context s else s)\<lparr>interrupt_stack_pointer := INTERRUPT_STACK_TOP\<rparr>)"

lemma parked_simps [simp]: "lh (parked st s) = lh s" "current (parked st s) = current s"
  "pstate (procs (parked st s) (current s)) = st" "x \<noteq> current s \<Longrightarrow> procs (parked st s) x = procs s x"
  by (simp_all add: parked_def save_context_def set_word_def upd_proc_def Let_def)

lemma parked_keeps: "pid (procs (parked st s) x) = pid (procs s x)" "ppid (procs (parked st s) x) = ppid (procs s x)"
  by (simp_all add: parked_def save_context_def set_word_def upd_proc_def Let_def)

lemma bind_Some_map: "x \<bind> (\<lambda>s. Some (f s)) = map_option f x"
  by (cases x) simp_all

lemma switch_out_eq:
  assumes "current s \<noteq> 0"
  shows "process_switch_out PROCESS_STATE_READY s =
      map_option (\<lambda>s. s\<lparr>current := 0\<rparr>) (on_lists (list_push_tail ready_list (current s)) (parked PROCESS_STATE_READY s))"
    "process_switch_out PROCESS_STATE_GRAVE s =
      map_option (\<lambda>s. s\<lparr>current := 0\<rparr>) (on_lists (list_push_tail grave_list (current s)) (parked PROCESS_STATE_GRAVE s))"
    "process_switch_out PROCESS_STATE_BLOCKED s = Some ((parked PROCESS_STATE_BLOCKED s)\<lparr>current := 0\<rparr>)"
proof -
  have "current (if pstate (procs s (current s)) \<noteq> PROCESS_STATE_CRADLE then save_context s else s) = current s"
    by (simp add: save_context_def set_word_def upd_proc_def Let_def)
  then show "process_switch_out PROCESS_STATE_READY s =
      map_option (\<lambda>s. s\<lparr>current := 0\<rparr>) (on_lists (list_push_tail ready_list (current s)) (parked PROCESS_STATE_READY s))"
    "process_switch_out PROCESS_STATE_GRAVE s =
      map_option (\<lambda>s. s\<lparr>current := 0\<rparr>) (on_lists (list_push_tail grave_list (current s)) (parked PROCESS_STATE_GRAVE s))"
    "process_switch_out PROCESS_STATE_BLOCKED s = Some ((parked PROCESS_STATE_BLOCKED s)\<lparr>current := 0\<rparr>)"
    using assms by (simp_all add: process_switch_out_def parked_def Let_def on_lists_def upd_proc_def bind_Some_map option.map_comp comp_def)
qed

lemma switch_push_ok:
  assumes "sched_ok s Q" "current s \<noteq> 0" "l = ready_list \<and> st = PROCESS_STATE_READY \<or> l = grave_list \<and> st = PROCESS_STATE_GRAVE"
  shows "\<exists>s'. process_switch_out st s = Some s' \<and> sched_ok s' (a_push l (current s) Q) \<and> current s' = 0"
proof -
  let ?c = "current s" and ?p = "parked st s"
  have un: "unlisted ?c Q" using assms(1,2) by (simp add: sched_ok_def)
  have fits: "fits l st" using assms(3) by (auto simp: fits_def wait_list_def)
  have "queues ?p Q" using sched_queues [OF assms(1)] by (rule queues_cong) simp
  moreover have "l \<noteq> 0" using assms(3) by auto
  ultimately obtain h where h: "on_lists (list_push_tail l ?c) ?p = Some (?p\<lparr>lh := h\<rparr>)" "queues (?p\<lparr>lh := h\<rparr>) (a_push l ?c Q)"
    using push_queue [OF _ _ un] unfolding a_push_def by blast
  let ?s = "?p\<lparr>lh := h, current := 0\<rparr>"
  have "queues ?s (a_push l ?c Q)" using h(2) by (rule queues_cong) simp
  then have "queues ?s (a_push l ?c (without ?c Q))" unfolding without_unlisted [OF un] .
  from move_ok [OF assms(1) this assms(2)] have "sched_ok ?s (a_push l ?c (without ?c Q))"
    using fits by simp
  moreover have "process_switch_out st s = Some ?s" using assms(3) switch_out_eq [OF assms(2)] h(1) by auto
  ultimately show ?thesis by (simp add: without_unlisted [OF un])
qed

lemma wait_ok:
  assumes "sched_ok s Q" "current s \<noteq> 0" "wait_list q"
  shows "\<exists>s'. process_wait q s = Some s' \<and> sched_ok s' (snd (a_pick (a_push q (current s) Q))) \<and>
    current s' = fst (a_pick (a_push q (current s) Q))"
proof -
  let ?c = "current s"
  have un: "unlisted ?c Q" using assms(1,2) by (simp add: sched_ok_def)
  obtain h where h: "on_lists (list_push_tail q ?c) s = Some (s\<lparr>lh := h\<rparr>)" "queues (s\<lparr>lh := h\<rparr>) (a_push q ?c Q)"
    using push_queue [OF sched_queues [OF assms(1)] wait_list_nonnull [OF assms(3)] un] unfolding a_push_def by blast
  let ?s = "(parked PROCESS_STATE_BLOCKED (s\<lparr>lh := h\<rparr>))\<lparr>current := 0\<rparr>"
  have "queues ?s (a_push q ?c Q)" using h(2) by (rule queues_cong) simp
  moreover have "pstate (procs ?s ?c) = PROCESS_STATE_BLOCKED" using parked_simps(3) [of PROCESS_STATE_BLOCKED "s\<lparr>lh := h\<rparr>"] by simp
  moreover have "procs ?s x = procs s x" if "x \<noteq> ?c" for x
    using parked_simps(4) [of x "s\<lparr>lh := h\<rparr>" PROCESS_STATE_BLOCKED] that by simp
  moreover have "fits q PROCESS_STATE_BLOCKED" using assms(3) by (simp add: fits_def wait_list_def)
  ultimately have "sched_ok ?s (a_push q ?c (without ?c Q))"
    by (intro move_ok [OF assms(1) _ assms(2)]) (simp_all add: without_unlisted [OF un])
  then have ok: "sched_ok ?s (a_push q ?c Q)" by (simp add: without_unlisted [OF un])
  have "process_wait q s = process_pick ?s"
    using h(1) switch_out_eq(3) [of "s\<lparr>lh := h\<rparr>"] assms(2) by (simp add: process_wait_def process_switch_def)
  then show ?thesis using pick_ok [OF ok] by simp
qed

lemma yield_ok:
  assumes "sched_ok s Q" "current s \<noteq> 0"
  shows "\<exists>s'. process_yield s = Some s' \<and> sched_ok s' (snd (a_pick (a_push ready_list (current s) Q))) \<and>
    current s' = fst (a_pick (a_push ready_list (current s) Q))"
proof -
  obtain s1 where s1: "process_switch_out PROCESS_STATE_READY s = Some s1" "sched_ok s1 (a_push ready_list (current s) Q)" "current s1 = 0"
    using switch_push_ok [OF assms, of ready_list] by auto
  then show ?thesis using pick_ok [OF s1(2,3)] assms(2) by (simp add: process_yield_def process_switch_def)
qed

lemma make_ready_ok:
  assumes "sched_ok s Q" "p \<noteq> 0" "p \<noteq> current s" "queues s1 (without p Q)" "procs s1 = procs s" "current s1 = current s"
  shows "\<exists>s'. make_ready p s1 = Some s' \<and> sched_ok s' (a_push ready_list p (without p Q)) \<and> current s' = current s"
proof -
  let ?s = "upd_proc p (\<lambda>x. x\<lparr>pstate := PROCESS_STATE_READY\<rparr>) s1"
  have un: "unlisted p (without p Q)" using unlisted_without [OF sched_queues [OF assms(1)] assms(2)] .
  have q: "queues ?s (without p Q)" using assms(4) by (rule queues_cong) (simp add: upd_proc_def)
  have "ready_list \<noteq> 0" by simp
  from push_queue [OF q this un] obtain h where h: "on_lists (list_push_tail ready_list p) ?s = Some (?s\<lparr>lh := h\<rparr>)" "queues (?s\<lparr>lh := h\<rparr>) (a_push ready_list p (without p Q))"
    unfolding a_push_def by blast
  have "sched_ok (?s\<lparr>lh := h\<rparr>) (a_push ready_list p (without p Q))"
    using assms by (intro move_ok [OF assms(1) h(2)]) (auto simp: fits_def wait_list_def upd_proc_def)
  then show ?thesis using h(1) assms(6) by (auto simp: make_ready_def upd_proc_def)
qed

lemma wakeup_ok:
  assumes "sched_ok s Q" "wait_list q"
  shows "\<exists>s'. process_wakeup q s = Some s' \<and> sched_ok s' (a_wakeup q Q) \<and> current s' = current s"
proof (cases "Q q")
  case Nil
  then have "pop_list q s = Some (0, s)"
    using assms(2) by (intro pop_queue_empty [OF sched_queues [OF assms(1)]]) (auto simp: wait_list_def)
  then show ?thesis using assms Nil by (simp add: process_wakeup_def a_wakeup_def)
next
  case (Cons p ps)
  note q = sched_queues [OF assms(1)]
  obtain h where h: "pop_list q s = Some (p, s\<lparr>lh := h\<rparr>)" "queues (s\<lparr>lh := h\<rparr>) (Q(q := ps))" "unlisted p (Q(q := ps))"
    using pop_queue [OF q Cons] by blast
  have w: "without p Q = Q(q := ps)" using without_at [OF q, of p q] Cons by simp
  have nz: "p \<noteq> 0" using h(3) by (simp add: unlisted_def)
  have c: "p \<noteq> current s"
  proof
    assume "p = current s"
    then have "unlisted p Q" using assms(1) nz by (simp add: sched_ok_def)
    then have "p \<notin> set (Q q)" by (simp add: unlisted_def)
    then show False using Cons by simp
  qed
  obtain s' where "make_ready p (s\<lparr>lh := h\<rparr>) = Some s'" "sched_ok s' (a_push ready_list p (without p Q))" "current s' = current s"
    using make_ready_ok [OF assms(1) nz c, of "s\<lparr>lh := h\<rparr>"] h(2) w by auto
  then show ?thesis using h(1) nz w Cons by (simp add: process_wakeup_def a_wakeup_def)
qed

lemma a_wakeup_other: "wait_list q \<Longrightarrow> Q q = p # ps \<Longrightarrow> a_wakeup q Q = Q(q := ps, ready_list := Q ready_list @ [p])"
  by (auto simp: a_wakeup_def a_push_def wait_list_def)

lemma wakeup_all_ok:
  "sched_ok s Q \<Longrightarrow> wait_list q \<Longrightarrow>
    \<exists>s'. process_wakeup_all q s = Some s' \<and> sched_ok s' (Q(q := [], ready_list := Q ready_list @ Q q)) \<and> current s' = current s"
proof (induction "Q q" arbitrary: s Q)
  case Nil
  then have "pop_list q s = Some (0, s)"
    using pop_queue_empty [OF sched_queues [OF Nil(2)] wait_list_nonnull [OF Nil(3)]] by simp
  then have run: "process_wakeup_all q s = Some s" by (subst process_wakeup_all.simps) simp
  have "(Q(q := [], ready_list := Q ready_list @ Q q)) x = Q x" for x using Nil(1) by simp
  then have e: "Q(q := [], ready_list := Q ready_list @ Q q) = Q" by (rule ext)
  show ?case using Nil(2) run unfolding e by blast
next
  case (Cons p ps)
  obtain s1 where s1: "process_wakeup q s = Some s1" "sched_ok s1 (a_wakeup q Q)" "current s1 = current s"
    using wakeup_ok [OF Cons.prems] by blast
  have w: "a_wakeup q Q = Q(q := ps, ready_list := Q ready_list @ [p])" using a_wakeup_other Cons by metis
  have q: "q \<noteq> ready_list" using Cons.prems(2) by (simp add: wait_list_def)
  obtain h where h: "pop_list q s = Some (p, s\<lparr>lh := h\<rparr>)" "unlisted p (Q(q := ps))"
    using pop_queue [OF sched_queues [OF Cons.prems(1)], of q p ps] Cons.hyps(2) by auto
  have "process_wakeup_all q s = process_wakeup_all q s1"
    using s1(1) h by (subst process_wakeup_all.simps) (simp add: process_wakeup_def unlisted_def)
  moreover have "ps = a_wakeup q Q q" using w q by simp
  moreover have "(a_wakeup q Q)(q := [], ready_list := a_wakeup q Q ready_list @ a_wakeup q Q q) =
      Q(q := [], ready_list := Q ready_list @ Q q)"
    using Cons.hyps(2) q by (auto simp: w fun_eq_iff)
  ultimately show ?case using Cons.hyps(1) [OF _ s1(2) Cons.prems(2)] s1(3) by metis
qed

text \<open>An update that leaves the states and lists alone.\<close>

lemma sched_ok_cong:
  "sched_ok s Q \<Longrightarrow> lh s' = lh s \<Longrightarrow> current s' = current s \<Longrightarrow> (\<And>x. pstate (procs s' x) = pstate (procs s x)) \<Longrightarrow> sched_ok s' Q"
  unfolding sched_ok_def by (simp add: queues_def)

text \<open>Waking the parent: the first process of the list that waits for the current one.\<close>

definition a_parent :: "(ptr \<Rightarrow> process) \<Rightarrow> ptr \<Rightarrow> (ptr \<Rightarrow> ptr list) \<Rightarrow> ptr option" where
  "a_parent P c Q = find (\<lambda>p. waits_for (P p) (P c)) (Q grave_watcher_list)"

definition a_exit :: "(ptr \<Rightarrow> process) \<Rightarrow> ptr \<Rightarrow> (ptr \<Rightarrow> ptr list) \<Rightarrow> ptr \<Rightarrow> ptr list" where
  "a_exit P c Q = (case a_parent P c Q of None \<Rightarrow> Q | Some p \<Rightarrow> a_push ready_list p (without p Q))"

lemma wakeup_parent_loop:
  assumes ok: "sched_ok s Q"
  shows "Q grave_watcher_list = xs @ ys \<Longrightarrow>
    (\<forall>p. find (\<lambda>p. waits_for (procs s p) (procs s (current s))) ys = Some p \<longrightarrow> removable p Q) \<Longrightarrow>
    \<exists>s'. wakeup_parent_from (hdq ys 0) s = Some s' \<and> current s' = current s \<and>
      (\<forall>x. procs s' x = procs s x \<or> x \<in> set ys) \<and>
      sched_ok s' (case find (\<lambda>p. waits_for (procs s p) (procs s (current s))) ys of
        None \<Rightarrow> Q | Some p \<Rightarrow> a_push ready_list p (without p Q))"
proof (induction ys arbitrary: xs)
  case Nil
  then show ?case using ok by (subst wakeup_parent_from.simps) simp
next
  case (Cons p ys)
  note q = sched_queues [OF ok]
  have p: "p \<in> set (Q grave_watcher_list)" using Cons.prems(1) by simp
  then have nz: "p \<noteq> 0" using queue_nonnull [OF q] by metis
  have c: "p \<noteq> current s"
  proof
    assume "p = current s"
    then have "unlisted p Q" using ok nz by (simp add: sched_ok_def)
    then show False using p by (simp add: unlisted_def)
  qed
  show ?case
  proof (cases "waits_for (procs s p) (procs s (current s))")
    case True
    then have rm: "removable p Q" using Cons.prems(2) by simp
    let ?s = "upd_proc p (\<lambda>x. x\<lparr>pstate := PROCESS_STATE_READY, waiting_for_child_pid := 0\<rparr>) s"
    have "queues ?s Q" using q by (rule queues_cong) (simp add: upd_proc_def)
    from remove_queue [OF this nz rm] obtain h where h: "on_lists (list_remove p) ?s = Some (?s\<lparr>lh := h\<rparr>)" "queues (?s\<lparr>lh := h\<rparr>) (without p Q)"
      by blast
    have "ready_list \<noteq> 0" by simp
    from push_queue [OF h(2) this unlisted_without [OF q nz]] obtain h' where
      h': "on_lists (list_push_tail ready_list p) (?s\<lparr>lh := h\<rparr>) = Some (?s\<lparr>lh := h'\<rparr>)"
      "queues (?s\<lparr>lh := h'\<rparr>) (a_push ready_list p (without p Q))"
      unfolding a_push_def by auto
    have "sched_ok (?s\<lparr>lh := h'\<rparr>) (a_push ready_list p (without p Q))"
      using c by (intro move_ok [OF ok h'(2) nz]) (auto simp: fits_def wait_list_def upd_proc_def)
    then show ?thesis
      using True nz h(1) h'(1) by (subst wakeup_parent_from.simps) (simp add: upd_proc_def)
  next
    case False
    have "nxt (nodes (lh s) p) = hdq ys 0"
      using queues_rep [OF q, of grave_watcher_list] Cons.prems(1) by (simp add: list_rep_def)
    then have "wakeup_parent_from (hdq (p # ys) 0) s = wakeup_parent_from (hdq ys 0) s"
      using nz False by (subst wakeup_parent_from.simps) simp
    then show ?thesis using Cons.IH [of "xs @ [p]"] Cons.prems False by (auto split: option.splits)
  qed
qed

lemma wakeup_parent_fault:
  assumes q: "queues s Q" and r: "Q grave_watcher_list = xs @ ys"
    "find (\<lambda>p. waits_for (procs s p) (procs s (current s))) ys = Some p" "\<not> removable p Q"
  shows "wakeup_parent_from (hdq ys 0) s = None"
  using r
proof (induction ys arbitrary: xs)
  case (Cons x ys)
  have nz: "x \<noteq> 0" using queue_nonnull [OF q, of grave_watcher_list] Cons.prems(1) by auto
  show ?case
  proof (cases "waits_for (procs s x) (procs s (current s))")
    case True
    then have "x = p" using Cons.prems(2) by simp
    moreover have "on_lists (list_remove p) (upd_proc p f s) = None" for f
    proof (rule remove_fault [OF _ Cons.prems(3)])
      show "queues (upd_proc p f s) Q" using q by (rule queues_cong) (simp add: upd_proc_def)
    qed
    ultimately show ?thesis using True nz by (subst wakeup_parent_from.simps) (simp add: Let_def)
  next
    case False
    have "nxt (nodes (lh s) x) = hdq ys 0"
      using queues_rep [OF q, of grave_watcher_list] Cons.prems(1) by (simp add: list_rep_def)
    then show ?thesis using nz False Cons.IH [of "xs @ [x]"] Cons.prems by (subst wakeup_parent_from.simps) simp
  qed
qed simp

lemma exit_ok:
  assumes ok: "sched_ok s Q" and c: "current s \<noteq> 0" and r: "\<And>p. a_parent (procs s) (current s) Q = Some p \<Longrightarrow> removable p Q"
  shows "\<exists>s'. process_exit code s = Some s' \<and>
    current s' = fst (a_pick (a_push grave_list (current s) (a_exit (procs s) (current s) Q))) \<and>
    sched_ok s' (snd (a_pick (a_push grave_list (current s) (a_exit (procs s) (current s) Q))))"
proof -
  let ?s = "upd_proc (current s) (\<lambda>x. x\<lparr>exitcode := code, exitreason := PROCESS_EXIT_NORMAL\<rparr>) s"
  have ok1: "sched_ok ?s Q" by (rule sched_ok_cong [OF ok]) (simp_all add: upd_proc_def)
  have w: "waits_for (procs ?s p) (procs ?s x) = waits_for (procs s p) (procs s x)" for p x
    by (simp add: waits_for_def upd_proc_def)
  have cs: "current ?s = current s" by (simp add: upd_proc_def)
  have hq: "head (lists (lh ?s) grave_watcher_list) = hdq (Q grave_watcher_list) 0"
    using queues_rep [OF sched_queues [OF ok1], of grave_watcher_list] by (simp add: list_rep_def)
  obtain s1 where s1: "process_wakeup_parent grave_watcher_list ?s = Some s1" "current s1 = current s"
    "sched_ok s1 (a_exit (procs s) (current s) Q)"
    using wakeup_parent_loop [OF ok1, of "[]" "Q grave_watcher_list"] r
    unfolding process_wakeup_parent_def hq w cs a_exit_def a_parent_def by auto
  obtain s2 where s2: "process_switch_out PROCESS_STATE_GRAVE s1 = Some s2"
    "sched_ok s2 (a_push grave_list (current s1) (a_exit (procs s) (current s) Q))" "current s2 = 0"
    using switch_push_ok [OF s1(3), of grave_list] c s1(2) by auto
  obtain s3 where "process_pick s2 = Some s3" "sched_ok s3 (snd (a_pick (a_push grave_list (current s) (a_exit (procs s) (current s) Q))))"
    "current s3 = fst (a_pick (a_push grave_list (current s) (a_exit (procs s) (current s) Q)))"
    using pick_ok [OF s2(2,3)] unfolding s1(2) by blast
  then show ?thesis using c s1 s2(1) by (intro exI [of _ s3]) (simp add: process_exit_def process_switch_def)
qed

section \<open>Killing\<close>

lemma kill_last_ok:
  assumes ok: "sched_ok s Q" and d: "dead \<noteq> 0" "dead \<noteq> current s"
    and s1: "on_lists (list_remove dead) s = Some s1" and s2: "on_lists (list_push_tail grave_list dead) s1 = Some s2"
  shows "sched_ok s2 (a_push grave_list dead (without dead Q)) \<and> current s2 = current s \<and> process_table s2 = process_table s"
proof -
  note q = sched_queues [OF ok]
  have r: "removable dead Q" using remove_fault [OF q] s1 by fastforce
  obtain h where h: "s1 = s\<lparr>lh := h\<rparr>" "queues (s\<lparr>lh := h\<rparr>) (without dead Q)"
    using remove_queue [OF q d(1) r] s1 by auto
  have "grave_list \<noteq> 0" by simp
  from push_queue [OF h(2) this unlisted_without [OF q d(1)]] obtain h' where
    h': "s2 = s\<lparr>lh := h'\<rparr>" "queues (s\<lparr>lh := h'\<rparr>) (a_push grave_list dead (without dead Q))"
    using s2 h(1) unfolding a_push_def by auto
  have "pstate (procs s dead) \<noteq> PROCESS_STATE_RUNNING" using ok d by (simp add: sched_ok_def)
  then have "fits grave_list (pstate (procs s dead))" by (simp add: fits_def wait_list_def)
  then have "sched_ok (s\<lparr>lh := h'\<rparr>) (a_push grave_list dead (without dead Q))"
    using d by (intro move_ok [OF ok h'(2)]) auto
  then show ?thesis by (simp add: h'(1))
qed

lemma make_dead_ok:
  "make_dead_from i dead s = Some (gone, s') \<Longrightarrow> dead \<noteq> 0 \<Longrightarrow> \<forall>Q. sched_ok s Q \<longrightarrow> (\<exists>Q'. sched_ok s' Q') \<and>
     (\<not> gone \<longrightarrow> current s' = current s \<and> process_table s' = process_table s)"
proof -
  let ?P = "\<lambda>i dead s y. dead \<noteq> 0 \<longrightarrow> (\<forall>Q. sched_ok s Q \<longrightarrow> (\<exists>Q'. sched_ok (snd y) Q') \<and>
     (\<not> fst y \<longrightarrow> current (snd y) = current s \<and> process_table (snd y) = process_table s))"
  assume run: "make_dead_from i dead s = Some (gone, s')" and "dead \<noteq> 0"
  have "?P i dead s (gone, s')"
  proof (rule make_dead_from.raw_induct [OF _ run, of ?P])
    fix f :: "nat \<Rightarrow> ptr \<Rightarrow> 'a psys \<Rightarrow> (bool \<times> 'a psys) option" and i dead s y
    assume IH: "\<And>i dead s y. f i dead s = Some y \<Longrightarrow> ?P i dead s y"
      and body: "(if i < PROCESS_MAX_PID
      then if process_table s i \<noteq> 0 \<and> ppid (procs s (process_table s i)) = pid (procs s dead)
        then do {
          (gone, s) \<leftarrow> f 0 (process_table s i) s;
          if gone then Some (True, s) else f (i + 1) dead s
        }
        else f (i + 1) dead s
      else do {
        let s = upd_proc dead (\<lambda>x. x\<lparr>exitcode := 0, exitreason := PROCESS_EXIT_KILLED\<rparr>) s;
        if dead = current s then do { s \<leftarrow> process_switch PROCESS_STATE_GRAVE s; Some (True, s) }
        else do {
          s \<leftarrow> on_lists (list_remove dead) s;
          s \<leftarrow> on_lists (list_push_tail grave_list dead) s;
          Some (False, s)
        }
      }) = Some y"
    show "?P i dead s y"
    proof (intro impI allI)
      fix Q assume d: "dead \<noteq> 0" and ok: "sched_ok s Q"
      show "(\<exists>Q'. sched_ok (snd y) Q') \<and> (\<not> fst y \<longrightarrow> current (snd y) = current s \<and> process_table (snd y) = process_table s)"
      proof (cases "i < PROCESS_MAX_PID")
        case True
        show ?thesis
        proof (cases "process_table s i \<noteq> 0 \<and> ppid (procs s (process_table s i)) = pid (procs s dead)")
          case child: True
          then obtain g s1 where g: "f 0 (process_table s i) s = Some (g, s1)"
            "(if g then Some (True, s1) else f (i + 1) dead s1) = Some y"
            using body True by (auto split: option.splits simp: bind_eq_Some_conv)
          from IH [OF g(1)] child ok have 1: "\<exists>Q'. sched_ok s1 Q'"
            "\<not> g \<longrightarrow> current s1 = current s \<and> process_table s1 = process_table s" by auto
          show ?thesis
          proof (cases g)
            case True
            then show ?thesis using g(2) 1 by auto
          next
            case False
            then show ?thesis using IH [of "i + 1" dead s1 y] g(2) 1 d by auto
          qed
        next
          case False
          then have "f (i + 1) dead s = Some y" using body True by auto
          from IH [OF this] d ok show ?thesis by blast
        qed
      next
        case False
        let ?s = "upd_proc dead (\<lambda>x. x\<lparr>exitcode := 0, exitreason := PROCESS_EXIT_KILLED\<rparr>) s"
        have ok1: "sched_ok ?s Q" by (rule sched_ok_cong [OF ok]) (simp_all add: upd_proc_def)
        have cs: "current ?s = current s" "process_table ?s = process_table s" by (simp_all add: upd_proc_def)
        show ?thesis
        proof (cases "dead = current s")
          case True
          then obtain s1 where s1: "process_switch PROCESS_STATE_GRAVE ?s = Some s1" "y = (True, s1)"
            using body False cs by (auto simp: bind_eq_Some_conv Let_def)
          obtain s2 where s2: "process_switch_out PROCESS_STATE_GRAVE ?s = Some s2" "sched_ok s2 (a_push grave_list (current ?s) Q)" "current s2 = 0"
            using switch_push_ok [OF ok1, of grave_list] d True cs by auto
          show ?thesis using pick_ok [OF s2(2,3)] s1 s2(1) by (auto simp: process_switch_def)
        next
          case nc: False
          then obtain s1 s2 where s12: "on_lists (list_remove dead) ?s = Some s1" "on_lists (list_push_tail grave_list dead) s1 = Some s2" "y = (False, s2)"
            using body False cs by (auto simp: bind_eq_Some_conv Let_def)
          show ?thesis using kill_last_ok [OF ok1 d _ s12(1,2)] nc cs s12(3) by auto
        qed
      qed
    qed
  qed
  with \<open>dead \<noteq> 0\<close> show ?thesis by auto
qed

section \<open>Reachable states\<close>

text \<open>The steps of the kernel that change the lists of processes, in any order.\<close>

inductive sched_step :: "'k psys \<Rightarrow> 'k psys \<Rightarrow> bool" where
  yield: "process_yield s = Some s' \<Longrightarrow> sched_step s s'"
| preempt: "process_preempt s = Some s' \<Longrightarrow> sched_step s s'"
| wait: "current s \<noteq> 0 \<Longrightarrow> wait_list q \<Longrightarrow> process_wait q s = Some s' \<Longrightarrow> sched_step s s'"
| wakeup: "wait_list q \<Longrightarrow> process_wakeup q s = Some s' \<Longrightarrow> sched_step s s'"
| wakeup_all: "wait_list q \<Longrightarrow> process_wakeup_all q s = Some s' \<Longrightarrow> sched_step s s'"
| exit: "process_exit code s = Some s' \<Longrightarrow> sched_step s s'"
| idle: "current s = 0 \<Longrightarrow> process_pick s = Some s' \<Longrightarrow> sched_step s s'"
| launch: "p \<noteq> 0 \<Longrightarrow> p \<noteq> current s \<Longrightarrow> owner (nodes (lh s) p) = 0 \<Longrightarrow> pstate (procs s p) = PROCESS_STATE_READY \<Longrightarrow>
    process_launch p s = Some s' \<Longrightarrow> sched_step s s'"
| kill: "process_kill n s = Some (r, s') \<Longrightarrow> sched_step s s'"

lemma launch_ok:
  assumes "sched_ok s Q" "p \<noteq> 0" "p \<noteq> current s" "unlisted p Q" "pstate (procs s p) = PROCESS_STATE_READY"
  shows "\<exists>s'. process_launch p s = Some s' \<and> sched_ok s' (a_push ready_list p Q) \<and> current s' = current s"
proof -
  have "ready_list \<noteq> 0" by simp
  from push_queue [OF sched_queues [OF assms(1)] this assms(4)] obtain h where
    h: "on_lists (list_push_tail ready_list p) s = Some (s\<lparr>lh := h\<rparr>)" "queues (s\<lparr>lh := h\<rparr>) (a_push ready_list p Q)"
    unfolding a_push_def by blast
  have "sched_ok (s\<lparr>lh := h\<rparr>) (a_push ready_list p (without p Q))"
    using h(2) assms by (intro move_ok [OF assms(1)]) (auto simp: without_unlisted fits_def wait_list_def)
  then show ?thesis using h(1) by (simp add: process_launch_def without_unlisted [OF assms(4)])
qed

lemma owned_listed: "queues s Q \<Longrightarrow> p \<in> set (Q l) \<Longrightarrow> owner (nodes (lh s) p) = l"
  using list_rep_owner [OF queues_rep] queue_addr by metis

lemma exit_removable:
  assumes ok: "sched_ok s Q" and run: "process_exit code s = Some s'" and p: "a_parent (procs s) (current s) Q = Some p"
  shows "removable p Q"
proof (rule ccontr)
  assume r: "\<not> removable p Q"
  let ?s = "upd_proc (current s) (\<lambda>x. x\<lparr>exitcode := code, exitreason := PROCESS_EXIT_NORMAL\<rparr>) s"
  have q: "queues ?s Q" using sched_queues [OF ok] by (rule queues_cong) (simp add: upd_proc_def)
  have w: "waits_for (procs ?s p) (procs ?s x) = waits_for (procs s p) (procs s x)" for p x
    by (simp add: waits_for_def upd_proc_def)
  have cs: "current ?s = current s" by (simp add: upd_proc_def)
  have hq: "head (lists (lh ?s) grave_watcher_list) = hdq (Q grave_watcher_list) 0"
    using queues_rep [OF q, of grave_watcher_list] by (simp add: list_rep_def)
  have "wakeup_parent_from (hdq (Q grave_watcher_list) 0) ?s = None"
    using wakeup_parent_fault [OF q _ _ r, of "[]" "Q grave_watcher_list"] p by (simp add: a_parent_def w cs)
  then have "process_wakeup_parent grave_watcher_list ?s = None" by (simp only: process_wakeup_parent_def hq)
  then have "process_exit code s = None" by (simp add: process_exit_def)
  with run show False by simp
qed

lemma sched_step_ok: "sched_step s s' \<Longrightarrow> sched_ok s Q \<Longrightarrow> \<exists>Q'. sched_ok s' Q'"
proof (induction rule: sched_step.induct)
  case (yield s s')
  then show ?case using yield_ok [of s Q] by (cases "current s = 0") (auto simp: process_yield_def)
next
  case (preempt s s')
  then show ?case using yield_ok [of s Q] by (auto simp: process_preempt_def process_yield_def split: if_splits)
next
  case (wait s q s')
  then show ?case using wait_ok [of s Q q] by auto
next
  case (wakeup q s s')
  then show ?case using wakeup_ok [of s Q q] by auto
next
  case (wakeup_all q s s')
  then show ?case using wakeup_all_ok [of s Q q] by auto
next
  case (exit code s s')
  have c: "current s \<noteq> 0" using exit(1) by (simp add: process_exit_def split: if_splits)
  show ?case using exit_ok [OF exit(2) c, of code] exit_removable [OF exit(2,1)] exit(1) by auto
next
  case (idle s s')
  then show ?case using pick_ok [of s Q] by auto
next
  case (launch p s s')
  have "unlisted p Q" using launch owned_listed [OF sched_queues [OF launch(6)], of p] queue_addr [OF sched_queues [OF launch(6)], of p]
    by (auto simp: unlisted_def)
  then show ?case using launch_ok [OF launch(6,1,2) _ launch(4)] launch(5) by auto
next
  case (kill n s r s')
  show ?case
  proof (cases "n > 0 \<and> n \<le> of_nat PROCESS_MAX_PID \<and> process_table s (unat n) \<noteq> 0")
    case True
    then obtain g where "make_dead_from 0 (process_table s (unat n)) s = Some (g, s')"
      using kill(1) by (auto simp: process_kill_def process_make_dead_def Let_def bind_eq_Some_conv split: if_splits)
    from make_dead_ok [OF this] True kill(2) show ?thesis by blast
  next
    case False
    then have "s' = s" using kill(1) by (auto simp: process_kill_def Let_def split: if_splits)
    then show ?thesis using kill(2) by blast
  qed
qed

inductive sched_reach :: "'k psys \<Rightarrow> 'k psys \<Rightarrow> bool" for s where
  start: "sched_reach s s"
| step: "sched_reach s s' \<Longrightarrow> sched_step s' s'' \<Longrightarrow> sched_reach s s''"

section \<open>Yielding in turn\<close>

fun yields :: "nat \<Rightarrow> 'k psys \<Rightarrow> 'k psys option" where
  "yields 0 s = Some s"
| "yields (Suc n) s = do { s \<leftarrow> yields n s; process_yield s }"

text \<open>The registers of the current process are those its stack holds below the stack pointer.\<close>

definition loaded :: "'k psys \<Rightarrow> bool" where
  "loaded s \<longleftrightarrow> pstate (procs s (current s)) = PROCESS_STATE_RUNNING \<and> cpu s = regs_at (kmem s) (kstack_ptr (procs s (current s)))"

lemma on_lists_fields: "on_lists f s = Some s' \<Longrightarrow> s' = s\<lparr>lh := lh s'\<rparr>"
  by (auto simp: on_lists_def)

lemma yield_fields:
  assumes "process_yield s = Some s'" "current s \<noteq> 0" "pstate (procs s (current s)) \<noteq> PROCESS_STATE_CRADLE" "current s' \<noteq> 0"
  shows "kmem s' = kmem (save_context s)" "kstack_ptr (procs s' x) = kstack_ptr (procs (save_context s) x)" "loaded s'"
proof -
  obtain s1 where s1: "process_switch_out PROCESS_STATE_READY s = Some s1" "process_pick s1 = Some s'"
    using assms(1,2) by (auto simp: process_yield_def process_switch_def bind_eq_Some_conv)
  obtain h where "s1 = (parked PROCESS_STATE_READY s)\<lparr>lh := h, current := 0\<rparr>"
    using s1(1) by (auto simp: switch_out_eq [OF assms(2)] on_lists_def)
  then have p: "kmem s1 = kmem (save_context s)" "kstack_ptr (procs s1 x) = kstack_ptr (procs (save_context s) x)" for x
    using assms(3) by (simp_all add: parked_def upd_proc_def)
  obtain p h' where l: "list_pop_head ready_list (lh s1) = Some (p, h')"
    using s1(2) by (cases "list_pop_head ready_list (lh s1)") (auto simp: process_pick_def pop_list_def)
  have nz: "p \<noteq> 0"
  proof
    assume "p = 0"
    then have "s' = s1\<lparr>lh := h', current := 0\<rparr>" using s1(2) l by (simp add: process_pick_def pop_list_def)
    then show False using assms(4) by simp
  qed
  have "s' = (let s = upd_proc p (\<lambda>x. x\<lparr>pstate := PROCESS_STATE_RUNNING\<rparr>) (s1\<lparr>lh := h', current := p\<rparr>) in
      s\<lparr>interrupt_stack_pointer := kstack_top (procs s p), cr3 := pagetable (procs s p), cpu := regs_at (kmem s) (kstack_ptr (procs s p))\<rparr>)"
    using s1(2) l nz by (simp add: process_pick_def pop_list_def Let_def)
  then show "kmem s' = kmem (save_context s)" "kstack_ptr (procs s' x) = kstack_ptr (procs (save_context s) x)" "loaded s'"
    using p by (simp_all add: Let_def upd_proc_def loaded_def)
qed

text \<open>Saving registers that came from the stack stores what is there.\<close>

lemma save_loaded:
  assumes "loaded s"
  shows "kmem (save_context s) = kmem s" "kstack_ptr (procs (save_context s) x) = kstack_ptr (procs s x)"
  using assms by (auto simp: save_context_def loaded_def regs_at_def set_word_def upd_proc_def Let_def fun_eq_iff add.commute)

definition frame_words :: "u32 \<Rightarrow> u32 set" where
  "frame_words a = {a, a + 4, a + 8, a + 12, a + 16, a + 20, a + 24}"

lemma save_regs: "regs_at (kmem (save_context s)) (esp (cpu s) - 28) = cpu s"
  by (cases "cpu s") (simp add: save_context_def regs_at_def set_word_def upd_proc_def Let_def)

lemma save_other: "frame_words (esp (cpu s) - 28) \<inter> frame_words a = {} \<Longrightarrow> regs_at (kmem (save_context s)) a = regs_at (kmem s) a"
  by (auto simp: save_context_def regs_at_def set_word_def upd_proc_def Let_def frame_words_def)

lemma a_pick_push: "Q ready_list = xs \<Longrightarrow> a_pick (a_push ready_list c Q) = (hd (xs @ [c]), Q(ready_list := tl (xs @ [c])))"
  by (cases xs) (simp_all add: a_pick_def a_push_def)

lemma yields_Suc: "yields (Suc n) s = do { s \<leftarrow> process_yield s; yields n s }"
proof (induction n)
  case (Suc n)
  have "yields (Suc (Suc n)) s = do { s \<leftarrow> yields (Suc n) s; process_yield s }" by simp
  also have "\<dots> = do { s \<leftarrow> process_yield s; yields (Suc n) s }" unfolding Suc.IH by (cases "process_yield s") simp_all
  finally show ?case .
qed simp

text \<open>Once the registers are on the stacks, yielding only rotates the ready list.\<close>

lemma rotate:
  "sched_ok s Q \<Longrightarrow> loaded s \<Longrightarrow> Q ready_list = ps @ zs \<Longrightarrow> current s \<noteq> 0 \<Longrightarrow>
    \<exists>s'. yields (length ps) s = Some s' \<and> sched_ok s' (Q(ready_list := zs @ butlast (current s # ps))) \<and>
      current s' = last (current s # ps) \<and> kmem s' = kmem s \<and> (\<forall>x. kstack_ptr (procs s' x) = kstack_ptr (procs s x)) \<and> loaded s'"
proof (induction ps arbitrary: s Q zs)
  case Nil
  then show ?case by (simp add: fun_upd_idem)
next
  case (Cons p ps)
  let ?c = "current s" and ?Q = "Q(ready_list := ps @ zs @ [current s])"
  have pk: "a_pick (a_push ready_list ?c Q) = (p, ?Q)" using a_pick_push [where Q = Q and c = ?c, OF Cons.prems(3)] by simp
  obtain s1 where s1: "process_yield s = Some s1" "sched_ok s1 ?Q" "current s1 = p"
    using yield_ok [OF Cons.prems(1,4)] by (auto simp: pk)
  have nz: "p \<noteq> 0" using queue_nonnull [OF sched_queues [OF Cons.prems(1)], of ready_list] Cons.prems(3) by auto
  have nc: "pstate (procs s ?c) \<noteq> PROCESS_STATE_CRADLE" using Cons.prems(2) by (simp add: loaded_def)
  have f: "kmem s1 = kmem s" "kstack_ptr (procs s1 x) = kstack_ptr (procs s x)" "loaded s1" for x
    using yield_fields [OF s1(1) Cons.prems(4) nc] s1(3) nz save_loaded [OF Cons.prems(2)] by auto
  have q1: "?Q ready_list = ps @ (zs @ [?c])" "current s1 \<noteq> 0" using s1(3) nz by simp_all
  obtain s2 where "yields (length ps) s1 = Some s2" "sched_ok s2 (?Q(ready_list := (zs @ [?c]) @ butlast (current s1 # ps)))"
    "current s2 = last (current s1 # ps)" "kmem s2 = kmem s1" "\<forall>x. kstack_ptr (procs s2 x) = kstack_ptr (procs s1 x)" "loaded s2"
    using Cons.IH [OF s1(2) f(3) q1] by blast
  moreover have "?Q(ready_list := (zs @ [?c]) @ butlast (current s1 # ps)) = Q(ready_list := zs @ butlast (?c # p # ps))"
    "last (current s1 # ps) = last (?c # p # ps)" by (simp_all add: s1(3))
  moreover have "yields (length (p # ps)) s = yields (length ps) s1" using s1(1) by (simp add: yields_Suc del: yields.simps)
  ultimately show ?case using f by metis
qed

text \<open>The general form of the property of yielding in turn.\<close>

lemma yield_rounds:
  assumes ok: "sched_ok s Q" and c: "current s \<noteq> 0" "pstate (procs s (current s)) = PROCESS_STATE_RUNNING"
    and sep: "\<And>p. p \<in> set (Q ready_list) \<Longrightarrow> frame_words (esp (cpu s) - 28) \<inter> frame_words (kstack_ptr (procs s p)) = {}"
    and k: "k \<le> length (Q ready_list)"
  shows "\<exists>s'. yields (Suc k) s = Some s' \<and> current s' = (Q ready_list @ [current s]) ! k \<and>
    cpu s' = (if k < length (Q ready_list) then regs_at (kmem s) (kstack_ptr (procs s (Q ready_list ! k))) else cpu s) \<and>
    (k = length (Q ready_list) \<longrightarrow> sched_ok s' Q)"
proof -
  let ?c = "current s" and ?r = "Q ready_list"
  let ?t = "tl (?r @ [?c])"
  obtain s1 where s1: "process_yield s = Some s1" "sched_ok s1 (Q(ready_list := ?t))" "current s1 = hd (?r @ [?c])"
    using yield_ok [OF ok c(1)] by (auto simp: a_pick_push)
  have un: "unlisted ?c Q" using ok c(1) by (simp add: sched_ok_def)
  have nz: "current s1 \<noteq> 0"
    using queue_nonnull [OF sched_queues [OF ok], of ready_list] c(1) s1(3) by (cases ?r) auto
  have nc: "pstate (procs s ?c) \<noteq> PROCESS_STATE_CRADLE" using c(2) by simp
  note f = yield_fields [OF s1(1) c(1) nc nz]
  have q1: "(Q(ready_list := ?t)) ready_list = take k ?t @ drop k ?t" by simp
  obtain s2 where s2: "yields (length (take k ?t)) s1 = Some s2"
    "sched_ok s2 ((Q(ready_list := ?t))(ready_list := drop k ?t @ butlast (current s1 # take k ?t)))"
    "current s2 = last (current s1 # take k ?t)" "kmem s2 = kmem s1" "\<forall>x. kstack_ptr (procs s2 x) = kstack_ptr (procs s1 x)" "loaded s2"
    using rotate [OF s1(2) f(3) q1 nz] by blast
  have len: "length ?t = length ?r" by simp
  have hd_tl: "current s1 # ?t = ?r @ [?c]" unfolding s1(3) by (cases ?r) simp_all
  have "current s1 # take k ?t = take (Suc k) (?r @ [?c])" using hd_tl by (metis take_Suc_Cons)
  then have lk: "last (current s1 # take k ?t) = (?r @ [?c]) ! k" using k by (simp add: last_conv_nth take_Suc_conv_app_nth nth_append)
  have "length (take k ?t) = k" using k len by simp
  then have run: "yields (Suc k) s = Some s2" using s1(1) s2(1) by (simp add: yields_Suc del: yields.simps)
  have cpu: "cpu s2 = regs_at (kmem (save_context s)) (kstack_ptr (procs (save_context s) ((?r @ [?c]) ! k)))"
    using s2(3-6) lk f by (simp add: loaded_def)
  have kc: "kstack_ptr (procs (save_context s) ?c) = esp (cpu s) - 28"
    by (simp add: save_context_def upd_proc_def Let_def set_word_def)
  have kp: "kstack_ptr (procs (save_context s) p) = kstack_ptr (procs s p)" if "p \<noteq> ?c" for p
    using that by (simp add: save_context_def upd_proc_def Let_def set_word_def)
  have "cpu s2 = (if k < length ?r then regs_at (kmem s) (kstack_ptr (procs s (?r ! k))) else cpu s)"
  proof (cases "k < length ?r")
    case True
    then have m: "?r ! k \<in> set ?r" by simp
    then have "?r ! k \<noteq> ?c" using un by (auto simp: unlisted_def)
    then show ?thesis using cpu True kp save_other [OF sep [OF m]] by (simp add: nth_append)
  next
    case False
    then show ?thesis using cpu k kc save_regs [of s] by (simp add: nth_append)
  qed
  moreover have "sched_ok s2 Q" if "k = length ?r"
  proof -
    have "take k ?t = ?t" "drop k ?t = []" using that len by simp_all
    moreover have "butlast (current s1 # ?t) = ?r" unfolding hd_tl by simp
    ultimately have e: "(Q(ready_list := ?t))(ready_list := drop k ?t @ butlast (current s1 # take k ?t)) = Q" by auto
    show ?thesis using s2(2) unfolding e .
  qed
  ultimately show ?thesis using run s2(3) lk by (intro exI [of _ s2]) simp
qed

lemma make_dead_childless:
  "\<forall>j < PROCESS_MAX_PID. \<not> (process_table s j \<noteq> 0 \<and> ppid (procs s (process_table s j)) = pid (procs s dead)) \<Longrightarrow>
    make_dead_from i dead s = make_dead_from PROCESS_MAX_PID dead s"
proof (induction "PROCESS_MAX_PID - i" arbitrary: i)
  case (Suc n)
  have i: "i < PROCESS_MAX_PID" using Suc.hyps(2) by simp
  then have "\<not> (process_table s i \<noteq> 0 \<and> ppid (procs s (process_table s i)) = pid (procs s dead))" using Suc.prems by blast
  then have "make_dead_from i dead s = make_dead_from (i + 1) dead s"
    using i by (subst make_dead_from.simps) (simp only: if_True if_False)
  then show ?case using Suc by simp
next
  case 0
  then have "\<not> i < PROCESS_MAX_PID" by simp
  then show ?case by (simp add: make_dead_from.simps [of i] make_dead_from.simps [of PROCESS_MAX_PID])
qed

lemma find_upt_Some: "find P [a..<b] = Some i \<longleftrightarrow> a \<le> i \<and> i < b \<and> P i \<and> (\<forall>j. a \<le> j \<and> j < i \<longrightarrow> \<not> P j)"
proof
  assume "find P [a..<b] = Some i"
  then obtain k where k: "k < b - a" "P (a + k)" "i = a + k" "\<forall>j<k. \<not> P (a + j)" by (auto simp: find_Some_iff)
  moreover have "\<not> P j" if "a \<le> j" "j < i" for j using k(4) [rule_format, of "j - a"] k(3) that by simp
  ultimately show "a \<le> i \<and> i < b \<and> P i \<and> (\<forall>j. a \<le> j \<and> j < i \<longrightarrow> \<not> P j)" by auto
next
  assume "a \<le> i \<and> i < b \<and> P i \<and> (\<forall>j. a \<le> j \<and> j < i \<longrightarrow> \<not> P j)"
  then show "find P [a..<b] = Some i" by (auto simp: find_Some_iff intro!: exI [of _ "i - a"])
qed

section \<open>A sample kernel\<close>

definition sample_cpu :: x86_regs where
  "sample_cpu = \<lparr>eax = 1, ebx = 2, ecx = 3, edx = 4, esi = 5, edi = 6, ebp = 7, esp = 0x2000\<rparr>"

text \<open>Process 10 runs, and processes 20, 30 and 40 are not launched yet; process \<open>p\<close> has the number
  \<open>p / 10\<close>.\<close>

definition sample_kernel :: "unit psys" where
  "sample_kernel = \<lparr>lh = \<lparr>nodes = (\<lambda>_. \<lparr>nxt = 0, prv = 0, owner = 0, priority = 0\<rparr>), lists = (\<lambda>_. LIST_INIT)\<rparr>,
     procs = (\<lambda>p. zero_process\<lparr>pstate := (if p = 10 then PROCESS_STATE_RUNNING else PROCESS_STATE_READY),
        pid := of_nat (p div 10), ppid := 1000, kstack_ptr := of_nat (p * 1000)\<rparr>),
     current = 10, process_table = (\<lambda>i. if i \<in> {1, 2, 3, 4} then 10 * i else 0), last_pid = 4,
     kmem = (\<lambda>a. a), cpu = sample_cpu, cr3 = 0, interrupt_stack_pointer = 0, allow_preempt = True,
     mem = \<lparr>pages_free = 0, pages_total = 0, freemap_ready = False, freemap = (\<lambda>_. 0), freemap_bits = 0,
       freemap_bytes = 0, freemap_cells = 0, freemap_pages = 0, phys = (\<lambda>_ _. 0)\<rparr>,
     boot = \<lparr>total_memory = 0, video_buffer = 0, video_xres = 0, video_yres = 0, intr_return = 0\<rparr>, kobjs = ()\<rparr>"

lemma sample_kernel_ok: "sched_ok sample_kernel (\<lambda>_. [])"
proof -
  have "queues sample_kernel (\<lambda>_. [])"
    by (simp add: queues_def sample_kernel_def list_rep_def LIST_INIT_def)
  moreover have "pstate (procs sample_kernel p) = (if p = 10 then PROCESS_STATE_RUNNING else PROCESS_STATE_READY)"
    "current sample_kernel = 10" for p
    by (simp_all add: sample_kernel_def)
  ultimately show ?thesis by (simp add: sched_ok_def unlisted_def)
qed

section \<open>Properties\<close>

text \<open>Claim C15. The scheduler refines operations on the current process and sequences of processes.
  Yielding puts the current process at the end of the ready list and runs its first; waiting puts
  it at the end of the wait list; waking moves the first process of a wait list, or all of them in
  order, to the end of the ready list; leaving wakes the first waiting parent.  None of these
  faults, except that leaving faults when the parent is in the middle of the list of waiting parents.\<close>

theorem scheduler_refines_queues:
  assumes "sched_ok s Q"
  shows "(current s \<noteq> 0 \<longrightarrow> (\<exists>s'. process_yield s = Some s' \<and>
      current s' = fst (a_pick (a_push ready_list (current s) Q)) \<and> sched_ok s' (snd (a_pick (a_push ready_list (current s) Q))))) \<and>
    (\<forall>q. current s \<noteq> 0 \<and> wait_list q \<longrightarrow> (\<exists>s'. process_wait q s = Some s' \<and>
      current s' = fst (a_pick (a_push q (current s) Q)) \<and> sched_ok s' (snd (a_pick (a_push q (current s) Q))))) \<and>
    (\<forall>q. wait_list q \<longrightarrow> (\<exists>s'. process_wakeup q s = Some s' \<and> current s' = current s \<and> sched_ok s' (a_wakeup q Q))) \<and>
    (\<forall>q. wait_list q \<longrightarrow> (\<exists>s'. process_wakeup_all q s = Some s' \<and> current s' = current s \<and>
      sched_ok s' (Q(q := [], ready_list := Q ready_list @ Q q)))) \<and>
    (\<forall>code. current s \<noteq> 0 \<longrightarrow>
      (if \<forall>p. a_parent (procs s) (current s) Q = Some p \<longrightarrow> removable p Q
       then \<exists>s'. process_exit code s = Some s' \<and>
         current s' = fst (a_pick (a_push grave_list (current s) (a_exit (procs s) (current s) Q))) \<and>
         sched_ok s' (snd (a_pick (a_push grave_list (current s) (a_exit (procs s) (current s) Q))))
       else process_exit code s = None))"
proof (intro conjI allI impI)
  fix code assume c: "current s \<noteq> 0"
  show "if \<forall>p. a_parent (procs s) (current s) Q = Some p \<longrightarrow> removable p Q
       then \<exists>s'. process_exit code s = Some s' \<and>
         current s' = fst (a_pick (a_push grave_list (current s) (a_exit (procs s) (current s) Q))) \<and>
         sched_ok s' (snd (a_pick (a_push grave_list (current s) (a_exit (procs s) (current s) Q))))
       else process_exit code s = None"
  proof (cases "\<forall>p. a_parent (procs s) (current s) Q = Some p \<longrightarrow> removable p Q")
    case True
    then show ?thesis using exit_ok [OF assms c, of code] by auto
  next
    case False
    then show ?thesis using exit_removable [OF assms, of code] by (cases "process_exit code s") auto
  qed
qed (use yield_ok [OF assms] wait_ok [OF assms] wakeup_ok [OF assms] wakeup_all_ok [OF assms] in blast)+

theorem scheduler_refines_queues_witness:
  "\<exists>s'. process_wait 9 sample_kernel = Some s' \<and> current s' = 0"
proof -
  have "current sample_kernel \<noteq> 0 \<and> wait_list 9"
    by (simp add: sample_kernel_def wait_list_def ready_list_def grave_list_def)
  then obtain s' where "process_wait 9 sample_kernel = Some s'" "current s' = fst (a_pick (a_push 9 (current sample_kernel) (\<lambda>_. [])))"
    using scheduler_refines_queues [OF sample_kernel_ok] by metis
  moreover have "a_push 9 (current sample_kernel) (\<lambda>_. []) ready_list = []" by (simp add: a_push_def ready_list_def)
  ultimately show ?thesis by (simp add: a_pick_def)
qed

text \<open>Claim C16. In every state the kernel reaches by yielding, waiting, waking, launching, leaving and
  killing, the current process is running and on no list, no other process is running, the
  processes on the ready list are ready and those on wait lists are blocked, and each process is
  on one list at most.\<close>

theorem scheduler_invariant:
  assumes "sched_reach s s'" "sched_ok s Q"
  shows "\<exists>Q'. sched_ok s' Q'"
  using assms by (induction rule: sched_reach.induct) (use sched_step_ok in blast)+

theorem scheduler_invariant_witness:
  "\<exists>s1 s2 Q. process_launch 20 sample_kernel = Some s1 \<and> process_yield s1 = Some s2 \<and> sched_ok s2 Q \<and> current s2 = 20"
proof -
  obtain s1 where s1: "process_launch 20 sample_kernel = Some s1" "sched_ok s1 (a_push ready_list 20 (\<lambda>_. []))" "current s1 = 10"
    using launch_ok [OF sample_kernel_ok, of 20] by (auto simp: unlisted_def sample_kernel_def)
  obtain s2 where s2: "process_yield s1 = Some s2" "current s2 = 20"
    using yield_ok [OF s1(2)] s1(3) by (auto simp: a_pick_def a_push_def)
  have "sched_step sample_kernel s1"
    by (rule sched_step.launch [OF _ _ _ _ s1(1)]) (simp_all add: sample_kernel_def)
  then have "sched_reach sample_kernel s2" using sched_reach.intros sched_step.yield [OF s2(1)] by metis
  from scheduler_invariant [OF this sample_kernel_ok] s1(1) s2 show ?thesis by blast
qed

text \<open>Claim C17. Every ready process gets its turn, in order: when the processes only yield, the
  \<open>k\<close>-th yield runs the \<open>k\<close>-th process of the ready list with the registers its kernel stack holds;
  after as many yields as there are ready processes, and one more, the first process runs again
  with all its registers as they were, and the lists are as they were.\<close>

theorem yield_round_robin:
  assumes "sched_ok s Q" "current s \<noteq> 0" "pstate (procs s (current s)) = PROCESS_STATE_RUNNING"
    "\<And>p. p \<in> set (Q ready_list) \<Longrightarrow> frame_words (esp (cpu s) - 28) \<inter> frame_words (kstack_ptr (procs s p)) = {}"
    "k \<le> length (Q ready_list)"
  shows "\<exists>s'. yields (Suc k) s = Some s' \<and> current s' = (Q ready_list @ [current s]) ! k \<and>
    cpu s' = (if k < length (Q ready_list) then regs_at (kmem s) (kstack_ptr (procs s (Q ready_list ! k))) else cpu s) \<and>
    (k = length (Q ready_list) \<longrightarrow> sched_ok s' Q)"
  using yield_rounds [OF assms] .

theorem yield_round_robin_witness:
  "\<exists>s1 s2. process_launch 20 sample_kernel = Some s1 \<and> yields 2 s1 = Some s2 \<and> current s2 = 10 \<and> cpu s2 = sample_cpu"
proof -
  let ?Q = "a_push ready_list 20 (\<lambda>_. [])"
  obtain s1 where s1: "process_launch 20 sample_kernel = Some s1" "sched_ok s1 ?Q" "current s1 = 10"
    using launch_ok [OF sample_kernel_ok, of 20] by (auto simp: unlisted_def sample_kernel_def)
  have f: "procs s1 = procs sample_kernel" "cpu s1 = sample_cpu"
    using s1(1) by (auto simp: process_launch_def on_lists_def sample_kernel_def)
  have q: "?Q ready_list = [20]" by (simp add: a_push_def)
  have "frame_words (esp (cpu s1) - 28) \<inter> frame_words (kstack_ptr (procs s1 20)) = {}"
    by (simp add: f sample_cpu_def sample_kernel_def frame_words_def)
  then show ?thesis
    using yield_round_robin [OF s1(2), of 1] s1(1,3) f by (auto simp: q sample_kernel_def numeral_2_eq_2)
qed

text \<open>\<^verbatim>\<open>process_kill\<close> of a process without children takes it off its list and puts it at the
  end of the grave list, marked as killed, when it is on no list or the first or last of its
  list; in the middle of a list the call faults.\<close>

theorem process_kill_childless:
  assumes ok: "sched_ok s Q" and n: "0 < n" "n < of_nat PROCESS_MAX_PID" and dead: "process_table s (unat n) = dead" "dead \<noteq> 0" "dead \<noteq> current s"
    and child: "\<And>i. i < PROCESS_MAX_PID \<Longrightarrow> process_table s i \<noteq> 0 \<Longrightarrow> ppid (procs s (process_table s i)) \<noteq> pid (procs s dead)"
  shows "if removable dead Q
    then \<exists>s'. process_kill n s = Some (Some 0, s') \<and> sched_ok s' (a_push grave_list dead (without dead Q)) \<and>
      current s' = current s \<and> exitreason (procs s' dead) = PROCESS_EXIT_KILLED
    else process_kill n s = None"
proof -
  let ?s = "upd_proc dead (\<lambda>x. x\<lparr>exitcode := 0, exitreason := PROCESS_EXIT_KILLED\<rparr>) s"
  have ok1: "sched_ok ?s Q" by (rule sched_ok_cong [OF ok]) (simp_all add: upd_proc_def)
  have cs: "current ?s = current s" by (simp add: upd_proc_def)
  have "make_dead_from 0 dead s = make_dead_from PROCESS_MAX_PID dead s"
    using child by (intro make_dead_childless) auto
  also have "\<dots> = do { s \<leftarrow> on_lists (list_remove dead) ?s; s \<leftarrow> on_lists (list_push_tail grave_list dead) s; Some (False, s) }"
    using dead(3) cs by (subst make_dead_from.simps) simp
  finally have run: "process_kill n s = do {
      (gone, s) \<leftarrow> do { s \<leftarrow> on_lists (list_remove dead) ?s; s \<leftarrow> on_lists (list_push_tail grave_list dead) s; Some (False, s) };
      Some (if gone then None else Some 0, s) }"
    using n(1) less_imp_le [OF n(2)] dead(1,2) by (simp add: process_kill_def process_make_dead_def Let_def)
  show ?thesis
  proof (cases "removable dead Q")
    case True
    note q = sched_queues [OF ok1]
    obtain h where h: "on_lists (list_remove dead) ?s = Some (?s\<lparr>lh := h\<rparr>)" "queues (?s\<lparr>lh := h\<rparr>) (without dead Q)"
      using remove_queue [OF q dead(2) True] by blast
    have "grave_list \<noteq> 0" by simp
    from push_queue [OF h(2) this unlisted_without [OF q dead(2)]] obtain h' where
      h': "on_lists (list_push_tail grave_list dead) (?s\<lparr>lh := h\<rparr>) = Some (?s\<lparr>lh := h'\<rparr>)" by auto
    have "dead \<noteq> current ?s" using dead(3) cs by simp
    from kill_last_ok [OF ok1 dead(2) this h(1) h'] True run h(1) h' show ?thesis by (simp add: upd_proc_def)
  next
    case False
    then show ?thesis using run remove_fault [OF sched_queues [OF ok1] False] by simp
  qed
qed

theorem process_kill_childless_witness:
  "\<exists>s1 s'. process_launch 20 sample_kernel = Some s1 \<and> process_kill 2 s1 = Some (Some 0, s') \<and> exitreason (procs s' 20) = 1"
proof -
  let ?Q = "a_push ready_list 20 (\<lambda>_. [])"
  obtain s1 where s1: "process_launch 20 sample_kernel = Some s1" "sched_ok s1 ?Q" "current s1 = 10"
    using launch_ok [OF sample_kernel_ok, of 20] by (auto simp: unlisted_def sample_kernel_def)
  have f: "procs s1 = procs sample_kernel" "process_table s1 = process_table sample_kernel"
    using s1(1) by (auto simp: process_launch_def on_lists_def)
  have "removable 20 ?Q" by (simp add: removable_def a_push_def)
  then show ?thesis
    using process_kill_childless [OF s1(2), of 2 20] s1(1,3) f
    by (auto simp: sample_kernel_def PROCESS_MAX_PID_def PROCESS_EXIT_KILLED_def)
qed

text \<open>\<^verbatim>\<open>process_allocate_pid\<close> returns the first free number after the last one it gave out,
  in a cycle through 1 to 1023; it returns 0 exactly when no number is free, not counting the
  last one given out, which it never tries again.\<close>

theorem process_allocate_pid_correct:
  assumes "0 \<le> last_pid s" "last_pid s < int PROCESS_MAX_PID"
  shows "case process_allocate_pid s of (n, s') \<Rightarrow>
    (if \<exists>i. 1 \<le> i \<and> i < PROCESS_MAX_PID \<and> int i \<noteq> last_pid s \<and> process_table s i = 0
     then 1 \<le> n \<and> n < int PROCESS_MAX_PID \<and> n \<noteq> last_pid s \<and> process_table s (nat n) = 0 \<and> last_pid s' = n \<and>
       (\<forall>i. last_pid s < int i \<and> int i < (if n > last_pid s then n else int PROCESS_MAX_PID) \<longrightarrow> process_table s i \<noteq> 0) \<and>
       (n < last_pid s \<longrightarrow> (\<forall>i. 1 \<le> i \<and> int i < n \<longrightarrow> process_table s i \<noteq> 0))
     else n = 0 \<and> s' = s)"
proof -
  obtain l where l: "last_pid s = int l" using assms(1) zero_le_imp_eq_int by blast
  have lm: "l < PROCESS_MAX_PID" using assms(2) l by simp
  let ?P = "\<lambda>i. process_table s i = 0"
  show ?thesis
  proof (cases "find ?P [l + 1..<PROCESS_MAX_PID]")
    case (Some i)
    then have i: "l + 1 \<le> i" "i < PROCESS_MAX_PID" "?P i" "\<forall>j. l + 1 \<le> j \<and> j < i \<longrightarrow> \<not> ?P j" by (simp_all add: find_upt_Some)
    moreover have "process_allocate_pid s = (int i, s\<lparr>last_pid := int i\<rparr>)"
      using Some l by (simp add: process_allocate_pid_def nat_add_distrib)
    moreover have "\<exists>i. 1 \<le> i \<and> i < PROCESS_MAX_PID \<and> int i \<noteq> last_pid s \<and> ?P i"
      using i l by (intro exI [of _ i]) auto
    ultimately show ?thesis using l by auto
  next
    case None
    then have up: "\<not> ?P j" if "l < j" "j < PROCESS_MAX_PID" for j using that by (simp add: find_None_iff)
    show ?thesis
    proof (cases "find ?P [1..<l]")
      case (Some i)
      then have i: "1 \<le> i" "i < l" "?P i" "\<forall>j. 1 \<le> j \<and> j < i \<longrightarrow> \<not> ?P j" by (simp_all add: find_upt_Some)
      moreover have "process_allocate_pid s = (int i, s\<lparr>last_pid := int i\<rparr>)"
        using None Some l by (simp add: process_allocate_pid_def nat_add_distrib)
      moreover have "\<exists>i. 1 \<le> i \<and> i < PROCESS_MAX_PID \<and> int i \<noteq> last_pid s \<and> ?P i"
        using i l lm by (intro exI [of _ i]) auto
      ultimately show ?thesis using l lm up by auto
    next
      case none: None
      then have low: "\<not> ?P j" if "1 \<le> j" "j < l" for j using that by (simp add: find_None_iff)
      have "process_allocate_pid s = (0, s)"
        using None none l by (simp add: process_allocate_pid_def nat_add_distrib)
      moreover have "\<not> (\<exists>i. 1 \<le> i \<and> i < PROCESS_MAX_PID \<and> int i \<noteq> last_pid s \<and> ?P i)"
        using up low l by (metis linorder_neqE_nat)
      ultimately show ?thesis by simp
    qed
  qed
qed

theorem process_allocate_pid_correct_witness:
  "fst (process_allocate_pid sample_kernel) = 5"
proof -
  obtain n s' where r: "process_allocate_pid sample_kernel = (n, s')" by fastforce
  have b: "last_pid sample_kernel = 4" "process_table sample_kernel 5 = 0" by (simp_all add: sample_kernel_def)
  have t: "process_table sample_kernel i = (if i \<in> {1, 2, 3, 4} then 10 * i else 0)" for i by (simp add: sample_kernel_def)
  have "\<exists>i. 1 \<le> i \<and> i < PROCESS_MAX_PID \<and> int i \<noteq> last_pid sample_kernel \<and> process_table sample_kernel i = 0"
    by (intro exI [of _ 5]) (simp add: b PROCESS_MAX_PID_def)
  then have n: "1 \<le> n" "process_table sample_kernel (nat n) = 0"
    "\<forall>i. 4 < int i \<and> int i < (if n > 4 then n else int PROCESS_MAX_PID) \<longrightarrow> process_table sample_kernel i \<noteq> 0"
    using process_allocate_pid_correct [of sample_kernel] r b by (simp_all add: PROCESS_MAX_PID_def)
  have "\<not> 5 < (if n > 4 then n else int PROCESS_MAX_PID)" using n(3) [rule_format, of 5] b(2) by auto
  then have "4 < n" "n \<le> 5" by (auto simp: PROCESS_MAX_PID_def split: if_splits)
  then show ?thesis using r by simp
qed

end
