(* ===== verification/Interrupt.thy ===== *)
theory Interrupt
  imports Scheduler_Props
begin

text \<open>
  Interrupts: the tables of \<^verbatim>\<open>kernel/interrupt.c\<close>, the handling of page faults and other exceptions, and the
  masks of the two interrupt controllers, \<^verbatim>\<open>kernel/pic.c\<close>.  The controllers are seen through their ports: a data
  port reads back what was written to it last, which after the initialisation is the mask of its eight
  lines, and every write is kept in order.  Handlers that other parts register are known by their
  addresses and are run by an argument of \<open>interrupt_handler\<close>.
\<close>

section \<open>The interrupt controllers\<close>

record pic =
  latch :: "int \<Rightarrow> u8"
  sent :: "(u8 \<times> int) list"

definition outb :: "u8 \<Rightarrow> int \<Rightarrow> pic \<Rightarrow> pic" where
  "outb v port s = s\<lparr>latch := (latch s)(port := v), sent := sent s @ [(v, port)]\<rparr>"

definition inb :: "int \<Rightarrow> pic \<Rightarrow> u8" where "inb port s = latch s port"

definition PIC_ICW1 :: u8 where "PIC_ICW1 = 0x11"
definition PIC_ICW4_MASTER :: u8 where "PIC_ICW4_MASTER = 1"
definition PIC_ICW4_SLAVE :: u8 where "PIC_ICW4_SLAVE = 5"
definition PIC_ACK_SPECIFIC :: u8 where "PIC_ACK_SPECIFIC = 0x60"
definition pic_control :: "nat \<Rightarrow> int" where "pic_control i = [0x20, 0xa0] ! i"
definition pic_data :: "nat \<Rightarrow> int" where "pic_data i = [0x21, 0xa1] ! i"

definition pic_init :: "int \<Rightarrow> int \<Rightarrow> pic \<Rightarrow> pic" where
  "pic_init pic0base pic1base s =
     (let s = outb PIC_ICW1 (pic_control 0) s;
          s = outb (word_of_int pic0base) (pic_data 0) s;
          s = outb 4 (pic_data 0) s;
          s = outb PIC_ICW4_MASTER (pic_data 0) s;
          s = outb (NOT 4) (pic_data 0) s;
          s = outb PIC_ICW1 (pic_control 1) s;
          s = outb (word_of_int pic1base) (pic_data 1) s;
          s = outb 2 (pic_data 1) s;
          s = outb PIC_ICW4_SLAVE (pic_data 1) s
      in outb (NOT 0) (pic_data 1) s)"

text \<open>The recursive call of \<^verbatim>\<open>pic_enable\<close> for the line of the slave is written out.\<close>

definition unmask :: "nat \<Rightarrow> nat \<Rightarrow> pic \<Rightarrow> pic" where
  "unmask c irq s = outb (inb (pic_data c) s AND NOT (push_bit irq 1)) (pic_data c) s"

definition pic_enable :: "u8 \<Rightarrow> pic \<Rightarrow> pic" where
  "pic_enable irq s = (if irq < 8 then unmask 0 (unat irq) s else unmask 0 2 (unmask 1 (unat (irq - 8)) s))"

definition pic_disable :: "u8 \<Rightarrow> pic \<Rightarrow> pic" where
  "pic_disable irq s =
     (if irq < 8 then outb (inb (pic_data 0) s OR push_bit (unat irq) 1) (pic_data 0) s
      else outb (inb (pic_data 1) s OR push_bit (unat (irq - 8)) 1) (pic_data 1) s)"

definition pic_acknowledge :: "u8 \<Rightarrow> pic \<Rightarrow> pic" where
  "pic_acknowledge irq s =
     (if irq \<ge> 8 then outb (PIC_ACK_SPECIFIC + 2) (pic_control 0) (outb (PIC_ACK_SPECIFIC + (irq - 8)) (pic_control 1) s)
      else outb (PIC_ACK_SPECIFIC + irq) (pic_control 0) s)"

section \<open>The tables\<close>

datatype handler = Unknown_exception | Unknown_hardware | Handler ptr

record interrupts =
  handler_table :: "nat \<Rightarrow> handler"
  interrupt_count :: "nat \<Rightarrow> u32"
  interrupt_spurious :: "nat \<Rightarrow> u8"
  controllers :: pic
  unblocked :: bool

type_synonym 'k isys = "interrupts \<times> 'k psys"

definition INTERRUPTS :: nat where "INTERRUPTS = 48"

definition on_pic :: "(pic \<Rightarrow> pic) \<Rightarrow> interrupts \<Rightarrow> interrupts" where
  "on_pic f t = t\<lparr>controllers := f (controllers t)\<rparr>"

text \<open>A number outside the table is written outside the array.\<close>

definition interrupt_register :: "nat \<Rightarrow> handler \<Rightarrow> interrupts \<Rightarrow> interrupts option" where
  "interrupt_register i h t = (if i < INTERRUPTS then Some (t\<lparr>handler_table := (handler_table t)(i := h)\<rparr>) else None)"

definition interrupt_acknowledge :: "nat \<Rightarrow> interrupts \<Rightarrow> interrupts" where
  "interrupt_acknowledge i t = (if i < 32 then t else on_pic (pic_acknowledge (of_nat (i - 32))) t)"

definition interrupt_enable :: "nat \<Rightarrow> interrupts \<Rightarrow> interrupts" where
  "interrupt_enable i t = (if i < 32 then t else on_pic (pic_enable (of_nat (i - 32))) t)"

definition interrupt_disable :: "nat \<Rightarrow> interrupts \<Rightarrow> interrupts" where
  "interrupt_disable i t = (if i < 32 then t else on_pic (pic_disable (of_nat (i - 32))) t)"

definition interrupt_block :: "interrupts \<Rightarrow> interrupts" where "interrupt_block t = t\<lparr>unblocked := False\<rparr>"
definition interrupt_unblock :: "interrupts \<Rightarrow> interrupts" where "interrupt_unblock t = t\<lparr>unblocked := True\<rparr>"

definition set_entry :: "handler \<Rightarrow> nat \<Rightarrow> interrupts \<Rightarrow> interrupts" where
  "set_entry h i t = t\<lparr>handler_table := (handler_table t)(i := h), interrupt_spurious := (interrupt_spurious t)(i := 0),
     interrupt_count := (interrupt_count t)(i := 0)\<rparr>"

definition interrupt_init :: "interrupts \<Rightarrow> interrupts" where
  "interrupt_init t =
     (let t = on_pic (pic_init 32 40) t;
          t = fold (\<lambda>i t. interrupt_acknowledge i (interrupt_disable i t)) [32..<48] t;
          t = fold (set_entry Unknown_exception) [0..<32] t;
          t = fold (set_entry Unknown_hardware) [32..<48] t
      in interrupt_unblock t)"

section \<open>Handling\<close>

definition exception_names :: "string list" where
  "exception_names = [''division by zero'', ''debug exception'', ''nonmaskable interrupt'', ''breakpoint'', ''overflow'',
     ''bounds check'', ''invalid instruction'', ''coprocessor error'', ''double fault'', ''copressor overrun'', ''invalid task'',
     ''segment not present'', ''stack exception'', ''general protection fault'', ''page fault'', ''unknown'', ''coprocessor error'']"

text \<open>
  The decision of \<^verbatim>\<open>unknown_exception\<close> for a fault at \<open>vaddr\<close>: \<open>esp\<close> is the stack pointer that the processor saved on
  the kernel stack of the process.  Both comparisons are unsigned.
\<close>

definition fault_esp :: "'k psys \<Rightarrow> u32" where
  "fault_esp s = kmem s (kstack_top (procs s (current s)) - X86_STACK_SIZE + 100)"

definition data_access :: "u32 \<Rightarrow> 'k psys \<Rightarrow> bool" where
  "data_access vaddr s \<longleftrightarrow> vaddr < vm_data_size (procs s (current s))"

definition stack_access :: "u32 \<Rightarrow> 'k psys \<Rightarrow> bool" where
  "stack_access vaddr s \<longleftrightarrow> vaddr \<ge> fault_esp s - 128"

definition fault_allowed :: "u32 \<Rightarrow> 'k psys \<Rightarrow> bool" where
  "fault_allowed vaddr s \<longleftrightarrow> pagetable_getmap (pagetable (procs s (current s))) vaddr (mem s) = None \<and>
     data_access vaddr s \<noteq> stack_access vaddr s"

text \<open>
  \<open>cr2\<close> is the register with the address of a page fault.  The first result tells whether the handler
  returns; ending the process switches to another.  The messages are left out, but the name of an exception is read
  from its array.
\<close>

definition unknown_exception :: "nat \<Rightarrow> u32 \<Rightarrow> 'k isys \<Rightarrow> (bool \<times> 'k isys) option" where
  "unknown_exception i cr2 = (\<lambda>(t, s).
     if i = 14 then
       (if current s = 0 then None
        else if \<not> fault_allowed cr2 s then do { s \<leftarrow> process_exit 0 s; Some (False, t, s) }
        else do {
          m \<leftarrow> pagetable_alloc (pagetable (procs s (current s))) cr2 (of_nat PAGE_SIZE)
                 (PAGE_FLAG_USER OR PAGE_FLAG_READWRITE OR PAGE_FLAG_CLEAR) (mem s);
          Some (True, t, s\<lparr>mem := m\<rparr>)
        })
     else if i \<ge> length exception_names then None
     else if current s \<noteq> 0 then do { s \<leftarrow> process_exit 0 s; Some (False, t, s) }
     else None)"

definition unknown_hardware :: "nat \<Rightarrow> interrupts \<Rightarrow> interrupts" where
  "unknown_hardware i t = t\<lparr>interrupt_spurious := (interrupt_spurious t)(i := interrupt_spurious t i + 1)\<rparr>"

definition interrupt_handler ::
    "(ptr \<Rightarrow> nat \<Rightarrow> 'k isys \<Rightarrow> (bool \<times> 'k isys) option) \<Rightarrow> u32 \<Rightarrow> nat \<Rightarrow> 'k isys \<Rightarrow> 'k isys option" where
  "interrupt_handler run cr2 i st =
     (if i \<ge> INTERRUPTS then None
      else do {
        (back, t, s) \<leftarrow> (case handler_table (fst st) i of
            Unknown_exception \<Rightarrow> unknown_exception i cr2 st
          | Unknown_hardware \<Rightarrow> Some (True, unknown_hardware i (fst st), snd st)
          | Handler h \<Rightarrow> run h i st);
        if back then
          let t = interrupt_acknowledge i t in
          Some (t\<lparr>interrupt_count := (interrupt_count t)(i := interrupt_count t i + 1)\<rparr>, s)
        else Some (t, s)
      })"

section \<open>The lines that are open\<close>

text \<open>The open lines, 0 to 15.\<close>

definition open_lines :: "pic \<Rightarrow> nat set" where
  "open_lines s = {n. n < 16 \<and> \<not> bit (latch s (pic_data (n div 8))) (n mod 8)}"

lemma ports [simp]:
  "pic_data 0 = 0x21" "pic_data 1 = 0xa1" "pic_data (Suc 0) = 0xa1" "pic_control 0 = 0x20" "pic_control 1 = 0xa0" "pic_control (Suc 0) = 0xa0"
  by (simp_all add: pic_data_def pic_control_def)

lemma bit_unmask: "n < 8 \<Longrightarrow> bit ((w :: u8) AND NOT (2 ^ k)) n \<longleftrightarrow> bit w n \<and> n \<noteq> k"
  by (auto simp: bit_simps)

lemma bit_mask: "n < 8 \<Longrightarrow> bit ((w :: u8) OR 2 ^ k) n \<longleftrightarrow> bit w n \<or> n = k"
  by (auto simp: bit_simps)

lemma mem_open: "n \<in> open_lines s \<longleftrightarrow> n < 16 \<and> (if n < 8 then \<not> bit (latch s 0x21) n else \<not> bit (latch s 0xa1) (n - 8))"
proof (cases "n < 8")
  case False
  then have "n < 16 \<Longrightarrow> n div 8 = 1 \<and> n mod 8 = n - 8" by (simp add: div_if mod_if)
  then show ?thesis using False by (auto simp: open_lines_def)
qed (simp add: open_lines_def)

lemma open_unmask:
  "k < 8 \<Longrightarrow> n \<in> open_lines (unmask 0 k s) \<longleftrightarrow> n = k \<or> n \<in> open_lines s"
  "k < 8 \<Longrightarrow> n \<in> open_lines (unmask (Suc 0) k s) \<longleftrightarrow> n = 8 + k \<or> n \<in> open_lines s"
  by (auto simp: mem_open unmask_def outb_def inb_def bit_unmask)

lemma small_irq:
  assumes "irq < 16"
  shows "unat (of_nat irq :: u8) = irq" "(of_nat irq :: u8) < 8 \<longleftrightarrow> irq < 8" "8 \<le> irq \<Longrightarrow> unat ((of_nat irq :: u8) - 8) = irq - 8"
proof -
  show u: "unat (of_nat irq :: u8) = irq" using assms by (simp add: unat_of_nat)
  show "(of_nat irq :: u8) < 8 \<longleftrightarrow> irq < 8" by (simp add: word_less_nat_alt u)
  assume "8 \<le> irq"
  then show "unat ((of_nat irq :: u8) - 8) = irq - 8" using u by (simp add: unat_sub word_le_nat_alt)
qed

lemma open_enable: "irq < 16 \<Longrightarrow> open_lines (pic_enable (of_nat irq) s) = open_lines s \<union> (if irq < 8 then {irq} else {irq, 2})"
  using small_irq [of irq] by (cases "irq < 8") (simp_all add: pic_enable_def set_eq_iff open_unmask, auto)

lemma open_disable: "irq < 16 \<Longrightarrow> open_lines (pic_disable (of_nat irq) s) = open_lines s - {irq}"
  using small_irq [of irq]
  by (cases "irq < 8") (auto simp: pic_disable_def set_eq_iff mem_open outb_def inb_def bit_mask)

lemma open_acknowledge: "open_lines (pic_acknowledge irq s) = open_lines s"
  by (auto simp: pic_acknowledge_def set_eq_iff mem_open outb_def)

text \<open>The operations on lines, and what they do to the set of open lines.\<close>

datatype line_op = Enable nat | Disable nat | Acknowledge nat

fun run_line :: "line_op \<Rightarrow> interrupts \<Rightarrow> interrupts" where
  "run_line (Enable i) t = interrupt_enable i t"
| "run_line (Disable i) t = interrupt_disable i t"
| "run_line (Acknowledge i) t = interrupt_acknowledge i t"

fun line_of :: "line_op \<Rightarrow> nat" where
  "line_of (Enable i) = i" | "line_of (Disable i) = i" | "line_of (Acknowledge i) = i"

fun spec_line :: "line_op \<Rightarrow> nat set \<Rightarrow> nat set" where
  "spec_line (Enable i) L = L \<union> (if i < 40 then {i - 32} else {i - 32, 2})"
| "spec_line (Disable i) L = L - {i - 32}"
| "spec_line (Acknowledge i) L = L"

lemma run_line_open:
  assumes "32 \<le> line_of x" "line_of x < 48"
  shows "open_lines (controllers (run_line x t)) = spec_line x (open_lines (controllers t))"
proof (cases x)
  case (Enable i)
  then have i: "i - 32 < 16" "\<not> i < 32" "i - 32 < 8 \<longleftrightarrow> i < 40" using assms by auto
  show ?thesis using open_enable [OF i(1), of "controllers t"] i unfolding Enable by (simp add: interrupt_enable_def on_pic_def)
next
  case (Disable i)
  then have i: "i - 32 < 16" "\<not> i < 32" using assms by auto
  show ?thesis using open_disable [OF i(1), of "controllers t"] i unfolding Disable by (simp add: interrupt_disable_def on_pic_def)
next
  case (Acknowledge i)
  then show ?thesis using assms by (simp add: interrupt_acknowledge_def on_pic_def open_acknowledge)
qed

lemma run_lines_open:
  "\<forall>x \<in> set xs. 32 \<le> line_of x \<and> line_of x < 48 \<Longrightarrow>
    open_lines (controllers (fold run_line xs t)) = fold spec_line xs (open_lines (controllers t))"
  by (induction xs arbitrary: t) (simp_all add: run_line_open)

lemma set_entry_open: "controllers (fold (set_entry h) is t) = controllers t"
  by (induction "is" arbitrary: t) (simp_all add: set_entry_def)

lemma unblock_controllers: "controllers (interrupt_unblock t) = controllers t"
  by (simp add: interrupt_unblock_def)

lemma disable_all: "open_lines (controllers (fold (\<lambda>i t. interrupt_acknowledge i (interrupt_disable i t)) [32..<48] t)) = {}"
proof -
  have f: "fold (\<lambda>i t. interrupt_acknowledge i (interrupt_disable i t)) is t = fold run_line (concat (map (\<lambda>i. [Disable i, Acknowledge i]) is)) t"
    for "is" by (induction "is" arbitrary: t) simp_all
  have "fold spec_line (concat (map (\<lambda>i. [Disable i, Acknowledge i]) is)) L = L - (\<lambda>i. i - 32) ` set is" for "is" L
    by (induction "is" arbitrary: L) auto
  moreover have "open_lines s - (\<lambda>i. i - 32) ` set [32..<48] = {}" for s
  proof -
    have "n \<in> open_lines s \<Longrightarrow> n < 16" for n by (simp add: mem_open)
    moreover have "n \<in> (\<lambda>i. i - 32) ` set [32..<48]" if "n < 16" for n
      unfolding set_upt by (rule image_eqI [of _ _ "n + 32"]) (use that in simp_all)
    ultimately show ?thesis by blast
  qed
  moreover have "\<forall>x \<in> set (concat (map (\<lambda>i. [Disable i, Acknowledge i]) [32..<48])). 32 \<le> line_of x \<and> line_of x < 48" by auto
  ultimately show ?thesis unfolding f by (simp only: run_lines_open)
qed

text \<open>Claim C19.  After the initialisation no line is open, and after any sequence of operations on the lines exactly those
  are open that were enabled last, with the line of the second controller, 2, when one of its lines was
  enabled.  Acknowledging opens and closes nothing.\<close>

theorem interrupt_lines_refine:
  assumes "\<forall>x \<in> set xs. 32 \<le> line_of x \<and> line_of x < 48"
  shows "open_lines (controllers (fold run_line xs (interrupt_init t))) = fold spec_line xs {}"
proof -
  have "open_lines (controllers (interrupt_init t)) = {}"
    unfolding interrupt_init_def Let_def unblock_controllers set_entry_open disable_all ..
  then show ?thesis using run_lines_open [OF assms] by simp
qed

theorem interrupt_lines_refine_witness:
  "\<forall>t. open_lines (controllers (fold run_line [Enable 32, Enable 44, Disable 44, Acknowledge 32] (interrupt_init t))) = {0, 2}"
proof -
  have "\<forall>x \<in> set [Enable 32, Enable 44, Disable 44, Acknowledge 32]. 32 \<le> line_of x \<and> line_of x < 48" by simp
  from interrupt_lines_refine [OF this] show ?thesis by auto
qed

section \<open>Page faults\<close>

lemma page_start: "drop_bit 12 (v AND 0xfffff000 :: u32) = drop_bit 12 v"
proof (rule bit_word_eqI)
  fix n assume "n < LENGTH(32)"
  have m: "(0xfffff000 :: u32) = push_bit 12 (mask 20)" by (simp add: mask_eq_exp_minus_1)
  show "bit (drop_bit 12 (v AND 0xfffff000)) n = bit (drop_bit 12 v) n"
    unfolding m by (auto simp: bit_simps dest: bit_imp_possible_bit)
qed

text \<open>A fault of the data segment is refused: its size is compared with an address.\<close>

lemma data_fault_refused:
  assumes "vm_data_size (procs s (current s)) \<le> PROCESS_ENTRY_POINT" "PROCESS_ENTRY_POINT \<le> v" "v < fault_esp s - 128"
  shows "\<not> fault_allowed v s"
proof -
  have "\<not> data_access v s" using assms(1,2) unfolding data_access_def by (meson dual_order.trans leD)
  moreover have "\<not> stack_access v s" using assms(3) by (simp add: stack_access_def)
  ultimately show ?thesis by (simp add: fault_allowed_def)
qed

text \<open>Claim C18.  A page fault in the area of the stack, or below the size of the data segment, but not both, on a page that
  is not mapped maps one new frame there, which was free before, and changes no other page; the program goes on and
  the fault is counted.  Every other page fault ends the process, among them every fault inside the data segment.\<close>

theorem page_fault_behaviour:
  assumes "handler_table t 14 = Unknown_exception" "current s \<noteq> 0" "pagetable (procs s (current s)) = p"
    and "pt_inv p (mem s)" "2 \<le> card (avail_frames (mem s))"
  shows "if fault_allowed v s
    then \<exists>m d. interrupt_handler run v 14 (t, s) =
          Some (t\<lparr>interrupt_count := (interrupt_count t)(14 := interrupt_count t 14 + 1)\<rparr>, s\<lparr>mem := m\<rparr>) \<and> pt_inv p m \<and>
        frame_of d \<in> avail_frames (mem s) \<and> frame_of d \<notin> avail_frames m \<and> pagetable_getmap p v m \<noteq> None \<and>
        (\<forall>w. drop_bit 12 w \<noteq> drop_bit 12 v \<longrightarrow> pagetable_getmap p w m = pagetable_getmap p w (mem s))
    else interrupt_handler run v 14 (t, s) = map_option (Pair t) (process_exit 0 s)"
proof (cases "fault_allowed v s")
  case True
  let ?fl = "PAGE_FLAG_USER OR PAGE_FLAG_READWRITE OR PAGE_FLAG_CLEAR OR PAGE_FLAG_ALLOC" and ?v = "v AND 0xfffff000"
  have pg: "page_index ?v = page_index v" unfolding page_index_eq by (rule page_start)
  have no: "pagetable_getmap p ?v (mem s) = None"
    using True assms(3) unfolding fault_allowed_def getmap_pviewi pg by simp
  obtain r m where map: "pagetable_map p ?v 0 ?fl (mem s) = Some (r, m)" using map_possible [OF assms(4,5)] by blast
  obtain d where d: "pt_inv p m" "frame_of d \<in> avail_frames (mem s)" "frame_of d \<notin> avail_frames m"
    "\<And>x y. pview p x y m = (if x = dir_index ?v \<and> y = tab_index ?v then Some (page_entry d ?fl) else pview p x y (mem s))"
  proof (rule map_step [OF assms(4) map])
    fix d assume "pt_inv p m" "\<And>x y. pview p x y m = (if x = dir_index ?v \<and> y = tab_index ?v then Some (page_entry d ?fl) else pview p x y (mem s))"
      "if ?fl AND PAGE_FLAG_ALLOC = 0 then d = 0 else frame_of d \<in> avail_frames (mem s) \<and> frame_of d \<notin> avail_frames m"
    moreover have "?fl AND PAGE_FLAG_ALLOC \<noteq> 0"
      using flags_alloc [of "PAGE_FLAG_USER OR PAGE_FLAG_READWRITE OR PAGE_FLAG_CLEAR"] by (simp add: or.assoc)
    ultimately show ?thesis using that [of d] by simp
  qed
  have i: "dir_index ?v = dir_index v" "tab_index ?v = tab_index v"
    using pg by (simp_all add: page_index_def)
  have "pagetable_alloc p v (of_nat PAGE_SIZE) (PAGE_FLAG_USER OR PAGE_FLAG_READWRITE OR PAGE_FLAG_CLEAR) (mem s) = Some m"
    using no map by (simp add: pagetable_alloc_def npages_def PAGE_SIZE_def or.assoc)
  then have "interrupt_handler run v 14 (t, s) =
      Some (t\<lparr>interrupt_count := (interrupt_count t)(14 := interrupt_count t 14 + 1)\<rparr>, s\<lparr>mem := m\<rparr>)"
    using assms(1,2,3) True by (simp add: interrupt_handler_def unknown_exception_def INTERRUPTS_def interrupt_acknowledge_def Let_def)
  moreover have "pagetable_getmap p v m \<noteq> None" using d(4) i by (simp add: getmap_view)
  moreover have "pagetable_getmap p w m = pagetable_getmap p w (mem s)" if "drop_bit 12 w \<noteq> drop_bit 12 v" for w
    using that same_indices [of w v] i d(4) by (auto simp: getmap_view)
  ultimately show ?thesis using True d(1-3) by auto
qed (use assms(1,2) in \<open>auto simp: interrupt_handler_def unknown_exception_def INTERRUPTS_def bind_eq_Some_conv map_option_case split: option.splits\<close>)

text \<open>Process 10 touches the word below its stack pointer.\<close>

theorem page_fault_behaviour_witness:
  "\<exists>t (s :: unit psys) t' s'. interrupt_handler (\<lambda>h i st. None) 0xEFFFFFFC 14 (t, s) = Some (t', s') \<and>
     pagetable_getmap (pagetable (procs s 10)) 0xEFFFFFFC (mem s) = None \<and>
     pagetable_getmap (pagetable (procs s 10)) 0xEFFFFFFC (mem s') \<noteq> None"
proof -
  obtain p m where m: "pt_inv p m" "7 \<le> card (avail_frames m)" "\<forall>i. pviewi p i m = None" using sample_space by blast
  define t where "t = interrupt_init \<lparr>handler_table = (\<lambda>_. Unknown_hardware), interrupt_count = (\<lambda>_. 0), interrupt_spurious = (\<lambda>_. 0),
    controllers = \<lparr>latch = (\<lambda>_. 0), sent = []\<rparr>, unblocked = False\<rparr>"
  define s where "s = upd_proc 10 (\<lambda>x. x\<lparr>pagetable := p, kstack_top := 0xF0000008, vm_data_size := 4096\<rparr>) (sample_kernel\<lparr>mem := m\<rparr>)"
  have e: "handler_table (fold (set_entry h) is t) i = (if i \<in> set is then h else handler_table t i)" for h "is" t i
    by (induction "is" arbitrary: t) (simp_all add: set_entry_def)
  have u: "handler_table (interrupt_unblock t) = handler_table t" for t by (simp add: interrupt_unblock_def)
  have t: "handler_table t 14 = Unknown_exception"
    unfolding t_def interrupt_init_def Let_def u e set_upt by simp
  have s: "current s = 10" "pagetable (procs s 10) = p" "mem s = m"
    by (simp_all add: s_def upd_proc_def sample_kernel_def)
  have no: "pagetable_getmap p 0xEFFFFFFC m = None" using m(3) by (simp add: getmap_pviewi)
  have "fault_allowed 0xEFFFFFFC s"
    using no by (simp add: fault_allowed_def data_access_def stack_access_def fault_esp_def X86_STACK_SIZE_def s)
      (simp add: s_def upd_proc_def sample_kernel_def)
  moreover have "2 \<le> card (avail_frames (mem s))" "pt_inv p (mem s)" using m(1,2) s by simp_all
  ultimately have "\<exists>m'. interrupt_handler (\<lambda>h i st. None) 0xEFFFFFFC 14 (t, s) =
      Some (t\<lparr>interrupt_count := (interrupt_count t)(14 := interrupt_count t 14 + 1)\<rparr>, s\<lparr>mem := m'\<rparr>) \<and>
      pagetable_getmap p 0xEFFFFFFC m' \<noteq> None"
    using page_fault_behaviour [of t s p "0xEFFFFFFC" "\<lambda>h i st. None"] t s by auto
  then obtain m' where "interrupt_handler (\<lambda>h i st. None) 0xEFFFFFFC 14 (t, s) =
      Some (t\<lparr>interrupt_count := (interrupt_count t)(14 := interrupt_count t 14 + 1)\<rparr>, s\<lparr>mem := m'\<rparr>)"
    "pagetable_getmap p 0xEFFFFFFC m' \<noteq> None" by blast
  moreover have "pagetable_getmap (pagetable (procs s 10)) 0xEFFFFFFC (mem s) = None"
    "pagetable_getmap (pagetable (procs s 10)) 0xEFFFFFFC (mem (s\<lparr>mem := m'\<rparr>)) = pagetable_getmap p 0xEFFFFFFC m'"
    using s no by simp_all
  ultimately show ?thesis by metis
qed

end
