(* ===== verification/Clock.thy ===== *)
theory Clock
  imports Scheduler_Props
begin

text \<open>
  Time: the tick counter of \<^verbatim>\<open>kernel/clock.c\<close> and the real time clock of \<^verbatim>\<open>kernel/rtc.c\<close>.  The counters are
  in the record \<open>clock\<close>; the list of processes that wait for a tick is at \<open>clock_queue\<close>.  The bytes that
  the ports of the real time clock give are arguments; writing to the ports is left out.
\<close>

section \<open>Ticks\<close>

definition CLICKS_PER_SECOND :: u32 where "CLICKS_PER_SECOND = 20"
definition clock_queue :: ptr where "clock_queue = 8"

record clock =
  clicks :: u32
  clock_seconds :: u32

record clock_time =
  seconds :: u32
  millis :: u32

definition clock_interrupt :: "clock \<times> 'k psys \<Rightarrow> (clock \<times> 'k psys) option" where
  "clock_interrupt = (\<lambda>(c, s). do {
     let c = c\<lparr>clicks := clicks c + 1\<rparr>;
     s \<leftarrow> process_wakeup_all clock_queue s;
     if CLICKS_PER_SECOND \<le> clicks c then do {
       let c = c\<lparr>clicks := 0, clock_seconds := clock_seconds c + 1\<rparr>;
       s \<leftarrow> process_preempt s;
       Some (c, s)
     } else Some (c, s)
   })"

definition clock_read :: "clock \<Rightarrow> clock_time" where
  "clock_read c = \<lparr>seconds = clock_seconds c, millis = 1000 * clicks c div CLICKS_PER_SECOND\<rparr>"

definition clock_diff :: "clock_time \<Rightarrow> clock_time \<Rightarrow> clock_time" where
  "clock_diff start stop =
     (let stop = (if millis stop < millis start then stop\<lparr>millis := millis stop + 1000, seconds := seconds stop - 1\<rparr> else stop) in
      \<lparr>seconds = seconds stop - seconds start, millis = millis stop - millis start\<rparr>)"

definition total_millis :: "clock_time \<Rightarrow> u32" where
  "total_millis t = millis t + seconds t * 1000"

text \<open>The loop of \<^verbatim>\<open>clock_wait\<close>; \<open>resume\<close> is what happens from one wait to the moment the process runs again.\<close>

partial_function (option) clock_wait_from ::
    "(clock \<times> 'k psys \<Rightarrow> (clock \<times> 'k psys) option) \<Rightarrow> clock_time \<Rightarrow> u32 \<Rightarrow> clock \<times> 'k psys \<Rightarrow> (clock \<times> 'k psys) option" where
  "clock_wait_from resume start ms cs = do {
     s \<leftarrow> process_wait clock_queue (snd cs);
     cs \<leftarrow> resume (fst cs, s);
     if total_millis (clock_diff start (clock_read (fst cs))) < ms then clock_wait_from resume start ms cs else Some cs
   }"

definition clock_wait where
  "clock_wait resume ms cs = clock_wait_from resume (clock_read (fst cs)) ms cs"

text \<open>\<^verbatim>\<open>process_wait_child\<close> of \<^verbatim>\<open>kernel/process.c\<close>: its rounds, until a child is found or the time is over.\<close>

partial_function (option) process_wait_child ::
    "(clock \<times> 'k psys \<Rightarrow> (clock \<times> 'k psys) option) \<Rightarrow> u32 \<Rightarrow> int \<Rightarrow> clock_time \<Rightarrow> clock \<times> 'k psys \<Rightarrow>
      ((u32 \<times> int \<times> int) option \<times> clock \<times> 'k psys) option" where
  "process_wait_child resume n timeout start cs = do {
     (r, s) \<leftarrow> process_wait_child_round n (snd cs);
     case r of Some info \<Rightarrow> Some (Some info, fst cs, s)
     | None \<Rightarrow> do {
         cs \<leftarrow> resume (fst cs, s);
         if wait_child_again (total_millis (clock_diff start (clock_read (fst cs)))) timeout
         then process_wait_child resume n timeout start cs else Some (None, cs)
       }
   }"

section \<open>The real time clock\<close>

record rtc_time =
  second :: u8
  minute :: u8
  hour :: u8
  day :: u8
  month :: u8
  year :: u16

definition rtc_bcd_to_binary :: "u8 \<Rightarrow> u8" where
  "rtc_bcd_to_binary bcd = (bcd AND 0x0f) + drop_bit 4 bcd * 10"

text \<open>\<^verbatim>\<open>rtc_fetch_time\<close> after its loop of port reads: the time from the bytes of one stable round.\<close>

definition rtc_decode :: "u8 \<Rightarrow> u8 \<Rightarrow> u8 \<Rightarrow> u8 \<Rightarrow> u8 \<Rightarrow> u8 \<Rightarrow> rtc_time" where
  "rtc_decode sec mn hr dy mon yr =
     (let pm = hr AND 0x80 \<noteq> 0;
          hr = (if pm then hr AND 0x7f else hr);
          y = ucast (rtc_bcd_to_binary yr) :: u16 in
      \<lparr>second = rtc_bcd_to_binary sec, minute = rtc_bcd_to_binary mn,
       hour = (if pm then rtc_bcd_to_binary hr + 12 else rtc_bcd_to_binary hr),
       day = rtc_bcd_to_binary dy, month = rtc_bcd_to_binary mon,
       year = (if 70 \<le> y then y + 1900 else y + 2000)\<rparr>)"

text \<open>The reads of one round, and of the seconds again, until they agree; a round is a function of the
  state of the hardware.\<close>

partial_function (option) rtc_fetch_time :: "('h \<Rightarrow> (u8 \<times> u8 \<times> u8 \<times> u8 \<times> u8 \<times> u8) \<times> u8 \<times> 'h) \<Rightarrow> 'h \<Rightarrow> (rtc_time \<times> 'h) option" where
  "rtc_fetch_time round h =
     (case round h of ((sec, mn, hr, dy, mon, yr), again, h) \<Rightarrow>
        if sec \<noteq> again then rtc_fetch_time round h else Some (rtc_decode sec mn hr dy mon yr, h))"

definition SECS_PER_MIN :: u32 where "SECS_PER_MIN = 60"
definition SECS_PER_HOUR :: u32 where "SECS_PER_HOUR = 3600"
definition SECS_PER_DAY :: u32 where "SECS_PER_DAY = 3600 * 24"

definition LEAP_YEAR :: "nat \<Rightarrow> bool" where
  "LEAP_YEAR Y \<longleftrightarrow> 0 < Y \<and> Y mod 4 = 0 \<and> (Y mod 100 \<noteq> 0 \<or> Y mod 400 = 0)"

definition monthDays :: "u32 list" where
  "monthDays = [31, 28, 31, 30, 31, 30, 31, 31, 30, 31, 30, 31]"

definition month_seconds :: "nat \<Rightarrow> nat \<Rightarrow> u32" where
  "month_seconds y i = (if i = 2 \<and> LEAP_YEAR y then SECS_PER_DAY * 29 else SECS_PER_DAY * monthDays ! (i - 1))"

text \<open>A month above 13 reads the table of months out of range.\<close>

definition rtc_time_to_timestamp :: "rtc_time \<Rightarrow> u32 option" where
  "rtc_time_to_timestamp t =
     (if 13 < month t then None
      else let y = unat (year t);
          sec = word_of_int (int y - 1970) * (SECS_PER_DAY * 365);
          sec = fold (\<lambda>i sec. if LEAP_YEAR i then sec + SECS_PER_DAY else sec) [1970..<y] sec;
          sec = fold (\<lambda>i sec. sec + month_seconds y i) [1..<unat (month t)] sec;
          sec = sec + word_of_int (int (unat (day t)) - 1) * SECS_PER_DAY;
          sec = sec + ucast (hour t) * SECS_PER_HOUR;
          sec = sec + ucast (minute t) * SECS_PER_MIN in
      Some (sec + ucast (second t)))"

section \<open>Properties\<close>

text \<open>The calendar, one day after the other.\<close>

definition month_length :: "nat \<Rightarrow> nat \<Rightarrow> nat" where
  "month_length y m = (if m = 2 \<and> LEAP_YEAR y then 29 else [31, 28, 31, 30, 31, 30, 31, 31, 30, 31, 30, 31] ! (m - 1))"

fun next_day :: "nat \<times> nat \<times> nat \<Rightarrow> nat \<times> nat \<times> nat" where
  "next_day (y, m, d) =
     (if d < month_length y m then (y, m, d + 1) else if m < 12 then (y, m + 1, 1) else (y + 1, 1, 1))"

definition calendar :: "nat \<Rightarrow> nat \<times> nat \<times> nat" where
  "calendar n = (next_day ^^ n) (1970, 1, 1)"

text \<open>The number of days before a date.\<close>

definition year_days :: "nat \<Rightarrow> nat" where
  "year_days y = (y - 1970) * 365 + length (filter LEAP_YEAR [1970..<y])"

definition day_number :: "nat \<times> nat \<times> nat \<Rightarrow> nat" where
  "day_number = (\<lambda>(y, m, d). year_days y + sum_list (map (month_length y) [1..<m]) + (d - 1))"

lemma year_length: "sum_list (map (month_length y) [1..<13]) = (if LEAP_YEAR y then 366 else 365)"
  by (simp add: upt_rec month_length_def)

lemma month_cases: "1 \<le> m \<Longrightarrow> m \<le> 12 \<Longrightarrow> m \<in> {1, 2, 3, 4, 5, 6, 7, 8, 9, 10, 11, 12 :: nat}"
  by (simp only: insert_iff empty_iff) presburger

lemma calendar_valid: "case calendar n of (y, m, d) \<Rightarrow> 1970 \<le> y \<and> 1 \<le> m \<and> m \<le> 12 \<and> 1 \<le> d \<and> d \<le> month_length y m \<and> day_number (y, m, d) = n"
proof (induction n)
  case 0
  show ?case by (simp add: calendar_def day_number_def year_days_def month_length_def)
next
  case (Suc n)
  obtain y m d where c: "calendar n = (y, m, d)" by (metis prod_cases3)
  with Suc have v: "1970 \<le> y" "1 \<le> m" "m \<le> 12" "1 \<le> d" "d \<le> month_length y m" "day_number (y, m, d) = n" by auto
  have s: "calendar (Suc n) = next_day (y, m, d)" using c by (simp add: calendar_def)
  have pos: "1 \<le> month_length y' m'" if "1 \<le> m'" "m' \<le> 12" for y' m'
  proof -
    have "m' \<in> {1, 2, 3, 4, 5, 6, 7, 8, 9, 10, 11, 12}" using month_cases that by blast
    then show ?thesis by (auto simp: month_length_def)
  qed
  consider "d < month_length y m" | "d = month_length y m" "m < 12" | "d = month_length y m" "m = 12" using v by linarith
  then show ?case
  proof cases
    case 1
    then show ?thesis using v by (simp add: s day_number_def)
  next
    case 2
    then show ?thesis using v pos [of "m + 1" y] by (simp add: s day_number_def)
  next
    case 3
    have "[1..<13] = [1..<12] @ [12 :: nat]" by (simp add: upt_rec)
    then have "sum_list (map (month_length y) [1..<12]) + month_length y 12 = (if LEAP_YEAR y then 366 else 365)"
      using year_length [of y] by simp
    moreover have "year_days (y + 1) = year_days y + (if LEAP_YEAR y then 366 else 365)"
    proof -
      have "y + 1 - 1970 = Suc (y - 1970)" "[1970..<y + 1] = [1970..<y] @ [y]" using v(1) by simp_all
      then show ?thesis unfolding year_days_def by (simp only: mult_Suc filter_append length_append) simp
    qed
    ultimately show ?thesis using 3 v pos [of 1 "y + 1"] by (simp add: s day_number_def)
  qed
qed

lemma leap_fold: "fold (\<lambda>i sec. if LEAP_YEAR i then sec + SECS_PER_DAY else sec) ys s = s + of_nat (length (filter LEAP_YEAR ys)) * SECS_PER_DAY"
  by (induction ys arbitrary: s) (simp_all add: algebra_simps)

lemma month_fold:
  assumes "\<forall>i \<in> set ms. 1 \<le> i \<and> i \<le> 12"
  shows "fold (\<lambda>i sec. sec + month_seconds y i) ms s = s + of_nat (sum_list (map (month_length y) ms)) * SECS_PER_DAY"
  using assms
proof (induction ms arbitrary: s)
  case (Cons m ms)
  then have "m \<in> {1, 2, 3, 4, 5, 6, 7, 8, 9, 10, 11, 12}" by (intro month_cases) auto
  then have "month_seconds y m = of_nat (month_length y m) * SECS_PER_DAY"
    by (auto simp: month_seconds_def month_length_def monthDays_def SECS_PER_DAY_def)
  then show ?case using Cons by (simp add: algebra_simps)
qed simp

text \<open>Claim C38.  The timestamp of a date and time is the number of seconds since the first of January 1970,
  counted day by day in the calendar, as a 32-bit number.\<close>

theorem rtc_timestamp_counts_days:
  assumes "calendar n = (unat (year t), unat (month t), unat (day t))"
  shows "rtc_time_to_timestamp t =
    Some (of_nat (86400 * n + 3600 * unat (hour t) + 60 * unat (minute t) + unat (second t)))"
proof -
  have v: "1970 \<le> unat (year t)" "1 \<le> unat (month t)" "unat (month t) \<le> 12" "1 \<le> unat (day t)"
    and n: "n = year_days (unat (year t)) + sum_list (map (month_length (unat (year t))) [1..<unat (month t)]) + (unat (day t) - 1)"
    using calendar_valid [of n] assms by (auto simp: day_number_def)
  have m: "\<not> 13 < month t" using v(3) by (simp add: word_less_nat_alt)
  have ms: "\<forall>i \<in> set [1..<unat (month t)]. 1 \<le> i \<and> i \<le> 12" using v(3) by auto
  have y: "word_of_int (int (unat (year t)) - 1970) = (of_nat (unat (year t) - 1970) :: u32)" using v(1) by (simp add: of_nat_diff)
  have d: "word_of_int (int (unat (day t)) - 1) = (of_nat (unat (day t) - 1) :: u32)" using v(4) by (simp add: of_nat_diff)
  have u: "(ucast w :: u32) = of_nat (unat w)" for w :: u8 by simp
  obtain a b where ab: "unat (year t) - 1970 = a" "unat (day t) - 1 = b" by blast
  show ?thesis
    unfolding rtc_time_to_timestamp_def Let_def if_not_P [OF m] leap_fold month_fold [OF ms] y d u n year_days_def ab
    by (simp add: SECS_PER_DAY_def SECS_PER_HOUR_def SECS_PER_MIN_def algebra_simps)
qed

theorem rtc_timestamp_counts_days_witness:
  "rtc_time_to_timestamp \<lparr>second = 5, minute = 1, hour = 2, day = 3, month = 1, year = 1970\<rparr> = Some 180065"
proof -
  have "calendar 2 = (1970, 1, 3)" by (simp add: calendar_def month_length_def numeral_2_eq_2)
  then show ?thesis
    using rtc_timestamp_counts_days [of 2 "\<lparr>second = 5, minute = 1, hour = 2, day = 3, month = 1, year = 1970\<rparr>"] by simp
qed

text \<open>The ticks that a clock has counted, and its invariant.\<close>

definition ticks :: "clock \<Rightarrow> nat" where
  "ticks c = 20 * unat (clock_seconds c) + unat (clicks c)"

definition clock_ok :: "clock \<Rightarrow> bool" where
  "clock_ok c \<longleftrightarrow> clicks c < CLICKS_PER_SECOND"

lemma millis_read: "clock_ok c \<Longrightarrow> millis (clock_read c) = 50 * clicks c \<and> unat (50 * clicks c) = 50 * unat (clicks c)"
proof -
  assume "clock_ok c"
  then have c: "unat (clicks c) < 20" by (simp add: clock_ok_def CLICKS_PER_SECOND_def word_less_nat_alt)
  have m: "unat (k * clicks c) = unat k * unat (clicks c)" if "unat k \<le> 1000" for k
  proof -
    have "unat k * unat (clicks c) \<le> 1000 * 20" using that c by (intro mult_le_mono) simp_all
    then show ?thesis by (simp add: unat_mult_lem [THEN iffD1])
  qed
  have "unat (1000 * clicks c div CLICKS_PER_SECOND) = unat (50 * clicks c)"
    using m [of 1000] m [of 50] by (simp add: unat_div CLICKS_PER_SECOND_def)
  then show ?thesis using m [of 50] by (simp add: clock_read_def word_unat_eq_iff)
qed

lemma total_read:
  assumes "clock_ok c"
  shows "total_millis (clock_read c) = of_nat (50 * ticks c)"
  using millis_read [OF assms] by (simp add: total_millis_def clock_read_def ticks_def algebra_simps)

lemma diff_total: "total_millis (clock_diff a b) = total_millis b - total_millis a"
  by (simp add: clock_diff_def total_millis_def Let_def algebra_simps)

text \<open>Claim C39.  A process that sleeps wakes: if every wait ends after at least one and at most \<open>k\<close> ticks, with
  \<open>k\<close> up to a second's, \<open>clock_wait\<close> returns, not before the time asked for has passed and less than \<open>k\<close>
  ticks of 50 milliseconds after it; a wait for no time takes \<open>k\<close> ticks at most.  When the process runs
  again right after the next tick, \<open>k\<close> is 1.\<close>

theorem clock_wait_returns:
  assumes "\<And>d s. clock_ok d \<Longrightarrow> P s \<Longrightarrow> ticks c \<le> ticks d \<Longrightarrow> 50 * (ticks d - ticks c) < max 1 (unat ms) \<Longrightarrow>
      \<exists>s1 c' s'. process_wait clock_queue s = Some s1 \<and> resume (d, s1) = Some (c', s') \<and>
        clock_ok c' \<and> P s' \<and> ticks d < ticks c' \<and> ticks c' \<le> ticks d + k"
    and "k \<le> 20" "clock_ok c" "P s" "unat ms < 2 ^ 32 - 2000"
  shows "\<exists>c' s'. clock_wait resume ms (c, s) = Some (c', s') \<and> clock_ok c' \<and> P s' \<and>
    unat ms \<le> 50 * (ticks c' - ticks c) \<and> 50 * (ticks c' - ticks c) < max 1 (unat ms) + 50 * k"
proof -
  let ?start = "clock_read c"
  let ?done = "\<lambda>c' s'. clock_ok c' \<and> P s' \<and> unat ms \<le> 50 * (ticks c' - ticks c) \<and> 50 * (ticks c' - ticks c) < max 1 (unat ms) + 50 * k"
  have "\<exists>c' s'. clock_wait_from resume ?start ms (d, s) = Some (c', s') \<and> ?done c' s'"
    if "clock_ok d" "P s" "ticks c \<le> ticks d" "50 * (ticks d - ticks c) < max 1 (unat ms)" for d s
    using that
  proof (induction "unat ms + 50 - 50 * (ticks d - ticks c)" arbitrary: d s rule: less_induct)
    case less
    obtain s1 c' s' where r: "process_wait clock_queue s = Some s1" "resume (d, s1) = Some (c', s')" "clock_ok c'" "P s'"
      "ticks d < ticks c'" "ticks c' \<le> ticks d + k" using assms(1) [OF less.prems] by blast
    let ?e = "total_millis (clock_diff ?start (clock_read c'))"
    have up: "50 * (ticks c' - ticks c) < max 1 (unat ms) + 50 * k" using r(6) less.prems(3,4) by linarith
    then have le: "50 * (ticks c' - ticks c) < 2 ^ 32" using assms(2,5) by simp
    have "?e = of_nat (50 * ticks c') - of_nat (50 * ticks c)"
      unfolding diff_total using total_read [OF r(3)] total_read [OF assms(3)] by simp
    also have "\<dots> = of_nat (50 * (ticks c' - ticks c))" using r less.prems by (simp add: of_nat_diff algebra_simps)
    finally have e: "unat ?e = 50 * (ticks c' - ticks c)"
      by (rule trans [OF arg_cong [where f = unat]]) (rule unat_of_nat_eq, use le in simp)
    show ?case
    proof (cases "?e < ms")
      case True
      then have lt: "50 * (ticks c' - ticks c) < unat ms" using e by (simp add: word_less_nat_alt)
      have "unat ms + 50 - 50 * (ticks c' - ticks c) < unat ms + 50 - 50 * (ticks d - ticks c)"
        using lt r(5) less.prems(3) by linarith
      from less.hyps [OF this r(3,4)] lt r(5) less.prems(3)
      have "\<exists>c'' s''. clock_wait_from resume ?start ms (c', s') = Some (c'', s'') \<and> ?done c'' s''" by simp
      then show ?thesis using r True by (subst clock_wait_from.simps) simp
    next
      case False
      then have "unat ms \<le> 50 * (ticks c' - ticks c)" using e by (simp add: word_less_nat_alt)
      then show ?thesis using r False up by (subst clock_wait_from.simps) simp
    qed
  qed
  from this [of c s] show ?thesis using assms(3,4) unfolding clock_wait_def by simp
qed

text \<open>A process that waits alone and is woken by every tick.\<close>

definition tick :: "clock \<Rightarrow> clock" where
  "tick c = (if clicks c = 19 then \<lparr>clicks = 0, clock_seconds = clock_seconds c + 1\<rparr> else c\<lparr>clicks := clicks c + 1\<rparr>)"

lemma tick_ok:
  assumes "clock_ok c" "unat (clock_seconds c) < 100"
  shows "clock_ok (tick c) \<and> ticks (tick c) = ticks c + 1"
proof -
  have c: "unat (clicks c) < 20" using assms(1) by (simp add: clock_ok_def CLICKS_PER_SECOND_def word_less_nat_alt)
  have plus: "unat (w + 1 :: u32) = unat w + 1" if "unat w < 1000" for w
  proof -
    have "w + 1 = of_nat (unat w + 1)" by simp
    then show ?thesis using that by (simp only:) (rule unat_of_nat_eq, simp)
  qed
  show ?thesis
  proof (cases "clicks c = 19")
    case True
    then show ?thesis using plus [of "clock_seconds c"] assms(2) by (simp add: tick_def ticks_def clock_ok_def CLICKS_PER_SECOND_def)
  next
    case False
    then have "unat (clicks c) \<noteq> 19" by (simp add: word_unat_eq_iff)
    with c have "unat (clicks c) < 19" by simp
    then show ?thesis using plus [of "clicks c"] False
      by (simp add: tick_def ticks_def clock_ok_def CLICKS_PER_SECOND_def word_less_nat_alt)
  qed
qed

theorem clock_wait_returns_witness:
  "\<exists>c' s'. clock_wait (\<lambda>(c, s). Some (tick c, sample_kernel)) 100 (\<lparr>clicks = 0, clock_seconds = 0\<rparr>, sample_kernel) = Some (c', s') \<and>
     ticks c' = 2"
proof -
  let ?c = "\<lparr>clicks = 0, clock_seconds = 0\<rparr>"
  have "wait_list clock_queue" "current sample_kernel \<noteq> 0"
    by (simp_all add: wait_list_def clock_queue_def ready_list_def grave_list_def sample_kernel_def)
  from wait_ok [OF sample_kernel_ok this(2,1)] obtain s1 where w: "process_wait clock_queue sample_kernel = Some s1" by blast
  have "\<exists>c' s'. clock_wait (\<lambda>(c, s). Some (tick c, sample_kernel)) 100 (?c, sample_kernel) = Some (c', s') \<and> clock_ok c' \<and>
      s' = sample_kernel \<and> unat (100 :: u32) \<le> 50 * (ticks c' - ticks ?c) \<and>
      50 * (ticks c' - ticks ?c) < max 1 (unat (100 :: u32)) + 50 * 1"
  proof (rule clock_wait_returns [where c = ?c and P = "\<lambda>s. s = sample_kernel" and k = 1])
    fix d and s :: "unit psys" assume d: "clock_ok d" "s = sample_kernel" "ticks ?c \<le> ticks d" "50 * (ticks d - ticks ?c) < max 1 (unat (100 :: u32))"
    then have "unat (clock_seconds d) < 100" by (simp add: ticks_def)
    from tick_ok [OF d(1) this] w d(2)
    show "\<exists>s1 c' s'. process_wait clock_queue s = Some s1 \<and> (\<lambda>(c, s). Some (tick c, sample_kernel)) (d, s1) = Some (c', s') \<and>
        clock_ok c' \<and> s' = sample_kernel \<and> ticks d < ticks c' \<and> ticks c' \<le> ticks d + 1" by auto
  qed (simp_all add: clock_ok_def CLICKS_PER_SECOND_def)
  then obtain c' s' where c': "clock_wait (\<lambda>(c, s). Some (tick c, sample_kernel)) 100 (?c, sample_kernel) = Some (c', s')"
    "unat (100 :: u32) \<le> 50 * (ticks c' - ticks ?c)" "50 * (ticks c' - ticks ?c) < max 1 (unat (100 :: u32)) + 50 * 1" by blast
  have "ticks ?c = 0" by (simp add: ticks_def)
  with c'(2,3) have "ticks c' = 2" by simp
  with c'(1) show ?thesis by blast
qed

end
