(* ===== verification/Ata.thy ===== *)
theory Ata
  imports Interrupt Clock Device
begin

text \<open>
  The disk driver, \<^verbatim>\<open>kernel/ata.c\<close>.  The ports, the ticker and what happens while the driver waits for
  other processes are the record \<open>machine\<close> of functions on a state \<open>'h\<close> that the kernel does not see otherwise: the
  drives are hardware, and the scheduler, the clock and the mutex are modelled in their own theories.
\<close>

section \<open>The machine below the driver\<close>

record 'h machine =
  in8 :: "int \<Rightarrow> 'h \<Rightarrow> u8 \<times> 'h"
  in16 :: "int \<Rightarrow> 'h \<Rightarrow> u16 \<times> 'h"
  out8 :: "u8 \<Rightarrow> int \<Rightarrow> 'h \<Rightarrow> 'h"
  out16 :: "u16 \<Rightarrow> int \<Rightarrow> 'h \<Rightarrow> 'h"
  ticker :: "'h \<Rightarrow> clock"
  yield :: "'h \<Rightarrow> 'h"
  sleep :: "u32 \<Rightarrow> 'h \<Rightarrow> 'h"
  lock :: "'h \<Rightarrow> 'h"
  unlock :: "'h \<Rightarrow> 'h"

section \<open>Constants\<close>

definition ATA_IRQ0 :: nat where "ATA_IRQ0 = 32 + 14"
definition ATA_IRQ1 :: nat where "ATA_IRQ1 = 32 + 15"
definition ATA_BASE0 :: int where "ATA_BASE0 = 0x1F0"
definition ATA_BASE1 :: int where "ATA_BASE1 = 0x170"
definition ATA_TIMEOUT :: int where "ATA_TIMEOUT = 5000"
definition ATA_IDENTIFY_TIMEOUT :: int where "ATA_IDENTIFY_TIMEOUT = 1000"
definition ATA_DATA :: int where "ATA_DATA = 0"
definition ATA_COUNT :: int where "ATA_COUNT = 2"
definition ATA_SECTOR :: int where "ATA_SECTOR = 3"
definition ATA_CYL_LO :: int where "ATA_CYL_LO = 4"
definition ATA_CYL_HI :: int where "ATA_CYL_HI = 5"
definition ATA_FDH :: int where "ATA_FDH = 6"
definition ATA_STATUS :: int where "ATA_STATUS = 7"
definition ATA_COMMAND :: int where "ATA_COMMAND = 7"
definition ATA_CONTROL :: int where "ATA_CONTROL = 0x206"
definition ATA_FLAGS_ECC :: u8 where "ATA_FLAGS_ECC = 0x80"
definition ATA_FLAGS_LBA :: u8 where "ATA_FLAGS_LBA = 0x40"
definition ATA_FLAGS_SEC :: u8 where "ATA_FLAGS_SEC = 0x20"
definition ATA_FLAGS_SLV :: u8 where "ATA_FLAGS_SLV = 0x10"
definition ATA_STATUS_BSY :: u8 where "ATA_STATUS_BSY = 0x80"
definition ATA_STATUS_RDY :: u8 where "ATA_STATUS_RDY = 0x40"
definition ATA_STATUS_DRQ :: u8 where "ATA_STATUS_DRQ = 0x08"
definition ATA_STATUS_ERR :: u8 where "ATA_STATUS_ERR = 0x01"
definition ATA_COMMAND_READ :: u8 where "ATA_COMMAND_READ = 0x20"
definition ATA_COMMAND_WRITE :: u8 where "ATA_COMMAND_WRITE = 0x30"
definition ATA_COMMAND_IDENTIFY :: u8 where "ATA_COMMAND_IDENTIFY = 0xec"
definition ATAPI_COMMAND_IDENTIFY :: u8 where "ATAPI_COMMAND_IDENTIFY = 0xa1"
definition ATAPI_COMMAND_PACKET :: u8 where "ATAPI_COMMAND_PACKET = 0xa0"
definition ATAPI_FEATURE :: int where "ATAPI_FEATURE = 1"
definition ATAPI_IRR :: int where "ATAPI_IRR = 2"
definition ATAPI_SAMTAG :: int where "ATAPI_SAMTAG = 3"
definition ATAPI_COUNT_LO :: int where "ATAPI_COUNT_LO = 4"
definition ATAPI_COUNT_HI :: int where "ATAPI_COUNT_HI = 5"
definition SCSI_READ10 :: u8 where "SCSI_READ10 = 0x28"
definition ATA_CONTROL_RESET :: u8 where "ATA_CONTROL_RESET = 4"
definition ATA_BLOCKSIZE :: int where "ATA_BLOCKSIZE = 512"
definition ATAPI_BLOCKSIZE :: int where "ATAPI_BLOCKSIZE = 2048"

text \<open>A unit outside the array of ports is read outside the array.\<close>

definition ata_base :: "int \<Rightarrow> int option" where
  "ata_base u = (if 0 \<le> u \<and> u < 4 then Some ([ATA_BASE0, ATA_BASE0, ATA_BASE1, ATA_BASE1] ! nat u) else None)"

section \<open>Waiting and transferring\<close>

definition ata_reset_at :: "'h machine \<Rightarrow> int \<Rightarrow> 'h \<Rightarrow> 'h" where
  "ata_reset_at E b h =
     (let h = out8 E ATA_CONTROL_RESET (b + ATA_CONTROL) h;
          h = sleep E 1 h;
          h = out8 E 0 (b + ATA_CONTROL) h
      in sleep E 1 h)"

definition ata_reset :: "'h machine \<Rightarrow> int \<Rightarrow> 'h \<Rightarrow> 'h option" where
  "ata_reset E u h = do { b \<leftarrow> ata_base u; Some (ata_reset_at E b h) }"

text \<open>The time elapsed is computed in unsigned arithmetic and compared as a signed number.\<close>

partial_function (option) ata_wait_from ::
    "'h machine \<Rightarrow> int \<Rightarrow> int \<Rightarrow> clock_time \<Rightarrow> u8 \<Rightarrow> u8 \<Rightarrow> 'h \<Rightarrow> (bool \<times> 'h) option" where
  "ata_wait_from E b timeout start msk state h =
     (case in8 E (b + ATA_STATUS) h of (t, h) \<Rightarrow>
        if t AND msk = state then Some (True, h)
        else if t AND ATA_STATUS_ERR \<noteq> 0 then Some (False, ata_reset_at E b h)
        else if sint (total_millis (clock_diff start (clock_read (ticker E h)))) > timeout then Some (False, ata_reset_at E b h)
        else ata_wait_from E b timeout start msk state (yield E h))"

text \<open>\<open>q\<close> is \<^verbatim>\<open>identify_in_progress\<close>.\<close>

definition ata_wait :: "'h machine \<Rightarrow> bool \<Rightarrow> int \<Rightarrow> u8 \<Rightarrow> u8 \<Rightarrow> 'h \<Rightarrow> (bool \<times> 'h) option" where
  "ata_wait E q u msk state h = do {
     b \<leftarrow> ata_base u;
     ata_wait_from E b (if q then ATA_IDENTIFY_TIMEOUT else ATA_TIMEOUT) (clock_read (ticker E h)) msk state h
   }"

text \<open>Words are stored with the low byte first.  The number of words of a transfer of \<open>n\<close> bytes:\<close>

definition bytes_of :: "u16 \<Rightarrow> buf" where "bytes_of w = [ucast w, ucast (drop_bit 8 w)]"
definition word_of :: "u8 \<Rightarrow> u8 \<Rightarrow> u16" where "word_of x y = ucast x OR push_bit 8 (ucast y)"
definition pio_words :: "int \<Rightarrow> nat" where "pio_words n = nat ((n + 1) div 2)"

fun pio_read :: "'h machine \<Rightarrow> int \<Rightarrow> nat \<Rightarrow> 'h \<Rightarrow> buf \<times> 'h" where
  "pio_read E p 0 h = ([], h)"
| "pio_read E p (Suc n) h = (let (w, h) = in16 E p h; (bs, h) = pio_read E p n h in (bytes_of w @ bs, h))"

definition ata_pio_read :: "'h machine \<Rightarrow> int \<Rightarrow> int \<Rightarrow> 'h \<Rightarrow> (buf \<times> 'h) option" where
  "ata_pio_read E u n h = do { b \<leftarrow> ata_base u; Some (pio_read E (b + ATA_DATA) (pio_words n) h) }"

text \<open>Writing beyond the end of the buffer reads outside it.\<close>

fun pio_write :: "'h machine \<Rightarrow> int \<Rightarrow> buf \<Rightarrow> nat \<Rightarrow> 'h \<Rightarrow> 'h option" where
  "pio_write E p data 0 h = Some h"
| "pio_write E p (x # y # data) (Suc n) h = pio_write E p data n (out16 E (word_of x y) p h)"
| "pio_write E p _ (Suc n) h = None"

definition ata_pio_write :: "'h machine \<Rightarrow> int \<Rightarrow> buf \<Rightarrow> int \<Rightarrow> 'h \<Rightarrow> 'h option" where
  "ata_pio_write E u data n h = do { b \<leftarrow> ata_base u; pio_write E (b + ATA_DATA) data (pio_words n) h }"

section \<open>Commands\<close>

text \<open>The byte of \<open>x\<close> from bit \<open>8 * k\<close> on; the shift is arithmetic.\<close>

definition byte_of :: "int \<Rightarrow> nat \<Rightarrow> u8" where "byte_of x k = word_of_int (x div 2 ^ (8 * k))"

definition drive_flags :: "int \<Rightarrow> u8" where
  "drive_flags u = (if u mod 2 \<noteq> 0 then ATA_FLAGS_ECC OR ATA_FLAGS_LBA OR ATA_FLAGS_SEC OR ATA_FLAGS_SLV
     else ATA_FLAGS_ECC OR ATA_FLAGS_LBA OR ATA_FLAGS_SEC)"

definition ata_begin :: "'h machine \<Rightarrow> bool \<Rightarrow> int \<Rightarrow> u8 \<Rightarrow> int \<Rightarrow> int \<Rightarrow> 'h \<Rightarrow> (bool \<times> 'h) option" where
  "ata_begin E q u command count offset h = do {
     base \<leftarrow> ata_base u;
     let sector = byte_of offset 0;
     let clow = byte_of offset 1;
     let chigh = byte_of offset 2;
     let flags = drive_flags u OR (byte_of offset 3 AND 0x0f);
     (ok, h) \<leftarrow> ata_wait E q u ATA_STATUS_BSY 0 h;
     if \<not> ok then Some (False, h)
     else do {
       let h = out8 E flags (base + ATA_FDH) h;
       (ready, h) \<leftarrow> (if command = ATAPI_COMMAND_IDENTIFY then ata_wait E q u ATA_STATUS_BSY 0 h
                        else ata_wait E q u (ATA_STATUS_BSY OR ATA_STATUS_RDY) ATA_STATUS_RDY h);
       if \<not> ready then Some (False, h)
       else do {
         let h = out8 E 0 (base + ATA_CONTROL) h;
         let h = out8 E (word_of_int count) (base + ATA_COUNT) h;
         let h = out8 E sector (base + ATA_SECTOR) h;
         let h = out8 E clow (base + ATA_CYL_LO) h;
         let h = out8 E chigh (base + ATA_CYL_HI) h;
         let h = out8 E flags (base + ATA_FDH) h;
         Some (True, out8 E command (base + ATA_COMMAND) h)
       }
     }
   }"

text \<open>The loops over the blocks of a transfer.  A read gives the bytes it has stored, also when it fails.\<close>

fun ata_read_blocks :: "'h machine \<Rightarrow> bool \<Rightarrow> int \<Rightarrow> int \<Rightarrow> nat \<Rightarrow> 'h \<Rightarrow> (bool \<times> buf \<times> 'h) option" where
  "ata_read_blocks E q u bs 0 h = Some (True, [], h)"
| "ata_read_blocks E q u bs (Suc n) h = do {
     (ok, h) \<leftarrow> ata_wait E q u ATA_STATUS_DRQ ATA_STATUS_DRQ h;
     if \<not> ok then Some (False, [], h)
     else do {
       (xs, h) \<leftarrow> ata_pio_read E u bs h;
       (ok, ys, h) \<leftarrow> ata_read_blocks E q u bs n h;
       Some (ok, xs @ ys, h)
     }
   }"

fun ata_write_blocks :: "'h machine \<Rightarrow> bool \<Rightarrow> int \<Rightarrow> buf \<Rightarrow> nat \<Rightarrow> 'h \<Rightarrow> (bool \<times> 'h) option" where
  "ata_write_blocks E q u data 0 h = Some (True, h)"
| "ata_write_blocks E q u data (Suc n) h = do {
     (ok, h) \<leftarrow> ata_wait E q u ATA_STATUS_DRQ ATA_STATUS_DRQ h;
     if \<not> ok then Some (False, h)
     else do {
       h \<leftarrow> ata_pio_write E u data ATA_BLOCKSIZE h;
       ata_write_blocks E q u (drop (nat ATA_BLOCKSIZE) data) n h
     }
   }"

definition ata_read_unlocked :: "'h machine \<Rightarrow> bool \<Rightarrow> int \<Rightarrow> int \<Rightarrow> int \<Rightarrow> 'h \<Rightarrow> (int \<times> buf \<times> 'h) option" where
  "ata_read_unlocked E q u count offset h = do {
     (ok, h) \<leftarrow> ata_begin E q u ATA_COMMAND_READ count offset h;
     if \<not> ok then Some (0, [], h)
     else do {
       (ok, xs, h) \<leftarrow> ata_read_blocks E q u ATA_BLOCKSIZE (nat count) h;
       if \<not> ok then Some (0, xs, h)
       else do {
         (ok, h) \<leftarrow> ata_wait E q u ATA_STATUS_BSY 0 h;
         Some (if ok then count else 0, xs, h)
       }
     }
   }"

definition ata_write_unlocked :: "'h machine \<Rightarrow> bool \<Rightarrow> int \<Rightarrow> buf \<Rightarrow> int \<Rightarrow> int \<Rightarrow> 'h \<Rightarrow> (int \<times> 'h) option" where
  "ata_write_unlocked E q u data count offset h = do {
     (ok, h) \<leftarrow> ata_begin E q u ATA_COMMAND_WRITE count offset h;
     if \<not> ok then Some (0, h)
     else do {
       (ok, h) \<leftarrow> ata_write_blocks E q u data (nat count) h;
       if \<not> ok then Some (0, h)
       else do {
         (ok, h) \<leftarrow> ata_wait E q u ATA_STATUS_BSY 0 h;
         Some (if ok then count else 0, h)
       }
     }
   }"

definition atapi_begin :: "'h machine \<Rightarrow> bool \<Rightarrow> int \<Rightarrow> buf \<Rightarrow> int \<Rightarrow> 'h \<Rightarrow> (bool \<times> 'h) option" where
  "atapi_begin E q u data len h = do {
     base \<leftarrow> ata_base u;
     (ok, h) \<leftarrow> ata_wait E q u ATA_STATUS_BSY 0 h;
     if \<not> ok then Some (False, h)
     else do {
       let h = out8 E (drive_flags u) (base + ATA_FDH) h;
       (ok, h) \<leftarrow> ata_wait E q u ATA_STATUS_BSY 0 h;
       if \<not> ok then Some (False, h)
       else do {
         let h = out8 E 0 (base + ATAPI_FEATURE) h;
         let h = out8 E 0 (base + ATAPI_IRR) h;
         let h = out8 E 0 (base + ATAPI_SAMTAG) h;
         let h = out8 E (byte_of len 0) (base + ATAPI_COUNT_LO) h;
         let h = out8 E (byte_of len 1) (base + ATAPI_COUNT_HI) h;
         let h = out8 E ATAPI_COMMAND_PACKET (base + ATA_COMMAND) h;
         (ok, h) \<leftarrow> ata_wait E q u (ATA_STATUS_BSY OR ATA_STATUS_DRQ) ATA_STATUS_DRQ h;
         if \<not> ok then Some (False, h)
         else do { h \<leftarrow> ata_pio_write E u data len h; Some (True, h) }
       }
     }
   }"

definition atapi_packet :: "int \<Rightarrow> int \<Rightarrow> buf" where
  "atapi_packet count offset = [SCSI_READ10, 0, byte_of offset 3, byte_of offset 2, byte_of offset 1, byte_of offset 0,
     0, byte_of count 1, byte_of count 0, 0, 0, 0]"

definition atapi_read_unlocked :: "'h machine \<Rightarrow> bool \<Rightarrow> int \<Rightarrow> int \<Rightarrow> int \<Rightarrow> 'h \<Rightarrow> (int \<times> buf \<times> 'h) option" where
  "atapi_read_unlocked E q u count offset h = do {
     (ok, h) \<leftarrow> atapi_begin E q u (atapi_packet count offset) 12 h;
     if \<not> ok then Some (0, [], h)
     else do {
       (ok, xs, h) \<leftarrow> ata_read_blocks E q u ATAPI_BLOCKSIZE (nat count) h;
       Some (if ok then 1 else 0, xs, h)
     }
   }"

section \<open>The driver\<close>

text \<open>\<open>running\<close> holds the statistics of the current process, when there is one.\<close>

record 'h ata =
  below :: 'h
  identify_in_progress :: bool
  ata_interrupt_active :: bool
  total_written :: "int \<Rightarrow> int"
  total_read :: "int \<Rightarrow> int"
  running :: "process_stats_t option"

definition ata_stats :: "'h ata \<Rightarrow> (int \<Rightarrow> int) \<times> (int \<Rightarrow> int)" where
  "ata_stats s = (total_written s, total_read s)"

definition ata_interrupt :: "ptr \<Rightarrow> 'h ata \<times> 'k psys \<Rightarrow> ('h ata \<times> 'k psys) option" where
  "ata_interrupt queue = (\<lambda>(s, ps). do { ps \<leftarrow> process_wakeup_all queue ps; Some (s\<lparr>ata_interrupt_active := True\<rparr>, ps) })"

definition account_read :: "int \<Rightarrow> int \<Rightarrow> int \<Rightarrow> 'h ata \<Rightarrow> 'h ata" where
  "account_read u n bs s = s\<lparr>total_read := (total_read s)(u := total_read s u + n),
     running := map_option (\<lambda>x. x\<lparr>p_blocks_read := p_blocks_read x + n, p_bytes_read := p_bytes_read x + n * bs\<rparr>) (running s)\<rparr>"

definition account_written :: "int \<Rightarrow> int \<Rightarrow> int \<Rightarrow> 'h ata \<Rightarrow> 'h ata" where
  "account_written u n bs s = s\<lparr>total_written := (total_written s)(u := total_written s u + n),
     running := map_option (\<lambda>x. x\<lparr>p_blocks_written := p_blocks_written x + n, p_bytes_written := p_bytes_written x + n * bs\<rparr>) (running s)\<rparr>"

definition ata_read :: "'h machine \<Rightarrow> int \<Rightarrow> int \<Rightarrow> int \<Rightarrow> 'h ata \<Rightarrow> (int \<times> buf \<times> 'h ata) option" where
  "ata_read E u count offset s = do {
     (r, xs, h) \<leftarrow> ata_read_unlocked E (identify_in_progress s) u count offset (lock E (below s));
     Some (r, xs, account_read u count ATA_BLOCKSIZE (s\<lparr>below := unlock E h\<rparr>))
   }"

definition atapi_read :: "'h machine \<Rightarrow> int \<Rightarrow> int \<Rightarrow> int \<Rightarrow> 'h ata \<Rightarrow> (int \<times> buf \<times> 'h ata) option" where
  "atapi_read E u count offset s = do {
     (r, xs, h) \<leftarrow> atapi_read_unlocked E (identify_in_progress s) u count offset (lock E (below s));
     Some (r, xs, account_read u count ATAPI_BLOCKSIZE (s\<lparr>below := unlock E h\<rparr>))
   }"

definition ata_write :: "'h machine \<Rightarrow> int \<Rightarrow> buf \<Rightarrow> int \<Rightarrow> int \<Rightarrow> 'h ata \<Rightarrow> (int \<times> 'h ata) option" where
  "ata_write E u data count offset s = do {
     (r, h) \<leftarrow> ata_write_unlocked E (identify_in_progress s) u data count offset (lock E (below s));
     Some (r, account_written u count ATA_BLOCKSIZE (s\<lparr>below := unlock E h\<rparr>))
   }"

text \<open>The bytes an identification stored, when it succeeded.\<close>

definition ata_identify :: "'h machine \<Rightarrow> int \<Rightarrow> u8 \<Rightarrow> 'h ata \<Rightarrow> (buf option \<times> 'h ata) option" where
  "ata_identify E u command s = do {
     let s = s\<lparr>identify_in_progress := True\<rparr>;
     (ok, h) \<leftarrow> ata_begin E True u command 0 0 (below s);
     (ok, h) \<leftarrow> (if ok then ata_wait E True u ATA_STATUS_DRQ ATA_STATUS_DRQ h else Some (False, h));
     (r, h) \<leftarrow> (if ok then do { (xs, h) \<leftarrow> ata_pio_read E u 512 h; Some (Some xs, h) } else Some (None, h));
     Some (r, s\<lparr>below := h, identify_in_progress := False\<rparr>)
   }"

definition buffer_word :: "buf \<Rightarrow> nat \<Rightarrow> int" where
  "buffer_word cb i = uint (word_of (cb ! (2 * i)) (cb ! (2 * i + 1)))"

fun byte_swap :: "buf \<Rightarrow> buf" where
  "byte_swap (x # y # bs) = y # x # byte_swap bs"
| "byte_swap bs = bs"

text \<open>
  \<open>kind\<close> is 0 to try both.  The number of blocks is a product of three 16-bit words computed in \<^verbatim>\<open>int\<close>, which
  can leave its range.  The results are the blocks and their size when a drive was found, and the buffer of the
  name; a name that does not fit that buffer is written beyond it.
\<close>

definition ata_probe_internal :: "'h machine \<Rightarrow> int \<Rightarrow> u8 \<Rightarrow> buf \<Rightarrow> 'h ata \<Rightarrow> ((int \<times> int) option \<times> buf \<times> 'h ata) option" where
  "ata_probe_internal E u kind name s = do {
     b \<leftarrow> ata_base u;
     let (t, h) = in8 E (b + ATA_STATUS) (below s);
     let s = s\<lparr>below := h\<rparr>;
     if t = 0xff then Some (None, name, s)
     else do {
       h \<leftarrow> ata_reset E u (below s);
       let s = s\<lparr>below := h\<rparr>;
       (res, s) \<leftarrow> (if kind = ATA_COMMAND_IDENTIFY \<or> kind = 0 then do {
           (r, s) \<leftarrow> ata_identify E u ATA_COMMAND_IDENTIFY s;
           Some (map_option (\<lambda>cb. (i32 (buffer_word cb 1 * buffer_word cb 3 * buffer_word cb 6), ATA_BLOCKSIZE, cb)) r, s)
         } else Some (None, s));
       (res, s) \<leftarrow> (if kind = ATAPI_COMMAND_IDENTIFY \<or> (kind = 0 \<and> res = None) then do {
           (r, s) \<leftarrow> ata_identify E u ATAPI_COMMAND_IDENTIFY s;
           Some (map_option (\<lambda>cb. (337920, ATAPI_BLOCKSIZE, cb)) r, s)
         } else Some (res, s));
       case res of None \<Rightarrow> Some (None, name, s)
       | Some (n, bs, cb) \<Rightarrow> do {
           let cb = (byte_swap cb)[256 := 0];
           name \<leftarrow> strcpy name (drop 54 cb);
           if length name \<le> 40 then None else Some (Some (n, bs), name[40 := 0], s)
         }
     }
   }"

definition ata_probe :: "'h machine \<Rightarrow> int \<Rightarrow> buf \<Rightarrow> 'h ata \<Rightarrow> ((int \<times> int) option \<times> buf \<times> 'h ata) option" where
  "ata_probe E u = ata_probe_internal E u ATA_COMMAND_IDENTIFY"

definition atapi_probe :: "'h machine \<Rightarrow> int \<Rightarrow> buf \<Rightarrow> 'h ata \<Rightarrow> ((int \<times> int) option \<times> buf \<times> 'h ata) option" where
  "atapi_probe E u = ata_probe_internal E u ATAPI_COMMAND_IDENTIFY"

text \<open>
  The driver records of the device layer, whose functions always return: an operation that does not is given
  status 0 there.  \<open>info\<close> is the buffer for the name, 64 bytes of the stack of \<^verbatim>\<open>device_open\<close>.
\<close>

definition returned :: "'a \<Rightarrow> 'a option \<Rightarrow> 'a" where
  "returned d r = (case r of None \<Rightarrow> d | Some x \<Rightarrow> x)"

definition as_probe :: "(int \<Rightarrow> buf \<Rightarrow> 'h ata \<Rightarrow> ((int \<times> int) option \<times> buf \<times> 'h ata) option) \<Rightarrow> buf \<Rightarrow>
    int \<Rightarrow> 'h ata \<Rightarrow> (int \<times> int) option \<times> 'h ata" where
  "as_probe probe info u s = (case probe u info s of Some (r, _, s) \<Rightarrow> (r, s) | None \<Rightarrow> (None, s))"

definition ata_driver :: "'h machine \<Rightarrow> buf \<Rightarrow> 'h ata device_driver" where
  "ata_driver E info = \<lparr>drv_name = [97, 116, 97, 0], drv_probe = as_probe (ata_probe E) info,
     drv_read = Some (\<lambda>u n off s. returned (0, [], s) (ata_read E u n off s)),
     drv_read_nonblock = Some (\<lambda>u n off s. returned (0, [], s) (ata_read E u n off s)),
     drv_write = Some (\<lambda>u data n off s. returned (0, s) (ata_write E u data n off s)),
     drv_multiplier = 8, blocks_read = 0, blocks_written = 0\<rparr>"

definition atapi_driver :: "'h machine \<Rightarrow> buf \<Rightarrow> 'h ata device_driver" where
  "atapi_driver E info = \<lparr>drv_name = [97, 116, 97, 112, 105, 0], drv_probe = as_probe (atapi_probe E) info,
     drv_read = Some (\<lambda>u n off s. returned (0, [], s) (atapi_read E u n off s)),
     drv_read_nonblock = Some (\<lambda>u n off s. returned (0, [], s) (atapi_read E u n off s)),
     drv_write = None, drv_multiplier = 0, blocks_read = 0, blocks_written = 0\<rparr>"

text \<open>The probes of the start, over the four units with one buffer for the name.\<close>

fun probe_units :: "'h machine \<Rightarrow> int list \<Rightarrow> buf \<Rightarrow> 'h ata \<Rightarrow> 'h ata option" where
  "probe_units E [] name s = Some s"
| "probe_units E (i # is) name s = do { (_, name, s) \<leftarrow> ata_probe_internal E i 0 name s; probe_units E is name s }"

text \<open>\<open>handler\<close>, \<open>disk\<close> and \<open>cd\<close> are the addresses of the interrupt handler and of the two drivers.\<close>

definition ata_init :: "'h machine \<Rightarrow> ptr \<Rightarrow> ptr \<Rightarrow> ptr \<Rightarrow> buf \<Rightarrow> buf \<Rightarrow>
    interrupts \<times> 'h ata world \<Rightarrow> (interrupts \<times> 'h ata world) option" where
  "ata_init E handler disk cd longname info = (\<lambda>(t, w). do {
     let s = (hw w)\<lparr>total_read := (\<lambda>i. if 0 \<le> i \<and> i < 4 then 0 else total_read (hw w) i),
       total_written := (\<lambda>i. if 0 \<le> i \<and> i < 4 then 0 else total_written (hw w) i)\<rparr>;
     t \<leftarrow> interrupt_register ATA_IRQ0 (Handler handler) t;
     let t = interrupt_enable ATA_IRQ0 t;
     t \<leftarrow> interrupt_register ATA_IRQ1 (Handler handler) t;
     let t = interrupt_enable ATA_IRQ1 t;
     s \<leftarrow> probe_units E [0, 1, 2, 3] longname s;
     let w = w\<lparr>hw := s, drivers := (drivers w)(disk := ata_driver E info, cd := atapi_driver E info)\<rparr>;
     let w = device_driver_register disk w;
     Some (t, device_driver_register cd w)
   })"

end
