(* ===== verification/Ata_Props.thy ===== *)
theory Ata_Props
  imports Ata
begin

text \<open>
  What the disk driver does over drives that follow the standard: the waits end, and requests on the driver are
  requests on an array of blocks for every unit.  \<open>drives_ok\<close> says what the driver relies on, and \<open>sim\<close> is a
  machine that provides it.
\<close>

section \<open>What the driver relies on\<close>

text \<open>
  A drive as the standard describes it, seen through the ports: the task file, the transfer that is
  going on in each channel, the sectors of 256 words, and the time in microseconds until which a channel is busy.  A tick of
  the clock takes 50000 of them.
\<close>

datatype transfer = Idle | Sending int nat nat nat | Receiving int nat nat "u16 list"

record drives =
  task :: "int \<Rightarrow> u8"
  transfer :: "int \<Rightarrow> transfer"
  sectors :: "int \<Rightarrow> nat \<Rightarrow> u16 list"
  now :: nat
  ready :: "int \<Rightarrow> nat"

definition channel :: "int \<Rightarrow> bool" where "channel b \<longleftrightarrow> b = ATA_BASE0 \<or> b = ATA_BASE1"

definition busy :: "int \<Rightarrow> drives \<Rightarrow> bool" where "busy b d \<longleftrightarrow> now d < ready d b"

definition selected :: "int \<Rightarrow> drives \<Rightarrow> int" where
  "selected b d = (if b = ATA_BASE0 then 0 else 2) + (if bit (task d (b + ATA_FDH)) 4 then 1 else 0)"

definition address :: "int \<Rightarrow> drives \<Rightarrow> nat" where
  "address b d = unat (task d (b + ATA_SECTOR)) + 256 * unat (task d (b + ATA_CYL_LO)) + 65536 * unat (task d (b + ATA_CYL_HI)) +
     16777216 * unat (task d (b + ATA_FDH) AND 0x0f)"

definition amount :: "int \<Rightarrow> drives \<Rightarrow> nat" where
  "amount b d = (if task d (b + ATA_COUNT) = 0 then 256 else unat (task d (b + ATA_COUNT)))"

text \<open>A channel is busy for at most four seconds at a time.\<close>

definition next_at :: "int \<Rightarrow> transfer \<Rightarrow> drives \<Rightarrow> drives \<Rightarrow> bool" where
  "next_at b x d d' \<longleftrightarrow> (\<exists>r \<le> now d + 4000000. d' = d\<lparr>transfer := (transfer d)(b := x), ready := (ready d)(b := r)\<rparr>)"

definition clock_at :: "nat \<Rightarrow> clock" where
  "clock_at t = \<lparr>clicks = of_nat (t div 50000 mod 20), clock_seconds = of_nat (t div 50000 div 20)\<rparr>"

text \<open>
  The clock goes on while other processes run, and a process that yields is back within half a second; reading a port
  takes no time.
\<close>

definition clock_law :: "'h machine \<Rightarrow> ('h \<Rightarrow> nat) \<Rightarrow> bool" where
  "clock_law E t \<longleftrightarrow> (\<forall>h. ticker E h = clock_at (t h) \<and> t h < t (yield E h) \<and> t (yield E h) \<le> t h + 500000 \<and>
     (\<forall>p. t (snd (in8 E p h)) = t h))"

text \<open>A busy drive shows \<^verbatim>\<open>ATA_STATUS_BSY\<close> alone, and another that it is ready and whether a transfer is going on.\<close>

definition status_law :: "'h machine \<Rightarrow> ('h \<Rightarrow> drives) \<Rightarrow> int set \<Rightarrow> bool" where
  "status_law E dv U \<longleftrightarrow> (\<forall>b h. channel b \<longrightarrow> selected b (dv h) \<in> U \<longrightarrow>
     (\<exists>t h'. in8 E (b + ATA_STATUS) h = (t, h') \<and> dv h' = dv h \<and>
        (if busy b (dv h) then t = ATA_STATUS_BSY
         else \<not> bit t 7 \<and> bit t 6 \<and> \<not> bit t 0 \<and> (bit t 3 \<longleftrightarrow> transfer (dv h) b \<noteq> Idle))))"

definition register_law :: "'h machine \<Rightarrow> ('h \<Rightarrow> drives) \<Rightarrow> bool" where
  "register_law E dv \<longleftrightarrow> (\<forall>b h. channel b \<longrightarrow> \<not> busy b (dv h) \<longrightarrow> transfer (dv h) b = Idle \<longrightarrow>
     dv (out8 E 0 (b + ATA_CONTROL) h) = dv h \<and>
     (\<forall>v r. r \<in> {ATA_COUNT, ATA_SECTOR, ATA_CYL_LO, ATA_CYL_HI, ATA_FDH} \<longrightarrow>
        dv (out8 E v (b + r) h) = (dv h)\<lparr>task := (task (dv h))(b + r := v)\<rparr>))"

definition command_law :: "'h machine \<Rightarrow> ('h \<Rightarrow> drives) \<Rightarrow> int set \<Rightarrow> bool" where
  "command_law E dv U \<longleftrightarrow> (\<forall>b h. channel b \<longrightarrow> \<not> busy b (dv h) \<longrightarrow> transfer (dv h) b = Idle \<longrightarrow> selected b (dv h) \<in> U \<longrightarrow>
     next_at b (Sending (selected b (dv h)) (address b (dv h)) (amount b (dv h)) 0) (dv h)
       (dv (out8 E ATA_COMMAND_READ (b + ATA_COMMAND) h)) \<and>
     next_at b (Receiving (selected b (dv h)) (address b (dv h)) (amount b (dv h)) []) (dv h)
       (dv (out8 E ATA_COMMAND_WRITE (b + ATA_COMMAND) h)))"

text \<open>The words of a sector follow one another without a pause; between sectors the channel may be busy.\<close>

definition read_law :: "'h machine \<Rightarrow> ('h \<Rightarrow> drives) \<Rightarrow> bool" where
  "read_law E dv \<longleftrightarrow> (\<forall>b h u a n k. channel b \<longrightarrow> \<not> busy b (dv h) \<longrightarrow> transfer (dv h) b = Sending u a n k \<longrightarrow> k < 256 \<longrightarrow>
     (\<exists>h'. in16 E (b + ATA_DATA) h = (sectors (dv h) u a ! k, h') \<and>
        (if k < 255 then dv h' = (dv h)\<lparr>transfer := (transfer (dv h))(b := Sending u a n (k + 1))\<rparr>
         else next_at b (if n = 1 then Idle else Sending u (a + 1) (n - 1) 0) (dv h) (dv h'))))"

definition put_sector :: "int \<Rightarrow> nat \<Rightarrow> u16 list \<Rightarrow> drives \<Rightarrow> drives" where
  "put_sector u a ws d = d\<lparr>sectors := (sectors d)(u := (sectors d u)(a := ws))\<rparr>"

definition write_law :: "'h machine \<Rightarrow> ('h \<Rightarrow> drives) \<Rightarrow> bool" where
  "write_law E dv \<longleftrightarrow> (\<forall>b h u a n ws v. channel b \<longrightarrow> \<not> busy b (dv h) \<longrightarrow> transfer (dv h) b = Receiving u a n ws \<longrightarrow> length ws < 256 \<longrightarrow>
     (if length ws < 255 then dv (out16 E v (b + ATA_DATA) h) = (dv h)\<lparr>transfer := (transfer (dv h))(b := Receiving u a n (ws @ [v]))\<rparr>
      else next_at b (if n = 1 then Idle else Receiving u (a + 1) (n - 1) []) (put_sector u a (ws @ [v]) (dv h))
             (dv (out16 E v (b + ATA_DATA) h))))"

text \<open>Nobody else touches the drives while a process waits for its turn, or uses the lock.\<close>

definition later :: "drives \<Rightarrow> drives \<Rightarrow> bool" where
  "later d d' \<longleftrightarrow> (\<exists>t \<ge> now d. d' = d\<lparr>now := t\<rparr>)"

definition turn_law :: "'h machine \<Rightarrow> ('h \<Rightarrow> drives) \<Rightarrow> bool" where
  "turn_law E dv \<longleftrightarrow> (\<forall>h. later (dv h) (dv (yield E h)) \<and> later (dv h) (dv (lock E h)) \<and> later (dv h) (dv (unlock E h)))"

definition drives_ok :: "'h machine \<Rightarrow> ('h \<Rightarrow> drives) \<Rightarrow> int set \<Rightarrow> bool" where
  "drives_ok E dv U \<longleftrightarrow> clock_law E (\<lambda>h. now (dv h)) \<and> status_law E dv U \<and> register_law E dv \<and> command_law E dv U \<and>
     read_law E dv \<and> write_law E dv \<and> turn_law E dv"

text \<open>Between commands.\<close>

definition calm :: "int set \<Rightarrow> drives \<Rightarrow> bool" where
  "calm U d \<longleftrightarrow> (\<forall>b. channel b \<longrightarrow> transfer d b = Idle \<and> selected b d \<in> U \<and> ready d b \<le> now d + 4000000) \<and>
     (\<forall>u a. length (sectors d u a) = 256)"

section \<open>Waiting ends\<close>

lemma clock_at_ok: "clock_ok (clock_at t)"
proof -
  have "unat (of_nat n :: u32) < 20" if "n < 20" for n using that by (simp add: unat_of_nat)
  then have "unat (of_nat (t div 50000 mod 20) :: u32) < 20" by simp
  then show ?thesis by (simp add: clock_ok_def clock_at_def CLICKS_PER_SECOND_def word_less_nat_alt)
qed

lemma clock_at_total: "total_millis (clock_read (clock_at t)) = of_nat (50 * (t div 50000))"
proof -
  have "total_millis (clock_read (clock_at t)) = 50 * of_nat (t div 50000 mod 20) + of_nat (t div 50000 div 20) * 1000"
    using millis_read [OF clock_at_ok, of t] by (simp add: total_millis_def clock_read_def clock_at_def)
  also have "\<dots> = of_nat (50 * (t div 50000 mod 20) + 1000 * (t div 50000 div 20))" by simp
  also have "50 * (n mod 20) + 1000 * (n div 20) = 50 * n" for n :: nat
    using div_mult_mod_eq [of n 20] by linarith
  finally show ?thesis .
qed

text \<open>The time elapsed, as the loop computes it.\<close>

lemma elapsed:
  assumes "t0 \<le> t" "t < t0 + 10000000"
  shows "sint (total_millis (clock_diff (clock_read (clock_at t0)) (clock_read (clock_at t)))) = int (50 * (t div 50000 - t0 div 50000))"
proof -
  have le: "t0 div 50000 \<le> t div 50000" using assms(1) by (rule div_le_mono)
  have s: "50 * (t div 50000 - t0 div 50000) < 20000" using assms(2) by simp
  have "total_millis (clock_diff (clock_read (clock_at t0)) (clock_read (clock_at t))) = of_nat (50 * (t div 50000 - t0 div 50000))"
    using le by (simp add: diff_total clock_at_total of_nat_diff algebra_simps)
  moreover have "sint (of_nat k :: u32) = int k" if "k < 20000" for k
    using that by (simp add: signed_of_nat signed_take_bit_int_eq_self)
  ultimately show ?thesis using s by (simp only:)
qed

lemma wait_from_ends:
  assumes "clock_law E t" "timeout \<le> 5000" "t0 \<le> t h" "t h \<le> t0 + 6000000"
  shows "\<exists>r h'. ata_wait_from E b timeout (clock_read (clock_at t0)) msk state h = Some (r, h') \<and>
    (r \<longrightarrow> t h' \<le> t0 + 6000000 \<and> (\<exists>g x. in8 E (b + ATA_STATUS) g = (x, h') \<and> x AND msk = state))"
  using assms(3,4)
proof (induction "t0 + 6000000 - t h" arbitrary: h rule: less_induct)
  case less
  obtain x h1 where i: "in8 E (b + ATA_STATUS) h = (x, h1)" by (cases "in8 E (b + ATA_STATUS) h")
  have t1: "t h1 = t h" using assms(1) i unfolding clock_law_def by (metis snd_conv)
  have tick: "ticker E h1 = clock_at (t h1)" and y: "t h1 < t (yield E h1)" "t (yield E h1) \<le> t h1 + 500000"
    using assms(1) unfolding clock_law_def by blast+
  let ?e = "sint (total_millis (clock_diff (clock_read (clock_at t0)) (clock_read (ticker E h1))))"
  have e: "?e = int (50 * (t h1 div 50000 - t0 div 50000))"
    unfolding tick by (rule elapsed) (use less.prems t1 in simp_all)
  consider "x AND msk = state" | "x AND msk \<noteq> state" "x AND ATA_STATUS_ERR \<noteq> 0 \<or> ?e > timeout"
    | "x AND msk \<noteq> state" "x AND ATA_STATUS_ERR = 0" "\<not> ?e > timeout" by blast
  then show ?case
  proof cases
    case 1
    then show ?thesis using i less.prems t1 by (subst ata_wait_from.simps) auto
  next
    case 2
    then show ?thesis using i by (subst ata_wait_from.simps) auto
  next
    case 3
    have "50 * (t h1 div 50000 - t0 div 50000) \<le> 5000" using 3(3) e assms(2) by linarith
    then have "t h1 \<le> t0 + 5200000" by linarith
    then have "t0 \<le> t (yield E h1)" "t (yield E h1) \<le> t0 + 6000000" "t0 + 6000000 - t (yield E h1) < t0 + 6000000 - t h"
      using y t1 less.prems by simp_all
    with less.hyps [OF this(3,1,2)] show ?thesis using i 3 by (subst ata_wait_from.simps) simp
  qed
qed

text \<open>Claim C21.  Waiting for a drive ends, whatever the drive answers, when the clock goes on: the status asked for was read
  less than six seconds after the start, or the channel was reset.\<close>

theorem ata_wait_ends:
  assumes "clock_law E t" "ata_base u = Some b"
  shows "\<exists>r h'. ata_wait E q u msk state h = Some (r, h') \<and>
    (r \<longrightarrow> t h' \<le> t h + 6000000 \<and> (\<exists>g x. in8 E (b + ATA_STATUS) g = (x, h') \<and> x AND msk = state))"
proof -
  have "ticker E h = clock_at (t h)" using assms(1) by (simp add: clock_law_def)
  then show ?thesis
    using wait_from_ends [OF assms(1), of "if q then ATA_IDENTIFY_TIMEOUT else ATA_TIMEOUT" "t h" h b msk state] assms(2)
    by (simp add: ata_wait_def ATA_TIMEOUT_def ATA_IDENTIFY_TIMEOUT_def)
qed

section \<open>Commands on drives\<close>

lemma and_0x80: "(t :: u8) AND 0x80 = 0 \<longleftrightarrow> \<not> bit t 7"
proof -
  have "(0x80 :: u8) = 2 ^ 7" by simp
  then show ?thesis by (simp only: and_exp_eq_0_iff_not_bit)
qed

lemma and_0x01: "(t :: u8) AND 1 = 0 \<longleftrightarrow> \<not> bit t 0"
  using and_exp_eq_0_iff_not_bit [of t 0] by simp

lemma all_u8_bits: "(\<forall>n < 8. P n) \<longleftrightarrow> P 0 \<and> P 1 \<and> P 2 \<and> P 3 \<and> P 4 \<and> P 5 \<and> P 6 \<and> P (7 :: nat)"
proof -
  have "n < 8 \<longleftrightarrow> n \<in> {0, 1, 2, 3, 4, 5, 6, 7}" for n :: nat by auto
  then show ?thesis by auto
qed

lemma u8_eq: "(v :: u8) = w \<longleftrightarrow> (\<forall>n < 8. bit v n = bit w n)"
  by (auto intro: bit_word_eqI)

lemma and_0x08: "(t :: u8) AND 8 = 8 \<longleftrightarrow> bit t 3"
  unfolding u8_eq all_u8_bits by (simp add: bit_and_iff)

lemma and_0xc0: "(t :: u8) AND 0xc0 = 0x40 \<longleftrightarrow> \<not> bit t 7 \<and> bit t 6"
  unfolding u8_eq all_u8_bits by (simp add: bit_and_iff conj_commute)

lemma channel_base: "ata_base u = Some b \<Longrightarrow> channel b"
proof -
  assume a: "ata_base u = Some b"
  then have "u = 0 \<or> u = 1 \<or> u = 2 \<or> u = 3" by (auto simp: ata_base_def split: if_splits)
  then show "channel b" using a by (auto simp: ata_base_def channel_def)
qed

lemma later_simps:
  assumes "later d d'"
  shows "task d' = task d" "transfer d' = transfer d" "sectors d' = sectors d" "ready d' = ready d" "now d \<le> now d'"
    "selected b d' = selected b d" "address b d' = address b d" "amount b d' = amount b d"
  using assms by (auto simp: later_def selected_def address_def amount_def)

lemma later_trans: "later d d' \<Longrightarrow> later d' d'' \<Longrightarrow> later d d''"
  by (auto simp: later_def) (rule_tac x = ta in exI, simp)

lemma later_self: "later d d"
  unfolding later_def by (rule exI [of _ "now d"]) simp

lemma drives_wait_from:
  assumes ok: "drives_ok E dv U" and b: "channel b"
    and m: "(msk, state) = (0x80, 0) \<or> (msk, state) = (0xc0, 0x40) \<or> (msk, state) = (8, 8) \<and> x \<noteq> Idle"
    and "selected b (dv h) \<in> U" "transfer (dv h) b = x" "t0 \<le> now (dv h)" "ready (dv h) b \<le> t0 + 4000000"
  shows "\<exists>h'. ata_wait_from E b 5000 (clock_read (clock_at t0)) msk state h = Some (True, h') \<and> later (dv h) (dv h') \<and> \<not> busy b (dv h')"
  using assms(4-)
proof (induction "ready (dv h) b - now (dv h)" arbitrary: h rule: less_induct)
  case less
  obtain t h1 where i: "in8 E (b + ATA_STATUS) h = (t, h1)" "dv h1 = dv h"
    and st: "if busy b (dv h) then t = ATA_STATUS_BSY else \<not> bit t 7 \<and> bit t 6 \<and> \<not> bit t 0 \<and> (bit t 3 \<longleftrightarrow> transfer (dv h) b \<noteq> Idle)"
    using ok b less.prems(1) unfolding drives_ok_def status_law_def by blast
  show ?case
  proof (cases "busy b (dv h)")
    case False
    then have "t AND msk = state" using m st less.prems(2) by (auto simp: and_0x80 and_0xc0 and_0x08)
    then show ?thesis using i False by (subst ata_wait_from.simps) (simp add: later_self)
  next
    case True
    then have t: "t = 0x80" using st by (simp add: ATA_STATUS_BSY_def)
    have no: "t AND msk \<noteq> state" "t AND ATA_STATUS_ERR = 0" using m unfolding t by (auto simp: ATA_STATUS_ERR_def)
    have early: "now (dv h) < t0 + 4000000" using True less.prems(4) by (simp add: busy_def)
    have tick: "ticker E h1 = clock_at (now (dv h))" and y: "now (dv h) < now (dv (yield E h1))" "later (dv h) (dv (yield E h1))"
      using ok i(2) unfolding drives_ok_def clock_law_def turn_law_def by metis+
    have "sint (total_millis (clock_diff (clock_read (clock_at t0)) (clock_read (ticker E h1)))) = int (50 * (now (dv h) div 50000 - t0 div 50000))"
      unfolding tick by (rule elapsed) (use early less.prems(3) in simp_all)
    also have "\<dots> \<le> 5000" using early by linarith
    finally have e: "\<not> sint (total_millis (clock_diff (clock_read (clock_at t0)) (clock_read (ticker E h1)))) > 5000" by simp
    have "\<exists>h'. ata_wait_from E b 5000 (clock_read (clock_at t0)) msk state (yield E h1) = Some (True, h') \<and>
        later (dv (yield E h1)) (dv h') \<and> \<not> busy b (dv h')"
      using less.hyps [of "yield E h1"] less.prems y True by (simp add: later_simps [OF y(2)] busy_def)
    then show ?thesis using i(1) no e later_trans [OF y(2)] by (subst ata_wait_from.simps) auto
  qed
qed

lemma drives_wait:
  assumes "drives_ok E dv U" "ata_base u = Some b"
    and "(msk, state) = (0x80, 0) \<or> (msk, state) = (0xc0, 0x40) \<or> (msk, state) = (8, 8) \<and> transfer (dv h) b \<noteq> Idle"
    and "selected b (dv h) \<in> U" "ready (dv h) b \<le> now (dv h) + 4000000"
  obtains h' where "ata_wait E False u msk state h = Some (True, h')" "later (dv h) (dv h')" "\<not> busy b (dv h')"
proof -
  have "ticker E h = clock_at (now (dv h))" using assms(1) by (simp add: drives_ok_def clock_law_def)
  then show thesis
    using that drives_wait_from [OF assms(1) channel_base [OF assms(2)] assms(3,4) HOL.refl order_refl assms(5)] assms(2)
    by (auto simp: ata_wait_def ATA_TIMEOUT_def)
qed

text \<open>The transfer \<open>x\<close> of channel \<open>b\<close>, with the sectors \<open>S\<close>, while the other channel is at rest.\<close>

definition in_transfer :: "int \<Rightarrow> int set \<Rightarrow> transfer \<Rightarrow> (int \<Rightarrow> nat \<Rightarrow> u16 list) \<Rightarrow> drives \<Rightarrow> bool" where
  "in_transfer b U x S d \<longleftrightarrow> transfer d b = x \<and> sectors d = S \<and>
     (\<forall>b'. channel b' \<longrightarrow> selected b' d \<in> U \<and> ready d b' \<le> now d + 4000000 \<and> (b' \<noteq> b \<longrightarrow> transfer d b' = Idle))"

lemma in_transfer_later: "in_transfer b U x S d \<Longrightarrow> later d d' \<Longrightarrow> in_transfer b U x S d'"
  by (simp add: in_transfer_def later_simps) (meson add_right_mono later_simps(5) order_trans)

lemma in_transfer_next:
  assumes "in_transfer b U x S d" "next_at b y d d'"
  shows "in_transfer b U y S d'" "now d' = now d" "task d' = task d" "selected b d' = selected b d"
  using assms by (auto simp: in_transfer_def next_at_def selected_def)

lemma in_transfer_wait:
  assumes "drives_ok E dv U" "ata_base u = Some b" "in_transfer b U x S (dv h)"
    and "(msk, state) = (0x80, 0) \<or> (msk, state) = (0xc0, 0x40) \<or> (msk, state) = (8, 8) \<and> x \<noteq> Idle"
  obtains h' where "ata_wait E False u msk state h = Some (True, h')" "later (dv h) (dv h')" "\<not> busy b (dv h')"
    "in_transfer b U x S (dv h')"
proof -
  have d: "selected b (dv h) \<in> U" "ready (dv h) b \<le> now (dv h) + 4000000" "transfer (dv h) b = x"
    using assms(3) channel_base [OF assms(2)] by (auto simp: in_transfer_def)
  show thesis
    using drives_wait [OF assms(1,2) assms(4) [folded d(3)] d(1,2)] that in_transfer_later [OF assms(3)] by blast
qed

lemma channel_eq: "channel b \<Longrightarrow> channel b' \<Longrightarrow> 2 \<le> r \<Longrightarrow> r \<le> 6 \<Longrightarrow> b' + 6 = b + r \<longleftrightarrow> b' = b \<and> r = 6"
  by (auto simp: channel_def ATA_BASE0_def ATA_BASE1_def)

lemmas register_numbers = ATA_COUNT_def ATA_SECTOR_def ATA_CYL_LO_def ATA_CYL_HI_def ATA_FDH_def

lemma selected_task:
  assumes "channel b" "channel b'" "r \<in> {ATA_COUNT, ATA_SECTOR, ATA_CYL_LO, ATA_CYL_HI, ATA_FDH}"
  shows "selected b' (d\<lparr>task := (task d)(b + r := v)\<rparr>) =
    (if b' = b \<and> r = ATA_FDH then (if b = ATA_BASE0 then 0 else 2) + (if bit v 4 then 1 else 0) else selected b' d)"
proof -
  have "2 \<le> r" "r \<le> 6" using assms(3) by (auto simp: register_numbers)
  then show ?thesis using channel_eq [OF assms(1,2)] by (auto simp: selected_def ATA_FDH_def)
qed

lemma in_transfer_task:
  assumes "in_transfer b U x S d" "channel b" "r \<in> {ATA_COUNT, ATA_SECTOR, ATA_CYL_LO, ATA_CYL_HI, ATA_FDH}"
    and "r = ATA_FDH \<Longrightarrow> (if b = ATA_BASE0 then 0 else 2) + (if bit v 4 then 1 else 0) \<in> U"
  shows "in_transfer b U x S (d\<lparr>task := (task d)(b + r := v)\<rparr>)"
  using assms(1,2,4) selected_task [OF assms(2) _ assms(3)] by (auto simp: in_transfer_def)

text \<open>The parts of an address.\<close>

lemma unat_byte_of: "unat (byte_of x k) = nat (x div 2 ^ (8 * k) mod 256)"
  by (simp add: byte_of_def unsigned_of_int take_bit_int_def)

lemma and_15_or: "(f OR (x AND 15)) AND 15 = x AND 15" if "f AND 15 = 0" for f x :: u8
  using that by (simp add: bit.conj_disj_distrib2 and.assoc)

lemma nibble_value: "unat ((x :: u8) AND 15) = unat x mod 16"
proof -
  have "(15 :: u8) = mask 4" by (simp add: mask_eq_exp_minus_1)
  then have "x AND 15 = take_bit 4 x" by (simp only: take_bit_eq_mask)
  then show ?thesis by (simp add: unsigned_take_bit_eq take_bit_nat_def)
qed

lemma drive_flags_facts: "drive_flags u AND 15 = 0" "bit (drive_flags u OR (x AND 15)) 4 \<longleftrightarrow> u mod 2 \<noteq> 0"
  by (simp_all add: drive_flags_def ATA_FLAGS_ECC_def ATA_FLAGS_LBA_def ATA_FLAGS_SEC_def ATA_FLAGS_SLV_def bit_or_iff bit_and_iff)

lemma join_nat:
  assumes "x = 256 * q + a" "q = 256 * r + b" "r = 256 * s + c" "0 \<le> a" "0 \<le> b" "0 \<le> c" "0 \<le> s"
  shows "nat a + 256 * nat b + 65536 * nat c + 16777216 * nat s = nat (x :: int)"
proof -
  have "x = a + 256 * b + 65536 * c + 16777216 * s" using assms by linarith
  then show ?thesis using assms(4-7) by (simp add: nat_add_distrib nat_mult_distrib)
qed

lemma bytes_join:
  assumes "0 \<le> x" "x < 2 ^ 28"
  shows "nat (x mod 256) + 256 * nat (x div 256 mod 256) + 65536 * nat (x div 65536 mod 256) + 16777216 * (nat (x div 16777216 mod 256) mod 16) = nat x"
proof -
  have d: "x div 65536 = x div 256 div 256" "x div 16777216 = x div 256 div 256 div 256" by (simp_all flip: zdiv_zmult2_eq)
  define q where "q = x div 256"
  define r where "r = q div 256"
  define s where "s = r div 256"
  have s: "0 \<le> s" "s < 16" using assms by (simp_all add: s_def r_def q_def flip: zdiv_zmult2_eq)
  have "s mod 256 = s" using s by (intro mod_pos_pos_trivial) linarith+
  moreover have "nat s < 16" using s by linarith
  ultimately have m: "nat (s mod 256) mod 16 = nat s" by (simp only: mod_less)
  have "nat (x mod 256) + 256 * nat (q mod 256) + 65536 * nat (r mod 256) + 16777216 * nat s = nat x"
    by (rule join_nat [where q = q and r = r]) (use s(1) in \<open>simp_all add: s_def r_def q_def\<close>)
  then show ?thesis unfolding d using m by (simp only: q_def [symmetric] r_def [symmetric] s_def [symmetric])
qed

lemma address_join:
  assumes "0 \<le> x" "x < 2 ^ 28"
  shows "unat (byte_of x 0) + 256 * unat (byte_of x 1) + 65536 * unat (byte_of x 2) +
    16777216 * unat ((drive_flags u OR (byte_of x 3 AND 15)) AND 15) = nat x"
  using bytes_join [OF assms]
  by (simp add: and_15_or drive_flags_facts nibble_value unat_byte_of)

lemma unit_of_base: "ata_base u = Some b \<Longrightarrow> (if b = ATA_BASE0 then 0 else 2) + (if u mod 2 \<noteq> 0 then 1 else 0) = u"
proof -
  assume a: "ata_base u = Some b"
  then have "u = 0 \<or> u = 1 \<or> u = 2 \<or> u = 3" by (auto simp: ata_base_def split: if_splits)
  then show ?thesis using a by (auto simp: ata_base_def ATA_BASE0_def ATA_BASE1_def)
qed

lemma put_register:
  assumes "drives_ok E dv U" "channel b" "\<not> busy b (dv h)" "in_transfer b U Idle S (dv h)"
    and "r \<in> {ATA_COUNT, ATA_SECTOR, ATA_CYL_LO, ATA_CYL_HI, ATA_FDH}"
    and "(if b = ATA_BASE0 then 0 else 2) + (if bit v 4 then 1 else 0) \<in> U \<or> r \<noteq> ATA_FDH"
  shows "dv (out8 E v (b + r) h) = (dv h)\<lparr>task := (task (dv h))(b + r := v)\<rparr>" (is "_ = ?d")
    "\<not> busy b (dv (out8 E v (b + r) h))" "in_transfer b U Idle S (dv (out8 E v (b + r) h))"
proof -
  have "transfer (dv h) b = Idle" using assms(4) by (simp add: in_transfer_def)
  then show e: "dv (out8 E v (b + r) h) = ?d" using assms(1,2,3,5) unfolding drives_ok_def register_law_def by blast
  have "in_transfer b U Idle S ?d" by (rule in_transfer_task [OF assms(4,2,5)]) (use assms(6) in blast)
  then show "\<not> busy b (dv (out8 E v (b + r) h))" "in_transfer b U Idle S (dv (out8 E v (b + r) h))"
    unfolding e using assms(3) by (simp_all add: busy_def)
qed

text \<open>A count of 256 is sent as 0.\<close>

lemma amount_value:
  assumes "1 \<le> n" "n \<le> 256"
  shows "(if (word_of_int n :: u8) = 0 then 256 else unat (word_of_int n :: u8)) = nat n"
proof (cases "n = 256")
  case False
  then have "unat (word_of_int n :: u8) = nat n" using assms by (simp add: unsigned_of_int take_bit_int_eq_self)
  moreover have "nat n \<noteq> 0" using assms by simp
  ultimately show ?thesis by (metis unat_0)
qed simp

text \<open>Both commands start the transfer asked for.\<close>

lemma drives_begin:
  assumes ok: "drives_ok E dv U" and b: "ata_base u = Some b" and u: "u \<in> U"
    and t: "in_transfer b U Idle S (dv h)"
    and n: "1 \<le> n" "n \<le> 256" "0 \<le> off" "off < 2 ^ 28"
    and c: "c = ATA_COMMAND_READ \<and> x = Sending u (nat off) (nat n) 0 \<or> c = ATA_COMMAND_WRITE \<and> x = Receiving u (nat off) (nat n) []"
  shows "\<exists>h'. ata_begin E False u c n off h = Some (True, h') \<and> in_transfer b U x S (dv h')"
proof -
  have ch: "channel b" using b by (rule channel_base)
  let ?f = "drive_flags u OR (byte_of off 3 AND 15)"
  have fu: "(if b = ATA_BASE0 then 0 else 2) + (if bit ?f 4 then 1 else 0) \<in> U"
    using unit_of_base [OF b] u by (simp add: drive_flags_facts)
  have sel: "(if b = ATA_BASE0 then 0 else 2) + (if bit ?f 4 then 1 else 0) = u"
    using unit_of_base [OF b] by (simp add: drive_flags_facts)
  have rs: "ATA_COUNT \<in> {ATA_COUNT, ATA_SECTOR, ATA_CYL_LO, ATA_CYL_HI, ATA_FDH}" "ATA_SECTOR \<in> {ATA_COUNT, ATA_SECTOR, ATA_CYL_LO, ATA_CYL_HI, ATA_FDH}"
    "ATA_CYL_LO \<in> {ATA_COUNT, ATA_SECTOR, ATA_CYL_LO, ATA_CYL_HI, ATA_FDH}" "ATA_CYL_HI \<in> {ATA_COUNT, ATA_SECTOR, ATA_CYL_LO, ATA_CYL_HI, ATA_FDH}"
    "ATA_FDH \<in> {ATA_COUNT, ATA_SECTOR, ATA_CYL_LO, ATA_CYL_HI, ATA_FDH}" by simp_all
  have ne: "ATA_COUNT \<noteq> ATA_FDH" "ATA_SECTOR \<noteq> ATA_FDH" "ATA_CYL_LO \<noteq> ATA_FDH" "ATA_CYL_HI \<noteq> ATA_FDH" by (simp_all add: register_numbers)
  obtain h1 where w1: "ata_wait E False u ATA_STATUS_BSY 0 h = Some (True, h1)" "\<not> busy b (dv h1)" "in_transfer b U Idle S (dv h1)"
    by (rule in_transfer_wait [OF ok b t, of ATA_STATUS_BSY 0]) (auto simp: ATA_STATUS_BSY_def)
  define h2 where "h2 = out8 E ?f (b + ATA_FDH) h1"
  have r2: "in_transfer b U Idle S (dv h2)"
    unfolding h2_def by (rule put_register(3) [OF ok ch w1(2,3) rs(5) disjI1 [OF fu]])
  obtain h3 where w3: "ata_wait E False u (ATA_STATUS_BSY OR ATA_STATUS_RDY) ATA_STATUS_RDY h2 = Some (True, h3)"
      "\<not> busy b (dv h3)" "in_transfer b U Idle S (dv h3)"
    by (rule in_transfer_wait [OF ok b r2, of "ATA_STATUS_BSY OR ATA_STATUS_RDY" ATA_STATUS_RDY])
      (auto simp: ATA_STATUS_BSY_def ATA_STATUS_RDY_def)
  define h4 where "h4 = out8 E 0 (b + ATA_CONTROL) h3"
  have "transfer (dv h3) b = Idle" using w3(3) by (simp add: in_transfer_def)
  then have d4: "dv h4 = dv h3" using ok ch w3(2) unfolding h4_def drives_ok_def register_law_def by blast
  note r4 = w3(2,3) [folded d4]
  define h5 where "h5 = out8 E (word_of_int n) (b + ATA_COUNT) h4"
  note r5 = put_register [OF ok ch r4 rs(1), of "word_of_int n", folded h5_def, OF disjI2 [OF ne(1)]]
  define h6 where "h6 = out8 E (byte_of off 0) (b + ATA_SECTOR) h5"
  note r6 = put_register [OF ok ch r5(2,3) rs(2), of "byte_of off 0", folded h6_def, OF disjI2 [OF ne(2)]]
  define h7 where "h7 = out8 E (byte_of off 1) (b + ATA_CYL_LO) h6"
  note r7 = put_register [OF ok ch r6(2,3) rs(3), of "byte_of off 1", folded h7_def, OF disjI2 [OF ne(3)]]
  define h8 where "h8 = out8 E (byte_of off 2) (b + ATA_CYL_HI) h7"
  note r8 = put_register [OF ok ch r7(2,3) rs(4), of "byte_of off 2", folded h8_def, OF disjI2 [OF ne(4)]]
  define h9 where "h9 = out8 E ?f (b + ATA_FDH) h8"
  note r9 = put_register [OF ok ch r8(2,3) rs(5), of ?f, folded h9_def, OF disjI1 [OF fu]]
  have s9: "selected b (dv h9) = u"
    unfolding r9(1) selected_task [OF ch ch rs(5)] using sel by simp
  have "address b (dv h9) = unat (byte_of off 0) + 256 * unat (byte_of off 1) + 65536 * unat (byte_of off 2) + 16777216 * unat (?f AND 15)"
    unfolding address_def r9(1) r8(1) r7(1) r6(1) by (simp add: register_numbers)
  then have a9: "address b (dv h9) = nat off" unfolding address_join [OF n(3,4)] .
  have "task (dv h9) (b + ATA_COUNT) = word_of_int n" unfolding r9(1) r8(1) r7(1) r6(1) r5(1) by (simp add: register_numbers)
  then have m9: "amount b (dv h9) = nat n" using amount_value [OF n(1,2)] by (simp only: amount_def)
  have i9: "transfer (dv h9) b = Idle" using r9(3) by (simp add: in_transfer_def)
  have "next_at b x (dv h9) (dv (out8 E c (b + ATA_COMMAND) h9))"
    using ok ch r9(2) i9 u c s9 a9 m9 unfolding drives_ok_def command_law_def by metis
  from in_transfer_next(1) [OF r9(3) this] have "in_transfer b U x S (dv (out8 E c (b + ATA_COMMAND) h9))" .
  moreover have "c \<noteq> ATAPI_COMMAND_IDENTIFY" using c by (auto simp: ATA_COMMAND_READ_def ATA_COMMAND_WRITE_def ATAPI_COMMAND_IDENTIFY_def)
  then have "ata_begin E False u c n off h = Some (True, out8 E c (b + ATA_COMMAND) h9)"
    using b w1(1) w3(1) unfolding h9_def h8_def h7_def h6_def h5_def h4_def h2_def by (simp add: ata_begin_def Let_def)
  ultimately show ?thesis by blast
qed

text \<open>One sector, from its word \<open>k\<close> on.\<close>

lemma read_sector:
  assumes ok: "drives_ok E dv U" and ch: "channel b"
  shows "in_transfer b U (Sending v a n k) S (dv h) \<Longrightarrow> \<not> busy b (dv h) \<Longrightarrow> k + Suc m = 256 \<Longrightarrow> length (S v a) = 256 \<Longrightarrow>
    \<exists>h'. pio_read E (b + ATA_DATA) (Suc m) h = (concat (map bytes_of (drop k (S v a))), h') \<and>
      in_transfer b U (if n = 1 then Idle else Sending v (a + 1) (n - 1) 0) S (dv h')"
proof (induction m arbitrary: k h)
  case 0
  have x: "transfer (dv h) b = Sending v a n k" "sectors (dv h) = S" using 0(1) by (simp_all add: in_transfer_def)
  have k: "k < 256" "\<not> k < 255" using 0(3) by simp_all
  obtain h' where r: "in16 E (b + ATA_DATA) h = (S v a ! k, h')"
    and n: "next_at b (if n = 1 then Idle else Sending v (a + 1) (n - 1) 0) (dv h) (dv h')"
    using ok ch 0(2) x k unfolding drives_ok_def read_law_def by metis
  have "drop k (S v a) = [S v a ! k]" using k 0(3,4) by (simp add: Cons_nth_drop_Suc [symmetric])
  then show ?case using r in_transfer_next(1) [OF 0(1) n] by simp
next
  case (Suc m)
  have x: "transfer (dv h) b = Sending v a n k" "sectors (dv h) = S" using Suc.prems(1) by (simp_all add: in_transfer_def)
  have k: "k < 256" "k < 255" using Suc.prems(3) by simp_all
  obtain h1 where r: "in16 E (b + ATA_DATA) h = (S v a ! k, h1)"
    and d: "dv h1 = (dv h)\<lparr>transfer := (transfer (dv h))(b := Sending v a n (k + 1))\<rparr>"
    using ok ch Suc.prems(2) x k unfolding drives_ok_def read_law_def by metis
  have i1: "in_transfer b U (Sending v a n (k + 1)) S (dv h1)" "\<not> busy b (dv h1)"
    using Suc.prems(1,2) unfolding d by (auto simp: in_transfer_def selected_def busy_def)
  have e: "drop k (S v a) = S v a ! k # drop (k + 1) (S v a)" using k Suc.prems(4) by (simp add: Cons_nth_drop_Suc)
  from Suc.IH [OF i1 _ Suc.prems(4)] Suc.prems(3)
  show ?case unfolding e using r by (auto simp: Let_def split: prod.splits)
qed

definition content :: "(int \<Rightarrow> nat \<Rightarrow> u16 list) \<Rightarrow> int \<Rightarrow> nat \<Rightarrow> buf" where
  "content S u a = concat (map bytes_of (S u a))"

lemma base_data: "ata_base u = Some b \<Longrightarrow> ata_pio_read E u ATA_BLOCKSIZE h = Some (pio_read E (b + ATA_DATA) (Suc 255) h)"
  by (simp add: ata_pio_read_def pio_words_def ATA_BLOCKSIZE_def)

lemma read_sectors:
  assumes ok: "drives_ok E dv U" and b: "ata_base u = Some b" and S: "\<And>a. length (S v a) = 256"
  shows "in_transfer b U (if n = 0 then Idle else Sending v a n 0) S (dv h) \<Longrightarrow>
    \<exists>h'. ata_read_blocks E False u ATA_BLOCKSIZE n h = Some (True, concat (map (content S v) [a..<a + n]), h') \<and> in_transfer b U Idle S (dv h')"
proof (induction n arbitrary: a h)
  case (Suc n)
  have t: "in_transfer b U (Sending v a (Suc n) 0) S (dv h)" using Suc.prems by simp
  obtain h1 where w: "ata_wait E False u ATA_STATUS_DRQ ATA_STATUS_DRQ h = Some (True, h1)" "\<not> busy b (dv h1)"
      "in_transfer b U (Sending v a (Suc n) 0) S (dv h1)"
    by (rule in_transfer_wait [OF ok b t, of ATA_STATUS_DRQ ATA_STATUS_DRQ]) (auto simp: ATA_STATUS_DRQ_def)
  obtain h2 where r: "pio_read E (b + ATA_DATA) (Suc 255) h1 = (content S v a, h2)"
      "in_transfer b U (if n = 0 then Idle else Sending v (a + 1) n 0) S (dv h2)"
  proof -
    have k: "0 + Suc 255 = 256" by simp
    have e: "(if Suc n = 1 then Idle else Sending v (a + 1) (Suc n - 1) 0) = (if n = 0 then Idle else Sending v (a + 1) n 0)" by simp
    show thesis using read_sector [OF ok channel_base [OF b] w(3,2) k S, unfolded e drop_0 content_def [symmetric]] that by blast
  qed
  obtain h3 where i: "ata_read_blocks E False u ATA_BLOCKSIZE n h2 = Some (True, concat (map (content S v) [a + 1..<a + 1 + n]), h3)"
      "in_transfer b U Idle S (dv h3)" using Suc.IH [OF r(2)] by blast
  have "[a..<a + Suc n] = a # [a + 1..<a + 1 + n]" by (simp add: upt_rec)
  then show ?case using w(1) base_data [OF b, of E h1] r(1) i by (simp del: pio_read.simps upt_Suc)
qed simp

text \<open>The same for writing.\<close>

fun words_of :: "buf \<Rightarrow> u16 list" where
  "words_of (x # y # bs) = word_of x y # words_of bs"
| "words_of _ = []"

lemma bytes_of_word_of: "bytes_of (word_of x y) = [x, y]"
proof -
  have "(ucast (word_of x y) :: u8) = x"
    by (rule bit_word_eqI) (simp add: word_of_def bit_simps)
  moreover have "(ucast (drop_bit 8 (word_of x y)) :: u8) = y"
    by (rule bit_word_eqI) (auto simp: word_of_def bit_simps dest: bit_imp_possible_bit)
  ultimately show ?thesis by (simp add: bytes_of_def)
qed

lemma words_of_bytes: "length bs = 2 * n \<Longrightarrow> length (words_of bs) = n \<and> concat (map bytes_of (words_of bs)) = bs"
proof (induction n arbitrary: bs)
  case (Suc n)
  then obtain x y cs where "bs = x # y # cs" "length cs = 2 * n" by (cases bs; cases "tl bs") auto
  then show ?case using Suc.IH by (simp add: bytes_of_word_of)
qed simp

lemma two_bytes:
  assumes "2 * Suc m \<le> length data"
  obtains x y cs where "data = x # y # cs" "2 * m \<le> length cs"
  using assms that by (cases data; cases "tl data") auto

lemma write_sector:
  assumes ok: "drives_ok E dv U" and ch: "channel b"
  shows "in_transfer b U (Receiving v a n ws) S (dv h) \<Longrightarrow> \<not> busy b (dv h) \<Longrightarrow> length ws + Suc m = 256 \<Longrightarrow> 2 * Suc m \<le> length data \<Longrightarrow>
    \<exists>h'. pio_write E (b + ATA_DATA) data (Suc m) h = Some h' \<and>
      in_transfer b U (if n = 1 then Idle else Receiving v (a + 1) (n - 1) [])
        (S(v := (S v)(a := ws @ words_of (take (2 * Suc m) data)))) (dv h')"
proof (induction m arbitrary: ws data h)
  case 0
  obtain y z cs where data: "data = y # z # cs" using 0(4) by (rule two_bytes)
  have x: "transfer (dv h) b = Receiving v a n ws" "sectors (dv h) = S" using 0(1) by (simp_all add: in_transfer_def)
  have k: "length ws < 256" "\<not> length ws < 255" using 0(3) by simp_all
  have n: "next_at b (if n = 1 then Idle else Receiving v (a + 1) (n - 1) []) (put_sector v a (ws @ [word_of y z]) (dv h))
      (dv (out16 E (word_of y z) (b + ATA_DATA) h))"
    using ok ch 0(2) x(1) k unfolding drives_ok_def write_law_def by metis
  have "in_transfer b U (Receiving v a n ws) (S(v := (S v)(a := ws @ [word_of y z]))) (put_sector v a (ws @ [word_of y z]) (dv h))"
    using 0(1) x(2) by (simp add: in_transfer_def put_sector_def selected_def)
  note t = in_transfer_next(1) [OF this n]
  have w: "words_of (take (2 * Suc 0) data) = [word_of y z]" unfolding data by simp
  have p: "pio_write E (b + ATA_DATA) data (Suc 0) h = Some (out16 E (word_of y z) (b + ATA_DATA) h)" unfolding data by simp
  show ?case unfolding w by (rule exI, rule conjI [OF p t])
next
  case (Suc m)
  obtain y z cs where data: "data = y # z # cs" "2 * Suc m \<le> length cs" using Suc.prems(4) by (rule two_bytes)
  have x: "transfer (dv h) b = Receiving v a n ws" "sectors (dv h) = S" using Suc.prems(1) by (simp_all add: in_transfer_def)
  have k: "length ws < 256" "length ws < 255" using Suc.prems(3) by simp_all
  let ?h = "out16 E (word_of y z) (b + ATA_DATA) h"
  have d: "dv ?h = (dv h)\<lparr>transfer := (transfer (dv h))(b := Receiving v a n (ws @ [word_of y z]))\<rparr>"
    using ok ch Suc.prems(2) x(1) k unfolding drives_ok_def write_law_def by metis
  have i1: "in_transfer b U (Receiving v a n (ws @ [word_of y z])) S (dv ?h)" "\<not> busy b (dv ?h)"
    using Suc.prems(1,2) unfolding d by (auto simp: in_transfer_def selected_def busy_def)
  have "length (ws @ [word_of y z]) + Suc m = 256" using Suc.prems(3) by simp
  from Suc.IH [OF i1 this data(2)] show ?case unfolding data(1) by simp
qed

fun put_sectors :: "int \<Rightarrow> nat \<Rightarrow> buf \<Rightarrow> nat \<Rightarrow> (int \<Rightarrow> nat \<Rightarrow> u16 list) \<Rightarrow> int \<Rightarrow> nat \<Rightarrow> u16 list" where
  "put_sectors v a data 0 S = S"
| "put_sectors v a data (Suc n) S = put_sectors v (a + 1) (drop 512 data) n (S(v := (S v)(a := words_of (take 512 data))))"

lemma base_out: "ata_base u = Some b \<Longrightarrow> ata_pio_write E u data ATA_BLOCKSIZE h = pio_write E (b + ATA_DATA) data (Suc 255) h"
  by (simp add: ata_pio_write_def pio_words_def ATA_BLOCKSIZE_def)

lemma write_sectors:
  assumes ok: "drives_ok E dv U" and b: "ata_base u = Some b"
  shows "in_transfer b U (if n = 0 then Idle else Receiving v a n []) S (dv h) \<Longrightarrow> 512 * n \<le> length data \<Longrightarrow>
    \<exists>h'. ata_write_blocks E False u data n h = Some (True, h') \<and> in_transfer b U Idle (put_sectors v a data n S) (dv h')"
proof (induction n arbitrary: a h S data)
  case (Suc n)
  have t: "in_transfer b U (Receiving v a (Suc n) []) S (dv h)" using Suc.prems by simp
  obtain h1 where w: "ata_wait E False u ATA_STATUS_DRQ ATA_STATUS_DRQ h = Some (True, h1)" "\<not> busy b (dv h1)"
      "in_transfer b U (Receiving v a (Suc n) []) S (dv h1)"
    by (rule in_transfer_wait [OF ok b t, of ATA_STATUS_DRQ ATA_STATUS_DRQ]) (auto simp: ATA_STATUS_DRQ_def)
  let ?S = "S(v := (S v)(a := words_of (take 512 data)))"
  have k: "length ([] :: u16 list) + Suc 255 = 256" "2 * Suc 255 \<le> length data" "2 * Suc 255 = 512" using Suc.prems(2) by simp_all
  have e: "(if Suc n = 1 then Idle else Receiving v (a + 1) (Suc n - 1) []) = (if n = 0 then Idle else Receiving v (a + 1) n [])" by simp
  obtain h2 where r: "pio_write E (b + ATA_DATA) data (Suc 255) h1 = Some h2"
      "in_transfer b U (if n = 0 then Idle else Receiving v (a + 1) n []) ?S (dv h2)"
    using write_sector [OF ok channel_base [OF b] w(3,2) k(1,2), unfolded e k(3) append_Nil] by blast
  have "512 * n \<le> length (drop 512 data)" using Suc.prems(2) by simp
  then obtain h3 where i: "ata_write_blocks E False u (drop 512 data) n h2 = Some (True, h3)"
      "in_transfer b U Idle (put_sectors v (a + 1) (drop 512 data) n ?S) (dv h3)"
    using Suc.IH [OF r(2)] by blast
  have "ata_write_blocks E False u data (Suc n) h = Some (True, h3)"
    using w(1) base_out [OF b, of E data h1] r(1) i(1) by (simp add: ATA_BLOCKSIZE_def del: pio_write.simps)
  then show ?case unfolding put_sectors.simps using i(2) by blast
qed simp

lemma put_sectors_length:
  "512 * n \<le> length data \<Longrightarrow> (\<And>u a. length (S u a) = 256) \<Longrightarrow> length (put_sectors v a data n S w i) = 256"
proof (induction n arbitrary: a data S)
  case (Suc n)
  have l: "length (words_of (take 512 data)) = 256" using words_of_bytes [of "take 512 data" 256] Suc.prems(1) by simp
  have "length ((S(v := (S v)(a := words_of (take 512 data)))) u i) = 256" for u i using l Suc.prems(2) by simp
  then show ?case unfolding put_sectors.simps using Suc.IH [of "drop 512 data"] Suc.prems(1) by simp
qed simp

text \<open>What a write of \<open>n\<close> blocks from \<open>a\<close> on does to the contents of the drives.\<close>

definition put_blocks :: "int \<Rightarrow> nat \<Rightarrow> buf \<Rightarrow> nat \<Rightarrow> (int \<Rightarrow> nat \<Rightarrow> buf) \<Rightarrow> int \<Rightarrow> nat \<Rightarrow> buf" where
  "put_blocks v a data n C = (\<lambda>u i. if u = v \<and> a \<le> i \<and> i < a + n then take 512 (drop (512 * (i - a)) data) else C u i)"

lemma put_blocks_Suc:
  "put_blocks v (a + 1) (drop 512 data) n (C(v := (C v)(a := take 512 data))) = put_blocks v a data (Suc n) C"
proof (intro ext)
  fix u i
  consider "u \<noteq> v \<or> i < a \<or> a + n < i" | "u = v" "i = a" | "u = v" "a + 1 \<le> i" "i \<le> a + n" by linarith
  then show "put_blocks v (a + 1) (drop 512 data) n (C(v := (C v)(a := take 512 data))) u i = put_blocks v a data (Suc n) C u i"
  proof cases
    case 3
    then have "512 * (i - a) = 512 * (i - (a + 1)) + 512" by simp
    then show ?thesis using 3 by (simp add: put_blocks_def add.commute)
  qed (auto simp: put_blocks_def)
qed

lemma content_put: "512 * n \<le> length data \<Longrightarrow> content (put_sectors v a data n S) = put_blocks v a data n (content S)"
proof (induction n arbitrary: a data S)
  case 0
  show ?case by (intro ext) (auto simp: put_blocks_def)
next
  case (Suc n)
  let ?S = "S(v := (S v)(a := words_of (take 512 data)))"
  have "content ?S = (content S)(v := (content S v)(a := take 512 data))"
    using words_of_bytes [of "take 512 data" 256] Suc.prems by (intro ext) (simp add: content_def)
  moreover have "content (put_sectors v (a + 1) (drop 512 data) n ?S) = put_blocks v (a + 1) (drop 512 data) n (content ?S)"
    using Suc.prems by (intro Suc.IH) simp
  ultimately show ?case unfolding put_sectors.simps by (simp only: put_blocks_Suc)
qed

lemma calm_transfer: "calm U d \<Longrightarrow> channel b \<Longrightarrow> in_transfer b U Idle (sectors d) d"
  by (simp add: calm_def in_transfer_def)

lemma transfer_calm: "in_transfer b U Idle S d \<Longrightarrow> (\<And>u a. length (S u a) = 256) \<Longrightarrow> calm U d"
  unfolding calm_def in_transfer_def by metis

lemma calm_later: "calm U d \<Longrightarrow> later d d' \<Longrightarrow> calm U d' \<and> sectors d' = sectors d"
  by (simp add: calm_def later_simps) (meson add_right_mono later_simps(5) order_trans)

text \<open>A request that fits into one command and into the address, on a unit that is there.\<close>

definition request_ok :: "int set \<Rightarrow> int \<Rightarrow> int \<Rightarrow> int \<Rightarrow> bool" where
  "request_ok U u n off \<longleftrightarrow> u \<in> U \<and> 0 \<le> u \<and> u < 4 \<and> 1 \<le> n \<and> n \<le> 256 \<and> 0 \<le> off \<and> off < 2 ^ 28"

lemma request_base: "request_ok U u n off \<Longrightarrow> \<exists>b. ata_base u = Some b"
  by (simp add: request_ok_def ata_base_def)

lemma read_unlocked:
  assumes ok: "drives_ok E dv U" and c: "calm U (dv h)" and r: "request_ok U u n off"
  shows "\<exists>h'. ata_read_unlocked E False u n off h =
      Some (n, concat (map (content (sectors (dv h)) u) [nat off..<nat off + nat n]), h') \<and>
    calm U (dv h') \<and> sectors (dv h') = sectors (dv h)"
proof -
  let ?S = "sectors (dv h)"
  obtain b where b: "ata_base u = Some b" using request_base [OF r] by blast
  have l: "length (?S v a) = 256" for v a using c by (simp add: calm_def)
  have n: "nat n \<noteq> 0" "(if nat n = 0 then Idle else Sending u (nat off) (nat n) 0) = Sending u (nat off) (nat n) 0"
    using r by (simp_all add: request_ok_def)
  obtain h1 where h1: "ata_begin E False u ATA_COMMAND_READ n off h = Some (True, h1)"
      "in_transfer b U (Sending u (nat off) (nat n) 0) ?S (dv h1)"
    using drives_begin [OF ok b _ calm_transfer [OF c channel_base [OF b]], of n off ATA_COMMAND_READ "Sending u (nat off) (nat n) 0"] r
    unfolding request_ok_def by blast
  obtain h2 where h2: "ata_read_blocks E False u ATA_BLOCKSIZE (nat n) h1 = Some (True, concat (map (content ?S u) [nat off..<nat off + nat n]), h2)"
      "in_transfer b U Idle ?S (dv h2)"
    using read_sectors [OF ok b, where v = u and S = ?S and n = "nat n" and a = "nat off" and h = h1, OF l] h1(2) unfolding n(2) by blast
  obtain h3 where h3: "ata_wait E False u ATA_STATUS_BSY 0 h2 = Some (True, h3)" "in_transfer b U Idle ?S (dv h3)"
    by (rule in_transfer_wait [OF ok b h2(2), of ATA_STATUS_BSY 0]) (auto simp: ATA_STATUS_BSY_def)
  have "sectors (dv h3) = ?S" using h3(2) by (simp add: in_transfer_def)
  moreover have "ata_read_unlocked E False u n off h = Some (n, concat (map (content ?S u) [nat off..<nat off + nat n]), h3)"
    using h1(1) h2(1) h3(1) by (simp add: ata_read_unlocked_def)
  ultimately show ?thesis using transfer_calm [OF h3(2) l] by blast
qed

lemma write_unlocked:
  assumes ok: "drives_ok E dv U" and c: "calm U (dv h)" and r: "request_ok U u n off" and d: "512 * nat n \<le> length data"
  shows "\<exists>h'. ata_write_unlocked E False u data n off h = Some (n, h') \<and> calm U (dv h') \<and>
    content (sectors (dv h')) = put_blocks u (nat off) data (nat n) (content (sectors (dv h)))"
proof -
  let ?S = "sectors (dv h)" let ?T = "put_sectors u (nat off) data (nat n) ?S"
  obtain b where b: "ata_base u = Some b" using request_base [OF r] by blast
  have l: "length (?T v a) = 256" for v a by (rule put_sectors_length [OF d]) (use c in \<open>simp add: calm_def\<close>)
  have n: "nat n \<noteq> 0" "(if nat n = 0 then Idle else Receiving u (nat off) (nat n) []) = Receiving u (nat off) (nat n) []"
    using r by (simp_all add: request_ok_def)
  obtain h1 where h1: "ata_begin E False u ATA_COMMAND_WRITE n off h = Some (True, h1)"
      "in_transfer b U (Receiving u (nat off) (nat n) []) ?S (dv h1)"
    using drives_begin [OF ok b _ calm_transfer [OF c channel_base [OF b]], of n off ATA_COMMAND_WRITE "Receiving u (nat off) (nat n) []"] r
    unfolding request_ok_def by blast
  obtain h2 where h2: "ata_write_blocks E False u data (nat n) h1 = Some (True, h2)" "in_transfer b U Idle ?T (dv h2)"
    using write_sectors [OF ok b _ d, where v = u and a = "nat off" and S = ?S and h = h1] h1(2) unfolding n(2) by blast
  obtain h3 where h3: "ata_wait E False u ATA_STATUS_BSY 0 h2 = Some (True, h3)" "in_transfer b U Idle ?T (dv h3)"
    by (rule in_transfer_wait [OF ok b h2(2), of ATA_STATUS_BSY 0]) (auto simp: ATA_STATUS_BSY_def)
  have "sectors (dv h3) = ?T" using h3(2) by (simp add: in_transfer_def)
  moreover have "ata_write_unlocked E False u data n off h = Some (n, h3)"
    using h1(1) h2(1) h3(1) by (simp add: ata_write_unlocked_def)
  ultimately show ?thesis using transfer_calm [OF h3(2) l] content_put [OF d] by metis
qed

section \<open>The driver is a disk\<close>

datatype disk_op = Disk_read int int int | Disk_write int buf int int

fun run_disk :: "'h machine \<Rightarrow> disk_op list \<Rightarrow> 'h ata \<Rightarrow> ((int \<times> buf) list \<times> 'h ata) option" where
  "run_disk E [] s = Some ([], s)"
| "run_disk E (Disk_read u n off # xs) s = do {
     (r, bs, s) \<leftarrow> ata_read E u n off s;
     (rs, s) \<leftarrow> run_disk E xs s;
     Some ((r, bs) # rs, s)
   }"
| "run_disk E (Disk_write u data n off # xs) s = do {
     (r, s) \<leftarrow> ata_write E u data n off s;
     (rs, s) \<leftarrow> run_disk E xs s;
     Some ((r, []) # rs, s)
   }"

text \<open>The same requests on an array of blocks for every unit.\<close>

fun spec_disk :: "disk_op list \<Rightarrow> (int \<Rightarrow> nat \<Rightarrow> buf) \<Rightarrow> (int \<times> buf) list \<times> (int \<Rightarrow> nat \<Rightarrow> buf)" where
  "spec_disk [] C = ([], C)"
| "spec_disk (Disk_read u n off # xs) C =
     (let (rs, C') = spec_disk xs C in ((n, concat (map (C u) [nat off..<nat off + nat n])) # rs, C'))"
| "spec_disk (Disk_write u data n off # xs) C =
     (let (rs, C') = spec_disk xs (put_blocks u (nat off) data (nat n) C) in ((n, []) # rs, C'))"

fun disk_op_ok :: "int set \<Rightarrow> disk_op \<Rightarrow> bool" where
  "disk_op_ok U (Disk_read u n off) = request_ok U u n off"
| "disk_op_ok U (Disk_write u data n off) = (request_ok U u n off \<and> 512 * nat n \<le> length data)"

lemma turn:
  assumes "drives_ok E dv U" "calm U (dv h)"
  shows "calm U (dv (lock E h))" "sectors (dv (lock E h)) = sectors (dv h)"
    "calm U (dv (unlock E h))" "sectors (dv (unlock E h)) = sectors (dv h)"
  using assms calm_later [OF assms(2)] by (auto simp: drives_ok_def turn_law_def)

lemma disk_read:
  assumes ok: "drives_ok E dv U" and c: "calm U (dv (below s))" and i: "\<not> identify_in_progress s" and r: "request_ok U u n off"
  obtains s' where "ata_read E u n off s = Some (n, concat (map (content (sectors (dv (below s))) u) [nat off..<nat off + nat n]), s')"
    "calm U (dv (below s'))" "\<not> identify_in_progress s'" "sectors (dv (below s')) = sectors (dv (below s))"
proof -
  note l = turn [OF ok c]
  obtain h where h: "ata_read_unlocked E False u n off (lock E (below s)) =
      Some (n, concat (map (content (sectors (dv (below s))) u) [nat off..<nat off + nat n]), h)"
      "calm U (dv h)" "sectors (dv h) = sectors (dv (below s))"
    using read_unlocked [OF ok l(1) r] unfolding l(2) by blast
  show thesis
    by (rule that [of "account_read u n ATA_BLOCKSIZE (s\<lparr>below := unlock E h\<rparr>)"])
      (use h turn [OF ok h(2)] i in \<open>simp_all add: ata_read_def account_read_def\<close>)
qed

lemma disk_write:
  assumes ok: "drives_ok E dv U" and c: "calm U (dv (below s))" and i: "\<not> identify_in_progress s" and r: "request_ok U u n off"
    and d: "512 * nat n \<le> length data"
  obtains s' where "ata_write E u data n off s = Some (n, s')" "calm U (dv (below s'))" "\<not> identify_in_progress s'"
    "content (sectors (dv (below s'))) = put_blocks u (nat off) data (nat n) (content (sectors (dv (below s))))"
proof -
  note l = turn [OF ok c]
  obtain h where h: "ata_write_unlocked E False u data n off (lock E (below s)) = Some (n, h)" "calm U (dv h)"
      "content (sectors (dv h)) = put_blocks u (nat off) data (nat n) (content (sectors (dv (below s))))"
    using write_unlocked [OF ok l(1) r d] unfolding l(2) by blast
  show thesis
    by (rule that [of "account_written u n ATA_BLOCKSIZE (s\<lparr>below := unlock E h\<rparr>)"])
      (use h turn [OF ok h(2)] i in \<open>simp_all add: ata_write_def account_written_def\<close>)
qed

text \<open>Claim C20.  Over drives that follow the standard the driver is a disk: every sequence of requests returns, reads give the
  512 bytes that were last written to each block, and writes change the blocks of the request and no others.\<close>

theorem ata_refines_disk:
  assumes ok: "drives_ok E dv U" and "calm U (dv (below s))" "\<not> identify_in_progress s" "\<forall>x \<in> set xs. disk_op_ok U x"
  shows "\<exists>s'. run_disk E xs s = Some (fst (spec_disk xs (content (sectors (dv (below s))))), s') \<and>
    content (sectors (dv (below s'))) = snd (spec_disk xs (content (sectors (dv (below s))))) \<and>
    calm U (dv (below s')) \<and> \<not> identify_in_progress s'"
  using assms(2-)
proof (induction xs arbitrary: s)
  case (Cons x xs)
  have more: "\<forall>x \<in> set xs. disk_op_ok U x" using Cons.prems(3) by simp
  show ?case
  proof (cases x)
    case (Disk_read u n off)
    then have r: "request_ok U u n off" using Cons.prems(3) by simp
    obtain s1 where s1: "ata_read E u n off s = Some (n, concat (map (content (sectors (dv (below s))) u) [nat off..<nat off + nat n]), s1)"
      "calm U (dv (below s1))" "\<not> identify_in_progress s1" "sectors (dv (below s1)) = sectors (dv (below s))"
      using disk_read [OF ok Cons.prems(1,2) r] by blast
    show ?thesis using Cons.IH [OF s1(2,3) more] s1(1,4) by (auto simp: Disk_read Let_def split: prod.splits)
  next
    case (Disk_write u data n off)
    then have r: "request_ok U u n off" "512 * nat n \<le> length data" using Cons.prems(3) by simp_all
    obtain s1 where s1: "ata_write E u data n off s = Some (n, s1)" "calm U (dv (below s1))" "\<not> identify_in_progress s1"
      "content (sectors (dv (below s1))) = put_blocks u (nat off) data (nat n) (content (sectors (dv (below s))))"
      using disk_write [OF ok Cons.prems(1,2) r] by blast
    show ?thesis using Cons.IH [OF s1(2,3) more] s1(1,4) by (auto simp: Disk_write Let_def split: prod.splits)
  qed
qed simp

text \<open>A machine with four drives that are busy for a millisecond after every command and sector.\<close>

definition sim_next :: "int \<Rightarrow> transfer \<Rightarrow> drives \<Rightarrow> drives" where
  "sim_next b x d = d\<lparr>transfer := (transfer d)(b := x), ready := (ready d)(b := now d + 1000)\<rparr>"

definition sim_status :: "int \<Rightarrow> drives \<Rightarrow> u8" where
  "sim_status b d = (if busy b d then 0x80 else if transfer d b = Idle then 0x40 else 0x48)"

definition sim_command :: "u8 \<Rightarrow> int \<Rightarrow> drives \<Rightarrow> drives" where
  "sim_command c b d =
     (if c = ATA_COMMAND_READ then sim_next b (Sending (selected b d) (address b d) (amount b d) 0) d
      else if c = ATA_COMMAND_WRITE then sim_next b (Receiving (selected b d) (address b d) (amount b d) []) d else d)"

definition sim_in16 :: "int \<Rightarrow> drives \<Rightarrow> u16 \<times> drives" where
  "sim_in16 b d = (case transfer d b of
       Sending u a n k \<Rightarrow> (sectors d u a ! k,
         if k < 255 then d\<lparr>transfer := (transfer d)(b := Sending u a n (k + 1))\<rparr>
         else sim_next b (if n = 1 then Idle else Sending u (a + 1) (n - 1) 0) d)
     | _ \<Rightarrow> (0, d))"

definition sim_out16 :: "u16 \<Rightarrow> int \<Rightarrow> drives \<Rightarrow> drives" where
  "sim_out16 v b d = (case transfer d b of
       Receiving u a n ws \<Rightarrow>
         (if length ws < 255 then d\<lparr>transfer := (transfer d)(b := Receiving u a n (ws @ [v]))\<rparr>
          else sim_next b (if n = 1 then Idle else Receiving u (a + 1) (n - 1) []) (put_sector u a (ws @ [v]) d))
     | _ \<Rightarrow> d)"

definition sim :: "drives machine" where
  "sim = \<lparr>in8 = (\<lambda>p d. (if p = ATA_BASE0 + 7 \<or> p = ATA_BASE1 + 7 then sim_status (p - 7) d else 0, d)),
     in16 = sim_in16,
     out8 = (\<lambda>v p d. if p = ATA_BASE0 + 7 \<or> p = ATA_BASE1 + 7 then sim_command v (p - 7) d
       else if p = ATA_BASE0 + ATA_CONTROL \<or> p = ATA_BASE1 + ATA_CONTROL then d
       else d\<lparr>task := (task d)(p := v)\<rparr>),
     out16 = sim_out16, ticker = (\<lambda>d. clock_at (now d)), yield = (\<lambda>d. d\<lparr>now := now d + 50000\<rparr>),
     sleep = (\<lambda>ms d. d\<lparr>now := now d + 1000 * unat ms\<rparr>), lock = (\<lambda>d. d), unlock = (\<lambda>d. d)\<rparr>"

definition sim_units :: "int set" where "sim_units = {0, 1, 2, 3}"

lemma sim_selected: "selected b d \<in> sim_units"
  by (simp add: selected_def sim_units_def)

lemma sim_next_at: "next_at b x d (sim_next b x d)"
  unfolding next_at_def sim_next_def by (rule exI [of _ "now d + 1000"]) simp

lemma sim_status_law: "status_law sim (\<lambda>d. d) U"
proof -
  have "bit (0x40 :: u8) 6" "bit (0x48 :: u8) 6" "bit (0x48 :: u8) 3" "\<not> bit (0x40 :: u8) 3" by simp_all
  then show ?thesis
    by (auto simp: status_law_def channel_def sim_def sim_status_def ATA_STATUS_def ATA_STATUS_BSY_def)
qed

lemma sim_register_law: "register_law sim (\<lambda>d. d)"
  by (auto simp: register_law_def channel_def sim_def ATA_BASE0_def ATA_BASE1_def ATA_CONTROL_def register_numbers)

lemma sim_command_law: "command_law sim (\<lambda>d. d) U"
proof -
  have "out8 sim c (b + ATA_COMMAND) d = sim_command c b d" if "channel b" for c b d
    using that by (auto simp: channel_def sim_def ATA_COMMAND_def ATA_BASE0_def ATA_BASE1_def)
  then show ?thesis
    by (simp add: command_law_def sim_command_def sim_next_at ATA_COMMAND_READ_def ATA_COMMAND_WRITE_def)
qed

lemma sim_read_law: "read_law sim (\<lambda>d. d)"
  unfolding read_law_def by (auto simp: sim_def sim_in16_def ATA_DATA_def sim_next_at)

lemma sim_write_law: "write_law sim (\<lambda>d. d)"
  unfolding write_law_def by (auto simp: sim_def sim_out16_def ATA_DATA_def sim_next_at)

lemma sim_ok: "drives_ok sim (\<lambda>d. d) U"
proof -
  have "clock_law sim (\<lambda>d. now d)" by (simp add: clock_law_def sim_def)
  moreover have "later d (d\<lparr>now := now d + 50000\<rparr>)" for d :: drives
    unfolding later_def by (rule exI [of _ "now d + 50000"]) simp
  then have "turn_law sim (\<lambda>d. d)" by (simp add: turn_law_def sim_def later_self)
  ultimately show ?thesis
    unfolding drives_ok_def using sim_status_law sim_register_law sim_command_law sim_read_law sim_write_law by blast
qed

text \<open>Two blocks of the slave of the second channel are written, and the second is read back.\<close>

definition sim_start :: "drives ata" where
  "sim_start = \<lparr>below = \<lparr>task = (\<lambda>_. 0), transfer = (\<lambda>_. Idle), sectors = (\<lambda>_ _. replicate 256 0), now = 0, ready = (\<lambda>_. 0)\<rparr>,
     identify_in_progress = False, ata_interrupt_active = False, total_written = (\<lambda>_. 0), total_read = (\<lambda>_. 0), running = None\<rparr>"

lemma sim_start_calm: "calm sim_units (below sim_start)"
  using sim_selected by (simp add: calm_def sim_start_def)

theorem ata_refines_disk_witness:
  "\<exists>s'. run_disk sim [Disk_write 3 (replicate 512 7 @ replicate 512 9) 2 100, Disk_read 3 1 101] sim_start =
     Some ([(2, []), (1, replicate 512 9)], s')"
proof -
  let ?xs = "[Disk_write 3 (replicate 512 7 @ replicate 512 9) 2 100, Disk_read 3 1 101]"
  have "\<forall>x \<in> set ?xs. disk_op_ok sim_units x" by (simp add: request_ok_def sim_units_def)
  from ata_refines_disk [OF sim_ok sim_start_calm _ this]
  obtain s' where "run_disk sim ?xs sim_start = Some (fst (spec_disk ?xs (content (sectors (below sim_start)))), s')"
    by (auto simp: sim_start_def)
  moreover have "fst (spec_disk ?xs C) = [(2, []), (1, replicate 512 9)]" for C
    by (simp add: put_blocks_def nat_add_distrib upt_rec)
  ultimately show ?thesis by metis
qed

text \<open>The start is not busy: the wait for a quiet drive ends at once, with the status read.\<close>

theorem ata_wait_ends_witness:
  "\<exists>r h'. ata_wait sim False 1 0x80 0 (below sim_start) = Some (r, h')"
proof -
  have "clock_law sim now" by (simp add: clock_law_def sim_def)
  moreover have "ata_base 1 = Some ATA_BASE0" by (simp add: ata_base_def)
  ultimately show ?thesis using ata_wait_ends [of sim now 1 ATA_BASE0] by blast
qed

end
