(* ===== verification/Event_Queue.thy ===== *)
theory Event_Queue
  imports Scheduler
begin

text \<open>
  Event queues: \<^verbatim>\<open>kernel/event_queue.c\<close> and its predecessor \<^verbatim>\<open>kernel/event.c\<close>.  A queue is a ring of 32
  events with the list of the processes that wait for one, known by its address; its list of waiters
  has the same address in the heap of lists.  The state extends the record \<open>equeues\<close> inside the state
  of the kernel.  The indices start at 0 and only move by \<open>+ 1\<close> modulo 32.
\<close>

definition EVENT_BUFFER_SIZE :: nat where "EVENT_BUFFER_SIZE = 32"
definition SIZEOF_EVENT :: u32 where "SIZEOF_EVENT = 8"

definition EVENT_KEY_UP :: u16 where "EVENT_KEY_UP = push_bit 4 1"
definition EVENT_KEY_DOWN :: u16 where "EVENT_KEY_DOWN = push_bit 5 1"

record event =
  etype :: u16
  ecode :: u16
  ex :: u16
  ey :: u16

record event_queue =
  ebuf :: "nat \<Rightarrow> event"
  ehead :: nat
  etail :: nat
  overflow_count :: int

record equeues =
  equeue :: "ptr \<Rightarrow> event_queue"

definition upd_equeue :: "ptr \<Rightarrow> (event_queue \<Rightarrow> event_queue) \<Rightarrow> 'g equeues_scheme psys \<Rightarrow> 'g equeues_scheme psys" where
  "upd_equeue q f s = s\<lparr>kobjs := (kobjs s)\<lparr>equeue := (equeue (kobjs s))(q := f (equeue (kobjs s) q))\<rparr>\<rparr>"

section \<open>Operations\<close>

definition zero_event :: event where "zero_event = \<lparr>etype = 0, ecode = 0, ex = 0, ey = 0\<rparr>"

text \<open>The queue at an address that the allocator returned, or at the address of the root queue.\<close>

definition event_queue_create :: "ptr \<Rightarrow> 'g equeues_scheme psys \<Rightarrow> 'g equeues_scheme psys" where
  "event_queue_create q s =
     upd_equeue q (\<lambda>_. \<lparr>ebuf = (\<lambda>_. zero_event), ehead = 0, etail = 0, overflow_count = 0\<rparr>)
       (s\<lparr>lh := (lh s)\<lparr>lists := (lists (lh s))(q := LIST_INIT)\<rparr>\<rparr>)"

definition event_queue_post :: "ptr \<Rightarrow> event \<Rightarrow> 'g equeues_scheme psys \<Rightarrow> 'g equeues_scheme psys option" where
  "event_queue_post q e s =
     (let x = equeue (kobjs s) q; next = (ehead x + 1) mod EVENT_BUFFER_SIZE in
      if next = etail x then Some (upd_equeue q (\<lambda>x. x\<lparr>overflow_count := i32 (overflow_count x + 1)\<rparr>) s)
      else process_wakeup q (upd_equeue q (\<lambda>x. x\<lparr>ebuf := (ebuf x)(ehead x := e), ehead := next\<rparr>) s))"

definition event_queue_post_root :: "ptr \<Rightarrow> u16 \<Rightarrow> u16 \<Rightarrow> u16 \<Rightarrow> u16 \<Rightarrow> 'g equeues_scheme psys \<Rightarrow> 'g equeues_scheme psys option" where
  "event_queue_post_root root type code x y = event_queue_post root \<lparr>etype = type, ecode = code, ex = x, ey = y\<rparr>"

text \<open>
  The loop of \<^verbatim>\<open>event_queue_read_raw\<close>.  The size is compared with \<^verbatim>\<open>sizeof\<close> as an unsigned number.
  \<open>resume\<close> is what the other processes and the interrupts do from the moment this process waits until it
  runs again.  The events go to the buffer in the order of the result.
\<close>

partial_function (option) read_events_loop ::
    "('g equeues_scheme psys \<Rightarrow> 'g equeues_scheme psys option) \<Rightarrow> bool \<Rightarrow> ptr \<Rightarrow> u32 \<Rightarrow> event list \<Rightarrow>
      'g equeues_scheme psys \<Rightarrow> (event list \<times> 'g equeues_scheme psys) option" where
  "read_events_loop resume blocking q sz out s =
     (if SIZEOF_EVENT \<le> sz then
        let x = equeue (kobjs s) q in
        if ehead x = etail x then
          (if blocking \<and> out = [] then do {
             s \<leftarrow> process_wait q s;
             s \<leftarrow> resume s;
             read_events_loop resume blocking q sz out s
           } else Some (out, s))
        else read_events_loop resume blocking q (sz - SIZEOF_EVENT) (out @ [ebuf x (etail x)])
               (upd_equeue q (\<lambda>x. x\<lparr>etail := (etail x + 1) mod EVENT_BUFFER_SIZE\<rparr>) s)
      else Some (out, s))"

definition event_queue_read_raw ::
    "('g equeues_scheme psys \<Rightarrow> 'g equeues_scheme psys option) \<Rightarrow> bool \<Rightarrow> ptr \<Rightarrow> u32 \<Rightarrow>
      'g equeues_scheme psys \<Rightarrow> (int \<times> event list \<times> 'g equeues_scheme psys) option" where
  "event_queue_read_raw resume blocking q sz s =
     (if sz < SIZEOF_EVENT then Some (kerr KERROR_INVALID_REQUEST, [], s)
      else map_option (\<lambda>(out, s). (int (length out), out, s)) (read_events_loop resume blocking q sz [] s))"

definition event_queue_read where "event_queue_read resume = event_queue_read_raw resume True"
definition event_queue_read_nonblock where "event_queue_read_nonblock = event_queue_read_raw Some False"

text \<open>
  The older \<^verbatim>\<open>event.c\<close> has one ring of its own with the same code, except that the reading loop never
  advances its destination: every event overwrites the one before.  The caller sees the last one.
\<close>

definition event_read_raw where
  "event_read_raw resume blocking q sz s =
     map_option (\<lambda>(r, out, s). (r, if out = [] then None else Some (last out), s)) (event_queue_read_raw resume blocking q sz s)"

definition event_post where
  "event_post q type code x y s = event_queue_post_root q type code x y s"

end
