(* ===== verification/Event_Queue_Props.thy ===== *)
theory Event_Queue_Props
  imports Event_Queue Scheduler_Props
begin

text \<open>
  An event queue is a bounded first-in first-out queue of 31 events that drops what does not fit, and
  an event that is taken in wakes the first process that waits for one.
\<close>

section \<open>The contents of the ring\<close>

definition event_queue_ok :: "event_queue \<Rightarrow> bool" where
  "event_queue_ok x \<longleftrightarrow> ehead x < EVENT_BUFFER_SIZE \<and> etail x < EVENT_BUFFER_SIZE"

definition events :: "event_queue \<Rightarrow> event list" where
  "events x = map (\<lambda>i. ebuf x ((etail x + i) mod EVENT_BUFFER_SIZE)) [0..<(ehead x + EVENT_BUFFER_SIZE - etail x) mod EVENT_BUFFER_SIZE]"

lemma ring_indices:
  assumes "h < (32 :: nat)" "t < 32"
  shows "h = t \<longleftrightarrow> (h + 32 - t) mod 32 = 0"
    and "(h + 1) mod 32 = t \<longleftrightarrow> (h + 32 - t) mod 32 = 31"
    and "(h + 1) mod 32 \<noteq> t \<Longrightarrow> ((h + 1) mod 32 + 32 - t) mod 32 = Suc ((h + 32 - t) mod 32)"
    and "h \<noteq> t \<Longrightarrow> (h + 32 - t) mod 32 = Suc ((h + 32 - (t + 1) mod 32) mod 32)"
    and "(t + (h + 32 - t) mod 32) mod 32 = h"
    and "i < (h + 32 - t) mod 32 \<Longrightarrow> (t + i) mod 32 \<noteq> h"
proof -
  have d: "(h + 32 - t) mod 32 = (if t \<le> h then h - t else h + 32 - t)" if "h < 32" "t < 32" for h t :: nat
    using that by (auto simp: mod_if)
  have s: "(h + 1) mod 32 = (if h = 31 then 0 else h + 1)" if "h < 32" for h :: nat
    using that by auto
  note e = d [OF assms] s [OF assms(1)] s [OF assms(2)]
  show "h = t \<longleftrightarrow> (h + 32 - t) mod 32 = 0" "(h + 1) mod 32 = t \<longleftrightarrow> (h + 32 - t) mod 32 = 31"
    using assms unfolding e by auto
  show "((h + 1) mod 32 + 32 - t) mod 32 = Suc ((h + 32 - t) mod 32)" if "(h + 1) mod 32 \<noteq> t"
    using that assms d [of "(h + 1) mod 32" t] unfolding e by (auto split: if_splits)
  show "(h + 32 - t) mod 32 = Suc ((h + 32 - (t + 1) mod 32) mod 32)" if "h \<noteq> t"
  proof (cases "t = 31")
    case True
    then show ?thesis using that assms by simp
  next
    case False
    then have "t + 1 < 32" using assms by simp
    then have "(t + 1) mod 32 = t + 1" by simp
    with d [OF assms(1) \<open>t + 1 < 32\<close>] d [OF assms] that assms False show ?thesis by (cases "t \<le> h") auto
  qed
  show "(t + (h + 32 - t) mod 32) mod 32 = h" using assms unfolding e by (auto simp: mod_if)
  show "(t + i) mod 32 \<noteq> h" if "i < (h + 32 - t) mod 32"
  proof -
    have "i < 32" using that mod_less_divisor [of 32] by (meson less_trans zero_less_numeral)
    then have "(t + i) mod 32 = (if t + i < 32 then t + i else t + i - 32)" using assms(2) by (simp add: mod_if)
    then show ?thesis using that assms unfolding e by (cases "t \<le> h"; cases "t + i < 32") auto
  qed
qed

lemma events_empty: "event_queue_ok x \<Longrightarrow> ehead x = etail x \<longleftrightarrow> events x = []"
  using ring_indices(1) [of "ehead x" "etail x"] by (simp add: event_queue_ok_def events_def EVENT_BUFFER_SIZE_def)

lemma events_full: "event_queue_ok x \<Longrightarrow> (ehead x + 1) mod EVENT_BUFFER_SIZE = etail x \<longleftrightarrow> length (events x) = 31"
  using ring_indices(2) [of "ehead x" "etail x"] by (simp add: event_queue_ok_def events_def EVENT_BUFFER_SIZE_def)

lemma events_put:
  assumes "event_queue_ok x" "length (events x) \<noteq> 31"
  shows "events (x\<lparr>ebuf := (ebuf x)(ehead x := e), ehead := (ehead x + 1) mod EVENT_BUFFER_SIZE\<rparr>) = events x @ [e]"
proof -
  have b: "ehead x < 32" "etail x < 32" using assms(1) by (simp_all add: event_queue_ok_def EVENT_BUFFER_SIZE_def)
  have "(ehead x + 1) mod 32 \<noteq> etail x" using assms events_full by (simp add: EVENT_BUFFER_SIZE_def)
  note r = ring_indices(3) [OF b this] ring_indices(5) [OF b] ring_indices(6) [OF b]
  show ?thesis using r by (auto simp: events_def EVENT_BUFFER_SIZE_def)
qed

lemma events_take:
  assumes "event_queue_ok x" "events x \<noteq> []"
  shows "ebuf x (etail x) = hd (events x)"
    and "events (x\<lparr>etail := (etail x + 1) mod EVENT_BUFFER_SIZE\<rparr>) = tl (events x)"
proof -
  have b: "ehead x < 32" "etail x < 32" using assms(1) by (simp_all add: event_queue_ok_def EVENT_BUFFER_SIZE_def)
  have "ehead x \<noteq> etail x" using assms events_empty by simp
  note r = ring_indices(4) [OF b this]
  have u: "[0..<Suc n] = 0 # map Suc [0..<n]" for n by (simp add: upt_conv_Cons map_Suc_upt)
  have m: "(Suc (etail x) mod 32 + i) mod 32 = Suc (etail x + i) mod 32" for i by presburger
  show "ebuf x (etail x) = hd (events x)"
    and "events (x\<lparr>etail := (etail x + 1) mod EVENT_BUFFER_SIZE\<rparr>) = tl (events x)"
    using b unfolding events_def EVENT_BUFFER_SIZE_def r u by (simp_all add: m comp_def)
qed

lemma event_queue_ok_upd:
  assumes "event_queue_ok x"
  shows "event_queue_ok (x\<lparr>ebuf := f, ehead := (ehead x + 1) mod EVENT_BUFFER_SIZE\<rparr>)"
    "event_queue_ok (x\<lparr>etail := (etail x + 1) mod EVENT_BUFFER_SIZE\<rparr>)" "event_queue_ok (x\<lparr>overflow_count := n\<rparr>)"
  using assms by (simp_all add: event_queue_ok_def EVENT_BUFFER_SIZE_def)

lemma events_length: "length (events x) \<le> 31"
  by (simp add: events_def EVENT_BUFFER_SIZE_def flip: less_Suc_eq_le)

lemma upd_equeue_simps [simp]:
  "lh (upd_equeue q f s) = lh s" "current (upd_equeue q f s) = current s" "procs (upd_equeue q f s) = procs s"
  "equeue (kobjs (upd_equeue q f s)) q = f (equeue (kobjs s) q)"
  "r \<noteq> q \<Longrightarrow> equeue (kobjs (upd_equeue q f s)) r = equeue (kobjs s) r"
  by (simp_all add: upd_equeue_def)

lemma wakeup_kobjs:
  assumes "process_wakeup q s = Some s'"
  shows "kobjs s' = kobjs s"
  using assms
  by (auto simp: process_wakeup_def make_ready_def on_lists_def pop_list_def upd_proc_def split: bind_splits if_splits prod.splits)

section \<open>The bounded queue\<close>

text \<open>The queue as a list of events, the number of dropped events, and the queues of processes.\<close>

type_synonym aevents = "event list \<times> int \<times> (ptr \<Rightarrow> ptr list)"

fun a_post :: "ptr \<Rightarrow> event \<Rightarrow> aevents \<Rightarrow> aevents" where
  "a_post q e (es, n, Q) = (if length es = 31 then (es, i32 (n + 1), Q) else (es @ [e], n, a_wakeup q Q))"

definition holds :: "ptr \<Rightarrow> aevents \<Rightarrow> 'g equeues_scheme psys \<Rightarrow> bool" where
  "holds q a s \<longleftrightarrow> (case a of (es, n, Q) \<Rightarrow> sched_ok s Q \<and> event_queue_ok (equeue (kobjs s) q) \<and>
     events (equeue (kobjs s) q) = es \<and> overflow_count (equeue (kobjs s) q) = n)"

lemma post_holds:
  assumes "holds q a s" "wait_list q"
  shows "\<exists>s'. event_queue_post q e s = Some s' \<and> holds q (a_post q e a) s' \<and> current s' = current s \<and>
    (\<forall>r. r \<noteq> q \<longrightarrow> equeue (kobjs s') r = equeue (kobjs s) r)"
proof -
  obtain es n Q where a: "a = (es, n, Q)" by (cases a) auto
  let ?x = "equeue (kobjs s) q"
  have x: "sched_ok s Q" "event_queue_ok ?x" "events ?x = es" "overflow_count ?x = n"
    using assms(1) by (simp_all add: holds_def a)
  show ?thesis
  proof (cases "length es = 31")
    case True
    have "sched_ok (upd_equeue q f s) Q" for f by (rule sched_ok_cong [OF x(1)]) simp_all
    then show ?thesis using True x events_full [OF x(2)]
      by (simp add: event_queue_post_def Let_def holds_def a event_queue_ok_def) (simp add: events_def)
  next
    case False
    let ?u = "upd_equeue q (\<lambda>x. x\<lparr>ebuf := (ebuf x)(ehead x := e), ehead := (ehead ?x + 1) mod EVENT_BUFFER_SIZE\<rparr>) s"
    have "sched_ok ?u Q" by (rule sched_ok_cong [OF x(1)]) simp_all
    from wakeup_ok [OF this assms(2)] obtain s' where s': "process_wakeup q ?u = Some s'" "sched_ok s' (a_wakeup q Q)"
      "current s' = current s" by auto
    have "event_queue_post q e s = Some s'"
      using False events_full [OF x(2)] x(3) s'(1) by (simp add: event_queue_post_def Let_def)
    then show ?thesis using s' wakeup_kobjs [OF s'(1)] events_put [OF x(2), of e] event_queue_ok_upd(1) [OF x(2)] False x
      by (simp add: holds_def a)
  qed
qed

lemma read_loop_holds:
  assumes "holds q (es, n, Q) s"
  shows "\<exists>s'. read_events_loop resume False q sz out s = Some (out @ take (unat sz div 8) es, s') \<and>
    holds q (drop (unat sz div 8) es, n, Q) s' \<and> current s' = current s \<and>
    (\<forall>r. r \<noteq> q \<longrightarrow> equeue (kobjs s') r = equeue (kobjs s) r)"
  using assms
proof (induction es arbitrary: sz out s)
  case Nil
  then have "ehead (equeue (kobjs s) q) = etail (equeue (kobjs s) q)" using events_empty by (simp add: holds_def)
  then show ?case using Nil by (subst read_events_loop.simps) simp
next
  case (Cons e es)
  let ?x = "equeue (kobjs s) q"
  show ?case
  proof (cases "SIZEOF_EVENT \<le> sz")
    case False
    then have "unat sz div 8 = 0" by (simp add: SIZEOF_EVENT_def word_le_nat_alt)
    then show ?thesis using False Cons.prems by (subst read_events_loop.simps) simp
  next
    case True
    then have u: "unat sz div 8 = Suc (unat (sz - SIZEOF_EVENT) div 8)"
      by (simp add: SIZEOF_EVENT_def word_le_nat_alt unat_sub le_div_geq)
    have x: "event_queue_ok ?x" "events ?x = e # es" using Cons.prems by (simp_all add: holds_def)
    let ?s = "upd_equeue q (\<lambda>x. x\<lparr>etail := (etail x + 1) mod EVENT_BUFFER_SIZE\<rparr>) s"
    have "sched_ok s Q" using Cons.prems by (simp add: holds_def)
    from sched_ok_cong [OF this, of ?s] have "sched_ok ?s Q" by simp
    then have "holds q (es, n, Q) ?s"
      using Cons.prems events_take [OF x(1)] event_queue_ok_upd(2) [OF x(1)] x by (simp add: holds_def)
    from Cons.IH [OF this, of "sz - SIZEOF_EVENT" "out @ [e]"] show ?thesis
      using True x events_take(1) [OF x(1)] events_empty [OF x(1)] u by (subst read_events_loop.simps) (simp add: Let_def)
  qed
qed

lemma read_holds:
  assumes "holds q (es, n, Q) s"
  shows "\<exists>s'. event_queue_read_nonblock q sz s =
      Some (if sz < SIZEOF_EVENT then kerr KERROR_INVALID_REQUEST else int (min (unat sz div 8) (length es)), take (unat sz div 8) es, s') \<and>
    holds q (drop (unat sz div 8) es, n, Q) s' \<and> current s' = current s \<and>
    (\<forall>r. r \<noteq> q \<longrightarrow> equeue (kobjs s') r = equeue (kobjs s) r)"
proof (cases "sz < SIZEOF_EVENT")
  case True
  then have "unat sz div 8 = 0" by (simp add: SIZEOF_EVENT_def word_less_nat_alt)
  then show ?thesis using True assms by (simp add: event_queue_read_nonblock_def event_queue_read_raw_def)
next
  case False
  obtain s' where s': "read_events_loop Some False q sz [] s = Some (take (unat sz div 8) es, s')"
    "holds q (drop (unat sz div 8) es, n, Q) s'" "current s' = current s"
    "\<forall>r. r \<noteq> q \<longrightarrow> equeue (kobjs s') r = equeue (kobjs s) r"
    using read_loop_holds [OF assms, of Some sz "[]"] by auto
  then have "event_queue_read_nonblock q sz s = Some (int (min (unat sz div 8) (length es)), take (unat sz div 8) es, s')"
    using False by (simp add: event_queue_read_nonblock_def event_queue_read_raw_def min.commute)
  with s' False show ?thesis by simp
qed

section \<open>Properties\<close>

text \<open>A sequence of posts by interrupts and of reads without waiting, with the results of the reads.\<close>

datatype event_op = Post event | Read u32

fun run_ops :: "ptr \<Rightarrow> event_op list \<Rightarrow> 'g equeues_scheme psys \<Rightarrow> ((int \<times> event list) list \<times> 'g equeues_scheme psys) option" where
  "run_ops q [] s = Some ([], s)"
| "run_ops q (Post e # ops) s = do { s \<leftarrow> event_queue_post q e s; run_ops q ops s }"
| "run_ops q (Read sz # ops) s = do {
     (r, es, s) \<leftarrow> event_queue_read_nonblock q sz s;
     (out, s) \<leftarrow> run_ops q ops s;
     Some ((r, es) # out, s)
   }"

fun a_run :: "ptr \<Rightarrow> event_op list \<Rightarrow> aevents \<Rightarrow> (int \<times> event list) list \<times> aevents" where
  "a_run q [] a = ([], a)"
| "a_run q (Post e # ops) a = a_run q ops (a_post q e a)"
| "a_run q (Read sz # ops) (es, n, Q) =
     (let k = unat sz div 8; (out, a) = a_run q ops (drop k es, n, Q) in
      ((if k = 0 then kerr KERROR_INVALID_REQUEST else int (min k (length es)), take k es) # out, a))"

text \<open>Claim C33.  An event queue is a bounded queue of 31 events: posts append, or count an overflow when the
  queue is full, and wake one waiting process; reads return the oldest events, as many as fit in the
  buffer, and reject a buffer smaller than an event.  Sequences of them never fault and keep the scheduler
  in order.\<close>

theorem event_queue_refines_bounded_fifo:
  assumes "holds q a s" "wait_list q"
  shows "\<exists>s'. run_ops q ops s = Some (fst (a_run q ops a), s') \<and> holds q (snd (a_run q ops a)) s' \<and>
    current s' = current s \<and> (\<forall>r. r \<noteq> q \<longrightarrow> equeue (kobjs s') r = equeue (kobjs s) r)"
  using assms
proof (induction q ops a arbitrary: s rule: a_run.induct)
  case (2 q e ops a)
  from post_holds [OF 2(2,3)] obtain s1 where s1: "event_queue_post q e s = Some s1" "holds q (a_post q e a) s1"
    "current s1 = current s" "\<forall>r. r \<noteq> q \<longrightarrow> equeue (kobjs s1) r = equeue (kobjs s) r" by blast
  from 2(1) [OF s1(2) 2(3)] s1 show ?case by auto
next
  case (3 q sz ops es n Q)
  let ?k = "unat sz div 8"
  from read_holds [OF 3(2), of sz] obtain s1 where s1: "event_queue_read_nonblock q sz s =
      Some (if sz < SIZEOF_EVENT then kerr KERROR_INVALID_REQUEST else int (min ?k (length es)), take ?k es, s1)"
    "holds q (drop ?k es, n, Q) s1" "current s1 = current s" "\<forall>r. r \<noteq> q \<longrightarrow> equeue (kobjs s1) r = equeue (kobjs s) r"
    by blast
  have "sz < SIZEOF_EVENT \<longleftrightarrow> ?k = 0" by (simp add: SIZEOF_EVENT_def word_less_nat_alt div_eq_0_iff)
  with 3(1) [OF refl s1(2) 3(3)] s1 show ?case by (auto simp: Let_def split: prod.splits)
qed simp

text \<open>The kernel of the scheduler's sample with one empty event queue at address 9.\<close>

definition with_objects :: "'k psys \<Rightarrow> 'g \<Rightarrow> 'g psys" where
  "with_objects s k = \<lparr>lh = lh s, procs = procs s, current = current s, process_table = process_table s, last_pid = last_pid s,
     kmem = kmem s, cpu = cpu s, cr3 = cr3 s, interrupt_stack_pointer = interrupt_stack_pointer s,
     allow_preempt = allow_preempt s, mem = mem s, boot = boot s, kobjs = k\<rparr>"

lemma with_objects_ok: "sched_ok (with_objects s k) Q = sched_ok s Q"
  by (simp add: sched_ok_def queues_def with_objects_def)

definition sample_events :: "equeues psys" where
  "sample_events = with_objects sample_kernel
     \<lparr>equeue = (\<lambda>_. \<lparr>ebuf = (\<lambda>_. zero_event), ehead = 0, etail = 0, overflow_count = 0\<rparr>)\<rparr>"

lemma sample_events_holds: "holds 9 ([], 0, \<lambda>_. []) sample_events"
proof -
  have "kobjs sample_events = \<lparr>equeue = (\<lambda>_. \<lparr>ebuf = (\<lambda>_. zero_event), ehead = 0, etail = 0, overflow_count = 0\<rparr>)\<rparr>"
    by (simp add: sample_events_def with_objects_def)
  moreover have "sched_ok sample_events (\<lambda>_. [])" unfolding sample_events_def with_objects_ok by (rule sample_kernel_ok)
  ultimately show ?thesis by (simp add: holds_def event_queue_ok_def events_def EVENT_BUFFER_SIZE_def)
qed

theorem event_queue_refines_bounded_fifo_witness:
  "\<exists>s'. run_ops 9 [Post zero_event, Read 4, Read 16] sample_events = Some ([(kerr KERROR_INVALID_REQUEST, []), (1, [zero_event])], s')"
proof -
  have "wait_list 9" by (simp add: wait_list_def ready_list_def grave_list_def)
  from event_queue_refines_bounded_fifo [OF sample_events_holds this, of "[Post zero_event, Read 4, Read 16]"]
  show ?thesis by (auto simp: Let_def)
qed

end
