(* ===== verification/Keyboard.thy ===== *)
theory Keyboard
  imports Event_Queue
begin

text \<open>
  The input devices: the keyboard, \<^verbatim>\<open>kernel/keyboard.c\<close> with the table of \<^verbatim>\<open>kernel/keymap.us.pc.c\<close>, and the
  mouse, \<^verbatim>\<open>kernel/mouse.c\<close>.  The bytes that the interrupt handlers read from the data port are
  arguments.  The modes are \<^verbatim>\<open>int\<close>s that hold 0 or 1, and are truth values here.
\<close>

section \<open>The table of keys\<close>

text \<open>The codes of \<^verbatim>\<open>include/kernel/ascii.h\<close> that the handlers name.\<close>

definition ASCII_DEL :: u8 where "ASCII_DEL = 127"
definition KEY_UP :: u8 where "KEY_UP = 134"
definition KEY_DOWN :: u8 where "KEY_DOWN = 135"
definition KEY_LEFT :: u8 where "KEY_LEFT = 136"
definition KEY_RIGHT :: u8 where "KEY_RIGHT = 137"
definition KEY_INVALID :: u8 where "KEY_INVALID = 255"

definition KEYMAP_SHIFT :: u8 where "KEYMAP_SHIFT = 1"
definition KEYMAP_ALT :: u8 where "KEYMAP_ALT = 2"
definition KEYMAP_CTRL :: u8 where "KEYMAP_CTRL = 3"
definition KEYMAP_CAPSLOCK :: u8 where "KEYMAP_CAPSLOCK = 4"
definition KEYMAP_NUMLOCK :: u8 where "KEYMAP_NUMLOCK = 5"
definition KEYMAP_ALPHA :: u8 where "KEYMAP_ALPHA = 6"
definition KEYMAP_NUMPAD :: u8 where "KEYMAP_NUMPAD = 8"

definition KEYCODE_EXTRA :: u8 where "KEYCODE_EXTRA = 0xE0"
definition KEYCODE_UP :: u8 where "KEYCODE_UP = 0x48"
definition KEYCODE_DOWN :: u8 where "KEYCODE_DOWN = 0x42"
definition KEYCODE_LEFT :: u8 where "KEYCODE_LEFT = 0x4B"
definition KEYCODE_RIGHT :: u8 where "KEYCODE_RIGHT = 0x4D"

text \<open>A row has the code of the plain key, with shift, with control, and the special class.\<close>

record keymap_entry =
  normal :: u8
  shifted :: u8
  ctrled :: u8
  special :: u8

definition keymap_rows :: "(u8 \<times> u8 \<times> u8 \<times> u8) list" where
  "keymap_rows =
    [(255, 255, 255, 0), (27, 27, 0, 0), (49, 33, 49, 0), (50, 64, 50, 0), (51, 35, 51, 0),
     (52, 36, 52, 0), (53, 37, 53, 0), (54, 94, 54, 0), (55, 38, 55, 0), (56, 42, 56, 0),
     (57, 40, 57, 0), (48, 41, 48, 0), (45, 95, 45, 0), (61, 43, 61, 0), (8, 8, 8, 0),
     (9, 9, 9, 0), (113, 81, 17, 6), (119, 87, 23, 6), (101, 69, 5, 6), (114, 82, 18, 6),
     (116, 84, 20, 6), (121, 89, 25, 6), (117, 85, 21, 6), (105, 73, 9, 6), (111, 79, 15, 6),
     (112, 80, 16, 6), (91, 123, 91, 0), (93, 125, 93, 0), (13, 13, 13, 0), (255, 255, 255, 3),
     (97, 65, 1, 6), (115, 83, 19, 6), (100, 68, 4, 6), (102, 70, 6, 6), (103, 71, 7, 6),
     (104, 72, 8, 6), (106, 74, 10, 6), (107, 75, 11, 6), (108, 76, 12, 6), (59, 58, 59, 0),
     (39, 34, 39, 0), (96, 126, 96, 0), (255, 255, 255, 1), (92, 124, 92, 0), (122, 90, 26, 6),
     (120, 88, 24, 6), (99, 67, 3, 6), (118, 86, 22, 6), (98, 66, 2, 6), (110, 78, 14, 6),
     (109, 77, 13, 6), (44, 60, 44, 0), (46, 62, 46, 0), (47, 63, 47, 0), (255, 255, 255, 1),
     (42, 42, 42, 0), (255, 255, 255, 2), (32, 32, 32, 0), (255, 255, 255, 4), (255, 255, 255, 0),
     (255, 255, 255, 0), (255, 255, 255, 0), (255, 255, 255, 0), (255, 255, 255, 0), (255, 255, 255, 0),
     (255, 255, 255, 0), (255, 255, 255, 0), (255, 255, 255, 0), (255, 255, 255, 0), (255, 255, 255, 5),
     (255, 255, 255, 0), (130, 55, 55, 8), (134, 56, 56, 8), (132, 57, 57, 8), (45, 45, 45, 8),
     (136, 52, 52, 8), (53, 53, 53, 8), (137, 54, 54, 8), (43, 43, 43, 8), (131, 49, 49, 8),
     (135, 50, 50, 8), (133, 51, 51, 8), (255, 255, 255, 0), (127, 127, 127, 0), (13, 13, 13, 0),
     (255, 255, 255, 0), (255, 255, 255, 0), (255, 255, 255, 0), (255, 255, 255, 0), (255, 255, 255, 0),
     (255, 255, 255, 0), (255, 255, 255, 0), (255, 255, 255, 0), (255, 255, 255, 0), (255, 255, 255, 0),
     (255, 255, 255, 0), (255, 255, 255, 0), (255, 255, 255, 0), (255, 255, 255, 0), (255, 255, 255, 0),
     (255, 255, 255, 0), (255, 255, 255, 0), (255, 255, 255, 0), (255, 255, 255, 0), (255, 255, 255, 0),
     (255, 255, 255, 0), (255, 255, 255, 0), (255, 255, 255, 0), (255, 255, 255, 0), (255, 255, 255, 0),
     (255, 255, 255, 0), (255, 255, 255, 0), (255, 255, 255, 0), (255, 255, 255, 0), (255, 255, 255, 0),
     (255, 255, 255, 0), (255, 255, 255, 0), (255, 255, 255, 0), (255, 255, 255, 0), (255, 255, 255, 0),
     (255, 255, 255, 0), (255, 255, 255, 0), (255, 255, 255, 0), (255, 255, 255, 0), (255, 255, 255, 0),
     (255, 255, 255, 0), (255, 255, 255, 0), (255, 255, 255, 0)]"

definition keymap :: "nat \<Rightarrow> keymap_entry" where
  "keymap i = (case keymap_rows ! i of (n, s, c, p) \<Rightarrow> \<lparr>normal = n, shifted = s, ctrled = c, special = p\<rparr>)"

section \<open>The keyboard interrupt\<close>

record keyboard =
  shift_mode :: bool
  alt_mode :: bool
  ctrl_mode :: bool
  capslock_mode :: bool
  numlock_mode :: bool
  expect_extra :: bool

datatype key_action = Nothing | Key u16 u8 | Reboot

definition key_code :: "keyboard \<Rightarrow> keymap_entry \<Rightarrow> u8" where
  "key_code kb k =
     (if capslock_mode kb then (if special k = KEYMAP_ALPHA \<and> \<not> shift_mode kb then shifted k else normal k)
      else if numlock_mode kb then (if special k = KEYMAP_NUMPAD \<and> \<not> shift_mode kb then shifted k else normal k)
      else if shift_mode kb then shifted k
      else if ctrl_mode kb then ctrled k
      else normal k)"

text \<open>The action of \<^verbatim>\<open>keyboard_interrupt_l2\<close>: at most one event, or a reboot.\<close>

definition keyboard_interrupt_l2 :: "u8 \<Rightarrow> keyboard \<Rightarrow> key_action \<times> keyboard" where
  "keyboard_interrupt_l2 code kb =
     (let (direction, event, code) = (if code AND 0x80 \<noteq> 0 then (False, EVENT_KEY_UP, code AND 0x7f) else (True, EVENT_KEY_DOWN, code));
          k = keymap (unat code) in
      if special k = KEYMAP_SHIFT then (Nothing, kb\<lparr>shift_mode := direction\<rparr>)
      else if special k = KEYMAP_ALT then (Nothing, kb\<lparr>alt_mode := direction\<rparr>)
      else if special k = KEYMAP_CTRL then (Nothing, kb\<lparr>ctrl_mode := direction\<rparr>)
      else if special k = KEYMAP_CAPSLOCK then
        (Nothing, if \<not> direction then kb\<lparr>capslock_mode := \<not> capslock_mode kb\<rparr> else kb)
      else if special k = KEYMAP_NUMLOCK then
        (Nothing, if \<not> direction then kb\<lparr>numlock_mode := \<not> numlock_mode kb\<rparr> else kb)
      else if direction \<and> ctrl_mode kb \<and> alt_mode kb \<and> normal k = ASCII_DEL then (Reboot, kb)
      else (Key event (key_code kb k), kb))"

definition keyboard_decode :: "u8 \<Rightarrow> keyboard \<Rightarrow> key_action \<times> keyboard" where
  "keyboard_decode code kb =
     (if code = KEYCODE_EXTRA then (Nothing, kb\<lparr>expect_extra := True\<rparr>)
      else if expect_extra kb then
        let kb = kb\<lparr>expect_extra := False\<rparr> in
        if code = KEYCODE_UP then keyboard_interrupt_l2 KEY_UP kb
        else if code = KEYCODE_DOWN then keyboard_interrupt_l2 KEY_DOWN kb
        else if code = KEYCODE_LEFT then keyboard_interrupt_l2 KEY_LEFT kb
        else if code = KEYCODE_RIGHT then keyboard_interrupt_l2 KEY_RIGHT kb
        else (Nothing, kb)
      else keyboard_interrupt_l2 code kb)"

text \<open>A key code is a \<^verbatim>\<open>char\<close>, which is signed: codes from 128 on arrive in the event with sixteen bits set.
  A reboot does not return.\<close>

definition keyboard_interrupt :: "ptr \<Rightarrow> u8 \<Rightarrow> keyboard \<Rightarrow> 'g equeues_scheme psys \<Rightarrow> (keyboard \<times> 'g equeues_scheme psys) option" where
  "keyboard_interrupt root code kb s =
     (case keyboard_decode code kb of
        (Nothing, kb) \<Rightarrow> Some (kb, s)
      | (Key event c, kb) \<Rightarrow> map_option (\<lambda>s. (kb, s)) (event_queue_post_root root event (scast c) 0 0 s)
      | (Reboot, kb) \<Rightarrow> None)"

section \<open>The mouse\<close>

text \<open>The coordinates are \<^verbatim>\<open>uint16_t\<close>; what the third and second byte add is cut to sixteen bits.
  The screen size is that of the boot code.  The code after the early return is dead.\<close>

record mouse_state =
  buttons :: u8
  mouse_x :: u16
  mouse_y :: u16

definition mouse_delta :: "bool \<Rightarrow> u8 \<Rightarrow> u16" where
  "mouse_delta negative m = (if negative then ucast (0xffffff00 OR ucast m :: u32) else ucast m)"

definition mouse_interrupt :: "u16 \<Rightarrow> u16 \<Rightarrow> u8 \<Rightarrow> u8 \<Rightarrow> u8 \<Rightarrow> mouse_state \<Rightarrow> mouse_state" where
  "mouse_interrupt xres yres m1 m2 m3 st =
     (let x = mouse_x st + mouse_delta (m1 AND 0x10 \<noteq> 0) m2;
          y = mouse_y st - mouse_delta (m1 AND 0x20 \<noteq> 0) m3 in
      \<lparr>buttons = m1 AND 0x03, mouse_x = (if xres \<le> x then xres - 1 else x), mouse_y = (if yres \<le> y then yres - 1 else y)\<rparr>)"

section \<open>Properties\<close>

definition scan :: "u8 list \<Rightarrow> keyboard \<Rightarrow> keyboard" where
  "scan codes kb = fold (\<lambda>c kb. snd (keyboard_decode c kb)) codes kb"

definition released :: "u8 \<Rightarrow> bool" where "released c \<longleftrightarrow> c AND 0x80 \<noteq> 0"
definition key_class :: "u8 \<Rightarrow> u8" where "key_class c = special (keymap (unat (c AND 0x7f)))"

text \<open>Whether the key of a class is down after a history, when it was \<open>b\<close> before.\<close>

definition held :: "u8 \<Rightarrow> bool \<Rightarrow> u8 list \<Rightarrow> bool" where
  "held p b codes = (case find (\<lambda>c. key_class c = p) (rev codes) of None \<Rightarrow> b | Some c \<Rightarrow> \<not> released c)"

definition toggled :: "u8 \<Rightarrow> bool \<Rightarrow> u8 list \<Rightarrow> bool" where
  "toggled p b codes \<longleftrightarrow> b \<noteq> odd (length (filter (\<lambda>c. key_class c = p \<and> released c) codes))"

lemma low_code:
  assumes "\<not> released c"
  shows "c AND 0x7f = c"
proof (rule bit_word_eqI)
  fix n :: nat assume "n < LENGTH(8)"
  then have n: "n \<in> {0, 1, 2, 3, 4, 5, 6, 7}" by auto
  have "bit (c AND 0x80) 7 \<longleftrightarrow> bit c 7" by (simp add: bit_and_iff)
  then have "\<not> bit c 7" using assms by (auto simp: released_def)
  with n show "bit (c AND 0x7f) n \<longleftrightarrow> bit c n" by (auto simp: bit_and_iff)
qed

lemma interrupt_modes:
  "snd (keyboard_interrupt_l2 c kb) =
     (let d = \<not> released c; p = key_class c in
      if p = KEYMAP_SHIFT then kb\<lparr>shift_mode := d\<rparr>
      else if p = KEYMAP_ALT then kb\<lparr>alt_mode := d\<rparr>
      else if p = KEYMAP_CTRL then kb\<lparr>ctrl_mode := d\<rparr>
      else if p = KEYMAP_CAPSLOCK then (if d then kb else kb\<lparr>capslock_mode := \<not> capslock_mode kb\<rparr>)
      else if p = KEYMAP_NUMLOCK then (if d then kb else kb\<lparr>numlock_mode := \<not> numlock_mode kb\<rparr>)
      else kb)"
proof (cases "released c")
  case True
  then show ?thesis unfolding keyboard_interrupt_l2_def key_class_def Let_def released_def
    by (simp split del: if_split cong: if_cong add: if_distrib [of snd])
next
  case False
  then show ?thesis using low_code [OF False] unfolding keyboard_interrupt_l2_def key_class_def Let_def released_def
    by (simp split del: if_split cong: if_cong add: if_distrib [of snd])
qed

lemma class_distinct [simp]:
  "KEYMAP_SHIFT \<noteq> KEYMAP_ALT" "KEYMAP_SHIFT \<noteq> KEYMAP_CTRL" "KEYMAP_SHIFT \<noteq> KEYMAP_CAPSLOCK" "KEYMAP_SHIFT \<noteq> KEYMAP_NUMLOCK"
  "KEYMAP_ALT \<noteq> KEYMAP_CTRL" "KEYMAP_ALT \<noteq> KEYMAP_CAPSLOCK" "KEYMAP_ALT \<noteq> KEYMAP_NUMLOCK"
  "KEYMAP_CTRL \<noteq> KEYMAP_CAPSLOCK" "KEYMAP_CTRL \<noteq> KEYMAP_NUMLOCK" "KEYMAP_CAPSLOCK \<noteq> KEYMAP_NUMLOCK"
  by (simp_all add: KEYMAP_SHIFT_def KEYMAP_ALT_def KEYMAP_CTRL_def KEYMAP_CAPSLOCK_def KEYMAP_NUMLOCK_def)

text \<open>After any history of plain scan codes the modes are what the history says: shift, alt and
  control are on when their last key went down, and capslock and numlock flip with every release.\<close>

theorem keyboard_modes_follow_history:
  assumes "\<not> expect_extra kb" "KEYCODE_EXTRA \<notin> set codes"
  shows "scan codes kb = kb\<lparr>
    shift_mode := held KEYMAP_SHIFT (shift_mode kb) codes, alt_mode := held KEYMAP_ALT (alt_mode kb) codes,
    ctrl_mode := held KEYMAP_CTRL (ctrl_mode kb) codes, capslock_mode := toggled KEYMAP_CAPSLOCK (capslock_mode kb) codes,
    numlock_mode := toggled KEYMAP_NUMLOCK (numlock_mode kb) codes\<rparr>"
  using assms(2)
proof (induction codes rule: rev_induct)
  case Nil
  show ?case by (simp add: scan_def held_def toggled_def)
next
  case (snoc c codes)
  let ?kb = "scan codes kb"
  have "\<not> expect_extra ?kb" using snoc assms(1) by simp
  moreover have "c \<noteq> KEYCODE_EXTRA" using snoc.prems by auto
  moreover have "scan (codes @ [c]) kb = snd (keyboard_decode c ?kb)" by (simp add: scan_def)
  ultimately have "scan (codes @ [c]) kb = snd (keyboard_interrupt_l2 c ?kb)"
    unfolding keyboard_decode_def by simp
  then show ?case using snoc class_distinct
    by (simp add: interrupt_modes Let_def held_def toggled_def)
qed


definition sample_keyboard :: keyboard where
  "sample_keyboard = \<lparr>shift_mode = False, alt_mode = False, ctrl_mode = False, capslock_mode = False, numlock_mode = False,
     expect_extra = False\<rparr>"

lemma keymap_samples: "keymap 42 = \<lparr>normal = 255, shifted = 255, ctrled = 255, special = KEYMAP_SHIFT\<rparr>"
  "keymap 58 = \<lparr>normal = 255, shifted = 255, ctrled = 255, special = KEYMAP_CAPSLOCK\<rparr>"
  "keymap 6 = \<lparr>normal = 53, shifted = 37, ctrled = 53, special = 0\<rparr>"
  "keymap 7 = \<lparr>normal = 54, shifted = 94, ctrled = 54, special = 0\<rparr>"
  "keymap 8 = \<lparr>normal = 55, shifted = 38, ctrled = 55, special = 0\<rparr>"
  "keymap 9 = \<lparr>normal = 56, shifted = 42, ctrled = 56, special = 0\<rparr>"
  by (simp_all add: keymap_def keymap_rows_def KEYMAP_SHIFT_def KEYMAP_CAPSLOCK_def)

text \<open>Shift down, capslock down and up: shift and capslock are on.\<close>

theorem keyboard_modes_follow_history_witness:
  "scan [42, 58, 186] sample_keyboard = sample_keyboard\<lparr>shift_mode := True, capslock_mode := True\<rparr>"
proof -
  have "KEYCODE_EXTRA \<notin> set [42, 58, 186]" "\<not> expect_extra sample_keyboard"
    by (simp_all add: KEYCODE_EXTRA_def sample_keyboard_def)
  from keyboard_modes_follow_history [OF this(2,1)] show ?thesis
    by (simp add: held_def toggled_def key_class_def keymap_samples released_def sample_keyboard_def class_distinct [symmetric])
qed

lemma key_code_cases: "key_code kb k \<in> {normal k, shifted k, ctrled k}"
  by (simp add: key_code_def)

lemma release_of:
  assumes "released c" "unat (c AND 0x7f) = n" "special (keymap n) = 0"
  shows "fst (keyboard_interrupt_l2 c kb) \<in> Key EVENT_KEY_UP ` {normal (keymap n), shifted (keymap n), ctrled (keymap n)}"
  using assms key_code_cases [of kb "keymap n"] unfolding keyboard_interrupt_l2_def released_def Let_def
  by (auto simp: KEYMAP_SHIFT_def KEYMAP_ALT_def KEYMAP_CTRL_def KEYMAP_CAPSLOCK_def KEYMAP_NUMLOCK_def)

text \<open>The arrow keys do not work: after the prefix the handler passes the code of the arrow, not a scan
  code, to the table.  Whatever the modes are, an arrow is reported as the release of one of the keys 5 to 8,
  and never as a press.\<close>

theorem keyboard_arrows_release_digits:
  assumes "expect_extra kb"
  shows "fst (keyboard_decode KEYCODE_UP kb) \<in> {Key EVENT_KEY_UP 53, Key EVENT_KEY_UP 37} \<and>
    fst (keyboard_decode KEYCODE_DOWN kb) \<in> {Key EVENT_KEY_UP 54, Key EVENT_KEY_UP 94} \<and>
    fst (keyboard_decode KEYCODE_LEFT kb) \<in> {Key EVENT_KEY_UP 55, Key EVENT_KEY_UP 38} \<and>
    fst (keyboard_decode KEYCODE_RIGHT kb) \<in> {Key EVENT_KEY_UP 56, Key EVENT_KEY_UP 42}"
proof -
  let ?kb = "kb\<lparr>expect_extra := False\<rparr>"
  have "fst (keyboard_decode KEYCODE_UP kb) = fst (keyboard_interrupt_l2 KEY_UP ?kb)"
    "fst (keyboard_decode KEYCODE_DOWN kb) = fst (keyboard_interrupt_l2 KEY_DOWN ?kb)"
    "fst (keyboard_decode KEYCODE_LEFT kb) = fst (keyboard_interrupt_l2 KEY_LEFT ?kb)"
    "fst (keyboard_decode KEYCODE_RIGHT kb) = fst (keyboard_interrupt_l2 KEY_RIGHT ?kb)"
    using assms by (simp_all add: keyboard_decode_def KEYCODE_UP_def KEYCODE_DOWN_def KEYCODE_LEFT_def KEYCODE_RIGHT_def KEYCODE_EXTRA_def)
  then show ?thesis
    using release_of [of KEY_UP 6 ?kb] release_of [of KEY_DOWN 7 ?kb] release_of [of KEY_LEFT 8 ?kb] release_of [of KEY_RIGHT 9 ?kb]
    by (simp add: KEY_UP_def KEY_DOWN_def KEY_LEFT_def KEY_RIGHT_def released_def keymap_samples) blast
qed

theorem keyboard_arrows_release_digits_witness:
  "fst (keyboard_decode KEYCODE_UP (sample_keyboard\<lparr>expect_extra := True\<rparr>)) \<noteq> Key EVENT_KEY_DOWN 134"
  using keyboard_arrows_release_digits [of "sample_keyboard\<lparr>expect_extra := True\<rparr>"] by (auto simp: EVENT_KEY_UP_def EVENT_KEY_DOWN_def)

text \<open>The mouse stays on the screen, but a move to the left or up beyond the edge puts it at the
  opposite edge, since the coordinates are unsigned and the tests for negative ones never hold.\<close>

theorem mouse_stays_and_wraps:
  assumes "0 < xres" "0 < yres" "xres < 0x8000"
  shows "mouse_x (mouse_interrupt xres yres m1 m2 m3 st) < xres \<and> mouse_y (mouse_interrupt xres yres m1 m2 m3 st) < yres \<and>
    (mouse_x st = 0 \<longrightarrow> mouse_x (mouse_interrupt xres yres 0x10 m2 m3 st) = xres - 1)"
proof -
  have less: "r - 1 < r" if "0 < r" for r :: u16
  proof -
    from that have "r \<noteq> 0" by auto
    with that show ?thesis by (simp add: word_less_nat_alt unat_minus_one unat_gt_0)
  qed
  have "bit (0xffffff00 OR ucast m2 :: u32) 15" by (simp add: bit_or_iff)
  then have "bit (mouse_delta True m2) 15" by (simp add: mouse_delta_def bit_ucast_iff)
  then have "bit (unat (mouse_delta True m2)) 15" by (simp add: bit_unsigned_iff)
  then have "odd (unat (mouse_delta True m2) div 2 ^ 15)" unfolding bit_iff_odd .
  then have "0x8000 \<le> mouse_delta True m2" by (cases "unat (mouse_delta True m2) < 2 ^ 15") (auto simp: word_le_nat_alt)
  then have "xres \<le> mouse_delta True m2" using assms(3) by (meson order_less_le_trans less_imp_le)
  then show ?thesis using less [OF assms(1)] less [OF assms(2)] by (auto simp: mouse_interrupt_def Let_def)
qed

theorem mouse_stays_and_wraps_witness:
  "mouse_x (mouse_interrupt 640 480 0x10 0xff 0 \<lparr>buttons = 0, mouse_x = 0, mouse_y = 0\<rparr>) = 639"
  using mouse_stays_and_wraps [of 640 480 0 "0xff" 0 "\<lparr>buttons = 0, mouse_x = 0, mouse_y = 0\<rparr>"] by simp

end
