(* ===== verification/Graphics.thy ===== *)
theory Graphics
  imports Font
begin

text \<open>
  Drawing: \<^verbatim>\<open>kernel/bitmap.c\<close> and \<^verbatim>\<open>kernel/graphics.c\<close>.  A bitmap is its size and the bytes behind its data
  pointer, by their offset, which wraps like the \<^verbatim>\<open>uint32_t\<close> sums of the source.  The arguments of
  drawing mix \<^verbatim>\<open>int\<close> and \<^verbatim>\<open>uint32_t\<close>: both are \<open>32 word\<close> here, \<open>\<le>\<close> and \<open><\<close> compare them as unsigned
  numbers, and comparisons of two \<^verbatim>\<open>int\<close>s go through \<open>sint\<close>.  Every graphics object shares the bitmap
  of the root, which is passed along.  The reference counts of graphics objects are in the theory of
  windows.
\<close>

section \<open>Bitmaps\<close>

record bitmap =
  width :: u32
  height :: u32
  format :: u32
  bdata :: "u32 \<Rightarrow> u8"

definition BITMAP_FORMAT_RGB :: u32 where "BITMAP_FORMAT_RGB = 0"

text \<open>The video mode and the frame buffer come from the boot code.\<close>

definition bitmap_create_root :: "u16 \<Rightarrow> u16 \<Rightarrow> (u32 \<Rightarrow> u8) \<Rightarrow> bitmap" where
  "bitmap_create_root xres yres video =
     \<lparr>width = ucast xres, height = ucast yres, format = BITMAP_FORMAT_RGB, bdata = video\<rparr>"

section \<open>Colours, clips and pixels\<close>

record graphics_color =
  red :: u8
  green :: u8
  blue :: u8
  alpha :: u8

record graphics_clip =
  clip_x :: u32
  clip_y :: u32
  clip_w :: u32
  clip_h :: u32

record graphics =
  fgcolor :: graphics_color
  bgcolor :: graphics_color
  clip :: graphics_clip

definition color_black :: graphics_color where
  "color_black = \<lparr>red = 0, green = 0, blue = 0, alpha = 0\<rparr>"

definition color_white :: graphics_color where
  "color_white = \<lparr>red = 255, green = 255, blue = 255, alpha = 0\<rparr>"

definition graphics_create_root :: "bitmap \<Rightarrow> graphics" where
  "graphics_create_root b = \<lparr>fgcolor = color_white, bgcolor = color_black,
     clip = \<lparr>clip_x = 0, clip_y = 0, clip_w = width b, clip_h = height b\<rparr>\<rparr>"

definition graphics_width :: "graphics \<Rightarrow> u32" where "graphics_width g = clip_w (clip g)"
definition graphics_height :: "graphics \<Rightarrow> u32" where "graphics_height g = clip_h (clip g)"
definition graphics_fgcolor :: "graphics_color \<Rightarrow> graphics \<Rightarrow> graphics" where "graphics_fgcolor c g = g\<lparr>fgcolor := c\<rparr>"
definition graphics_bgcolor :: "graphics_color \<Rightarrow> graphics \<Rightarrow> graphics" where "graphics_bgcolor c g = g\<lparr>bgcolor := c\<rparr>"

definition graphics_clip :: "bitmap \<Rightarrow> u32 \<Rightarrow> u32 \<Rightarrow> u32 \<Rightarrow> u32 \<Rightarrow> graphics \<Rightarrow> int \<times> graphics" where
  "graphics_clip b x y w h g =
     (if sint x < 0 \<or> sint y < 0 \<or> sint w < 0 \<or> sint h < 0 then (0, g)
      else let x = x + clip_x (clip g); y = y + clip_y (clip g) in
        if width b \<le> x \<or> width b \<le> y then (0, g)
        else if width b \<le> x + w \<or> height b \<le> y + h then (0, g)
        else (1, g\<lparr>clip := \<lparr>clip_x = x, clip_y = y, clip_w = w, clip_h = h\<rparr>\<rparr>))"

definition pixel_offset :: "bitmap \<Rightarrow> u32 \<Rightarrow> u32 \<Rightarrow> u32" where
  "pixel_offset b x y = (width b * y + x) * 3"

definition blend :: "u8 \<Rightarrow> u8 \<Rightarrow> u8 \<Rightarrow> u8" where
  "blend c v a = word_of_int ((uint c * (256 - uint a) + uint v * uint a) div 256)"

definition plot_pixel :: "u32 \<Rightarrow> u32 \<Rightarrow> graphics_color \<Rightarrow> bitmap \<Rightarrow> bitmap" where
  "plot_pixel x y c b =
     (let v = pixel_offset b x y; d = bdata b in
      if alpha c = 0 then b\<lparr>bdata := d(v + 2 := red c, v + 1 := green c, v := blue c)\<rparr>
      else b\<lparr>bdata := d(v := blend (red c) (d v) (alpha c), v + 1 := blend (green c) (d (v + 1)) (alpha c),
                       v + 2 := blend (blue c) (d (v + 2)) (alpha c))\<rparr>)"

section \<open>Rectangles\<close>

text \<open>A loop over an \<^verbatim>\<open>int\<close> counter from 0 while it is below \<open>n\<close>.\<close>

definition for_int :: "u32 \<Rightarrow> (u32 \<Rightarrow> 'a \<Rightarrow> 'a) \<Rightarrow> 'a \<Rightarrow> 'a" where
  "for_int n f = fold (\<lambda>i. f (of_nat i)) [0..<nat (sint n)]"

definition graphics_rect_internal :: "graphics \<Rightarrow> u32 \<Rightarrow> u32 \<Rightarrow> u32 \<Rightarrow> u32 \<Rightarrow> graphics_color \<Rightarrow> bitmap \<Rightarrow> bitmap" where
  "graphics_rect_internal g x y w h c b =
     (let (w, x) = (if sint x < 0 then (w + x, 0) else (w, x));
          (h, y) = (if sint y < 0 then (h + y, 0) else (h, y)) in
      if clip_w (clip g) < x \<or> clip_h (clip g) < y then b
      else let w = min (clip_w (clip g) - x) w; h = min (clip_h (clip g) - y) h;
               x = x + clip_x (clip g); y = y + clip_y (clip g) in
        for_int h (\<lambda>j. for_int w (\<lambda>i. plot_pixel (x + i) (y + j) c)) b)"

definition graphics_rect :: "graphics \<Rightarrow> u32 \<Rightarrow> u32 \<Rightarrow> u32 \<Rightarrow> u32 \<Rightarrow> bitmap \<Rightarrow> bitmap" where
  "graphics_rect g x y w h = graphics_rect_internal g x y w h (fgcolor g)"

definition graphics_clear :: "graphics \<Rightarrow> u32 \<Rightarrow> u32 \<Rightarrow> u32 \<Rightarrow> u32 \<Rightarrow> bitmap \<Rightarrow> bitmap" where
  "graphics_clear g x y w h = graphics_rect_internal g x y w h (bgcolor g)"

section \<open>Lines\<close>

text \<open>
  The loops of the line routines plot before they test.  Their counters stay far from the limits of
  \<^verbatim>\<open>int\<close> after the checks of \<^verbatim>\<open>graphics_line\<close>, and are \<open>int\<close> here; the one of \<open>w\<close> and \<open>h\<close> that a loop
  steps and does not read is left out.
\<close>

definition FACTOR :: int where "FACTOR = 256"

function graphics_line_vert :: "graphics \<Rightarrow> u32 \<Rightarrow> u32 \<Rightarrow> int \<Rightarrow> bitmap \<Rightarrow> bitmap" where
  "graphics_line_vert g x y h b =
     (let b = plot_pixel x y (fgcolor g) b; y = y + 1; h = h - 1 in
      if 0 < h then graphics_line_vert g x y h b else b)"
  by pat_completeness auto
termination by (relation "measure (\<lambda>(g, x, y, h, b). nat h)") auto

function line_q1_loop :: "graphics \<Rightarrow> int \<Rightarrow> u32 \<Rightarrow> u32 \<Rightarrow> int \<Rightarrow> int \<Rightarrow> bitmap \<Rightarrow> bitmap" where
  "line_q1_loop g slope x y h counter b =
     (let b = plot_pixel x y (fgcolor g) b; y = y + 1; h = h - 1; counter = counter + slope;
          (counter, x) = (if FACTOR < counter then (counter - FACTOR, x + 1) else (counter, x)) in
      if 0 < h then line_q1_loop g slope x y h counter b else b)"
  by pat_completeness auto
termination by (relation "measure (\<lambda>(g, slope, x, y, h, c, b). nat h)") auto

definition graphics_line_q1 :: "graphics \<Rightarrow> u32 \<Rightarrow> u32 \<Rightarrow> int \<Rightarrow> int \<Rightarrow> bitmap \<Rightarrow> bitmap" where
  "graphics_line_q1 g x y w h = line_q1_loop g (c_div (FACTOR * w) h) x y h 0"

function line_q2_loop :: "graphics \<Rightarrow> int \<Rightarrow> u32 \<Rightarrow> u32 \<Rightarrow> int \<Rightarrow> int \<Rightarrow> bitmap \<Rightarrow> bitmap" where
  "line_q2_loop g slope x y w counter b =
     (let b = plot_pixel x y (fgcolor g) b; x = x + 1; w = w - 1; counter = counter + slope;
          (counter, y) = (if FACTOR < counter then (counter - FACTOR, y + 1) else (counter, y)) in
      if 0 < w then line_q2_loop g slope x y w counter b else b)"
  by pat_completeness auto
termination by (relation "measure (\<lambda>(g, slope, x, y, w, c, b). nat w)") auto

definition graphics_line_q2 :: "graphics \<Rightarrow> u32 \<Rightarrow> u32 \<Rightarrow> int \<Rightarrow> int \<Rightarrow> bitmap \<Rightarrow> bitmap" where
  "graphics_line_q2 g x y w h = line_q2_loop g (c_div (FACTOR * h) w) x y w 0"

function line_q3_loop :: "graphics \<Rightarrow> int \<Rightarrow> u32 \<Rightarrow> u32 \<Rightarrow> int \<Rightarrow> int \<Rightarrow> bitmap \<Rightarrow> bitmap" where
  "line_q3_loop g slope x y w counter b =
     (let b = plot_pixel x y (fgcolor g) b; x = x + 1; w = w - 1; counter = counter + slope;
          (counter, y) = (if FACTOR < counter then (counter - FACTOR, y - 1) else (counter, y)) in
      if 0 < w then line_q3_loop g slope x y w counter b else b)"
  by pat_completeness auto
termination by (relation "measure (\<lambda>(g, slope, x, y, w, c, b). nat w)") auto

definition graphics_line_q3 :: "graphics \<Rightarrow> u32 \<Rightarrow> u32 \<Rightarrow> int \<Rightarrow> int \<Rightarrow> bitmap \<Rightarrow> bitmap" where
  "graphics_line_q3 g x y w h = line_q3_loop g (c_div (- FACTOR * h) w) x y w 0"

function line_q4_loop :: "graphics \<Rightarrow> int \<Rightarrow> u32 \<Rightarrow> u32 \<Rightarrow> int \<Rightarrow> int \<Rightarrow> bitmap \<Rightarrow> bitmap" where
  "line_q4_loop g slope x y h counter b =
     (let b = plot_pixel x y (fgcolor g) b; y = y - 1; h = h + 1; counter = counter + slope;
          (counter, x) = (if FACTOR < counter then (counter - FACTOR, x + 1) else (counter, x)) in
      if h < 0 then line_q4_loop g slope x y h counter b else b)"
  by pat_completeness auto
termination by (relation "measure (\<lambda>(g, slope, x, y, h, c, b). nat (- h))") auto

definition graphics_line_q4 :: "graphics \<Rightarrow> u32 \<Rightarrow> u32 \<Rightarrow> int \<Rightarrow> int \<Rightarrow> bitmap \<Rightarrow> bitmap" where
  "graphics_line_q4 g x y w h = line_q4_loop g (c_div (- FACTOR * w) h) x y h 0"

function graphics_line_hozo :: "graphics \<Rightarrow> u32 \<Rightarrow> u32 \<Rightarrow> int \<Rightarrow> bitmap \<Rightarrow> bitmap" where
  "graphics_line_hozo g x y w b =
     (let b = plot_pixel x y (fgcolor g) b; x = x + 1; w = w - 1 in
      if 0 < w then graphics_line_hozo g x y w b else b)"
  by pat_completeness auto
termination by (relation "measure (\<lambda>(g, x, y, w, b). nat w)") auto

text \<open>\<^verbatim>\<open>graphics_line\<close> after the reversal of a negative width.\<close>

definition line_forward :: "graphics \<Rightarrow> u32 \<Rightarrow> u32 \<Rightarrow> u32 \<Rightarrow> u32 \<Rightarrow> bitmap \<Rightarrow> bitmap" where
  "line_forward g x y w h b =
     (let cw = clip_w (clip g); ch = clip_h (clip g) in
      if sint x < 0 \<or> sint y < 0 \<or> cw < x \<or> ch < y then b
      else if cw \<le> x + w \<or> ch \<le> y + h \<or> sint (y + h) < 0 then b
      else let x = x + clip_x (clip g); y = y + clip_y (clip g) in
        if 0 < sint h then
          (if w = 0 then graphics_line_vert g x y (sint h) b
           else if sint w < sint h then graphics_line_q1 g x y (sint w) (sint h) b
           else graphics_line_q2 g x y (sint w) (sint h) b)
        else if sint h < 0 then
          (if w = 0 then graphics_line_vert g x (y + h) (- sint h) b
           else if - sint h < sint w then graphics_line_q3 g x y (sint w) (sint h) b
           else graphics_line_q4 g x y (sint w) (sint h) b)
        else graphics_line_hozo g x y (sint w) b)"

definition graphics_line :: "graphics \<Rightarrow> u32 \<Rightarrow> u32 \<Rightarrow> u32 \<Rightarrow> u32 \<Rightarrow> bitmap \<Rightarrow> bitmap" where
  "graphics_line g x y w h b =
     (if sint w < 0 then line_forward g (x + w) (y + h) (- w) (- h) b else line_forward g x y w h b)"

section \<open>Text and scrolling\<close>

definition FONT_WIDTH :: u32 where "FONT_WIDTH = 8"
definition FONT_HEIGHT :: u32 where "FONT_HEIGHT = 8"

text \<open>The loops of \<^verbatim>\<open>graphics_bitmap\<close> step through the bits of the source: \<open>p\<close> is its byte, \<open>k\<close> the bit.\<close>

definition bitmap_step :: "graphics \<Rightarrow> (nat \<Rightarrow> u8) \<Rightarrow> u32 \<Rightarrow> u32 \<Rightarrow> nat \<times> nat \<times> bitmap \<Rightarrow> nat \<times> nat \<times> bitmap" where
  "bitmap_step g src x y = (\<lambda>(p, k, b).
     let b = plot_pixel x y (if bit (src p) (7 - k) then fgcolor g else bgcolor g) b; k = k + 1 in
     if k = 8 then (p + 1, 0, b) else (p, k, b))"

definition graphics_bitmap :: "graphics \<Rightarrow> u32 \<Rightarrow> u32 \<Rightarrow> u32 \<Rightarrow> u32 \<Rightarrow> (nat \<Rightarrow> u8) \<Rightarrow> bitmap \<Rightarrow> bitmap" where
  "graphics_bitmap g x y w h src b =
     (let w = min (clip_w (clip g) - x) w; h = min (clip_h (clip g) - y) h;
          x = x + clip_x (clip g); y = y + clip_y (clip g) in
      snd (snd (for_int h (\<lambda>j. for_int w (\<lambda>i. bitmap_step g src (x + i) (y + j))) (0, 0, b))))"

definition graphics_char :: "graphics \<Rightarrow> u32 \<Rightarrow> u32 \<Rightarrow> u8 \<Rightarrow> bitmap \<Rightarrow> bitmap" where
  "graphics_char g x y c =
     (let u = unat c * 8 * 8 div 8 in graphics_bitmap g x y FONT_WIDTH FONT_HEIGHT (\<lambda>i. fontdata (u + i)))"

text \<open>Rows do not overlap, so \<^verbatim>\<open>memcpy\<close> of a row reads what was there before.\<close>

definition copy_row :: "u32 \<Rightarrow> u32 \<Rightarrow> u32 \<Rightarrow> bitmap \<Rightarrow> bitmap" where
  "copy_row dst src n b = b\<lparr>bdata := \<lambda>a. if a - dst < n then bdata b (src + (a - dst)) else bdata b a\<rparr>"

definition graphics_scrollup :: "graphics \<Rightarrow> u32 \<Rightarrow> u32 \<Rightarrow> u32 \<Rightarrow> u32 \<Rightarrow> u32 \<Rightarrow> bitmap \<Rightarrow> bitmap" where
  "graphics_scrollup g x y w h dy b =
     (let w = min (clip_w (clip g) - x) w; h = min (clip_h (clip g) - y) h;
          x = x + clip_x (clip g); y = y + clip_y (clip g);
          dy = (if sint h < sint dy then h else dy);
          b = for_int (h - dy) (\<lambda>j. copy_row (pixel_offset b x (y + j)) (pixel_offset b x (y + j + dy)) (w * 3)) b in
      graphics_clear g x (y + h - dy) w dy b)"

section \<open>The command stream\<close>

text \<open>
  \<^verbatim>\<open>graphics_write\<close> reads its commands from the memory at \<open>cmd\<close>; \<open>pos\<close> is how far it has advanced.
  A text command of length -4 advances by nothing, so the loop may not end.
\<close>

definition GRAPHICS_FGCOLOR :: u32 where "GRAPHICS_FGCOLOR = 1"
definition GRAPHICS_BGCOLOR :: u32 where "GRAPHICS_BGCOLOR = 2"
definition GRAPHICS_LINE :: u32 where "GRAPHICS_LINE = 3"
definition GRAPHICS_RECT :: u32 where "GRAPHICS_RECT = 4"
definition GRAPHICS_CLEAR :: u32 where "GRAPHICS_CLEAR = 5"
definition GRAPHICS_TEXT :: u32 where "GRAPHICS_TEXT = 6"

definition cmd_color :: "(int \<Rightarrow> u32) \<Rightarrow> int \<Rightarrow> graphics_color" where
  "cmd_color cmd p = \<lparr>red = ucast (cmd (p + 1)), green = ucast (cmd (p + 2)), blue = ucast (cmd (p + 3)), alpha = 0\<rparr>"

definition write_text :: "graphics \<Rightarrow> (int \<Rightarrow> u32) \<Rightarrow> int \<Rightarrow> bitmap \<Rightarrow> bitmap" where
  "write_text g cmd p =
     for_int (cmd (p + 3)) (\<lambda>i. graphics_char g (cmd (p + 1) + i * FONT_WIDTH) (cmd (p + 2)) (ucast (cmd (p + 4 + sint i))))"

definition write_command :: "(int \<Rightarrow> u32) \<Rightarrow> int \<Rightarrow> graphics \<times> bitmap \<Rightarrow> (int \<times> graphics \<times> bitmap) option" where
  "write_command cmd p = (\<lambda>(g, b).
     if cmd p = GRAPHICS_FGCOLOR then Some (4, graphics_fgcolor (cmd_color cmd p) g, b)
     else if cmd p = GRAPHICS_BGCOLOR then Some (4, graphics_bgcolor (cmd_color cmd p) g, b)
     else if cmd p = GRAPHICS_RECT
       then Some (5, g, graphics_rect g (cmd (p + 1)) (cmd (p + 2)) (cmd (p + 3)) (cmd (p + 4)) b)
     else if cmd p = GRAPHICS_CLEAR
       then Some (5, g, graphics_clear g (cmd (p + 1)) (cmd (p + 2)) (cmd (p + 3)) (cmd (p + 4)) b)
     else if cmd p = GRAPHICS_LINE
       then Some (5, g, graphics_line g (cmd (p + 1)) (cmd (p + 2)) (cmd (p + 3)) (cmd (p + 4)) b)
     else if cmd p = GRAPHICS_TEXT then Some (4 + sint (cmd (p + 3)), g, write_text g cmd p b)
     else None)"

partial_function (option) graphics_write_from :: "(int \<Rightarrow> u32) \<Rightarrow> int \<Rightarrow> int \<Rightarrow> graphics \<times> bitmap \<Rightarrow> (int \<times> graphics \<times> bitmap) option" where
  "graphics_write_from cmd p len s =
     (if 0 < len then
        (case write_command cmd p s of None \<Rightarrow> Some (kerr KERROR_INVALID_REQUEST, s)
         | Some (n, s) \<Rightarrow> graphics_write_from cmd (p + n) (len - n) s)
      else Some (0, s))"

definition graphics_write :: "(int \<Rightarrow> u32) \<Rightarrow> int \<Rightarrow> graphics \<times> bitmap \<Rightarrow> (int \<times> graphics \<times> bitmap) option" where
  "graphics_write cmd = graphics_write_from cmd 0"

end
