(* ===== verification/Graphics_Props.thy ===== *)
theory Graphics_Props
  imports Graphics
begin

text \<open>
  What drawing does to the frame buffer: the colours of the pixels after a rectangle, and which
  pixels the other operations can touch.
\<close>

section \<open>Pixels inside the clip\<close>

definition screen_ok :: "bitmap \<Rightarrow> bool" where
  "screen_ok b \<longleftrightarrow> uint (width b) * uint (height b) * 3 \<le> 2 ^ 32 \<and> uint (width b) < 2 ^ 31 \<and> uint (height b) < 2 ^ 31"

definition clip_ok :: "bitmap \<Rightarrow> graphics \<Rightarrow> bool" where
  "clip_ok b g \<longleftrightarrow> uint (clip_x (clip g)) + uint (clip_w (clip g)) \<le> uint (width b) \<and>
     uint (clip_y (clip g)) + uint (clip_h (clip g)) \<le> uint (height b)"

text \<open>The pixels of the clip, with \<open>extra\<close> rows below it.\<close>

definition in_clip :: "graphics \<Rightarrow> int \<Rightarrow> u32 \<Rightarrow> u32 \<Rightarrow> bool" where
  "in_clip g extra x y \<longleftrightarrow>
     uint (clip_x (clip g)) \<le> uint x \<and> uint x < uint (clip_x (clip g)) + uint (clip_w (clip g)) \<and>
     uint (clip_y (clip g)) \<le> uint y \<and> uint y < uint (clip_y (clip g)) + uint (clip_h (clip g)) + extra"

definition pixel_bytes :: "bitmap \<Rightarrow> u32 \<Rightarrow> u32 \<Rightarrow> u32 set" where
  "pixel_bytes b x y = {pixel_offset b x y, pixel_offset b x y + 1, pixel_offset b x y + 2}"

text \<open>The second bitmap differs from the first at most in pixels of \<open>R\<close>.\<close>

definition only :: "(u32 \<Rightarrow> u32 \<Rightarrow> bool) \<Rightarrow> bitmap \<Rightarrow> bitmap \<Rightarrow> bool" where
  "only R b b' \<longleftrightarrow> width b' = width b \<and> height b' = height b \<and> format b' = format b \<and>
     (\<forall>a. bdata b' a \<noteq> bdata b a \<longrightarrow> (\<exists>x y. R x y \<and> a \<in> pixel_bytes b x y))"

lemma pixel_bytes_cong: "width b' = width b \<Longrightarrow> pixel_bytes b' x y = pixel_bytes b x y"
  by (simp add: pixel_bytes_def pixel_offset_def)

lemma only_refl [simp]: "only R b b"
  by (simp add: only_def)

lemma only_trans: "only R b b' \<Longrightarrow> only R b' b'' \<Longrightarrow> only R b b''"
  unfolding only_def by (metis pixel_bytes_cong)

lemma only_mono: "only R b b' \<Longrightarrow> (\<And>x y. R x y \<Longrightarrow> R' x y) \<Longrightarrow> only R' b b'"
  unfolding only_def by blast

lemma only_plot: "R x y \<Longrightarrow> only R b (plot_pixel x y c b)"
  unfolding only_def plot_pixel_def Let_def pixel_bytes_def by (auto split: if_splits)

lemma sint_cases: "sint (x :: u32) = (if uint x < 2 ^ 31 then uint x else uint x - 2 ^ 32)"
proof -
  have b: "0 \<le> uint x" "uint x < 2 ^ 32" using uint_lt2p [of x] by simp_all
  have "sint x = (uint x + 2 ^ 31) mod 2 ^ 32 - 2 ^ 31"
    by (simp add: sint_uint signed_take_bit_eq_take_bit_shift take_bit_eq_mod)
  also have "\<dots> = (if uint x < 2 ^ 31 then uint x else uint x - 2 ^ 32)"
    using b by (cases "uint x < 2 ^ 31") (simp_all add: mod_pos_pos_trivial mod_pos_geq)
  finally show ?thesis .
qed

lemma uint_bounds32: "0 \<le> uint (x :: u32)" "uint (x :: u32) < 2 ^ 32"
  using uint_lt2p [of x] by simp_all

lemma uint_add_int:
  fixes x :: u32
  assumes "0 \<le> uint x + k" "uint x + k < 2 ^ 32"
  shows "uint (x + word_of_int k) = uint x + k"
proof -
  have "x + word_of_int k = word_of_int (uint x + k)" by simp
  then show ?thesis using assms by (simp only: uint_word_of_int) simp
qed

lemma mod_negative:
  assumes "k < 0" "- (2 ^ 32) \<le> (k :: int)"
  shows "k mod 2 ^ 32 = k + 2 ^ 32"
proof -
  have "k mod 2 ^ 32 = (k + 2 ^ 32) mod 2 ^ 32" by simp
  also have "\<dots> = k + 2 ^ 32" using assms by (intro mod_pos_pos_trivial) simp_all
  finally show ?thesis .
qed

lemma only_for:
  assumes "\<And>i b. sint i = uint i \<Longrightarrow> uint i < sint n \<Longrightarrow> only R b (f i b)"
  shows "only R b (for_int n f b)"
proof -
  have "uint (of_nat k :: u32) = int k \<and> sint (of_nat k :: u32) = int k" if "k < nat (sint n)" for k
  proof -
    have "int k < 2 ^ 31" using that sint_less [of n] by simp
    then show ?thesis by (simp add: sint_cases unsigned_of_nat take_bit_eq_mod)
  qed
  then have "only R b (fold (\<lambda>i. f (of_nat i)) ks b)" if "\<forall>k \<in> set ks. k < nat (sint n)" for ks b
    using that
  proof (induction ks arbitrary: b)
    case (Cons k ks)
    then have "only R b (f (of_nat k) b)" by (intro assms) auto
    with Cons show ?case by (auto intro: only_trans)
  qed simp
  then show ?thesis unfolding for_int_def by simp
qed

section \<open>Lines\<close>

text \<open>The four slanted loops are one walk: every step moves by \<open>(mx, my)\<close>, and when the counter
  overflows also by \<open>(nx, ny)\<close>.\<close>

function walk :: "graphics \<Rightarrow> int \<Rightarrow> u32 \<times> u32 \<Rightarrow> u32 \<times> u32 \<Rightarrow> u32 \<Rightarrow> u32 \<Rightarrow> int \<Rightarrow> int \<Rightarrow> bitmap \<Rightarrow> bitmap" where
  "walk g slope m n x y k counter b =
     (let b = plot_pixel x y (fgcolor g) b; c = counter + slope;
          (c, x, y) = (if FACTOR < c then (c - FACTOR, x + fst m + fst n, y + snd m + snd n) else (c, x + fst m, y + snd m)) in
      if 1 < k then walk g slope m n x y (k - 1) c b else b)"
  by pat_completeness auto
termination by (relation "measure (\<lambda>(g, slope, m, n, x, y, k, c, b). nat k)") auto

declare walk.simps [simp del] line_q1_loop.simps [simp del] line_q2_loop.simps [simp del]
  line_q3_loop.simps [simp del] line_q4_loop.simps [simp del] graphics_line_vert.simps [simp del]
  graphics_line_hozo.simps [simp del]

lemma loops_walk:
  "line_q1_loop g s x y k c b = walk g s (0, 1) (1, 0) x y k c b"
  "line_q2_loop g s x y k c b = walk g s (1, 0) (0, 1) x y k c b"
  "line_q3_loop g s x y k c b = walk g s (1, 0) (0, -1) x y k c b"
  "line_q4_loop g s x y (- k) c b = walk g s (0, -1) (1, 0) x y k c b"
  "graphics_line_vert g x y k b = walk g 0 (0, 1) (0, 0) x y k 0 b"
  "graphics_line_hozo g x y k b = walk g 0 (1, 0) (0, 0) x y k 0 b"
proof (induction "nat k" arbitrary: x y k c b rule: less_induct)
  case less
  {
    case 1 then show ?case using less(1) [of "k - 1"]
      by (subst line_q1_loop.simps, subst walk.simps) (simp add: Let_def)
  next
    case 2 then show ?case using less(2) [of "k - 1"]
      by (subst line_q2_loop.simps, subst walk.simps) (simp add: Let_def)
  next
    case 3 then show ?case using less(3) [of "k - 1"]
      by (subst line_q3_loop.simps, subst walk.simps) (simp add: Let_def)
  next
    case 4 then show ?case using less(4) [of "k - 1"]
      by (subst line_q4_loop.simps, subst walk.simps) (simp add: Let_def)
  next
    case 5 then show ?case using less(5) [of "k - 1"]
      by (subst graphics_line_vert.simps, subst walk.simps) (simp add: Let_def FACTOR_def)
  next
    case 6 then show ?case using less(6) [of "k - 1"]
      by (subst graphics_line_hozo.simps, subst walk.simps) (simp add: Let_def FACTOR_def)
  }
qed

lemma walk_only:
  assumes "0 \<le> c" "0 \<le> s" "c + s * k \<le> 256 * n" "0 < k"
    and "\<And>i j. 0 \<le> i \<Longrightarrow> i < k \<Longrightarrow> 0 \<le> j \<Longrightarrow> j \<le> n \<Longrightarrow>
      R (x + word_of_int i * fst m + word_of_int j * fst l) (y + word_of_int i * snd m + word_of_int j * snd l)"
  shows "only R b (walk g s m l x y k c b)"
  using assms
proof (induction "nat k" arbitrary: x y k c n b rule: less_induct)
  case less
  let ?b = "plot_pixel x y (fgcolor g) b" and ?c = "c + s"
  have s: "s \<le> s * k" "1 < k \<Longrightarrow> s * k = s + s * (k - 1)"
    using less.prems(2,4) mult_left_mono [of 1 k s] by (auto simp: algebra_simps)
  have n: "0 \<le> n" using less.prems(1-4) by (smt (verit) mult_nonneg_nonneg)
  have p: "only R b ?b" using less.prems(5) [of 0 0] n less.prems(4) by (intro only_plot) simp
  show ?case
  proof (cases "1 < k")
    case False then show ?thesis using p by (subst walk.simps) (simp add: Let_def)
  next
    case k: True
    show ?thesis
    proof (cases "FACTOR < ?c")
      case True
      have "only R ?b (walk g s m l (x + fst m + fst l) (y + snd m + snd l) (k - 1) (?c - 256) ?b)"
      proof (rule less.hyps [of _ _ "n - 1"])
        fix i j assume "0 \<le> i" "i < k - 1" "0 \<le> j" "j \<le> n - 1"
        then show "R (x + fst m + fst l + word_of_int i * fst m + word_of_int j * fst l)
            (y + snd m + snd l + word_of_int i * snd m + word_of_int j * snd l)"
          using less.prems(5) [of "i + 1" "j + 1"] by (simp add: algebra_simps)
      qed (use k True s less.prems in \<open>auto simp: FACTOR_def\<close>)
      then show ?thesis using p k True by (subst walk.simps) (simp add: Let_def FACTOR_def only_trans)
    next
      case False
      have "only R ?b (walk g s m l (x + fst m) (y + snd m) (k - 1) ?c ?b)"
      proof (rule less.hyps [of _ _ n])
        fix i j assume "0 \<le> i" "i < k - 1" "0 \<le> j" "j \<le> n"
        then show "R (x + fst m + word_of_int i * fst m + word_of_int j * fst l)
            (y + snd m + word_of_int i * snd m + word_of_int j * snd l)"
          using less.prems(5) [of "i + 1" j] by (simp add: algebra_simps)
      qed (use k s less.prems in auto)
      then show ?thesis using p k False by (subst walk.simps) (simp add: Let_def FACTOR_def only_trans)
    qed
  qed
qed

lemma slope_bound:
  assumes "0 \<le> w" "0 < h"
  shows "0 \<le> c_div (FACTOR * w) h" "c_div (FACTOR * w) h * h \<le> 256 * w"
    and "c_div (- FACTOR * w) (- h) = c_div (FACTOR * w) h"
  using assms by (auto simp: FACTOR_def c_div_def pos_imp_zdiv_nonneg_iff sgn_if abs_mult minus_mod_eq_div_mult [symmetric])

text \<open>In the coordinates of the clip, a word is moved by an integer.\<close>

lemma in_clip_at:
  assumes "clip_ok b g" "screen_ok b" "0 \<le> X + i" "X + i < uint (clip_w (clip g))"
    and "0 \<le> Y + j" "Y + j < uint (clip_h (clip g)) + e" "e \<le> 1"
  shows "in_clip g e (word_of_int X + clip_x (clip g) + word_of_int i) (word_of_int Y + clip_y (clip g) + word_of_int j)"
proof -
  have clip: "uint (clip_x (clip g)) + uint (clip_w (clip g)) < 2 ^ 31" "uint (clip_y (clip g)) + uint (clip_h (clip g)) < 2 ^ 31"
    using assms(1,2) unfolding clip_ok_def screen_ok_def by linarith+
  have eq: "word_of_int X + c + word_of_int i = (c :: u32) + word_of_int (X + i)" for X i c by simp
  have "(2 :: int) ^ 31 < 2 ^ 32" by simp
  note b = this uint_bounds32(1) [of "clip_x (clip g)"] uint_bounds32(1) [of "clip_y (clip g)"]
  have "uint (clip_x (clip g) + word_of_int (X + i)) = uint (clip_x (clip g)) + (X + i)"
    "uint (clip_y (clip g) + word_of_int (Y + j)) = uint (clip_y (clip g)) + (Y + j)"
    by (rule uint_add_int; use assms clip b in linarith)+
  then show ?thesis using assms unfolding in_clip_def eq by simp
qed

lemma line_forward_only:
  assumes ok: "clip_ok b g" "screen_ok b" and neg: "0 \<le> sint w \<or> sint w = - (2 ^ 31)"
  shows "only (in_clip g 1) b (line_forward g x y w h b)"
proof -
  let ?cw = "clip_w (clip g)" and ?ch = "clip_h (clip g)"
  define X Y W H where d: "X = uint x" "Y = uint y" "W = sint w" "H = sint h"
  have words: "x = word_of_int X" "y = word_of_int Y" "w = word_of_int W" "h = word_of_int H" by (simp_all add: d)
  show ?thesis
  proof (cases "sint x < 0 \<or> sint y < 0 \<or> ?cw < x \<or> ?ch < y \<or> ?cw \<le> x + w \<or> ?ch \<le> y + h \<or> sint (y + h) < 0")
    case False
    have clip: "uint ?cw < 2 ^ 31" "uint ?ch < 2 ^ 31"
      using ok uint_bounds32(1) [of "clip_x (clip g)"] uint_bounds32(1) [of "clip_y (clip g)"]
      unfolding clip_ok_def screen_ok_def by linarith+
    have XY: "0 \<le> X" "X \<le> uint ?cw" "0 \<le> Y" "Y \<le> uint ?ch" "uint (x + w) < uint ?cw" "uint (y + h) < uint ?ch"
      using False uint_bounds32 by (auto simp: d word_less_def word_le_def not_less not_le)
    have WH: "- (2 ^ 31) \<le> W" "W < 2 ^ 31" "- (2 ^ 31) \<le> H" "H < 2 ^ 31"
      unfolding d using sint_ge [of w] sint_lt [of w] sint_ge [of h] sint_lt [of h] by simp_all
    have xw: "uint (x + w) = (X + W) mod 2 ^ 32" "uint (y + h) = (Y + H) mod 2 ^ 32"
      unfolding words by (simp_all add: uint_word_of_int flip: of_int_add)
    have W: "0 \<le> W" "X + W < uint ?cw"
    proof -
      have "W \<noteq> - (2 ^ 31)"
      proof
        assume "W = - (2 ^ 31)"
        then have "(X + W) mod 2 ^ 32 = X + W + 2 ^ 32"
          using XY clip by (intro mod_negative) simp_all
        then show False using XY xw clip \<open>W = - (2 ^ 31)\<close> by simp
      qed
      then show "0 \<le> W" using neg d by blast
      then have "(X + W) mod 2 ^ 32 = X + W" using XY WH clip by (intro mod_pos_pos_trivial) simp_all
      then show "X + W < uint ?cw" using XY xw by linarith
    qed
    have H: "0 \<le> Y + H" "Y + H < uint ?ch"
    proof -
      show "0 \<le> Y + H"
      proof (rule ccontr)
        assume "\<not> 0 \<le> Y + H"
        then have "(Y + H) mod 2 ^ 32 = Y + H + 2 ^ 32"
          using XY WH clip by (intro mod_negative) simp_all
        then show False using XY WH xw clip by simp
      qed
      then have "(Y + H) mod 2 ^ 32 = Y + H" using XY WH clip by (intro mod_pos_pos_trivial) simp_all
      then show "Y + H < uint ?ch" using XY xw by linarith
    qed
    let ?x = "x + clip_x (clip g)" and ?y = "y + clip_y (clip g)"
    have R: "in_clip g 1 (?x + word_of_int i) (?y + word_of_int j)"
      if "0 \<le> X + i" "X + i < uint ?cw" "0 \<le> Y + j" "Y + j \<le> uint ?ch" for i j
      using in_clip_at [OF ok, of X i Y j 1] that by (simp add: words)
    have draw: "only (in_clip g 1) b (walk g s m l (?x + word_of_int i) (?y + word_of_int j) k 0 b)"
      if "0 \<le> s" "s * k \<le> 256 * n" "0 < k"
        "\<And>u v. 0 \<le> u \<Longrightarrow> u < k \<Longrightarrow> 0 \<le> v \<Longrightarrow> v \<le> n \<Longrightarrow>
           in_clip g 1 (?x + word_of_int i + word_of_int u * fst m + word_of_int v * fst l)
             (?y + word_of_int j + word_of_int u * snd m + word_of_int v * snd l)" for s m l i j k n
      using that by (intro walk_only [where n = n]) simp_all
    have w0: "w = 0 \<longleftrightarrow> W = 0" by (metis words(3) d(3) of_int_0 sint_0)
    have "only (in_clip g 1) b (graphics_line_vert g ?x ?y H b)" if "0 < H"
      using draw [of 0 H 0 0 "(0, 1)" "(0, 0)" 0] R [of 0] that XY W H by (simp add: loops_walk)
    moreover have "only (in_clip g 1) b (graphics_line_vert g ?x (?y + h) (- H) b)" if "H < 0"
      using draw [of 0 "- H" 0 0 "(0, 1)" "(0, 0)" H] R [of 0 "H + _"] that XY W H
      by (simp add: loops_walk words algebra_simps)
    moreover have "only (in_clip g 1) b (graphics_line_q1 g ?x ?y W H b)" if "0 < H"
      using draw [of "c_div (FACTOR * W) H" H W 0 "(0, 1)" "(1, 0)" 0] R slope_bound [of W H] that XY W H
      unfolding graphics_line_q1_def by (simp add: loops_walk)
    moreover have "only (in_clip g 1) b (graphics_line_q2 g ?x ?y W H b)" if "0 < H" "0 < W"
      using draw [of "c_div (FACTOR * H) W" W H 0 "(1, 0)" "(0, 1)" 0] R slope_bound [of H W] that XY W H
      unfolding graphics_line_q2_def by (simp add: loops_walk)
    moreover have "only (in_clip g 1) b (graphics_line_q3 g ?x ?y W H b)" if "H < 0" "0 < W"
      using draw [of "c_div (FACTOR * - H) W" W "- H" 0 "(1, 0)" "(0, -1)" 0] R [of _ "- _"] slope_bound [of "- H" W] that XY W H
      unfolding graphics_line_q3_def by (simp add: loops_walk)
    moreover have "only (in_clip g 1) b (graphics_line_q4 g ?x ?y W H b)" if "H < 0"
      using draw [of "c_div (FACTOR * W) (- H)" "- H" W 0 "(0, -1)" "(1, 0)" 0] R [of _ "- _"] slope_bound [of W "- H"] that XY W H
        loops_walk(4) [of g _ ?x ?y "- H"]
      unfolding graphics_line_q4_def by simp
    moreover have "only (in_clip g 1) b (graphics_line_hozo g ?x ?y W b)"
    proof (cases "0 < W")
      case True
      then show ?thesis
        using draw [of 0 W 0 0 "(1, 0)" "(0, 0)" 0] R [of _ 0] XY W H by (simp add: loops_walk)
    next
      case False
      then show ?thesis using R [of 0 0] XY W H by (subst graphics_line_hozo.simps) (simp add: Let_def only_plot)
    qed
    ultimately show ?thesis
      using False W w0 unfolding line_forward_def Let_def by (auto simp: d [symmetric] algebra_simps)
  next
    case True
    have "line_forward g x y w h b = b"
    proof (cases "sint x < 0 \<or> sint y < 0 \<or> ?cw < x \<or> ?ch < y")
      case out: False
      then have "?cw \<le> x + w \<or> ?ch \<le> y + h \<or> sint (y + h) < 0" using True by blast
      then show ?thesis unfolding line_forward_def Let_def by (simp only: if_not_P [OF out] if_P)
    qed (simp only: line_forward_def Let_def if_P)
    then show ?thesis by simp
  qed
qed

lemma line_only:
  assumes "clip_ok b g" "screen_ok b"
  shows "only (in_clip g 1) b (graphics_line g x y w h b)"
proof (cases "sint w < 0")
  case True
  have "0 \<le> sint (- w) \<or> sint (- w) = - (2 ^ 31)"
  proof -
    have "2 ^ 31 \<le> uint w" using True uint_bounds32 [of w] by (simp add: sint_cases split: if_splits)
    moreover have "uint (- w) = (- uint w) mod 2 ^ 32" by (simp add: uint_word_ariths)
    ultimately have "uint (- w) = 2 ^ 32 - uint w" using uint_bounds32 [of w] mod_negative [of "- uint w"] by simp
    then show ?thesis using \<open>2 ^ 31 \<le> uint w\<close> uint_bounds32 [of w] by (simp add: sint_cases)
  qed
  then show ?thesis using line_forward_only [OF assms] True by (simp add: graphics_line_def)
qed (use line_forward_only [OF assms] in \<open>simp add: graphics_line_def\<close>)

section \<open>Rectangles\<close>

text \<open>The columns, or rows, of a clip of size \<open>n\<close> that a rectangle from \<open>x\<close> of size \<open>w\<close> fills.
  A size that is negative after the cut at the left edge fills up to the right edge.\<close>

definition span :: "int \<Rightarrow> int \<Rightarrow> int \<Rightarrow> int set" where
  "span n x w = {max 0 x..<(if w + min 0 x < 0 then n else min n (x + w))}"

text \<open>The start and the number of steps that \<open>graphics_rect_internal\<close> computes.\<close>

definition cut :: "u32 \<Rightarrow> u32 \<Rightarrow> u32 \<Rightarrow> u32 \<times> u32" where
  "cut n x w = (let (w, x) = (if sint x < 0 then (w + x, 0) else (w, x)) in (x, if n < x then 0 else min (n - x) w))"

lemma cut_steps:
  assumes n: "uint n < 2 ^ 31" and ov: "- (2 ^ 31) \<le> sint w + min 0 (sint x)" and c: "cut n x w = (x', k)"
  shows "sint k = uint k" "uint x' + uint k \<le> uint n \<or> k = 0" "uint x' = max 0 (sint x)"
    and "d \<in> span (uint n) (sint x) (sint w) \<longleftrightarrow> uint x' \<le> d \<and> d < uint x' + uint k"
proof -
  define w' where "w' = (if sint x < 0 then w + x else w)"
  have x': "x' = (if sint x < 0 then 0 else x)" and k: "k = (if n < x' then 0 else min (n - x') w')"
    using c unfolding cut_def w'_def by (auto split: if_splits)
  show X: "uint x' = max 0 (sint x)" unfolding x' using uint_bounds32 [of x] by (simp add: sint_cases max_def)
  have w: "sint w' = sint w + min 0 (sint x)"
    using ov sint_lt [of w] by (auto simp: w'_def sint_word_add min_def intro!: signed_take_bit_int_eq_self)
  have U: "uint k = (if uint n < uint x' then 0 else min (uint n - uint x') (uint w'))"
    using uint_sub_lem [of x' n] unfolding k by (auto simp: word_less_def min_def word_le_def not_less)
  then show "uint x' + uint k \<le> uint n \<or> k = 0" by (auto simp: uint_0_iff)
  have "uint k \<le> max 0 (uint n - uint x')" using U by simp
  moreover have "k < 2 ^ 31" if "k \<le> max 0 (m - a)" "0 \<le> a" "m < 2 ^ 31" for k m a :: int using that by auto
  ultimately have "uint k < 2 ^ 31" using n uint_bounds32(1) by blast
  then show "sint k = uint k" by (simp add: sint_cases)
  show "d \<in> span (uint n) (sint x) (sint w) \<longleftrightarrow> uint x' \<le> d \<and> d < uint x' + uint k"
  proof (cases "sint w' < 0")
    case True
    then have "2 ^ 31 \<le> uint w'" using uint_bounds32 [of w'] by (simp add: sint_cases split: if_splits)
    then show ?thesis using True n uint_bounds32(1) [of x'] w unfolding span_def U X by auto
  next
    case False
    then have "uint w' = sint w'" using uint_bounds32 [of w'] by (auto simp: sint_cases split: if_splits)
    then show ?thesis using False w unfolding span_def U X by auto
  qed
qed

lemma rect_internal_cut:
  assumes "uint (clip_w (clip g)) < 2 ^ 31" "- (2 ^ 31) \<le> sint w + min 0 (sint x)"
  shows "graphics_rect_internal g x y w h c b =
     (case cut (clip_w (clip g)) x w of (x, w) \<Rightarrow> case cut (clip_h (clip g)) y h of (y, h) \<Rightarrow>
        for_int h (\<lambda>j. for_int w (\<lambda>i. plot_pixel (x + clip_x (clip g) + i) (y + clip_y (clip g) + j) c)) b)"
proof -
  have none: "for_int 0 f b = b" for f :: "u32 \<Rightarrow> bitmap \<Rightarrow> bitmap" and b by (simp add: for_int_def)
  have "fold (\<lambda>i. id) ks b = b" for ks :: "nat list" and b :: bitmap by (induction ks) auto
  then have skip: "for_int k (\<lambda>j. for_int 0 (f j)) b = b" for f :: "u32 \<Rightarrow> u32 \<Rightarrow> bitmap \<Rightarrow> bitmap" and k b
    by (simp add: for_int_def)
  show ?thesis unfolding graphics_rect_internal_def cut_def Let_def by (auto simp: none skip)
qed

text \<open>The colours of the pixels on the screen, and what painting a set of them does.\<close>

definition on_screen :: "bitmap \<Rightarrow> u32 \<Rightarrow> u32 \<Rightarrow> bool" where
  "on_screen b x y \<longleftrightarrow> x < width b \<and> y < height b"

definition pixel_color :: "bitmap \<Rightarrow> u32 \<Rightarrow> u32 \<Rightarrow> u8 \<times> u8 \<times> u8" where
  "pixel_color b x y = (let v = pixel_offset b x y in (bdata b (v + 2), bdata b (v + 1), bdata b v))"

definition paints :: "(u32 \<Rightarrow> u32 \<Rightarrow> bool) \<Rightarrow> u8 \<times> u8 \<times> u8 \<Rightarrow> bitmap \<Rightarrow> bitmap \<Rightarrow> bool" where
  "paints P c b b' \<longleftrightarrow> width b' = width b \<and> height b' = height b \<and>
     (\<forall>x y. on_screen b x y \<longrightarrow> pixel_color b' x y = (if P x y then c else pixel_color b x y))"

lemma pixel_offset_uint:
  assumes "screen_ok b" "on_screen b x y"
  shows "uint (pixel_offset b x y) = 3 * (uint (width b) * uint y + uint x)"
    and "uint (pixel_offset b x y) + 3 \<le> 2 ^ 32"
proof -
  let ?w = "uint (width b)" and ?h = "uint (height b)"
  have xy: "uint x < ?w" "uint y < ?h" using assms(2) by (auto simp: on_screen_def word_less_def)
  have "?w * uint y + uint x < ?w * (uint y + 1)" using xy by (simp add: distrib_left)
  also have "?w * (uint y + 1) \<le> ?w * ?h" using xy uint_bounds32 [of "width b"] by (intro mult_left_mono) simp_all
  finally have le: "3 * (?w * uint y + uint x) + 3 \<le> 2 ^ 32" using assms(1) by (simp add: screen_ok_def)
  have "pixel_offset b x y = word_of_int (3 * (?w * uint y + uint x))"
    by (simp add: pixel_offset_def algebra_simps)
  then have "uint (pixel_offset b x y) = 3 * (?w * uint y + uint x) mod 2 ^ 32"
    by (simp only: uint_word_of_int) simp
  also have "\<dots> = 3 * (?w * uint y + uint x)"
    using le uint_bounds32(1) [of "width b"] uint_bounds32(1) [of x] uint_bounds32(1) [of y]
    by (intro mod_pos_pos_trivial) (auto intro!: add_nonneg_nonneg mult_nonneg_nonneg)
  finally show "uint (pixel_offset b x y) = 3 * (?w * uint y + uint x)" .
  with le show "uint (pixel_offset b x y) + 3 \<le> 2 ^ 32" by simp
qed

lemma pixel_offset_apart:
  assumes "screen_ok b" "on_screen b x y" "on_screen b x' y'" "(x, y) \<noteq> (x', y')" "i \<in> {0, 1, 2}" "j \<in> {0, 1, 2}"
  shows "pixel_offset b x y + i \<noteq> pixel_offset b x' y' + j"
proof
  assume eq: "pixel_offset b x y + i = pixel_offset b x' y' + j"
  let ?w = "uint (width b)"
  have plus: "uint (v + k) = uint v + uint k \<and> uint k < 3" if "uint v + 3 \<le> 2 ^ 32" "k \<in> {0, 1, 2}" for v k :: u32
    using that uint_add_int [of v "uint k"] uint_bounds32(1) [of v] by auto
  have "3 * (?w * uint y + uint x) + uint i = 3 * (?w * uint y' + uint x') + uint j"
    using arg_cong [OF eq, of uint] plus [OF pixel_offset_uint(2) [OF assms(1,2)] assms(5)]
      plus [OF pixel_offset_uint(2) [OF assms(1,3)] assms(6)] pixel_offset_uint(1) [OF assms(1,2)]
      pixel_offset_uint(1) [OF assms(1,3)] by simp
  moreover have "0 \<le> uint i" "uint i < 3" "0 \<le> uint j" "uint j < 3" using assms(5,6) by auto
  ultimately have e: "?w * uint y + uint x = ?w * uint y' + uint x'" by presburger
  have x: "uint x < ?w" "uint x' < ?w" using assms(2,3) by (auto simp: on_screen_def word_less_def)
  have "q = q' \<and> r = r'" if "w * q + r = w * q' + r'" "0 \<le> r" "r < w" "0 \<le> r'" "r' < w" for w q r q' r' :: int
    using that by (metis add.commute mod_mult_self2 mod_pos_pos_trivial add_right_cancel mult_cancel_left less_irrefl order_le_less_trans)
  from this [OF e] x have "uint x = uint x'" "uint y = uint y'" using uint_bounds32(1) by blast+
  then show False using assms(4) by (simp add: word_uint_eq_iff)
qed

lemma paints_plot:
  assumes "screen_ok b" "on_screen b x y" "alpha c = 0"
  shows "paints (\<lambda>x' y'. x' = x \<and> y' = y) (red c, green c, blue c) b (plot_pixel x y c b)"
proof -
  have off: "pixel_offset (plot_pixel x y c b) = pixel_offset b"
    by (simp add: pixel_offset_def plot_pixel_def Let_def fun_eq_iff)
  have keep: "bdata (plot_pixel x y c b) a = bdata b a" if "\<And>i. i \<in> {0, 1, 2} \<Longrightarrow> a \<noteq> pixel_offset b x y + i" for a
    using that [of 0] that [of 1] that [of 2] assms(3) by (simp add: plot_pixel_def Let_def)
  have "pixel_color (plot_pixel x y c b) x' y' = pixel_color b x' y'" if s: "on_screen b x' y'" and n: "(x, y) \<noteq> (x', y')" for x' y'
  proof -
    have "bdata (plot_pixel x y c b) (pixel_offset b x' y' + j) = bdata b (pixel_offset b x' y' + j)" if "j \<in> {0, 1, 2}" for j
      using pixel_offset_apart [OF assms(1) s assms(2) n [symmetric] that] by (rule keep)
    from this [of 0] this [of 1] this [of 2] show ?thesis unfolding pixel_color_def off by simp
  qed
  moreover have "pixel_color (plot_pixel x y c b) x y = (red c, green c, blue c)"
    unfolding pixel_color_def off using assms(3) by (simp add: Let_def plot_pixel_def)
  moreover have "width (plot_pixel x y c b) = width b" "height (plot_pixel x y c b) = height b"
    by (simp_all add: plot_pixel_def Let_def)
  ultimately show ?thesis unfolding paints_def by auto
qed

lemma paints_trans: "paints P c b b1 \<Longrightarrow> paints Q c b1 b2 \<Longrightarrow> paints (\<lambda>x y. P x y \<or> Q x y) c b b2"
  unfolding paints_def on_screen_def by simp

lemma paints_for:
  assumes "\<And>i b. sint i = uint i \<Longrightarrow> uint i < sint n \<Longrightarrow> same b \<Longrightarrow> paints (P i) c b (f i b)"
    and "\<And>b b' P. same b \<Longrightarrow> paints P c b b' \<Longrightarrow> same b'" and "same b" "sint n = uint n"
  shows "paints (\<lambda>x y. \<exists>i. uint i < uint n \<and> P i x y) c b (for_int n f b)"
proof -
  have small: "uint (of_nat k :: u32) = int k \<and> sint (of_nat k :: u32) = int k" if "k < nat (sint n)" for k
  proof -
    have "int k < 2 ^ 31" using that sint_less [of n] by simp
    then show ?thesis by (simp add: sint_cases unsigned_of_nat take_bit_eq_mod)
  qed
  have "paints (\<lambda>x y. \<exists>i < m. P (of_nat i) x y) c b (fold (\<lambda>i. f (of_nat i)) [0..<m] b) \<and>
      same (fold (\<lambda>i. f (of_nat i)) [0..<m] b)" if "m \<le> nat (sint n)" for m
    using that
  proof (induction m)
    case 0
    then show ?case using assms(3) by (simp add: paints_def)
  next
    case (Suc m)
    let ?b = "fold (\<lambda>i. f (of_nat i)) [0..<m] b"
    have last: "paints (P (of_nat m)) c ?b (f (of_nat m) ?b)" using Suc small [of m] by (intro assms(1)) auto
    moreover from this have "same (f (of_nat m) ?b)" using assms(2) Suc by fastforce
    moreover have "paints (\<lambda>x y. \<exists>i < m. P (of_nat i) x y) c b ?b" using Suc by simp
    moreover have "(\<exists>i < Suc m. P (of_nat i) x y) \<longleftrightarrow> (\<exists>i < m. P (of_nat i) x y) \<or> P (of_nat m) x y" for x y
      by (auto simp: less_Suc_eq)
    ultimately show ?case using paints_trans [OF _ last, of "\<lambda>x y. \<exists>i < m. P (of_nat i) x y"] Suc by simp
  qed
  from this [OF order_refl] have "paints (\<lambda>x y. \<exists>i < nat (sint n). P (of_nat i) x y) c b (for_int n f b)"
    unfolding for_int_def by blast
  moreover have "(\<exists>i < nat (sint n). P (of_nat i) x y) = (\<exists>i. uint i < uint n \<and> P i x y)" for x y
  proof (rule iffI; elim exE conjE)
    fix i assume i: "i < nat (sint n)" "P (of_nat i) x y"
    have "uint (of_nat i :: u32) < uint n" using small [OF i(1)] i(1) assms(4) by linarith
    with i(2) show "\<exists>i. uint i < uint n \<and> P i x y" by blast
  next
    fix i :: u32 assume i: "uint i < uint n" "P i x y"
    have "int (unat i) = uint i" by simp
    then have "unat i < nat (sint n)" using i(1) assms(4) by linarith
    moreover have "of_nat (unat i) = i" by simp
    ultimately show "\<exists>i < nat (sint n). P (of_nat i) x y" using i(2) by metis
  qed
  ultimately show ?thesis by (simp only:)
qed

lemma offset_ex:
  fixes x c k p :: u32
  assumes "uint x + uint c + uint k < 2 ^ 31"
  shows "(\<exists>i. uint i < uint k \<and> p = x + c + i) \<longleftrightarrow> uint x \<le> uint p - uint c \<and> uint p - uint c < uint x + uint k"
proof -
  have n: "0 \<le> uint x" "0 \<le> uint c" "0 \<le> uint k" "(2 :: int) ^ 31 < 2 ^ 32" by simp_all
  have "uint (x + word_of_int (uint c)) = uint x + uint c" by (rule uint_add_int; use assms n in linarith)
  then have xc: "uint (x + c) = uint x + uint c" by simp
  have s: "uint (x + c + i) = uint x + uint c + uint i" if "uint i < uint k" for i :: u32
  proof -
    have "uint (x + c + word_of_int (uint i)) = uint (x + c) + uint i"
      by (rule uint_add_int; use that xc assms n uint_bounds32(1) [of i] in linarith)
    with xc show ?thesis by simp
  qed
  show ?thesis
  proof (rule iffI; elim exE conjE)
    fix i assume i: "uint i < uint k" "p = x + c + i"
    then have "uint p = uint x + uint c + uint i" using s by simp
    then show "uint x \<le> uint p - uint c \<and> uint p - uint c < uint x + uint k" using i(1) by simp
  next
    assume p: "uint x \<le> uint p - uint c" "uint p - uint c < uint x + uint k"
    define i where "i = (word_of_int (uint p - uint c - uint x) :: u32)"
    have "uint i = (uint p - uint c - uint x) mod 2 ^ LENGTH(32)" unfolding i_def by (simp only: uint_word_of_int)
    also have "\<dots> = uint p - uint c - uint x"
      using p uint_bounds32 [of k] by (intro mod_pos_pos_trivial) simp_all
    finally have "uint i = uint p - uint c - uint x" .
    moreover have "p = x + c + i" unfolding i_def by simp
    ultimately show "\<exists>i. uint i < uint k \<and> p = x + c + i" using p(2) by (intro exI [of _ i]) linarith
  qed
qed

lemma rect_internal_paints:
  assumes ok: "screen_ok b" "clip_ok b g" and c: "alpha c = 0"
    and ov: "- (2 ^ 31) \<le> sint w + min 0 (sint x)" "- (2 ^ 31) \<le> sint h + min 0 (sint y)"
  shows "paints (\<lambda>px py. uint px - uint (clip_x (clip g)) \<in> span (uint (clip_w (clip g))) (sint x) (sint w) \<and>
           uint py - uint (clip_y (clip g)) \<in> span (uint (clip_h (clip g))) (sint y) (sint h))
         (red c, green c, blue c) b (graphics_rect_internal g x y w h c b)"
proof -
  let ?cx = "clip_x (clip g)" and ?cy = "clip_y (clip g)" and ?cw = "clip_w (clip g)" and ?ch = "clip_h (clip g)"
  have b: "uint ?cx + uint ?cw \<le> uint (width b)" "uint ?cy + uint ?ch \<le> uint (height b)"
    "uint (width b) < 2 ^ 31" "uint (height b) < 2 ^ 31" "uint ?cw < 2 ^ 31" "uint ?ch < 2 ^ 31"
    using ok uint_bounds32(1) [of ?cx] uint_bounds32(1) [of ?cy] unfolding clip_ok_def screen_ok_def by linarith+
  obtain x' kw where cx: "cut ?cw x w = (x', kw)" by fastforce
  obtain y' kh where cy: "cut ?ch y h = (y', kh)" by fastforce
  note X = cut_steps [OF b(5) ov(1) cx] and Y = cut_steps [OF b(6) ov(2) cy]
  define same where "same b' \<longleftrightarrow> width b' = width b \<and> height b' = height b" for b' :: bitmap
  let ?c = "(red c, green c, blue c)"
  have fits: "uint x' + uint ?cx + uint kw \<le> uint (width b)" "uint y' + uint ?cy + uint kh \<le> uint (height b)"
    if "kw \<noteq> 0" "kh \<noteq> 0" using that X(2) Y(2) b by auto
  have step: "paints (\<lambda>px py. px = x' + ?cx + i \<and> py = y' + ?cy + j) ?c b' (plot_pixel (x' + ?cx + i) (y' + ?cy + j) c b')"
    if "same b'" "uint i < uint kw" "uint j < uint kh" for b' i j
  proof (rule paints_plot [OF _ _ c])
    show "screen_ok b'" using that ok by (simp add: same_def screen_ok_def)
    have "kw \<noteq> 0" "kh \<noteq> 0" using that uint_bounds32(1) [of i] uint_bounds32(1) [of j] by auto
    note f = fits [OF this]
    have "uint (x' + ?cx + i) < uint (width b)" "uint (y' + ?cy + j) < uint (height b)"
      using offset_ex [of x' ?cx kw "x' + ?cx + i"] offset_ex [of y' ?cy kh "y' + ?cy + j"] that f b by auto
    then show "on_screen b' (x' + ?cx + i) (y' + ?cy + j)"
      using that(1) by (simp add: on_screen_def word_less_def same_def)
  qed
  have row: "paints (\<lambda>px py. \<exists>i. uint i < uint kw \<and> px = x' + ?cx + i \<and> py = y' + ?cy + j) ?c b'
      (for_int kw (\<lambda>i. plot_pixel (x' + ?cx + i) (y' + ?cy + j) c) b')" if "same b'" "uint j < uint kh" for b' j
    using X(1) that by (intro paints_for [where same = same] step) (auto simp: paints_def same_def)
  have all: "paints (\<lambda>px py. \<exists>j. uint j < uint kh \<and> (\<exists>i. uint i < uint kw \<and> px = x' + ?cx + i \<and> py = y' + ?cy + j)) ?c b
      (for_int kh (\<lambda>j. for_int kw (\<lambda>i. plot_pixel (x' + ?cx + i) (y' + ?cy + j) c)) b)"
    using Y(1) by (intro paints_for [where same = same] row) (auto simp: paints_def same_def)
  have pts: "(\<exists>j. uint j < uint kh \<and> (\<exists>i. uint i < uint kw \<and> px = x' + ?cx + i \<and> py = y' + ?cy + j)) \<longleftrightarrow>
      uint px - uint ?cx \<in> span (uint ?cw) (sint x) (sint w) \<and> uint py - uint ?cy \<in> span (uint ?ch) (sint y) (sint h)" for px py
  proof (cases "kw = 0 \<or> kh = 0")
    case True
    have "\<not> uint i < 0" for i :: u32 by simp
    with True show ?thesis unfolding X(4) Y(4) by auto
  next
    case False
    with fits b have "uint x' + uint ?cx + uint kw < 2 ^ 31" "uint y' + uint ?cy + uint kh < 2 ^ 31" by auto
    from offset_ex [OF this(1), of px] offset_ex [OF this(2), of py] show ?thesis unfolding X(4) Y(4) by blast
  qed
  show ?thesis
    using all unfolding rect_internal_cut [OF b(5) ov(1)] cx cy prod.case pts .
qed

section \<open>What a stream of commands can touch\<close>

lemma rect_internal_only:
  assumes ok: "screen_ok b" "clip_ok b g"
  shows "only (in_clip g 1) b (graphics_rect_internal g x y w h c b)"
proof -
  let ?cw = "clip_w (clip g)" and ?ch = "clip_h (clip g)"
  define x' w' y' h' where v: "x' = (if sint x < 0 then 0 else x)" "w' = (if sint x < 0 then w + x else w)"
    "y' = (if sint y < 0 then 0 else y)" "h' = (if sint y < 0 then h + y else h)"
  let ?kw = "min (?cw - x') w'" and ?kh = "min (?ch - y') h'"
  have eq: "graphics_rect_internal g x y w h c b =
     (if ?cw < x' \<or> ?ch < y' then b
      else for_int ?kh (\<lambda>j. for_int ?kw (\<lambda>i. plot_pixel (x' + clip_x (clip g) + i) (y' + clip_y (clip g) + j) c)) b)"
    unfolding graphics_rect_internal_def v Let_def by (cases "sint x < 0"; cases "sint y < 0") simp_all
  show ?thesis
  proof (cases "?cw < x' \<or> ?ch < y'")
    case False
    then have le: "uint x' \<le> uint ?cw" "uint y' \<le> uint ?ch" by (auto simp: word_less_def)
    have small: "uint ?kw \<le> uint ?cw - uint x'" "uint ?kh \<le> uint ?ch - uint y'"
      using le uint_sub_lem [of x' ?cw] uint_sub_lem [of y' ?ch] by (auto simp: min_def word_le_def)
    have "uint ?cw < 2 ^ 31" "uint ?ch < 2 ^ 31"
      using ok uint_bounds32(1) [of "clip_x (clip g)"] uint_bounds32(1) [of "clip_y (clip g)"]
      unfolding clip_ok_def screen_ok_def by linarith+
    moreover have "k < 2 ^ 31" if "k \<le> n - a" "n < 2 ^ 31" "0 \<le> a" for k n a :: int using that by simp
    ultimately have k: "uint ?kw < 2 ^ 31" "uint ?kh < 2 ^ 31" using small uint_bounds32(1) by blast+
    have s: "sint ?kw = uint ?kw" "sint ?kh = uint ?kh" using k by (simp_all add: sint_cases del: min_less_iff_disj)
    have "in_clip g 1 (x' + clip_x (clip g) + i) (y' + clip_y (clip g) + j)" if "uint i < uint ?kw" "uint j < uint ?kh" for i j
    proof -
      have "0 \<le> uint x'" "0 \<le> uint y'" "0 \<le> uint i" "0 \<le> uint j" by simp_all
      then have "0 \<le> uint x' + uint i" "uint x' + uint i < uint ?cw" "0 \<le> uint y' + uint j" "uint y' + uint j < uint ?ch + 1"
        using that small by linarith+
      from in_clip_at [OF ok(2,1) this] show ?thesis by simp
    qed
    then have "only (in_clip g 1) b
      (for_int ?kh (\<lambda>j. for_int ?kw (\<lambda>i. plot_pixel (x' + clip_x (clip g) + i) (y' + clip_y (clip g) + j) c)) b)"
      using s by (intro only_for only_plot) simp
    then show ?thesis using False unfolding eq by simp
  qed (simp add: eq)
qed

lemma clip_ok_only: "only R b b' \<Longrightarrow> clip_ok b' g = clip_ok b g \<and> screen_ok b' = screen_ok b"
  unfolding only_def clip_ok_def screen_ok_def by simp

lemma write_command_only:
  assumes "screen_ok b" "clip_ok b g" "cmd p \<noteq> GRAPHICS_TEXT" "write_command cmd p (g, b) = Some (n, g', b')"
  shows "only (in_clip g 1) b b' \<and> clip g' = clip g \<and> 4 \<le> n"
  using assms rect_internal_only [OF assms(1,2)] line_only [OF assms(2,1)]
  by (auto simp: write_command_def graphics_rect_def graphics_clear_def graphics_fgcolor_def graphics_bgcolor_def split: if_splits)

lemma write_from_only:
  assumes "screen_ok b" "clip_ok b g" "\<And>q. cmd q \<noteq> GRAPHICS_TEXT"
  shows "\<exists>r g' b'. graphics_write_from cmd p len (g, b) = Some (r, g', b') \<and> r \<in> {0, kerr KERROR_INVALID_REQUEST} \<and>
    clip g' = clip g \<and> only (in_clip g 1) b b'"
  using assms(1,2)
proof (induction "nat len" arbitrary: len p g b rule: less_induct)
  case less
  show ?case
  proof (cases "0 < len")
    case True
    show ?thesis
    proof (cases "write_command cmd p (g, b)")
      case None
      then show ?thesis using True by (subst graphics_write_from.simps) simp
    next
      case (Some s)
      obtain n g1 b1 where s: "s = (n, g1, b1)" by (cases s) auto
      note c = write_command_only [OF less.prems assms(3) Some [unfolded s]]
      have "screen_ok b1" "clip_ok b1 g1" using c less.prems clip_ok_only [of _ b b1] by (auto simp: clip_ok_def)
      from less.hyps [OF _ this, of "len - n" "p + n"] True c
      obtain r g' b' where w: "graphics_write_from cmd (p + n) (len - n) (g1, b1) = Some (r, g', b')"
        "r \<in> {0, kerr KERROR_INVALID_REQUEST}" "clip g' = clip g1" "only (in_clip g1 1) b1 b'" by auto
      have "in_clip g1 = in_clip g" using c by (simp add: in_clip_def fun_eq_iff)
      with w(4) c have "only (in_clip g 1) b b'" by (auto intro: only_trans)
      then show ?thesis using True Some w c by (subst graphics_write_from.simps) (simp add: s)
    qed
  qed (subst graphics_write_from.simps, simp)
qed

text \<open>The clip of a new window stays on the bitmap, though not always inside its parent.\<close>

lemma clip_ok_root: "clip_ok b (graphics_create_root b)"
  by (simp add: clip_ok_def graphics_create_root_def)

lemma clip_ok_clip:
  assumes "screen_ok b" "clip_ok b g"
  shows "clip_ok b (snd (graphics_clip b x y w h g))"
proof (cases "fst (graphics_clip b x y w h g) = 1")
  case True
  let ?x = "x + clip_x (clip g)" and ?y = "y + clip_y (clip g)"
  have g: "snd (graphics_clip b x y w h g) = g\<lparr>clip := \<lparr>clip_x = ?x, clip_y = ?y, clip_w = w, clip_h = h\<rparr>\<rparr>"
    and r: "0 \<le> sint w" "0 \<le> sint h" "0 \<le> sint y" "uint ?x < uint (width b)" "uint (?x + w) < uint (width b)"
      "uint (?y + h) < uint (height b)" "uint ?y < uint (width b)"
    using True unfolding graphics_clip_def Let_def
    by (auto simp: word_le_def not_le split: if_splits)
  have fit: "uint (u + v) = uint u + uint v" if "uint u < 2 ^ 31" "0 \<le> sint v" for u v :: u32
  proof -
    have "uint v < 2 ^ 31" using that(2) uint_bounds32 [of v] by (simp add: sint_cases split: if_splits)
    then have "uint (u + word_of_int (uint v)) = uint u + uint v"
      using that uint_bounds32(1) [of u] uint_bounds32(1) [of v] by (intro uint_add_int) simp_all
    then show ?thesis by simp
  qed
  have "uint (width b) < 2 ^ 31" using assms(1) by (simp add: screen_ok_def)
  then have "uint ?x < 2 ^ 31" "uint ?y < 2 ^ 31" using r by linarith+
  with fit [OF _ r(1), of ?x] fit [OF _ r(2), of ?y] r show ?thesis unfolding g clip_ok_def by simp
next
  case False
  then have "snd (graphics_clip b x y w h g) = g" unfolding graphics_clip_def Let_def by (auto split: if_splits)
  then show ?thesis using assms by simp
qed

section \<open>Properties\<close>

definition sample_bitmap :: bitmap where
  "sample_bitmap = \<lparr>width = 16, height = 8, format = BITMAP_FORMAT_RGB, bdata = (\<lambda>_. 7)\<rparr>"

definition sample_graphics :: graphics where
  "sample_graphics = snd (graphics_clip sample_bitmap 9 2 1 1 (graphics_create_root sample_bitmap))"

lemma sample_graphics_simps:
  "sample_graphics = \<lparr>fgcolor = color_white, bgcolor = color_black, clip = \<lparr>clip_x = 9, clip_y = 2, clip_w = 1, clip_h = 1\<rparr>\<rparr>"
  by (simp add: sample_graphics_def graphics_clip_def graphics_create_root_def sample_bitmap_def)

lemma sample_screen: "screen_ok sample_bitmap" "clip_ok sample_bitmap sample_graphics"
  by (simp_all add: screen_ok_def clip_ok_def sample_bitmap_def sample_graphics_simps)

text \<open>Claim C34.  Filling a rectangle gives exactly its part inside the clip the foreground colour and
  leaves the colours of all other pixels; a rectangle whose size is negative after the cut at the
  edge is filled up to the far edge of the clip.\<close>

theorem graphics_rect_image:
  assumes "screen_ok b" "clip_ok b g" "alpha (fgcolor g) = 0" "on_screen b px py"
    and "- (2 ^ 31) \<le> sint w + min 0 (sint x)" "- (2 ^ 31) \<le> sint h + min 0 (sint y)"
  shows "pixel_color (graphics_rect g x y w h b) px py =
    (if uint px - uint (clip_x (clip g)) \<in> span (uint (clip_w (clip g))) (sint x) (sint w) \<and>
        uint py - uint (clip_y (clip g)) \<in> span (uint (clip_h (clip g))) (sint y) (sint h)
     then (red (fgcolor g), green (fgcolor g), blue (fgcolor g)) else pixel_color b px py)"
  using rect_internal_paints [OF assms(1-3,5,6)] assms(4) by (simp add: paints_def graphics_rect_def)

theorem graphics_rect_image_witness:
  "pixel_color (graphics_rect sample_graphics 0 0 1 (- 1) sample_bitmap) 9 2 = (255, 255, 255) \<and>
   pixel_color (graphics_rect sample_graphics 0 0 1 (- 1) sample_bitmap) 8 2 = (7, 7, 7)"
  using graphics_rect_image [OF sample_screen, of 9 2 1 0 "- 1" 0] graphics_rect_image [OF sample_screen, of 8 2 1 0 "- 1" 0]
  by (simp add: on_screen_def sample_bitmap_def sample_graphics_simps color_white_def span_def pixel_color_def)

text \<open>Claim C35.  A stream of commands without text always ends, with 0 or an invalid request, and every
  byte it changes belongs to a pixel of the clip or of the row below it, whatever its arguments are;
  the clip stays as it is.  The row below the clip is not spared: a line with a negative height
  that starts there passes the test of \<^verbatim>\<open>graphics_line\<close> and draws its first pixel in it.\<close>

theorem graphics_write_confined:
  assumes "screen_ok b" "clip_ok b g" "\<And>q. cmd q \<noteq> GRAPHICS_TEXT"
  shows "\<exists>r g' b'. graphics_write cmd len (g, b) = Some (r, g', b') \<and> r \<in> {0, kerr KERROR_INVALID_REQUEST} \<and>
    clip g' = clip g \<and>
    (\<forall>a. bdata b' a \<noteq> bdata b a \<longrightarrow> (\<exists>x y. in_clip g 1 x y \<and> a \<in> pixel_bytes b x y))"
  using write_from_only [OF assms(1,2), of cmd 0 len] assms(3) unfolding graphics_write_def only_def by blast

definition sample_stream :: "int \<Rightarrow> u32" where
  "sample_stream p = (if p = 0 then GRAPHICS_RECT else if p = 5 then GRAPHICS_LINE
     else if p = 3 \<or> p = 4 \<or> p = 7 then 1 else if p = 9 then - 1 else 0)"

theorem graphics_write_confined_witness:
  "\<exists>r g' b'. graphics_write sample_stream 10 (sample_graphics, sample_bitmap) = Some (r, g', b') \<and>
    r \<in> {0, kerr KERROR_INVALID_REQUEST} \<and> clip g' = clip sample_graphics \<and>
    (\<forall>a. bdata b' a \<noteq> bdata sample_bitmap a \<longrightarrow> (\<exists>x y. in_clip sample_graphics 1 x y \<and> a \<in> pixel_bytes sample_bitmap x y))"
  by (rule graphics_write_confined [OF sample_screen])
    (simp add: sample_stream_def GRAPHICS_TEXT_def GRAPHICS_RECT_def GRAPHICS_LINE_def)

text \<open>The stream with one text command: the string starts at \<open>(x, y)\<close> and has \<open>n\<close> characters.\<close>

definition text_stream :: "u32 \<Rightarrow> u32 \<Rightarrow> u32 \<Rightarrow> int \<Rightarrow> u32" where
  "text_stream x y n p = (if p = 0 then GRAPHICS_TEXT else if p = 1 then x else if p = 2 then y else if p = 3 then n else 65)"

lemma write_from_stuck:
  assumes "graphics_write_from cmd p len s = Some r" "cmd p = GRAPHICS_TEXT" "cmd (p + 3) = - 4" "0 < len"
  shows False
  using assms
proof (induction rule: graphics_write_from.raw_induct [rotated, consumes 1, case_names step])
  case (step f cmd p len s r)
  then show ?case
    by (cases s; cases r) (auto simp: write_command_def GRAPHICS_TEXT_def GRAPHICS_FGCOLOR_def GRAPHICS_BGCOLOR_def GRAPHICS_RECT_def
        GRAPHICS_CLEAR_def GRAPHICS_LINE_def)
qed

lemma bitmap_step_paints:
  assumes "screen_ok b" "on_screen b x y" "alpha (fgcolor g) = 0" "alpha (bgcolor g) = 0"
  shows "\<exists>c \<in> {fgcolor g, bgcolor g}. paints (\<lambda>x' y'. x' = x \<and> y' = y) (red c, green c, blue c) b (snd (snd (bitmap_step g src x y (p, k, b))))"
  using paints_plot [OF assms(1,2)] assms(3,4) by (simp add: bitmap_step_def Let_def)

lemma text_cell:
  "pixel_color (snd (snd (fold (\<lambda>i. bitmap_step sample_graphics src (1 + word_of_nat i) 2) [0..<8] (0, 0, sample_bitmap)))) 1 2 \<noteq>
    pixel_color sample_bitmap 1 2"
proof -
  define inv where "inv n b \<longleftrightarrow> width b = 16 \<and> height b = 8 \<and> (0 < n \<longrightarrow> fst (pixel_color b 1 2) \<noteq> 7)" for n :: nat and b
  let ?f = "\<lambda>i. bitmap_step sample_graphics src (1 + word_of_nat i) 2"
  have "inv n (snd (snd (fold ?f [0..<n] (0, 0, sample_bitmap))))" if "n \<le> 8" for n
    using that
  proof (induction n)
    case 0
    show ?case by (simp add: inv_def sample_bitmap_def)
  next
    case (Suc n)
    obtain p k b where st: "fold ?f [0..<n] (0, 0, sample_bitmap) = (p, k, b)" by (metis prod_cases3)
    have inv: "inv n b" using Suc st by simp
    then have s: "screen_ok b" "on_screen b 1 2" by (simp_all add: inv_def screen_ok_def on_screen_def)
    have "uint (word_of_int (1 + int n) :: u32) = 1 + int n"
      using Suc.prems by (simp only: uint_word_of_int) (simp add: mod_pos_pos_trivial)
    then have u: "uint (1 + word_of_nat n :: u32) = 1 + int n" by simp
    then have "1 + word_of_nat n < (16 :: u32)" using Suc.prems by (simp add: word_less_def)
    moreover have "(1 :: u32) = 1 + word_of_nat n \<longleftrightarrow> n = 0" unfolding word_uint_eq_iff u by simp
    ultimately have o: "on_screen b (1 + word_of_nat n) 2" and eq: "(1 :: u32) = 1 + word_of_nat n \<longleftrightarrow> n = 0"
      using inv by (simp_all add: inv_def on_screen_def)
    have "alpha (fgcolor sample_graphics) = 0" "alpha (bgcolor sample_graphics) = 0"
      by (simp_all add: sample_graphics_simps color_white_def color_black_def)
    from bitmap_step_paints [OF s(1) o this, of src p k] obtain c
      where c: "c \<in> {fgcolor sample_graphics, bgcolor sample_graphics}"
        "paints (\<lambda>x' y'. x' = 1 + word_of_nat n \<and> y' = 2) (red c, green c, blue c) b (snd (snd (?f n (p, k, b))))"
      by blast
    have "red c \<noteq> 7" using c(1) by (auto simp: sample_graphics_simps color_white_def color_black_def)
    then have "inv (Suc n) (snd (snd (?f n (p, k, b))))"
      using c(2) inv s(2) eq unfolding inv_def paints_def by (cases "n = 0") auto
    then show ?case by (simp add: st)
  qed
  from this [of 8] show ?thesis by (auto simp: inv_def pixel_color_def Let_def sample_bitmap_def)
qed

text \<open>Text commands are not checked: one of length -4 is read again for ever, so that the call
  does not return; and a text at a negative position is drawn outside the clip.\<close>

theorem graphics_text_unchecked:
  "(\<forall>x y len s. 0 < len \<longrightarrow> graphics_write (text_stream x y (- 4)) len s = None) \<and>
   (\<exists>g' b'. graphics_write (text_stream (- 8) 0 1) 5 (sample_graphics, sample_bitmap) = Some (0, g', b') \<and>
      pixel_color b' 1 2 \<noteq> pixel_color sample_bitmap 1 2 \<and> \<not> in_clip sample_graphics 1 1 2)"
proof (intro conjI allI impI)
  fix x y s and len :: int assume "0 < len"
  then show "graphics_write (text_stream x y (- 4)) len s = None"
    using write_from_stuck [of "text_stream x y (- 4)" 0 len s] unfolding graphics_write_def
    by (cases "graphics_write_from (text_stream x y (- 4)) 0 len s") (simp_all add: text_stream_def)
next
  let ?b = "write_text sample_graphics (text_stream (- 8) 0 1) 0 sample_bitmap"
  have "graphics_write (text_stream (- 8) 0 1) 5 (sample_graphics, sample_bitmap) = Some (0, sample_graphics, ?b)"
    unfolding graphics_write_def
    by (subst graphics_write_from.simps) (simp add: graphics_write_from.simps [of _ 5] write_command_def text_stream_def GRAPHICS_TEXT_def GRAPHICS_FGCOLOR_def GRAPHICS_BGCOLOR_def GRAPHICS_RECT_def
        GRAPHICS_CLEAR_def GRAPHICS_LINE_def)
  moreover have "pixel_color ?b 1 2 \<noteq> pixel_color sample_bitmap 1 2"
    using text_cell [of "(\<lambda>i. fontdata (520 + i))"]
    by (simp add: write_text_def for_int_def text_stream_def graphics_char_def graphics_bitmap_def FONT_WIDTH_def FONT_HEIGHT_def
        sample_graphics_simps sample_bitmap_def upt_rec)
  moreover have "\<not> in_clip sample_graphics 1 1 2" by (simp add: in_clip_def sample_graphics_simps)
  ultimately show "\<exists>g' b'. graphics_write (text_stream (- 8) 0 1) 5 (sample_graphics, sample_bitmap) = Some (0, g', b') \<and>
      pixel_color b' 1 2 \<noteq> pixel_color sample_bitmap 1 2 \<and> \<not> in_clip sample_graphics 1 1 2" by blast
qed
end
