(* ===== verification/Window.thy ===== *)
theory Window
  imports Event_Queue Graphics
begin

text \<open>
  Windows: \<^verbatim>\<open>kernel/window.c\<close>, and the reference counts of the graphics objects of
  \<^verbatim>\<open>kernel/graphics.c\<close>.  The record \<open>gui\<close> extends the event queues by the windows, the graphics
  objects, the screen and the blocks given back to the allocator.  The addresses that
  \<^verbatim>\<open>kmalloc\<close> returns are arguments.
\<close>

section \<open>State\<close>

record gobject =
  gstate :: graphics
  g_parent :: ptr
  g_refcount :: int

record window =
  w_parent :: ptr
  w_graphics :: ptr
  w_queue :: ptr
  w_refcount :: int

record gui = equeues +
  gobjects :: "ptr \<Rightarrow> gobject"
  windows :: "ptr \<Rightarrow> window"
  screen :: bitmap
  gui_freed :: "ptr set"

type_synonym 'g gsys = "'g gui_scheme psys"

text \<open>The static objects.\<close>

definition event_queue_root :: ptr where "event_queue_root = 4"
definition graphics_root :: ptr where "graphics_root = 5"
definition window_root :: ptr where "window_root = 6"

definition upd_gui :: "('g gui_scheme \<Rightarrow> 'g gui_scheme) \<Rightarrow> 'g gsys \<Rightarrow> 'g gsys" where
  "upd_gui f s = s\<lparr>kobjs := f (kobjs s)\<rparr>"

definition upd_gobject :: "ptr \<Rightarrow> (gobject \<Rightarrow> gobject) \<Rightarrow> 'g gsys \<Rightarrow> 'g gsys" where
  "upd_gobject g f = upd_gui (\<lambda>u. u\<lparr>gobjects := (gobjects u)(g := f (gobjects u g))\<rparr>)"

definition upd_window :: "ptr \<Rightarrow> (window \<Rightarrow> window) \<Rightarrow> 'g gsys \<Rightarrow> 'g gsys" where
  "upd_window w f = upd_gui (\<lambda>u. u\<lparr>windows := (windows u)(w := f (windows u w))\<rparr>)"

definition gui_free :: "ptr \<Rightarrow> 'g gsys \<Rightarrow> 'g gsys" where
  "gui_free p = upd_gui (\<lambda>u. u\<lparr>gui_freed := insert p (gui_freed u)\<rparr>)"

section \<open>Graphics objects\<close>

definition graphics_addref :: "ptr \<Rightarrow> 'g gsys \<Rightarrow> 'g gsys" where
  "graphics_addref g = upd_gobject g (\<lambda>x. x\<lparr>g_refcount := g_refcount x + 1\<rparr>)"

definition graphics_create :: "ptr \<Rightarrow> ptr \<Rightarrow> 'g gsys \<Rightarrow> ptr \<times> 'g gsys" where
  "graphics_create g parent s =
     (if g = 0 then (0, s)
      else let s = upd_gobject g (\<lambda>_. gobjects (kobjs s) parent) s;
               s = graphics_addref parent s in
        (g, upd_gobject g (\<lambda>x. x\<lparr>g_parent := parent, g_refcount := 1\<rparr>) s))"

partial_function (option) graphics_delete :: "ptr \<Rightarrow> 'g gsys \<Rightarrow> 'g gsys option" where
  "graphics_delete g s =
     (if g = 0 \<or> g = graphics_root then Some s
      else let s = upd_gobject g (\<lambda>x. x\<lparr>g_refcount := g_refcount x - 1\<rparr>) s in
        if g_refcount (gobjects (kobjs s) g) = 0 then do {
          s \<leftarrow> graphics_delete (g_parent (gobjects (kobjs s) g)) s;
          Some (gui_free g s)
        } else Some s)"

text \<open>Operations on the drawing state of an object, and operations that draw on the screen.\<close>

definition draw :: "ptr \<Rightarrow> (graphics \<Rightarrow> bitmap \<Rightarrow> bitmap) \<Rightarrow> 'g gsys \<Rightarrow> 'g gsys" where
  "draw g f = upd_gui (\<lambda>u. u\<lparr>screen := f (gstate (gobjects u g)) (screen u)\<rparr>)"

definition set_clip :: "ptr \<Rightarrow> u32 \<Rightarrow> u32 \<Rightarrow> u32 \<Rightarrow> u32 \<Rightarrow> 'g gsys \<Rightarrow> 'g gsys" where
  "set_clip g x y w h s = upd_gobject g (\<lambda>obj. obj\<lparr>gstate := snd (graphics_clip (screen (kobjs s)) x y w h (gstate obj))\<rparr>) s"

section \<open>Windows\<close>

definition window_create_root :: "u16 \<Rightarrow> u16 \<Rightarrow> (u32 \<Rightarrow> u8) \<Rightarrow> 'g gsys \<Rightarrow> 'g gsys" where
  "window_create_root xres yres video s =
     (let b = bitmap_create_root xres yres video;
          s = upd_gui (\<lambda>u. u\<lparr>screen := b\<rparr>) s;
          s = upd_gobject graphics_root (\<lambda>_. \<lparr>gstate = graphics_create_root b, g_parent = 0, g_refcount = 1\<rparr>) s;
          s = event_queue_create event_queue_root s in
      upd_window window_root (\<lambda>_. \<lparr>w_parent = window_root, w_graphics = graphics_root, w_queue = event_queue_root, w_refcount = 1\<rparr>) s)"

text \<open>A failed allocation of the window, its graphics or its queue is followed by a write through null.\<close>

definition window_create :: "ptr \<times> ptr \<times> ptr \<Rightarrow> ptr \<Rightarrow> u32 \<Rightarrow> u32 \<Rightarrow> u32 \<Rightarrow> u32 \<Rightarrow> 'g gsys \<Rightarrow> (ptr \<times> 'g gsys) option" where
  "window_create fresh parent x y w' h' s =
     (case fresh of (w, g, q) \<Rightarrow>
        if w = 0 \<or> g = 0 \<or> q = 0 then None
        else let s = snd (graphics_create g (w_graphics (windows (kobjs s) parent)) s);
                 s = event_queue_create q (set_clip g x y w' h' s);
                 s = upd_window w (\<lambda>_. \<lparr>w_parent = parent, w_graphics = g, w_queue = q, w_refcount = 1\<rparr>) s in
          Some (w, upd_window parent (\<lambda>x. x\<lparr>w_refcount := w_refcount x + 1\<rparr>) s))"

definition window_addref :: "ptr \<Rightarrow> 'g gsys \<Rightarrow> 'g gsys" where
  "window_addref w = upd_window w (\<lambda>x. x\<lparr>w_refcount := w_refcount x + 1\<rparr>)"

partial_function (option) window_delete :: "ptr \<Rightarrow> 'g gsys \<Rightarrow> 'g gsys option" where
  "window_delete w s =
     (if w = 0 \<or> w = window_root then Some s
      else let s = upd_window w (\<lambda>x. x\<lparr>w_refcount := w_refcount x - 1\<rparr>) s; x = windows (kobjs s) w in
        if w_refcount x = 0 then do {
          s \<leftarrow> graphics_delete (w_graphics x) s;
          s \<leftarrow> window_delete (w_parent x) (gui_free (w_queue x) s);
          Some (gui_free w s)
        } else Some s)"

definition window_state :: "ptr \<Rightarrow> 'g gsys \<Rightarrow> graphics" where
  "window_state w s = gstate (gobjects (kobjs s) (w_graphics (windows (kobjs s) w)))"

definition window_width :: "ptr \<Rightarrow> 'g gsys \<Rightarrow> u32" where "window_width w s = graphics_width (window_state w s)"
definition window_height :: "ptr \<Rightarrow> 'g gsys \<Rightarrow> u32" where "window_height w s = graphics_height (window_state w s)"

text \<open>Events are posted while the size, compared as unsigned, has room for one; the result counts bytes.\<close>

fun post_events :: "ptr \<Rightarrow> event list \<Rightarrow> 'g gsys \<Rightarrow> 'g gsys option" where
  "post_events q [] s = Some s"
| "post_events q (e # es) s = do { s \<leftarrow> event_queue_post q e s; post_events q es s }"

definition window_post_events :: "ptr \<Rightarrow> (nat \<Rightarrow> event) \<Rightarrow> u32 \<Rightarrow> 'g gsys \<Rightarrow> (int \<times> 'g gsys) option" where
  "window_post_events w e sz s = do {
     let n = unat sz div 8;
     s \<leftarrow> post_events (w_queue (windows (kobjs s) w)) (map e [0..<n]) s;
     Some (i32 (int n * 8), s)
   }"

definition window_read_events where
  "window_read_events resume w sz s = event_queue_read resume (w_queue (windows (kobjs s) w)) sz s"

definition window_read_events_nonblock where
  "window_read_events_nonblock w sz s = event_queue_read_nonblock (w_queue (windows (kobjs s) w)) sz s"

definition window_write_graphics :: "ptr \<Rightarrow> (int \<Rightarrow> u32) \<Rightarrow> int \<Rightarrow> 'g gsys \<Rightarrow> (int \<times> 'g gsys) option" where
  "window_write_graphics w cmd len s = do {
     let g = w_graphics (windows (kobjs s) w);
     (r, x, b) \<leftarrow> graphics_write cmd len (gstate (gobjects (kobjs s) g), screen (kobjs s));
     Some (r, upd_gui (\<lambda>u. u\<lparr>screen := b\<rparr>) (upd_gobject g (\<lambda>y. y\<lparr>gstate := x\<rparr>) s))
   }"

end
