(* ===== verification/Window_Props.thy ===== *)
theory Window_Props
  imports Window Event_Queue_Props
begin

text \<open>
  The reference counts of windows: every window that is alive is held by a handle or by a child, and
  deleting a handle ends and frees exactly the windows that nothing holds any more.
\<close>

section \<open>The tree of windows\<close>

lemma gui_updates [simp]:
  "windows (kobjs (upd_window w f s)) = (windows (kobjs s))(w := f (windows (kobjs s) w))"
  "gobjects (kobjs (upd_window w f s)) = gobjects (kobjs s)"
  "gui_freed (kobjs (upd_window w f s)) = gui_freed (kobjs s)"
  "windows (kobjs (upd_gobject g h s)) = windows (kobjs s)"
  "gobjects (kobjs (upd_gobject g h s)) = (gobjects (kobjs s))(g := h (gobjects (kobjs s) g))"
  "gui_freed (kobjs (upd_gobject g h s)) = gui_freed (kobjs s)"
  "windows (kobjs (gui_free p s)) = windows (kobjs s)"
  "gobjects (kobjs (gui_free p s)) = gobjects (kobjs s)"
  "gui_freed (kobjs (gui_free p s)) = insert p (gui_freed (kobjs s))"
  "windows (kobjs (event_queue_create q s)) = windows (kobjs s)"
  "gobjects (kobjs (event_queue_create q s)) = gobjects (kobjs s)"
  "gui_freed (kobjs (event_queue_create q s)) = gui_freed (kobjs s)"
  by (simp_all add: upd_window_def upd_gobject_def upd_gui_def gui_free_def event_queue_create_def upd_equeue_def)

definition parent_of :: "'g gsys \<Rightarrow> ptr \<Rightarrow> ptr" where "parent_of s w = w_parent (windows (kobjs s) w)"
definition gfx_of :: "'g gsys \<Rightarrow> ptr \<Rightarrow> ptr" where "gfx_of s w = w_graphics (windows (kobjs s) w)"

definition children :: "'g gsys \<Rightarrow> ptr set \<Rightarrow> ptr \<Rightarrow> ptr set" where
  "children s L w = {v \<in> L - {window_root}. parent_of s v = w}"

definition counted :: "'g gsys \<Rightarrow> ptr set \<Rightarrow> (ptr \<Rightarrow> nat) \<Rightarrow> ptr \<Rightarrow> bool" where
  "counted s L H w \<longleftrightarrow>
     w_refcount (windows (kobjs s) w) = int (H w + card (children s L w)) \<and>
     0 < H w + card (children s L w) \<and>
     g_refcount (gobjects (kobjs s) (gfx_of s w)) = int (1 + card (children s L w)) \<and>
     g_parent (gobjects (kobjs s) (gfx_of s w)) = gfx_of s (parent_of s w)"

text \<open>\<open>L\<close> are the windows that are alive and \<open>H\<close> counts the handles of each.\<close>

definition win_inv :: "'g gsys \<Rightarrow> ptr set \<Rightarrow> (ptr \<Rightarrow> nat) \<Rightarrow> bool" where
  "win_inv s L H \<longleftrightarrow> finite L \<and> window_root \<in> L \<and> 0 \<notin> L \<and>
     (\<exists>rank :: ptr \<Rightarrow> nat. \<forall>w \<in> L - {window_root}. parent_of s w \<in> L \<and> rank (parent_of s w) < rank w) \<and>
     inj_on (gfx_of s) L \<and> gfx_of s window_root = graphics_root \<and> 0 \<notin> gfx_of s ` L \<and>
     (\<forall>w \<in> L - {window_root}. counted s L H w)"

lemma graphics_delete_leaf:
  assumes g: "g \<noteq> 0" "g \<noteq> graphics_root" "g_refcount (gobjects (kobjs s) g) = 1"
    and p: "g_parent (gobjects (kobjs s) g) = p" "p \<noteq> g" "p \<noteq> 0" "p = graphics_root \<or> g_refcount (gobjects (kobjs s) p) \<noteq> 1"
  shows "graphics_delete g s = Some (gui_free g
    ((if p = graphics_root then (\<lambda>s. s) else upd_gobject p (\<lambda>x. x\<lparr>g_refcount := g_refcount x - 1\<rparr>))
      (upd_gobject g (\<lambda>x. x\<lparr>g_refcount := 0\<rparr>) s)))"
  using assms
  by (subst graphics_delete.simps, subst graphics_delete.simps) (auto simp: Let_def upd_gobject_def upd_gui_def)

lemma win_inv_root: "win_inv s L H \<Longrightarrow> win_inv s L (H(window_root := k))"
  unfolding win_inv_def counted_def by simp

lemma finite_children: "finite L \<Longrightarrow> finite (children s L w)"
  by (simp add: children_def)

lemma win_inv_cong:
  assumes "win_inv s L H" "windows (kobjs s') = windows (kobjs s)" "gobjects (kobjs s') = gobjects (kobjs s)"
  shows "win_inv s' L H"
  using assms unfolding win_inv_def counted_def children_def parent_of_def gfx_of_def by simp

text \<open>
  The windows that something holds: the root, the windows with a handle, and the parents of
  windows that are held.
\<close>

inductive_set held :: "'g gsys \<Rightarrow> ptr set \<Rightarrow> (ptr \<Rightarrow> nat) \<Rightarrow> ptr set" for s :: "'g gsys" and L H where
  held_root: "window_root \<in> L \<Longrightarrow> window_root \<in> held s L H"
| held_handle: "w \<in> L \<Longrightarrow> 0 < H w \<Longrightarrow> w \<in> held s L H"
| held_parent: "v \<in> held s L H \<Longrightarrow> v \<noteq> window_root \<Longrightarrow> parent_of s v \<in> held s L H"

lemma held_mono: "w \<in> held s L H \<Longrightarrow> L \<subseteq> L' \<Longrightarrow> parent_of s' = parent_of s \<Longrightarrow> w \<in> held s' L' H"
proof (induction rule: held.induct)
  case (held_parent v)
  then show ?case using held.held_parent [of v s' L' H] by simp
qed (auto intro: held.intros)

lemma held_cong: "parent_of s' = parent_of s \<Longrightarrow> held s' L H = held s L H"
  using held_mono [of _ s L H L s'] held_mono [of _ s' L H L s] by auto

text \<open>While the counts are exact, something holds every living window.\<close>

lemma held_all:
  assumes "win_inv s L H"
  shows "held s L H = L"
proof -
  note i = assms [unfolded win_inv_def]
  from i obtain rank :: "ptr \<Rightarrow> nat" where rank: "\<And>w. w \<in> L - {window_root} \<Longrightarrow> parent_of s w \<in> L \<and> rank (parent_of s w) < rank w"
    by blast
  have "w \<in> L" if "w \<in> held s L H" for w
    using that rank by induction auto
  moreover have "w \<in> held s L H" if "w \<in> L" for w
    using that
  proof (induction "Max (rank ` L) - rank w" arbitrary: w rule: less_induct)
    case less
    show ?case
    proof (cases "w = window_root \<or> 0 < H w")
      case True
      then show ?thesis using less.prems by (auto intro: held.intros)
    next
      case False
      then have "counted s L H w" "finite (children s L w)" using i less.prems finite_children by auto
      then have "children s L w \<noteq> {}" using False by (auto simp: counted_def)
      then obtain v where v: "v \<in> L" "v \<noteq> window_root" "parent_of s v = w" by (auto simp: children_def)
      have "rank v \<le> Max (rank ` L)" using i v(1) by (intro Max_ge) auto
      moreover have "rank w < rank v" using rank [of v] v by simp
      ultimately have "v \<in> held s L H" using v(1) by (intro less.hyps) auto
      then show ?thesis using held_parent [of v s L H] v by simp
    qed
  qed
  ultimately show ?thesis by blast
qed

lemma held_without: "x \<noteq> window_root \<Longrightarrow> held s (L - {x}) (H(x := 0)) = held s L (H(x := 0))"
proof
  assume x: "x \<noteq> window_root"
  show "held s (L - {x}) (H(x := 0)) \<subseteq> held s L (H(x := 0))" using held_mono [of _ s "L - {x}" "H(x := 0)" L s] by auto
  show "held s L (H(x := 0)) \<subseteq> held s (L - {x}) (H(x := 0))"
  proof
    fix w assume "w \<in> held s L (H(x := 0))"
    then show "w \<in> held s (L - {x}) (H(x := 0))"
      using x by induction (auto intro: held.intros split: if_splits)
  qed
qed

text \<open>What belongs to a window and is freed with it.\<close>

definition window_blocks :: "'g gsys \<Rightarrow> ptr \<Rightarrow> ptr set" where
  "window_blocks s w = {w, gfx_of s w, w_queue (windows (kobjs s) w)}"

text \<open>Dropping the last reference of a window without children.\<close>

lemma release_window:
  assumes inv: "win_inv s L H" and x: "x \<in> L" "x \<noteq> window_root" "H x = 1" "children s L x = {}"
  defines "p \<equiv> parent_of s x" and "s0 \<equiv> upd_window x (\<lambda>w. w\<lparr>w_refcount := w_refcount w - 1\<rparr>) s"
  shows "\<exists>s1. graphics_delete (gfx_of s x) s0 = Some s1 \<and> win_inv s1 (L - {x}) (H(x := 0, p := H p + 1)) \<and>
    parent_of s1 = parent_of s \<and> window_blocks s1 = window_blocks s \<and>
    gui_freed (kobjs s1) = insert (gfx_of s x) (gui_freed (kobjs s))"
proof -
  let ?g = "gfx_of s" and ?o = "gobjects (kobjs s)"
  note i = inv [unfolded win_inv_def]
  from i obtain rank :: "ptr \<Rightarrow> nat" where rank: "\<And>w. w \<in> L - {window_root} \<Longrightarrow> parent_of s w \<in> L \<and> rank (parent_of s w) < rank w"
    by blast
  have pL: "p \<in> L" "p \<noteq> x" using rank [of x] x unfolding p_def by auto
  have ginj: "?g w = ?g v \<longleftrightarrow> w = v" if "w \<in> L" "v \<in> L" for w v using i that by (auto simp: inj_on_def)
  have g0: "?g w \<noteq> 0" if "w \<in> L" for w using i that by auto
  have root: "?g window_root = graphics_root" "window_root \<in> L" using i by auto
  have cx: "counted s L H x" using i x by blast
  have xp: "x \<in> children s L p" using x by (simp add: children_def p_def)
  have fin: "finite (children s L w)" for w using i finite_children by blast
  have cp: "p \<noteq> window_root \<Longrightarrow> counted s L H p" using i pL by blast
  have gp: "p = window_root \<longleftrightarrow> ?g p = graphics_root" using ginj [OF pL(1) root(2)] root(1) by simp
  have card1: "0 < card (children s L p)" using xp fin [of p] by (auto simp: card_gt_0_iff)
  define s1 where "s1 = gui_free (?g x)
    ((if ?g p = graphics_root then (\<lambda>s. s) else upd_gobject (?g p) (\<lambda>x. x\<lparr>g_refcount := g_refcount x - 1\<rparr>))
      (upd_gobject (?g x) (\<lambda>x. x\<lparr>g_refcount := 0\<rparr>) s0))"
  have "graphics_delete (?g x) s0 = Some s1"
    unfolding s1_def
  proof (rule graphics_delete_leaf)
    show "?g x \<noteq> graphics_root" using ginj [OF x(1) root(2)] root(1) x(2) by simp
    show "g_refcount (gobjects (kobjs s0) (?g x)) = 1" using cx x(4) by (simp add: s0_def counted_def)
    show "g_parent (gobjects (kobjs s0) (?g x)) = ?g p" using cx by (simp add: s0_def counted_def p_def)
    show "?g p = graphics_root \<or> g_refcount (gobjects (kobjs s0) (?g p)) \<noteq> 1"
      using cp gp card1 by (auto simp: s0_def counted_def)
  qed (use g0 x pL ginj in auto)
  moreover have w1: "windows (kobjs s1) = (windows (kobjs s))(x := (windows (kobjs s) x)\<lparr>w_refcount := w_refcount (windows (kobjs s) x) - 1\<rparr>)"
    by (simp add: s1_def s0_def)
  have o1: "gobjects (kobjs s1) (?g w) = (if w = p then (?o (?g p))\<lparr>g_refcount := g_refcount (?o (?g p)) - 1\<rparr> else ?o (?g w))"
    if "w \<in> L - {x} - {window_root}" for w
    using that ginj pL x gp by (auto simp: s1_def s0_def)
  have par: "parent_of s1 = parent_of s" "gfx_of s1 = ?g" by (auto simp: parent_of_def gfx_of_def w1 fun_eq_iff)
  have wb: "window_blocks s1 = window_blocks s" by (auto simp: window_blocks_def par w1 fun_eq_iff)
  have fr: "gui_freed (kobjs s1) = insert (?g x) (gui_freed (kobjs s))" by (simp add: s1_def s0_def)
  have ch: "children s1 (L - {x}) w = children s L w - {x}" for w by (auto simp: children_def par)
  have chp: "card (children s1 (L - {x}) w) = (if w = p then card (children s L p) - 1 else card (children s L w))" for w
  proof (cases "w = p")
    case False
    then have "x \<notin> children s L w" by (auto simp: children_def p_def)
    with False show ?thesis by (simp add: ch)
  qed (use xp fin in \<open>simp add: ch\<close>)
  have noroot: "w \<noteq> p \<or> p \<noteq> window_root" if "w \<noteq> window_root" for w using that by auto
  have "counted s1 (L - {x}) (H(x := 0, p := H p + 1)) w" if w: "w \<in> L - {x} - {window_root}" for w
  proof -
    have "counted s L H w" using i w by blast
    with w card1 show ?thesis unfolding counted_def by (auto simp: chp par o1 w1)
  qed
  moreover have "parent_of s1 w \<in> L - {x} \<and> rank (parent_of s1 w) < rank w" if "w \<in> L - {x} - {window_root}" for w
    using rank [of w] that x(4) by (auto simp: par children_def)
  ultimately show ?thesis using i x par wb fr unfolding win_inv_def by (auto simp: inj_on_def)
qed

text \<open>
  Deleting a handle ends; the windows that stay are those something still holds, the others are
  freed with what belongs to them.
\<close>

lemma window_delete_inv:
  assumes "win_inv s L H" "x \<in> L" "x \<noteq> window_root" "0 < H x"
  defines "H' \<equiv> H(x := H x - 1)"
  shows "\<exists>s'. window_delete x s = Some s' \<and> win_inv s' (held s L H') H' \<and> held s L H' \<subseteq> L \<and> parent_of s' = parent_of s \<and>
    gui_freed (kobjs s') = gui_freed (kobjs s) \<union> \<Union> (window_blocks s ` (L - held s L H'))"
proof -
  obtain rank :: "ptr \<Rightarrow> nat" where rank: "\<forall>w \<in> L - {window_root}. parent_of s w \<in> L \<and> rank (parent_of s w) < rank w"
    using assms(1) unfolding win_inv_def by blast
  show ?thesis using assms(1-4) rank unfolding H'_def
  proof (induction "rank x" arbitrary: x s L H rule: less_induct)
    case less
    let ?s = "upd_window x (\<lambda>w. w\<lparr>w_refcount := w_refcount w - 1\<rparr>) s" and ?p = "parent_of s x"
    note i = less.prems(1) [unfolded win_inv_def]
    have c: "counted s L H x" using i less.prems by blast
    have nz: "x \<noteq> 0" using i less.prems by metis
    show ?case
    proof (cases "H x = 1 \<and> children s L x = {}")
      case True
      let ?H = "H(x := 0, ?p := H ?p + 1)"
      from release_window [OF less.prems(1,2,3)] True obtain s1 where s1: "graphics_delete (gfx_of s x) ?s = Some s1"
        "win_inv s1 (L - {x}) ?H" "parent_of s1 = parent_of s" "window_blocks s1 = window_blocks s"
        "gui_freed (kobjs s1) = insert (gfx_of s x) (gui_freed (kobjs s))" by blast
      let ?s1 = "gui_free (w_queue (windows (kobjs s) x)) s1" and ?L = "held s (L - {x}) (H(x := 0))"
      have inv1: "win_inv ?s1 (L - {x}) ?H" by (rule win_inv_cong [OF s1(2)]) simp_all
      have par1: "parent_of ?s1 = parent_of s" "window_blocks ?s1 = window_blocks s"
        using s1(3,4) by (simp_all add: parent_of_def gfx_of_def window_blocks_def fun_eq_iff)
      have "?p \<in> L" "rank ?p < rank x" using less.prems(2,3,5) by auto
      then have px: "?p \<noteq> x" by auto
      have "\<exists>s'. window_delete ?p ?s1 = Some s' \<and> win_inv s' ?L (H(x := 0)) \<and> ?L \<subseteq> L - {x} \<and> parent_of s' = parent_of s \<and>
          gui_freed (kobjs s') = gui_freed (kobjs ?s1) \<union> \<Union> (window_blocks s ` (L - {x} - ?L))"
      proof (cases "?p = window_root")
        case True
        have "?H(window_root := H window_root) = H(x := 0)"
          using True px by (simp add: fun_eq_iff)
        with win_inv_root [OF inv1, of "H window_root"] have inv2: "win_inv ?s1 (L - {x}) (H(x := 0))" by simp
        have "window_delete ?p ?s1 = Some ?s1" unfolding True by (subst window_delete.simps) simp
        moreover have "?L = L - {x}" using held_all [OF inv2] held_cong [OF par1(1)] by simp
        ultimately show ?thesis using inv2 par1 by simp
      next
        case False
        have h: "?H(?p := ?H ?p - 1) = H(x := 0)" using px by (simp add: fun_eq_iff)
        have "\<forall>w \<in> L - {x} - {window_root}. parent_of ?s1 w \<in> L - {x} \<and> rank (parent_of ?s1 w) < rank w"
          using less.prems(5) True unfolding par1 children_def by auto
        from less.hyps [OF \<open>rank ?p < rank x\<close> inv1 _ False _ this] \<open>?p \<in> L\<close> px
        show ?thesis unfolding h par1 held_cong [OF par1(1)] by simp
      qed
      then obtain s' where s': "window_delete ?p ?s1 = Some s'" "win_inv s' ?L (H(x := 0))" "?L \<subseteq> L - {x}" "parent_of s' = parent_of s"
        "gui_freed (kobjs s') = gui_freed (kobjs ?s1) \<union> \<Union> (window_blocks s ` (L - {x} - ?L))" by blast
      have d: "window_delete x s = Some (gui_free x s')"
        using less.prems(3) nz c True s1(1) s'(1)
        by (subst window_delete.simps) (simp add: Let_def counted_def gfx_of_def parent_of_def)
      have h: "H(x := H x - 1) = H(x := 0)" "held s L (H(x := 0)) = ?L"
        using True held_without [OF less.prems(3), of s L H] by (simp_all add: fun_eq_iff)
      have "L - ?L = insert x (L - {x} - ?L)" using less.prems(2) s'(3) by auto
      then have "gui_freed (kobjs (gui_free x s')) = gui_freed (kobjs s) \<union> \<Union> (window_blocks s ` (L - ?L))"
        using s'(5) s1(5) by (auto simp: window_blocks_def)
      moreover have "win_inv (gui_free x s') ?L (H(x := 0))" by (rule win_inv_cong [OF s'(2)]) simp_all
      moreover have "parent_of (gui_free x s') = parent_of s" using s'(4) by (simp add: parent_of_def fun_eq_iff)
      ultimately show ?thesis unfolding h using d s'(3) by auto
    next
      case False
      have "finite (children s L x)" using i finite_children by blast
      then have "children s L x = {} \<or> 0 < card (children s L x)" by (simp add: card_gt_0_iff)
      with False less.prems(4) have ne: "1 < H x + card (children s L x)" by auto
      have par: "parent_of ?s = parent_of s" "gfx_of ?s = gfx_of s" by (auto simp: parent_of_def gfx_of_def fun_eq_iff)
      then have ch: "children ?s L = children s L" by (simp add: children_def fun_eq_iff)
      have d: "window_delete x s = Some ?s"
        using less.prems(3) nz c ne by (subst window_delete.simps) (simp add: Let_def counted_def)
      have inv: "win_inv ?s L (H(x := H x - 1))"
        using i ne less.prems(4) unfolding win_inv_def counted_def par ch by auto
      from held_all [OF inv] have "held s L (H(x := H x - 1)) = L" by (simp add: held_cong [OF par(1)])
      then show ?thesis using d inv par(1) by simp
    qed
  qed
qed

lemma window_create_inv:
  assumes inv: "win_inv s L H" and p: "p \<in> L"
    and fresh: "w \<noteq> 0" "w \<notin> L" "g \<noteq> 0" "g \<notin> gfx_of s ` L" "q \<noteq> 0"
  shows "\<exists>s'. window_create (w, g, q) p x y cw ch s = Some (w, s') \<and> win_inv s' (insert w L) (H(w := 1)) \<and>
    parent_of s' w = p \<and> gfx_of s' w = g"
proof -
  let ?g = "gfx_of s"
  note i = inv [unfolded win_inv_def]
  from i obtain rank :: "ptr \<Rightarrow> nat" where rank: "\<And>v. v \<in> L - {window_root} \<Longrightarrow> parent_of s v \<in> L \<and> rank (parent_of s v) < rank v"
    by blast
  define s' where "s' = snd (the (window_create (w, g, q) p x y cw ch s))"
  have s': "window_create (w, g, q) p x y cw ch s = Some (w, s')"
    using fresh by (simp add: s'_def window_create_def Let_def)
  have pw: "p \<noteq> w" and root: "window_root \<noteq> w" "?g window_root = graphics_root" using p fresh i by auto
  have gg: "?g v \<noteq> g" if "v \<in> L" for v using fresh(4) that by auto
  have W: "windows (kobjs s') = (windows (kobjs s))(w := \<lparr>w_parent = p, w_graphics = g, w_queue = q, w_refcount = 1\<rparr>,
      p := (windows (kobjs s) p)\<lparr>w_refcount := w_refcount (windows (kobjs s) p) + 1\<rparr>)"
    using fresh pw by (simp add: s'_def window_create_def Let_def graphics_create_def graphics_addref_def set_clip_def)
  have par: "parent_of s' v = (if v = w then p else parent_of s v)" "gfx_of s' v = (if v = w then g else ?g v)" for v
    using pw by (auto simp: parent_of_def gfx_of_def W)
  have G: "g_refcount (gobjects (kobjs s') v) = (if v = g then 1 else if v = ?g p then g_refcount (gobjects (kobjs s) v) + 1 else g_refcount (gobjects (kobjs s) v))"
    "g_parent (gobjects (kobjs s') v) = (if v = g then ?g p else g_parent (gobjects (kobjs s) v))" for v
    using fresh gg [OF p] pw
    by (auto simp: s'_def window_create_def Let_def graphics_create_def graphics_addref_def set_clip_def gfx_of_def)
  have noch: "children s L w = {}" using rank fresh(2) by (auto simp: children_def)
  have ch: "children s' (insert w L) v = (if v = p then insert w (children s L p) else if v = w then {} else children s L v)" for v
    using pw root fresh(2) noch by (auto simp: children_def par)
  have fin: "finite (children s L v)" "w \<notin> children s L v" for v using i finite_children fresh(2) by (auto simp: children_def)
  have ginj: "?g u = ?g v \<longleftrightarrow> u = v" if "u \<in> L" "v \<in> L" for u v using i that by (auto simp: inj_on_def)
  have "counted s' (insert w L) (H(w := 1)) v" if v: "v \<in> insert w L - {window_root}" for v
  proof (cases "v = w")
    case True
    have "H w = 0 \<or> True" by simp
    then show ?thesis using True pw gg [OF p] unfolding counted_def ch par G W by simp
  next
    case False
    then have vL: "v \<in> L" using v by simp
    then have "counted s L H v" using i v by blast
    moreover have "parent_of s v \<noteq> w" using rank [of v] v vL fresh(2) by auto
    ultimately show ?thesis using False gg [OF vL] ginj [OF vL p] fin unfolding counted_def ch par G W
      by (auto simp: card_insert_if)
  qed
  moreover have "\<exists>r. \<forall>v \<in> insert w L - {window_root}. parent_of s' v \<in> insert w L \<and> r (parent_of s' v) < (r v :: nat)"
  proof (intro exI [of _ "rank(w := rank p + 1)"] ballI)
    fix v assume "v \<in> insert w L - {window_root}"
    then show "parent_of s' v \<in> insert w L \<and> (rank(w := rank p + 1)) (parent_of s' v) < (rank(w := rank p + 1)) v"
      using rank [of v] pw p fresh(2) by (cases "v = w") (auto simp: par)
  qed
  moreover have "inj_on (gfx_of s') (insert w L)" "gfx_of s' window_root = graphics_root" "0 \<notin> gfx_of s' ` insert w L"
    using i gg fresh root by (auto simp: inj_on_def par)
  moreover have "finite (insert w L)" "window_root \<in> insert w L" "0 \<notin> insert w L" using i fresh by auto
  ultimately have "win_inv s' (insert w L) (H(w := 1))" unfolding win_inv_def by blast
  with s' show ?thesis by (auto simp: par)
qed

lemma window_addref_inv:
  assumes "win_inv s L H" "x \<in> L" "x \<noteq> window_root"
  shows "win_inv (window_addref x s) L (H(x := H x + 1))"
proof -
  have par: "parent_of (window_addref x s) = parent_of s" "gfx_of (window_addref x s) = gfx_of s"
    by (auto simp: parent_of_def gfx_of_def fun_eq_iff window_addref_def)
  then have ch: "children (window_addref x s) L = children s L" by (simp add: children_def fun_eq_iff)
  show ?thesis using assms unfolding win_inv_def counted_def par ch by (auto simp: window_addref_def)
qed

section \<open>Properties\<close>

text \<open>Claim C31.  The counts of windows stay exact: creating a window, adding a reference and dropping one keep
  every living window's count at the number of its handles and children, with a graphics object that its
  children's point to.  Dropping a reference always ends.  The windows that stay alive are exactly those
  that are still held, the root, the windows with a handle left and their ancestors, each with its parent as
  before, and what is freed is exactly the others, each with its graphics object and its event queue.\<close>

theorem window_tree_invariant:
  assumes "win_inv s L H" "x \<in> L"
  shows "(\<forall>w g q cx cy cw ch. w \<noteq> 0 \<and> w \<notin> L \<and> g \<noteq> 0 \<and> g \<notin> gfx_of s ` L \<and> q \<noteq> 0 \<longrightarrow>
      (\<exists>s'. window_create (w, g, q) x cx cy cw ch s = Some (w, s') \<and> win_inv s' (insert w L) (H(w := 1)))) \<and>
    (x \<noteq> window_root \<longrightarrow> win_inv (window_addref x s) L (H(x := H x + 1))) \<and>
    (x \<noteq> window_root \<and> 0 < H x \<longrightarrow>
      (let H' = H(x := H x - 1); L' = held s L H' in
        \<exists>s'. window_delete x s = Some s' \<and> L' \<subseteq> L \<and> win_inv s' L' H' \<and> parent_of s' = parent_of s \<and>
          gui_freed (kobjs s') = gui_freed (kobjs s) \<union> \<Union> (window_blocks s ` (L - L'))))"
proof (intro conjI impI)
  show "\<forall>w g q cx cy cw ch. w \<noteq> 0 \<and> w \<notin> L \<and> g \<noteq> 0 \<and> g \<notin> gfx_of s ` L \<and> q \<noteq> 0 \<longrightarrow>
      (\<exists>s'. window_create (w, g, q) x cx cy cw ch s = Some (w, s') \<and> win_inv s' (insert w L) (H(w := 1)))"
    using window_create_inv [OF assms] by blast
  show "x \<noteq> window_root \<Longrightarrow> win_inv (window_addref x s) L (H(x := H x + 1))" by (rule window_addref_inv [OF assms])
  assume x: "x \<noteq> window_root \<and> 0 < H x"
  then show "let H' = H(x := H x - 1); L' = held s L H' in
        \<exists>s'. window_delete x s = Some s' \<and> L' \<subseteq> L \<and> win_inv s' L' H' \<and> parent_of s' = parent_of s \<and>
          gui_freed (kobjs s') = gui_freed (kobjs s) \<union> \<Union> (window_blocks s ` (L - L'))"
    using window_delete_inv [OF assms conjunct1 [OF x] conjunct2 [OF x]] unfolding Let_def by blast
qed

text \<open>The root window, and one window at address 20.\<close>

definition sample_gui :: "gui psys" where
  "sample_gui = with_objects sample_kernel
     \<lparr>equeue = (\<lambda>_. \<lparr>ebuf = (\<lambda>_. zero_event), ehead = 0, etail = 0, overflow_count = 0\<rparr>),
      gobjects = (\<lambda>g. \<lparr>gstate = graphics_create_root (bitmap_create_root 640 480 (\<lambda>_. 0)), g_parent = (if g = 21 then graphics_root else 0), g_refcount = 1\<rparr>),
      windows = (\<lambda>w. \<lparr>w_parent = window_root, w_graphics = (if w = window_root then graphics_root else w + 1),
                      w_queue = (if w = window_root then event_queue_root else w + 2), w_refcount = 1\<rparr>),
      screen = bitmap_create_root 640 480 (\<lambda>_. 0), gui_freed = {}\<rparr>"

lemma sample_gui_inv: "win_inv sample_gui {window_root, 20} (\<lambda>w. if w = 20 then 1 else 0)"
proof -
  have k: "windows (kobjs sample_gui) = (\<lambda>w. \<lparr>w_parent = window_root, w_graphics = (if w = window_root then graphics_root else w + 1),
                      w_queue = (if w = window_root then event_queue_root else w + 2), w_refcount = 1\<rparr>)"
    "g_parent (gobjects (kobjs sample_gui) g) = (if g = 21 then graphics_root else 0)" "g_refcount (gobjects (kobjs sample_gui) g) = 1" for g
    by (simp_all add: sample_gui_def with_objects_def)
  have "children sample_gui {window_root, 20} 20 = {}"
    by (auto simp: children_def parent_of_def k window_root_def)
  then have "counted sample_gui {window_root, 20} (\<lambda>w. if w = 20 then 1 else 0) 20"
    by (simp add: counted_def gfx_of_def parent_of_def k window_root_def)
  then show ?thesis unfolding win_inv_def
    by (auto simp: parent_of_def gfx_of_def k window_root_def graphics_root_def intro: exI [of _ "\<lambda>w. w"])
qed

theorem window_tree_invariant_witness:
  "\<exists>s'. window_delete 20 sample_gui = Some s' \<and> win_inv s' {window_root} (\<lambda>_. 0) \<and> gui_freed (kobjs s') = {20, 21, 22}"
proof -
  have H: "(\<lambda>w :: ptr. if w = 20 then 1 else 0)(20 := 0) = (\<lambda>_. 0 :: nat)" by (simp add: fun_eq_iff)
  have "w = window_root" if "w \<in> held sample_gui {window_root, 20} (\<lambda>_. 0)" for w
    using that by induction simp_all
  then have "held sample_gui {window_root, 20} (\<lambda>_. 0) = {window_root}" by (auto intro: held.intros)
  moreover have "window_blocks sample_gui 20 = {20, 21, 22}" "gui_freed (kobjs sample_gui) = {}"
    by (simp_all add: window_blocks_def gfx_of_def sample_gui_def with_objects_def window_root_def)
  moreover have "{window_root, 20} - {window_root} = {20}" by (auto simp: window_root_def)
  ultimately show ?thesis
    using window_tree_invariant [OF sample_gui_inv, of 20] H by (auto simp: window_root_def)
qed

end
