(* ===== verification/Console.thy ===== *)
theory Console
  imports Window
begin

text \<open>
  Consoles: \<^verbatim>\<open>kernel/console.c\<close>, text terminals on windows.  A console has a cursor \<open>(xpos, ypos)\<close> in cells of
  eight by eight pixels; the positions and sizes are C \<^verbatim>\<open>int\<close>s.  The record of consoles extends \<open>gui\<close>.
\<close>

section \<open>State\<close>

record console =
  c_window :: ptr
  gx :: ptr
  xsize :: int
  ysize :: int
  xpos :: int
  ypos :: int
  onoff :: bool
  c_refcount :: int

record cgui = gui +
  consoles :: "ptr \<Rightarrow> console"

type_synonym 'g csys = "'g cgui_scheme psys"

definition console_root :: ptr where "console_root = 7"

definition upd_console :: "ptr \<Rightarrow> (console \<Rightarrow> console) \<Rightarrow> 'g csys \<Rightarrow> 'g csys" where
  "upd_console c f s = s\<lparr>kobjs := (kobjs s)\<lparr>consoles := (consoles (kobjs s))(c := f (consoles (kobjs s) c))\<rparr>\<rparr>"

definition console_bgcolor :: graphics_color where "console_bgcolor = \<lparr>red = 0, green = 0, blue = 0, alpha = 0\<rparr>"
definition console_fgcolor :: graphics_color where "console_fgcolor = \<lparr>red = 255, green = 255, blue = 255, alpha = 0\<rparr>"

section \<open>Output\<close>

text \<open>The size in cells of the graphics object, and painting it black.\<close>

definition gx_state :: "ptr \<Rightarrow> 'g csys \<Rightarrow> graphics" where
  "gx_state c s = gstate (gobjects (kobjs s) (gx (consoles (kobjs s) c)))"

definition console_home :: "ptr \<Rightarrow> 'g csys \<Rightarrow> 'g csys" where
  "console_home c s =
     (let g = gx (consoles (kobjs s) c); w = graphics_width (gx_state c s); h = graphics_height (gx_state c s);
          s = upd_console c (\<lambda>x. x\<lparr>xpos := 0, ypos := 0, xsize := uint (w div 8), ysize := uint (h div 8)\<rparr>) s;
          s = upd_gobject g (\<lambda>y. y\<lparr>gstate := graphics_bgcolor console_bgcolor (graphics_fgcolor console_fgcolor (gstate y))\<rparr>) s in
      draw g (\<lambda>gs. graphics_clear gs 0 0 w h) s)"

definition console_reset :: "ptr \<Rightarrow> 'g csys \<Rightarrow> 'g csys" where
  "console_reset c s =
     (if c = 0 \<or> gx (consoles (kobjs s) c) = 0 then s
      else console_home c (upd_console c (\<lambda>x. x\<lparr>onoff := False\<rparr>) s))"

definition put_cell :: "ptr \<Rightarrow> u8 \<Rightarrow> 'g csys \<Rightarrow> 'g csys" where
  "put_cell c ch s =
     (let x = consoles (kobjs s) c in
      draw (gx x) (\<lambda>gs. graphics_char gs (word_of_int (xpos x * 8)) (word_of_int (ypos x * 8)) ch) s)"

definition console_heartbeat :: "ptr \<Rightarrow> 'g csys \<Rightarrow> 'g csys" where
  "console_heartbeat c s =
     upd_console c (\<lambda>x. x\<lparr>onoff := \<not> onoff x\<rparr>) (put_cell c (if onoff (consoles (kobjs s) c) then 32 else 95) s)"

text \<open>One round of the loop of \<^verbatim>\<open>console_write\<close>: the character, then the three corrections of the cursor.\<close>

definition console_char :: "ptr \<Rightarrow> u8 \<Rightarrow> 'g csys \<Rightarrow> 'g csys" where
  "console_char c ch s =
     (if ch = 13 \<or> ch = 10 then upd_console c (\<lambda>x. x\<lparr>xpos := 0, ypos := ypos x + 1\<rparr>) s
      else if ch = 12 then console_home c s
      else if ch = 8 then upd_console c (\<lambda>x. x\<lparr>xpos := xpos x - 1\<rparr>) s
      else upd_console c (\<lambda>x. x\<lparr>xpos := xpos x + 1\<rparr>) (put_cell c ch s))"

definition console_wrap :: "ptr \<Rightarrow> 'g csys \<Rightarrow> 'g csys" where
  "console_wrap c s =
     (let s = upd_console c (\<lambda>x. if xpos x < 0 then x\<lparr>xpos := xsize x - 1, ypos := ypos x - 1\<rparr> else x) s;
          s = upd_console c (\<lambda>x. if xsize x \<le> xpos x then x\<lparr>xpos := 0, ypos := ypos x + 1\<rparr> else x) s in
      if ysize (consoles (kobjs s) c) \<le> ypos (consoles (kobjs s) c) then console_home c s else s)"

definition console_write :: "ptr \<Rightarrow> u8 list \<Rightarrow> 'g csys \<Rightarrow> int \<times> 'g csys" where
  "console_write c data s =
     (let s = put_cell c 32 s;
          s = fold (\<lambda>ch s. console_wrap c (console_char c ch s)) data s in
      (int (length data), put_cell c 95 s))"

definition console_putchar :: "ptr \<Rightarrow> u8 \<Rightarrow> 'g csys \<Rightarrow> 'g csys" where
  "console_putchar c ch s = snd (console_write c [ch] s)"

definition console_putstring :: "ptr \<Rightarrow> u8 list \<Rightarrow> 'g csys \<Rightarrow> 'g csys" where
  "console_putstring c str s = snd (console_write c str s)"

section \<open>Input\<close>

text \<open>The \<^verbatim>\<open>char\<close>s of the data are signed.\<close>

fun console_post_loop :: "ptr \<Rightarrow> u8 list \<Rightarrow> 'g csys \<Rightarrow> 'g csys option" where
  "console_post_loop w [] s = Some s"
| "console_post_loop w (ch # data) s = do {
     (r, s) \<leftarrow> window_post_events w (\<lambda>_. \<lparr>etype = EVENT_KEY_DOWN, ecode = scast ch, ex = 0, ey = 0\<rparr>) SIZEOF_EVENT s;
     console_post_loop w data s
   }"

definition console_post :: "ptr \<Rightarrow> u8 list \<Rightarrow> 'g csys \<Rightarrow> (int \<times> 'g csys) option" where
  "console_post c data s = map_option (\<lambda>s. (int (length data), s)) (console_post_loop (c_window (consoles (kobjs s) c)) data s)"

text \<open>The loop of \<^verbatim>\<open>console_read\<close> and \<^verbatim>\<open>console_read_nonblock\<close>, which differ in the function that reads one
  event; \<open>n\<close> characters are still wanted.\<close>

partial_function (option) console_read_loop ::
    "('g csys \<Rightarrow> (int \<times> event list \<times> 'g csys) option) \<Rightarrow> int \<Rightarrow> u8 list \<Rightarrow> 'g csys \<Rightarrow> (u8 list \<times> 'g csys) option" where
  "console_read_loop rd n out s =
     (if 0 < n then do {
        (r, es, s) \<leftarrow> rd s;
        if r \<noteq> 0 then
          (if es \<noteq> [] \<and> etype (hd es) = EVENT_KEY_DOWN then console_read_loop rd (n - 1) (out @ [ucast (ecode (hd es))]) s
           else console_read_loop rd n out s)
        else Some (out, s)
      } else Some (out, s))"

definition console_read where
  "console_read resume c n s =
     console_read_loop (window_read_events resume (c_window (consoles (kobjs s) c)) SIZEOF_EVENT) n [] s"

definition console_read_nonblock where
  "console_read_nonblock c n s =
     console_read_loop (window_read_events_nonblock (c_window (consoles (kobjs s) c)) SIZEOF_EVENT) n [] s"

definition console_getchar where
  "console_getchar resume c s = map_option (\<lambda>(out, s). (if out \<noteq> [] then hd out else 0, s)) (console_read resume c 1 s)"

section \<open>Lifetime\<close>

definition console_create :: "ptr \<Rightarrow> ptr \<Rightarrow> 'g csys \<Rightarrow> (ptr \<times> 'g csys) option" where
  "console_create c w s =
     (if c = 0 then None
      else let s = window_addref w s;
               s = upd_console c (\<lambda>x. x\<lparr>c_window := w, gx := w_graphics (windows (kobjs s) w), c_refcount := 1\<rparr>) s in
        Some (c, console_reset c s))"

definition console_addref :: "ptr \<Rightarrow> 'g csys \<Rightarrow> 'g csys" where
  "console_addref c = upd_console c (\<lambda>x. x\<lparr>c_refcount := c_refcount x + 1\<rparr>)"

definition console_delete :: "ptr \<Rightarrow> 'g csys \<Rightarrow> 'g csys option" where
  "console_delete c s =
     (if c = console_root then Some s
      else let s = upd_console c (\<lambda>x. x\<lparr>c_refcount := c_refcount x - 1\<rparr>) s in
        if c_refcount (consoles (kobjs s) c) = 0
        then map_option (gui_free c) (window_delete (c_window (consoles (kobjs s) c)) s)
        else Some s)"

definition console_size :: "ptr \<Rightarrow> 'g csys \<Rightarrow> int \<times> int" where
  "console_size c s = (xsize (consoles (kobjs s) c), ysize (consoles (kobjs s) c))"

text \<open>The text \<^verbatim>\<open>console: initialized\<close> on a line of its own.\<close>

definition console_banner :: "u8 list" where
  "console_banner = [10, 99, 111, 110, 115, 111, 108, 101, 58, 32, 105, 110, 105, 116, 105, 97, 108, 105, 122, 101, 100, 10]"

definition console_create_root :: "u16 \<Rightarrow> u16 \<Rightarrow> (u32 \<Rightarrow> u8) \<Rightarrow> 'g csys \<Rightarrow> 'g csys" where
  "console_create_root xres yres video s =
     (let s = window_create_root xres yres video s;
          s = upd_console console_root (\<lambda>x. x\<lparr>c_window := window_root, gx := w_graphics (windows (kobjs s) window_root)\<rparr>) s in
      console_putstring console_root console_banner (console_reset console_root s))"

end
