(* ===== verification/Console_Props.thy ===== *)
theory Console_Props
  imports Console Window_Props
begin

text \<open>The cursor of a console follows its text: the position as a count of cells, character by character.\<close>

section \<open>The cursor\<close>

text \<open>
  The size of a console in cells is that of its graphics object, and the cursor is in one of the
  columns and above the last line; \<open>cell_of\<close> counts the cells before it, line by line.
\<close>

definition console_fits :: "ptr \<Rightarrow> 'g csys \<Rightarrow> bool" where
  "console_fits c s \<longleftrightarrow> (let x = consoles (kobjs s) c; g = gx_state c s in
     xsize x = uint (graphics_width g div 8) \<and> ysize x = uint (graphics_height g div 8) \<and> 0 < ysize x \<and>
     0 \<le> xpos x \<and> xpos x < xsize x \<and> ypos x < ysize x)"

definition cell_of :: "console \<Rightarrow> int" where
  "cell_of x = ypos x * xsize x + xpos x"

text \<open>What a character does to the count on a screen of \<open>W\<close> columns and \<open>H\<close> lines.\<close>

definition cell_step :: "int \<Rightarrow> int \<Rightarrow> u8 \<Rightarrow> int \<Rightarrow> int" where
  "cell_step W H ch n =
     (let m = (if ch = 13 \<or> ch = 10 then (n div W + 1) * W else if ch = 12 then 0 else if ch = 8 then n - 1 else n + 1)
      in if W * H \<le> m then 0 else m)"

lemma console_updates [simp]:
  "consoles (kobjs (upd_console c f s)) = (consoles (kobjs s))(c := f (consoles (kobjs s) c))"
  "gobjects (kobjs (upd_console c f s)) = gobjects (kobjs s)"
  "windows (kobjs (upd_console c f s)) = windows (kobjs s)"
  "consoles (kobjs (upd_gobject g h s)) = consoles (kobjs s)"
  "gobjects (kobjs (upd_gobject g h s)) = (gobjects (kobjs s))(g := h (gobjects (kobjs s) g))"
  "consoles (kobjs (draw g d s)) = consoles (kobjs s)"
  "gobjects (kobjs (draw g d s)) = gobjects (kobjs s)"
  by (simp_all add: upd_console_def upd_gobject_def upd_gui_def draw_def)

lemma put_cell_kept [simp]:
  "consoles (kobjs (put_cell c ch s)) = consoles (kobjs s)" "gobjects (kobjs (put_cell c ch s)) = gobjects (kobjs s)"
  by (simp_all add: put_cell_def Let_def)

lemma put_cell_gx [simp]: "gx_state c (put_cell d ch s) = gx_state c s"
  by (simp add: gx_state_def)

lemma cell_bound: "0 \<le> x \<Longrightarrow> x < W \<Longrightarrow> W * H \<le> y * W + x \<longleftrightarrow> H \<le> (y :: int)"
proof
  assume x: "0 \<le> x" "x < W" and le: "W * H \<le> y * W + x"
  show "H \<le> y"
  proof (rule ccontr)
    assume "\<not> H \<le> y"
    then have "W * (y + 1) \<le> W * H" using x by (intro mult_left_mono) auto
    with le x show False by (simp add: algebra_simps)
  qed
next
  assume x: "0 \<le> x" "x < W" and "H \<le> y"
  then have "W * H \<le> W * y" by (intro mult_left_mono) auto
  with x have "W * H \<le> W * y + x" by linarith
  then show "W * H \<le> y * W + x" by (simp only: mult.commute [of y W])
qed

lemma home_cell:
  fixes s :: "'g csys" and c :: ptr
  defines "t \<equiv> console_home c s"
  shows "graphics_width (gx_state c t) = graphics_width (gx_state c s)" "graphics_height (gx_state c t) = graphics_height (gx_state c s)"
    "consoles (kobjs t) c = (consoles (kobjs s) c)\<lparr>xpos := 0, ypos := 0, xsize := uint (graphics_width (gx_state c s) div 8),
      ysize := uint (graphics_height (gx_state c s) div 8)\<rparr>"
  by (simp_all add: t_def console_home_def Let_def gx_state_def graphics_width_def graphics_height_def
      graphics_fgcolor_def graphics_bgcolor_def)

text \<open>The corrections of the cursor after a character, for a column at most one off.\<close>

lemma wrap_cell:
  fixes s :: "'g csys" and c :: ptr
  defines "x \<equiv> consoles (kobjs s) c" and "g \<equiv> gx_state c s"
  assumes sz: "xsize x = uint (graphics_width g div 8)" "ysize x = uint (graphics_height g div 8)" "0 < ysize x" "0 < xsize x"
    and r: "- 1 \<le> xpos x" "xpos x \<le> xsize x" "ypos x \<le> ysize x"
  defines "t \<equiv> console_wrap c s" and "n \<equiv> cell_of x"
  shows "console_fits c t \<and> xsize (consoles (kobjs t) c) = xsize x \<and> ysize (consoles (kobjs t) c) = ysize x \<and>
    cell_of (consoles (kobjs t) c) = (if xsize x * ysize x \<le> n then 0 else n)"
proof -
  let ?u = "upd_console c (\<lambda>x. if xsize x \<le> xpos x then x\<lparr>xpos := 0, ypos := ypos x + 1\<rparr> else x)
      (upd_console c (\<lambda>x. if xpos x < 0 then x\<lparr>xpos := xsize x - 1, ypos := ypos x - 1\<rparr> else x) s)"
  let ?x = "consoles (kobjs ?u) c"
  have u: "xsize ?x = xsize x" "ysize ?x = ysize x" "0 \<le> xpos ?x" "xpos ?x < xsize x" "gx ?x = gx x"
    using sz(4) r by (auto simp: x_def)
  then have g: "gx_state c ?u = g" by (simp add: g_def gx_state_def x_def)
  have n: "cell_of ?x = n" using r(1,2) by (auto simp: cell_of_def n_def x_def algebra_simps)
  then have b: "xsize x * ysize x \<le> n \<longleftrightarrow> ysize x \<le> ypos ?x"
    using cell_bound [OF u(3,4), of "ysize x" "ypos ?x"] u(1) by (simp add: cell_of_def)
  show ?thesis
  proof (cases "ysize x \<le> ypos ?x")
    case True
    then have t: "t = console_home c ?u" unfolding t_def console_wrap_def Let_def using u(2) by simp
    have "consoles (kobjs t) c = ?x\<lparr>xpos := 0, ypos := 0, xsize := xsize x, ysize := ysize x\<rparr>"
      "graphics_width (gx_state c t) = graphics_width g" "graphics_height (gx_state c t) = graphics_height g"
      using home_cell [where c = c and s = ?u] sz(1,2) by (simp_all only: t g)
    then show ?thesis using True b sz by (simp add: console_fits_def cell_of_def)
  next
    case False
    then have "t = ?u" unfolding t_def console_wrap_def Let_def using u(2) by simp
    then show ?thesis using False b n u sz g by (simp only: console_fits_def Let_def) auto
  qed
qed

text \<open>One character moves the cursor as \<open>cell_step\<close> says.\<close>

lemma char_cell:
  fixes s :: "'g csys" and c :: ptr and ch :: u8
  assumes f: "console_fits c s"
  defines "x \<equiv> consoles (kobjs s) c" and "t \<equiv> console_wrap c (console_char c ch s)"
  shows "console_fits c t \<and> xsize (consoles (kobjs t) c) = xsize x \<and> ysize (consoles (kobjs t) c) = ysize x \<and>
    cell_of (consoles (kobjs t) c) = cell_step (xsize x) (ysize x) ch (cell_of x)"
proof -
  note c = f [unfolded console_fits_def Let_def, folded x_def]
  let ?u = "console_char c ch s" and ?g = "gx_state c s"
  let ?y = "consoles (kobjs ?u) c"
  have w: "graphics_width (gx_state c ?u) = graphics_width ?g" "graphics_height (gx_state c ?u) = graphics_height ?g"
  proof (atomize (full), cases "ch = 12")
    case True
    then show "graphics_width (gx_state c ?u) = graphics_width ?g \<and> graphics_height (gx_state c ?u) = graphics_height ?g"
      using home_cell [where c = c and s = s] by (simp add: console_char_def)
  next
    case False
    then have "gx_state c ?u = ?g" by (simp add: console_char_def gx_state_def)
    then show "graphics_width (gx_state c ?u) = graphics_width ?g \<and> graphics_height (gx_state c ?u) = graphics_height ?g" by simp
  qed
  have y: "xsize ?y = xsize x" "ysize ?y = ysize x" "- 1 \<le> xpos ?y" "xpos ?y \<le> xsize x" "ypos ?y \<le> ysize x"
    using c home_cell [where c = c and s = s] by (auto simp: console_char_def x_def)
  have d: "cell_of x div xsize x = ypos x" using c by (simp add: cell_of_def)
  have "cell_of ?y = (if ch = 13 \<or> ch = 10 then (cell_of x div xsize x + 1) * xsize x else if ch = 12 then 0
      else if ch = 8 then cell_of x - 1 else cell_of x + 1)"
    unfolding d using home_cell [where c = c and s = s] by (auto simp: console_char_def cell_of_def x_def)
  with wrap_cell [where c = c and s = ?u] y c show ?thesis
    unfolding t_def w cell_step_def Let_def by simp
qed

lemma chars_cell:
  fixes s :: "'g csys" and c :: ptr and data :: "u8 list"
  assumes "console_fits c s"
  defines "t \<equiv> fold (\<lambda>ch s. console_wrap c (console_char c ch s)) data s" and "x \<equiv> consoles (kobjs s) c"
  shows "console_fits c t \<and> xsize (consoles (kobjs t) c) = xsize x \<and> ysize (consoles (kobjs t) c) = ysize x \<and>
    cell_of (consoles (kobjs t) c) = fold (cell_step (xsize x) (ysize x)) data (cell_of x)"
  using assms(1) unfolding t_def x_def
proof (induction data arbitrary: s)
  case (Cons ch data)
  note h = char_cell [OF Cons.prems, of ch]
  show ?case using Cons.IH [OF conjunct1 [OF h]] h by simp
qed simp

lemma put_cell_fits [simp]: "console_fits c (put_cell d ch s) = console_fits c s"
  by (simp add: console_fits_def)

text \<open>Without backspaces the count stays at or after the first cell.\<close>

lemma cells_forward: "0 < W \<Longrightarrow> 8 \<notin> set data \<Longrightarrow> 0 \<le> n \<Longrightarrow> 0 \<le> fold (cell_step W H) data n"
proof (induction data arbitrary: n)
  case (Cons ch data)
  then have "0 \<le> cell_step W H ch n" by (auto simp: cell_step_def Let_def pos_imp_zdiv_nonneg_iff)
  with Cons show ?case by simp
qed simp

section \<open>Properties\<close>

text \<open>Claim C40.  The cursor of a console follows the text.  Counting the cells line by line, a character moves
  it one cell on, a backspace one cell back, a line feed or carriage return to the start of the next line,
  a form feed to the first cell, and the end of the last line to the first cell again.  For a text without
  backspaces the cursor stays inside the cells.  Nothing stops a backspace in the first cell: the
  count becomes -1 and the cursor stands at the end of a line above the screen, where the next cell is
  drawn outside the window.\<close>

theorem console_cursor_follows_text:
  assumes f: "console_fits c s"
  shows "let x = consoles (kobjs s) c; t = snd (console_write c data s); y = consoles (kobjs t) c in
    cell_of y = fold (cell_step (xsize x) (ysize x)) data (cell_of x) \<and>
    console_fits c t \<and> ypos y = cell_of y div xsize x \<and> xpos y = cell_of y mod xsize x \<and>
    (0 \<le> ypos x \<and> 8 \<notin> set data \<longrightarrow> 0 \<le> ypos y) \<and>
    (cell_of x = 0 \<and> data = [8] \<longrightarrow> ypos y = - 1 \<and> xpos y = xsize x - 1)"
proof -
  define x where "x = consoles (kobjs s) c"
  define t where "t = snd (console_write c data s)"
  define y where "y = consoles (kobjs t) c"
  note fx = f [unfolded console_fits_def Let_def, folded x_def]
  have e: "console_fits c t" "xsize y = xsize x" "cell_of y = fold (cell_step (xsize x) (ysize x)) data (cell_of x)"
    using chars_cell [where c = c and s = "put_cell c 32 s" and data = data] f by (simp_all add: t_def y_def x_def console_write_def Let_def)
  have "0 \<le> xpos y" "xpos y < xsize x" using e(1,2) by (simp_all add: console_fits_def Let_def y_def)
  then have p: "ypos y = cell_of y div xsize x" "xpos y = cell_of y mod xsize x" by (simp_all add: cell_of_def e(2))
  have W: "0 < xsize x" using fx by simp
  have "0 \<le> ypos y" if "0 \<le> ypos x" "8 \<notin> set data"
  proof -
    have "0 \<le> cell_of x" using that(1) fx by (simp add: cell_of_def)
    from cells_forward [OF W that(2) this] show ?thesis unfolding p(1) e(3) using W by (simp add: pos_imp_zdiv_nonneg_iff)
  qed
  moreover have "ypos y = - 1 \<and> xpos y = xsize x - 1" if "cell_of x = 0" "data = [8]"
  proof -
    have "0 \<le> xsize x * ysize x" using fx by simp
    then have "cell_of y = - 1" using e(3) that by (simp add: cell_step_def)
    then show ?thesis using W by (simp add: p div_eq_minus1 zmod_minus1)
  qed
  ultimately show ?thesis using e p by (simp add: Let_def x_def [symmetric] t_def [symmetric] y_def [symmetric])
qed

text \<open>A console on the root window of 640 by 480 pixels.\<close>

definition sample_console :: "cgui psys" where
  "sample_console = with_objects sample_kernel
     \<lparr>equeue = (\<lambda>_. \<lparr>ebuf = (\<lambda>_. zero_event), ehead = 0, etail = 0, overflow_count = 0\<rparr>),
      gobjects = (\<lambda>g. \<lparr>gstate = graphics_create_root (bitmap_create_root 640 480 (\<lambda>_. 0)), g_parent = 0, g_refcount = 1\<rparr>),
      windows = (\<lambda>w. \<lparr>w_parent = window_root, w_graphics = graphics_root, w_queue = event_queue_root, w_refcount = 1\<rparr>),
      screen = bitmap_create_root 640 480 (\<lambda>_. 0), gui_freed = {},
      consoles = (\<lambda>_. \<lparr>c_window = window_root, gx = graphics_root, xsize = 80, ysize = 60, xpos = 0, ypos = 0, onoff = False, c_refcount = 1\<rparr>)\<rparr>"

theorem console_cursor_follows_text_witness:
  "cell_of (consoles (kobjs (snd (console_write console_root [65, 66, 8, 10, 67] sample_console))) console_root) = 81 \<and>
   ypos (consoles (kobjs (snd (console_write console_root [8] sample_console))) console_root) = - 1"
proof -
  have x: "consoles (kobjs sample_console) console_root =
      \<lparr>c_window = window_root, gx = graphics_root, xsize = 80, ysize = 60, xpos = 0, ypos = 0, onoff = False, c_refcount = 1\<rparr>"
    by (simp add: sample_console_def with_objects_def)
  have f: "console_fits console_root sample_console"
    by (simp add: console_fits_def gx_state_def x)
      (simp add: sample_console_def with_objects_def graphics_create_root_def bitmap_create_root_def
        graphics_width_def graphics_height_def)
  show ?thesis
    using console_cursor_follows_text [OF f, of "[65, 66, 8, 10, 67]"] console_cursor_follows_text [OF f, of "[8]"]
    by (simp add: Let_def x cell_of_def cell_step_def)
qed

end
