(* ===== verification/Mutex.thy ===== *)
theory Mutex
  imports Scheduler_Props
begin

text \<open>
  The mutexes of \<^verbatim>\<open>kernel/mutex.c\<close> on the scheduler.  A mutex is its flag and a list of waiters at an
  address.  Interrupts are blocked inside the operations, so between two waits they run at once: a
  call of \<^verbatim>\<open>mutex_lock\<close> is modelled by the rounds of its loop, and the processes that use a mutex by a
  step relation that interleaves their rounds with everything else the scheduler does.
\<close>

section \<open>Operations\<close>

text \<open>One round of the loop: take the mutex, or wait and look again when the process runs again.\<close>

definition mutex_lock_round :: "ptr \<Rightarrow> bool \<times> 'k psys \<Rightarrow> (bool \<times> bool \<times> 'k psys) option" where
  "mutex_lock_round q = (\<lambda>(locked, s).
     if locked then map_option (\<lambda>s. (False, True, s)) (process_wait q s) else Some (True, True, s))"

partial_function (option) mutex_lock ::
    "(bool \<times> 'k psys \<Rightarrow> (bool \<times> 'k psys) option) \<Rightarrow> ptr \<Rightarrow> bool \<times> 'k psys \<Rightarrow> (bool \<times> 'k psys) option" where
  "mutex_lock resume q m = do {
     (taken, m) \<leftarrow> mutex_lock_round q m;
     if taken then Some m else do { m \<leftarrow> resume m; mutex_lock resume q m }
   }"

definition mutex_unlock :: "ptr \<Rightarrow> bool \<times> 'k psys \<Rightarrow> (bool \<times> 'k psys) option" where
  "mutex_unlock q = (\<lambda>(locked, s). map_option (\<lambda>s. (False, s)) (process_wakeup q s))"

section \<open>Processes that use a mutex\<close>

datatype mutex_pc = Outside | Locking | Holding

inductive mutex_step :: "ptr \<Rightarrow> bool \<times> 'k psys \<times> (ptr \<Rightarrow> mutex_pc) \<Rightarrow> bool \<times> 'k psys \<times> (ptr \<Rightarrow> mutex_pc) \<Rightarrow> bool" for q where
  round: "current s \<noteq> 0 \<Longrightarrow> pc (current s) \<noteq> Holding \<Longrightarrow> mutex_lock_round q (l, s) = Some (taken, l', s') \<Longrightarrow>
    mutex_step q (l, s, pc) (l', s', pc(current s := (if taken then Holding else Locking)))"
| unlock: "current s \<noteq> 0 \<Longrightarrow> pc (current s) = Holding \<Longrightarrow> mutex_unlock q (l, s) = Some (l', s') \<Longrightarrow>
    mutex_step q (l, s, pc) (l', s', pc(current s := Outside))"
| yield: "process_yield s = Some s' \<Longrightarrow> mutex_step q (l, s, pc) (l, s', pc)"
| preempt: "process_preempt s = Some s' \<Longrightarrow> mutex_step q (l, s, pc) (l, s', pc)"
| wait: "current s \<noteq> 0 \<Longrightarrow> pc (current s) \<noteq> Locking \<Longrightarrow> wait_list r \<Longrightarrow> r \<noteq> q \<Longrightarrow> process_wait r s = Some s' \<Longrightarrow>
    mutex_step q (l, s, pc) (l, s', pc)"
| wakeup: "wait_list r \<Longrightarrow> r \<noteq> q \<Longrightarrow> process_wakeup r s = Some s' \<Longrightarrow> mutex_step q (l, s, pc) (l, s', pc)"
| idle: "current s = 0 \<Longrightarrow> process_pick s = Some s' \<Longrightarrow> mutex_step q (l, s, pc) (l, s', pc)"

inductive mutex_reach :: "ptr \<Rightarrow> bool \<times> 'k psys \<times> (ptr \<Rightarrow> mutex_pc) \<Rightarrow> bool \<times> 'k psys \<times> (ptr \<Rightarrow> mutex_pc) \<Rightarrow> bool" for q st where
  start: "mutex_reach q st st"
| step: "mutex_reach q st st' \<Longrightarrow> mutex_step q st' st'' \<Longrightarrow> mutex_reach q st st''"

text \<open>A process that is or will be run without being woken.\<close>

definition runnable :: "ptr \<Rightarrow> (ptr \<Rightarrow> ptr list) \<Rightarrow> ptr \<Rightarrow> bool" where
  "runnable c Q p \<longleftrightarrow> p \<noteq> 0 \<and> (p = c \<or> p \<in> set (Q ready_list))"

text \<open>
  The invariant: at most one process holds the mutex and then it is locked; the waiters are inside
  \<^verbatim>\<open>mutex_lock\<close>; and if the mutex is free while processes wait for it, one that wants it can run.
\<close>

definition mutex_inv :: "ptr \<Rightarrow> bool \<times> 'k psys \<times> (ptr \<Rightarrow> mutex_pc) \<Rightarrow> bool" where
  "mutex_inv q = (\<lambda>(l, s, pc). \<exists>Q. sched_ok s Q \<and>
     (\<forall>p p'. pc p = Holding \<longrightarrow> pc p' = Holding \<longrightarrow> p = p') \<and> (\<forall>p. pc p = Holding \<longrightarrow> l) \<and>
     (\<forall>p \<in> set (Q q). pc p = Locking) \<and>
     (\<not> l \<longrightarrow> Q q \<noteq> [] \<longrightarrow> (\<exists>p. pc p = Locking \<and> runnable (current s) Q p)))"

lemma a_pick_runnable:
  "runnable 0 Q p \<Longrightarrow> runnable (fst (a_pick Q)) (snd (a_pick Q)) p"
  "l \<noteq> ready_list \<Longrightarrow> snd (a_pick Q) l = Q l"
  by (auto simp: a_pick_def runnable_def split: list.splits)

lemma mutex_inv_move:
  assumes "mutex_inv q (l, s, pc)"
    and "\<And>Q. sched_ok s Q \<Longrightarrow> \<exists>Q'. sched_ok s' Q' \<and> Q' q = Q q \<and> (\<forall>p. pc p = Locking \<longrightarrow> runnable (current s) Q p \<longrightarrow> runnable (current s') Q' p)"
  shows "mutex_inv q (l, s', pc)"
proof -
  obtain Q where Q: "sched_ok s Q" "\<forall>p p'. pc p = Holding \<longrightarrow> pc p' = Holding \<longrightarrow> p = p'" "\<forall>p. pc p = Holding \<longrightarrow> l"
     "\<forall>p \<in> set (Q q). pc p = Locking" "\<not> l \<longrightarrow> Q q \<noteq> [] \<longrightarrow> (\<exists>p. pc p = Locking \<and> runnable (current s) Q p)"
    using assms(1) unfolding mutex_inv_def by blast
  obtain Q' where "sched_ok s' Q'" "Q' q = Q q" "\<forall>p. pc p = Locking \<longrightarrow> runnable (current s) Q p \<longrightarrow> runnable (current s') Q' p"
    using assms(2) [OF Q(1)] by blast
  with Q show ?thesis unfolding mutex_inv_def prod.case by (intro exI [of _ Q']) auto
qed

lemma yield_runnable:
  assumes "sched_ok s Q" "process_yield s = Some s'" "q \<noteq> ready_list"
  shows "\<exists>Q'. sched_ok s' Q' \<and> Q' q = Q q \<and> (\<forall>p. runnable (current s) Q p \<longrightarrow> runnable (current s') Q' p)"
proof (cases "current s = 0")
  case True
  then show ?thesis using assms(1,2) by (auto simp: process_yield_def)
next
  case False
  let ?Q = "a_push ready_list (current s) Q"
  have "runnable 0 ?Q p" if "runnable (current s) Q p" for p using that by (auto simp: runnable_def a_push_def)
  moreover have "?Q q = Q q" using assms(3) by (simp add: a_push_def)
  ultimately show ?thesis
    using yield_ok [OF assms(1) False] assms(2,3) a_pick_runnable(1) [of ?Q] a_pick_runnable(2) [of q ?Q]
    by (intro exI [of _ "snd (a_pick ?Q)"]) auto
qed

lemma mutex_step_inv:
  assumes "mutex_step q st st'" "mutex_inv q st" "wait_list q"
  shows "mutex_inv q st'"
proof -
  have nr: "q \<noteq> ready_list" "ready_list \<noteq> q" using assms(3) by (auto simp: wait_list_def)
  from assms(1,2) show ?thesis
  proof (induction rule: mutex_step.cases)
    case (round s pc l taken l' s')
    obtain Q where Q: "sched_ok s Q" "\<forall>p p'. pc p = Holding \<longrightarrow> pc p' = Holding \<longrightarrow> p = p'" "\<forall>p. pc p = Holding \<longrightarrow> l"
       "\<forall>p \<in> set (Q q). pc p = Locking"
      using round(6) unfolding round(1) mutex_inv_def by blast
    have un: "current s \<notin> set (Q q)" using Q(1) round(3) by (auto simp: sched_ok_def unlisted_def)
    show ?case
    proof (cases l)
      case True
      then have r: "\<not> taken" "l'" "process_wait q s = Some s'" using round(5) by (auto simp: mutex_lock_round_def)
      define Q' where "Q' = snd (a_pick (a_push q (current s) Q))"
      have ok: "sched_ok s' Q'" using wait_ok [OF Q(1) round(3) assms(3)] r(3) by (auto simp: Q'_def)
      have Qq: "Q' q = Q q @ [current s]" using a_pick_runnable(2) [OF nr(1)] by (simp add: Q'_def a_push_def)
      define pc' where "pc' = pc(current s := (if taken then Holding else Locking))"
      have h: "pc' p = Holding \<longleftrightarrow> pc p = Holding" for p using r(1) round(4) by (simp add: pc'_def)
      have w: "pc' p = Locking" if "p \<in> set (Q' q)" for p using that Q(4) Qq r(1) by (auto simp: pc'_def)
      show ?thesis unfolding round(2) mutex_inv_def prod.case pc'_def [symmetric]
        using ok Q(2) r(2) w unfolding h by blast
    next
      case False
      then have r: "taken" "l'" "s' = s" using round(5) by (auto simp: mutex_lock_round_def)
      with Q un False show ?thesis unfolding round(2) mutex_inv_def prod.case by (intro exI [of _ Q]) auto
    qed
  next
    case (unlock s pc l l' s')
    obtain Q where Q: "sched_ok s Q" "\<forall>p p'. pc p = Holding \<longrightarrow> pc p' = Holding \<longrightarrow> p = p'" "\<forall>p \<in> set (Q q). pc p = Locking"
      using unlock(6) unfolding unlock(1) mutex_inv_def by blast
    have un: "current s \<notin> set (Q q)" using Q(1) unlock(3) by (auto simp: sched_ok_def unlisted_def)
    have r: "\<not> l'" "process_wakeup q s = Some s'" using unlock(5) by (auto simp: mutex_unlock_def)
    then have s': "sched_ok s' (a_wakeup q Q)" "current s' = current s" using wakeup_ok [OF Q(1) assms(3)] by auto
    define pc' where "pc' = pc(current s := Outside)"
    have nh: "pc' p \<noteq> Holding" for p using Q(2) unlock(4) by (metis fun_upd_other fun_upd_same mutex_pc.distinct(3) pc'_def)
    have lk: "pc' p = Locking" if "p \<in> set (Q q)" for p using that Q(3) un by (auto simp: pc'_def)
    have sub: "set (a_wakeup q Q q) \<subseteq> set (Q q)" using nr by (auto simp: a_wakeup_def a_push_def split: list.splits)
    have woken: "\<exists>p \<in> set (Q q). p \<in> set (a_wakeup q Q ready_list)" if "a_wakeup q Q q \<noteq> []"
      using that nr by (auto simp: a_wakeup_def a_push_def split: list.splits)
    have "0 \<notin> set (Q q)" using queue_nonnull [OF sched_queues [OF Q(1)]] by blast
    then have "\<exists>p. pc' p = Locking \<and> runnable (current s') (a_wakeup q Q) p" if "a_wakeup q Q q \<noteq> []"
      using woken [OF that] lk by (metis runnable_def)
    then show ?case unfolding unlock(2) mutex_inv_def prod.case pc'_def [symmetric]
      using s'(1) nh lk sub by blast
  next
    case (yield s s' l pc)
    show ?case using mutex_inv_move [of q l s pc s'] yield_runnable [OF _ yield(3) nr(1)] yield(1,2,4) by fast
  next
    case (preempt s s' l pc)
    then have "process_yield s = Some s' \<or> s' = s" by (auto simp: process_preempt_def process_yield_def split: if_splits)
    then show ?case
    proof
      assume "process_yield s = Some s'"
      then show ?thesis using mutex_inv_move [of q l s pc s'] yield_runnable [of s _ s' q] nr(1) preempt(1,2,4) by fast
    next
      assume "s' = s"
      then show ?thesis using preempt(1,2,4) by simp
    qed
  next
    case (wait s pc r s' l)
    have "\<exists>Q'. sched_ok s' Q' \<and> Q' q = Q q \<and> (\<forall>p. pc p = Locking \<longrightarrow> runnable (current s) Q p \<longrightarrow> runnable (current s') Q' p)"
      if Q: "sched_ok s Q" for Q
    proof -
      let ?Q = "a_push r (current s) Q"
      have rr: "r \<noteq> ready_list" using wait(5) by (auto simp: wait_list_def)
      have "?Q q = Q q" using wait(6) by (simp add: a_push_def)
      moreover have "runnable 0 ?Q p" if "pc p = Locking" "runnable (current s) Q p" for p
        using that wait(4) rr by (auto simp: runnable_def a_push_def)
      ultimately show ?thesis
        using wait_ok [OF Q wait(3,5)] wait(7) a_pick_runnable(1) [of ?Q] a_pick_runnable(2) [OF nr(1), of ?Q]
        by (intro exI [of _ "snd (a_pick ?Q)"]) auto
    qed
    then show ?case using mutex_inv_move [of q l s pc s'] wait(1,2,8) by fast
  next
    case (wakeup r s s' l pc)
    have "\<exists>Q'. sched_ok s' Q' \<and> Q' q = Q q \<and> (\<forall>p. pc p = Locking \<longrightarrow> runnable (current s) Q p \<longrightarrow> runnable (current s') Q' p)"
      if Q: "sched_ok s Q" for Q
      using wakeup_ok [OF Q wakeup(3)] wakeup(4,5) nr
      by (intro exI [of _ "a_wakeup r Q"]) (auto simp: a_wakeup_def a_push_def runnable_def split: list.splits)
    then show ?case using mutex_inv_move [of q l s pc s'] wakeup(1,2,6) by fast
  next
    case (idle s s' l pc)
    have "\<exists>Q'. sched_ok s' Q' \<and> Q' q = Q q \<and> (\<forall>p. pc p = Locking \<longrightarrow> runnable (current s) Q p \<longrightarrow> runnable (current s') Q' p)"
      if Q: "sched_ok s Q" for Q
      using pick_ok [OF Q idle(3)] idle(3,4) a_pick_runnable(1) [of Q] a_pick_runnable(2) [OF nr(1), of Q]
      by (intro exI [of _ "snd (a_pick Q)"]) auto
    then show ?case using mutex_inv_move [of q l s pc s'] idle(1,2,5) by fast
  qed
qed

text \<open>Claim C32.  Mutual exclusion without lost wakeups: however processes lock, unlock, yield, wait for other
  things and are woken, at most one holds the mutex, the mutex is locked while one does, and while it
  is free and processes wait for it, a process that wants it is running or ready.\<close>

theorem mutex_mutual_exclusion:
  assumes "mutex_reach q (False, s, \<lambda>_. Outside) (l, s', pc)" "sched_ok s Q" "Q q = []" "wait_list q"
  shows "(\<forall>p p'. pc p = Holding \<longrightarrow> pc p' = Holding \<longrightarrow> p = p') \<and> (\<forall>p. pc p = Holding \<longrightarrow> l) \<and>
    (\<exists>Q'. sched_ok s' Q' \<and> (\<forall>p \<in> set (Q' q). pc p = Locking) \<and>
      (\<not> l \<longrightarrow> Q' q \<noteq> [] \<longrightarrow> (\<exists>p. pc p = Locking \<and> runnable (current s') Q' p)))"
proof -
  have "mutex_inv q st" if "mutex_reach q (False, s, \<lambda>_. Outside) st" for st
    using that
  proof (induction rule: mutex_reach.induct)
    case start
    then show ?case using assms(2,3) unfolding mutex_inv_def prod.case by (intro exI [of _ Q]) auto
  next
    case (step st' st'')
    then show ?case using mutex_step_inv assms(4) by blast
  qed
  from this [OF assms(1)] show ?thesis unfolding mutex_inv_def prod.case by blast
qed

text \<open>The current process takes the mutex, and yields while it holds it.\<close>

theorem mutex_mutual_exclusion_witness:
  "\<exists>s'. mutex_reach 9 (False, sample_kernel, \<lambda>_. Outside) (True, s', (\<lambda>_. Outside)(10 := Holding)) \<and>
    (\<forall>p. ((\<lambda>_. Outside)(10 := Holding)) p = Holding \<longrightarrow> p = (10 :: ptr))"
proof -
  have c: "current sample_kernel = 10" by (simp add: sample_kernel_def)
  obtain s' where s': "process_yield sample_kernel = Some s'" using yield_ok [OF sample_kernel_ok] c by auto
  have "mutex_step 9 (False, sample_kernel, \<lambda>_. Outside) (True, sample_kernel, (\<lambda>_. Outside)(10 := Holding))"
    using mutex_step.round [of sample_kernel "\<lambda>_. Outside" 9 False True True sample_kernel] c by (simp add: mutex_lock_round_def)
  then have r: "mutex_reach 9 (False, sample_kernel, \<lambda>_. Outside) (True, s', (\<lambda>_. Outside)(10 := Holding))"
    using mutex_reach.step [OF mutex_reach.step [OF mutex_reach.start]] mutex_step.yield [OF s'] by blast
  have "wait_list 9" by (simp add: wait_list_def ready_list_def grave_list_def)
  from conjunct1 [OF mutex_mutual_exclusion [OF r sample_kernel_ok refl this]]
  have "\<forall>p p'. ((\<lambda>_. Outside)(10 := Holding)) p = Holding \<longrightarrow> ((\<lambda>_. Outside)(10 := Holding)) p' = Holding \<longrightarrow> p = (p' :: ptr)" .
  then have "\<forall>p. ((\<lambda>_. Outside)(10 := Holding)) p = Holding \<longrightarrow> p = (10 :: ptr)" by (metis fun_upd_same)
  with r show ?thesis by blast
qed

end
