(* ===== verification/User_Memory.thy ===== *)
theory User_Memory
  imports Process
begin

text \<open>
  Memory as the kernel sees it through the page tables: the bytes that an address of the current address
  space denotes, in the frames of \<open>Page\<close> under the tables of \<open>Pagetable\<close>.  The kernel copies the
  arguments of programs, program images and the data of system calls through such addresses.  An
  access to a page that is not present is a page fault, the value \<open>None\<close>.
\<close>

section \<open>Bytes of words\<close>

definition byte_of :: "u32 \<Rightarrow> nat \<Rightarrow> u8" where
  "byte_of w i = ucast (drop_bit (8 * i) w)"

definition set_byte :: "u32 \<Rightarrow> nat \<Rightarrow> u8 \<Rightarrow> u32" where
  "set_byte w i b = (w AND NOT (push_bit (8 * i) 0xff)) OR push_bit (8 * i) (ucast b)"

lemma bit_byte_of: "bit (byte_of w i) k \<longleftrightarrow> k < 8 \<and> bit w (8 * i + k)"
  by (auto simp: byte_of_def bit_simps dest: bit_imp_le_length)

lemma bit_set_byte:
  assumes "i < 4"
  shows "bit (set_byte w i b) k \<longleftrightarrow> (if 8 * i \<le> k \<and> k < 8 * i + 8 then bit b (k - 8 * i) else bit w k)"
proof -
  have m: "(0xff :: u32) = mask 8" by (simp add: mask_eq_exp_minus_1)
  have "bit b n \<Longrightarrow> n < 8" for n using bit_imp_le_length [of b n] by simp
  moreover have "bit w k \<Longrightarrow> k < 32" using bit_imp_le_length [of w k] by simp
  moreover have "8 * i \<le> k \<Longrightarrow> k - 8 * i < 8 \<longleftrightarrow> k < 8 * i + 8" by linarith
  moreover have "k < 8 * i + 8 \<Longrightarrow> k < 32" using assms by linarith
  ultimately show ?thesis
    by (auto simp: set_byte_def m bit_simps)
qed

lemma byte_set_byte:
  assumes "i < 4" "j < 4"
  shows "byte_of (set_byte w i b) j = (if j = i then b else byte_of w j)"
proof (rule bit_word_eqI)
  fix n assume n: "n < LENGTH(8)"
  have "8 * i \<le> 8 * j + n \<and> 8 * j + n < 8 * i + 8 \<longleftrightarrow> j = i" using n by auto
  then show "bit (byte_of (set_byte w i b) j) n = bit (if j = i then b else byte_of w j) n"
    using n by (auto simp: bit_byte_of bit_set_byte [OF assms(1)])
qed

section \<open>Loads and stores\<close>

definition word_index :: "u32 \<Rightarrow> 10 word" where "word_index v = ucast (drop_bit 2 v)"
definition byte_index :: "u32 \<Rightarrow> nat" where "byte_index v = unat (v AND 3)"

definition load_byte :: "u32 \<Rightarrow> u32 \<Rightarrow> pmem \<Rightarrow> u8 option" where
  "load_byte p v m =
     map_option (\<lambda>(pa, fl). byte_of (phys m (frame_of pa) (word_index v)) (byte_index v)) (pagetable_getmap p v m)"

definition store_byte :: "u32 \<Rightarrow> u32 \<Rightarrow> u8 \<Rightarrow> pmem \<Rightarrow> pmem option" where
  "store_byte p v b m =
     map_option (\<lambda>(pa, fl). m\<lparr>phys := (phys m)(frame_of pa :=
         (phys m (frame_of pa))(word_index v := set_byte (phys m (frame_of pa) (word_index v)) (byte_index v) b))\<rparr>)
       (pagetable_getmap p v m)"

fun load_bytes :: "u32 \<Rightarrow> u32 \<Rightarrow> nat \<Rightarrow> pmem \<Rightarrow> u8 list option" where
  "load_bytes p v 0 m = Some []"
| "load_bytes p v (Suc n) m = do { b \<leftarrow> load_byte p v m; bs \<leftarrow> load_bytes p (v + 1) n m; Some (b # bs) }"

fun store_bytes :: "u32 \<Rightarrow> u32 \<Rightarrow> u8 list \<Rightarrow> pmem \<Rightarrow> pmem option" where
  "store_bytes p v [] m = Some m"
| "store_bytes p v (b # bs) m = do { m \<leftarrow> store_byte p v b m; store_bytes p (v + 1) bs m }"

text \<open>A string up to and with its zero; one without a zero runs into a fault or is read for ever.\<close>

partial_function (option) load_string :: "u32 \<Rightarrow> u32 \<Rightarrow> pmem \<Rightarrow> u8 list option" where
  "load_string p v m = do {
     b \<leftarrow> load_byte p v m;
     if b = 0 then Some [0] else do { bs \<leftarrow> load_string p (v + 1) m; Some (b # bs) }
   }"

text \<open>Integers lie in memory with the least significant byte first.\<close>

definition word_bytes :: "u32 \<Rightarrow> u8 list" where
  "word_bytes w = [byte_of w 0, byte_of w 1, byte_of w 2, byte_of w 3]"

definition bytes_word :: "u8 list \<Rightarrow> u32" where
  "bytes_word bs = foldr (\<lambda>b w. ucast b OR push_bit 8 w) bs 0"

definition load_word :: "u32 \<Rightarrow> u32 \<Rightarrow> pmem \<Rightarrow> u32 option" where
  "load_word p v m = map_option bytes_word (load_bytes p v 4 m)"

definition store_word :: "u32 \<Rightarrow> u32 \<Rightarrow> u32 \<Rightarrow> pmem \<Rightarrow> pmem option" where
  "store_word p v w m = store_bytes p v (word_bytes w) m"

lemma bytes_word_bytes [simp]: "bytes_word (word_bytes w) = w"
proof (rule bit_word_eqI)
  fix n assume n: "n < LENGTH(32)"
  have e: "bit (bytes_word (word_bytes w)) n \<longleftrightarrow> n < 8 \<and> bit w n \<or> (8 \<le> n \<and> n - 8 < 8 \<and> bit w (8 + (n - 8))) \<or>
      (16 \<le> n \<and> n - 16 < 8 \<and> bit w (16 + (n - 16))) \<or> (24 \<le> n \<and> n - 24 < 8 \<and> bit w (24 + (n - 24)))"
    using n by (auto simp: bytes_word_def word_bytes_def bit_simps bit_byte_of)
  show "bit (bytes_word (word_bytes w)) n = bit w n"
  proof -
    have d: "8 \<le> n \<Longrightarrow> n - 8 < 8 \<longleftrightarrow> n < 16" "16 \<le> n \<Longrightarrow> n - 16 < 8 \<longleftrightarrow> n < 24" "24 \<le> n \<Longrightarrow> n - 24 < 8 \<longleftrightarrow> n < 32"
      by linarith+
    consider "n < 8" | "8 \<le> n" "n < 16" | "16 \<le> n" "n < 24" | "24 \<le> n" "n < 32" using n by force
    then show ?thesis unfolding e by cases (auto simp: d)
  qed
qed

lemma length_word_bytes [simp]: "length (word_bytes w) = 4" by (simp add: word_bytes_def)

section \<open>The contract of a memory of bytes\<close>

text \<open>
  \<open>own m\<close> is the set of the addresses that a program has for itself.  A store to one of them
  succeeds, keeps the set, and changes what is loaded at this address only, as seen from the set.
\<close>

locale byte_memory =
  fixes ld :: "u32 \<Rightarrow> 'm \<Rightarrow> u8 option" and st :: "u32 \<Rightarrow> u8 \<Rightarrow> 'm \<Rightarrow> 'm option"
    and inv :: "'m \<Rightarrow> bool" and own :: "'m \<Rightarrow> u32 set"
  assumes st_ok: "inv m \<Longrightarrow> v \<in> own m \<Longrightarrow> \<exists>m'. st v b m = Some m' \<and> inv m' \<and> own m' = own m \<and>
      (\<forall>w \<in> own m. ld w m' = (if w = v then Some b else ld w m))"
begin

fun st_list :: "u32 \<Rightarrow> u8 list \<Rightarrow> 'm \<Rightarrow> 'm option" where
  "st_list v [] m = Some m"
| "st_list v (b # bs) m = Option.bind (st v b m) (st_list (v + 1) bs)"

fun ld_list :: "u32 \<Rightarrow> nat \<Rightarrow> 'm \<Rightarrow> u8 list option" where
  "ld_list v 0 m = Some []"
| "ld_list v (Suc n) m = Option.bind (ld v m) (\<lambda>b. Option.bind (ld_list (v + 1) n m) (\<lambda>bs. Some (b # bs)))"

definition span :: "u32 \<Rightarrow> nat \<Rightarrow> u32 set" where "span v n = (\<lambda>i. v + of_nat i) ` {..<n}"

lemma span_Suc: "span v (Suc n) = insert v (span (v + 1) n)"
  unfolding span_def lessThan_Suc_eq_insert_0 by (simp add: image_image algebra_simps)

lemma span_fresh: "n < 2 ^ 32 \<Longrightarrow> v \<notin> span (v + 1) n"
proof
  assume n: "n < 2 ^ 32" "v \<in> span (v + 1) n"
  then obtain i where i: "i < n" "v = v + 1 + of_nat i" by (auto simp: span_def)
  then have "(of_nat (Suc i) :: u32) = 0" by (simp add: algebra_simps)
  then have "2 ^ 32 dvd Suc i" by (simp only: word_of_nat_eq_0_iff) simp
  then have "2 ^ 32 \<le> Suc i" by (rule dvd_imp_le) simp
  with i(1) n(1) show False by linarith
qed

lemma ld_list_cong: "(\<And>w. w \<in> span v n \<Longrightarrow> ld w m' = ld w m) \<Longrightarrow> ld_list v n m' = ld_list v n m"
proof (induction n arbitrary: v)
  case (Suc n)
  have "ld_list (v + 1) n m' = ld_list (v + 1) n m" using Suc by (auto simp: span_Suc)
  then show ?case using Suc.prems [of v] by (simp add: span_Suc)
qed simp

lemma st_list_ok:
  assumes "inv m" "span v (length bs) \<subseteq> own m" "length bs \<le> 2 ^ 32"
  shows "\<exists>m'. st_list v bs m = Some m' \<and> inv m' \<and> own m' = own m \<and> ld_list v (length bs) m' = Some bs \<and>
    (\<forall>w \<in> own m - span v (length bs). ld w m' = ld w m)"
  using assms
proof (induction bs arbitrary: v m)
  case (Cons b bs)
  have v: "v \<in> own m" "span (v + 1) (length bs) \<subseteq> own m" using Cons.prems(2) by (auto simp: span_Suc)
  obtain m1 where m1: "st v b m = Some m1" "inv m1" "own m1 = own m"
    "\<And>w. w \<in> own m \<Longrightarrow> ld w m1 = (if w = v then Some b else ld w m)"
    using st_ok [OF Cons.prems(1) v(1), of b] by blast
  obtain m2 where m2: "st_list (v + 1) bs m1 = Some m2" "inv m2" "own m2 = own m1" "ld_list (v + 1) (length bs) m2 = Some bs"
    "\<And>w. w \<in> own m1 - span (v + 1) (length bs) \<Longrightarrow> ld w m2 = ld w m1"
    using Cons.IH [OF m1(2), of "v + 1"] v(2) m1(3) Cons.prems(3) by auto
  have "v \<notin> span (v + 1) (length bs)" using Cons.prems(3) by (intro span_fresh) simp
  then have "ld v m2 = Some b" using m2(5) [of v] m1(3,4) v(1) by simp
  moreover have "ld w m2 = ld w m" if "w \<in> own m - span v (length (b # bs))" for w
    using that m2(5) [of w] m1(3) m1(4) [of w] by (auto simp: span_Suc)
  ultimately show ?case using m1 m2 by auto
qed simp

end

section \<open>The pages a process owns\<close>

definition owned_addrs :: "u32 \<Rightarrow> pmem \<Rightarrow> u32 set" where
  "owned_addrs p m = {v. \<exists>e. pviewi p (page_index v) m = Some e \<and> avail e \<noteq> 0}"

lemma owned_frame:
  assumes "pt_inv p m" "pviewi p i m = Some e" "avail e \<noteq> 0"
  shows "addr e \<noteq> frame_of p" "\<not> is_table p (addr e) m"
  using pt_inv_owned [OF assms(1) is_ownedI [OF assms(2,3)]] by auto

lemma same_byte:
  "page_index v = page_index w \<Longrightarrow> word_index v = word_index w \<Longrightarrow> byte_index v = byte_index w \<Longrightarrow> v = w"
proof -
  assume a: "page_index v = page_index w" "word_index v = word_index w" "byte_index v = byte_index w"
  have m: "(3 :: u32) = mask 2" by (simp add: mask_eq_exp_minus_1)
  show "v = w"
  proof (rule bit_word_eqI)
    fix n assume n: "n < LENGTH(32)"
    consider "12 \<le> n" | "2 \<le> n" "n < 12" | "n < 2" by linarith
    then show "bit v n = bit w n"
    proof cases
      case 1
      have "bit (drop_bit 12 v) (n - 12) = bit (drop_bit 12 w) (n - 12)" using a(1) by (simp add: page_index_eq)
      then show ?thesis using 1 by (simp add: bit_simps)
    next
      case 2
      have "Suc (Suc (n - 2)) = n" using 2 by simp
      then have "bit (word_index u) (n - 2) = bit u n" for u using 2 by (auto simp: word_index_def bit_simps)
      then show ?thesis using a(2) by metis
    next
      case 3
      have "v AND 3 = w AND 3" using a(3) unfolding byte_index_def by (rule unsigned_word_eqI)
      then have "bit (v AND mask 2) n = bit (w AND mask 2) n" by (simp add: m)
      then show ?thesis using 3 by (simp add: bit_simps)
    qed
  qed
qed

lemma byte_index_less: "byte_index v < 4"
proof -
  have "v AND 3 \<le> 3" by (rule word_and_le1)
  then show ?thesis by (simp add: byte_index_def word_le_nat_alt)
qed

lemma store_byte_ok:
  assumes "pt_inv p m" "v \<in> owned_addrs p m"
  shows "\<exists>m'. store_byte p v b m = Some m' \<and> pt_inv p m' \<and> owned_addrs p m' = owned_addrs p m \<and>
    (\<forall>w \<in> owned_addrs p m. load_byte p w m' = (if w = v then Some b else load_byte p w m)) \<and>
    avail_frames m' = avail_frames m \<and> managed_frames m' = managed_frames m"
proof -
  obtain e where e: "pviewi p (page_index v) m = Some e" "avail e \<noteq> 0" using assms(2) by (auto simp: owned_addrs_def)
  let ?f = "addr e"
  define m' where "m' = m\<lparr>phys := (phys m)(?f := (phys m ?f)(word_index v := set_byte (phys m ?f (word_index v)) (byte_index v) b))\<rparr>"
  have st: "store_byte p v b m = Some m'" by (simp add: store_byte_def getmap_pviewi e(1) m'_def)
  have keep: "page_wf m' = page_wf m" "avail_frames m' = avail_frames m" "managed_frames m' = managed_frames m"
    by (simp_all add: m'_def page_wf_def avail_frames_def avail_addrs_def free_pages_def page_bit_def managed_frames_def managed_addrs_def)
  note view = view_frame_upd [OF owned_frame [OF assms(1) e], of m']
  have ph: "g \<noteq> ?f \<Longrightarrow> phys m' g = phys m g" for g by (simp add: m'_def)
  have inv: "pt_inv p m'"
    using pt_inv_shrink [OF assms(1), of m'] keep view [OF ph] pt_inv_wf [OF assms(1)] by blast
  have own: "owned_addrs p m' = owned_addrs p m" by (simp add: owned_addrs_def view [OF ph])
  have "load_byte p w m' = (if w = v then Some b else load_byte p w m)" if w: "w \<in> owned_addrs p m" for w
  proof -
    obtain e' where e': "pviewi p (page_index w) m = Some e'" "avail e' \<noteq> 0" using w by (auto simp: owned_addrs_def)
    have l: "load_byte p w m' = Some (byte_of (phys m' (addr e') (word_index w)) (byte_index w))"
      "load_byte p w m = Some (byte_of (phys m (addr e') (word_index w)) (byte_index w))"
      by (simp_all add: load_byte_def getmap_pviewi view [OF ph] e'(1))
    show ?thesis
    proof (cases "addr e' = ?f")
      case True
      have pg: "page_index w = page_index v"
        using pt_inv_owned_inj [OF assms(1) e'(1) e(1) e'(2) e(2) True] by (simp add: prod_eq_iff)
      show ?thesis using True l same_byte [of w v] pg byte_set_byte [OF byte_index_less byte_index_less]
        by (auto simp: m'_def)
    next
      case False
      then show ?thesis using l e e' by (auto simp: ph)
    qed
  qed
  with st inv own keep show ?thesis by blast
qed

interpretation own_pages: byte_memory "load_byte p" "store_byte p" "pt_inv p" "owned_addrs p"
  using store_byte_ok by unfold_locales blast

lemma store_bytes_st_list: "store_bytes p v bs = own_pages.st_list p v bs"
proof (induction bs arbitrary: v)
  case (Cons b bs)
  have "store_bytes p (v + 1) bs = own_pages.st_list p (v + 1) bs" by (rule Cons.IH)
  then show ?case by (intro ext) simp
qed (simp add: fun_eq_iff)

lemma load_bytes_ld_list: "load_bytes p v n m = own_pages.ld_list p v n m"
  by (induction n arbitrary: v) simp_all

definition span_of :: "u32 \<Rightarrow> nat \<Rightarrow> u32 set" where "span_of v n = (\<lambda>i. v + of_nat i) ` {..<n}"

lemma span_span: "own_pages.span v n = span_of v n"
  by (simp add: span_of_def own_pages.span_def)

lemma store_bytes_ok:
  assumes "pt_inv p m" "span_of v (length bs) \<subseteq> owned_addrs p m" "length bs \<le> 2 ^ 32"
  shows "\<exists>m'. store_bytes p v bs m = Some m' \<and> pt_inv p m' \<and> owned_addrs p m' = owned_addrs p m \<and>
    load_bytes p v (length bs) m' = Some bs \<and> (\<forall>w \<in> owned_addrs p m - span_of v (length bs). load_byte p w m' = load_byte p w m)"
  using own_pages.st_list_ok [OF assms(1)] assms(2,3)
  unfolding store_bytes_st_list load_bytes_ld_list span_span by blast

lemma load_bytes_cong:
  "(\<And>w. w \<in> span_of v n \<Longrightarrow> load_byte p w m' = load_byte p w m) \<Longrightarrow> load_bytes p v n m' = load_bytes p v n m"
  unfolding load_bytes_ld_list by (rule own_pages.ld_list_cong) (simp add: span_span)

end
