(* ===== verification/Kobject.thy ===== *)
theory Kobject
  imports Console Pipe Vfs Clock User_Memory Kmalloc
begin

text \<open>
  Kernel objects: \<^verbatim>\<open>kernel/kobject.c\<close>, the objects that programs hold in their tables, each a file, a
  directory, a device, a window, a pipe or a console with an offset, a tag and a count.  The record
  \<open>kstate\<close> gathers the states of these components inside the state of the scheduler, with the time read at
  the last interrupt of the clock chip, the time of the start, and the blocks written and read by the disks.  Buffers
  are addresses in the memory of the current address space.
\<close>

section \<open>State\<close>

datatype kobject_type_t =
    KOBJECT_FILE
  | KOBJECT_DIR
  | KOBJECT_DEVICE
  | KOBJECT_WINDOW
  | KOBJECT_PIPE
  | KOBJECT_CONSOLE

fun kobject_type_code :: "kobject_type_t \<Rightarrow> int" where
  "kobject_type_code KOBJECT_FILE = 0"
| "kobject_type_code KOBJECT_DIR = 1"
| "kobject_type_code KOBJECT_DEVICE = 2"
| "kobject_type_code KOBJECT_WINDOW = 3"
| "kobject_type_code KOBJECT_PIPE = 4"
| "kobject_type_code KOBJECT_CONSOLE = 5"

definition KERNEL_FLAGS_CREATE :: u32 where "KERNEL_FLAGS_CREATE = 2"
definition KERNEL_IO_NONBLOCK :: u32 where "KERNEL_IO_NONBLOCK = 1"
definition KERNEL_IO_POST :: u32 where "KERNEL_IO_POST = 2"

text \<open>The pointer \<open>kdata\<close> is the union of the source; \<open>ktype\<close> tells what it points to.\<close>

record kobject =
  kdata :: ptr
  ktype :: kobject_type_t
  k_refcount :: int
  koffset :: int
  ktag :: "buf option"

record ('v, 'p, 'hw) kstate = cgui +
  kobject :: "ptr \<Rightarrow> kobject"
  kfreed :: "ptr set"
  kpipe :: "ptr \<Rightarrow> pipe"
  kvfs :: "('v, 'p, 'hw) vfs"
  kclock :: clock
  cached_time :: rtc_time
  boottime :: u32
  ata_counters :: "nat \<Rightarrow> int \<times> int"

type_synonym ('v, 'p, 'hw) ksys = "('v, 'p, 'hw) kstate psys"

text \<open>
  What surrounds the operations: the tables of the file systems, the contents of a fresh page, the
  address of the next block of the allocator, the three addresses it gives for a window, its graphics and
  its queue, and what the rest of the system does from the moment the
  current process gives up the processor until it runs again.
\<close>

record ('v, 'p, 'hw) kenv =
  e_ops :: "('v, 'p, 'hw) optable"
  e_temp :: buf
  e_alloc :: "('v, 'p, 'hw) ksys \<Rightarrow> ptr"
  e_window :: "('v, 'p, 'hw) ksys \<Rightarrow> ptr \<times> ptr \<times> ptr"
  e_resume :: "('v, 'p, 'hw) ksys \<Rightarrow> ('v, 'p, 'hw) ksys option"

definition upd_k :: "(('v, 'p, 'hw) kstate \<Rightarrow> ('v, 'p, 'hw) kstate) \<Rightarrow> ('v, 'p, 'hw) ksys \<Rightarrow> ('v, 'p, 'hw) ksys" where
  "upd_k f s = s\<lparr>kobjs := f (kobjs s)\<rparr>"

definition upd_kobject :: "ptr \<Rightarrow> (kobject \<Rightarrow> kobject) \<Rightarrow> ('v, 'p, 'hw) ksys \<Rightarrow> ('v, 'p, 'hw) ksys" where
  "upd_kobject k f = upd_k (\<lambda>u. u\<lparr>kobject := (kobject u)(k := f (kobject u k))\<rparr>)"

definition upd_kpipe :: "ptr \<Rightarrow> (pipe \<Rightarrow> pipe) \<Rightarrow> ('v, 'p, 'hw) ksys \<Rightarrow> ('v, 'p, 'hw) ksys" where
  "upd_kpipe p f = upd_k (\<lambda>u. u\<lparr>kpipe := (kpipe u)(p := f (kpipe u p))\<rparr>)"

definition free_k :: "ptr \<Rightarrow> ('v, 'p, 'hw) ksys \<Rightarrow> ('v, 'p, 'hw) ksys" where
  "free_k p = upd_k (\<lambda>u. u\<lparr>kfreed := insert p (kfreed u)\<rparr>)"

definition on_vfs :: "(('v, 'p, 'hw) vfs \<Rightarrow> ('r \<times> ('v, 'p, 'hw) vfs) option) \<Rightarrow> ('v, 'p, 'hw) ksys \<Rightarrow> ('r \<times> ('v, 'p, 'hw) ksys) option" where
  "on_vfs f s = map_option (\<lambda>(r, v). (r, upd_k (\<lambda>u. u\<lparr>kvfs := v\<rparr>) s)) (f (kvfs (kobjs s)))"

definition on_devices :: "('hw world \<Rightarrow> 'r \<times> 'hw world) \<Rightarrow> ('v, 'p, 'hw) ksys \<Rightarrow> 'r \<times> ('v, 'p, 'hw) ksys" where
  "on_devices f s =
     (let (r, w) = f (world (vcache (kvfs (kobjs s)))) in
      (r, upd_k (\<lambda>u. u\<lparr>kvfs := (kvfs u)\<lparr>vcache := (vcache (kvfs u))\<lparr>world := w\<rparr>\<rparr>\<rparr>) s))"

definition get_user :: "u32 \<Rightarrow> nat \<Rightarrow> 'k psys \<Rightarrow> u8 list option" where
  "get_user a n s = load_bytes (cr3 s) a n (mem s)"

definition put_user :: "u32 \<Rightarrow> u8 list \<Rightarrow> 'k psys \<Rightarrow> 'k psys option" where
  "put_user a bs s = map_option (\<lambda>m. s\<lparr>mem := m\<rparr>) (store_bytes (cr3 s) a bs (mem s))"

section \<open>Creation and copying\<close>

text \<open>A null result of the allocator is dereferenced.\<close>

definition kobject_create :: "('v, 'p, 'hw) kenv \<Rightarrow> ('v, 'p, 'hw) ksys \<Rightarrow> (ptr \<times> ('v, 'p, 'hw) ksys) option" where
  "kobject_create E s =
     (let k = e_alloc E s in
      if k = 0 then None
      else Some (k, upd_kobject k (\<lambda>x. x\<lparr>k_refcount := 1, koffset := 0, ktag := None, kdata := 0\<rparr>)
        (upd_k (\<lambda>u. u\<lparr>kfreed := kfreed u - {k}\<rparr>) s)))"

definition kobject_make :: "kobject_type_t \<Rightarrow> ('v, 'p, 'hw) kenv \<Rightarrow> ptr \<Rightarrow> ('v, 'p, 'hw) ksys \<Rightarrow> (ptr \<times> ('v, 'p, 'hw) ksys) option" where
  "kobject_make ty E d s = do {
     (k, s) \<leftarrow> kobject_create E s;
     Some (k, upd_kobject k (\<lambda>x. x\<lparr>ktype := ty, kdata := d\<rparr>) s)
   }"

definition kobject_create_file where "kobject_create_file = kobject_make KOBJECT_FILE"
definition kobject_create_dir where "kobject_create_dir = kobject_make KOBJECT_DIR"
definition kobject_create_device where "kobject_create_device = kobject_make KOBJECT_DEVICE"
definition kobject_create_window where "kobject_create_window = kobject_make KOBJECT_WINDOW"
definition kobject_create_console where "kobject_create_console = kobject_make KOBJECT_CONSOLE"
definition kobject_create_pipe where "kobject_create_pipe = kobject_make KOBJECT_PIPE"

definition kobject_addref :: "ptr \<Rightarrow> ('v, 'p, 'hw) ksys \<Rightarrow> ptr \<times> ('v, 'p, 'hw) ksys" where
  "kobject_addref k s = (k, upd_kobject k (\<lambda>x. x\<lparr>k_refcount := k_refcount x + 1\<rparr>) s)"

text \<open>Another reference to what an object points to.\<close>

definition data_addref :: "kobject_type_t \<Rightarrow> ptr \<Rightarrow> ('v, 'p, 'hw) ksys \<Rightarrow> ('v, 'p, 'hw) ksys" where
  "data_addref ty d s =
     (case ty of
        KOBJECT_WINDOW \<Rightarrow> window_addref d s
      | KOBJECT_CONSOLE \<Rightarrow> console_addref d s
      | KOBJECT_FILE \<Rightarrow> upd_k (\<lambda>u. u\<lparr>kvfs := snd (fs_dirent_addref d (kvfs u))\<rparr>) s
      | KOBJECT_DIR \<Rightarrow> upd_k (\<lambda>u. u\<lparr>kvfs := snd (fs_dirent_addref d (kvfs u))\<rparr>) s
      | KOBJECT_DEVICE \<Rightarrow> snd (on_devices (\<lambda>w. ((), device_addref d w)) s)
      | KOBJECT_PIPE \<Rightarrow> upd_kpipe d pipe_addref s)"

definition copy_tag :: "buf option \<Rightarrow> buf option option" where
  "copy_tag t =
     (case t of None \<Rightarrow> Some None
      | Some tag \<Rightarrow> do { n \<leftarrow> strlen tag; strdup tag (Some (replicate (unat n + 1) 0)) })"

definition kobject_copy :: "('v, 'p, 'hw) kenv \<Rightarrow> ptr \<Rightarrow> ('v, 'p, 'hw) ksys \<Rightarrow> (ptr \<times> ('v, 'p, 'hw) ksys) option" where
  "kobject_copy E src s =
     (if src = 0 then None
      else do {
        (k, s) \<leftarrow> kobject_create E s;
        let x = kobject (kobjs s) src;
        tag \<leftarrow> copy_tag (ktag x);
        let s = upd_kobject k (\<lambda>_. \<lparr>kdata = kdata x, ktype = ktype x, k_refcount = 1, koffset = koffset x, ktag = tag\<rparr>) s;
        Some (k, data_addref (ktype x) (kdata x) s)
      })"

text \<open>New windows, consoles, files and directories from an object; 0 is the null result.\<close>

definition kobject_create_window_from_window ::
    "('v, 'p, 'hw) kenv \<Rightarrow> ptr \<Rightarrow> u32 \<Rightarrow> u32 \<Rightarrow> u32 \<Rightarrow> u32 \<Rightarrow> ('v, 'p, 'hw) ksys \<Rightarrow> (ptr \<times> ('v, 'p, 'hw) ksys) option" where
  "kobject_create_window_from_window E k x y w h s =
     (if ktype (kobject (kobjs s) k) \<noteq> KOBJECT_WINDOW then Some (0, s)
      else do {
        (win, s) \<leftarrow> window_create (e_window E s) (kdata (kobject (kobjs s) k)) x y w h s;
        if win \<noteq> 0 then kobject_create_window E win s else Some (0, s)
      })"

definition kobject_create_console_from_window ::
    "('v, 'p, 'hw) kenv \<Rightarrow> ptr \<Rightarrow> ('v, 'p, 'hw) ksys \<Rightarrow> (ptr \<times> ('v, 'p, 'hw) ksys) option" where
  "kobject_create_console_from_window E k s =
     (if ktype (kobject (kobjs s) k) \<noteq> KOBJECT_WINDOW then Some (0, s)
      else do {
        (c, s) \<leftarrow> console_create (e_alloc E s) (kdata (kobject (kobjs s) k)) s;
        if c = 0 then Some (0, s) else kobject_create_console E c s
      })"

definition kobject_create_file_from_dir ::
    "('v, 'p, 'hw) kenv \<Rightarrow> ptr \<Rightarrow> buf \<Rightarrow> ('v, 'p, 'hw) ksys \<Rightarrow> (ptr \<times> ('v, 'p, 'hw) ksys) option" where
  "kobject_create_file_from_dir E k name s =
     (if ktype (kobject (kobjs s) k) = KOBJECT_DIR then do {
        (d, s) \<leftarrow> on_vfs (fs_dirent_mkfile (e_ops E) (kdata (kobject (kobjs s) k)) name) s;
        if d \<noteq> 0 then kobject_create_file E d s else Some (0, s)
      } else Some (0, s))"

definition kobject_create_dir_from_dir ::
    "('v, 'p, 'hw) kenv \<Rightarrow> ptr \<Rightarrow> buf \<Rightarrow> ('v, 'p, 'hw) ksys \<Rightarrow> (ptr \<times> ('v, 'p, 'hw) ksys) option" where
  "kobject_create_dir_from_dir E k name s =
     (if ktype (kobject (kobjs s) k) = KOBJECT_DIR then do {
        (d, s) \<leftarrow> on_vfs (fs_dirent_mkdir (e_ops E) (kdata (kobject (kobjs s) k)) name) s;
        if d \<noteq> 0 then kobject_create_dir E d s else Some (0, s)
      } else Some (0, s))"

section \<open>Pipes in the state of the kernel\<close>

text \<open>
  The waiting loops of a blocking transfer: they end with room or data in the pipe, \<open>True\<close>, or because the
  pipe was flushed.  The processes that wait on a pipe are on the list at its address.
\<close>

partial_function (option) pipe_wait_room ::
    "('v, 'p, 'hw) kenv \<Rightarrow> ptr \<Rightarrow> ('v, 'p, 'hw) ksys \<Rightarrow> (bool \<times> ('v, 'p, 'hw) ksys) option" where
  "pipe_wait_room E p s =
     (let x = kpipe (kobjs s) p in
      if c_mod (write_pos x + 1) PIPE_SIZE = read_pos x then
        if flushed x then Some (False, upd_kpipe p (\<lambda>x. x\<lparr>flushed := False\<rparr>) s)
        else do { s \<leftarrow> process_wait p s; s \<leftarrow> e_resume E s; pipe_wait_room E p s }
      else Some (True, s))"

partial_function (option) pipe_wait_data ::
    "('v, 'p, 'hw) kenv \<Rightarrow> ptr \<Rightarrow> ('v, 'p, 'hw) ksys \<Rightarrow> (bool \<times> ('v, 'p, 'hw) ksys) option" where
  "pipe_wait_data E p s =
     (let x = kpipe (kobjs s) p in
      if write_pos x = read_pos x then
        if flushed x then Some (False, upd_kpipe p (\<lambda>x. x\<lparr>flushed := False\<rparr>) s)
        else do { s \<leftarrow> process_wait p s; s \<leftarrow> e_resume E s; pipe_wait_data E p s }
      else Some (True, s))"

fun pipe_write_blocking ::
    "('v, 'p, 'hw) kenv \<Rightarrow> ptr \<Rightarrow> u8 list \<Rightarrow> int \<Rightarrow> ('v, 'p, 'hw) ksys \<Rightarrow> (int \<times> ('v, 'p, 'hw) ksys) option" where
  "pipe_write_blocking E p [] n s = do {
     s \<leftarrow> process_wakeup_all p s;
     Some (n, upd_kpipe p (\<lambda>x. x\<lparr>flushed := False\<rparr>) s)
   }"
| "pipe_write_blocking E p (b # bs) n s = do {
     (room, s) \<leftarrow> pipe_wait_room E p s;
     if room then pipe_write_blocking E p bs (n + 1) (upd_kpipe p (pipe_put b) s) else Some (n, s)
   }"

fun pipe_read_blocking ::
    "('v, 'p, 'hw) kenv \<Rightarrow> ptr \<Rightarrow> nat \<Rightarrow> u8 list \<Rightarrow> ('v, 'p, 'hw) ksys \<Rightarrow> (u8 list \<times> ('v, 'p, 'hw) ksys) option" where
  "pipe_read_blocking E p 0 out s = do {
     s \<leftarrow> process_wakeup_all p s;
     Some (out, upd_kpipe p (\<lambda>x. x\<lparr>flushed := False\<rparr>) s)
   }"
| "pipe_read_blocking E p (Suc n) out s = do {
     (data, s) \<leftarrow> pipe_wait_data E p s;
     if data then
       let (b, x) = pipe_get (kpipe (kobjs s) p) in pipe_read_blocking E p n (out @ [b]) (upd_kpipe p (\<lambda>_. x) s)
     else Some (out, s)
   }"

text \<open>The two functions of \<^verbatim>\<open>kernel/pipe.c\<close> on a buffer at the address \<open>a\<close>.\<close>

definition pipe_write_internal ::
    "('v, 'p, 'hw) kenv \<Rightarrow> ptr \<Rightarrow> u32 \<Rightarrow> int \<Rightarrow> bool \<Rightarrow> ('v, 'p, 'hw) ksys \<Rightarrow> (int \<times> ('v, 'p, 'hw) ksys) option" where
  "pipe_write_internal E p a sz blocking s =
     (if p = 0 \<or> a = 0 then Some (- 1, s)
      else do {
        data \<leftarrow> get_user a (nat sz) s;
        if blocking then pipe_write_blocking E p data 0 s
        else let (n, x) = pipe_write_nonblock (kpipe (kobjs s) p) data in Some (n, upd_kpipe p (\<lambda>_. x) s)
      })"

definition pipe_read_internal ::
    "('v, 'p, 'hw) kenv \<Rightarrow> ptr \<Rightarrow> u32 \<Rightarrow> int \<Rightarrow> bool \<Rightarrow> ('v, 'p, 'hw) ksys \<Rightarrow> (int \<times> ('v, 'p, 'hw) ksys) option" where
  "pipe_read_internal E p a sz blocking s =
     (if p = 0 \<or> a = 0 then Some (- 1, s)
      else do {
        (out, s) \<leftarrow> (if blocking then pipe_read_blocking E p (nat sz) [] s
          else let (out, x) = pipe_read_nonblock (kpipe (kobjs s) p) (nat sz) in Some (out, upd_kpipe p (\<lambda>_. x) s));
        s \<leftarrow> put_user a out s;
        Some (int (length out), s)
      })"

section \<open>Reading and writing\<close>

definition event_bytes :: "event \<Rightarrow> u8 list" where
  "event_bytes e = concat (map (\<lambda>x. [ucast x, ucast (drop_bit 8 x)]) [etype e, ecode e, ex e, ey e])"

definition u16_at :: "u8 list \<Rightarrow> nat \<Rightarrow> u16" where
  "u16_at bs i = ucast (bs ! i) OR push_bit 8 (ucast (bs ! (i + 1)))"

definition event_at :: "u8 list \<Rightarrow> nat \<Rightarrow> event" where
  "event_at bs i = \<lparr>etype = u16_at bs (8 * i), ecode = u16_at bs (8 * i + 2), ex = u16_at bs (8 * i + 4), ey = u16_at bs (8 * i + 6)\<rparr>"

text \<open>
  Reading fills the buffer at \<open>a\<close> and advances the offset by the result.  What a failing block
  read leaves in the buffer beyond the result is not kept.  The quotient by the block size of a device
  that has none is a division by zero.
\<close>

definition read_data ::
    "('v, 'p, 'hw) kenv \<Rightarrow> kobject \<Rightarrow> u32 \<Rightarrow> int \<Rightarrow> u32 \<Rightarrow> ('v, 'p, 'hw) ksys \<Rightarrow> (int \<times> ('v, 'p, 'hw) ksys) option" where
  "read_data E x a sz flags s =
     (let nonblock = flags AND KERNEL_IO_NONBLOCK \<noteq> 0; d = kdata x in
      case ktype x of
        KOBJECT_FILE \<Rightarrow> do {
          let len = (word_of_int sz :: u32);
          ((r, bs), s) \<leftarrow> on_vfs (\<lambda>v. do {
              (r, bs, v) \<leftarrow> fs_dirent_read (e_ops E) (e_temp E) d (replicate (unat len) 0) len (word_of_int (koffset x)) v;
              Some ((r, bs), v) }) s;
          s \<leftarrow> put_user a (take (nat r) bs) s;
          Some (r, s)
        }
      | KOBJECT_DIR \<Rightarrow> Some (kerr KERROR_INVALID_REQUEST, s)
      | KOBJECT_DEVICE \<Rightarrow>
          (let bs = device_block_size d (world (vcache (kvfs (kobjs s)))) in
           if bs = 0 then None
           else do {
             let ((r, out), s) = on_devices (\<lambda>w.
               let (r, out, w) = (if nonblock then device_read_nonblock else device_read) d (c_div sz bs) 0 w in ((r, out), w)) s;
             s \<leftarrow> put_user a out s;
             Some (r, s)
           })
      | KOBJECT_PIPE \<Rightarrow> pipe_read_internal E d a sz (\<not> nonblock) s
      | KOBJECT_WINDOW \<Rightarrow> do {
          (r, es, s) \<leftarrow> (if nonblock then window_read_events_nonblock d (word_of_int sz) s
            else window_read_events (e_resume E) d (word_of_int sz) s);
          s \<leftarrow> put_user a (concat (map event_bytes es)) s;
          Some (r, s)
        }
      | KOBJECT_CONSOLE \<Rightarrow> do {
          (out, s) \<leftarrow> (if nonblock then console_read_nonblock d sz s else console_read (e_resume E) d sz s);
          s \<leftarrow> put_user a out s;
          Some (int (length out), s)
        })"

definition kobject_read ::
    "('v, 'p, 'hw) kenv \<Rightarrow> ptr \<Rightarrow> u32 \<Rightarrow> int \<Rightarrow> u32 \<Rightarrow> ('v, 'p, 'hw) ksys \<Rightarrow> (int \<times> ('v, 'p, 'hw) ksys) option" where
  "kobject_read E k a sz flags s = do {
     (actual, s) \<leftarrow> read_data E (kobject (kobjs s) k) a sz flags s;
     Some (actual, if actual > 0 then upd_kobject k (\<lambda>x. x\<lparr>koffset := i32 (koffset x + actual)\<rparr>) s else s)
   }"

text \<open>
  The commands of a graphics stream are words of memory from \<open>a\<close> on, where a word that is not mapped reads
  as 0.
\<close>

definition command_at :: "u32 \<Rightarrow> 'k psys \<Rightarrow> int \<Rightarrow> u32" where
  "command_at a s i = (case load_word (cr3 s) (a + 4 * word_of_int i) (mem s) of Some w \<Rightarrow> w | None \<Rightarrow> 0)"

definition kobject_write ::
    "('v, 'p, 'hw) kenv \<Rightarrow> ptr \<Rightarrow> u32 \<Rightarrow> int \<Rightarrow> u32 \<Rightarrow> ('v, 'p, 'hw) ksys \<Rightarrow> (int \<times> ('v, 'p, 'hw) ksys) option" where
  "kobject_write E k a sz flags s =
     (let x = kobject (kobjs s) k; d = kdata x; post = flags AND KERNEL_IO_POST \<noteq> 0 in
      case ktype x of
        KOBJECT_WINDOW \<Rightarrow>
          (if post then do {
             data \<leftarrow> get_user a (8 * (unat (word_of_int sz :: u32) div 8)) s;
             window_post_events d (event_at data) (word_of_int sz) s
           } else window_write_graphics d (command_at a s) sz s)
      | KOBJECT_CONSOLE \<Rightarrow> do {
          data \<leftarrow> get_user a (nat sz) s;
          if post then console_post d data s else Some (console_write d data s)
        }
      | KOBJECT_FILE \<Rightarrow> do {
          let len = (word_of_int sz :: u32);
          data \<leftarrow> get_user a (unat len) s;
          (actual, s) \<leftarrow> on_vfs (fs_dirent_write (e_ops E) (e_temp E) d data len (word_of_int (koffset x))) s;
          Some (actual, if actual > 0 then upd_kobject k (\<lambda>x. x\<lparr>koffset := i32 (koffset x + actual)\<rparr>) s else s)
        }
      | KOBJECT_DEVICE \<Rightarrow>
          (let bs = device_block_size d (world (vcache (kvfs (kobjs s)))) in
           if bs = 0 then None
           else do {
             data \<leftarrow> get_user a (nat (c_div sz bs * bs)) s;
             Some (on_devices (device_write d data (c_div sz bs) 0) s)
           })
      | KOBJECT_PIPE \<Rightarrow> pipe_write_internal E d a sz (flags AND KERNEL_IO_NONBLOCK = 0) s
      | KOBJECT_DIR \<Rightarrow> Some (0, s))"

section \<open>Directories\<close>

definition kobject_list ::
    "('v, 'p, 'hw) kenv \<Rightarrow> ptr \<Rightarrow> u32 \<Rightarrow> int \<Rightarrow> ('v, 'p, 'hw) ksys \<Rightarrow> (int \<times> ('v, 'p, 'hw) ksys) option" where
  "kobject_list E k a sz s =
     (if ktype (kobject (kobjs s) k) = KOBJECT_DIR then do {
        ((r, out), s) \<leftarrow> on_vfs (\<lambda>v. do {
            (r, out, v) \<leftarrow> fs_dirent_list (e_ops E) (kdata (kobject (kobjs s) k)) sz v; Some ((r, out), v) }) s;
        s \<leftarrow> put_user a out s;
        Some (r, s)
      } else Some (kerr KERROR_NOT_A_DIRECTORY, s))"

text \<open>The second result is the new object.\<close>

definition kobject_lookup ::
    "('v, 'p, 'hw) kenv \<Rightarrow> ptr \<Rightarrow> buf \<Rightarrow> ('v, 'p, 'hw) ksys \<Rightarrow> (int \<times> ptr \<times> ('v, 'p, 'hw) ksys) option" where
  "kobject_lookup E k name s =
     (if ktype (kobject (kobjs s) k) = KOBJECT_DIR then do {
        (d, s) \<leftarrow> on_vfs (fs_dirent_traverse (e_ops E) (kdata (kobject (kobjs s) k)) name) s;
        if d \<noteq> 0 then do {
          (n, s) \<leftarrow> (if fs_dirent_isdir d (kvfs (kobjs s)) then kobject_create_dir E d s else kobject_create_file E d s);
          Some (0, n, s)
        } else Some (kerr KERROR_NOT_FOUND, 0, s)
      } else Some (kerr KERROR_NOT_IMPLEMENTED, 0, s))"

definition kobject_remove ::
    "('v, 'p, 'hw) kenv \<Rightarrow> ptr \<Rightarrow> buf \<Rightarrow> ('v, 'p, 'hw) ksys \<Rightarrow> (int \<times> ('v, 'p, 'hw) ksys) option" where
  "kobject_remove E k name s =
     (if ktype (kobject (kobjs s) k) = KOBJECT_DIR
      then on_vfs (fs_dirent_remove (e_ops E) (kdata (kobject (kobjs s) k)) name) s
      else Some (kerr KERROR_NOT_IMPLEMENTED, s))"

section \<open>Closing\<close>

text \<open>Dropping the reference to what an object points to; a pipe without references gives its page back.\<close>

definition data_close ::
    "('v, 'p, 'hw) kenv \<Rightarrow> kobject_type_t \<Rightarrow> ptr \<Rightarrow> ('v, 'p, 'hw) ksys \<Rightarrow> ('v, 'p, 'hw) ksys option" where
  "data_close E ty d s =
     (case ty of
        KOBJECT_WINDOW \<Rightarrow> window_delete d s
      | KOBJECT_CONSOLE \<Rightarrow> console_delete d s
      | KOBJECT_FILE \<Rightarrow> map_option snd (on_vfs (fs_dirent_close (e_ops E) d) s)
      | KOBJECT_DIR \<Rightarrow> map_option snd (on_vfs (fs_dirent_close (e_ops E) d) s)
      | KOBJECT_DEVICE \<Rightarrow> Some (let (freed, s) = on_devices (device_close d) s in if freed then free_k d s else s)
      | KOBJECT_PIPE \<Rightarrow>
          Some (if d = 0 then s
            else let (x, m) = pipe_delete (kpipe (kobjs s) d) (mem s); s = s\<lparr>mem := m\<rparr> in
              case x of None \<Rightarrow> free_k d s | Some x \<Rightarrow> upd_kpipe d (\<lambda>_. x) s))"

definition kobject_close ::
    "('v, 'p, 'hw) kenv \<Rightarrow> ptr \<Rightarrow> ('v, 'p, 'hw) ksys \<Rightarrow> (int \<times> ('v, 'p, 'hw) ksys) option" where
  "kobject_close E k s =
     (let s = upd_kobject k (\<lambda>x. x\<lparr>k_refcount := k_refcount x - 1\<rparr>) s; x = kobject (kobjs s) k in
      if k_refcount x = 0 then do { s \<leftarrow> data_close E (ktype x) (kdata x) s; Some (0, free_k k s) }
      else if k_refcount x > 1 \<and> ktype x = KOBJECT_PIPE then Some (0, upd_kpipe (kdata x) pipe_flush s)
      else Some (0, s))"

section \<open>Sizes and tags\<close>

text \<open>The values stored to the array \<open>dims\<close>, when its length \<open>n\<close> fits the object.\<close>

definition kobject_size :: "ptr \<Rightarrow> int \<Rightarrow> ('v, 'p, 'hw) ksys \<Rightarrow> int \<times> int list" where
  "kobject_size k n s =
     (let x = kobject (kobjs s) k; d = kdata x; w = world (vcache (kvfs (kobjs s)));
          dims = (case ktype x of
            KOBJECT_WINDOW \<Rightarrow> [sint (window_width d s), sint (window_height d s)]
          | KOBJECT_CONSOLE \<Rightarrow> [fst (console_size d s), snd (console_size d s)]
          | KOBJECT_FILE \<Rightarrow> [fs_dirent_size d (kvfs (kobjs s))]
          | KOBJECT_DIR \<Rightarrow> [fs_dirent_size d (kvfs (kobjs s))]
          | KOBJECT_DEVICE \<Rightarrow> [device_nblocks d w, device_block_size d w]
          | KOBJECT_PIPE \<Rightarrow> [pipe_size (kpipe (kobjs s) d)]) in
      if n = int (length dims) then (0, dims) else (kerr KERROR_INVALID_REQUEST, []))"

definition kobject_get_type :: "ptr \<Rightarrow> ('v, 'p, 'hw) ksys \<Rightarrow> int" where
  "kobject_get_type k s = kobject_type_code (ktype (kobject (kobjs s) k))"

text \<open>
  The block for a tag has no room for its zero: \<^verbatim>\<open>kmalloc\<close> rounds the length up to units of 16 bytes, and
  a tag whose length is such a multiple is written beyond the block.
\<close>

definition kobject_set_tag :: "ptr \<Rightarrow> buf \<Rightarrow> ('v, 'p, 'hw) ksys \<Rightarrow> (int \<times> ('v, 'p, 'hw) ksys) option" where
  "kobject_set_tag k tag s = do {
     n \<leftarrow> strlen tag;
     t \<leftarrow> strcpy (replicate (nat (kmalloc_size (sint n) - KUNIT)) 0) tag;
     Some (1, upd_kobject k (\<lambda>x. x\<lparr>ktag := Some t\<rparr>) s)
   }"

definition kobject_get_tag :: "ptr \<Rightarrow> u32 \<Rightarrow> ('v, 'p, 'hw) ksys \<Rightarrow> (int \<times> ('v, 'p, 'hw) ksys) option" where
  "kobject_get_tag k a s =
     (case ktag (kobject (kobjs s) k) of
        None \<Rightarrow> Some (0, s)
      | Some tag \<Rightarrow> do {
          n \<leftarrow> strlen tag;
          s \<leftarrow> put_user a (take (unat n + 1) tag) s;
          Some (1, s)
        })"

end
