(* ===== verification/Is_Valid.thy ===== *)
theory Is_Valid
  imports Kobject
begin

text \<open>
  The checks of the arguments of system calls, \<^verbatim>\<open>kernel/is_valid.c\<close>: paths, tags and locations are strings
  of certain characters; an object number is in range and in use.  The checks of pointers accept
  everything.  The search of objects by tag and the resolution of paths of \<^verbatim>\<open>kernel/fs.c\<close>, which need
  the objects of the current process, are here too.
\<close>

section \<open>Strings\<close>

definition path_char :: "u8 \<Rightarrow> bool" where
  "path_char c \<longleftrightarrow> \<not> (c <s 45 \<or> 57 <s c \<and> c <s 65 \<or> 90 <s c \<and> c <s 95 \<or> 95 <s c \<and> c <s 97 \<or> 122 <s c)"

definition tag_char :: "u8 \<Rightarrow> bool" where
  "tag_char c \<longleftrightarrow> \<not> (c <s 48 \<or> 57 <s c \<and> c <s 65 \<or> 90 <s c \<and> c <s 95 \<or> 95 <s c \<and> c <s 97 \<or> 122 <s c)"

fun all_valid :: "(u8 \<Rightarrow> bool) \<Rightarrow> buf \<Rightarrow> nat \<Rightarrow> bool option" where
  "all_valid valid s 0 = Some True"
| "all_valid valid (c # s) (Suc n) = (if valid c then all_valid valid s n else Some False)"
| "all_valid valid [] (Suc n) = None"

definition is_valid_path :: "buf \<Rightarrow> bool option" where
  "is_valid_path s = do { n \<leftarrow> strlen s; all_valid path_char s (unat n) }"

definition is_valid_tag :: "buf \<Rightarrow> bool option" where
  "is_valid_tag s = do { n \<leftarrow> strlen s; all_valid tag_char s (unat n) }"

text \<open>The position of the first colon, or the end of the string.\<close>

fun colon_index :: "buf \<Rightarrow> nat" where
  "colon_index [] = 0"
| "colon_index (c # s) = (if c \<noteq> 58 then Suc (colon_index s) else 0)"

definition is_valid_location :: "buf \<Rightarrow> bool option" where
  "is_valid_location s = do {
     n \<leftarrow> strlen s;
     test \<leftarrow> strcpy (replicate (unat n + 1) 0) s;
     let i = colon_index (take (unat n) s);
     let test = test[i := 0];
     ok \<leftarrow> is_valid_tag test;
     if ok then is_valid_path (drop (i + 1) test) else Some False
   }"

section \<open>Objects and pointers\<close>

definition fd_object :: "int \<Rightarrow> 'k psys \<Rightarrow> ptr" where
  "fd_object fd s = ktable (procs s (current s)) ! nat fd"

definition is_valid_object :: "int \<Rightarrow> 'k psys \<Rightarrow> bool" where
  "is_valid_object fd s \<longleftrightarrow> 0 \<le> fd \<and> fd < int PROCESS_MAX_OBJECTS \<and> fd_object fd s \<noteq> 0"

definition is_valid_object_type :: "int \<Rightarrow> kobject_type_t \<Rightarrow> ('v, 'p, 'hw) ksys \<Rightarrow> bool" where
  "is_valid_object_type fd ty s \<longleftrightarrow>
     is_valid_object fd s \<and> kobject_get_type (fd_object fd s) s = kobject_type_code ty"

definition is_valid_pointer :: "u32 \<Rightarrow> int \<Rightarrow> bool" where "is_valid_pointer p len = True"
definition is_valid_string :: "u32 \<Rightarrow> bool" where "is_valid_string str = True"

section \<open>Resolution of paths\<close>

text \<open>
  The loop of \<^verbatim>\<open>find_kobject_by_tag\<close> over the numbers \<open>is\<close>: an object without a tag is compared through the null
  pointer.
\<close>

fun find_tag :: "buf \<Rightarrow> nat list \<Rightarrow> ('v, 'p, 'hw) ksys \<Rightarrow> ptr option" where
  "find_tag tag [] s = Some 0"
| "find_tag tag (i # is) s =
     (let k = fd_object (int i) s in
      if k = 0 then find_tag tag is s
      else do {
        t \<leftarrow> ktag (kobject (kobjs s) k);
        r \<leftarrow> strcmp t tag;
        if r = 0 then Some k else find_tag tag is s
      })"

definition find_kobject_by_tag :: "buf \<Rightarrow> ('v, 'p, 'hw) ksys \<Rightarrow> ptr option" where
  "find_kobject_by_tag tag s =
     (case tag of [] \<Rightarrow> None
      | c # rest \<Rightarrow>
          if c = 35 then do {
            r \<leftarrow> str2int rest;
            i \<leftarrow> r;
            if 0 \<le> i \<and> i < int PROCESS_MAX_OBJECTS then Some (fd_object i s) else None
          }
          else find_tag tag [0..<nat (process_object_max s)] s)"

definition KNO_STDDIR :: int where "KNO_STDDIR = 4"

definition fs_getroot :: "('v, 'p, 'hw) ksys \<Rightarrow> ptr" where
  "fs_getroot s =
     (let k = fd_object KNO_STDDIR s in
      if k \<noteq> 0 \<and> ktype (kobject (kobjs s) k) = KOBJECT_DIR then kdata (kobject (kobjs s) k) else 0)"

definition fs_getcurrent :: "('v, 'p, 'hw) ksys \<Rightarrow> ptr" where
  "fs_getcurrent s =
     (let k = fd_object KNO_STDDIR s in
      if k \<noteq> 0 \<and> ktype (kobject (kobjs s) k) = KOBJECT_DIR then kdata (kobject (kobjs s) k) else 0)"

text \<open>A path with a tag is traversed as a whole, with its tag, from the directory that has the tag.\<close>

definition fs_resolve :: "('v, 'p, 'hw) kenv \<Rightarrow> buf \<Rightarrow> ('v, 'p, 'hw) ksys \<Rightarrow> (ptr \<times> ('v, 'p, 'hw) ksys) option" where
  "fs_resolve E path s =
     (case path of [] \<Rightarrow> None
      | c # rest \<Rightarrow>
          if c = 47 then on_vfs (fs_dirent_traverse (e_ops E) (fs_getroot s) rest) s
          else do {
            colon \<leftarrow> strchr path 58;
            case colon of
              Some suffix \<Rightarrow> do {
                let i = length path - length suffix;
                n \<leftarrow> strlen path;
                dup \<leftarrow> strdup path (Some (replicate (unat n + 1) 0));
                tagstr \<leftarrow> dup;
                k \<leftarrow> find_kobject_by_tag (tagstr[i := 0]) s;
                if k = 0 \<or> ktype (kobject (kobjs s) k) \<noteq> KOBJECT_DIR then Some (0, s)
                else let d = kdata (kobject (kobjs s) k) in
                  if suffix ! 1 = 0 then on_vfs (\<lambda>v. Some (fs_dirent_addref d v)) s
                  else on_vfs (fs_dirent_traverse (e_ops E) d path) s
              }
            | None \<Rightarrow> on_vfs (fs_dirent_traverse (e_ops E) (fs_getcurrent s) path) s
          })"

section \<open>The characters of valid names\<close>

definition letters_digits :: "u8 set" where
  "letters_digits = {48..57} \<union> {65..90} \<union> {97..122}"

lemma sint_u8: "sint (c :: u8) = (if uint c < 128 then uint c else uint c - 256)"
proof -
  have b: "0 \<le> uint c" "uint c < 256" using uint_lt2p [of c] by simp_all
  have "sint c = (uint c + 128) mod 256 - 128"
    by (simp add: sint_uint signed_take_bit_eq_take_bit_shift take_bit_eq_mod)
  also have "\<dots> = (if uint c < 128 then uint c else uint c - 256)"
    using b by (cases "uint c < 128") (simp_all add: mod_pos_pos_trivial mod_pos_geq)
  finally show ?thesis .
qed

lemma char_classes:
  "path_char c \<longleftrightarrow> c \<in> letters_digits \<union> {45, 46, 47, 95}" "tag_char c \<longleftrightarrow> c \<in> letters_digits \<union> {95}"
proof -
  define u where "u = uint c"
  have b: "0 \<le> u" "u < 256" unfolding u_def using uint_lt2p [of c] by simp_all
  have e: "c = n \<longleftrightarrow> u = uint n" for n :: u8 unfolding u_def by (rule word_uint_eq_iff)
  have ld: "c \<in> letters_digits \<longleftrightarrow> (48 \<le> u \<and> u \<le> 57) \<or> (65 \<le> u \<and> u \<le> 90) \<or> (97 \<le> u \<and> u \<le> 122)"
    by (auto simp: letters_digits_def word_le_def u_def)
  have s: "sint c = (if u < 128 then u else u - 256)" by (simp add: sint_u8 u_def)
  have "path_char c \<longleftrightarrow> (48 \<le> u \<and> u \<le> 57) \<or> (65 \<le> u \<and> u \<le> 90) \<or> (97 \<le> u \<and> u \<le> 122) \<or> u = 45 \<or> u = 46 \<or> u = 47 \<or> u = 95"
    unfolding path_char_def word_sless_alt s using b by auto
  then show "path_char c \<longleftrightarrow> c \<in> letters_digits \<union> {45, 46, 47, 95}" unfolding Un_iff insert_iff empty_iff ld e by auto
  have "tag_char c \<longleftrightarrow> (48 \<le> u \<and> u \<le> 57) \<or> (65 \<le> u \<and> u \<le> 90) \<or> (97 \<le> u \<and> u \<le> 122) \<or> u = 95"
    unfolding tag_char_def word_sless_alt s using b by auto
  then show "tag_char c \<longleftrightarrow> c \<in> letters_digits \<union> {95}" unfolding Un_iff insert_iff empty_iff ld e by auto
qed

lemma all_valid_list: "n \<le> length s \<Longrightarrow> all_valid valid s n = Some (\<forall>c \<in> set (take n s). valid c)"
  by (induction valid s n rule: all_valid.induct) auto

lemma valid_cstr:
  assumes "is_cstr xs s" "length xs < 2 ^ 32"
  shows "is_valid_path s = Some (\<forall>c \<in> set xs. path_char c)" "is_valid_tag s = Some (\<forall>c \<in> set xs. tag_char c)"
proof -
  have u: "unat (of_nat (length xs) :: u32) = length xs" using assms(2) by (intro unat_of_nat_eq) simp
  obtain r where s: "s = xs @ 0 # r" using assms(1) by (auto simp: is_cstr_def)
  have "all_valid valid s (length xs) = Some (\<forall>c \<in> set xs. valid c)" for valid
    using all_valid_list [of "length xs" s valid] by (simp add: s)
  then show "is_valid_path s = Some (\<forall>c \<in> set xs. path_char c)" "is_valid_tag s = Some (\<forall>c \<in> set xs. tag_char c)"
    using strlen_cstr [OF assms(1)] u by (simp_all add: is_valid_path_def is_valid_tag_def)
qed

lemma colon_index_app: "58 \<notin> set t \<Longrightarrow> colon_index (t @ 58 # p) = length t" "58 \<notin> set t \<Longrightarrow> colon_index t = length t"
  by (induction t) auto

text \<open>A location is a tag of letters, digits and underscores, a colon, and a path of these characters and
  dashes, dots and slashes; the check answers for every string with a colon.  Without a colon
  it reads beyond the copy of the string that it makes, when the string is a tag.\<close>

theorem is_valid_location_checks:
  assumes "0 \<notin> set t" "58 \<notin> set t" "0 \<notin> set p" "length t + length p + 1 < 2 ^ 32"
  shows "is_valid_location (t @ 58 # p @ 0 # r) =
      Some (set t \<subseteq> letters_digits \<union> {95} \<and> set p \<subseteq> letters_digits \<union> {45, 46, 47, 95}) \<and>
    is_valid_location (t @ 0 # r) = (if set t \<subseteq> letters_digits \<union> {95} then None else Some False)"
proof
  let ?x = "t @ 58 # p"
  have c: "is_cstr ?x (t @ 58 # p @ 0 # r)" using assms(1,3) by (auto simp: is_cstr_def)
  have u: "unat (of_nat (length ?x) :: u32) = length ?x" using assms(4) by (intro unat_of_nat_eq) simp
  have l: "strlen (t @ 58 # p @ 0 # r) = Some (of_nat (length ?x))" using strlen_cstr [OF c] .
  have cp: "strcpy (replicate (unat (of_nat (length ?x) :: u32) + 1) 0) (t @ 58 # p @ 0 # r) = Some (?x @ [0])"
    unfolding u strcpy_cstr [OF c] by simp
  have i: "colon_index (take (unat (of_nat (length ?x) :: u32)) (t @ 58 # p @ 0 # r)) = length t"
    unfolding u using colon_index_app(1) [OF assms(2), of p] by simp
  have upd: "(?x @ [0])[length t := 0] = t @ 0 # p @ [0]" by (simp add: list_update_append)
  have "is_valid_location (t @ 58 # p @ 0 # r) = Option.bind (is_valid_tag (t @ 0 # p @ [0]))
      (\<lambda>ok. if ok then is_valid_path (drop (length t + 1) (t @ 0 # p @ [0])) else Some False)"
    unfolding is_valid_location_def l Option.bind_lunit cp Let_def i upd ..
  moreover have "is_cstr t (t @ 0 # p @ [0])" "is_cstr p (p @ [0])" using assms(1,3) by (auto simp: is_cstr_def)
  ultimately show "is_valid_location (t @ 58 # p @ 0 # r) =
      Some (set t \<subseteq> letters_digits \<union> {95} \<and> set p \<subseteq> letters_digits \<union> {45, 46, 47, 95})"
    using assms(4) valid_cstr(2) [of t "t @ 0 # p @ [0]"] valid_cstr(1) [of p "p @ [0]"]
    by (auto simp: char_classes)
next
  have c: "is_cstr t (t @ 0 # r)" using assms(1) by (auto simp: is_cstr_def)
  have u: "unat (of_nat (length t) :: u32) = length t" using assms(4) by (intro unat_of_nat_eq) simp
  have i: "colon_index t = length t" using colon_index_app(2) [OF assms(2)] .
  have "is_cstr t (t @ [0])" using assms(1) by (auto simp: is_cstr_def)
  then have "is_valid_tag (t @ [0]) = Some (set t \<subseteq> letters_digits \<union> {95})"
    using assms(4) valid_cstr(2) [of t] by (auto simp: char_classes)
  moreover have "is_valid_path [] = None" by (simp add: is_valid_path_def strlen_def)
  ultimately show "is_valid_location (t @ 0 # r) = (if set t \<subseteq> letters_digits \<union> {95} then None else Some False)"
    using strlen_cstr [OF c] by (simp add: is_valid_location_def u i strcpy_cstr [OF c] Let_def)
qed

text \<open>The location \<^verbatim>\<open>HOME:a/b\<close>, and the tag \<^verbatim>\<open>TAG\<close> alone.\<close>

theorem is_valid_location_checks_witness:
  "is_valid_location ([72, 79, 77, 69] @ 58 # [97, 47, 98] @ 0 # []) = Some True \<and> is_valid_location ([72, 79, 77, 69] @ 0 # []) = None"
proof -
  have "0 \<notin> set [72, 79, 77, 69 :: u8] \<and> 58 \<notin> set [72, 79, 77, 69 :: u8] \<and> 0 \<notin> set [97, 47, 98 :: u8]" by simp
  with is_valid_location_checks [of "[72, 79, 77, 69]" "[97, 47, 98]" "[]"] show ?thesis
    by (simp add: letters_digits_def word_le_def)
qed

end
