(* ===== verification/Loader.thy ===== *)
theory Loader
  imports Is_Valid Scheduler_Props
begin

text \<open>
  Programs: the loader of ELF images \<^verbatim>\<open>kernel/loader.c\<close>, the passing of arguments in \<^verbatim>\<open>kernel/process.c\<close>, and the
  system calls that make processes, \<^verbatim>\<open>sys_process_run\<close>, \<^verbatim>\<open>sys_process_wrun\<close>, \<^verbatim>\<open>sys_process_exec\<close> and
  \<^verbatim>\<open>sys_process_fork\<close> of \<^verbatim>\<open>kernel/syscall_handler.c\<close>.  Images and arguments are stored through the page table of
  the new process, which the calls load for this time.  The messages to the console are left out.
\<close>

section \<open>ELF images\<close>

definition ELF_HEADER_MACHINE_I386 :: u16 where "ELF_HEADER_MACHINE_I386 = 3"
definition ELF_HEADER_VERSION :: u32 where "ELF_HEADER_VERSION = 1"
definition ELF_PROGRAM_TYPE_LOADABLE :: u32 where "ELF_PROGRAM_TYPE_LOADABLE = 1"

record elf_header =
  ident :: "u8 list"
  elf_type :: u16
  machine :: u16
  elf_version :: u32
  entry :: u32
  program_offset :: u32
  section_offset :: u32
  elf_flags :: u32
  header_size :: u16
  phentsize :: u16
  phnum :: u16
  shentsize :: u16
  shnum :: u16
  shstrndx :: u16

record elf_program =
  ptype :: u32
  poffset :: u32
  vaddr :: u32
  paddr :: u32
  file_size :: u32
  memory_size :: u32
  pflags :: u32
  align :: u32

definition u32_at :: "u8 list \<Rightarrow> nat \<Rightarrow> u32" where
  "u32_at bs i = bytes_word (take 4 (drop i bs))"

definition SIZEOF_ELF_HEADER :: nat where "SIZEOF_ELF_HEADER = 52"
definition SIZEOF_ELF_PROGRAM :: nat where "SIZEOF_ELF_PROGRAM = 32"

definition get_header :: "u8 list \<Rightarrow> elf_header" where
  "get_header bs = \<lparr>ident = take 16 bs, elf_type = u16_at bs 16, machine = u16_at bs 18, elf_version = u32_at bs 20,
     entry = u32_at bs 24, program_offset = u32_at bs 28, section_offset = u32_at bs 32, elf_flags = u32_at bs 36,
     header_size = u16_at bs 40, phentsize = u16_at bs 42, phnum = u16_at bs 44, shentsize = u16_at bs 46,
     shnum = u16_at bs 48, shstrndx = u16_at bs 50\<rparr>"

definition get_program :: "u8 list \<Rightarrow> elf_program" where
  "get_program bs = \<lparr>ptype = u32_at bs 0, poffset = u32_at bs 4, vaddr = u32_at bs 8, paddr = u32_at bs 12,
     file_size = u32_at bs 16, memory_size = u32_at bs 20, pflags = u32_at bs 24, align = u32_at bs 28\<rparr>"

section \<open>The loader\<close>

definition loader_ensure_address_space :: "ptr \<Rightarrow> u32 \<Rightarrow> 'k psys \<Rightarrow> (int \<times> 'k psys) option" where
  "loader_ensure_address_space p a s =
     (let limit = a - PROCESS_ENTRY_POINT;
          overflow = limit mod of_nat PAGE_SIZE;
          limit = limit + (of_nat PAGE_SIZE - overflow) in
      if limit > vm_data_size (procs s p) then process_data_size_set p limit s else Some (0, s))"

definition read_file ::
    "('v, 'p, 'hw) kenv \<Rightarrow> ptr \<Rightarrow> u32 \<Rightarrow> u32 \<Rightarrow> ('v, 'p, 'hw) ksys \<Rightarrow> ((u32 \<times> u8 list) \<times> ('v, 'p, 'hw) ksys) option" where
  "read_file E d len off = on_vfs (\<lambda>v. do {
     (r, bs, v) \<leftarrow> fs_dirent_read (e_ops E) (e_temp E) d (replicate (unat len) 0) len off v;
     Some ((word_of_int r, bs), v) })"

text \<open>
  One loadable segment.  The call of \<^verbatim>\<open>memset\<close> for the rest of the memory has its last two arguments exchanged
  and writes nothing.
\<close>

definition load_segment ::
    "('v, 'p, 'hw) kenv \<Rightarrow> ptr \<Rightarrow> ptr \<Rightarrow> elf_program \<Rightarrow> ('v, 'p, 'hw) ksys \<Rightarrow> (int \<times> ('v, 'p, 'hw) ksys) option" where
  "load_segment E p d program s =
     (if ptype program \<noteq> ELF_PROGRAM_TYPE_LOADABLE \<or> memory_size program = 0 then Some (0, s)
      else if vaddr program < PROCESS_ENTRY_POINT \<or> memory_size program > 0x8000000 then Some (kerr KERROR_NOT_EXECUTABLE, s)
      else if file_size program > memory_size program then Some (kerr KERROR_NOT_EXECUTABLE, s)
      else do {
        (r, s) \<leftarrow> loader_ensure_address_space p (vaddr program + memory_size program) s;
        if r \<noteq> 0 then Some (kerr KERROR_OUT_OF_MEMORY, s)
        else if file_size program > 0 then do {
          ((actual, bs), s) \<leftarrow> read_file E d (file_size program) (poffset program) s;
          s \<leftarrow> put_user (vaddr program) (take (nat (sint actual)) bs) s;
          Some (if actual \<noteq> file_size program then kerr KERROR_NOT_EXECUTABLE else 0, s)
        } else Some (0, s)
      })"

text \<open>The loop over the program headers from number \<open>i\<close> on, of which \<open>n\<close> are left.\<close>

fun load_segments ::
    "('v, 'p, 'hw) kenv \<Rightarrow> ptr \<Rightarrow> ptr \<Rightarrow> elf_header \<Rightarrow> nat \<Rightarrow> u32 \<Rightarrow> ('v, 'p, 'hw) ksys \<Rightarrow> (int \<times> ('v, 'p, 'hw) ksys) option" where
  "load_segments E p d header 0 i s = Some (0, s)"
| "load_segments E p d header (Suc n) i s = do {
     ((actual, bs), s) \<leftarrow> read_file E d (of_nat SIZEOF_ELF_PROGRAM) (program_offset header + i * ucast (phentsize header)) s;
     if actual \<noteq> of_nat SIZEOF_ELF_PROGRAM then Some (kerr KERROR_NOT_EXECUTABLE, s)
     else do {
       (r, s) \<leftarrow> load_segment E p d (get_program bs) s;
       if r \<noteq> 0 then Some (r, s) else load_segments E p d header n (i + 1) s
     }
   }"

definition elf_magic :: buf where "elf_magic = [127, 69, 76, 70, 0]"

text \<open>The result is the return value and the entry point, which is set on success only.\<close>

definition loader_load_process ::
    "('v, 'p, 'hw) kenv \<Rightarrow> ptr \<Rightarrow> ptr \<Rightarrow> ('v, 'p, 'hw) ksys \<Rightarrow> (int \<times> u32 \<times> ('v, 'p, 'hw) ksys) option" where
  "loader_load_process E p d s = do {
     ((actual, bs), s) \<leftarrow> read_file E d (of_nat SIZEOF_ELF_HEADER) 0 s;
     if actual \<noteq> of_nat SIZEOF_ELF_HEADER then Some (kerr KERROR_NOT_EXECUTABLE, 0, s)
     else do {
       let header = get_header bs;
       c \<leftarrow> strncmp (ident header) elf_magic 4;
       if c \<noteq> 0 \<or> machine header \<noteq> ELF_HEADER_MACHINE_I386 \<or> elf_version header \<noteq> ELF_HEADER_VERSION
       then Some (kerr KERROR_NOT_EXECUTABLE, 0, s)
       else do {
         (r, s) \<leftarrow> load_segments E p d header (unat (phnum header)) 0 s;
         Some (r, entry header, s)
       }
     }
   }"

section \<open>Arguments\<close>

text \<open>The length of an argument on the stack: its string with the zero, rounded up to whole words.\<close>

definition arg_length :: "u32 \<Rightarrow> u32" where
  "arg_length n = (let len = n + 1 in if len mod 4 \<noteq> 0 then len + (4 - len mod 4) else len)"

text \<open>The arguments are pushed from the last to the first; \<open>addrs\<close> are the addresses of those pushed.\<close>

fun push_args :: "buf list \<Rightarrow> u32 \<Rightarrow> u32 list \<Rightarrow> 'k psys \<Rightarrow> (u32 \<times> u32 list \<times> 'k psys) option" where
  "push_args [] sp addrs s = Some (sp, addrs, s)"
| "push_args (arg # args) sp addrs s = do {
     n \<leftarrow> strlen arg;
     let len = arg_length n;
     let sp = sp - len;
     s \<leftarrow> (if unat len \<le> length arg then put_user sp (take (unat len) arg) s else None);
     push_args args sp (sp # addrs) s
   }"

definition push_integer :: "u32 \<Rightarrow> u32 \<times> 'k psys \<Rightarrow> (u32 \<times> 'k psys) option" where
  "push_integer w = (\<lambda>(sp, s). do { s \<leftarrow> put_user (sp - 4) (word_bytes w) s; Some (sp - 4, s) })"

fun push_integers :: "u32 list \<Rightarrow> u32 \<times> 'k psys \<Rightarrow> (u32 \<times> 'k psys) option" where
  "push_integers [] x = Some x"
| "push_integers (w # ws) x = do { x \<leftarrow> push_integer w x; push_integers ws x }"

definition process_pass_arguments :: "ptr \<Rightarrow> int \<Rightarrow> buf list \<Rightarrow> 'k psys \<Rightarrow> 'k psys option" where
  "process_pass_arguments p argc argv s = do {
     (sp, addrs, s) \<leftarrow> push_args (rev argv) PROCESS_STACK_INIT [] s;
     (sp, s) \<leftarrow> push_integers (rev addrs) (sp, s);
     (sp, s) \<leftarrow> push_integers [sp, word_of_int argc] (sp, s);
     Some (set_word (kstack_ptr (procs s p) + 100) (sp - 4) s)
   }"

text \<open>
  Copies of the arguments in blocks of the kernel; \<^verbatim>\<open>kmalloc\<close> gives whole units of 16 bytes.
\<close>

fun argv_copy :: "nat \<Rightarrow> u32 \<Rightarrow> 'k psys \<Rightarrow> buf list option" where
  "argv_copy 0 argv s = Some []"
| "argv_copy (Suc n) argv s = do {
     a \<leftarrow> load_word (cr3 s) argv (mem s);
     arg \<leftarrow> load_string (cr3 s) a (mem s);
     r \<leftarrow> strdup arg (Some (replicate (nat (kmalloc_size (int (length arg)) - KUNIT)) 0));
     copy \<leftarrow> r;
     rest \<leftarrow> argv_copy n (argv + 4) s;
     Some (copy # rest)
   }"

section \<open>System calls that make processes\<close>

definition close_object :: "('v, 'p, 'hw) kenv \<Rightarrow> ptr \<Rightarrow> ('v, 'p, 'hw) ksys \<Rightarrow> ('v, 'p, 'hw) ksys option" where
  "close_object E k s = map_option snd (kobject_close E k s)"

text \<open>The current process uses the page table \<open>pt\<close>.\<close>

definition use_pagetable :: "u32 \<Rightarrow> 'k psys \<Rightarrow> 'k psys" where
  "use_pagetable pt s = upd_proc (current s) (\<lambda>x. x\<lparr>pagetable := pt\<rparr>) (s\<lparr>cr3 := pt\<rparr>)"

text \<open>What \<^verbatim>\<open>sys_process_run\<close> and \<^verbatim>\<open>sys_process_wrun\<close> do after the child has inherited its objects.\<close>

definition load_program ::
    "('v, 'p, 'hw) kenv \<Rightarrow> ptr \<Rightarrow> ptr \<Rightarrow> int \<Rightarrow> buf list \<Rightarrow> ('v, 'p, 'hw) ksys \<Rightarrow> (int \<times> ('v, 'p, 'hw) ksys) option" where
  "load_program E p d argc argv s = do {
     (r, e, s) \<leftarrow> loader_load_process E p d s;
     if r \<ge> 0 then do {
       s \<leftarrow> process_stack_reset p (of_nat PAGE_SIZE) s;
       let s = process_kstack_reset p e s;
       s \<leftarrow> process_pass_arguments p argc argv s;
       Some (r, s)
     } else Some (r, s)
   }"

definition run_program ::
    "('v, 'p, 'hw) kenv \<Rightarrow> ptr \<Rightarrow> ptr \<Rightarrow> int \<Rightarrow> buf list \<Rightarrow> ('v, 'p, 'hw) ksys \<Rightarrow> (int \<times> ('v, 'p, 'hw) ksys) option" where
  "run_program E p d argc argv s = do {
     let old = pagetable (procs s (current s));
     let s = use_pagetable (pagetable (procs s p)) s;
     (r, s) \<leftarrow> load_program E p d argc argv s;
     let s = use_pagetable old s;
     if r < 0 then do {
       s \<leftarrow> (if r = kerr KERROR_EXECUTION_FAILED then process_delete (close_object E) p s else Some s);
       Some (r, s)
     } else do {
       s \<leftarrow> process_launch p s;
       Some (sint (pid (procs s p)), s)
     }
   }"

definition sys_process_run ::
    "('v, 'p, 'hw) kenv \<Rightarrow> int \<Rightarrow> int \<Rightarrow> u32 \<Rightarrow> ('v, 'p, 'hw) ksys \<Rightarrow> (int \<times> ('v, 'p, 'hw) ksys) option" where
  "sys_process_run E fd argc argv s =
     (if \<not> is_valid_object_type fd KOBJECT_FILE s then Some (kerr KERROR_INVALID_OBJECT, s)
      else do {
        let k = fd_object fd s;
        args \<leftarrow> argv_copy (nat argc) argv s;
        (p, s) \<leftarrow> process_create s;
        s \<leftarrow> process_inherit (kobject_copy E) (current s) p s;
        run_program E p (kdata (kobject (kobjs s) k)) argc args s
      })"

text \<open>The numbers of the objects to inherit, an array of \<^verbatim>\<open>int\<close>s.\<close>

fun load_ints :: "nat \<Rightarrow> u32 \<Rightarrow> 'k psys \<Rightarrow> int list option" where
  "load_ints 0 a s = Some []"
| "load_ints (Suc n) a s = do {
     w \<leftarrow> load_word (cr3 s) a (mem s); ws \<leftarrow> load_ints n (a + 4) s; Some (sint w # ws) }"

definition sys_process_wrun ::
    "('v, 'p, 'hw) kenv \<Rightarrow> int \<Rightarrow> int \<Rightarrow> u32 \<Rightarrow> u32 \<Rightarrow> int \<Rightarrow> ('v, 'p, 'hw) ksys \<Rightarrow> (int \<times> ('v, 'p, 'hw) ksys) option" where
  "sys_process_wrun E fd argc argv fds n s =
     (if \<not> is_valid_object_type fd KOBJECT_FILE s then Some (kerr KERROR_INVALID_OBJECT, s)
      else do {
        let k = fd_object fd s;
        args \<leftarrow> argv_copy (nat argc) argv s;
        (p, s) \<leftarrow> process_create s;
        l \<leftarrow> load_ints (nat n) fds s;
        s \<leftarrow> process_selective_inherit (kobject_copy E) (current s) p l 0 s;
        run_program E p (kdata (kobject (kobjs s) k)) argc args s
      })"

text \<open>
  \<^verbatim>\<open>sys_process_exec\<close>: the result \<open>None\<close> inside is a call that does not return, because the stack of the
  process is that of a fresh one.
\<close>

definition sys_process_exec ::
    "('v, 'p, 'hw) kenv \<Rightarrow> int \<Rightarrow> int \<Rightarrow> u32 \<Rightarrow> ('v, 'p, 'hw) ksys \<Rightarrow> (int option \<times> ('v, 'p, 'hw) ksys) option" where
  "sys_process_exec E fd argc argv s =
     (if \<not> is_valid_object_type fd KOBJECT_FILE s then Some (Some (kerr KERROR_INVALID_OBJECT), s)
      else do {
        let k = fd_object fd s;
        args \<leftarrow> argv_copy (nat argc) argv s;
        let p = current s;
        (r, s) \<leftarrow> load_program E p (kdata (kobject (kobjs s) k)) argc args s;
        if r < 0 then
          (if r = kerr KERROR_EXECUTION_FAILED
           then do { (r', s) \<leftarrow> process_kill (pid (procs s p)) s; Some (map_option (\<lambda>_. r) r', s) }
           else Some (Some r, s))
        else do { s \<leftarrow> process_yield s; Some (None, s) }
      })"

definition sys_process_fork :: "('v, 'p, 'hw) kenv \<Rightarrow> ('v, 'p, 'hw) ksys \<Rightarrow> (int \<times> ('v, 'p, 'hw) ksys) option" where
  "sys_process_fork E s = do {
     (p, s) \<leftarrow> process_create s;
     let s = upd_proc p (\<lambda>x. x\<lparr>ppid := pid (procs s (current s))\<rparr>) s;
     let s = s\<lparr>mem := pagetable_delete (pagetable (procs s p)) (mem s)\<rparr>;
     (pt, m) \<leftarrow> pagetable_duplicate (pagetable (procs s (current s))) (mem s);
     let s = upd_proc p (\<lambda>x. x\<lparr>pagetable := pt\<rparr>) (s\<lparr>mem := m\<rparr>);
     s \<leftarrow> process_inherit (kobject_copy E) (current s) p s;
     let s = process_kstack_copy (current s) p s;
     s \<leftarrow> process_launch p s;
     Some (sint (pid (procs s p)), s)
   }"

end
