(* ===== verification/Syscall.thy ===== *)
theory Syscall
  imports Loader Kprintf
begin

text \<open>
  System calls: \<^verbatim>\<open>kernel/syscall_handler.c\<close>, the handlers and the function that decodes the number and the
  arguments of a call.  Pointers are addresses in the memory of the calling process.  A result is the
  value returned to the program and the new state; where a handler ends the process, the value is \<open>None\<close>.
  A handler that gives up the processor returns when the process runs again, after \<open>e_resume\<close>.
\<close>

section \<open>Processes\<close>

definition get_string :: "u32 \<Rightarrow> 'k psys \<Rightarrow> buf option" where
  "get_string a s = load_string (cr3 s) a (mem s)"

definition sys_debug :: "u32 \<Rightarrow> ('v, 'p, 'hw) ksys \<Rightarrow> (int \<times> ('v, 'p, 'hw) ksys) option" where
  "sys_debug str s =
     (if \<not> is_valid_string str then Some (kerr KERROR_INVALID_ADDRESS, s)
      else do {
        text \<leftarrow> get_string str s;
        out \<leftarrow> printf_putstring text;
        Some (0, console_putstring console_root out s)
      })"

definition sys_process_yield :: "('v, 'p, 'hw) kenv \<Rightarrow> ('v, 'p, 'hw) ksys \<Rightarrow> (int \<times> ('v, 'p, 'hw) ksys) option" where
  "sys_process_yield E s = do { s \<leftarrow> process_yield s; s \<leftarrow> e_resume E s; Some (0, s) }"

definition sys_process_exit :: "int \<Rightarrow> 'k psys \<Rightarrow> (int option \<times> 'k psys) option" where
  "sys_process_exit status s = do { s \<leftarrow> process_exit status s; Some (None, s) }"

definition sys_process_self :: "'k psys \<Rightarrow> int" where
  "sys_process_self s = sint (pid (procs s (current s)))"

definition sys_process_parent :: "'k psys \<Rightarrow> int" where
  "sys_process_parent s = sint (ppid (procs s (current s)))"

definition sys_process_kill :: "int \<Rightarrow> 'k psys \<Rightarrow> (int option \<times> 'k psys) option" where
  "sys_process_kill n s = process_kill (word_of_int n) s"

definition sys_process_reap :: "('v, 'p, 'hw) kenv \<Rightarrow> int \<Rightarrow> ('v, 'p, 'hw) ksys \<Rightarrow> (int \<times> ('v, 'p, 'hw) ksys) option" where
  "sys_process_reap E n s = process_reap (close_object E) (word_of_int n) s"

text \<open>The clock is part of the state; \<open>with_clock\<close> shows it to the functions that take it apart.\<close>

definition with_clock :: "('v, 'p, 'hw) kenv \<Rightarrow> clock \<times> ('v, 'p, 'hw) ksys \<Rightarrow> (clock \<times> ('v, 'p, 'hw) ksys) option" where
  "with_clock E = (\<lambda>(c, s). do {
     s \<leftarrow> e_resume E (upd_k (\<lambda>u. u\<lparr>kclock := c\<rparr>) s);
     Some (kclock (kobjs s), s) })"

definition set_clock :: "clock \<times> ('v, 'p, 'hw) ksys \<Rightarrow> ('v, 'p, 'hw) ksys" where
  "set_clock = (\<lambda>(c, s). upd_k (\<lambda>u. u\<lparr>kclock := c\<rparr>) s)"

definition sys_process_wait ::
    "('v, 'p, 'hw) kenv \<Rightarrow> u32 \<Rightarrow> int \<Rightarrow> ('v, 'p, 'hw) ksys \<Rightarrow> (int \<times> ('v, 'p, 'hw) ksys) option" where
  "sys_process_wait E info timeout s =
     (if \<not> is_valid_pointer info 12 then Some (kerr KERROR_INVALID_ADDRESS, s)
      else if info = 0 then Some (- 1, s)
      else do {
        (r, cs) \<leftarrow> process_wait_child (with_clock E) 0 timeout (clock_read (kclock (kobjs s))) (kclock (kobjs s), s);
        let s = set_clock cs;
        (case r of None \<Rightarrow> Some (0, s)
         | Some (n, code, reason) \<Rightarrow> do {
             s \<leftarrow> put_user info (word_bytes n @ word_bytes (word_of_int code) @ word_bytes (word_of_int reason)) s;
             Some (sint n, s)
           })
      })"

definition sys_process_sleep ::
    "('v, 'p, 'hw) kenv \<Rightarrow> u32 \<Rightarrow> ('v, 'p, 'hw) ksys \<Rightarrow> (int \<times> ('v, 'p, 'hw) ksys) option" where
  "sys_process_sleep E ms s = do {
     cs \<leftarrow> clock_wait (with_clock E) ms (kclock (kobjs s), s);
     Some (0, set_clock cs)
   }"

definition MAX_SYSCALL :: nat where "MAX_SYSCALL = 39"

definition stats_bytes :: "process_stats_t \<Rightarrow> u8 list" where
  "stats_bytes x = concat (map (word_bytes \<circ> word_of_int)
     ([p_blocks_read x, p_blocks_written x, p_bytes_read x, p_bytes_written x] @ map (syscall_count x) [0..<MAX_SYSCALL]))"

definition sys_process_stats :: "u32 \<Rightarrow> int \<Rightarrow> 'k psys \<Rightarrow> (int \<times> 'k psys) option" where
  "sys_process_stats a n s =
     (if \<not> is_valid_pointer a 172 then Some (kerr KERROR_INVALID_ADDRESS, s)
      else do {
        r \<leftarrow> process_stats n s;
        (case r of None \<Rightarrow> Some (1, s) | Some x \<Rightarrow> do { s \<leftarrow> put_user a (stats_bytes x) s; Some (0, s) })
      })"

definition sys_process_heap :: "int \<Rightarrow> 'k psys \<Rightarrow> (int \<times> 'k psys) option" where
  "sys_process_heap delta s = do {
     (r, s) \<leftarrow> process_data_size_set (current s) (vm_data_size (procs s (current s)) + word_of_int delta) s;
     Some (sint (PROCESS_ENTRY_POINT + vm_data_size (procs s (current s))), s)
   }"

section \<open>Opening objects\<close>

text \<open>
  Entry \<open>fd\<close> of the table of the current process.  The model stops, with \<open>None\<close>, at an index outside the array,
  as it does wherever C leaves the behaviour undefined.  The compiled kernel goes on there: at index 32, which
  \<^verbatim>\<open>sys_object_copy\<close> lets through, it stores the address over \<^verbatim>\<open>stats.blocks_read\<close>, the field behind
  \<^verbatim>\<open>ktable\<close> in \<^verbatim>\<open>struct process\<close>.
\<close>

definition set_object :: "int \<Rightarrow> ptr \<Rightarrow> 'k psys \<Rightarrow> 'k psys option" where
  "set_object fd k s =
     (if 0 \<le> fd \<and> fd < int PROCESS_MAX_OBJECTS
      then Some (upd_proc (current s) (\<lambda>x. x\<lparr>ktable := (ktable x)[nat fd := k]\<rparr>) s) else None)"

definition sys_open_file ::
    "('v, 'p, 'hw) kenv \<Rightarrow> int \<Rightarrow> u32 \<Rightarrow> ('v, 'p, 'hw) ksys \<Rightarrow> (int \<times> ('v, 'p, 'hw) ksys) option" where
  "sys_open_file E fd path s =
     (if \<not> is_valid_object fd s then Some (kerr KERROR_INVALID_OBJECT, s)
      else do {
        name \<leftarrow> get_string path s;
        ok \<leftarrow> is_valid_path name;
        if \<not> ok then Some (kerr KERROR_INVALID_PATH, s)
        else let newfd = process_available_fd s in
          if newfd < 0 then Some (kerr KERROR_OUT_OF_OBJECTS, s)
          else do {
            (r, k, s) \<leftarrow> kobject_lookup E (fd_object fd s) name s;
            if r \<ge> 0 then do { s \<leftarrow> set_object newfd k s; Some (newfd, s) } else Some (r, s)
          }
      })"

definition sys_open_dir ::
    "('v, 'p, 'hw) kenv \<Rightarrow> int \<Rightarrow> u32 \<Rightarrow> u32 \<Rightarrow> ('v, 'p, 'hw) ksys \<Rightarrow> (int \<times> ('v, 'p, 'hw) ksys) option" where
  "sys_open_dir E fd path flags s =
     (if \<not> is_valid_object fd s then Some (kerr KERROR_INVALID_OBJECT, s)
      else do {
        name \<leftarrow> get_string path s;
        ok \<leftarrow> is_valid_path name;
        if \<not> ok then Some (kerr KERROR_INVALID_PATH, s)
        else let newfd = process_available_fd s in
          if newfd < 0 then Some (kerr KERROR_OUT_OF_OBJECTS, s)
          else do {
            (r, k, s) \<leftarrow> (if flags AND KERNEL_FLAGS_CREATE \<noteq> 0 then do {
                (k, s) \<leftarrow> kobject_create_dir_from_dir E (fd_object fd s) name s;
                Some (if k \<noteq> 0 then 0 else kerr KERROR_NOT_FOUND, k, s)
              } else kobject_lookup E (fd_object fd s) name s);
            if r \<ge> 0 then do { s \<leftarrow> set_object newfd k s; Some (newfd, s) } else Some (r, s)
          }
      })"

definition sys_open_console ::
    "('v, 'p, 'hw) kenv \<Rightarrow> int \<Rightarrow> ('v, 'p, 'hw) ksys \<Rightarrow> (int \<times> ('v, 'p, 'hw) ksys) option" where
  "sys_open_console E wd s =
     (if \<not> is_valid_object_type wd KOBJECT_WINDOW s then Some (kerr KERROR_INVALID_OBJECT, s)
      else let fd = process_available_fd s in
        if fd < 0 then Some (kerr KERROR_OUT_OF_OBJECTS, s)
        else do {
          (k, s) \<leftarrow> kobject_create_console_from_window E (fd_object wd s) s;
          s \<leftarrow> set_object fd k s;
          Some (fd, s)
        })"

definition sys_open_window ::
    "('v, 'p, 'hw) kenv \<Rightarrow> int \<Rightarrow> u32 \<Rightarrow> u32 \<Rightarrow> u32 \<Rightarrow> u32 \<Rightarrow> ('v, 'p, 'hw) ksys \<Rightarrow> (int \<times> ('v, 'p, 'hw) ksys) option" where
  "sys_open_window E wd x y w h s =
     (if \<not> is_valid_object_type wd KOBJECT_WINDOW s then Some (kerr KERROR_INVALID_OBJECT, s)
      else let fd = process_available_fd s in
        if fd < 0 then Some (kerr KERROR_OUT_OF_OBJECTS, s)
        else do {
          (k, s) \<leftarrow> kobject_create_window_from_window E (fd_object wd s) x y w h s;
          if k = 0 then Some (kerr KERROR_INVALID_REQUEST, s)
          else do { s \<leftarrow> set_object fd k s; Some (fd, s) }
        })"

text \<open>A new pipe at the address \<open>p\<close>, with no waiting processes; 0 is a failed allocation.\<close>

definition pipe_create_at :: "ptr \<Rightarrow> ('v, 'p, 'hw) ksys \<Rightarrow> (ptr \<times> ('v, 'p, 'hw) ksys) option" where
  "pipe_create_at p s = do {
     (r, m) \<leftarrow> pipe_create (p \<noteq> 0) (mem s);
     let s = s\<lparr>mem := m\<rparr>;
     (case r of
        None \<Rightarrow> Some (0, s)
      | Some x \<Rightarrow>
          let s = upd_kpipe p (\<lambda>_. x) (upd_k (\<lambda>u. u\<lparr>kfreed := kfreed u - {p}\<rparr>) s) in
          Some (p, s\<lparr>lh := (lh s)\<lparr>lists := (lists (lh s))(p := (lists (lh s) p)\<lparr>head := 0, tail := 0\<rparr>)\<rparr>\<rparr>))
   }"

definition sys_open_pipe :: "('v, 'p, 'hw) kenv \<Rightarrow> ('v, 'p, 'hw) ksys \<Rightarrow> (int \<times> ('v, 'p, 'hw) ksys) option" where
  "sys_open_pipe E s =
     (let fd = process_available_fd s in
      if fd < 0 then Some (kerr KERROR_NOT_FOUND, s)
      else do {
        (p, s) \<leftarrow> pipe_create_at (e_alloc E s) s;
        if p = 0 then Some (kerr KERROR_NOT_FOUND, s)
        else do {
          (k, s) \<leftarrow> kobject_create_pipe E p s;
          s \<leftarrow> set_object fd k s;
          Some (fd, s)
        }
      })"

section \<open>Operations on objects\<close>

definition sys_object_list ::
    "('v, 'p, 'hw) kenv \<Rightarrow> int \<Rightarrow> u32 \<Rightarrow> int \<Rightarrow> ('v, 'p, 'hw) ksys \<Rightarrow> (int \<times> ('v, 'p, 'hw) ksys) option" where
  "sys_object_list E fd a len s =
     (if \<not> is_valid_object fd s then Some (kerr KERROR_INVALID_OBJECT, s)
      else if \<not> is_valid_pointer a len then Some (kerr KERROR_INVALID_ADDRESS, s)
      else if kobject_get_type (fd_object fd s) s \<noteq> kobject_type_code KOBJECT_DIR then Some (kerr KERROR_NOT_A_DIRECTORY, s)
      else kobject_list E (fd_object fd s) a len s)"

definition sys_object_type :: "int \<Rightarrow> ('v, 'p, 'hw) ksys \<Rightarrow> int" where
  "sys_object_type fd s =
     (if \<not> is_valid_object fd s then kerr KERROR_INVALID_OBJECT
      else let ty = kobject_get_type (fd_object fd s) s in if ty = 0 then 0 else ty)"

definition sys_object_close :: "('v, 'p, 'hw) kenv \<Rightarrow> int \<Rightarrow> ('v, 'p, 'hw) ksys \<Rightarrow> (int \<times> ('v, 'p, 'hw) ksys) option" where
  "sys_object_close E fd s =
     (if \<not> is_valid_object fd s then Some (kerr KERROR_INVALID_OBJECT, s)
      else do {
        (r, s) \<leftarrow> kobject_close E (fd_object fd s) s;
        s \<leftarrow> set_object fd 0 s;
        Some (0, s)
      })"

definition sys_object_copy ::
    "('v, 'p, 'hw) kenv \<Rightarrow> int \<Rightarrow> int \<Rightarrow> ('v, 'p, 'hw) ksys \<Rightarrow> (int \<times> ('v, 'p, 'hw) ksys) option" where
  "sys_object_copy E src dst s =
     (if \<not> is_valid_object src s then Some (kerr KERROR_INVALID_OBJECT, s)
      else if dst > int PROCESS_MAX_OBJECTS then Some (kerr KERROR_INVALID_OBJECT, s)
      else let dst = (if dst < 0 then process_available_fd s else dst) in
        if dst < 0 then Some (kerr KERROR_NOT_FOUND, s)
        else do {
          (r, s) \<leftarrow> sys_object_close E dst s;
          (k, s) \<leftarrow> kobject_copy E (fd_object src s) s;
          s \<leftarrow> set_object dst k s;
          Some (src, s)
        })"

definition sys_object_read ::
    "('v, 'p, 'hw) kenv \<Rightarrow> int \<Rightarrow> u32 \<Rightarrow> int \<Rightarrow> u32 \<Rightarrow> ('v, 'p, 'hw) ksys \<Rightarrow> (int \<times> ('v, 'p, 'hw) ksys) option" where
  "sys_object_read E fd a len flags s =
     (if \<not> is_valid_object fd s then Some (kerr KERROR_INVALID_OBJECT, s)
      else if \<not> is_valid_pointer a len then Some (kerr KERROR_INVALID_ADDRESS, s)
      else kobject_read E (fd_object fd s) a len flags s)"

definition sys_object_write ::
    "('v, 'p, 'hw) kenv \<Rightarrow> int \<Rightarrow> u32 \<Rightarrow> int \<Rightarrow> u32 \<Rightarrow> ('v, 'p, 'hw) ksys \<Rightarrow> (int \<times> ('v, 'p, 'hw) ksys) option" where
  "sys_object_write E fd a len flags s =
     (if \<not> is_valid_object fd s then Some (kerr KERROR_INVALID_OBJECT, s)
      else if \<not> is_valid_pointer a len then Some (kerr KERROR_INVALID_ADDRESS, s)
      else kobject_write E (fd_object fd s) a len flags s)"

definition sys_object_seek :: "int \<Rightarrow> ('v, 'p, 'hw) ksys \<Rightarrow> int" where
  "sys_object_seek fd s =
     (if \<not> is_valid_object fd s then kerr KERROR_INVALID_OBJECT else kerr KERROR_NOT_IMPLEMENTED)"

definition sys_object_remove ::
    "('v, 'p, 'hw) kenv \<Rightarrow> int \<Rightarrow> u32 \<Rightarrow> ('v, 'p, 'hw) ksys \<Rightarrow> (int \<times> ('v, 'p, 'hw) ksys) option" where
  "sys_object_remove E fd path s =
     (if \<not> is_valid_object fd s then Some (kerr KERROR_INVALID_OBJECT, s)
      else do {
        name \<leftarrow> get_string path s;
        ok \<leftarrow> is_valid_path name;
        if \<not> ok then Some (kerr KERROR_INVALID_PATH, s) else kobject_remove E (fd_object fd s) name s
      })"

definition sys_object_set_tag :: "int \<Rightarrow> u32 \<Rightarrow> ('v, 'p, 'hw) ksys \<Rightarrow> (int \<times> ('v, 'p, 'hw) ksys) option" where
  "sys_object_set_tag fd a s =
     (if \<not> is_valid_object fd s then Some (kerr KERROR_INVALID_OBJECT, s)
      else do { tag \<leftarrow> get_string a s; (r, s) \<leftarrow> kobject_set_tag (fd_object fd s) tag s; Some (0, s) })"

definition sys_object_get_tag :: "int \<Rightarrow> u32 \<Rightarrow> ('v, 'p, 'hw) ksys \<Rightarrow> (int \<times> ('v, 'p, 'hw) ksys) option" where
  "sys_object_get_tag fd a s =
     (if \<not> is_valid_object fd s then Some (kerr KERROR_INVALID_OBJECT, s) else kobject_get_tag (fd_object fd s) a s)"

definition sys_object_size :: "int \<Rightarrow> u32 \<Rightarrow> int \<Rightarrow> ('v, 'p, 'hw) ksys \<Rightarrow> (int \<times> ('v, 'p, 'hw) ksys) option" where
  "sys_object_size fd a n s =
     (if \<not> is_valid_object fd s then Some (kerr KERROR_INVALID_OBJECT, s)
      else if \<not> is_valid_pointer a (4 * n) then Some (kerr KERROR_INVALID_ADDRESS, s)
      else let (r, dims) = kobject_size (fd_object fd s) n s in
        do { s \<leftarrow> put_user a (concat (map (word_bytes \<circ> word_of_int) dims)) s; Some (r, s) })"

definition sys_object_max :: "'k psys \<Rightarrow> int" where
  "sys_object_max s = process_object_max s"

section \<open>The system\<close>

text \<open>Arrays of \<^verbatim>\<open>int\<close>s as they lie in memory, and the time with its one byte of padding.\<close>

definition ints_bytes :: "int list \<Rightarrow> u8 list" where
  "ints_bytes xs = concat (map (word_bytes \<circ> word_of_int) xs)"

definition rtc_bytes :: "rtc_time \<Rightarrow> u8 list" where
  "rtc_bytes t = [second t, minute t, hour t, day t, month t, 0, ucast (year t), ucast (drop_bit 8 (year t))]"

definition sys_system_stats :: "u32 \<Rightarrow> ('v, 'p, 'hw) ksys \<Rightarrow> (int \<times> ('v, 'p, 'hw) ksys) option" where
  "sys_system_stats a s =
     (if \<not> is_valid_pointer a 36 then Some (kerr KERROR_INVALID_ADDRESS, s)
      else do {
        t \<leftarrow> rtc_time_to_timestamp (cached_time (kobjs s));
        let c = ata_counters (kobjs s);
        s \<leftarrow> put_user a (word_bytes (t - boottime (kobjs s)) @
               ints_bytes (map (snd \<circ> c) [0..<4] @ map (fst \<circ> c) [0..<4])) s;
        Some (0, s)
      })"

definition sys_bcache_stats :: "u32 \<Rightarrow> ('v, 'p, 'hw) ksys \<Rightarrow> (int \<times> ('v, 'p, 'hw) ksys) option" where
  "sys_bcache_stats a s =
     (if \<not> is_valid_pointer a 20 then Some (kerr KERROR_INVALID_ADDRESS, s)
      else do {
        let x = bcache_get_stats (vcache (kvfs (kobjs s)));
        s \<leftarrow> put_user a (ints_bytes [read_hits x, read_misses x, write_hits x, write_misses x, writebacks x]) s;
        Some (0, s)
      })"

definition sys_bcache_flush :: "('v, 'p, 'hw) ksys \<Rightarrow> (int \<times> ('v, 'p, 'hw) ksys) option" where
  "sys_bcache_flush s = do {
     c \<leftarrow> bcache_flush_all (vcache (kvfs (kobjs s)));
     Some (0, upd_k (\<lambda>u. u\<lparr>kvfs := (kvfs u)\<lparr>vcache := c\<rparr>\<rparr>) s)
   }"

definition sys_system_time :: "u32 \<Rightarrow> ('v, 'p, 'hw) ksys \<Rightarrow> (int \<times> ('v, 'p, 'hw) ksys) option" where
  "sys_system_time a s =
     (if \<not> is_valid_pointer a 4 then Some (kerr KERROR_INVALID_ADDRESS, s)
      else do {
        t \<leftarrow> rtc_time_to_timestamp (cached_time (kobjs s));
        s \<leftarrow> put_user a (word_bytes t) s;
        Some (0, s)
      })"

definition sys_system_rtc :: "u32 \<Rightarrow> ('v, 'p, 'hw) ksys \<Rightarrow> (int \<times> ('v, 'p, 'hw) ksys) option" where
  "sys_system_rtc a s =
     (if \<not> is_valid_pointer a 8 then Some (kerr KERROR_INVALID_ADDRESS, s)
      else do { s \<leftarrow> put_user a (rtc_bytes (cached_time (kobjs s))) s; Some (0, s) })"

text \<open>The structure is read first because an unknown driver leaves it as it is.\<close>

definition sys_device_driver_stats :: "u32 \<Rightarrow> u32 \<Rightarrow> ('v, 'p, 'hw) ksys \<Rightarrow> (int \<times> ('v, 'p, 'hw) ksys) option" where
  "sys_device_driver_stats name a s =
     (if \<not> is_valid_string name \<or> \<not> is_valid_pointer a 8 then Some (kerr KERROR_INVALID_ADDRESS, s)
      else do {
        nm \<leftarrow> get_string name s;
        w \<leftarrow> load_word (cr3 s) a (mem s);
        r \<leftarrow> load_word (cr3 s) (a + 4) (mem s);
        (rd, wr) \<leftarrow> device_driver_get_stats nm (sint r, sint w) (world (vcache (kvfs (kobjs s))));
        s \<leftarrow> put_user a (ints_bytes [wr, rd]) s;
        Some (0, s)
      })"

section \<open>Decoding\<close>

datatype syscall_t =
    SYSCALL_DEBUG | SYSCALL_PROCESS_YIELD | SYSCALL_PROCESS_EXIT | SYSCALL_PROCESS_RUN | SYSCALL_PROCESS_WRUN
  | SYSCALL_PROCESS_FORK | SYSCALL_PROCESS_EXEC | SYSCALL_PROCESS_SELF | SYSCALL_PROCESS_PARENT
  | SYSCALL_PROCESS_KILL | SYSCALL_PROCESS_REAP | SYSCALL_PROCESS_WAIT | SYSCALL_PROCESS_SLEEP
  | SYSCALL_PROCESS_STATS | SYSCALL_PROCESS_HEAP | SYSCALL_OPEN_FILE | SYSCALL_OPEN_DIR | SYSCALL_OPEN_WINDOW
  | SYSCALL_OPEN_CONSOLE | SYSCALL_OPEN_PIPE | SYSCALL_OBJECT_TYPE | SYSCALL_OBJECT_COPY | SYSCALL_OBJECT_READ
  | SYSCALL_OBJECT_LIST | SYSCALL_OBJECT_WRITE | SYSCALL_OBJECT_SEEK | SYSCALL_OBJECT_SIZE | SYSCALL_OBJECT_REMOVE
  | SYSCALL_OBJECT_CLOSE | SYSCALL_OBJECT_STATS | SYSCALL_OBJECT_SET_TAG | SYSCALL_OBJECT_GET_TAG | SYSCALL_OBJECT_MAX
  | SYSCALL_SYSTEM_STATS | SYSCALL_BCACHE_STATS | SYSCALL_BCACHE_FLUSH | SYSCALL_SYSTEM_TIME | SYSCALL_SYSTEM_RTC
  | SYSCALL_DEVICE_DRIVER_STATS

text \<open>The numbers of the calls are their positions.\<close>

definition syscalls :: "syscall_t list" where
  "syscalls = [SYSCALL_DEBUG, SYSCALL_PROCESS_YIELD, SYSCALL_PROCESS_EXIT, SYSCALL_PROCESS_RUN, SYSCALL_PROCESS_WRUN,
     SYSCALL_PROCESS_FORK, SYSCALL_PROCESS_EXEC, SYSCALL_PROCESS_SELF, SYSCALL_PROCESS_PARENT,
     SYSCALL_PROCESS_KILL, SYSCALL_PROCESS_REAP, SYSCALL_PROCESS_WAIT, SYSCALL_PROCESS_SLEEP,
     SYSCALL_PROCESS_STATS, SYSCALL_PROCESS_HEAP, SYSCALL_OPEN_FILE, SYSCALL_OPEN_DIR, SYSCALL_OPEN_WINDOW,
     SYSCALL_OPEN_CONSOLE, SYSCALL_OPEN_PIPE, SYSCALL_OBJECT_TYPE, SYSCALL_OBJECT_COPY, SYSCALL_OBJECT_READ,
     SYSCALL_OBJECT_LIST, SYSCALL_OBJECT_WRITE, SYSCALL_OBJECT_SEEK, SYSCALL_OBJECT_SIZE, SYSCALL_OBJECT_REMOVE,
     SYSCALL_OBJECT_CLOSE, SYSCALL_OBJECT_STATS, SYSCALL_OBJECT_SET_TAG, SYSCALL_OBJECT_GET_TAG, SYSCALL_OBJECT_MAX,
     SYSCALL_SYSTEM_STATS, SYSCALL_BCACHE_STATS, SYSCALL_BCACHE_FLUSH, SYSCALL_SYSTEM_TIME, SYSCALL_SYSTEM_RTC,
     SYSCALL_DEVICE_DRIVER_STATS]"

definition count_syscall :: "u32 \<Rightarrow> 'k psys \<Rightarrow> 'k psys" where
  "count_syscall n s =
     (if n < of_nat MAX_SYSCALL \<and> current s \<noteq> 0
      then upd_proc (current s) (\<lambda>x. x\<lparr>stats := (stats x)\<lparr>syscall_count :=
             (syscall_count (stats x))(unat n := i32 (syscall_count (stats x) (unat n) + 1))\<rparr>\<rparr>) s
      else s)"

text \<open>A handler that returns to the program.\<close>

definition returns :: "(int \<times> 's) option \<Rightarrow> (int option \<times> 's) option" where
  "returns r = map_option (\<lambda>(v, s). (Some v, s)) r"

fun run_syscall ::
    "('v, 'p, 'hw) kenv \<Rightarrow> syscall_t \<Rightarrow> u32 \<Rightarrow> u32 \<Rightarrow> u32 \<Rightarrow> u32 \<Rightarrow> u32 \<Rightarrow> ('v, 'p, 'hw) ksys \<Rightarrow>
      (int option \<times> ('v, 'p, 'hw) ksys) option" where
  "run_syscall E SYSCALL_DEBUG a b c d e s = returns (sys_debug a s)"
| "run_syscall E SYSCALL_PROCESS_YIELD a b c d e s = returns (sys_process_yield E s)"
| "run_syscall E SYSCALL_PROCESS_EXIT a b c d e s = sys_process_exit (sint a) s"
| "run_syscall E SYSCALL_PROCESS_RUN a b c d e s = returns (sys_process_run E (sint a) (sint b) c s)"
| "run_syscall E SYSCALL_PROCESS_WRUN a b c d e s = returns (sys_process_wrun E (sint a) (sint b) c d (sint e) s)"
| "run_syscall E SYSCALL_PROCESS_FORK a b c d e s = returns (sys_process_fork E s)"
| "run_syscall E SYSCALL_PROCESS_EXEC a b c d e s = sys_process_exec E (sint a) (sint b) c s"
| "run_syscall E SYSCALL_PROCESS_SELF a b c d e s = returns (Some (sys_process_self s, s))"
| "run_syscall E SYSCALL_PROCESS_PARENT a b c d e s = returns (Some (sys_process_parent s, s))"
| "run_syscall E SYSCALL_PROCESS_KILL a b c d e s = sys_process_kill (sint a) s"
| "run_syscall E SYSCALL_PROCESS_REAP a b c d e s = returns (sys_process_reap E (sint a) s)"
| "run_syscall E SYSCALL_PROCESS_WAIT a b c d e s = returns (sys_process_wait E a (sint b) s)"
| "run_syscall E SYSCALL_PROCESS_SLEEP a b c d e s = returns (sys_process_sleep E a s)"
| "run_syscall E SYSCALL_PROCESS_STATS a b c d e s = returns (sys_process_stats a (sint b) s)"
| "run_syscall E SYSCALL_PROCESS_HEAP a b c d e s = returns (sys_process_heap (sint a) s)"
| "run_syscall E SYSCALL_OPEN_FILE a b c d e s = returns (sys_open_file E (sint a) b s)"
| "run_syscall E SYSCALL_OPEN_DIR a b c d e s = returns (sys_open_dir E (sint a) b c s)"
| "run_syscall E SYSCALL_OPEN_WINDOW a b c d e s = returns (sys_open_window E (sint a) b c d e s)"
| "run_syscall E SYSCALL_OPEN_CONSOLE a b c d e s = returns (sys_open_console E (sint a) s)"
| "run_syscall E SYSCALL_OPEN_PIPE a b c d e s = returns (sys_open_pipe E s)"
| "run_syscall E SYSCALL_OBJECT_TYPE a b c d e s = returns (Some (sys_object_type (sint a) s, s))"
| "run_syscall E SYSCALL_OBJECT_COPY a b c d e s = returns (sys_object_copy E (sint a) (sint b) s)"
| "run_syscall E SYSCALL_OBJECT_READ a b c d e s = returns (sys_object_read E (sint a) b (sint c) d s)"
| "run_syscall E SYSCALL_OBJECT_LIST a b c d e s = returns (sys_object_list E (sint a) b (sint c) s)"
| "run_syscall E SYSCALL_OBJECT_WRITE a b c d e s = returns (sys_object_write E (sint a) b (sint c) d s)"
| "run_syscall E SYSCALL_OBJECT_SEEK a b c d e s = returns (Some (sys_object_seek (sint a) s, s))"
| "run_syscall E SYSCALL_OBJECT_REMOVE a b c d e s = returns (sys_object_remove E (sint a) b s)"
| "run_syscall E SYSCALL_OBJECT_CLOSE a b c d e s = returns (sys_object_close E (sint a) s)"
| "run_syscall E SYSCALL_OBJECT_SET_TAG a b c d e s = returns (sys_object_set_tag (sint a) b s)"
| "run_syscall E SYSCALL_OBJECT_GET_TAG a b c d e s = returns (sys_object_get_tag (sint a) b s)"
| "run_syscall E SYSCALL_OBJECT_SIZE a b c d e s = returns (sys_object_size (sint a) b (sint c) s)"
| "run_syscall E SYSCALL_OBJECT_MAX a b c d e s = returns (Some (sys_object_max s, s))"
| "run_syscall E SYSCALL_SYSTEM_STATS a b c d e s = returns (sys_system_stats a s)"
| "run_syscall E SYSCALL_BCACHE_STATS a b c d e s = returns (sys_bcache_stats a s)"
| "run_syscall E SYSCALL_BCACHE_FLUSH a b c d e s = returns (sys_bcache_flush s)"
| "run_syscall E SYSCALL_SYSTEM_TIME a b c d e s = returns (sys_system_time a s)"
| "run_syscall E SYSCALL_SYSTEM_RTC a b c d e s = returns (sys_system_rtc a s)"
| "run_syscall E SYSCALL_DEVICE_DRIVER_STATS a b c d e s = returns (sys_device_driver_stats a b s)"
| "run_syscall E SYSCALL_OBJECT_STATS a b c d e s = Some (Some (kerr KERROR_INVALID_SYSCALL), s)"

definition syscall_handler ::
    "('v, 'p, 'hw) kenv \<Rightarrow> u32 \<Rightarrow> u32 \<Rightarrow> u32 \<Rightarrow> u32 \<Rightarrow> u32 \<Rightarrow> u32 \<Rightarrow> ('v, 'p, 'hw) ksys \<Rightarrow>
      (int option \<times> ('v, 'p, 'hw) ksys) option" where
  "syscall_handler E n a b c d e s =
     (let s = count_syscall n s in
      if unat n < length syscalls then run_syscall E (syscalls ! unat n) a b c d e s
      else Some (Some (kerr KERROR_INVALID_SYSCALL), s))"

end
