(* ===== verification/Syscall_Props.thy ===== *)
theory Syscall_Props
  imports Syscall Window_Props Event_Queue_Props
begin

text \<open>
  The objects of the processes under the system calls.  \<open>oview\<close> is the part of the state that tells which
  objects the processes hold, and \<open>well_typed\<close> a typing of it: a heap typing \<open>\<Gamma>\<close> gives every block of the
  allocator that is in use the kind of structure it holds.
\<close>

section \<open>The view of the objects\<close>

record oview =
  ov_current :: ptr
  ov_procs :: "ptr set"
  ov_table :: "ptr \<Rightarrow> ptr list"
  ov_object :: "ptr \<Rightarrow> kobject_type_t \<times> ptr \<times> int"
  ov_freed :: "ptr set"
  ov_pipes :: "ptr \<Rightarrow> int"

definition kview :: "kobject \<Rightarrow> kobject_type_t \<times> ptr \<times> int" where
  "kview x = (ktype x, kdata x, k_refcount x)"

definition oview :: "('v, 'p, 'hw) ksys \<Rightarrow> oview" where
  "oview s = \<lparr>ov_current = current s, ov_procs = process_table s ` UNIV - {0}, ov_table = (\<lambda>p. ktable (procs s p)),
     ov_object = (\<lambda>k. kview (kobject (kobjs s) k)), ov_freed = kfreed (kobjs s),
     ov_pipes = (\<lambda>p. pipe.refcount (kpipe (kobjs s) p))\<rparr>"

text \<open>Updates that leave the view alone, and those that change it.\<close>

lemma oview_kobjs:
  "oview (upd_k f s) = oview s\<lparr>ov_object := (\<lambda>k. kview (kobject (f (kobjs s)) k)), ov_freed := kfreed (f (kobjs s)),
     ov_pipes := (\<lambda>p. pipe.refcount (kpipe (f (kobjs s)) p))\<rparr>"
  by (simp add: oview_def upd_k_def)

lemma oview_mem [simp]: "oview (s\<lparr>mem := m\<rparr>) = oview s"
  by (simp add: oview_def)

lemma oview_lists [simp]: "oview (s\<lparr>lh := h\<rparr>) = oview s"
  by (simp add: oview_def)

lemma oview_upd_proc: "(\<And>x. ktable (f x) = ktable x) \<Longrightarrow> oview (upd_proc p f s) = oview s"
  by (auto simp: oview_def upd_proc_def)

lemma oview_put_user: "put_user a bs s = Some s' \<Longrightarrow> oview s' = oview s"
  by (auto simp: put_user_def)

lemma oview_on_vfs: "on_vfs f s = Some (r, s') \<Longrightarrow> oview s' = oview s"
  by (auto simp: on_vfs_def oview_kobjs) (simp add: oview_def)

lemma oview_on_devices: "on_devices f s = (r, s') \<Longrightarrow> oview s' = oview s"
  by (auto simp: on_devices_def oview_kobjs split: prod.splits) (simp add: oview_def)

section \<open>Operations of the components that leave the view alone\<close>

lemma oview_gui [simp]:
  "oview (upd_gobject g fg s) = oview s" "oview (upd_window w fw s) = oview s" "oview (gui_free p s) = oview s"
  "oview (upd_console c fc s) = oview s" "oview (upd_equeue q fe s) = oview s" "oview (draw g fd s) = oview s"
  "oview (set_clip g x y w' h' s) = oview s"
  by (simp_all add: oview_def upd_gobject_def upd_window_def upd_gui_def gui_free_def upd_console_def upd_equeue_def
      draw_def set_clip_def)

lemma oview_addref [simp]:
  "oview (graphics_addref g s) = oview s" "oview (window_addref w s) = oview s" "oview (console_addref c s) = oview s"
  by (simp_all add: graphics_addref_def window_addref_def console_addref_def)

lemma oview_create [simp]: "oview (snd (graphics_create g p s)) = oview s" "oview (event_queue_create q s) = oview s"
  by (simp_all add: graphics_create_def event_queue_create_def Let_def)

lemma oview_window_create: "window_create fresh parent x y w h s = Some (r, s') \<Longrightarrow> oview s' = oview s"
  by (auto simp: window_create_def Let_def split: prod.splits if_splits)

lemma oview_console_home [simp]: "oview (console_home c s) = oview s"
  by (simp add: console_home_def Let_def)

lemma oview_console_create:
  assumes "console_create c w s = Some (r, s')"
  shows "oview s' = oview s"
  using assms by (auto simp: console_create_def console_reset_def Let_def split: if_splits)

lemma oview_graphics_delete: "graphics_delete g s = Some s' \<Longrightarrow> oview s' = oview s"
proof (induction rule: graphics_delete.raw_induct [rotated, consumes 1, case_names step])
  case (step del g s s')
  from step(2) show ?case
    by (auto simp: Let_def bind_eq_Some_conv split: if_splits dest!: step(1))
qed

lemma oview_window_delete: "window_delete w s = Some s' \<Longrightarrow> oview s' = oview s"
proof (induction rule: window_delete.raw_induct [rotated, consumes 1, case_names step])
  case (step del w s s')
  from step(2) show ?case
    by (auto simp: Let_def bind_eq_Some_conv split: if_splits dest!: step(1) oview_graphics_delete)
qed

lemma oview_console_delete: "console_delete c s = Some s' \<Longrightarrow> oview s' = oview s"
  by (auto simp: console_delete_def Let_def split: if_splits dest!: oview_window_delete)

lemma oview_on_lists: "on_lists f s = Some s' \<Longrightarrow> oview s' = oview s"
  by (auto simp: on_lists_def)

lemma oview_pop_list: "pop_list l s = Some (p, s') \<Longrightarrow> oview s' = oview s"
  by (auto simp: pop_list_def)

lemma oview_wakeup: "process_wakeup q s = Some s' \<Longrightarrow> oview s' = oview s"
  by (auto simp: process_wakeup_def make_ready_def bind_eq_Some_conv oview_upd_proc split: if_splits dest!: oview_on_lists oview_pop_list)

lemma oview_wakeup_all: "process_wakeup_all q s = Some s' \<Longrightarrow> oview s' = oview s"
proof (induction rule: process_wakeup_all.raw_induct [rotated, consumes 1, case_names step])
  case (step wake q s s')
  from step(2) show ?case
    by (auto simp: make_ready_def bind_eq_Some_conv oview_upd_proc split: if_splits dest!: step(1) oview_on_lists oview_pop_list)
qed

lemma oview_post: "event_queue_post q e s = Some s' \<Longrightarrow> oview s' = oview s"
  by (auto simp: event_queue_post_def Let_def split: if_splits dest!: oview_wakeup)

lemma oview_post_events: "post_events q es s = Some s' \<Longrightarrow> oview s' = oview s"
proof (induction q es s rule: post_events.induct)
  case (2 q e es s)
  then show ?case by (auto simp: bind_eq_Some_conv dest: oview_post)
qed simp

lemma oview_window_post: "window_post_events w e sz s = Some (r, s') \<Longrightarrow> oview s' = oview s"
  by (auto simp: window_post_events_def bind_eq_Some_conv Let_def dest!: oview_post_events)

lemma oview_write_graphics: "window_write_graphics w cmd len s = Some (r, s') \<Longrightarrow> oview s' = oview s"
  by (auto simp: window_write_graphics_def bind_eq_Some_conv Let_def upd_gui_def oview_def upd_gobject_def)

lemma oview_console_steps [simp]:
  "oview (console_wrap c s) = oview s" "oview (put_cell c ch s) = oview s" "oview (console_char c ch s) = oview s"
  by (simp_all add: console_wrap_def console_char_def put_cell_def Let_def)

lemma oview_console_fold [simp]: "oview (fold (\<lambda>ch s. console_wrap c (console_char c ch s)) data s) = oview s"
  by (induction data arbitrary: s) simp_all

lemma oview_console_write: "console_write c data s = (r, s') \<Longrightarrow> oview s' = oview s"
  by (auto simp: console_write_def Let_def)

lemma oview_console_post_loop: "console_post_loop w data s = Some s' \<Longrightarrow> oview s' = oview s"
proof (induction w data s rule: console_post_loop.induct)
  case (2 w ch data s)
  then show ?case by (auto simp: bind_eq_Some_conv dest: oview_window_post)
qed simp

lemma oview_console_post: "console_post c data s = Some (r, s') \<Longrightarrow> oview s' = oview s"
  by (auto simp: console_post_def dest: oview_console_post_loop)

section \<open>The typing of the objects\<close>

text \<open>
  Every number in the table of a process has an object of its own, with one reference, which is not freed.
  What a pipe or a device object points to is a block of this kind; the pipe is not freed and counts
  the objects that point to it.
\<close>

datatype block = Object_block | Pipe_block | Device_block

definition slots :: "oview \<Rightarrow> (ptr \<times> nat) set" where
  "slots v = {(p, i). p \<in> ov_procs v \<and> i < PROCESS_MAX_OBJECTS \<and> ov_table v p ! i \<noteq> 0}"

definition held :: "oview \<Rightarrow> ptr \<times> nat \<Rightarrow> ptr" where
  "held v x = ov_table v (fst x) ! snd x"

definition pipe_slots :: "oview \<Rightarrow> ptr \<Rightarrow> (ptr \<times> nat) set" where
  "pipe_slots v d = {x \<in> slots v. fst (ov_object v (held v x)) = KOBJECT_PIPE \<and> fst (snd (ov_object v (held v x))) = d}"

definition slot_typed :: "(ptr \<Rightarrow> block option) \<Rightarrow> oview \<Rightarrow> ptr \<times> nat \<Rightarrow> bool" where
  "slot_typed \<Gamma> v x \<longleftrightarrow> \<Gamma> (held v x) = Some Object_block \<and> held v x \<notin> ov_freed v \<and>
     (case ov_object v (held v x) of (ty, d, n) \<Rightarrow> n = 1 \<and>
        (ty = KOBJECT_PIPE \<longrightarrow> \<Gamma> d = Some Pipe_block \<and> d \<noteq> 0 \<and> d \<notin> ov_freed v \<and> ov_pipes v d = int (card (pipe_slots v d))) \<and>
        (ty = KOBJECT_DEVICE \<longrightarrow> \<Gamma> d = Some Device_block))"

definition well_typed :: "(ptr \<Rightarrow> block option) \<Rightarrow> oview \<Rightarrow> bool" where
  "well_typed \<Gamma> v \<longleftrightarrow> ov_current v \<in> ov_procs v \<and> finite (ov_procs v) \<and>
     (\<forall>p \<in> ov_procs v. length (ov_table v p) = PROCESS_MAX_OBJECTS) \<and> inj_on (held v) (slots v) \<and>
     (\<forall>x \<in> slots v. slot_typed \<Gamma> v x)"

text \<open>The blocks that are in use: objects, devices, and pipes with references.\<close>

definition in_use_blocks :: "oview \<Rightarrow> ptr set" where
  "in_use_blocks v = held v ` slots v \<union> {d. 0 < ov_pipes v d \<and> d \<notin> ov_freed v} \<union>
     {d. \<exists>x \<in> slots v. fst (ov_object v (held v x)) = KOBJECT_DEVICE \<and> fst (snd (ov_object v (held v x))) = d}"

lemma finite_slots: "well_typed \<Gamma> v \<Longrightarrow> finite (slots v)"
proof -
  assume "well_typed \<Gamma> v"
  then have "finite (ov_procs v \<times> {..<PROCESS_MAX_OBJECTS})" by (simp add: well_typed_def)
  then show ?thesis by (rule finite_subset [rotated]) (auto simp: slots_def)
qed

lemma pipe_slots_in: "pipe_slots v d \<subseteq> slots v" by (auto simp: pipe_slots_def)

lemma pipe_in_use:
  assumes "well_typed \<Gamma> v" "x \<in> slots v" "ov_object v (held v x) = (KOBJECT_PIPE, d, n)"
  shows "0 < ov_pipes v d" "d \<notin> ov_freed v" "d \<in> in_use_blocks v"
proof -
  have t: "slot_typed \<Gamma> v x" using assms(1,2) by (simp add: well_typed_def)
  have "x \<in> pipe_slots v d" using assms(2,3) by (simp add: pipe_slots_def)
  then have "0 < card (pipe_slots v d)"
    using finite_subset [OF pipe_slots_in finite_slots [OF assms(1)]] by (auto simp: card_gt_0_iff)
  then show "0 < ov_pipes v d" "d \<notin> ov_freed v" using t assms(3) by (auto simp: slot_typed_def)
  then show "d \<in> in_use_blocks v" by (simp add: in_use_blocks_def)
qed

text \<open>A new object in an empty entry of the table of the current process.\<close>

lemma well_typed_add:
  assumes wt: "well_typed \<Gamma> v" and slot: "i < PROCESS_MAX_OBJECTS" "ov_table v (ov_current v) ! i = 0"
    and k: "k \<noteq> 0" "k \<notin> held v ` slots v" "\<Gamma>' k = Some Object_block" "k \<notin> F'"
    and F: "F' \<subseteq> ov_freed v"
    and G: "\<And>x. x \<in> slots v \<Longrightarrow> \<Gamma>' (held v x) = \<Gamma> (held v x)"
      "\<And>x ty e n. x \<in> slots v \<Longrightarrow> ov_object v (held v x) = (ty, e, n) \<Longrightarrow> ty = KOBJECT_PIPE \<or> ty = KOBJECT_DEVICE \<Longrightarrow> \<Gamma>' e = \<Gamma> e"
    and P: "\<And>x e n. x \<in> slots v \<Longrightarrow> ov_object v (held v x) = (KOBJECT_PIPE, e, n) \<Longrightarrow>
        P' e = ov_pipes v e + (if ty = KOBJECT_PIPE \<and> e = d then 1 else 0)"
    and new: "ty = KOBJECT_PIPE \<Longrightarrow> \<Gamma>' d = Some Pipe_block \<and> d \<noteq> 0 \<and> d \<notin> F' \<and> P' d = int (card (pipe_slots v d)) + 1"
      "ty = KOBJECT_DEVICE \<Longrightarrow> \<Gamma>' d = Some Device_block"
  shows "well_typed \<Gamma>' (v\<lparr>ov_object := (ov_object v)(k := (ty, d, 1)), ov_freed := F',
      ov_table := (ov_table v)(ov_current v := (ov_table v (ov_current v))[i := k]), ov_pipes := P'\<rparr>)"
proof -
  let ?c = "ov_current v"
  let ?v = "v\<lparr>ov_object := (ov_object v)(k := (ty, d, 1)), ov_freed := F',
      ov_table := (ov_table v)(?c := (ov_table v ?c)[i := k]), ov_pipes := P'\<rparr>"
  have c: "?c \<in> ov_procs v" "length (ov_table v ?c) = PROCESS_MAX_OBJECTS" using wt by (simp_all add: well_typed_def)
  have fresh: "(?c, i) \<notin> slots v" using slot by (simp add: slots_def)
  have h: "held ?v x = (if x = (?c, i) then k else held v x)" for x
    using slot c by (cases x) (auto simp: held_def nth_list_update)
  have sl: "slots ?v = insert (?c, i) (slots v)"
  proof (rule set_eqI)
    fix x show "x \<in> slots ?v \<longleftrightarrow> x \<in> insert (?c, i) (slots v)"
      using h [of x] k(1) c(1) slot(1) by (cases x) (auto simp: slots_def held_def split: if_splits)
  qed
  have nk: "x \<in> slots v \<Longrightarrow> held v x \<noteq> k \<and> x \<noteq> (?c, i)" for x using k(2) fresh by auto
  have ps: "pipe_slots ?v e = (if ty = KOBJECT_PIPE \<and> e = d then insert (?c, i) (pipe_slots v e) else pipe_slots v e)" for e
    using nk by (auto simp: pipe_slots_def sl h)
  have card: "int (card (pipe_slots ?v e)) = int (card (pipe_slots v e)) + (if ty = KOBJECT_PIPE \<and> e = d then 1 else 0)" for e
    using finite_subset [OF pipe_slots_in finite_slots [OF wt], of e] fresh by (simp add: ps) (auto simp: pipe_slots_def)
  have "inj_on (held ?v) (slots ?v)"
    unfolding sl using wt k(2) fresh by (auto simp: h inj_on_def well_typed_def nk split: if_splits)
  moreover have "slot_typed \<Gamma>' ?v x" if x: "x \<in> slots ?v" for x
  proof (cases "x = (?c, i)")
    case True
    have "held ?v (?c, i) = k" by (simp add: h)
    moreover have "P' d = int (card (pipe_slots ?v d))" if "ty = KOBJECT_PIPE" using new(1) [OF that] card [of d] that by simp
    ultimately show ?thesis unfolding True slot_typed_def using k(3,4) new by simp
  next
    case False
    then have s: "x \<in> slots v" using x sl by simp
    then have t: "slot_typed \<Gamma> v x" using wt by (simp add: well_typed_def)
    have hx: "held ?v x = held v x" "held v x \<noteq> k" using False nk [OF s] by (simp_all add: h)
    obtain ty' e n where o: "ov_object v (held v x) = (ty', e, n)" by (metis prod_cases3)
    have ov: "ov_object ?v (held ?v x) = (ty', e, n)" using hx o by simp
    have "\<Gamma>' (held ?v x) = Some Object_block \<and> held ?v x \<notin> F' \<and> n = 1"
      using t G(1) [OF s] F hx o by (auto simp: slot_typed_def)
    moreover have "\<Gamma>' e = Some Pipe_block \<and> e \<noteq> 0 \<and> e \<notin> F' \<and> P' e = int (card (pipe_slots ?v e))" if "ty' = KOBJECT_PIPE"
      using that t G(2) [OF s o] P [OF s, of e n] F o card [of e] by (auto simp: slot_typed_def)
    moreover have "\<Gamma>' e = Some Device_block" if "ty' = KOBJECT_DEVICE"
      using that t G(2) [OF s o] o by (auto simp: slot_typed_def)
    ultimately show ?thesis unfolding slot_typed_def ov by simp
  qed
  moreover have "\<forall>p \<in> ov_procs v. length (((ov_table v)(?c := (ov_table v ?c)[i := k])) p) = PROCESS_MAX_OBJECTS"
    using wt by (simp add: well_typed_def)
  ultimately show ?thesis using wt unfolding well_typed_def by simp
qed

text \<open>An object leaves its entry.\<close>

lemma well_typed_remove:
  assumes wt: "well_typed \<Gamma> v" and slot: "(ov_current v, i) \<in> slots v"
    and o: "ov_object v (held v (ov_current v, i)) = (ty, d, 1)"
    and F: "\<And>x. x \<in> slots v \<Longrightarrow> x \<noteq> (ov_current v, i) \<Longrightarrow> held v x \<notin> F'"
      "\<And>x e n. x \<in> slots v \<Longrightarrow> x \<noteq> (ov_current v, i) \<Longrightarrow> ov_object v (held v x) = (KOBJECT_PIPE, e, n) \<Longrightarrow> e \<notin> F'"
    and P: "\<And>x e n. x \<in> slots v \<Longrightarrow> x \<noteq> (ov_current v, i) \<Longrightarrow> ov_object v (held v x) = (KOBJECT_PIPE, e, n) \<Longrightarrow>
        P' e = ov_pipes v e - (if ty = KOBJECT_PIPE \<and> e = d then 1 else 0)"
    and obj: "\<And>x. x \<in> slots v \<Longrightarrow> x \<noteq> (ov_current v, i) \<Longrightarrow> O' (held v x) = ov_object v (held v x)"
  shows "well_typed \<Gamma> (v\<lparr>ov_object := O', ov_freed := F',
      ov_table := (ov_table v)(ov_current v := (ov_table v (ov_current v))[i := 0]), ov_pipes := P'\<rparr>)"
proof -
  let ?c = "ov_current v"
  let ?v = "v\<lparr>ov_object := O', ov_freed := F', ov_table := (ov_table v)(?c := (ov_table v ?c)[i := 0]), ov_pipes := P'\<rparr>"
  have c: "?c \<in> ov_procs v" "length (ov_table v ?c) = PROCESS_MAX_OBJECTS" "i < PROCESS_MAX_OBJECTS"
    using wt slot by (simp_all add: well_typed_def slots_def)
  have h: "held ?v x = (if x = (?c, i) then 0 else held v x)" for x
    using c by (cases x) (auto simp: held_def nth_list_update)
  have sl: "slots ?v = slots v - {(?c, i)}"
  proof (rule set_eqI)
    fix x show "x \<in> slots ?v \<longleftrightarrow> x \<in> slots v - {(?c, i)}"
      using h [of x] by (cases x) (auto simp: slots_def held_def split: if_splits)
  qed
  have ps: "pipe_slots ?v e = pipe_slots v e - {(?c, i)}" for e
    using obj by (auto simp: pipe_slots_def sl h)
  have mem: "(?c, i) \<in> pipe_slots v e \<longleftrightarrow> ty = KOBJECT_PIPE \<and> e = d" for e
    using slot o by (auto simp: pipe_slots_def)
  have card: "int (card (pipe_slots ?v e)) = int (card (pipe_slots v e)) - (if ty = KOBJECT_PIPE \<and> e = d then 1 else 0)" for e
  proof (cases "(?c, i) \<in> pipe_slots v e")
    case True
    have fin: "finite (pipe_slots v e)" using finite_subset [OF pipe_slots_in finite_slots [OF wt]] .
    then have "0 < card (pipe_slots v e)" using True by (auto simp: card_gt_0_iff)
    then show ?thesis using True fin mem [of e] by (simp add: ps card_Diff_singleton)
  qed (use mem [of e] in \<open>auto simp: ps\<close>)
  have "inj_on (held ?v) (slots ?v)"
    unfolding sl using wt by (auto simp: h inj_on_def well_typed_def)
  moreover have "slot_typed \<Gamma> ?v x" if "x \<in> slots ?v" for x
  proof -
    have s: "x \<in> slots v" "x \<noteq> (?c, i)" using that sl by auto
    then have t: "slot_typed \<Gamma> v x" using wt by (simp add: well_typed_def)
    have hx: "held ?v x = held v x" using s(2) by (simp add: h)
    obtain ty' e n where o': "ov_object v (held v x) = (ty', e, n)" by (metis prod_cases3)
    have ov: "ov_object ?v (held ?v x) = (ty', e, n)" using hx obj [OF s] o' by simp
    have "\<Gamma> (held ?v x) = Some Object_block \<and> held ?v x \<notin> F' \<and> n = 1"
      using t F(1) [OF s] hx o' by (auto simp: slot_typed_def)
    moreover have "\<Gamma> e = Some Pipe_block \<and> e \<noteq> 0 \<and> e \<notin> F' \<and> P' e = int (card (pipe_slots ?v e))" if "ty' = KOBJECT_PIPE"
      using that t F(2) [OF s, of e n] P [OF s, of e n] o' card [of e] by (auto simp: slot_typed_def)
    moreover have "\<Gamma> e = Some Device_block" if "ty' = KOBJECT_DEVICE" using that t o' by (auto simp: slot_typed_def)
    ultimately show ?thesis unfolding slot_typed_def ov by simp
  qed
  moreover have "\<forall>p \<in> ov_procs v. length (((ov_table v)(?c := (ov_table v ?c)[i := 0])) p) = PROCESS_MAX_OBJECTS"
    using wt by (simp add: well_typed_def)
  ultimately show ?thesis using wt unfolding well_typed_def by simp
qed

end
