(* ===== verification/Object_Calls.thy ===== *)
theory Object_Calls
  imports Syscall_Props Vfs_Props Console_Props Bcache
begin

text \<open>
  The system calls on objects keep the typing of the objects of the processes.  What the allocator, and the
  other processes while the caller waits, are relied on for is \<open>fresh_alloc\<close> and \<open>good_resume\<close>.
\<close>

section \<open>What the calls rely on\<close>

definition typed :: "('v, 'p, 'hw) ksys \<Rightarrow> bool" where
  "typed s \<longleftrightarrow> (\<exists>\<Gamma>. well_typed \<Gamma> (oview s))"

text \<open>The allocator does not give out a block that is in use.\<close>

definition fresh_alloc :: "('v, 'p, 'hw) kenv \<Rightarrow> bool" where
  "fresh_alloc E \<longleftrightarrow> (\<forall>s. e_alloc E s = 0 \<or> e_alloc E s \<notin> in_use_blocks (oview s))"

text \<open>A step of the system that stays_typed the typing and comes back to the same process.\<close>

definition stays_typed :: "('v, 'p, 'hw) ksys \<Rightarrow> ('v, 'p, 'hw) ksys \<Rightarrow> bool" where
  "stays_typed s s' \<longleftrightarrow> (typed s \<longrightarrow> typed s' \<and> current s' = current s)"

definition good_resume :: "('v, 'p, 'hw) kenv \<Rightarrow> bool" where
  "good_resume E \<longleftrightarrow> (\<forall>q s s1 s2. process_wait q s = Some s1 \<longrightarrow> e_resume E s1 = Some s2 \<longrightarrow> stays_typed s s2)"

lemma stays_refl [simp]: "stays_typed s s" by (simp add: stays_typed_def)

lemma stays_trans: "stays_typed s t \<Longrightarrow> stays_typed t u \<Longrightarrow> stays_typed s u" by (auto simp: stays_typed_def)

lemma stays_view: "oview s' = oview s \<Longrightarrow> stays_typed s s'"
  unfolding stays_typed_def typed_def by (auto simp: oview_def)

lemma stays_view_trans: "oview t = oview s \<Longrightarrow> stays_typed t u \<Longrightarrow> stays_typed s u"
  by (rule stays_trans [OF stays_view])

lemma stays_resume:
  "good_resume E \<Longrightarrow> process_wait q s = Some s1 \<Longrightarrow> e_resume E s1 = Some s2 \<Longrightarrow> stays_typed s s2"
  unfolding good_resume_def by blast

section \<open>The view of creation and closing\<close>

lemma ov_sel [simp]:
  "ov_current (oview s) = current s" "ov_table (oview s) p = ktable (procs s p)"
  "ov_object (oview s) k = kview (kobject (kobjs s) k)" "ov_freed (oview s) = kfreed (kobjs s)"
  "ov_pipes (oview s) d = pipe.refcount (kpipe (kobjs s) d)"
  by (simp_all add: oview_def)

lemma kobject_make_view:
  assumes "kobject_make ty E d s = Some (k, s')"
  shows "k \<noteq> 0" "k = e_alloc E s"
    "oview s' = (oview s)\<lparr>ov_object := (ov_object (oview s))(k := (ty, d, 1)), ov_freed := ov_freed (oview s) - {k}\<rparr>"
  using assms
  by (auto simp: kobject_make_def kobject_create_def Let_def oview_def upd_kobject_def upd_k_def kview_def split: if_splits)

lemma set_object_view:
  assumes "set_object fd k s = Some s'"
  shows "0 \<le> fd" "nat fd < PROCESS_MAX_OBJECTS"
    "oview s' = (oview s)\<lparr>ov_table := (ov_table (oview s))(ov_current (oview s) :=
      (ov_table (oview s) (ov_current (oview s)))[nat fd := k])\<rparr>"
  using assms by (auto simp: set_object_def oview_def upd_proc_def fun_eq_iff split: if_splits)

lemma available_fd:
  assumes "process_available_fd s = fd" "0 \<le> fd"
  shows "nat fd < PROCESS_MAX_OBJECTS" "ktable (procs s (current s)) ! nat fd = 0"
  using assms by (auto simp: process_available_fd_def find_Some_iff split: option.splits)

lemma valid_slot:
  assumes "is_valid_object fd s" "well_typed \<Gamma> (oview s)"
  shows "(current s, nat fd) \<in> slots (oview s)" "held (oview s) (current s, nat fd) = fd_object fd s"
  using assms by (auto simp: is_valid_object_def fd_object_def slots_def held_def well_typed_def)

text \<open>A fresh block.\<close>

lemma not_in_use:
  assumes "k \<notin> in_use_blocks v" "well_typed \<Gamma> v" "x \<in> slots v"
  shows "held v x \<noteq> k" "ov_object v (held v x) = (ty, e, n) \<Longrightarrow> ty = KOBJECT_PIPE \<or> ty = KOBJECT_DEVICE \<Longrightarrow> e \<noteq> k"
proof -
  show "held v x \<noteq> k" using assms by (auto simp: in_use_blocks_def)
  assume o: "ov_object v (held v x) = (ty, e, n)" and t: "ty = KOBJECT_PIPE \<or> ty = KOBJECT_DEVICE"
  from t show "e \<noteq> k"
  proof
    assume "ty = KOBJECT_PIPE"
    then show ?thesis using pipe_in_use(3) [OF assms(2,3)] o assms(1) by blast
  next
    assume "ty = KOBJECT_DEVICE"
    then show ?thesis using assms(1,3) o unfolding in_use_blocks_def by fastforce
  qed
qed

text \<open>A new object that is not a pipe and not a device.\<close>

lemma typed_add_object:
  assumes wt: "well_typed \<Gamma> v" and slot: "i < PROCESS_MAX_OBJECTS" "ov_table v (ov_current v) ! i = 0"
    and k: "k \<noteq> 0" "k \<notin> in_use_blocks v" and ty: "ty \<noteq> KOBJECT_PIPE" "ty \<noteq> KOBJECT_DEVICE"
  shows "well_typed (\<Gamma>(k := Some Object_block)) (v\<lparr>ov_object := (ov_object v)(k := (ty, d, 1)), ov_freed := ov_freed v - {k},
      ov_table := (ov_table v)(ov_current v := (ov_table v (ov_current v))[i := k])\<rparr>)"
proof -
  have "well_typed (\<Gamma>(k := Some Object_block)) (v\<lparr>ov_object := (ov_object v)(k := (ty, d, 1)), ov_freed := ov_freed v - {k},
      ov_table := (ov_table v)(ov_current v := (ov_table v (ov_current v))[i := k]), ov_pipes := ov_pipes v\<rparr>)"
  proof (rule well_typed_add [OF wt slot k(1)])
    show "k \<notin> held v ` slots v" using k(2) by (simp add: in_use_blocks_def)
  qed (use ty not_in_use [OF k(2) wt] in auto)
  then show ?thesis by simp
qed

lemma stays_if:
  assumes "\<And>\<Gamma>. well_typed \<Gamma> (oview s) \<Longrightarrow> typed s'" "ov_current (oview s') = ov_current (oview s)"
  shows "stays_typed s s'"
  using assms by (auto simp: stays_typed_def typed_def)

lemma stays_new_object:
  assumes E: "fresh_alloc E" and v0: "oview s0 = oview s" and mk: "kobject_make ty E d s0 = Some (k, s1)"
    and set: "set_object fd k s1 = Some s2"
    and fd: "process_available_fd s = fd" "0 \<le> fd" and ty: "ty \<noteq> KOBJECT_PIPE" "ty \<noteq> KOBJECT_DEVICE"
  shows "stays_typed s s2"
proof (rule stays_if)
  note m = kobject_make_view [OF mk, unfolded v0] and t = set_object_view [OF set]
  have v: "oview s2 = (oview s)\<lparr>ov_object := (ov_object (oview s))(k := (ty, d, 1)), ov_freed := ov_freed (oview s) - {k},
      ov_table := (ov_table (oview s))(ov_current (oview s) := (ov_table (oview s) (ov_current (oview s)))[nat fd := k])\<rparr>"
    using t(3) m(3) by simp
  then show "ov_current (oview s2) = ov_current (oview s)" by simp
  have k: "k \<notin> in_use_blocks (oview s)" using E m(1,2) v0 unfolding fresh_alloc_def by metis
  show "typed s2" if wt: "well_typed \<Gamma> (oview s)" for \<Gamma>
    unfolding typed_def v using typed_add_object [OF wt t(2) _ m(1) k ty] available_fd [OF fd] by (auto simp del: ov_sel(3-))
qed

section \<open>Opening\<close>

lemma kobject_lookup_view:
  assumes "kobject_lookup E k name s = Some (n, d, s')"
  obtains (found) ty e s0 where "n \<ge> 0" "oview s0 = oview s" "kobject_make ty E e s0 = Some (d, s')"
      "ty \<noteq> KOBJECT_PIPE" "ty \<noteq> KOBJECT_DEVICE"
  | (failed) "n < 0" "oview s' = oview s"
proof -
  show ?thesis
  proof (cases "ktype (kobject (kobjs s) k) = KOBJECT_DIR")
    case True
    then obtain e s0 where on: "on_vfs (fs_dirent_traverse (e_ops E) (kdata (kobject (kobjs s) k)) name) s = Some (e, s0)"
      using assms by (auto simp: kobject_lookup_def bind_eq_Some_conv)
    show ?thesis
    proof (cases "e = 0")
      case True
      then show ?thesis using assms on \<open>ktype _ = _\<close> oview_on_vfs [OF on] failed by (auto simp: kobject_lookup_def)
    next
      case False
      then have "\<exists>ty. n \<ge> 0 \<and> kobject_make ty E e s0 = Some (d, s') \<and> ty \<noteq> KOBJECT_PIPE \<and> ty \<noteq> KOBJECT_DEVICE"
        using assms on \<open>ktype _ = _\<close>
        by (auto simp: kobject_lookup_def kobject_create_dir_def kobject_create_file_def bind_eq_Some_conv split: if_splits)
      then show ?thesis using oview_on_vfs [OF on] found by blast
    qed
  qed (use assms failed in \<open>auto simp: kobject_lookup_def\<close>)
qed

lemma stays_lookup_set:
  assumes E: "fresh_alloc E" and l: "kobject_lookup E k name s = Some (n, d, s1)" and fd: "0 \<le> process_available_fd s"
    and r: "(if n \<ge> 0 then do { s2 \<leftarrow> set_object (process_available_fd s) d s1; Some (process_available_fd s, s2) }
        else Some (n, s1)) = Some (r, s')"
  shows "stays_typed s s'"
  using l
proof (cases rule: kobject_lookup_view)
  case (found ty e s0)
  then show ?thesis using r stays_new_object [OF E found(2,3) _ HOL.refl fd] by (auto simp: bind_eq_Some_conv)
qed (use r in \<open>simp add: stays_view\<close>)

lemma stays_open_file:
  assumes "fresh_alloc E" "sys_open_file E fd path s = Some (r, s')"
  shows "stays_typed s s'"
  using assms(2) stays_lookup_set [OF assms(1)]
  by (auto simp: sys_open_file_def bind_eq_Some_conv Let_def not_less split: if_splits)

lemma create_dir_view:
  assumes "kobject_create_dir_from_dir E k name s = Some (d, s1)"
  shows "d = 0 \<and> oview s1 = oview s \<or> d \<noteq> 0 \<and> (\<exists>e s0. oview s0 = oview s \<and> kobject_make KOBJECT_DIR E e s0 = Some (d, s1))"
proof (cases "ktype (kobject (kobjs s) k) = KOBJECT_DIR")
  case True
  then obtain e s0 where on: "on_vfs (fs_dirent_mkdir (e_ops E) (kdata (kobject (kobjs s) k)) name) s = Some (e, s0)"
    and d: "(if e \<noteq> 0 then kobject_make KOBJECT_DIR E e s0 else Some (0, s0)) = Some (d, s1)"
    using assms unfolding kobject_create_dir_from_dir_def kobject_create_dir_def by (auto simp: bind_eq_Some_conv)
  then show ?thesis using oview_on_vfs [OF on] by (auto split: if_splits dest: kobject_make_view(1))
qed (use assms in \<open>simp add: kobject_create_dir_from_dir_def\<close>)

lemma stays_open_dir:
  assumes E: "fresh_alloc E" and r: "sys_open_dir E fd path flags s = Some (r, s')"
  shows "stays_typed s s'"
proof (cases "s' = s")
  case False
  let ?fd = "process_available_fd s"
  let ?look = "\<lambda>name. if flags AND KERNEL_FLAGS_CREATE \<noteq> 0 then do {
                (k, s) \<leftarrow> kobject_create_dir_from_dir E (fd_object fd s) name s;
                Some (if k \<noteq> 0 then 0 else kerr KERROR_NOT_FOUND, k, s)
              } else kobject_lookup E (fd_object fd s) name s"
  have v: "is_valid_object fd s" using r False by (cases "is_valid_object fd s") (simp_all add: sys_open_dir_def)
  obtain name where g: "get_string path s = Some name" "is_valid_path name = Some True" and fd: "0 \<le> ?fd"
  proof (cases "get_string path s")
    case (Some name)
    then show ?thesis using r False v that [of name] unfolding sys_open_dir_def
      by (cases "is_valid_path name = Some True"; cases "0 \<le> ?fd") (auto simp: Let_def bind_eq_Some_conv split: if_splits)
  qed (use r v in \<open>simp add: sys_open_dir_def\<close>)
  have "?look name \<bind> (\<lambda>(n, k, s1). if n \<ge> 0 then do { s2 \<leftarrow> set_object ?fd k s1; Some (?fd, s2) } else Some (n, s1)) = Some (r, s')"
    using r v g fd by (simp add: sys_open_dir_def Let_def)
  then obtain n k s1 where o1: "?look name = Some (n, k, s1)"
    and o2: "(if n \<ge> 0 then do { s2 \<leftarrow> set_object ?fd k s1; Some (?fd, s2) } else Some (n, s1)) = Some (r, s')"
    by (cases "?look name") auto
  show ?thesis
  proof (cases "flags AND KERNEL_FLAGS_CREATE = 0")
    case True
    then show ?thesis using o1 stays_lookup_set [OF E _ fd o2] by simp
  next
    case False
    then have c: "kobject_create_dir_from_dir E (fd_object fd s) name s = Some (k, s1)"
      and n: "n = (if k \<noteq> 0 then 0 else kerr KERROR_NOT_FOUND)" using o1 by (auto simp: bind_eq_Some_conv)
    from create_dir_view [OF c] show ?thesis
    proof (elim disjE exE conjE)
      fix e s0 assume "k \<noteq> 0" "oview s0 = oview s" "kobject_make KOBJECT_DIR E e s0 = Some (k, s1)"
      then show ?thesis using stays_new_object [OF E _ _ _ HOL.refl fd] o2 n by (auto simp: bind_eq_Some_conv)
    qed (use o2 n in \<open>simp add: stays_view\<close>)
  qed
qed simp

lemma stays_open_window:
  assumes E: "fresh_alloc E" and r: "sys_open_window E wd x y w h s = Some (r, s')"
  shows "stays_typed s s'"
proof (cases "is_valid_object_type wd KOBJECT_WINDOW s \<and> process_available_fd s \<ge> 0")
  case True
  let ?fd = "process_available_fd s"
  obtain k s1 where c: "kobject_create_window_from_window E (fd_object wd s) x y w h s = Some (k, s1)"
    using r True by (auto simp: sys_open_window_def Let_def bind_eq_Some_conv split: if_splits)
  have r1: "(if k = 0 then Some (kerr KERROR_INVALID_REQUEST, s1) else do { s2 \<leftarrow> set_object ?fd k s1; Some (?fd, s2) }) = Some (r, s')"
    using r True by (auto simp: sys_open_window_def c Let_def)
  consider "k = 0" "oview s1 = oview s"
    | d s0 where "k \<noteq> 0" "oview s0 = oview s" "kobject_make KOBJECT_WINDOW E d s0 = Some (k, s1)"
    using c by (auto simp: kobject_create_window_from_window_def kobject_create_window_def bind_eq_Some_conv
        split: if_splits dest: kobject_make_view(1) oview_window_create)
  then show ?thesis
  proof cases
    case (2 d s0)
    then obtain s2 where "set_object ?fd k s1 = Some s2" "s' = s2" using r1 by (auto simp: bind_eq_Some_conv)
    then show ?thesis using stays_new_object [OF E 2(2,3)] True by auto
  qed (use r1 in \<open>simp add: stays_view\<close>)
qed (use r in \<open>auto simp: sys_open_window_def Let_def split: if_splits\<close>)

lemma type_code_inject [simp]: "kobject_type_code a = kobject_type_code b \<longleftrightarrow> a = b"
  by (cases a; cases b) simp_all

lemma stays_open_console:
  assumes E: "fresh_alloc E" and r: "sys_open_console E wd s = Some (r, s')"
  shows "stays_typed s s'"
proof (cases "is_valid_object_type wd KOBJECT_WINDOW s \<and> process_available_fd s \<ge> 0")
  case True
  let ?fd = "process_available_fd s"
  have w: "ktype (kobject (kobjs s) (fd_object wd s)) = KOBJECT_WINDOW"
    using True unfolding is_valid_object_type_def kobject_get_type_def by (simp del: kobject_type_code.simps)
  obtain k s1 s2 where c: "kobject_create_console_from_window E (fd_object wd s) s = Some (k, s1)"
    and s: "set_object ?fd k s1 = Some s2" "s' = s2"
    using r True by (auto simp: sys_open_console_def Let_def bind_eq_Some_conv split: if_splits)
  obtain d s0 where "console_create (e_alloc E s) (kdata (kobject (kobjs s) (fd_object wd s))) s = Some (d, s0)"
    "(if d = 0 then Some (0, s0) else kobject_make KOBJECT_CONSOLE E d s0) = Some (k, s1)"
    using c w unfolding kobject_create_console_from_window_def kobject_create_console_def by (auto simp: bind_eq_Some_conv)
  moreover from this(1) have "d \<noteq> 0" by (auto simp: console_create_def Let_def split: if_splits)
  ultimately have "oview s0 = oview s" "kobject_make KOBJECT_CONSOLE E d s0 = Some (k, s1)"
    using oview_console_create by auto
  from stays_new_object [OF E this s(1)] show ?thesis using True s(2) by simp
qed (use r in \<open>auto simp: sys_open_console_def Let_def split: if_splits\<close>)

lemma pipe_create_at_view:
  assumes "pipe_create_at p s = Some (r, s')" "r \<noteq> 0"
  shows "r = p" "oview s' = (oview s)\<lparr>ov_freed := ov_freed (oview s) - {p}, ov_pipes := (ov_pipes (oview s))(p := 1)\<rparr>"
proof -
  obtain x m where x: "pipe_create (p \<noteq> 0) (mem s) = Some (Some x, m)" "r = p"
    "oview s' = oview (upd_kpipe p (\<lambda>_. x) (upd_k (\<lambda>u. u\<lparr>kfreed := kfreed u - {p}\<rparr>) s))"
    using assms by (auto simp: pipe_create_at_def Let_def bind_eq_Some_conv oview_def upd_kpipe_def upd_k_def split: option.splits)
  have "pipe.refcount x = 1" using x(1) by (auto simp: pipe_create_def bind_eq_Some_conv split: if_splits)
  then show "r = p" "oview s' = (oview s)\<lparr>ov_freed := ov_freed (oview s) - {p}, ov_pipes := (ov_pipes (oview s))(p := 1)\<rparr>"
    using x(2,3) by (auto simp: oview_def upd_kpipe_def upd_k_def)
qed

lemma pipe_create_at_fails: "pipe_create_at p s = Some (0, s') \<Longrightarrow> p \<noteq> 0 \<Longrightarrow> oview s' = oview s" "pipe_create_at 0 s = Some (r, s') \<Longrightarrow> oview s' = oview s \<and> r = 0"
  by (auto simp: pipe_create_at_def Let_def bind_eq_Some_conv pipe_create_def split: option.splits if_splits)

lemma typed_add_pipe:
  assumes wt: "well_typed \<Gamma> v" and slot: "i < PROCESS_MAX_OBJECTS" "ov_table v (ov_current v) ! i = 0"
    and k: "k \<noteq> 0" "k \<notin> in_use_blocks v" "k \<noteq> p" and p: "p \<noteq> 0" "p \<notin> in_use_blocks v"
  shows "well_typed (\<Gamma>(p := Some Pipe_block, k := Some Object_block)) (v\<lparr>ov_object := (ov_object v)(k := (KOBJECT_PIPE, p, 1)),
      ov_freed := ov_freed v - {p} - {k}, ov_table := (ov_table v)(ov_current v := (ov_table v (ov_current v))[i := k]),
      ov_pipes := (ov_pipes v)(p := 1)\<rparr>)"
proof (rule well_typed_add [OF wt slot k(1)])
  show "k \<notin> held v ` slots v" using k(2) by (simp add: in_use_blocks_def)
  have "x \<notin> pipe_slots v p" for x
  proof
    assume "x \<in> pipe_slots v p"
    then have "x \<in> slots v" "ov_object v (held v x) = (KOBJECT_PIPE, p, snd (snd (ov_object v (held v x))))"
      by (auto simp: pipe_slots_def prod_eq_iff)
    then show False using not_in_use(2) [OF p(2) wt] by blast
  qed
  then have "pipe_slots v p = {}" by blast
  then show "(\<Gamma>(p := Some Pipe_block, k := Some Object_block)) p = Some Pipe_block \<and> p \<noteq> 0 \<and> p \<notin> ov_freed v - {p} - {k} \<and>
      ((ov_pipes v)(p := 1)) p = int (card (pipe_slots v p)) + 1"
    using k(3) p(1) by simp
next
  fix x ty e n assume x: "x \<in> slots v" "ov_object v (held v x) = (ty, e, n)" "ty = KOBJECT_PIPE \<or> ty = KOBJECT_DEVICE"
  then show "(\<Gamma>(p := Some Pipe_block, k := Some Object_block)) e = \<Gamma> e"
    using not_in_use(2) [OF k(2) wt x] not_in_use(2) [OF p(2) wt x] by simp
next
  fix x e n assume x: "x \<in> slots v" "ov_object v (held v x) = (KOBJECT_PIPE, e, n)"
  then show "((ov_pipes v)(p := 1)) e = ov_pipes v e + (if KOBJECT_PIPE = KOBJECT_PIPE \<and> e = p then 1 else 0)"
    using not_in_use(2) [OF p(2) wt x] by simp
qed (use not_in_use(1) [OF k(2) wt] not_in_use(1) [OF p(2) wt] in auto)

lemma new_pipe_in_use:
  "in_use_blocks (v\<lparr>ov_freed := ov_freed v - {p}, ov_pipes := (ov_pipes v)(p := 1)\<rparr>) = insert p (in_use_blocks v)"
  by (auto simp: in_use_blocks_def slots_def held_def)

lemma stays_open_pipe:
  assumes E: "fresh_alloc E" and r: "sys_open_pipe E s = Some (r, s')"
  shows "stays_typed s s'"
proof (cases "process_available_fd s < 0")
  case False
  let ?fd = "process_available_fd s" and ?p = "e_alloc E s"
  obtain p s1 where c: "pipe_create_at ?p s = Some (p, s1)"
    using r False by (auto simp: sys_open_pipe_def Let_def bind_eq_Some_conv)
  have r1: "(if p = 0 then Some (kerr KERROR_NOT_FOUND, s1) else do {
      (k, s) \<leftarrow> kobject_create_pipe E p s1; s \<leftarrow> set_object ?fd k s; Some (?fd, s) }) = Some (r, s')"
    using r False by (simp add: sys_open_pipe_def Let_def c)
  show ?thesis
  proof (cases "p = 0")
    case True
    then have "oview s1 = oview s" using c by (cases "?p = 0") (auto dest: pipe_create_at_fails)
    then show ?thesis using r1 True by (simp add: stays_view)
  next
    case p0: False
    note v1 = pipe_create_at_view [OF c p0]
    obtain k s2 s3 where mk: "kobject_make KOBJECT_PIPE E p s1 = Some (k, s2)" and set: "set_object ?fd k s2 = Some s3" and "s' = s3"
      using r1 p0 by (auto simp: kobject_create_pipe_def bind_eq_Some_conv)
    note m = kobject_make_view [OF mk] and t = set_object_view [OF set]
    have v: "oview s' = (oview s)\<lparr>ov_object := (ov_object (oview s))(k := (KOBJECT_PIPE, p, 1)),
      ov_freed := ov_freed (oview s) - {p} - {k}, ov_table := (ov_table (oview s))(ov_current (oview s) :=
        (ov_table (oview s) (ov_current (oview s)))[nat ?fd := k]), ov_pipes := (ov_pipes (oview s))(p := 1)\<rparr>"
      using t(3) m(3) v1 \<open>s' = s3\<close> by simp
    have p: "p \<notin> in_use_blocks (oview s)" using E p0 v1(1) unfolding fresh_alloc_def by metis
    have "k \<notin> in_use_blocks (oview s1)" using E m(1,2) unfolding fresh_alloc_def by metis
    then have k: "k \<notin> in_use_blocks (oview s)" "k \<noteq> p" unfolding v1(2) new_pipe_in_use using v1(1) by simp_all
    show ?thesis
    proof (rule stays_if)
      show "ov_current (oview s') = ov_current (oview s)" unfolding v by simp
      show "typed s'" if wt: "well_typed \<Gamma> (oview s)" for \<Gamma>
        unfolding typed_def v using typed_add_pipe [OF wt t(2) _ m(1) k p0 p] available_fd [of s ?fd] False
        by (auto simp del: ov_sel(3-))
    qed
  qed
qed (use r in \<open>simp add: sys_open_pipe_def\<close>)

section \<open>Copying and closing\<close>

text \<open>What a copy refers to has one more reference.\<close>

lemma data_addref_view:
  "oview (data_addref ty d s) = (oview s)\<lparr>ov_pipes := (if ty = KOBJECT_PIPE
     then (ov_pipes (oview s))(d := ov_pipes (oview s) d + 1) else ov_pipes (oview s))\<rparr>"
proof -
  have d: "oview (snd (on_devices f s)) = oview s" for f :: "'c world \<Rightarrow> unit \<times> 'c world"
    by (cases "on_devices f s") (auto dest: oview_on_devices)
  show ?thesis
  proof (cases ty)
    case KOBJECT_PIPE
    then show ?thesis by (auto simp: data_addref_def upd_kpipe_def oview_def upd_k_def pipe_addref_def fun_eq_iff)
  next
    case KOBJECT_DEVICE
    then show ?thesis by (simp add: data_addref_def d)
  qed (simp_all add: data_addref_def oview_kobjs, simp_all add: oview_def)
qed

lemma kobject_copy_view:
  assumes "kobject_copy E src s = Some (k, s')" "src \<noteq> e_alloc E s" "kview (kobject (kobjs s) src) = (ty, d, n)"
  shows "k \<noteq> 0" "k = e_alloc E s" "src \<noteq> 0"
    "oview s' = (oview s)\<lparr>ov_object := (ov_object (oview s))(k := (ty, d, 1)), ov_freed := ov_freed (oview s) - {k},
      ov_pipes := (if ty = KOBJECT_PIPE then (ov_pipes (oview s))(d := ov_pipes (oview s) d + 1) else ov_pipes (oview s))\<rparr>"
proof -
  let ?k = "e_alloc E s"
  have o: "kdata (kobject (kobjs s) src) = d" "ktype (kobject (kobjs s) src) = ty" using assms(3) by (auto simp: kview_def)
  obtain tag where k: "?k \<noteq> 0" "src \<noteq> 0" "k = ?k" and s': "s' = data_addref ty d (upd_kobject ?k
      (\<lambda>_. \<lparr>kdata = d, ktype = ty, k_refcount = 1, koffset = koffset (kobject (kobjs s) src), ktag = tag\<rparr>)
      (upd_kobject ?k (\<lambda>x. x\<lparr>k_refcount := 1, koffset := 0, ktag := None, kdata := 0\<rparr>)
        (upd_k (\<lambda>u. u\<lparr>kfreed := kfreed u - {?k}\<rparr>) s)))"
    using assms(1,2) o by (auto simp: kobject_copy_def kobject_create_def Let_def bind_eq_Some_conv upd_kobject_def upd_k_def split: if_splits)
  show "k \<noteq> 0" "k = e_alloc E s" "src \<noteq> 0" using k by simp_all
  show "oview s' = (oview s)\<lparr>ov_object := (ov_object (oview s))(k := (ty, d, 1)), ov_freed := ov_freed (oview s) - {k},
      ov_pipes := (if ty = KOBJECT_PIPE then (ov_pipes (oview s))(d := ov_pipes (oview s) d + 1) else ov_pipes (oview s))\<rparr>"
    unfolding s' data_addref_view k(3) by (auto simp: oview_def upd_kobject_def upd_k_def kview_def)
qed

text \<open>A second object for what the object of the entry \<open>j\<close> points to, in the empty entry \<open>i\<close>.\<close>

lemma typed_add_copy:
  assumes wt: "well_typed \<Gamma> v" and slot: "i < PROCESS_MAX_OBJECTS" "ov_table v (ov_current v) ! i = 0"
    and k: "k \<noteq> 0" "k \<notin> in_use_blocks v" and src: "y \<in> slots v" "ov_object v (held v y) = (ty, d, n)"
  shows "well_typed (\<Gamma>(k := Some Object_block)) (v\<lparr>ov_object := (ov_object v)(k := (ty, d, 1)), ov_freed := ov_freed v - {k},
      ov_table := (ov_table v)(ov_current v := (ov_table v (ov_current v))[i := k]),
      ov_pipes := (if ty = KOBJECT_PIPE then (ov_pipes v)(d := ov_pipes v d + 1) else ov_pipes v)\<rparr>)"
proof (rule well_typed_add [OF wt slot k(1)])
  have y: "slot_typed \<Gamma> v y" using wt src(1) by (simp add: well_typed_def)
  show "k \<notin> held v ` slots v" using k(2) by (simp add: in_use_blocks_def)
  show "(\<Gamma>(k := Some Object_block)) d = Some Pipe_block \<and> d \<noteq> 0 \<and> d \<notin> ov_freed v - {k} \<and>
      (if ty = KOBJECT_PIPE then (ov_pipes v)(d := ov_pipes v d + 1) else ov_pipes v) d = int (card (pipe_slots v d)) + 1"
    if "ty = KOBJECT_PIPE"
    using that y src not_in_use(2) [OF k(2) wt src] by (simp add: slot_typed_def)
  show "(\<Gamma>(k := Some Object_block)) d = Some Device_block" if "ty = KOBJECT_DEVICE"
    using that y src not_in_use(2) [OF k(2) wt src] by (simp add: slot_typed_def)
qed (use not_in_use [OF k(2) wt] in auto)

lemma stays_copy_into:
  assumes E: "fresh_alloc E" and wt: "well_typed \<Gamma> (oview s)" and src: "is_valid_object src s"
    and copy: "kobject_copy E (fd_object src s) s = Some (k, s1)" and set: "set_object dst k s1 = Some s2"
    and dst: "ktable (procs s (current s)) ! nat dst = 0"
  shows "typed s2" "current s2 = current s"
proof -
  note y = valid_slot [OF src wt]
  obtain ty d n where o: "kview (kobject (kobjs s) (fd_object src s)) = (ty, d, n)" by (metis prod_cases3)
  have "held (oview s) (current s, nat src) \<in> in_use_blocks (oview s)"
    unfolding in_use_blocks_def by (intro UnI1 imageI y(1))
  then have "fd_object src s \<in> in_use_blocks (oview s)" using y(2) by simp
  moreover have "e_alloc E s \<notin> in_use_blocks (oview s)" if "e_alloc E s \<noteq> 0"
    using E that unfolding fresh_alloc_def by metis
  moreover have "e_alloc E s \<noteq> 0" using copy by (auto simp: kobject_copy_def kobject_create_def Let_def split: if_splits)
  ultimately have fresh: "fd_object src s \<noteq> e_alloc E s" "e_alloc E s \<notin> in_use_blocks (oview s)" by metis+
  note c = kobject_copy_view [OF copy fresh(1) o] and t = set_object_view [OF set]
  have v: "oview s2 = (oview s)\<lparr>ov_object := (ov_object (oview s))(k := (ty, d, 1)), ov_freed := ov_freed (oview s) - {k},
      ov_table := (ov_table (oview s))(ov_current (oview s) := (ov_table (oview s) (ov_current (oview s)))[nat dst := k]),
      ov_pipes := (if ty = KOBJECT_PIPE then (ov_pipes (oview s))(d := ov_pipes (oview s) d + 1) else ov_pipes (oview s))\<rparr>"
    using t(3) c(4) by simp
  have "ov_current (oview s2) = current s" unfolding v by simp
  then show "current s2 = current s" by simp
  have "well_typed (\<Gamma>(k := Some Object_block)) (oview s2)" unfolding v
    by (rule typed_add_copy [OF wt t(2) _ c(1) fresh(2) [folded c(2)] y(1)]) (simp_all add: dst y(2) o)
  then show "typed s2" unfolding typed_def by blast
qed

text \<open>Dropping an object, and with it what the object points to when nothing else does.\<close>

lemma data_close_view:
  assumes "data_close E ty d s = Some s'" "ty = KOBJECT_PIPE \<longrightarrow> d \<noteq> 0"
  shows "\<exists>F. oview s' = (oview s)\<lparr>ov_freed := F, ov_pipes := (if ty = KOBJECT_PIPE \<and> ov_pipes (oview s) d \<noteq> 1
      then (ov_pipes (oview s))(d := ov_pipes (oview s) d - 1) else ov_pipes (oview s))\<rparr> \<and>
    (F = ov_freed (oview s) \<or> F = insert d (ov_freed (oview s)) \<and> (ty = KOBJECT_DEVICE \<or> ty = KOBJECT_PIPE \<and> ov_pipes (oview s) d = 1))"
proof (cases ty)
  case KOBJECT_PIPE
  then show ?thesis using assms
    by (auto simp: data_close_def pipe_delete_def Let_def oview_def upd_kpipe_def upd_k_def free_k_def fun_eq_iff split: if_splits)
next
  case KOBJECT_DEVICE
  obtain freed s0 where on: "on_devices (device_close d) s = (freed, s0)" by (metis prod.exhaust)
  then have "s' = (if freed then free_k d s0 else s0)" using assms KOBJECT_DEVICE by (simp add: data_close_def)
  then show ?thesis using oview_on_devices [OF on] KOBJECT_DEVICE by (auto simp: free_k_def oview_kobjs) (auto simp: oview_def)
next
  case KOBJECT_WINDOW
  then show ?thesis using assms oview_window_delete [of d s s'] by (auto simp: data_close_def)
next
  case KOBJECT_CONSOLE
  then show ?thesis using assms oview_console_delete [of d s s'] by (auto simp: data_close_def)
next
  case KOBJECT_FILE
  then show ?thesis using assms by (auto simp: data_close_def dest!: oview_on_vfs)
next
  case KOBJECT_DIR
  then show ?thesis using assms by (auto simp: data_close_def dest!: oview_on_vfs)
qed

lemma kobject_close_view:
  assumes "kobject_close E k s = Some (r, s')" "kview (kobject (kobjs s) k) = (ty, d, 1)" "ty = KOBJECT_PIPE \<longrightarrow> d \<noteq> 0"
  shows "\<exists>F. oview s' = (oview s)\<lparr>ov_object := (ov_object (oview s))(k := (ty, d, 0)), ov_freed := insert k F,
      ov_pipes := (if ty = KOBJECT_PIPE \<and> ov_pipes (oview s) d \<noteq> 1
        then (ov_pipes (oview s))(d := ov_pipes (oview s) d - 1) else ov_pipes (oview s))\<rparr> \<and>
    (F = ov_freed (oview s) \<or> F = insert d (ov_freed (oview s)) \<and> (ty = KOBJECT_DEVICE \<or> ty = KOBJECT_PIPE \<and> ov_pipes (oview s) d = 1))"
proof -
  let ?s = "upd_kobject k (\<lambda>x. x\<lparr>k_refcount := k_refcount x - 1\<rparr>) s"
  have o: "kdata (kobject (kobjs s) k) = d" "ktype (kobject (kobjs s) k) = ty" "k_refcount (kobject (kobjs s) k) = 1"
    using assms(2) by (auto simp: kview_def)
  have v: "oview ?s = (oview s)\<lparr>ov_object := (ov_object (oview s))(k := (ty, d, 0))\<rparr>"
    using o by (auto simp: oview_def upd_kobject_def upd_k_def kview_def)
  obtain s1 where s1: "data_close E ty d ?s = Some s1" "s' = free_k k s1"
    using assms(1) o by (auto simp: kobject_close_def Let_def upd_kobject_def upd_k_def bind_eq_Some_conv)
  have f: "oview (free_k k s1) = (oview s1)\<lparr>ov_freed := insert k (ov_freed (oview s1))\<rparr>"
    by (simp add: oview_def free_k_def upd_k_def)
  obtain F where F: "oview s1 = (oview ?s)\<lparr>ov_freed := F, ov_pipes := (if ty = KOBJECT_PIPE \<and> ov_pipes (oview ?s) d \<noteq> 1
      then (ov_pipes (oview ?s))(d := ov_pipes (oview ?s) d - 1) else ov_pipes (oview ?s))\<rparr>"
    and cond: "F = ov_freed (oview ?s) \<or> F = insert d (ov_freed (oview ?s)) \<and>
      (ty = KOBJECT_DEVICE \<or> ty = KOBJECT_PIPE \<and> ov_pipes (oview ?s) d = 1)"
    using data_close_view [OF s1(1) assms(3)] by blast
  have "oview s' = (oview s)\<lparr>ov_object := (ov_object (oview s))(k := (ty, d, 0)), ov_freed := insert k F,
      ov_pipes := (if ty = KOBJECT_PIPE \<and> ov_pipes (oview s) d \<noteq> 1
        then (ov_pipes (oview s))(d := ov_pipes (oview s) d - 1) else ov_pipes (oview s))\<rparr>"
    unfolding s1(2) f F v by (simp del: ov_sel)
  then show ?thesis using cond unfolding v by (auto simp del: ov_sel)
qed

lemma typed_drop_object:
  assumes wt: "well_typed \<Gamma> v" and y: "(ov_current v, i) \<in> slots v" and k: "held v (ov_current v, i) = k"
    and o: "ov_object v k = (ty, d, n)"
    and F: "F = ov_freed v \<or> F = insert d (ov_freed v) \<and> (ty = KOBJECT_DEVICE \<or> ty = KOBJECT_PIPE \<and> ov_pipes v d = 1)"
  shows "well_typed \<Gamma> (v\<lparr>ov_object := (ov_object v)(k := (ty, d, 0)), ov_freed := insert k F,
      ov_table := (ov_table v)(ov_current v := (ov_table v (ov_current v))[i := 0]),
      ov_pipes := (if ty = KOBJECT_PIPE \<and> ov_pipes v d \<noteq> 1 then (ov_pipes v)(d := ov_pipes v d - 1) else ov_pipes v)\<rparr>)"
proof -
  let ?y = "(ov_current v, i)"
  have ty: "slot_typed \<Gamma> v ?y" using wt y by (simp add: well_typed_def)
  then have n: "n = 1" using o k by (simp add: slot_typed_def)
  have Gk: "\<Gamma> k = Some Object_block" using ty k by (simp add: slot_typed_def)
  have Gd: "F \<noteq> ov_freed v \<Longrightarrow> \<Gamma> d \<noteq> Some Object_block" using ty k o F by (auto simp: slot_typed_def)
  have other: "held v x \<noteq> k \<and> slot_typed \<Gamma> v x" if "x \<in> slots v" "x \<noteq> ?y" for x
    using that wt y k inj_on_eq_iff [of "held v" "slots v" x ?y] by (auto simp: well_typed_def)
  have one: "ov_pipes v d \<noteq> 1"
    if "x \<in> slots v" "x \<noteq> ?y" "ov_object v (held v x) = (KOBJECT_PIPE, d, m)" "ty = KOBJECT_PIPE" for x m
  proof
    assume "ov_pipes v d = 1"
    then have "card (pipe_slots v d) = 1" using ty k o that(4) by (simp add: slot_typed_def)
    moreover have "x \<in> pipe_slots v d" "?y \<in> pipe_slots v d" using that y k o by (simp_all add: pipe_slots_def)
    ultimately show False using that(2) by (metis card_1_singletonE singletonD)
  qed
  show ?thesis
  proof (rule well_typed_remove [OF wt y])
    show "ov_object v (held v ?y) = (ty, d, 1)" using o k n by simp
  next
    fix x assume x: "x \<in> slots v" "x \<noteq> ?y"
    have "\<Gamma> (held v x) = Some Object_block" "held v x \<notin> ov_freed v" using other [OF x] by (simp_all add: slot_typed_def)
    then show "held v x \<notin> insert k F" using F Gd other [OF x] by auto
    show "((ov_object v)(k := (ty, d, 0))) (held v x) = ov_object v (held v x)" using other [OF x] by simp
  next
    fix x e m assume x: "x \<in> slots v" "x \<noteq> ?y" and p: "ov_object v (held v x) = (KOBJECT_PIPE, e, m)"
    have e: "\<Gamma> e = Some Pipe_block" "e \<notin> ov_freed v" using other [OF x] p by (simp_all add: slot_typed_def)
    have "\<Gamma> d = Some Device_block" if "ty = KOBJECT_DEVICE" using ty k o that by (simp add: slot_typed_def)
    then have "e \<noteq> d" if "F = insert d (ov_freed v)" "d \<notin> ov_freed v" using F that e one [OF x, of m] p by auto
    then show "e \<notin> insert k F" using F e Gk by auto
    show "(if ty = KOBJECT_PIPE \<and> ov_pipes v d \<noteq> 1 then (ov_pipes v)(d := ov_pipes v d - 1) else ov_pipes v) e =
        ov_pipes v e - (if ty = KOBJECT_PIPE \<and> e = d then 1 else 0)"
      using one [OF x, of m] p by auto
  qed
qed

lemma close_typed:
  assumes wt: "well_typed \<Gamma> (oview s)" and r: "sys_object_close E fd s = Some (r, s')"
  shows "well_typed \<Gamma> (oview s') \<and> current s' = current s \<and>
    ktable (procs s' (current s)) = (if is_valid_object fd s then (ktable (procs s (current s)))[nat fd := 0] else ktable (procs s (current s)))"
proof (cases "is_valid_object fd s")
  case True
  note y = valid_slot [OF True wt]
  let ?k = "fd_object fd s"
  obtain ty d n where o: "kview (kobject (kobjs s) ?k) = (ty, d, n)" by (metis prod_cases3)
  have st: "slot_typed \<Gamma> (oview s) (current s, nat fd)" using wt y(1) by (simp add: well_typed_def)
  then have o1: "kview (kobject (kobjs s) ?k) = (ty, d, 1)" "ty = KOBJECT_PIPE \<longrightarrow> d \<noteq> 0" using o y(2) by (simp_all add: slot_typed_def)
  obtain r1 s1 where c: "kobject_close E ?k s = Some (r1, s1)" and set: "set_object fd 0 s1 = Some s'"
    using r True by (auto simp: sys_object_close_def bind_eq_Some_conv)
  obtain F where F: "oview s1 = (oview s)\<lparr>ov_object := (ov_object (oview s))(?k := (ty, d, 0)), ov_freed := insert ?k F,
      ov_pipes := (if ty = KOBJECT_PIPE \<and> ov_pipes (oview s) d \<noteq> 1
        then (ov_pipes (oview s))(d := ov_pipes (oview s) d - 1) else ov_pipes (oview s))\<rparr>"
    "F = ov_freed (oview s) \<or> F = insert d (ov_freed (oview s)) \<and> (ty = KOBJECT_DEVICE \<or> ty = KOBJECT_PIPE \<and> ov_pipes (oview s) d = 1)"
    using kobject_close_view [OF c o1] by blast
  have v: "oview s' = (oview s)\<lparr>ov_object := (ov_object (oview s))(?k := (ty, d, 0)), ov_freed := insert ?k F,
      ov_table := (ov_table (oview s))(ov_current (oview s) := (ov_table (oview s) (ov_current (oview s)))[nat fd := 0]),
      ov_pipes := (if ty = KOBJECT_PIPE \<and> ov_pipes (oview s) d \<noteq> 1
        then (ov_pipes (oview s))(d := ov_pipes (oview s) d - 1) else ov_pipes (oview s))\<rparr>"
    unfolding set_object_view(3) [OF set] F(1) by (simp del: ov_sel)
  have "(ov_current (oview s), nat fd) \<in> slots (oview s)" "held (oview s) (ov_current (oview s), nat fd) = ?k"
    "ov_object (oview s) ?k = (ty, d, 1)" using y o1(1) by simp_all
  from typed_drop_object [OF wt this F(2)] have "well_typed \<Gamma> (oview s')" unfolding v .
  moreover have "ov_current (oview s') = current s" "ov_table (oview s') (current s) = (ktable (procs s (current s)))[nat fd := 0]"
    unfolding v by simp_all
  ultimately show ?thesis using True by simp
qed (use r wt in \<open>auto simp: sys_object_close_def\<close>)

lemma stays_close: "sys_object_close E fd s = Some (r, s') \<Longrightarrow> stays_typed s s'"
  unfolding stays_typed_def typed_def using close_typed by blast

lemma stays_copy:
  assumes E: "fresh_alloc E" and r: "sys_object_copy E src dst s = Some (r, s')"
  shows "stays_typed s s'"
proof (cases "is_valid_object src s \<and> dst \<le> int PROCESS_MAX_OBJECTS \<and> (dst < 0 \<longrightarrow> 0 \<le> process_available_fd s)")
  case True
  define i where "i = (if dst < 0 then process_available_fd s else dst)"
  have i: "0 \<le> i" using True by (simp add: i_def)
  obtain r1 s1 k s2 s3 where close: "sys_object_close E i s = Some (r1, s1)"
    and copy: "kobject_copy E (fd_object src s1) s1 = Some (k, s2)" and set: "set_object i k s2 = Some s3" and s': "s' = s3"
    using r True i unfolding sys_object_copy_def i_def by (auto simp: bind_eq_Some_conv Let_def split: if_splits)
  show ?thesis unfolding stays_typed_def typed_def
  proof (intro impI conjI; elim exE)
    fix \<Gamma> assume wt: "well_typed \<Gamma> (oview s)"
    note c = close_typed [OF wt close]
    have len: "length (ktable (procs s (current s))) = PROCESS_MAX_OBJECTS" using wt by (simp add: well_typed_def)
    have i32: "nat i < PROCESS_MAX_OBJECTS" by (rule set_object_view(2) [OF set])
    have "fd_object src s1 \<noteq> 0" using copy by (cases "fd_object src s1 = 0") (simp_all add: kobject_copy_def)
    then have v: "is_valid_object src s1" using True by (simp add: is_valid_object_def)
    have e: "ktable (procs s1 (current s1)) ! nat i = 0"
      using c len i i32 by (auto simp: is_valid_object_def fd_object_def)
    have wt1: "well_typed \<Gamma> (oview s1)" using c by simp
    have "typed s3" "current s3 = current s1" by (rule stays_copy_into [OF E wt1 v copy set e])+
    then show "\<exists>\<Gamma>. well_typed \<Gamma> (oview s')" "current s' = current s" using s' c by (simp_all add: typed_def)
  qed
qed (use r in \<open>auto simp: sys_object_copy_def Let_def split: if_splits\<close>)

section \<open>Reading and writing\<close>

text \<open>Pipes keep their counts; the caller gives up the processor in the loops only.\<close>

lemma oview_upd_kpipe: "(\<And>x. pipe.refcount (f x) = pipe.refcount x) \<Longrightarrow> oview (upd_kpipe p f s) = oview s"
  by (auto simp: upd_kpipe_def upd_k_def oview_def)

lemma pipe_ops_refcount [simp]:
  "pipe.refcount (pipe_put b x) = pipe.refcount x" "pipe.refcount (snd (pipe_get x)) = pipe.refcount x"
  by (simp_all add: pipe_put_def pipe_get_def)

lemma write_loop_refcount: "pipe_write_nonblock_loop bs n x = (r, y) \<Longrightarrow> pipe.refcount y = pipe.refcount x"
  by (induction bs n x rule: pipe_write_nonblock_loop.induct) (auto split: if_splits)

lemma read_loop_refcount: "pipe_read_nonblock_loop n out x = (r, y) \<Longrightarrow> pipe.refcount y = pipe.refcount x"
  by (induction n out x rule: pipe_read_nonblock_loop.induct) (auto simp: pipe_get_def split: if_splits)

lemma stays_wait_room: "pipe_wait_room E p s = Some r \<Longrightarrow> good_resume E \<Longrightarrow> stays_typed s (snd r)"
proof (induction rule: pipe_wait_room.raw_induct [rotated, consumes 1, case_names step])
  case (step wait E p s r)
  from step(2,3) show ?case
    by (auto simp: Let_def bind_eq_Some_conv stays_view oview_upd_kpipe split: if_splits
        intro: stays_trans [OF stays_resume step(1)])
qed

lemma stays_wait_data: "pipe_wait_data E p s = Some r \<Longrightarrow> good_resume E \<Longrightarrow> stays_typed s (snd r)"
proof (induction rule: pipe_wait_data.raw_induct [rotated, consumes 1, case_names step])
  case (step wait E p s r)
  from step(2,3) show ?case
    by (auto simp: Let_def bind_eq_Some_conv stays_view oview_upd_kpipe split: if_splits
        intro: stays_trans [OF stays_resume step(1)])
qed

lemma stays_write_blocking: "pipe_write_blocking E p bs n s = Some (r, s') \<Longrightarrow> good_resume E \<Longrightarrow> stays_typed s s'"
proof (induction E p bs n s rule: pipe_write_blocking.induct)
  case (1 E p n s)
  then show ?case by (auto simp: bind_eq_Some_conv intro!: stays_view simp: oview_upd_kpipe dest: oview_wakeup_all)
next
  case (2 E p b bs n s)
  then obtain room s1 where w: "pipe_wait_room E p s = Some (room, s1)" by (auto simp: bind_eq_Some_conv)
  note k = stays_wait_room [OF w 2(3), simplified]
  show ?case
  proof (cases room)
    case True
    then have "pipe_write_blocking E p bs (n + 1) (upd_kpipe p (pipe_put b) s1) = Some (r, s')" using 2(2) w by simp
    from 2(1) [OF w HOL.refl True this 2(3)] have "stays_typed (upd_kpipe p (pipe_put b) s1) s'" .
    moreover have "oview (upd_kpipe p (pipe_put b) s1) = oview s1" by (rule oview_upd_kpipe) simp
    ultimately show ?thesis using stays_trans [OF k stays_view_trans] by blast
  qed (use 2(2) w k in simp)
qed

lemma stays_read_blocking: "pipe_read_blocking E p n out s = Some (r, s') \<Longrightarrow> good_resume E \<Longrightarrow> stays_typed s s'"
proof (induction n arbitrary: out s)
  case 0
  then show ?case by (auto simp: bind_eq_Some_conv intro!: stays_view simp: oview_upd_kpipe dest: oview_wakeup_all)
next
  case (Suc n)
  then obtain data s1 where w: "pipe_wait_data E p s = Some (data, s1)" by (auto simp: bind_eq_Some_conv)
  note k = stays_wait_data [OF w Suc(3), simplified]
  show ?case
  proof (cases data)
    case True
    define x where "x = kpipe (kobjs s1) p"
    have "pipe_read_blocking E p n (out @ [fst (pipe_get x)]) (upd_kpipe p (\<lambda>_. snd (pipe_get x)) s1) = Some (r, s')"
      using Suc(2) w True by (simp add: x_def case_prod_beta)
    from Suc(1) [OF this Suc(3)] have "stays_typed (upd_kpipe p (\<lambda>_. snd (pipe_get x)) s1) s'" .
    moreover have "oview (upd_kpipe p (\<lambda>_. snd (pipe_get x)) s1) = oview s1"
      by (auto simp: upd_kpipe_def upd_k_def oview_def x_def fun_eq_iff)
    ultimately show ?thesis using stays_trans [OF k stays_view_trans] by blast
  qed (use Suc(2) w k in simp)
qed

lemma stays_pipe_write:
  assumes r: "pipe_write_internal E p a sz blocking s = Some (r, s')" and G: "good_resume E"
  shows "stays_typed s s'"
proof (cases "p = 0 \<or> a = 0")
  case False
  then obtain data where d: "(if blocking then pipe_write_blocking E p data 0 s
      else let (n, x) = pipe_write_nonblock (kpipe (kobjs s) p) data in Some (n, upd_kpipe p (\<lambda>_. x) s)) = Some (r, s')"
    using r unfolding pipe_write_internal_def by (cases "get_user a (nat sz) s") auto
  show ?thesis
  proof (cases blocking)
    case False
    obtain n x where x: "pipe_write_nonblock_loop data 0 (kpipe (kobjs s) p) = (n, x)" by (metis prod.exhaust)
    then have "s' = upd_kpipe p (\<lambda>_. x\<lparr>flushed := False\<rparr>) s" using d False by (simp add: pipe_write_nonblock_def)
    then show ?thesis using write_loop_refcount [OF x]
      by (auto intro!: stays_view simp: upd_kpipe_def upd_k_def oview_def fun_eq_iff)
  qed (use d stays_write_blocking G in simp)
qed (use r in \<open>auto simp: pipe_write_internal_def\<close>)

lemma stays_pipe_read:
  assumes r: "pipe_read_internal E p a sz blocking s = Some (r, s')" and G: "good_resume E"
  shows "stays_typed s s'"
proof (cases "p = 0 \<or> a = 0")
  case False
  obtain out s1 where o: "(if blocking then pipe_read_blocking E p (nat sz) [] s
      else let (out, x) = pipe_read_nonblock (kpipe (kobjs s) p) (nat sz) in Some (out, upd_kpipe p (\<lambda>_. x) s)) = Some (out, s1)"
    and put: "put_user a out s1 = Some s'"
    using r False unfolding pipe_read_internal_def by (auto simp: bind_eq_Some_conv)
  have "stays_typed s s1"
  proof (cases blocking)
    case False
    obtain ys x where x: "pipe_read_nonblock_loop (nat sz) [] (kpipe (kobjs s) p) = (ys, x)" by (metis prod.exhaust)
    then have "s1 = upd_kpipe p (\<lambda>_. x\<lparr>flushed := False\<rparr>) s" using o False by (simp add: pipe_read_nonblock_def)
    then show ?thesis using read_loop_refcount [OF x]
      by (auto intro!: stays_view simp: upd_kpipe_def upd_k_def oview_def fun_eq_iff)
  qed (use o stays_read_blocking G in simp)
  then show ?thesis using stays_trans stays_view oview_put_user [OF put] by blast
qed (use r in \<open>auto simp: pipe_read_internal_def\<close>)

text \<open>Windows and consoles.\<close>

lemma stays_events_loop:
  "read_events_loop resume blocking q sz out s = Some r \<Longrightarrow>
    (\<And>q s s1 s2. blocking \<Longrightarrow> process_wait q s = Some s1 \<Longrightarrow> resume s1 = Some s2 \<Longrightarrow> stays_typed s s2) \<Longrightarrow> stays_typed s (snd r)"
proof (induction rule: read_events_loop.raw_induct [rotated, consumes 1, case_names step])
  case (step loop resume blocking q sz out s r)
  have rec: "loop resume blocking q sz' out' t = Some r \<Longrightarrow> stays_typed t (snd r)" for sz' out' t
    by (rule step(1) [OF _ step(3)])
  from step(2) show ?case
    by (auto simp: Let_def bind_eq_Some_conv split: if_splits
        intro: stays_trans [OF step(3) rec] stays_view_trans [OF oview_gui(5) rec])
qed

lemma stays_queue_read:
  assumes "event_queue_read_raw resume blocking q sz s = Some (r, es, s')"
    "\<And>q s s1 s2. blocking \<Longrightarrow> process_wait q s = Some s1 \<Longrightarrow> resume s1 = Some s2 \<Longrightarrow> stays_typed s s2"
  shows "stays_typed s s'"
proof (cases "sz < SIZEOF_EVENT")
  case False
  then obtain out where "read_events_loop resume blocking q sz [] s = Some (out, s')"
    using assms(1) by (auto simp: event_queue_read_raw_def)
  from stays_events_loop [OF this assms(2)] show ?thesis by simp
qed (use assms(1) in \<open>simp add: event_queue_read_raw_def\<close>)

lemma stays_window_read: "window_read_events (e_resume E) w sz s = Some (r, es, s') \<Longrightarrow> good_resume E \<Longrightarrow> stays_typed s s'"
  unfolding window_read_events_def event_queue_read_def by (erule stays_queue_read) (rule stays_resume)

lemma stays_window_read_nonblock: "window_read_events_nonblock w sz s = Some (r, es, s') \<Longrightarrow> stays_typed s s'"
  unfolding window_read_events_nonblock_def event_queue_read_nonblock_def by (erule stays_queue_read) simp

lemma stays_console_loop:
  "console_read_loop rd n out s = Some r \<Longrightarrow> (\<And>s r es s'. rd s = Some (r, es, s') \<Longrightarrow> stays_typed s s') \<Longrightarrow> stays_typed s (snd r)"
proof (induction rule: console_read_loop.raw_induct [rotated, consumes 1, case_names step])
  case (step loop rd n out s r)
  have rec: "loop rd n' out' t = Some r \<Longrightarrow> stays_typed t (snd r)" for n' out' t
    by (rule step(1) [OF _ step(3)])
  from step(2) show ?case
    by (auto simp: bind_eq_Some_conv split: if_splits intro: stays_trans [OF step(3) rec] step(3))
qed

lemma stays_console_read: "console_read (e_resume E) c n s = Some (out, s') \<Longrightarrow> good_resume E \<Longrightarrow> stays_typed s s'"
  unfolding console_read_def by (drule stays_console_loop) (auto intro: stays_window_read)

lemma stays_console_read_nonblock: "console_read_nonblock c n s = Some (out, s') \<Longrightarrow> stays_typed s s'"
  unfolding console_read_nonblock_def by (drule stays_console_loop) (auto intro: stays_window_read_nonblock)

lemma stays_read_data:
  assumes r: "read_data E x a sz flags s = Some (r, s')" and G: "good_resume E"
  shows "stays_typed s s'"
proof (cases "ktype x")
  case KOBJECT_FILE
  then show ?thesis using r unfolding read_data_def
    by (auto simp: Let_def bind_eq_Some_conv intro!: stays_view dest!: oview_on_vfs oview_put_user)
next
  case KOBJECT_DEVICE
  let ?n = "flags AND KERNEL_IO_NONBLOCK \<noteq> 0" and ?b = "device_block_size (kdata x) (world (vcache (kvfs (kobjs s))))"
  let ?f = "\<lambda>w. let (r, out, w) = (if ?n then device_read_nonblock else device_read) (kdata x) (c_div sz ?b) 0 w in ((r, out), w)"
  obtain r1 out s1 where d: "on_devices ?f s = ((r1, out), s1)" by (metis prod.exhaust)
  have "(if ?b = 0 then None else do { let ((r, out), s) = on_devices ?f s; s \<leftarrow> put_user a out s; Some (r, s) }) = Some (r, s')"
    using r KOBJECT_DEVICE by (simp add: read_data_def Let_def split: if_splits)
  then have "put_user a out s1 = Some s'" unfolding d by (auto simp: bind_eq_Some_conv split: if_splits)
  from oview_put_user [OF this] oview_on_devices [OF d] show ?thesis by (simp add: stays_view)
next
  case KOBJECT_PIPE
  then show ?thesis using r stays_pipe_read G by (auto simp: read_data_def)
next
  case KOBJECT_WINDOW
  let ?rd = "if flags AND KERNEL_IO_NONBLOCK \<noteq> 0 then window_read_events_nonblock (kdata x) (word_of_int sz) s
            else window_read_events (e_resume E) (kdata x) (word_of_int sz) s"
  have "?rd \<bind> (\<lambda>(r, es, s). do { s \<leftarrow> put_user a (concat (map event_bytes es)) s; Some (r, s) }) = Some (r, s')"
    using r KOBJECT_WINDOW by (simp add: read_data_def Let_def split: if_splits)
  then obtain r1 es s1 where w: "?rd = Some (r1, es, s1)" and p: "put_user a (concat (map event_bytes es)) s1 = Some s'"
    by (cases ?rd) (auto simp: bind_eq_Some_conv)
  have "stays_typed s s1" using w stays_window_read [OF _ G] stays_window_read_nonblock by (auto split: if_splits)
  then show ?thesis using stays_trans stays_view oview_put_user [OF p] by blast
next
  case KOBJECT_CONSOLE
  let ?rd = "if flags AND KERNEL_IO_NONBLOCK \<noteq> 0 then console_read_nonblock (kdata x) sz s else console_read (e_resume E) (kdata x) sz s"
  have "?rd \<bind> (\<lambda>(out, s). do { s \<leftarrow> put_user a out s; Some (int (length out), s) }) = Some (r, s')"
    using r KOBJECT_CONSOLE by (simp add: read_data_def Let_def split: if_splits)
  then obtain out s1 where w: "?rd = Some (out, s1)" and p: "put_user a out s1 = Some s'"
    by (cases ?rd) (auto simp: bind_eq_Some_conv)
  have "stays_typed s s1" using w stays_console_read [OF _ G] stays_console_read_nonblock by (auto split: if_splits)
  then show ?thesis using stays_trans stays_view oview_put_user [OF p] by blast
qed (use r in \<open>simp add: read_data_def\<close>)

lemma oview_upd_kobject: "(\<And>x. kview (f x) = kview x) \<Longrightarrow> oview (upd_kobject k f s) = oview s"
  by (auto simp: upd_kobject_def upd_k_def oview_def fun_eq_iff)

lemma stays_kobject_read:
  assumes r: "kobject_read E k a sz flags s = Some (r, s')" and G: "good_resume E"
  shows "stays_typed s s'"
proof -
  obtain s1 where d: "read_data E (kobject (kobjs s) k) a sz flags s = Some (r, s1)"
    and s': "s' = (if r > 0 then upd_kobject k (\<lambda>x. x\<lparr>koffset := i32 (koffset x + r)\<rparr>) s1 else s1)"
    using r unfolding kobject_read_def by (auto simp: bind_eq_Some_conv)
  have "oview s' = oview s1" unfolding s' by (simp add: oview_upd_kobject kview_def)
  then show ?thesis using stays_trans [OF stays_read_data [OF d G] stays_view] by blast
qed

lemma stays_kobject_write:
  assumes r: "kobject_write E k a sz flags s = Some (r, s')" and G: "good_resume E"
  shows "stays_typed s s'"
proof (cases "ktype (kobject (kobjs s) k)")
  case KOBJECT_FILE
  then obtain data s1 where w: "on_vfs (fs_dirent_write (e_ops E) (e_temp E) (kdata (kobject (kobjs s) k)) data (word_of_int sz)
        (word_of_int (koffset (kobject (kobjs s) k)))) s = Some (r, s1)"
    and s': "s' = (if r > 0 then upd_kobject k (\<lambda>x. x\<lparr>koffset := i32 (koffset x + r)\<rparr>) s1 else s1)"
    using r unfolding kobject_write_def by (auto simp: Let_def bind_eq_Some_conv)
  have "oview s' = oview s1" unfolding s' by (simp add: oview_upd_kobject kview_def)
  then show ?thesis using oview_on_vfs [OF w] by (simp add: stays_view)
next
  case KOBJECT_DEVICE
  then obtain data n where "on_devices (device_write (kdata (kobject (kobjs s) k)) data n 0) s = (r, s')"
    using r unfolding kobject_write_def by (auto simp: Let_def bind_eq_Some_conv split: if_splits)
  from oview_on_devices [OF this] show ?thesis by (rule stays_view)
next
  case KOBJECT_WINDOW
  then show ?thesis using r unfolding kobject_write_def
    by (auto simp: Let_def bind_eq_Some_conv intro!: stays_view split: if_splits dest: oview_window_post oview_write_graphics)
next
  case KOBJECT_CONSOLE
  then show ?thesis using r unfolding kobject_write_def
    by (auto simp: Let_def bind_eq_Some_conv intro!: stays_view split: if_splits dest: oview_console_post oview_console_write)
qed (use r stays_pipe_write G in \<open>auto simp: kobject_write_def\<close>)

lemma stays_kobject_list: "kobject_list E k a sz s = Some (r, s') \<Longrightarrow> stays_typed s s'"
  by (auto simp: kobject_list_def bind_eq_Some_conv intro!: stays_view split: if_splits dest!: oview_on_vfs oview_put_user)

lemma stays_kobject_remove: "kobject_remove E k name s = Some (r, s') \<Longrightarrow> stays_typed s s'"
  by (auto simp: kobject_remove_def intro!: stays_view split: if_splits dest!: oview_on_vfs)

lemma stays_set_tag: "kobject_set_tag k tag s = Some (r, s') \<Longrightarrow> stays_typed s s'"
  by (auto simp: kobject_set_tag_def bind_eq_Some_conv oview_upd_kobject kview_def intro!: stays_view)

lemma stays_get_tag: "kobject_get_tag k a s = Some (r, s') \<Longrightarrow> stays_typed s s'"
  by (auto simp: kobject_get_tag_def bind_eq_Some_conv intro!: stays_view split: option.splits dest!: oview_put_user)

section \<open>The calls\<close>

definition object_calls :: "syscall_t set" where
  "object_calls = {SYSCALL_OPEN_FILE, SYSCALL_OPEN_DIR, SYSCALL_OPEN_WINDOW, SYSCALL_OPEN_CONSOLE, SYSCALL_OPEN_PIPE,
     SYSCALL_OBJECT_TYPE, SYSCALL_OBJECT_COPY, SYSCALL_OBJECT_READ, SYSCALL_OBJECT_LIST, SYSCALL_OBJECT_WRITE,
     SYSCALL_OBJECT_SEEK, SYSCALL_OBJECT_SIZE, SYSCALL_OBJECT_REMOVE, SYSCALL_OBJECT_CLOSE, SYSCALL_OBJECT_STATS,
     SYSCALL_OBJECT_SET_TAG, SYSCALL_OBJECT_GET_TAG, SYSCALL_OBJECT_MAX}"

lemmas sys_object_defs = sys_object_read_def sys_object_write_def sys_object_list_def sys_object_remove_def
  sys_object_set_tag_def sys_object_get_tag_def sys_object_size_def

lemma stays_object_ops:
  "sys_object_read E fd a n flags s = Some (r, s') \<Longrightarrow> good_resume E \<Longrightarrow> stays_typed s s'"
  "sys_object_write E fd a n flags s = Some (r, s') \<Longrightarrow> good_resume E \<Longrightarrow> stays_typed s s'"
  "sys_object_list E fd a n s = Some (r, s') \<Longrightarrow> stays_typed s s'"
  "sys_object_remove E fd a s = Some (r, s') \<Longrightarrow> stays_typed s s'"
  "sys_object_set_tag fd a s = Some (r, s') \<Longrightarrow> stays_typed s s'"
  "sys_object_get_tag fd a s = Some (r, s') \<Longrightarrow> stays_typed s s'"
  "sys_object_size fd a n s = Some (r, s') \<Longrightarrow> stays_typed s s'"
  by (auto simp: sys_object_defs bind_eq_Some_conv Let_def split: if_splits prod.splits
      dest: stays_kobject_read stays_kobject_write stays_kobject_list stays_kobject_remove stays_set_tag stays_get_tag oview_put_user
      intro: stays_view)

lemma stays_run_syscall:
  assumes E: "fresh_alloc E" "good_resume E" and c: "call \<in> object_calls" and r: "run_syscall E call a b c d e s = Some (r, s')"
  shows "stays_typed s s'"
proof -
  have ret: "returns m = Some (r, s') \<Longrightarrow> \<exists>v. m = Some (v, s')" for m :: "(int \<times> ('a, 'b, 'c) ksys) option"
    by (auto simp: returns_def)
  show ?thesis
    using c r E unfolding object_calls_def
    by (elim insertE emptyE) (auto dest!: ret simp: stays_open_file stays_open_dir stays_open_window stays_open_console stays_open_pipe
        stays_copy stays_close stays_object_ops)
qed

lemma stays_count_syscall: "stays_typed s (count_syscall n s)"
  by (rule stays_view) (simp add: count_syscall_def oview_upd_proc)

text \<open>Claim C22.  The system calls on objects keep the objects of the processes typed: every number in the table of a process
  has an object of its own with one reference, no object and no pipe is freed while an entry leads to it, no block is
  an object and a pipe at once, and every pipe counts exactly the entries that lead to it.  The call returns to
  the same process.\<close>

theorem object_calls_keep_typing:
  assumes "fresh_alloc E" "good_resume E" "unat n < length syscalls" "syscalls ! unat n \<in> object_calls"
    and "well_typed \<Gamma> (oview s)" "syscall_handler E n a b c d e s = Some (r, s')"
  shows "\<exists>\<Gamma>'. well_typed \<Gamma>' (oview s') \<and> current s' = current s"
proof -
  have "run_syscall E (syscalls ! unat n) a b c d e (count_syscall n s) = Some (r, s')"
    using assms(3,6) by (simp add: syscall_handler_def)
  from stays_trans [OF stays_count_syscall stays_run_syscall [OF assms(1,2,4) this]] show ?thesis
    using assms(5) by (auto simp: stays_typed_def typed_def)
qed

text \<open>Process 10 holds a pipe at 50 through the object at 40; the allocator gives the block 60 once.\<close>

definition sample_objects :: "(unit, unit, unit) ksys" where
  "sample_objects = with_objects (upd_proc 10 (\<lambda>x. x\<lparr>ktable := (replicate PROCESS_MAX_OBJECTS 0)[0 := 40]\<rparr>) sample_kernel)
     \<lparr>equeue = equeue (kobjs sample_console), gobjects = gobjects (kobjs sample_console), windows = windows (kobjs sample_console),
      screen = screen (kobjs sample_console), gui_freed = {}, consoles = consoles (kobjs sample_console),
      kobject = (\<lambda>_. \<lparr>kdata = 50, ktype = KOBJECT_PIPE, k_refcount = 1, koffset = 0, ktag = None\<rparr>), kfreed = {},
      kpipe = (\<lambda>p. \<lparr>buffer = 0x5000, bytes = replicate 4096 0, read_pos = 0, write_pos = 0, flushed = False,
        refcount = (if p = 50 then 1 else 0)\<rparr>),
      kvfs = \<lparr>volumes = (\<lambda>_. \<lparr>v_fs = 0, v_device = 0, v_block_size = 4096, v_refcount = 1, vpriv = ()\<rparr>),
        dirents = (\<lambda>_. \<lparr>d_volume = 0, d_size = 0, d_inumber = 0, d_refcount = 1, d_isdir = False, dpriv = ()\<rparr>),
        fs_list = [], fs_name = (\<lambda>_. [0]), vfreed = {},
        vcache = \<lparr>lheap = lheap sample_cache, entries = entries sample_cache, bstats = bstats sample_cache, max_cache_size = 1,
          kalloc = (\<lambda>_. (0, False)), palloc = (\<lambda>_. False), kused = {}, world = \<lparr>driver_list = [], drivers = (\<lambda>_. \<lparr>drv_name = [0],
            drv_probe = (\<lambda>_ h. (None, h)), drv_read = None, drv_read_nonblock = None, drv_write = None, drv_multiplier = 1,
            blocks_read = 0, blocks_written = 0\<rparr>), devices = (\<lambda>_. \<lparr>driver = 0, refcount = 1, unit_no = 0, block_size = 1,
            nblocks = 0, multiplier = 1\<rparr>), hw = ()\<rparr>\<rparr>\<rparr>,
      kclock = \<lparr>clicks = 0, clock_seconds = 0\<rparr>, cached_time = \<lparr>second = 0, minute = 0, hour = 0, day = 1, month = 1, year = 2020\<rparr>,
      boottime = 0, ata_counters = (\<lambda>_. (0, 0))\<rparr>"

definition sample_env :: "(unit, unit, unit) kenv" where
  "sample_env = \<lparr>e_ops = (\<lambda>_. sample_ops), e_temp = [], e_alloc = (\<lambda>s. if 60 \<in> in_use_blocks (oview s) then 0 else 60),
     e_window = (\<lambda>_. (0, 0, 0)), e_resume = (\<lambda>_. None)\<rparr>"

declare ov_sel [simp del]

lemma sample_view:
  "ov_current (oview sample_objects) = 10" "ov_procs (oview sample_objects) = {10, 20, 30, 40}"
  "ov_table (oview sample_objects) p = (if p = 10 then (replicate PROCESS_MAX_OBJECTS 0)[0 := 40] else replicate PROCESS_MAX_OBJECTS 0)"
  "ov_object (oview sample_objects) k = (KOBJECT_PIPE, 50, 1)" "ov_freed (oview sample_objects) = {}"
  "ov_pipes (oview sample_objects) d = (if d = 50 then 1 else 0)"
proof -
  have "(\<lambda>i. if i \<in> {1, 2, 3, 4} then 10 * i else 0) ` UNIV - {0} = {10, 20, 30, 40 :: nat}"
    by (auto simp: image_iff)
  then show "ov_procs (oview sample_objects) = {10, 20, 30, 40}"
    by (simp add: oview_def sample_objects_def with_objects_def upd_proc_def sample_kernel_def)
qed (simp_all add: oview_def sample_objects_def with_objects_def upd_proc_def sample_kernel_def kview_def zero_process_def)

lemma sample_slots:
  "slots (oview sample_objects) = {(10, 0)}" "held (oview sample_objects) (10, 0) = 40"
  "pipe_slots (oview sample_objects) d = (if d = 50 then {(10, 0)} else {})" "in_use_blocks (oview sample_objects) = {40, 50}"
proof -
  show s: "slots (oview sample_objects) = {(10, 0)}"
    by (auto simp: slots_def sample_view PROCESS_MAX_OBJECTS_def nth_list_update split: if_splits)
  show h: "held (oview sample_objects) (10, 0) = 40" by (simp add: held_def sample_view PROCESS_MAX_OBJECTS_def)
  show "pipe_slots (oview sample_objects) d = (if d = 50 then {(10, 0)} else {})" by (auto simp: pipe_slots_def s sample_view)
  show "in_use_blocks (oview sample_objects) = {40, 50}" by (auto simp: in_use_blocks_def s h sample_view)
qed

lemma sample_typed: "well_typed [40 \<mapsto> Object_block, 50 \<mapsto> Pipe_block] (oview sample_objects)"
  by (simp add: well_typed_def slot_typed_def sample_slots sample_view)

lemma sample_env_ok: "fresh_alloc sample_env" "good_resume sample_env"
  by (simp_all add: fresh_alloc_def good_resume_def sample_env_def)

lemma sample_copy:
  "\<exists>s'. syscall_handler sample_env 21 0 (- 1) 0 0 0 sample_objects = Some (Some 0, s')"
proof -
  define s where "s = count_syscall 21 sample_objects"
  have v: "oview s = oview sample_objects" unfolding s_def by (simp add: count_syscall_def oview_upd_proc)
  have "ov_table (oview s) (ov_current (oview s)) = (replicate PROCESS_MAX_OBJECTS 0)[0 := 40]"
    unfolding v by (simp add: sample_view)
  then have t: "ktable (procs s (current s)) = (replicate PROCESS_MAX_OBJECTS 0)[0 := 40]" by (simp add: ov_sel)
  have fd: "process_available_fd s = 1"
    unfolding process_available_fd_def t by (simp add: PROCESS_MAX_OBJECTS_def upt_rec)
  have tag: "ktag (kobject (kobjs s) k) = None" for k
    by (simp add: s_def count_syscall_def upd_proc_def sample_objects_def with_objects_def)
  have a: "e_alloc sample_env s = 60" by (simp add: sample_env_def v sample_slots)
  have valid: "is_valid_object 0 s" "\<not> is_valid_object 1 s" "fd_object 0 s = 40"
    by (simp_all add: is_valid_object_def fd_object_def t PROCESS_MAX_OBJECTS_def)
  have "\<exists>s'. sys_object_copy sample_env 0 (- 1) s = Some (0, s')"
    using valid by (auto simp: sys_object_copy_def sys_object_close_def fd PROCESS_MAX_OBJECTS_def kobject_copy_def kobject_create_def a
        Let_def set_object_def copy_tag_def tag upd_kobject_def upd_k_def)
  then show ?thesis by (auto simp: syscall_handler_def s_def [symmetric] syscalls_def returns_def)
qed

theorem object_calls_keep_typing_witness:
  "\<exists>s' \<Gamma>'. syscall_handler sample_env 21 0 (- 1) 0 0 0 sample_objects = Some (Some 0, s') \<and> well_typed \<Gamma>' (oview s') \<and> current s' = 10"
proof -
  obtain s' where s': "syscall_handler sample_env 21 0 (- 1) 0 0 0 sample_objects = Some (Some 0, s')" using sample_copy by blast
  have c: "unat (21 :: u32) < length syscalls" "syscalls ! unat (21 :: u32) \<in> object_calls"
    by (simp_all add: syscalls_def object_calls_def)
  have "current sample_objects = 10" using sample_view(1) by (simp add: ov_sel)
  with object_calls_keep_typing [OF sample_env_ok c sample_typed s'] s' show ?thesis by auto
qed

end
