(* ===== verification/Object_Props.thy ===== *)
theory Object_Props
  imports Object_Calls
begin

text \<open>
  What the system calls on objects do: the bytes written through one number of a pipe come out of another, the
  edges of \<^verbatim>\<open>sys_object_copy\<close>, and what a failed start of a program leaves behind.
\<close>

section \<open>Blocking transfers that find room and data\<close>

lemma upd_kpipe_twice [simp]: "upd_kpipe p f (upd_kpipe p g s) = upd_kpipe p (f \<circ> g) s"
  by (simp add: upd_kpipe_def upd_k_def)

lemma upd_kpipe_sel [simp]:
  "kpipe (kobjs (upd_kpipe p f s)) p = f (kpipe (kobjs s) p)" "lh (upd_kpipe p f s) = lh s" "mem (upd_kpipe p f s) = mem s"
  "cr3 (upd_kpipe p f s) = cr3 s" "current (upd_kpipe p f s) = current s" "procs (upd_kpipe p f s) = procs s"
  "kobject (kobjs (upd_kpipe p f s)) = kobject (kobjs s)"
  by (simp_all add: upd_kpipe_def upd_k_def)

lemma room_not_full:
  assumes "pipe_wf x" "length (pipe_contents x) < 4095"
  shows "c_mod (write_pos x + 1) PIPE_SIZE \<noteq> read_pos x"
proof
  assume "c_mod (write_pos x + 1) PIPE_SIZE = read_pos x"
  then have r: "read_pos x = (write_pos x + 1) mod 4096" using assms(1) by (simp add: pipe_wf_def)
  have "(write_pos x - read_pos x) mod 4096 = 4095" unfolding r by (simp add: mod_simps)
  then show False using assms(2) by (simp add: pipe_contents_def pipe_count_def)
qed

lemma data_not_empty: "pipe_contents x \<noteq> [] \<Longrightarrow> write_pos x \<noteq> read_pos x"
  by (auto simp: pipe_contents_def pipe_count_def)

lemma wakeup_none:
  assumes "q \<noteq> 0" "head (lists (lh s) q) = 0"
  shows "process_wakeup_all q s = Some s"
  using assms by (simp add: process_wakeup_all.simps [of q] pop_list_def list_pop_head_def get_list_def)

text \<open>The pipe after the bytes \<open>bs\<close> were put, and after \<open>n\<close> bytes were taken.\<close>

definition put_all :: "u8 list \<Rightarrow> pipe \<Rightarrow> pipe" where "put_all bs x = fold pipe_put bs x"
definition get_all :: "nat \<Rightarrow> pipe \<Rightarrow> pipe" where "get_all n = (snd \<circ> pipe_get) ^^ n"

lemma write_with_room:
  assumes "p \<noteq> 0" "head (lists (lh s) p) = 0" "pipe_wf (kpipe (kobjs s) p)"
    "length (pipe_contents (kpipe (kobjs s) p)) + length bs \<le> 4095"
  shows "pipe_write_blocking E p bs n s = Some (n + int (length bs), upd_kpipe p (\<lambda>x. (put_all bs x)\<lparr>flushed := False\<rparr>) s) \<and>
    pipe_wf (put_all bs (kpipe (kobjs s) p)) \<and>
    pipe_contents (put_all bs (kpipe (kobjs s) p)) = pipe_contents (kpipe (kobjs s) p) @ bs"
  using assms(2-4)
proof (induction bs arbitrary: n s)
  case Nil
  then show ?case by (simp add: put_all_def wakeup_none [OF assms(1)])
next
  case (Cons b bs)
  let ?x = "kpipe (kobjs s) p"
  have room: "c_mod (write_pos ?x + 1) PIPE_SIZE \<noteq> read_pos ?x" using room_not_full [of ?x] Cons.prems by simp
  note put = pipe_put_contents [OF Cons.prems(2) room]
  have w: "pipe_wait_room E p s = Some (True, s)"
    using room by (simp add: pipe_wait_room.simps [of E p s] Let_def del: PIPE_SIZE_val)
  show ?case using Cons.IH [of "upd_kpipe p (pipe_put b) s" "n + 1"] Cons.prems put w
    by (simp add: put_all_def comp_def)
qed

lemma read_with_data:
  assumes "p \<noteq> 0" "head (lists (lh s) p) = 0" "pipe_wf (kpipe (kobjs s) p)" "n \<le> length (pipe_contents (kpipe (kobjs s) p))"
  shows "pipe_read_blocking E p n out s = Some (out @ take n (pipe_contents (kpipe (kobjs s) p)),
      upd_kpipe p (\<lambda>x. (get_all n x)\<lparr>flushed := False\<rparr>) s) \<and>
    pipe_contents (get_all n (kpipe (kobjs s) p)) = drop n (pipe_contents (kpipe (kobjs s) p))"
  using assms(2-4)
proof (induction n arbitrary: out s)
  case 0
  then show ?case by (simp add: get_all_def wakeup_none [OF assms(1)])
next
  case (Suc n)
  let ?x = "kpipe (kobjs s) p"
  have data: "write_pos ?x \<noteq> read_pos ?x" by (rule data_not_empty) (use Suc.prems in auto)
  note get = pipe_get_contents [OF Suc.prems(2) data]
  have w: "pipe_wait_data E p s = Some (True, s)" using data by (simp add: pipe_wait_data.simps [of E p s] Let_def)
  have u: "upd_kpipe p (\<lambda>_. snd (pipe_get ?x)) s = upd_kpipe p (snd \<circ> pipe_get) s" by (simp add: upd_kpipe_def upd_k_def)
  show ?case using Suc.IH [of "upd_kpipe p (snd \<circ> pipe_get) s" "out @ [fst (pipe_get ?x)]"] Suc.prems get w
    by (simp add: u case_prod_beta get_all_def funpow_Suc_right comp_def del: funpow.simps)
qed


section \<open>Through a pipe\<close>

lemma valid_upd_kpipe [simp]:
  "is_valid_object fd (upd_kpipe p f s) = is_valid_object fd s" "fd_object fd (upd_kpipe p f s) = fd_object fd s"
  by (simp_all add: is_valid_object_def fd_object_def)

text \<open>Claim C23.  Bytes written through one number of a pipe are read, in order and after those already in the pipe, through
  any number of the same pipe: with room in the pipe and no process waiting, writing returns the number of bytes, and
  reading up to what is there returns it and puts just these bytes into the memory of the program.\<close>

theorem pipe_write_then_read:
  fixes s :: "('v, 'p, 'hw) ksys"
  assumes "is_valid_object w s" "is_valid_object r s" "d \<noteq> 0"
    and "ktype (kobject (kobjs s) (fd_object w s)) = KOBJECT_PIPE" "kdata (kobject (kobjs s) (fd_object w s)) = d"
    and "ktype (kobject (kobjs s) (fd_object r s)) = KOBJECT_PIPE" "kdata (kobject (kobjs s) (fd_object r s)) = d"
    and "head (lists (lh s) d) = 0" "pipe_wf (kpipe (kobjs s) d)"
    and "a \<noteq> 0" "get_user a (length data) s = Some data" "length (pipe_contents (kpipe (kobjs s) d)) + length data \<le> 4095"
    and "b \<noteq> 0" "n \<le> length (pipe_contents (kpipe (kobjs s) d)) + length data"
    and "pt_inv (cr3 s) (mem s)" "span_of b n \<subseteq> owned_addrs (cr3 s) (mem s)"
  shows "\<exists>s1 s2. sys_object_write E w a (int (length data)) 0 s = Some (int (length data), s1) \<and>
    sys_object_read E r b (int n) 0 s1 = Some (int n, s2) \<and>
    get_user b n s2 = Some (take n (pipe_contents (kpipe (kobjs s) d) @ data)) \<and>
    pipe_contents (kpipe (kobjs s2) d) = drop n (pipe_contents (kpipe (kobjs s) d) @ data)"
proof -
  let ?c = "pipe_contents (kpipe (kobjs s) d) @ data"
  define s1 where "s1 = upd_kpipe d (\<lambda>x. (put_all data x)\<lparr>flushed := False\<rparr>) s"
  have wr: "pipe_write_blocking E d data 0 s = Some (int (length data), s1)" "pipe_wf (kpipe (kobjs s1) d)"
    "pipe_contents (kpipe (kobjs s1) d) = ?c"
    using write_with_room [OF assms(3,8,9,12), of E 0] by (simp_all add: s1_def)
  have f1: "sys_object_write E w a (int (length data)) 0 s = Some (int (length data), s1)"
    using assms(1,3,4,5,10,11) wr(1)
    by (simp add: sys_object_write_def is_valid_pointer_def kobject_write_def pipe_write_internal_def)
  have h1: "head (lists (lh s1) d) = 0" "n \<le> length (pipe_contents (kpipe (kobjs s1) d))"
    using assms(8,14) wr(3) by (simp_all add: s1_def)
  define s2 where "s2 = upd_kpipe d (\<lambda>x. (get_all n x)\<lparr>flushed := False\<rparr>) s1"
  have rd: "pipe_read_blocking E d n [] s1 = Some (take n ?c, s2)" "pipe_contents (kpipe (kobjs s2) d) = drop n ?c"
    using read_with_data [OF assms(3) h1(1) wr(2) h1(2), of E "[]"] wr(3) by (simp_all add: s2_def)
  have len: "length (take n ?c) = n" using assms(14) by simp
  have m: "mem s2 = mem s" "cr3 s2 = cr3 s" by (simp_all add: s2_def s1_def)
  obtain m' where m': "store_bytes (cr3 s) b (take n ?c) (mem s) = Some m'" "load_bytes (cr3 s) b n m' = Some (take n ?c)"
    using store_bytes_ok [OF assms(15), of b "take n ?c"] assms(12,14,16) unfolding len by auto
  have k: "kobject (kobjs s1) = kobject (kobjs s)" "fd_object r s1 = fd_object r s" "is_valid_object r s1" using assms(2) by (simp_all add: s1_def)
  define x where "x = kobject (kobjs s) (fd_object r s)"
  have x: "ktype x = KOBJECT_PIPE" "kdata x = d" using assms(6,7) by (simp_all add: x_def)
  have "read_data E x b (int n) 0 s1 = Some (int n, s2\<lparr>mem := m'\<rparr>)"
    using x assms(3,13) rd(1) m'(1) len by (simp add: read_data_def pipe_read_internal_def put_user_def m)
  then have f2: "\<exists>s3. sys_object_read E r b (int n) 0 s1 = Some (int n, s3) \<and> mem s3 = m' \<and> cr3 s3 = cr3 s \<and> kpipe (kobjs s3) = kpipe (kobjs s2)"
    using k by (simp add: sys_object_read_def is_valid_pointer_def kobject_read_def x_def [symmetric] upd_kobject_def upd_k_def m)
  then show ?thesis using f1 rd(2) m'(2) unfolding get_user_def by (metis (no_types, lifting))
qed

text \<open>The bytes 7 and 9 in a page that process 10 owns.\<close>

lemma sample_page: "\<exists>p m. pt_inv p m \<and> span_of 0x80001000 4 \<subseteq> owned_addrs p m \<and> load_bytes p 0x80001000 2 m = Some [7, 9]"
proof -
  obtain p s where ps: "pt_inv p s" "7 \<le> card (avail_frames s)" using sample_space by blast
  have "2 \<le> card (avail_frames s)" using ps(2) by simp
  then obtain r s' where m: "pagetable_map p 0x80001000 0 PAGE_FLAG_ALLOC s = Some (r, s')" using map_possible [OF ps(1)] by blast
  obtain d where d: "pt_inv p s'" "pviewi p (page_index 0x80001000) s' = Some (page_entry d PAGE_FLAG_ALLOC)"
  proof (rule map_step [OF ps(1) m])
    fix d
    assume "pt_inv p s'" "\<And>x y. pview p x y s' =
      (if x = dir_index 0x80001000 \<and> y = tab_index 0x80001000 then Some (page_entry d PAGE_FLAG_ALLOC) else pview p x y s)"
    then show ?thesis using that [of d] by (simp add: page_index_def)
  qed
  have "page_index (0x80001000 + of_nat i) = page_index 0x80001000" if "i < 4" for i :: nat
  proof -
    have "i \<in> {0, 1, 2, 3}" using that by auto
    then show ?thesis unfolding page_index_eq by auto
  qed
  then have own: "span_of 0x80001000 4 \<subseteq> owned_addrs p s'"
    using d(2) by (auto simp: owned_addrs_def span_of_def page_entry_def PAGE_FLAG_ALLOC_def)
  moreover have "span_of 0x80001000 2 \<subseteq> span_of 0x80001000 4" by (auto simp: span_of_def)
  moreover have l: "length [7, 9 :: u8] = 2" by simp
  ultimately have sub: "span_of 0x80001000 (length [7, 9 :: u8]) \<subseteq> owned_addrs p s'" unfolding l by blast
  have "length [7, 9 :: u8] \<le> 2 ^ 32" by simp
  from store_bytes_ok [OF d(1) sub this] obtain m' where "pt_inv p m'" "owned_addrs p m' = owned_addrs p s'"
    "load_bytes p 0x80001000 2 m' = Some [7, 9]" unfolding l by blast
  then show ?thesis using own by blast
qed

theorem pipe_write_then_read_witness:
  "\<exists>(s :: (unit, unit, unit) ksys) s1 s2. sys_object_write sample_env 0 0x80001000 2 0 s = Some (2, s1) \<and>
     sys_object_read sample_env 0 0x80001002 1 0 s1 = Some (1, s2) \<and> get_user 0x80001002 1 s2 = Some [7]"
proof -
  obtain p m where m: "pt_inv p m" "span_of 0x80001000 4 \<subseteq> owned_addrs p m" "load_bytes p 0x80001000 2 m = Some [7, 9]"
    using sample_page by blast
  define s where "s = sample_objects\<lparr>cr3 := p, mem := m\<rparr>"
  have v: "is_valid_object 0 s" "fd_object 0 s = 40"
    by (simp_all add: s_def is_valid_object_def fd_object_def sample_objects_def with_objects_def upd_proc_def sample_kernel_def PROCESS_MAX_OBJECTS_def)
  have o: "ktype (kobject (kobjs s) 40) = KOBJECT_PIPE" "kdata (kobject (kobjs s) 40) = 50" "head (lists (lh s) 50) = 0"
    "pipe_wf (kpipe (kobjs s) 50)" "pipe_contents (kpipe (kobjs s) 50) = []"
    by (simp_all add: s_def sample_objects_def with_objects_def upd_proc_def sample_kernel_def LIST_INIT_def pipe_wf_def pipe_contents_def pipe_count_def)
  have u: "get_user 0x80001000 (length [7, 9 :: u8]) s = Some [7, 9]"
    using m(3) by (simp add: s_def get_user_def numeral_2_eq_2)
  have "span_of 0x80001002 1 \<subseteq> span_of 0x80001000 4" by (auto simp: span_of_def image_iff intro!: bexI [of _ 2])
  then have w: "pt_inv (cr3 s) (mem s)" "span_of 0x80001002 1 \<subseteq> owned_addrs (cr3 s) (mem s)" using m(1,2) by (auto simp: s_def)
  have "(0x80001000 :: u32) \<noteq> 0" "(0x80001002 :: u32) \<noteq> 0" "(50 :: ptr) \<noteq> 0" by simp_all
  from pipe_write_then_read [OF v(1) v(1) this(3) o(1,2) [folded v(2)] o(1,2) [folded v(2)] o(3,4) this(1) u _ this(2) _ w, of sample_env]
  show ?thesis using o(5) by auto
qed

section \<open>The edges of copying\<close>

lemma copy_unfold:
  assumes "is_valid_object src s" "0 \<le> dst" "dst \<le> int PROCESS_MAX_OBJECTS"
  shows "sys_object_copy E src dst s = do {
     (r, s) \<leftarrow> sys_object_close E dst s; (k, s) \<leftarrow> kobject_copy E (fd_object src s) s; s \<leftarrow> set_object dst k s; Some (src, s) }"
  using assms by (simp add: sys_object_copy_def)

text \<open>Two copies that the tests of \<^verbatim>\<open>sys_object_copy\<close> let through have no defined behaviour, and the model stops at them.
  Copying an object onto its own number closes the object first and then copies its empty entry through the null pointer;
  the compiled kernel reads page 0, which it has mapped.  Copying to the number one beyond the table stores outside the
  array; the compiled kernel overwrites the next field of \<^verbatim>\<open>struct process\<close> and returns.
  Every copy that returns yields the number of the source, never the number of the new object, or an error.\<close>

theorem object_copy_edges:
  assumes "well_typed \<Gamma> (oview s)" "is_valid_object src s"
  shows "sys_object_copy E src src s = None \<and> sys_object_copy E src (int PROCESS_MAX_OBJECTS) s = None \<and>
    (\<forall>dst r s'. sys_object_copy E src dst s = Some (r, s') \<longrightarrow> r \<in> {src, kerr KERROR_INVALID_OBJECT, kerr KERROR_NOT_FOUND})"
proof (intro conjI allI impI)
  have src: "0 \<le> src" "src < int PROCESS_MAX_OBJECTS" using assms(2) by (simp_all add: is_valid_object_def)
  show "sys_object_copy E src src s = None"
  proof (cases "sys_object_close E src s")
    case (Some x)
    then obtain r s1 where c: "sys_object_close E src s = Some (r, s1)" by (cases x) auto
    have "length (ktable (procs s (current s))) = PROCESS_MAX_OBJECTS" using assms(1) by (simp add: well_typed_def ov_sel)
    then have "fd_object src s1 = 0" using close_typed [OF assms(1) c] assms(2) src by (simp add: fd_object_def)
    then show ?thesis using src by (simp add: copy_unfold [OF assms(2)] c kobject_copy_def)
  qed (use src in \<open>simp add: copy_unfold [OF assms(2)]\<close>)
  show "sys_object_copy E src (int PROCESS_MAX_OBJECTS) s = None"
    by (simp add: copy_unfold [OF assms(2)] sys_object_close_def is_valid_object_def set_object_def case_prod_beta bind_eq_None_conv)
  fix dst r s' assume "sys_object_copy E src dst s = Some (r, s')"
  then show "r \<in> {src, kerr KERROR_INVALID_OBJECT, kerr KERROR_NOT_FOUND}"
    by (auto simp: sys_object_copy_def Let_def bind_eq_Some_conv split: if_splits)
qed

theorem object_copy_edges_witness:
  "sys_object_copy sample_env 0 0 sample_objects = None \<and> sys_object_copy sample_env 0 32 sample_objects = None"
proof -
  have "is_valid_object 0 sample_objects"
    by (simp add: is_valid_object_def fd_object_def sample_objects_def with_objects_def upd_proc_def sample_kernel_def PROCESS_MAX_OBJECTS_def)
  from object_copy_edges [OF sample_typed this, of sample_env] show ?thesis by (simp add: PROCESS_MAX_OBJECTS_def)
qed

section \<open>A program that does not load\<close>

text \<open>What loading leaves alone.\<close>

definition same_processes :: "('v, 'p, 'hw) ksys \<Rightarrow> ('v, 'p, 'hw) ksys \<Rightarrow> bool" where
  "same_processes s s' \<longleftrightarrow> process_table s' = process_table s \<and> current s' = current s \<and> lh s' = lh s \<and>
     kfreed (kobjs s') = kfreed (kobjs s) \<and>
     (\<forall>p. ktable (procs s' p) = ktable (procs s p) \<and> pstate (procs s' p) = pstate (procs s p) \<and> pid (procs s' p) = pid (procs s p))"

lemma same_refl [simp]: "same_processes s s" by (simp add: same_processes_def)

lemma same_trans: "same_processes s t \<Longrightarrow> same_processes t u \<Longrightarrow> same_processes s u" by (auto simp: same_processes_def)

lemma same_read_file: "read_file E d n off s = Some (x, s') \<Longrightarrow> same_processes s s'"
  by (auto simp: read_file_def on_vfs_def same_processes_def upd_k_def)

lemma same_put_user: "put_user a bs s = Some s' \<Longrightarrow> same_processes s s'"
  by (auto simp: put_user_def same_processes_def)

lemma same_data_size: "process_data_size_set p n s = Some (r, s') \<Longrightarrow> same_processes s s'"
  by (auto simp: process_data_size_set_def same_processes_def upd_proc_def Let_def bind_eq_Some_conv split: if_splits)

lemma same_load_segment:
  assumes "load_segment E p d program s = Some (r, s')"
  shows "same_processes s s' \<and> r \<in> {0, kerr KERROR_NOT_EXECUTABLE, kerr KERROR_OUT_OF_MEMORY}"
  using assms unfolding load_segment_def loader_ensure_address_space_def
  by (auto simp: bind_eq_Some_conv Let_def split: if_splits
      dest!: same_data_size same_read_file same_put_user intro: same_trans [OF same_trans] same_trans)

lemma same_load_segments:
  "load_segments E p d header n i s = Some (r, s') \<Longrightarrow>
    same_processes s s' \<and> r \<in> {0, kerr KERROR_NOT_EXECUTABLE, kerr KERROR_OUT_OF_MEMORY}"
proof (induction n arbitrary: i s)
  case (Suc n)
  obtain actual bs s1 where f: "read_file E d (of_nat SIZEOF_ELF_PROGRAM) (program_offset header + i * ucast (phentsize header)) s = Some ((actual, bs), s1)"
    using Suc.prems by (auto simp: bind_eq_Some_conv)
  note s1 = same_read_file [OF f]
  show ?case
  proof (cases "actual = of_nat SIZEOF_ELF_PROGRAM")
    case True
    then obtain r1 s2 where l: "load_segment E p d (get_program bs) s1 = Some (r1, s2)"
      "(if r1 \<noteq> 0 then Some (r1, s2) else load_segments E p d header n (i + 1) s2) = Some (r, s')"
      using Suc.prems f by (auto simp: bind_eq_Some_conv)
    then show ?thesis using same_load_segment [OF l(1)] Suc.IH [of "i + 1" s2] s1 by (auto split: if_splits intro: same_trans)
  qed (use Suc.prems f s1 in auto)
qed simp

lemma same_loader:
  assumes "loader_load_process E p d s = Some (r, e, s')"
  shows "same_processes s s' \<and> r \<in> {0, kerr KERROR_NOT_EXECUTABLE, kerr KERROR_OUT_OF_MEMORY}"
proof -
  obtain actual bs s1 where f: "read_file E d (of_nat SIZEOF_ELF_HEADER) 0 s = Some ((actual, bs), s1)"
    using assms unfolding loader_load_process_def by (auto simp: bind_eq_Some_conv)
  then show ?thesis using assms same_read_file [OF f] unfolding loader_load_process_def
    by (auto simp: bind_eq_Some_conv Let_def split: if_splits dest!: same_load_segments intro: same_trans)
qed

lemma same_use_pagetable: "same_processes s (use_pagetable pt s)"
  by (simp add: same_processes_def use_pagetable_def upd_proc_def)

text \<open>Claim C25.  A program that does not load is never cleaned up: the loader never returns the one error for which
  \<^verbatim>\<open>sys_process_run\<close> and \<^verbatim>\<open>sys_process_wrun\<close> delete the new process, so the call returns the error of the loader
  with the process table, the objects and states of all processes, the lists and the freed objects as they were
  with the child created.\<close>

theorem failed_load_leaves_child:
  assumes "loader_load_process E p d (use_pagetable (pagetable (procs s p)) s) = Some (r, e, s1)" "r < 0"
  shows "\<exists>s'. run_program E p d argc argv s = Some (r, s') \<and> r \<in> {kerr KERROR_NOT_EXECUTABLE, kerr KERROR_OUT_OF_MEMORY} \<and>
    same_processes s s'"
proof -
  note l = same_loader [OF assms(1)]
  then have r: "r \<in> {kerr KERROR_NOT_EXECUTABLE, kerr KERROR_OUT_OF_MEMORY}" using assms(2) by auto
  then have ne: "r \<noteq> kerr KERROR_EXECUTION_FAILED" by auto
  let ?s' = "use_pagetable (pagetable (procs s (current s))) s1"
  have "run_program E p d argc argv s = Some (r, ?s')"
    using assms ne by (simp add: run_program_def load_program_def Let_def)
  moreover have "same_processes s ?s'"
    using l same_trans [OF same_trans [OF same_use_pagetable] same_use_pagetable] by blast
  ultimately show ?thesis using r by blast
qed

theorem failed_load_leaves_child_witness:
  "\<exists>s'. run_program sample_env 20 0 1 [[97, 0]] sample_objects = Some (kerr KERROR_NOT_EXECUTABLE, s') \<and> process_table s' 2 = 20"
proof -
  have "\<exists>s1. loader_load_process sample_env 20 0 (use_pagetable (pagetable (procs sample_objects 20)) sample_objects)
      = Some (kerr KERROR_NOT_EXECUTABLE, 0, s1)"
    by (simp add: loader_load_process_def read_file_def fs_dirent_read_def ops_of_def sample_env_def sample_ops_def on_vfs_def
        SIZEOF_ELF_HEADER_def Let_def)
  moreover have "process_table sample_objects 2 = 20" by (simp add: sample_objects_def with_objects_def upd_proc_def sample_kernel_def)
  moreover have "kerr KERROR_NOT_EXECUTABLE < 0" by simp
  ultimately show ?thesis using failed_load_leaves_child unfolding same_processes_def by metis
qed

end
