(* ===== verification/Stdio.thy ===== *)
theory Stdio
  imports Kprintf
begin

text \<open>
  Output of user programs, \<^verbatim>\<open>library/stdio.c\<close> and the \<^verbatim>\<open>printf\<close> of \<^verbatim>\<open>library/string.c\<close>, and the messages of
  \<^verbatim>\<open>library/errno.c\<close> and \<^verbatim>\<open>library/kernel_object_string.c\<close>.  Characters are collected in a page and written to the
  standard output when a line ends or the page is full.  The system call is an argument.
\<close>

section \<open>The buffer\<close>

record 'w stdio =
  stdio_buffer :: buf
  stdio_buffer_index :: u32
  outside :: 'w

type_synonym 'w write_call = "int \<Rightarrow> buf \<Rightarrow> u32 \<Rightarrow> 'w \<Rightarrow> 'w"

definition KNO_STDOUT :: int where "KNO_STDOUT = 1"

definition stdio_flush :: "'w write_call \<Rightarrow> 'w stdio \<Rightarrow> 'w stdio" where
  "stdio_flush E s =
     (let s = s\<lparr>outside := E KNO_STDOUT (stdio_buffer s) (stdio_buffer_index s) (outside s)\<rparr>;
          s = s\<lparr>stdio_buffer_index := 0\<rparr>
      in s\<lparr>stdio_buffer := (stdio_buffer s)[0 := 0]\<rparr>)"

text \<open>\<^verbatim>\<open>memcpy\<close> to an offset of the buffer.\<close>

definition copy_in :: "u32 \<Rightarrow> buf \<Rightarrow> u32 \<Rightarrow> buf \<Rightarrow> buf option" where
  "copy_in i str l bs =
     (if unat i \<le> length bs then map_option ((@) (take (unat i) bs)) (memcpy (drop (unat i) bs) str (unat l)) else None)"

text \<open>The pointer to the string does not move.\<close>

partial_function (option) printf_buffer_loop :: "'w write_call \<Rightarrow> buf \<Rightarrow> u32 \<Rightarrow> 'w stdio \<Rightarrow> 'w stdio option" where
  "printf_buffer_loop E str len s =
     (if len \<noteq> 0 then do {
        let l = len mod (of_nat PAGE_SIZE - 1);
        let s = (if l > of_nat PAGE_SIZE - stdio_buffer_index s - 1 then stdio_flush E s else s);
        bs \<leftarrow> copy_in (stdio_buffer_index s) str l (stdio_buffer s);
        printf_buffer_loop E str (len - l) (s\<lparr>stdio_buffer := bs, stdio_buffer_index := stdio_buffer_index s + l\<rparr>)
      } else Some s)"

definition printf_buffer :: "'w write_call \<Rightarrow> buf \<Rightarrow> u32 \<Rightarrow> 'w stdio \<Rightarrow> 'w stdio option" where
  "printf_buffer E str len s = do {
     s \<leftarrow> printf_buffer_loop E str len s;
     if unat (stdio_buffer_index s) < length (stdio_buffer s)
     then Some (s\<lparr>stdio_buffer := (stdio_buffer s)[unat (stdio_buffer_index s) := 0]\<rparr>) else None
   }"

definition stdio_putchar :: "'w write_call \<Rightarrow> u8 \<Rightarrow> 'w stdio \<Rightarrow> 'w stdio option" where
  "stdio_putchar E c s = do {
     s \<leftarrow> printf_buffer E [c] 1 s;
     Some (if c = 10 then stdio_flush E s else s)
   }"

definition stdio_putstring :: "'w write_call \<Rightarrow> buf \<Rightarrow> 'w stdio \<Rightarrow> 'w stdio option" where
  "stdio_putstring E str s = do { n \<leftarrow> strlen str; printf_buffer E str n s }"

section \<open>Formatted output\<close>

text \<open>
  The routines for numbers of \<^verbatim>\<open>library/string.c\<close> have, line by line, the text of those of \<^verbatim>\<open>kernel/printf.c\<close>, with
  another \<^verbatim>\<open>putchar\<close>.  Their digits are therefore the definitions of \<open>Kprintf\<close>, and what differs, the way of the
  characters to the standard output, is modelled here: they are sent one by one.
\<close>

fun put_chars :: "'w write_call \<Rightarrow> buf \<Rightarrow> 'w stdio \<Rightarrow> 'w stdio option" where
  "put_chars E [] s = Some s"
| "put_chars E (c # cs) s = do { s \<leftarrow> stdio_putchar E c s; put_chars E cs s }"

definition stdio_puthex :: "'w write_call \<Rightarrow> u32 \<Rightarrow> 'w stdio \<Rightarrow> 'w stdio option" where
  "stdio_puthex E i = put_chars E (printf_puthex i)"

definition stdio_putint :: "'w write_call \<Rightarrow> int \<Rightarrow> 'w stdio \<Rightarrow> 'w stdio option" where
  "stdio_putint E i s = do { cs \<leftarrow> printf_putint i; put_chars E cs s }"

definition stdio_putuint :: "'w write_call \<Rightarrow> u32 \<Rightarrow> 'w stdio \<Rightarrow> 'w stdio option" where
  "stdio_putuint E u s = do { cs \<leftarrow> printf_putuint u; put_chars E cs s }"

fun stdio_printf :: "'w write_call \<Rightarrow> buf \<Rightarrow> varg list \<Rightarrow> 'w stdio \<Rightarrow> 'w stdio option" where
  "stdio_printf E [] args s = None"
| "stdio_printf E (c # fmt) args s =
     (if c = 0 then Some s
      else if c \<noteq> 37 then do { s \<leftarrow> stdio_putchar E c s; stdio_printf E fmt args s }
      else (case fmt of
          [] \<Rightarrow> None
        | k # fmt \<Rightarrow>
            if k = 100 then do {
              (w, args) \<leftarrow> arg_word args; s \<leftarrow> stdio_putint E (sint w) s; stdio_printf E fmt args s }
            else if k = 117 then do {
              (w, args) \<leftarrow> arg_word args; s \<leftarrow> stdio_putuint E w s; stdio_printf E fmt args s }
            else if k = 120 then do {
              (w, args) \<leftarrow> arg_word args; s \<leftarrow> stdio_puthex E w s; stdio_printf E fmt args s }
            else if k = 115 then do {
              (str, args) \<leftarrow> arg_str args; s \<leftarrow> stdio_putstring E str s; stdio_printf E fmt args s }
            else if k = 99 then do {
              (w, args) \<leftarrow> arg_word args; s \<leftarrow> stdio_putchar E (ucast w) s; stdio_printf E fmt args s }
            else if k = 0 then Some s
            else do { s \<leftarrow> stdio_putchar E k s; stdio_printf E fmt args s }))"

section \<open>Messages\<close>

definition error_messages :: "(int \<times> string) list" where
  "error_messages = [(kerr KERROR_NOT_FOUND, ''Not Found''), (kerr KERROR_INVALID_REQUEST, ''Invalid Request''),
     (kerr KERROR_PERMISSION_DENIED, ''Permission Denied''), (kerr KERROR_NOT_IMPLEMENTED, ''Not Implemented''),
     (kerr KERROR_NOT_EXECUTABLE, ''Not Executable''), (kerr KERROR_EXECUTION_FAILED, ''Execution Failed''),
     (kerr KERROR_NOT_A_DIRECTORY, ''Not a Directory''), (kerr KERROR_NOT_A_FILE, ''Not a File''),
     (kerr KERROR_NOT_A_WINDOW, ''Not a Window''), (kerr KERROR_NOT_A_DEVICE, ''Not a Device''),
     (kerr KERROR_NOT_A_CONSOLE, ''Not a Console''), (kerr KERROR_NOT_A_PIPE, ''Not a Pipe''),
     (kerr KERROR_INVALID_SYSCALL, ''Invalid System Call''), (kerr KERROR_INVALID_OBJECT, ''Invalid Object''),
     (kerr KERROR_INVALID_ADDRESS, ''Invalid Address''), (kerr KERROR_INVALID_PATH, ''Invalid Path''),
     (kerr KERROR_INVALID_TAG, ''Invalid Tag''), (kerr KERROR_OUT_OF_MEMORY, ''Out of Memory''),
     (kerr KERROR_OUT_OF_OBJECTS, ''Out of Objects''), (kerr KERROR_OUT_OF_SPACE, ''Out of Space'')]"

definition strerror :: "int \<Rightarrow> string" where
  "strerror e = (case map_of error_messages e of Some m \<Rightarrow> m | None \<Rightarrow> ''Unknown error'')"

text \<open>The kinds of kernel objects, by their numbers.\<close>

definition kernel_object_string :: "int \<Rightarrow> string" where
  "kernel_object_string t = (case map_of [(0, ''file''), (1, ''directory''), (2, ''device''), (3, ''window''), (5, ''console''), (4, ''pipe'')] t of
     Some m \<Rightarrow> m | None \<Rightarrow> ''unknown'')"

text \<open>Two errors of the kernel have no message.\<close>

lemma strerror_missing: "strerror (kerr k) = ''Unknown error'' \<longleftrightarrow> k = KERROR_FILE_EXISTS \<or> k = KERROR_NOT_EMPTY"
  by (cases k) (simp_all add: strerror_def error_messages_def)

section \<open>What reaches the standard output\<close>

definition stdio_ok :: "'w stdio \<Rightarrow> bool" where
  "stdio_ok s \<longleftrightarrow> length (stdio_buffer s) = PAGE_SIZE \<and> unat (stdio_buffer_index s) < PAGE_SIZE"

text \<open>A console that keeps all it is given.\<close>

definition to_console :: "buf write_call" where
  "to_console fd bs n out = out @ take (unat n) bs"

definition stream :: "buf stdio \<Rightarrow> buf" where
  "stream s = outside s @ take (unat (stdio_buffer_index s)) (stdio_buffer s)"

lemma flush_ok:
  "stdio_ok s \<Longrightarrow> stdio_ok (stdio_flush E s) \<and> stdio_buffer_index (stdio_flush E s) = 0"
  by (simp add: stdio_ok_def stdio_flush_def Let_def PAGE_SIZE_def)

lemma flush_stream: "stream (stdio_flush to_console s) = stream s"
  by (simp add: stream_def stdio_flush_def to_console_def Let_def)

lemma memcpy_take: "n \<le> length d \<Longrightarrow> n \<le> length s \<Longrightarrow> memcpy d s n = Some (take n s @ drop n d)"
  by (induction d s n rule: memcpy.induct) auto

lemma page_minus_1: "(of_nat PAGE_SIZE - 1 :: u32) = 4095"
  by (simp add: PAGE_SIZE_def)

lemma index_plus: "unat (i :: u32) + unat l < 4096 \<Longrightarrow> unat (i + l) = unat i + unat l"
  by (subst unat_add_lem [THEN iffD1]) simp_all

text \<open>A string without room is preceded by a flush, so that it always fits.\<close>

lemma copy_room:
  assumes ok: "stdio_ok s" and l: "unat l < 4095"
    and s': "s' = (if l > of_nat PAGE_SIZE - stdio_buffer_index s - 1 then stdio_flush to_console s else s)"
  shows "stdio_ok s'" "stream s' = stream s" "unat (stdio_buffer_index s') + unat l < 4096"
proof -
  show "stdio_ok s'" "stream s' = stream s" using flush_ok [OF ok] ok flush_stream by (auto simp: s')
  have i: "unat (stdio_buffer_index s) < 4096" using ok by (simp add: stdio_ok_def PAGE_SIZE_def)
  have "unat (4095 - stdio_buffer_index s) = 4095 - unat (stdio_buffer_index s)"
    using i by (subst unat_sub) (simp_all add: word_le_nat_alt)
  moreover have "of_nat PAGE_SIZE - stdio_buffer_index s - 1 = 4095 - stdio_buffer_index s" by (simp add: PAGE_SIZE_def)
  ultimately show "unat (stdio_buffer_index s') + unat l < 4096"
    using l i flush_ok [OF ok, of to_console] unfolding s' by (auto simp: word_less_nat_alt simp del: unat_sub_if')
qed

lemma copy_in_take:
  assumes "unat i + unat l < 4096" "length bs = 4096" "unat l \<le> length str"
  shows "copy_in i str l bs = Some (take (unat i) bs @ take (unat l) str @ drop (unat i + unat l) bs)"
  using assms by (simp add: copy_in_def memcpy_take add.commute)

text \<open>One short string.\<close>

lemma buffer_short:
  assumes ok: "stdio_ok s" and l: "unat len < 4095" "unat len \<le> length str"
  shows "\<exists>s'. printf_buffer to_console str len s = Some s' \<and> stdio_ok s' \<and> stream s' = stream s @ take (unat len) str"
proof -
  have "\<exists>s'. printf_buffer_loop to_console str len s = Some s' \<and> stdio_ok s' \<and> stream s' = stream s @ take (unat len) str"
  proof (cases "len = 0")
    case True
    then show ?thesis using ok by (subst printf_buffer_loop.simps) simp
  next
    case False
    have m: "len mod 4095 = len" using l(1) by (simp add: word_unat_eq_iff unat_mod)
    define s1 where "s1 = (if len > of_nat PAGE_SIZE - stdio_buffer_index s - 1 then stdio_flush to_console s else s)"
    note r = copy_room [OF ok l(1) s1_def]
    let ?i = "stdio_buffer_index s1"
    let ?bs = "take (unat ?i) (stdio_buffer s1) @ take (unat len) str @ drop (unat ?i + unat len) (stdio_buffer s1)"
    have c: "copy_in ?i str len (stdio_buffer s1) = Some ?bs"
      using r l(2) by (intro copy_in_take) (simp_all add: stdio_ok_def PAGE_SIZE_def)
    let ?s = "s1\<lparr>stdio_buffer := ?bs, stdio_buffer_index := ?i + len\<rparr>"
    have u: "unat (?i + len) = unat ?i + unat len" using r(3) by (rule index_plus)
    have "printf_buffer_loop to_console str len s = Some ?s"
    proof (subst printf_buffer_loop.simps)
      have "printf_buffer_loop to_console str 0 ?s = Some ?s" by (subst printf_buffer_loop.simps) simp
      then show "(if len \<noteq> 0 then do {
          let l = len mod (of_nat PAGE_SIZE - 1);
          let s = (if l > of_nat PAGE_SIZE - stdio_buffer_index s - 1 then stdio_flush to_console s else s);
          bs \<leftarrow> copy_in (stdio_buffer_index s) str l (stdio_buffer s);
          printf_buffer_loop to_console str (len - l) (s\<lparr>stdio_buffer := bs, stdio_buffer_index := stdio_buffer_index s + l\<rparr>)
        } else Some s) = Some ?s"
        unfolding page_minus_1 m Let_def s1_def [symmetric] c using False by simp
    qed
    moreover have "stdio_ok ?s" using r l u by (simp add: stdio_ok_def PAGE_SIZE_def)
    moreover have "stream ?s = stream s @ take (unat len) str"
    proof -
      have "unat ?i \<le> length (stdio_buffer s1)" using r by (simp add: stdio_ok_def)
      then have "take (unat ?i + unat len) ?bs = take (unat ?i) (stdio_buffer s1) @ take (unat len) str" using l(2) by simp
      then have "take (unat (?i + len)) ?bs = take (unat ?i) (stdio_buffer s1) @ take (unat len) str" unfolding u .
      moreover have "stream ?s = outside s1 @ take (unat (?i + len)) ?bs" by (simp add: stream_def)
      ultimately show ?thesis using r(2) unfolding stream_def by (metis append.assoc)
    qed
    ultimately show ?thesis by blast
  qed
  then obtain s' where s': "printf_buffer_loop to_console str len s = Some s'" "stdio_ok s'" "stream s' = stream s @ take (unat len) str" by blast
  let ?t = "s'\<lparr>stdio_buffer := (stdio_buffer s')[unat (stdio_buffer_index s') := 0]\<rparr>"
  have "printf_buffer to_console str len s = Some ?t" using s' by (simp add: printf_buffer_def stdio_ok_def)
  moreover have "stdio_ok ?t" "stream ?t = stream s'" using s'(2) by (simp_all add: stdio_ok_def stream_def)
  ultimately show ?thesis using s'(3) by auto
qed

lemma putchar_ok:
  assumes "stdio_ok s"
  shows "\<exists>s'. stdio_putchar to_console c s = Some s' \<and> stdio_ok s' \<and> stream s' = stream s @ [c]"
proof -
  obtain s1 where s1: "printf_buffer to_console [c] 1 s = Some s1" "stdio_ok s1" "stream s1 = stream s @ [c]"
    using buffer_short [OF assms, of 1 "[c]"] by auto
  then show ?thesis using flush_ok [OF s1(2)] flush_stream [of s1] by (auto simp: stdio_putchar_def)
qed

lemma put_chars_ok: "stdio_ok s \<Longrightarrow> \<exists>s'. put_chars to_console cs s = Some s' \<and> stdio_ok s' \<and> stream s' = stream s @ cs"
proof (induction cs arbitrary: s)
  case (Cons c cs)
  obtain s1 where s1: "stdio_putchar to_console c s = Some s1" "stdio_ok s1" "stream s1 = stream s @ [c]"
    using putchar_ok [OF Cons.prems] by blast
  then show ?case using Cons.IH [OF s1(2)] by auto
qed simp

text \<open>A string of 4095 characters or more is never written.\<close>

lemma buffer_loop_stuck:
  assumes "printf_buffer_loop E str len s = Some r" "len \<noteq> 0" "len mod 4095 = 0"
  shows False
  using assms
proof (induction rule: printf_buffer_loop.raw_induct [rotated, consumes 1, case_names step])
  case (step f E str len s r)
  have z: "len \<noteq> 0" "len mod (of_nat PAGE_SIZE - 1) = 0" and n: "\<not> (0 :: u32) > w" for w
    using step.prems by (simp_all add: page_minus_1)
  obtain s1 where "f E str len s1 = Some r"
    using step(2) unfolding Let_def z(2) n if_False using z(1) by (auto split: bind_splits)
  then show ?case by (rule step.IH [OF _ step.prems])
qed

lemma unat_numeral_4095: "unat (4095 :: u32) = 4095"
  by simp

lemma long_string:
  assumes "4095 \<le> len"
  shows "printf_buffer_loop E str len s = None"
proof (rule ccontr)
  assume "\<not> ?thesis"
  then obtain r where r: "printf_buffer_loop E str len s = Some r" by blast
  have z: "len \<noteq> 0" using assms by auto
  let ?l = "len mod 4095"
  obtain s1 where "printf_buffer_loop E str (len - ?l) s1 = Some r"
    using r z by (subst (asm) printf_buffer_loop.simps) (auto simp: page_minus_1 Let_def split: bind_splits)
  moreover have "(len - ?l) mod 4095 = 0"
    by (simp add: word_unat_eq_iff unat_mod unat_sub word_le_nat_alt flip: dvd_eq_mod_eq_0)
  moreover have "len - ?l \<noteq> 0"
  proof
    assume "len - ?l = 0"
    then have "len mod 4095 = len" by (simp only: right_minus_eq)
    then have "unat len mod 4095 = unat len" by (metis unat_mod unat_numeral_4095)
    moreover have "4095 \<le> unat len" using assms by (simp add: word_le_nat_alt)
    ultimately show False by (metis mod_less_divisor not_le zero_less_numeral)
  qed
  ultimately show False by (intro buffer_loop_stuck)
qed

lemma putstring_short:
  assumes "stdio_ok s" "is_cstr cs str" "length cs < 4095"
  shows "\<exists>s'. stdio_putstring to_console str s = Some s' \<and> stdio_ok s' \<and> stream s' = stream s @ cs"
proof -
  have "strlen str = Some (of_nat (length cs))" using assms(2) by (rule strlen_cstr)
  moreover have "unat (of_nat (length cs) :: u32) = length cs" using assms(3) by (simp add: unat_of_nat)
  moreover obtain rest where "str = cs @ 0 # rest" using assms(2) by (auto simp: is_cstr_def)
  ultimately show ?thesis using buffer_short [OF assms(1), of "of_nat (length cs)" str] assms(3) by (simp add: stdio_putstring_def)
qed

text \<open>A string is written exactly when it has less than 4095 characters: then its characters are added to the stream
  of the program, and otherwise the program never gets further.\<close>

theorem stdio_putstring_ends:
  assumes "stdio_ok s" "is_cstr cs str" "length cs < 2 ^ 32"
  shows "if length cs < 4095
    then \<exists>s'. stdio_putstring to_console str s = Some s' \<and> stdio_ok s' \<and> stream s' = stream s @ cs
    else stdio_putstring to_console str s = None"
proof (cases "length cs < 4095")
  case True
  then show ?thesis using putstring_short [OF assms(1,2)] by simp
next
  case False
  have "strlen str = Some (of_nat (length cs))" using assms(2) by (rule strlen_cstr)
  moreover have "4095 \<le> (of_nat (length cs) :: u32)" using assms(3) False by (simp add: word_le_nat_alt unat_of_nat)
  then have "printf_buffer_loop to_console str (of_nat (length cs)) s = None" by (rule long_string)
  ultimately show ?thesis using False by (simp add: stdio_putstring_def printf_buffer_def)
qed

definition short_arg :: "varg \<Rightarrow> bool" where
  "short_arg a \<longleftrightarrow> (case a of Str str \<Rightarrow> length (takeWhile (\<lambda>c. c \<noteq> 0) str) < 4095 | Word w \<Rightarrow> True)"

lemma putstring_arg:
  assumes "stdio_ok s" "printf_putstring str = Some cs" "length cs < 4095"
  shows "\<exists>s'. stdio_putstring to_console str s = Some s' \<and> stdio_ok s' \<and> stream s' = stream s @ cs"
proof -
  have c: "cs = takeWhile (\<lambda>c. c \<noteq> 0) str" "0 \<in> set str" using assms(2) by (auto simp: printf_putstring_def split: if_splits)
  have "dropWhile (\<lambda>c. c \<noteq> 0) str \<noteq> []" using c(2) by (simp add: dropWhile_eq_Nil_conv)
  then obtain rest where "dropWhile (\<lambda>c. c \<noteq> 0) str = 0 # rest"
    using hd_dropWhile [of "\<lambda>c. c \<noteq> 0" str] by (cases "dropWhile (\<lambda>c. c \<noteq> 0) str") auto
  then have "str = cs @ 0 # rest" using c(1) takeWhile_dropWhile_id by metis
  moreover have "0 \<notin> set cs" using c(1) by (auto dest: set_takeWhileD)
  ultimately have "is_cstr cs str" by (auto simp: is_cstr_def)
  then show ?thesis using assms(1,3) by (intro putstring_short)
qed

text \<open>Claim C37.  The \<^verbatim>\<open>printf\<close> of user programs sends the same characters to the standard output as that of the kernel prints, for every
  format and all arguments whose strings are shorter than 4095 characters, so that they fit the buffer.  The digits of numbers are the
  same by definition, as their routines are; the statement is about the buffer, its flushes and the order of the characters.\<close>

theorem stdio_printf_prints:
  assumes "stdio_ok s" "printf fmt args = Some cs" "\<forall>a \<in> set args. short_arg a"
  shows "\<exists>s'. stdio_printf to_console fmt args s = Some s' \<and> stdio_ok s' \<and> outside (stdio_flush to_console s') = stream s @ cs"
proof -
  have "\<exists>s'. stdio_printf to_console fmt args s = Some s' \<and> stdio_ok s' \<and> stream s' = stream s @ cs"
    using assms
  proof (induction "length fmt" arbitrary: fmt args s cs rule: less_induct)
    case less
    let ?goal = "\<lambda>f. \<exists>s'. f s = Some s' \<and> stdio_ok s' \<and> stream s' = stream s @ cs"
    have go: "?goal (\<lambda>s. do { s \<leftarrow> f s; stdio_printf to_console fmt' as s })"
      if "\<exists>s'. f s = Some s' \<and> stdio_ok s' \<and> stream s' = stream s @ out" "printf fmt' as = Some cs1" "cs = out @ cs1"
        "length fmt' < length fmt" "set as \<subseteq> set args" for f out cs1 fmt' as
    proof -
      note t = that
      obtain s1 where s1: "f s = Some s1" "stdio_ok s1" "stream s1 = stream s @ out" using t(1) by blast
      have "\<forall>a \<in> set as. short_arg a" using less.prems(3) t(5) by blast
      from less.hyps [OF t(4) s1(2) t(2) this] show ?thesis using s1(1,3) t(3) by simp
    qed
    have word: "set as \<subseteq> set args" if "arg_word args = Some (w, as)" for w as
      using that by (auto simp: arg_word_def split: list.splits varg.splits)
    have str: "set as \<subseteq> set args \<and> short_arg (Str t)" if "arg_str args = Some (t, as)" for t as
      using that less.prems(3) by (auto simp: arg_str_def split: list.splits varg.splits)
    note char = putchar_ok [OF less.prems(1)] and chars = put_chars_ok [OF less.prems(1)]
    show ?case
    proof (cases fmt)
      case Nil
      then show ?thesis using less.prems(2) by simp
    next
      case (Cons c fmt1)
      consider "c = 0" | "c \<noteq> 0" "c \<noteq> 37" | k fmt2 where "c = 37" "fmt1 = k # fmt2" | "c = 37" "fmt1 = []" by (cases fmt1) auto
      then show ?thesis
      proof cases
        case 1
        then show ?thesis using less.prems Cons by simp
      next
        case 2
        then obtain cs1 where "printf fmt1 args = Some cs1" "cs = [c] @ cs1" using less.prems(2) Cons by auto
        from go [where f = "stdio_putchar to_console c" and out = "[c]", OF char this] show ?thesis using 2 Cons by simp
      next
        case 4
        then show ?thesis using less.prems(2) Cons by simp
      next
        case (3 k fmt2)
        have l: "length fmt2 < length fmt" using 3 Cons by simp
        note p = less.prems(2) [unfolded Cons 3]
        consider "k = 100" | "k = 117" | "k = 120" | "k = 115" | "k = 99" | "k = 0"
          | "k \<noteq> 100" "k \<noteq> 117" "k \<noteq> 120" "k \<noteq> 115" "k \<noteq> 99" "k \<noteq> 0" by blast
        then show ?thesis
        proof cases
          case a: 1
          obtain w as out cs1 where o: "arg_word args = Some (w, as)" "printf_putint (sint w) = Some out" "printf fmt2 as = Some cs1" "cs = out @ cs1"
            using p a by (auto split: bind_splits)
          from go [where f = "put_chars to_console out" and out = out, OF chars o(3,4) l word [OF o(1)]] show ?thesis using 3 Cons a o(1,2) by (simp add: stdio_putint_def)
        next
          case a: 2
          obtain w as out cs1 where o: "arg_word args = Some (w, as)" "printf_putuint w = Some out" "printf fmt2 as = Some cs1" "cs = out @ cs1"
            using p a by (auto split: bind_splits)
          from go [where f = "put_chars to_console out" and out = out, OF chars o(3,4) l word [OF o(1)]] show ?thesis using 3 Cons a o(1,2) by (simp add: stdio_putuint_def)
        next
          case a: 3
          obtain w as cs1 where o: "arg_word args = Some (w, as)" "printf fmt2 as = Some cs1" "cs = printf_puthex w @ cs1"
            using p a by (auto split: bind_splits)
          from go [where f = "put_chars to_console (printf_puthex w)" and out = "printf_puthex w", OF chars o(2,3) l word [OF o(1)]] show ?thesis using 3 Cons a o(1) by (simp add: stdio_puthex_def)
        next
          case a: 4
          obtain t as out cs1 where o: "arg_str args = Some (t, as)" "printf_putstring t = Some out" "printf fmt2 as = Some cs1" "cs = out @ cs1"
            using p a by (auto split: bind_splits)
          have "length out < 4095" using str [OF o(1)] o(2) by (auto simp: short_arg_def printf_putstring_def split: if_splits)
          from go [where f = "stdio_putstring to_console t" and out = out, OF putstring_arg [OF less.prems(1) o(2) this] o(3,4) l] str [OF o(1)] show ?thesis using 3 Cons a o(1) by simp
        next
          case a: 5
          obtain w as cs1 where o: "arg_word args = Some (w, as)" "printf fmt2 as = Some cs1" "cs = [ucast w] @ cs1"
            using p a by (auto split: bind_splits)
          from go [where f = "stdio_putchar to_console (ucast w)" and out = "[ucast w]", OF char o(2,3) l word [OF o(1)]] show ?thesis using 3 Cons a o(1) by simp
        next
          case a: 6
          then show ?thesis using 3 Cons p less.prems(1) by simp
        next
          case a: 7
          obtain cs1 where o: "printf fmt2 args = Some cs1" "cs = [k] @ cs1" using p a by auto
          from go [where f = "stdio_putchar to_console k" and out = "[k]", OF char o l] show ?thesis using 3 Cons a by simp
        qed
      qed
    qed
  qed
  then show ?thesis using flush_stream by (auto simp: stream_def stdio_flush_def to_console_def Let_def)
qed

definition sample_stdio :: "buf stdio" where
  "sample_stdio = \<lparr>stdio_buffer = replicate PAGE_SIZE 0, stdio_buffer_index = 0, outside = []\<rparr>"

lemma sample_stdio_ok: "stdio_ok sample_stdio"
  by (simp add: sample_stdio_def stdio_ok_def PAGE_SIZE_def)

theorem stdio_putstring_ends_witness:
  "(\<exists>s'. stdio_putstring to_console [104, 105, 0] sample_stdio = Some s') \<and>
   stdio_putstring to_console (replicate 5000 97 @ [0]) sample_stdio = None"
proof -
  have "is_cstr [104, 105] [104, 105, 0]" "is_cstr (replicate 5000 97) (replicate 5000 97 @ [0])" by (auto simp: is_cstr_def)
  from stdio_putstring_ends [OF sample_stdio_ok this(1)] stdio_putstring_ends [OF sample_stdio_ok this(2)]
  show ?thesis by auto
qed

text \<open>The format \<^verbatim>\<open>%s=%x\<close> and a line end.\<close>

theorem stdio_printf_prints_witness:
  "\<exists>s'. stdio_printf to_console [37, 115, 61, 37, 120, 10, 0] [Str [120, 0], Word 0xab] sample_stdio = Some s' \<and>
     outside (stdio_flush to_console s') = [120, 61, 48, 48, 48, 48, 48, 48, 97, 98, 10]"
proof -
  have "printf [37, 115, 61, 37, 120, 10, 0] [Str [120, 0], Word 0xab] = Some [120, 61, 48, 48, 48, 48, 48, 48, 97, 98, 10]"
    by (simp add: arg_str_def arg_word_def printf_putstring_def printf_puthex_def printf_puthexdigit_def)
  moreover have "\<forall>a \<in> set [Str [120, 0], Word 0xab]. short_arg a" by (simp add: short_arg_def)
  ultimately show ?thesis using stdio_printf_prints [OF sample_stdio_ok] by (fastforce simp: stream_def sample_stdio_def)
qed

end
