(* ===== verification/Nwindow.thy ===== *)
theory Nwindow
  imports Graphics_Props Event_Queue Kstring
begin

text \<open>
  The windows of user programs, \<^verbatim>\<open>library/nwindow.c\<close>: drawing commands are collected in a buffer of the program and
  written to the window with one system call, and events are read from it.  The system calls are the record
  \<open>calls\<close> of functions on a state \<open>'w\<close>; a write gets the words of the buffer.  Drawing outside the buffer is \<open>None\<close>.
\<close>

section \<open>Windows of programs\<close>

record 'w calls =
  open_window :: "int \<Rightarrow> int \<Rightarrow> int \<Rightarrow> int \<Rightarrow> int \<Rightarrow> 'w \<Rightarrow> (int \<times> 'w) option"
  object_size :: "int \<Rightarrow> int \<times> int \<Rightarrow> 'w \<Rightarrow> ((int \<times> int) \<times> 'w) option"
  write_words :: "int \<Rightarrow> u32 list \<Rightarrow> int \<Rightarrow> 'w \<Rightarrow> (int \<times> 'w) option"
  write_events :: "int \<Rightarrow> event list \<Rightarrow> 'w \<Rightarrow> (int \<times> 'w) option"
  read_events :: "int \<Rightarrow> u32 \<Rightarrow> bool \<Rightarrow> 'w \<Rightarrow> (int \<times> event list \<times> 'w) option"

record nwindow =
  nw_fd :: int
  nw_x :: int
  nw_y :: int
  nw_width :: int
  nw_height :: int
  gbuffer :: "u32 list"
  glength :: int
  gindex :: int

text \<open>\<open>block\<close> is the memory that \<^verbatim>\<open>malloc\<close> gave for the buffer, and \<open>dims\<close> what the array of sizes held before.\<close>

definition nw_create_fd :: "'w calls \<Rightarrow> u32 list \<Rightarrow> int \<times> int \<Rightarrow> int \<Rightarrow> 'w \<Rightarrow> (nwindow \<times> 'w) option" where
  "nw_create_fd E block dims fd s = do {
     (d, s) \<leftarrow> object_size E fd dims s;
     Some (\<lparr>nw_fd = fd, nw_x = 0, nw_y = 0, nw_width = fst d, nw_height = snd d,
            gbuffer = block, glength = int PAGE_SIZE, gindex = 0\<rparr>, s)
   }"

definition KNO_STDWIN :: int where "KNO_STDWIN = 3"

definition nw_create_default :: "'w calls \<Rightarrow> u32 list \<Rightarrow> int \<times> int \<Rightarrow> 'w \<Rightarrow> (nwindow \<times> 'w) option" where
  "nw_create_default E block dims = nw_create_fd E block dims KNO_STDWIN"

definition nw_create_child ::
    "'w calls \<Rightarrow> u32 list \<Rightarrow> int \<times> int \<Rightarrow> nwindow \<Rightarrow> int \<Rightarrow> int \<Rightarrow> int \<Rightarrow> int \<Rightarrow> 'w \<Rightarrow> (nwindow \<times> 'w) option" where
  "nw_create_child E block dims parent x y w h s = do {
     (fd, s) \<leftarrow> open_window E (nw_fd parent) x y w h s;
     (nw, s) \<leftarrow> nw_create_fd E block dims fd s;
     Some (nw\<lparr>nw_x := x, nw_y := y, nw_width := w, nw_height := h\<rparr>, s)
   }"

section \<open>Drawing\<close>

definition nw_flush :: "'w calls \<Rightarrow> nwindow \<times> 'w \<Rightarrow> (nwindow \<times> 'w) option" where
  "nw_flush E = (\<lambda>(nw, s). do {
     (_, s) \<leftarrow> write_words E (nw_fd nw) (gbuffer nw) (gindex nw) s;
     Some (nw\<lparr>gindex := 0\<rparr>, s)
   })"

definition put_words :: "u32 list \<Rightarrow> nwindow \<Rightarrow> nwindow option" where
  "put_words ws nw =
     (if 0 \<le> gindex nw \<and> nat (gindex nw) + length ws \<le> length (gbuffer nw)
      then Some (nw\<lparr>gbuffer := take (nat (gindex nw)) (gbuffer nw) @ ws @ drop (nat (gindex nw) + length ws) (gbuffer nw),
                    gindex := gindex nw + int (length ws)\<rparr>)
      else None)"

definition nw_draw3 :: "'w calls \<Rightarrow> u32 \<Rightarrow> u32 \<Rightarrow> u32 \<Rightarrow> u32 \<Rightarrow> nwindow \<times> 'w \<Rightarrow> (nwindow \<times> 'w) option" where
  "nw_draw3 E t a0 a1 a2 st = do {
     (nw, s) \<leftarrow> (if glength (fst st) - gindex (fst st) < 4 then nw_flush E st else Some st);
     nw \<leftarrow> put_words [t, a0, a1, a2] nw;
     Some (nw, s)
   }"

definition nw_draw4 :: "'w calls \<Rightarrow> u32 \<Rightarrow> u32 \<Rightarrow> u32 \<Rightarrow> u32 \<Rightarrow> u32 \<Rightarrow> nwindow \<times> 'w \<Rightarrow> (nwindow \<times> 'w) option" where
  "nw_draw4 E t a0 a1 a2 a3 st = do {
     (nw, s) \<leftarrow> (if glength (fst st) - gindex (fst st) < 5 then nw_flush E st else Some st);
     nw \<leftarrow> put_words [t, a0, a1, a2, a3] nw;
     Some (nw, s)
   }"

definition nw_fgcolor where "nw_fgcolor E r g b = nw_draw3 E GRAPHICS_FGCOLOR r g b"
definition nw_bgcolor where "nw_bgcolor E r g b = nw_draw3 E GRAPHICS_BGCOLOR r g b"
definition nw_rect where "nw_rect E x y w h = nw_draw4 E GRAPHICS_RECT x y w h"
definition nw_clear where "nw_clear E x y w h = nw_draw4 E GRAPHICS_CLEAR x y w h"
definition nw_line where "nw_line E x y w h = nw_draw4 E GRAPHICS_LINE x y w h"

text \<open>Characters are signed.\<close>

definition nw_string :: "'w calls \<Rightarrow> u32 \<Rightarrow> u32 \<Rightarrow> buf \<Rightarrow> nwindow \<times> 'w \<Rightarrow> (nwindow \<times> 'w) option" where
  "nw_string E x y str st = do {
     n \<leftarrow> strlen str;
     (nw, s) \<leftarrow> (if glength (fst st) - gindex (fst st) < sint n + 4 then nw_flush E st else Some st);
     nw \<leftarrow> put_words ([GRAPHICS_TEXT, x, y, n] @ map scast (take (nat (sint n)) str)) nw;
     Some (nw, s)
   }"

section \<open>Events\<close>

text \<open>\<open>room\<close> is the number of events that fit behind the pointer.\<close>

definition nw_next_event :: "'w calls \<Rightarrow> nwindow \<Rightarrow> nat \<Rightarrow> 'w \<Rightarrow> (bool \<times> event list \<times> 'w) option" where
  "nw_next_event E nw room s = do {
     (r, es, s) \<leftarrow> read_events E (nw_fd nw) SIZEOF_EVENT True s;
     if room < length es then None else Some (r > 0, es, s)
   }"

definition nw_read_events :: "'w calls \<Rightarrow> nwindow \<Rightarrow> nat \<Rightarrow> u32 \<Rightarrow> bool \<Rightarrow> 'w \<Rightarrow> (int \<times> event list \<times> 'w) option" where
  "nw_read_events E nw room n blocking s = do {
     (r, es, s) \<leftarrow> read_events E (nw_fd nw) (SIZEOF_EVENT * n) blocking s;
     if room < length es then None else Some (if r > 0 then r else 0, es, s)
   }"

definition nw_post_events :: "'w calls \<Rightarrow> nwindow \<Rightarrow> event list \<Rightarrow> 'w \<Rightarrow> (int \<times> 'w) option" where
  "nw_post_events E nw es = write_events E (nw_fd nw) es"

text \<open>\<^verbatim>\<open>nw_getchar\<close> asks for \<^verbatim>\<open>sizeof(e)\<close> events and has room for one.\<close>

partial_function (option) nw_getchar :: "'w calls \<Rightarrow> nwindow \<Rightarrow> bool \<Rightarrow> 'w \<Rightarrow> (u8 \<times> 'w) option" where
  "nw_getchar E nw blocking s =
     (case nw_read_events E nw 1 SIZEOF_EVENT blocking s of
        None \<Rightarrow> None
      | Some (r, es, s) \<Rightarrow>
          if r \<le> 0 then Some (0, s)
          else if es \<noteq> [] \<and> etype (hd es) = EVENT_KEY_DOWN then Some (ucast (ecode (hd es)), s)
          else nw_getchar E nw blocking s)"

text \<open>Two events that wait for a reader are written over its stack.\<close>

lemma nw_getchar_overflow:
  "read_events E (nw_fd nw) (SIZEOF_EVENT * SIZEOF_EVENT) b s = Some (r, e # f # es, s') \<Longrightarrow> nw_getchar E nw b s = None"
  by (subst nw_getchar.simps) (simp add: nw_read_events_def)

section \<open>What a program draws\<close>

datatype draw = Fgcolor u32 u32 u32 | Bgcolor u32 u32 u32 | Rect u32 u32 u32 u32 | Clear u32 u32 u32 u32
  | Line u32 u32 u32 u32 | Text u32 u32 buf

fun nw_draw :: "'w calls \<Rightarrow> draw \<Rightarrow> nwindow \<times> 'w \<Rightarrow> (nwindow \<times> 'w) option" where
  "nw_draw E (Fgcolor r g b) st = nw_fgcolor E r g b st"
| "nw_draw E (Bgcolor r g b) st = nw_bgcolor E r g b st"
| "nw_draw E (Rect x y w h) st = nw_rect E x y w h st"
| "nw_draw E (Clear x y w h) st = nw_clear E x y w h st"
| "nw_draw E (Line x y w h) st = nw_line E x y w h st"
| "nw_draw E (Text x y cs) st = nw_string E x y (cs @ [0]) st"

fun draw_words :: "draw \<Rightarrow> u32 list" where
  "draw_words (Fgcolor r g b) = [GRAPHICS_FGCOLOR, r, g, b]"
| "draw_words (Bgcolor r g b) = [GRAPHICS_BGCOLOR, r, g, b]"
| "draw_words (Rect x y w h) = [GRAPHICS_RECT, x, y, w, h]"
| "draw_words (Clear x y w h) = [GRAPHICS_CLEAR, x, y, w, h]"
| "draw_words (Line x y w h) = [GRAPHICS_LINE, x, y, w, h]"
| "draw_words (Text x y cs) = [GRAPHICS_TEXT, x, y, of_nat (length cs)] @ map scast cs"

text \<open>The same drawing with the operations of the kernel.\<close>

fun draw_directly :: "draw \<Rightarrow> graphics \<times> bitmap \<Rightarrow> graphics \<times> bitmap" where
  "draw_directly (Fgcolor r g b) (gr, bm) = (graphics_fgcolor \<lparr>red = ucast r, green = ucast g, blue = ucast b, alpha = 0\<rparr> gr, bm)"
| "draw_directly (Bgcolor r g b) (gr, bm) = (graphics_bgcolor \<lparr>red = ucast r, green = ucast g, blue = ucast b, alpha = 0\<rparr> gr, bm)"
| "draw_directly (Rect x y w h) (gr, bm) = (gr, graphics_rect gr x y w h bm)"
| "draw_directly (Clear x y w h) (gr, bm) = (gr, graphics_clear gr x y w h bm)"
| "draw_directly (Line x y w h) (gr, bm) = (gr, graphics_line gr x y w h bm)"
| "draw_directly (Text x y cs) (gr, bm) =
     (gr, fold (\<lambda>i. graphics_char gr (x + of_nat i * FONT_WIDTH) y (cs ! i)) [0..<length cs] bm)"

definition draw_ok :: "draw \<Rightarrow> bool" where
  "draw_ok d \<longleftrightarrow> (case d of Text x y cs \<Rightarrow> 0 \<notin> set cs \<and> length cs < 2 ^ 30 | _ \<Rightarrow> True)"

lemma ucast_scast: "ucast (scast (c :: u8) :: u32) = c"
proof (rule bit_word_eqI)
  fix n assume "n < LENGTH(8)"
  then show "bit (ucast (scast c :: u32) :: u8) n = bit c n"
    by (cases "n = 7") (auto simp: bit_ucast_iff bit_signed_iff min_def)
qed

lemma write_command_draw:
  assumes ok: "draw_ok d" and m: "\<And>i. i < length (draw_words d) \<Longrightarrow> cmd (p + int i) = draw_words d ! i"
  shows "write_command cmd p s = Some (int (length (draw_words d)), draw_directly d s)"
proof (cases d)
  case (Text x y cs)
  have l: "length cs < 2 ^ 30" using ok by (simp add: draw_ok_def Text)
  have c: "cmd (p + 4 + int i) = scast (cs ! i)" if "i < length cs" for i
    using m [of "4 + i"] that by (simp add: Text add.assoc)
  have n: "sint (of_nat k :: u32) = int k" if "k \<le> length cs" for k
    using that l by (simp add: signed_of_nat signed_take_bit_int_eq_self)
  have h: "cmd p = GRAPHICS_TEXT" "cmd (p + 1) = x" "cmd (p + 2) = y" "cmd (p + 3) = of_nat (length cs)"
    using m [of 0] m [of 1] m [of 2] m [of 3] by (simp_all add: Text)
  obtain g b where s: "s = (g, b)" by (cases s)
  have "write_text g cmd p b = fold (\<lambda>i. graphics_char g (x + of_nat i * FONT_WIDTH) y (cs ! i)) [0..<length cs] b"
    unfolding write_text_def for_int_def h n [OF order_refl] nat_int
    by (rule fold_cong) (simp_all add: n c ucast_scast)
  then show ?thesis using h n [OF order_refl] unfolding Text s
    by (simp add: write_command_def GRAPHICS_TEXT_def GRAPHICS_FGCOLOR_def GRAPHICS_BGCOLOR_def GRAPHICS_RECT_def GRAPHICS_CLEAR_def GRAPHICS_LINE_def)
qed (use m [of 0] m [of 1] m [of 2] m [of 3] m [of 4] in
    \<open>cases s; simp add: write_command_def cmd_color_def GRAPHICS_TEXT_def GRAPHICS_FGCOLOR_def GRAPHICS_BGCOLOR_def GRAPHICS_RECT_def
       GRAPHICS_CLEAR_def GRAPHICS_LINE_def\<close>)+

definition all_words :: "draw list \<Rightarrow> u32 list" where "all_words ds = concat (map draw_words ds)"

lemma write_from_draws:
  "\<forall>d \<in> set ds. draw_ok d \<Longrightarrow> (\<And>i. i < length (all_words ds) \<Longrightarrow> cmd (p + int i) = all_words ds ! i) \<Longrightarrow>
    graphics_write_from cmd p (int (length (all_words ds))) s = Some (0, fold draw_directly ds s)"
proof (induction ds arbitrary: p s)
  case Nil
  show ?case by (subst graphics_write_from.simps) (simp add: all_words_def)
next
  case (Cons d ds)
  let ?n = "length (draw_words d)"
  have w: "all_words (d # ds) = draw_words d @ all_words ds" by (simp add: all_words_def)
  have pos: "0 < ?n" by (cases d) simp_all
  have a: "cmd (p + int i) = draw_words d ! i" if "i < ?n" for i
    using Cons.prems(2) [of i] that unfolding w by (simp add: nth_append)
  have b: "cmd (p + int ?n + int i) = all_words ds ! i" if "i < length (all_words ds)" for i
    using Cons.prems(2) [of "?n + i"] that unfolding w by (simp add: nth_append add.assoc)
  have c: "write_command cmd p s = Some (int ?n, draw_directly d s)"
    using Cons.prems(1) by (intro write_command_draw a) simp_all
  have r: "graphics_write_from cmd (p + int ?n) (int (length (all_words ds))) (draw_directly d s) = Some (0, fold draw_directly ds (draw_directly d s))"
    using Cons.prems(1) by (intro Cons.IH b) simp_all
  have l: "int (length (all_words (d # ds))) = int ?n + int (length (all_words ds))" unfolding w by simp
  have "0 < int ?n + int (length (all_words ds))" using pos by linarith
  then show ?case unfolding l using c r by (subst graphics_write_from.simps) simp
qed

text \<open>
  A program over the kernel: what it writes to its window is given to \<open>graphics_write\<close> with the graphics
  object of the window.  The instance stands for the way of a write through the kernel when the number names
  the window: \<^verbatim>\<open>sys_object_write\<close> finds the object, \<^verbatim>\<open>kobject_write\<close> hands a write to a window that is not a
  post of events to \<^verbatim>\<open>window_write_graphics\<close>, and that calls \<^verbatim>\<open>graphics_write\<close>; these three are modelled in
  \<open>Syscall\<close>, \<open>Kobject\<close> and \<open>Window\<close>.
\<close>

definition memory :: "u32 list \<Rightarrow> int \<Rightarrow> u32" where
  "memory ws i = (if 0 \<le> i \<and> nat i < length ws then ws ! nat i else 0)"

definition window_calls :: "(graphics \<times> bitmap) calls" where
  "window_calls = \<lparr>open_window = (\<lambda>fd x y w h s. None), object_size = (\<lambda>fd d s. Some (d, s)),
     write_words = (\<lambda>fd ws n s. graphics_write (memory ws) n s),
     write_events = (\<lambda>fd es s. None), read_events = (\<lambda>fd n b s. None)\<rparr>"

datatype draw_op = Draw draw | Flush

fun run_ops :: "'w calls \<Rightarrow> draw_op list \<Rightarrow> nwindow \<times> 'w \<Rightarrow> (nwindow \<times> 'w) option" where
  "run_ops E [] st = Some st"
| "run_ops E (Draw d # xs) st = do { st \<leftarrow> nw_draw E d st; run_ops E xs st }"
| "run_ops E (Flush # xs) st = do { st \<leftarrow> nw_flush E st; run_ops E xs st }"

fun drawn :: "draw_op list \<Rightarrow> draw list" where
  "drawn [] = []"
| "drawn (Draw d # xs) = d # drawn xs"
| "drawn (Flush # xs) = drawn xs"

text \<open>The block has 1024 words; \<open>fits k\<close> says that no more are collected before a flush, when there are \<open>k\<close> already.\<close>

fun fits :: "nat \<Rightarrow> draw_op list \<Rightarrow> bool" where
  "fits k [] \<longleftrightarrow> True"
| "fits k (Draw d # xs) \<longleftrightarrow> draw_ok d \<and> k + length (draw_words d) \<le> 1024 \<and> fits (k + length (draw_words d)) xs"
| "fits k (Flush # xs) \<longleftrightarrow> fits 0 xs"

text \<open>The commands \<open>ds\<close> wait in the buffer.\<close>

definition pending :: "draw list \<Rightarrow> nwindow \<Rightarrow> bool" where
  "pending ds nw \<longleftrightarrow> length (gbuffer nw) = 1024 \<and> glength nw = 4096 \<and> gindex nw = int (length (all_words ds)) \<and>
     length (all_words ds) \<le> 1024 \<and> take (length (all_words ds)) (gbuffer nw) = all_words ds \<and> (\<forall>d \<in> set ds. draw_ok d)"

lemma put_pending:
  assumes "pending ds nw" "draw_ok d"
  shows "if length (all_words ds) + length (draw_words d) \<le> 1024
    then \<exists>nw'. put_words (draw_words d) nw = Some nw' \<and> pending (ds @ [d]) nw'
    else put_words (draw_words d) nw = None"
  using assms by (auto simp: pending_def put_words_def all_words_def)

lemma draw_put:
  assumes "pending ds nw" "draw_ok d" "length (all_words ds) + length (draw_words d) \<le> 4096"
  shows "nw_draw E d (nw, s) = map_option (\<lambda>nw. (nw, s)) (put_words (draw_words d) nw)"
proof (cases d)
  case (Text x y cs)
  have l: "length cs < 2 ^ 30" "0 \<notin> set cs" using assms(2) by (simp_all add: draw_ok_def Text)
  have n: "sint (of_nat (length cs) :: u32) = int (length cs)"
    using l(1) by (simp add: signed_of_nat signed_take_bit_int_eq_self)
  have "strlen (cs @ [0]) = Some (of_nat (length cs))" using l(2) by (intro strlen_cstr) (simp add: is_cstr_def)
  then show ?thesis using assms(1,3) n
    by (simp add: Text nw_string_def pending_def map_option_case split: option.splits)
qed (use assms(1,3) in \<open>simp_all add: pending_def nw_fgcolor_def nw_bgcolor_def nw_rect_def nw_clear_def nw_line_def
       nw_draw3_def nw_draw4_def map_option_case split: option.splits\<close>)

lemma flush_pending:
  assumes "pending ds nw"
  shows "\<exists>nw'. nw_flush window_calls (nw, s) = Some (nw', fold draw_directly ds s) \<and> pending [] nw'"
proof -
  have m: "memory (gbuffer nw) (0 + int i) = all_words ds ! i" if "i < length (all_words ds)" for i
  proof -
    have "all_words ds ! i = gbuffer nw ! i" using assms that by (metis nth_take pending_def)
    then show ?thesis using assms that by (simp add: memory_def pending_def)
  qed
  have "graphics_write_from (memory (gbuffer nw)) 0 (int (length (all_words ds))) s = Some (0, fold draw_directly ds s)"
    using assms m by (intro write_from_draws) (simp_all add: pending_def)
  then show ?thesis using assms
    by (simp add: nw_flush_def window_calls_def graphics_write_def pending_def all_words_def)
qed

lemma run_ops_pending:
  "pending ds nw \<Longrightarrow> fits (length (all_words ds)) xs \<Longrightarrow>
    \<exists>nw' s' ds'. run_ops window_calls xs (nw, s) = Some (nw', s') \<and> pending ds' nw' \<and>
      fold draw_directly ds' s' = fold draw_directly (ds @ drawn xs) s"
proof (induction xs arbitrary: ds nw s rule: drawn.induct)
  case 1
  then show ?case by auto
next
  case (2 d xs)
  let ?n = "length (all_words ds) + length (draw_words d)"
  have d: "draw_ok d" "?n \<le> 1024" using 2(3) by simp_all
  obtain nw1 where nw1: "put_words (draw_words d) nw = Some nw1" "pending (ds @ [d]) nw1"
    using put_pending [OF 2(2) d(1)] d(2) by auto
  have "length (all_words (ds @ [d])) = ?n" by (simp add: all_words_def)
  then have "fits (length (all_words (ds @ [d]))) xs" using 2(3) by simp
  from 2(1) [OF nw1(2) this, of s] show ?case
    using draw_put [OF 2(2) d(1), of window_calls s] nw1(1) d(2) by simp
next
  case (3 xs)
  obtain nw1 where nw1: "nw_flush window_calls (nw, s) = Some (nw1, fold draw_directly ds s)" "pending [] nw1"
    using flush_pending [OF 3(2)] by blast
  have "fits (length (all_words [])) xs" using 3(3) by (simp add: all_words_def)
  from 3(1) [OF nw1(2) this, of "fold draw_directly ds s"] show ?case using nw1(1) by simp
qed

text \<open>Claim C36.  What a program draws through its buffer appears as if every operation had been carried out by the kernel at once,
  wherever the program flushes, as long as no more than 1024 words, the size of the buffer, are collected between two flushes.\<close>

theorem nwindow_draws:
  assumes "fits 0 xs" "length block = 1024"
    and "nw_create_default window_calls block dims s = Some (nw, s)"
  shows "\<exists>nw'. run_ops window_calls (xs @ [Flush]) (nw, s) = Some (nw', fold draw_directly (drawn xs) s)"
proof -
  have run: "run_ops E (as @ bs) st = do { st \<leftarrow> run_ops E as st; run_ops E bs st }" for E :: "'w calls" and as bs st
    by (induction E as st rule: run_ops.induct) (simp_all split: bind_split)
  have "pending [] nw" using assms(2,3)
    by (auto simp: nw_create_default_def nw_create_fd_def window_calls_def pending_def all_words_def PAGE_SIZE_def)
  moreover have "fits (length (all_words [])) xs" using assms(1) by (simp add: all_words_def)
  ultimately obtain nw1 s1 ds where r: "run_ops window_calls xs (nw, s) = Some (nw1, s1)" "pending ds nw1"
      "fold draw_directly ds s1 = fold draw_directly (drawn xs) s"
    using run_ops_pending [of "[]" nw xs s] by auto
  obtain nw2 where "nw_flush window_calls (nw1, s1) = Some (nw2, fold draw_directly ds s1)" using flush_pending [OF r(2)] by blast
  then show ?thesis using r(1,3) by (simp add: run)
qed

text \<open>The buffer has 1024 words and is taken to have 4096: a program that does not flush draws outside it as soon as it has
  collected more than 1024 words, and the test for a full buffer does not stop it.\<close>

theorem nwindow_overflow:
  assumes "\<forall>d \<in> set ds. draw_ok d" "length (all_words ds) \<le> 4096" "length block = 1024"
    and "nw_create_default E block dims s = Some (nw, s1)"
  shows "run_ops E (map Draw ds) (nw, s1) = None \<longleftrightarrow> 1024 < length (all_words ds)"
proof -
  have step: "run_ops E (map Draw xs) (nw, s1) = None \<longleftrightarrow> 1024 < length (all_words (ys @ xs))"
    if "pending ys nw" "\<forall>d \<in> set xs. draw_ok d" "length (all_words (ys @ xs)) \<le> 4096" for xs ys nw
    using that
  proof (induction xs arbitrary: ys nw)
    case Nil
    then show ?case by (simp add: pending_def)
  next
    case (Cons d xs)
    have n: "length (all_words ys) + length (draw_words d) \<le> length (all_words (ys @ d # xs))" by (simp add: all_words_def)
    have d: "nw_draw E d (nw, s1) = map_option (\<lambda>nw. (nw, s1)) (put_words (draw_words d) nw)"
      using Cons.prems(2) by (intro draw_put [OF Cons.prems(1) _ order_trans [OF n Cons.prems(3)]]) simp
    show ?case
    proof (cases "length (all_words ys) + length (draw_words d) \<le> 1024")
      case True
      then obtain nw1 where "put_words (draw_words d) nw = Some nw1" "pending (ys @ [d]) nw1"
        using put_pending [OF Cons.prems(1), of d] Cons.prems(2) by auto
      then show ?thesis using Cons.IH [of "ys @ [d]" nw1] Cons.prems d by simp
    next
      case False
      then show ?thesis using put_pending [OF Cons.prems(1), of d] Cons.prems(2) d n by simp
    qed
  qed
  have "pending [] nw" using assms(3,4)
    by (auto simp: nw_create_default_def nw_create_fd_def pending_def all_words_def PAGE_SIZE_def split: bind_splits)
  from step [OF this assms(1)] assms(2) show ?thesis by simp
qed

theorem nwindow_draws_witness:
  "\<exists>nw nw'. nw_create_default window_calls (replicate 1024 7) (640, 480) (sample_graphics, sample_bitmap) = Some (nw, (sample_graphics, sample_bitmap)) \<and>
     run_ops window_calls [Draw (Fgcolor 255 0 0), Flush, Draw (Rect 1 2 3 4), Draw (Text 5 6 [104, 105]), Flush]
       (nw, (sample_graphics, sample_bitmap)) =
     Some (nw', fold draw_directly [Fgcolor 255 0 0, Rect 1 2 3 4, Text 5 6 [104, 105]] (sample_graphics, sample_bitmap))"
proof -
  let ?s = "(sample_graphics, sample_bitmap)" and ?xs = "[Draw (Fgcolor 255 0 0), Flush, Draw (Rect 1 2 3 4), Draw (Text 5 6 [104, 105])]"
  obtain nw where c: "nw_create_default window_calls (replicate 1024 7) (640, 480) ?s = Some (nw, ?s)"
    by (simp add: nw_create_default_def nw_create_fd_def window_calls_def)
  have "fits 0 ?xs" by (simp add: draw_ok_def)
  from nwindow_draws [OF this _ c] c show ?thesis by auto
qed

theorem nwindow_overflow_witness:
  "\<exists>nw. nw_create_default window_calls (replicate 1024 7) (640, 480) (sample_graphics, sample_bitmap) = Some (nw, (sample_graphics, sample_bitmap)) \<and>
     run_ops window_calls (map Draw (replicate 205 (Rect 0 0 1 1))) (nw, (sample_graphics, sample_bitmap)) = None"
proof -
  let ?s = "(sample_graphics, sample_bitmap)" and ?ds = "replicate 205 (Rect 0 0 1 1)"
  obtain nw where c: "nw_create_default window_calls (replicate 1024 7) (640, 480) ?s = Some (nw, ?s)"
    by (simp add: nw_create_default_def nw_create_fd_def window_calls_def)
  have l: "length (all_words ?ds) = 1025" by (simp add: all_words_def length_concat sum_list_replicate)
  have "\<forall>d \<in> set ?ds. draw_ok d" by (simp add: draw_ok_def)
  from nwindow_overflow [OF this _ _ c] l c show ?thesis by auto
qed

end
