(* ===== verification/Serial.thy ===== *)
theory Serial
  imports Ata
begin

text \<open>
  Serial lines: \<^verbatim>\<open>kernel/serial.c\<close>, over the ports of the record \<open>machine\<close>.  The kernel waits for a line by
  reading its status register again and again; a wait that does not end is the value \<open>None\<close>.
\<close>

section \<open>Ports and registers\<close>

definition COM1 :: int where "COM1 = 0x3f8"
definition COM2 :: int where "COM2 = 0x2f8"
definition COM3 :: int where "COM3 = 0x3e8"
definition COM4 :: int where "COM4 = 0x2e8"
definition SERIAL_IRQ_ENABLE :: int where "SERIAL_IRQ_ENABLE = 1"
definition SERIAL_DIVISOR_LO :: int where "SERIAL_DIVISOR_LO = 0"
definition SERIAL_DIVISOR_HI :: int where "SERIAL_DIVISOR_HI = 1"
definition SERIAL_FCR :: int where "SERIAL_FCR = 2"
definition SERIAL_LCR :: int where "SERIAL_LCR = 3"
definition SERIAL_MCR :: int where "SERIAL_MCR = 4"
definition SERIAL_LSR :: int where "SERIAL_LSR = 5"
definition SERIAL_FIFO_ENABLE :: u8 where "SERIAL_FIFO_ENABLE = 0x01"
definition SERIAL_FIFO_CLEAR_RECIEVER :: u8 where "SERIAL_FIFO_CLEAR_RECIEVER = 0x02"
definition SERIAL_FIFO_CLEAR_TRANSMITTER :: u8 where "SERIAL_FIFO_CLEAR_TRANSMITTER = 0x04"
definition SERIAL_TRIGGER_LEVEL0 :: u8 where "SERIAL_TRIGGER_LEVEL0 = 0x40"
definition SERIAL_TRIGGER_LEVEL1 :: u8 where "SERIAL_TRIGGER_LEVEL1 = 0x80"
definition SERIAL_CHARLEN_START :: u8 where "SERIAL_CHARLEN_START = 0x01"
definition SERIAL_DLAB_ENABLE :: u8 where "SERIAL_DLAB_ENABLE = 0x08"
definition SERIAL_DATA_TERMINAL_READY :: u8 where "SERIAL_DATA_TERMINAL_READY = 0x01"
definition SERIAL_REQUEST_TO_SEND :: u8 where "SERIAL_REQUEST_TO_SEND = 0x02"
definition SERIAL_AUX_OUT2 :: u8 where "SERIAL_AUX_OUT2 = 0x08"
definition SERIAL_DATA_AVAILABLE :: u8 where "SERIAL_DATA_AVAILABLE = 0x01"
definition SERIAL_TRANSMIT_EMPTY :: u8 where "SERIAL_TRANSMIT_EMPTY = 0x20"

definition serial_ports :: "int list" where "serial_ports = [COM1, COM2, COM3, COM4]"

section \<open>Operations\<close>

definition serial_init_port :: "'h machine \<Rightarrow> int \<Rightarrow> 'h \<Rightarrow> 'h" where
  "serial_init_port E port h =
     (let h = out8 E 0x00 (port + SERIAL_IRQ_ENABLE) h;
          h = out8 E SERIAL_DLAB_ENABLE (port + SERIAL_LCR) h;
          h = out8 E 0x03 (port + SERIAL_DIVISOR_LO) h;
          h = out8 E 0x00 (port + SERIAL_DIVISOR_HI) h;
          h = out8 E (SERIAL_CHARLEN_START * 3) (port + SERIAL_LCR) h;
          h = out8 E (SERIAL_FIFO_ENABLE OR SERIAL_FIFO_CLEAR_RECIEVER OR SERIAL_FIFO_CLEAR_TRANSMITTER OR
                SERIAL_TRIGGER_LEVEL0 OR SERIAL_TRIGGER_LEVEL1) (port + SERIAL_FCR) h in
      out8 E (SERIAL_DATA_TERMINAL_READY OR SERIAL_REQUEST_TO_SEND OR SERIAL_AUX_OUT2) (port + SERIAL_MCR) h)"

definition serial_received :: "'h machine \<Rightarrow> int \<Rightarrow> 'h \<Rightarrow> bool \<times> 'h" where
  "serial_received E port h = (case in8 E (port + SERIAL_LSR) h of (v, h) \<Rightarrow> (v AND SERIAL_DATA_AVAILABLE \<noteq> 0, h))"

definition is_transmit_empty :: "'h machine \<Rightarrow> int \<Rightarrow> 'h \<Rightarrow> bool \<times> 'h" where
  "is_transmit_empty E port h = (case in8 E (port + SERIAL_LSR) h of (v, h) \<Rightarrow> (v AND SERIAL_TRANSMIT_EMPTY \<noteq> 0, h))"

definition is_valid_port :: "u8 \<Rightarrow> bool" where
  "is_valid_port port_no \<longleftrightarrow> unat port_no < length serial_ports"

text \<open>The empty loops of \<^verbatim>\<open>serial_read\<close> and \<^verbatim>\<open>serial_write\<close>.\<close>

partial_function (option) serial_await :: "('h \<Rightarrow> bool \<times> 'h) \<Rightarrow> 'h \<Rightarrow> 'h option" where
  "serial_await test h = (case test h of (e, h) \<Rightarrow> if e then Some h else serial_await test h)"

definition serial_read :: "'h machine \<Rightarrow> u8 \<Rightarrow> 'h \<Rightarrow> (u8 \<times> 'h) option" where
  "serial_read E port_no h =
     (if \<not> is_valid_port port_no then Some (- 1, h)
      else do {
        let port = serial_ports ! unat port_no;
        h \<leftarrow> serial_await (serial_received E port) h;
        Some (in8 E port h)
      })"

definition serial_write :: "'h machine \<Rightarrow> u8 \<Rightarrow> u8 \<Rightarrow> 'h \<Rightarrow> (int \<times> 'h) option" where
  "serial_write E port_no a h =
     (if \<not> is_valid_port port_no then Some (- 1, h)
      else do {
        let port = serial_ports ! unat port_no;
        h \<leftarrow> serial_await (is_transmit_empty E port) h;
        Some (0, out8 E a port h)
      })"

section \<open>The driver\<close>

text \<open>
  The device layer calls a probe with the places for the number of blocks and for their size, in this
  order; \<^verbatim>\<open>serial_device_probe\<close> names them in the other order.  The pair is in the order of the caller.
\<close>

definition serial_device_probe :: "'h machine \<Rightarrow> int \<Rightarrow> 'h \<Rightarrow> (int \<times> int) option \<times> 'h" where
  "serial_device_probe E u h =
     (if u < 0 \<or> 3 < u then (None, h)
      else (let h = serial_init_port E (serial_ports ! nat u) h; blocksize = 1; nblocks = 0 in (Some (blocksize, nblocks), h)))"

fun serial_read_loop :: "'h machine \<Rightarrow> int \<Rightarrow> nat \<Rightarrow> buf \<Rightarrow> 'h \<Rightarrow> (buf \<times> 'h) option" where
  "serial_read_loop E u 0 cdata h = Some (cdata, h)"
| "serial_read_loop E u (Suc n) cdata h = do {
     (c, h) \<leftarrow> serial_read E (word_of_int u) h;
     serial_read_loop E u n (cdata @ [c]) h
   }"

definition serial_device_read :: "'h machine \<Rightarrow> int \<Rightarrow> int \<Rightarrow> int \<Rightarrow> 'h \<Rightarrow> (int \<times> buf \<times> 'h) option" where
  "serial_device_read E u len off h = do {
     (cdata, h) \<leftarrow> serial_read_loop E u (nat len) [] h;
     Some (len, cdata, h)
   }"

fun serial_write_loop :: "'h machine \<Rightarrow> int \<Rightarrow> buf \<Rightarrow> 'h \<Rightarrow> 'h option" where
  "serial_write_loop E u [] h = Some h"
| "serial_write_loop E u (c # cdata) h = do {
     (r, h) \<leftarrow> serial_write E (word_of_int u) c h;
     serial_write_loop E u cdata h
   }"

definition serial_device_write :: "'h machine \<Rightarrow> int \<Rightarrow> buf \<Rightarrow> int \<Rightarrow> int \<Rightarrow> 'h \<Rightarrow> (int \<times> 'h) option" where
  "serial_device_write E u data len off h = do {
     h \<leftarrow> serial_write_loop E u (take (nat len) data) h;
     Some (len, h)
   }"

text \<open>As for the disks, an operation that does not return is given status 0 in the record.\<close>

definition serial_driver :: "'h machine \<Rightarrow> 'h device_driver" where
  "serial_driver E = \<lparr>drv_name = [115, 101, 114, 105, 97, 108, 0], drv_probe = serial_device_probe E,
     drv_read = Some (\<lambda>u n off h. returned (0, [], h) (serial_device_read E u n off h)),
     drv_read_nonblock = Some (\<lambda>u n off h. returned (0, [], h) (serial_device_read E u n off h)),
     drv_write = Some (\<lambda>u data n off h. returned (0, h) (serial_device_write E u data n off h)),
     drv_multiplier = 0, blocks_read = 0, blocks_written = 0\<rparr>"

definition serial_init :: "'h machine \<Rightarrow> ptr \<Rightarrow> 'h world \<Rightarrow> 'h world" where
  "serial_init E d w =
     device_driver_register d (w\<lparr>hw := fold (serial_init_port E) serial_ports (hw w), drivers := (drivers w)(d := serial_driver E)\<rparr>)"

section \<open>What is sent\<close>

text \<open>
  A line behind a port: \<open>wire h\<close> are the bytes that went out and \<open>busy h\<close> how many looks at the status it takes
  until the transmitter is empty; a byte given to an empty transmitter is sent.
\<close>

definition sends :: "'h machine \<Rightarrow> int \<Rightarrow> ('h \<Rightarrow> buf) \<Rightarrow> ('h \<Rightarrow> nat) \<Rightarrow> bool" where
  "sends E port wire busy \<longleftrightarrow>
     (\<forall>h. case is_transmit_empty E port h of (e, h') \<Rightarrow>
        wire h' = wire h \<and> (if e then busy h' = 0 else busy h' < busy h)) \<and>
     (\<forall>h a. busy h = 0 \<longrightarrow> wire (out8 E a port h) = wire h @ [a])"

lemma await_empty:
  assumes "sends E port wire busy"
  shows "\<exists>h'. serial_await (is_transmit_empty E port) h = Some h' \<and> wire h' = wire h \<and> busy h' = 0"
proof (induction "busy h" arbitrary: h rule: less_induct)
  case less
  obtain e h' where t: "is_transmit_empty E port h = (e, h')" by fastforce
  have s: "wire h' = wire h" "if e then busy h' = 0 else busy h' < busy h"
    using assms t unfolding sends_def by (auto dest: spec [of _ h])
  show ?case
  proof (cases e)
    case True
    then show ?thesis using s t by (subst serial_await.simps) simp
  next
    case False
    then show ?thesis using less [of h'] s t by (subst serial_await.simps) simp
  qed
qed

lemma word_unit: "0 \<le> u \<Longrightarrow> u \<le> 3 \<Longrightarrow> unat (word_of_int u :: u8) = nat u"
  by (simp add: unat_eq_nat_uint uint_word_of_int)

text \<open>Writing to a serial device sends the bytes in order, however long the line keeps the kernel waiting.\<close>

theorem serial_write_sends:
  assumes "0 \<le> u" "u \<le> 3" "sends E (serial_ports ! nat u) wire busy"
  shows "\<exists>h'. serial_device_write E u data (int (length data)) off h = Some (int (length data), h') \<and> wire h' = wire h @ data"
proof -
  have w: "\<exists>h'. serial_write E (word_of_int u) a h = Some (0, h') \<and> wire h' = wire h @ [a]" for a h
  proof -
    have v: "is_valid_port (word_of_int u)" using assms(1,2) by (simp add: is_valid_port_def word_unit serial_ports_def)
    obtain h1 where h1: "serial_await (is_transmit_empty E (serial_ports ! nat u)) h = Some h1" "wire h1 = wire h" "busy h1 = 0"
      using await_empty [OF assms(3)] by blast
    then show ?thesis using assms(3) v unfolding sends_def by (simp add: serial_write_def word_unit assms(1,2))
  qed
  have "\<exists>h'. serial_write_loop E u data h = Some h' \<and> wire h' = wire h @ data"
  proof (induction data arbitrary: h)
    case (Cons a data)
    obtain h1 where h1: "serial_write E (word_of_int u) a h = Some (0, h1)" "wire h1 = wire h @ [a]" using w by blast
    then show ?case using Cons [of h1] by auto
  qed simp
  then show ?thesis by (auto simp: serial_device_write_def)
qed

text \<open>
  A serial device opens with one block of no bytes, as the probe exchanges the two numbers: each
  transfer of the device layer then moves no byte that the caller can count on.
\<close>

theorem serial_open_sizes:
  assumes "d \<noteq> 0" "device_driver_lookup [115, 101, 114, 105, 97, 108, 0] w = Some dd" "dd \<noteq> 0" "drivers w dd = serial_driver E"
    "0 \<le> u" "u \<le> 3"
  shows "\<exists>w'. device_open d [115, 101, 114, 105, 97, 108, 0] u w = Some (d, w') \<and> device_nblocks d w' = 1 \<and> device_block_size d w' = 0"
  using assms by (simp add: device_open_def serial_driver_def serial_device_probe_def device_create_def Let_def
      device_nblocks_def device_block_size_def)

text \<open>A machine whose first serial line takes two looks at the status for a byte.\<close>

definition line_machine :: "(nat \<times> buf) machine" where
  "line_machine = \<lparr>in8 = (\<lambda>p (n, out). if p = COM1 + SERIAL_LSR then (if n = 0 then SERIAL_TRANSMIT_EMPTY else 0, n - 1, out) else (0, n, out)),
     in16 = (\<lambda>p h. (0, h)), out8 = (\<lambda>a p (n, out). if p = COM1 \<and> n = 0 then (2, out @ [a]) else (n, out)),
     out16 = (\<lambda>a p h. h), ticker = (\<lambda>h. \<lparr>clicks = 0, clock_seconds = 0\<rparr>), yield = (\<lambda>h. h), sleep = (\<lambda>n h. h), lock = (\<lambda>h. h), unlock = (\<lambda>h. h)\<rparr>"

theorem serial_write_sends_witness:
  "\<exists>h'. serial_device_write line_machine 0 [104, 105] 2 0 (1, []) = Some (2, h') \<and> snd h' = [104, 105]"
proof -
  have "sends line_machine (serial_ports ! nat 0) snd fst"
    by (auto simp: sends_def line_machine_def serial_ports_def is_transmit_empty_def SERIAL_TRANSMIT_EMPTY_def COM1_def SERIAL_LSR_def)
  from serial_write_sends [OF _ _ this, of "[104, 105]" 0 "(1, [])"] show ?thesis by simp
qed

end
