(* ===== verification/Spec2Isabelle.thy ===== *)
theory Spec2Isabelle
  imports Kernel_Prelude Klist Kmalloc Page Pagetable Kstring Kprintf Hash_Set Pipe
    Device Bcache Diskfs Diskfs_Props Diskfs_File Diskfs_Dir Diskfs_Volume
    Vfs Vfs_Props Diskfs_Vfs Cdromfs Process Scheduler Scheduler_Props Interrupt Ata Ata_Props
    Event_Queue Event_Queue_Props Keyboard Font Graphics Graphics_Props Window Window_Props Console Console_Props Clock Mutex
    User_Memory Kobject Is_Valid Loader Syscall Syscall_Props Object_Calls Object_Props
    Stdio Nwindow Serial
begin

text \<open>
  A model of Basekernel, a small operating system kernel for the 32-bit x86, and of the part of its
  user library that has logic of its own.  Every definition that models code is a translation of C
  code under \<^verbatim>\<open>src/kernel\<close> or \<^verbatim>\<open>src/library\<close>, with the name of the function it translates or
  a name close to it; the theorems state what the code does, defects included.

  THE PROGRAM.  The kernel hands out memory in pages and chunks, runs processes over a list of ready
  processes, and gives them numbered objects: files, directories, windows, consoles, pipes and
  devices.  A system call finds the object of its number and calls the component behind it.  Files go
  through a layer of operation tables to a file system, from there to the cache of blocks, to the layer
  of devices and to the disk driver, which speaks to the ports.  Output goes to windows that draw on
  one frame buffer, input comes from interrupts through queues of events.  A process that has to wait
  is put on a list of its component and another process runs.

  CONVENTIONS.  A C \<^verbatim>\<open>struct\<close> is a record with the fields of the source, an \<^verbatim>\<open>enum\<close> a datatype
  or numbered constants, an unsigned integer a machine word (\<^verbatim>\<open>u8\<close>, \<^verbatim>\<open>u16\<close>, \<^verbatim>\<open>u32\<close>), an \<^verbatim>\<open>int\<close> an
  \<^verbatim>\<open>int\<close> with \<open>i32\<close> where it can leave its range.  Blocks of memory that the kernel allocates are named by
  pointers \<open>ptr\<close>, with 0 for null, and live in maps of the state, so that sharing and dangling links are
  visible; buffers are lists of bytes that end where the object ends.  A result \<open>None\<close> is what C does not
  define or never finishes: an access outside an object or through null, a halt of the machine, a
  loop that does not end.  A failure the code reports is a value of the result, as in the code: a null
  pointer or an error number (\<open>kerr\<close>).  Messages printed on the way are left out.

  THE THEORIES, in the order of the calls, with the files they model.

  Foundations.  \<open>Kernel_Prelude\<close>: types, error codes, page size, shared lemmas.  \<open>Klist\<close>: \<^verbatim>\<open>list.c\<close>, the
  intrusive lists, refined to sequences, with the interface \<open>fifo_store\<close> of a queue.  \<open>Kmalloc\<close>: \<^verbatim>\<open>kmalloc.c\<close>,
  refined to first fit on a sequence of chunks.  \<open>Page\<close>: \<^verbatim>\<open>page.c\<close>, with the interface \<open>page_source\<close>.
  \<open>Pagetable\<close>: \<^verbatim>\<open>pagetable.c\<close>, tables in page frames.  \<open>Kstring\<close>, \<open>Kprintf\<close>, \<open>Hash_Set\<close>: \<^verbatim>\<open>string.c\<close>, \<^verbatim>\<open>printf.c\<close>,
  \<^verbatim>\<open>hash_set.c\<close>.  \<open>User_Memory\<close>: memory as the kernel sees it through the current page table (interface
  \<open>byte_memory\<close>).

  Storage.  \<open>Device\<close>: \<^verbatim>\<open>device.c\<close>, drivers as records of functions on the state of the hardware.  \<open>Ata\<close>: \<^verbatim>\<open>ata.c\<close>;
  \<open>Ata_Props\<close> shows that over drives that follow the standard (the predicate \<open>drives_ok\<close>, which a simulated
  drive satisfies) the driver is an array of blocks.  \<open>Serial\<close>: \<^verbatim>\<open>serial.c\<close>.  \<open>Bcache\<close>: \<^verbatim>\<open>bcache.c\<close>, coherent
  with the disk; it provides the interfaces \<open>block_store\<close> and \<open>flush_store\<close>.  \<open>Diskfs\<close>: \<^verbatim>\<open>diskfs.c\<close> over a store
  of blocks; \<open>Diskfs_Props\<close> proves files and the bitmap inside \<open>disk_volume\<close>, an extension of \<open>flush_store\<close>
  interpreted on the cache; \<open>Diskfs_File\<close>, \<open>Diskfs_Dir\<close> and \<open>Diskfs_Volume\<close> state files, directories and
  formatting.  \<open>Vfs\<close>: \<^verbatim>\<open>fs.c\<close>; \<open>Vfs_Props\<close> proves traversal and byte-wise reading and writing, the latter
  inside the interface \<open>file_store\<close>, which \<open>Diskfs_Vfs\<close> discharges for the operation table of \<^verbatim>\<open>diskfs.c\<close>.
  \<open>Cdromfs\<close>: \<^verbatim>\<open>cdromfs.c\<close>.

  Processes.  \<open>Process\<close> and \<open>Scheduler\<close>: \<^verbatim>\<open>process.c\<close>; the record \<open>psys\<close> holds the list heap, the processes, the
  running one, memory and registers, and a part \<open>kobjs\<close> that later theories fill in.  \<open>Scheduler_Props\<close> refines
  the lists to queues and proves the invariant of the reachable states by rule induction.  \<open>Mutex\<close>, \<open>Pipe\<close>:
  \<^verbatim>\<open>mutex.c\<close>, \<^verbatim>\<open>pipe.c\<close>, with step relations for processes that wait.  \<open>Clock\<close>: \<^verbatim>\<open>clock.c\<close>, \<^verbatim>\<open>rtc.c\<close>.  \<open>Interrupt\<close>:
  \<^verbatim>\<open>interrupt.c\<close>, \<^verbatim>\<open>pic.c\<close>.

  Screen and input.  \<open>Font\<close>, \<open>Graphics\<close>, \<open>Graphics_Props\<close>: \<^verbatim>\<open>font.c\<close>, \<^verbatim>\<open>bitmap.c\<close>, \<^verbatim>\<open>graphics.c\<close> on the bytes of the frame
  buffer.  \<open>Event_Queue\<close>, \<open>Event_Queue_Props\<close>: \<^verbatim>\<open>event_queue.c\<close>, \<^verbatim>\<open>event.c\<close>.  \<open>Keyboard\<close>: \<^verbatim>\<open>keyboard.c\<close>, \<^verbatim>\<open>mouse.c\<close>.
  \<open>Window\<close>, \<open>Window_Props\<close>: \<^verbatim>\<open>window.c\<close> with its reference counts.  \<open>Console\<close>, \<open>Console_Props\<close>: \<^verbatim>\<open>console.c\<close>.  Each
  of these extends the record of objects of the one before, so that a later component is a larger state
  with the operations of the earlier ones.

  System calls.  \<open>Kobject\<close>: \<^verbatim>\<open>kobject.c\<close>, the objects over all components.  \<open>Is_Valid\<close>: \<^verbatim>\<open>is_valid.c\<close> and the paths of
  \<^verbatim>\<open>fs.c\<close>.  \<open>Loader\<close>: \<^verbatim>\<open>loader.c\<close> and the calls that make processes.  \<open>Syscall\<close>: \<^verbatim>\<open>syscall_handler.c\<close>.  \<open>Syscall_Props\<close>
  gives the typing of the tables of objects, \<open>Object_Calls\<close> shows that every call keeps it, and \<open>Object_Props\<close>
  follows bytes through a pipe from one process to another.

  Library.  \<open>Stdio\<close>: \<^verbatim>\<open>stdio.c\<close>, \<^verbatim>\<open>printf\<close> of \<^verbatim>\<open>string.c\<close>, messages.  \<open>Nwindow\<close>: \<^verbatim>\<open>nwindow.c\<close>.  The system calls are
  arguments there.

  WHAT THE LEMMAS SHOW.  Each component has an invariant (\<open>list_rep\<close>, \<open>heap_rep\<close>, \<open>page_wf\<close>, \<open>pt_inv\<close>, \<open>cache_ok\<close>,
  \<open>layout_ok\<close> with \<open>inode_ok\<close>, \<open>sched_ok\<close>, \<open>win_inv\<close>, \<open>console_fits\<close>, \<open>well_typed\<close> and others), lemmas that every
  operation keeps it, and lemmas that say what the operation does to the abstract view: a sequence, a map of
  frames, a map from blocks to bytes, a queue, a picture.  Where C has no meaning a lemma says so.  The numbered
  claims are the properties built on them; each that has hypotheses is followed by a witness, the same theorem
  at a concrete state.

  LOOPS AND BOUNDS.  A loop over a list or a range is structural recursion.  A loop whose end the code does not
  ensure is a \<open>partial_function (option)\<close>, and its end is proved as such: of the allocators and lists
  from their invariants, of waiting from the progress of the clock (\<open>ata_wait_ends\<close>, \<open>clock_wait_returns\<close>),
  of reading and writing from the length that is left.  Fuel occurs in \<open>Vfs\<close>: the traversal of a path takes the length
  of the path, which is more than its words and so always enough, and copying a tree takes a bound on its depth
  and on the length of its listings.  Properties of files assume a volume with one block of bitmap (32768 data blocks) and
  regions in order on the device, \<open>layout_ok\<close>; the search of the bitmap itself is proved for any number of bitmap blocks.

  ASSUMPTIONS.  What is not C code of the repository is an argument: the ports of the machine, what
  \<open>kmalloc\<close> answers to a component above it, what other processes do between a wait and the return from it (\<open>resume\<close>),
  the contents of a page that is not cleared.  What is used of them is a hypothesis with a name
  (\<open>drives_ok\<close>, \<open>kalloc_ok\<close>, \<open>fresh_alloc\<close>, \<open>good_resume\<close>, \<open>device_ok\<close>).  Kernel objects are kept apart from
  the bytes of memory: a write of a program through an unchecked pointer reaches memory and page frames, but not the
  structures of the kernel.  At places where the compiled kernel goes on after an access outside an object the model
  stops, for example at index 32 of the table of objects in \<open>set_object\<close>.

  NOT MODELLED.  Assembly (boot block, kernel core, the system call instruction, the port instructions of
  \<^verbatim>\<open>ioports.h\<close>); the command interpreter \<^verbatim>\<open>kshell.c\<close> and \<^verbatim>\<open>main.c\<close>, which only call modelled operations; the second
  key map, which nothing includes; the vendored allocator \<^verbatim>\<open>library/malloc.c\<close>; the one-line stubs of
  \<^verbatim>\<open>library/syscalls.c\<close>; the initialisation of keyboard, mouse and timer by port commands; user programs; functions
  that only print.
\<close>

end
